(* ===== verification/Prelude.thy ===== *)
theory Prelude
  imports Main "HOL-Library.List_Lexorder" "HOL-Library.Char_ord" "HOL-Library.Signed_Division"
begin

text \<open>
  The vocabulary the component theories share: outcomes of C++ code as values of a sum type,
  their sequencing, the signed 64-bit range, decimal numerals, the ordered association lists that
  stand for \<open>std::map\<close>, and the list lemmas used by several components.  An exception is a value
  \<open>Inl e\<close>; the constructor \<open>Undefined\<close> marks the points where the C++ abstract machine gives no
  meaning to the program (signed overflow, an integer division by zero), so that a theorem can say
  that they are not reached.  \<open>OutOfFuel\<close> is no outcome of the code: each recursion that carries a
  bound has a lemma that the bound it is started with is enough.
\<close>

section \<open>Outcomes\<close>

datatype err =
    InvalidArgument          \<comment> \<open>\<open>std::invalid_argument\<close>, thrown by \<open>EXT_ENFORCE_INVALID\<close>\<close>
  | RuntimeError string      \<comment> \<open>\<open>std::runtime_error\<close> with its message\<close>
  | BadAlloc                 \<comment> \<open>\<open>std::bad_alloc\<close>\<close>
  | Undefined                \<comment> \<open>undefined behaviour of the C++ abstract machine\<close>
  | OutOfFuel                \<comment> \<open>the bound of a recursion of the model was too small\<close>

type_synonym 'a res = "err + 'a"

text \<open>Sequencing: an error of the first computation is the error of the whole.\<close>

definition bindR :: "'a res \<Rightarrow> ('a \<Rightarrow> 'b res) \<Rightarrow> 'b res" where
  "bindR m f = (case m of Inl e \<Rightarrow> Inl e | Inr x \<Rightarrow> f x)"

lemma bindR_simps [simp]:
  "bindR (Inl e) f = Inl e"
  "bindR (Inr x) f = f x"
  by (simp_all add: bindR_def)

lemma bindR_cong [fundef_cong]:
  "m = m' \<Longrightarrow> (\<And>x. m' = Inr x \<Longrightarrow> f x = f' x) \<Longrightarrow> bindR m f = bindR m' f'"
  by (auto simp: bindR_def split: sum.splits)

lemma bindR_eq_Inr [simp]: "bindR m f = Inr y \<longleftrightarrow> (\<exists>x. m = Inr x \<and> f x = Inr y)"
  by (auto simp: bindR_def split: sum.splits)

lemma bindR_eq_Inl:
  "bindR m f = Inl e \<longleftrightarrow> m = Inl e \<or> (\<exists>x. m = Inr x \<and> f x = Inl e)"
  by (auto simp: bindR_def split: sum.splits)

lemma bindR_split:
  "P (bindR m f) \<longleftrightarrow> (\<forall>e. m = Inl e \<longrightarrow> P (Inl e)) \<and> (\<forall>x. m = Inr x \<longrightarrow> P (f x))"
  by (auto simp: bindR_def split: sum.splits)

text \<open>A computation over every element, left to right.\<close>

fun mapR :: "('a \<Rightarrow> 'b res) \<Rightarrow> 'a list \<Rightarrow> 'b list res" where
  "mapR f [] = Inr []"
| "mapR f (x # xs) = bindR (f x) (\<lambda>y. bindR (mapR f xs) (\<lambda>ys. Inr (y # ys)))"

lemma mapR_cong [fundef_cong]:
  "xs = ys \<Longrightarrow> (\<And>x. x \<in> set ys \<Longrightarrow> f x = g x) \<Longrightarrow> mapR f xs = mapR g ys"
  by (induction xs arbitrary: ys) (auto cong: bindR_cong)

lemma mapR_Inr_iff: "mapR f xs = Inr ys \<longleftrightarrow> list_all2 (\<lambda>x y. f x = Inr y) xs ys"
  by (induction xs arbitrary: ys) (auto simp: list_all2_Cons1)

lemma mapR_Inr_total [simp]: "mapR (\<lambda>x. Inr (f x)) xs = Inr (map f xs)"
  by (induction xs) auto

text \<open>A left fold whose step may fail.\<close>

fun foldR :: "('a \<Rightarrow> 'b \<Rightarrow> 'b res) \<Rightarrow> 'a list \<Rightarrow> 'b \<Rightarrow> 'b res" where
  "foldR f [] s = Inr s"
| "foldR f (x # xs) s = bindR (f x s) (\<lambda>s'. foldR f xs s')"

lemma foldR_cong [fundef_cong]:
  "xs = ys \<Longrightarrow> s = t \<Longrightarrow> (\<And>x u. x \<in> set ys \<Longrightarrow> f x u = g x u) \<Longrightarrow> foldR f xs s = foldR g ys t"
  by (induction xs arbitrary: ys s t) (auto cong: bindR_cong)

lemma foldR_append: "foldR f (xs @ ys) s = bindR (foldR f xs s) (foldR f ys)"
  by (induction xs arbitrary: s) (auto split: bindR_split)

text \<open>An invariant of every step is an invariant of the fold.\<close>

lemma foldR_invariant:
  assumes "foldR f xs s = Inr s'" and "P s"
    and "\<And>x t t'. x \<in> set xs \<Longrightarrow> P t \<Longrightarrow> f x t = Inr t' \<Longrightarrow> P t'"
  shows "P s'"
  using assms by (induction xs arbitrary: s) auto

section \<open>Signed 64-bit integers\<close>

text \<open>
  An \<open>int64_t\<close> is an \<open>int\<close> in the range below.  The raw operators are partial: a result out of
  range, a zero divisor and \<open>INT64_MIN / -1\<close> are undefined behaviour.
\<close>

definition i64_min :: int where "i64_min = - 9223372036854775808"
definition i64_max :: int where "i64_max = 9223372036854775807"

definition in_i64 :: "int \<Rightarrow> bool" where
  "in_i64 x \<longleftrightarrow> i64_min \<le> x \<and> x \<le> i64_max"

named_theorems i64_defs

declare i64_min_def [i64_defs] i64_max_def [i64_defs] in_i64_def [i64_defs]

definition raw_i64 :: "int \<Rightarrow> int res" where
  "raw_i64 x = (if in_i64 x then Inr x else Inl Undefined)"

abbreviation raw_add :: "int \<Rightarrow> int \<Rightarrow> int res" where "raw_add a b \<equiv> raw_i64 (a + b)"
abbreviation raw_sub :: "int \<Rightarrow> int \<Rightarrow> int res" where "raw_sub a b \<equiv> raw_i64 (a - b)"
abbreviation raw_mul :: "int \<Rightarrow> int \<Rightarrow> int res" where "raw_mul a b \<equiv> raw_i64 (a * b)"
abbreviation raw_neg :: "int \<Rightarrow> int res" where "raw_neg a \<equiv> raw_i64 (- a)"

definition raw_div :: "int \<Rightarrow> int \<Rightarrow> int res" where
  "raw_div a b = (if b = 0 then Inl Undefined else raw_i64 (a sdiv b))"

text \<open>\<open>INT64_MIN % -1\<close> is undefined because the quotient is.\<close>

definition raw_mod :: "int \<Rightarrow> int \<Rightarrow> int res" where
  "raw_mod a b = (if b = 0 \<or> \<not> in_i64 (a sdiv b) then Inl Undefined else Inr (a smod b))"

lemma raw_i64_Inr [simp]: "raw_i64 x = Inr y \<longleftrightarrow> in_i64 x \<and> y = x"
  by (auto simp: raw_i64_def)

lemma raw_i64_Inl [simp]: "raw_i64 x = Inl e \<longleftrightarrow> \<not> in_i64 x \<and> e = Undefined"
  by (auto simp: raw_i64_def)

lemma raw_div_Inr [simp]: "raw_div a b = Inr q \<longleftrightarrow> b \<noteq> 0 \<and> in_i64 q \<and> q = a sdiv b"
  by (auto simp: raw_div_def)

lemma raw_mod_Inr [simp]:
  "raw_mod a b = Inr r \<longleftrightarrow> b \<noteq> 0 \<and> in_i64 (a sdiv b) \<and> r = a smod b"
  by (auto simp: raw_mod_def)

lemma in_i64_consts [simp]: "in_i64 0" "in_i64 1" "in_i64 (- 1)" "in_i64 i64_min" "in_i64 i64_max"
  by (simp_all add: i64_defs)

section \<open>Truncating and flooring division\<close>

lemma sdiv_nonneg_pos: "0 \<le> a \<Longrightarrow> 0 < b \<Longrightarrow> (a::int) sdiv b = a div b"
  by (cases "a = 0") (simp_all add: signed_divide_int_def)

lemma smod_eq_0_iff: "(b::int) \<noteq> 0 \<Longrightarrow> a smod b = 0 \<longleftrightarrow> b dvd a"
proof -
  assume b: "b \<noteq> 0"
  have id: "a sdiv b * b + a smod b = a" by (rule sdiv_mult_smod_eq)
  show ?thesis
  proof
    assume "a smod b = 0"
    with id show "b dvd a" by (metis add.right_neutral dvd_triv_right)
  next
    assume "b dvd a"
    then obtain k where "a = b * k" by (auto elim: dvdE)
    with b show "a smod b = 0"
      by (auto simp: signed_modulo_int_def signed_divide_int_def abs_mult sgn_mult
          sgn_mult_abs mult.assoc mult.commute)
  qed
qed

lemma int_div_less_iff: "0 < (a::int) \<Longrightarrow> x div a < y \<longleftrightarrow> x < y * a"
proof -
  assume a: "0 < a"
  have id: "x = x div a * a + x mod a" by simp
  have r: "0 \<le> x mod a" "x mod a < a" using a by auto
  show ?thesis
  proof
    assume "x div a < y"
    then have "(x div a + 1) * a \<le> y * a" using a by (intro mult_right_mono) auto
    then have "x div a * a + a \<le> y * a" by (simp add: distrib_right)
    with id r show "x < y * a" by linarith
  next
    assume lt: "x < y * a"
    show "x div a < y"
    proof (rule ccontr)
      assume "\<not> x div a < y"
      then have "y * a \<le> x div a * a" using a by (intro mult_right_mono) auto
      with id r lt show False by linarith
    qed
  qed
qed

lemma int_le_div_iff: "0 < (a::int) \<Longrightarrow> y \<le> x div a \<longleftrightarrow> y * a \<le> x"
  using int_div_less_iff [of a x y] by linarith

section \<open>Lists\<close>

lemma distinct_map_sort_filter:
  "distinct (map f xs) \<Longrightarrow> distinct (map f (sort_key g (filter P xs)))"
  by (auto simp: distinct_map inj_on_def)

end
