(* ===== verification/SafeMath.thy ===== *)
theory SafeMath
  imports Prelude "HOL-Library.Word"
begin

text \<open>
  Checked 64-bit arithmetic: \<open>onnx_lib/common/safe_math.h\<close> (the compiler builtins and the portable
  fallback), the \<open>CheckedDimension*\<close> wrappers of \<open>onnx_core/shapes/shape_check.cc\<close> and the local
  helpers of \<open>onnx_core/expressions/expressions.cc\<close>.  An operation reports overflow exactly when the
  mathematical result leaves the signed 64-bit range, whichever of the code's variants is used.
\<close>

unbundle bit_operations_syntax

section \<open>Wrap-around\<close>

text \<open>The two's-complement value of the low 64 bits.\<close>

definition wrap_i64 :: "int \<Rightarrow> int" where
  "wrap_i64 x = signed_take_bit 63 x"

lemma wrap_i64_id: "in_i64 x \<Longrightarrow> wrap_i64 x = x"
  by (simp add: wrap_i64_def i64_defs signed_take_bit_int_eq_self)

section \<open>The compiler builtins\<close>

text \<open>
  \<open>__builtin_mul_overflow\<close> and its siblings return whether the exact result is out of range and
  store the wrapped result: the pair of the returned flag and the stored value.
\<close>

definition checked_mul_overflow :: "int \<Rightarrow> int \<Rightarrow> bool \<times> int" where
  "checked_mul_overflow a b = (\<not> in_i64 (a * b), wrap_i64 (a * b))"

definition checked_add_overflow :: "int \<Rightarrow> int \<Rightarrow> bool \<times> int" where
  "checked_add_overflow a b = (\<not> in_i64 (a + b), wrap_i64 (a + b))"

definition checked_sub_overflow :: "int \<Rightarrow> int \<Rightarrow> bool \<times> int" where
  "checked_sub_overflow a b = (\<not> in_i64 (a - b), wrap_i64 (a - b))"

section \<open>The portable fallback\<close>

text \<open>
  The branch for compilers without the builtins.  The multiplication compares against the bounds
  before it multiplies; \<open>None\<close> for the stored value when it returns before storing.
\<close>

definition checked_mul_overflow_portable :: "int \<Rightarrow> int \<Rightarrow> bool \<times> int option" where
  "checked_mul_overflow_portable a b =
     (if a = 0 \<or> b = 0 then (False, Some 0)
      else let overflow =
             (if a > 0
              then (if b > 0 then a > i64_max sdiv b else b < i64_min sdiv a)
              else (if b > 0 then a < i64_min sdiv b else b < i64_max sdiv a))
           in if overflow then (True, None) else (False, Some (a * b)))"

text \<open>The additive fallbacks work on the unsigned representations and test the sign bit.\<close>

definition checked_add_overflow_portable :: "64 word \<Rightarrow> 64 word \<Rightarrow> bool \<times> 64 word" where
  "checked_add_overflow_portable a b =
     (let r = a + b in (sint ((a XOR r) AND (b XOR r)) < 0, r))"

definition checked_sub_overflow_portable :: "64 word \<Rightarrow> 64 word \<Rightarrow> bool \<times> 64 word" where
  "checked_sub_overflow_portable a b =
     (let r = a - b in (sint ((a XOR b) AND (a XOR r)) < 0, r))"

lemma sdiv_bounds:
  assumes "0 < (a::int)"
  shows "b > i64_max sdiv a \<longleftrightarrow> a * b > i64_max"
    and "b < i64_min sdiv a \<longleftrightarrow> a * b < i64_min"
proof -
  have e: "i64_max sdiv a = i64_max div a" "i64_min sdiv a = - ((- i64_min) div a)"
    using assms by (simp_all add: i64_defs signed_divide_int_def)
  show "b > i64_max sdiv a \<longleftrightarrow> a * b > i64_max"
    using assms by (simp add: e int_div_less_iff mult.commute)
  have "b < i64_min sdiv a \<longleftrightarrow> (- i64_min) div a < - b" unfolding e by linarith
  also have "\<dots> \<longleftrightarrow> - i64_min < - b * a" using assms by (rule int_div_less_iff)
  also have "\<dots> \<longleftrightarrow> a * b < i64_min" by (simp add: mult.commute)
  finally show "b < i64_min sdiv a \<longleftrightarrow> a * b < i64_min" .
qed

lemma sdiv_max_neg: "a < 0 \<Longrightarrow> b < i64_max sdiv (a::int) \<longleftrightarrow> a * b > i64_max"
proof -
  assume a: "a < 0"
  have "i64_max sdiv a = - (i64_max div (- a))"
    using a by (simp add: i64_defs signed_divide_int_def)
  then have "b < i64_max sdiv a \<longleftrightarrow> i64_max div (- a) < - b" by linarith
  also have "\<dots> \<longleftrightarrow> i64_max < - b * - a" using a by (intro int_div_less_iff) simp
  finally show ?thesis by (simp add: mult.commute)
qed

text \<open>The portable multiplication agrees with the builtin on every pair of operands.\<close>

lemma checked_mul_overflow_portable_eq:
  "checked_mul_overflow_portable a b =
     (let (ovf, r) = checked_mul_overflow a b in (ovf, if ovf then None else Some r))"
proof -
  have pp: "a * b > i64_max \<longleftrightarrow> \<not> in_i64 (a * b)" if "0 < a" "0 < b"
    using mult_pos_pos [OF that] by (auto simp: i64_defs)
  have nn: "a * b > i64_max \<longleftrightarrow> \<not> in_i64 (a * b)" if "a < 0" "b < 0"
    using mult_neg_neg [OF that] by (auto simp: i64_defs)
  have pn: "a * b < i64_min \<longleftrightarrow> \<not> in_i64 (a * b)" if "0 < a" "b < 0"
    using mult_pos_neg [OF that] by (auto simp: i64_defs)
  have np: "a * b < i64_min \<longleftrightarrow> \<not> in_i64 (a * b)" if "a < 0" "0 < b"
    using mult_neg_pos [OF that] by (auto simp: i64_defs)
  consider "a = 0 \<or> b = 0" | "0 < a" "0 < b" | "0 < a" "b < 0" | "a < 0" "0 < b" | "a < 0" "b < 0"
    by linarith
  then show ?thesis
  proof cases
    case 1
    then show ?thesis
      by (auto simp: checked_mul_overflow_portable_def checked_mul_overflow_def wrap_i64_id)
  next
    case 2
    then show ?thesis
      by (auto simp: checked_mul_overflow_portable_def checked_mul_overflow_def wrap_i64_id
          sdiv_bounds pp Let_def mult.commute [of b a])
  next
    case 3
    then show ?thesis
      by (auto simp: checked_mul_overflow_portable_def checked_mul_overflow_def wrap_i64_id
          sdiv_bounds pn Let_def)
  next
    case 4
    then have "a < i64_min sdiv b \<longleftrightarrow> \<not> in_i64 (a * b)"
      using sdiv_bounds(2) [of b a] np by (simp add: mult.commute)
    with 4 show ?thesis
      by (auto simp: checked_mul_overflow_portable_def checked_mul_overflow_def wrap_i64_id Let_def)
  next
    case 5
    then show ?thesis
      by (auto simp: checked_mul_overflow_portable_def checked_mul_overflow_def wrap_i64_id
          sdiv_max_neg nn Let_def)
  qed
qed


text \<open>
  The additive fallbacks: the sign bit of the exclusive-or is set exactly when the exact sum (or
  difference) of the signed values leaves the range.
\<close>

lemma sint_xor_neg: "sint ((x :: 64 word) XOR y) < 0 \<longleftrightarrow> (sint x < 0 \<longleftrightarrow> \<not> sint y < 0)"
  by (simp add: signed_xor_eq)

lemma sint_and_neg: "sint ((x :: 64 word) AND y) < 0 \<longleftrightarrow> sint x < 0 \<and> sint y < 0"
  by (simp add: signed_and_eq)

lemma sint_bounds_64: "i64_min \<le> sint (x :: 64 word)" "sint (x :: 64 word) \<le> i64_max"
  using sint_greater_eq [of x] sint_less [of x] by (simp_all add: i64_defs)

lemma in_i64_sint [simp]: "in_i64 (sint (x :: 64 word))"
  by (simp add: in_i64_def sint_bounds_64)

lemma wrap_i64_cases:
  assumes "2 * i64_min \<le> k" and "k \<le> 2 * i64_max + 1"
  shows "k < i64_min \<Longrightarrow> 0 \<le> wrap_i64 k" and "i64_max < k \<Longrightarrow> wrap_i64 k < 0"
proof -
  have e: "(2::int) ^ 63 = 9223372036854775808" "(2::int) ^ Suc 63 = 18446744073709551616"
    by simp_all
  show "k < i64_min \<Longrightarrow> 0 \<le> wrap_i64 k"
    using signed_take_bit_int_greater_eq [of k 63] assms
    unfolding wrap_i64_def i64_min_def e by linarith
  show "i64_max < k \<Longrightarrow> wrap_i64 k < 0"
    using signed_take_bit_int_less_eq [of 63 k] assms
    unfolding wrap_i64_def i64_max_def e by linarith
qed

lemma wrap_i64_neg_iff:
  assumes "2 * i64_min \<le> k" and "k \<le> 2 * i64_max + 1"
  shows "wrap_i64 k < 0 \<longleftrightarrow> i64_max < k \<or> (i64_min \<le> k \<and> k < 0)"
proof -
  have big: "i64_max < k \<Longrightarrow> wrap_i64 k < 0" and small: "k < i64_min \<Longrightarrow> 0 \<le> wrap_i64 k"
    using wrap_i64_cases [OF assms] by auto
  have mid: "in_i64 k \<Longrightarrow> wrap_i64 k = k" by (rule wrap_i64_id)
  have sign: "i64_min < 0" "0 < i64_max" by (simp_all add: i64_defs)
  consider "i64_max < k" | "k < i64_min" | "in_i64 k" unfolding in_i64_def by linarith
  then show ?thesis
  proof cases
    case 1
    with big show ?thesis by simp
  next
    case 2
    with small sign show ?thesis by auto
  next
    case 3
    with mid show ?thesis by (auto simp: in_i64_def)
  qed
qed

lemma sint_add_64: "sint ((a :: 64 word) + b) = wrap_i64 (sint a + sint b)"
  by (simp add: wrap_i64_def sint_word_ariths)

lemma sint_sub_64: "sint ((a :: 64 word) - b) = wrap_i64 (sint a - sint b)"
  by (simp add: wrap_i64_def sint_word_ariths)

lemma checked_add_overflow_portable_eq:
  "fst (checked_add_overflow_portable a b) = fst (checked_add_overflow (sint a) (sint b))"
  "sint (snd (checked_add_overflow_portable a b)) = snd (checked_add_overflow (sint a) (sint b))"
proof -
  have b: "2 * i64_min \<le> sint a + sint b" "sint a + sint b \<le> 2 * i64_max + 1"
    using sint_bounds_64 [of a] sint_bounds_64 [of b] by linarith+
  show "fst (checked_add_overflow_portable a b) = fst (checked_add_overflow (sint a) (sint b))"
    using sint_bounds_64 [of a] sint_bounds_64 [of b]
    by (auto simp: checked_add_overflow_portable_def checked_add_overflow_def Let_def sint_and_neg
        sint_xor_neg sint_add_64 wrap_i64_neg_iff [OF b] in_i64_def)
  show "sint (snd (checked_add_overflow_portable a b)) = snd (checked_add_overflow (sint a) (sint b))"
    by (simp add: checked_add_overflow_portable_def checked_add_overflow_def Let_def sint_add_64)
qed

lemma checked_sub_overflow_portable_eq:
  "fst (checked_sub_overflow_portable a b) = fst (checked_sub_overflow (sint a) (sint b))"
  "sint (snd (checked_sub_overflow_portable a b)) = snd (checked_sub_overflow (sint a) (sint b))"
proof -
  have b: "2 * i64_min \<le> sint a - sint b" "sint a - sint b \<le> 2 * i64_max + 1"
    using sint_bounds_64 [of a] sint_bounds_64 [of b] by (simp_all add: i64_defs)
  show "fst (checked_sub_overflow_portable a b) = fst (checked_sub_overflow (sint a) (sint b))"
    using sint_bounds_64 [of a] sint_bounds_64 [of b]
    by (auto simp: checked_sub_overflow_portable_def checked_sub_overflow_def Let_def sint_and_neg
        sint_xor_neg sint_sub_64 wrap_i64_neg_iff [OF b] i64_defs)
  show "sint (snd (checked_sub_overflow_portable a b)) = snd (checked_sub_overflow (sint a) (sint b))"
    by (simp add: checked_sub_overflow_portable_def checked_sub_overflow_def Let_def sint_sub_64)
qed


section \<open>Checked dimension arithmetic\<close>

text \<open>\<open>CheckedDimensionMultiply\<close> and \<open>CheckedDimensionAdd\<close> throw \<open>std::invalid_argument\<close> on overflow.\<close>

definition CheckedDimensionMultiply :: "int \<Rightarrow> int \<Rightarrow> int res" where
  "CheckedDimensionMultiply lhs rhs =
     (let (overflow, result) = checked_mul_overflow lhs rhs
      in if \<not> overflow then Inr result else Inl InvalidArgument)"

definition CheckedDimensionAdd :: "int \<Rightarrow> int \<Rightarrow> int res" where
  "CheckedDimensionAdd lhs rhs =
     (let (overflow, result) = checked_add_overflow lhs rhs
      in if \<not> overflow then Inr result else Inl InvalidArgument)"

definition checked_subtract_i64 :: "int \<Rightarrow> int \<Rightarrow> int res" where
  "checked_subtract_i64 a b =
     (let (overflow, result) = checked_sub_overflow a b
      in if \<not> overflow then Inr result else Inl InvalidArgument)"

text \<open>The simplifier sees the checked operations through what they return.\<close>

lemma checked_dim_Inr [simp]:
  "CheckedDimensionMultiply a b = Inr c \<longleftrightarrow> in_i64 (a * b) \<and> c = a * b"
  "CheckedDimensionAdd a b = Inr c \<longleftrightarrow> in_i64 (a + b) \<and> c = a + b"
  "checked_subtract_i64 a b = Inr c \<longleftrightarrow> in_i64 (a - b) \<and> c = a - b"
  by (auto simp: CheckedDimensionMultiply_def CheckedDimensionAdd_def checked_subtract_i64_def
      checked_mul_overflow_def checked_add_overflow_def checked_sub_overflow_def wrap_i64_id)

lemma checked_dim_Inl [simp]:
  "CheckedDimensionMultiply a b = Inl e \<longleftrightarrow> \<not> in_i64 (a * b) \<and> e = InvalidArgument"
  "CheckedDimensionAdd a b = Inl e \<longleftrightarrow> \<not> in_i64 (a + b) \<and> e = InvalidArgument"
  "checked_subtract_i64 a b = Inl e \<longleftrightarrow> \<not> in_i64 (a - b) \<and> e = InvalidArgument"
  by (auto simp: CheckedDimensionMultiply_def CheckedDimensionAdd_def checked_subtract_i64_def
      checked_mul_overflow_def checked_add_overflow_def checked_sub_overflow_def)

section \<open>The product of a list of dimensions\<close>

text \<open>
  \<open>safe_dim_product\<close>: the error handler never returns, so a negative dimension or an overflowing
  product ends the computation with the handler's message.
\<close>

fun safe_dim_product_from :: "int list \<Rightarrow> int \<Rightarrow> int res" where
  "safe_dim_product_from [] result = Inr result"
| "safe_dim_product_from (dim # rest) result =
     (if dim < 0 then Inl (RuntimeError ''Negative dimension value'')
      else let (overflow, product) = checked_mul_overflow result dim
           in if overflow then Inl (RuntimeError ''Tensor dimension product overflow'')
              else safe_dim_product_from rest product)"

definition safe_dim_product :: "int list \<Rightarrow> int res" where
  "safe_dim_product dims = safe_dim_product_from dims 1"

text \<open>\<open>safe_cast_to_size\<close> on a platform whose \<open>size_t\<close> maximum is \<open>size_max\<close>.\<close>

definition safe_cast_to_size :: "int \<Rightarrow> int \<Rightarrow> int res" where
  "safe_cast_to_size size_max value =
     (if value mod 18446744073709551616 > size_max
      then Inl (RuntimeError ''Value too large for this platform'')
      else Inr (value mod (size_max + 1)))"

lemma safe_dim_product_from_Inr:
  "safe_dim_product_from dims r = Inr p \<Longrightarrow>
     p = r * prod_list dims \<and> (\<forall>d \<in> set dims. 0 \<le> d) \<and> (dims \<noteq> [] \<longrightarrow> in_i64 p)"
proof (induction dims arbitrary: r)
  case Nil
  then show ?case by simp
next
  case (Cons d ds)
  from Cons.prems have d: "0 \<le> d" and r: "in_i64 (r * d)"
    and rest: "safe_dim_product_from ds (r * d) = Inr p"
    by (auto simp: checked_mul_overflow_def Let_def wrap_i64_id split: if_splits)
  from Cons.IH [OF rest] d r rest show ?case
    by (cases ds) (auto simp: mult.assoc)
qed

text \<open>An overflow is never reported when every partial product fits.\<close>

lemma safe_dim_product_from_fits:
  "(\<forall>d \<in> set dims. 0 \<le> d) \<Longrightarrow> (\<forall>n \<le> length dims. in_i64 (r * prod_list (take n dims))) \<Longrightarrow>
     safe_dim_product_from dims r = Inr (r * prod_list dims)"
proof (induction dims arbitrary: r)
  case Nil
  then show ?case by simp
next
  case (Cons d ds)
  have fits: "in_i64 (r * prod_list (take n (d # ds)))" if "n \<le> length (d # ds)" for n
    using Cons.prems(2) that by blast
  have step: "in_i64 (r * d)" using fits [of 1] by simp
  have "\<forall>n \<le> length ds. in_i64 (r * d * prod_list (take n ds))"
    using fits [of "Suc _"] by (auto simp: mult.assoc)
  with Cons.IH [of "r * d"] Cons.prems(1) have
    "safe_dim_product_from ds (r * d) = Inr (r * d * prod_list ds)" by simp
  with step Cons.prems(1) show ?case
    by (simp add: checked_mul_overflow_def Let_def wrap_i64_id mult.assoc)
qed

section \<open>The local helpers of the expression engine\<close>

text \<open>
  \<open>floor_div_i64\<close> corrects the truncated quotient; the correction cannot leave the range, the
  quotient itself can only for \<open>INT64_MIN / -1\<close>.
\<close>

definition floor_div_i64 :: "int \<Rightarrow> int \<Rightarrow> int res" where
  "floor_div_i64 a b =
     bindR (raw_div a b) (\<lambda>q. bindR (raw_mod a b) (\<lambda>r.
       Inr (if r \<noteq> 0 \<and> ((r < 0) \<noteq> (b < 0)) then q - 1 else q)))"

definition checked_add_i64 :: "int \<Rightarrow> int \<Rightarrow> int option" where
  "checked_add_i64 a b =
     (if (b > 0 \<and> a > i64_max - b) \<or> (b < 0 \<and> a < i64_min - b) then None else Some (a + b))"

definition checked_mul_i64 :: "int \<Rightarrow> int \<Rightarrow> int option" where
  "checked_mul_i64 a b =
     (if a = 0 \<or> b = 0 then Some 0
      else if a > 0 then
        (if b > 0 then (if a > i64_max sdiv b then None else Some (a * b))
         else if b < i64_min sdiv a then None else Some (a * b))
      else if b > 0 then (if a < i64_min sdiv b then None else Some (a * b))
      else if a \<noteq> 0 \<and> b < i64_max sdiv a then None else Some (a * b))"

text \<open>The magnitude is computed in unsigned arithmetic, so \<open>INT64_MIN\<close> has one.\<close>

definition unsigned_magnitude :: "int \<Rightarrow> int" where
  "unsigned_magnitude value =
     (let magnitude = value mod 18446744073709551616
      in if value < 0 then (0 - magnitude) mod 18446744073709551616 else magnitude)"

lemma checked_add_i64_eq:
  "in_i64 a \<Longrightarrow> in_i64 b \<Longrightarrow> checked_add_i64 a b = (if in_i64 (a + b) then Some (a + b) else None)"
  by (auto simp: checked_add_i64_def i64_defs)

lemma checked_mul_i64_eq: "checked_mul_i64 a b = (if in_i64 (a * b) then Some (a * b) else None)"
proof -
  have "checked_mul_i64 a b = snd (checked_mul_overflow_portable a b)"
    by (auto simp: checked_mul_i64_def checked_mul_overflow_portable_def Let_def)
  then show ?thesis
    by (simp add: checked_mul_overflow_portable_eq checked_mul_overflow_def wrap_i64_id)
qed

lemma unsigned_magnitude_eq: "in_i64 a \<Longrightarrow> unsigned_magnitude a = \<bar>a\<bar>"
proof (cases "a < 0")
  case True
  assume "in_i64 a"
  with True have m: "a mod 18446744073709551616 = a + 18446744073709551616"
    by (subst mod_add_self2 [symmetric], intro mod_pos_pos_trivial) (simp_all add: i64_defs)
  from True \<open>in_i64 a\<close> show ?thesis
    by (simp add: unsigned_magnitude_def m Let_def i64_defs mod_pos_pos_trivial)
next
  case False
  assume "in_i64 a"
  with False show ?thesis
    by (simp add: unsigned_magnitude_def Let_def i64_defs mod_pos_pos_trivial)
qed

text \<open>Flooring: the corrected quotient is the mathematical floor.\<close>

lemma sdiv_floor: "b \<noteq> 0 \<Longrightarrow>
    (a::int) div b = (if a smod b \<noteq> 0 \<and> ((a smod b < 0) \<noteq> (b < 0)) then a sdiv b - 1 else a sdiv b)"
proof -
  assume b: "b \<noteq> 0"
  let ?q = "a sdiv b" and ?r = "a smod b"
  have id: "a = ?q * b + ?r" using sdiv_mult_smod_eq [of a b] by simp
  have "\<bar>?r\<bar> \<le> \<bar>a\<bar> mod \<bar>b\<bar>" using b by (simp add: smod_int_alt_def abs_mult sgn_if)
  moreover have "\<bar>a\<bar> mod \<bar>b\<bar> < \<bar>b\<bar>" using b by simp
  ultimately have r: "\<bar>?r\<bar> < \<bar>b\<bar>" by linarith
  show ?thesis
  proof (cases "?r \<noteq> 0 \<and> ((?r < 0) \<noteq> (b < 0))")
    case True
    then have e: "a = (?q - 1) * b + (?r + b)" using id by (simp add: algebra_simps)
    from True r have "(0 \<le> ?r + b \<and> ?r + b < b) \<or> (b < ?r + b \<and> ?r + b \<le> 0)" by linarith
    then have "(?r + b) div b = 0" by (auto simp: div_pos_pos_trivial div_neg_neg_trivial)
    then have "a div b = ?q - 1" using e b by (metis add.right_neutral div_mult_self3)
    with True show ?thesis by simp
  next
    case False
    with r b have "(0 \<le> ?r \<and> ?r < b) \<or> (b < ?r \<and> ?r \<le> 0)" by linarith
    then have "?r div b = 0" by (auto simp: div_pos_pos_trivial div_neg_neg_trivial)
    then have "a div b = ?q" using id b by (metis add.right_neutral div_mult_self3)
    with False show ?thesis by simp
  qed
qed

lemma floor_div_i64_Inr [simp]:
  "floor_div_i64 a b = Inr q \<longleftrightarrow> b \<noteq> 0 \<and> in_i64 (a sdiv b) \<and> q = a div b"
  by (auto simp: floor_div_i64_def sdiv_floor)

lemma floor_div_i64_Inl:
  "floor_div_i64 a b = Inl e \<longleftrightarrow> (b = 0 \<or> \<not> in_i64 (a sdiv b)) \<and> e = Undefined"
  by (auto simp: floor_div_i64_def bindR_eq_Inl raw_div_def raw_mod_def)

text \<open>A truncated quotient of values in range leaves it only for \<open>INT64_MIN / -1\<close>.\<close>

lemma in_i64_sdiv:
  assumes "in_i64 a" and "a \<noteq> i64_min \<or> b \<noteq> -1"
  shows "in_i64 (a sdiv b)"
proof -
  have le: "- \<bar>a\<bar> \<le> a sdiv b \<and> a sdiv b \<le> \<bar>a\<bar>"
    using sdiv_int_range [of a b] by simp
  show ?thesis
  proof (cases "a = i64_min")
    case True
    with assms have "b \<noteq> -1" by simp
    then have "a sdiv b \<noteq> - a"
      using True int_sdiv_negated_is_minus1 [of a b] by (simp add: i64_defs)
    with le True show ?thesis by (auto simp: i64_defs)
  next
    case False
    with le assms(1) show ?thesis by (auto simp: i64_defs)
  qed
qed

section \<open>Properties\<close>

text \<open>The portable branch of \<open>checked_mul_overflow\<close>, which compares the operands with truncated quotients of
  the bounds before it multiplies, returns the overflow flag of the compiler builtin for every pair of
  integers, and stores the product exactly when the builtin reports no overflow.\<close>

lemma portable_multiplication_is_builtin:
  "checked_mul_overflow_portable a b =
     (fst (checked_mul_overflow a b),
      if fst (checked_mul_overflow a b) then None else Some (snd (checked_mul_overflow a b)))"
  by (simp add: checked_mul_overflow_portable_eq split: prod.split)

text \<open>The portable branches of the checked operations give the results of the compiler builtins for all
  operands.  Addition and subtraction, which work on the unsigned representations and test one sign
  bit, return the same flag and the same 64 bits; multiplication, which compares with truncated
  quotients of the bounds, returns the same flag and stores the product exactly when there is no
  overflow.\<close>

theorem portable_operations_are_builtin:
  "checked_mul_overflow_portable m n =
     (fst (checked_mul_overflow m n),
      if fst (checked_mul_overflow m n) then None else Some (snd (checked_mul_overflow m n))) \<and>
   map_prod id sint (checked_add_overflow_portable a b) = checked_add_overflow (sint a) (sint b) \<and>
   map_prod id sint (checked_sub_overflow_portable a b) = checked_sub_overflow (sint a) (sint b)"
  using portable_multiplication_is_builtin [of m n]
  by (simp add: prod_eq_iff checked_add_overflow_portable_eq checked_sub_overflow_portable_eq)

text \<open>\<open>safe_dim_product\<close> is exact: it returns \<open>p\<close> only when no dimension is negative and \<open>p\<close> is their
  product, in range; and when every dimension is non-negative and every partial product fits it returns.\<close>

lemma safe_dim_product_exact:
  "(safe_dim_product dims = Inr p \<longrightarrow> (\<forall>d \<in> set dims. 0 \<le> d) \<and> p = prod_list dims \<and> in_i64 p) \<and>
   ((\<forall>d \<in> set dims. 0 \<le> d) \<longrightarrow> (\<forall>n \<le> length dims. in_i64 (prod_list (take n dims))) \<longrightarrow>
      safe_dim_product dims = Inr (prod_list dims))"
proof (intro conjI impI)
  assume "safe_dim_product dims = Inr p"
  then have "safe_dim_product_from dims 1 = Inr p" by (simp add: safe_dim_product_def)
  note r = safe_dim_product_from_Inr [OF this]
  show "\<forall>d \<in> set dims. 0 \<le> d" using r by blast
  show p: "p = prod_list dims" using r by (simp only: mult_1)
  show "in_i64 p" using r p by (cases dims) simp_all
next
  assume "\<forall>d \<in> set dims. 0 \<le> d" "\<forall>n \<le> length dims. in_i64 (prod_list (take n dims))"
  then have "safe_dim_product_from dims 1 = Inr (1 * prod_list dims)"
    by (intro safe_dim_product_from_fits) (simp_all only: mult_1)
  then show "safe_dim_product dims = Inr (prod_list dims)" by (simp only: safe_dim_product_def mult_1)
qed

lemma safe_dim_product_exact_witness:
  "safe_dim_product [2, 0, 7] = Inr 0 \<and> prod_list [2, 0, 7 :: int] = 0"
proof -
  have "in_i64 (prod_list (take n [2, 0, 7]))" if "n \<le> 3" for n :: nat
  proof -
    from that consider "n = 0" | "n = 1" | "n = 2" | "n = 3" by linarith
    then show ?thesis by cases (simp_all add: i64_defs)
  qed
  then have "\<forall>n \<le> length [2, 0, 7 :: int]. in_i64 (prod_list (take n [2, 0, 7]))" by simp
  moreover have "\<forall>d \<in> set [2, 0, 7 :: int]. 0 \<le> d" by simp
  ultimately have "safe_dim_product [2, 0, 7] = Inr (prod_list [2, 0, 7])"
    using safe_dim_product_exact by blast
  then show ?thesis by simp
qed

text \<open>\<open>floor_div_i64\<close> returns the mathematical floor of the quotient, and on operands in range it fails only for
  a zero divisor and for \<open>INT64_MIN / -1\<close>, the two divisions without a meaning in C++.\<close>

theorem floor_div_is_floor:
  assumes "in_i64 a" "in_i64 b"
  shows "floor_div_i64 a b =
    (if b = 0 \<or> (a = i64_min \<and> b = - 1) then Inl Undefined else Inr (a div b))"
proof (cases "b = 0 \<or> (a = i64_min \<and> b = - 1)")
  case True
  then have "floor_div_i64 a b = Inl Undefined"
    by (auto simp: floor_div_i64_Inl i64_defs signed_divide_int_def)
  with True show ?thesis by simp
next
  case False
  then have "in_i64 (a sdiv b)" using in_i64_sdiv [OF assms(1)] by blast
  then have "floor_div_i64 a b = Inr (a div b)" using False by simp
  then show ?thesis unfolding if_not_P [OF False] .
qed

lemma floor_div_is_floor_witness:
  "floor_div_i64 (- 7) 2 = Inr (- 4) \<and> floor_div_i64 i64_min (- 1) = Inl Undefined"
  using floor_div_is_floor [of "- 7" 2] floor_div_is_floor [of i64_min "- 1"] by (simp add: i64_defs)

end
