(* ===== verification/Decimal.thy ===== *)
theory Decimal
  imports SafeMath
begin

text \<open>
  Characters and decimal numerals as the expression engine uses them: the C-locale character
  classes, \<open>std::to_string\<close> on \<open>int64_t\<close> and \<open>std::from_chars\<close>.  A \<open>char\<close> is a byte; the numeral of a
  number reads back as the number, and only digits (and a leading minus sign) occur in it.
\<close>

section \<open>Character classes\<close>

definition code :: "char \<Rightarrow> nat" where "code c = of_char c"

definition isdigit :: "char \<Rightarrow> bool" where "isdigit c \<longleftrightarrow> 48 \<le> code c \<and> code c \<le> 57"

definition isalpha :: "char \<Rightarrow> bool" where
  "isalpha c \<longleftrightarrow> (65 \<le> code c \<and> code c \<le> 90) \<or> (97 \<le> code c \<and> code c \<le> 122)"

definition isalnum :: "char \<Rightarrow> bool" where "isalnum c \<longleftrightarrow> isalpha c \<or> isdigit c"

definition isspace :: "char \<Rightarrow> bool" where "isspace c \<longleftrightarrow> code c = 32 \<or> (9 \<le> code c \<and> code c \<le> 13)"

named_theorems char_class

declare isdigit_def [char_class] isalpha_def [char_class] isalnum_def [char_class]
  isspace_def [char_class] code_def [char_class]

section \<open>Numerals of natural numbers\<close>

definition digit :: "nat \<Rightarrow> char" where "digit d = char_of (48 + d)"

fun show_nat :: "nat \<Rightarrow> string" where
  "show_nat n = (if n < 10 then [digit n] else show_nat (n div 10) @ [digit (n mod 10)])"

declare show_nat.simps [simp del]

definition read_step :: "nat \<Rightarrow> char \<Rightarrow> nat" where "read_step n c = 10 * n + (code c - 48)"

definition read_nat :: "string \<Rightarrow> nat" where "read_nat s = foldl read_step 0 s"

lemma code_digit [simp]: "d < 10 \<Longrightarrow> code (digit d) = 48 + d"
  by (simp add: code_def digit_def)

lemma isdigit_digit [simp]: "d < 10 \<Longrightarrow> isdigit (digit d)"
  by (simp add: isdigit_def)

lemma show_nat_digits: "\<forall>c \<in> set (show_nat n). isdigit c"
proof (induction n rule: show_nat.induct)
  case (1 n)
  then show ?case by (subst show_nat.simps) auto
qed

lemma show_nat_nonempty [simp]: "show_nat n \<noteq> []"
  by (subst show_nat.simps) simp

lemma read_show_nat [simp]: "read_nat (show_nat n) = n"
proof (induction n rule: show_nat.induct)
  case (1 n)
  show ?case
  proof (cases "n < 10")
    case True
    then show ?thesis by (subst show_nat.simps) (simp add: read_nat_def read_step_def)
  next
    case False
    with 1 have "read_nat (show_nat (n div 10)) = n div 10" by simp
    with False show ?thesis
      by (subst show_nat.simps) (simp add: read_nat_def read_step_def)
  qed
qed

lemma show_nat_inject [simp]: "show_nat m = show_nat n \<longleftrightarrow> m = n"
  by (metis read_show_nat)

section \<open>Numerals of signed integers\<close>

text \<open>\<open>std::to_string(int64_t)\<close>.\<close>

definition to_string :: "int \<Rightarrow> string" where
  "to_string v = (if v < 0 then ''-'' @ show_nat (nat (- v)) else show_nat (nat v))"

text \<open>
  \<open>TryParseInt64Literal\<close>: \<open>std::from_chars\<close> reads an optional minus sign and at least one digit; the
  whole text must be consumed and the value must be in range.
\<close>

definition TryParseInt64Literal :: "string \<Rightarrow> int option" where
  "TryParseInt64Literal text =
     (let (negative, digits) =
        (case text of [] \<Rightarrow> (False, []) | c # cs \<Rightarrow> if c = CHR ''-'' then (True, cs) else (False, text));
          magnitude = int (read_nat digits);
          v = (if negative then - magnitude else magnitude)
      in if digits = [] \<or> \<not> list_all isdigit digits then None
         else if in_i64 v then Some v else None)"

lemma isdigit_minus [simp]: "\<not> isdigit (CHR ''-'')"
  by (simp add: char_class)

lemma show_nat_Cons: "show_nat n = c # cs \<Longrightarrow> isdigit c"
  using show_nat_digits [of n] by simp

lemma TryParseInt64Literal_digits:
  assumes "ds \<noteq> []" and "list_all isdigit ds"
  shows "TryParseInt64Literal ds =
    (if in_i64 (int (read_nat ds)) then Some (int (read_nat ds)) else None)"
  using assms by (cases ds) (auto simp: TryParseInt64Literal_def Let_def)

text \<open>Reading a printed value gives the value back, for every \<open>int64_t\<close>, \<open>INT64_MIN\<close> included.\<close>

lemma TryParseInt64Literal_to_string: "in_i64 v \<Longrightarrow> TryParseInt64Literal (to_string v) = Some v"
proof (cases "v < 0")
  case True
  assume "in_i64 v"
  with True show ?thesis
    using show_nat_digits [of "nat (- v)"]
    by (auto simp: TryParseInt64Literal_def to_string_def Let_def list_all_iff)
next
  case False
  assume "in_i64 v"
  with False show ?thesis
    using show_nat_digits [of "nat v"]
    by (auto simp: to_string_def TryParseInt64Literal_digits list_all_iff)
qed

lemma to_string_nonneg: "0 \<le> v \<Longrightarrow> to_string v = show_nat (nat v)"
  by (simp add: to_string_def)

lemma to_string_inject: "to_string a = to_string b \<Longrightarrow> a = b"
proof -
  have d: "show_nat m \<noteq> CHR ''-'' # cs" for m cs
    using show_nat_Cons isdigit_minus by blast
  assume "to_string a = to_string b"
  then show ?thesis
    using d [of "nat a"] d [of "nat b"] d [of "nat a", symmetric] d [of "nat b", symmetric]
    by (auto simp: to_string_def split: if_splits)
qed

text \<open>Reading the decimal text of a 64-bit integer gives the integer back, and different integers have
  different texts.\<close>

lemma int64_literal_round_trip:
  assumes "in_i64 v"
  shows "TryParseInt64Literal (to_string v) = Some v \<and> (to_string w = to_string v \<longrightarrow> w = v)"
  using assms TryParseInt64Literal_to_string to_string_inject by blast

lemma int64_literal_round_trip_witness:
  "TryParseInt64Literal (to_string (- 9223372036854775808)) = Some (- 9223372036854775808)"
  using int64_literal_round_trip [of "- 9223372036854775808"] by (simp add: i64_defs)

end
