(* ===== verification/ExprSyntax.thy ===== *)
theory ExprSyntax
  imports Decimal
begin

text \<open>
  The expression AST of \<open>onnx_core/expressions/expressions.h\<close>, its evaluator \<open>eval_node\<close> and the
  mathematical meaning \<open>sem\<close> of an expression over unbounded integers.  \<open>sem\<close> is the specification
  the simplifier passes are measured against; \<open>eval_node\<close> refines it wherever the 64-bit evaluation
  is defined.
\<close>

section \<open>Abstract syntax\<close>

datatype BinOpKind = Add | Sub | Mult | FloorDiv | ExactDiv | Mod | BitXor | BitAnd

datatype UnaryOpKind = USub | UAdd

datatype node =
    Constant int
  | Name string
  | BinOp node BinOpKind node
  | UnaryOp UnaryOpKind node
  | Call string "node list"

section \<open>The evaluator\<close>

definition quoted :: "string \<Rightarrow> string" where "quoted s = [CHR 0x27] @ s @ [CHR 0x27]"

definition in_expression :: "string \<Rightarrow> string \<Rightarrow> err" where
  "in_expression what expr = RuntimeError (what @ '' in expression '' @ quoted expr)"

text \<open>The binary operators on \<open>int64_t\<close> operands; \<open>^\<close> is \<open>max\<close> and \<open>&\<close> is \<open>min\<close>.\<close>

definition eval_binop :: "BinOpKind \<Rightarrow> int \<Rightarrow> int \<Rightarrow> string \<Rightarrow> int res" where
  "eval_binop op l r expr = (case op of
       Add \<Rightarrow> raw_add l r
     | Sub \<Rightarrow> raw_sub l r
     | Mult \<Rightarrow> raw_mul l r
     | FloorDiv \<Rightarrow>
         if r = 0 then Inl (in_expression ''Division by zero'' expr) else floor_div_i64 l r
     | ExactDiv \<Rightarrow>
         if r = 0 then Inl (in_expression ''Division by zero'' expr)
         else bindR (raw_mod l r) (\<lambda>m.
           if m \<noteq> 0 then Inl (in_expression ''Exact division has remainder'' expr)
           else raw_div l r)
     | Mod \<Rightarrow> if r = 0 then Inl (in_expression ''Modulo by zero'' expr) else raw_mod l r
     | BitXor \<Rightarrow> Inr (max l r)
     | BitAnd \<Rightarrow> Inr (min l r))"

text \<open>The only call the evaluator knows.\<close>

definition eval_ceil :: "int \<Rightarrow> int \<Rightarrow> string \<Rightarrow> int res" where
  "eval_ceil n d expr =
     (if d = 0 then Inl (in_expression ''Division by zero in CeilToInt'' expr)
      else bindR (raw_mod n d) (\<lambda>m.
        if m = 0 then raw_div n d else bindR (raw_div n d) (\<lambda>q. raw_add q 1)))"

fun eval_node :: "node \<Rightarrow> (string \<Rightarrow> int option) \<Rightarrow> string \<Rightarrow> int res" where
  "eval_node (Constant c) ctx expr = Inr c"
| "eval_node (Name x) ctx expr = (case ctx x of
       None \<Rightarrow> Inl (in_expression (''Unknown variable '' @ quoted x) expr)
     | Some v \<Rightarrow> Inr v)"
| "eval_node (BinOp l op r) ctx expr =
     bindR (eval_node l ctx expr) (\<lambda>a. bindR (eval_node r ctx expr) (\<lambda>b. eval_binop op a b expr))"
| "eval_node (UnaryOp u x) ctx expr =
     bindR (eval_node x ctx expr) (\<lambda>v. if u = USub then raw_neg v else Inr v)"
| "eval_node (Call f args) ctx expr =
     (if f = ''CeilToInt'' \<and> length args = 2 then
        (case args of [n, d] \<Rightarrow>
           bindR (eval_node n ctx expr) (\<lambda>a. bindR (eval_node d ctx expr) (\<lambda>b. eval_ceil a b expr))
         | _ \<Rightarrow> Inl Undefined)
      else Inl (in_expression (''Unsupported function '' @ quoted f) expr))"

section \<open>The meaning over unbounded integers\<close>

definition sem_binop :: "BinOpKind \<Rightarrow> int \<Rightarrow> int \<Rightarrow> int option" where
  "sem_binop op a b = (case op of
       Add \<Rightarrow> Some (a + b)
     | Sub \<Rightarrow> Some (a - b)
     | Mult \<Rightarrow> Some (a * b)
     | FloorDiv \<Rightarrow> if b = 0 then None else Some (a div b)
     | ExactDiv \<Rightarrow> if b = 0 \<or> \<not> b dvd a then None else Some (a div b)
     | Mod \<Rightarrow> if b = 0 then None else Some (a smod b)
     | BitXor \<Rightarrow> Some (max a b)
     | BitAnd \<Rightarrow> Some (min a b))"

definition sem_ceil :: "int \<Rightarrow> int \<Rightarrow> int option" where
  "sem_ceil n d =
     (if d = 0 then None else if d dvd n then Some (n sdiv d) else Some (n sdiv d + 1))"

fun sem :: "(string \<Rightarrow> int option) \<Rightarrow> node \<Rightarrow> int option" where
  "sem env (Constant c) = Some c"
| "sem env (Name x) = env x"
| "sem env (BinOp l op r) =
     Option.bind (sem env l) (\<lambda>a. Option.bind (sem env r) (\<lambda>b. sem_binop op a b))"
| "sem env (UnaryOp u x) = map_option (\<lambda>v. if u = USub then - v else v) (sem env x)"
| "sem env (Call f args) =
     (if f = ''CeilToInt'' \<and> length args = 2 then
        (case args of [n, d] \<Rightarrow>
           Option.bind (sem env n) (\<lambda>a. Option.bind (sem env d) (\<lambda>b. sem_ceil a b))
         | _ \<Rightarrow> None)
      else None)"

lemma sem_BinOp_Some [simp]:
  "sem env (BinOp l op r) = Some v \<longleftrightarrow>
     (\<exists>a b. sem env l = Some a \<and> sem env r = Some b \<and> sem_binop op a b = Some v)"
  by (auto simp: Option.bind_eq_Some_conv)

lemma sem_Call_Some:
  "sem env (Call f args) = Some v \<longleftrightarrow>
     (\<exists>n d a b. f = ''CeilToInt'' \<and> args = [n, d] \<and> sem env n = Some a \<and> sem env d = Some b
        \<and> sem_ceil a b = Some v)"
  by (auto simp: Option.bind_eq_Some_conv length_Suc_conv numeral_2_eq_2)

lemma sem_binop_simps [simp]:
  "sem_binop Add a b = Some (a + b)"
  "sem_binop Sub a b = Some (a - b)"
  "sem_binop Mult a b = Some (a * b)"
  "sem_binop BitXor a b = Some (max a b)"
  "sem_binop BitAnd a b = Some (min a b)"
  "sem_binop FloorDiv a b = Some v \<longleftrightarrow> b \<noteq> 0 \<and> v = a div b"
  "sem_binop ExactDiv a b = Some v \<longleftrightarrow> b \<noteq> 0 \<and> b dvd a \<and> v = a div b"
  "sem_binop Mod a b = Some v \<longleftrightarrow> b \<noteq> 0 \<and> v = a smod b"
  by (auto simp: sem_binop_def)

section \<open>The evaluator refines the meaning\<close>

lemma dvd_sdiv: "(b::int) \<noteq> 0 \<Longrightarrow> b dvd a \<Longrightarrow> a sdiv b = a div b"
  using smod_eq_0_iff [of b a] sdiv_floor [of b a] by simp

text \<open>
  Where the evaluation overflows, said with the exact values: the first operation, in the order of the
  evaluator, that is defined on its operands but whose result (or, for a remainder, whose quotient) is
  no \<open>int64_t\<close>.
\<close>

definition binop_overflows :: "BinOpKind \<Rightarrow> int \<Rightarrow> int \<Rightarrow> bool" where
  "binop_overflows op a b = (case op of
       Add \<Rightarrow> \<not> in_i64 (a + b)
     | Sub \<Rightarrow> \<not> in_i64 (a - b)
     | Mult \<Rightarrow> \<not> in_i64 (a * b)
     | BitXor \<Rightarrow> False
     | BitAnd \<Rightarrow> False
     | _ \<Rightarrow> b \<noteq> 0 \<and> \<not> in_i64 (a sdiv b))"

definition ceil_overflows :: "int \<Rightarrow> int \<Rightarrow> bool" where
  "ceil_overflows n d \<longleftrightarrow> d \<noteq> 0 \<and> (\<not> in_i64 (n sdiv d) \<or> \<not> d dvd n \<and> \<not> in_i64 (n sdiv d + 1))"

definition both :: "int option \<Rightarrow> int option \<Rightarrow> bool \<Rightarrow> (int \<Rightarrow> int \<Rightarrow> bool) \<Rightarrow> bool" where
  "both x y later test = (case x of None \<Rightarrow> False | Some a \<Rightarrow> later \<or> (case y of None \<Rightarrow> False | Some b \<Rightarrow> test a b))"

fun overflows :: "(string \<Rightarrow> int option) \<Rightarrow> node \<Rightarrow> bool" where
  "overflows env (Constant c) = False"
| "overflows env (Name x) = False"
| "overflows env (BinOp l op r) =
     (overflows env l \<or> both (sem env l) (sem env r) (overflows env r) (binop_overflows op))"
| "overflows env (UnaryOp u x) =
     (overflows env x \<or> u = USub \<and> (case sem env x of None \<Rightarrow> False | Some v \<Rightarrow> \<not> in_i64 (- v)))"
| "overflows env (Call f args) =
     (f = ''CeilToInt'' \<and> length args = 2 \<and>
      (case args of [n, d] \<Rightarrow>
         overflows env n \<or> both (sem env n) (sem env d) (overflows env d) ceil_overflows
       | _ \<Rightarrow> False))"

text \<open>The outcome that the meaning and the overflow determine.\<close>

definition exact_outcome :: "int res \<Rightarrow> bool \<Rightarrow> int option \<Rightarrow> bool" where
  "exact_outcome r over s \<longleftrightarrow>
     (if over then r = Inl Undefined
      else (case s of Some v \<Rightarrow> r = Inr v | None \<Rightarrow> \<exists>m. r = Inl (RuntimeError m)))"

lemma exact_raw [simp]: "exact_outcome (raw_i64 v) (\<not> in_i64 v) (Some v)"
  by (simp add: exact_outcome_def raw_i64_def)

lemma exact_bind:
  assumes "exact_outcome m over s" "\<And>v. exact_outcome (f v) (test v) (g v)"
  shows "exact_outcome (bindR m f) (over \<or> (case s of None \<Rightarrow> False | Some v \<Rightarrow> test v)) (Option.bind s g)"
proof (cases s)
  case (Some v)
  with assms(1) assms(2) [of v] show ?thesis by (cases over) (auto simp: exact_outcome_def split: if_splits)
qed (use assms(1) in \<open>auto simp: exact_outcome_def split: if_splits\<close>)

lemma exact_bind2:
  assumes "exact_outcome x over s" "exact_outcome y over' t"
    and "\<And>a b. exact_outcome (f a b) (test a b) (g a b)"
  shows "exact_outcome (bindR x (\<lambda>a. bindR y (f a))) (over \<or> both s t over' test)
    (Option.bind s (\<lambda>a. Option.bind t (g a)))"
  unfolding both_def by (intro exact_bind assms)

lemma exact_binop: "exact_outcome (eval_binop op a b expr) (binop_overflows op a b) (sem_binop op a b)"
proof (cases "op \<in> {FloorDiv, ExactDiv, Mod}")
  case True
  show ?thesis
  proof (cases "b = 0 \<or> \<not> in_i64 (a sdiv b)")
    case True
    with \<open>op \<in> {FloorDiv, ExactDiv, Mod}\<close> show ?thesis
      by (auto simp: exact_outcome_def eval_binop_def binop_overflows_def sem_binop_def raw_div_def
          raw_mod_def floor_div_i64_def in_expression_def raw_i64_def)
  next
    case False
    then have ops: "raw_mod a b = Inr (a smod b)" "raw_div a b = Inr (a sdiv b)" "floor_div_i64 a b = Inr (a div b)"
      by simp_all
    from False True show ?thesis
      by (auto simp: exact_outcome_def eval_binop_def binop_overflows_def sem_binop_def ops in_expression_def
          smod_eq_0_iff dvd_sdiv)
  qed
next
  case False
  then show ?thesis by (cases op) (simp_all add: eval_binop_def binop_overflows_def exact_outcome_def)
qed

lemma exact_ceil: "exact_outcome (eval_ceil n d expr) (ceil_overflows n d) (sem_ceil n d)"
  by (auto simp: exact_outcome_def eval_ceil_def ceil_overflows_def sem_ceil_def raw_div_def raw_mod_def
      raw_i64_def in_expression_def smod_eq_0_iff)

lemma eval_node_exact: "exact_outcome (eval_node n ctx expr) (overflows ctx n) (sem ctx n)"
proof (induction n)
  case (UnaryOp u x)
  have "exact_outcome (bindR (eval_node x ctx expr) (\<lambda>v. if u = USub then raw_neg v else Inr v))
      (overflows ctx x \<or> (case sem ctx x of None \<Rightarrow> False | Some v \<Rightarrow> u = USub \<and> \<not> in_i64 (- v)))
      (Option.bind (sem ctx x) (\<lambda>v. Some (if u = USub then - v else v)))"
    by (rule exact_bind [OF UnaryOp]) (simp add: exact_outcome_def raw_i64_def)
  then show ?case
    by (cases "sem ctx x") (simp_all add: map_conv_bind_option comp_def conj_commute)
next
  case (Call f args)
  show ?case
  proof (cases "f = ''CeilToInt'' \<and> length args = 2")
    case True
    then obtain n d where a: "args = [n, d]" by (auto simp: length_Suc_conv numeral_2_eq_2)
    from Call True a show ?thesis by (auto intro!: exact_bind2 exact_ceil)
  qed (auto simp: exact_outcome_def in_expression_def)
next
  case (BinOp l op r)
  then show ?case by (auto intro!: exact_bind2 exact_binop)
qed (auto simp: exact_outcome_def in_expression_def split: option.split)

text \<open>C12: The outcome of the evaluator is determined by the meaning of the tree over the unbounded integers.
  Where an operation that is reached leaves \<open>int64_t\<close>, the evaluation is a signed overflow, undefined in
  C++; everywhere else it returns the meaning of the tree when there is one, and throws a
  \<open>std::runtime_error\<close> when there is none: a zero divisor, an inexact exact division, an unknown name or
  function.  In particular a division by zero is never undefined behaviour.\<close>

theorem evaluator_is_exact:
  "if overflows ctx n then eval_node n ctx expr = Inl Undefined
   else (case sem ctx n of Some v \<Rightarrow> eval_node n ctx expr = Inr v
         | None \<Rightarrow> \<exists>m. eval_node n ctx expr = Inl (RuntimeError m))"
  using eval_node_exact [of n ctx expr] by (simp add: exact_outcome_def)

text \<open>\<open>CeilToInt\<close> is evaluated as the ceiling of the quotient only where the quotient is exact or the operands
  have the same sign; on other operands it returns one more than the ceiling, as for \<open>CeilToInt(-3, 2)\<close>,
  which it takes to be 0.\<close>

lemma ceil_to_int_off_by_one:
  "eval_ceil (- 3) 2 s = Inr 0 \<and> - ((- (- 3)) div (2 :: int)) = - 1"
  by (simp add: eval_ceil_def raw_div_def raw_mod_def raw_i64_def i64_defs)

end
