(* ===== verification/ExprParser.thy ===== *)
theory ExprParser
  imports ExprSyntax
begin

text \<open>
  The tokenizer and the recursive-descent parser of \<open>expressions.cc\<close>.  The tokenizer's state is the
  unread rest of the input.  The parser's state is the current token and the tokenizer's state; the
  parser uses the tokenizer only through \<open>next\<close>, so its functions take that function as an argument,
  and the locale \<open>token_source\<close> states what they need of it.  Every function of the parser carries a
  bound on its recursion; the locale's lemmas show that the bound \<open>parse\<close> passes is enough.
\<close>

section \<open>Tokens\<close>

datatype TokenKind =
    TInteger | TName | TPlus | TMinus | TStar | TDoubleSlash | TSlashColon | TPercent
  | TCaret | TAmpersand | TLParen | TRParen | TComma | TEof

record Token =
  kind :: TokenKind
  ttext :: string
  tvalue :: int

definition simple_token :: "TokenKind \<Rightarrow> string \<Rightarrow> Token" where
  "simple_token k t = \<lparr>kind = k, ttext = t, tvalue = 0\<rparr>"

definition is_ident_char :: "char \<Rightarrow> bool" where
  "is_ident_char c \<longleftrightarrow> isalnum c \<or> c = CHR ''_'' \<or> c = CHR ''.''"

text \<open>The characters that are a token on their own.\<close>

definition char_token :: "char \<Rightarrow> TokenKind option" where
  "char_token c =
     (if c = CHR ''+'' then Some TPlus
      else if c = CHR ''-'' then Some TMinus
      else if c = CHR ''*'' then Some TStar
      else if c = CHR ''%'' then Some TPercent
      else if c = CHR ''^'' then Some TCaret
      else if c = CHR ''&'' then Some TAmpersand
      else if c = CHR ''('' then Some TLParen
      else if c = CHR '')'' then Some TRParen
      else if c = CHR '','' then Some TComma
      else None)"

text \<open>
  \<open>Tokenizer::next\<close>.  The reader of integer literals is an argument, \<open>TryParseInt64Literal\<close> in the
  code.
\<close>

definition Tokenizer_next :: "(string \<Rightarrow> int option) \<Rightarrow> string \<Rightarrow> (Token \<times> string) res" where
  "Tokenizer_next literal input =
     (case dropWhile isspace input of
        [] \<Rightarrow> Inr (simple_token TEof [], [])
      | c # cs \<Rightarrow>
          if isdigit c then
            (let t = takeWhile isdigit (c # cs)
             in case literal t of
                  None \<Rightarrow> Inl (RuntimeError ''Integer literal out of range in expression'')
                | Some v \<Rightarrow> Inr (\<lparr>kind = TInteger, ttext = t, tvalue = v\<rparr>,
                               dropWhile isdigit (c # cs)))
          else if isalpha c \<or> c = CHR ''_'' then
            Inr (simple_token TName (takeWhile is_ident_char (c # cs)),
                 dropWhile is_ident_char (c # cs))
          else if c = CHR ''/'' \<and> cs \<noteq> [] \<and> hd cs = CHR ''/'' then
            Inr (simple_token TDoubleSlash ''//'', tl cs)
          else if c = CHR ''/'' \<and> cs \<noteq> [] \<and> hd cs = CHR '':'' then
            Inr (simple_token TSlashColon ''/:'', tl cs)
          else
            (case char_token c of
               Some k \<Rightarrow> Inr (simple_token k [c], cs)
             | None \<Rightarrow> Inl (RuntimeError (''Unexpected character '' @ quoted [c] @ '' in expression''))))"

section \<open>The parser\<close>

type_synonym 's lexer = "'s \<Rightarrow> (Token \<times> 's) res"
type_synonym 's pstate = "Token \<times> 's"
type_synonym 's parser = "'s pstate \<Rightarrow> (node \<times> 's pstate) res"

text \<open>The operators of the four binary levels.\<close>

definition xor_op :: "TokenKind \<Rightarrow> BinOpKind option" where
  "xor_op k = (if k = TCaret then Some BitXor else None)"

definition and_op :: "TokenKind \<Rightarrow> BinOpKind option" where
  "and_op k = (if k = TAmpersand then Some BitAnd else None)"

definition add_op :: "TokenKind \<Rightarrow> BinOpKind option" where
  "add_op k = (if k = TPlus then Some Add else if k = TMinus then Some Sub else None)"

definition mul_op :: "TokenKind \<Rightarrow> BinOpKind option" where
  "mul_op k = (case k of
       TStar \<Rightarrow> Some Mult
     | TDoubleSlash \<Rightarrow> Some FloorDiv
     | TSlashColon \<Rightarrow> Some ExactDiv
     | TPercent \<Rightarrow> Some Mod
     | _ \<Rightarrow> None)"

text \<open>The loop of a binary level: \<open>lhs\<close> absorbs one more operand while the operator fits.\<close>

fun bin_loop :: "nat \<Rightarrow> (TokenKind \<Rightarrow> BinOpKind option) \<Rightarrow> 's lexer \<Rightarrow> 's parser \<Rightarrow> node \<Rightarrow> 's parser" where
  "bin_loop 0 ops adv sub lhs st = Inl OutOfFuel"
| "bin_loop (Suc k) ops adv sub lhs (t, s) =
     (case ops (kind t) of
        None \<Rightarrow> Inr (lhs, (t, s))
      | Some op \<Rightarrow>
          bindR (adv s) (\<lambda>st. bindR (sub st) (\<lambda>(rhs, st').
            bin_loop k ops adv sub (BinOp lhs op rhs) st')))"

definition bin_level :: "nat \<Rightarrow> (TokenKind \<Rightarrow> BinOpKind option) \<Rightarrow> 's lexer \<Rightarrow> 's parser \<Rightarrow> 's parser" where
  "bin_level k ops adv sub st = bindR (sub st) (\<lambda>(lhs, st'). bin_loop k ops adv sub lhs st')"

text \<open>The remaining arguments of a call: the loop over the commas.\<close>

fun args_loop :: "nat \<Rightarrow> 's lexer \<Rightarrow> 's parser \<Rightarrow> node list \<Rightarrow> 's pstate \<Rightarrow> (node list \<times> 's pstate) res" where
  "args_loop 0 adv pe args st = Inl OutOfFuel"
| "args_loop (Suc k) adv pe args (t, s) =
     (if kind t = TComma then
        bindR (adv s) (\<lambda>st. bindR (pe st) (\<lambda>(arg, st'). args_loop k adv pe (args @ [arg]) st'))
      else Inr (args, (t, s)))"

definition call_args :: "nat \<Rightarrow> 's lexer \<Rightarrow> 's parser \<Rightarrow> 's pstate \<Rightarrow> (node list \<times> 's pstate) res" where
  "call_args k adv pe st =
     (if kind (fst st) \<noteq> TRParen
      then bindR (pe st) (\<lambda>(arg, st'). args_loop k adv pe [arg] st')
      else Inr ([], st))"

text \<open>\<open>parse_atom\<close>: an integer, a name or a call, or a parenthesised expression.\<close>

fun parse_atom :: "nat \<Rightarrow> 's lexer \<Rightarrow> 's parser \<Rightarrow> 's parser" where
  "parse_atom k adv pe (t, s) =
     (if kind t = TInteger then bindR (adv s) (\<lambda>st. Inr (Constant (tvalue t), st))
      else if kind t = TName then
        bindR (adv s) (\<lambda>(t1, s1).
          if kind t1 = TLParen then
            bindR (adv s1) (\<lambda>st2. bindR (call_args k adv pe st2) (\<lambda>(args, (t3, s3)).
              if kind t3 \<noteq> TRParen
              then Inl (RuntimeError (''Expected '' @ quoted '')'' @ '' after function arguments''))
              else bindR (adv s3) (\<lambda>st4. Inr (Call (ttext t) args, st4))))
          else Inr (Name (ttext t), (t1, s1)))
      else if kind t = TLParen then
        bindR (adv s) (\<lambda>st1. bindR (pe st1) (\<lambda>(inner, (t2, s2)).
          if kind t2 \<noteq> TRParen then Inl (RuntimeError (''Expected '' @ quoted '')''))
          else bindR (adv s2) (\<lambda>st3. Inr (inner, st3))))
      else Inl (RuntimeError (''Unexpected token '' @ quoted (ttext t) @ '' in expression'')))"

fun parse_unary :: "nat \<Rightarrow> 's lexer \<Rightarrow> 's parser \<Rightarrow> 's parser" where
  "parse_unary 0 adv atom st = Inl OutOfFuel"
| "parse_unary (Suc k) adv atom (t, s) =
     (if kind t = TMinus then
        bindR (adv s) (\<lambda>st. bindR (parse_unary k adv atom st) (\<lambda>(x, st'). Inr (UnaryOp USub x, st')))
      else if kind t = TPlus then
        bindR (adv s) (\<lambda>st. bindR (parse_unary k adv atom st) (\<lambda>(x, st'). Inr (UnaryOp UAdd x, st')))
      else atom (t, s))"

definition parse_mul :: "nat \<Rightarrow> 's lexer \<Rightarrow> 's parser \<Rightarrow> 's parser" where
  "parse_mul k adv pe = bin_level k mul_op adv (parse_unary k adv (parse_atom k adv pe))"

definition parse_add :: "nat \<Rightarrow> 's lexer \<Rightarrow> 's parser \<Rightarrow> 's parser" where
  "parse_add k adv pe = bin_level k add_op adv (parse_mul k adv pe)"

definition parse_and :: "nat \<Rightarrow> 's lexer \<Rightarrow> 's parser \<Rightarrow> 's parser" where
  "parse_and k adv pe = bin_level k and_op adv (parse_add k adv pe)"

definition parse_xor :: "nat \<Rightarrow> 's lexer \<Rightarrow> 's parser \<Rightarrow> 's parser" where
  "parse_xor k adv pe = bin_level k xor_op adv (parse_and k adv pe)"

text \<open>\<open>parse_expr\<close> is \<open>parse_xor\<close>; the bound drops where an atom calls back.\<close>

fun parse_expr :: "nat \<Rightarrow> 's lexer \<Rightarrow> 's parser" where
  "parse_expr 0 adv st = Inl OutOfFuel"
| "parse_expr (Suc k) adv st = parse_xor (Suc k) adv (parse_expr k adv) st"

text \<open>\<open>Parser::parse\<close> on a whole input, with \<open>expect_eof\<close> at the end.\<close>

definition expect_eof :: "node \<times> 's pstate \<Rightarrow> node res" where
  "expect_eof = (\<lambda>(n, (t, s)).
     if kind t = TEof then Inr n
     else Inl (RuntimeError (''Unexpected token '' @ quoted (ttext t) @ '' after expression'')))"

definition Parser_parse :: "(string \<Rightarrow> int option) \<Rightarrow> string \<Rightarrow> node res" where
  "Parser_parse literal input =
     (let adv = Tokenizer_next literal
      in bindR (adv input) (\<lambda>st. bindR (parse_expr (length input + 3) adv st) expect_eof))"

text \<open>The public entry points.\<close>

definition try_parse :: "string \<Rightarrow> node option" where
  "try_parse expr =
     (case Parser_parse TryParseInt64Literal expr of Inr tree \<Rightarrow> Some tree | Inl _ \<Rightarrow> None)"

definition parse :: "string \<Rightarrow> node res" where
  "parse expr = Parser_parse TryParseInt64Literal expr"

text \<open>\<open>evaluate_expression\<close> parses and evaluates.\<close>

definition evaluate_expression :: "string \<Rightarrow> (string \<Rightarrow> int option) \<Rightarrow> int res" where
  "evaluate_expression expr context = bindR (parse expr) (\<lambda>tree. eval_node tree context expr)"

section \<open>What the parser needs of the tokenizer\<close>

text \<open>The weight of a parser state: what is left to read, the current token included.\<close>

definition pweight :: "('s \<Rightarrow> nat) \<Rightarrow> 's pstate \<Rightarrow> nat" where
  "pweight sz st = (if kind (fst st) = TEof then 0 else 1) + sz (snd st)"

text \<open>
  A result that did not run out of fuel and left at most \<open>w\<close> to read; a parser that, on states
  lighter than \<open>b\<close>, has such results and always reads something.
\<close>

definition fueled :: "('s \<Rightarrow> nat) \<Rightarrow> nat \<Rightarrow> ('a \<times> 's pstate) res \<Rightarrow> bool" where
  "fueled sz w r \<longleftrightarrow> r \<noteq> Inl OutOfFuel \<and> (\<forall>x st'. r = Inr (x, st') \<longrightarrow> pweight sz st' \<le> w)"

definition consuming :: "('s \<Rightarrow> nat) \<Rightarrow> nat \<Rightarrow> 's parser \<Rightarrow> bool" where
  "consuming sz b f \<longleftrightarrow> (\<forall>st. pweight sz st < b \<longrightarrow>
     f st \<noteq> Inl OutOfFuel \<and> (\<forall>n st'. f st = Inr (n, st') \<longrightarrow> pweight sz st' < pweight sz st))"

lemma fueled_simps [simp]:
  "fueled sz w (Inr (x, st)) \<longleftrightarrow> pweight sz st \<le> w"
  "fueled sz w (Inl e) \<longleftrightarrow> e \<noteq> OutOfFuel"
  by (simp_all add: fueled_def del: split_paired_All)

lemma fueled_mono:
  assumes "fueled sz w r" and "w \<le> v"
  shows "fueled sz v r"
proof (cases r)
  case (Inr p)
  obtain x st where "p = (x, st)" by (cases p)
  with Inr assms show ?thesis by simp
qed (use assms in simp)

lemma consumingI:
  assumes "\<And>st. pweight sz st < b \<Longrightarrow> f st \<noteq> Inl OutOfFuel"
    and "\<And>st n st'. pweight sz st < b \<Longrightarrow> f st = Inr (n, st') \<Longrightarrow> pweight sz st' < pweight sz st"
  shows "consuming sz b f"
  using assms unfolding consuming_def by blast

lemma consumingD:
  assumes "consuming sz b f" and "pweight sz st < b"
  shows "f st \<noteq> Inl OutOfFuel" and "f st = Inr (n, st') \<Longrightarrow> pweight sz st' < pweight sz st"
  using assms unfolding consuming_def by blast+

text \<open>A result lighter than the state it came from, in the form the case analyses use.\<close>

lemma consuming_fueledI:
  assumes "\<And>st. pweight sz st < b \<Longrightarrow> pweight sz st \<noteq> 0 \<Longrightarrow> fueled sz (pweight sz st - 1) (f st)"
    and "\<And>st. pweight sz st = 0 \<Longrightarrow> \<exists>e. f st = Inl e \<and> e \<noteq> OutOfFuel"
  shows "consuming sz b f"
proof (rule consumingI)
  fix st
  assume "pweight sz st < b"
  with assms [of st] show "f st \<noteq> Inl OutOfFuel"
    by (cases "pweight sz st = 0") (auto simp: fueled_def)
next
  fix st n st'
  assume "pweight sz st < b" and r: "f st = Inr (n, st')"
  with assms [of st] have "pweight sz st \<noteq> 0" "fueled sz (pweight sz st - 1) (f st)" by auto
  with r show "pweight sz st' < pweight sz st" by simp
qed

locale token_source =
  fixes adv :: "'s lexer" and sz :: "'s \<Rightarrow> nat"
  assumes adv_reads: "adv s = Inr st \<Longrightarrow> pweight sz st \<le> sz s"
    and adv_fuel: "adv s \<noteq> Inl OutOfFuel"
begin

text \<open>One step of the tokenizer from a state whose token is not the end.\<close>

lemma adv_bind:
  assumes "\<And>st. pweight sz st \<le> sz s \<Longrightarrow> fueled sz v (f st)"
  shows "fueled sz v (bindR (adv s) f)"
proof (cases "adv s")
  case (Inl e)
  with adv_fuel [of s] show ?thesis by simp
next
  case (Inr st)
  with adv_reads assms show ?thesis by simp
qed

lemma sub_bind:
  assumes sub: "consuming sz b sub" and st: "pweight sz st < b"
    and f: "\<And>x st'. pweight sz st' < pweight sz st \<Longrightarrow> fueled sz v (f (x, st'))"
  shows "fueled sz v (bindR (sub st) f)"
proof (cases "sub st")
  case (Inl e)
  with consumingD(1) [OF sub st] show ?thesis by simp
next
  case (Inr r)
  obtain x st' where r: "r = (x, st')" by (cases r)
  with Inr consumingD(2) [OF sub st] have "pweight sz st' < pweight sz st" by simp
  with Inr r f show ?thesis by simp
qed

lemma bin_loop_fueled:
  assumes sub: "consuming sz b sub" and eof: "ops TEof = None"
  shows "pweight sz st < k \<Longrightarrow> pweight sz st < b \<Longrightarrow>
    fueled sz (pweight sz st) (bin_loop k ops adv sub lhs st)"
proof (induction k arbitrary: lhs st)
  case (Suc k)
  obtain t s where st: "st = (t, s)" by (cases st)
  show ?case
  proof (cases "ops (kind t)")
    case (Some op)
    with eof have w: "pweight sz st = Suc (sz s)" by (auto simp: st pweight_def)
    have "fueled sz (pweight sz st)
       (bindR (adv s) (\<lambda>st. bindR (sub st) (\<lambda>(rhs, st'). bin_loop k ops adv sub (BinOp lhs op rhs) st')))"
    proof (intro adv_bind sub_bind [OF sub])
      fix st1 x st2
      assume "pweight sz st1 \<le> sz s" "pweight sz st2 < pweight sz st1"
      with w Suc.prems have "pweight sz st2 < k" "pweight sz st2 < b" "pweight sz st2 \<le> pweight sz st"
        by auto
      then show "fueled sz (pweight sz st)
          (case (x, st2) of (rhs, st') \<Rightarrow> bin_loop k ops adv sub (BinOp lhs op rhs) st')"
        using Suc.IH fueled_mono by (metis case_prod_conv)
    qed (use w Suc.prems in auto)
    with Some st show ?thesis by simp
  qed (simp add: st)
qed simp

lemma bin_level_consuming:
  assumes sub: "consuming sz b sub" and eof: "ops TEof = None" and k: "b \<le> k"
  shows "consuming sz b (bin_level k ops adv sub)"
proof -
  have "(bin_level k ops adv sub st \<noteq> Inl OutOfFuel) \<and>
      (bin_level k ops adv sub st = Inr (n, st') \<longrightarrow> pweight sz st' < pweight sz st)"
    if st: "pweight sz st < b" for st n st'
  proof (cases "sub st")
    case (Inl e)
    with consumingD(1) [OF sub st] show ?thesis by (simp add: bin_level_def)
  next
    case (Inr r)
    obtain x st1 where r: "r = (x, st1)" by (cases r)
    with Inr consumingD(2) [OF sub st] have lt: "pweight sz st1 < pweight sz st" by simp
    with st k have "fueled sz (pweight sz st1) (bin_loop k ops adv sub x st1)"
      by (intro bin_loop_fueled [where ops = ops, OF sub eof]) auto
    then show ?thesis
      using lt Inr r by (cases "bin_loop k ops adv sub x st1") (auto simp: bin_level_def)
  qed
  then show ?thesis by (intro consumingI) blast+
qed

lemma parse_unary_consuming:
  assumes atom: "consuming sz b atom"
  shows "pweight sz st < k \<Longrightarrow> pweight sz st < b \<Longrightarrow>
    parse_unary k adv atom st \<noteq> Inl OutOfFuel \<and>
    (parse_unary k adv atom st = Inr (n, st') \<longrightarrow> pweight sz st' < pweight sz st)"
proof (induction k arbitrary: st n st')
  case (Suc k)
  obtain t s where st: "st = (t, s)" by (cases st)
  have rec: "fueled sz (sz s) (bindR (adv s) (\<lambda>st. bindR (parse_unary k adv atom st) (\<lambda>(x, st'). Inr (f x, st'))))"
    if "kind t \<noteq> TEof" for f :: "node \<Rightarrow> node"
  proof (rule adv_bind)
    fix st1
    assume st1: "pweight sz st1 \<le> sz s"
    have w: "pweight sz st = Suc (sz s)" using that by (simp add: st pweight_def)
    then have IH: "parse_unary k adv atom st1 \<noteq> Inl OutOfFuel"
      "\<And>x st2. parse_unary k adv atom st1 = Inr (x, st2) \<Longrightarrow> pweight sz st2 < pweight sz st1"
      using Suc.IH [of st1] Suc.prems st1 by auto
    show "fueled sz (sz s) (bindR (parse_unary k adv atom st1) (\<lambda>(x, st'). Inr (f x, st')))"
      using IH st1 by (cases "parse_unary k adv atom st1") (force simp del: split_paired_All)+
  qed
  have lt: "pweight sz (t, s) = Suc (sz s)" if "kind t \<noteq> TEof" using that by (simp add: pweight_def)
  show ?case
  proof (cases "kind t = TMinus \<or> kind t = TPlus")
    case True
    with rec [of "UnaryOp USub"] rec [of "UnaryOp UAdd"] lt show ?thesis
      by (auto simp: st fueled_def less_Suc_eq_le)
  next
    case False
    then have "parse_unary (Suc k) adv atom st = atom st" by (simp add: st)
    with consumingD [OF atom Suc.prems(2)] show ?thesis by simp
  qed
qed simp

lemma args_loop_fueled:
  assumes pe: "consuming sz b pe"
  shows "pweight sz st < k \<Longrightarrow> pweight sz st \<le> b \<Longrightarrow>
    fueled sz (pweight sz st) (args_loop k adv pe args st)"
proof (induction k arbitrary: args st)
  case (Suc k)
  obtain t s where st: "st = (t, s)" by (cases st)
  show ?case
  proof (cases "kind t = TComma")
    case True
    then have w: "pweight sz st = Suc (sz s)" by (simp add: st pweight_def)
    have "fueled sz (pweight sz st)
       (bindR (adv s) (\<lambda>st. bindR (pe st) (\<lambda>(arg, st'). args_loop k adv pe (args @ [arg]) st')))"
    proof (intro adv_bind sub_bind [OF pe])
      fix st1 x st2
      assume "pweight sz st1 \<le> sz s" "pweight sz st2 < pweight sz st1"
      with w Suc.prems have "pweight sz st2 < k" "pweight sz st2 \<le> b" "pweight sz st2 \<le> pweight sz st"
        by auto
      then show "fueled sz (pweight sz st)
          (case (x, st2) of (arg, st') \<Rightarrow> args_loop k adv pe (args @ [arg]) st')"
        using Suc.IH fueled_mono by (metis case_prod_conv)
    qed (use w Suc.prems in auto)
    with True st show ?thesis by simp
  qed (simp add: st)
qed simp

lemma call_args_fueled:
  assumes pe: "consuming sz b pe" and "pweight sz st < b" and "b \<le> k"
  shows "fueled sz (pweight sz st) (call_args k adv pe st)"
proof (cases "kind (fst st) = TRParen")
  case False
  have "fueled sz (pweight sz st) (bindR (pe st) (\<lambda>(arg, st'). args_loop k adv pe [arg] st'))"
  proof (rule sub_bind [OF pe assms(2)])
    fix x st'
    assume lt: "pweight sz st' < pweight sz st"
    with assms have "fueled sz (pweight sz st') (args_loop k adv pe [x] st')"
      by (intro args_loop_fueled [OF pe]) auto
    with lt show "fueled sz (pweight sz st) (case (x, st') of (arg, st') \<Rightarrow> args_loop k adv pe [arg] st')"
      by (simp add: fueled_mono)
  qed
  with False show ?thesis by (simp add: call_args_def)
qed (simp add: call_args_def)

text \<open>An atom consumes at least one token; the callback only sees lighter states.\<close>

lemma parse_atom_consuming:
  assumes pe: "consuming sz b pe" and k: "b \<le> k"
  shows "consuming sz (Suc b) (parse_atom k adv pe)"
proof (rule consuming_fueledI)
  fix st :: "'s pstate"
  obtain t s where st: "st = (t, s)" by (cases st)
  assume b: "pweight sz st < Suc b" and nz: "pweight sz st \<noteq> 0"
  show "fueled sz (pweight sz st - 1) (parse_atom k adv pe st)"
  proof (cases "kind t \<in> {TInteger, TName, TLParen}")
    case False
    then show ?thesis by (simp add: st)
  next
    case True
    then have w: "pweight sz st = Suc (sz s)" by (auto simp: st pweight_def)
    with b have sb: "sz s < b" by simp
    have int: "fueled sz (sz s) (bindR (adv s) (\<lambda>st. Inr (Constant v, st)))" for v
      by (rule adv_bind) simp
    have paren: "fueled sz (sz s) (bindR (adv s) (\<lambda>st1. bindR (pe st1) (\<lambda>(inner, (t2, s2)).
          if kind t2 \<noteq> TRParen then Inl (RuntimeError m) else bindR (adv s2) (\<lambda>st3. Inr (inner, st3)))))" for m
    proof (intro adv_bind sub_bind [OF pe])
      fix st1 x st2
      assume le: "pweight sz st1 \<le> sz s" "pweight sz st2 < pweight sz st1"
      obtain t2 s2 where st2: "st2 = (t2, s2)" by (cases st2)
      have "fueled sz (sz s) (bindR (adv s2) (\<lambda>st3. Inr (x, st3)))" if "kind t2 = TRParen"
        using le that by (intro adv_bind) (auto simp: st2 pweight_def)
      then show "fueled sz (sz s) (case (x, st2) of (inner, (t2, s2)) \<Rightarrow>
          if kind t2 \<noteq> TRParen then Inl (RuntimeError m) else bindR (adv s2) (\<lambda>st3. Inr (inner, st3)))"
        by (simp add: st2)
    qed (use sb in auto)
    have call: "fueled sz (sz s1)
        (bindR (adv s1) (\<lambda>st2. bindR (call_args k adv pe st2) (\<lambda>(args, (t3, s3)).
              if kind t3 \<noteq> TRParen then Inl (RuntimeError m)
              else bindR (adv s3) (\<lambda>st4. Inr (Call f args, st4)))))" if s1: "sz s1 < b" for s1 f m
    proof (rule adv_bind)
      fix st2
      assume st2: "pweight sz st2 \<le> sz s1"
      have ca: "fueled sz (pweight sz st2) (call_args k adv pe st2)"
        using st2 s1 k by (intro call_args_fueled [OF pe]) auto
      show "fueled sz (sz s1) (bindR (call_args k adv pe st2) (\<lambda>(args, (t3, s3)).
              if kind t3 \<noteq> TRParen then Inl (RuntimeError m)
              else bindR (adv s3) (\<lambda>st4. Inr (Call f args, st4))))"
      proof (cases "call_args k adv pe st2")
        case (Inl e)
        with ca show ?thesis by simp
      next
        case (Inr r)
        obtain args t3 s3 where r: "r = (args, t3, s3)" by (cases r)
        with Inr ca st2 have le: "pweight sz (t3, s3) \<le> sz s1" by simp
        have "fueled sz (sz s1) (bindR (adv s3) (\<lambda>st4. Inr (Call f args, st4)))" if "kind t3 = TRParen"
          using le that by (intro adv_bind) (auto simp: pweight_def)
        with Inr r show ?thesis by simp
      qed
    qed
    have name: "fueled sz (sz s) (bindR (adv s) (\<lambda>(t1, s1).
          if kind t1 = TLParen then
            bindR (adv s1) (\<lambda>st2. bindR (call_args k adv pe st2) (\<lambda>(args, (t3, s3)).
              if kind t3 \<noteq> TRParen then Inl (RuntimeError m)
              else bindR (adv s3) (\<lambda>st4. Inr (Call f args, st4))))
          else Inr (Name f, (t1, s1))))" for m f
    proof (rule adv_bind)
      fix st1
      assume le: "pweight sz st1 \<le> sz s"
      obtain t1 s1 where st1: "st1 = (t1, s1)" by (cases st1)
      with le sb have s1: "sz s1 < b" "sz s1 \<le> sz s" by (auto simp: pweight_def split: if_splits)
      from call [OF s1(1)] s1(2) le show "fueled sz (sz s) (case st1 of (t1, s1) \<Rightarrow>
          if kind t1 = TLParen then
            bindR (adv s1) (\<lambda>st2. bindR (call_args k adv pe st2) (\<lambda>(args, (t3, s3)).
              if kind t3 \<noteq> TRParen then Inl (RuntimeError m)
              else bindR (adv s3) (\<lambda>st4. Inr (Call f args, st4))))
          else Inr (Name f, (t1, s1)))"
        using fueled_mono by (simp add: st1) blast
    qed
    from True w int paren name show ?thesis by (auto simp: st)
  qed
next
  fix st :: "'s pstate"
  assume "pweight sz st = 0"
  then show "\<exists>e. parse_atom k adv pe st = Inl e \<and> e \<noteq> OutOfFuel"
    by (cases st) (auto simp: pweight_def split: if_splits)
qed

lemma parse_xor_consuming:
  assumes pe: "consuming sz b pe" and k: "Suc b \<le> k"
  shows "consuming sz (Suc b) (parse_xor k adv pe)"
proof -
  have "consuming sz (Suc b) (parse_unary k adv (parse_atom k adv pe))"
    using parse_unary_consuming [OF parse_atom_consuming [OF pe]] k
    by (intro consumingI) (meson Suc_leD order_less_le_trans)+
  then show ?thesis
    unfolding parse_xor_def parse_and_def parse_add_def parse_mul_def using k
    by (intro bin_level_consuming) (simp_all add: xor_op_def and_op_def add_op_def mul_op_def)
qed

text \<open>A bound above the weight of the state is enough.\<close>

lemma parse_expr_consuming: "consuming sz k (parse_expr k adv)"
proof (induction k)
  case 0
  then show ?case by (simp add: consuming_def)
next
  case (Suc k)
  then have "consuming sz (Suc k) (parse_xor (Suc k) adv (parse_expr k adv))"
    by (rule parse_xor_consuming) simp
  moreover have "parse_expr (Suc k) adv = parse_xor (Suc k) adv (parse_expr k adv)"
    by (rule ext) simp
  ultimately show ?case by simp
qed

end

section \<open>The tokenizer provides it\<close>

lemma length_dropWhile_tl: "xs \<noteq> [] \<Longrightarrow> P (hd xs) \<Longrightarrow> length (dropWhile P xs) < length xs"
  by (cases xs) (simp_all add: length_dropWhile_le le_imp_less_Suc)

text \<open>Every token but the end of the input takes at least one character.\<close>

lemma Tokenizer_next_reads:
  assumes "Tokenizer_next literal input = Inr st"
  shows "pweight length st \<le> length input"
proof (cases "dropWhile isspace input")
  case Nil
  with assms show ?thesis by (auto simp: Tokenizer_next_def pweight_def simple_token_def)
next
  case (Cons c cs)
  have le: "length (c # cs) \<le> length input"
    using length_dropWhile_le [of isspace input] by (simp add: Cons)
  have d: "length (dropWhile isdigit cs) \<le> length cs" "length (dropWhile is_ident_char cs) \<le> length cs"
    by (rule length_dropWhile_le)+
  have id: "isalpha c \<or> c = CHR ''_'' \<Longrightarrow> is_ident_char c" by (auto simp: is_ident_char_def isalnum_def)
  show ?thesis
    using assms le d id
    by (auto simp: Tokenizer_next_def Cons pweight_def simple_token_def Let_def
        split: option.splits if_splits)
qed

lemma Tokenizer_next_fuel: "Tokenizer_next literal input \<noteq> Inl OutOfFuel"
  by (auto simp: Tokenizer_next_def Let_def split: list.splits option.splits)

interpretation tok: token_source "Tokenizer_next literal" length
  by unfold_locales (fact Tokenizer_next_reads Tokenizer_next_fuel)+

lemma Parser_parse_fuel: "Parser_parse literal input \<noteq> Inl OutOfFuel"
proof -
  have "bindR (parse_expr (length input + 3) (Tokenizer_next literal) st) expect_eof \<noteq> Inl OutOfFuel"
    if "pweight length st \<le> length input" for st
  proof -
    from that have "pweight length st < length input + 3" by simp
    from consumingD(1) [OF tok.parse_expr_consuming this]
    have "parse_expr (length input + 3) (Tokenizer_next literal) st \<noteq> Inl OutOfFuel" .
    then show ?thesis by (auto simp: bindR_eq_Inl expect_eof_def split: if_splits)
  qed
  then show ?thesis
    using Tokenizer_next_reads [of literal input] Tokenizer_next_fuel [of literal input]
    by (auto simp: Parser_parse_def Let_def bindR_eq_Inl)
qed

section \<open>The exceptions\<close>

text \<open>Every error but the bound's is a \<open>std::runtime_error\<close>.\<close>

definition runtime_only :: "'a res \<Rightarrow> bool" where
  "runtime_only r \<longleftrightarrow> (case r of Inr x \<Rightarrow> True | Inl e \<Rightarrow> e = OutOfFuel \<or> (\<exists>m. e = RuntimeError m))"

lemma runtime_only_simps [simp]:
  "runtime_only (Inr x)" "runtime_only (Inl OutOfFuel)" "runtime_only (Inl (RuntimeError m))"
  by (simp_all add: runtime_only_def)

lemma runtime_bind [intro!]: "runtime_only r \<Longrightarrow> (\<And>x. runtime_only (f x)) \<Longrightarrow> runtime_only (bindR r f)"
  by (cases r) (auto simp: runtime_only_def)

definition throws_runtime :: "('a \<Rightarrow> 'b res) \<Rightarrow> bool" where
  "throws_runtime f \<longleftrightarrow> (\<forall>x. runtime_only (f x))"

lemma throws_runtimeI: "(\<And>x. runtime_only (f x)) \<Longrightarrow> throws_runtime f"
  by (simp add: throws_runtime_def)

lemma throws_runtime_pairI: "(\<And>t s. runtime_only (f (t, s))) \<Longrightarrow> throws_runtime f"
  by (simp add: throws_runtime_def)

lemma throws_runtimeD [simp]: "throws_runtime f \<Longrightarrow> runtime_only (f x)"
  by (simp add: throws_runtime_def)

lemma runtime_bin_loop:
  assumes "throws_runtime adv" "throws_runtime sub"
  shows "throws_runtime (bin_loop k ops adv sub lhs)"
proof (induction k arbitrary: lhs)
  case (Suc k)
  show ?case
  proof (rule throws_runtime_pairI)
    fix t s show "runtime_only (bin_loop (Suc k) ops adv sub lhs (t, s))"
      using assms Suc by (cases "ops (kind t)") (auto split: prod.split)
  qed
qed (auto intro: throws_runtimeI)

lemma runtime_bin_level:
  "throws_runtime adv \<Longrightarrow> throws_runtime sub \<Longrightarrow> throws_runtime (bin_level k ops adv sub)"
  by (intro throws_runtime_pairI) (auto simp: bin_level_def runtime_bin_loop split: prod.split)

lemma runtime_args_loop:
  assumes "throws_runtime adv" "throws_runtime pe"
  shows "throws_runtime (args_loop k adv pe args)"
proof (induction k arbitrary: args)
  case (Suc k)
  with assms show ?case by (intro throws_runtime_pairI) (auto split: prod.split)
qed (auto intro: throws_runtimeI)

lemma runtime_call_args:
  "throws_runtime adv \<Longrightarrow> throws_runtime pe \<Longrightarrow> throws_runtime (call_args k adv pe)"
  by (intro throws_runtime_pairI) (auto simp: call_args_def runtime_args_loop split: prod.split)

lemma runtime_parse_atom:
  "throws_runtime adv \<Longrightarrow> throws_runtime pe \<Longrightarrow> throws_runtime (parse_atom k adv pe)"
  by (intro throws_runtime_pairI) (auto simp: runtime_call_args split: prod.split)

lemma runtime_parse_unary:
  assumes "throws_runtime adv" "throws_runtime atom"
  shows "throws_runtime (parse_unary k adv atom)"
proof (induction k)
  case (Suc k)
  with assms show ?case by (intro throws_runtime_pairI) (auto split: prod.split)
qed (auto intro: throws_runtimeI)

lemma runtime_parse_expr: "throws_runtime adv \<Longrightarrow> throws_runtime (parse_expr k adv)"
proof (induction k)
  case (Suc k)
  then have "throws_runtime (parse_xor (Suc k) adv (parse_expr k adv))"
    unfolding parse_xor_def parse_and_def parse_add_def parse_mul_def
    by (intro runtime_bin_level runtime_parse_unary runtime_parse_atom)
  then show ?case by (intro throws_runtime_pairI) simp
qed (auto intro: throws_runtimeI)

lemma runtime_next: "throws_runtime (Tokenizer_next literal)"
  by (rule throws_runtimeI) (auto simp: Tokenizer_next_def Let_def split: list.split option.split)

lemma runtime_parse: "runtime_only (Parser_parse literal input)"
  unfolding Parser_parse_def Let_def
  by (auto simp: runtime_next runtime_parse_expr expect_eof_def split: prod.split)

text \<open>C11: The recursive-descent parser always ends: with the bound the model gives it, which depends on the length of
  the text only, it returns a tree or throws \<open>std::runtime_error\<close>, and nothing else, for every text and
  every reading of numerals.\<close>

theorem parser_terminates:
  "(\<exists>n. Parser_parse literal input = Inr n) \<or> (\<exists>m. Parser_parse literal input = Inl (RuntimeError m))"
  using Parser_parse_fuel [of literal input] runtime_parse [of literal input]
  by (auto simp: runtime_only_def split: sum.splits)

end
