(* ===== verification/ExprGrammar.thy ===== *)
theory ExprGrammar
  imports ExprUnparse
begin

text \<open>
  The recursive-descent parser accepts the grammar: a text derived at some level, followed by a
  token that cannot extend it, is read by the parser of that level with the derivation's tree.  The
  proof goes by rule induction on the derivation; for a binary level it tracks how many rounds of
  the operator loop the text takes.
\<close>

section \<open>The tokens of the grammar\<close>

definition not_ident :: "string \<Rightarrow> bool" where
  "not_ident rest \<longleftrightarrow> rest = [] \<or> \<not> is_ident_char (hd rest)"

definition op_token :: "BinOpKind \<Rightarrow> TokenKind" where
  "op_token op = (case op of
       Add \<Rightarrow> TPlus | Sub \<Rightarrow> TMinus | Mult \<Rightarrow> TStar | FloorDiv \<Rightarrow> TDoubleSlash | ExactDiv \<Rightarrow> TSlashColon
     | Mod \<Rightarrow> TPercent | BitXor \<Rightarrow> TCaret | BitAnd \<Rightarrow> TAmpersand)"

lemma dropWhile_all: "list_all P xs \<Longrightarrow> dropWhile P (xs @ ys) = dropWhile P ys"
  by (induction xs) auto

lemma takeWhile_all: "list_all P xs \<Longrightarrow> takeWhile P (xs @ ys) = xs @ takeWhile P ys"
  by (induction xs) auto

lemma dropWhile_stop: "ys = [] \<or> \<not> P (hd ys) \<Longrightarrow> dropWhile P ys = ys"
  by (cases ys) auto

lemma takeWhile_stop: "ys = [] \<or> \<not> P (hd ys) \<Longrightarrow> takeWhile P ys = []"
  by (cases ys) auto

lemma isdigit_is_ident: "isdigit c \<Longrightarrow> is_ident_char c"
  by (simp add: is_ident_char_def isalnum_def)

lemma next_name:
  assumes "is_name x" and "not_ident rest"
  shows "Tokenizer_next literal (x @ rest) = Inr (simple_token TName x, rest)"
proof -
  obtain c cs where x: "x = c # cs" using assms(1) by (cases x) (auto simp: is_name_def)
  have c: "isalpha c \<or> c = CHR ''_''" and id: "list_all is_ident_char x"
    using assms(1) by (auto simp: is_name_def x)
  have "\<not> isspace c" "\<not> isdigit c" using c by (auto simp: char_class)
  moreover have "takeWhile is_ident_char (x @ rest) = x" "dropWhile is_ident_char (x @ rest) = rest"
    using id assms(2) takeWhile_stop [of rest is_ident_char] dropWhile_stop [of rest is_ident_char]
    by (auto simp: takeWhile_all dropWhile_all not_ident_def)
  ultimately show ?thesis using c by (auto simp: Tokenizer_next_def x)
qed

lemma next_num:
  assumes ds: "ds \<noteq> []" "list_all isdigit ds" and v: "literal ds = Some v" and "not_ident rest"
  shows "Tokenizer_next literal (ds @ rest) =
    Inr (\<lparr>kind = TInteger, ttext = ds, tvalue = v\<rparr>, rest)"
proof -
  obtain c cs where x: "ds = c # cs" using ds(1) by (cases ds) auto
  have c: "isdigit c" using ds(2) by (simp add: x)
  then have "\<not> isspace c" by (auto simp: char_class)
  moreover have "rest = [] \<or> \<not> isdigit (hd rest)"
    using assms(4) isdigit_is_ident by (auto simp: not_ident_def)
  then have "takeWhile isdigit (ds @ rest) = ds" "dropWhile isdigit (ds @ rest) = rest"
    using ds(2) takeWhile_stop [of rest isdigit] dropWhile_stop [of rest isdigit]
    by (auto simp: takeWhile_all dropWhile_all)
  ultimately show ?thesis using c v by (simp add: Tokenizer_next_def Let_def x)
qed

lemma next_lparen [simp]:
  "Tokenizer_next literal (CHR ''('' # rest) = Inr (simple_token TLParen ''('', rest)"
  by (simp add: Tokenizer_next_def char_class char_token_def)

lemma next_rparen [simp]:
  "Tokenizer_next literal (CHR '')'' # rest) = Inr (simple_token TRParen '')'', rest)"
  by (simp add: Tokenizer_next_def char_class char_token_def)

lemma next_comma [simp]:
  "Tokenizer_next literal (CHR '','' # rest) = Inr (simple_token TComma '','', rest)"
  by (simp add: Tokenizer_next_def char_class char_token_def)

lemma next_op [simp]:
  "Tokenizer_next literal (binop_sym op @ rest) = Inr (simple_token (op_token op) (binop_sym op), rest)"
  by (cases op) (simp_all add: Tokenizer_next_def char_class char_token_def binop_sym_def op_token_def)

lemma next_minus [simp]:
  "Tokenizer_next literal (CHR ''-'' # rest) = Inr (simple_token TMinus ''-'', rest)"
  by (simp add: Tokenizer_next_def char_class char_token_def)

lemma next_plus [simp]:
  "Tokenizer_next literal (CHR ''+'' # rest) = Inr (simple_token TPlus ''+'', rest)"
  by (simp add: Tokenizer_next_def char_class char_token_def)

lemma next_eof [simp]: "Tokenizer_next literal [] = Inr (simple_token TEof [], [])"
  by (simp add: Tokenizer_next_def)

lemma not_ident_simps [simp]:
  "not_ident []"
  "not_ident (CHR '')'' # rest)" "not_ident (CHR ''('' # rest)" "not_ident (CHR '','' # rest)"
  "not_ident (binop_sym op @ rest)"
  by (cases op; simp add: not_ident_def is_ident_char_def char_class binop_sym_def)+

lemma kind_simple_token [simp]: "kind (simple_token k t) = k" "ttext (simple_token k t) = t"
  by (simp_all add: simple_token_def)

section \<open>The parsers by level\<close>

definition level_ops :: "nat \<Rightarrow> TokenKind \<Rightarrow> BinOpKind option" where
  "level_ops p = (if p = 1 then xor_op else if p = 2 then and_op else if p = 3 then add_op else mul_op)"

definition level_parser :: "nat \<Rightarrow> nat \<Rightarrow> 's lexer \<Rightarrow> 's parser \<Rightarrow> 's parser" where
  "level_parser p k adv pe =
     (if p = 1 then parse_xor k adv pe else if p = 2 then parse_and k adv pe
      else if p = 3 then parse_add k adv pe else if p = 4 then parse_mul k adv pe
      else if p = 5 then parse_unary k adv (parse_atom k adv pe) else parse_atom k adv pe)"

lemma level_parser_binary:
  "1 \<le> p \<Longrightarrow> p \<le> 4 \<Longrightarrow>
    level_parser p k adv pe = bin_level k (level_ops p) adv (level_parser (Suc p) k adv pe)"
  by (auto simp: level_parser_def level_ops_def parse_xor_def parse_and_def parse_add_def
      parse_mul_def le_Suc_eq numeral_eq_Suc)

lemma level_ops_token:
  "level_ops (binop_prec op) (op_token op) = Some op"
  "1 \<le> q \<Longrightarrow> q \<le> 4 \<Longrightarrow> q \<noteq> binop_prec op \<Longrightarrow> level_ops q (op_token op) = None"
  by (cases op; auto simp: level_ops_def op_token_def binop_prec_def xor_op_def and_op_def add_op_def
      mul_op_def)+

text \<open>A token that no operator loop above level \<open>p\<close> and no call takes.\<close>

definition follow :: "nat \<Rightarrow> Token \<Rightarrow> bool" where
  "follow p t \<longleftrightarrow> kind t \<noteq> TLParen \<and> (\<forall>q. p < q \<and> 1 \<le> q \<and> q \<le> 4 \<longrightarrow> level_ops q (kind t) = None)"

lemma follow_mono: "follow p t \<Longrightarrow> p \<le> q \<Longrightarrow> follow q t"
  by (auto simp: follow_def)

lemma follow_op: "follow (binop_prec op) (simple_token (op_token op) x)"
  using level_ops_token(2) by (auto simp: follow_def op_token_def split: BinOpKind.splits)

lemma follow_close [simp]:
  "follow p (simple_token TRParen x)" "follow p (simple_token TComma x)" "follow p (simple_token TEof x)"
  by (auto simp: follow_def level_ops_def xor_op_def and_op_def add_op_def mul_op_def)

section \<open>What the parsers do on a derivation\<close>

text \<open>
  The levels 1 to 4 reach their operator loop with the derivation's tree; the levels 5 and 6 return
  it.  The bound is any number above what is left to read.
\<close>

definition reaches :: "(string \<Rightarrow> int option) \<Rightarrow> nat \<Rightarrow> nat \<Rightarrow> string \<Rightarrow> string \<Rightarrow> node \<Rightarrow> string pstate \<Rightarrow>
    string pstate \<Rightarrow> bool" where
  "reaches literal p k rest s n st st' \<longleftrightarrow>
     (let adv = Tokenizer_next literal; pe = parse_expr (k - 1) adv
      in if p \<le> 4
         then \<exists>j. k \<le> j + length s \<and>
                level_parser p k adv pe st = bin_loop j (level_ops p) adv (level_parser (Suc p) k adv pe) n st'
         else if p = 5
         then \<forall>m. length s + length rest < m \<longrightarrow> parse_unary m adv (parse_atom k adv pe) st = Inr (n, st')
         else parse_atom k adv pe st = Inr (n, st'))"

definition reads_as :: "(string \<Rightarrow> int option) \<Rightarrow> nat \<Rightarrow> string \<Rightarrow> node \<Rightarrow> bool" where
  "reads_as literal p s n \<longleftrightarrow>
     (\<forall>k rest t r. length s + length rest < k \<longrightarrow> not_ident rest \<longrightarrow>
        Tokenizer_next literal rest = Inr (t, r) \<longrightarrow> follow p t \<longrightarrow>
        (\<exists>st. Tokenizer_next literal (s @ rest) = Inr st \<and> reaches literal p k rest s n st (t, r)))"

lemma reads_asI:
  assumes "\<And>k rest t r. length s + length rest < k \<Longrightarrow> not_ident rest \<Longrightarrow>
      Tokenizer_next literal rest = Inr (t, r) \<Longrightarrow> follow p t \<Longrightarrow>
      \<exists>st. Tokenizer_next literal (s @ rest) = Inr st \<and> reaches literal p k rest s n st (t, r)"
  shows "reads_as literal p s n"
  using assms unfolding reads_as_def by blast

lemma reads_asE:
  assumes "reads_as literal p s n" "length s + length rest < k" "not_ident rest"
    "Tokenizer_next literal rest = Inr (t, r)" "follow p t"
  obtains st where "Tokenizer_next literal (s @ rest) = Inr st" "reaches literal p k rest s n st (t, r)"
  using assms unfolding reads_as_def by blast

lemma bin_loop_stop: "ops (kind t) = None \<Longrightarrow> 0 < j \<Longrightarrow> bin_loop j ops adv sub n (t, r) = Inr (n, (t, r))"
  by (cases j) auto

text \<open>When the next token does not continue the level either, the level's parser returns.\<close>

lemma reaches_done:
  assumes "reaches literal p k rest s n st (t, r)" and "length s + length rest < k"
    and "1 \<le> p" and "p \<le> 6" and "follow (p - 1) t"
  shows "level_parser p k (Tokenizer_next literal) (parse_expr (k - 1) (Tokenizer_next literal)) st
    = Inr (n, (t, r))"
proof (cases "p \<le> 4")
  case True
  then obtain j where j: "k \<le> j + length s"
    and l: "level_parser p k (Tokenizer_next literal) (parse_expr (k - 1) (Tokenizer_next literal)) st =
      bin_loop j (level_ops p) (Tokenizer_next literal) (level_parser (Suc p) k (Tokenizer_next literal)
        (parse_expr (k - 1) (Tokenizer_next literal))) n (t, r)"
    using assms(1) by (auto simp: reaches_def Let_def)
  have "level_ops p (kind t) = None" using assms(3,5) True by (auto simp: follow_def)
  then show ?thesis unfolding l using j assms(2) by (intro bin_loop_stop) auto
next
  case False
  with assms show ?thesis by (auto simp: reaches_def Let_def level_parser_def)
qed

lemma parse_expr_level:
  "0 < k \<Longrightarrow> parse_expr k adv = level_parser 1 k adv (parse_expr (k - 1) adv)"
  by (cases k) (auto simp: level_parser_def)

text \<open>A whole expression, as the parentheses and the arguments of a call read it.\<close>

lemma reads_expr:
  assumes "reads_as literal 1 s n" and "length s + length rest < k" and "not_ident rest"
    and "Tokenizer_next literal rest = Inr (t, r)" and "follow 0 t"
  obtains st where "Tokenizer_next literal (s @ rest) = Inr st"
    and "parse_expr k (Tokenizer_next literal) st = Inr (n, (t, r))"
proof -
  have "follow 1 t" using assms(5) by (rule follow_mono) simp
  from assms(1-4) this obtain st where st: "Tokenizer_next literal (s @ rest) = Inr st"
    and re: "reaches literal 1 k rest s n st (t, r)"
    by (rule reads_asE)
  from reaches_done [OF re assms(2)] assms(5) have
    "level_parser 1 k (Tokenizer_next literal) (parse_expr (k - 1) (Tokenizer_next literal)) st = Inr (n, (t, r))"
    by simp
  with st assms(2) show ?thesis by (intro that) (simp_all add: parse_expr_level)
qed

lemma parse_atom_kind:
  "parse_atom k adv pe (t, s) = Inr x \<Longrightarrow> kind t = TInteger \<or> kind t = TName \<or> kind t = TLParen"
  by (auto split: if_splits)

lemma reads_level:
  assumes IH: "reads_as literal (Suc p) s n" and p: "1 \<le> p" "p \<le> 5"
  shows "reads_as literal p s n"
proof (rule reads_asI)
  fix k rest t r
  assume a: "length s + length rest < k" "not_ident rest" "Tokenizer_next literal rest = Inr (t, r)" "follow p t"
  have "follow (Suc p) t" using a(4) by (rule follow_mono) simp
  from IH a(1-3) this obtain st where st: "Tokenizer_next literal (s @ rest) = Inr st"
    and re: "reaches literal (Suc p) k rest s n st (t, r)"
    by (rule reads_asE)
  from reaches_done [OF re a(1)] p a(4) have fin:
    "level_parser (Suc p) k (Tokenizer_next literal) (parse_expr (k - 1) (Tokenizer_next literal)) st = Inr (n, (t, r))"
    by simp
  have "reaches literal p k rest s n st (t, r)"
  proof (cases "p \<le> 4")
    case True
    have "level_parser p k (Tokenizer_next literal) (parse_expr (k - 1) (Tokenizer_next literal)) st =
      bin_loop k (level_ops p) (Tokenizer_next literal) (level_parser (Suc p) k (Tokenizer_next literal)
        (parse_expr (k - 1) (Tokenizer_next literal))) n (t, r)"
      using fin by (simp add: level_parser_binary [OF p(1) True] bin_level_def)
    with True show ?thesis by (auto simp: reaches_def Let_def intro: le_add1)
  next
    case False
    with p have p5: "p = 5" by simp
    obtain t0 s0 where st0: "st = (t0, s0)" by (cases st)
    from fin p5 have at: "parse_atom k (Tokenizer_next literal) (parse_expr (k - 1) (Tokenizer_next literal))
        (t0, s0) = Inr (n, (t, r))"
      by (simp add: level_parser_def st0 del: parse_atom.simps)
    have "parse_unary m (Tokenizer_next literal) (parse_atom k (Tokenizer_next literal)
       (parse_expr (k - 1) (Tokenizer_next literal))) (t0, s0) = Inr (n, (t, r))" if "0 < m" for m
      using that at parse_atom_kind [OF at] by (cases m) (auto simp del: parse_atom.simps)
    with p5 st0 show ?thesis by (auto simp: reaches_def Let_def simp del: parse_atom.simps)
  qed
  with st show "\<exists>st. Tokenizer_next literal (s @ rest) = Inr st \<and> reaches literal p k rest s n st (t, r)"
    by blast
qed

lemma reads_binary:
  assumes s: "reads_as literal (binop_prec op) s m"
    and u: "reads_as literal (Suc (binop_prec op)) u n"
  shows "reads_as literal (binop_prec op) (s @ binop_sym op @ u) (BinOp m op n)"
proof (rule reads_asI)
  fix k rest t r
  assume a: "length (s @ binop_sym op @ u) + length rest < k" "not_ident rest"
    "Tokenizer_next literal rest = Inr (t, r)" "follow (binop_prec op) t"
  let ?p = "binop_prec op" and ?adv = "Tokenizer_next literal"
  let ?pe = "parse_expr (k - 1) ?adv" and ?op = "simple_token (op_token op) (binop_sym op)"
  have p: "1 \<le> ?p" "?p \<le> 4" by (rule binop_prec_range)+
  obtain q where sym: "length (binop_sym op) = Suc q" by (cases op) (simp_all add: binop_sym_def)
  have "length u + length rest < k" "follow (Suc ?p) t" using a(1,4) by (auto intro: follow_mono)
  with u a(2,3) obtain st2 where st2: "?adv (u @ rest) = Inr st2"
    and re2: "reaches literal (Suc ?p) k rest u n st2 (t, r)"
    by (auto elim: reads_asE)
  have two: "level_parser (Suc ?p) k ?adv ?pe st2 = Inr (n, (t, r))"
    by (rule reaches_done [OF re2]) (use a p in auto)
  have "length s + length (binop_sym op @ u @ rest) < k" using a(1) by simp
  from s this not_ident_simps(5) next_op follow_op
  obtain st where st: "?adv (s @ binop_sym op @ u @ rest) = Inr st"
    and re: "reaches literal ?p k (binop_sym op @ u @ rest) s m st (?op, u @ rest)"
    by (rule reads_asE)
  from re p obtain j where j: "k \<le> j + length s"
    and lp: "level_parser ?p k ?adv ?pe st =
      bin_loop j (level_ops ?p) ?adv (level_parser (Suc ?p) k ?adv ?pe) m (?op, u @ rest)"
    by (auto simp: reaches_def Let_def)
  from j a(1) obtain i where i: "j = Suc i" by (cases j) auto
  have "level_parser ?p k ?adv ?pe st =
      bin_loop i (level_ops ?p) ?adv (level_parser (Suc ?p) k ?adv ?pe) (BinOp m op n) (t, r)"
    unfolding lp i using st2 two by (simp add: level_ops_token)
  moreover have "k \<le> i + length (s @ binop_sym op @ u)" using i j sym by simp
  ultimately have "reaches literal ?p k rest (s @ binop_sym op @ u) (BinOp m op n) st (t, r)"
    using p by (auto simp: reaches_def Let_def)
  with st show "\<exists>st. ?adv ((s @ binop_sym op @ u) @ rest) = Inr st \<and>
      reaches literal ?p k rest (s @ binop_sym op @ u) (BinOp m op n) st (t, r)"
    by auto
qed

lemma reads_sign:
  assumes s: "reads_as literal 5 s n" and c: "c = CHR ''-'' \<and> u = USub \<or> c = CHR ''+'' \<and> u = UAdd"
  shows "reads_as literal 5 (c # s) (UnaryOp u n)"
proof (rule reads_asI)
  fix k rest t r
  assume a: "length (c # s) + length rest < k" "not_ident rest"
    "Tokenizer_next literal rest = Inr (t, r)" "follow 5 t"
  let ?adv = "Tokenizer_next literal"
  let ?atom = "parse_atom k ?adv (parse_expr (k - 1) ?adv)"
  have "length s + length rest < k" using a(1) by simp
  from s this a(2-4) obtain st where st: "?adv (s @ rest) = Inr st" and re: "reaches literal 5 k rest s n st (t, r)"
    by (rule reads_asE)
  have sub: "parse_unary m ?adv ?atom st = Inr (n, (t, r))" if "length s + length rest < m" for m
    using re that by (simp add: reaches_def Let_def)
  let ?st = "(simple_token (if u = USub then TMinus else TPlus) [c], s @ rest)"
  have "parse_unary m ?adv ?atom ?st = Inr (UnaryOp u n, (t, r))" if m: "length (c # s) + length rest < m" for m
  proof -
    obtain i where i: "m = Suc i" using m by (cases m) auto
    with m sub have "parse_unary i ?adv ?atom st = Inr (n, (t, r))" by simp
    with i c st show ?thesis by (auto simp del: parse_atom.simps)
  qed
  then have "reaches literal 5 k rest (c # s) (UnaryOp u n) ?st (t, r)"
    by (auto simp: reaches_def Let_def simp del: parse_atom.simps)
  moreover have "?adv ((c # s) @ rest) = Inr ?st" using c by auto
  ultimately show "\<exists>st. ?adv ((c # s) @ rest) = Inr st \<and> reaches literal 5 k rest (c # s) (UnaryOp u n) st (t, r)"
    by blast
qed

lemma reads_atomI:
  assumes "\<And>k rest t r. length s + length rest < k \<Longrightarrow> not_ident rest \<Longrightarrow>
      Tokenizer_next literal rest = Inr (t, r) \<Longrightarrow> kind t \<noteq> TLParen \<Longrightarrow>
      \<exists>st. Tokenizer_next literal (s @ rest) = Inr st \<and>
        parse_atom k (Tokenizer_next literal) (parse_expr (k - 1) (Tokenizer_next literal)) st = Inr (n, (t, r))"
  shows "reads_as literal 6 s n"
  by (rule reads_asI) (use assms in \<open>simp add: reaches_def Let_def follow_def\<close>)

lemma reads_num: "ds \<noteq> [] \<Longrightarrow> list_all isdigit ds \<Longrightarrow> literal ds = Some v \<Longrightarrow> reads_as literal 6 ds (Constant v)"
  by (rule reads_atomI) (simp add: next_num)

lemma reads_name: "is_name x \<Longrightarrow> reads_as literal 6 x (Name x)"
  by (rule reads_atomI) (simp add: next_name)

lemma reads_paren:
  assumes s: "reads_as literal 1 s n"
  shows "reads_as literal 6 (''('' @ s @ '')'') n"
proof (rule reads_atomI)
  fix k rest t r
  assume a: "length (''('' @ s @ '')'') + length rest < k" "Tokenizer_next literal rest = Inr (t, r)"
  let ?adv = "Tokenizer_next literal"
  have k: "length s + length (CHR '')'' # rest) < k - 1" using a(1) by simp
  from s k not_ident_simps(2) next_rparen follow_close(1)
  obtain st where "?adv (s @ CHR '')'' # rest) = Inr st"
    and "parse_expr (k - 1) ?adv st = Inr (n, (simple_token TRParen '')'', rest))"
    by (rule reads_expr)
  with a(2) show "\<exists>st. ?adv ((''('' @ s @ '')'') @ rest) = Inr st \<and>
      parse_atom k ?adv (parse_expr (k - 1) ?adv) st = Inr (n, (t, r))"
    by simp
qed

text \<open>No expression starts at a closing parenthesis.\<close>

definition opens :: "'s parser \<Rightarrow> bool" where
  "opens f \<longleftrightarrow> (\<forall>t s. kind t = TRParen \<longrightarrow> (\<exists>e. f (t, s) = Inl e))"

lemma opens_bin_level: "opens sub \<Longrightarrow> opens (bin_level k ops adv sub)"
  unfolding opens_def bin_level_def by (metis bindR_simps(1))

lemma opens_atom: "opens (parse_atom k adv pe)"
  by (auto simp: opens_def)

lemma opens_unary: "opens atom \<Longrightarrow> opens (parse_unary k adv atom)"
  by (cases k) (auto simp: opens_def)

lemma opens_expr: "opens (parse_expr k adv)"
proof (cases k)
  case (Suc m)
  have "opens (parse_xor k adv (parse_expr m adv))"
    unfolding parse_xor_def parse_and_def parse_add_def parse_mul_def
    by (intro opens_bin_level opens_unary opens_atom)
  then show ?thesis by (simp add: opens_def Suc)
qed (simp add: opens_def)

lemma opensD: "opens f \<Longrightarrow> f st = Inr x \<Longrightarrow> kind (fst st) \<noteq> TRParen"
  unfolding opens_def by (metis Inl_Inr_False prod.collapse)

text \<open>The arguments after the first, each behind its comma.\<close>

definition comma_tail :: "string list \<Rightarrow> string" where
  "comma_tail ss = concat (map (\<lambda>s. CHR '','' # s) ss)"

lemma join_Cons: "join (s # ss) = s @ comma_tail ss"
  by (induction ss arbitrary: s) (auto simp: comma_tail_def)

lemma comma_tail_next:
  obtains t r where "Tokenizer_next literal (comma_tail ss @ CHR '')'' # rest) = Inr (t, r)"
    and "follow 0 t" and "not_ident (comma_tail ss @ CHR '')'' # rest)"
  by (cases ss) (auto simp: comma_tail_def)

lemma reads_args:
  assumes "list_all2 (reads_as literal 1) ss ns"
    and "length (comma_tail ss) + length rest + 1 < j" and "length (comma_tail ss) + length rest + 1 < k"
    and st: "Tokenizer_next literal (comma_tail ss @ CHR '')'' # rest) = Inr st"
  shows "args_loop j (Tokenizer_next literal) (parse_expr k (Tokenizer_next literal)) args st
     = Inr (args @ ns, (simple_token TRParen '')'', rest))"
  using assms
proof (induction ss ns arbitrary: args j st rule: list_all2_induct)
  case Nil
  then show ?case by (cases j) (auto simp: comma_tail_def)
next
  case (Cons s ss n ns)
  let ?adv = "Tokenizer_next literal" and ?rest = "comma_tail ss @ CHR '')'' # rest"
  have split: "comma_tail (s # ss) = CHR '','' # s @ comma_tail ss" by (simp add: comma_tail_def)
  obtain t r where tr: "?adv ?rest = Inr (t, r)" "follow 0 t" "not_ident ?rest"
    by (rule comma_tail_next)
  obtain i where i: "j = Suc i" using Cons.prems(1) by (cases j) auto
  have k: "length s + length ?rest < k" using Cons.prems(2) by (simp add: split)
  from Cons.hyps(1) k tr(3,1,2)
  obtain st1 where st1: "?adv (s @ ?rest) = Inr st1" "parse_expr k ?adv st1 = Inr (n, (t, r))"
    by (rule reads_expr)
  have "args_loop i ?adv (parse_expr k ?adv) (args @ [n]) (t, r) =
      Inr ((args @ [n]) @ ns, (simple_token TRParen '')'', rest))"
    using Cons.prems(1,2) tr(1) by (intro Cons.IH) (auto simp: split i)
  with st1 Cons.prems(3) show ?case by (auto simp: i split)
qed

lemma reads_call:
  assumes f: "is_name f" and args: "list_all2 (reads_as literal 1) ss ns"
  shows "reads_as literal 6 (f @ ''('' @ join ss @ '')'') (Call f ns)"
proof (rule reads_atomI)
  fix k rest t r
  assume a: "length (f @ ''('' @ join ss @ '')'') + length rest < k" "Tokenizer_next literal rest = Inr (t, r)"
  let ?adv = "Tokenizer_next literal" and ?in = "join ss @ CHR '')'' # rest"
  have name: "?adv (f @ CHR ''('' # ?in) = Inr (simple_token TName f, CHR ''('' # ?in)"
    using f by (simp add: next_name)
  have "\<exists>st. ?adv ?in = Inr st \<and>
      call_args k ?adv (parse_expr (k - 1) ?adv) st = Inr (ns, (simple_token TRParen '')'', rest))"
  proof (cases ss)
    case Nil
    with args show ?thesis by (simp add: call_args_def)
  next
    case (Cons s ss')
    with args obtain n ns' where ns: "ns = n # ns'" "reads_as literal 1 s n" "list_all2 (reads_as literal 1) ss' ns'"
      by (auto simp: list_all2_Cons1)
    let ?rest = "comma_tail ss' @ CHR '')'' # rest"
    obtain t1 r1 where tr: "?adv ?rest = Inr (t1, r1)" "follow 0 t1" "not_ident ?rest"
      by (rule comma_tail_next)
    have k: "length s + length ?rest < k - 1" using a(1) by (simp add: Cons join_Cons)
    from ns(2) k tr(3,1,2)
    obtain st1 where st1: "?adv (s @ ?rest) = Inr st1" "parse_expr (k - 1) ?adv st1 = Inr (n, (t1, r1))"
      by (rule reads_expr)
    have "args_loop k ?adv (parse_expr (k - 1) ?adv) [n] (t1, r1) =
        Inr ([n] @ ns', (simple_token TRParen '')'', rest))"
      by (rule reads_args [OF ns(3) _ _ tr(1)]) (use k in auto)
    moreover have "kind (fst st1) \<noteq> TRParen"
      by (rule opensD [OF opens_expr st1(2)])
    ultimately show ?thesis using st1 by (auto simp: Cons join_Cons ns call_args_def)
  qed
  then obtain st2 where st2: "?adv ?in = Inr st2"
    "call_args k ?adv (parse_expr (k - 1) ?adv) st2 = Inr (ns, (simple_token TRParen '')'', rest))"
    by blast
  show "\<exists>st. ?adv ((f @ ''('' @ join ss @ '')'') @ rest) = Inr st \<and>
      parse_atom k ?adv (parse_expr (k - 1) ?adv) st = Inr (Call f ns, (t, r))"
    using name st2 a(2) by simp
qed

section \<open>The parser accepts the grammar\<close>

lemma derives_reads: "derives literal p s n \<Longrightarrow> reads_as literal p s n"
proof (induction rule: derives.induct)
  case (num ds v)
  then show ?case by (rule reads_num)
next
  case (name x)
  then show ?case by (rule reads_name)
next
  case (call f ss ns)
  then have "list_all2 (reads_as literal 1) ss ns" by (auto elim: list_all2_mono)
  with call.hyps(1) show ?case by (rule reads_call)
next
  case (paren s n)
  show ?case by (rule reads_paren) (rule paren.IH)
next
  case (neg s n)
  then show ?case using reads_sign [of literal s n "CHR ''-''" USub] by simp
next
  case (pos s n)
  then show ?case using reads_sign [of literal s n "CHR ''+''" UAdd] by simp
next
  case (binary op s m t n)
  show ?case by (rule reads_binary) (rule binary.IH)+
next
  case (level p s n)
  show ?case by (rule reads_level) (rule level.IH level.hyps)+
qed

theorem Parser_parse_derives:
  assumes "derives literal p s n"
  shows "Parser_parse literal s = Inr n"
proof -
  have p: "1 \<le> p" "p \<le> 6" using derives_level_range [OF assms] by auto
  have "reads_as literal 1 s n" using p by (intro derives_reads derives_lower [OF assms]) auto
  moreover have "length s + length [] < length s + 3" by simp
  ultimately obtain st where "Tokenizer_next literal (s @ []) = Inr st"
    and "parse_expr (length s + 3) (Tokenizer_next literal) st = Inr (n, (simple_token TEof [], []))"
    using not_ident_simps(1) next_eof follow_close(3) by (rule reads_expr)
  then show ?thesis by (simp add: Parser_parse_def Let_def expect_eof_def del: parse_expr.simps)
qed

text \<open>The grammar is unambiguous: a text denotes at most one expression.\<close>

corollary derives_unique:
  "derives literal p s m \<Longrightarrow> derives literal q s n \<Longrightarrow> m = n"
  by (metis Parser_parse_derives Inr_inject)

text \<open>C10: The parser accepts every sentence of the grammar of the language and returns the tree the grammar gives it,
  at every level of precedence.\<close>

theorem parser_accepts_the_grammar:
  assumes "derives literal p s n"
  shows "Parser_parse literal s = Inr n"
  using assms by (rule Parser_parse_derives)

lemma parser_accepts_the_grammar_witness:
  "Parser_parse TryParseInt64Literal ''x'' = Inr (Name ''x'')"
  by (rule parser_accepts_the_grammar [where p = 6], rule derives.name)
    (simp add: is_name_def is_ident_char_def char_class)

text \<open>The grammar is unambiguous: a text has at most one tree, whatever the levels it is derived at.\<close>

lemma grammar_is_unambiguous:
  assumes "derives literal p s m" "derives literal q s n"
  shows "m = n"
  using assms Parser_parse_derives by (metis sum.inject(2))

lemma grammar_is_unambiguous_witness:
  "Name ''x'' = Name ''x''"
  by (rule grammar_is_unambiguous [where literal = "\<lambda>_. None" and s = "''x''" and p = 6 and q = 6];
      rule derives.name; simp add: is_name_def is_ident_char_def char_class)

end
