(* ===== verification/ExprRoundTrip.thy ===== *)
theory ExprRoundTrip
  imports ExprGrammar
begin

text \<open>
  What \<open>parse\<close> makes of \<open>unparse\<close>'s output.  The unparser drops the parentheses of a right operand of
  the same precedence under a commutative operator, so the text denotes the left-associated tree
  \<open>canon n\<close>; negative constants come back as a sign on a numeral.  \<open>canon\<close> keeps the meaning except
  where a product has a division on the product spine of its right operand.
\<close>

section \<open>The tree a text denotes\<close>

fun graft :: "node \<Rightarrow> BinOpKind \<Rightarrow> node \<Rightarrow> node" where
  "graft x op (BinOp l o2 r) =
     (if binop_prec o2 = binop_prec op then BinOp (graft x op l) o2 r else BinOp x op (BinOp l o2 r))"
| "graft x op y = BinOp x op y"

fun canon :: "node \<Rightarrow> node" where
  "canon (Constant c) = (if c < 0 then UnaryOp USub (Constant (- c)) else Constant c)"
| "canon (Name x) = Name x"
| "canon (BinOp l op r) =
     (if binop_commutative op \<and> node_prec r = binop_prec op then graft (canon l) op (canon r)
      else BinOp (canon l) op (canon r))"
| "canon (UnaryOp u x) = UnaryOp u (canon x)"
| "canon (Call f args) = Call f (map canon args)"

text \<open>The trees the language can write: identifiers as names, numerals the reader accepts.\<close>

fun writable :: "(string \<Rightarrow> int option) \<Rightarrow> node \<Rightarrow> bool" where
  "writable literal (Constant c) \<longleftrightarrow> literal (show_nat (nat \<bar>c\<bar>)) = Some \<bar>c\<bar>"
| "writable literal (Name x) \<longleftrightarrow> is_name x"
| "writable literal (BinOp l op r) \<longleftrightarrow> writable literal l \<and> writable literal r"
| "writable literal (UnaryOp u x) \<longleftrightarrow> writable literal x"
| "writable literal (Call f args) \<longleftrightarrow> is_name f \<and> (\<forall>a \<in> set args. writable literal a)"

section \<open>Chains of operators of one level\<close>

text \<open>A text of level \<open>p\<close> whose left spine of level-\<open>p\<close> operators is written without parentheses.\<close>

inductive chain :: "(string \<Rightarrow> int option) \<Rightarrow> nat \<Rightarrow> string \<Rightarrow> node \<Rightarrow> bool"
  for literal :: "string \<Rightarrow> int option" and p :: nat where
  base: "derives literal (Suc p) s n \<Longrightarrow> node_prec n \<noteq> p \<Longrightarrow> chain literal p s n"
| step: "chain literal p s m \<Longrightarrow> derives literal (Suc p) t n \<Longrightarrow> binop_prec op = p \<Longrightarrow>
    chain literal p (s @ binop_sym op @ t) (BinOp m op n)"

lemma chain_derives: "chain literal p s n \<Longrightarrow> 1 \<le> p \<Longrightarrow> p \<le> 5 \<Longrightarrow> derives literal p s n"
proof (induction rule: chain.induct)
  case (base s n)
  then show ?case by (metis derives.level)
next
  case (step s m t n op)
  then show ?case using derives.binary [of literal op s m t n] by simp
qed

lemma graft_base: "node_prec y \<noteq> binop_prec op \<Longrightarrow> graft x op y = BinOp x op y"
  by (cases y) auto

lemma chain_graft:
  assumes "chain literal p t n" and "chain literal p s m" and op: "binop_prec op = p"
  shows "chain literal p (s @ binop_sym op @ t) (graft m op n)"
  using assms(1)
proof (induction rule: chain.induct)
  case (base t n)
  with chain.step [OF assms(2) base.hyps(1) op] op show ?case by (simp add: graft_base)
next
  case (step t1 n1 t2 n2 o2)
  from chain.step [OF step.IH step.hyps(2,3)] step.hyps(3) op show ?case by simp
qed

section \<open>The unparser writes the grammar\<close>

text \<open>The level of a tree's text.\<close>

fun text_level :: "node \<Rightarrow> nat" where
  "text_level (Constant c) = (if c < 0 then 5 else 6)"
| "text_level (BinOp l op r) = binop_prec op"
| "text_level (UnaryOp u x) = 5"
| "text_level _ = 6"

lemma text_level_prec: "p \<le> 5 \<Longrightarrow> node_prec n < p \<longleftrightarrow> text_level n < p"
  "p \<le> 4 \<Longrightarrow> node_prec n = p \<longleftrightarrow> text_level n = p"
  by (cases n; auto)+

lemma node_prec_graft [simp]: "node_prec (graft x op y) = binop_prec op"
  by (cases y) auto

lemma node_prec_canon: "p \<le> 4 \<Longrightarrow> node_prec (canon n) = p \<longleftrightarrow> node_prec n = p"
  by (cases n) auto

lemma text_level_range: "1 \<le> text_level n" "text_level n \<le> 6"
proof -
  have "binop_prec op \<le> 6" for op using binop_prec_range(2) [of op] by simp
  then show "1 \<le> text_level n" "text_level n \<le> 6" using binop_prec_range(1) by (cases n; force)+
qed

lemma show_nat_reads: "list_all isdigit (show_nat n)"
  using show_nat_digits by (simp add: list_all_iff)

text \<open>An operand that is not of the operator's level, with its parentheses.\<close>

lemma operand_derives:
  assumes "derives literal (text_level n) (unparse n) (canon n)" and "1 \<le> p" and "p \<le> 5"
    and "b = (node_prec n < p)"
  shows "derives literal p (parens b (unparse n)) (canon n)"
proof (cases b)
  case True
  have "derives literal 1 (unparse n) (canon n)"
    by (rule derives_lower [OF assms(1)]) (use text_level_range in auto)
  from derives.paren [OF this] have "derives literal 6 (parens b (unparse n)) (canon n)"
    using True by (simp add: parens_def)
  then show ?thesis by (rule derives_lower) (use assms(2,3) in auto)
next
  case False
  then have "p \<le> text_level n" using assms(3,4) text_level_prec(1) [of p n] by simp
  with derives_lower [OF assms(1,2)] False show ?thesis by (simp add: parens_def)
qed

lemma left_chain:
  assumes d: "derives literal (text_level l) (unparse l) (canon l)"
    and c: "node_prec l = p \<Longrightarrow> chain literal p (unparse l) (canon l)" and p: "1 \<le> p" "p \<le> 4"
  shows "chain literal p (parens (node_prec l < p) (unparse l)) (canon l)"
proof (cases "node_prec l = p")
  case True
  with c show ?thesis by (simp add: parens_def)
next
  case False
  then have "(node_prec l < p) = (node_prec l < Suc p)" by auto
  then have "derives literal (Suc p) (parens (node_prec l < p) (unparse l)) (canon l)"
    using p by (intro operand_derives [OF d]) auto
  with False p show ?thesis by (intro chain.base) (auto simp: node_prec_canon)
qed

lemma unparse_derives_chain:
  "writable literal n \<Longrightarrow> derives literal (text_level n) (unparse n) (canon n) \<and>
     (\<forall>p. 1 \<le> p \<and> p \<le> 4 \<and> node_prec n = p \<longrightarrow> chain literal p (unparse n) (canon n))"
proof (induction n)
  case (Constant c)
  have "derives literal 6 (show_nat (nat \<bar>c\<bar>)) (Constant \<bar>c\<bar>)"
    using Constant show_nat_reads by (intro derives.num) auto
  moreover from this have "derives literal 5 (show_nat (nat \<bar>c\<bar>)) (Constant \<bar>c\<bar>)"
    by (rule derives_lower) auto
  ultimately have "derives literal (text_level (Constant c)) (to_string c) (canon (Constant c))"
    by (auto simp: to_string_def abs_if dest: derives.neg)
  then show ?case by simp
next
  case (Name x)
  then show ?case by (auto intro: derives.name)
next
  case (BinOp l op r)
  let ?p = "binop_prec op"
  have p: "1 \<le> ?p" "?p \<le> 4" by (rule binop_prec_range)+
  have l: "chain literal ?p (parens (node_prec l < ?p) (unparse l)) (canon l)"
    using BinOp p by (intro left_chain) auto
  have r: "derives literal (text_level r) (unparse r) (canon r)" using BinOp by simp
  have "chain literal ?p (unparse (BinOp l op r)) (canon (BinOp l op r))"
  proof (cases "binop_commutative op \<and> node_prec r = ?p")
    case True
    then have "chain literal ?p (unparse r) (canon r)" using BinOp p by auto
    from chain_graft [OF this l refl] True show ?thesis by (simp add: Let_def parens_def)
  next
    case False
    then have b: "(node_prec r < ?p \<or> (\<not> binop_commutative op \<and> node_prec r = ?p)) = (node_prec r < Suc ?p)"
      by auto
    have "derives literal (Suc ?p) (parens (node_prec r < Suc ?p) (unparse r)) (canon r)"
      using p by (intro operand_derives [OF r]) auto
    from chain.step [OF l this refl] show ?thesis
      unfolding unparse.simps Let_def b canon.simps by (simp only: False if_False)
  qed
  with p show ?case using chain_derives by (simp add: Let_def)
next
  case (UnaryOp u x)
  then have "derives literal 5 (parens (node_prec x < 5) (unparse x)) (canon x)"
    by (intro operand_derives) auto
  then show ?case
    by (cases u) (auto dest: derives.neg derives.pos)
next
  case (Call f args)
  then have "derives literal 1 (unparse a) (canon a)" if "a \<in> set args" for a
    using that text_level_range [of a] derives_lower [of literal "text_level a" "unparse a" "canon a" 1] by auto
  then have "list_all2 (derives literal 1) (map unparse args) (map canon args)"
    by (auto simp: list_all2_conv_all_nth)
  with Call.prems show ?case by (auto dest: derives.call)
qed

lemma unparse_derives: "writable literal n \<Longrightarrow> derives literal (text_level n) (unparse n) (canon n)"
  using unparse_derives_chain by blast

theorem parse_unparse_canon: "writable literal n \<Longrightarrow> Parser_parse literal (unparse n) = Inr (canon n)"
  by (rule Parser_parse_derives) (rule unparse_derives)

section \<open>When the text keeps the meaning\<close>

text \<open>No division on the product spine of an expression.\<close>

fun no_div_spine :: "node \<Rightarrow> bool" where
  "no_div_spine (BinOp l op r) \<longleftrightarrow>
     (if op = Mult then no_div_spine l \<and> no_div_spine r else op \<notin> {FloorDiv, ExactDiv, Mod})"
| "no_div_spine _ \<longleftrightarrow> True"

text \<open>No product whose right operand has a division on its product spine.\<close>

fun unambiguous :: "node \<Rightarrow> bool" where
  "unambiguous (BinOp l op r) \<longleftrightarrow>
     unambiguous l \<and> unambiguous r \<and> (op = Mult \<longrightarrow> no_div_spine r)"
| "unambiguous (UnaryOp u x) \<longleftrightarrow> unambiguous x"
| "unambiguous (Call f args) \<longleftrightarrow> (\<forall>a \<in> set args. unambiguous a)"
| "unambiguous _ \<longleftrightarrow> True"

lemma no_div_spine_graft: "no_div_spine x \<Longrightarrow> no_div_spine y \<Longrightarrow> op \<notin> {FloorDiv, ExactDiv, Mod} \<Longrightarrow>
    no_div_spine (graft x op y)"
  by (induction y) (auto split: if_splits)

lemma no_div_spine_prec: "node_prec n \<noteq> 4 \<Longrightarrow> no_div_spine n"
  by (cases n) (auto simp: binop_prec_def)

lemma no_div_spine_canon: "no_div_spine n \<Longrightarrow> no_div_spine (canon n)"
proof (induction n)
  case (BinOp l op r)
  show ?case
  proof (cases "op = Mult")
    case True
    with BinOp show ?thesis by (simp add: no_div_spine_graft)
  next
    case False
    with BinOp.prems have "node_prec (canon (BinOp l op r)) \<noteq> 4"
      by (cases op) (auto simp: binop_prec_def)
    then show ?thesis by (rule no_div_spine_prec)
  qed
qed auto

lemma sem_graft:
  assumes "binop_commutative op" and "op = Mult \<longrightarrow> no_div_spine y"
  shows "sem env (graft x op y) = Some v \<longleftrightarrow> sem env (BinOp x op y) = Some v"
  using assms(2)
proof (induction y arbitrary: v)
  case (BinOp l o2 r)
  show ?case
  proof (cases "binop_prec o2 = binop_prec op")
    case True
    with assms(1) BinOp.prems consider "op = Add" "o2 = Add" | "op = Add" "o2 = Sub" | "op = Mult" "o2 = Mult"
      | "op = BitXor" "o2 = BitXor" | "op = BitAnd" "o2 = BitAnd"
      by (cases op; cases o2) (auto simp: binop_commutative_def binop_prec_def)
    then show ?thesis
      using BinOp.IH(1) BinOp.prems
      by cases (auto simp del: sem.simps simp: binop_prec_def add.assoc mult.assoc max.assoc min.assoc
          add_diff_eq [symmetric])
  qed simp
qed simp_all

lemma sem_eqI: "(\<And>v. sem env m = Some v \<longleftrightarrow> sem env n = Some v) \<Longrightarrow> sem env m = sem env n"
  by (metis not_None_eq)

lemma sem_canon: "unambiguous n \<Longrightarrow> sem env (canon n) = sem env n"
proof (induction n)
  case (BinOp l op r)
  have "sem env (graft (canon l) op (canon r)) = sem env (BinOp (canon l) op (canon r))"
    if "binop_commutative op"
    using BinOp.prems that by (intro sem_eqI sem_graft) (auto simp: no_div_spine_canon)
  with BinOp show ?case by auto
next
  case (Call f args)
  show ?case
  proof (cases "f = ''CeilToInt'' \<and> length args = 2")
    case True
    then obtain a b where "args = [a, b]" by (auto simp: length_Suc_conv numeral_2_eq_2)
    with Call True show ?thesis by simp
  qed auto
qed simp_all

section \<open>Texts determine meanings\<close>

text \<open>A reader of numerals without a range, for statements about texts as such.\<close>

definition any_literal :: "string \<Rightarrow> int option" where
  "any_literal ds = Some (int (read_nat ds))"

abbreviation names_ok :: "node \<Rightarrow> bool" where "names_ok \<equiv> writable any_literal"

lemma any_literal_show [simp]: "any_literal (show_nat (nat \<bar>c\<bar>)) = Some \<bar>c\<bar>"
  by (simp add: any_literal_def)

lemma writable_names_ok: "writable literal n \<Longrightarrow> names_ok n"
  by (induction n) auto

text \<open>The meaning of a text.\<close>

definition text_sem :: "(string \<Rightarrow> int option) \<Rightarrow> string \<Rightarrow> int option" where
  "text_sem env s = (case Parser_parse any_literal s of Inr n \<Rightarrow> sem env n | Inl e \<Rightarrow> None)"

lemma text_sem_unparse: "names_ok n \<Longrightarrow> unambiguous n \<Longrightarrow> text_sem env (unparse n) = sem env n"
  by (simp add: text_sem_def parse_unparse_canon sem_canon)

lemma text_sem_derives: "derives any_literal p s n \<Longrightarrow> text_sem env s = sem env n"
  by (simp add: text_sem_def Parser_parse_derives)

lemma unparse_eq_sem:
  assumes "unparse m = unparse n" "names_ok m" "unambiguous m" "names_ok n" "unambiguous n"
  shows "sem env m = sem env n"
  using assms text_sem_unparse by metis

section \<open>What the parser returns\<close>

text \<open>A property of tokens and trees that the tokenizer establishes and the constructors keep.\<close>

locale tree_typing =
  fixes adv :: "'s lexer" and tok_ok :: "Token \<Rightarrow> bool" and tree_ok :: "node \<Rightarrow> bool"
  assumes adv_ok: "adv s = Inr (t, s') \<Longrightarrow> tok_ok t"
    and const_ok: "tok_ok t \<Longrightarrow> kind t = TInteger \<Longrightarrow> tree_ok (Constant (tvalue t))"
    and name_ok: "tok_ok t \<Longrightarrow> kind t = TName \<Longrightarrow> tree_ok (Name (ttext t))"
    and call_ok: "tok_ok t \<Longrightarrow> kind t = TName \<Longrightarrow> list_all tree_ok args \<Longrightarrow> tree_ok (Call (ttext t) args)"
    and binop_ok: "tree_ok l \<Longrightarrow> tree_ok r \<Longrightarrow> tree_ok (BinOp l op r)"
    and unary_ok: "tree_ok x \<Longrightarrow> tree_ok (UnaryOp u x)"
begin

definition yields :: "('a \<Rightarrow> bool) \<Rightarrow> ('a \<times> 's pstate) res \<Rightarrow> bool" where
  "yields P r \<longleftrightarrow> (case r of Inl e \<Rightarrow> True | Inr (x, (t, s)) \<Rightarrow> P x \<and> tok_ok t)"

definition typed :: "'s parser \<Rightarrow> bool" where
  "typed f \<longleftrightarrow> (\<forall>t s. tok_ok t \<longrightarrow> yields tree_ok (f (t, s)))"

lemma yields_simps [simp]:
  "yields P (Inl e)" "yields P (Inr (x, (t, s))) \<longleftrightarrow> P x \<and> tok_ok t"
  by (simp_all add: yields_def)

lemma yields_adv: "(\<And>t s'. tok_ok t \<Longrightarrow> yields P (f (t, s'))) \<Longrightarrow> yields P (bindR (adv s) f)"
  using adv_ok by (cases "adv s") auto

lemma yields_bind:
  "yields Q m \<Longrightarrow> (\<And>x t s'. Q x \<Longrightarrow> tok_ok t \<Longrightarrow> yields P (f (x, (t, s')))) \<Longrightarrow> yields P (bindR m f)"
proof (cases m)
  case (Inr y)
  obtain x t s' where "y = (x, (t, s'))" by (cases y) auto
  then show "yields Q m \<Longrightarrow> (\<And>x t s'. Q x \<Longrightarrow> tok_ok t \<Longrightarrow> yields P (f (x, (t, s')))) \<Longrightarrow>
      yields P (bindR m f)"
    using Inr by simp
qed simp

lemma typed_apply: "typed f \<Longrightarrow> tok_ok t \<Longrightarrow> yields tree_ok (f (t, s))"
  by (simp add: typed_def)

lemma bin_loop_typed:
  "typed sub \<Longrightarrow> tree_ok lhs \<Longrightarrow> tok_ok t \<Longrightarrow> yields tree_ok (bin_loop k ops adv sub lhs (t, s))"
proof (induction k arbitrary: lhs t s)
  case (Suc k)
  have "yields tree_ok (bindR (adv s) (\<lambda>st. bindR (sub st) (\<lambda>(rhs, st').
      bin_loop k ops adv sub (BinOp lhs op rhs) st')))" for op
    by (rule yields_adv, rule yields_bind [OF typed_apply [OF Suc.prems(1)]])
      (auto intro: Suc.IH Suc.prems binop_ok)
  with Suc.prems show ?case by (auto split: option.splits)
qed simp

lemma bin_level_typed: "typed sub \<Longrightarrow> typed (bin_level k ops adv sub)"
  unfolding typed_def bin_level_def
  by (auto intro!: yields_bind [where Q = tree_ok] bin_loop_typed [unfolded typed_def])

lemma args_loop_typed:
  "typed pe \<Longrightarrow> list_all tree_ok args \<Longrightarrow> tok_ok t \<Longrightarrow>
    yields (list_all tree_ok) (args_loop k adv pe args (t, s))"
proof (induction k arbitrary: args t s)
  case (Suc k)
  have "yields (list_all tree_ok) (bindR (adv s) (\<lambda>st. bindR (pe st) (\<lambda>(arg, st').
      args_loop k adv pe (args @ [arg]) st')))"
    by (rule yields_adv, rule yields_bind [OF typed_apply [OF Suc.prems(1)]])
      (simp_all add: Suc.IH Suc.prems)
  with Suc.prems show ?case by auto
qed simp

lemma call_args_typed:
  assumes pe: "typed pe" and t: "tok_ok t"
  shows "yields (list_all tree_ok) (call_args k adv pe (t, s))"
proof -
  have "yields (list_all tree_ok) (bindR (pe (t, s)) (\<lambda>(arg, st'). args_loop k adv pe [arg] st'))"
    by (rule yields_bind [OF typed_apply [OF pe t]]) (simp add: args_loop_typed pe)
  with t show ?thesis by (simp add: call_args_def)
qed

lemma parse_atom_typed:
  assumes pe: "typed pe"
  shows "typed (parse_atom k adv pe)"
proof -
  have "yields tree_ok (parse_atom k adv pe (t, s))" if t: "tok_ok t" for t s
  proof -
    have int: "yields tree_ok (bindR (adv s) (\<lambda>st. Inr (Constant (tvalue t), st)))" if "kind t = TInteger"
      by (rule yields_adv) (simp add: const_ok t that)
    have call: "yields tree_ok (bindR (adv s1) (\<lambda>st2. bindR (call_args k adv pe st2) (\<lambda>(args, (t3, s3)).
              if kind t3 \<noteq> TRParen then Inl e
              else bindR (adv s3) (\<lambda>st4. Inr (Call (ttext t) args, st4)))))" if "kind t = TName" for s1 e
      by (rule yields_adv, rule yields_bind [OF call_args_typed [OF pe]])
        (auto intro!: yields_adv call_ok t that)
    have name: "yields tree_ok (bindR (adv s) (\<lambda>(t1, s1).
          if kind t1 = TLParen then
            bindR (adv s1) (\<lambda>st2. bindR (call_args k adv pe st2) (\<lambda>(args, (t3, s3)).
              if kind t3 \<noteq> TRParen then Inl e
              else bindR (adv s3) (\<lambda>st4. Inr (Call (ttext t) args, st4))))
          else Inr (Name (ttext t), (t1, s1))))" if "kind t = TName" for e
      by (rule yields_adv) (simp add: call that name_ok t)
    have paren: "yields tree_ok (bindR (adv s) (\<lambda>st1. bindR (pe st1) (\<lambda>(inner, (t2, s2)).
          if kind t2 \<noteq> TRParen then Inl e else bindR (adv s2) (\<lambda>st3. Inr (inner, st3)))))" for e
      by (rule yields_adv, rule yields_bind [OF typed_apply [OF pe]]) (auto intro!: yields_adv)
    from int name paren show ?thesis by simp
  qed
  then show ?thesis by (simp add: typed_def del: parse_atom.simps)
qed

lemma parse_unary_typed: "typed atom \<Longrightarrow> typed (parse_unary k adv atom)"
proof (induction k)
  case (Suc k)
  then have sub: "typed (parse_unary k adv atom)" by simp
  have "yields tree_ok (bindR (adv s) (\<lambda>st. bindR (parse_unary k adv atom st) (\<lambda>(x, st'). Inr (UnaryOp u x, st'))))" for s u
    by (rule yields_adv, rule yields_bind [OF typed_apply [OF sub]]) (simp_all add: unary_ok)
  with Suc.prems show ?case by (simp add: typed_def)
qed (simp add: typed_def)

lemma parse_expr_typed: "typed (parse_expr k adv)"
proof (induction k)
  case (Suc k)
  then have "typed (parse_xor (Suc k) adv (parse_expr k adv))"
    unfolding parse_xor_def parse_and_def parse_add_def parse_mul_def
    by (intro bin_level_typed parse_unary_typed parse_atom_typed)
  then show ?case by (simp add: typed_def)
qed (simp add: typed_def)

end

lemma list_all_takeWhile: "list_all P (takeWhile P xs)"
  by (induction xs) auto

lemma char_token_kind: "char_token c = Some k \<Longrightarrow> k \<noteq> TName \<and> k \<noteq> TInteger"
  by (auto simp: char_token_def split: if_splits)

lemma Tokenizer_next_tokens:
  assumes "Tokenizer_next literal input = Inr (t, s')"
  shows "(kind t = TName \<longrightarrow> is_name (ttext t)) \<and>
    (kind t = TInteger \<longrightarrow> ttext t \<noteq> [] \<and> list_all isdigit (ttext t) \<and> literal (ttext t) = Some (tvalue t))"
proof (cases "dropWhile isspace input")
  case Nil
  with assms show ?thesis by (auto simp: Tokenizer_next_def)
next
  case (Cons c cs)
  consider (num) "isdigit c" | (name) "\<not> isdigit c" "isalpha c \<or> c = CHR ''_''"
    | (other) "\<not> isdigit c" "\<not> (isalpha c \<or> c = CHR ''_'')" by blast
  then show ?thesis
  proof cases
    case num
    then have "takeWhile isdigit (c # cs) \<noteq> []" by simp
    with num assms list_all_takeWhile [of isdigit "c # cs"] show ?thesis
      by (auto simp: Tokenizer_next_def Cons Let_def split: option.splits)
  next
    case name
    then have "is_ident_char c" by (auto simp: is_ident_char_def isalnum_def)
    with name have "is_name (takeWhile is_ident_char (c # cs))"
      using list_all_takeWhile [of is_ident_char "c # cs"] by (auto simp: is_name_def)
    with name assms show ?thesis by (auto simp: Tokenizer_next_def Cons)
  next
    case other
    with assms char_token_kind [of c] show ?thesis
      by (auto simp: Tokenizer_next_def Cons split: if_splits option.splits)
  qed
qed

definition token_typing :: "(string \<Rightarrow> int option) \<Rightarrow> Token \<Rightarrow> bool" where
  "token_typing literal t \<longleftrightarrow> (kind t = TName \<longrightarrow> is_name (ttext t)) \<and>
     (kind t = TInteger \<longrightarrow> (\<exists>ds. list_all isdigit ds \<and> ds \<noteq> [] \<and> literal ds = Some (tvalue t)))"

text \<open>Trees the parser can return: identifiers as names and the values of numerals as constants.\<close>

fun readable :: "(string \<Rightarrow> int option) \<Rightarrow> node \<Rightarrow> bool" where
  "readable literal (Constant c) \<longleftrightarrow> (\<exists>ds. list_all isdigit ds \<and> ds \<noteq> [] \<and> literal ds = Some c)"
| "readable literal (Name x) \<longleftrightarrow> is_name x"
| "readable literal (BinOp l op r) \<longleftrightarrow> readable literal l \<and> readable literal r"
| "readable literal (UnaryOp u x) \<longleftrightarrow> readable literal x"
| "readable literal (Call f args) \<longleftrightarrow> is_name f \<and> (\<forall>a \<in> set args. readable literal a)"

interpretation tok_tree: tree_typing "Tokenizer_next literal" "token_typing literal" "readable literal"
proof unfold_locales
  show "Tokenizer_next literal s = Inr (t, s') \<Longrightarrow> token_typing literal t" for s t s'
    using Tokenizer_next_tokens [of literal s t s'] by (auto simp: token_typing_def)
qed (auto simp: token_typing_def list_all_iff)

lemma Parser_parse_readable: "Parser_parse literal s = Inr n \<Longrightarrow> readable literal n"
proof -
  assume p: "Parser_parse literal s = Inr n"
  have "tok_tree.yields literal (readable literal)
      (bindR (Tokenizer_next literal s) (parse_expr (length s + 3) (Tokenizer_next literal)))"
    by (rule tok_tree.yields_adv) (rule tok_tree.typed_apply [OF tok_tree.parse_expr_typed])
  with p show ?thesis
    by (auto simp: Parser_parse_def Let_def expect_eof_def split: if_splits)
qed

lemma TryParseInt64Literal_unsigned:
  "list_all isdigit ds \<Longrightarrow> ds \<noteq> [] \<Longrightarrow> TryParseInt64Literal ds = Some c \<Longrightarrow> 0 \<le> c \<and> in_i64 c"
  by (auto simp: TryParseInt64Literal_digits split: if_splits)

text \<open>A tree that comes out of the parser can be written again, and is written as itself or canonically.\<close>

lemma writable_i64: "0 \<le> c \<Longrightarrow> in_i64 c \<Longrightarrow> TryParseInt64Literal (show_nat (nat \<bar>c\<bar>)) = Some \<bar>c\<bar>"
  using TryParseInt64Literal_to_string [of c] by (simp add: to_string_def)

lemma readable_writable: "readable TryParseInt64Literal n \<Longrightarrow> writable TryParseInt64Literal n"
proof (induction n)
  case (Constant c)
  then obtain ds where "list_all isdigit ds" "ds \<noteq> []" "TryParseInt64Literal ds = Some c" by auto
  from TryParseInt64Literal_unsigned [OF this] show ?case using writable_i64 [of c] by simp
qed auto

text \<open>
  The trees that come back as themselves: no operator that counts as commutative has an operator of its
  own level at the root of its right operand.
\<close>

fun left_leaning :: "node \<Rightarrow> bool" where
  "left_leaning (BinOp l op r) \<longleftrightarrow>
     left_leaning l \<and> left_leaning r \<and> \<not> (binop_commutative op \<and> node_prec r = binop_prec op)"
| "left_leaning (UnaryOp u x) \<longleftrightarrow> left_leaning x"
| "left_leaning (Call f args) \<longleftrightarrow> (\<forall>a \<in> set args. left_leaning a)"
| "left_leaning _ \<longleftrightarrow> True"

fun unsigned_constants :: "node \<Rightarrow> bool" where
  "unsigned_constants (Constant c) \<longleftrightarrow> 0 \<le> c"
| "unsigned_constants (BinOp l op r) \<longleftrightarrow> unsigned_constants l \<and> unsigned_constants r"
| "unsigned_constants (UnaryOp u x) \<longleftrightarrow> unsigned_constants x"
| "unsigned_constants (Call f args) \<longleftrightarrow> (\<forall>a \<in> set args. unsigned_constants a)"
| "unsigned_constants _ \<longleftrightarrow> True"

lemma readable_unsigned: "readable TryParseInt64Literal n \<Longrightarrow> unsigned_constants n"
  using TryParseInt64Literal_unsigned by (induction n) auto

lemma size_graft: "size (graft x op y) = size (BinOp x op y)"
  by (induction y) auto

text \<open>Grafting moves operators, it neither adds nor drops one.\<close>

lemma size_canon: "unsigned_constants n \<Longrightarrow> size (canon n) = size n"
proof (induction n)
  case (Call f args)
  then have "sum_list (map (\<lambda>a. size (canon a)) args) = sum_list (map size args)"
    by (intro arg_cong [of _ _ sum_list] map_cong) auto
  then show ?case by (simp add: size_list_conv_sum_list comp_def)
qed (auto simp: size_graft)

lemma canon_fixed: "unsigned_constants n \<Longrightarrow> canon n = n \<longleftrightarrow> left_leaning n"
proof (induction n)
  case (BinOp l op r)
  show ?case
  proof (cases "binop_commutative op \<and> node_prec r = binop_prec op")
    case True
    then have "node_prec (canon r) = binop_prec op"
      using binop_prec_range(2) node_prec_canon [of "binop_prec op" r] by simp
    moreover have "binop_prec op \<noteq> 5" "binop_prec op \<noteq> 100" using binop_prec_range(2) [of op] by simp_all
    ultimately obtain l2 o2 r2 where r: "canon r = BinOp l2 o2 r2" "binop_prec o2 = binop_prec op"
      by (cases "canon r") auto
    have "r2 \<noteq> r" using size_canon [of r] BinOp.prems r(1) by auto
    with True r show ?thesis by auto
  qed (use BinOp in auto)
next
  case (Call f args)
  then show ?case by (simp add: map_idI list_eq_iff_nth_eq all_set_conv_all_nth)
qed auto

text \<open>C9: What becomes of a tree that is printed and parsed again.  Whatever the parser returns can be printed and
  parsed; the tree that comes back is \<open>canon n\<close>, where every operator of the level of \<open>+\<close>, \<open>*\<close>, \<open>^\<close>
  or \<open>&\<close> that stands in the right operand of one of these four is moved out to the left: \<open>a+(b-c)\<close> comes
  back as \<open>(a+b)-c\<close> and \<open>a*(b//c)\<close> as \<open>(a*b)//c\<close>.  It is the same tree exactly when there is no such
  operand, and it has the same value under every assignment when no product has a division in its right
  operand.  So the text does not always round-trip, as the comment above the unparser says, and
  \<open>a*(b//c)\<close> even changes its value.\<close>

theorem print_parse_round_trip:
  assumes "Parser_parse TryParseInt64Literal s = Inr n"
  shows "Parser_parse TryParseInt64Literal (unparse n) = Inr (canon n) \<and>
    (Parser_parse TryParseInt64Literal (unparse n) = Inr n \<longleftrightarrow> left_leaning n) \<and>
    (unambiguous n \<longrightarrow> (\<forall>env. sem env (canon n) = sem env n))"
proof -
  note n = Parser_parse_readable [OF assms]
  have "Parser_parse TryParseInt64Literal (unparse n) = Inr (canon n)"
    by (rule parse_unparse_canon [OF readable_writable [OF n]])
  then show ?thesis using canon_fixed [OF readable_unsigned [OF n]] sem_canon by auto
qed

lemma print_parse_round_trip_witness:
  "Parser_parse TryParseInt64Literal (unparse (BinOp (Name ''a'') Mult (BinOp (Name ''b'') FloorDiv (Name ''c'')))) =
     Inr (BinOp (BinOp (Name ''a'') Mult (Name ''b'')) FloorDiv (Name ''c''))"
proof -
  have p: "Parser_parse TryParseInt64Literal ''a*(b//c)'' =
      Inr (BinOp (Name ''a'') Mult (BinOp (Name ''b'') FloorDiv (Name ''c'')))" by code_simp
  have c: "canon (BinOp (Name ''a'') Mult (BinOp (Name ''b'') FloorDiv (Name ''c''))) =
      BinOp (BinOp (Name ''a'') Mult (Name ''b'')) FloorDiv (Name ''c'')" by code_simp
  from print_parse_round_trip [OF p] show ?thesis unfolding c by blast
qed

text \<open>The value does change: with 3 for \<open>a\<close>, 3 for \<open>b\<close> and 2 for \<open>c\<close> the tree has the value 3, its text 4.\<close>

lemma printed_product_changes:
  "sem (\<lambda>x. Some (if x = ''c'' then 2 else 3)) (BinOp (Name ''a'') Mult (BinOp (Name ''b'') FloorDiv (Name ''c''))) = Some 3"
  "sem (\<lambda>x. Some (if x = ''c'' then 2 else 3)) (canon (BinOp (Name ''a'') Mult (BinOp (Name ''b'') FloorDiv (Name ''c'')))) = Some 4"
  by code_simp+

text \<open>The printed text has the value of the tree under every assignment, provided no product has a division in
  its right operand.\<close>

lemma printed_text_keeps_the_value:
  assumes "Parser_parse TryParseInt64Literal s = Inr n" "unambiguous n"
  shows "\<exists>m. Parser_parse TryParseInt64Literal (unparse n) = Inr m \<and> sem env m = sem env n"
  using assms Parser_parse_readable readable_writable parse_unparse_canon sem_canon by blast

lemma printed_text_keeps_the_value_witness:
  "\<exists>m. Parser_parse TryParseInt64Literal (unparse (BinOp (Name ''a'') Sub (BinOp (Name ''b'') Add (Name ''c'')))) = Inr m \<and>
     sem (\<lambda>x. Some 4) m = Some (- 4)"
proof -
  have "Parser_parse TryParseInt64Literal ''a-(b+c)'' =
      Inr (BinOp (Name ''a'') Sub (BinOp (Name ''b'') Add (Name ''c'')))" by code_simp
  moreover have "unambiguous (BinOp (Name ''a'') Sub (BinOp (Name ''b'') Add (Name ''c'')))" by simp
  moreover have "sem (\<lambda>x. Some 4) (BinOp (Name ''a'') Sub (BinOp (Name ''b'') Add (Name ''c''))) = Some (- 4)"
    by simp
  ultimately show ?thesis using printed_text_keeps_the_value by metis
qed

end
