(* ===== verification/ExprPasses.thy ===== *)
theory ExprPasses
  imports ExprRoundTrip "HOL-Library.Product_Lexorder"
begin

text \<open>
  The transformers of \<open>expressions.cc\<close> and the pipeline \<open>apply_pipeline\<close>.  A transformer rebuilds a
  tree bottom-up and applies its rule to each operation or call it has rebuilt; it may throw
  (checked dimension arithmetic) or leave the defined range of \<open>int64_t\<close>.  \<open>std::sort\<close> is the stable
  sort: the code's comparisons look at the unparsed texts only, so equal keys are equal texts.
\<close>

section \<open>Transformer\<close>

text \<open>
  \<open>visit on_binop on_call\<close>: \<open>generic_visit\<close> followed by the hook, children from left to right.
\<close>

fun visit :: "(node \<Rightarrow> BinOpKind \<Rightarrow> node \<Rightarrow> node res) \<Rightarrow> (string \<Rightarrow> node list \<Rightarrow> node res) \<Rightarrow> node \<Rightarrow> node res"
  where
  "visit on_binop on_call (Constant c) = Inr (Constant c)"
| "visit on_binop on_call (Name x) = Inr (Name x)"
| "visit on_binop on_call (BinOp l op r) =
     bindR (visit on_binop on_call l) (\<lambda>l'. bindR (visit on_binop on_call r) (\<lambda>r'. on_binop l' op r'))"
| "visit on_binop on_call (UnaryOp u x) =
     bindR (visit on_binop on_call x) (\<lambda>x'. Inr (UnaryOp u x'))"
| "visit on_binop on_call (Call f args) =
     bindR (mapR (visit on_binop on_call) args) (\<lambda>args'. on_call f args')"

definition keep_binop :: "node \<Rightarrow> BinOpKind \<Rightarrow> node \<Rightarrow> node res" where
  "keep_binop l op r = Inr (BinOp l op r)"

definition keep_call :: "string \<Rightarrow> node list \<Rightarrow> node res" where
  "keep_call f args = Inr (Call f args)"

definition is_const :: "node \<Rightarrow> bool" where
  "is_const n = (case n of Constant _ \<Rightarrow> True | _ \<Rightarrow> False)"

definition const_value :: "node \<Rightarrow> int" where
  "const_value n = (case n of Constant c \<Rightarrow> c | _ \<Rightarrow> 0)"

definition is_constant_zero :: "node \<Rightarrow> bool" where
  "is_constant_zero n \<longleftrightarrow> n = Constant 0"

section \<open>CeilToInt\<close>

definition ceil_call :: "string \<Rightarrow> node list \<Rightarrow> node res" where
  "ceil_call f args =
     (case args of
        [x, ndiv] \<Rightarrow>
          if f = ''CeilToInt'' then
            bindR (case ndiv of
                Constant c \<Rightarrow> bindR (checked_subtract_i64 c 1) (\<lambda>v. Inr (Constant v))
              | _ \<Rightarrow> Inr (BinOp ndiv Sub (Constant 1)))
              (\<lambda>n_minus_1. Inr (BinOp (BinOp x Add n_minus_1) FloorDiv ndiv))
          else Inr (Call f args)
      | _ \<Rightarrow> Inr (Call f args))"

definition CeilToInt_pass :: "node \<Rightarrow> node res" where
  "CeilToInt_pass = visit keep_binop ceil_call"

section \<open>Simple identities\<close>

definition simple_binop :: "node \<Rightarrow> BinOpKind \<Rightarrow> node \<Rightarrow> node res" where
  "simple_binop l op r = Inr (
     if op = BitXor \<and> (case (l, r) of (Name x, Name y) \<Rightarrow> x = y | _ \<Rightarrow> False) then l
     else if op = Add \<and> l = Constant 0 then r
     else if op = Add \<and> r = Constant 0 then l
     else if op = Mult \<and> l = Constant 1 then r
     else if op = Mult \<and> r = Constant 1 then l
     else BinOp l op r)"

definition SimpleSimplify_pass :: "node \<Rightarrow> node res" where
  "SimpleSimplify_pass = visit simple_binop keep_call"

section \<open>Cancelling common factors\<close>

fun has_floordiv_factor :: "node \<Rightarrow> bool" where
  "has_floordiv_factor (BinOp l op r) \<longleftrightarrow>
     op = FloorDiv \<or> (op = Mult \<and> (has_floordiv_factor l \<or> has_floordiv_factor r))"
| "has_floordiv_factor _ \<longleftrightarrow> False"

text \<open>The factors of the numerator and of the denominator, in the order they are pushed.\<close>

fun flatten_mul_div :: "node \<Rightarrow> node list \<times> node list" where
  "flatten_mul_div (BinOp l op r) =
     (if op = Mult then
        if has_floordiv_factor l \<or> has_floordiv_factor r then ([BinOp l op r], [])
        else (let (ln, ld) = flatten_mul_div l; (rn, rd) = flatten_mul_div r in (ln @ rn, ld @ rd))
      else if op = FloorDiv \<or> op = ExactDiv then
        (let (ln, ld) = flatten_mul_div l; (rn, rd) = flatten_mul_div r in (ln @ rd, ld @ rn))
      else ([BinOp l op r], []))"
| "flatten_mul_div n = ([n], [])"

fun mul_chain :: "node \<Rightarrow> node list \<Rightarrow> node" where
  "mul_chain acc [] = acc"
| "mul_chain acc (x # xs) = mul_chain (BinOp acc Mult x) xs"

definition build_product :: "node list \<Rightarrow> node" where
  "build_product factors = (case factors of [] \<Rightarrow> Constant 1 | x # xs \<Rightarrow> mul_chain x xs)"

text \<open>Keeps the first \<open>need k\<close> factors with the key \<open>k\<close>.\<close>

fun keep_needed :: "(string \<Rightarrow> nat) \<Rightarrow> node list \<Rightarrow> node list" where
  "keep_needed need [] = []"
| "keep_needed need (x # xs) =
     (let k = unparse x
      in if need k > 0 then x # keep_needed (need(k := need k - 1)) xs else keep_needed need xs)"

definition div_kind :: "BinOpKind \<Rightarrow> BinOpKind" where
  "div_kind op = (if op = ExactDiv then ExactDiv else FloorDiv)"

definition muldiv_binop :: "node \<Rightarrow> BinOpKind \<Rightarrow> node \<Rightarrow> node res" where
  "muldiv_binop l op r =
     (if op \<noteq> Mult \<and> op \<noteq> FloorDiv \<and> op \<noteq> ExactDiv then Inr (BinOp l op r)
      else
        let (num, den) = flatten_mul_div (BinOp l op r);
            nc = count_list (map unparse num);
            dc = count_list (map unparse den)
        in if \<forall>k \<in> set (map unparse num). dc k = 0 then Inr (BinOp l op r)
           else
             let cancel = (\<lambda>k. min (nc k) (dc k));
                 rn = keep_needed (\<lambda>k. nc k - cancel k) num;
                 rd = keep_needed (\<lambda>k. dc k - cancel k) den
             in Inr (if rd = [] then build_product rn
                     else BinOp (build_product rn) (div_kind op) (build_product rd)))"

definition MulDivCanceller_pass :: "node \<Rightarrow> node res" where
  "MulDivCanceller_pass = visit muldiv_binop keep_call"

section \<open>Folding the constants of a multiplicative chain\<close>

definition const_product :: "node list \<Rightarrow> int res" where
  "const_product xs =
     foldR (\<lambda>x acc. if is_const x then CheckedDimensionMultiply acc (const_value x) else Inr acc) xs 1"

text \<open>The factors with the folded constant in front, unless it is a redundant 1.\<close>

definition with_const :: "int \<Rightarrow> node list \<Rightarrow> node" where
  "with_const c others =
     build_product ((if c \<noteq> 1 \<or> others = [] then [Constant c] else []) @ others)"

definition fold_binop :: "node \<Rightarrow> BinOpKind \<Rightarrow> node \<Rightarrow> node res" where
  "fold_binop l op r =
     (if op \<noteq> Mult \<and> op \<noteq> FloorDiv \<and> op \<noteq> ExactDiv then Inr (BinOp l op r)
      else
        let (num, den) = flatten_mul_div (BinOp l op r);
            num_other = filter (\<lambda>x. \<not> is_const x) num;
            den_other = filter (\<lambda>x. \<not> is_const x) den
        in bindR (const_product num) (\<lambda>num_c. bindR (const_product den) (\<lambda>den_c.
             if den_c = 0 \<or> den_other \<noteq> [] then Inr (BinOp l op r)
             else if num_c = i64_min \<and> den_c = - 1 then Inl InvalidArgument
             else bindR (raw_mod num_c den_c) (\<lambda>m.
               if m = 0 then bindR (raw_div num_c den_c) (\<lambda>folded. Inr (with_const folded num_other))
               else
                 let g = wrap_i64 (gcd (unsigned_magnitude num_c) (unsigned_magnitude den_c))
                 in bindR (raw_div num_c g) (\<lambda>new_num_c. bindR (raw_div den_c g) (\<lambda>new_den_c.
                      let numerator = with_const new_num_c num_other
                      in Inr (if new_den_c = 1 then numerator
                              else BinOp numerator (div_kind op) (Constant new_den_c))))))))"

definition ExactMulDivConstantFolder_pass :: "node \<Rightarrow> node res" where
  "ExactMulDivConstantFolder_pass = visit fold_binop keep_call"

section \<open>Distributing a floor division over a sum\<close>

text \<open>\<open>try_exact_divide x d\<close> for a positive \<open>d\<close>, as its callers have.\<close>

fun try_exact_divide :: "node \<Rightarrow> int \<Rightarrow> node option" where
  "try_exact_divide (Constant c) d =
     (if d = 1 then Some (Constant c)
      else if c smod d \<noteq> 0 then None else Some (Constant (c sdiv d)))"
| "try_exact_divide (Name x) d = (if d = 1 then Some (Name x) else None)"
| "try_exact_divide (BinOp l op r) d =
     (if d = 1 then Some (BinOp l op r)
      else if op = Add \<or> op = Sub then
        (case try_exact_divide l d of
           None \<Rightarrow> None
         | Some l' \<Rightarrow> (case try_exact_divide r d of None \<Rightarrow> None | Some r' \<Rightarrow> Some (BinOp l' op r')))
      else if op = Mult then
        if is_const l \<and> const_value l smod d = 0 then
          (let nc = const_value l sdiv d in Some (if nc = 1 then r else BinOp (Constant nc) Mult r))
        else if is_const r \<and> const_value r smod d = 0 then
          (let nc = const_value r sdiv d in Some (if nc = 1 then l else BinOp l Mult (Constant nc)))
        else (case try_exact_divide l d of
                Some l' \<Rightarrow> Some (BinOp l' Mult r)
              | None \<Rightarrow> (case try_exact_divide r d of
                           Some r' \<Rightarrow> Some (BinOp l Mult r') | None \<Rightarrow> None))
      else None)"
| "try_exact_divide (UnaryOp u x) d =
     (if d = 1 then Some (UnaryOp u x)
      else (case try_exact_divide x d of None \<Rightarrow> None | Some x' \<Rightarrow> Some (UnaryOp u x')))"
| "try_exact_divide (Call f args) d = (if d = 1 then Some (Call f args) else None)"

text \<open>\<open>try_split_for_division\<close>: the quotient and the residual, if the expression splits.\<close>

fun try_split_for_division :: "node \<Rightarrow> int \<Rightarrow> (node \<times> int) option res" where
  "try_split_for_division (Constant c) d =
     (case try_exact_divide (Constant c) d of
        Some q \<Rightarrow> Inr (Some (q, 0)) | None \<Rightarrow> Inr (Some (Constant 0, c)))"
| "try_split_for_division (BinOp l op r) d =
     (case try_exact_divide (BinOp l op r) d of
        Some q \<Rightarrow> Inr (Some (q, 0))
      | None \<Rightarrow>
          if op = Add \<or> op = Sub then
            bindR (try_split_for_division l d) (\<lambda>ls. case ls of None \<Rightarrow> Inr None | Some (lq, lr) \<Rightarrow>
              bindR (try_split_for_division r d) (\<lambda>rs. case rs of None \<Rightarrow> Inr None | Some (rq, rr) \<Rightarrow>
                bindR (if op = Add then CheckedDimensionAdd lr rr else checked_subtract_i64 lr rr)
                  (\<lambda>res. Inr (Some (BinOp lq op rq, res)))))
          else Inr None)"
| "try_split_for_division (UnaryOp u x) d =
     (case try_exact_divide (UnaryOp u x) d of
        Some q \<Rightarrow> Inr (Some (q, 0))
      | None \<Rightarrow>
          if u = USub then
            bindR (try_split_for_division x d) (\<lambda>s. case s of None \<Rightarrow> Inr None | Some (q, r) \<Rightarrow>
              bindR (CheckedDimensionMultiply r (- 1)) (\<lambda>r'. Inr (Some (UnaryOp USub q, r'))))
          else try_split_for_division x d)"
| "try_split_for_division n d =
     (case try_exact_divide n d of Some q \<Rightarrow> Inr (Some (q, 0)) | None \<Rightarrow> Inr None)"

definition has_single_step_floordiv_offset :: "node \<Rightarrow> int \<Rightarrow> bool" where
  "has_single_step_floordiv_offset n d =
     (case n of
        BinOp l op r \<Rightarrow>
          if op \<noteq> Add \<and> op \<noteq> Sub then False
          else if is_const r then
            if op = Sub \<and> const_value r = i64_min then False
            else (let offset = (if op = Add then const_value r else - const_value r)
                  in offset = d \<or> offset = - d)
          else if op = Add \<and> is_const l then const_value l = d \<or> const_value l = - d
          else False
      | _ \<Rightarrow> False)"

text \<open>\<open>split_symbolic_and_offset\<close>; its additions are unchecked.\<close>

fun split_symbolic_and_offset :: "node \<Rightarrow> (node \<times> int) res" where
  "split_symbolic_and_offset (Constant c) = Inr (Constant 0, c)"
| "split_symbolic_and_offset (Name x) = Inr (Name x, 0)"
| "split_symbolic_and_offset (BinOp l op r) =
     (if op = Add \<or> op = Sub then
        bindR (split_symbolic_and_offset l) (\<lambda>(ls, lo). bindR (split_symbolic_and_offset r) (\<lambda>(rs, ro).
          bindR (if op = Add then raw_add lo ro else raw_sub lo ro) (\<lambda>offset.
            Inr (if is_constant_zero ls then (if op = Add then rs else UnaryOp USub rs)
                 else if is_constant_zero rs then ls else BinOp ls op rs, offset))))
      else Inr (BinOp l op r, 0))"
| "split_symbolic_and_offset (UnaryOp u x) =
     bindR (split_symbolic_and_offset x) (\<lambda>(os, oo).
       if u = USub then
         bindR (raw_neg oo) (\<lambda>offset. Inr (if is_constant_zero os then os else UnaryOp USub os, offset))
       else Inr (os, oo))"
| "split_symbolic_and_offset (Call f args) = Inr (Call f args, 0)"

text \<open>The rule's two later attempts: an exact division, else a split with a constant residual.\<close>

definition distribute_rest :: "node \<Rightarrow> BinOpKind \<Rightarrow> node \<Rightarrow> int \<Rightarrow> node res" where
  "distribute_rest l op r d =
     (case try_exact_divide l d of
        Some q \<Rightarrow> Inr q
      | None \<Rightarrow>
          bindR (try_split_for_division l d) (\<lambda>s. case s of
            None \<Rightarrow> Inr (BinOp l op r)
          | Some (q, residual) \<Rightarrow> bindR (floor_div_i64 residual d) (\<lambda>add.
              Inr (if add = 0 then q else BinOp q Add (Constant add)))))"

definition distribute_binop :: "node \<Rightarrow> BinOpKind \<Rightarrow> node \<Rightarrow> node res" where
  "distribute_binop l op r =
     (if op \<noteq> FloorDiv \<and> op \<noteq> ExactDiv then Inr (BinOp l op r)
      else if \<not> is_const r \<or> const_value r = 0 then Inr (BinOp l op r)
      else
        let d = const_value r
        in if d < 0 then Inr (BinOp l op r)
           else if op = FloorDiv \<and> has_single_step_floordiv_offset l d then Inr (BinOp l op r)
           else bindR (split_symbolic_and_offset l) (\<lambda>(symbolic, offset).
             if offset \<noteq> 0 \<and> offset smod d = 0 then
               (let offset_quotient = offset sdiv d
                in if is_constant_zero symbolic then Inr (Constant offset_quotient)
                   else
                     let base = BinOp symbolic op (Constant d)
                     in Inr (if offset_quotient = 0 then base
                             else BinOp base Add (Constant offset_quotient)))
             else distribute_rest l op r d))"

definition DistributeFloorDivOverAdd_pass :: "node \<Rightarrow> node res" where
  "DistributeFloorDivOverAdd_pass = visit distribute_binop keep_call"

end
