(* ===== verification/ExprPipeline.thy ===== *)
theory ExprPipeline
  imports ExprPasses "HOL-Library.Multiset"
begin

text \<open>
  The remaining transformers of \<open>expressions.cc\<close>: the folding of additions into floor divisions,
  nested floor divisions, \<open>max\<close>, the ordering of commutative chains, the ring of floor divisions, the
  maximum of constants; and the pipeline \<open>apply_pipeline\<close> that runs them all twice.
\<close>

section \<open>Folding an addition into a floor division\<close>

text \<open>The floor division and the constant of \<open>c + x // d\<close>, \<open>x // d + c\<close> and \<open>x // d - c\<close>.\<close>

definition fold_add_parts :: "node \<Rightarrow> BinOpKind \<Rightarrow> node \<Rightarrow> (node \<times> int) option" where
  "fold_add_parts l op r =
     (if op = Add then
        if is_const l then Some (r, const_value l)
        else if is_const r then Some (l, const_value r) else None
      else if is_const r then
        if const_value r = i64_min then None else Some (l, - const_value r)
      else None)"

definition fold_add_numerator :: "node \<Rightarrow> int \<Rightarrow> node res" where
  "fold_add_numerator symbolic shifted =
     (if is_constant_zero symbolic then Inr (Constant shifted)
      else if shifted > 0 then Inr (BinOp symbolic Add (Constant shifted))
      else if shifted < 0 then bindR (raw_neg shifted) (\<lambda>v. Inr (BinOp symbolic Sub (Constant v)))
      else Inr symbolic)"

definition fold_add_binop :: "node \<Rightarrow> BinOpKind \<Rightarrow> node \<Rightarrow> node res" where
  "fold_add_binop l op r =
     (if op \<noteq> Add \<and> op \<noteq> Sub then Inr (BinOp l op r)
      else case fold_add_parts l op r of
        Some (BinOp num FloorDiv (Constant denom), outer) \<Rightarrow>
          if denom = 0 then Inr (BinOp l op r)
          else bindR (split_symbolic_and_offset num) (\<lambda>(symbolic, inner).
            case checked_mul_i64 outer denom of
              None \<Rightarrow> Inr (BinOp l op r)
            | Some outer_shift \<Rightarrow>
                (case checked_add_i64 inner outer_shift of
                   None \<Rightarrow> Inr (BinOp l op r)
                 | Some shifted \<Rightarrow>
                     bindR (raw_mod shifted denom) (\<lambda>m.
                       if m = 0 then Inr (BinOp l op r)
                       else bindR (fold_add_numerator symbolic shifted) (\<lambda>numerator.
                         Inr (BinOp numerator FloorDiv (Constant denom))))))
      | _ \<Rightarrow> Inr (BinOp l op r))"

definition FoldAddIntoFloorDiv_pass :: "node \<Rightarrow> node res" where
  "FoldAddIntoFloorDiv_pass = visit fold_add_binop keep_call"

section \<open>Nested floor divisions\<close>

definition nested_binop :: "node \<Rightarrow> BinOpKind \<Rightarrow> node \<Rightarrow> node res" where
  "nested_binop l op r =
     (case (l, op, r) of
        (BinOp x FloorDiv (Constant a), FloorDiv, Constant b) \<Rightarrow>
          if b \<le> 0 \<or> a \<le> 0 then Inr (BinOp l op r)
          else bindR (raw_div i64_max a) (\<lambda>bound.
            if b > bound then Inr (BinOp l op r)
            else bindR (raw_mul a b) (\<lambda>ab. Inr (BinOp x FloorDiv (Constant ab))))
      | _ \<Rightarrow> Inr (BinOp l op r))"

definition NestedFloorDiv_pass :: "node \<Rightarrow> node res" where
  "NestedFloorDiv_pass = visit nested_binop keep_call"

section \<open>Maxima\<close>

definition max_call :: "string \<Rightarrow> node list \<Rightarrow> node res" where
  "max_call f args =
     (case args of
        [a, b] \<Rightarrow> Inr (if f = ''max'' \<or> f = ''Max'' then BinOp a BitXor b else Call f args)
      | _ \<Rightarrow> Inr (Call f args))"

definition MaxToXor_pass :: "node \<Rightarrow> node res" where
  "MaxToXor_pass = visit keep_binop max_call"

definition maxint_binop :: "node \<Rightarrow> BinOpKind \<Rightarrow> node \<Rightarrow> node res" where
  "maxint_binop l op r =
     Inr (if op = BitXor \<and> is_const l \<and> is_const r then Constant (max (const_value l) (const_value r))
          else BinOp l op r)"

definition MaxInt_pass :: "node \<Rightarrow> node res" where
  "MaxInt_pass = visit maxint_binop keep_call"

section \<open>Commutative chains\<close>

fun flatten_chain :: "BinOpKind \<Rightarrow> node \<Rightarrow> node list" where
  "flatten_chain op (BinOp l o2 r) =
     (if o2 = op then flatten_chain op l @ flatten_chain op r else [BinOp l o2 r])"
| "flatten_chain op n = [n]"

text \<open>\<open>rebuild_chain\<close>; its operand list is never empty.\<close>

fun chain_from :: "BinOpKind \<Rightarrow> node \<Rightarrow> node list \<Rightarrow> node" where
  "chain_from op acc [] = acc"
| "chain_from op acc (x # xs) = chain_from op (BinOp acc op x) xs"

definition rebuild_chain :: "BinOpKind \<Rightarrow> node list \<Rightarrow> node" where
  "rebuild_chain op ops = chain_from op (hd ops) (tl ops)"

definition reorder_binop :: "node \<Rightarrow> BinOpKind \<Rightarrow> node \<Rightarrow> node res" where
  "reorder_binop l op r =
     Inr (if op \<noteq> Add \<and> op \<noteq> Mult then BinOp l op r
          else rebuild_chain op (sort_key unparse (flatten_chain op (BinOp l op r))))"

definition ReorderCommutativeOps_pass :: "node \<Rightarrow> node res" where
  "ReorderCommutativeOps_pass = visit reorder_binop keep_call"

section \<open>The ring of floor divisions\<close>

text \<open>
  \<open>split_const_offset\<close>: the walk collects the signed symbolic terms and the constant offset.  The terms are
  then ordered by their texts.  \<open>std::sort\<close> leaves the order of terms with one text open; the model
  keeps the order in which they were found.
\<close>

fun offset_walk :: "node \<Rightarrow> int \<Rightarrow> (node \<times> int) list \<times> int \<Rightarrow> ((node \<times> int) list \<times> int) res" where
  "offset_walk (Constant c) sign (terms, offset) =
     bindR (if sign > 0 then CheckedDimensionAdd offset c else checked_subtract_i64 offset c)
       (\<lambda>offset'. Inr (terms, offset'))"
| "offset_walk (Name x) sign (terms, offset) = Inr (terms @ [(Name x, sign)], offset)"
| "offset_walk (BinOp l op r) sign acc =
     (if op = Add then bindR (offset_walk l sign acc) (offset_walk r sign)
      else if op = Sub then bindR (offset_walk l sign acc) (offset_walk r (- sign))
      else Inr (fst acc @ [(BinOp l op r, sign)], snd acc))"
| "offset_walk (UnaryOp u x) sign acc =
     offset_walk x (if u = UAdd then sign else - sign) acc"
| "offset_walk (Call f args) sign acc = Inr (fst acc @ [(Call f args, sign)], snd acc)"

fun signed_chain :: "node \<Rightarrow> (node \<times> int) list \<Rightarrow> node" where
  "signed_chain acc [] = acc"
| "signed_chain acc ((x, sign) # xs) =
     signed_chain (BinOp acc (if sign \<ge> 0 then Add else Sub) x) xs"

definition signed_sum :: "(node \<times> int) list \<Rightarrow> node" where
  "signed_sum terms = (case terms of
       [] \<Rightarrow> Constant 0
     | (x, sign) # xs \<Rightarrow> signed_chain (if sign \<ge> 0 then x else UnaryOp USub x) xs)"

definition split_const_offset :: "node \<Rightarrow> (node \<times> int) res" where
  "split_const_offset n =
     bindR (offset_walk n 1 ([], 0)) (\<lambda>(terms, offset).
       Inr (signed_sum (sort_key (\<lambda>t. unparse (fst t)) terms), offset))"

record FDInfo =
  idx :: nat
  denom :: int
  symbolic :: node
  offset :: int
  sym_key :: string

text \<open>The terms \<open>numerator // c\<close> and \<open>numerator /: c\<close> with a constant \<open>c > 1\<close>, with their positions.\<close>

fun fd_infos :: "nat \<Rightarrow> node list \<Rightarrow> FDInfo list res" where
  "fd_infos i [] = Inr []"
| "fd_infos i (t # ts) =
     (case t of
        BinOp num op (Constant c) \<Rightarrow>
          if (op = FloorDiv \<or> op = ExactDiv) \<and> c > 1 then
            bindR (split_const_offset num) (\<lambda>(sym, off). bindR (fd_infos (Suc i) ts) (\<lambda>rest.
              Inr (\<lparr>idx = i, denom = c, symbolic = sym, offset = off, sym_key = unparse sym\<rparr> # rest)))
          else fd_infos (Suc i) ts
      | _ \<Rightarrow> fd_infos (Suc i) ts)"

text \<open>Whether the offsets after the first are \<open>base + i\<close>, \<open>base + i + 1\<close>, and so on.\<close>

fun contiguous :: "int \<Rightarrow> int \<Rightarrow> FDInfo list \<Rightarrow> bool" where
  "contiguous base i [] = True"
| "contiguous base i (x # xs) \<longleftrightarrow>
     (case checked_add_i64 base i of None \<Rightarrow> False | Some e \<Rightarrow> offset x = e \<and> contiguous base (i + 1) xs)"

text \<open>The first window of \<open>d\<close> contiguous offsets.\<close>

fun find_window :: "nat \<Rightarrow> FDInfo list \<Rightarrow> FDInfo list option" where
  "find_window d [] = None"
| "find_window d (x # xs) =
     (if d \<le> length (x # xs) \<and> contiguous (offset x) 1 (take (d - 1) xs)
      then Some (take d (x # xs)) else find_window d xs)"

text \<open>The groups of one denominator and one symbolic part, in the order of the map's keys.\<close>

fun find_group :: "FDInfo list \<Rightarrow> (int \<times> string) list \<Rightarrow> FDInfo list option" where
  "find_group infos [] = None"
| "find_group infos (k # ks) =
     (let group = sort_key offset (filter (\<lambda>x. (denom x, sym_key x) = k) infos)
      in case (if int (length group) < fst k then None else find_window (nat (fst k)) group) of
           Some w \<Rightarrow> Some w | None \<Rightarrow> find_group infos ks)"

definition erase_indices :: "nat list \<Rightarrow> 'a list \<Rightarrow> 'a list" where
  "erase_indices is xs = map fst (filter (\<lambda>p. snd p \<notin> set is) (zip xs [0..<length xs]))"

lemma erase_indices_nths: "erase_indices is xs = nths xs {i. i \<notin> set is}"
  by (simp add: erase_indices_def nths_def)

definition ring_replacement :: "FDInfo list \<Rightarrow> node" where
  "ring_replacement w =
     (let base = offset (hd w); sym = symbolic (hd w)
      in if base = 0 then sym else BinOp sym Add (Constant base))"

definition try_combine_ring :: "node list \<Rightarrow> node list option res" where
  "try_combine_ring terms =
     bindR (fd_infos 0 terms) (\<lambda>infos.
       Inr (case find_group infos (sort (remdups (map (\<lambda>x. (denom x, sym_key x)) infos))) of
              None \<Rightarrow> None
            | Some w \<Rightarrow> Some (erase_indices (map idx w) terms @ [ring_replacement w])))"

subsection \<open>What a group is\<close>

text \<open>An entry describes its term.\<close>

definition describes :: "node list \<Rightarrow> FDInfo \<Rightarrow> bool" where
  "describes terms x \<longleftrightarrow> idx x < length terms \<and> denom x > 1 \<and>
     (\<exists>num op. (op = FloorDiv \<or> op = ExactDiv) \<and> terms ! idx x = BinOp num op (Constant (denom x)) \<and>
        split_const_offset num = Inr (symbolic x, offset x) \<and> sym_key x = unparse (symbolic x))"

lemma fd_infos_sound:
  "fd_infos (length pre) ts = Inr xs \<Longrightarrow>
     (\<forall>x \<in> set xs. describes (pre @ ts) x \<and> length pre \<le> idx x) \<and> distinct (map idx xs)"
proof (induction ts arbitrary: pre xs)
  case (Cons t ts)
  have IH: "(\<forall>x \<in> set ys. describes (pre @ t # ts) x \<and> length pre < idx x) \<and> distinct (map idx ys)"
    if "fd_infos (Suc (length pre)) ts = Inr ys" for ys
    using Cons.IH [of "pre @ [t]" ys] that by (auto simp: Suc_le_eq)
  show ?case
  proof (cases "\<exists>num op c. t = BinOp num op (Constant c) \<and> (op = FloorDiv \<or> op = ExactDiv) \<and> c > 1")
    case True
    then obtain num op c where t: "t = BinOp num op (Constant c)" "op = FloorDiv \<or> op = ExactDiv" "c > 1"
      by blast
    with Cons.prems obtain sym off ys where s: "split_const_offset num = Inr (sym, off)"
      and ys: "fd_infos (Suc (length pre)) ts = Inr ys"
      and xs: "xs = \<lparr>idx = length pre, denom = c, symbolic = sym, offset = off, sym_key = unparse sym\<rparr> # ys"
      by auto
    have "describes (pre @ t # ts)
        \<lparr>idx = length pre, denom = c, symbolic = sym, offset = off, sym_key = unparse sym\<rparr>"
      using s t by (auto simp: describes_def)
    with IH [OF ys] show ?thesis by (auto simp: xs)
  next
    case False
    then have "fd_infos (Suc (length pre)) ts = Inr xs"
      using Cons.prems by (auto split: node.splits if_splits)
    from IH [OF this] show ?thesis by auto
  qed
qed simp

lemma contiguous_offsets:
  "contiguous base i xs \<Longrightarrow> j < length xs \<Longrightarrow> offset (xs ! j) = base + i + int j"
proof (induction xs arbitrary: i j)
  case (Cons x xs)
  from Cons.prems(1) have e: "offset x = base + i" and c: "contiguous base (i + 1) xs"
    by (auto simp: checked_add_i64_def split: if_splits)
  show ?case
  proof (cases j)
    case 0
    with e show ?thesis by simp
  next
    case (Suc m)
    with Cons.IH [OF c] Cons.prems show ?thesis by simp
  qed
qed simp

text \<open>A group of \<open>d\<close> distinct entries with one denominator \<open>d\<close>, one symbolic part and contiguous offsets.\<close>

definition ring_group :: "FDInfo list \<Rightarrow> FDInfo list \<Rightarrow> bool" where
  "ring_group infos w \<longleftrightarrow> w \<noteq> [] \<and> set w \<subseteq> set infos \<and> distinct (map idx w) \<and>
     (\<exists>d key. length w = nat d \<and> (\<forall>x \<in> set w. denom x = d \<and> sym_key x = key)) \<and>
     (\<forall>j < length w. offset (w ! j) = offset (hd w) + int j)"

lemma find_window_sound:
  "find_window d xs = Some w \<Longrightarrow> 0 < d \<Longrightarrow>
     length w = d \<and> (\<exists>us vs. xs = us @ w @ vs) \<and> (\<forall>j < length w. offset (w ! j) = offset (hd w) + int j)"
proof (induction xs)
  case (Cons x xs)
  show ?case
  proof (cases "d \<le> length (x # xs) \<and> contiguous (offset x) 1 (take (d - 1) xs)")
    case True
    then have w: "w = take d (x # xs)" using Cons.prems(1) by simp
    then have l: "length w = d" using True by simp
    have "x # xs = [] @ w @ drop d (x # xs)" by (simp add: w)
    then have s: "\<exists>us vs. x # xs = us @ w @ vs" by blast
    have "offset (w ! j) = offset x + int j" if "j < length w" for j
    proof (cases j)
      case 0
      with Cons.prems(2) show ?thesis by (cases d) (simp_all add: w)
    next
      case (Suc m)
      with that l have m: "m < length (take (d - 1) xs)" using True by auto
      have "offset (take (d - 1) xs ! m) = offset x + 1 + int m"
        using True m by (intro contiguous_offsets) auto
      with Suc m Cons.prems(2) show ?thesis by (cases d) (auto simp: w)
    qed
    moreover have "hd w = x" using Cons.prems(2) by (cases d) (simp_all add: w)
    ultimately show ?thesis using l s by simp
  next
    case False
    with Cons.prems have "find_window d xs = Some w" by auto
    with Cons.IH Cons.prems obtain us vs where "xs = us @ w @ vs" "length w = d"
      "\<forall>j < length w. offset (w ! j) = offset (hd w) + int j" by auto
    then show ?thesis by (auto intro: exI [of _ "x # us"])
  qed
qed simp

lemma find_group_sound:
  assumes "find_group infos ks = Some w" and "\<forall>k \<in> set ks. 1 < fst k"
    and "distinct (map idx infos)"
  shows "ring_group infos w"
  using assms(1,2)
proof (induction ks)
  case (Cons k ks)
  let ?g = "sort_key offset (filter (\<lambda>x. (denom x, sym_key x) = k) infos)"
  show ?case
  proof (cases "int (length ?g) < fst k \<or> find_window (nat (fst k)) ?g = None")
    case True
    with Cons show ?thesis by (auto simp: Let_def split: if_splits)
  next
    case False
    then have fw: "find_window (nat (fst k)) ?g = Some w"
      using Cons.prems(1) by (auto simp: Let_def split: if_splits)
    have k: "0 < nat (fst k)" using Cons.prems(2) by auto
    from find_window_sound [OF fw k]
    obtain us vs where g: "?g = us @ w @ vs" and l: "length w = nat (fst k)"
      and off: "\<forall>j < length w. offset (w ! j) = offset (hd w) + int j"
      by auto
    have sub: "set w \<subseteq> set (filter (\<lambda>x. (denom x, sym_key x) = k) infos)"
      using arg_cong [OF g, of set] by auto
    have "distinct (map idx ?g)" using assms(3) by (rule distinct_map_sort_filter)
    then have "distinct (map idx w)" unfolding g by simp
    moreover have "\<forall>x \<in> set w. denom x = fst k \<and> sym_key x = snd k" using sub by auto
    moreover have "w \<noteq> []" using l k by auto
    ultimately show ?thesis using sub l off by (auto simp: ring_group_def)
  qed
qed simp

lemma try_combine_ring_sound:
  assumes "try_combine_ring terms = Inr (Some ts)"
  obtains w where "ts = erase_indices (map idx w) terms @ [ring_replacement w]"
    and "w \<noteq> []" and "distinct (map idx w)" and "\<forall>x \<in> set w. describes terms x"
    and "\<forall>x \<in> set w. denom x = int (length w) \<and> sym_key x = sym_key (hd w)"
    and "\<forall>j < length w. offset (w ! j) = offset (hd w) + int j"
proof -
  from assms obtain infos w where i: "fd_infos 0 terms = Inr infos"
    and g: "find_group infos (sort (remdups (map (\<lambda>x. (denom x, sym_key x)) infos))) = Some w"
    and ts: "ts = erase_indices (map idx w) terms @ [ring_replacement w]"
    by (auto simp: try_combine_ring_def split: option.splits)
  from fd_infos_sound [of "[]" terms infos] i
  have d: "\<forall>x \<in> set infos. describes terms x" "distinct (map idx infos)" by auto
  have "\<forall>k \<in> set (sort (remdups (map (\<lambda>x. (denom x, sym_key x)) infos))). 1 < fst k"
    using d(1) by (auto simp: describes_def)
  from find_group_sound [OF g this d(2)] have rg: "ring_group infos w" .
  then obtain e key where w: "w \<noteq> []" "set w \<subseteq> set infos" "distinct (map idx w)" "length w = nat e"
    "\<forall>x \<in> set w. denom x = e \<and> sym_key x = key" "\<forall>j < length w. offset (w ! j) = offset (hd w) + int j"
    by (auto simp: ring_group_def)
  then have "hd w \<in> set w" by simp
  then have "describes terms (hd w)" "denom (hd w) = e" "sym_key (hd w) = key" using w d(1) by blast+
  then have "sym_key (hd w) = key" "1 < e" by (auto simp: describes_def)
  with ts w d(1) show thesis by (intro that [of w]) auto
qed

lemma length_erase_indices:
  assumes "distinct is" and "set is \<subseteq> {..<length xs}"
  shows "length (erase_indices is xs) = length xs - length is"
proof -
  have "{i. i < length xs \<and> i \<notin> set is} = {..<length xs} - set is" by auto
  then have "length (erase_indices is xs) = card ({..<length xs} - set is)"
    by (simp add: erase_indices_nths length_nths)
  also have "\<dots> = length xs - length is"
    using assms by (simp add: card_Diff_subset distinct_card)
  finally show ?thesis .
qed

lemma try_combine_ring_shorter:
  assumes "try_combine_ring terms = Inr (Some ts)"
  shows "length ts < length terms"
proof -
  from assms obtain w where ts: "ts = erase_indices (map idx w) terms @ [ring_replacement w]"
    and w: "w \<noteq> []" "distinct (map idx w)" "\<forall>x \<in> set w. describes terms x"
    "\<forall>x \<in> set w. denom x = int (length w) \<and> sym_key x = sym_key (hd w)"
    by (rule try_combine_ring_sound)
  have sub: "set (map idx w) \<subseteq> {..<length terms}" using w(3) by (auto simp: describes_def)
  have "1 < denom (hd w)" using w(1,3) by (cases w) (auto simp: describes_def)
  then have "1 < length w" using w(1,4) by (cases w) auto
  moreover have "length (map idx w) \<le> length terms"
    using sub w(2) by (metis card_lessThan card_mono distinct_card finite_lessThan)
  ultimately show ?thesis
    using length_erase_indices [OF w(2) sub] by (simp add: ts)
qed

text \<open>The loop ends because every replacement shortens the list.\<close>

function ring_loop :: "node list \<Rightarrow> node list res" where
  "ring_loop terms =
     bindR (try_combine_ring terms) (\<lambda>r. case r of None \<Rightarrow> Inr terms | Some ts \<Rightarrow> ring_loop ts)"
  by pat_completeness auto

termination
  by (relation "measure length") (auto simp: try_combine_ring_shorter)

declare ring_loop.simps [simp del]

definition ring_binop :: "node \<Rightarrow> BinOpKind \<Rightarrow> node \<Rightarrow> node res" where
  "ring_binop l op r =
     (if op \<noteq> Add then Inr (BinOp l op r)
      else bindR (ring_loop (flatten_chain Add (BinOp l op r))) (\<lambda>terms.
        Inr (rebuild_chain Add terms)))"

definition FloorDivAddRing_pass :: "node \<Rightarrow> node res" where
  "FloorDivAddRing_pass = visit ring_binop keep_call"

section \<open>The pipeline\<close>

text \<open>One round of \<open>apply_pipeline\<close>, in its order.\<close>

definition pipeline_passes :: "(node \<Rightarrow> node res) list" where
  "pipeline_passes =
     [CeilToInt_pass, SimpleSimplify_pass, MulDivCanceller_pass, ExactMulDivConstantFolder_pass,
      MulDivCanceller_pass, NestedFloorDiv_pass, FloorDivAddRing_pass, DistributeFloorDivOverAdd_pass,
      FoldAddIntoFloorDiv_pass, MaxToXor_pass, ReorderCommutativeOps_pass, MaxInt_pass,
      FloorDivAddRing_pass]"

definition apply_pipeline :: "node \<Rightarrow> node res" where
  "apply_pipeline n = foldR (\<lambda>pass n. pass n) (pipeline_passes @ pipeline_passes) n"

end
