(* ===== verification/ExprSound.thy ===== *)
theory ExprSound
  imports ExprPipeline
begin

text \<open>
  What the passes keep.  \<open>tame env n\<close> is the fragment on which every pass keeps the value: divisors are
  built from positive names and constants with \<open>+\<close>, \<open>*\<close>, maximum and minimum; operands of a product have no
  division; \<open>CeilToInt\<close> is applied to a value that is not negative; there is no exact division.  Each
  condition is one the passes need: dropping any of them makes a pass change a value.
\<close>

declare sem.simps(3,5) [simp del]

section \<open>The fragment\<close>

fun divfree :: "node \<Rightarrow> bool" where
  "divfree (BinOp l op r) \<longleftrightarrow> op \<notin> {FloorDiv, ExactDiv, Mod} \<and> divfree l \<and> divfree r"
| "divfree (UnaryOp u x) \<longleftrightarrow> divfree x"
| "divfree (Call f args) \<longleftrightarrow> False"
| "divfree _ \<longleftrightarrow> True"

fun posexp :: "(string \<Rightarrow> int option) \<Rightarrow> node \<Rightarrow> bool" where
  "posexp env (Constant c) \<longleftrightarrow> 0 < c"
| "posexp env (Name x) \<longleftrightarrow> (case env x of None \<Rightarrow> False | Some v \<Rightarrow> 0 < v)"
| "posexp env (BinOp l op r) \<longleftrightarrow> op \<in> {Add, Mult, BitXor, BitAnd} \<and> posexp env l \<and> posexp env r"
| "posexp env (UnaryOp u x) \<longleftrightarrow> u = UAdd \<and> posexp env x"
| "posexp env (Call f args) \<longleftrightarrow> False"

definition ceil_ok :: "(string \<Rightarrow> int option) \<Rightarrow> string \<Rightarrow> node list \<Rightarrow> bool" where
  "ceil_ok env f args \<longleftrightarrow> f = ''CeilToInt'' \<and>
     (case args of [x, d] \<Rightarrow> (case sem env x of Some a \<Rightarrow> 0 \<le> a | None \<Rightarrow> False) \<and> posexp env d | _ \<Rightarrow> False)"

fun tame :: "(string \<Rightarrow> int option) \<Rightarrow> node \<Rightarrow> bool" where
  "tame env (Constant c) \<longleftrightarrow> True"
| "tame env (Name x) \<longleftrightarrow> is_name x"
| "tame env (BinOp l op r) \<longleftrightarrow> tame env l \<and> tame env r \<and> op \<noteq> ExactDiv \<and>
     (op = FloorDiv \<longrightarrow> posexp env r) \<and> (op = Mult \<longrightarrow> divfree l \<and> divfree r)"
| "tame env (UnaryOp u x) \<longleftrightarrow> tame env x"
| "tame env (Call f args) \<longleftrightarrow> (\<forall>a \<in> set args. tame env a) \<and> ceil_ok env f args"

lemma posexp_divfree: "posexp env n \<Longrightarrow> divfree n"
  by (induction n) auto

lemma posexp_sem: "posexp env n \<Longrightarrow> \<exists>v. sem env n = Some v \<and> 0 < v"
proof (induction n)
  case (BinOp l op r)
  then obtain a b where "sem env l = Some a" "0 < a" "sem env r = Some b" "0 < b" by auto
  with BinOp.prems show ?case by (auto simp: max_def min_def)
qed (auto split: option.splits)

lemma divfree_no_div_spine: "divfree n \<Longrightarrow> no_div_spine n"
  by (induction n) auto

lemma tame_unambiguous: "tame env n \<Longrightarrow> unambiguous n"
  by (induction n) (auto simp: divfree_no_div_spine)

lemma is_name_CeilToInt: "is_name ''CeilToInt''"
  by (simp add: is_name_def is_ident_char_def char_class)

lemma tame_names_ok: "tame env n \<Longrightarrow> names_ok n"
  by (induction n) (auto simp: ceil_ok_def is_name_CeilToInt)

lemma tame_text_sem: "tame env n \<Longrightarrow> text_sem env (unparse n) = sem env n"
  by (simp add: text_sem_unparse tame_unambiguous tame_names_ok)

text \<open>Trees with the same text have the same value.\<close>

lemma tame_same_text: "tame env m \<Longrightarrow> tame env n \<Longrightarrow> unparse m = unparse n \<Longrightarrow> sem env m = sem env n"
  using tame_text_sem by metis

section \<open>Keeping a value\<close>

definition keeps :: "(string \<Rightarrow> int option) \<Rightarrow> node \<Rightarrow> node \<Rightarrow> bool" where
  "keeps env n n' \<longleftrightarrow> tame env n' \<and> sem env n' = sem env n \<and> (divfree n \<longrightarrow> divfree n') \<and>
     (posexp env n \<longrightarrow> posexp env n')"

lemma keepsI:
  "tame env n' \<Longrightarrow> sem env n' = sem env n \<Longrightarrow> (divfree n \<Longrightarrow> divfree n') \<Longrightarrow>
     (posexp env n \<Longrightarrow> posexp env n') \<Longrightarrow> keeps env n n'"
  by (simp add: keeps_def)

lemma keeps_refl: "tame env n \<Longrightarrow> keeps env n n"
  by (simp add: keeps_def)

lemma keeps_trans: "keeps env l m \<Longrightarrow> keeps env m n \<Longrightarrow> keeps env l n"
  by (simp add: keeps_def)

definition sound_binop :: "(string \<Rightarrow> int option) \<Rightarrow> (node \<Rightarrow> BinOpKind \<Rightarrow> node \<Rightarrow> node res) \<Rightarrow> bool" where
  "sound_binop env f \<longleftrightarrow> (\<forall>l op r n'. tame env (BinOp l op r) \<longrightarrow> sem env (BinOp l op r) \<noteq> None \<longrightarrow>
     f l op r = Inr n' \<longrightarrow> keeps env (BinOp l op r) n')"

definition sound_call :: "(string \<Rightarrow> int option) \<Rightarrow> (string \<Rightarrow> node list \<Rightarrow> node res) \<Rightarrow> bool" where
  "sound_call env g \<longleftrightarrow> (\<forall>args n'. tame env (Call ''CeilToInt'' args) \<longrightarrow>
     sem env (Call ''CeilToInt'' args) \<noteq> None \<longrightarrow>
     g ''CeilToInt'' args = Inr n' \<longrightarrow> keeps env (Call ''CeilToInt'' args) n')"

text \<open>The same, for a tree whose value is known to be \<open>v\<close>.\<close>

abbreviation keeps_val :: "(string \<Rightarrow> int option) \<Rightarrow> int \<Rightarrow> node \<Rightarrow> node \<Rightarrow> bool" where
  "keeps_val env v n n' \<equiv> tame env n' \<and> sem env n' = Some v \<and> (divfree n \<longrightarrow> divfree n') \<and>
     (posexp env n \<longrightarrow> posexp env n')"

lemma sound_binopI:
  "(\<And>l op r n' v. tame env (BinOp l op r) \<Longrightarrow> sem env (BinOp l op r) = Some v \<Longrightarrow> f l op r = Inr n' \<Longrightarrow>
      keeps_val env v (BinOp l op r) n') \<Longrightarrow> sound_binop env f"
  unfolding sound_binop_def keeps_def by (metis not_None_eq)

lemma sound_binopD:
  "sound_binop env f \<Longrightarrow> tame env (BinOp l op r) \<Longrightarrow> sem env (BinOp l op r) = Some v \<Longrightarrow>
     f l op r = Inr n' \<Longrightarrow> keeps env (BinOp l op r) n'"
  unfolding sound_binop_def by blast

lemma sound_keep: "sound_binop env keep_binop" "sound_call env keep_call"
  by (auto simp: sound_binop_def sound_call_def keep_binop_def keep_call_def keeps_refl)

lemma keeps_BinOp:
  assumes "tame env (BinOp l op r)" "keeps env l l'" "keeps env r r'"
  shows "keeps env (BinOp l op r) (BinOp l' op r')"
  using assms by (auto simp: keeps_def sem.simps(3))

text \<open>A pass whose rules are sound is sound.\<close>

lemma visit_keeps:
  assumes f: "sound_binop env f" and g: "sound_call env g"
  shows "tame env n \<Longrightarrow> sem env n = Some v \<Longrightarrow> visit f g n = Inr n' \<Longrightarrow> keeps env n n'"
proof (induction n arbitrary: v n')
  case (BinOp l op r)
  then obtain a b l' r' where ab: "sem env l = Some a" "sem env r = Some b"
    and v: "visit f g l = Inr l'" "visit f g r = Inr r'" "f l' op r' = Inr n'"
    by auto
  with BinOp have "keeps env l l'" "keeps env r r'" by auto
  with BinOp.prems(1) have k: "keeps env (BinOp l op r) (BinOp l' op r')" by (rule keeps_BinOp)
  moreover from k BinOp.prems(2) have "tame env (BinOp l' op r')" "sem env (BinOp l' op r') = Some v"
    by (auto simp: keeps_def)
  then have "keeps env (BinOp l' op r') n'" using v(3) by (rule sound_binopD [OF f])
  ultimately show ?case by (rule keeps_trans)
next
  case (UnaryOp u x)
  then obtain a x' where x: "sem env x = Some a" "visit f g x = Inr x'" "n' = UnaryOp u x'" by auto
  with UnaryOp have "keeps env x x'" by simp
  with x UnaryOp.prems(1) show ?case by (simp add: keeps_def)
next
  case (Call h args)
  then obtain x d a b where c: "h = ''CeilToInt''" "args = [x, d]" "sem env x = Some a" "sem env d = Some b"
    by (auto simp: ceil_ok_def sem_Call_Some)
  with Call.prems obtain x' d' where v: "visit f g x = Inr x'" "visit f g d = Inr d'"
    "g ''CeilToInt'' [x', d'] = Inr n'" by auto
  from Call.IH [of x a x'] Call.IH [of d b d'] Call.prems(1) c v have
    k: "keeps env x x'" "keeps env d d'" by auto
  then have k2: "keeps env (Call h args) (Call ''CeilToInt'' [x', d'])"
    using Call.prems(1) c by (auto simp: keeps_def ceil_ok_def sem.simps(5))
  then have "tame env (Call ''CeilToInt'' [x', d'])" "sem env (Call ''CeilToInt'' [x', d']) \<noteq> None"
    using Call.prems(2) by (auto simp: keeps_def)
  with g v(3) have "keeps env (Call ''CeilToInt'' [x', d']) n'" unfolding sound_call_def by blast
  with k2 show ?case by (rule keeps_trans)
qed (auto simp: keeps_refl)

section \<open>The local rules\<close>

lemma ceil_floor: "0 \<le> (a::int) \<Longrightarrow> 0 < b \<Longrightarrow> sem_ceil a b = Some ((a + (b - 1)) div b)"
proof -
  assume a: "0 \<le> a" and b: "0 < b"
  have id: "a = b * (a div b) + a mod b" by simp
  have r: "0 \<le> a mod b" "a mod b < b" using b by auto
  show ?thesis
  proof (cases "b dvd a")
    case True
    then obtain k where k: "a = b * k" by (auto elim: dvdE)
    have "(b * k + (b - 1)) div b = k" using b by (simp add: div_mult_self4 div_pos_pos_trivial)
    with True a b k show ?thesis by (simp add: sem_ceil_def sdiv_nonneg_pos)
  next
    case False
    then have "0 < a mod b" using r(1) by (metis dvd_eq_mod_eq_0 order_le_less)
    then have "(a mod b - 1) div b = 0" using r(2) by (intro div_pos_pos_trivial) auto
    moreover have "a + (b - 1) = b * (a div b + 1) + (a mod b - 1)" using id by (simp add: algebra_simps)
    moreover have "(b * (a div b + 1) + (a mod b - 1)) div b = a div b + 1 + (a mod b - 1) div b"
      using b by (intro div_mult_self4) simp
    ultimately have "(a + (b - 1)) div b = a div b + 1" by (simp only: add_0_right)
    with False a b show ?thesis by (simp add: sem_ceil_def sdiv_nonneg_pos)
  qed
qed

lemma ceil_call_sound: "sound_call env ceil_call"
proof -
  have "keeps env (Call ''CeilToInt'' args) n'"
    if t: "tame env (Call ''CeilToInt'' args)" and "ceil_call ''CeilToInt'' args = Inr n'" for args n'
  proof -
    from t obtain x d a where c: "args = [x, d]" "sem env x = Some a" "0 \<le> a" "posexp env d" "tame env x" "tame env d"
      by (auto simp: ceil_ok_def split: list.splits option.splits)
    from posexp_sem [OF c(4)] obtain b where b: "sem env d = Some b" "0 < b" by blast
    from that(2) c obtain m where m: "n' = BinOp (BinOp x Add m) FloorDiv d" "tame env m" "sem env m = Some (b - 1)"
      using b by (cases d) (auto simp: ceil_call_def sem.simps(3))
    with c b show ?thesis
      by (auto simp: keeps_def sem.simps(3,5) ceil_floor sem_binop_def)
  qed
  then show ?thesis by (simp add: sound_call_def)
qed

lemma simple_binop_sound: "sound_binop env simple_binop"
proof (rule sound_binopI)
  fix l op r n' v
  assume t: "tame env (BinOp l op r)" and s: "sem env (BinOp l op r) = Some v" and "simple_binop l op r = Inr n'"
  then consider "n' = BinOp l op r" | (x) x where "op = BitXor" "l = Name x" "r = Name x" "n' = l"
    | (a1) "op = Add" "l = Constant 0" "n' = r" | (a2) "op = Add" "r = Constant 0" "n' = l"
    | (m1) "op = Mult" "l = Constant 1" "n' = r" | (m2) "op = Mult" "r = Constant 1" "n' = l"
    by (auto simp: simple_binop_def split: if_splits node.splits)
  then show "keeps_val env v (BinOp l op r) n'"
    using t s by cases auto
qed

lemma nested_floor_div: "0 < (a::int) \<Longrightarrow> 0 < b \<Longrightarrow> x div a div b = x div (a * b)"
  by (simp add: zdiv_zmult2_eq)

lemma nested_binop_sound: "sound_binop env nested_binop"
proof (rule sound_binopI)
  fix l op r n' v
  assume t: "tame env (BinOp l op r)" and s: "sem env (BinOp l op r) = Some v" and n: "nested_binop l op r = Inr n'"
  from n consider "n' = BinOp l op r"
    | (f) x a b where "op = FloorDiv" "l = BinOp x FloorDiv (Constant a)" "r = Constant b" "0 < a" "0 < b"
        "n' = BinOp x FloorDiv (Constant (a * b))"
    by (auto simp: nested_binop_def split: node.splits BinOpKind.splits if_splits)
  then show "keeps_val env v (BinOp l op r) n'"
  proof cases
    case f
    with t s show ?thesis by (auto simp: nested_floor_div)
  qed (use t s in simp)
qed

lemma max_call_sound: "sound_call env max_call"
  by (auto simp: sound_call_def max_call_def keeps_refl split: list.splits)

lemma is_const_iff: "is_const n \<longleftrightarrow> n = Constant (const_value n)"
  by (cases n) (auto simp: is_const_def const_value_def)

lemma maxint_binop_sound: "sound_binop env maxint_binop"
proof (rule sound_binopI)
  fix l op r n' v
  assume t: "tame env (BinOp l op r)" and s: "sem env (BinOp l op r) = Some v" and n: "maxint_binop l op r = Inr n'"
  show "keeps_val env v (BinOp l op r) n'"
  proof (cases "op = BitXor \<and> is_const l \<and> is_const r")
    case True
    then obtain a b where "l = Constant a" "r = Constant b" using is_const_iff by metis
    with True s n show ?thesis by (auto simp: maxint_binop_def const_value_def is_const_def)
  next
    case False
    with n t s show ?thesis by (auto simp: maxint_binop_def)
  qed
qed

end
