(* ===== verification/ExprSoundMul.thy ===== *)
theory ExprSoundMul
  imports ExprSound
begin

text \<open>
  The passes on multiplicative chains and on commutative chains keep the value of a tame tree: the
  cancelling of common factors, the folding of constants, the reordering of operands.
\<close>

section \<open>Values of factor lists\<close>

definition val :: "(string \<Rightarrow> int option) \<Rightarrow> node \<Rightarrow> int" where
  "val env n = the (sem env n)"

definition defined_in :: "(string \<Rightarrow> int option) \<Rightarrow> node list \<Rightarrow> bool" where
  "defined_in env xs \<longleftrightarrow> (\<forall>x \<in> set xs. sem env x \<noteq> None)"

lemma defined_in_simps [simp]:
  "defined_in env []"
  "defined_in env (x # xs) \<longleftrightarrow> sem env x \<noteq> None \<and> defined_in env xs"
  "defined_in env (xs @ ys) \<longleftrightarrow> defined_in env xs \<and> defined_in env ys"
  by (auto simp: defined_in_def)

lemma val_eq: "sem env n = Some v \<Longrightarrow> val env n = v"
  by (simp add: val_def)

lemma sem_val: "sem env n \<noteq> None \<Longrightarrow> sem env n = Some (val env n)"
  by (simp add: val_def)

abbreviation prod_val :: "(string \<Rightarrow> int option) \<Rightarrow> node list \<Rightarrow> int" where
  "prod_val env xs \<equiv> prod_list (map (val env) xs)"

lemma posexp_val: "posexp env n \<Longrightarrow> 0 < val env n"
  using posexp_sem [of env n] by (auto simp: val_def)

lemma posexp_defined: "posexp env n \<Longrightarrow> sem env n \<noteq> None"
  using posexp_sem [of env n] by auto

lemma prod_val_pos: "list_all (posexp env) xs \<Longrightarrow> 0 < prod_val env xs"
  by (induction xs) (auto simp: posexp_val)

text \<open>Products.\<close>

lemma mul_chain_sem:
  "sem env acc = Some a \<Longrightarrow> defined_in env xs \<Longrightarrow> sem env (mul_chain acc xs) = Some (a * prod_val env xs)"
  by (induction xs arbitrary: acc a) (auto simp: val_def mult.assoc)

lemma mul_chain_tame:
  "tame env acc \<Longrightarrow> list_all (tame env) xs \<Longrightarrow> (xs \<noteq> [] \<Longrightarrow> divfree acc) \<Longrightarrow> list_all divfree xs \<Longrightarrow>
     tame env (mul_chain acc xs)"
  by (induction xs arbitrary: acc) auto

lemma mul_chain_divfree: "divfree acc \<Longrightarrow> list_all divfree xs \<Longrightarrow> divfree (mul_chain acc xs)"
  by (induction xs arbitrary: acc) auto

lemma mul_chain_posexp: "posexp env acc \<Longrightarrow> list_all (posexp env) xs \<Longrightarrow> posexp env (mul_chain acc xs)"
  by (induction xs arbitrary: acc) auto

lemma build_product_sem: "defined_in env xs \<Longrightarrow> sem env (build_product xs) = Some (prod_val env xs)"
  by (cases xs) (auto simp: build_product_def mul_chain_sem val_def)

text \<open>Factor lists that make a tame product: a single factor may have divisions.\<close>

definition good_factors :: "(string \<Rightarrow> int option) \<Rightarrow> node list \<Rightarrow> bool" where
  "good_factors env xs \<longleftrightarrow> list_all (tame env) xs \<and> defined_in env xs \<and>
     (2 \<le> length xs \<longrightarrow> list_all divfree xs)"

lemma build_product_tame: "good_factors env xs \<Longrightarrow> tame env (build_product xs)"
proof (cases xs)
  case (Cons x ys)
  assume g: "good_factors env xs"
  show ?thesis
  proof (cases ys)
    case Nil
    with g Cons show ?thesis by (simp add: build_product_def good_factors_def)
  next
    case (Cons y zs)
    with g \<open>xs = x # ys\<close> show ?thesis
      by (auto simp: build_product_def good_factors_def intro!: mul_chain_tame)
  qed
qed (simp add: build_product_def)

lemma build_product_divfree: "list_all divfree xs \<Longrightarrow> divfree (build_product xs)"
  by (cases xs) (auto simp: build_product_def mul_chain_divfree)

lemma build_product_posexp: "list_all (posexp env) xs \<Longrightarrow> posexp env (build_product xs)"
  by (cases xs) (auto simp: build_product_def mul_chain_posexp)

lemma list_all_subset: "list_all P xs \<Longrightarrow> set ys \<subseteq> set xs \<Longrightarrow> list_all P ys"
  by (auto simp: list_all_iff)

section \<open>Flattening\<close>

lemma divfree_no_floordiv: "divfree n \<Longrightarrow> \<not> has_floordiv_factor n"
  by (induction n) auto

lemma flatten_divfree:
  "divfree n \<Longrightarrow> tame env n \<Longrightarrow> sem env n = Some v \<Longrightarrow> \<exists>num. flatten_mul_div n = (num, []) \<and>
     num \<noteq> [] \<and> list_all (tame env) num \<and> list_all divfree num \<and> defined_in env num \<and> v = prod_val env num \<and>
     (posexp env n \<longrightarrow> list_all (posexp env) num)"
proof (induction n arbitrary: v)
  case (BinOp l op r)
  show ?case
  proof (cases "op = Mult")
    case False
    with BinOp.prems(1,2) val_eq [OF BinOp.prems(3)] show ?thesis by (simp add: BinOp.prems(3))
  next
    case True
    with BinOp.prems obtain a b where ab: "sem env l = Some a" "sem env r = Some b" "v = a * b" by auto
    from BinOp.IH(1) [of a] BinOp.IH(2) [of b] BinOp.prems ab True
    obtain ln rn where "flatten_mul_div l = (ln, [])" "flatten_mul_div r = (rn, [])"
      "ln \<noteq> []" "list_all (tame env) ln" "list_all divfree ln" "defined_in env ln" "a = prod_val env ln"
      "posexp env l \<longrightarrow> list_all (posexp env) ln"
      "rn \<noteq> []" "list_all (tame env) rn" "list_all divfree rn" "defined_in env rn" "b = prod_val env rn"
      "posexp env r \<longrightarrow> list_all (posexp env) rn"
      by auto
    moreover have "\<not> has_floordiv_factor l" "\<not> has_floordiv_factor r"
      using BinOp.prems(1) by (auto simp: divfree_no_floordiv)
    ultimately show ?thesis using True ab by auto
  qed
qed (auto simp: val_def)

text \<open>The value of a chain is the floored quotient of its factors.\<close>

lemma flatten_tame:
  "tame env n \<Longrightarrow> sem env n = Some v \<Longrightarrow> \<exists>num den. flatten_mul_div n = (num, den) \<and> num \<noteq> [] \<and>
     good_factors env num \<and> list_all (tame env) den \<and> list_all (posexp env) den \<and>
     v = prod_val env num div prod_val env den"
proof (induction n arbitrary: v)
  case (BinOp l op r)
  consider "divfree (BinOp l op r)" | "op = FloorDiv"
    | "\<not> divfree (BinOp l op r)" "op \<noteq> FloorDiv" "op \<noteq> Mult" "op \<noteq> ExactDiv"
    using BinOp.prems(1) by auto
  then show ?case
  proof cases
    case 1
    from flatten_divfree [OF 1 BinOp.prems] show ?thesis by (auto simp: good_factors_def)
  next
    case 2
    with BinOp.prems obtain a b where ab: "sem env l = Some a" "sem env r = Some b" "v = a div b" by auto
    from BinOp.IH(1) [OF _ ab(1)] BinOp.prems(1)
    obtain ln ld where l: "flatten_mul_div l = (ln, ld)" "ln \<noteq> []" "good_factors env ln"
      "list_all (tame env) ld" "list_all (posexp env) ld" "a = prod_val env ln div prod_val env ld"
      by auto
    have r: "posexp env r" using BinOp.prems(1) 2 by simp
    from flatten_divfree [OF posexp_divfree [OF r] _ ab(2)] BinOp.prems(1) r
    obtain rn where rn: "flatten_mul_div r = (rn, [])" "list_all (tame env) rn" "list_all (posexp env) rn"
      "b = prod_val env rn" by auto
    have "v = prod_val env ln div (prod_val env ld * prod_val env rn)"
      using ab(3) l(6) rn(4) prod_val_pos [OF rn(3)] by (simp add: zdiv_zmult2_eq)
    with 2 l rn show ?thesis by auto
  next
    case 3
    with BinOp.prems(1) val_eq [OF BinOp.prems(2)] show ?thesis
      by (simp add: good_factors_def BinOp.prems(2))
  qed
qed (auto simp: good_factors_def val_def)

section \<open>Cancelling\<close>

lemma keep_needed_count:
  "count_list (map unparse (keep_needed need xs)) k = min (need k) (count_list (map unparse xs) k)"
  by (induction xs arbitrary: need) (auto simp: Let_def)

lemma keep_needed_subset: "set (keep_needed need xs) \<subseteq> set xs"
  by (induction xs arbitrary: need) (auto simp: Let_def split: if_splits)

lemma keep_needed_all: "list_all P xs \<Longrightarrow> list_all P (keep_needed need xs)"
  using keep_needed_subset [of need xs] by (auto simp: list_all_iff)

lemma keep_needed_length: "length (keep_needed need xs) \<le> length xs"
  by (induction xs arbitrary: need) (auto simp: Let_def le_SucI)

lemma good_factors_keep: "good_factors env xs \<Longrightarrow> good_factors env (keep_needed need xs)"
  using keep_needed_subset [of need xs] keep_needed_length [of need xs]
  by (auto simp: good_factors_def list_all_iff defined_in_def)

text \<open>The value of a tame factor is the value of its text.\<close>

definition text_val :: "(string \<Rightarrow> int option) \<Rightarrow> string \<Rightarrow> int" where
  "text_val env k = the (text_sem env k)"

lemma prod_val_texts:
  "list_all (tame env) xs \<Longrightarrow> prod_val env xs = prod_mset (image_mset (text_val env) (mset (map unparse xs)))"
  by (induction xs) (auto simp: val_def text_val_def tame_text_sem)

lemma cancel_texts:
  assumes "ys = keep_needed (\<lambda>k. count_list (map unparse xs) k - min (count_list (map unparse xs) k) (c k)) xs"
    and "\<And>k. min (count_list (map unparse xs) k) (c k) = count m k"
  shows "mset (map unparse xs) = mset (map unparse ys) + m"
proof (rule multiset_eqI)
  fix k
  have "count m k \<le> count_list (map unparse xs) k" using assms(2) [of k] by simp
  then show "count (mset (map unparse xs)) k = count (mset (map unparse ys) + m) k"
    by (simp add: assms(1) keep_needed_count assms(2) count_mset del: mset_map)
qed

text \<open>Both products lose the same factor, and the denominator stays positive.\<close>

lemma cancel_quotient:
  assumes t: "list_all (tame env) num" "list_all (tame env) den" and pos: "list_all (posexp env) den"
    and rn_def: "rn = keep_needed (\<lambda>k. count_list (map unparse num) k -
      min (count_list (map unparse num) k) (count_list (map unparse den) k)) num"
    and rd_def: "rd = keep_needed (\<lambda>k. count_list (map unparse den) k -
      min (count_list (map unparse num) k) (count_list (map unparse den) k)) den"
  shows "prod_val env num div prod_val env den = prod_val env rn div prod_val env rd"
    and "list_all (posexp env) rd"
proof -
  define m where m: "m = mset (map unparse num) \<inter># mset (map unparse den)"
  let ?K = "prod_mset (image_mset (text_val env) m)"
  have n: "mset (map unparse num) = mset (map unparse rn) + m"
    by (rule cancel_texts [of rn num "count_list (map unparse den)"])
      (simp_all add: rn_def m count_mset del: mset_map)
  have d: "mset (map unparse den) = mset (map unparse rd) + m"
    by (rule cancel_texts [of rd den "count_list (map unparse num)"])
      (simp_all add: rd_def m count_mset min.commute del: mset_map)
  have tr: "list_all (tame env) rn" "list_all (tame env) rd" "list_all (posexp env) rd"
    using t pos by (simp_all add: rn_def rd_def keep_needed_all)
  then show "list_all (posexp env) rd" by simp
  have N: "prod_val env num = prod_val env rn * ?K"
    unfolding prod_val_texts [OF t(1)] prod_val_texts [OF tr(1)] n by simp
  have D: "prod_val env den = prod_val env rd * ?K"
    unfolding prod_val_texts [OF t(2)] prod_val_texts [OF tr(2)] d by simp
  have "0 < prod_val env den" using pos by (rule prod_val_pos)
  then have "?K \<noteq> 0" unfolding D by (metis less_irrefl mult_zero_right)
  then show "prod_val env num div prod_val env den = prod_val env rn div prod_val env rd"
    by (simp add: N D)
qed

lemma muldiv_binop_sound: "sound_binop env muldiv_binop"
proof (rule sound_binopI)
  fix l op r n' v
  assume t: "tame env (BinOp l op r)" and s: "sem env (BinOp l op r) = Some v" and m: "muldiv_binop l op r = Inr n'"
  from flatten_tame [OF t s] obtain num den where f: "flatten_mul_div (BinOp l op r) = (num, den)"
    and num: "good_factors env num" and den: "list_all (tame env) den" "list_all (posexp env) den"
    and v: "v = prod_val env num div prod_val env den" by blast
  define rn where "rn = keep_needed (\<lambda>k. count_list (map unparse num) k -
      min (count_list (map unparse num) k) (count_list (map unparse den) k)) num"
  define rd where "rd = keep_needed (\<lambda>k. count_list (map unparse den) k -
      min (count_list (map unparse num) k) (count_list (map unparse den) k)) den"
  show "keeps_val env v (BinOp l op r) n'"
  proof (cases "n' = BinOp l op r")
    case True
    with t s show ?thesis by simp
  next
    case False
    with m f have op: "op = Mult \<or> op = FloorDiv \<or> op = ExactDiv"
      and n': "n' = (if rd = [] then build_product rn
                     else BinOp (build_product rn) (div_kind op) (build_product rd))"
      and common: "\<not> (\<forall>k \<in> set (map unparse num). count_list (map unparse den) k = 0)"
      by (auto simp: muldiv_binop_def Let_def rn_def rd_def split: if_splits)
    have nd: "\<not> divfree (BinOp l op r)"
      using flatten_divfree [OF _ t s] f common by auto
    then have "\<not> posexp env (BinOp l op r)" using posexp_divfree by blast
    have kind: "div_kind op = FloorDiv" using t by (auto simp: div_kind_def)
    have tn: "list_all (tame env) num" using num by (simp add: good_factors_def)
    note q = cancel_quotient [OF tn den rn_def rd_def]
    have rn: "good_factors env rn" unfolding rn_def using num by (rule good_factors_keep)
    have rdg: "good_factors env rd"
    proof -
      have "list_all (tame env) rd" unfolding rd_def using den(1) by (rule keep_needed_all)
      with q(2) show ?thesis
        unfolding good_factors_def list_all_iff defined_in_def using posexp_divfree posexp_defined by blast
    qed
    have sn: "sem env (build_product rn) = Some (prod_val env rn)"
      using rn by (simp add: build_product_sem good_factors_def)
    have sd: "sem env (build_product rd) = Some (prod_val env rd)"
      using rdg by (simp add: build_product_sem good_factors_def)
    have "sem env n' = Some v"
      using n' sn sd v q(1) prod_val_pos [OF q(2)] by (auto simp: kind)
    moreover have "tame env n'"
      using n' rn rdg q(2) by (auto simp: kind build_product_tame build_product_posexp)
    ultimately show ?thesis using nd \<open>\<not> posexp env (BinOp l op r)\<close> by blast
  qed
qed

section \<open>Folding constants\<close>

abbreviation consts_of :: "node list \<Rightarrow> int" where
  "consts_of xs \<equiv> prod_list (map const_value (filter is_const xs))"

abbreviation others_of :: "node list \<Rightarrow> node list" where
  "others_of xs \<equiv> filter (\<lambda>x. \<not> is_const x) xs"

definition const_step :: "node \<Rightarrow> int \<Rightarrow> int res" where
  "const_step x acc = (if is_const x then CheckedDimensionMultiply acc (const_value x) else Inr acc)"

lemma const_step_Inr:
  "const_step x acc = Inr c \<longleftrightarrow>
     (if is_const x then in_i64 (acc * const_value x) \<and> c = acc * const_value x else c = acc)"
  by (auto simp: const_step_def)

lemma const_step_value: "foldR const_step xs a = Inr c \<Longrightarrow> c = a * consts_of xs"
proof (induction xs arbitrary: a)
  case (Cons x xs)
  show ?case
  proof (cases "is_const x")
    case True
    with Cons.prems have "foldR const_step xs (a * const_value x) = Inr c" by (auto simp: const_step_Inr)
    from Cons.IH [OF this] True show ?thesis by (simp add: mult.assoc)
  qed (use Cons in \<open>auto simp: const_step_Inr\<close>)
qed simp

lemma const_step_range: "foldR const_step xs a = Inr c \<Longrightarrow> in_i64 a \<Longrightarrow> in_i64 c"
  by (induction xs arbitrary: a) (auto simp: const_step_Inr split: if_splits)

lemma const_product_Inr: "const_product xs = Inr c \<Longrightarrow> c = consts_of xs \<and> in_i64 c"
proof -
  assume "const_product xs = Inr c"
  then have "foldR const_step xs 1 = Inr c" by (simp add: const_product_def const_step_def [abs_def])
  then show ?thesis using const_step_value const_step_range in_i64_consts(2) by fastforce
qed

lemma val_const: "is_const x \<Longrightarrow> val env x = const_value x"
  by (cases x) (auto simp: is_const_def const_value_def val_def)

lemma prod_val_split: "prod_val env xs = consts_of xs * prod_val env (others_of xs)"
  by (induction xs) (auto simp: val_const)

lemma list_all_filter: "list_all P xs \<Longrightarrow> list_all P (filter Q xs)"
  by (auto simp: list_all_iff)

lemma defined_filter: "defined_in env xs \<Longrightarrow> defined_in env (filter Q xs)"
  by (auto simp: defined_in_def)

lemma posexp_const: "is_const x \<Longrightarrow> posexp env x \<Longrightarrow> 0 < const_value x"
  by (cases x) (auto simp: is_const_def const_value_def)

lemma consts_of_pos: "list_all (posexp env) xs \<Longrightarrow> 0 < consts_of xs"
  by (induction xs) (auto simp: posexp_const)

text \<open>A list with a constant different from 1 in it and something else has at least two elements.\<close>

lemma two_factors: "consts_of xs \<noteq> 1 \<Longrightarrow> others_of xs \<noteq> [] \<Longrightarrow> 2 \<le> length xs"
  by (cases xs; cases "tl xs") (auto split: if_splits)

lemma with_const_sem:
  "defined_in env others \<Longrightarrow> sem env (with_const c others) = Some (c * prod_val env others)"
  by (auto simp: with_const_def build_product_sem val_def)

lemma with_const_tame:
  assumes "good_factors env num" and "c \<noteq> 1 \<Longrightarrow> consts_of num \<noteq> 1"
  shows "tame env (with_const c (others_of num))"
proof -
  have t: "list_all (tame env) (others_of num)" "defined_in env (others_of num)"
    using assms(1) by (auto simp: good_factors_def list_all_filter defined_filter)
  have d: "list_all divfree (others_of num)" if "2 \<le> length num"
    using assms(1) that by (auto simp: good_factors_def list_all_filter)
  have "2 \<le> length num" if "2 \<le> length (others_of num)"
    using that by (meson length_filter_le order_trans)
  with t d have g: "good_factors env (others_of num)" by (auto simp: good_factors_def)
  have "good_factors env (Constant c # others_of num)" if "c \<noteq> 1"
  proof (cases "others_of num = []")
    case True
    then show ?thesis unfolding True by (simp add: good_factors_def)
  next
    case False
    with two_factors [of num] assms(2) that d t show ?thesis by (simp add: good_factors_def)
  qed
  with g show ?thesis by (cases "c = 1") (auto simp: with_const_def build_product_tame good_factors_def)
qed

lemma with_const_divfree: "list_all divfree others \<Longrightarrow> divfree (with_const c others)"
  by (auto simp: with_const_def intro!: build_product_divfree)

lemma with_const_posexp: "list_all (posexp env) others \<Longrightarrow> 0 < c \<Longrightarrow> posexp env (with_const c others)"
  by (auto simp: with_const_def intro!: build_product_posexp)

lemma gcd_reduce:
  fixes a b q :: int
  assumes "0 < b"
  shows "(a * q) div b = (a div gcd a b * q) div (b div gcd a b)"
proof -
  have g: "0 < gcd a b" using assms by (simp add: gcd_pos_int)
  obtain A where A: "a = A * gcd a b" by (metis dvd_div_mult_self gcd_dvd1)
  obtain B where B: "b = B * gcd a b" by (metis dvd_div_mult_self gcd_dvd2)
  have "A = a div gcd a b" "B = b div gcd a b"
    using g A B by (metis less_irrefl nonzero_mult_div_cancel_right)+
  moreover have "(a * q) div b = (A * q * gcd a b) div (B * gcd a b)"
    using A B by (metis mult.assoc mult.commute)
  moreover have "(A * q * gcd a b) div (B * gcd a b) = (A * q) div B" using g by (intro div_mult_mult2) simp
  ultimately show ?thesis by metis
qed

lemma fold_parts:
  assumes "tame env (BinOp l op r)" and "flatten_mul_div (BinOp l op r) = (num, den)"
    and "fold_binop l op r = Inr n'" and "n' \<noteq> BinOp l op r"
  obtains nc dc where "const_product num = Inr nc" "const_product den = Inr dc" "others_of den = []" "dc \<noteq> 0"
    and "dc dvd nc \<Longrightarrow> n' = with_const (nc sdiv dc) (others_of num)"
    and "\<not> dc dvd nc \<Longrightarrow> n' =
      (let g = wrap_i64 (gcd (unsigned_magnitude nc) (unsigned_magnitude dc));
           numerator = with_const (nc sdiv g) (others_of num)
       in if dc sdiv g = 1 then numerator else BinOp numerator FloorDiv (Constant (dc sdiv g)))"
proof -
  have op: "op = Mult \<or> op = FloorDiv" "div_kind op = FloorDiv"
    using assms by (auto simp: fold_binop_def div_kind_def split: if_splits)
  from assms(3) op(1) assms(2) obtain nc dc where c: "const_product num = Inr nc" "const_product den = Inr dc"
    and r: "(if dc = 0 \<or> others_of den \<noteq> [] then Inr (BinOp l op r)
             else if nc = i64_min \<and> dc = - 1 then Inl InvalidArgument
             else bindR (raw_mod nc dc) (\<lambda>m.
               if m = 0 then bindR (raw_div nc dc) (\<lambda>folded. Inr (with_const folded (others_of num)))
               else
                 let g = wrap_i64 (gcd (unsigned_magnitude nc) (unsigned_magnitude dc))
                 in bindR (raw_div nc g) (\<lambda>new_num_c. bindR (raw_div dc g) (\<lambda>new_den_c.
                      let numerator = with_const new_num_c (others_of num)
                      in Inr (if new_den_c = 1 then numerator
                              else BinOp numerator (div_kind op) (Constant new_den_c)))))) = Inr n'"
    by (auto simp: fold_binop_def Let_def)
  from r assms(4) have d: "dc \<noteq> 0" "others_of den = []" by (auto split: if_splits)
  have div: "nc smod dc = 0 \<longleftrightarrow> dc dvd nc" using d(1) by (rule smod_eq_0_iff)
  show thesis
  proof (rule that [OF c d(2,1)])
    show "n' = with_const (nc sdiv dc) (others_of num)" if "dc dvd nc"
      using r d that div by (auto split: if_splits)
    show "n' = (let g = wrap_i64 (gcd (unsigned_magnitude nc) (unsigned_magnitude dc));
           numerator = with_const (nc sdiv g) (others_of num)
       in if dc sdiv g = 1 then numerator else BinOp numerator FloorDiv (Constant (dc sdiv g)))"
      if "\<not> dc dvd nc"
      using r d that div op(2) by (auto simp: Let_def split: if_splits)
  qed
qed

text \<open>The value of the folded chain, with a divisor that reduces to a positive constant.\<close>

lemma wrap_gcd:
  assumes "in_i64 a" "in_i64 b" "0 < b"
  shows "wrap_i64 (gcd (unsigned_magnitude a) (unsigned_magnitude b)) = gcd a b"
proof -
  have "gcd a b \<le> b" using assms(3) by (intro zdvd_imp_le) auto
  moreover have "0 \<le> gcd a b" by simp
  ultimately have "in_i64 (gcd a b)" using assms(2) unfolding in_i64_def i64_min_def by linarith
  with assms show ?thesis by (simp add: unsigned_magnitude_eq wrap_i64_id)
qed

lemma fold_binop_sound: "sound_binop env fold_binop"
proof (rule sound_binopI)
  fix l op r n' v
  assume t: "tame env (BinOp l op r)" and s: "sem env (BinOp l op r) = Some v" and m: "fold_binop l op r = Inr n'"
  show "keeps_val env v (BinOp l op r) n'"
  proof (cases "n' = BinOp l op r")
    case True
    with t s show ?thesis by simp
  next
    case False
    from flatten_tame [OF t s] obtain num den where f: "flatten_mul_div (BinOp l op r) = (num, den)"
      and num: "good_factors env num" and den: "list_all (posexp env) den"
      and v: "v = prod_val env num div prod_val env den" by blast
    from fold_parts [OF t f m False] obtain nc dc where c: "const_product num = Inr nc" "const_product den = Inr dc"
      and d: "others_of den = []" "dc \<noteq> 0"
      and dvd: "dc dvd nc \<Longrightarrow> n' = with_const (nc sdiv dc) (others_of num)"
      and ndvd: "\<not> dc dvd nc \<Longrightarrow> n' =
        (let g = wrap_i64 (gcd (unsigned_magnitude nc) (unsigned_magnitude dc));
             numerator = with_const (nc sdiv g) (others_of num)
         in if dc sdiv g = 1 then numerator else BinOp numerator FloorDiv (Constant (dc sdiv g)))"
      by metis
    from c have nc: "nc = consts_of num" "in_i64 nc" and dc: "dc = consts_of den" "in_i64 dc"
      using const_product_Inr by blast+
    have dpos: "0 < dc" unfolding dc(1) using den by (rule consts_of_pos)
    let ?O = "prod_val env (others_of num)"
    have def: "defined_in env (others_of num)" using num by (simp add: good_factors_def defined_filter)
    have val: "v = (nc * ?O) div dc"
      using v prod_val_split [of env num] prod_val_split [of env den] d(1) by (simp add: nc dc)
    show ?thesis
    proof (cases "dc dvd nc")
      case True
      then have q: "nc sdiv dc = nc div dc" using d(2) by (rule dvd_sdiv [rotated])
      have n': "n' = with_const (nc div dc) (others_of num)" using dvd [OF True] by (simp add: q)
      have "v = nc div dc * ?O" using val True by (simp add: dvd_div_mult)
      then have sem: "sem env n' = Some v" using def by (simp add: n' with_const_sem)
      have tame: "tame env n'"
        unfolding n' using num
      proof (rule with_const_tame)
        assume "nc div dc \<noteq> 1"
        then show "consts_of num \<noteq> 1" using True dpos by (auto simp: nc zdvd1_eq)
      qed
      have pf: "divfree (BinOp l op r) \<longrightarrow> divfree n'"
      proof
        assume "divfree (BinOp l op r)"
        from flatten_divfree [OF this t s] f have "list_all divfree (others_of num)"
          by (auto simp: list_all_filter)
        then show "divfree n'" unfolding n' by (rule with_const_divfree)
      qed
      have "posexp env (BinOp l op r) \<longrightarrow> posexp env n'"
      proof
        assume p: "posexp env (BinOp l op r)"
        from flatten_divfree [OF posexp_divfree [OF p] t s] f p
        have p: "list_all (posexp env) num" and "den = []" by auto
        then have "dc = 1" by (simp add: dc)
        with p consts_of_pos [OF p] show "posexp env n'"
          by (auto simp: n' nc intro!: with_const_posexp list_all_filter)
      qed
      with sem tame pf show ?thesis by simp
    next
      case False
      let ?g = "gcd nc dc"
      have g: "0 < ?g" using dpos by (simp add: gcd_pos_int)
      have e: "nc sdiv ?g = nc div ?g" "dc sdiv ?g = dc div ?g" using g by (auto simp: dvd_sdiv)
      have "?g \<le> dc" using dpos by (intro zdvd_imp_le) auto
      then have gpos: "0 < dc div ?g" using g by (simp add: pos_imp_zdiv_pos_iff)
      let ?m = "with_const (nc div ?g) (others_of num)"
      have n': "n' = (if dc div ?g = 1 then ?m else BinOp ?m FloorDiv (Constant (dc div ?g)))"
        using ndvd [OF False] wrap_gcd [OF nc(2) dc(2) dpos] by (simp add: Let_def e)
      have sem_m: "sem env ?m = Some (nc div ?g * ?O)" using def by (rule with_const_sem)
      have "v = (nc div ?g * ?O) div (dc div ?g)" unfolding val using dpos by (rule gcd_reduce)
      with sem_m gpos have sem: "sem env n' = Some v" by (auto simp: n')
      have "tame env ?m"
        using num
      proof (rule with_const_tame)
        assume "nc div ?g \<noteq> 1"
        then show "consts_of num \<noteq> 1" by (auto simp: nc)
      qed
      with gpos have tame: "tame env n'" by (simp add: n')
      have nd: "\<not> divfree (BinOp l op r)"
      proof
        assume "divfree (BinOp l op r)"
        from flatten_divfree [OF this t s] f have "dc = 1" by (simp add: dc)
        with False show False by simp
      qed
      then have np: "\<not> posexp env (BinOp l op r)" using posexp_divfree by blast
      from sem tame nd np show ?thesis by blast
    qed
  qed
qed

section \<open>Reordering\<close>

lemma chain_from_add_sem:
  "sem env acc = Some a \<Longrightarrow> defined_in env xs \<Longrightarrow>
     sem env (chain_from Add acc xs) = Some (a + sum_list (map (val env) xs))"
  by (induction xs arbitrary: acc a) (auto simp: val_def add.assoc)

lemma rebuild_add_sem:
  "xs \<noteq> [] \<Longrightarrow> defined_in env xs \<Longrightarrow> sem env (rebuild_chain Add xs) = Some (sum_list (map (val env) xs))"
  by (cases xs) (auto simp: rebuild_chain_def chain_from_add_sem val_def)

lemma chain_from_mult: "chain_from Mult acc xs = mul_chain acc xs"
  by (induction xs arbitrary: acc) auto

lemma rebuild_mult: "xs \<noteq> [] \<Longrightarrow> rebuild_chain Mult xs = build_product xs"
  by (cases xs) (auto simp: rebuild_chain_def build_product_def chain_from_mult)

lemma chain_from_add_tame:
  "tame env acc \<Longrightarrow> list_all (tame env) xs \<Longrightarrow> tame env (chain_from Add acc xs)"
  by (induction xs arbitrary: acc) auto

lemma chain_from_add_divfree:
  "divfree acc \<Longrightarrow> list_all divfree xs \<Longrightarrow> divfree (chain_from Add acc xs)"
  by (induction xs arbitrary: acc) auto

lemma chain_from_add_posexp:
  "posexp env acc \<Longrightarrow> list_all (posexp env) xs \<Longrightarrow> posexp env (chain_from Add acc xs)"
  by (induction xs arbitrary: acc) auto

lemma rebuild_add_keeps:
  assumes "xs \<noteq> []"
  shows "list_all (tame env) xs \<Longrightarrow> tame env (rebuild_chain Add xs)"
    and "list_all divfree xs \<Longrightarrow> divfree (rebuild_chain Add xs)"
    and "list_all (posexp env) xs \<Longrightarrow> posexp env (rebuild_chain Add xs)"
  using assms
  by (cases xs; simp add: rebuild_chain_def chain_from_add_tame chain_from_add_divfree chain_from_add_posexp)+

lemma flatten_chain_nonempty [simp]: "flatten_chain op n \<noteq> []"
  by (induction n) auto

lemma flatten_chain_keeps:
  "tame env n \<Longrightarrow> list_all (tame env) (flatten_chain op n)"
  "divfree n \<Longrightarrow> list_all divfree (flatten_chain op n)"
  "posexp env n \<Longrightarrow> list_all (posexp env) (flatten_chain op n)"
  by (induction n) auto

lemma flatten_chain_sem:
  "sem env n = Some v \<Longrightarrow> defined_in env (flatten_chain Add n) \<and> v = sum_list (map (val env) (flatten_chain Add n))"
  "sem env n = Some v \<Longrightarrow> defined_in env (flatten_chain Mult n) \<and> v = prod_val env (flatten_chain Mult n)"
proof -
  have c: "sem env n = Some v \<Longrightarrow> defined_in env [n] \<and> v = val env n" for v n
    by (simp add: val_def)
  show "sem env n = Some v \<Longrightarrow> defined_in env (flatten_chain Add n) \<and> v = sum_list (map (val env) (flatten_chain Add n))"
  proof (induction n arbitrary: v)
    case (BinOp l op r)
    then show ?case using c [OF BinOp.prems] by (cases "op = Add") auto
  qed (auto simp: val_def)
  show "sem env n = Some v \<Longrightarrow> defined_in env (flatten_chain Mult n) \<and> v = prod_val env (flatten_chain Mult n)"
  proof (induction n arbitrary: v)
    case (BinOp l op r)
    then show ?case using c [OF BinOp.prems] by (cases "op = Mult") auto
  qed (auto simp: val_def)
qed

lemma sort_key_sum: "sum_list (map f (sort_key k xs)) = sum_list (map f xs)" for f :: "'a \<Rightarrow> int"
  by (metis mset_map mset_sort sum_mset_sum_list)

lemma sort_key_prod: "prod_list (map f (sort_key k xs)) = prod_list (map f xs)" for f :: "'a \<Rightarrow> int"
  by (metis mset_map mset_sort prod_mset_prod_list)

lemma list_all_sort_key: "list_all P (sort_key k xs) \<longleftrightarrow> list_all P xs"
  by (simp add: list_all_iff)

lemma defined_sort_key: "defined_in env (sort_key k xs) \<longleftrightarrow> defined_in env xs"
  by (simp add: defined_in_def)

lemma sort_key_nonempty: "xs \<noteq> [] \<Longrightarrow> sort_key k xs \<noteq> []"
  by (metis set_empty set_sort)

lemma reorder_binop_sound: "sound_binop env reorder_binop"
proof (rule sound_binopI)
  fix l op r n' v
  assume t: "tame env (BinOp l op r)" and s: "sem env (BinOp l op r) = Some v" and m: "reorder_binop l op r = Inr n'"
  let ?n = "BinOp l op r"
  let ?xs = "sort_key unparse (flatten_chain op ?n)"
  have ne: "?xs \<noteq> []" by (intro sort_key_nonempty flatten_chain_nonempty)
  consider "op = Add" "n' = rebuild_chain Add ?xs" | "op = Mult" "n' = rebuild_chain Mult ?xs" | "n' = ?n"
    using m by (auto simp: reorder_binop_def split: if_splits)
  then show "keeps_val env v ?n n'"
  proof cases
    case 1
    have "sem env n' = Some v"
      using flatten_chain_sem(1) [OF s] ne 1
      by (auto simp: rebuild_add_sem defined_sort_key sort_key_sum)
    moreover have "tame env n'"
      unfolding 1(2) by (rule rebuild_add_keeps [OF ne]) (use flatten_chain_keeps(1) [OF t] in \<open>simp only: list_all_sort_key\<close>)
    moreover have "divfree n'" if "divfree ?n"
      unfolding 1(2) by (rule rebuild_add_keeps [OF ne]) (use flatten_chain_keeps(2) [OF that] in \<open>simp only: list_all_sort_key\<close>)
    moreover have "posexp env n'" if "posexp env ?n"
      unfolding 1(2) by (rule rebuild_add_keeps [OF ne]) (use flatten_chain_keeps(3) [OF that] in \<open>simp only: list_all_sort_key\<close>)
    ultimately show ?thesis by blast
  next
    case 2
    have n': "n' = build_product ?xs" using 2 ne by (simp add: rebuild_mult)
    have fs: "defined_in env ?xs" "v = prod_val env ?xs"
      using flatten_chain_sem(2) [OF s] 2(1) by (auto simp: defined_sort_key sort_key_prod)
    have df: "divfree ?n" using t 2(1) by simp
    have d: "list_all divfree ?xs" using flatten_chain_keeps(2) [OF df] by (simp only: list_all_sort_key)
    have tm: "list_all (tame env) ?xs" using flatten_chain_keeps(1) [OF t] by (simp only: list_all_sort_key)
    have "sem env n' = Some v" unfolding n' using fs by (simp only: build_product_sem)
    moreover have "tame env n'" unfolding n' using d tm fs(1) by (intro build_product_tame) (simp add: good_factors_def)
    moreover have "divfree n'" unfolding n' using d by (rule build_product_divfree)
    moreover have "posexp env n'" if "posexp env ?n"
      unfolding n' by (rule build_product_posexp) (use flatten_chain_keeps(3) [OF that] in \<open>simp only: list_all_sort_key\<close>)
    ultimately show ?thesis by blast
  next
    case 3
    with t s show ?thesis by simp
  qed
qed

end
