(* ===== verification/ExprSoundDiv.thy ===== *)
theory ExprSoundDiv
  imports ExprSoundMul
begin

text \<open>
  The passes on floor divisions and the ring of floor divisions keep the value of a tame tree, and
  with them the whole pipeline.
\<close>

section \<open>Splitting sums\<close>

lemma split_symbolic_sound:
  "tame env n \<Longrightarrow> sem env n = Some v \<Longrightarrow> split_symbolic_and_offset n = Inr (sy, off) \<Longrightarrow>
     tame env sy \<and> sem env sy = Some (v - off)"
proof (induction n arbitrary: v sy off)
  case (BinOp l op r)
  show ?case
  proof (cases "op = Add \<or> op = Sub")
    case False
    with BinOp.prems show ?thesis by auto
  next
    case True
    with BinOp.prems obtain a b ls lo rs ro where ab: "sem env l = Some a" "sem env r = Some b"
      and v: "v = (if op = Add then a + b else a - b)"
      and sp: "split_symbolic_and_offset l = Inr (ls, lo)" "split_symbolic_and_offset r = Inr (rs, ro)"
      and off: "off = (if op = Add then lo + ro else lo - ro)"
      and sy: "sy = (if is_constant_zero ls then (if op = Add then rs else UnaryOp USub rs)
                 else if is_constant_zero rs then ls else BinOp ls op rs)"
      by (cases op) auto
    have "tame env ls \<and> sem env ls = Some (a - lo)" "tame env rs \<and> sem env rs = Some (b - ro)"
      using BinOp.IH(1) [OF _ ab(1) sp(1)] BinOp.IH(2) [OF _ ab(2) sp(2)] BinOp.prems(1) by auto
    then show ?thesis using True v off by (auto simp: sy is_constant_zero_def)
  qed
next
  case (UnaryOp u x)
  then obtain a os oo where a: "sem env x = Some a" "v = (if u = USub then - a else a)"
    and sp: "split_symbolic_and_offset x = Inr (os, oo)"
    and off: "off = (if u = USub then - oo else oo)"
    and sy: "sy = (if u = USub \<and> \<not> is_constant_zero os then UnaryOp USub os else os)"
    by (cases u) (auto split: if_splits)
  from UnaryOp.IH [OF _ a(1) sp] UnaryOp.prems(1) have "tame env os \<and> sem env os = Some (a - oo)" by simp
  then show ?case using a(2) off by (auto simp: sy is_constant_zero_def)
qed auto

lemma smod_0_times: "(d::int) \<noteq> 0 \<Longrightarrow> c smod d = 0 \<Longrightarrow> c = c sdiv d * d"
  by (simp add: smod_eq_0_iff dvd_sdiv)

lemma try_exact_divide_sound:
  "try_exact_divide n d = Some q \<Longrightarrow> 0 < d \<Longrightarrow> tame env n \<Longrightarrow> sem env n = Some v \<Longrightarrow>
     \<exists>w. tame env q \<and> sem env q = Some w \<and> v = w * d \<and> (divfree n \<longrightarrow> divfree q)"
proof (induction n arbitrary: q v)
  case (Constant c)
  then show ?case using smod_0_times [of d c] by (auto split: if_splits)
next
  case (BinOp l op r)
  from BinOp.prems(4) obtain a b where ab: "sem env l = Some a" "sem env r = Some b"
    and v: "sem_binop op a b = Some v" by auto
  have t: "tame env l" "tame env r" using BinOp.prems(3) by auto
  show ?case
  proof (cases "d = 1")
    case True
    with BinOp.prems show ?thesis by auto
  next
    case d: False
    show ?thesis
    proof (cases "op = Add \<or> op = Sub")
      case True
      with BinOp.prems(1) d obtain l' r' where q: "try_exact_divide l d = Some l'" "try_exact_divide r d = Some r'"
        "q = BinOp l' op r'" by (auto split: option.splits)
      from BinOp.IH(1) [OF q(1) BinOp.prems(2) t(1) ab(1)] BinOp.IH(2) [OF q(2) BinOp.prems(2) t(2) ab(2)]
      show ?thesis using True v q(3) by (auto simp: distrib_right left_diff_distrib)
    next
      case False
      with BinOp.prems(1) d have op: "op = Mult" by (simp split: if_splits)
      have df: "divfree l" "divfree r" using BinOp.prems(3) op by auto
      consider (cl) "is_const l" "const_value l smod d = 0"
          "q = (if const_value l sdiv d = 1 then r else BinOp (Constant (const_value l sdiv d)) Mult r)"
        | (cr) "is_const r" "const_value r smod d = 0"
          "q = (if const_value r sdiv d = 1 then l else BinOp l Mult (Constant (const_value r sdiv d)))"
        | (l) l' where "try_exact_divide l d = Some l'" "q = BinOp l' Mult r"
        | (r) r' where "try_exact_divide r d = Some r'" "q = BinOp l Mult r'"
        using BinOp.prems(1) d op by (auto simp: Let_def split: if_splits option.splits)
      then show ?thesis
      proof cases
        case cl
        then have "const_value l = a" using val_const [of l env] ab(1) by (simp add: val_def)
        moreover obtain w where w: "const_value l sdiv d = w" by blast
        ultimately have "a = w * d" using smod_0_times [of d a] cl(2) BinOp.prems(2) by simp
        with cl(3) op v ab t df show ?thesis by (auto simp: w mult.commute mult.left_commute)
      next
        case cr
        then have "const_value r = b" using val_const [of r env] ab(2) by (simp add: val_def)
        moreover obtain w where w: "const_value r sdiv d = w" by blast
        ultimately have "b = w * d" using smod_0_times [of d b] cr(2) BinOp.prems(2) by simp
        with cr(3) op v ab t df show ?thesis by (auto simp: w mult.commute mult.left_commute)
      next
        case l
        from BinOp.IH(1) [OF l(1) BinOp.prems(2) t(1) ab(1)] l(2) op v ab t df show ?thesis
          by (auto simp: mult.commute mult.left_commute)
      next
        case r
        from BinOp.IH(2) [OF r(1) BinOp.prems(2) t(2) ab(2)] r(2) op v ab t df show ?thesis
          by (auto simp: mult.commute mult.left_commute)
      qed
    qed
  qed
next
  case (UnaryOp u x)
  show ?case
  proof (cases "d = 1")
    case True
    with UnaryOp.prems show ?thesis by auto
  next
    case False
    with UnaryOp.prems(1) obtain x' where x: "try_exact_divide x d = Some x'" "q = UnaryOp u x'"
      by (auto split: option.splits)
    from UnaryOp.prems(4) obtain a where a: "sem env x = Some a" "v = (if u = USub then - a else a)" by auto
    from UnaryOp.IH [OF x(1) UnaryOp.prems(2) _ a(1)] UnaryOp.prems(3) x(2) a(2)
    show ?thesis by auto
  qed
qed (auto split: if_splits)

lemma try_split_sound:
  "try_split_for_division n d = Inr (Some (q, res)) \<Longrightarrow> 0 < d \<Longrightarrow> tame env n \<Longrightarrow> sem env n = Some v \<Longrightarrow>
     \<exists>w. tame env q \<and> sem env q = Some w \<and> v = w * d + res"
proof (induction n arbitrary: q res v)
  case (Constant c)
  then show ?case
    using try_exact_divide_sound [of "Constant c" d q env v] by (auto split: option.splits)
next
  case (BinOp l op r)
  show ?case
  proof (cases "try_exact_divide (BinOp l op r) d")
    case (Some q')
    with BinOp.prems(1) have "q = q'" "res = 0" by auto
    with try_exact_divide_sound [OF Some BinOp.prems(2-4)] show ?thesis by auto
  next
    case None
    with BinOp.prems(1) obtain lq lr rq rr where s: "op = Add \<or> op = Sub"
      "try_split_for_division l d = Inr (Some (lq, lr))" "try_split_for_division r d = Inr (Some (rq, rr))"
      "q = BinOp lq op rq" "res = (if op = Add then lr + rr else lr - rr)"
      by (auto split: if_splits option.splits)
    from BinOp.prems(4) obtain a b where ab: "sem env l = Some a" "sem env r = Some b"
      and v: "sem_binop op a b = Some v" by auto
    from BinOp.IH(1) [OF s(2) BinOp.prems(2) _ ab(1)] BinOp.IH(2) [OF s(3) BinOp.prems(2) _ ab(2)]
      BinOp.prems(3) s(1,4,5) v
    show ?thesis by (auto simp: distrib_right left_diff_distrib)
  qed
next
  case (UnaryOp u x)
  from UnaryOp.prems(4) obtain a where a: "sem env x = Some a" "v = (if u = USub then - a else a)" by auto
  show ?case
  proof (cases "try_exact_divide (UnaryOp u x) d")
    case (Some q')
    with UnaryOp.prems(1) have "q = q'" "res = 0" by auto
    with try_exact_divide_sound [OF Some UnaryOp.prems(2-4)] show ?thesis by auto
  next
    case None
    with UnaryOp.prems(1) obtain q' r' where s: "try_split_for_division x d = Inr (Some (q', r'))"
      "q = (if u = USub then UnaryOp USub q' else q')" "res = (if u = USub then - r' else r')"
      by (cases u) (auto split: option.splits)
    from UnaryOp.IH [OF s(1) UnaryOp.prems(2) _ a(1)] UnaryOp.prems(3) s(2,3) a(2)
    show ?thesis by (cases u) auto
  qed
qed (auto split: if_splits)

section \<open>The rules on floor divisions\<close>

lemma div_shift: "(d::int) \<noteq> 0 \<Longrightarrow> (w * d + c) div d = w + c div d"
  by (simp add: mult.commute)

text \<open>What a floor division by a constant becomes.\<close>

lemma floor_div_keeps:
  assumes "tame env (BinOp l FloorDiv (Constant d))" and "tame env n'" and "sem env n' = Some v"
  shows "keeps_val env v (BinOp l FloorDiv (Constant d)) n'"
  using assms by simp

lemma distribute_rest_sound:
  assumes t: "tame env l" and a: "sem env l = Some a" and d: "0 < d"
    and m: "distribute_rest l FloorDiv (Constant d) d = Inr n'"
  shows "tame env n' \<and> sem env n' = Some (a div d)"
proof (cases "try_exact_divide l d")
  case (Some q)
  from try_exact_divide_sound [OF Some d t a] d Some m show ?thesis
    by (auto simp: distribute_rest_def)
next
  case None
  from m None obtain s where s: "try_split_for_division l d = Inr s"
    by (auto simp: distribute_rest_def)
  show ?thesis
  proof (cases s)
    case None
    with m \<open>try_exact_divide l d = None\<close> s t a d show ?thesis by (auto simp: distribute_rest_def)
  next
    case (Some p)
    obtain q res where p: "p = (q, res)" by (cases p)
    from try_split_sound [of l d q res env a] s Some p d t a
    obtain w where w: "tame env q" "sem env q = Some w" "a = w * d + res" by auto
    from m None s Some p have "n' = (if res div d = 0 then q else BinOp q Add (Constant (res div d)))"
      by (auto simp: distribute_rest_def)
    with w d show ?thesis by (auto simp: div_shift)
  qed
qed

lemma distribute_binop_sound: "sound_binop env distribute_binop"
proof (rule sound_binopI)
  fix l op r n' v
  assume t: "tame env (BinOp l op r)" and s: "sem env (BinOp l op r) = Some v" and m: "distribute_binop l op r = Inr n'"
  show "keeps_val env v (BinOp l op r) n'"
  proof (cases "n' = BinOp l op r")
    case True
    with t s show ?thesis by simp
  next
    case False
    with m t have op: "op = FloorDiv" and "is_const r" by (auto simp: distribute_binop_def split: if_splits)
    then obtain d where r: "r = Constant d" using is_const_iff by metis
    have d: "0 < d" using t by (simp add: op r)
    from s obtain a where a: "sem env l = Some a" "v = a div d" by (auto simp: op r)
    have tl: "tame env l" using t by simp
    have nostep: "\<not> has_single_step_floordiv_offset l d"
      using m False d by (auto simp: distribute_binop_def op r is_const_def const_value_def)
    obtain sy off where sp: "split_symbolic_and_offset l = Inr (sy, off)"
      using m d nostep by (auto simp: distribute_binop_def op r is_const_def const_value_def)
    have cs: "(if off \<noteq> 0 \<and> off smod d = 0 then
               (let offset_quotient = off sdiv d
                in if is_constant_zero sy then Inr (Constant offset_quotient)
                   else
                     let base = BinOp sy FloorDiv (Constant d)
                     in Inr (if offset_quotient = 0 then base
                             else BinOp base Add (Constant offset_quotient)))
             else distribute_rest l FloorDiv (Constant d) d) = Inr n'"
      using m d nostep sp by (simp add: distribute_binop_def op r is_const_def const_value_def)
    from split_symbolic_sound [OF tl a(1) sp] have sy: "tame env sy" "sem env sy = Some (a - off)" by auto
    have "tame env n' \<and> sem env n' = Some v"
    proof (cases "off \<noteq> 0 \<and> off smod d = 0")
      case True
      then have dvd: "d dvd off" using d by (simp add: smod_eq_0_iff)
      then have q: "off sdiv d = off div d" using d by (simp add: dvd_sdiv)
      have v: "v = (a - off) div d + off div d"
        using a(2) dvd div_plus_div_distrib_dvd_right [OF dvd, of "a - off"] by simp
      show ?thesis
      proof (cases "is_constant_zero sy")
        case z: True
        with sy(2) have "a = off" by (simp add: is_constant_zero_def)
        with cs True z v show ?thesis by (auto simp: q)
      next
        case z: False
        with cs True have "n' = (if off div d = 0 then BinOp sy FloorDiv (Constant d)
            else BinOp (BinOp sy FloorDiv (Constant d)) Add (Constant (off div d)))"
          by (simp add: q Let_def)
        with sy d v show ?thesis by auto
      qed
    next
      case False
      with cs have "distribute_rest l FloorDiv (Constant d) d = Inr n'" by (simp only: if_False)
      from distribute_rest_sound [OF tl a(1) d this] a(2) show ?thesis by simp
    qed
    with t show ?thesis unfolding op r by (intro floor_div_keeps) auto
  qed
qed

lemma fold_add_numerator_sound:
  assumes "fold_add_numerator sy c = Inr m" and "tame env sy" and "sem env sy = Some w"
  shows "tame env m \<and> sem env m = Some (w + c)"
  using assms by (auto simp: fold_add_numerator_def is_constant_zero_def split: if_splits)

lemma fold_add_binop_sound: "sound_binop env fold_add_binop"
proof (rule sound_binopI)
  fix l op r n' v
  assume t: "tame env (BinOp l op r)" and s: "sem env (BinOp l op r) = Some v" and m: "fold_add_binop l op r = Inr n'"
  show "keeps_val env v (BinOp l op r) n'"
  proof (cases "n' = BinOp l op r")
    case True
    with t s show ?thesis by simp
  next
    case False
    with m obtain num d outer where p: "fold_add_parts l op r = Some (BinOp num FloorDiv (Constant d), outer)"
      and op: "op = Add \<or> op = Sub"
      by (auto simp: fold_add_binop_def split: if_splits option.splits node.splits BinOpKind.splits)
    then have fd: "tame env (BinOp num FloorDiv (Constant d)) \<and>
        (\<exists>q. sem env (BinOp num FloorDiv (Constant d)) = Some q \<and> v = q + outer)"
      and nd: "\<not> divfree (BinOp l op r)"
      using t s is_const_iff [of l] is_const_iff [of r]
      by (auto simp: fold_add_parts_def const_value_def is_const_def split: if_splits node.splits)
    then obtain a where a: "sem env num = Some a" and v: "v = a div d + outer" and tn: "tame env num" and d: "0 < d"
      by auto
    from m False p op d obtain sy inner where sp: "split_symbolic_and_offset num = Inr (sy, inner)"
      by (auto simp: fold_add_binop_def)
    from split_symbolic_sound [OF tn a sp] have sy: "tame env sy" "sem env sy = Some (a - inner)" by auto
    from m False p op d sp obtain numerator where
      f: "fold_add_numerator sy (inner + outer * d) = Inr numerator"
      and n': "n' = BinOp numerator FloorDiv (Constant d)"
      by (auto simp: fold_add_binop_def checked_add_i64_def checked_mul_i64_eq split: if_splits option.splits)
    from fold_add_numerator_sound [OF f sy] have "tame env numerator" "sem env numerator = Some (a + outer * d)" by auto
    then have "tame env n'" "sem env n' = Some v" using d v by (auto simp: n' add.commute div_shift)
    moreover have "\<not> posexp env (BinOp l op r)" using nd posexp_divfree by blast
    ultimately show ?thesis using nd by blast
  qed
qed

end
