(* ===== verification/ExprSoundRing.thy ===== *)
theory ExprSoundRing
  imports ExprSoundDiv
begin

text \<open>
  The ring pass keeps the value of a sum, by \<open>sum_{j<n} (z + j) div n = z\<close>; with it, the pipeline keeps
  the value of a tame tree.
\<close>

section \<open>Splitting off the constant\<close>

definition signed_val :: "(string \<Rightarrow> int option) \<Rightarrow> (node \<times> int) list \<Rightarrow> int" where
  "signed_val env ts = sum_list (map (\<lambda>(x, sign). sign * val env x) ts)"

definition good_terms :: "(string \<Rightarrow> int option) \<Rightarrow> (node \<times> int) list \<Rightarrow> bool" where
  "good_terms env ts \<longleftrightarrow> (\<forall>(x, sign) \<in> set ts. tame env x \<and> sem env x \<noteq> None \<and> (sign = 1 \<or> sign = - 1))"

lemma good_terms_simps [simp]:
  "good_terms env []"
  "good_terms env ((x, sign) # ts) \<longleftrightarrow>
     tame env x \<and> sem env x \<noteq> None \<and> (sign = 1 \<or> sign = - 1) \<and> good_terms env ts"
  "good_terms env (ts @ us) \<longleftrightarrow> good_terms env ts \<and> good_terms env us"
  by (auto simp: good_terms_def)

lemma signed_val_simps [simp]:
  "signed_val env [] = 0"
  "signed_val env ((x, sign) # ts) = sign * val env x + signed_val env ts"
  "signed_val env (ts @ us) = signed_val env ts + signed_val env us"
  by (simp_all add: signed_val_def)

lemma offset_walk_sound:
  "offset_walk n sign (ts, off) = Inr (ts', off') \<Longrightarrow> sign = 1 \<or> sign = - 1 \<Longrightarrow> tame env n \<Longrightarrow>
     sem env n = Some v \<Longrightarrow> good_terms env ts \<Longrightarrow>
     good_terms env ts' \<and> signed_val env ts' + off' = signed_val env ts + off + sign * v"
proof (induction n arbitrary: sign ts off ts' off' v)
  case (Constant c)
  then show ?case by auto
next
  case (Name x)
  then show ?case by (auto simp: val_def)
next
  case (BinOp l op r)
  show ?case
  proof (cases "op = Add \<or> op = Sub")
    case False
    with BinOp.prems val_eq [OF BinOp.prems(4)] show ?thesis by auto
  next
    case True
    let ?s = "if op = Add then sign else - sign"
    from True BinOp.prems(1) obtain tm om where w: "offset_walk l sign (ts, off) = Inr (tm, om)"
      "offset_walk r ?s (tm, om) = Inr (ts', off')" by (cases op) auto
    from BinOp.prems(4) obtain a b where ab: "sem env l = Some a" "sem env r = Some b"
      and v: "sem_binop op a b = Some v" by auto
    have t: "tame env l" "tame env r" using BinOp.prems(3) by auto
    from BinOp.IH(1) [OF w(1) BinOp.prems(2) t(1) ab(1) BinOp.prems(5)]
    have 1: "good_terms env tm" "signed_val env tm + om = signed_val env ts + off + sign * a" by auto
    have "?s = 1 \<or> ?s = - 1" using BinOp.prems(2) by auto
    from BinOp.IH(2) [OF w(2) this t(2) ab(2) 1(1)]
    have 2: "good_terms env ts'" "signed_val env ts' + off' = signed_val env tm + om + ?s * b" by auto
    from 1 2 True v show ?thesis by (auto simp: distrib_left right_diff_distrib)
  qed
next
  case (UnaryOp u x)
  let ?s = "if u = UAdd then sign else - sign"
  from UnaryOp.prems(4) obtain a where a: "sem env x = Some a" "v = (if u = USub then - a else a)" by auto
  have w: "offset_walk x ?s (ts, off) = Inr (ts', off')" using UnaryOp.prems(1) by simp
  have "?s = 1 \<or> ?s = - 1" "tame env x" using UnaryOp.prems(2,3) by auto
  from UnaryOp.IH [OF w this a(1) UnaryOp.prems(5)] a(2) show ?case by (cases u) auto
next
  case (Call f args)
  with val_eq [OF Call.prems(4)] show ?case by auto
qed

lemma signed_chain_sound:
  "sem env acc = Some a \<Longrightarrow> tame env acc \<Longrightarrow> good_terms env ts \<Longrightarrow>
     tame env (signed_chain acc ts) \<and> sem env (signed_chain acc ts) = Some (a + signed_val env ts)"
proof (induction ts arbitrary: acc a)
  case (Cons p ts)
  obtain x sign where p: "p = (x, sign)" by (cases p)
  from Cons.prems(3) have x: "tame env x" "sem env x = Some (val env x)" "sign = 1 \<or> sign = - 1" "good_terms env ts"
    by (auto simp: p val_def)
  let ?acc = "BinOp acc (if sign \<ge> 0 then Add else Sub) x"
  have "sem env ?acc = Some (a + sign * val env x)" "tame env ?acc" using Cons.prems x by auto
  from Cons.IH [OF this x(4)] show ?case by (simp add: p)
qed simp

lemma signed_sum_sound:
  "good_terms env ts \<Longrightarrow> tame env (signed_sum ts) \<and> sem env (signed_sum ts) = Some (signed_val env ts)"
proof (cases ts)
  case (Cons p us)
  assume g: "good_terms env ts"
  obtain x sign where p: "p = (x, sign)" by (cases p)
  let ?acc = "if sign \<ge> 0 then x else UnaryOp USub x"
  have "sem env ?acc = Some (sign * val env x)" "tame env ?acc" "good_terms env us"
    using g by (auto simp: Cons p val_def)
  from signed_chain_sound [OF this] show ?thesis by (simp add: Cons p signed_sum_def)
qed (simp add: signed_sum_def)

lemma split_const_offset_sound:
  assumes "split_const_offset n = Inr (sy, off)" and "tame env n" and "sem env n = Some v"
  shows "tame env sy" and "sem env sy = Some (v - off)"
proof -
  from assms(1) obtain ts where w: "offset_walk n 1 ([], 0) = Inr (ts, off)"
    and sy: "sy = signed_sum (sort_key (\<lambda>t. unparse (fst t)) ts)"
    by (auto simp: split_const_offset_def)
  from offset_walk_sound [OF w _ assms(2,3)] have ts: "good_terms env ts" "signed_val env ts = v - off" by auto
  have "good_terms env (sort_key (\<lambda>t. unparse (fst t)) ts)" using ts(1) by (simp add: good_terms_def)
  moreover have "signed_val env (sort_key (\<lambda>t. unparse (fst t)) ts) = signed_val env ts"
    unfolding signed_val_def by (rule sort_key_sum)
  ultimately show "tame env sy" "sem env sy = Some (v - off)"
    using signed_sum_sound ts(2) by (auto simp: sy)
qed

section \<open>The ring\<close>

lemma ring_identity:
  assumes "0 < n"
  shows "(\<Sum>j<n. (z + int j) div int n) = z"
proof -
  let ?S = "\<lambda>z. \<Sum>j<n. (z + int j) div int n"
  obtain m where m: "n = Suc m" using assms by (cases n) auto
  have s1: "(\<Sum>j<Suc n. (z + int j) div int n) = ?S z + (z + int n) div int n" for z by simp
  have s2: "(\<Sum>j<Suc n. (z + int j) div int n) = z div int n + ?S (z + 1)" for z
    by (subst sum.lessThan_Suc_shift) (simp add: ac_simps)
  have s3: "(z + int n) div int n = z div int n + 1" for z
    using assms by (intro div_add_self2) simp
  have step: "?S (z + 1) = ?S z + 1" for z
    using s1 [of z] s2 [of z] s3 [of z] by linarith
  have zero: "?S 0 = 0" by simp
  show ?thesis
  proof (induction z rule: int_induct [where k = 0])
    case base
    show ?case by (rule zero)
  next
    case (step1 i)
    with step [of i] show ?case by simp
  next
    case (step2 i)
    with step [of "i - 1"] show ?case by simp
  qed
qed

lemma sum_nths:
  "sum_list (map f (nths xs A)) = (\<Sum>i \<in> {i. i < length xs \<and> i \<in> A}. f (xs ! i))" for f :: "'a \<Rightarrow> int"
proof (induction xs rule: rev_induct)
  case (snoc x xs)
  have "{i. i < length (xs @ [x]) \<and> i \<in> A} =
      {i. i < length xs \<and> i \<in> A} \<union> (if length xs \<in> A then {length xs} else {})"
    by (auto simp: less_Suc_eq)
  moreover have "(\<Sum>i \<in> {i. i < length xs \<and> i \<in> A}. f ((xs @ [x]) ! i)) =
      (\<Sum>i \<in> {i. i < length xs \<and> i \<in> A}. f (xs ! i))"
    by (intro sum.cong) (auto simp: nth_append)
  ultimately show ?case by (auto simp: nths_append snoc nths_Cons)
qed simp

text \<open>Erasing positions takes their values out of the sum.\<close>

lemma sum_erase:
  fixes f :: "'a \<Rightarrow> int"
  assumes "distinct js" and "set js \<subseteq> {..<length xs}"
  shows "sum_list (map f (erase_indices js xs)) = sum_list (map f xs) - sum_list (map (\<lambda>i. f (xs ! i)) js)"
proof -
  have "{i. i < length xs \<and> i \<notin> set js} = {..<length xs} - set js" by auto
  then have "sum_list (map f (erase_indices js xs)) = (\<Sum>i \<in> {..<length xs} - set js. f (xs ! i))"
    by (simp add: erase_indices_nths sum_nths)
  also have "\<dots> = (\<Sum>i<length xs. f (xs ! i)) - (\<Sum>i \<in> set js. f (xs ! i))"
    using assms(2) by (intro sum_diff) auto
  also have "(\<Sum>i<length xs. f (xs ! i)) = sum_list (map f xs)"
    by (simp add: sum_list_sum_nth atLeast0LessThan)
  also have "(\<Sum>i \<in> set js. f (xs ! i)) = sum_list (map (\<lambda>i. f (xs ! i)) js)"
    using assms(1) by (simp add: sum_list_distinct_conv_sum_set)
  finally show ?thesis .
qed

lemma erase_subset: "set (erase_indices js xs) \<subseteq> set xs"
  by (simp add: erase_indices_nths set_nths_subset)

text \<open>A list of tame terms with a value each.\<close>

definition term_list :: "(string \<Rightarrow> int option) \<Rightarrow> node list \<Rightarrow> bool" where
  "term_list env ts \<longleftrightarrow> list_all (tame env) ts \<and> defined_in env ts"

text \<open>The value of a term that an entry describes.\<close>

lemma describes_value:
  assumes "describes ts x" and "term_list env ts"
  shows "tame env (symbolic x)" and "sem env (symbolic x) \<noteq> None"
    and "val env (ts ! idx x) = (val env (symbolic x) + offset x) div denom x"
    and "sym_key x = unparse (symbolic x)"
proof -
  from assms(1) obtain num op where i: "idx x < length ts" "denom x > 1"
    and n: "ts ! idx x = BinOp num op (Constant (denom x))" "op = FloorDiv \<or> op = ExactDiv"
    and sp: "split_const_offset num = Inr (symbolic x, offset x)" and k: "sym_key x = unparse (symbolic x)"
    by (auto simp: describes_def)
  have m: "ts ! idx x \<in> set ts" using i(1) by simp
  then have t: "tame env (ts ! idx x)" and "sem env (ts ! idx x) \<noteq> None"
    using assms(2) by (auto simp: term_list_def list_all_iff defined_in_def)
  then obtain v where v: "sem env (ts ! idx x) = Some v" by blast
  have op: "op = FloorDiv" "tame env num" using t n by auto
  with v n obtain a where a: "sem env num = Some a" "v = a div denom x" by auto
  from split_const_offset_sound [OF sp op(2) a(1)] a(2) v
  show "tame env (symbolic x)" "sem env (symbolic x) \<noteq> None"
    "val env (ts ! idx x) = (val env (symbolic x) + offset x) div denom x"
    by (auto simp: val_def)
  show "sym_key x = unparse (symbolic x)" by (rule k)
qed

lemma try_combine_ring_keeps:
  assumes c: "try_combine_ring ts = Inr (Some us)" and ts: "term_list env ts"
  shows "term_list env us \<and> us \<noteq> [] \<and> sum_list (map (val env) us) = sum_list (map (val env) ts)"
proof -
  from c obtain w where us: "us = erase_indices (map idx w) ts @ [ring_replacement w]"
    and w: "w \<noteq> []" "distinct (map idx w)" "\<forall>x \<in> set w. describes ts x"
    and g: "\<forall>x \<in> set w. denom x = int (length w) \<and> sym_key x = sym_key (hd w)"
    and off: "\<forall>j < length w. offset (w ! j) = offset (hd w) + int j"
    by (rule try_combine_ring_sound)
  have h: "describes ts (hd w)" using w by (cases w) auto
  let ?y = "val env (symbolic (hd w))" and ?base = "offset (hd w)"
  have rep: "tame env (ring_replacement w) \<and> sem env (ring_replacement w) = Some (?y + ?base)"
    using describes_value(1,2) [OF h ts] by (auto simp: ring_replacement_def Let_def val_def)
  have each: "val env (ts ! idx (w ! j)) = (?y + ?base + int j) div int (length w)" if j: "j < length w" for j
  proof -
    have x: "w ! j \<in> set w" using j by simp
    with w(3) have d: "describes ts (w ! j)" by blast
    have "unparse (symbolic (w ! j)) = unparse (symbolic (hd w))"
      using describes_value(4) [OF d ts] describes_value(4) [OF h ts] g x by metis
    then have "sem env (symbolic (w ! j)) = sem env (symbolic (hd w))"
      using describes_value(1) [OF d ts] describes_value(1) [OF h ts] by (intro tame_same_text)
    then have "val env (symbolic (w ! j)) = ?y" by (simp add: val_def)
    with describes_value(3) [OF d ts] g x off j show ?thesis by (simp add: add.assoc)
  qed
  have "sum_list (map (\<lambda>i. val env (ts ! i)) (map idx w)) = (\<Sum>j<length w. val env (ts ! idx (w ! j)))"
    by (simp add: sum_list_sum_nth atLeast0LessThan)
  also have "\<dots> = (\<Sum>j<length w. (?y + ?base + int j) div int (length w))"
    by (intro sum.cong) (simp_all add: each)
  also have "\<dots> = ?y + ?base" using w(1) by (intro ring_identity) simp
  finally have gone: "sum_list (map (\<lambda>i. val env (ts ! i)) (map idx w)) = ?y + ?base" .
  have sub: "set (map idx w) \<subseteq> {..<length ts}" using w(3) by (auto simp: describes_def)
  have "sum_list (map (val env) us) = sum_list (map (val env) ts)"
    unfolding us using sum_erase [OF w(2) sub, of "val env"] gone rep by (simp add: val_def)
  moreover have "term_list env us"
    using ts rep erase_subset [of "map idx w" ts]
    by (auto simp: us term_list_def list_all_iff defined_in_def)
  ultimately show ?thesis by (simp add: us)
qed

lemma ring_loop_keeps:
  "ring_loop ts = Inr us \<Longrightarrow> term_list env ts \<Longrightarrow> ts \<noteq> [] \<Longrightarrow>
     term_list env us \<and> us \<noteq> [] \<and> sum_list (map (val env) us) = sum_list (map (val env) ts)"
proof (induction ts rule: ring_loop.induct)
  case (1 ts)
  from 1(2) obtain r where r: "try_combine_ring ts = Inr r"
    and l: "(case r of None \<Rightarrow> Inr ts | Some vs \<Rightarrow> ring_loop vs) = Inr us"
    by (subst (asm) ring_loop.simps) auto
  show ?case
  proof (cases r)
    case None
    with l 1 show ?thesis by simp
  next
    case (Some vs)
    with try_combine_ring_keeps [of ts vs env] r 1(3)
    have k: "term_list env vs" "vs \<noteq> []" "sum_list (map (val env) vs) = sum_list (map (val env) ts)" by auto
    from 1(1) [OF r Some] l Some k show ?thesis by simp
  qed
qed

text \<open>A sum without a division has no group.\<close>

lemma fd_infos_divfree: "list_all divfree ts \<Longrightarrow> fd_infos i ts = Inr []"
proof (induction ts arbitrary: i)
  case (Cons t ts)
  then show ?case by (cases t) (auto split: node.splits)
qed simp

lemma ring_loop_divfree: "list_all divfree ts \<Longrightarrow> ring_loop ts = Inr ts"
  by (subst ring_loop.simps) (simp add: try_combine_ring_def fd_infos_divfree)

lemma ring_binop_sound: "sound_binop env ring_binop"
proof (rule sound_binopI)
  fix l op r n' v
  assume t: "tame env (BinOp l op r)" and s: "sem env (BinOp l op r) = Some v" and m: "ring_binop l op r = Inr n'"
  let ?n = "BinOp l op r"
  let ?ts = "flatten_chain Add ?n"
  show "keeps_val env v ?n n'"
  proof (cases "op = Add")
    case False
    with m t s show ?thesis by (auto simp: ring_binop_def)
  next
    case True
    with m obtain us where us: "ring_loop ?ts = Inr us" "n' = rebuild_chain Add us"
      by (auto simp: ring_binop_def)
    have tl: "term_list env ?ts"
      using flatten_chain_keeps(1) [OF t] flatten_chain_sem(1) [OF s] by (simp add: term_list_def)
    from ring_loop_keeps [OF us(1) tl flatten_chain_nonempty]
    have k: "term_list env us" "us \<noteq> []" "sum_list (map (val env) us) = sum_list (map (val env) ?ts)" by auto
    have "sem env n' = Some v"
      using k flatten_chain_sem(1) [OF s] by (auto simp: us(2) rebuild_add_sem term_list_def)
    moreover have "tame env n'"
      unfolding us(2) by (rule rebuild_add_keeps [OF k(2)]) (use k(1) in \<open>simp add: term_list_def\<close>)
    moreover have "divfree n' \<and> (posexp env ?n \<longrightarrow> posexp env n')" if d: "divfree ?n"
    proof -
      have "us = ?ts" using us(1) ring_loop_divfree [OF flatten_chain_keeps(2) [OF d]] by (metis Inr_inject)
      then show ?thesis
        unfolding us(2)
        using rebuild_add_keeps(2,3) [OF flatten_chain_nonempty] flatten_chain_keeps(2) [OF d]
          flatten_chain_keeps(3) by blast
    qed
    ultimately show ?thesis using posexp_divfree by blast
  qed
qed

section \<open>The pipeline\<close>

definition sound_pass :: "(string \<Rightarrow> int option) \<Rightarrow> (node \<Rightarrow> node res) \<Rightarrow> bool" where
  "sound_pass env f \<longleftrightarrow> (\<forall>n v n'. tame env n \<longrightarrow> sem env n = Some v \<longrightarrow> f n = Inr n' \<longrightarrow> keeps env n n')"

lemma visit_sound_pass: "sound_binop env f \<Longrightarrow> sound_call env g \<Longrightarrow> sound_pass env (visit f g)"
  unfolding sound_pass_def using visit_keeps by blast

lemma pipeline_passes_sound: "\<forall>f \<in> set pipeline_passes. sound_pass env f"
  unfolding pipeline_passes_def CeilToInt_pass_def SimpleSimplify_pass_def MulDivCanceller_pass_def
    ExactMulDivConstantFolder_pass_def NestedFloorDiv_pass_def FloorDivAddRing_pass_def
    DistributeFloorDivOverAdd_pass_def FoldAddIntoFloorDiv_pass_def MaxToXor_pass_def
    ReorderCommutativeOps_pass_def MaxInt_pass_def
  by (simp add: visit_sound_pass sound_keep ceil_call_sound simple_binop_sound muldiv_binop_sound
      fold_binop_sound nested_binop_sound ring_binop_sound distribute_binop_sound fold_add_binop_sound
      max_call_sound reorder_binop_sound maxint_binop_sound)

lemma passes_keep:
  "\<forall>f \<in> set fs. sound_pass env f \<Longrightarrow> tame env n \<Longrightarrow> sem env n = Some v \<Longrightarrow>
     foldR (\<lambda>pass n. pass n) fs n = Inr n' \<Longrightarrow> keeps env n n'"
proof (induction fs arbitrary: n)
  case Nil
  then show ?case by (simp add: keeps_refl)
next
  case (Cons f fs)
  then obtain m where m: "f n = Inr m" "foldR (\<lambda>pass n. pass n) fs m = Inr n'" by auto
  with Cons.prems have k: "keeps env n m" by (simp add: sound_pass_def)
  then have "tame env m" "sem env m = Some v" using Cons.prems(3) by (auto simp: keeps_def)
  with Cons m k show ?case by (auto intro: keeps_trans)
qed

theorem apply_pipeline_keeps:
  "tame env n \<Longrightarrow> sem env n = Some v \<Longrightarrow> apply_pipeline n = Inr n' \<Longrightarrow>
     tame env n' \<and> sem env n' = Some v"
  using passes_keep [of "pipeline_passes @ pipeline_passes" env n v n'] pipeline_passes_sound [of env]
  by (auto simp: apply_pipeline_def keeps_def)

text \<open>C8: The whole rewriting pipeline keeps the value of an expression, and keeps it in the fragment on which its
  passes are exact: names that are identifiers, positive divisors without divisions, no exact division, no
  division inside a product, and \<open>CeilToInt\<close> on non-negative numerators.\<close>

theorem pipeline_keeps_the_value:
  assumes "tame env n" "sem env n = Some v" "apply_pipeline n = Inr n'"
  shows "tame env n' \<and> sem env n' = Some v"
  using assms by (rule apply_pipeline_keeps)

lemma pipeline_keeps_the_value_witness:
  "sem (\<lambda>x. Some 7) (BinOp (Name ''x'') FloorDiv (Constant 6)) = Some 1"
proof -
  have "apply_pipeline (BinOp (BinOp (Name ''x'') FloorDiv (Constant 2)) FloorDiv (Constant 3)) =
      Inr (BinOp (Name ''x'') FloorDiv (Constant 6))" by code_simp
  from pipeline_keeps_the_value [OF _ _ this, of "\<lambda>x. Some 7" 1] show ?thesis
    by (simp add: is_name_def is_ident_char_def char_class)
qed

end
