(* ===== verification/ExprLinear.thy ===== *)
theory ExprLinear
  imports ExprSoundRing
begin

text \<open>
  The linear-combination visitor of \<open>expressions.cc\<close>, the printing of a linear combination, and the
  entry points \<open>simplify_expression\<close>, \<open>simplify_two_expressions\<close> and \<open>compare_expressions\<close>.
\<close>

section \<open>The visitor\<close>

text \<open>\<open>AddVisitorResult\<close>: the coefficients in the order the keys were met, and the constant.\<close>

record AddVisitorResult =
  coeffs :: "(string \<times> int) list"
  const_term :: int

definition empty_result :: AddVisitorResult where
  "empty_result = \<lparr>coeffs = [], const_term = 0\<rparr>"

fun add_to_list :: "(string \<times> int) list \<Rightarrow> string \<Rightarrow> int \<Rightarrow> bool \<Rightarrow> (string \<times> int) list res" where
  "add_to_list [] key delta subtract =
     bindR (if subtract then checked_subtract_i64 0 delta else Inr delta) (\<lambda>v. Inr [(key, v)])"
| "add_to_list ((k, v) # rest) key delta subtract =
     (if k = key then
        bindR (if subtract then checked_subtract_i64 v delta else CheckedDimensionAdd v delta)
          (\<lambda>v'. Inr ((k, v') # rest))
      else bindR (add_to_list rest key delta subtract) (\<lambda>rest'. Inr ((k, v) # rest')))"

definition add_coeff :: "string \<Rightarrow> int \<Rightarrow> bool \<Rightarrow> AddVisitorResult \<Rightarrow> AddVisitorResult res" where
  "add_coeff key delta subtract res =
     bindR (add_to_list (coeffs res) key delta subtract) (\<lambda>cs. Inr (res\<lparr>coeffs := cs\<rparr>))"

text \<open>\<open>res\<close> minus \<open>neg\<close>, and \<open>res\<close> plus a multiple of \<open>part\<close>, coefficient by coefficient.\<close>

definition subtract_result :: "AddVisitorResult \<Rightarrow> AddVisitorResult \<Rightarrow> AddVisitorResult res" where
  "subtract_result neg res =
     bindR (foldR (\<lambda>(k, v). add_coeff k v True) (coeffs neg) res) (\<lambda>res'.
       bindR (checked_subtract_i64 (const_term res') (const_term neg)) (\<lambda>c. Inr (res'\<lparr>const_term := c\<rparr>)))"

definition add_multiple :: "int \<Rightarrow> AddVisitorResult \<Rightarrow> AddVisitorResult \<Rightarrow> AddVisitorResult res" where
  "add_multiple value part res =
     bindR (foldR (\<lambda>(k, v) r. bindR (CheckedDimensionMultiply value v) (\<lambda>w. add_coeff k w False r))
              (coeffs part) res) (\<lambda>res'.
       bindR (CheckedDimensionMultiply (const_term part) value) (\<lambda>p.
         bindR (CheckedDimensionAdd (const_term res') p) (\<lambda>c. Inr (res'\<lparr>const_term := c\<rparr>))))"

text \<open>The factor lists of a product that has a constant among its factors and no denominator.\<close>

definition mixed_factors :: "node \<Rightarrow> node list option" where
  "mixed_factors n =
     (let (num, den) = flatten_mul_div n
      in if den = [] \<and> others_of num \<noteq> num then Some num else None)"

fun nsize :: "node \<Rightarrow> nat" where
  "nsize (BinOp l op r) = nsize l + nsize r + 1"
| "nsize (UnaryOp u x) = nsize x + 1"
| "nsize _ = 1"

definition total_size :: "node list \<Rightarrow> nat" where
  "total_size xs = sum_list (map (\<lambda>x. nsize x + 1) xs)"

lemma total_size_simps [simp]:
  "total_size [] = 0" "total_size (x # xs) = nsize x + 1 + total_size xs"
  "total_size (xs @ ys) = total_size xs + total_size ys"
  by (simp_all add: total_size_def)

lemma flatten_size: "total_size (fst (flatten_mul_div n)) + total_size (snd (flatten_mul_div n)) \<le> nsize n + 1"
  by (induction n) (auto simp: Let_def split: prod.splits)

lemma mul_chain_size: "nsize (mul_chain acc xs) = nsize acc + total_size xs"
  by (induction xs arbitrary: acc) auto

lemma build_product_size: "xs \<noteq> [] \<Longrightarrow> nsize (build_product xs) + 1 = total_size xs"
  by (cases xs) (auto simp: build_product_def mul_chain_size)

lemma others_size: "others_of xs \<noteq> xs \<Longrightarrow> total_size (others_of xs) + 1 < total_size xs"
proof (induction xs)
  case (Cons x xs)
  have "total_size (others_of xs) \<le> total_size xs" by (induction xs) auto
  moreover have "1 \<le> nsize x" by (cases x) auto
  ultimately show ?case using Cons by (cases "is_const x") auto
qed simp

lemma total_size_sort: "total_size (sort_key k xs) = total_size xs"
proof -
  have "mset (map (\<lambda>x. nsize x + 1) (sort_key k xs)) = mset (map (\<lambda>x. nsize x + 1) xs)" by simp
  then show ?thesis unfolding total_size_def by (metis sum_mset_sum_list)
qed

text \<open>The product of the symbolic factors is smaller than the product it came from.\<close>

lemma symbolic_product_size:
  assumes "mixed_factors n = Some num" and "others_of num \<noteq> []"
  shows "nsize (build_product (sort_key unparse (others_of num))) < nsize n"
proof -
  from assms(1) have f: "flatten_mul_div n = (num, [])" and o: "others_of num \<noteq> num"
    by (auto simp: mixed_factors_def Let_def split: prod.splits if_splits)
  have "sort_key unparse (others_of num) \<noteq> []" using assms(2) by (rule sort_key_nonempty)
  from build_product_size [OF this] have "nsize (build_product (sort_key unparse (others_of num))) + 1
      = total_size (others_of num)" by (simp add: total_size_sort)
  moreover have "total_size num \<le> nsize n + 1" using flatten_size [of n] by (simp add: f)
  ultimately show ?thesis using others_size [OF o] by simp
qed

text \<open>\<open>generic_visit\<close>: the whole node is one symbolic variable.\<close>

definition visit_symbol :: "node \<Rightarrow> AddVisitorResult \<Rightarrow> AddVisitorResult res" where
  "visit_symbol n res = add_coeff (unparse n) 1 False res"

function (sequential) run_add_visitor :: "node \<Rightarrow> AddVisitorResult \<Rightarrow> AddVisitorResult res" where
  "run_add_visitor (Constant c) res =
     bindR (CheckedDimensionAdd (const_term res) c) (\<lambda>v. Inr (res\<lparr>const_term := v\<rparr>))"
| "run_add_visitor (Name x) res = add_coeff x 1 False res"
| "run_add_visitor (BinOp l op r) res =
     (if op = Add then bindR (run_add_visitor l res) (run_add_visitor r)
      else if op = Sub then
        bindR (run_add_visitor l res) (\<lambda>res1. bindR (run_add_visitor r empty_result) (\<lambda>neg.
          subtract_result neg res1))
      else if op = Mult \<and> (is_const l \<or> is_const r) then
        (let other = (if is_const l then r else l);
             value = (if is_const l then const_value l else const_value r)
         in bindR (run_add_visitor other empty_result) (\<lambda>part. add_multiple value part res))
      else if op = Mult \<and> mixed_factors (BinOp l op r) \<noteq> None then
        (let num = the (mixed_factors (BinOp l op r))
         in bindR (const_product num) (\<lambda>num_c.
              if others_of num = [] then
                bindR (CheckedDimensionAdd (const_term res) num_c) (\<lambda>v. Inr (res\<lparr>const_term := v\<rparr>))
              else
                bindR (run_add_visitor (build_product (sort_key unparse (others_of num))) empty_result)
                  (\<lambda>part. add_multiple num_c part res)))
      else visit_symbol (BinOp l op r) res)"
| "run_add_visitor (UnaryOp u x) res =
     (if u = USub then
        bindR (run_add_visitor x empty_result) (\<lambda>neg. subtract_result neg res)
      else run_add_visitor x res)"
| "run_add_visitor (Call f args) res = visit_symbol (Call f args) res"
  by pat_completeness auto

termination
proof (relation "measure (\<lambda>(n, res). nsize n)")
  fix l op r res num x xa
  assume a: "\<not> op = Add" "\<not> op = Sub" "op = Mult \<and> mixed_factors (BinOp l op r) \<noteq> None"
    "num = the (mixed_factors (BinOp l op r))" "\<not> others_of num = []"
  then have "mixed_factors (BinOp l op r) = Some num" by auto
  from symbolic_product_size [OF this a(5)]
  show "((build_product (sort_key unparse (others_of num)), empty_result), (BinOp l op r, res))
      \<in> measure (\<lambda>(n, res). nsize n)" by simp
qed auto

section \<open>Printing\<close>

text \<open>\<open>needs_term_parens\<close>: the loop over the characters, with the depth of parentheses.\<close>

fun needs_parens_from :: "bool \<Rightarrow> int \<Rightarrow> string \<Rightarrow> bool" where
  "needs_parens_from multiplicand depth [] = False"
| "needs_parens_from multiplicand depth (c # cs) =
     (if c = CHR ''('' then needs_parens_from multiplicand (depth + 1) cs
      else if c = CHR '')'' then needs_parens_from multiplicand (depth - 1) cs
      else if depth = 0 then
        if c = CHR ''^'' \<or> c = CHR ''&'' then True
        else if \<not> multiplicand then needs_parens_from multiplicand depth cs
        else if c = CHR ''%'' then True
        else if c = CHR ''/'' \<and> cs \<noteq> [] \<and> (hd cs = CHR ''/'' \<or> hd cs = CHR '':'') then True
        else needs_parens_from multiplicand depth cs
      else needs_parens_from multiplicand depth cs)"

definition needs_term_parens :: "string \<Rightarrow> bool \<Rightarrow> bool" where
  "needs_term_parens var multiplicand = needs_parens_from multiplicand 0 var"

text \<open>\<open>SimplifyResult\<close>, and \<open>DimType\<close>: an integer or a text.\<close>

datatype SimplifyResult = IntResult int | TextResult string

definition signed_numeral :: "int \<Rightarrow> string" where
  "signed_numeral c = (if c > 0 then ''+'' else []) @ to_string c"

definition term_text :: "string \<times> int \<Rightarrow> string" where
  "term_text = (\<lambda>(var, coeff).
     let trm = parens (needs_term_parens var (coeff \<noteq> 1 \<and> coeff \<noteq> - 1)) var
     in if coeff = 1 then ''+'' @ trm
        else if coeff = - 1 then ''-'' @ trm
        else signed_numeral coeff @ ''*'' @ trm)"

definition strip_plus :: "string \<Rightarrow> string" where
  "strip_plus s = (case s of [] \<Rightarrow> ''0'' | c # cs \<Rightarrow> if c = CHR ''+'' then cs else s)"

definition make_simplified :: "AddVisitorResult \<Rightarrow> SimplifyResult" where
  "make_simplified res =
     (if coeffs res = [] then IntResult (const_term res)
      else
        let nonzero = filter (\<lambda>(k, c). c \<noteq> 0) (coeffs res)
        in if const_term res = 0 \<and> length nonzero = 1 \<and> snd (hd nonzero) = 1
           then TextResult (fst (hd nonzero))
           else TextResult (strip_plus (concat (map term_text nonzero) @
             (if const_term res \<noteq> 0 then signed_numeral (const_term res) else []))))"

section \<open>Entry points\<close>

definition simplify_result_to_string :: "SimplifyResult \<Rightarrow> string" where
  "simplify_result_to_string r = (case r of IntResult v \<Rightarrow> to_string v | TextResult t \<Rightarrow> t)"

definition simplify_expression :: "string \<Rightarrow> SimplifyResult res" where
  "simplify_expression expr =
     (case try_parse expr of
        None \<Rightarrow> Inr (TextResult expr)
      | Some tree \<Rightarrow> bindR (apply_pipeline tree) (\<lambda>tree'.
          bindR (run_add_visitor tree' empty_result) (\<lambda>res. Inr (make_simplified res))))"

text \<open>\<open>difference_linear_combination\<close>: the combination of \<open>expr1 - (expr2)\<close>, without the pipeline.\<close>

definition difference_text :: "string \<Rightarrow> string \<Rightarrow> string" where
  "difference_text expr1 expr2 = expr1 @ ''-('' @ expr2 @ '')''"

definition difference_linear_combination :: "string \<Rightarrow> string \<Rightarrow> AddVisitorResult res" where
  "difference_linear_combination expr1 expr2 =
     bindR (parse (difference_text expr1 expr2)) (\<lambda>tree. run_add_visitor tree empty_result)"

definition TryDifferenceLinearCombination :: "string \<Rightarrow> string \<Rightarrow> AddVisitorResult option res" where
  "TryDifferenceLinearCombination expr1 expr2 =
     (case try_parse (difference_text expr1 expr2) of
        None \<Rightarrow> Inr None
      | Some tree \<Rightarrow>
          (case run_add_visitor tree empty_result of
             Inr out \<Rightarrow> Inr (Some out)
           | Inl InvalidArgument \<Rightarrow> Inr None
           | Inl e \<Rightarrow> Inl e))"

text \<open>A \<open>std::map\<close> of the non-zero coefficients.\<close>

definition nonzero_map :: "AddVisitorResult \<Rightarrow> string \<Rightarrow> int option" where
  "nonzero_map res = map_of (filter (\<lambda>(k, c). c \<noteq> 0) (coeffs res))"

definition simplify_two_expressions :: "string \<Rightarrow> string \<Rightarrow> (string \<Rightarrow> int option) res" where
  "simplify_two_expressions expr1 expr2 =
     bindR (difference_linear_combination expr1 expr2) (\<lambda>res. Inr (nonzero_map res))"

definition try_simplify_two_expressions :: "string \<Rightarrow> string \<Rightarrow> (string \<Rightarrow> int option) option res" where
  "try_simplify_two_expressions expr1 expr2 =
     bindR (TryDifferenceLinearCombination expr1 expr2) (\<lambda>r. Inr (map_option nonzero_map r))"

datatype CompareResult = Smaller | Equal | Greater | Unknown

definition compare_result :: "AddVisitorResult \<Rightarrow> CompareResult" where
  "compare_result res =
     (let any_positive = (\<exists>(k, v) \<in> set (coeffs res). v > 0);
          any_negative = (\<exists>(k, v) \<in> set (coeffs res). v < 0);
          c = const_term res
      in if \<not> any_positive \<and> \<not> any_negative then
           (if c > 0 then Greater else if c < 0 then Smaller else Equal)
         else if \<not> any_negative \<and> c > 0 then Greater
         else if \<not> any_positive \<and> c < 0 then Smaller
         else Unknown)"

definition compare_expressions :: "string \<Rightarrow> string \<Rightarrow> (CompareResult \<times> SimplifyResult) res" where
  "compare_expressions expr1 expr2 =
     bindR (difference_linear_combination expr1 expr2) (\<lambda>res.
       bindR (simplify_expression (''('' @ expr2 @ '')-('' @ expr1 @ '')'')) (\<lambda>difference.
         Inr (compare_result res, difference)))"

text \<open>The tokens of an expression; an unparsable text is a token itself.\<close>

fun collect_tokens :: "node \<Rightarrow> string set" where
  "collect_tokens (Constant c) = {}"
| "collect_tokens (Name x) = {x}"
| "collect_tokens (BinOp l op r) = collect_tokens l \<union> collect_tokens r"
| "collect_tokens (UnaryOp u x) = collect_tokens x"
| "collect_tokens (Call f args) = (\<Union>a \<in> set args. collect_tokens a)"

definition parse_expression_tokens :: "string \<Rightarrow> string set" where
  "parse_expression_tokens expr =
     (case try_parse expr of None \<Rightarrow> {expr} | Some tree \<Rightarrow> collect_tokens tree)"

end
