(* ===== verification/ExprLinearSound.thy ===== *)
theory ExprLinearSound
  imports ExprLinear
begin

text \<open>
  The linear combination the visitor collects has the value of the tree, the text printed from it
  denotes that value, and with the pipeline's lemma \<open>simplify_expression\<close> keeps the value of a tame
  expression.
\<close>

section \<open>The value of a combination\<close>

definition lin_val :: "(string \<Rightarrow> int option) \<Rightarrow> AddVisitorResult \<Rightarrow> int" where
  "lin_val env res = const_term res + sum_list (map (\<lambda>(k, c). c * text_val env k) (coeffs res))"

text \<open>
  A key is the text of a tame tree that is not a sum; under the flag \<open>d\<close> it has no division.
\<close>

definition good_key :: "(string \<Rightarrow> int option) \<Rightarrow> bool \<Rightarrow> string \<Rightarrow> bool" where
  "good_key env d k \<longleftrightarrow> (\<exists>m. k = unparse m \<and> tame env m \<and> sem env m \<noteq> None \<and> node_prec m \<noteq> 3 \<and>
     \<not> is_const m \<and> (\<forall>u x. m \<noteq> UnaryOp u x) \<and> (d \<longrightarrow> divfree m))"

definition good_result :: "(string \<Rightarrow> int option) \<Rightarrow> bool \<Rightarrow> AddVisitorResult \<Rightarrow> bool" where
  "good_result env d res \<longleftrightarrow> (\<forall>(k, c) \<in> set (coeffs res). good_key env d k)"

text \<open>One step of the visitor: what it adds to the value, and that the keys stay good.\<close>

definition adds :: "(string \<Rightarrow> int option) \<Rightarrow> bool \<Rightarrow> int \<Rightarrow> AddVisitorResult \<Rightarrow> AddVisitorResult \<Rightarrow> bool" where
  "adds env d v res res' \<longleftrightarrow> (good_result env d res \<longrightarrow> good_result env d res') \<and>
     lin_val env res' = lin_val env res + v"

lemma adds_trans: "adds env d a r s \<Longrightarrow> adds env d b s t \<Longrightarrow> adds env d (a + b) r t"
  by (auto simp: adds_def)

lemma adds_refl: "adds env d 0 r r"
  by (simp add: adds_def)

lemma good_empty [simp]: "good_result env d empty_result" "lin_val env empty_result = 0"
  by (simp_all add: good_result_def empty_result_def lin_val_def)

lemma add_to_list_sound:
  "add_to_list cs key delta sub = Inr cs' \<Longrightarrow>
     set (map fst cs') \<subseteq> insert key (set (map fst cs)) \<and>
     sum_list (map (\<lambda>(k, c). c * text_val env k) cs') =
       sum_list (map (\<lambda>(k, c). c * text_val env k) cs) + (if sub then - delta else delta) * text_val env key"
proof (induction cs arbitrary: cs')
  case (Cons p cs)
  obtain k v where p: "p = (k, v)" by (cases p)
  show ?case
  proof (cases "k = key")
    case True
    with Cons.prems show ?thesis by (auto simp: p distrib_right left_diff_distrib split: if_splits)
  next
    case False
    with Cons.prems obtain rest where r: "add_to_list cs key delta sub = Inr rest" "cs' = (k, v) # rest"
      by (auto simp: p)
    from Cons.IH [OF r(1)] show ?thesis by (auto simp: p r(2))
  qed
qed (auto split: if_splits)

lemma add_coeff_adds:
  assumes "add_coeff key delta sub res = Inr res'" and "good_result env d res \<Longrightarrow> good_key env d key"
  shows "adds env d ((if sub then - delta else delta) * text_val env key) res res'"
proof -
  from assms(1) obtain cs where cs: "add_to_list (coeffs res) key delta sub = Inr cs" "res' = res\<lparr>coeffs := cs\<rparr>"
    by (auto simp: add_coeff_def)
  from add_to_list_sound [OF cs(1), of env] have s: "set (map fst cs) \<subseteq> insert key (set (map fst (coeffs res)))"
    "sum_list (map (\<lambda>(k, c). c * text_val env k) cs) =
       sum_list (map (\<lambda>(k, c). c * text_val env k) (coeffs res)) + (if sub then - delta else delta) * text_val env key"
    by auto
  have "good_result env d res'" if g: "good_result env d res"
  proof -
    have "good_key env d k" if "(k, c) \<in> set cs" for k c
    proof -
      have "k \<in> insert key (set (map fst (coeffs res)))" using s(1) that by force
      then show ?thesis using g assms(2) by (auto simp: good_result_def)
    qed
    then show ?thesis by (auto simp: good_result_def cs(2))
  qed
  with s(2) show ?thesis by (simp add: adds_def lin_val_def cs(2))
qed

lemma foldR_adds:
  assumes "foldR f xs res = Inr res'"
    and "\<And>x r r'. x \<in> set xs \<Longrightarrow> f x r = Inr r' \<Longrightarrow> adds env d (g x) r r'"
  shows "adds env d (sum_list (map g xs)) res res'"
  using assms
proof (induction xs arbitrary: res)
  case (Cons x xs)
  then obtain r where r: "f x res = Inr r" "foldR f xs r = Inr res'" by auto
  have "adds env d (g x) res r" using Cons.prems(2) r(1) by simp
  moreover have "adds env d (sum_list (map g xs)) r res'" using Cons r(2) by simp
  ultimately show ?case by (auto intro: adds_trans)
qed (simp add: adds_refl)

lemma const_term_adds: "adds env d (c - const_term res) res (res\<lparr>const_term := c\<rparr>)"
  by (simp add: adds_def good_result_def lin_val_def)

lemma subtract_result_adds:
  assumes "subtract_result neg res = Inr res'" and g: "good_result env d neg"
  shows "adds env d (- lin_val env neg) res res'"
proof -
  from assms(1) obtain r where f: "foldR (\<lambda>(k, v). add_coeff k v True) (coeffs neg) res = Inr r"
    and r: "res' = r\<lparr>const_term := const_term r - const_term neg\<rparr>"
    by (auto simp: subtract_result_def)
  have "adds env d (sum_list (map (\<lambda>(k, v). - v * text_val env k) (coeffs neg))) res r"
    using f
  proof (rule foldR_adds)
    fix x s s'
    assume x: "x \<in> set (coeffs neg)" and a: "(case x of (k, v) \<Rightarrow> add_coeff k v True) s = Inr s'"
    obtain k v where kv: "x = (k, v)" by (cases x)
    with x g have "good_key env d k" by (auto simp: good_result_def)
    with add_coeff_adds [of k v True s s' env d] a kv
    show "adds env d (case x of (k, v) \<Rightarrow> - v * text_val env k) s s'" by simp
  qed
  from adds_trans [OF this const_term_adds [of env d "const_term r - const_term neg"]] r
  have "adds env d (sum_list (map (\<lambda>(k, v). - v * text_val env k) (coeffs neg)) +
      (const_term r - const_term neg - const_term r)) res res'" by simp
  moreover have "sum_list (map (\<lambda>(k, v). - v * text_val env k) cs) =
      - sum_list (map (\<lambda>(k, v). v * text_val env k) cs)" for cs
    by (induction cs) auto
  ultimately show ?thesis by (simp add: lin_val_def minus_diff_commute)
qed

lemma add_multiple_adds:
  assumes "add_multiple value part res = Inr res'" and g: "good_result env d part"
  shows "adds env d (value * lin_val env part) res res'"
proof -
  from assms(1) obtain r where
    f: "foldR (\<lambda>(k, v) r. bindR (CheckedDimensionMultiply value v) (\<lambda>w. add_coeff k w False r)) (coeffs part) res = Inr r"
    and r: "res' = r\<lparr>const_term := const_term r + const_term part * value\<rparr>"
    by (auto simp: add_multiple_def)
  have "adds env d (sum_list (map (\<lambda>(k, v). value * v * text_val env k) (coeffs part))) res r"
    using f
  proof (rule foldR_adds)
    fix x s s'
    assume x: "x \<in> set (coeffs part)"
      and a: "(case x of (k, v) \<Rightarrow> \<lambda>r. bindR (CheckedDimensionMultiply value v) (\<lambda>w. add_coeff k w False r)) s = Inr s'"
    obtain k v where kv: "x = (k, v)" by (cases x)
    with x g have "good_key env d k" by (auto simp: good_result_def)
    with add_coeff_adds [of k "value * v" False s s' env d] a kv
    show "adds env d (case x of (k, v) \<Rightarrow> value * v * text_val env k) s s'" by simp
  qed
  from adds_trans [OF this const_term_adds [of env d "const_term r + const_term part * value"]] r
  have "adds env d (sum_list (map (\<lambda>(k, v). value * v * text_val env k) (coeffs part)) +
      (const_term r + const_term part * value - const_term r)) res res'" by simp
  moreover have "sum_list (map (\<lambda>(k, v). value * v * text_val env k) cs) =
      value * sum_list (map (\<lambda>(k, v). v * text_val env k) cs)" for cs
    by (induction cs) (auto simp: distrib_left mult.assoc)
  ultimately show ?thesis by (simp add: lin_val_def distrib_left mult.commute add.commute)
qed

section \<open>The visitor\<close>

lemma visit_symbol_adds:
  assumes "visit_symbol n res = Inr res'" and "tame env n" "sem env n = Some v"
    and "node_prec n \<noteq> 3" "\<not> is_const n" "\<forall>u x. n \<noteq> UnaryOp u x" "d \<longrightarrow> divfree n"
  shows "adds env d v res res'"
proof -
  have "text_val env (unparse n) = v" using assms(2,3) by (simp add: text_val_def tame_text_sem)
  moreover have "good_key env d (unparse n)" using assms(2-) by (auto simp: good_key_def)
  ultimately show ?thesis
    using add_coeff_adds [of "unparse n" 1 False res res' env d] assms(1) by (simp add: visit_symbol_def)
qed

lemma adds_from_empty: "adds env d v empty_result part \<Longrightarrow> good_result env d part \<and> lin_val env part = v"
  by (simp add: adds_def)

text \<open>The symbolic part of a product with constants among its factors.\<close>

lemma mixed_factors_sound:
  assumes t: "tame env (BinOp l Mult r)" and s: "sem env (BinOp l Mult r) = Some v"
    and m: "mixed_factors (BinOp l Mult r) = Some num" and c: "const_product num = Inr nc"
  shows "others_of num = [] \<Longrightarrow> v = nc"
    and "others_of num \<noteq> [] \<Longrightarrow>
      (let symb = build_product (sort_key unparse (others_of num))
       in tame env symb \<and> divfree symb \<and> (\<exists>w. sem env symb = Some w \<and> v = nc * w))"
proof -
  have df: "divfree (BinOp l Mult r)" using t by simp
  from flatten_divfree [OF df t s] m have num: "list_all (tame env) num" "list_all divfree num"
    "defined_in env num" "v = prod_val env num"
    by (auto simp: mixed_factors_def split: if_splits)
  from const_product_Inr [OF c] num(4) prod_val_split [of env num]
  have v: "v = nc * prod_val env (others_of num)" by simp
  then show "others_of num = [] \<Longrightarrow> v = nc" by simp
  assume "others_of num \<noteq> []"
  let ?xs = "sort_key unparse (others_of num)"
  have xs: "list_all (tame env) ?xs" "list_all divfree ?xs" "defined_in env ?xs"
    using num(1-3) by (simp_all only: list_all_sort_key defined_sort_key list_all_filter defined_filter)
  have "sem env (build_product ?xs) = Some (prod_val env (others_of num))"
    using build_product_sem [OF xs(3)] by (simp add: sort_key_prod)
  with xs v show "let symb = build_product ?xs
       in tame env symb \<and> divfree symb \<and> (\<exists>w. sem env symb = Some w \<and> v = nc * w)"
    by (simp add: Let_def build_product_divfree build_product_tame good_factors_def)
qed

lemma run_add_visitor_adds:
  "run_add_visitor n res = Inr res' \<Longrightarrow> tame env n \<Longrightarrow> sem env n = Some v \<Longrightarrow> (d \<longrightarrow> divfree n) \<Longrightarrow>
     adds env d v res res'"
proof (induction n res arbitrary: v res' rule: run_add_visitor.induct)
  case (1 c res)
  then have "res' = res\<lparr>const_term := const_term res + c\<rparr>" "v = c" by auto
  then show ?case using const_term_adds [of env d "const_term res + c" res] by simp
next
  case (2 x res)
  then show ?case using visit_symbol_adds [of "Name x" res res' env v d] by (simp add: visit_symbol_def is_const_def)
next
  case (3 l op r res)
  from "3.prems"(3) obtain a b where ab: "sem env l = Some a" "sem env r = Some b"
    and v: "sem_binop op a b = Some v" by auto
  have t: "tame env l" "tame env r" using "3.prems"(2) by auto
  have df: "op \<noteq> FloorDiv \<Longrightarrow> op \<noteq> ExactDiv \<Longrightarrow> d \<longrightarrow> divfree l \<and> divfree r" using "3.prems"(4) by auto
  consider (add) "op = Add" | (sub) "op = Sub" | (const) "op = Mult" "is_const l \<or> is_const r"
    | (mixed) num where "op = Mult" "\<not> (is_const l \<or> is_const r)" "mixed_factors (BinOp l op r) = Some num"
    | (symb) "op \<noteq> Add" "op \<noteq> Sub" "\<not> (op = Mult \<and> (is_const l \<or> is_const r))"
        "\<not> (op = Mult \<and> mixed_factors (BinOp l op r) \<noteq> None)"
    by blast
  then show ?case
  proof cases
    case add
    with "3.prems"(1) obtain r1 where r: "run_add_visitor l res = Inr r1" "run_add_visitor r r1 = Inr res'" by auto
    from "3.IH"(1) [OF add r(1) t(1) ab(1)] "3.IH"(2) [OF add r t(2) ab(2)] df add v
    show ?thesis by (auto intro: adds_trans)
  next
    case sub
    with "3.prems"(1) obtain r1 neg where r: "run_add_visitor l res = Inr r1"
      "run_add_visitor r empty_result = Inr neg" "subtract_result neg r1 = Inr res'" by auto
    have 1: "adds env d a res r1" using "3.IH"(3) [OF _ sub r(1) t(1) ab(1)] df sub by simp
    have "adds env d b empty_result neg" using "3.IH"(4) [OF _ sub r(1,2) t(2) ab(2)] df sub by simp
    then have "good_result env d neg" "lin_val env neg = b" by (auto dest: adds_from_empty)
    with subtract_result_adds [OF r(3)] have "adds env d (- b) r1 res'" by auto
    with 1 sub v show ?thesis by (auto dest: adds_trans)
  next
    case const
    let ?other = "if is_const l then r else l" and ?cval = "if is_const l then const_value l else const_value r"
    from const "3.prems"(1) obtain part where p: "run_add_visitor ?other empty_result = Inr part"
      "add_multiple ?cval part res = Inr res'" by (auto simp: Let_def)
    let ?w = "if is_const l then b else a"
    have "adds env d ?w empty_result part"
    proof (rule "3.IH"(5) [OF _ _ _ refl refl p(1)])
      show "tame env ?other" "sem env ?other = Some ?w" "d \<longrightarrow> divfree ?other"
        using t ab df const by auto
    qed (use const in auto)
    then have g: "good_result env d part" "lin_val env part = ?w" by (auto dest: adds_from_empty)
    have "v = ?cval * ?w"
      using const v val_const [of l env] val_const [of r env] ab by (auto simp: val_def mult.commute)
    with add_multiple_adds [OF p(2) g(1)] g(2) show ?thesis by simp
  next
    case mixed
    have tm: "tame env (BinOp l Mult r)" "sem env (BinOp l Mult r) = Some v"
      using "3.prems"(2,3) mixed(1) by auto
    have mf: "mixed_factors (BinOp l Mult r) = Some num" using mixed by simp
    from mixed mf "3.prems"(1) obtain nc where nc: "const_product num = Inr nc"
      and r: "(if others_of num = [] then
                bindR (CheckedDimensionAdd (const_term res) nc) (\<lambda>v. Inr (res\<lparr>const_term := v\<rparr>))
              else
                bindR (run_add_visitor (build_product (sort_key unparse (others_of num))) empty_result)
                  (\<lambda>part. add_multiple nc part res)) = Inr res'"
      by (auto simp: Let_def)
    show ?thesis
    proof (cases "others_of num = []")
      case True
      with r mixed_factors_sound(1) [OF tm mf nc] have "res' = res\<lparr>const_term := const_term res + v\<rparr>" by auto
      with const_term_adds [of env d "const_term res + v" res] show ?thesis by simp
    next
      case False
      let ?symb = "build_product (sort_key unparse (others_of num))"
      from False r obtain part where p: "run_add_visitor ?symb empty_result = Inr part"
        "add_multiple nc part res = Inr res'" by auto
      from mixed_factors_sound(2) [OF tm mf nc False] obtain w where
        w: "tame env ?symb" "divfree ?symb" "sem env ?symb = Some w" "v = nc * w" by (auto simp: Let_def)
      have "adds env d w empty_result part"
        by (rule "3.IH"(6) [OF _ _ _ _ _ nc False p(1) w(1,3)]) (use mixed mf w(2) in auto)
      then have g: "good_result env d part" "lin_val env part = w" by (auto dest: adds_from_empty)
      with add_multiple_adds [OF p(2) g(1)] w(4) show ?thesis by simp
    qed
  next
    case symb
    with "3.prems"(1) have "visit_symbol (BinOp l op r) res = Inr res'"
      by (simp only: run_add_visitor.simps if_False simp_thms)
    then show ?thesis
    proof (rule visit_symbol_adds [OF _ "3.prems"(2,3)])
      show "node_prec (BinOp l op r) \<noteq> 3" using symb by (cases op) (auto simp: binop_prec_def)
      show "d \<longrightarrow> divfree (BinOp l op r)" by (rule "3.prems"(4))
    qed (auto simp: is_const_def)
  qed
next
  case (4 u x res)
  from "4.prems"(3) obtain a where a: "sem env x = Some a" "v = (if u = USub then - a else a)" by auto
  show ?case
  proof (cases "u = USub")
    case True
    with "4.prems"(1) obtain neg where n: "run_add_visitor x empty_result = Inr neg" "subtract_result neg res = Inr res'"
      by auto
    from "4.IH"(1) [OF True n(1) _ a(1)] "4.prems"(2,4) have "adds env d a empty_result neg" by simp
    then have "good_result env d neg" "lin_val env neg = a" by (auto dest: adds_from_empty)
    with subtract_result_adds [OF n(2)] a(2) True show ?thesis by auto
  next
    case False
    with "4.prems" "4.IH"(2) [OF False _ _ a(1)] a(2) show ?thesis by simp
  qed
next
  case (5 f args res)
  then show ?case by (intro visit_symbol_adds) (auto simp: is_const_def)
qed

text \<open>C13: The visitor that collects \<open>constant + \<Sum> coefficient * term\<close> adds to the combination it is given
  exactly the value of the tree it visits, whatever the nesting of sums, differences and constant factors,
  for tame trees under assignments that give them a value.  Tame means that the names are identifiers, there
  is no exact division, divisors are built from positive names and constants, no operand of a product has a
  division, and \<open>CeilToInt\<close> is applied to a value that is not negative; it is not true of \<open>a*(b//c)\<close>, whose
  term is printed as \<open>a*b//c\<close>.\<close>

theorem visitor_collects_the_value:
  assumes "run_add_visitor n res = Inr res'" "tame env n" "sem env n = Some v"
  shows "lin_val env res' = lin_val env res + v"
  using run_add_visitor_adds [OF assms, of False] by (simp add: adds_def)

lemma visitor_collects_the_value_witness:
  "lin_val (\<lambda>x. Some 5) \<lparr>coeffs = [(''a'', 3)], const_term = 2\<rparr> = lin_val (\<lambda>x. Some 5) empty_result + 17"
proof -
  have "run_add_visitor (BinOp (BinOp (BinOp (Name ''a'') Add (BinOp (Constant 2) Mult (Name ''a''))) Add (Constant 3)) Sub (Constant 1))
      empty_result = Inr \<lparr>coeffs = [(''a'', 3)], const_term = 2\<rparr>" by code_simp
  from visitor_collects_the_value [OF this, of "\<lambda>x. Some 5" 17] show ?thesis
    by (simp add: is_name_def is_ident_char_def char_class)
qed

end
