(* ===== verification/ExprPrint.thy ===== *)
theory ExprPrint
  imports ExprLinearSound
begin

text \<open>
  The text \<open>make_simplified\<close> prints denotes the linear combination: each term, with its parentheses and
  its sign, extends a text of the sum level, and the first term stands alone.  A leading minus sign
  binds tighter than a division, which the condition on the first term excludes.
\<close>

section \<open>Scanning for operators outside parentheses\<close>

lemma scan_ident:
  "list_all is_ident_char x \<Longrightarrow> needs_parens_from b e (x @ rest) = needs_parens_from b e rest"
proof (induction x)
  case (Cons c x)
  then have "c \<notin> {CHR ''('', CHR '')'', CHR ''^'', CHR ''&'', CHR ''%'', CHR ''/''}"
    by (auto simp: is_ident_char_def char_class)
  with Cons show ?case by auto
qed simp

lemma scan_digits:
  "list_all isdigit x \<Longrightarrow> needs_parens_from b e (x @ rest) = needs_parens_from b e rest"
  by (rule scan_ident) (auto simp: list_all_iff isdigit_is_ident)

lemma scan_op_deep: "1 \<le> e \<Longrightarrow> needs_parens_from b e (binop_sym op @ x) = needs_parens_from b e x"
  by (cases op) (simp_all add: binop_sym_def)

lemma scan_op: "needs_parens_from b 0 x \<Longrightarrow> needs_parens_from b 0 (binop_sym op @ x)"
  by (cases op; cases b) (simp_all add: binop_sym_def)

lemma scan_sign:
  "c = CHR ''-'' \<or> c = CHR ''+'' \<Longrightarrow> needs_parens_from b 0 x \<Longrightarrow> needs_parens_from b 0 (c # x)"
  by (cases b) auto

lemma scan_op_found:
  "op = BitXor \<or> op = BitAnd \<Longrightarrow> needs_parens_from b 0 (binop_sym op @ x)"
  "op = FloorDiv \<or> op = ExactDiv \<or> op = Mod \<Longrightarrow> needs_parens_from True 0 (binop_sym op @ x)"
  by (auto simp: binop_sym_def)

text \<open>Inside parentheses an expression leaves the scan where it was.\<close>

lemma scan_tail_deep:
  "list_all2 (\<lambda>s n. \<forall>e rest. 1 \<le> e \<longrightarrow> needs_parens_from b e (s @ rest) = needs_parens_from b e rest) ss ns \<Longrightarrow>
     1 \<le> e \<Longrightarrow> needs_parens_from b e (comma_tail ss @ rest) = needs_parens_from b e rest"
  by (induction ss ns rule: list_all2_induct) (auto simp: comma_tail_def)

lemma scan_join_deep:
  "list_all2 (\<lambda>s n. \<forall>e rest. 1 \<le> e \<longrightarrow> needs_parens_from b e (s @ rest) = needs_parens_from b e rest) ss ns \<Longrightarrow>
     1 \<le> e \<Longrightarrow> needs_parens_from b e (join ss @ rest) = needs_parens_from b e rest"
  by (cases ss) (auto simp: join_Cons list_all2_Cons1 scan_tail_deep)

lemma scan_deep:
  "derives literal p s n \<Longrightarrow> 1 \<le> e \<Longrightarrow> needs_parens_from b e (s @ rest) = needs_parens_from b e rest"
proof (induction arbitrary: e rest rule: derives.induct)
  case (num ds v)
  then show ?case by (simp add: scan_digits)
next
  case (name x)
  then show ?case by (simp add: scan_ident is_name_def)
next
  case (call f ss ns)
  have "list_all2 (\<lambda>s n. \<forall>e rest. 1 \<le> e \<longrightarrow> needs_parens_from b e (s @ rest) = needs_parens_from b e rest) ss ns"
    using call.IH by (rule list_all2_mono) blast
  from scan_join_deep [OF this, of "e + 1"] call show ?case by (simp add: scan_ident is_name_def)
next
  case (paren s n)
  then show ?case by simp
next
  case (binary op s m t n)
  then show ?case by (simp add: scan_op_deep)
qed simp_all

text \<open>At depth 0 what follows an expression is still found.\<close>

lemma scan_top:
  "derives literal p s n \<Longrightarrow> needs_parens_from b 0 rest \<Longrightarrow> needs_parens_from b 0 (s @ rest)"
proof (induction arbitrary: rest rule: derives.induct)
  case (num ds v)
  then show ?case by (simp add: scan_digits)
next
  case (name x)
  then show ?case by (simp add: scan_ident is_name_def)
next
  case (call f ss ns)
  have "list_all2 (\<lambda>s n. \<forall>e rest. 1 \<le> e \<longrightarrow> needs_parens_from b e (s @ rest) = needs_parens_from b e rest) ss ns"
    using call.IH by (rule list_all2_mono) (auto simp: scan_deep)
  from scan_join_deep [OF this, of 1] call show ?case by (simp add: scan_ident is_name_def)
next
  case (paren s n)
  then show ?case by (simp add: scan_deep [OF paren.hyps])
next
  case (binary op s m t n)
  then show ?case by (simp add: scan_op)
qed (simp_all add: scan_sign del: needs_parens_from.simps)

lemma needs_parens_op:
  assumes "names_ok (BinOp l op r)"
  shows "op = BitXor \<or> op = BitAnd \<Longrightarrow> needs_term_parens (unparse (BinOp l op r)) b"
    and "op = FloorDiv \<or> op = ExactDiv \<or> op = Mod \<Longrightarrow> needs_term_parens (unparse (BinOp l op r)) True"
proof -
  let ?p = "binop_prec op" and ?L = "parens (node_prec l < binop_prec op) (unparse l)"
  have p: "1 \<le> ?p" "?p \<le> 5" "?p \<le> 4" using binop_prec_range [of op] by auto
  have "derives any_literal ?p ?L (canon l)"
    using assms p by (intro operand_derives unparse_derives) auto
  from scan_top [OF this] scan_op_found
  show "op = BitXor \<or> op = BitAnd \<Longrightarrow> needs_term_parens (unparse (BinOp l op r)) b"
    and "op = FloorDiv \<or> op = ExactDiv \<or> op = Mod \<Longrightarrow> needs_term_parens (unparse (BinOp l op r)) True"
    by (simp_all add: needs_term_parens_def Let_def)
qed

section \<open>A term\<close>

text \<open>A term stands as a factor, or is a product without a division on its spine.\<close>

definition factor_text :: "(string \<Rightarrow> int option) \<Rightarrow> string \<Rightarrow> int \<Rightarrow> bool" where
  "factor_text env s v \<longleftrightarrow> (\<exists>n. sem env n = Some v \<and>
     (derives any_literal 5 s n \<or> (chain any_literal 4 s n \<and> no_div_spine n)))"

definition sum_text :: "(string \<Rightarrow> int option) \<Rightarrow> nat \<Rightarrow> string \<Rightarrow> int \<Rightarrow> bool" where
  "sum_text env p s v \<longleftrightarrow> (\<exists>n. derives any_literal p s n \<and> sem env n = Some v)"

lemma sum_text_lower: "sum_text env q s v \<Longrightarrow> 1 \<le> p \<Longrightarrow> p \<le> q \<Longrightarrow> sum_text env p s v"
  unfolding sum_text_def using derives_lower by blast

lemma good_key_cases:
  assumes "good_key env d k"
  obtains (atom) n where "derives any_literal 6 k n" "sem env n = Some (text_val env k)"
  | (bin) l op r where "k = unparse (BinOp l op r)" "tame env (BinOp l op r)"
      "sem env (BinOp l op r) = Some (text_val env k)" "op \<noteq> Add" "op \<noteq> Sub" "d \<longrightarrow> divfree (BinOp l op r)"
proof -
  from assms obtain m where m: "k = unparse m" "tame env m" "sem env m \<noteq> None" "node_prec m \<noteq> 3"
    "\<not> is_const m" "\<forall>u x. m \<noteq> UnaryOp u x" "d \<longrightarrow> divfree m"
    by (auto simp: good_key_def)
  then have v: "sem env m = Some (text_val env k)" by (auto simp: text_val_def tame_text_sem)
  have der: "derives any_literal (text_level m) k (canon m)" "sem env (canon m) = sem env m"
    using m by (auto simp: unparse_derives tame_names_ok sem_canon tame_unambiguous)
  show thesis
  proof (cases m)
    case (BinOp l op r)
    with m v show thesis by (intro bin [of l op r]) (auto simp: binop_prec_def)
  qed (use m der v atom in \<open>auto simp: is_const_def\<close>)
qed

lemma parens_derives:
  assumes "derives any_literal p k n" and "1 \<le> p"
  shows "derives any_literal 6 (parens True k) n"
  using derives.paren [OF derives_lower [OF assms(1) _ assms(2)]] by (simp add: parens_def)

lemma names_ok_BinOp: "tame env (BinOp l op r) \<Longrightarrow> names_ok (BinOp l op r)"
  by (rule tame_names_ok)

text \<open>The parenthesised key as a summand.\<close>

lemma term_summand:
  assumes g: "good_key env d k"
  shows "sum_text env 4 (parens (needs_term_parens k b) k) (text_val env k)"
  using g
proof (cases rule: good_key_cases)
  case (atom n)
  have "derives any_literal 6 (parens (needs_term_parens k b) k) n"
    using parens_derives [OF atom(1)] atom(1) by (cases "needs_term_parens k b") (auto simp: parens_def)
  with atom(2) have "sum_text env 6 (parens (needs_term_parens k b) k) (text_val env k)"
    by (auto simp: sum_text_def)
  then show ?thesis by (rule sum_text_lower) auto
next
  case (bin l op r)
  let ?m = "BinOp l op r"
  have der: "derives any_literal (binop_prec op) k (canon ?m)"
    using unparse_derives [OF tame_names_ok [OF bin(2)]] bin(1) by simp
  have v: "sem env (canon ?m) = Some (text_val env k)"
    using bin(2,3) by (simp only: sem_canon tame_unambiguous)
  show ?thesis
  proof (cases "needs_term_parens k b")
    case True
    have "derives any_literal 6 (parens True k) (canon ?m)"
      by (rule parens_derives [OF der]) (rule binop_prec_range)
    then have "derives any_literal 4 (parens True k) (canon ?m)" by (rule derives_lower) auto
    with True v show ?thesis by (auto simp: sum_text_def)
  next
    case False
    then have "op \<noteq> BitXor" "op \<noteq> BitAnd"
      using needs_parens_op(1) [OF tame_names_ok [OF bin(2)]] bin(1) by auto
    then have "binop_prec op = 4" using bin(4,5) by (cases op) (auto simp: binop_prec_def)
    with der v False show ?thesis by (auto simp: sum_text_def parens_def)
  qed
qed

text \<open>The parenthesised key as a factor: a division is inside parentheses.\<close>

lemma chain_mult:
  assumes "tame env (BinOp l Mult r)"
  shows "chain any_literal 4 (unparse (BinOp l Mult r)) (canon (BinOp l Mult r))"
    and "no_div_spine (canon (BinOp l Mult r))"
proof -
  show "chain any_literal 4 (unparse (BinOp l Mult r)) (canon (BinOp l Mult r))"
    using unparse_derives_chain [OF tame_names_ok [OF assms]] by (simp add: binop_prec_def del: unparse.simps canon.simps)
  have "no_div_spine (BinOp l Mult r)" using assms by (intro divfree_no_div_spine) simp
  then show "no_div_spine (canon (BinOp l Mult r))" by (rule no_div_spine_canon)
qed

lemma term_factor:
  assumes g: "good_key env d k"
  shows "factor_text env (parens (needs_term_parens k True) k) (text_val env k)"
  using g
proof (cases rule: good_key_cases)
  case (atom n)
  have "derives any_literal 6 (parens (needs_term_parens k True) k) n"
    using parens_derives [OF atom(1)] atom(1) by (cases "needs_term_parens k True") (auto simp: parens_def)
  then have "derives any_literal 5 (parens (needs_term_parens k True) k) n" by (rule derives_lower) auto
  with atom(2) show ?thesis by (auto simp: factor_text_def)
next
  case (bin l op r)
  let ?m = "BinOp l op r"
  have v: "sem env (canon ?m) = Some (text_val env k)"
    using bin(2,3) by (simp only: sem_canon tame_unambiguous)
  show ?thesis
  proof (cases "needs_term_parens k True")
    case True
    have "derives any_literal (binop_prec op) k (canon ?m)"
      using unparse_derives [OF tame_names_ok [OF bin(2)]] bin(1) by simp
    then have "derives any_literal 6 (parens True k) (canon ?m)"
      by (rule parens_derives) (rule binop_prec_range)
    then have "derives any_literal 5 (parens True k) (canon ?m)" by (rule derives_lower) auto
    with True v show ?thesis by (auto simp: factor_text_def)
  next
    case False
    then have "op = Mult"
      using needs_parens_op [OF tame_names_ok [OF bin(2)]] bin(1,4,5) by (cases op) auto
    with chain_mult [of env l r] bin(1,2) v False show ?thesis
      by (auto simp: factor_text_def parens_def simp del: unparse.simps canon.simps)
  qed
qed

text \<open>A head times a factor.\<close>

lemma head_times_factor:
  assumes h: "derives any_literal 5 hs h" "node_prec h \<noteq> 4" "sem env h = Some a" and f: "factor_text env s v"
  shows "sum_text env 4 (hs @ ''*'' @ s) (a * v)"
proof -
  have star: "''*'' = binop_sym Mult" by (simp add: binop_sym_def)
  have p: "binop_prec Mult = 4" by (simp add: binop_prec_def)
  from f obtain n where n: "sem env n = Some v"
    and c: "derives any_literal 5 s n \<or> (chain any_literal 4 s n \<and> no_div_spine n)"
    by (auto simp: factor_text_def)
  from c show ?thesis
  proof
    assume "derives any_literal 5 s n"
    moreover have "derives any_literal 4 hs h" using h(1) by (rule derives_lower) auto
    ultimately have "derives any_literal 4 (hs @ binop_sym Mult @ s) (BinOp h Mult n)"
      using derives.binary [of any_literal Mult hs h s n] p by simp
    with n h(3) show ?thesis unfolding sum_text_def star by auto
  next
    assume s: "chain any_literal 4 s n \<and> no_div_spine n"
    have "chain any_literal 4 hs h" using h(1,2) by (intro chain.base) auto
    then have "chain any_literal 4 (hs @ binop_sym Mult @ s) (graft h Mult n)"
      using s p by (intro chain_graft) auto
    then have "derives any_literal 4 (hs @ binop_sym Mult @ s) (graft h Mult n)"
      by (rule chain_derives) auto
    moreover have "sem env (graft h Mult n) = Some (a * v)"
      using sem_graft [of Mult n env h "a * v"] s n h(3) by (auto simp: binop_commutative_def)
    ultimately show ?thesis unfolding sum_text_def star by blast
  qed
qed

text \<open>A leading minus sign goes to the first factor of a product.\<close>

lemma chain_negate:
  "chain any_literal 4 s n \<Longrightarrow> no_div_spine n \<Longrightarrow> sem env n = Some v \<Longrightarrow> sum_text env 4 (''-'' @ s) (- v)"
proof (induction arbitrary: v rule: chain.induct)
  case (base s n)
  then have "derives any_literal 5 (''-'' @ s) (UnaryOp USub n)" by (intro derives.neg) simp
  then have "derives any_literal 4 (''-'' @ s) (UnaryOp USub n)" by (rule derives_lower) auto
  with base show ?case by (auto simp: sum_text_def)
next
  case (step s m t n op)
  then have op: "op = Mult" by (cases op) (auto simp: binop_prec_def)
  with step.prems obtain a b where ab: "sem env m = Some a" "sem env n = Some b" "v = a * b" by auto
  from step.IH [OF _ ab(1)] step.prems op obtain m' where
    m': "derives any_literal 4 (''-'' @ s) m'" "sem env m' = Some (- a)" by (auto simp: sum_text_def)
  have "derives any_literal 4 ((''-'' @ s) @ binop_sym op @ t) (BinOp m' op n)"
    using derives.binary [of any_literal op "''-'' @ s" m' t n] m'(1) step.hyps by simp
  with m'(2) ab op show ?case by (auto simp: sum_text_def)
qed

section \<open>Sums of signed terms\<close>

text \<open>A signed piece of a sum with its value, and a piece that may also stand first.\<close>

definition piece :: "(string \<Rightarrow> int option) \<Rightarrow> string \<Rightarrow> int \<Rightarrow> bool" where
  "piece env s x \<longleftrightarrow> (\<exists>t. s = ''+'' @ t \<and> sum_text env 4 t x) \<or> (\<exists>t. s = ''-'' @ t \<and> sum_text env 4 t (- x))"

definition first_piece :: "(string \<Rightarrow> int option) \<Rightarrow> string \<Rightarrow> int \<Rightarrow> bool" where
  "first_piece env s x \<longleftrightarrow> (\<exists>t. s = ''+'' @ t \<and> sum_text env 3 t x) \<or> (\<exists>t. s = ''-'' @ t \<and> sum_text env 3 s x)"

lemma numeral_derives: "0 \<le> c \<Longrightarrow> derives any_literal 6 (to_string c) (Constant c)"
  using derives.num [of "show_nat (nat c)" any_literal c] show_nat_reads
  by (auto simp: to_string_def any_literal_def)

lemma to_string_neg: "c < 0 \<Longrightarrow> to_string c = ''-'' @ to_string (- c)"
  by (simp add: to_string_def)

lemma signed_numeral_cases:
  assumes "c \<noteq> 0"
  obtains (pos) "0 < c" "signed_numeral c = ''+'' @ to_string c"
  | (neg) "c < 0" "signed_numeral c = ''-'' @ to_string (- c)"
proof (cases "0 < c")
  case True
  then have "signed_numeral c = ''+'' @ to_string c" by (simp add: signed_numeral_def)
  with True show ?thesis by (rule pos)
next
  case False
  with assms have c: "c < 0" by simp
  then have "signed_numeral c = to_string c" by (simp add: signed_numeral_def)
  also have "\<dots> = ''-'' @ to_string (- c)" using c by (rule to_string_neg)
  finally show ?thesis using c by (intro neg)
qed

lemma signed_numeral_piece:
  assumes "c \<noteq> 0"
  shows "piece env (signed_numeral c) c" and "first_piece env (signed_numeral c) c"
proof -
  have num: "sum_text env 6 (to_string e) e" if "0 \<le> e" for e
    using numeral_derives [OF that] by (auto simp: sum_text_def)
  show "piece env (signed_numeral c) c"
    using assms
  proof (cases rule: signed_numeral_cases)
    case pos
    then have "sum_text env 4 (to_string c) c" by (intro sum_text_lower [OF num]) auto
    with pos show ?thesis by (auto simp: piece_def)
  next
    case neg
    then have "sum_text env 4 (to_string (- c)) (- c)" by (intro sum_text_lower [OF num]) auto
    with neg show ?thesis by (auto simp: piece_def)
  qed
  show "first_piece env (signed_numeral c) c"
    using assms
  proof (cases rule: signed_numeral_cases)
    case pos
    then have "sum_text env 3 (to_string c) c" by (intro sum_text_lower [OF num]) auto
    with pos show ?thesis by (auto simp: first_piece_def)
  next
    case neg
    then have "derives any_literal 5 (to_string (- c)) (Constant (- c))"
      by (intro derives_lower [OF numeral_derives]) auto
    then have "sum_text env 5 (''-'' @ to_string (- c)) c"
      using derives.neg by (fastforce simp: sum_text_def)
    then have "sum_text env 3 (''-'' @ to_string (- c)) c" by (rule sum_text_lower) auto
    with neg show ?thesis by (auto simp: first_piece_def)
  qed
qed

lemma term_text_piece:
  assumes g: "good_key env d k" and c: "c \<noteq> 0"
  shows "piece env (term_text (k, c)) (c * text_val env k)"
proof -
  consider "c = 1" | "c = - 1" | "c \<noteq> 1" "c \<noteq> - 1" by blast
  then show ?thesis
  proof cases
    case 1
    with term_summand [OF g, of False] show ?thesis by (auto simp: piece_def term_text_def Let_def)
  next
    case 2
    with term_summand [OF g, of False] show ?thesis by (auto simp: piece_def term_text_def Let_def)
  next
    case 3
    let ?t = "parens (needs_term_parens k True) k"
    have tt: "term_text (k, c) = signed_numeral c @ ''*'' @ ?t" using 3 by (simp add: term_text_def Let_def)
    have head: "sum_text env 4 (to_string e @ ''*'' @ ?t) (e * text_val env k)" if "0 \<le> e" for e
    proof (rule head_times_factor [OF _ _ _ term_factor [OF g]])
      show "derives any_literal 5 (to_string e) (Constant e)"
        by (rule derives_lower [OF numeral_derives [OF that]]) auto
    qed auto
    from c show ?thesis
    proof (cases rule: signed_numeral_cases)
      case pos
      with head [of c] tt show ?thesis by (auto simp: piece_def)
    next
      case neg
      with head [of "- c"] tt show ?thesis by (auto simp: piece_def)
    qed
  qed
qed

lemma term_text_first:
  assumes g: "good_key env d k" and c: "c \<noteq> 0" and ok: "d \<or> hd (term_text (k, c)) \<noteq> CHR ''-''"
  shows "first_piece env (term_text (k, c)) (c * text_val env k)"
proof (cases "hd (term_text (k, c)) = CHR ''-''")
  case False
  with term_text_piece [OF g c] obtain t where "term_text (k, c) = ''+'' @ t" "sum_text env 4 t (c * text_val env k)"
    by (auto simp: piece_def)
  then show ?thesis using sum_text_lower [of env 4 t _ 3] by (auto simp: first_piece_def)
next
  case True
  with ok have d by simp
  show ?thesis
  proof (cases "c = - 1")
    case False
    let ?t = "parens (needs_term_parens k True) k"
    have c0: "c \<noteq> 1" using True by (auto simp: term_text_def Let_def)
    have tt: "term_text (k, c) = signed_numeral c @ ''*'' @ ?t" using False c0 by (simp add: term_text_def Let_def)
    from c True tt have neg: "c < 0" "signed_numeral c = ''-'' @ to_string (- c)"
      by (auto elim!: signed_numeral_cases)
    have "derives any_literal 5 (to_string (- c)) (Constant (- c))"
      by (rule derives_lower [OF numeral_derives]) (use neg(1) in auto)
    then have "derives any_literal 5 (''-'' @ to_string (- c)) (UnaryOp USub (Constant (- c)))"
      by (rule derives.neg)
    from head_times_factor [OF this _ _ term_factor [OF g]]
    have "sum_text env 4 (term_text (k, c)) (c * text_val env k)" using neg tt by simp
    then have "sum_text env 3 (term_text (k, c)) (c * text_val env k)" by (rule sum_text_lower) auto
    with tt neg show ?thesis by (auto simp: first_piece_def)
  next
    case m: True
    let ?t = "parens (needs_term_parens k False) k"
    have tt: "term_text (k, c) = ''-'' @ ?t" using m by (simp add: term_text_def Let_def)
    have five: "sum_text env 4 (''-'' @ s) (- v)" if "derives any_literal 6 s n" "sem env n = Some v" for s n v
    proof -
      have "derives any_literal 5 s n" by (rule derives_lower [OF that(1)]) auto
      then have "derives any_literal 5 (''-'' @ s) (UnaryOp USub n)" by (rule derives.neg)
      then have "sum_text env 5 (''-'' @ s) (- v)" using that(2) by (auto simp: sum_text_def)
      then show ?thesis by (rule sum_text_lower) auto
    qed
    from g have "sum_text env 4 (''-'' @ ?t) (- text_val env k)"
    proof (cases rule: good_key_cases)
      case (atom n)
      have "derives any_literal 6 ?t n"
        using parens_derives [OF atom(1)] atom(1) by (cases "needs_term_parens k False") (auto simp: parens_def)
      then show ?thesis using atom(2) by (rule five)
    next
      case (bin l op r)
      have v: "sem env (canon (BinOp l op r)) = Some (text_val env k)"
        using bin(2,3) by (simp only: sem_canon tame_unambiguous)
      show ?thesis
      proof (cases "needs_term_parens k False")
        case True
        have "derives any_literal (binop_prec op) k (canon (BinOp l op r))"
          using unparse_derives [OF tame_names_ok [OF bin(2)]] bin(1) by simp
        then have "derives any_literal 6 (parens True k) (canon (BinOp l op r))"
          by (rule parens_derives) (rule binop_prec_range)
        from five [OF this v] True show ?thesis by simp
      next
        case False
        have "op = Mult"
          using needs_parens_op(1) [OF tame_names_ok [OF bin(2)]] bin(1,4-6) False \<open>d\<close> by (cases op) auto
        with chain_mult [of env l r] bin(1,2) chain_negate [OF _ _ v] False show ?thesis
          by (simp add: parens_def del: unparse.simps canon.simps)
      qed
    qed
    then have "sum_text env 3 (''-'' @ ?t) (- text_val env k)" by (rule sum_text_lower) auto
    with m tt show ?thesis by (auto simp: first_piece_def)
  qed
qed

text \<open>Pieces extend a sum.\<close>

lemma sum_append_piece:
  assumes "sum_text env 3 s a" and "piece env t x"
  shows "sum_text env 3 (s @ t) (a + x)"
proof -
  from assms(1) obtain m where m: "derives any_literal 3 s m" "sem env m = Some a" by (auto simp: sum_text_def)
  have ext: "sum_text env 3 (s @ binop_sym op @ u) w"
    if "binop_prec op = 3" "derives any_literal 4 u n" "sem env (BinOp m op n) = Some w" for op u n w
    using derives.binary [of any_literal op s m u n] that m(1) by (auto simp: sum_text_def simp del: sem.simps)
  from assms(2) show ?thesis
    unfolding piece_def
  proof
    assume "\<exists>u. t = ''+'' @ u \<and> sum_text env 4 u x"
    then obtain u n where "t = binop_sym Add @ u" "derives any_literal 4 u n" "sem env n = Some x"
      by (auto simp: sum_text_def binop_sym_def)
    with ext [of Add u n "a + x"] m(2) show ?thesis by (simp add: binop_prec_def)
  next
    assume "\<exists>u. t = ''-'' @ u \<and> sum_text env 4 u (- x)"
    then obtain u n where "t = binop_sym Sub @ u" "derives any_literal 4 u n" "sem env n = Some (- x)"
      by (auto simp: sum_text_def binop_sym_def)
    with ext [of Sub u n "a + x"] m(2) show ?thesis by (simp add: binop_prec_def)
  qed
qed

lemma sum_pieces:
  "list_all2 (piece env) ts xs \<Longrightarrow> sum_text env 3 s a \<Longrightarrow> sum_text env 3 (s @ concat ts) (a + sum_list xs)"
proof (induction ts xs arbitrary: s a rule: list_all2_induct)
  case (Cons t ts x xs)
  from Cons.IH [OF sum_append_piece [OF Cons.prems Cons.hyps(1)]] show ?case by (simp add: add.assoc)
qed simp

lemma strip_plus_pieces:
  assumes "first_piece env t x" and "list_all2 (piece env) ts xs"
  shows "sum_text env 3 (strip_plus (t @ concat ts)) (x + sum_list xs)"
proof -
  from assms(1) obtain u where "strip_plus (t @ concat ts) = u @ concat ts" "sum_text env 3 u x"
    by (auto simp: first_piece_def strip_plus_def)
  with sum_pieces [OF assms(2)] show ?thesis by simp
qed

end
