(* ===== verification/ExprSimplify.thy ===== *)
theory ExprSimplify
  imports ExprPrint
begin

text \<open>
  The correctness of \<open>simplify_expression\<close> and \<open>compare_expressions\<close>: what they return, read back as an
  expression, has the value of the expression they were given.
\<close>

section \<open>The printed combination\<close>

definition result_val :: "(string \<Rightarrow> int option) \<Rightarrow> SimplifyResult \<Rightarrow> int option" where
  "result_val env r = (case r of IntResult v \<Rightarrow> Some v | TextResult t \<Rightarrow> text_sem env t)"

lemma sum_text_sem: "sum_text env p s v \<Longrightarrow> text_sem env s = Some v"
  by (auto simp: sum_text_def text_sem_derives)

lemma good_key_sem: "good_key env d k \<Longrightarrow> text_sem env k = Some (text_val env k)"
  by (auto simp: good_key_def tame_text_sem text_val_def)

definition no_leading_minus :: "SimplifyResult \<Rightarrow> bool" where
  "no_leading_minus r \<longleftrightarrow> (case r of IntResult v \<Rightarrow> True | TextResult t \<Rightarrow> hd t \<noteq> CHR ''-'')"

lemma sum_nonzero:
  "sum_list (map (\<lambda>(k, c). c * f k) (filter (\<lambda>(k, c). c \<noteq> 0) cs)) = sum_list (map (\<lambda>(k, c). c * (f k :: int)) cs)"
  by (induction cs) auto

lemma strip_plus_hd: "s \<noteq> [] \<Longrightarrow> hd s = CHR ''-'' \<Longrightarrow> hd (strip_plus s) = CHR ''-''"
  by (cases s) (auto simp: strip_plus_def)

lemma term_text_nonempty: "term_text p \<noteq> []"
  by (auto simp: term_text_def signed_numeral_def to_string_def Let_def split: prod.split)

lemma printed_sum:
  assumes g: "\<forall>(k, c) \<in> set nz. good_key env d k \<and> c \<noteq> 0"
    and ok: "d \<or> hd (strip_plus (concat (map term_text nz) @ (if c0 \<noteq> 0 then signed_numeral c0 else []))) \<noteq> CHR ''-''"
  shows "sum_text env 3 (strip_plus (concat (map term_text nz) @ (if c0 \<noteq> 0 then signed_numeral c0 else [])))
    (sum_list (map (\<lambda>(k, c). c * text_val env k) nz) + c0)"
proof -
  let ?tail = "if c0 \<noteq> 0 then [signed_numeral c0] else []" and ?tv = "if c0 \<noteq> 0 then [c0] else []"
  have tail: "list_all2 (piece env) ?tail ?tv" using signed_numeral_piece(1) by simp
  have c: "concat ?tail = (if c0 \<noteq> 0 then signed_numeral c0 else [])" by simp
  show ?thesis
  proof (cases nz)
    case Nil
    show ?thesis
    proof (cases "c0 = 0")
      case True
      have "derives any_literal 3 (to_string 0) (Constant 0)"
        by (rule derives_lower [OF numeral_derives]) auto
      moreover have "to_string 0 = ''0''" by code_simp
      ultimately show ?thesis using True Nil by (auto simp: sum_text_def strip_plus_def)
    next
      case False
      from strip_plus_pieces [OF signed_numeral_piece(2) [OF False], where ts = "[]" and xs = "[]"] Nil False show ?thesis by simp
    qed
  next
    case (Cons p rest)
    obtain k e where p: "p = (k, e)" by (cases p)
    have ke: "good_key env d k" "e \<noteq> 0" using g by (auto simp: Cons p)
    have hd: "d \<or> hd (term_text (k, e)) \<noteq> CHR ''-''"
      using ok term_text_nonempty [of p] by (auto simp: Cons p strip_plus_hd)
    have rest: "list_all2 (piece env) (map term_text rest) (map (\<lambda>(k, c). c * text_val env k) rest)"
      unfolding list_all2_map1 list_all2_map2 list_all2_same
    proof
      fix q
      assume q: "q \<in> set rest"
      obtain k' e' where ke': "q = (k', e')" by (cases q)
      with g q have "good_key env d k'" "e' \<noteq> 0" by (auto simp: Cons)
      from term_text_piece [OF this] show "piece env (term_text q) (case q of (k, c) \<Rightarrow> c * text_val env k)"
        by (simp add: ke')
    qed
    from strip_plus_pieces [OF term_text_first [OF ke hd] list_all2_appendI [OF rest tail]]
    show ?thesis by (cases "c0 = 0") (simp_all add: Cons p add.assoc)
  qed
qed

lemma make_simplified_sound:
  assumes g: "good_result env d res" and ok: "d \<or> no_leading_minus (make_simplified res)"
  shows "result_val env (make_simplified res) = Some (lin_val env res)"
proof -
  let ?nz = "filter (\<lambda>(k, c). c \<noteq> 0) (coeffs res)"
  have gz: "\<forall>(k, c) \<in> set ?nz. good_key env d k \<and> c \<noteq> 0" using g by (auto simp: good_result_def)
  have lin: "lin_val env res = sum_list (map (\<lambda>(k, c). c * text_val env k) ?nz) + const_term res"
    by (simp add: lin_val_def sum_nonzero)
  consider (empty) "coeffs res = []"
    | (one) k where "coeffs res \<noteq> []" "const_term res = 0" "?nz = [(k, 1)]"
    | (many) "coeffs res \<noteq> []" "\<not> (const_term res = 0 \<and> length ?nz = 1 \<and> snd (hd ?nz) = 1)"
  proof (cases "const_term res = 0 \<and> length ?nz = 1 \<and> snd (hd ?nz) = 1")
    case True
    then obtain p where p: "?nz = [p]" by (cases ?nz) auto
    with True have "?nz = [(fst p, 1)]" by (cases p) auto
    with True empty one show ?thesis by blast
  qed (use empty many in blast)
  then show ?thesis
  proof cases
    case empty
    then show ?thesis by (simp add: make_simplified_def result_val_def lin_val_def)
  next
    case one
    then have "make_simplified res = TextResult k" by (simp add: make_simplified_def)
    with one gz lin show ?thesis by (simp add: result_val_def good_key_sem)
  next
    case many
    let ?t = "strip_plus (concat (map term_text ?nz) @
        (if const_term res \<noteq> 0 then signed_numeral (const_term res) else []))"
    from many have m: "make_simplified res = TextResult ?t" unfolding make_simplified_def Let_def by (simp only: if_False)
    have "d \<or> hd ?t \<noteq> CHR ''-''" using ok by (simp add: m no_leading_minus_def)
    from sum_text_sem [OF printed_sum [OF gz this]] lin show ?thesis by (simp add: m result_val_def)
  qed
qed

section \<open>Reading with a larger range of numerals\<close>

definition refines_parser :: "'s parser \<Rightarrow> 's parser \<Rightarrow> bool" where
  "refines_parser f g \<longleftrightarrow> (\<forall>st x. f st = Inr x \<longrightarrow> g st = Inr x)"

definition refines_lexer :: "'s lexer \<Rightarrow> 's lexer \<Rightarrow> bool" where
  "refines_lexer f g \<longleftrightarrow> (\<forall>s x. f s = Inr x \<longrightarrow> g s = Inr x)"

lemma refines_parserD: "refines_parser f g \<Longrightarrow> f st = Inr x \<Longrightarrow> g st = Inr x"
  unfolding refines_parser_def by blast

lemma refines_lexerD: "refines_lexer f g \<Longrightarrow> f s = Inr x \<Longrightarrow> g s = Inr x"
  unfolding refines_lexer_def by blast

lemma bin_loop_refines:
  assumes "refines_lexer a b" "refines_parser f g"
  shows "bin_loop k ops a f lhs st = Inr x \<Longrightarrow> bin_loop k ops b g lhs st = Inr x"
proof (induction k arbitrary: lhs st)
  case (Suc k)
  obtain t s where st: "st = (t, s)" by (cases st)
  show ?case
  proof (cases "ops (kind t)")
    case (Some op)
    with Suc.prems obtain st1 n st2 where r: "a s = Inr st1" "f st1 = Inr (n, st2)"
      "bin_loop k ops a f (BinOp lhs op n) st2 = Inr x" by (auto simp: st)
    with Suc.IH [OF r(3)] assms Some show ?thesis by (simp add: st refines_lexerD refines_parserD)
  qed (use Suc.prems st in simp)
qed simp

lemma bin_level_refines:
  "refines_lexer a b \<Longrightarrow> refines_parser f g \<Longrightarrow> refines_parser (bin_level k ops a f) (bin_level k ops b g)"
  unfolding refines_parser_def [of "bin_level k ops a f"] bin_level_def
  by (fastforce dest: bin_loop_refines refines_parserD)

lemma args_loop_refines:
  assumes "refines_lexer a b" "refines_parser f g"
  shows "args_loop k a f args st = Inr x \<Longrightarrow> args_loop k b g args st = Inr x"
proof (induction k arbitrary: args st)
  case (Suc k)
  obtain t s where st: "st = (t, s)" by (cases st)
  show ?case
  proof (cases "kind t = TComma")
    case True
    with Suc.prems obtain st1 n st2 where r: "a s = Inr st1" "f st1 = Inr (n, st2)"
      "args_loop k a f (args @ [n]) st2 = Inr x" by (auto simp: st)
    with Suc.IH [OF r(3)] assms True show ?thesis by (simp add: st refines_lexerD refines_parserD)
  qed (use Suc.prems st in simp)
qed simp

lemma call_args_refines:
  assumes "refines_lexer a b" "refines_parser f g"
  shows "call_args k a f st = Inr x \<Longrightarrow> call_args k b g st = Inr x"
  using assms by (fastforce simp: call_args_def dest: args_loop_refines refines_parserD split: if_splits)

lemma parse_atom_refines:
  assumes ab: "refines_lexer a b" and fg: "refines_parser f g"
  shows "refines_parser (parse_atom k a f) (parse_atom k b g)"
proof -
  have "parse_atom k b g (t, s) = Inr x" if p: "parse_atom k a f (t, s) = Inr x" for t s x
  proof -
    consider "kind t = TInteger" | (name) "kind t = TName" | (paren) "kind t = TLParen"
      using parse_atom_kind [OF p] by blast
    then show ?thesis
    proof cases
      case 1
      with p show ?thesis by (auto dest: refines_lexerD [OF ab])
    next
      case name
      with p obtain t1 s1 where 1: "a s = Inr (t1, s1)" by auto
      show ?thesis
      proof (cases "kind t1 = TLParen")
        case True
        with p name 1 obtain st2 args t3 s3 st4 where "a s1 = Inr st2" "call_args k a f st2 = Inr (args, (t3, s3))"
          "kind t3 = TRParen" "a s3 = Inr st4" "x = (Call (ttext t) args, st4)"
          by (auto split: if_splits)
        with name 1 True show ?thesis
          by (simp add: refines_lexerD [OF ab] call_args_refines [OF ab fg])
      next
        case False
        with p name 1 show ?thesis by (auto simp: refines_lexerD [OF ab])
      qed
    next
      case paren
      with p obtain st1 n t2 s2 st3 where "a s = Inr st1" "f st1 = Inr (n, (t2, s2))" "kind t2 = TRParen"
        "a s2 = Inr st3" "x = (n, st3)"
        by (auto split: if_splits)
      with paren show ?thesis by (simp add: refines_lexerD [OF ab] refines_parserD [OF fg])
    qed
  qed
  then show ?thesis unfolding refines_parser_def by (metis prod.collapse)
qed

lemma parse_unary_refines:
  assumes ab: "refines_lexer a b" and fg: "refines_parser f g"
  shows "refines_parser (parse_unary k a f) (parse_unary k b g)"
proof (induction k)
  case (Suc k)
  have "parse_unary (Suc k) b g (t, s) = Inr x" if p: "parse_unary (Suc k) a f (t, s) = Inr x" for t s x
  proof (cases "kind t = TMinus \<or> kind t = TPlus")
    case True
    with p obtain st n st' where "a s = Inr st" "parse_unary k a f st = Inr (n, st')"
      "x = (UnaryOp (if kind t = TMinus then USub else UAdd) n, st')" by (auto split: if_splits)
    with True show ?thesis by (auto simp: refines_lexerD [OF ab] refines_parserD [OF Suc])
  next
    case False
    with p show ?thesis by (simp add: refines_parserD [OF fg])
  qed
  then show ?case unfolding refines_parser_def by (metis prod.collapse)
qed (simp add: refines_parser_def)

lemma parse_expr_refines: "refines_lexer a b \<Longrightarrow> refines_parser (parse_expr k a) (parse_expr k b)"
proof (induction k)
  case (Suc k)
  then have "refines_parser (parse_xor (Suc k) a (parse_expr k a)) (parse_xor (Suc k) b (parse_expr k b))"
    unfolding parse_xor_def parse_and_def parse_add_def parse_mul_def
    by (intro bin_level_refines parse_unary_refines parse_atom_refines) auto
  then show ?case by (simp add: refines_parser_def)
qed (simp add: refines_parser_def)

lemma Tokenizer_next_refines: "refines_lexer (Tokenizer_next TryParseInt64Literal) (Tokenizer_next any_literal)"
proof -
  have lit: "any_literal t = Some v" if "TryParseInt64Literal t = Some v" "list_all isdigit t" "t \<noteq> []" for t v
    using that by (auto simp: TryParseInt64Literal_digits any_literal_def split: if_splits)
  have "Tokenizer_next any_literal s = Inr x" if n: "Tokenizer_next TryParseInt64Literal s = Inr x" for s x
  proof (cases "dropWhile isspace s")
    case Nil
    show ?thesis using n unfolding Tokenizer_next_def Nil by simp
  next
    case (Cons c cs)
    show ?thesis
    proof (cases "isdigit c")
      case True
      let ?t = "takeWhile isdigit (c # cs)"
      have t: "?t \<noteq> []" "list_all isdigit ?t" using True list_all_takeWhile [of isdigit "c # cs"] by simp_all
      from n True obtain v where "TryParseInt64Literal ?t = Some v"
        and x: "x = (\<lparr>kind = TInteger, ttext = ?t, tvalue = v\<rparr>, dropWhile isdigit (c # cs))"
        by (auto simp: Tokenizer_next_def Cons Let_def split: option.splits)
      from lit [OF this(1) t(2,1)] True x show ?thesis by (simp add: Tokenizer_next_def Cons Let_def)
    next
      case False
      with n show ?thesis by (simp add: Tokenizer_next_def Cons)
    qed
  qed
  then show ?thesis by (simp add: refines_lexer_def)
qed

lemma parse_any_literal: "parse s = Inr n \<Longrightarrow> Parser_parse any_literal s = Inr n"
  using refines_lexerD [OF Tokenizer_next_refines] refines_parserD [OF parse_expr_refines [OF Tokenizer_next_refines]]
  by (fastforce simp: parse_def Parser_parse_def Let_def)

lemma text_sem_parse: "parse s = Inr n \<Longrightarrow> text_sem env s = sem env n"
  by (simp add: text_sem_def parse_any_literal)

section \<open>Simplification\<close>

lemma try_parse_Some: "parse s = Inr n \<Longrightarrow> try_parse s = Some n"
  by (simp add: try_parse_def parse_def)

lemma simplify_expression_value:
  assumes p: "parse s = Inr n" and t: "tame env n" and v: "sem env n = Some v"
    and r: "simplify_expression s = Inr r" and ok: "divfree n \<or> no_leading_minus r"
  shows "result_val env r = Some v"
proof -
  from r obtain n' res where a: "apply_pipeline n = Inr n'" "run_add_visitor n' empty_result = Inr res"
    and m: "r = make_simplified res"
    by (auto simp: simplify_expression_def try_parse_Some [OF p])
  have k: "keeps env n n'"
    by (rule passes_keep [OF _ t v a(1) [unfolded apply_pipeline_def]])
      (use pipeline_passes_sound in auto)
  then have t': "tame env n'" "sem env n' = Some v" using v by (auto simp: keeps_def)
  let ?d = "divfree n"
  have "?d \<longrightarrow> divfree n'" using k by (simp add: keeps_def)
  from run_add_visitor_adds [OF a(2) t' this] have "adds env ?d v empty_result res" .
  then have "good_result env ?d res" "lin_val env res = v" by (auto dest: adds_from_empty)
  with make_simplified_sound [of env ?d res] ok m show ?thesis by auto
qed

text \<open>A value the evaluator computes is the meaning.\<close>

lemma eval_node_sem: "eval_node n env s = Inr v \<Longrightarrow> sem env n = Some v"
  using eval_node_exact [of n env s] by (auto simp: exact_outcome_def split: if_splits option.splits)

lemma evaluate_expression_sem:
  "evaluate_expression s env = Inr v \<Longrightarrow> text_sem env s = Some v"
  by (auto simp: evaluate_expression_def eval_node_sem text_sem_parse)

section \<open>Comparison\<close>

text \<open>
  A comparison speaks of every assignment of values that are not negative to the tokens; the visitor's
  keys must then have values that are not negative either.
\<close>

definition keys_nonneg :: "(string \<Rightarrow> int option) \<Rightarrow> AddVisitorResult \<Rightarrow> bool" where
  "keys_nonneg env res \<longleftrightarrow> (\<forall>(k, c) \<in> set (coeffs res). 0 \<le> text_val env k)"

lemma sum_list_nonneg_coeffs:
  "\<forall>(k, c) \<in> set cs. 0 \<le> c \<and> 0 \<le> (f k :: int) \<Longrightarrow> 0 \<le> sum_list (map (\<lambda>(k, c). c * f k) cs)"
  by (induction cs) auto

lemma sum_list_nonpos_coeffs:
  "\<forall>(k, c) \<in> set cs. c \<le> 0 \<and> 0 \<le> (f k :: int) \<Longrightarrow> sum_list (map (\<lambda>(k, c). c * f k) cs) \<le> 0"
  by (induction cs) (auto simp: mult_nonpos_nonneg add_nonpos_nonpos)

lemma compare_result_sound:
  assumes "keys_nonneg env res"
  shows "compare_result res = Greater \<Longrightarrow> 0 < lin_val env res"
    and "compare_result res = Smaller \<Longrightarrow> lin_val env res < 0"
    and "compare_result res = Equal \<Longrightarrow> lin_val env res = 0"
proof -
  let ?S = "sum_list (map (\<lambda>(k, c). c * text_val env k) (coeffs res))"
  have pos: "0 \<le> ?S" if "\<not> (\<exists>(k, v) \<in> set (coeffs res). v < 0)"
    by (rule sum_list_nonneg_coeffs) (use assms that in \<open>fastforce simp: keys_nonneg_def\<close>)
  have neg: "?S \<le> 0" if "\<not> (\<exists>(k, v) \<in> set (coeffs res). v > 0)"
    by (rule sum_list_nonpos_coeffs) (use assms that in \<open>fastforce simp: keys_nonneg_def\<close>)
  show "compare_result res = Greater \<Longrightarrow> 0 < lin_val env res"
    using pos by (auto simp: compare_result_def Let_def lin_val_def split: if_splits)
  show "compare_result res = Smaller \<Longrightarrow> lin_val env res < 0"
    using neg by (auto simp: compare_result_def Let_def lin_val_def split: if_splits)
  show "compare_result res = Equal \<Longrightarrow> lin_val env res = 0"
    using pos neg by (auto simp: compare_result_def Let_def lin_val_def split: if_splits)
qed

text \<open>The value of the combination the comparison looks at, for tame expressions.\<close>

lemma difference_value:
  assumes "difference_linear_combination e1 e2 = Inr res" and "parse (difference_text e1 e2) = Inr n"
    and "tame env n" and "sem env n = Some v"
  shows "lin_val env res = v"
proof -
  from assms(1,2) have "run_add_visitor n empty_result = Inr res" by (simp add: difference_linear_combination_def)
  from run_add_visitor_adds [OF this assms(3,4), of False] show ?thesis by (auto dest: adds_from_empty)
qed

text \<open>C1: Simplifying an expression never changes what it evaluates to: if the text has a value, the result of
  \<open>simplify_expression\<close> has that value too, an integer result is the value itself, and a text result cannot
  evaluate to anything else.  (For tame expressions; when the expression has divisions, for results that
  do not start with a minus sign.)\<close>

theorem simplify_keeps_the_value:
  assumes "evaluate_expression s ctx = Inr v" "parse s = Inr n" "tame ctx n"
    and "simplify_expression s = Inr r" "divfree n \<or> no_leading_minus r"
  shows "case r of IntResult k \<Rightarrow> k = v | TextResult t \<Rightarrow> text_sem ctx t = Some v \<and>
    (\<forall>w. evaluate_expression t ctx = Inr w \<longrightarrow> w = v)"
proof -
  have "sem ctx n = Some v"
    using evaluate_expression_sem [OF assms(1)] text_sem_parse [OF assms(2)] by simp
  from simplify_expression_value [OF assms(2,3) this assms(4,5)] have "result_val ctx r = Some v" .
  then show ?thesis
    using evaluate_expression_sem by (fastforce simp: result_val_def split: SimplifyResult.splits)
qed

lemma simplify_keeps_the_value_witness:
  "text_sem (\<lambda>x. Some 5) ''3*a+2'' = Some 17"
proof -
  have e: "evaluate_expression ''a+a*2+3-1'' (\<lambda>x. Some 5) = Inr 17" by code_simp
  have p: "parse ''a+a*2+3-1'' =
    Inr (BinOp (BinOp (BinOp (Name ''a'') Add (BinOp (Name ''a'') Mult (Constant 2))) Add (Constant 3)) Sub (Constant 1))"
    by code_simp
  have r: "simplify_expression ''a+a*2+3-1'' = Inr (TextResult ''3*a+2'')" by code_simp
  have "tame (\<lambda>x. Some 5)
    (BinOp (BinOp (BinOp (Name ''a'') Add (BinOp (Name ''a'') Mult (Constant 2))) Add (Constant 3)) Sub (Constant 1))"
    by (simp add: is_name_def is_ident_char_def char_class)
  from simplify_keeps_the_value [OF e p this r] show ?thesis by simp
qed

text \<open>C14: A definite answer of the comparison is right for every assignment under which the terms it collected are
  non-negative and the text of the difference, \<open>e1-(e2)\<close>, is tame (names that are identifiers, positive
  divisors without divisions, no exact division, no division inside a product, \<open>CeilToInt\<close> on non-negative
  numerators): \<open>Greater\<close>, \<open>Smaller\<close> and \<open>Equal\<close> give the sign of the value of that text.  It is not true
  without the condition: \<open>a*(b//c)\<close> and \<open>a*b//c\<close> are reported equal.\<close>

theorem comparison_is_sound:
  assumes "compare_expressions e1 e2 = Inr (c, d)" "c \<noteq> Unknown"
    and "parse (difference_text e1 e2) = Inr n" "tame env n" "sem env n = Some v"
    and "\<forall>res. difference_linear_combination e1 e2 = Inr res \<longrightarrow> keys_nonneg env res"
  shows "c = (if 0 < v then Greater else if v < 0 then Smaller else Equal)"
proof -
  from assms(1) obtain res where res: "difference_linear_combination e1 e2 = Inr res"
    and c: "c = compare_result res" by (auto simp: compare_expressions_def)
  from assms(6) res have k: "keys_nonneg env res" by blast
  have v: "lin_val env res = v" by (rule difference_value [OF res assms(3-5)])
  show ?thesis
    using compare_result_sound [OF k] assms(2) c v by (cases c) auto
qed

lemma comparison_is_sound_witness:
  "\<exists>n v. parse (difference_text ''2*a+1'' ''a'') = Inr n \<and> sem (\<lambda>x. Some 5) n = Some v \<and> 0 < v"
proof -
  let ?n = "BinOp (BinOp (BinOp (Constant 2) Mult (Name ''a'')) Add (Constant 1)) Sub (Name ''a'')"
  have d: "difference_linear_combination ''2*a+1'' ''a'' = Inr \<lparr>coeffs = [(''a'', 1)], const_term = 1\<rparr>" by code_simp
  have c: "compare_expressions ''2*a+1'' ''a'' = Inr (Greater, TextResult ''-a-1'')" by code_simp
  have p: "parse (difference_text ''2*a+1'' ''a'') = Inr ?n" by code_simp
  have t: "tame (\<lambda>x. Some 5) ?n" by (simp add: is_name_def is_ident_char_def char_class)
  obtain v where s: "sem (\<lambda>x. Some 5) ?n = Some v" by simp
  have k: "keys_nonneg (\<lambda>x. Some 5) \<lparr>coeffs = [(''a'', 1)], const_term = 1\<rparr>"
  proof -
    have "text_sem (\<lambda>x. Some 5) ''a'' = Some 5" by code_simp
    then show ?thesis by (simp add: keys_nonneg_def text_val_def)
  qed
  have "Greater = (if 0 < v then Greater else if v < 0 then Smaller else Equal)"
    by (rule comparison_is_sound [OF c _ p t s]) (simp_all add: d k)
  then have "0 < v" by (simp split: if_splits)
  with p s show ?thesis by blast
qed

text \<open>The printer drops the parentheses of a division that is the right factor of a product, so the simplifier
  changes the value: \<open>a*(b//c)\<close> becomes \<open>a*b//c\<close>, which is 3 and not 2 at \<open>a = 2, b = 3, c = 2\<close>.\<close>

lemma simplify_drops_parentheses:
  "simplify_expression ''a*(b//c)'' = Inr (TextResult ''a*b//c'') \<and>
   evaluate_expression ''a*(b//c)'' ((\<lambda>x. None)(''a'' \<mapsto> 2, ''b'' \<mapsto> 3, ''c'' \<mapsto> 2)) = Inr 2 \<and>
   evaluate_expression ''a*b//c'' ((\<lambda>x. None)(''a'' \<mapsto> 2, ''b'' \<mapsto> 3, ''c'' \<mapsto> 2)) = Inr 3"
proof (intro conjI)
  show "simplify_expression ''a*(b//c)'' = Inr (TextResult ''a*b//c'')" by code_simp
  show "evaluate_expression ''a*(b//c)'' ((\<lambda>x. None)(''a'' \<mapsto> 2, ''b'' \<mapsto> 3, ''c'' \<mapsto> 2)) = Inr 2" by code_simp
  show "evaluate_expression ''a*b//c'' ((\<lambda>x. None)(''a'' \<mapsto> 2, ''b'' \<mapsto> 3, ''c'' \<mapsto> 2)) = Inr 3" by code_simp
qed

text \<open>For the same reason the comparison takes a product with a division for another one.\<close>

lemma comparison_drops_parentheses:
  "(case compare_expressions ''a*(b//c)'' ''a*b//c'' of Inr (order, d) \<Rightarrow> order = Equal | Inl e \<Rightarrow> False)"
  by code_simp

text \<open>A coefficient of minus one is printed as a bare minus sign in front of the term: \<open>-(x//2)\<close> becomes
  \<open>-x//2\<close>, which the parser reads as \<open>(-x)//2\<close>.\<close>

lemma simplify_negated_division:
  "simplify_expression ''-(x//2)'' = Inr (TextResult ''-x//2'') \<and>
   evaluate_expression ''-(x//2)'' (\<lambda>x. Some 3) = Inr (- 1) \<and>
   evaluate_expression ''-x//2'' (\<lambda>x. Some 3) = Inr (- 2)"
proof (intro conjI)
  show "simplify_expression ''-(x//2)'' = Inr (TextResult ''-x//2'')" by code_simp
  show "evaluate_expression ''-(x//2)'' (\<lambda>x. Some 3) = Inr (- 1)" by code_simp
  show "evaluate_expression ''-x//2'' (\<lambda>x. Some 3) = Inr (- 2)" by code_simp
qed

text \<open>The canceller takes a floor division for an exact one when the divisor contains it: \<open>x//(x//2)\<close> is
  simplified to 2, and is 3 at \<open>x = 3\<close>; and \<open>6*((x//2)/:3)\<close> is simplified to \<open>x\<close>, and is 6 at \<open>x = 7\<close>.\<close>

lemma simplify_cancels_floor_divisions:
  "simplify_expression ''x//(x//2)'' = Inr (IntResult 2) \<and>
   evaluate_expression ''x//(x//2)'' (\<lambda>x. Some 3) = Inr 3 \<and>
   simplify_expression ''6*((x//2)/:3)'' = Inr (TextResult ''x'') \<and>
   evaluate_expression ''6*((x//2)/:3)'' (\<lambda>x. Some 7) = Inr 6"
proof (intro conjI)
  show "simplify_expression ''x//(x//2)'' = Inr (IntResult 2)" by code_simp
  show "evaluate_expression ''x//(x//2)'' (\<lambda>x. Some 3) = Inr 3" by code_simp
  show "simplify_expression ''6*((x//2)/:3)'' = Inr (TextResult ''x'')" by code_simp
  show "evaluate_expression ''6*((x//2)/:3)'' (\<lambda>x. Some 7) = Inr 6" by code_simp
qed

text \<open>The comparison takes every collected term for non-negative, whatever it is: \<open>(a-b)*c+1\<close> is reported
  greater than 0, and is -4 at \<open>a = 0, b = 5, c = 1\<close>.\<close>

lemma comparison_of_negative_terms:
  "(\<exists>d. compare_expressions ''(a-b)*c+1'' ''0'' = Inr (Greater, d)) \<and>
   evaluate_expression ''(a-b)*c+1'' ((\<lambda>x. None)(''a'' \<mapsto> 0, ''b'' \<mapsto> 5, ''c'' \<mapsto> 1)) = Inr (- 4)"
proof
  have "compare_expressions ''(a-b)*c+1'' ''0'' = Inr (Greater, TextResult ''-(a-b)*c-1'')" by code_simp
  then show "\<exists>d. compare_expressions ''(a-b)*c+1'' ''0'' = Inr (Greater, d)" by blast
  show "evaluate_expression ''(a-b)*c+1'' ((\<lambda>x. None)(''a'' \<mapsto> 0, ''b'' \<mapsto> 5, ''c'' \<mapsto> 1)) = Inr (- 4)" by code_simp
qed

end
