(* ===== verification/ExprDims.thy ===== *)
theory ExprDims
  imports ExprSimplify
begin

text \<open>
  The dimension operations of \<open>expressions.cc\<close> with their memoization cache, the accumulator \<open>DimSum\<close>
  of \<open>dim_sum.cc\<close>, the renaming of dimensions, and the inference of dimension ranges.  A \<open>DimType\<close> is
  an integer or a text, as a \<open>SimplifyResult\<close> is.  A cache pointer is an optional map.
\<close>

type_synonym DimType = SimplifyResult
type_synonym cache = "(string \<Rightarrow> DimType option) option"

section \<open>Dimension operations\<close>

definition dim_to_string :: "DimType \<Rightarrow> string" where
  "dim_to_string d = (case d of IntResult v \<Rightarrow> to_string v | TextResult t \<Rightarrow> t)"

definition is_zero_dim :: "DimType \<Rightarrow> bool" where
  "is_zero_dim d \<longleftrightarrow> (case d of IntResult v \<Rightarrow> v = 0 | TextResult t \<Rightarrow> False)"

text \<open>\<open>simplify_dim\<close>: the result and the cache after it.\<close>

definition simplify_dim :: "string \<Rightarrow> cache \<Rightarrow> (DimType \<times> cache) res" where
  "simplify_dim expr c =
     (case c of
        None \<Rightarrow> bindR (simplify_expression expr) (\<lambda>r. Inr (r, None))
      | Some m \<Rightarrow>
          (case m expr of
             Some d \<Rightarrow> Inr (d, c)
           | None \<Rightarrow> bindR (simplify_expression expr) (\<lambda>r. Inr (r, Some (m(expr \<mapsto> r))))))"

text \<open>\<open>simplify_dim_type\<close>: an integer is simple already.\<close>

definition simplify_dim_type :: "DimType \<Rightarrow> cache \<Rightarrow> (DimType \<times> cache) res" where
  "simplify_dim_type d c = (case d of IntResult v \<Rightarrow> Inr (d, c) | TextResult t \<Rightarrow> simplify_dim t c)"

definition infix_text :: "DimType \<Rightarrow> string \<Rightarrow> DimType \<Rightarrow> string" where
  "infix_text a sy b = ''('' @ dim_to_string a @ '')'' @ sy @ ''('' @ dim_to_string b @ '')''"

text \<open>The shape all binary operations share: two integers at once, else the simplifier.\<close>

definition dim_binary :: "(int \<Rightarrow> int \<Rightarrow> int res) \<Rightarrow> string \<Rightarrow> DimType \<Rightarrow> DimType \<Rightarrow> cache \<Rightarrow> (DimType \<times> cache) res"
  where
  "dim_binary f sy a b c =
     (case (a, b) of
        (IntResult x, IntResult y) \<Rightarrow> bindR (f x y) (\<lambda>v. Inr (IntResult v, c))
      | _ \<Rightarrow> simplify_dim (infix_text a sy b) c)"

definition dim_add :: "DimType \<Rightarrow> DimType \<Rightarrow> cache \<Rightarrow> (DimType \<times> cache) res" where
  "dim_add = dim_binary CheckedDimensionAdd ''+''"

definition dim_sub :: "DimType \<Rightarrow> DimType \<Rightarrow> cache \<Rightarrow> (DimType \<times> cache) res" where
  "dim_sub = dim_binary checked_subtract_i64 ''-''"

definition dim_mul :: "DimType \<Rightarrow> DimType \<Rightarrow> cache \<Rightarrow> (DimType \<times> cache) res" where
  "dim_mul = dim_binary CheckedDimensionMultiply ''*''"

definition dim_div :: "DimType \<Rightarrow> DimType \<Rightarrow> cache \<Rightarrow> (DimType \<times> cache) res" where
  "dim_div = dim_binary raw_div ''//''"

definition exact_div_ints :: "int \<Rightarrow> int \<Rightarrow> int res" where
  "exact_div_ints av bv =
     (if bv = 0 then Inl (RuntimeError ''dim_exact_div: division by zero'')
      else bindR (raw_mod av bv) (\<lambda>m.
        if m \<noteq> 0 then Inl (RuntimeError (''dim_exact_div: division is not exact ('' @ to_string av @
               '' % '' @ to_string bv @ '' != 0)''))
        else raw_div av bv))"

definition dim_exact_div :: "DimType \<Rightarrow> DimType \<Rightarrow> cache \<Rightarrow> (DimType \<times> cache) res" where
  "dim_exact_div = dim_binary exact_div_ints ''/:''"

definition dim_mod :: "DimType \<Rightarrow> DimType \<Rightarrow> cache \<Rightarrow> (DimType \<times> cache) res" where
  "dim_mod = dim_binary raw_mod ''%''"

definition dim_max :: "DimType \<Rightarrow> DimType \<Rightarrow> cache \<Rightarrow> (DimType \<times> cache) res" where
  "dim_max = dim_binary (\<lambda>x y. Inr (max x y)) ''^''"

definition dim_min :: "DimType \<Rightarrow> DimType \<Rightarrow> cache \<Rightarrow> (DimType \<times> cache) res" where
  "dim_min = dim_binary (\<lambda>x y. Inr (min x y)) ''&''"

definition int_dim :: "DimType \<Rightarrow> int option" where
  "int_dim d = (case d of IntResult v \<Rightarrow> Some v | TextResult t \<Rightarrow> None)"

definition star_text :: "DimType list \<Rightarrow> string" where
  "star_text args =
     (case args of [] \<Rightarrow> []
      | a # rest \<Rightarrow> (''('' @ dim_to_string a @ '')'') @
          concat (map (\<lambda>x. ''*'' @ ''('' @ dim_to_string x @ '')'') rest))"

definition dim_multi_mul :: "DimType list \<Rightarrow> cache \<Rightarrow> (DimType \<times> cache) res" where
  "dim_multi_mul args c =
     (if \<exists>a \<in> set args. int_dim a = Some 0 then Inr (IntResult 0, c)
      else if \<forall>a \<in> set args. int_dim a \<noteq> None then
        bindR (foldR (\<lambda>a prod. CheckedDimensionMultiply prod (the (int_dim a))) args 1)
          (\<lambda>p. Inr (IntResult p, c))
      else simplify_dim (star_text args) c)"

section \<open>The cache is transparent\<close>

text \<open>A cache whose entries are what the simplifier returns.\<close>

definition cache_ok :: "cache \<Rightarrow> bool" where
  "cache_ok c \<longleftrightarrow> (case c of None \<Rightarrow> True
     | Some m \<Rightarrow> \<forall>e d. m e = Some d \<longrightarrow> simplify_expression e = Inr d)"

lemma simplify_dim_cache:
  assumes "cache_ok c"
  shows "simplify_dim e c = Inr (d, c') \<Longrightarrow> simplify_expression e = Inr d \<and> cache_ok c'"
    and "simplify_dim e c = Inl x \<longleftrightarrow> simplify_expression e = Inl x"
  using assms
  by (auto simp: simplify_dim_def cache_ok_def bindR_eq_Inl split: option.splits if_splits)

lemma simplify_dim_None:
  "simplify_dim e None = Inr (d, None) \<longleftrightarrow> simplify_expression e = Inr d"
  "simplify_dim e None = Inl x \<longleftrightarrow> simplify_expression e = Inl x"
  by (auto simp: simplify_dim_def bindR_eq_Inl)

lemma dim_binary_cache:
  assumes c: "cache_ok c"
  shows "dim_binary f sy a b c = Inr (d, c') \<Longrightarrow> dim_binary f sy a b None = Inr (d, None) \<and> cache_ok c'"
    and "dim_binary f sy a b c = Inl x \<longleftrightarrow> dim_binary f sy a b None = Inl x"
proof -
  show "dim_binary f sy a b c = Inr (d, c') \<Longrightarrow> dim_binary f sy a b None = Inr (d, None) \<and> cache_ok c'"
    using c simplify_dim_cache(1) [OF c, of "infix_text a sy b" d c']
    by (cases a; cases b) (auto simp: dim_binary_def simplify_dim_None)
  show "dim_binary f sy a b c = Inl x \<longleftrightarrow> dim_binary f sy a b None = Inl x"
    using simplify_dim_cache(2) [OF c, of "infix_text a sy b" x]
    by (cases a; cases b) (auto simp: dim_binary_def simplify_dim_None bindR_eq_Inl)
qed

section \<open>DimSum\<close>

record DimSum =
  sum_constant :: int
  sum_coefficients :: "string \<Rightarrow> int option"

definition DimSum_empty :: DimSum where
  "DimSum_empty = \<lparr>sum_constant = 0, sum_coefficients = (\<lambda>k. None)\<rparr>"

text \<open>The coefficient of a text, zero when the map has no entry; \<open>coefficients_[term]\<close> inserts that zero.\<close>

definition coefficient :: "DimSum \<Rightarrow> string \<Rightarrow> int" where
  "coefficient s t = (case sum_coefficients s t of None \<Rightarrow> 0 | Some n \<Rightarrow> n)"

definition DimSum_Add :: "DimType \<Rightarrow> DimSum \<Rightarrow> DimSum res" where
  "DimSum_Add trm s =
     (case trm of
        IntResult v \<Rightarrow> bindR (CheckedDimensionAdd (sum_constant s) v) (\<lambda>c. Inr (s\<lparr>sum_constant := c\<rparr>))
      | TextResult t \<Rightarrow>
          bindR (CheckedDimensionAdd (coefficient s t) 1)
            (\<lambda>n. Inr (s\<lparr>sum_coefficients := (sum_coefficients s)(t \<mapsto> n)\<rparr>)))"

definition DimSum_Remove :: "DimType \<Rightarrow> DimSum \<Rightarrow> DimSum res" where
  "DimSum_Remove trm s =
     (case trm of
        IntResult v \<Rightarrow> bindR (checked_subtract_i64 (sum_constant s) v) (\<lambda>c. Inr (s\<lparr>sum_constant := c\<rparr>))
      | TextResult t \<Rightarrow>
          (case sum_coefficients s t of
             None \<Rightarrow> Inl InvalidArgument
           | Some n \<Rightarrow> bindR (raw_sub n 1) (\<lambda>m.
               Inr (s\<lparr>sum_coefficients := (if m = 0 then (sum_coefficients s)(t := None)
                                         else (sum_coefficients s)(t \<mapsto> m))\<rparr>))))"

text \<open>\<open>Build\<close>; \<open>keys\<close> are the keys of the map in its order.\<close>

definition dim_sum_text :: "string list \<Rightarrow> DimSum \<Rightarrow> string" where
  "dim_sum_text keys s =
     foldl (\<lambda>expr k. (if expr = [] then [] else expr @ ''+'') @
              (let n = the (sum_coefficients s k)
               in if n = 1 then ''('' @ k @ '')'' else to_string n @ ''*('' @ k @ '')''))
       (if sum_constant s \<noteq> 0 then to_string (sum_constant s) else []) keys"

definition DimSum_Build :: "string list \<Rightarrow> DimSum \<Rightarrow> cache \<Rightarrow> (DimType \<times> cache) res" where
  "DimSum_Build keys s c =
     (if keys = [] then Inr (IntResult (sum_constant s), c) else simplify_dim (dim_sum_text keys s) c)"

text \<open>The terms a sum stands for: \<open>n\<close> of each text, and the constant.\<close>

definition int_part :: "DimType \<Rightarrow> int" where
  "int_part t = (case t of IntResult v \<Rightarrow> v | TextResult _ \<Rightarrow> 0)"

definition sums :: "DimType list \<Rightarrow> DimSum \<Rightarrow> bool" where
  "sums terms s \<longleftrightarrow> sum_constant s = sum_list (map int_part terms) \<and>
     (\<forall>t. coefficient s t = int (count_list terms (TextResult t))) \<and>
     (\<forall>t n. sum_coefficients s t = Some n \<longrightarrow> 0 < n)"

lemma coefficient_update [simp]:
  "coefficient (s\<lparr>sum_constant := c\<rparr>) t = coefficient s t"
  "coefficient (s\<lparr>sum_coefficients := (sum_coefficients s)(x \<mapsto> n)\<rparr>) t = (if t = x then n else coefficient s t)"
  "coefficient (s\<lparr>sum_coefficients := (sum_coefficients s)(x := None)\<rparr>) t = (if t = x then 0 else coefficient s t)"
  by (simp_all add: coefficient_def)

lemma sums_empty: "sums [] DimSum_empty"
  by (simp add: sums_def DimSum_empty_def coefficient_def)

lemma sums_Add: "sums ts s \<Longrightarrow> DimSum_Add t s = Inr s' \<Longrightarrow> sums (t # ts) s'"
  by (cases t) (auto simp: sums_def DimSum_Add_def int_part_def split: if_splits)

lemma sums_Remove:
  assumes s: "sums (t # ts) s" and r: "DimSum_Remove t s = Inr s'"
  shows "sums ts s'"
proof (cases t)
  case (IntResult v)
  with assms show ?thesis by (auto simp: sums_def DimSum_Remove_def int_part_def)
next
  case (TextResult x)
  with r obtain n where n: "sum_coefficients s x = Some n"
    and s': "s' = s\<lparr>sum_coefficients := (if n - 1 = 0 then (sum_coefficients s)(x := None)
                                      else (sum_coefficients s)(x \<mapsto> n - 1))\<rparr>"
    by (auto simp: DimSum_Remove_def split: option.splits)
  have c: "coefficient s y = int (count_list (t # ts) (TextResult y))" for y
    using s by (simp add: sums_def)
  have "0 < n" using s n by (auto simp: sums_def)
  moreover have "n = int (count_list ts (TextResult x)) + 1"
    using c [of x] n TextResult by (simp add: coefficient_def)
  ultimately show ?thesis
    using s c TextResult by (auto simp: sums_def s' int_part_def split: if_splits)
qed

section \<open>Properties\<close>

lemma sums_perm: "mset ts = mset us \<Longrightarrow> sums ts s \<longleftrightarrow> sums us s"
proof -
  assume m: "mset ts = mset us"
  then have "sum_list (map int_part ts) = sum_list (map int_part us)"
    by (metis mset_map sum_mset_sum_list)
  moreover have "count_list ts x = count_list us x" for x using m by (metis count_mset)
  ultimately show ?thesis by (simp add: sums_def)
qed

text \<open>C35: A dimension operation gives the same result, or the same error, with a cache as without one, and leaves a
  cache whose entries are still what the simplifier returns.\<close>

theorem cache_is_transparent:
  assumes "cache_ok c"
    and "f \<in> {dim_add, dim_sub, dim_mul, dim_div, dim_exact_div, dim_mod, dim_max, dim_min}"
  shows "case f a b c of
      Inr (d, c') \<Rightarrow> f a b None = Inr (d, None) \<and> cache_ok c'
    | Inl e \<Rightarrow> f a b None = Inl e"
proof -
  obtain g sy where f: "f = dim_binary g sy"
    using assms(2) unfolding insert_iff dim_add_def [abs_def] dim_sub_def [abs_def] dim_mul_def [abs_def]
      dim_div_def [abs_def] dim_exact_div_def [abs_def] dim_mod_def [abs_def] dim_max_def [abs_def] dim_min_def [abs_def]
    by blast
  show ?thesis
    using dim_binary_cache [OF assms(1), of g sy a b] unfolding f by (auto split: sum.splits prod.splits)
qed

lemma cache_is_transparent_witness:
  "dim_add (TextResult ''a'') (IntResult 0) None = Inr (TextResult ''a'', None)"
proof -
  have s: "simplify_expression ''(a)+(0)'' = Inr (TextResult ''a'')" by code_simp
  have ok: "cache_ok (Some ((\<lambda>x. None)(''(a)+(0)'' \<mapsto> TextResult ''a'')))"
    using s by (simp add: cache_ok_def)
  have "dim_add (TextResult ''a'') (IntResult 0) (Some ((\<lambda>x. None)(''(a)+(0)'' \<mapsto> TextResult ''a''))) =
      Inr (TextResult ''a'', Some ((\<lambda>x. None)(''(a)+(0)'' \<mapsto> TextResult ''a'')))"
  proof -
    have "to_string 0 = ''0''" by code_simp
    then show ?thesis by (simp add: dim_add_def dim_binary_def simplify_dim_def infix_text_def dim_to_string_def)
  qed
  with cache_is_transparent [OF ok, of dim_add "TextResult ''a''" "IntResult 0"] show ?thesis by simp
qed

text \<open>A \<open>DimSum\<close> stands for the multiset of the terms added and not yet removed: the constant is the sum of the
  integers, every coefficient the number of copies of its text, and no entry with a zero coefficient is
  kept.  Removing a text that is not there throws.\<close>

theorem dim_sum_counts_terms:
  assumes "sums ts s"
  shows "(\<forall>s'. DimSum_Add t s = Inr s' \<longrightarrow> sums (t # ts) s') \<and>
    (t \<in> set ts \<longrightarrow> (\<forall>s'. DimSum_Remove t s = Inr s' \<longrightarrow> sums (remove1 t ts) s')) \<and>
    (\<forall>x. TextResult x \<notin> set ts \<longrightarrow> DimSum_Remove (TextResult x) s = Inl InvalidArgument)"
proof (intro conjI allI impI)
  show "sums (t # ts) s'" if "DimSum_Add t s = Inr s'" for s' using sums_Add [OF assms that] .
  show "sums (remove1 t ts) s'" if "t \<in> set ts" "DimSum_Remove t s = Inr s'" for s'
  proof (rule sums_Remove [OF _ that(2)])
    show "sums (t # remove1 t ts) s" using sums_perm [of "t # remove1 t ts" ts s] assms that(1) by simp
  qed
  show "DimSum_Remove (TextResult x) s = Inl InvalidArgument" if "TextResult x \<notin> set ts" for x
  proof -
    have c: "coefficient s x = 0" using assms that by (simp add: sums_def count_list_0_iff)
    have "sum_coefficients s x \<noteq> Some m" for m
      using c assms by (force simp: sums_def coefficient_def)
    then have "sum_coefficients s x = None" by (metis not_None_eq)
    then show ?thesis by (simp add: DimSum_Remove_def)
  qed
qed

lemma dim_sum_counts_terms_witness:
  "sums [TextResult ''a''] (DimSum_empty\<lparr>sum_coefficients := (sum_coefficients DimSum_empty)(''a'' \<mapsto> 1)\<rparr>)"
  using dim_sum_counts_terms [OF sums_empty, of "TextResult ''a''"]
  by (simp add: DimSum_Add_def coefficient_def DimSum_empty_def i64_defs)

text \<open>\<open>dim_div\<close>, documented as a floor division, truncates when both dimensions are integers: it gives -3 for
  -7 and 2, where the same division written as an expression gives -4, and has no meaning at all for the
  divisor 0.\<close>

lemma dim_div_truncates:
  "dim_div (IntResult (- 7)) (IntResult 2) c = Inr (IntResult (- 3), c) \<and>
   evaluate_expression ''(-7)//(2)'' env = Inr (- 4) \<and>
   dim_div (IntResult v) (IntResult 0) c = Inl Undefined"
proof (intro conjI)
  show "dim_div (IntResult (- 7)) (IntResult 2) c = Inr (IntResult (- 3), c)"
    by (simp add: dim_div_def dim_binary_def raw_div_def raw_i64_def i64_defs signed_divide_int_def)
  have p: "parse ''(-7)//(2)'' = Inr (BinOp (UnaryOp USub (Constant 7)) FloorDiv (Constant 2))" by code_simp
  have r: "floor_div_i64 (- 7) 2 = Inr (- 4)"
    by (simp add: i64_defs signed_divide_int_def)
  show "evaluate_expression ''(-7)//(2)'' env = Inr (- 4)"
    by (simp add: evaluate_expression_def p raw_i64_def i64_defs eval_binop_def r)
  show "dim_div (IntResult v) (IntResult 0) c = Inl Undefined"
    by (simp add: dim_div_def dim_binary_def raw_div_def)
qed

end
