(* ===== verification/ExprRename.thy ===== *)
theory ExprRename
  imports ExprDims
begin

text \<open>
  The renaming functions of \<open>expressions.cc\<close> and the inference of dimension ranges from equalities.
  An unordered map is a function; where the code iterates over one, the model takes the entries in
  the order of the iteration, and the lemmas hold for every order.
\<close>

section \<open>Renaming names and subexpressions\<close>

text \<open>
  \<open>RenameTransformer\<close>: a name is mapped; with \<open>match\<close>, a compound subexpression whose text is a key
  collapses to the mapped name.
\<close>

definition compound_hit :: "(string \<Rightarrow> string option) \<Rightarrow> node \<Rightarrow> string option" where
  "compound_hit mapping n =
     (case mapping (unparse n) of Some y \<Rightarrow> if y \<noteq> unparse n then Some y else None | None \<Rightarrow> None)"

fun rename_node :: "(string \<Rightarrow> string option) \<Rightarrow> bool \<Rightarrow> node \<Rightarrow> node" where
  "rename_node mapping match (Constant c) = Constant c"
| "rename_node mapping match (Name x) =
     Name (case mapping x of Some y \<Rightarrow> y | None \<Rightarrow> x)"
| "rename_node mapping match (BinOp l op r) =
     (if match \<and> compound_hit mapping (BinOp l op r) \<noteq> None
      then Name (the (compound_hit mapping (BinOp l op r)))
      else BinOp (rename_node mapping match l) op (rename_node mapping match r))"
| "rename_node mapping match (UnaryOp u x) =
     (if match \<and> compound_hit mapping (UnaryOp u x) \<noteq> None
      then Name (the (compound_hit mapping (UnaryOp u x)))
      else UnaryOp u (rename_node mapping match x))"
| "rename_node mapping match (Call f args) =
     (if match \<and> compound_hit mapping (Call f args) \<noteq> None
      then Name (the (compound_hit mapping (Call f args)))
      else Call f (map (rename_node mapping match) args))"

definition broadcast_call :: "string \<Rightarrow> node list \<Rightarrow> node res" where
  "broadcast_call f args =
     (case args of
        [a, b] \<Rightarrow> Inr (if f = ''broadcast'' \<and> unparse a = unparse b then a else Call f args)
      | _ \<Rightarrow> Inr (Call f args))"

definition BroadcastSimplify_pass :: "node \<Rightarrow> node res" where
  "BroadcastSimplify_pass = visit keep_binop broadcast_call"

definition strip_spaces :: "string \<Rightarrow> string" where
  "strip_spaces s = filter (\<lambda>c. c \<noteq> CHR '' '') s"

definition rename_expression :: "string \<Rightarrow> (string \<Rightarrow> string option) \<Rightarrow> string res" where
  "rename_expression expr mapping =
     bindR (parse expr) (\<lambda>tree. bindR (MaxToXor_pass tree) (\<lambda>tree'.
       Inr (strip_spaces (unparse (rename_node mapping False tree')))))"

definition rename_dynamic_expression :: "string \<Rightarrow> (string \<Rightarrow> string option) \<Rightarrow> string res" where
  "rename_dynamic_expression expression replacements =
     (case try_parse expression of
        None \<Rightarrow> Inr expression
      | Some tree \<Rightarrow> bindR (MaxToXor_pass tree) (\<lambda>t1.
          bindR (BroadcastSimplify_pass (rename_node replacements True t1)) (\<lambda>t2.
            bindR (SimpleSimplify_pass t2) (\<lambda>t3. Inr (strip_spaces (unparse t3))))))"

text \<open>Renaming names is a substitution: the value under an environment is the value under the renamed one.\<close>

definition renamed_env :: "(string \<Rightarrow> string option) \<Rightarrow> (string \<Rightarrow> int option) \<Rightarrow> string \<Rightarrow> int option" where
  "renamed_env mapping env x = env (case mapping x of Some y \<Rightarrow> y | None \<Rightarrow> x)"

lemma sem_Call_iff:
  "sem env (Call f args) = sem env' (Call f args')"
  if "length args = length args'" "\<And>i. i < length args \<Longrightarrow> sem env (args ! i) = sem env' (args' ! i)"
proof (cases "f = ''CeilToInt'' \<and> length args = 2")
  case True
  then have "length args = Suc (Suc 0)" "length args' = Suc (Suc 0)" using that(1) by auto
  then obtain a b c d where "args = [a, b]" "args' = [c, d]" unfolding length_Suc_conv by auto
  with that(2) [of 0] that(2) [of 1] True show ?thesis by (simp add: sem.simps(5))
next
  case False
  with that(1) show ?thesis by (auto simp: sem.simps(5))
qed

lemma rename_node_sem: "sem env (rename_node mapping False n) = sem (renamed_env mapping env) n"
proof (induction n)
  case (Call f args)
  have "sem env (Call f (map (rename_node mapping False) args)) = sem (renamed_env mapping env) (Call f args)"
    by (rule sem_Call_iff) (auto simp: Call.IH)
  then show ?case by simp
qed (auto simp: renamed_env_def sem.simps(3))

text \<open>The unparsed text of a tree with identifiers as names has no space to strip.\<close>

lemma no_space_show: "CHR '' '' \<notin> set (show_nat n)"
  using show_nat_digits [of n] by (auto simp: char_class)

lemma no_space_name: "is_name x \<Longrightarrow> CHR '' '' \<notin> set x"
  by (auto simp: is_name_def list_all_iff is_ident_char_def char_class)

lemma no_space_join: "\<forall>s \<in> set ss. CHR '' '' \<notin> set s \<Longrightarrow> CHR '' '' \<notin> set (join ss)"
  by (cases ss) (auto simp: join_Cons comma_tail_def)

lemma no_space_unparse: "names_ok n \<Longrightarrow> CHR '' '' \<notin> set (unparse n)"
proof (induction n)
  case (Constant c)
  then show ?case by (simp add: to_string_def no_space_show)
next
  case (BinOp l op r)
  then show ?case by (cases op) (auto simp: Let_def parens_def binop_sym_def)
next
  case (UnaryOp u x)
  then show ?case by (auto simp: parens_def)
next
  case (Call f args)
  then have "CHR '' '' \<notin> set (join (map unparse args))" by (intro no_space_join) auto
  with Call.prems show ?case by (auto simp: no_space_name)
qed (simp add: no_space_name)

lemma strip_spaces_id: "CHR '' '' \<notin> set s \<Longrightarrow> strip_spaces s = s"
  unfolding strip_spaces_def by (rule filter_True) auto

section \<open>Renaming dynamic dimensions\<close>

text \<open>
  \<open>rename_dynamic_dimensions\<close>.  \<open>constraints\<close> holds the entries of the map in iteration order, each
  with the elements of its set in iteration order; \<open>original\<close> holds the elements of that set.
\<close>

type_synonym replacements = "string \<Rightarrow> string option"

definition add_missing :: "string \<Rightarrow> string list \<Rightarrow> replacements \<Rightarrow> replacements" where
  "add_missing canon_name names rep =
     foldl (\<lambda>m x. if m x = None then m(x \<mapsto> canon_name) else m) rep names"

definition has_prefix :: "string \<Rightarrow> string \<Rightarrow> bool" where
  "has_prefix p s \<longleftrightarrow> length p \<le> length s \<and> take (length p) s = p"

definition rename_step :: "string list \<Rightarrow> string \<Rightarrow> string \<times> string list \<Rightarrow> replacements \<Rightarrow> replacements" where
  "rename_step original ban_prefix = (\<lambda>(k, v) rep.
     let common = filter (\<lambda>s. s \<in> set original) v
     in if common = [] then rep
        else
          let canon_name = hd (sort common)
          in if ban_prefix \<noteq> [] \<and> has_prefix ban_prefix canon_name then rep
             else add_missing canon_name v
                    (if k \<notin> set original then rep(k \<mapsto> canon_name) else rep))"

text \<open>The names still to do after a round, and the loop, which runs at most \<open>max_iter\<close> rounds.\<close>

definition names_not_done :: "string list \<Rightarrow> replacements \<Rightarrow> string list" where
  "names_not_done all_values rep = filter (\<lambda>s. rep s = None) all_values"

fun rename_rounds :: "nat \<Rightarrow> string list \<Rightarrow> string \<Rightarrow> (string \<times> string list) list \<Rightarrow> string list \<Rightarrow>
    replacements \<Rightarrow> replacements" where
  "rename_rounds 0 original ban_prefix constraints not_done rep = rep"
| "rename_rounds (Suc n) original ban_prefix constraints not_done rep =
     (if not_done = [] then rep
      else
        let rep' = foldl (\<lambda>m e. rename_step original ban_prefix e m) rep constraints
        in rename_rounds n original ban_prefix constraints
             (names_not_done (map fst constraints @ original) rep') rep')"

definition rename_dynamic_dimensions ::
    "(string \<times> string list) list \<Rightarrow> string list \<Rightarrow> string \<Rightarrow> replacements" where
  "rename_dynamic_dimensions constraints original ban_prefix =
     rename_rounds (card (set original)) original ban_prefix constraints (map fst constraints)
       (map_of (map (\<lambda>s. (s, s)) original))"

text \<open>What every step keeps: preferred names map to themselves, and every replacement is preferred.\<close>

definition replacements_ok :: "string list \<Rightarrow> replacements \<Rightarrow> bool" where
  "replacements_ok original rep \<longleftrightarrow>
     (\<forall>s \<in> set original. rep s = Some s) \<and> (\<forall>x y. rep x = Some y \<longrightarrow> y \<in> set original)"

lemma add_missing_ok:
  "replacements_ok original rep \<Longrightarrow> y \<in> set original \<Longrightarrow> replacements_ok original (add_missing y names rep)"
proof (induction names arbitrary: rep)
  case (Cons x names)
  have "replacements_ok original (if rep x = None then rep(x \<mapsto> y) else rep)"
    using Cons.prems by (auto simp: replacements_ok_def)
  from Cons.IH [OF this Cons.prems(2)] show ?case by (simp add: add_missing_def)
qed (simp add: add_missing_def)

lemma hd_sort_in: "xs \<noteq> [] \<Longrightarrow> hd (sort xs) \<in> set xs" for xs :: "'a::linorder list"
  by (metis hd_in_set set_sort set_empty)

lemma rename_step_ok:
  assumes "replacements_ok original rep"
  shows "replacements_ok original (rename_step original ban e rep)"
proof (cases e)
  case (Pair k v)
  let ?common = "filter (\<lambda>s. s \<in> set original) v"
  show ?thesis
  proof (cases "?common = []")
    case False
    have "hd (sort ?common) \<in> set ?common" using False by (rule hd_sort_in)
    then have c: "hd (sort ?common) \<in> set original" by simp
    have "replacements_ok original (if k \<notin> set original then rep(k \<mapsto> hd (sort ?common)) else rep)"
      using assms c by (auto simp: replacements_ok_def)
    from add_missing_ok [OF this c] assms show ?thesis
      by (auto simp: rename_step_def Pair Let_def)
  qed (use assms in \<open>simp add: rename_step_def Pair Let_def\<close>)
qed

lemma rename_fold_ok:
  "replacements_ok original rep \<Longrightarrow>
     replacements_ok original (foldl (\<lambda>m e. rename_step original ban e m) rep constraints)"
  by (induction constraints arbitrary: rep) (auto intro: rename_step_ok)

lemma rename_rounds_ok:
  "replacements_ok original rep \<Longrightarrow>
     replacements_ok original (rename_rounds n original ban constraints not_done rep)"
  by (induction n arbitrary: not_done rep) (auto simp: Let_def rename_fold_ok)

lemma map_of_identity: "map_of (map (\<lambda>s. (s, s)) xs) x = (if x \<in> set xs then Some x else None)"
  by (induction xs) auto

lemma rename_dynamic_dimensions_ok:
  "replacements_ok original (rename_dynamic_dimensions constraints original ban)"
  unfolding rename_dynamic_dimensions_def
  by (rule rename_rounds_ok) (auto simp: replacements_ok_def map_of_identity split: if_splits)

section \<open>Dimension ranges\<close>

text \<open>The left spine of floor divisions by positive constants; the product of the divisors is unchecked.\<close>

fun floordiv_chain :: "node \<Rightarrow> int \<Rightarrow> (string \<times> int) option res" where
  "floordiv_chain (BinOp l op r) product =
     (if op = FloorDiv then
        if is_const r \<and> const_value r > 0
        then bindR (raw_mul product (const_value r)) (\<lambda>p. floordiv_chain l p)
        else Inr None
      else Inr None)"
| "floordiv_chain (Name x) product = Inr (Some (x, product))"
| "floordiv_chain n product = Inr None"

definition extract_floordiv_chain :: "string \<Rightarrow> (string \<times> int) option res" where
  "extract_floordiv_chain s =
     (case try_parse s of None \<Rightarrow> Inr None | Some n \<Rightarrow> floordiv_chain n 1)"

record DimRange =
  lower :: DimType
  upper :: DimType

type_synonym ranges = "string \<Rightarrow> DimRange option"

definition process_side :: "string \<Rightarrow> string \<Rightarrow> ranges \<Rightarrow> ranges res" where
  "process_side chain_side value_side rg =
     bindR (simplify_expression chain_side) (\<lambda>c. case c of
       IntResult _ \<Rightarrow> Inr rg
     | TextResult chain_str \<Rightarrow>
         bindR (extract_floordiv_chain chain_str) (\<lambda>chain. case chain of
           None \<Rightarrow> Inr rg
         | Some (var_name, product) \<Rightarrow>
             bindR (simplify_expression value_side) (\<lambda>value_dim.
               if product = 1 then Inr (rg(var_name \<mapsto> \<lparr>lower = value_dim, upper = value_dim\<rparr>))
               else
                 bindR (dim_mul value_dim (IntResult product) None) (\<lambda>(lo, _).
                   bindR (raw_sub product 1) (\<lambda>p1.
                     bindR (dim_add lo (IntResult p1) None) (\<lambda>(up, _).
                       Inr (rg(var_name \<mapsto> \<lparr>lower = lo, upper = up\<rparr>))))))))"

definition dim_ranges_from_expressions :: "(string \<times> string) list \<Rightarrow> string list \<Rightarrow> ranges res" where
  "dim_ranges_from_expressions equalities tokens =
     bindR (foldR (\<lambda>(lhs, rhs) rg. bindR (process_side lhs rhs rg) (process_side rhs lhs)) equalities
              (\<lambda>x. None)) (\<lambda>rg.
       Inr (if tokens = [] then rg else (\<lambda>x. if x \<in> set tokens then rg x else None)))"

lemma floordiv_chain_sound:
  "floordiv_chain n p = Inr (Some (x, q)) \<Longrightarrow> 0 < p \<Longrightarrow> sem env n = Some v \<Longrightarrow>
     \<exists>m z. q = p * m \<and> 0 < m \<and> env x = Some z \<and> v = z div m"
proof (induction n arbitrary: p v)
  case (Name y)
  then show ?case by (auto intro: exI [of _ 1])
next
  case (BinOp l op r)
  then obtain c where op: "op = FloorDiv" "r = Constant c" "0 < c"
    and ch: "floordiv_chain l (p * c) = Inr (Some (x, q))"
    by (cases r) (auto simp: is_const_def const_value_def split: if_splits)
  from BinOp.prems(3) op obtain a where a: "sem env l = Some a" "v = a div c" by auto
  from BinOp.IH(1) [OF ch _ a(1)] BinOp.prems(2) op(3) obtain m z where
    "q = p * c * m" "0 < m" "env x = Some z" "a = z div m" by auto
  then show ?case using a(2) op(3)
    by (intro exI [of _ "c * m"] exI [of _ z]) (simp add: mult.assoc mult.commute nested_floor_div)
qed auto

lemma div_range:
  assumes p: "0 < (p::int)"
  shows "z div p = v \<longleftrightarrow> v * p \<le> z \<and> z \<le> v * p + (p - 1)"
proof -
  have "z div p = v \<longleftrightarrow> v \<le> z div p \<and> z div p < v + 1" by auto
  also have "\<dots> \<longleftrightarrow> v * p \<le> z \<and> z < (v + 1) * p"
    by (simp only: int_le_div_iff [OF p] int_div_less_iff [OF p])
  also have "(v + 1) * p = v * p + p" by (simp add: distrib_right)
  finally show ?thesis by auto
qed

section \<open>Properties\<close>

lemma rename_node_posexp:
  "posexp (renamed_env mapping env) n \<Longrightarrow> posexp env (rename_node mapping False n)"
  by (induction n) (auto simp: renamed_env_def)

lemma rename_node_divfree: "divfree (rename_node mapping False n) \<longleftrightarrow> divfree n"
  by (induction n) auto

lemma rename_node_tame:
  assumes names: "\<And>x y. mapping x = Some y \<Longrightarrow> is_name y"
  shows "tame (renamed_env mapping env) n \<Longrightarrow> tame env (rename_node mapping False n)"
proof (induction n)
  case (Call f args)
  have "ceil_ok env f (map (rename_node mapping False) args)"
    using Call.prems by (auto simp: ceil_ok_def rename_node_sem rename_node_posexp split: list.splits)
  with Call show ?case by auto
qed (auto simp: names rename_node_divfree rename_node_posexp split: option.splits)

text \<open>C36: Renaming the names of an expression substitutes them: the renamed text has, under an assignment to the new
  names, the value of the original under the assignment that looks every old name up through the mapping,
  provided that every new name is an identifier and that the expression is tame under that assignment (names
  that are identifiers, positive divisors without divisions, no exact division, no division inside a
  product, \<open>CeilToInt\<close> on non-negative numerators) and has a value there.  It is not true of \<open>a*(b//c)\<close>,
  which comes back as \<open>a*b//c\<close> with the new names.\<close>

theorem renaming_is_substitution:
  assumes "parse s = Inr n" "tame (renamed_env mapping env) n" "sem (renamed_env mapping env) n = Some v"
    and "\<forall>x y. mapping x = Some y \<longrightarrow> is_name y" and "rename_expression s mapping = Inr t"
  shows "text_sem env t = Some v"
proof -
  let ?env = "renamed_env mapping env"
  from assms(1,5) obtain m where m: "MaxToXor_pass n = Inr m"
    and t: "t = strip_spaces (unparse (rename_node mapping False m))"
    by (auto simp: rename_expression_def)
  have "keeps ?env n m"
    using visit_keeps [OF sound_keep(1) max_call_sound assms(2)] assms(3) m by (auto simp: MaxToXor_pass_def)
  then have k: "tame ?env m" "sem ?env m = Some v" using assms(3) by (auto simp: keeps_def)
  have tm: "tame env (rename_node mapping False m)" using rename_node_tame [OF _ k(1)] assms(4) by blast
  have "t = unparse (rename_node mapping False m)"
    unfolding t by (rule strip_spaces_id) (rule no_space_unparse [OF tame_names_ok [OF tm]])
  then show ?thesis using tame_text_sem [OF tm] k(2) by (simp add: rename_node_sem)
qed

lemma renaming_is_substitution_witness: "text_sem (\<lambda>x. Some 4) ''batch+seq'' = Some 8"
proof -
  let ?m = "(\<lambda>x. None)(''a'' \<mapsto> ''batch'', ''b'' \<mapsto> ''seq'')"
  have p: "parse ''a+b'' = Inr (BinOp (Name ''a'') Add (Name ''b''))" by code_simp
  have r: "rename_expression ''a+b'' ?m = Inr ''batch+seq''" by code_simp
  have "\<forall>x y. ?m x = Some y \<longrightarrow> is_name y"
    by (simp add: is_name_def is_ident_char_def char_class)
  from renaming_is_substitution [OF p _ _ this r, of "\<lambda>x. Some 4" 8] show ?thesis
    by (simp add: renamed_env_def is_name_def is_ident_char_def char_class)
qed

text \<open>\<open>rename_dynamic_dimensions\<close> maps every original name to itself and every name it maps to an original one,
  for every set of constraints, whatever the order in which the sets and maps are traversed.\<close>

theorem renamed_dimensions_are_original:
  "(x \<in> set original \<longrightarrow> rename_dynamic_dimensions constraints original ban x = Some x) \<and>
   (rename_dynamic_dimensions constraints original ban x = Some y \<longrightarrow> y \<in> set original)"
  using rename_dynamic_dimensions_ok [of original constraints ban] by (auto simp: replacements_ok_def)

lemma renamed_dimensions_are_original_witness:
  "rename_dynamic_dimensions [(''d0'', [''batch'', ''d1''])] [''batch''] ''d'' ''batch'' = Some ''batch''"
  using renamed_dimensions_are_original [of "''batch''" "[''batch'']"] by simp

text \<open>The range computed for a dimension from an equality between a chain of floor divisions of it and an integer is
  exact: the value of the dimension lies in the range whenever the equality holds, and every integer of the
  range satisfies it.\<close>

theorem dimension_range_is_exact:
  assumes "process_side cs vs rg = Inr rg'" "simplify_expression cs = Inr (TextResult t)"
    and "try_parse t = Some n" "floordiv_chain n 1 = Inr (Some (x, p))"
    and "simplify_expression vs = Inr (IntResult k)"
  shows "\<exists>lo up. rg' x = Some \<lparr>lower = IntResult lo, upper = IntResult up\<rparr> \<and>
    (\<forall>env v. sem env n = Some v \<longrightarrow> (\<exists>z. env x = Some z \<and> (v = k \<longleftrightarrow> lo \<le> z \<and> z \<le> up)))"
proof -
  have val: "\<exists>z. env x = Some z \<and> 0 < p \<and> v = z div p" if v: "sem env n = Some v" for env v
    using floordiv_chain_sound [OF assms(4) _ v] by auto
  have e: "extract_floordiv_chain t = Inr (Some (x, p))" by (simp add: extract_floordiv_chain_def assms(3,4))
  show ?thesis
  proof (cases "p = 1")
    case True
    with assms(1,2,5) e have "rg' x = Some \<lparr>lower = IntResult k, upper = IntResult k\<rparr>"
      by (auto simp: process_side_def)
    with True val show ?thesis by fastforce
  next
    case False
    with assms(1,2,5) e have
      "rg' x = Some \<lparr>lower = IntResult (k * p), upper = IntResult (k * p + (p - 1))\<rparr>"
      by (auto simp: process_side_def dim_mul_def dim_add_def dim_binary_def)
    moreover have "\<exists>z. env x = Some z \<and> (v = k \<longleftrightarrow> k * p \<le> z \<and> z \<le> k * p + (p - 1))"
      if "sem env n = Some v" for env v
      using val [OF that] div_range by (metis (no_types))
    ultimately show ?thesis by blast
  qed
qed

lemma dimension_range_is_exact_witness:
  "\<exists>lo up. (\<forall>z. z div 6 = 3 \<longleftrightarrow> lo \<le> z \<and> z \<le> (up :: int))"
proof -
  let ?n = "BinOp (Name ''x'') FloorDiv (Constant 6)"
  have s: "simplify_expression ''x//2//3'' = Inr (TextResult ''x//6'')" by code_simp
  have v: "simplify_expression ''3'' = Inr (IntResult 3)" by code_simp
  have t: "try_parse ''x//6'' = Some ?n" by code_simp
  have c: "floordiv_chain ?n 1 = Inr (Some (''x'', 6))" by code_simp
  obtain rg' where p: "process_side ''x//2//3'' ''3'' (\<lambda>x. None) = Inr rg'"
    using s v t c by (simp add: process_side_def extract_floordiv_chain_def dim_mul_def dim_add_def dim_binary_def
        CheckedDimensionMultiply_def CheckedDimensionAdd_def checked_mul_overflow_def checked_add_overflow_def
        wrap_i64_id i64_defs raw_i64_def)
  from dimension_range_is_exact [OF p s t c v] obtain lo up where
    r: "\<forall>env v. sem env ?n = Some v \<longrightarrow> (\<exists>z. env ''x'' = Some z \<and> (v = 3 \<longleftrightarrow> lo \<le> z \<and> z \<le> up))" by blast
  have "z div 6 = 3 \<longleftrightarrow> lo \<le> z \<and> z \<le> up" for z
    using r [rule_format, of "\<lambda>x. Some z" "z div 6"] by simp
  then show ?thesis by blast
qed

end
