(* ===== verification/Float8.thy ===== *)
theory Float8
  imports Prelude "HOL-Library.Word"
begin

text \<open>
  The conversions between \<open>float\<close> and the 8-bit floating-point formats, from
  \<open>onnx_core/runtime/kernels/cast_float8.cc\<close>.  A \<open>float\<close> is its 32-bit pattern and a \<open>double\<close> its 64-bit
  pattern, as \<open>std::bit_cast\<close> gives them, since the code works on the patterns only.  \<open>uint8_t\<close> and
  \<open>uint32_t\<close> are words; the exponent fields, which the code compares and subtracts as small
  integers, are natural numbers.
\<close>

unbundle bit_operations_syntax

section \<open>The fields of a binary32 pattern\<close>

definition sign8 :: "32 word \<Rightarrow> 8 word" where
  "sign8 b = ucast (drop_bit 24 (b AND 0x80000000))"

definition expo32 :: "32 word \<Rightarrow> nat" where
  "expo32 b = unat (drop_bit 23 (b AND 0x7F800000))"

definition mant32 :: "32 word \<Rightarrow> 32 word" where
  "mant32 b = b AND 0x007FFFFF"

definition is_inf32 :: "32 word \<Rightarrow> bool" where
  "is_inf32 b \<longleftrightarrow> b AND 0x7FFFFFFF = 0x7F800000"

definition is_nonfinite32 :: "32 word \<Rightarrow> bool" where
  "is_nonfinite32 b \<longleftrightarrow> b AND 0x7F800000 = 0x7F800000"

text \<open>
  The rounding of a result that is subnormal in the destination; \<open>half\<close> is the bit below the last bit
  kept.
\<close>

definition round_subnormal :: "32 word \<Rightarrow> 32 word \<Rightarrow> 8 word \<Rightarrow> 8 word" where
  "round_subnormal m half v =
     (if m AND half \<noteq> 0 \<and>
         (v AND 1 \<noteq> 0 \<or> m AND (half - 1) > 0 \<or>
          (m AND half \<noteq> 0 \<and> m AND push_bit 1 half \<noteq> 0 \<and> m AND (half - 1) = 0))
      then v + 1 else v)"

section \<open>E4M3FN\<close>

definition FloatToFloat8E4M3FNBits :: "32 word \<Rightarrow> 8 word" where
  "FloatToFloat8E4M3FNBits b =
     (let v = sign8 b
      in if is_inf32 b then v OR 126
         else if is_nonfinite32 b then v OR 0x7F
         else
           let e = expo32 b; m = mant32 b
           in if e = 0 then v
              else if e < 117 then v
              else if e < 121 then
                (let d = 120 - e;
                     v1 = (if d < 3 then v OR push_bit (2 - d) 1 OR ucast (drop_bit (21 + d) m)
                           else if m > 0 then v OR 1 else v)
                 in round_subnormal m (push_bit (20 + d) 1) v1)
              else if e < 136 then
                (let ex = e - 120;
                     v1 = (if ex = 0 then v OR 0x4 OR ucast (drop_bit 21 m)
                           else
                             let w = v OR of_nat (ex * 8) OR ucast (drop_bit 20 m)
                             in if w AND 0x7F = 0x7F then w AND 0xFE else w)
                 in if m AND 0x80000 \<noteq> 0 \<and> (m AND 0x100000 \<noteq> 0 \<or> m AND 0x7FFFF \<noteq> 0)
                    then (if v1 AND 0x7F < 0x7E then v1 + 1 else v1) else v1)
              else v OR 126)"

text \<open>One step of the normalisation of a subnormal: a shift unless the bit \<open>hi\<close> is set.\<close>

definition normalize_step :: "32 word \<Rightarrow> 32 word \<times> 32 word \<Rightarrow> 32 word \<times> 32 word" where
  "normalize_step hi = (\<lambda>(mant, expo).
     if mant AND hi = 0 then (push_bit 1 (mant AND (hi - 1)), expo - 1) else (mant, expo))"

text \<open>The part the decoders of the formats with three mantissa bits share, for their bias.\<close>

definition decode_m3 :: "32 word \<Rightarrow> 8 word \<Rightarrow> 32 word" where
  "decode_m3 bias v =
     (let expo = drop_bit 3 (ucast v AND 0x78); mant = ucast v AND 0x07; res = push_bit 24 (ucast v AND 0x80)
      in if expo = 0 then
           (if mant > 0 then
              let (mant', expo') = normalize_step 4 (normalize_step 4 (mant, 0x7F - bias))
              in res OR push_bit 21 (mant' AND 0x3) OR push_bit 23 expo'
            else res)
         else res OR push_bit 20 mant OR push_bit 23 (expo - bias + 0x7F))"

text \<open>The part the decoders of the formats with two mantissa bits share.\<close>

definition decode_m2 :: "32 word \<Rightarrow> 8 word \<Rightarrow> 32 word" where
  "decode_m2 bias v =
     (let expo = drop_bit 2 (ucast v AND 0x7C); mant = ucast v AND 0x03; res = push_bit 24 (ucast v AND 0x80)
      in if expo = 0 then
           (if mant > 0 then
              let (mant', expo') = normalize_step 2 (mant, 0x7F - bias)
              in res OR push_bit 22 (mant' AND 0x1) OR push_bit 23 expo'
            else res)
         else res OR push_bit 21 mant OR push_bit 23 (expo - bias + 0x7F))"

definition Float8E4M3FNBitsToFloat :: "8 word \<Rightarrow> 32 word" where
  "Float8E4M3FNBitsToFloat v =
     (if v = 255 then 0xFFC00000 else if v = 127 then 0x7FC00000 else decode_m3 7 v)"

section \<open>E4M3FNUZ\<close>

definition FloatToFloat8E4M3FNUZBits :: "32 word \<Rightarrow> 8 word" where
  "FloatToFloat8E4M3FNUZBits b =
     (let v = sign8 b
      in if is_inf32 b then v OR 0x7F
         else if is_nonfinite32 b then 0x80
         else
           let e = expo32 b; m = mant32 b
           in if e < 116 then 0
              else if e < 120 then
                (let d = 119 - e;
                     v1 = (if d < 3 then v OR push_bit (2 - d) 1 OR ucast (drop_bit (21 + d) m)
                           else if m > 0 then v OR 1 else 0)
                 in round_subnormal m (push_bit (20 + d) 1) v1)
              else if e < 135 then
                (let ex = e - 119;
                     v1 = (if ex = 0 then v OR 0x4 OR ucast (drop_bit 21 m)
                           else v OR of_nat (ex * 8) OR ucast (drop_bit 20 m))
                 in if m AND 0x80000 \<noteq> 0 \<and> (m AND 0x100000 \<noteq> 0 \<or> m AND 0x7FFFF \<noteq> 0)
                    then (if v1 AND 0x7F < 0x7F then v1 + 1 else v1) else v1)
              else v OR 0x7F)"

definition Float8E4M3FNUZBitsToFloat :: "8 word \<Rightarrow> 32 word" where
  "Float8E4M3FNUZBitsToFloat v = (if v = 0x80 then 0xFFC00000 else decode_m3 8 v)"

section \<open>E5M2\<close>

definition FloatToFloat8E5M2Bits :: "32 word \<Rightarrow> 8 word" where
  "FloatToFloat8E5M2Bits b =
     (let v = sign8 b
      in if is_inf32 b then v OR 0x7B
         else if is_nonfinite32 b then v OR 0x7E
         else
           let e = expo32 b; m = mant32 b
           in if e = 0 then v
              else if e < 110 then v
              else if e < 113 then
                (let d = 112 - e;
                     v1 = (if d < 2 then v OR push_bit (1 - d) 1 OR ucast (drop_bit (22 + d) m)
                           else if m > 0 then v OR 1 else v)
                 in round_subnormal m (push_bit (21 + d) 1) v1)
              else if e < 143 then
                (let ex = e - 112;
                     v1 = v OR of_nat (ex * 4) OR ucast (drop_bit 21 m)
                 in if m AND 0x100000 \<noteq> 0 \<and> (m AND 0xFFFFF \<noteq> 0 \<or> m AND 0x200000 \<noteq> 0)
                    then (if v1 AND 0x7F < 0x7B then v1 + 1 else v1 OR 0x7B) else v1)
              else v OR 0x7B)"

definition Float8E5M2BitsToFloat :: "8 word \<Rightarrow> 32 word" where
  "Float8E5M2BitsToFloat v =
     (if v \<ge> 253 then 0xFFC00000
      else if v \<ge> 125 \<and> v \<le> 127 then 0x7FC00000
      else if v = 252 then 0xFF800000
      else if v = 124 then 0x7F800000
      else decode_m2 15 v)"

section \<open>E5M2FNUZ\<close>

definition FloatToFloat8E5M2FNUZBits :: "32 word \<Rightarrow> 8 word" where
  "FloatToFloat8E5M2FNUZBits b =
     (let v = sign8 b
      in if is_inf32 b then v OR 0x7F
         else if is_nonfinite32 b then 0x80
         else
           let e = expo32 b; m = mant32 b
           in if e < 109 then 0
              else if e < 112 then
                (let d = 111 - e;
                     v1 = (if d < 2 then v OR push_bit (1 - d) 1 OR ucast (drop_bit (22 + d) m)
                           else if m > 0 then v OR 1 else 0)
                 in round_subnormal m (push_bit (21 + d) 1) v1)
              else if e < 143 then
                (let ex = e - 111;
                     v1 = v OR of_nat (ex * 4) OR ucast (drop_bit 21 m)
                 in if m AND 0x100000 \<noteq> 0 \<and> (m AND 0xFFFFF \<noteq> 0 \<or> m AND 0x200000 \<noteq> 0)
                    then (if v1 AND 0x7F < 0x7F then v1 + 1 else v1) else v1)
              else v OR 0x7F)"

definition Float8E5M2FNUZBitsToFloat :: "8 word \<Rightarrow> 32 word" where
  "Float8E5M2FNUZBitsToFloat v = (if v = 0x80 then 0xFFC00000 else decode_m2 16 v)"

section \<open>E8M0\<close>

definition FloatToFloat8E8M0Bits :: "32 word \<Rightarrow> 8 word" where
  "FloatToFloat8E8M0Bits b =
     (let sign = b AND 0x80000000; expo = expo32 b; mant = mant32 b
      in if expo = 0xFF \<and> mant \<noteq> 0 then 0xFF
         else if sign \<noteq> 0 then 0xFF
         else if expo = 0xFF then 0xFE
         else if expo = 0 then (if mant > 0x00400000 then 0x01 else 0x00)
         else
           let bits = (if mant \<noteq> 0 then expo + 1 else expo)
           in if bits \<ge> 0xFF then 0xFE else of_nat bits)"

definition DoubleToFloat8E8M0Bits :: "64 word \<Rightarrow> 8 word" where
  "DoubleToFloat8E8M0Bits b =
     (let expo = unat (drop_bit 52 b AND 0x7FF); mant = b AND 0x000FFFFFFFFFFFFF
      in if (expo = 0x7FF \<and> mant \<noteq> 0) \<or> drop_bit 63 b \<noteq> 0 then 0xFF
         else if expo = 0x7FF \<or> expo \<ge> 1150 then 0xFE
         else if expo < 896 then 0x00
         else of_nat (expo - 896 + (if mant \<noteq> 0 then 1 else 0)))"

definition Float8E8M0BitsToFloat :: "8 word \<Rightarrow> 32 word" where
  "Float8E8M0BitsToFloat bits = (if bits = 0xFF then 0x7FC00000 else push_bit 23 (ucast bits))"

section \<open>The variants without saturation\<close>

definition FloatToFloat8E4M3FNBitsNoSaturate :: "32 word \<Rightarrow> 8 word" where
  "FloatToFloat8E4M3FNBitsNoSaturate b =
     (if is_nonfinite32 b then sign8 b OR 0x7F
      else let v = FloatToFloat8E4M3FNBits b
           in if v AND 0x7F = 0x7E \<and> b AND 0x7FFFFFFF > 0x43E00000 then sign8 b OR 0x7F else v)"

definition FloatToFloat8E4M3FNUZBitsNoSaturate :: "32 word \<Rightarrow> 8 word" where
  "FloatToFloat8E4M3FNUZBitsNoSaturate b =
     (if is_nonfinite32 b then 0x80
      else let v = FloatToFloat8E4M3FNUZBits b
           in if v AND 0x7F = 0x7F \<and> v \<noteq> 0x80 \<and> b AND 0x7FFFFFFF > 0x43700000 then 0x80 else v)"

definition FloatToFloat8E5M2BitsNoSaturate :: "32 word \<Rightarrow> 8 word" where
  "FloatToFloat8E5M2BitsNoSaturate b =
     (if is_nonfinite32 b \<and> mant32 b \<noteq> 0 then sign8 b OR 0x7E
      else if is_inf32 b then sign8 b OR 0x7C
      else let v = FloatToFloat8E5M2Bits b
           in if v AND 0x7F = 0x7B \<and> b AND 0x7FFFFFFF > 0x47600000 then sign8 b OR 0x7C else v)"

definition FloatToFloat8E5M2FNUZBitsNoSaturate :: "32 word \<Rightarrow> 8 word" where
  "FloatToFloat8E5M2FNUZBitsNoSaturate b =
     (if is_nonfinite32 b then 0x80
      else let v = FloatToFloat8E5M2FNUZBits b
           in if v AND 0x7F = 0x7F \<and> v \<noteq> 0x80 \<and> b AND 0x7FFFFFFF > 0x47600000 then 0x80 else v)"

end
