(* ===== verification/Float8Rounding.thy ===== *)
theory Float8Rounding
  imports Float8
begin

text \<open>
  The float8 encoders as roundings: the fields of a binary32 pattern as numbers, rounding to nearest
  with ties to even as a division, and the lemma per encoder that it computes this rounding for every
  finite input, with saturation.
\<close>

unbundle bit_operations_syntax

section \<open>Fields as numbers\<close>

lemma and_window:
  "x AND push_bit n (mask w) = push_bit n (take_bit w (drop_bit n x))" for x :: "'a::len word"
  by (rule bit_eqI) (auto simp: bit_simps)

lemma unat_window:
  "n + w \<le> LENGTH('a) \<Longrightarrow> unat (x AND push_bit n (mask w)) = 2 ^ n * (unat x div 2 ^ n mod 2 ^ w)" for x :: "'a::len word"
proof -
  assume l: "n + w \<le> LENGTH('a)"
  have "unat (x AND push_bit n (mask w)) = take_bit LENGTH('a) (push_bit n (take_bit w (drop_bit n (unat x))))"
    by (simp only: and_window unsigned_push_bit_eq unsigned_take_bit_eq unat_drop_bit_eq)
  also have "\<dots> = push_bit n (take_bit w (drop_bit n (unat x)))"
  proof (rule take_bit_nat_eq_self)
    have "take_bit w (drop_bit n (unat x)) < 2 ^ w" by (rule take_bit_nat_less_exp)
    then have "push_bit n (take_bit w (drop_bit n (unat x))) < 2 ^ n * 2 ^ w"
      by (simp add: push_bit_eq_mult mult.commute)
    also have "\<dots> \<le> 2 ^ LENGTH('a)" using l by (simp add: power_add [symmetric])
    finally show "push_bit n (take_bit w (drop_bit n (unat x))) < 2 ^ LENGTH('a)" .
  qed
  finally show ?thesis by (simp add: push_bit_eq_mult take_bit_eq_mod drop_bit_eq_div mult.commute)
qed

lemma and_bit_iff: "x AND push_bit n 1 \<noteq> 0 \<longleftrightarrow> odd (unat x div 2 ^ n)" if "n < LENGTH('a)" for x :: "'a::len word"
proof -
  have "unat (x AND push_bit n (mask 1)) = 2 ^ n * (unat x div 2 ^ n mod 2 ^ 1)"
    by (rule unat_window) (use that in simp)
  moreover have "push_bit n (mask 1) = (push_bit n 1 :: 'a word)" by (simp add: mask_eq_exp_minus_1)
  ultimately have "unat (x AND push_bit n 1) = 2 ^ n * (unat x div 2 ^ n mod 2)" by (simp only: power_one_right)
  then have "unat (x AND push_bit n 1) \<noteq> 0 \<longleftrightarrow> odd (unat x div 2 ^ n)" by (auto simp: odd_iff_mod_2_eq_one)
  then show ?thesis by (simp only: unat_eq_zero)
qed

lemma and_low_iff: "x AND mask n \<noteq> 0 \<longleftrightarrow> unat x mod 2 ^ n \<noteq> 0" for x :: "'a::len word"
  by (metis take_bit_eq_mask take_bit_eq_mod unat_eq_zero unsigned_take_bit_eq)

text \<open>The constants of the code as windows.\<close>

lemma windows:
  "(0x7F800000 :: 32 word) = push_bit 23 (mask 8)" "(0x007FFFFF :: 32 word) = mask 23"
  "(0x7FFFFFFF :: 32 word) = mask 31" "(0x80000000 :: 32 word) = push_bit 31 (mask 1)"
  "(0x80000 :: 32 word) = push_bit 19 1" "(0x100000 :: 32 word) = push_bit 20 1"
  "(0x200000 :: 32 word) = push_bit 21 1" "(0x7FFFF :: 32 word) = mask 19" "(0xFFFFF :: 32 word) = mask 20"
  by (simp_all add: mask_numeral)

lemma expo32_nat: "expo32 b = unat b div 2 ^ 23 mod 2 ^ 8"
proof -
  have "drop_bit 23 (b AND 0x7F800000) = take_bit 8 (drop_bit 23 b)"
    by (simp add: take_bit_eq_mask mask_numeral)
  then have "expo32 b = take_bit 8 (drop_bit 23 (unat b))"
    by (simp only: expo32_def unsigned_take_bit_eq unat_drop_bit_eq)
  then show ?thesis by (simp only: take_bit_eq_mod drop_bit_eq_div)
qed

lemma expo32_less: "expo32 b < 256"
  by (simp add: expo32_nat)

lemma mant32_nat: "unat (mant32 b) = unat b mod 2 ^ 23"
  unfolding mant32_def windows(2)
  by (simp only: take_bit_eq_mask [symmetric] unsigned_take_bit_eq) (simp add: take_bit_eq_mod)

lemma mant32_less: "unat (mant32 b) < 2 ^ 23"
  by (simp add: mant32_nat)

lemma is_nonfinite32_iff: "is_nonfinite32 b \<longleftrightarrow> expo32 b = 255"
proof -
  have "unat (b AND 0x7F800000) = 2 ^ 23 * expo32 b"
    unfolding windows(1) expo32_nat by (rule unat_window) simp
  then show ?thesis by (simp add: is_nonfinite32_def word_unat_eq_iff)
qed

lemma abs32_nat: "unat (b AND 0x7FFFFFFF) = 2 ^ 23 * expo32 b + unat (mant32 b)" for b :: "32 word"
proof -
  have "unat (b AND 0x7FFFFFFF) = unat b mod 2 ^ 31"
    unfolding windows(3) by (simp only: take_bit_eq_mask [symmetric] unsigned_take_bit_eq) (simp add: take_bit_eq_mod)
  also have "\<dots> = unat b mod (2 ^ 23 * 2 ^ 8)" by simp
  also have "\<dots> = 2 ^ 23 * (unat b div 2 ^ 23 mod 2 ^ 8) + unat b mod 2 ^ 23" by (rule mod_mult2_eq)
  finally show ?thesis by (simp only: expo32_nat mant32_nat)
qed

lemma is_inf32_iff: "is_inf32 b \<longleftrightarrow> expo32 b = 255 \<and> mant32 b = 0"
proof -
  have "is_inf32 b \<longleftrightarrow> 2 ^ 23 * expo32 b + unat (mant32 b) = 2 ^ 23 * 255"
    by (simp add: is_inf32_def word_unat_eq_iff abs32_nat)
  also have "\<dots> \<longleftrightarrow> expo32 b = 255 \<and> unat (mant32 b) = 0"
    using mant32_less [of b] expo32_less [of b] by (cases "expo32 b = 255") auto
  finally show ?thesis by (simp add: unat_eq_zero)
qed

definition sign_bit :: "32 word \<Rightarrow> nat" where
  "sign_bit b = (if odd (unat b div 2 ^ 31) then 128 else 0)"

lemma sign8_nat: "sign8 b = of_nat (sign_bit b)"
proof -
  have u: "unat (b AND 0x80000000) = 2 ^ 31 * (unat b div 2 ^ 31 mod 2 ^ 1)"
    unfolding windows(4) by (rule unat_window) simp
  show ?thesis
  proof (cases "odd (unat b div 2 ^ 31)")
    case True
    with u have "unat (b AND 0x80000000) = unat (0x80000000 :: 32 word)" by (simp add: odd_iff_mod_2_eq_one)
    then have "b AND 0x80000000 = 0x80000000" by (simp only: word_unat_eq_iff)
    with True show ?thesis by (simp add: sign8_def sign_bit_def)
  next
    case False
    with u have "unat (b AND 0x80000000) = 0" by simp
    then have "b AND 0x80000000 = 0" by (simp only: unat_eq_zero)
    with False show ?thesis by (simp add: sign8_def sign_bit_def)
  qed
qed

lemma sign_bit_cases: "sign_bit b = 0 \<or> sign_bit b = 128"
  by (simp add: sign_bit_def)

section \<open>Rounding to nearest, ties to even\<close>

definition rne :: "nat \<Rightarrow> nat \<Rightarrow> nat" where
  "rne x k = (let q = x div 2 ^ k; r = 2 * (x mod 2 ^ k)
              in if r > 2 ^ k \<or> (r = 2 ^ k \<and> odd q) then q + 1 else q)"

text \<open>It is the nearest multiple, and the even one of two.\<close>

lemma int_pow2:
  "(2 ^ k \<le> 2 * int r) = (2 ^ k \<le> 2 * r)" "(2 * int r \<le> 2 ^ k) = (2 * r \<le> 2 ^ k)"
  "(2 * int r = 2 ^ k) = (2 * r = 2 ^ k)"
proof -
  have i: "int (2 ^ k) = 2 ^ k" "int (2 * r) = 2 * int r" by simp_all
  show "(2 ^ k \<le> 2 * int r) = (2 ^ k \<le> 2 * r)" by (simp only: i [symmetric] of_nat_le_iff)
  show "(2 * int r \<le> 2 ^ k) = (2 * r \<le> 2 ^ k)" by (simp only: i [symmetric] of_nat_le_iff)
  show "(2 * int r = 2 ^ k) = (2 * r = 2 ^ k)" by (simp only: i [symmetric] of_nat_eq_iff)
qed

lemma rne_nearest: "2 * \<bar>int x - int (rne x k * 2 ^ k)\<bar> \<le> 2 ^ k"
proof -
  let ?q = "x div 2 ^ k" and ?r = "x mod 2 ^ k"
  have x: "int x = int ?q * 2 ^ k + int ?r"
    using div_mult_mod_eq [of "int x" "2 ^ k"] by (simp add: of_nat_div of_nat_mod)
  have r: "int ?r < 2 ^ k" by simp
  show ?thesis
  proof (cases "2 * ?r > 2 ^ k \<or> (2 * ?r = 2 ^ k \<and> odd ?q)")
    case True
    then have n: "rne x k = ?q + 1" by (simp add: rne_def Let_def)
    from True have "2 ^ k \<le> 2 * ?r" by linarith
    then have "2 ^ k \<le> 2 * int ?r" by (simp only: int_pow2)
    then show ?thesis using r by (simp add: n x algebra_simps)
  next
    case False
    then have n: "rne x k = ?q" by (auto simp: rne_def Let_def)
    have "2 * ?r \<le> 2 ^ k" using False by linarith
    then have "2 * int ?r \<le> 2 ^ k" by (simp only: int_pow2)
    then show ?thesis by (simp add: n x)
  qed
qed

lemma rne_tie: "2 * \<bar>int x - int (rne x k * 2 ^ k)\<bar> = 2 ^ k \<Longrightarrow> 0 < k \<Longrightarrow> even (rne x k)"
proof -
  assume e: "2 * \<bar>int x - int (rne x k * 2 ^ k)\<bar> = 2 ^ k" and k: "0 < k"
  let ?q = "x div 2 ^ k" and ?r = "x mod 2 ^ k"
  have x: "int x = int ?q * 2 ^ k + int ?r"
    using div_mult_mod_eq [of "int x" "2 ^ k"] by (simp add: of_nat_div of_nat_mod)
  have r: "int ?r < 2 ^ k" by simp
  show ?thesis
  proof (cases "2 * ?r > 2 ^ k \<or> (2 * ?r = 2 ^ k \<and> odd ?q)")
    case True
    then have n: "rne x k = ?q + 1" by (simp add: rne_def Let_def)
    with e x r have "2 * int ?r = 2 ^ k" by (simp add: algebra_simps)
    then have "2 * ?r = 2 ^ k" by (simp only: int_pow2)
    with True n show ?thesis by auto
  next
    case False
    then have n: "rne x k = ?q" by (auto simp: rne_def Let_def)
    with e x r have "2 * int ?r = 2 ^ k" by (simp add: algebra_simps)
    then have "2 * ?r = 2 ^ k" by (simp only: int_pow2)
    with False n show ?thesis by auto
  qed
qed

lemma rne_bits:
  "rne x (Suc h) = x div 2 ^ Suc h +
     (if odd (x div 2 ^ h) \<and> (x mod 2 ^ h \<noteq> 0 \<or> odd (x div 2 ^ Suc h)) then 1 else 0)"
proof -
  have m: "x mod 2 ^ Suc h = 2 ^ h * (x div 2 ^ h mod 2) + x mod 2 ^ h"
    using mod_mult2_eq [of x "2 ^ h" 2] by (simp add: mult.commute)
  have l: "x mod 2 ^ h < 2 ^ h" by simp
  show ?thesis
  proof (cases "odd (x div 2 ^ h)")
    case True
    then have "x div 2 ^ h mod 2 = 1" by (simp add: odd_iff_mod_2_eq_one)
    with m have "2 * (x mod 2 ^ Suc h) = 2 ^ Suc h + 2 * (x mod 2 ^ h)" by simp
    then show ?thesis using True by (auto simp: rne_def Let_def)
  next
    case False
    then have "x div 2 ^ h mod 2 = 0" by simp
    with m l have "2 * (x mod 2 ^ Suc h) < 2 ^ Suc h" by simp
    then show ?thesis using False by (auto simp: rne_def Let_def)
  qed
qed

lemma rne_small: "2 * x < 2 ^ k \<Longrightarrow> rne x k = 0"
proof -
  assume a: "2 * x < 2 ^ k"
  then have "x < 2 ^ k" by simp
  with a show ?thesis by (simp add: rne_def Let_def)
qed

lemma rne_exact: "rne (q * 2 ^ k) k = q"
  by (simp add: rne_def)

lemma rne_ge: "q * 2 ^ k \<le> x \<Longrightarrow> q \<le> rne x k"
proof -
  assume "q * 2 ^ k \<le> x"
  then have "q \<le> x div 2 ^ k" by (simp add: less_eq_div_iff_mult_less_eq)
  then show ?thesis by (simp add: rne_def Let_def)
qed

section \<open>The encoders round to nearest\<close>

text \<open>
  \<open>round8 w base largest e m\<close>: the magnitude bits for a number with biased exponent \<open>e\<close> and mantissa \<open>m\<close>
  in a format with \<open>w\<close> mantissa bits, whose subnormals are those with \<open>e \<le> base\<close> and whose largest finite
  magnitude has the bits \<open>largest\<close>.  Counting in units of the last place of the destination, the magnitude
  bits of every format are the number itself, so rounding is one division.
\<close>

definition round8 :: "nat \<Rightarrow> nat \<Rightarrow> nat \<Rightarrow> nat \<Rightarrow> nat \<Rightarrow> nat" where
  "round8 w base largest e m =
     (if e = 0 then 0
      else if base < e then min largest (rne ((e - base) * 2 ^ 23 + m) (23 - w))
      else rne (2 ^ 23 + m) (24 - w + (base - e)))"

text \<open>A byte with the sign \<open>s\<close>, 0 or 128, and the magnitude bits \<open>k\<close>.\<close>

definition byte8 :: "nat \<Rightarrow> nat \<Rightarrow> 8 word" where
  "byte8 s k = of_nat (s + k)"

abbreviation sign_ok :: "nat \<Rightarrow> bool" where "sign_ok s \<equiv> s = 0 \<or> s = 128"

lemma unat_of_nat8: "unat (of_nat n :: 8 word) = n mod 256"
  by (simp add: unat_of_nat)

lemma unat_byte8: "sign_ok s \<Longrightarrow> k < 128 \<Longrightarrow> unat (byte8 s k) = s + k"
  unfolding byte8_def unat_of_nat8 by auto

lemma byte8_low7: "sign_ok s \<Longrightarrow> k < 128 \<Longrightarrow> byte8 s k AND 0x7F = of_nat k"
proof -
  assume a: "sign_ok s" "k < 128"
  have "unat (byte8 s k AND mask 7) = (s + k) mod 2 ^ 7"
    by (simp only: take_bit_eq_mask [symmetric] unsigned_take_bit_eq unat_byte8 [OF a]) (simp only: take_bit_eq_mod)
  also have "\<dots> = k" using a by auto
  finally have "unat (byte8 s k AND mask 7) = unat (of_nat k :: 8 word)" using a(2) by (simp add: unat_of_nat)
  then have "byte8 s k AND mask 7 = of_nat k" by (simp only: word_unat_eq_iff)
  then show ?thesis by (simp add: mask_numeral)
qed

lemma byte8_less: "k < 128 \<Longrightarrow> n < 256 \<Longrightarrow> (of_nat k :: 8 word) < of_nat n \<longleftrightarrow> k < n"
  by (simp add: word_less_nat_alt unat_of_nat)

lemma byte8_eq: "k < 128 \<Longrightarrow> n < 256 \<Longrightarrow> (of_nat k :: 8 word) = of_nat n \<longleftrightarrow> k = n"
  by (simp add: word_unat_eq_iff unat_of_nat)

lemma byte8_Suc: "byte8 s k + 1 = byte8 s (k + 1)"
  by (simp add: byte8_def)

lemma byte8_odd: "sign_ok s \<Longrightarrow> k < 128 \<Longrightarrow> byte8 s k AND 1 \<noteq> 0 \<longleftrightarrow> odd k"
  using and_bit_iff [of 0 "byte8 s k"] by (auto simp: unat_byte8)

text \<open>Joining the sign and the pieces with bitwise or: a finite table.\<close>

lemma join_table:
  "\<forall>s \<in> set [0, 128]. \<forall>k \<in> set [0..<128]. (of_nat s :: 8 word) OR of_nat k = of_nat (s + k)"
  by code_simp

lemma join_sign: "sign_ok s \<Longrightarrow> k < 128 \<Longrightarrow> of_nat s OR of_nat k = byte8 s k"
  using join_table by (auto simp: byte8_def)

lemma join_disjoint: "c < 2 ^ w \<Longrightarrow> (of_nat (a * 2 ^ w) :: 8 word) OR of_nat c = of_nat (a * 2 ^ w + c)"
proof -
  assume c: "c < 2 ^ w"
  have nb: "\<not> bit c n" if "w \<le> n" for n
    using c that by (metis bit_take_bit_iff linorder_not_less take_bit_nat_eq_self)
  have p: "(of_nat (a * 2 ^ w) :: 8 word) = push_bit w (of_nat a)" by (simp add: push_bit_eq_mult)
  have "(of_nat (a * 2 ^ w) :: 8 word) AND of_nat c = 0"
    unfolding p by (rule bit_eqI) (auto simp: bit_simps nb)
  then have "(of_nat (a * 2 ^ w) :: 8 word) OR of_nat c = of_nat (a * 2 ^ w) + of_nat c"
    using word_plus_and_or [of "of_nat (a * 2 ^ w) :: 8 word" "of_nat c"] by (simp only: add_0)
  then show ?thesis by simp
qed

lemma join3:
  assumes "sign_ok s" "c < 2 ^ w" "a * 2 ^ w + c < 128"
  shows "of_nat s OR of_nat (a * 2 ^ w) OR of_nat c = byte8 s (a * 2 ^ w + c)"
  using join_sign [OF assms(1,3)] join_disjoint [OF assms(2)] by (simp add: or.assoc)

lemma ucast_drop: "(ucast (drop_bit n m) :: 8 word) = of_nat (unat m div 2 ^ n)" for m :: "32 word"
proof -
  have "(ucast (drop_bit n m) :: 8 word) = of_nat (unat (drop_bit n m))" by (rule of_nat_unat [symmetric])
  also have "unat (drop_bit n m) = unat m div 2 ^ n"
    by (simp only: unat_drop_bit_eq) (simp only: drop_bit_eq_div)
  finally show ?thesis .
qed

text \<open>The rounding conditions of the code, on numbers.\<close>

lemma mantissa_bit: "n < 32 \<Longrightarrow> mant32 b AND push_bit n 1 \<noteq> 0 \<longleftrightarrow> odd (unat (mant32 b) div 2 ^ n)"
  by (rule and_bit_iff) simp

text \<open>The normal range: \<open>a\<close> is the exponent field of the result and \<open>h\<close> the bit below its last bit.\<close>

lemma rne_normal:
  assumes "h < 23"
  shows "rne (a * 2 ^ 23 + m) (Suc h) = a * 2 ^ (22 - h) + m div 2 ^ Suc h +
     (if odd (m div 2 ^ h) \<and> (m mod 2 ^ h \<noteq> 0 \<or> odd (m div 2 ^ Suc h + a * 2 ^ (22 - h))) then 1 else 0)"
proof -
  have e: "(2::nat) ^ 23 = 2 ^ (22 - h) * 2 ^ Suc h" "(2::nat) ^ 23 = 2 ^ (23 - h) * 2 ^ h"
    using assms by (simp_all add: power_add [symmetric])
  have "(a * 2 ^ 23 + m) div 2 ^ Suc h = a * 2 ^ (22 - h) + m div 2 ^ Suc h"
    unfolding e(1) mult.assoc [symmetric] by (rule div_mult_self3) simp
  moreover have "(a * 2 ^ 23 + m) div 2 ^ h = a * 2 ^ (23 - h) + m div 2 ^ h"
    unfolding e(2) mult.assoc [symmetric] by (rule div_mult_self3) simp
  moreover have "(a * 2 ^ 23 + m) mod 2 ^ h = m mod 2 ^ h"
    unfolding e(2) mult.assoc [symmetric] by (rule mod_mult_self3)
  moreover have "even (a * 2 ^ (23 - h))" using assms by simp
  ultimately show ?thesis by (simp add: rne_bits add.commute)
qed

text \<open>The subnormal range: the implicit bit is written out.\<close>

lemma round_subnormal_rne:
  assumes s: "sign_ok s" and h: "h < 23" and q: "q = (2 ^ 23 + unat (mant32 b)) div 2 ^ Suc h" and k: "q < 127"
  shows "round_subnormal (mant32 b) (push_bit h 1) (byte8 s q) = byte8 s (rne (2 ^ 23 + unat (mant32 b)) (Suc h))"
proof -
  let ?m = "mant32 b"
  have l: "push_bit h 1 - 1 = (mask h :: 32 word)" by (simp add: mask_eq_exp_minus_1 push_bit_eq_mult)
  have t: "push_bit 1 (push_bit h 1) = (push_bit (Suc h) 1 :: 32 word)" by simp
  have q': "q = 2 ^ (22 - h) + unat ?m div 2 ^ Suc h"
  proof -
    have "(2::nat) ^ 23 = 2 ^ (22 - h) * 2 ^ Suc h" using h by (simp add: power_add [symmetric])
    then show ?thesis unfolding q by (simp only: div_mult_self3 power_not_zero zero_neq_numeral not_False_eq_True)
  qed
  have third: "odd q" if "odd (unat ?m div 2 ^ Suc h)"
  proof (cases "h = 22")
    case True
    have "unat ?m div 2 ^ Suc h = 0" using mant32_less [of b] True by simp
    with that show ?thesis by simp
  next
    case False
    with h that show ?thesis by (simp add: q')
  qed
  have c: "?m AND push_bit h 1 \<noteq> 0 \<longleftrightarrow> odd (unat ?m div 2 ^ h)"
    "?m AND push_bit 1 (push_bit h 1) \<noteq> 0 \<longleftrightarrow> odd (unat ?m div 2 ^ Suc h)"
    unfolding t by (rule mantissa_bit; use h in simp)+
  have z: "?m AND (push_bit h 1 - 1) > 0 \<longleftrightarrow> unat ?m mod 2 ^ h \<noteq> 0"
    unfolding l using and_low_iff [of ?m h] by (simp add: word_neq_0_conv)
  have o: "byte8 s q AND 1 \<noteq> 0 \<longleftrightarrow> odd q" using s k by (intro byte8_odd) simp_all
  have "round_subnormal ?m (push_bit h 1) (byte8 s q) =
      (if odd (unat ?m div 2 ^ h) \<and> (unat ?m mod 2 ^ h \<noteq> 0 \<or> odd q) then byte8 s q + 1 else byte8 s q)"
    unfolding round_subnormal_def c z o using third by auto
  also have "\<dots> = byte8 s (rne (1 * 2 ^ 23 + unat ?m) (Suc h))"
    unfolding rne_normal [OF h] by (simp add: q' byte8_def add.commute add.left_commute)
  finally show ?thesis by simp
qed

text \<open>The pieces of the encoders for \<open>w\<close> mantissa bits.\<close>

lemma join_subnormal:
  assumes "sign_ok s" "d < w" "w \<le> 3"
  shows "of_nat s OR push_bit (w - 1 - d) 1 OR ucast (drop_bit (24 - w + d) (mant32 b)) =
     byte8 s ((2 ^ 23 + unat (mant32 b)) div 2 ^ (24 - w + d))"
    and "(2 ^ 23 + unat (mant32 b)) div 2 ^ (24 - w + d) < 8"
proof -
  let ?M = "unat (mant32 b)" and ?u = "w - 1 - d" and ?t = "24 - w + d"
  have t: "(2::nat) ^ 23 = 2 ^ ?u * 2 ^ ?t" using assms(2,3) by (simp add: power_add [symmetric])
  have c: "?M div 2 ^ ?t < 2 ^ ?u"
    using mant32_less [of b] by (simp only: t) (simp add: div_less_iff_less_mult mult.commute)
  have q: "(2 ^ 23 + ?M) div 2 ^ ?t = 1 * 2 ^ ?u + ?M div 2 ^ ?t"
    by (simp only: t div_mult_self3 power_not_zero zero_neq_numeral not_False_eq_True mult_1)
  have "(2::nat) ^ ?u \<le> 2 ^ 2" using assms(2,3) by (intro power_increasing) auto
  with c have k: "1 * 2 ^ ?u + ?M div 2 ^ ?t < 8" by simp
  then show "(2 ^ 23 + ?M) div 2 ^ ?t < 8" by (simp only: q)
  have p: "push_bit ?u 1 = (of_nat (1 * 2 ^ ?u) :: 8 word)" by (simp add: push_bit_eq_mult)
  have k': "1 * 2 ^ ?u + ?M div 2 ^ ?t < 128" using k by simp
  show "of_nat s OR push_bit ?u 1 OR ucast (drop_bit ?t (mant32 b)) = byte8 s ((2 ^ 23 + ?M) div 2 ^ ?t)"
    unfolding p ucast_drop q by (rule join3 [OF assms(1) c k'])
qed

lemma subnormal_case:
  assumes "sign_ok s" "d < w" "w \<le> 3"
  shows "round_subnormal (mant32 b) (push_bit (23 - w + d) 1)
       (of_nat s OR push_bit (w - 1 - d) 1 OR ucast (drop_bit (24 - w + d) (mant32 b))) =
     byte8 s (rne (2 ^ 23 + unat (mant32 b)) (24 - w + d))"
proof -
  have h: "24 - w + d = Suc (23 - w + d)" "23 - w + d < 23" using assms by simp_all
  show ?thesis
    unfolding join_subnormal(1) [OF assms] unfolding h(1)
    by (rule round_subnormal_rne [OF assms(1) h(2)]) (use join_subnormal(2) [OF assms, of b] h in simp_all)
qed

text \<open>Below half of the smallest subnormal the result is zero, above it is the smallest subnormal.\<close>

lemma round_below: "round_subnormal (mant32 b) (push_bit 23 1) v = v"
proof -
  have "\<not> mant32 b AND push_bit 23 1 \<noteq> 0"
    using mantissa_bit [of 23 b] mant32_less [of b] by simp
  then show ?thesis by (simp only: round_subnormal_def if_False simp_thms)
qed

lemma rne_below: "rne (2 ^ 23 + unat (mant32 b)) 24 = (if mant32 b > 0 then 1 else 0)"
proof -
  have m: "mant32 b > 0 \<longleftrightarrow> unat (mant32 b) > 0" by (simp add: word_less_nat_alt)
  have "(2 ^ 23 + unat (mant32 b)) div 2 ^ 24 = 0" "(2 ^ 23 + unat (mant32 b)) mod 2 ^ 24 = 2 ^ 23 + unat (mant32 b)"
    using mant32_less [of b] by simp_all
  then show ?thesis unfolding rne_def m by (simp add: Let_def)
qed

lemma rne_flush: "25 \<le> k \<Longrightarrow> rne (2 ^ 23 + unat (mant32 b)) k = 0"
proof (rule rne_small)
  assume "25 \<le> k"
  then have "(2::nat) ^ 25 \<le> 2 ^ k" by (intro power_increasing) simp_all
  then show "2 * (2 ^ 23 + unat (mant32 b)) < 2 ^ k" using mant32_less [of b] by simp
qed

lemma join_normal:
  assumes "sign_ok s" "a * 2 ^ w + unat (mant32 b) div 2 ^ (23 - w) < 128" "w < 23"
  shows "of_nat s OR of_nat (a * 2 ^ w) OR ucast (drop_bit (23 - w) (mant32 b)) =
     byte8 s (a * 2 ^ w + unat (mant32 b) div 2 ^ (23 - w))"
proof -
  have "(2::nat) ^ 23 = 2 ^ w * 2 ^ (23 - w)" using assms(3) by (simp add: power_add [symmetric])
  then have "unat (mant32 b) div 2 ^ (23 - w) < 2 ^ w"
    using mant32_less [of b] by (simp only:) (simp add: div_less_iff_less_mult mult.commute)
  then show ?thesis unfolding ucast_drop using assms by (intro join3) auto
qed

lemma normal_quotient: "w < 23 \<Longrightarrow> unat (mant32 b) div 2 ^ (23 - w) < 2 ^ w"
proof -
  assume "w < 23"
  then have "(2::nat) ^ 23 = 2 ^ w * 2 ^ (23 - w)" by (simp add: power_add [symmetric])
  then show ?thesis
    using mant32_less [of b] by (simp only:) (simp add: div_less_iff_less_mult mult.commute)
qed

lemma rne_normal_code:
  assumes "0 < w" "h < 23" "Suc h = 23 - w"
  shows "rne (a * 2 ^ 23 + unat (mant32 b)) (23 - w) = a * 2 ^ w + unat (mant32 b) div 2 ^ (23 - w) +
     (if mant32 b AND push_bit h 1 \<noteq> 0 \<and> (mant32 b AND push_bit (Suc h) 1 \<noteq> 0 \<or> mant32 b AND mask h \<noteq> 0)
      then 1 else 0)"
proof -
  have w: "22 - h = w" using assms by simp
  have p: "odd (x + a * 2 ^ w) \<longleftrightarrow> odd x" for x using assms(1) by simp
  have m1: "mant32 b AND push_bit h 1 \<noteq> 0 \<longleftrightarrow> odd (unat (mant32 b) div 2 ^ h)"
    by (rule mantissa_bit) (use assms(2) in simp)
  have m2: "mant32 b AND push_bit (Suc h) 1 \<noteq> 0 \<longleftrightarrow> odd (unat (mant32 b) div 2 ^ Suc h)"
    by (rule mantissa_bit) (use assms(2) in simp)
  show ?thesis
    unfolding assms(3) [symmetric] rne_normal [OF assms(2)] w m1 m2 and_low_iff p
    by (simp only: disj_commute)
qed

lemma rne_overflow:
  assumes "n * 2 ^ (23 - w) \<le> a * 2 ^ 23"
  shows "n \<le> rne (a * 2 ^ 23 + m) (23 - w)"
  using assms by (intro rne_ge) linarith

lemma min_inc: "k \<le> n \<Longrightarrow> min n (k + (if c then 1 else 0)) = (if c \<and> k < n then k + 1 else (k :: nat))"
  by auto

text \<open>The four encoders on finite inputs.\<close>

lemma sign8_code: "sign8 b = byte8 (sign_bit b) 0"
  by (simp add: sign8_nat byte8_def)

lemma or_numeral: "sign_ok s \<Longrightarrow> numeral n < (128 :: nat) \<Longrightarrow> of_nat s OR (numeral n :: 8 word) = byte8 s (numeral n)"
  using join_sign [of s "numeral n"] by simp

lemma E4M3FN_rounds:
  assumes f: "expo32 b < 255"
  shows "FloatToFloat8E4M3FNBits b = byte8 (sign_bit b) (round8 3 120 126 (expo32 b) (unat (mant32 b)))"
proof -
  let ?e = "expo32 b" and ?m = "mant32 b" and ?s = "sign_bit b"
  have s: "sign_ok ?s" by (rule sign_bit_cases)
  have nf: "\<not> is_inf32 b" "\<not> is_nonfinite32 b" using f by (simp_all add: is_inf32_iff is_nonfinite32_iff)
  consider (zero) "?e = 0" | (low) "0 < ?e" "?e < 117" | (below) "?e = 117" | (sub) "117 < ?e" "?e < 121"
    | (normal) "121 \<le> ?e" "?e < 136" | (high) "136 \<le> ?e" by linarith
  then show ?thesis
  proof cases
    case zero
    then show ?thesis by (simp add: FloatToFloat8E4M3FNBits_def nf round8_def sign8_code)
  next
    case low
    have "rne (2 ^ 23 + unat ?m) (24 - 3 + (120 - ?e)) = 0" by (rule rne_flush) (use low in simp)
    with low show ?thesis by (simp add: FloatToFloat8E4M3FNBits_def nf round8_def sign8_code Let_def)
  next
    case below
    have "sign8 b OR 1 = byte8 ?s 1" using join_sign [OF s, of 1] by (simp add: sign8_nat)
    with below show ?thesis
      using round_below [of b] rne_below [of b]
      by (simp add: FloatToFloat8E4M3FNBits_def nf round8_def sign8_code Let_def)
  next
    case sub
    define d where "d = 120 - ?e"
    have d: "d < 3" using sub by (simp add: d_def)
    have n: "23 - 3 + d = 20 + d" "3 - 1 - d = 2 - d" "24 - 3 + d = 21 + d" by simp_all
    from subnormal_case [OF s d, of b] sub show ?thesis
      unfolding n by (simp add: FloatToFloat8E4M3FNBits_def nf round8_def sign8_nat Let_def d flip: d_def)
  next
    case normal
    define a where "a = ?e - 120"
    have a: "0 < a" "a < 16" using normal by (auto simp: a_def)
    have q: "unat ?m div 2 ^ 20 < 8" using normal_quotient [of 3 b] by simp
    define k where "k = a * 8 + unat ?m div 2 ^ 20"
    have k: "k < 128" using a q by (simp add: k_def)
    have j: "sign8 b OR of_nat a * 8 OR ucast (drop_bit 20 ?m) = byte8 ?s k"
      using join_normal [OF s, of a 3 b] k by (simp add: sign8_nat k_def)
    let ?inc = "?m AND 0x80000 \<noteq> 0 \<and> (?m AND 0x100000 \<noteq> 0 \<or> ?m AND 0x7FFFF \<noteq> 0)"
    have r: "rne (a * 2 ^ 23 + unat ?m) 20 = k + (if ?inc then 1 else 0)"
      using rne_normal_code [of 3 19 a b] unfolding windows by (simp only: k_def) simp
    have t: "round8 3 120 126 ?e (unat ?m) = min 126 (k + (if ?inc then 1 else 0))"
    proof -
      have "round8 3 120 126 ?e (unat ?m) = min 126 (rne (a * 2 ^ 23 + unat ?m) 20)"
        using normal by (simp add: round8_def a_def)
      then show ?thesis unfolding r .
    qed
    have l: "byte8 ?s x AND 0x7F = of_nat x" if "x < 128" for x by (rule byte8_low7 [OF s that])
    show ?thesis
    proof (cases "k = 127")
      case True
      have "byte8 ?s 127 AND 0xFE = byte8 ?s 126" using s by (auto simp: byte8_def)
      with True normal a show ?thesis
        using l [of 127] l [of 126]
        by (simp add: FloatToFloat8E4M3FNBits_def nf Let_def t j flip: a_def)
    next
      case False
      then have "(of_nat k :: 8 word) \<noteq> 0x7F" using byte8_eq [OF k, of 127] by simp
      moreover have "(of_nat k :: 8 word) < 0x7E \<longleftrightarrow> k < 126" using byte8_less [OF k, of 126] by simp
      ultimately show ?thesis
        using normal a False k l [OF k]
        by (simp add: FloatToFloat8E4M3FNBits_def nf Let_def t min_inc j byte8_Suc flip: a_def)
    qed
  next
    case high
    have "128 \<le> rne ((?e - 120) * 2 ^ 23 + unat ?m) (23 - 3)" by (rule rne_overflow) (use high in simp)
    then have "round8 3 120 126 ?e (unat ?m) = 126" using high by (simp add: round8_def)
    with high show ?thesis
      using or_numeral [OF s, of "num.Bit0 (num.Bit1 (num.Bit1 (num.Bit1 (num.Bit1 (num.Bit1 num.One)))))"]
      by (simp add: FloatToFloat8E4M3FNBits_def nf sign8_nat Let_def)
  qed
qed

lemma E4M3FNUZ_rounds:
  assumes f: "expo32 b < 255"
  shows "FloatToFloat8E4M3FNUZBits b =
    (let k = round8 3 119 127 (expo32 b) (unat (mant32 b)) in byte8 (if k = 0 then 0 else sign_bit b) k)"
proof -
  let ?e = "expo32 b" and ?m = "mant32 b" and ?s = "sign_bit b"
  have s: "sign_ok ?s" by (rule sign_bit_cases)
  have nf: "\<not> is_inf32 b" "\<not> is_nonfinite32 b" using f by (simp_all add: is_inf32_iff is_nonfinite32_iff)
  have zero: "byte8 0 0 = 0" by (simp add: byte8_def)
  consider (low) "?e < 116" | (below) "?e = 116" | (sub) "116 < ?e" "?e < 120"
    | (normal) "120 \<le> ?e" "?e < 135" | (high) "135 \<le> ?e" by linarith
  then show ?thesis
  proof cases
    case low
    have "rne (2 ^ 23 + unat ?m) (24 - 3 + (119 - ?e)) = 0" by (rule rne_flush) (use low in simp)
    with low show ?thesis by (simp add: FloatToFloat8E4M3FNUZBits_def nf round8_def zero Let_def)
  next
    case below
    have "sign8 b OR 1 = byte8 ?s 1" using join_sign [OF s, of 1] by (simp add: sign8_nat)
    with below show ?thesis
      using round_below [of b] rne_below [of b]
      by (simp add: FloatToFloat8E4M3FNUZBits_def nf round8_def zero Let_def)
  next
    case sub
    define d where "d = 119 - ?e"
    have d: "d < 3" using sub by (simp add: d_def)
    have n: "23 - 3 + d = 20 + d" "3 - 1 - d = 2 - d" "24 - 3 + d = 21 + d" by simp_all
    have "1 * 2 ^ (21 + d) \<le> 2 ^ 23 + unat ?m"
    proof -
      have "(2::nat) ^ (21 + d) \<le> 2 ^ 23" using d by (intro power_increasing) simp_all
      then show ?thesis by simp
    qed
    then have "0 < rne (2 ^ 23 + unat ?m) (21 + d)" using rne_ge by fastforce
    with subnormal_case [OF s d, of b] sub show ?thesis
      unfolding n by (simp add: FloatToFloat8E4M3FNUZBits_def nf round8_def sign8_nat Let_def d flip: d_def)
  next
    case normal
    define a where "a = ?e - 119"
    have a: "0 < a" "a < 16" using normal by (auto simp: a_def)
    have q: "unat ?m div 2 ^ 20 < 8" using normal_quotient [of 3 b] by simp
    define k where "k = a * 8 + unat ?m div 2 ^ 20"
    have k: "k < 128" "0 < k" using a q by (simp_all add: k_def)
    have j: "sign8 b OR of_nat a * 8 OR ucast (drop_bit 20 ?m) = byte8 ?s k"
      using join_normal [OF s, of a 3 b] k by (simp add: sign8_nat k_def)
    let ?inc = "?m AND 0x80000 \<noteq> 0 \<and> (?m AND 0x100000 \<noteq> 0 \<or> ?m AND 0x7FFFF \<noteq> 0)"
    have r: "rne (a * 2 ^ 23 + unat ?m) 20 = k + (if ?inc then 1 else 0)"
      using rne_normal_code [of 3 19 a b] unfolding windows by (simp only: k_def) simp
    have t: "round8 3 119 127 ?e (unat ?m) = min 127 (k + (if ?inc then 1 else 0))"
    proof -
      have "round8 3 119 127 ?e (unat ?m) = min 127 (rne (a * 2 ^ 23 + unat ?m) 20)"
        using normal by (simp add: round8_def a_def)
      then show ?thesis unfolding r .
    qed
    have "(of_nat k :: 8 word) < 0x7F \<longleftrightarrow> k < 127" using byte8_less [OF k(1), of 127] by simp
    then show ?thesis
      using normal a k byte8_low7 [OF s k(1)]
      by (simp add: FloatToFloat8E4M3FNUZBits_def nf Let_def t min_inc j byte8_Suc flip: a_def)
  next
    case high
    have "128 \<le> rne ((?e - 119) * 2 ^ 23 + unat ?m) (23 - 3)" by (rule rne_overflow) (use high in simp)
    then have "round8 3 119 127 ?e (unat ?m) = 127" using high by (simp add: round8_def)
    with high show ?thesis
      using join_sign [OF s, of 127] by (simp add: FloatToFloat8E4M3FNUZBits_def nf sign8_nat Let_def)
  qed
qed

lemma E5M2_rounds:
  assumes f: "expo32 b < 255"
  shows "FloatToFloat8E5M2Bits b = byte8 (sign_bit b) (round8 2 112 123 (expo32 b) (unat (mant32 b)))"
proof -
  let ?e = "expo32 b" and ?m = "mant32 b" and ?s = "sign_bit b"
  have s: "sign_ok ?s" by (rule sign_bit_cases)
  have nf: "\<not> is_inf32 b" "\<not> is_nonfinite32 b" using f by (simp_all add: is_inf32_iff is_nonfinite32_iff)
  consider (zero) "?e = 0" | (low) "0 < ?e" "?e < 110" | (below) "?e = 110" | (sub) "110 < ?e" "?e < 113"
    | (normal) "113 \<le> ?e" "?e < 143" | (high) "143 \<le> ?e" by linarith
  then show ?thesis
  proof cases
    case zero
    then show ?thesis by (simp add: FloatToFloat8E5M2Bits_def nf round8_def sign8_code)
  next
    case low
    have "rne (2 ^ 23 + unat ?m) (24 - 2 + (112 - ?e)) = 0" by (rule rne_flush) (use low in simp)
    with low show ?thesis by (simp add: FloatToFloat8E5M2Bits_def nf round8_def sign8_code Let_def)
  next
    case below
    have "sign8 b OR 1 = byte8 ?s 1" using join_sign [OF s, of 1] by (simp add: sign8_nat)
    with below show ?thesis
      using round_below [of b] rne_below [of b]
      by (simp add: FloatToFloat8E5M2Bits_def nf round8_def sign8_code Let_def)
  next
    case sub
    define d where "d = 112 - ?e"
    have d: "d < 2" using sub by (simp add: d_def)
    have n: "23 - 2 + d = 21 + d" "2 - 1 - d = 1 - d" "24 - 2 + d = 22 + d" by simp_all
    from subnormal_case [OF s d, of b] sub show ?thesis
      unfolding n by (simp add: FloatToFloat8E5M2Bits_def nf round8_def sign8_nat Let_def d flip: d_def)
  next
    case normal
    define a where "a = ?e - 112"
    have a: "0 < a" "a < 31" using normal by (auto simp: a_def)
    have q: "unat ?m div 2 ^ 21 < 4" using normal_quotient [of 2 b] by simp
    define k where "k = a * 4 + unat ?m div 2 ^ 21"
    have k: "k < 128" "k \<le> 123" using a q by (simp_all add: k_def)
    have j: "sign8 b OR of_nat a * 4 OR ucast (drop_bit 21 ?m) = byte8 ?s k"
      using join_normal [OF s, of a 2 b] k by (simp add: sign8_nat k_def)
    let ?inc = "?m AND 0x100000 \<noteq> 0 \<and> (?m AND 0x200000 \<noteq> 0 \<or> ?m AND 0xFFFFF \<noteq> 0)"
    have r: "rne (a * 2 ^ 23 + unat ?m) 21 = k + (if ?inc then 1 else 0)"
      using rne_normal_code [of 2 20 a b] unfolding windows by (simp only: k_def) simp
    have t: "round8 2 112 123 ?e (unat ?m) = min 123 (k + (if ?inc then 1 else 0))"
    proof -
      have "round8 2 112 123 ?e (unat ?m) = min 123 (rne (a * 2 ^ 23 + unat ?m) 21)"
        using normal by (simp add: round8_def a_def)
      then show ?thesis unfolding r .
    qed
    have c: "(of_nat k :: 8 word) < 0x7B \<longleftrightarrow> k < 123" using byte8_less [OF k(1), of 123] by simp
    have o: "byte8 ?s 123 OR 0x7B = byte8 ?s 123" using join_sign [OF s, of 123] s by (auto simp: byte8_def)
    show ?thesis
      using normal a k byte8_low7 [OF s k(1)] c o
      by (cases "k = 123") (simp_all add: FloatToFloat8E5M2Bits_def nf Let_def t min_inc j byte8_Suc flip: a_def)
  next
    case high
    have "124 \<le> rne ((?e - 112) * 2 ^ 23 + unat ?m) (23 - 2)" by (rule rne_overflow) (use high in simp)
    then have "round8 2 112 123 ?e (unat ?m) = 123" using high by (simp add: round8_def)
    with high show ?thesis
      using join_sign [OF s, of 123] by (simp add: FloatToFloat8E5M2Bits_def nf sign8_nat Let_def)
  qed
qed

lemma E5M2FNUZ_rounds:
  assumes f: "expo32 b < 255"
  shows "FloatToFloat8E5M2FNUZBits b =
    (let k = round8 2 111 127 (expo32 b) (unat (mant32 b)) in byte8 (if k = 0 then 0 else sign_bit b) k)"
proof -
  let ?e = "expo32 b" and ?m = "mant32 b" and ?s = "sign_bit b"
  have s: "sign_ok ?s" by (rule sign_bit_cases)
  have nf: "\<not> is_inf32 b" "\<not> is_nonfinite32 b" using f by (simp_all add: is_inf32_iff is_nonfinite32_iff)
  have zero: "byte8 0 0 = 0" by (simp add: byte8_def)
  consider (low) "?e < 109" | (below) "?e = 109" | (sub) "109 < ?e" "?e < 112"
    | (normal) "112 \<le> ?e" "?e < 143" | (high) "143 \<le> ?e" by linarith
  then show ?thesis
  proof cases
    case low
    have "rne (2 ^ 23 + unat ?m) (24 - 2 + (111 - ?e)) = 0" by (rule rne_flush) (use low in simp)
    with low show ?thesis by (simp add: FloatToFloat8E5M2FNUZBits_def nf round8_def zero Let_def)
  next
    case below
    have "sign8 b OR 1 = byte8 ?s 1" using join_sign [OF s, of 1] by (simp add: sign8_nat)
    with below show ?thesis
      using round_below [of b] rne_below [of b]
      by (simp add: FloatToFloat8E5M2FNUZBits_def nf round8_def zero Let_def)
  next
    case sub
    define d where "d = 111 - ?e"
    have d: "d < 2" using sub by (simp add: d_def)
    have n: "23 - 2 + d = 21 + d" "2 - 1 - d = 1 - d" "24 - 2 + d = 22 + d" by simp_all
    have "1 * 2 ^ (22 + d) \<le> 2 ^ 23 + unat ?m"
    proof -
      have "(2::nat) ^ (22 + d) \<le> 2 ^ 23" using d by (intro power_increasing) simp_all
      then show ?thesis by simp
    qed
    then have "0 < rne (2 ^ 23 + unat ?m) (22 + d)" using rne_ge by fastforce
    with subnormal_case [OF s d, of b] sub show ?thesis
      unfolding n by (simp add: FloatToFloat8E5M2FNUZBits_def nf round8_def sign8_nat Let_def d flip: d_def)
  next
    case normal
    define a where "a = ?e - 111"
    have a: "0 < a" "a < 32" using normal by (auto simp: a_def)
    have q: "unat ?m div 2 ^ 21 < 4" using normal_quotient [of 2 b] by simp
    define k where "k = a * 4 + unat ?m div 2 ^ 21"
    have k: "k < 128" "0 < k" using a q by (simp_all add: k_def)
    have j: "sign8 b OR of_nat a * 4 OR ucast (drop_bit 21 ?m) = byte8 ?s k"
      using join_normal [OF s, of a 2 b] k by (simp add: sign8_nat k_def)
    let ?inc = "?m AND 0x100000 \<noteq> 0 \<and> (?m AND 0x200000 \<noteq> 0 \<or> ?m AND 0xFFFFF \<noteq> 0)"
    have r: "rne (a * 2 ^ 23 + unat ?m) 21 = k + (if ?inc then 1 else 0)"
      using rne_normal_code [of 2 20 a b] unfolding windows by (simp only: k_def) simp
    have t: "round8 2 111 127 ?e (unat ?m) = min 127 (k + (if ?inc then 1 else 0))"
    proof -
      have "round8 2 111 127 ?e (unat ?m) = min 127 (rne (a * 2 ^ 23 + unat ?m) 21)"
        using normal by (simp add: round8_def a_def)
      then show ?thesis unfolding r .
    qed
    have c: "(of_nat k :: 8 word) < 0x7F \<longleftrightarrow> k < 127" using byte8_less [OF k(1), of 127] by simp
    show ?thesis
      using normal a k byte8_low7 [OF s k(1)] c
      by (simp add: FloatToFloat8E5M2FNUZBits_def nf Let_def t min_inc j byte8_Suc flip: a_def)
  next
    case high
    have "128 \<le> rne ((?e - 111) * 2 ^ 23 + unat ?m) (23 - 2)" by (rule rne_overflow) (use high in simp)
    then have "round8 2 111 127 ?e (unat ?m) = 127" using high by (simp add: round8_def)
    with high show ?thesis
      using join_sign [OF s, of 127] by (simp add: FloatToFloat8E5M2FNUZBits_def nf sign8_nat Let_def)
  qed
qed

end
