(* ===== verification/Float8Sound.thy ===== *)
theory Float8Sound
  imports Float8Rounding
begin

text \<open>
  The float8 decoders and what follows from the rounding lemmas: decoding and encoding round trips,
  the variants without saturation, the E8M0 format of powers of two.
\<close>

unbundle bit_operations_syntax

section \<open>The decoders\<close>

text \<open>The fields of a byte, and joining the fields of a 32-bit pattern.\<close>

lemma join_disjoint32: "c < 2 ^ w \<Longrightarrow> (of_nat (a * 2 ^ w) :: 32 word) OR of_nat c = of_nat (a * 2 ^ w + c)"
proof -
  assume c: "c < 2 ^ w"
  have nb: "\<not> bit c n" if "w \<le> n" for n
    using c that by (metis bit_take_bit_iff linorder_not_less take_bit_nat_eq_self)
  have p: "(of_nat (a * 2 ^ w) :: 32 word) = push_bit w (of_nat a)" by (simp add: push_bit_eq_mult)
  have "(of_nat (a * 2 ^ w) :: 32 word) AND of_nat c = 0"
    unfolding p by (rule bit_eqI) (auto simp: bit_simps nb)
  then have "(of_nat (a * 2 ^ w) :: 32 word) OR of_nat c = of_nat (a * 2 ^ w) + of_nat c"
    using word_plus_and_or [of "of_nat (a * 2 ^ w) :: 32 word" "of_nat c"] by (simp only: add_0)
  then show ?thesis by simp
qed

lemma join_fields:
  assumes "x < 256" "c < 2 ^ 23"
  shows "of_nat (t * 2 ^ 31) OR of_nat c OR push_bit 23 (of_nat x) = (of_nat (t * 2 ^ 31 + (x * 2 ^ 23 + c)) :: 32 word)"
proof -
  have "x * 2 ^ 23 + c < 2 ^ 31" using assms by simp
  have "push_bit 23 (of_nat x) = (of_nat (x * 2 ^ 23) :: 32 word)" by (simp add: push_bit_eq_mult)
  then have "of_nat (t * 2 ^ 31) OR of_nat c OR push_bit 23 (of_nat x) =
      of_nat (t * 2 ^ 31) OR ((of_nat (x * 2 ^ 23) :: 32 word) OR of_nat c)"
    by (simp only: or.assoc or.commute)
  also have "\<dots> = of_nat (t * 2 ^ 31 + (x * 2 ^ 23 + c))"
    unfolding join_disjoint32 [OF assms(2)] by (rule join_disjoint32) fact
  finally show ?thesis .
qed

lemma fields_of:
  assumes "t \<le> 1" "x < 256" "c < 2 ^ 23"
  defines "b \<equiv> (of_nat (t * 2 ^ 31 + (x * 2 ^ 23 + c)) :: 32 word)"
  shows "expo32 b = x" "unat (mant32 b) = c" "sign_bit b = 128 * t"
proof -
  have l: "t * 2 ^ 31 + (x * 2 ^ 23 + c) < 2 ^ 32" using assms(1-3) by simp
  have u: "unat b = t * 2 ^ 31 + (x * 2 ^ 23 + c)"
    unfolding b_def by (simp only: unat_of_nat) (use l in simp)
  have "(x * 2 ^ 23 + c) div 2 ^ 23 = x" using assms(3) by simp
  moreover have "(t * 2 ^ 31 + (x * 2 ^ 23 + c)) div 2 ^ 23 = t * 2 ^ 8 + (x * 2 ^ 23 + c) div 2 ^ 23" by simp
  ultimately show "expo32 b = x" unfolding expo32_nat u using assms(2) by simp
  have "t * 2 ^ 31 + (x * 2 ^ 23 + c) = (t * 2 ^ 8 + x) * 2 ^ 23 + c" by simp
  then show "unat (mant32 b) = c" unfolding mant32_nat u using assms(3) by (simp only: mod_mult_self3 mod_less)
  have "(x * 2 ^ 23 + c) div 2 ^ 31 = 0" using assms(2,3) by simp
  then have "unat b div 2 ^ 31 = t" unfolding u by simp
  then show "sign_bit b = 128 * t" using assms(1) by (cases t) (auto simp: sign_bit_def)
qed

lemma of_nat_unatI: "unat x = n \<Longrightarrow> x = of_nat n" for x :: "'a::len word"
  by (metis of_nat_unat ucast_id)

lemma ucast_window:
  fixes v :: "8 word"
  assumes "n + w \<le> 32"
  shows "(ucast v :: 32 word) AND push_bit n (mask w) = of_nat (2 ^ n * (unat v div 2 ^ n mod 2 ^ w))"
proof -
  have "unat (ucast v :: 32 word) = unat v" 
  proof -
    have "unat v < 2 ^ 8" using unsigned_less [of v] by simp
    then have "unat v < 2 ^ 32" by simp
    then show ?thesis by (simp only: unsigned_ucast_eq) (rule take_bit_nat_eq_self, simp)
  qed
  then have "unat ((ucast v :: 32 word) AND push_bit n (mask w)) = 2 ^ n * (unat v div 2 ^ n mod 2 ^ w)"
    using unat_window [of n w "ucast v :: 32 word"] assms by simp
  then show ?thesis by (rule of_nat_unatI)
qed

lemma byte_fields:
  fixes v :: "8 word"
  shows "(ucast v :: 32 word) AND 0x80 = of_nat (128 * (unat v div 128 mod 2))"
    "(ucast v :: 32 word) AND 0x07 = of_nat (unat v mod 8)"
    "(ucast v :: 32 word) AND 0x03 = of_nat (unat v mod 4)"
    "drop_bit 3 ((ucast v :: 32 word) AND 0x78) = of_nat (unat v div 8 mod 16)"
    "drop_bit 2 ((ucast v :: 32 word) AND 0x7C) = of_nat (unat v div 4 mod 32)"
proof -
  show "(ucast v :: 32 word) AND 0x80 = of_nat (128 * (unat v div 128 mod 2))"
    using ucast_window [of 7 1 v] by (simp add: mask_numeral)
  show "(ucast v :: 32 word) AND 0x07 = of_nat (unat v mod 8)" using ucast_window [of 0 3 v] by (simp add: mask_numeral)
  show "(ucast v :: 32 word) AND 0x03 = of_nat (unat v mod 4)" using ucast_window [of 0 2 v] by (simp add: mask_numeral)
  have f: "drop_bit n ((ucast v :: 32 word) AND push_bit n (mask w)) = of_nat (unat v div 2 ^ n mod 2 ^ w)"
    if "n + w \<le> 8" for n w
  proof (rule of_nat_unatI)
    let ?x = "unat v div 2 ^ n mod 2 ^ w"
    have "?x < 2 ^ w" by simp
    then have "2 ^ n * ?x < 2 ^ n * 2 ^ w" by simp
    also have "\<dots> \<le> 2 ^ 8" using that by (simp only: power_add [symmetric]) (intro power_increasing, simp_all)
    finally have "unat (of_nat (2 ^ n * ?x) :: 32 word) = 2 ^ n * ?x" by (simp only: unat_of_nat) simp
    then show "unat (drop_bit n ((ucast v :: 32 word) AND push_bit n (mask w))) = ?x"
      using that by (simp only: ucast_window unat_drop_bit_eq) (simp add: ucast_window drop_bit_eq_div)
  qed
  show "drop_bit 3 ((ucast v :: 32 word) AND 0x78) = of_nat (unat v div 8 mod 16)"
    using f [of 3 4] by (simp add: mask_numeral)
  show "drop_bit 2 ((ucast v :: 32 word) AND 0x7C) = of_nat (unat v div 4 mod 32)"
    using f [of 2 5] by (simp add: mask_numeral)
qed

text \<open>The bytes whose exponent field is not zero.\<close>

lemma decode_m3_normal:
  fixes v :: "8 word"
  assumes "unat v div 8 mod 16 \<noteq> 0" "bias \<le> 127"
  shows "decode_m3 (of_nat bias) v =
     of_nat (unat v div 128 * 2 ^ 31 + ((unat v div 8 mod 16 + 127 - bias) * 2 ^ 23 + unat v mod 8 * 2 ^ 20))"
proof -
  let ?n = "unat v" and ?E = "unat v div 8 mod 16"
  have n: "?n < 256" using unsigned_less [of v] by simp
  then have t: "?n div 128 mod 2 = ?n div 128" by simp
  have E: "(of_nat ?E :: 32 word) \<noteq> 0" using assms(1) by (simp add: word_unat_eq_iff unat_of_nat)
  have x: "of_nat ?E - of_nat bias + 0x7F = (of_nat (?E + 127 - bias) :: 32 word)"
    using assms(2) by (simp add: of_nat_diff)
  have r: "push_bit 24 (of_nat (128 * (?n div 128))) = (of_nat (?n div 128 * 2 ^ 31) :: 32 word)"
    "push_bit 20 (of_nat (?n mod 8)) = (of_nat (?n mod 8 * 2 ^ 20) :: 32 word)"
    by (simp_all add: push_bit_eq_mult)
  have l: "?E + 127 - bias < 256" "?n mod 8 * 2 ^ 20 < 2 ^ 23"
    using assms(2) by simp_all
  show ?thesis
    unfolding decode_m3_def byte_fields t Let_def r x if_not_P [OF E] by (rule join_fields [OF l])
qed

lemma decode_m2_normal:
  fixes v :: "8 word"
  assumes "unat v div 4 mod 32 \<noteq> 0" "bias \<le> 127"
  shows "decode_m2 (of_nat bias) v =
     of_nat (unat v div 128 * 2 ^ 31 + ((unat v div 4 mod 32 + 127 - bias) * 2 ^ 23 + unat v mod 4 * 2 ^ 21))"
proof -
  let ?n = "unat v" and ?E = "unat v div 4 mod 32"
  have n: "?n < 256" using unsigned_less [of v] by simp
  then have t: "?n div 128 mod 2 = ?n div 128" by simp
  have E: "(of_nat ?E :: 32 word) \<noteq> 0" using assms(1) by (simp add: word_unat_eq_iff unat_of_nat)
  have x: "of_nat ?E - of_nat bias + 0x7F = (of_nat (?E + 127 - bias) :: 32 word)"
    using assms(2) by (simp add: of_nat_diff)
  have r: "push_bit 24 (of_nat (128 * (?n div 128))) = (of_nat (?n div 128 * 2 ^ 31) :: 32 word)"
    "push_bit 21 (of_nat (?n mod 4)) = (of_nat (?n mod 4 * 2 ^ 21) :: 32 word)"
    by (simp_all add: push_bit_eq_mult)
  have l: "?E + 127 - bias < 256" "?n mod 4 * 2 ^ 21 < 2 ^ 23"
    using assms(2) by simp_all
  show ?thesis
    unfolding decode_m2_def byte_fields t Let_def r x if_not_P [OF E] by (rule join_fields [OF l])
qed

lemma byte_split:
  fixes v :: "8 word"
  shows "v = byte8 (128 * (unat v div 128)) (unat v mod 128)" "sign_ok (128 * (unat v div 128))"
proof -
  have "128 * (unat v div 128) + unat v mod 128 = unat v" by simp
  then show "v = byte8 (128 * (unat v div 128)) (unat v mod 128)"
    by (simp only: byte8_def) (rule of_nat_unatI, rule refl)
  have "unat v < 256" using unsigned_less [of v] by simp
  then have "unat v div 128 < 2" by simp
  then show "sign_ok (128 * (unat v div 128))" by (auto simp: less_2_cases_iff)
qed

text \<open>The encoders give a normal byte back: the rounding is exact.\<close>

lemma round8_exact:
  assumes "0 < x" "c < 2 ^ w" "w < 23" "x * 2 ^ w + c \<le> largest" "x + base < 255"
  shows "round8 w base largest (x + base) (c * 2 ^ (23 - w)) = x * 2 ^ w + c"
proof -
  have "(2::nat) ^ 23 = 2 ^ w * 2 ^ (23 - w)" using assms(3) by (simp add: power_add [symmetric])
  then have "x * 2 ^ 23 + c * 2 ^ (23 - w) = (x * 2 ^ w + c) * 2 ^ (23 - w)" by (simp only: add_mult_distrib mult.assoc)
  then show ?thesis using assms by (simp add: round8_def rne_exact)
qed

lemma decode_m3_fields:
  assumes "unat v div 8 mod 16 \<noteq> 0" "bias \<le> 127" "bw = of_nat bias"
  shows "expo32 (decode_m3 bw v) = unat v div 8 mod 16 + (127 - bias)"
    "unat (mant32 (decode_m3 bw v)) = unat v mod 8 * 2 ^ 20"
    "sign_bit (decode_m3 bw v) = 128 * (unat v div 128)"
proof -
  have n: "unat v < 256" using unsigned_less [of v] by simp
  have S: "unat v div 128 \<le> 1" using n by simp
  have E: "unat v div 8 mod 16 + 127 - bias < 256"
  proof -
    have "unat v div 8 mod 16 < 16" by simp
    then show ?thesis by linarith
  qed
  have M: "unat v mod 8 * 2 ^ 20 < 2 ^ 23" by simp
  note f = fields_of [OF S E M]
  show "expo32 (decode_m3 bw v) = unat v div 8 mod 16 + (127 - bias)"
    unfolding assms(3) decode_m3_normal [OF assms(1,2)] f(1) using assms(2) by linarith
  show "unat (mant32 (decode_m3 bw v)) = unat v mod 8 * 2 ^ 20" "sign_bit (decode_m3 bw v) = 128 * (unat v div 128)"
    unfolding assms(3) decode_m3_normal [OF assms(1,2)] by (rule f(2), rule f(3))
qed

lemma decode_m2_fields:
  assumes "unat v div 4 mod 32 \<noteq> 0" "bias \<le> 127" "bw = of_nat bias"
  shows "expo32 (decode_m2 bw v) = unat v div 4 mod 32 + (127 - bias)"
    "unat (mant32 (decode_m2 bw v)) = unat v mod 4 * 2 ^ 21"
    "sign_bit (decode_m2 bw v) = 128 * (unat v div 128)"
proof -
  have n: "unat v < 256" using unsigned_less [of v] by simp
  have S: "unat v div 128 \<le> 1" using n by simp
  have E: "unat v div 4 mod 32 + 127 - bias < 256"
  proof -
    have "unat v div 4 mod 32 < 32" by simp
    then show ?thesis by linarith
  qed
  have M: "unat v mod 4 * 2 ^ 21 < 2 ^ 23" by simp
  note f = fields_of [OF S E M]
  show "expo32 (decode_m2 bw v) = unat v div 4 mod 32 + (127 - bias)"
    unfolding assms(3) decode_m2_normal [OF assms(1,2)] f(1) using assms(2) by linarith
  show "unat (mant32 (decode_m2 bw v)) = unat v mod 4 * 2 ^ 21" "sign_bit (decode_m2 bw v) = 128 * (unat v div 128)"
    unfolding assms(3) decode_m2_normal [OF assms(1,2)] by (rule f(2), rule f(3))
qed

lemma zero_field_m3: "n < 256 \<Longrightarrow> n div 8 mod 16 = 0 \<Longrightarrow> n < 8 \<or> 128 \<le> n \<and> n < (136 :: nat)"
proof (cases "n < 128")
  case False
  assume a: "n < 256" "n div 8 mod 16 = 0"
  define r where "r = n - 128"
  have r: "n = r + 16 * 8" "r < 128" using False a(1) by (auto simp: r_def)
  have "n div 8 = 16 + r div 8" unfolding r(1) by (subst div_mult_self1) simp_all
  with a(2) r(2) have "r div 8 = 0" by simp
  with r show ?thesis by (simp add: div_eq_0_iff)
qed (auto simp: div_eq_0_iff)

lemma zero_field_m2: "n < 256 \<Longrightarrow> n div 4 mod 32 = 0 \<Longrightarrow> n < 4 \<or> 128 \<le> n \<and> n < (132 :: nat)"
proof (cases "n < 128")
  case False
  assume a: "n < 256" "n div 4 mod 32 = 0"
  define r where "r = n - 128"
  have r: "n = r + 32 * 4" "r < 128" using False a(1) by (auto simp: r_def)
  have "n div 4 = 32 + r div 4" unfolding r(1) by (subst div_mult_self1) simp_all
  with a(2) r(2) have "r div 4 = 0" by simp
  with r show ?thesis by (simp add: div_eq_0_iff)
qed (auto simp: div_eq_0_iff)

text \<open>The bytes with a zero exponent field, one by one.\<close>

lemmas float8_code =
  Let_def normalize_step_def sign8_def expo32_def mant32_def is_inf32_def is_nonfinite32_def round_subnormal_def
  decode_m3_def decode_m2_def

lemma small_E4M3FN:
  "list_all (\<lambda>n. FloatToFloat8E4M3FNBits (Float8E4M3FNBitsToFloat (of_nat n)) = of_nat n) ([0..<8] @ [128..<136])"
  by (simp add: upt_rec FloatToFloat8E4M3FNBits_def Float8E4M3FNBitsToFloat_def float8_code)

lemma small_E4M3FNUZ:
  "list_all (\<lambda>n. FloatToFloat8E4M3FNUZBits (Float8E4M3FNUZBitsToFloat (of_nat n)) = of_nat n) ([0..<8] @ [129..<136])"
  by (simp add: upt_rec FloatToFloat8E4M3FNUZBits_def Float8E4M3FNUZBitsToFloat_def float8_code)

lemma small_E5M2:
  "list_all (\<lambda>n. FloatToFloat8E5M2Bits (Float8E5M2BitsToFloat (of_nat n)) = of_nat n) ([0..<4] @ [128..<132])"
  by (simp add: upt_rec FloatToFloat8E5M2Bits_def Float8E5M2BitsToFloat_def float8_code word_le_nat_alt)

lemma small_E5M2FNUZ:
  "list_all (\<lambda>n. FloatToFloat8E5M2FNUZBits (Float8E5M2FNUZBitsToFloat (of_nat n)) = of_nat n) ([0..<4] @ [129..<132])"
  by (simp add: upt_rec FloatToFloat8E5M2FNUZBits_def Float8E5M2FNUZBitsToFloat_def float8_code)

lemma byte_small:
  fixes v :: "8 word"
  assumes "list_all (\<lambda>n. P (of_nat n)) ns" "unat v \<in> set ns"
  shows "P v"
  using assms of_nat_unatI [of v "unat v"] by (auto simp: list_all_iff)

lemma round_trip_E4M3FN:
  assumes "unat v mod 128 \<noteq> 127"
  shows "FloatToFloat8E4M3FNBits (Float8E4M3FNBitsToFloat v) = v"
proof (cases "unat v div 8 mod 16 = 0")
  case True
  have n: "unat v < 256" using unsigned_less [of v] by simp
  from zero_field_m3 [OF n True] have "unat v \<in> set ([0..<8] @ [128..<136])" by auto
  from byte_small [OF small_E4M3FN this] show ?thesis .
next
  case False
  let ?k = "unat v mod 128" and ?E = "unat v div 8 mod 16"
  have d: "Float8E4M3FNBitsToFloat v = decode_m3 7 v"
    using assms by (auto simp: Float8E4M3FNBitsToFloat_def)
  have k: "?E * 2 ^ 3 + unat v mod 8 = ?k" using mod_mult2_eq [of "unat v" 8 16] by simp
  note f = decode_m3_fields [OF False, of 7 7, simplified]
  have e: "expo32 (decode_m3 7 v) < 255"
  proof -
    have "?E < 16" by simp
    then show ?thesis unfolding f by linarith
  qed
  have "?k \<le> 126" using assms by simp
  with k have "?E * 2 ^ 3 + unat v mod 8 \<le> 126" by (simp only:)
  moreover have "?E + 120 < 255"
  proof -
    have "?E < 16" by simp
    then show ?thesis by linarith
  qed
  ultimately have "round8 3 120 126 (?E + 120) (unat v mod 8 * 2 ^ (23 - 3)) = ?E * 2 ^ 3 + unat v mod 8"
    using False by (intro round8_exact) simp_all
  then have r: "round8 3 120 126 (?E + 120) (unat v mod 8 * 1048576) = ?k" using k by simp
  then show ?thesis unfolding d E4M3FN_rounds [OF e] f r using byte_split(1) by simp
qed

lemma round_trip_E4M3FNUZ:
  assumes "v \<noteq> 0x80"
  shows "FloatToFloat8E4M3FNUZBits (Float8E4M3FNUZBitsToFloat v) = v"
proof (cases "unat v div 8 mod 16 = 0")
  case True
  have n: "unat v < 256" using unsigned_less [of v] by simp
  have "unat v \<noteq> 128" using assms of_nat_unatI [of v 128] by auto
  with zero_field_m3 [OF n True] have "unat v \<in> set ([0..<8] @ [129..<136])" by auto
  from byte_small [OF small_E4M3FNUZ this] show ?thesis .
next
  case False
  let ?k = "unat v mod 128" and ?E = "unat v div 8 mod 16"
  have d: "Float8E4M3FNUZBitsToFloat v = decode_m3 8 v"
    using assms by (auto simp: Float8E4M3FNUZBitsToFloat_def)
  have k: "?E * 2 ^ 3 + unat v mod 8 = ?k" using mod_mult2_eq [of "unat v" 8 16] by simp
  note f = decode_m3_fields [OF False, of 8 8, simplified]
  have e: "expo32 (decode_m3 8 v) < 255"
  proof -
    have "?E < 16" by simp
    then show ?thesis unfolding f by linarith
  qed
  have "?k \<le> 127" using assms by simp
  with k have "?E * 2 ^ 3 + unat v mod 8 \<le> 127" by (simp only:)
  moreover have "?E + 119 < 255"
  proof -
    have "?E < 16" by simp
    then show ?thesis by linarith
  qed
  ultimately have "round8 3 119 127 (?E + 119) (unat v mod 8 * 2 ^ (23 - 3)) = ?E * 2 ^ 3 + unat v mod 8"
    using False by (intro round8_exact) simp_all
  then have r: "round8 3 119 127 (?E + 119) (unat v mod 8 * 1048576) = ?k" using k by simp
  have "?k \<noteq> 0" using False k by auto
  then show ?thesis unfolding d E4M3FNUZ_rounds [OF e] f Let_def r using byte_split(1) by simp
qed

lemma round_trip_E5M2:
  assumes "unat v mod 128 < 124"
  shows "FloatToFloat8E5M2Bits (Float8E5M2BitsToFloat v) = v"
proof (cases "unat v div 4 mod 32 = 0")
  case True
  have n: "unat v < 256" using unsigned_less [of v] by simp
  from zero_field_m2 [OF n True] have "unat v \<in> set ([0..<4] @ [128..<132])" by auto
  from byte_small [OF small_E5M2 this] show ?thesis .
next
  case False
  let ?k = "unat v mod 128" and ?E = "unat v div 4 mod 32"
  have n: "unat v < 256" using unsigned_less [of v] by simp
  have "unat v < 124 \<or> 128 \<le> unat v \<and> unat v < 252"
  proof (cases "unat v < 128")
    case False
    then have "unat v mod 128 = unat v - 128" using n by (simp add: le_mod_geq)
    with assms False show ?thesis by linarith
  qed (use assms in simp)
  then have d: "Float8E5M2BitsToFloat v = decode_m2 15 v"
    by (auto simp: Float8E5M2BitsToFloat_def word_le_nat_alt)
  have k: "?E * 2 ^ 2 + unat v mod 4 = ?k" using mod_mult2_eq [of "unat v" 4 32] by simp
  note f = decode_m2_fields [OF False, of 15 15, simplified]
  have e: "expo32 (decode_m2 15 v) < 255"
  proof -
    have "?E < 32" by simp
    then show ?thesis unfolding f by linarith
  qed
  have "?k \<le> 123" using assms by simp
  with k have "?E * 2 ^ 2 + unat v mod 4 \<le> 123" by (simp only:)
  moreover have "?E + 112 < 255"
  proof -
    have "?E < 32" by simp
    then show ?thesis by linarith
  qed
  ultimately have "round8 2 112 123 (?E + 112) (unat v mod 4 * 2 ^ (23 - 2)) = ?E * 2 ^ 2 + unat v mod 4"
    using False by (intro round8_exact) simp_all
  then have r: "round8 2 112 123 (?E + 112) (unat v mod 4 * 2097152) = ?k" using k by simp
  then show ?thesis unfolding d E5M2_rounds [OF e] f r using byte_split(1) by simp
qed

lemma round_trip_E5M2FNUZ:
  assumes "v \<noteq> 0x80"
  shows "FloatToFloat8E5M2FNUZBits (Float8E5M2FNUZBitsToFloat v) = v"
proof (cases "unat v div 4 mod 32 = 0")
  case True
  have n: "unat v < 256" using unsigned_less [of v] by simp
  have "unat v \<noteq> 128" using assms of_nat_unatI [of v 128] by auto
  with zero_field_m2 [OF n True] have "unat v \<in> set ([0..<4] @ [129..<132])" by auto
  from byte_small [OF small_E5M2FNUZ this] show ?thesis .
next
  case False
  let ?k = "unat v mod 128" and ?E = "unat v div 4 mod 32"
  have d: "Float8E5M2FNUZBitsToFloat v = decode_m2 16 v"
    using assms by (auto simp: Float8E5M2FNUZBitsToFloat_def)
  have k: "?E * 2 ^ 2 + unat v mod 4 = ?k" using mod_mult2_eq [of "unat v" 4 32] by simp
  note f = decode_m2_fields [OF False, of 16 16, simplified]
  have e: "expo32 (decode_m2 16 v) < 255"
  proof -
    have "?E < 32" by simp
    then show ?thesis unfolding f by linarith
  qed
  have "?k \<le> 127" using assms by simp
  with k have "?E * 2 ^ 2 + unat v mod 4 \<le> 127" by (simp only:)
  moreover have "?E + 111 < 255"
  proof -
    have "?E < 32" by simp
    then show ?thesis by linarith
  qed
  ultimately have "round8 2 111 127 (?E + 111) (unat v mod 4 * 2 ^ (23 - 2)) = ?E * 2 ^ 2 + unat v mod 4"
    using False by (intro round8_exact) simp_all
  then have r: "round8 2 111 127 (?E + 111) (unat v mod 4 * 2097152) = ?k" using k by simp
  have "?k \<noteq> 0" using False k by auto
  then show ?thesis unfolding d E5M2FNUZ_rounds [OF e] f Let_def r using byte_split(1) by simp
qed


section \<open>Saturation\<close>

text \<open>The largest finite magnitude and everything above it round to the largest byte.\<close>

lemma round8_saturates:
  assumes "base < e" "n * 2 ^ (23 - w) < (e - base) * 2 ^ 23 + m"
  shows "round8 w base n e m = n"
proof -
  have "n \<le> rne ((e - base) * 2 ^ 23 + m) (23 - w)" using assms(2) by (intro rne_ge) simp
  then show ?thesis using assms(1) by (simp add: round8_def)
qed

lemma above_max:
  assumes "unat (b AND 0x7FFFFFFF) > x * 2 ^ 23 + c" "c < 2 ^ 23" "base < x"
  shows "base < expo32 b" "(x - base) * 2 ^ 23 + c < (expo32 b - base) * 2 ^ 23 + unat (mant32 b)"
proof -
  have g: "x * 2 ^ 23 + c < expo32 b * 2 ^ 23 + unat (mant32 b)" using assms(1) by (simp add: abs32_nat)
  have xe: "x \<le> expo32 b"
  proof (rule ccontr)
    assume "\<not> x \<le> expo32 b"
    then have "(expo32 b + 1) * 2 ^ 23 \<le> x * 2 ^ 23" by (intro mult_right_mono) simp_all
    with g mant32_less [of b] show False by simp
  qed
  then show "base < expo32 b" using assms(3) by simp
  have "(x - base) * 2 ^ 23 + base * 2 ^ 23 = x * 2 ^ 23"
    unfolding add_mult_distrib [symmetric] using assms(3) by simp
  moreover have "(expo32 b - base) * 2 ^ 23 + base * 2 ^ 23 = expo32 b * 2 ^ 23"
    unfolding add_mult_distrib [symmetric] using assms(3) xe by simp
  ultimately show "(x - base) * 2 ^ 23 + c < (expo32 b - base) * 2 ^ 23 + unat (mant32 b)"
    using g by linarith
qed

lemma E4M3FN_no_saturate:
  assumes "expo32 b < 255"
  shows "FloatToFloat8E4M3FNBitsNoSaturate b =
    (if b AND 0x7FFFFFFF > 0x43E00000 then sign8 b OR 0x7F else FloatToFloat8E4M3FNBits b)"
proof -
  have s: "sign_ok (sign_bit b)" by (rule sign_bit_cases)
  have nf: "\<not> is_nonfinite32 b" using assms by (simp add: is_nonfinite32_iff)
  have "FloatToFloat8E4M3FNBits b AND 0x7F = 0x7E" if g: "b AND 0x7FFFFFFF > 0x43E00000"
  proof -
    have "unat (b AND 0x7FFFFFFF) > 135 * 2 ^ 23 + 6 * 2 ^ 20" using g by (simp add: word_less_nat_alt)
    from above_max [OF this, of 120] have "round8 3 120 126 (expo32 b) (unat (mant32 b)) = 126"
      by (intro round8_saturates) simp_all
    then show ?thesis using byte8_low7 [OF s, of 126] by (simp add: E4M3FN_rounds [OF assms])
  qed
  then show ?thesis by (auto simp: FloatToFloat8E4M3FNBitsNoSaturate_def nf Let_def)
qed

lemma E5M2_no_saturate:
  assumes "expo32 b < 255"
  shows "FloatToFloat8E5M2BitsNoSaturate b =
    (if b AND 0x7FFFFFFF > 0x47600000 then sign8 b OR 0x7C else FloatToFloat8E5M2Bits b)"
proof -
  have s: "sign_ok (sign_bit b)" by (rule sign_bit_cases)
  have nf: "\<not> is_nonfinite32 b" "\<not> is_inf32 b" using assms by (simp_all add: is_nonfinite32_iff is_inf32_iff)
  have "FloatToFloat8E5M2Bits b AND 0x7F = 0x7B" if g: "b AND 0x7FFFFFFF > 0x47600000"
  proof -
    have "unat (b AND 0x7FFFFFFF) > 142 * 2 ^ 23 + 3 * 2 ^ 21" using g by (simp add: word_less_nat_alt)
    from above_max [OF this, of 112] have "round8 2 112 123 (expo32 b) (unat (mant32 b)) = 123"
      by (intro round8_saturates) simp_all
    then show ?thesis using byte8_low7 [OF s, of 123] by (simp add: E5M2_rounds [OF assms])
  qed
  then show ?thesis by (auto simp: FloatToFloat8E5M2BitsNoSaturate_def nf Let_def)
qed

lemma E4M3FNUZ_no_saturate:
  assumes "expo32 b < 255"
  shows "FloatToFloat8E4M3FNUZBitsNoSaturate b =
    (if b AND 0x7FFFFFFF > 0x43700000 then 0x80 else FloatToFloat8E4M3FNUZBits b)"
proof -
  have s: "sign_ok (sign_bit b)" by (rule sign_bit_cases)
  have nf: "\<not> is_nonfinite32 b" using assms by (simp add: is_nonfinite32_iff)
  have "FloatToFloat8E4M3FNUZBits b AND 0x7F = 0x7F \<and> FloatToFloat8E4M3FNUZBits b \<noteq> 0x80"
    if g: "b AND 0x7FFFFFFF > 0x43700000"
  proof -
    have "unat (b AND 0x7FFFFFFF) > 134 * 2 ^ 23 + 7 * 2 ^ 20" using g by (simp add: word_less_nat_alt)
    from above_max [OF this, of 119] have "round8 3 119 127 (expo32 b) (unat (mant32 b)) = 127"
      by (intro round8_saturates) simp_all
    then have e: "FloatToFloat8E4M3FNUZBits b = byte8 (sign_bit b) 127" by (simp add: E4M3FNUZ_rounds [OF assms])
    show ?thesis using byte8_low7 [OF s, of 127] by (auto simp: e)
  qed
  then show ?thesis by (auto simp: FloatToFloat8E4M3FNUZBitsNoSaturate_def nf Let_def)
qed

lemma E5M2FNUZ_no_saturate:
  assumes "expo32 b < 255"
  shows "FloatToFloat8E5M2FNUZBitsNoSaturate b =
    (if b AND 0x7FFFFFFF > 0x47600000 then 0x80 else FloatToFloat8E5M2FNUZBits b)"
proof -
  have s: "sign_ok (sign_bit b)" by (rule sign_bit_cases)
  have nf: "\<not> is_nonfinite32 b" using assms by (simp add: is_nonfinite32_iff)
  have "FloatToFloat8E5M2FNUZBits b AND 0x7F = 0x7F \<and> FloatToFloat8E5M2FNUZBits b \<noteq> 0x80"
    if g: "b AND 0x7FFFFFFF > 0x47600000"
  proof -
    have "unat (b AND 0x7FFFFFFF) > 142 * 2 ^ 23 + 3 * 2 ^ 21" using g by (simp add: word_less_nat_alt)
    from above_max [OF this, of 111] have "round8 2 111 127 (expo32 b) (unat (mant32 b)) = 127"
      by (intro round8_saturates) simp_all
    then have e: "FloatToFloat8E5M2FNUZBits b = byte8 (sign_bit b) 127" by (simp add: E5M2FNUZ_rounds [OF assms])
    show ?thesis using byte8_low7 [OF s, of 127] by (auto simp: e)
  qed
  then show ?thesis by (auto simp: FloatToFloat8E5M2FNUZBitsNoSaturate_def nf Let_def)
qed

section \<open>Powers of two\<close>

text \<open>The magnitude of a binary32 pattern in units of \<open>2^-149\<close>, and that of an E8M0 byte.\<close>

definition magnitude32 :: "32 word \<Rightarrow> nat" where
  "magnitude32 b = (if expo32 b = 0 then unat (mant32 b) else (2 ^ 23 + unat (mant32 b)) * 2 ^ (expo32 b - 1))"

definition magnitude_E8M0 :: "8 word \<Rightarrow> nat" where
  "magnitude_E8M0 v = 2 ^ (unat v + 22)"

lemma E8M0_rounds_up:
  assumes "expo32 b < 255" "b AND 0x80000000 = 0"
  defines "r \<equiv> FloatToFloat8E8M0Bits b"
  shows "(unat r < 254 \<longrightarrow> magnitude32 b \<le> magnitude_E8M0 r) \<and>
    (0 < unat r \<longrightarrow> 2 ^ (unat r + 21) < magnitude32 b)"
proof -
  let ?e = "expo32 b" and ?M = "unat (mant32 b)"
  have z: "mant32 b = 0 \<longleftrightarrow> ?M = 0" by (simp add: unat_eq_zero)
  show ?thesis
  proof (cases "?e = 0")
    case True
    have "unat r = (if ?M > 2 ^ 22 then 1 else 0)"
      using assms(2) True by (simp add: r_def FloatToFloat8E8M0Bits_def Let_def word_less_nat_alt)
    with True mant32_less [of b] show ?thesis by (simp add: magnitude32_def magnitude_E8M0_def)
  next
    case False
    then obtain x where x: "?e = Suc x" by (cases ?e) auto
    have m: "magnitude32 b = 2 ^ (x + 23) + ?M * 2 ^ x"
      by (simp add: magnitude32_def x add_mult_distrib power_add)
    have hi: "?M * 2 ^ x < 2 ^ (x + 23)" using mant32_less [of b] by (simp add: power_add)
    have "unat (of_nat (Suc ?e) :: 8 word) = Suc ?e mod 256" by (rule unat_of_nat8)
    then have one: "unat (1 + of_nat ?e :: 8 word) = Suc ?e mod 256" by simp
    have r: "unat r = (if ?M \<noteq> 0 \<and> ?e < 254 then ?e + 1 else ?e)"
      using assms(1,2) False by (auto simp: r_def FloatToFloat8E8M0Bits_def Let_def z unat_of_nat8 one)
    have l: "2 ^ (x + 22) < magnitude32 b" unfolding m by (simp add: power_add)
    show ?thesis
    proof (cases "?M = 0")
      case True
      with r have "unat r = Suc x" by (simp add: x)
      with l m True show ?thesis by (simp add: magnitude_E8M0_def)
    next
      case False
      then have g: "2 ^ (x + 23) < magnitude32 b" unfolding m by simp
      have "magnitude32 b \<le> 2 ^ (x + 24)" using hi unfolding m by (simp add: power_add)
      with False r g l x show ?thesis by (cases "?e < 254") (simp_all add: magnitude_E8M0_def add.commute)
    qed
  qed
qed

section \<open>Properties\<close>

text \<open>C33: The saturating float8 encoders round every finite \<open>float\<close> to the nearest number of the destination format,
  ties to the even mantissa, subnormals included, and stop at the largest finite magnitude; the two
  formats without a negative zero write zero without its sign.  \<open>round8\<close> counts in units of the last place
  of the destination: one division by a power of two, rounded to nearest.\<close>

theorem float8_encoders_round_to_nearest:
  assumes "\<not> is_nonfinite32 b"
  shows "FloatToFloat8E4M3FNBits b = byte8 (sign_bit b) (round8 3 120 126 (expo32 b) (unat (mant32 b))) \<and>
    FloatToFloat8E5M2Bits b = byte8 (sign_bit b) (round8 2 112 123 (expo32 b) (unat (mant32 b))) \<and>
    FloatToFloat8E4M3FNUZBits b =
      (let k = round8 3 119 127 (expo32 b) (unat (mant32 b)) in byte8 (if k = 0 then 0 else sign_bit b) k) \<and>
    FloatToFloat8E5M2FNUZBits b =
      (let k = round8 2 111 127 (expo32 b) (unat (mant32 b)) in byte8 (if k = 0 then 0 else sign_bit b) k)"
proof -
  have "expo32 b < 255" using assms expo32_less [of b] by (simp add: is_nonfinite32_iff)
  then show ?thesis using E4M3FN_rounds E5M2_rounds E4M3FNUZ_rounds E5M2FNUZ_rounds by blast
qed

lemma float8_encoders_round_to_nearest_witness:
  "FloatToFloat8E4M3FNBits 0x3F880000 = byte8 0 56"
proof -
  have "\<not> is_nonfinite32 0x3F880000" "expo32 0x3F880000 = 127" "unat (mant32 0x3F880000) = 0x80000"
    "sign_bit 0x3F880000 = 0"
    by (simp_all add: is_nonfinite32_def expo32_def mant32_def sign_bit_def)
  with float8_encoders_round_to_nearest [of "0x3F880000"] show ?thesis
    by (simp add: round8_def rne_def Let_def)
qed

text \<open>C34: Decoding a float8 byte that is a finite number and encoding the result gives the byte back, in all four
  formats with a mantissa.\<close>

theorem float8_round_trip:
  "(unat v mod 128 \<noteq> 127 \<longrightarrow> FloatToFloat8E4M3FNBits (Float8E4M3FNBitsToFloat v) = v) \<and>
   (v \<noteq> 0x80 \<longrightarrow> FloatToFloat8E4M3FNUZBits (Float8E4M3FNUZBitsToFloat v) = v) \<and>
   (unat v mod 128 < 124 \<longrightarrow> FloatToFloat8E5M2Bits (Float8E5M2BitsToFloat v) = v) \<and>
   (v \<noteq> 0x80 \<longrightarrow> FloatToFloat8E5M2FNUZBits (Float8E5M2FNUZBitsToFloat v) = v)"
  using round_trip_E4M3FN round_trip_E4M3FNUZ round_trip_E5M2 round_trip_E5M2FNUZ by blast

lemma float8_round_trip_witness:
  "FloatToFloat8E4M3FNBits (Float8E4M3FNBitsToFloat 0xB1) = 0xB1 \<and>
   FloatToFloat8E5M2Bits (Float8E5M2BitsToFloat 0x03) = 0x03"
  using float8_round_trip [of "0xB1"] float8_round_trip [of "0x03"] by simp

text \<open>The variants without saturation differ from the saturating ones exactly on the finite numbers above the
  largest finite magnitude of the format (448, 57344, 240, 57344), which become NaN, or infinity in the
  format that has one.\<close>

theorem float8_overflow_without_saturation:
  assumes "\<not> is_nonfinite32 b"
  shows "FloatToFloat8E4M3FNBitsNoSaturate b =
      (if b AND 0x7FFFFFFF > 0x43E00000 then sign8 b OR 0x7F else FloatToFloat8E4M3FNBits b) \<and>
    FloatToFloat8E5M2BitsNoSaturate b =
      (if b AND 0x7FFFFFFF > 0x47600000 then sign8 b OR 0x7C else FloatToFloat8E5M2Bits b) \<and>
    FloatToFloat8E4M3FNUZBitsNoSaturate b =
      (if b AND 0x7FFFFFFF > 0x43700000 then 0x80 else FloatToFloat8E4M3FNUZBits b) \<and>
    FloatToFloat8E5M2FNUZBitsNoSaturate b =
      (if b AND 0x7FFFFFFF > 0x47600000 then 0x80 else FloatToFloat8E5M2FNUZBits b)"
proof -
  have "expo32 b < 255" using assms expo32_less [of b] by (simp add: is_nonfinite32_iff)
  then show ?thesis
    using E4M3FN_no_saturate E5M2_no_saturate E4M3FNUZ_no_saturate E5M2FNUZ_no_saturate by blast
qed

lemma float8_overflow_without_saturation_witness:
  "FloatToFloat8E5M2BitsNoSaturate 0xC7800000 = 0xFC \<and> FloatToFloat8E4M3FNUZBitsNoSaturate 0x43800000 = 0x80"
  using float8_overflow_without_saturation [of "0xC7800000"] float8_overflow_without_saturation [of "0x43800000"]
  by (simp add: is_nonfinite32_def sign8_def)

text \<open>The E8M0 encoder rounds a non-negative finite \<open>float\<close> up to a power of two: below saturation the result is
  at least the number, and the next smaller power of two is below it.\<close>

theorem E8M0_encoder_rounds_up:
  assumes "\<not> is_nonfinite32 b" "b AND 0x80000000 = 0"
  shows "(unat (FloatToFloat8E8M0Bits b) < 254 \<longrightarrow> magnitude32 b \<le> magnitude_E8M0 (FloatToFloat8E8M0Bits b)) \<and>
    (0 < unat (FloatToFloat8E8M0Bits b) \<longrightarrow> 2 ^ (unat (FloatToFloat8E8M0Bits b) + 21) < magnitude32 b)"
proof -
  have "expo32 b < 255" using assms(1) expo32_less [of b] by (simp add: is_nonfinite32_iff)
  then show ?thesis using E8M0_rounds_up assms(2) by blast
qed

lemma E8M0_encoder_rounds_up_witness:
  "FloatToFloat8E8M0Bits 0x3FC00000 = 128 \<and> magnitude32 0x3FC00000 \<le> magnitude_E8M0 128"
proof -
  have r: "FloatToFloat8E8M0Bits 0x3FC00000 = 128"
    by (simp add: FloatToFloat8E8M0Bits_def expo32_def mant32_def Let_def)
  then show ?thesis using E8M0_encoder_rounds_up [of "0x3FC00000"] by (simp add: is_nonfinite32_def)
qed

text \<open>The E8M0 byte 0 stands for \<open>2^-127\<close>, the smallest magnitude of the format, and the encoder writes it for
  that number (the subnormal pattern \<open>0x00400000\<close>); the decoder places the byte in the exponent field of a
  \<open>float\<close> and returns 0.\<close>

lemma E8M0_decodes_zero:
  "FloatToFloat8E8M0Bits 0x00400000 = 0 \<and> Float8E8M0BitsToFloat 0 = 0 \<and>
   magnitude32 0x00400000 = magnitude_E8M0 0 \<and> magnitude32 (Float8E8M0BitsToFloat 0) = 0"
  by (simp add: FloatToFloat8E8M0Bits_def Float8E8M0BitsToFloat_def magnitude32_def magnitude_E8M0_def
      expo32_def mant32_def)

end
