(* ===== verification/RawBufferAllocator.thy ===== *)
theory RawBufferAllocator
  imports Prelude
begin

text \<open>
  The allocator interface \<open>RawBufferAllocator\<close> of \<open>onnx_core/compute/raw_buffer_allocator.h\<close> and its
  fixed pool \<open>SimpleRawBufferAllocator\<close>.  A slot of an allocator is a \<open>RawBuffer\<close>, of which the
  allocators only use the size and the capacity; the address of a slot is stable, so a
  \<open>RawBuffer *\<close> is the index of its slot, and a number that is no index is a foreign pointer.  The
  interface is the locale \<open>buffer_allocator\<close>, whose laws say that an allocator implements the
  abstract pool below; it is interpreted on every allocator of the program.

  \<open>size_t\<close> is \<open>nat\<close>: the counters are sums of sizes or capacities of vectors that hold memory at the
  same time, as the invariants show, so the address space bounds them.
\<close>

section \<open>Buffers\<close>

record RawBuffer =
  buf_size :: nat
  buf_capacity :: nat

definition empty_buffer :: RawBuffer where
  "empty_buffer = \<lparr>buf_size = 0, buf_capacity = 0\<rparr>"

text \<open>
  \<open>std::vector::resize\<close>: within the capacity nothing is allocated and the capacity stays.  Beyond
  it, the capacity that the standard library and the system choose is the parameter \<open>realloc\<close>, which
  is \<open>None\<close> when they throw; the vector is unchanged then.
\<close>

type_synonym realloc_policy = "RawBuffer \<Rightarrow> nat \<Rightarrow> nat option"

definition resize :: "realloc_policy \<Rightarrow> RawBuffer \<Rightarrow> nat \<Rightarrow> RawBuffer option" where
  "resize realloc b n =
     (if n \<le> buf_capacity b then Some (b\<lparr>buf_size := n\<rparr>)
      else map_option (\<lambda>c. \<lparr>buf_size = n, buf_capacity = c\<rparr>) (realloc b n))"

text \<open>What \<open>std::vector\<close> promises of the new capacity.\<close>

definition reallocates :: "realloc_policy \<Rightarrow> bool" where
  "reallocates realloc \<longleftrightarrow> (\<forall>b n c. realloc b n = Some c \<longrightarrow> n \<le> c)"

lemma resize_Some:
  "resize realloc b n = Some b' \<Longrightarrow> reallocates realloc \<Longrightarrow> buf_size b' = n \<and> n \<le> buf_capacity b'"
  by (auto simp: resize_def reallocates_def split: if_splits)

lemma resize_fits: "n \<le> buf_capacity b \<Longrightarrow> resize realloc b n = Some (b\<lparr>buf_size := n\<rparr>)"
  by (simp add: resize_def)

lemma empty_buffer_simps [simp]: "buf_size empty_buffer = 0" "buf_capacity empty_buffer = 0"
  by (simp_all add: empty_buffer_def)

section \<open>The abstract pool\<close>

text \<open>
  What a client sees of an allocator: the live buffers with their logical sizes, those an external
  owner pins, and the peak.
\<close>

record pool =
  held :: "nat \<rightharpoonup> nat"
  pins :: "nat set"
  pool_peak :: nat

definition held_bytes :: "(nat \<rightharpoonup> nat) \<Rightarrow> nat" where
  "held_bytes m = (\<Sum>p \<in> dom m. the (m p))"

datatype request = Request nat | Release nat | Reset_peak

text \<open>
  One request.  An allocation answers the address of a buffer that was not live, or fails and
  changes nothing; the release of a buffer that is not live, or that is pinned, is refused.
\<close>

inductive pool_step :: "pool \<Rightarrow> request \<Rightarrow> nat res \<Rightarrow> pool \<Rightarrow> bool" where
  allocate: "p \<notin> dom (held P) \<Longrightarrow> m = (held P)(p \<mapsto> n) \<Longrightarrow>
    pool_step P (Request n) (Inr p) (P\<lparr>held := m, pool_peak := max (pool_peak P) (held_bytes m)\<rparr>)"
| exhausted: "pool_step P (Request n) (Inl BadAlloc) P"
| release: "p \<in> dom (held P) \<Longrightarrow> p \<notin> pins P \<Longrightarrow>
    pool_step P (Release p) (Inr p) (P\<lparr>held := (held P)(p := None)\<rparr>)"
| refused: "p \<notin> dom (held P) \<or> p \<in> pins P \<Longrightarrow> pool_step P (Release p) (Inl InvalidArgument) P"
| reset: "pool_step P Reset_peak (Inr 0) (P\<lparr>pool_peak := held_bytes (held P)\<rparr>)"

inductive pool_run :: "pool \<Rightarrow> request list \<Rightarrow> nat res list \<Rightarrow> pool \<Rightarrow> bool" where
  Nil: "pool_run P [] [] P"
| Cons: "pool_step P r out P' \<Longrightarrow> pool_run P' rs outs P'' \<Longrightarrow> pool_run P (r # rs) (out # outs) P''"

inductive_simps pool_step_simps:
  "pool_step P (Request n) out P'" "pool_step P (Release p) out P'" "pool_step P Reset_peak out P'"

inductive_cases pool_run_ConsE: "pool_run P (r # rs) outs P'"

definition wf_pool :: "pool \<Rightarrow> bool" where
  "wf_pool P \<longleftrightarrow> finite (dom (held P)) \<and> pins P \<subseteq> dom (held P) \<and> held_bytes (held P) \<le> pool_peak P"

lemma held_bytes_empty [simp]: "held_bytes (\<lambda>_. None) = 0"
  by (simp add: held_bytes_def)

lemma held_bytes_insert:
  assumes "finite (dom m)" "p \<notin> dom m"
  shows "held_bytes (m(p \<mapsto> n)) = held_bytes m + n"
proof -
  have "(\<Sum>q \<in> dom m. the ((m(p \<mapsto> n)) q)) = held_bytes m"
    unfolding held_bytes_def by (rule sum.cong) (use assms(2) in auto)
  then show ?thesis using assms by (simp add: held_bytes_def)
qed

lemma held_bytes_delete:
  assumes "finite (dom m)" "m p = Some n"
  shows "held_bytes m = held_bytes (m(p := None)) + n"
proof -
  have "held_bytes ((m(p := None))(p \<mapsto> n)) = held_bytes (m(p := None)) + n"
    using assms by (intro held_bytes_insert) auto
  with assms show ?thesis by (simp add: fun_upd_idem)
qed

lemma pool_step_wf: "pool_step P r out P' \<Longrightarrow> wf_pool P \<Longrightarrow> wf_pool P'"
  by (induction rule: pool_step.induct)
     (auto simp: wf_pool_def held_bytes_insert held_bytes_delete)

lemma pool_run_wf: "pool_run P rs outs P' \<Longrightarrow> wf_pool P \<Longrightarrow> wf_pool P'"
  by (induction rule: pool_run.induct) (auto intro: pool_step_wf)

text \<open>An address that was handed out stays live until it is released.\<close>

lemma pool_step_held:
  "pool_step P r out P' \<Longrightarrow> Release p \<noteq> r \<Longrightarrow> held P p = Some n \<Longrightarrow> held P' p = Some n"
  by (induction rule: pool_step.induct) (auto simp: domIff)

lemma pool_run_held:
  "pool_run P rs outs P' \<Longrightarrow> Release p \<notin> set rs \<Longrightarrow> held P p = Some n \<Longrightarrow> held P' p = Some n"
  by (induction rule: pool_run.induct) (auto dest: pool_step_held)

text \<open>Two allocations of one history that are both live have different addresses.\<close>

lemma pool_run_fresh:
  assumes "pool_run P (Request n # rs) (Inr p # outs) P'" "Release p \<notin> set rs"
    and "i < length rs" "rs ! i = Request k" "outs ! i = Inr q"
  shows "q \<noteq> p"
proof -
  from assms(1) obtain P1 where "pool_run P1 rs outs P'" "held P1 p = Some n"
    by (auto simp: pool_step_simps elim!: pool_run_ConsE)
  then show ?thesis using assms(2-)
  proof (induction arbitrary: i rule: pool_run.induct)
    case (Cons P r out P' rs outs P'')
    have "held P' p = Some n"
      using pool_step_held [OF Cons.hyps(1)] Cons.prems by auto
    with Cons show ?case
      by (cases i) (auto simp: pool_step_simps dom_def)
  qed simp
qed

section \<open>The interface\<close>

locale buffer_allocator =
  fixes Allocate :: "nat \<Rightarrow> 's \<Rightarrow> nat res \<times> 's"
    and Free :: "nat \<Rightarrow> 's \<Rightarrow> unit res \<times> 's"
    and TotalAllocatedSize :: "'s \<Rightarrow> nat"
    and PeakAllocatedSize :: "'s \<Rightarrow> nat"
    and ResetPeak :: "'s \<Rightarrow> 's"
    and inv :: "'s \<Rightarrow> bool"
    and live :: "'s \<Rightarrow> nat \<rightharpoonup> nat"
    and pinned :: "'s \<Rightarrow> nat set"
  assumes finite_live: "inv s \<Longrightarrow> finite (dom (live s)) \<and> pinned s \<subseteq> dom (live s)"
    and total: "inv s \<Longrightarrow> TotalAllocatedSize s = held_bytes (live s)"
    and peak: "inv s \<Longrightarrow> TotalAllocatedSize s \<le> PeakAllocatedSize s"
    and Allocate_Inr: "inv s \<Longrightarrow> Allocate n s = (Inr p, s') \<Longrightarrow>
      inv s' \<and> p \<notin> dom (live s) \<and> live s' = (live s)(p \<mapsto> n) \<and> pinned s' = pinned s \<and>
      PeakAllocatedSize s' = max (PeakAllocatedSize s) (TotalAllocatedSize s')"
    and Allocate_Inl: "inv s \<Longrightarrow> Allocate n s = (Inl e, s') \<Longrightarrow>
      e = BadAlloc \<and> inv s' \<and> live s' = live s \<and> pinned s' = pinned s \<and>
      PeakAllocatedSize s' = PeakAllocatedSize s"
    and Free_Inr: "inv s \<Longrightarrow> p \<in> dom (live s) \<Longrightarrow> p \<notin> pinned s \<Longrightarrow>
      \<exists>s'. Free p s = (Inr (), s') \<and> inv s' \<and> live s' = (live s)(p := None) \<and>
        pinned s' = pinned s \<and> PeakAllocatedSize s' = PeakAllocatedSize s"
    and Free_Inl: "inv s \<Longrightarrow> p \<notin> dom (live s) \<or> p \<in> pinned s \<Longrightarrow>
      Free p s = (Inl InvalidArgument, s)"
    and ResetPeak: "inv s \<Longrightarrow> inv (ResetPeak s) \<and> live (ResetPeak s) = live s \<and>
      pinned (ResetPeak s) = pinned s \<and> PeakAllocatedSize (ResetPeak s) = TotalAllocatedSize s"

text \<open>Serving requests through the interface.\<close>

definition serve :: "(nat \<Rightarrow> 's \<Rightarrow> nat res \<times> 's) \<Rightarrow> (nat \<Rightarrow> 's \<Rightarrow> unit res \<times> 's) \<Rightarrow> ('s \<Rightarrow> 's) \<Rightarrow>
    request \<Rightarrow> 's \<Rightarrow> nat res \<times> 's" where
  "serve Allocate Free ResetPeak r s = (case r of
     Request n \<Rightarrow> Allocate n s
   | Release p \<Rightarrow> (case Free p s of (out, s') \<Rightarrow> (bindR out (\<lambda>_. Inr p), s'))
   | Reset_peak \<Rightarrow> (Inr 0, ResetPeak s))"

fun serve_all :: "(nat \<Rightarrow> 's \<Rightarrow> nat res \<times> 's) \<Rightarrow> (nat \<Rightarrow> 's \<Rightarrow> unit res \<times> 's) \<Rightarrow> ('s \<Rightarrow> 's) \<Rightarrow>
    request list \<Rightarrow> 's \<Rightarrow> nat res list \<times> 's" where
  "serve_all A F R [] s = ([], s)"
| "serve_all A F R (r # rs) s =
     (case serve A F R r s of (out, s') \<Rightarrow> case serve_all A F R rs s' of (outs, s'') \<Rightarrow> (out # outs, s''))"

definition pool_view :: "('s \<Rightarrow> nat \<rightharpoonup> nat) \<Rightarrow> ('s \<Rightarrow> nat set) \<Rightarrow> ('s \<Rightarrow> nat) \<Rightarrow> 's \<Rightarrow> pool" where
  "pool_view live pinned Peak s = \<lparr>held = live s, pins = pinned s, pool_peak = Peak s\<rparr>"

lemma pool_view_simps [simp]:
  "held (pool_view live pinned Peak s) = live s"
  "pins (pool_view live pinned Peak s) = pinned s"
  "pool_peak (pool_view live pinned Peak s) = Peak s"
  by (simp_all add: pool_view_def)

context buffer_allocator
begin

lemma serve_refines:
  assumes "inv s" "serve Allocate Free ResetPeak r s = (out, s')"
  shows "inv s' \<and> pool_step (pool_view live pinned PeakAllocatedSize s) r out
    (pool_view live pinned PeakAllocatedSize s')"
proof (cases r)
  case (Request n)
  show ?thesis
  proof (cases out)
    case (Inl e)
    with Request assms have "Allocate n s = (Inl e, s')" by (simp add: serve_def)
    from Allocate_Inl [OF assms(1) this] show ?thesis
      by (simp add: Request Inl pool_step_simps pool_view_def)
  next
    case (Inr p)
    with Request assms have "Allocate n s = (Inr p, s')" by (simp add: serve_def)
    from Allocate_Inr [OF assms(1) this] total [of s'] show ?thesis
      by (simp add: Request Inr pool_step_simps pool_view_def)
  qed
next
  case (Release p)
  show ?thesis
  proof (cases "p \<in> dom (live s) \<and> p \<notin> pinned s")
    case True
    then obtain t where "Free p s = (Inr (), t)" "inv t" "live t = (live s)(p := None)"
      "pinned t = pinned s" "PeakAllocatedSize t = PeakAllocatedSize s"
      using Free_Inr [OF assms(1)] by blast
    with True Release assms show ?thesis
      by (auto simp: serve_def pool_step_simps pool_view_def)
  next
    case False
    with Free_Inl [OF assms(1)] have "Free p s = (Inl InvalidArgument, s)" by blast
    with False Release assms show ?thesis by (auto simp: serve_def pool_step_simps)
  qed
next
  case Reset_peak
  with assms ResetPeak [OF assms(1)] total [OF assms(1)] show ?thesis
    by (auto simp: serve_def pool_step_simps pool_view_def)
qed

lemma serve_all_refines:
  "inv s \<Longrightarrow> serve_all Allocate Free ResetPeak rs s = (outs, s') \<Longrightarrow>
   inv s' \<and> pool_run (pool_view live pinned PeakAllocatedSize s) rs outs
     (pool_view live pinned PeakAllocatedSize s')"
proof (induction rs arbitrary: s outs)
  case (Cons r rs)
  obtain out t where t: "serve Allocate Free ResetPeak r s = (out, t)" by fastforce
  obtain outs' u where u: "serve_all Allocate Free ResetPeak rs t = (outs', u)" by fastforce
  from serve_refines [OF Cons.prems(1) t] Cons.IH [of t outs'] Cons.prems(2) t u show ?case
    by (auto intro: pool_run.Cons)
qed (auto intro: pool_run.Nil)

lemma wf_pool_view: "inv s \<Longrightarrow> wf_pool (pool_view live pinned PeakAllocatedSize s)"
  using finite_live [of s] total [of s] peak [of s] by (simp add: wf_pool_def)

end

section \<open>Leasing\<close>

text \<open>An allocator that can also pin a live buffer for an external owner, who gives it back itself.\<close>

locale leasing_allocator = buffer_allocator +
  fixes Export :: "nat \<Rightarrow> 's \<Rightarrow> nat res \<times> 's"
    and ReturnLease :: "nat \<Rightarrow> 's \<Rightarrow> 's res"
  assumes Export_Inr: "inv s \<Longrightarrow> live s p = Some n \<Longrightarrow> p \<notin> pinned s \<Longrightarrow>
      \<exists>s'. Export p s = (Inr n, s') \<and> inv s' \<and> live s' = live s \<and> pinned s' = insert p (pinned s)"
    and Export_Inl: "inv s \<Longrightarrow> p \<notin> dom (live s) \<or> p \<in> pinned s \<Longrightarrow>
      Export p s = (Inl InvalidArgument, s)"
    and ReturnLease_Inr: "inv s \<Longrightarrow> p \<in> pinned s \<Longrightarrow>
      \<exists>s'. ReturnLease p s = Inr s' \<and> inv s' \<and> live s' = (live s)(p := None) \<and>
        pinned s' = pinned s - {p}"

lemma pool_run_pinned:
  "pool_run P rs outs P' \<Longrightarrow> p \<in> pins P \<Longrightarrow> held P p = Some n \<Longrightarrow>
   p \<in> pins P' \<and> held P' p = Some n"
proof (induction rule: pool_run.induct)
  case (Cons P r out P' rs outs P'')
  have "pins P' = pins P" "held P' p = Some n"
    using Cons.hyps(1) Cons.prems by (auto elim!: pool_step.cases simp: domIff split: if_splits)
  with Cons show ?case by simp
qed simp

context leasing_allocator
begin

text \<open>
  An exported buffer survives every request, a release of its own address included, and its lease
  can be returned afterwards.
\<close>

lemma exported_stays:
  assumes "inv s" "live s p = Some n" "p \<notin> pinned s" "Export p s = (out, s1)"
    and run: "serve_all Allocate Free ResetPeak rs s1 = (outs, s2)"
  shows "out = Inr n \<and> live s2 p = Some n \<and> p \<in> pinned s2 \<and>
    (\<exists>s3. ReturnLease p s2 = Inr s3 \<and> inv s3 \<and> live s3 = (live s2)(p := None))"
proof -
  have s1: "out = Inr n" "inv s1" "live s1 p = Some n" "p \<in> pinned s1"
    using Export_Inr [OF assms(1-3)] assms(2,4) by auto
  from serve_all_refines [OF s1(2) run] have "inv s2"
    and "pool_run (pool_view live pinned PeakAllocatedSize s1) rs outs
      (pool_view live pinned PeakAllocatedSize s2)" by auto
  from pool_run_pinned [OF this(2), of p n] s1 have "p \<in> pinned s2" "live s2 p = Some n" by auto
  with ReturnLease_Inr [OF \<open>inv s2\<close>] s1(1) show ?thesis by blast
qed

end

end
