(* ===== verification/SimpleAllocator.thy ===== *)
theory SimpleAllocator
  imports RawBufferAllocator
begin

text \<open>
  \<open>SimpleRawBufferAllocator\<close> of \<open>onnx_core/compute/raw_buffer_allocator.cc\<close>: a fixed pool of slots with a
  stack of free slot indices.  The map from the address of a live slot to its index is the list of
  the live indices \<open>index_map\<close>, in no particular order.
\<close>

section \<open>State and operations\<close>

record SimpleRawBufferAllocator =
  simple_buffers :: "RawBuffer list"
  free_slots :: "nat list"
  index_map :: "nat list"
  simple_total :: nat
  simple_peak :: nat
  simple_count :: nat

definition new_SimpleRawBufferAllocator :: "nat \<Rightarrow> SimpleRawBufferAllocator" where
  "new_SimpleRawBufferAllocator capacity =
     \<lparr>simple_buffers = replicate capacity empty_buffer, free_slots = rev [0..<capacity],
      index_map = [], simple_total = 0, simple_peak = 0, simple_count = 0\<rparr>"

text \<open>
  The slot is popped before \<open>resize\<close>, which may throw; the state of that branch is the one the
  exception leaves behind.
\<close>

definition Simple_Allocate ::
  "realloc_policy \<Rightarrow> nat \<Rightarrow> SimpleRawBufferAllocator \<Rightarrow> nat res \<times> SimpleRawBufferAllocator" where
  "Simple_Allocate realloc n s =
     (if free_slots s = [] then (Inl BadAlloc, s)
      else
        let i = last (free_slots s); s1 = s\<lparr>free_slots := butlast (free_slots s)\<rparr>
        in case resize realloc (simple_buffers s1 ! i) n of
             None \<Rightarrow> (Inl BadAlloc, s1)
           | Some b \<Rightarrow>
               let total = simple_total s1 + n
               in (Inr i, s1\<lparr>simple_buffers := (simple_buffers s1)[i := b],
                            index_map := i # index_map s1,
                            simple_total := total,
                            simple_peak := (if total > simple_peak s1 then total else simple_peak s1),
                            simple_count := simple_count s1 + 1\<rparr>))"

definition Simple_Free ::
  "nat \<Rightarrow> SimpleRawBufferAllocator \<Rightarrow> unit res \<times> SimpleRawBufferAllocator" where
  "Simple_Free buf s =
     (if buf \<notin> set (index_map s) then (Inl InvalidArgument, s)
      else (Inr (), s\<lparr>simple_total := simple_total s - buf_size (simple_buffers s ! buf),
                      simple_count := simple_count s - 1,
                      simple_buffers := (simple_buffers s)[buf := empty_buffer],
                      index_map := remove1 buf (index_map s),
                      free_slots := free_slots s @ [buf]\<rparr>))"

definition Simple_ResetPeak :: "SimpleRawBufferAllocator \<Rightarrow> SimpleRawBufferAllocator" where
  "Simple_ResetPeak s = s\<lparr>simple_peak := simple_total s\<rparr>"

definition Simple_capacity :: "SimpleRawBufferAllocator \<Rightarrow> nat" where
  "Simple_capacity s = length (simple_buffers s)"

section \<open>Invariant\<close>

text \<open>
  The free and the live slots are disjoint; a slot can be neither, when an allocation failed.
\<close>

definition Simple_inv :: "SimpleRawBufferAllocator \<Rightarrow> bool" where
  "Simple_inv s \<longleftrightarrow>
     distinct (free_slots s @ index_map s) \<and>
     set (free_slots s @ index_map s) \<subseteq> {..<Simple_capacity s} \<and>
     simple_total s = (\<Sum>i \<leftarrow> index_map s. buf_size (simple_buffers s ! i)) \<and>
     simple_count s = length (index_map s) \<and>
     simple_total s \<le> simple_peak s"

definition Simple_live :: "SimpleRawBufferAllocator \<Rightarrow> nat \<rightharpoonup> nat" where
  "Simple_live s p = (if p \<in> set (index_map s) then Some (buf_size (simple_buffers s ! p)) else None)"

lemma dom_Simple_live [simp]: "dom (Simple_live s) = set (index_map s)"
  by (auto simp: Simple_live_def split: if_splits)

lemma new_Simple_inv [simp]: "Simple_inv (new_SimpleRawBufferAllocator n)"
  by (auto simp: Simple_inv_def new_SimpleRawBufferAllocator_def Simple_capacity_def)

lemma Simple_held_bytes: "Simple_inv s \<Longrightarrow> held_bytes (Simple_live s) = simple_total s"
  by (simp add: Simple_inv_def held_bytes_def sum_list_distinct_conv_sum_set Simple_live_def)

lemma last_free_slot:
  assumes "Simple_inv s" "free_slots s \<noteq> []"
  obtains fs i where "free_slots s = fs @ [i]" "i < Simple_capacity s" "i \<notin> set (index_map s)"
    "i \<notin> set fs"
proof -
  obtain fs i where "free_slots s = fs @ [i]" using assms(2) by (metis rev_exhaust)
  with assms(1) show thesis by (intro that) (auto simp: Simple_inv_def)
qed

lemma Simple_Allocate_Inr:
  assumes inv: "Simple_inv s" and a: "Simple_Allocate realloc n s = (Inr p, s')"
    and r: "reallocates realloc"
  shows "Simple_inv s' \<and> p \<notin> dom (Simple_live s) \<and> Simple_live s' = (Simple_live s)(p \<mapsto> n) \<and>
    simple_peak s' = max (simple_peak s) (simple_total s')"
proof -
  from a have "free_slots s \<noteq> []" by (auto simp: Simple_Allocate_def)
  with inv obtain fs i where fs: "free_slots s = fs @ [i]" "i < Simple_capacity s"
    "i \<notin> set (index_map s)" "i \<notin> set fs" by (rule last_free_slot)
  with a obtain b where b: "resize realloc (simple_buffers s ! i) n = Some b" and p: "p = i"
    by (auto simp: Simple_Allocate_def Let_def split: option.splits)
  have n: "buf_size b = n" using resize_Some [OF b r] by simp
  have other: "(simple_buffers s)[i := b] ! j = simple_buffers s ! j" if "j \<in> set (index_map s)" for j
    using that fs(3) by (metis nth_list_update_neq)
  have "(\<Sum>j \<leftarrow> index_map s. buf_size ((simple_buffers s)[i := b] ! j)) = simple_total s"
    using inv other by (simp add: Simple_inv_def cong: map_cong)
  moreover have "s' = s\<lparr>free_slots := fs, simple_buffers := (simple_buffers s)[i := b],
      index_map := i # index_map s, simple_total := simple_total s + n,
      simple_peak := max (simple_peak s) (simple_total s + n), simple_count := simple_count s + 1\<rparr>"
    using a fs b by (auto simp: Simple_Allocate_def Let_def max_def)
  ultimately show ?thesis
    using inv fs n other p
    by (auto simp: Simple_inv_def Simple_capacity_def Simple_live_def fun_eq_iff)
qed

lemma Simple_Allocate_Inl:
  assumes inv: "Simple_inv s" and a: "Simple_Allocate realloc n s = (Inl e, s')"
  shows "e = BadAlloc \<and> Simple_inv s' \<and> Simple_live s' = Simple_live s \<and> simple_peak s' = simple_peak s"
proof (cases "free_slots s = []")
  case False
  with inv obtain fs i where fs: "free_slots s = fs @ [i]" by (rule last_free_slot)
  with a have "e = BadAlloc" "s' = s\<lparr>free_slots := fs\<rparr>"
    by (auto simp: Simple_Allocate_def Let_def split: option.splits)
  with inv fs show ?thesis by (auto simp: Simple_inv_def Simple_capacity_def Simple_live_def)
qed (use inv a in \<open>simp add: Simple_Allocate_def\<close>)

lemma Simple_Free_Inr:
  assumes inv: "Simple_inv s" and p: "p \<in> dom (Simple_live s)"
  shows "\<exists>s'. Simple_Free p s = (Inr (), s') \<and> Simple_inv s' \<and>
    Simple_live s' = (Simple_live s)(p := None) \<and> simple_peak s' = simple_peak s"
proof -
  have other: "(simple_buffers s)[p := empty_buffer] ! j = simple_buffers s ! j" if "j \<noteq> p" for j
    using that by simp
  have d: "distinct (index_map s)" and in_map: "p \<in> set (index_map s)"
    using inv p by (auto simp: Simple_inv_def)
  then have "(\<Sum>j \<leftarrow> index_map s. buf_size (simple_buffers s ! j)) =
    buf_size (simple_buffers s ! p) + (\<Sum>j \<leftarrow> remove1 p (index_map s). buf_size (simple_buffers s ! j))"
    by (simp add: sum_list_map_remove1)
  moreover have "(\<Sum>j \<leftarrow> remove1 p (index_map s). buf_size ((simple_buffers s)[p := empty_buffer] ! j)) =
      (\<Sum>j \<leftarrow> remove1 p (index_map s). buf_size (simple_buffers s ! j))"
    using d by (intro arg_cong [where f = sum_list] map_cong) auto
  ultimately show ?thesis
    using inv d in_map
    by (auto simp: Simple_Free_def Simple_inv_def Simple_capacity_def Simple_live_def fun_eq_iff
        length_remove1)
qed

interpretation simple: buffer_allocator "Simple_Allocate realloc" Simple_Free simple_total simple_peak
    Simple_ResetPeak "\<lambda>s. Simple_inv s \<and> reallocates realloc" Simple_live "\<lambda>_. {}" for realloc
proof unfold_locales
  fix s n p s'
  assume "Simple_inv s \<and> reallocates realloc" "Simple_Allocate realloc n s = (Inr p, s')"
  then show "(Simple_inv s' \<and> reallocates realloc) \<and> p \<notin> dom (Simple_live s) \<and>
      Simple_live s' = (Simple_live s)(p \<mapsto> n) \<and> {} = {} \<and>
      simple_peak s' = max (simple_peak s) (simple_total s')"
    using Simple_Allocate_Inr by blast
next
  fix s n e s'
  assume a: "Simple_inv s \<and> reallocates realloc" "Simple_Allocate realloc n s = (Inl e, s')"
  then show "e = BadAlloc \<and> (Simple_inv s' \<and> reallocates realloc) \<and> Simple_live s' = Simple_live s \<and>
      {} = {} \<and> simple_peak s' = simple_peak s"
    using Simple_Allocate_Inl by blast
qed (auto simp: Simple_held_bytes Simple_Free_Inr, auto simp: Simple_inv_def Simple_Free_def
    Simple_ResetPeak_def Simple_capacity_def Simple_live_def)

section \<open>A failed allocation\<close>

text \<open>With no buffer live, a slot is lost when \<open>resize\<close> throws.\<close>

lemma Simple_Allocate_loses_slot:
  assumes "Simple_inv s" "free_slots s \<noteq> []" "resize realloc (simple_buffers s ! last (free_slots s)) n = None"
  shows "\<exists>s'. Simple_Allocate realloc n s = (Inl BadAlloc, s') \<and> index_map s' = index_map s \<and>
    length (free_slots s') = length (free_slots s) - 1"
  using assms by (auto simp: Simple_Allocate_def Let_def)

end
