(* ===== verification/FreeBuckets.thy ===== *)
theory FreeBuckets
  imports Prelude "HOL-Library.Multiset"
begin

text \<open>
  The free lists of the buffer arenas: \<open>std::map<size_t, std::vector<size_t>>\<close> from a capacity to the
  stack of the free slots that have it.  The map is the list of its entries in increasing order of
  the key, and a stack is a list with its top at the end, as \<open>push_back\<close> and \<open>back\<close> have it.
\<close>

type_synonym buckets = "(nat \<times> nat list) list"

section \<open>Operations\<close>

text \<open>\<open>free_buckets_.lower_bound(n)\<close>: the first entry whose key is at least \<open>n\<close>.\<close>

definition lower_bound :: "nat \<Rightarrow> buckets \<Rightarrow> (nat \<times> nat list) option" where
  "lower_bound n bs = List.find (\<lambda>(k, xs). n \<le> k) bs"

text \<open>\<open>free_buckets_[k].push_back(i)\<close>, which inserts an empty stack when the key is new.\<close>

fun push_bucket :: "nat \<Rightarrow> nat \<Rightarrow> buckets \<Rightarrow> buckets" where
  "push_bucket k i [] = [(k, [i])]"
| "push_bucket k i ((k', xs) # bs) =
     (if k < k' then (k, [i]) # (k', xs) # bs
      else if k = k' then (k', xs @ [i]) # bs
      else (k', xs) # push_bucket k i bs)"

text \<open>A change of the stack of one key, followed by the erasure of the entry when its stack is empty.\<close>

fun update_bucket :: "nat \<Rightarrow> (nat list \<Rightarrow> nat list) \<Rightarrow> buckets \<Rightarrow> buckets" where
  "update_bucket k f [] = []"
| "update_bucket k f ((k', xs) # bs) =
     (if k = k' then (if f xs = [] then bs else (k', f xs) # bs) else (k', xs) # update_bucket k f bs)"

abbreviation pop_bucket :: "nat \<Rightarrow> buckets \<Rightarrow> buckets" where
  "pop_bucket k \<equiv> update_bucket k butlast"

abbreviation erase_slot :: "nat \<Rightarrow> nat \<Rightarrow> buckets \<Rightarrow> buckets" where
  "erase_slot k i \<equiv> update_bucket k (remove1 i)"

definition slots_of :: "buckets \<Rightarrow> nat list" where
  "slots_of bs = concat (map snd bs)"

section \<open>Invariant and laws\<close>

definition wf_buckets :: "buckets \<Rightarrow> bool" where
  "wf_buckets bs \<longleftrightarrow> sorted_wrt (<) (map fst bs) \<and> (\<forall>(k, xs) \<in> set bs. xs \<noteq> [])"

lemma slots_of_simps [simp]:
  "slots_of [] = []"
  "slots_of ((k, xs) # bs) = xs @ slots_of bs"
  by (simp_all add: slots_of_def)

lemma wf_buckets_simps [simp]:
  "wf_buckets []"
  "wf_buckets ((k, xs) # bs) \<longleftrightarrow> xs \<noteq> [] \<and> (\<forall>k' \<in> fst ` set bs. k < k') \<and> wf_buckets bs"
  by (auto simp: wf_buckets_def)

lemma slots_of_eq_Nil [simp]: "wf_buckets bs \<Longrightarrow> slots_of bs = [] \<longleftrightarrow> bs = []"
  by (cases bs) auto

lemma set_slots_of: "set (slots_of bs) = (\<Union>(k, xs) \<in> set bs. set xs)"
  by (induction bs) auto

lemma fst_push_bucket: "fst ` set (push_bucket k i bs) = insert k (fst ` set bs)"
  by (induction k i bs rule: push_bucket.induct) auto

lemma fst_update_bucket: "fst ` set (update_bucket k f bs) \<subseteq> fst ` set bs"
  by (induction k f bs rule: update_bucket.induct) auto

lemma wf_push_bucket [simp]: "wf_buckets bs \<Longrightarrow> wf_buckets (push_bucket k i bs)"
  by (induction k i bs rule: push_bucket.induct) (auto simp: fst_push_bucket)

lemma wf_update_bucket [simp]: "wf_buckets bs \<Longrightarrow> wf_buckets (update_bucket k f bs)"
proof (induction k f bs rule: update_bucket.induct)
  case (2 k f k' xs bs)
  have "fst ` set (update_bucket k f bs) \<subseteq> fst ` set bs" by (rule fst_update_bucket)
  then have "\<forall>x \<in> set (update_bucket k f bs). fst x \<in> fst ` set bs" by blast
  with 2 show ?case by (cases "k = k'") force+
qed simp

lemma mset_push_bucket [simp]:
  "mset (slots_of (push_bucket k i bs)) = add_mset i (mset (slots_of bs))"
  by (induction k i bs rule: push_bucket.induct) auto

text \<open>The slots of a bucket, and what the operations make of them.\<close>

definition stack :: "buckets \<Rightarrow> nat \<Rightarrow> nat list" where
  "stack bs k = (case map_of bs k of None \<Rightarrow> [] | Some xs \<Rightarrow> xs)"

lemma stack_simps [simp]:
  "stack [] k = []"
  "stack ((k', xs) # bs) k = (if k = k' then xs else stack bs k)"
  by (simp_all add: stack_def)

lemma stack_eq_Nil: "k \<notin> fst ` set bs \<Longrightarrow> stack bs k = []"
  by (induction bs) auto

lemma stack_below [simp]: "\<forall>x \<in> set bs. k < fst x \<Longrightarrow> stack bs k = []"
  by (rule stack_eq_Nil) auto

lemma stack_nonempty: "stack bs k \<noteq> [] \<Longrightarrow> \<exists>x \<in> set bs. fst x = k"
  by (induction bs) (auto split: if_splits)

lemma mset_butlast: "xs \<noteq> [] \<Longrightarrow> mset xs = add_mset (last xs) (mset (butlast xs))"
  by (induction xs) auto

lemma stack_in: "wf_buckets bs \<Longrightarrow> (k, xs) \<in> set bs \<Longrightarrow> stack bs k = xs"
  by (induction bs) force+

lemma set_stack: "i \<in> set (stack bs k) \<Longrightarrow> \<exists>xs. (k, xs) \<in> set bs \<and> i \<in> set xs"
  by (induction bs) (auto split: if_splits)

lemma stack_push [simp]:
  "wf_buckets bs \<Longrightarrow> stack (push_bucket k i bs) = (stack bs)(k := stack bs k @ [i])"
  by (induction k i bs rule: push_bucket.induct) (auto simp: fun_eq_iff intro!: stack_eq_Nil)

lemma stack_update [simp]:
  "wf_buckets bs \<Longrightarrow> f [] = [] \<Longrightarrow> stack (update_bucket k f bs) = (stack bs)(k := f (stack bs k))"
  by (induction k f bs rule: update_bucket.induct) (auto simp: fun_eq_iff stack_eq_Nil)

lemma mset_update_bucket:
  "wf_buckets bs \<Longrightarrow> f [] = [] \<Longrightarrow>
   mset (slots_of (update_bucket k f bs)) + mset (stack bs k) = mset (slots_of bs) + mset (f (stack bs k))"
  by (induction k f bs rule: update_bucket.induct) (auto simp: stack_eq_Nil ac_simps)

lemma set_slots_of_stack:
  assumes "wf_buckets bs"
  shows "set (slots_of bs) = (\<Union>k. set (stack bs k))"
proof (intro set_eqI iffI)
  fix i assume "i \<in> set (slots_of bs)"
  then obtain k xs where "(k, xs) \<in> set bs" "i \<in> set xs" by (auto simp: set_slots_of)
  with assms have "i \<in> set (stack bs k)" by (simp add: stack_in)
  then show "i \<in> (\<Union>k. set (stack bs k))" by blast
next
  fix i assume "i \<in> (\<Union>k. set (stack bs k))"
  then show "i \<in> set (slots_of bs)" by (auto simp: set_slots_of dest!: set_stack)
qed

lemma mset_exchange: "A + B = C + D \<Longrightarrow> B = add_mset i D \<Longrightarrow> C = add_mset i (A :: 'a multiset)"
  by (metis add_right_cancel union_mset_add_mset_left union_mset_add_mset_right)

lemma mset_pop_bucket:
  assumes "wf_buckets bs" "stack bs k \<noteq> []"
  shows "mset (slots_of bs) = add_mset (last (stack bs k)) (mset (slots_of (pop_bucket k bs)))"
  by (rule mset_exchange [OF mset_update_bucket [of bs butlast k] mset_butlast]) (use assms in simp_all)

lemma mset_erase_slot:
  assumes "wf_buckets bs" "i \<in> set (stack bs k)"
  shows "mset (slots_of bs) = add_mset i (mset (slots_of (erase_slot k i bs)))"
proof (rule mset_exchange [OF mset_update_bucket [of bs "remove1 i" k]])
  show "mset (stack bs k) = add_mset i (mset (remove1 i (stack bs k)))"
    using assms(2) by simp
qed (use assms in simp_all)

lemma lower_bound_Some:
  assumes "wf_buckets bs" "lower_bound n bs = Some (k, xs)"
  shows "(k, xs) \<in> set bs" "stack bs k = xs" "xs \<noteq> []" "n \<le> k"
    "stack bs k' \<noteq> [] \<Longrightarrow> n \<le> k' \<Longrightarrow> k \<le> k'"
proof -
  show mem: "(k, xs) \<in> set bs" and "n \<le> k"
    using assms(2) by (auto simp: lower_bound_def find_Some_iff intro: nth_mem dest: sym)
  then show "stack bs k = xs" using assms(1) by (simp add: stack_in)
  show "xs \<noteq> []" using mem assms(1) by (auto simp: wf_buckets_def)
  show "stack bs k' \<noteq> [] \<Longrightarrow> n \<le> k' \<Longrightarrow> k \<le> k'"
    using assms unfolding lower_bound_def
    by (induction bs) (auto split: if_splits dest: stack_nonempty intro: less_imp_le)
qed

lemma lower_bound_None:
  "lower_bound n bs = None \<longleftrightarrow> (\<forall>k \<in> fst ` set bs. k < n)"
  by (auto simp: lower_bound_def find_None_iff)

lemma last_bucket:
  assumes "wf_buckets bs" "bs \<noteq> []"
  obtains k xs where "last bs = (k, xs)" "stack bs k = xs" "xs \<noteq> []"
    "\<And>k'. stack bs k' \<noteq> [] \<Longrightarrow> k' \<le> k"
proof -
  obtain k xs where l: "last bs = (k, xs)" by (cases "last bs")
  with assms(2) have mem: "(k, xs) \<in> set bs" by (metis last_in_set)
  have "stack bs k = xs" using mem assms(1) by (simp add: stack_in)
  moreover have "xs \<noteq> []" using mem assms(1) by (auto simp: wf_buckets_def)
  moreover have "\<forall>k' \<in> fst ` set bs. k' \<le> k"
    using assms l
  proof (induction bs)
    case (Cons b bs)
    show ?case
    proof (cases "bs = []")
      case False
      with Cons.prems have "(k, xs) \<in> set bs" by (metis last_ConsR last_in_set)
      with Cons False show ?thesis by (cases b) fastforce
    qed (use Cons.prems in auto)
  qed simp
  then have "stack bs k' \<noteq> [] \<Longrightarrow> k' \<le> k" for k' using stack_eq_Nil by blast
  ultimately show thesis using l by (intro that) auto
qed

end
