(* ===== verification/ArenaCore.thy ===== *)
theory ArenaCore
  imports RawBufferAllocator FreeBuckets
begin

text \<open>
  The state and the operations that \<open>ExecutionArena\<close> and \<open>IOArena\<close> of
  \<open>onnx_core/compute/raw_buffer_allocator.cc\<close> share: the two classes repeat the same code, which is
  written once here over a record that \<open>IOArena\<close> extends.  \<open>slot_indices_\<close> maps the address of a slot to
  its index, and an address is the index here; \<open>lru_iter_\<close> holds the position of a slot in
  \<open>lru_order_\<close>, which \<open>remove1\<close> finds again.
\<close>

section \<open>State\<close>

record arena =
  buffers :: "RawBuffer list"
  unused_slots :: "nat list"
  free_buckets :: buckets
  live_slots :: "bool list"
  lru_order :: "nat list"
  retention_cap :: nat
  total_allocated_size :: nat
  peak_allocated_size :: nat
  allocated_count :: nat
  retained_size :: nat
  retained_count :: nat

abbreviation capacity_of :: "'a arena_scheme \<Rightarrow> nat \<Rightarrow> nat" where
  "capacity_of s i \<equiv> buf_capacity (buffers s ! i)"

abbreviation size_of :: "'a arena_scheme \<Rightarrow> nat \<Rightarrow> nat" where
  "size_of s i \<equiv> buf_size (buffers s ! i)"

text \<open>\<open>slot_indices_.find(buf)\<close> finds a slot, and the slot is live.\<close>

definition is_live :: "'a arena_scheme \<Rightarrow> nat \<Rightarrow> bool" where
  "is_live s buf \<longleftrightarrow> buf < length (buffers s) \<and> live_slots s ! buf"

section \<open>Operations\<close>

definition TrackFreeSlot :: "nat \<Rightarrow> 'a arena_scheme \<Rightarrow> 'a arena_scheme" where
  "TrackFreeSlot i s = s\<lparr>lru_order := lru_order s @ [i]\<rparr>"

definition UntrackFreeSlot :: "nat \<Rightarrow> 'a arena_scheme \<Rightarrow> 'a arena_scheme" where
  "UntrackFreeSlot i s = s\<lparr>lru_order := remove1 i (lru_order s)\<rparr>"

text \<open>
  The top slot of a bucket is resized and taken off the free lists; nothing changes when \<open>resize\<close>
  throws.
\<close>

definition take_retained ::
  "realloc_policy \<Rightarrow> nat \<Rightarrow> nat \<times> nat list \<Rightarrow> 'a arena_scheme \<Rightarrow> (nat \<times> 'a arena_scheme) option" where
  "take_retained realloc n bucket s =
     (let i = last (snd bucket); previous_capacity = capacity_of s i
      in map_option (\<lambda>b.
           let s1 = s\<lparr>buffers := (buffers s)[i := b], free_buckets := pop_bucket (fst bucket) (free_buckets s)\<rparr>;
               s2 = UntrackFreeSlot i s1
           in (i, s2\<lparr>retained_size := retained_size s2 - previous_capacity,
                     retained_count := retained_count s2 - 1\<rparr>))
         (resize realloc (buffers s ! i) n))"

definition take_unused :: "realloc_policy \<Rightarrow> nat \<Rightarrow> 'a arena_scheme \<Rightarrow> (nat \<times> 'a arena_scheme) option" where
  "take_unused realloc n s =
     (let i = last (unused_slots s)
      in map_option (\<lambda>b. (i, s\<lparr>buffers := (buffers s)[i := b], unused_slots := butlast (unused_slots s)\<rparr>))
         (resize realloc (buffers s ! i) n))"

text \<open>
  The choice of a slot; the outer option is \<open>None\<close> when every slot is live, the inner one when
  \<open>resize\<close> throws.
\<close>

definition choose_slot ::
  "realloc_policy \<Rightarrow> nat \<Rightarrow> 'a arena_scheme \<Rightarrow> (nat \<times> 'a arena_scheme) option option" where
  "choose_slot realloc n s = (case lower_bound n (free_buckets s) of
     Some bucket \<Rightarrow> Some (take_retained realloc n bucket s)
   | None \<Rightarrow>
       if unused_slots s \<noteq> [] then Some (take_unused realloc n s)
       else if free_buckets s \<noteq> [] then Some (take_retained realloc n (last (free_buckets s)) s)
       else None)"

definition make_live :: "nat \<Rightarrow> nat \<Rightarrow> 'a arena_scheme \<Rightarrow> 'a arena_scheme" where
  "make_live n i s =
     (let total = total_allocated_size s + n
      in s\<lparr>live_slots := (live_slots s)[i := True], total_allocated_size := total,
           peak_allocated_size := max (peak_allocated_size s) total,
           allocated_count := allocated_count s + 1\<rparr>)"

text \<open>
  One round of the eviction loop, for the front of \<open>lru_order_\<close>: the storage of the slot is
  released and the slot becomes unused.
\<close>

definition evict :: "nat \<Rightarrow> 'a arena_scheme \<Rightarrow> 'a arena_scheme" where
  "evict i s =
     (let retained_capacity = capacity_of s i
      in s\<lparr>free_buckets := erase_slot retained_capacity i (free_buckets s),
           buffers := (buffers s)[i := empty_buffer],
           unused_slots := unused_slots s @ [i],
           retained_size := retained_size s - retained_capacity,
           retained_count := retained_count s - 1,
           lru_order := tl (lru_order s)\<rparr>)"

function evict_loop :: "nat \<Rightarrow> 'a arena_scheme \<Rightarrow> nat \<times> 'a arena_scheme" where
  "evict_loop evicted s =
     (if retained_size s > retention_cap s \<and> lru_order s \<noteq> [] then
        let i = hd (lru_order s) in evict_loop (evicted + capacity_of s i) (evict i s)
      else (evicted, s))"
  by pat_completeness auto

termination
  by (relation "measure (\<lambda>(e, s). length (lru_order s))") (auto simp: evict_def Let_def)

declare evict_loop.simps [simp del]

definition EnforceRetentionCap :: "'a arena_scheme \<Rightarrow> nat \<times> 'a arena_scheme" where
  "EnforceRetentionCap s = evict_loop 0 s"

definition SetRetentionCap :: "nat \<Rightarrow> 'a arena_scheme \<Rightarrow> 'a arena_scheme" where
  "SetRetentionCap cap s = snd (EnforceRetentionCap (s\<lparr>retention_cap := cap\<rparr>))"

text \<open>The return of a live slot to its bucket, without its storage being released.\<close>

definition retire :: "nat \<Rightarrow> 'a arena_scheme \<Rightarrow> 'a arena_scheme" where
  "retire i s =
     (let logical_size = size_of s i; retained_capacity = capacity_of s i
      in TrackFreeSlot i
        (s\<lparr>free_buckets := push_bucket retained_capacity i (free_buckets s),
           buffers := (buffers s)[i := (buffers s ! i)\<lparr>buf_size := 0\<rparr>],
           total_allocated_size := total_allocated_size s - logical_size,
           retained_size := retained_size s + retained_capacity,
           retained_count := retained_count s + 1,
           live_slots := (live_slots s)[i := False]\<rparr>))"

text \<open>\<open>Trim\<close> visits the buckets in increasing order and each stack from its bottom.\<close>

definition Trim :: "'a arena_scheme \<Rightarrow> nat \<times> 'a arena_scheme" where
  "Trim s =
     (retained_size s,
      s\<lparr>buffers := fold (\<lambda>i bs. bs[i := empty_buffer]) (slots_of (free_buckets s)) (buffers s),
        unused_slots := unused_slots s @ slots_of (free_buckets s),
        free_buckets := [], lru_order := [], retained_size := 0, retained_count := 0\<rparr>)"

definition ResetPeak :: "'a arena_scheme \<Rightarrow> 'a arena_scheme" where
  "ResetPeak s = s\<lparr>peak_allocated_size := total_allocated_size s\<rparr>"

section \<open>Invariant\<close>

definition live_set :: "'a arena_scheme \<Rightarrow> nat set" where
  "live_set s = {i. i < length (buffers s) \<and> live_slots s ! i}"

definition idle_set :: "'a arena_scheme \<Rightarrow> nat set" where
  "idle_set s = {i. i < length (buffers s) \<and> \<not> live_slots s ! i}"

text \<open>
  Every slot that is not live is either unused, with no storage, or on the free list of its
  capacity and in \<open>lru_order_\<close>, once; the counters are the sums they stand for.  The multiset
  \<open>A\<close> holds the slots an operation has taken off the lists and not yet made live.
\<close>

definition slots_but :: "nat multiset \<Rightarrow> 'a arena_scheme \<Rightarrow> bool" where
  "slots_but A s \<longleftrightarrow>
     length (live_slots s) = length (buffers s) \<and> wf_buckets (free_buckets s) \<and>
     mset (unused_slots s) + mset (slots_of (free_buckets s)) + A = mset_set (idle_set s) \<and>
     mset (lru_order s) = mset (slots_of (free_buckets s)) \<and>
     (\<forall>k. \<forall>i \<in> set (stack (free_buckets s) k). capacity_of s i = k) \<and>
     (\<forall>i \<in> set (unused_slots s). buffers s ! i = empty_buffer) \<and>
     (\<forall>i < length (buffers s). size_of s i \<le> capacity_of s i)"

definition retained_bytes :: "'a arena_scheme \<Rightarrow> nat" where
  "retained_bytes s = (\<Sum>i \<in># mset (slots_of (free_buckets s)). capacity_of s i)"

definition live_bytes :: "'a arena_scheme \<Rightarrow> nat" where
  "live_bytes s = (\<Sum>i \<in> live_set s. size_of s i)"

definition counters_ok :: "'a arena_scheme \<Rightarrow> bool" where
  "counters_ok s \<longleftrightarrow>
     total_allocated_size s = live_bytes s \<and>
     retained_size s = retained_bytes s \<and>
     retained_count s = size (mset (slots_of (free_buckets s))) \<and>
     total_allocated_size s \<le> peak_allocated_size s"

definition arena_ok :: "'a arena_scheme \<Rightarrow> bool" where
  "arena_ok s \<longleftrightarrow> slots_but {#} s \<and> counters_ok s"

definition within_cap :: "'a arena_scheme \<Rightarrow> bool" where
  "within_cap s \<longleftrightarrow> retained_size s \<le> retention_cap s"

text \<open>A step that changes at most the slot \<open>i\<close>, and no live slot.\<close>

definition same_live :: "nat \<Rightarrow> 'a arena_scheme \<Rightarrow> 'a arena_scheme \<Rightarrow> bool" where
  "same_live i s s' \<longleftrightarrow>
     length (buffers s') = length (buffers s) \<and> live_slots s' = live_slots s \<and>
     (\<forall>j. j \<noteq> i \<longrightarrow> buffers s' ! j = buffers s ! j) \<and>
     total_allocated_size s' = total_allocated_size s \<and>
     peak_allocated_size s' = peak_allocated_size s \<and>
     retention_cap s' = retention_cap s \<and> allocated_count s' = allocated_count s \<and>
     more s' = more s"

section \<open>Consequences of the invariant\<close>

lemma finite_slots [simp]: "finite (live_set s)" "finite (idle_set s)"
  by (simp_all add: live_set_def idle_set_def)

lemma idle_not_live: "i \<in> idle_set s \<Longrightarrow> i \<notin> live_set s"
  by (simp add: live_set_def idle_set_def)

lemma is_live_iff: "is_live s i \<longleftrightarrow> i \<in> live_set s"
  by (simp add: is_live_def live_set_def)

lemma distinct_countI:
  assumes "\<And>i. count (mset xs) i \<le> 1"
  shows "distinct xs"
  unfolding distinct_count_atmost_1
proof
  fix i
  show "count (mset xs) i = (if i \<in> set xs then 1 else 0)"
    using assms [of i] by (auto simp: le_Suc_eq not_in_iff)
qed

lemma slots_but_lists:
  assumes "slots_but A s"
  shows "distinct (unused_slots s)" "distinct (slots_of (free_buckets s))"
    "set (unused_slots s) \<inter> set (slots_of (free_buckets s)) = {}"
    "set (unused_slots s) \<union> set (slots_of (free_buckets s)) \<union> set_mset A = idle_set s"
    "set (lru_order s) = set (slots_of (free_buckets s))" "distinct (lru_order s)"
proof -
  let ?U = "unused_slots s" and ?R = "slots_of (free_buckets s)"
  have eq: "mset ?U + mset ?R + A = mset_set (idle_set s)"
    and lru: "mset (lru_order s) = mset ?R" using assms by (simp_all add: slots_but_def)
  have "count (mset ?U) i + count (mset ?R) i + count A i \<le> 1" for i
    using arg_cong [OF eq, of "\<lambda>M. count M i"] by (simp add: count_mset_set')
  then have counts: "count (mset ?U) i \<le> 1" "count (mset ?R) i \<le> 1"
    "count (mset ?U) i + count (mset ?R) i \<le> 1" for i
    by (meson add_leD1 add_leD2 le_trans)+
  then show "distinct ?U" "distinct ?R" by (auto intro: distinct_countI)
  show "set ?U \<inter> set ?R = {}"
  proof (rule ccontr)
    assume "set ?U \<inter> set ?R \<noteq> {}"
    then obtain i where "i \<in># mset ?U" "i \<in># mset ?R" by auto
    then have "0 < count (mset ?U) i" "0 < count (mset ?R) i" by (simp_all only: count_greater_zero_iff)
    with counts(3) [of i] show False by linarith
  qed
  show "set ?U \<union> set ?R \<union> set_mset A = idle_set s"
    using arg_cong [OF eq, of set_mset] by simp
  show "set (lru_order s) = set ?R" using mset_eq_setD [OF lru] .
  show "distinct (lru_order s)" using mset_eq_imp_distinct_iff [OF lru] \<open>distinct ?R\<close> by simp
qed

lemma slots_but_bucket:
  assumes "slots_but A s" "i \<in> set (slots_of (free_buckets s))"
  shows "i \<in> set (stack (free_buckets s) (capacity_of s i))"
  using assms by (auto simp: slots_but_def set_slots_of_stack)

lemma live_bytes_cong:
  "length (buffers s') = length (buffers s) \<Longrightarrow> live_slots s' = live_slots s \<Longrightarrow>
   (\<And>j. j \<in> live_set s \<Longrightarrow> buffers s' ! j = buffers s ! j) \<Longrightarrow> live_bytes s' = live_bytes s"
  unfolding live_bytes_def by (rule sum.cong) (auto simp: live_set_def)

lemma same_live_live_set: "same_live i s s' \<Longrightarrow> live_set s' = live_set s \<and> idle_set s' = idle_set s"
  by (simp add: same_live_def live_set_def idle_set_def)

lemma same_live_bytes: "same_live i s s' \<Longrightarrow> i \<notin> live_set s \<Longrightarrow> live_bytes s' = live_bytes s"
  by (rule live_bytes_cong) (auto simp: same_live_def)

end
