(* ===== verification/ArenaLemmas.thy ===== *)
theory ArenaLemmas
  imports ArenaCore
begin

text \<open>
  The invariant of the arenas is preserved by each of their steps; one lemma per step, over two
  lemmas on a change of a single slot.
\<close>

section \<open>A change of one slot\<close>

definition other_slots :: "nat \<Rightarrow> 'a arena_scheme \<Rightarrow> 'a arena_scheme \<Rightarrow> bool" where
  "other_slots i s s' \<longleftrightarrow>
     length (buffers s') = length (buffers s) \<and> length (live_slots s') = length (live_slots s) \<and>
     (\<forall>j. j \<noteq> i \<longrightarrow> buffers s' ! j = buffers s ! j) \<and>
     (\<forall>j. j \<noteq> i \<longrightarrow> j \<in> set (unused_slots s') \<longrightarrow> j \<in> set (unused_slots s)) \<and>
     (\<forall>j k. j \<noteq> i \<longrightarrow> j \<in> set (stack (free_buckets s') k) \<longrightarrow> j \<in> set (stack (free_buckets s) k))"

lemma slots_but_update:
  assumes "slots_but A s" "other_slots i s s'" "wf_buckets (free_buckets s')"
    and "mset (unused_slots s') + mset (slots_of (free_buckets s')) + A' = mset_set (idle_set s')"
    and "mset (lru_order s') = mset (slots_of (free_buckets s'))"
    and "\<And>k. i \<in> set (stack (free_buckets s') k) \<Longrightarrow> capacity_of s' i = k"
    and "i \<in> set (unused_slots s') \<Longrightarrow> buffers s' ! i = empty_buffer"
    and "size_of s' i \<le> capacity_of s' i"
  shows "slots_but A' s'"
  unfolding slots_but_def
proof (intro conjI allI ballI impI)
  show "length (live_slots s') = length (buffers s')"
    using assms(1,2) by (simp add: slots_but_def other_slots_def)
  show "capacity_of s' j = k" if "j \<in> set (stack (free_buckets s') k)" for j k
    using assms(1,2,6) that by (cases "j = i") (auto simp: slots_but_def other_slots_def)
  show "buffers s' ! j = empty_buffer" if "j \<in> set (unused_slots s')" for j
    using assms(1,2,7) that by (cases "j = i") (auto simp: slots_but_def other_slots_def)
  show "size_of s' j \<le> capacity_of s' j" if "j < length (buffers s')" for j
    using assms(1,2,8) that by (cases "j = i") (auto simp: slots_but_def other_slots_def)
qed (use assms in auto)

lemma capacities_cong:
  assumes "i \<notin> set xs" "\<forall>j. j \<noteq> i \<longrightarrow> buffers s' ! j = buffers s ! j"
  shows "image_mset (capacity_of s') (mset xs) = image_mset (capacity_of s) (mset xs)"
  by (rule image_mset_cong) (use assms in \<open>auto simp flip: set_mset_mset\<close>)

lemma retained_bytes_remove:
  assumes "mset (slots_of (free_buckets s)) = add_mset i (mset (slots_of (free_buckets s')))"
    and "i \<notin> set (slots_of (free_buckets s'))" "\<forall>j. j \<noteq> i \<longrightarrow> buffers s' ! j = buffers s ! j"
  shows "retained_bytes s = capacity_of s i + retained_bytes s'"
  using capacities_cong [OF assms(2,3)] by (simp add: retained_bytes_def assms(1))

lemma not_in_rest:
  "mset xs = add_mset i (mset ys) \<Longrightarrow> distinct xs \<Longrightarrow> i \<notin> set ys"
  using mset_eq_imp_distinct_iff [of xs "i # ys"] by simp

section \<open>Taking a slot\<close>

lemma take_retained_ok:
  assumes ok: "arena_ok s" and st: "stack (free_buckets s) k = xs" "xs \<noteq> []"
    and t: "take_retained realloc n (k, xs) s = Some (i, s')" and r: "reallocates realloc"
  shows "i = last xs" "i \<in> idle_set s" "slots_but {#i#} s'" "counters_ok s'" "size_of s' i = n"
    "same_live i s s'" "retained_size s' \<le> retained_size s"
proof -
  let ?bs = "free_buckets s"
  let ?bs' = "pop_bucket k ?bs"
  from t obtain b where b: "resize realloc (buffers s ! i) n = Some b" and i: "i = last xs"
    and s': "s' = s\<lparr>buffers := (buffers s)[i := b], free_buckets := ?bs',
      lru_order := remove1 i (lru_order s), retained_size := retained_size s - capacity_of s i,
      retained_count := retained_count s - 1\<rparr>"
    by (auto simp: take_retained_def UntrackFreeSlot_def Let_def)
  have sb: "slots_but {#} s" and co: "counters_ok s" using ok by (simp_all add: arena_ok_def)
  then have wf: "wf_buckets ?bs" by (simp add: slots_but_def)
  have pop: "mset (slots_of ?bs) = add_mset i (mset (slots_of ?bs'))"
    using mset_pop_bucket [OF wf, of k] st i by simp
  have in_R: "i \<in> set (slots_of ?bs)" using arg_cong [OF pop, of set_mset] by auto
  have not_R: "i \<notin> set (slots_of ?bs')" using pop slots_but_lists(2) [OF sb] by (rule not_in_rest)
  have idle: "i \<in> idle_set s" using slots_but_lists(4) [OF sb] in_R by auto
  then have len: "i < length (buffers s)" by (simp add: idle_set_def)
  have n: "buf_size b = n" "n \<le> buf_capacity b" using resize_Some [OF b r] by auto
  show "i = last xs" "i \<in> idle_set s" "size_of s' i = n" using i idle s' len n by auto
  show same: "same_live i s s'" by (simp add: same_live_def s')
  show "retained_size s' \<le> retained_size s" by (simp add: s')
  show "slots_but {#i#} s'"
  proof (rule slots_but_update [OF sb, of i])
    show "other_slots i s s'"
      using wf by (auto simp: other_slots_def s' dest: in_set_butlastD split: if_splits)
    show "mset (lru_order s') = mset (slots_of (free_buckets s'))"
      using sb pop by (simp add: s' slots_but_def)
    show "capacity_of s' i = k'" if "i \<in> set (stack (free_buckets s') k')" for k'
      using that not_R set_slots_of_stack [of ?bs'] wf by (auto simp: s')
    show "buffers s' ! i = empty_buffer" if "i \<in> set (unused_slots s')"
      using that in_R slots_but_lists(3) [OF sb] by (auto simp: s')
  qed (use sb pop len n wf same_live_live_set [OF same] in \<open>auto simp: s' slots_but_def\<close>)
  have "retained_bytes s = capacity_of s i + retained_bytes s'"
    by (rule retained_bytes_remove) (use pop not_R in \<open>simp_all add: s'\<close>)
  with co pop same_live_bytes [OF same idle_not_live [OF idle]]
  show "counters_ok s'" by (auto simp: counters_ok_def s')
qed

lemma take_unused_ok:
  assumes ok: "arena_ok s" and u: "unused_slots s \<noteq> []"
    and t: "take_unused realloc n s = Some (i, s')" and r: "reallocates realloc"
  shows "i = last (unused_slots s)" "i \<in> idle_set s" "slots_but {#i#} s'" "counters_ok s'"
    "size_of s' i = n" "same_live i s s'" "retained_size s' = retained_size s"
proof -
  from t obtain b where b: "resize realloc (buffers s ! i) n = Some b" and i: "i = last (unused_slots s)"
    and s': "s' = s\<lparr>buffers := (buffers s)[i := b], unused_slots := butlast (unused_slots s)\<rparr>"
    by (auto simp: take_unused_def Let_def)
  have sb: "slots_but {#} s" and co: "counters_ok s" using ok by (simp_all add: arena_ok_def)
  have pop: "mset (unused_slots s) = add_mset i (mset (butlast (unused_slots s)))"
    using mset_butlast [OF u] i by simp
  have in_U: "i \<in> set (unused_slots s)" using u i by simp
  have not_U: "i \<notin> set (butlast (unused_slots s))"
    using pop slots_but_lists(1) [OF sb] by (rule not_in_rest)
  have idle: "i \<in> idle_set s" using slots_but_lists(4) [OF sb] in_U by auto
  then have len: "i < length (buffers s)" by (simp add: idle_set_def)
  have not_R: "i \<notin> set (slots_of (free_buckets s))" using slots_but_lists(3) [OF sb] in_U by auto
  have n: "buf_size b = n" "n \<le> buf_capacity b" using resize_Some [OF b r] by auto
  show "i = last (unused_slots s)" "i \<in> idle_set s" "size_of s' i = n" using i idle s' len n by auto
  show same: "same_live i s s'" by (simp add: same_live_def s')
  show "retained_size s' = retained_size s" by (simp add: s')
  show "slots_but {#i#} s'"
  proof (rule slots_but_update [OF sb, of i])
    show "other_slots i s s'" by (auto simp: other_slots_def s' dest: in_set_butlastD)
    show "capacity_of s' i = k" if "i \<in> set (stack (free_buckets s') k)" for k
      using that not_R set_slots_of_stack [of "free_buckets s"] sb by (auto simp: s' slots_but_def)
    show "buffers s' ! i = empty_buffer" if "i \<in> set (unused_slots s')"
      using that not_U by (simp add: s')
  qed (use sb pop len n same_live_live_set [OF same] in \<open>auto simp: s' slots_but_def\<close>)
  have "retained_bytes s' = retained_bytes s"
    using capacities_cong [OF not_R, of s' s] by (simp add: retained_bytes_def s')
  with co same_live_bytes [OF same idle_not_live [OF idle]]
  show "counters_ok s'" by (auto simp: counters_ok_def s')
qed

section \<open>Making a slot live, and returning it\<close>

lemma make_live_ok:
  assumes sb: "slots_but {#i#} s" and co: "counters_ok s" and n: "size_of s i = n"
  shows "arena_ok (make_live n i s)" "live_set (make_live n i s) = insert i (live_set s)"
proof -
  let ?s = "make_live n i s"
  have idle: "i \<in> idle_set s" using slots_but_lists(4) [OF sb] by auto
  then have len: "i < length (buffers s)" by (simp add: idle_set_def)
  have ll: "length (live_slots s) = length (buffers s)" using sb by (simp add: slots_but_def)
  show live: "live_set ?s = insert i (live_set s)"
    using len ll by (auto simp: live_set_def make_live_def Let_def nth_list_update)
  have idle': "idle_set s = insert i (idle_set ?s)" "i \<notin> idle_set ?s"
    using len ll idle by (auto simp: idle_set_def make_live_def Let_def nth_list_update)
  then have "mset_set (idle_set s) = add_mset i (mset_set (idle_set ?s))" by simp
  then have "slots_but {#} ?s"
    using sb by (auto simp: slots_but_def make_live_def Let_def)
  moreover have "live_bytes ?s = live_bytes s + n"
    using n idle_not_live [OF idle] by (simp add: live_bytes_def live) (simp add: make_live_def Let_def)
  ultimately show "arena_ok ?s"
    using co by (auto simp: arena_ok_def counters_ok_def make_live_def Let_def retained_bytes_def)
qed

lemma retire_ok:
  assumes ok: "arena_ok s" and live: "i \<in> live_set s"
  shows "arena_ok (retire i s)" "live_set (retire i s) = live_set s - {i}"
    "\<forall>j. j \<noteq> i \<longrightarrow> buffers (retire i s) ! j = buffers s ! j"
proof -
  let ?s = "retire i s"
  let ?b = "(buffers s ! i)\<lparr>buf_size := 0\<rparr>"
  have sb: "slots_but {#} s" and co: "counters_ok s" using ok by (simp_all add: arena_ok_def)
  have len: "i < length (buffers s)" "live_slots s ! i" using live by (auto simp: live_set_def)
  have ll: "length (live_slots s) = length (buffers s)" "wf_buckets (free_buckets s)"
    using sb by (auto simp: slots_but_def)
  have s': "?s = s\<lparr>lru_order := lru_order s @ [i],
      free_buckets := push_bucket (capacity_of s i) i (free_buckets s),
      buffers := (buffers s)[i := ?b], total_allocated_size := total_allocated_size s - size_of s i,
      retained_size := retained_size s + capacity_of s i, retained_count := retained_count s + 1,
      live_slots := (live_slots s)[i := False]\<rparr>"
    by (simp add: retire_def TrackFreeSlot_def Let_def)
  have not: "i \<notin> idle_set s" using len by (simp add: idle_set_def)
  then have out: "i \<notin> set (slots_of (free_buckets s))" "i \<notin> set (unused_slots s)"
    using slots_but_lists(4) [OF sb] by auto
  show live': "live_set ?s = live_set s - {i}"
    using len ll by (auto simp: live_set_def s' nth_list_update split: if_splits)
  show others: "\<forall>j. j \<noteq> i \<longrightarrow> buffers ?s ! j = buffers s ! j" by (simp add: s')
  have "idle_set ?s = insert i (idle_set s)"
    using len ll by (auto simp: idle_set_def s' nth_list_update split: if_splits)
  with not have idle: "mset_set (idle_set ?s) = add_mset i (mset_set (idle_set s))" by simp
  have cap: "size_of s i \<le> capacity_of s i" using sb len by (simp add: slots_but_def)
  have "slots_but {#} ?s"
  proof (rule slots_but_update [OF sb, of i])
    show "other_slots i s ?s" using ll by (auto simp: other_slots_def s' split: if_splits)
    show "capacity_of ?s i = k" if "i \<in> set (stack (free_buckets ?s) k)" for k
      using that out set_slots_of_stack [OF ll(2)] len ll by (auto simp: s' split: if_splits)
    show "buffers ?s ! i = empty_buffer" if "i \<in> set (unused_slots ?s)" using that out by (simp add: s')
  qed (use sb ll len idle in \<open>auto simp: s' slots_but_def\<close>)
  moreover have "retained_bytes ?s = capacity_of ?s i + retained_bytes s"
    by (rule retained_bytes_remove) (use ll out in \<open>simp_all add: s'\<close>)
  moreover have "live_bytes s = size_of s i + live_bytes ?s"
  proof -
    have "live_bytes ?s = (\<Sum>j \<in> live_set s - {i}. size_of s j)"
      unfolding live_bytes_def live' by (rule sum.cong) (auto simp: s')
    with live show ?thesis by (simp add: live_bytes_def sum.remove)
  qed
  ultimately show "arena_ok ?s"
    using co len ll by (auto simp: arena_ok_def counters_ok_def s')
qed

section \<open>Eviction and trimming\<close>

text \<open>A step that touches no live buffer.\<close>

definition keeps_live :: "'a arena_scheme \<Rightarrow> 'a arena_scheme \<Rightarrow> bool" where
  "keeps_live s s' \<longleftrightarrow>
     length (buffers s') = length (buffers s) \<and> live_slots s' = live_slots s \<and>
     (\<forall>j \<in> live_set s. buffers s' ! j = buffers s ! j) \<and>
     total_allocated_size s' = total_allocated_size s \<and>
     peak_allocated_size s' = peak_allocated_size s \<and>
     retention_cap s' = retention_cap s \<and> allocated_count s' = allocated_count s \<and>
     more s' = more s"

lemma keeps_live_refl [simp]: "keeps_live s s"
  by (simp add: keeps_live_def)

lemma keeps_live_set: "keeps_live s s' \<Longrightarrow> live_set s' = live_set s"
  by (simp add: keeps_live_def live_set_def)

lemma keeps_live_trans: "keeps_live s t \<Longrightarrow> keeps_live t u \<Longrightarrow> keeps_live s u"
  using keeps_live_set [of s t] by (simp add: keeps_live_def)

lemma same_live_keeps: "same_live i s s' \<Longrightarrow> i \<in> idle_set s \<Longrightarrow> keeps_live s s'"
  by (auto simp: same_live_def keeps_live_def dest: idle_not_live)

lemma keeps_live_bytes: "keeps_live s s' \<Longrightarrow> live_bytes s' = live_bytes s"
  by (rule live_bytes_cong) (auto simp: keeps_live_def)

lemma lru_in_buckets:
  assumes "arena_ok s" "i \<in> set (lru_order s)"
  shows "i \<in> idle_set s" "i \<in> set (slots_of (free_buckets s))"
    "i \<in> set (stack (free_buckets s) (capacity_of s i))"
proof -
  have sb: "slots_but {#} s" using assms(1) by (simp add: arena_ok_def)
  show R: "i \<in> set (slots_of (free_buckets s))" using slots_but_lists(5) [OF sb] assms(2) by simp
  then show "i \<in> idle_set s" using slots_but_lists(4) [OF sb] by auto
  show "i \<in> set (stack (free_buckets s) (capacity_of s i))" by (rule slots_but_bucket [OF sb R])
qed

lemma evict_ok:
  assumes ok: "arena_ok s" and lru: "lru_order s = i # rest"
  shows "arena_ok (evict i s)" "keeps_live s (evict i s)"
    "retained_size s = capacity_of s i + retained_size (evict i s)"
    "lru_order (evict i s) = rest" "\<forall>j \<in> set rest. buffers (evict i s) ! j = buffers s ! j"
proof -
  let ?s = "evict i s" and ?bs = "free_buckets s"
  let ?bs' = "erase_slot (capacity_of s i) i ?bs"
  have sb: "slots_but {#} s" and co: "counters_ok s" using ok by (simp_all add: arena_ok_def)
  then have wf: "wf_buckets ?bs" by (simp add: slots_but_def)
  have s': "?s = s\<lparr>free_buckets := ?bs', buffers := (buffers s)[i := empty_buffer],
      unused_slots := unused_slots s @ [i], retained_size := retained_size s - capacity_of s i,
      retained_count := retained_count s - 1, lru_order := rest\<rparr>"
    by (simp add: evict_def Let_def lru)
  from lru have "i \<in> set (lru_order s)" by simp
  note i = lru_in_buckets [OF ok this]
  have pop: "mset (slots_of ?bs) = add_mset i (mset (slots_of ?bs'))"
    using wf i(3) by (rule mset_erase_slot)
  have not_R: "i \<notin> set (slots_of ?bs')" using pop slots_but_lists(2) [OF sb] by (rule not_in_rest)
  have len: "i < length (buffers s)" using i(1) by (simp add: idle_set_def)
  have same: "same_live i s ?s" by (simp add: same_live_def s')
  then show "keeps_live s ?s" using i(1) by (rule same_live_keeps)
  have bytes: "retained_bytes s = capacity_of s i + retained_bytes ?s"
    by (rule retained_bytes_remove) (use pop not_R in \<open>simp_all add: s'\<close>)
  with co show "retained_size s = capacity_of s i + retained_size ?s"
    by (simp add: counters_ok_def s')
  show "lru_order ?s = rest" by (simp add: s')
  show "\<forall>j \<in> set rest. buffers ?s ! j = buffers s ! j"
  proof
    fix j assume "j \<in> set rest"
    with slots_but_lists(6) [OF sb] lru have "j \<noteq> i" by auto
    then show "buffers ?s ! j = buffers s ! j" by (simp add: s')
  qed
  have "slots_but {#} ?s"
  proof (rule slots_but_update [OF sb, of i])
    show "other_slots i s ?s"
      using wf by (auto simp: other_slots_def s' dest: notin_set_remove1 split: if_splits)
    show "mset (lru_order ?s) = mset (slots_of (free_buckets ?s))"
      using sb pop lru by (simp add: s' slots_but_def)
    show "capacity_of ?s i = k" if "i \<in> set (stack (free_buckets ?s) k)" for k
      using that not_R set_slots_of_stack [of ?bs'] wf by (auto simp: s')
  qed (use sb pop len wf same_live_live_set [OF same] in \<open>auto simp: s' slots_but_def\<close>)
  with co pop bytes same_live_bytes [OF same idle_not_live [OF i(1)]]
  show "arena_ok ?s" by (auto simp: arena_ok_def counters_ok_def s')
qed

text \<open>
  The loop evicts a prefix of \<open>lru_order_\<close>, the shortest one after which the retained capacity is
  within the cap.
\<close>

definition evicts :: "nat \<Rightarrow> 'a arena_scheme \<Rightarrow> 'a arena_scheme \<Rightarrow> bool" where
  "evicts k s s' \<longleftrightarrow>
     k \<le> length (lru_order s) \<and> lru_order s' = drop k (lru_order s) \<and>
     (\<forall>j \<in> set (lru_order s'). buffers s' ! j = buffers s ! j) \<and>
     retained_size s = (\<Sum>i \<leftarrow> take k (lru_order s). capacity_of s i) + retained_size s' \<and>
     (\<forall>j < k. retained_size s > retention_cap s + (\<Sum>i \<leftarrow> take j (lru_order s). capacity_of s i))"

lemma evict_loop_ok:
  assumes "arena_ok s" "evict_loop e s = (e', s')"
  shows "arena_ok s' \<and> keeps_live s s' \<and> within_cap s' \<and> e' + retained_size s' = e + retained_size s \<and>
    (\<exists>k. evicts k s s')"
  using assms
proof (induction e s rule: evict_loop.induct)
  case (1 e s)
  show ?case
  proof (cases "retained_size s > retention_cap s \<and> lru_order s \<noteq> []")
    case True
    then obtain i rest where lru: "lru_order s = i # rest" by (auto simp: neq_Nil_conv)
    note ev = evict_ok [OF 1(2) lru]
    have loop: "evict_loop (e + capacity_of s i) (evict i s) = (e', s')"
      using 1(3) True lru by (simp add: evict_loop.simps [of e s] Let_def)
    have IH: "arena_ok s' \<and> keeps_live (evict i s) s' \<and> within_cap s' \<and>
        e' + retained_size s' = e + capacity_of s i + retained_size (evict i s) \<and>
        (\<exists>k. evicts k (evict i s) s')"
      using 1(1) [OF True refl] loop ev(1) lru by simp
    then obtain k where k: "evicts k (evict i s) s'" by blast
    have caps: "(\<Sum>j \<leftarrow> take m rest. capacity_of (evict i s) j) = (\<Sum>j \<leftarrow> take m rest. capacity_of s j)" for m
      using ev(5) by (intro arg_cong [where f = sum_list] map_cong) (auto dest: in_set_takeD)
    have "evicts (Suc k) s s'"
      unfolding evicts_def
    proof (intro conjI ballI allI impI)
      show "retained_size s = (\<Sum>i \<leftarrow> take (Suc k) (lru_order s). capacity_of s i) + retained_size s'"
        using k ev(3,4) caps lru by (simp add: evicts_def)
      show "buffers s' ! j = buffers s ! j" if "j \<in> set (lru_order s')" for j
        using that k ev(4,5) by (auto simp: evicts_def dest: in_set_dropD)
      show "retained_size s > retention_cap s + (\<Sum>i \<leftarrow> take j (lru_order s). capacity_of s i)" if "j < Suc k" for j
        using that True k ev(2,3,4) caps lru by (cases j) (auto simp: evicts_def keeps_live_def)
    qed (use k ev(4) lru in \<open>auto simp: evicts_def\<close>)
    with IH ev(2,3) show ?thesis using keeps_live_trans by auto
  next
    case False
    with 1(3) have eq: "e' = e" "s' = s" by (auto simp: evict_loop.simps [of e s])
    have "within_cap s"
    proof (cases "lru_order s = []")
      case True
      with 1(2) have "retained_size s = 0"
        by (simp add: arena_ok_def slots_but_def counters_ok_def retained_bytes_def)
      then show ?thesis by (simp add: within_cap_def)
    qed (use False in \<open>simp add: within_cap_def\<close>)
    moreover have "evicts 0 s s" by (simp add: evicts_def)
    ultimately show ?thesis using 1(2) eq by auto
  qed
qed

lemma EnforceRetentionCap_ok:
  assumes "arena_ok s" "EnforceRetentionCap s = (e, s')"
  shows "arena_ok s'" "keeps_live s s'" "within_cap s'" "e + retained_size s' = retained_size s"
    "\<exists>k. evicts k s s'"
  using evict_loop_ok [OF assms(1), of 0 e s'] assms(2) by (simp_all add: EnforceRetentionCap_def)

lemma fold_empty_buffers:
  "length (fold (\<lambda>i bs. bs[i := empty_buffer]) xs bs) = length bs"
  "j < length bs \<Longrightarrow> fold (\<lambda>i bs. bs[i := empty_buffer]) xs bs ! j =
     (if j \<in> set xs then empty_buffer else bs ! j)"
  by (induction xs arbitrary: bs) (auto simp: nth_list_update)

lemma Trim_ok:
  assumes ok: "arena_ok s" and t: "Trim s = (released, s')"
  shows "arena_ok s'" "keeps_live s s'" "released = retained_size s" "retained_size s' = 0"
    "set (unused_slots s') = idle_set s" "\<forall>i \<in> idle_set s. buffers s' ! i = empty_buffer"
proof -
  let ?R = "slots_of (free_buckets s)"
  have sb: "slots_but {#} s" and co: "counters_ok s" using ok by (simp_all add: arena_ok_def)
  have s': "s' = s\<lparr>buffers := fold (\<lambda>i bs. bs[i := empty_buffer]) ?R (buffers s),
      unused_slots := unused_slots s @ ?R, free_buckets := [], lru_order := [],
      retained_size := 0, retained_count := 0\<rparr>"
    using t by (simp add: Trim_def)
  show "released = retained_size s" "retained_size s' = 0" using t by (auto simp: Trim_def)
  have idle: "set (unused_slots s) \<union> set ?R = idle_set s"
    using slots_but_lists(4) [OF sb] by simp
  then show "set (unused_slots s') = idle_set s" by (simp add: s')
  have buf: "buffers s' ! j = (if j \<in> set ?R then empty_buffer else buffers s ! j)"
    if "j < length (buffers s)" for j
    using that by (simp add: s' fold_empty_buffers)
  have idle_lt: "j < length (buffers s)" if "j \<in> idle_set s" for j using that by (simp add: idle_set_def)
  show "\<forall>i \<in> idle_set s. buffers s' ! i = empty_buffer"
  proof
    fix i assume i: "i \<in> idle_set s"
    with idle have "i \<in> set ?R \<or> i \<in> set (unused_slots s)" by auto
    with sb i show "buffers s' ! i = empty_buffer"
      by (auto simp: buf idle_lt slots_but_def)
  qed
  note empties = this
  have sets: "idle_set s' = idle_set s" by (simp add: s' idle_set_def fold_empty_buffers)
  have "j \<in> live_set s \<Longrightarrow> buffers s' ! j = buffers s ! j" for j
    using buf [of j] idle idle_not_live [of j s] by (auto simp: live_set_def)
  then show keeps: "keeps_live s s'" by (simp add: keeps_live_def s' fold_empty_buffers)
  have "slots_but {#} s'"
    unfolding slots_but_def
  proof (intro conjI allI impI)
    show "\<forall>i \<in> set (unused_slots s'). buffers s' ! i = empty_buffer"
      using empties idle by (simp add: s')
    show "size_of s' j \<le> capacity_of s' j" if "j < length (buffers s')" for j
      using that buf [of j] sb by (auto simp: slots_but_def s' fold_empty_buffers)
  qed (use sb sets in \<open>auto simp: slots_but_def s' fold_empty_buffers\<close>)
  with co keeps_live_bytes [OF keeps] show "arena_ok s'"
    by (simp add: arena_ok_def counters_ok_def s' retained_bytes_def)
qed

section \<open>The choice of a slot\<close>

lemma choose_slot_ok:
  assumes ok: "arena_ok s" and c: "choose_slot realloc n s = Some (Some (i, s'))"
    and r: "reallocates realloc"
  shows "i \<in> idle_set s" "slots_but {#i#} s'" "counters_ok s'" "size_of s' i = n"
    "same_live i s s'" "retained_size s' \<le> retained_size s"
proof -
  have wf: "wf_buckets (free_buckets s)" using ok by (simp add: arena_ok_def slots_but_def)
  consider k xs where "take_retained realloc n (k, xs) s = Some (i, s')" "stack (free_buckets s) k = xs"
      "xs \<noteq> []"
    | "unused_slots s \<noteq> []" "take_unused realloc n s = Some (i, s')"
  proof (cases "lower_bound n (free_buckets s)")
    case (Some b)
    obtain k xs where b: "b = (k, xs)" by (cases b)
    note lb = lower_bound_Some [OF wf Some [unfolded b]]
    from c Some b have "take_retained realloc n (k, xs) s = Some (i, s')" by (simp add: choose_slot_def)
    then show thesis using lb(2,3) that(1) by blast
  next
    case None
    show thesis
    proof (cases "unused_slots s = []")
      case True
      with None c have ne: "free_buckets s \<noteq> []" and
        t: "take_retained realloc n (last (free_buckets s)) s = Some (i, s')"
        by (auto simp: choose_slot_def split: if_splits)
      from last_bucket [OF wf ne] obtain k xs where "last (free_buckets s) = (k, xs)"
        "stack (free_buckets s) k = xs" "xs \<noteq> []" by metis
      with t show thesis using that(1) by simp
    qed (use None c that(2) in \<open>simp add: choose_slot_def\<close>)
  qed
  then have "i \<in> idle_set s \<and> slots_but {#i#} s' \<and> counters_ok s' \<and> size_of s' i = n \<and>
    same_live i s s' \<and> retained_size s' \<le> retained_size s"
  proof cases
    case (1 k xs)
    from take_retained_ok [OF ok 1(2,3,1) r] show ?thesis by simp
  next
    case 2
    from take_unused_ok [OF ok 2 r] show ?thesis by simp
  qed
  then show "i \<in> idle_set s" "slots_but {#i#} s'" "counters_ok s'" "size_of s' i = n"
    "same_live i s s'" "retained_size s' \<le> retained_size s" by blast+
qed

lemma choose_slot_None:
  assumes ok: "arena_ok s"
  shows "choose_slot realloc n s = None \<longleftrightarrow> idle_set s = {}"
proof -
  have sb: "slots_but {#} s" using ok by (simp add: arena_ok_def)
  then have "idle_set s = {} \<longleftrightarrow> unused_slots s = [] \<and> free_buckets s = []"
    using slots_but_lists(4) [OF sb, symmetric] slots_of_eq_Nil [of "free_buckets s"]
    by (simp add: slots_but_def)
  then show ?thesis
    by (auto simp: choose_slot_def lower_bound_def split: option.splits)
qed

text \<open>
  Best fit: a retained buffer that is large enough is reused without an allocation, and no retained
  buffer that is large enough is smaller; only then an unused slot is taken.
\<close>

lemma choose_slot_reuses:
  assumes ok: "arena_ok s" and j: "j \<in> set (lru_order s)" "n \<le> capacity_of s j"
  shows "\<exists>i s'. choose_slot realloc n s = Some (Some (i, s')) \<and> i \<in> set (lru_order s) \<and>
    n \<le> capacity_of s i \<and> capacity_of s i \<le> capacity_of s j \<and>
    capacity_of s' i = capacity_of s i"
proof -
  have sb: "slots_but {#} s" using ok by (simp add: arena_ok_def)
  then have wf: "wf_buckets (free_buckets s)" by (simp add: slots_but_def)
  note sj = lru_in_buckets(3) [OF ok j(1)]
  from set_stack [OF sj] have "capacity_of s j \<in> fst ` set (free_buckets s)" by force
  with j(2) have "lower_bound n (free_buckets s) \<noteq> None"
    by (meson lower_bound_None not_le)
  then obtain k xs where lb: "lower_bound n (free_buckets s) = Some (k, xs)" by auto
  note b = lower_bound_Some [OF wf lb]
  let ?i = "last xs"
  have st: "?i \<in> set (stack (free_buckets s) k)" using b(2,3) by simp
  then have cap: "capacity_of s ?i = k" using sb by (simp add: slots_but_def)
  have i: "?i \<in> set (slots_of (free_buckets s))" using st set_slots_of_stack [OF wf] by auto
  then have lru: "?i \<in> set (lru_order s)" and len: "?i < length (buffers s)"
    using slots_but_lists(4,5) [OF sb] by (auto simp: idle_set_def)
  have "k \<le> capacity_of s j" using b(5) [of "capacity_of s j"] sj j(2) by fastforce
  then show ?thesis
    using lb b(4) cap lru len
    by (auto simp: choose_slot_def take_retained_def UntrackFreeSlot_def Let_def resize_fits)
qed

end
