(* ===== verification/ExecutionArena.thy ===== *)
theory ExecutionArena
  imports ArenaLemmas
begin

text \<open>
  \<open>ExecutionArena\<close> of \<open>onnx_core/compute/raw_buffer_allocator.cc\<close>: the fixed-slot arena that retains freed
  buffers by capacity and evicts the least recently freed ones above its retention cap.
\<close>

section \<open>Operations\<close>

definition new_ExecutionArena :: "nat \<Rightarrow> nat \<Rightarrow> arena" where
  "new_ExecutionArena capacity cap =
     \<lparr>buffers = replicate capacity empty_buffer, unused_slots = rev [0..<capacity], free_buckets = [],
      live_slots = replicate capacity False, lru_order = [], retention_cap = cap,
      total_allocated_size = 0, peak_allocated_size = 0, allocated_count = 0,
      retained_size = 0, retained_count = 0\<rparr>"

definition ExecutionArena_Allocate :: "realloc_policy \<Rightarrow> nat \<Rightarrow> arena \<Rightarrow> nat res \<times> arena" where
  "ExecutionArena_Allocate realloc n s = (case choose_slot realloc n s of
     Some (Some (i, s1)) \<Rightarrow> (Inr i, make_live n i s1)
   | _ \<Rightarrow> (Inl BadAlloc, s))"

definition ExecutionArena_Free :: "nat \<Rightarrow> arena \<Rightarrow> unit res \<times> arena" where
  "ExecutionArena_Free buf s =
     (if \<not> is_live s buf then (Inl InvalidArgument, s)
      else
        let s1 = retire buf s; s2 = s1\<lparr>allocated_count := allocated_count s1 - 1\<rparr>
        in (Inr (), snd (EnforceRetentionCap s2)))"

definition ExecutionArena_SetRetentionCap :: "nat \<Rightarrow> arena \<Rightarrow> arena" where
  "ExecutionArena_SetRetentionCap = SetRetentionCap"

definition ExecutionArena_Trim :: "arena \<Rightarrow> nat \<times> arena" where
  "ExecutionArena_Trim = Trim"

definition ExecutionArena_capacity :: "arena \<Rightarrow> nat" where
  "ExecutionArena_capacity s = length (buffers s)"

section \<open>Invariant\<close>

definition ExecutionArena_ok :: "arena \<Rightarrow> bool" where
  "ExecutionArena_ok s \<longleftrightarrow> arena_ok s \<and> within_cap s \<and> allocated_count s = card (live_set s)"

text \<open>The live buffers and their logical sizes, as a client sees them.\<close>

definition live_map :: "'a arena_scheme \<Rightarrow> nat \<rightharpoonup> nat" where
  "live_map s p = (if p \<in> live_set s then Some (size_of s p) else None)"

lemma dom_live_map [simp]: "dom (live_map s) = live_set s"
  by (auto simp: live_map_def split: if_splits)

lemma arena_held_bytes: "arena_ok s \<Longrightarrow> held_bytes (live_map s) = total_allocated_size s"
  by (simp add: held_bytes_def arena_ok_def counters_ok_def live_bytes_def live_map_def)

lemma keeps_live_map: "keeps_live s s' \<Longrightarrow> live_map s' = live_map s"
  using keeps_live_set [of s s'] by (auto simp: live_map_def keeps_live_def fun_eq_iff)

lemma mset_set_upt: "mset [0..<n] = mset_set {0..<n}"
  using mset_set_set [of "[0..<n]"] by simp

lemma new_arena_ok:
  assumes "buffers s = replicate n empty_buffer" "unused_slots s = rev [0..<n]" "free_buckets s = []"
    "live_slots s = replicate n False" "lru_order s = []" "total_allocated_size s = 0"
    "retained_size s = 0" "retained_count s = 0"
  shows "arena_ok s" "live_set s = {}"
proof -
  have idle: "idle_set s = {0..<n}" using assms by (auto simp: idle_set_def)
  show live: "live_set s = {}" using assms by (auto simp: live_set_def)
  show "arena_ok s"
    unfolding arena_ok_def slots_but_def idle
    using assms by (auto simp: mset_set_upt counters_ok_def live_bytes_def live retained_bytes_def)
qed

lemma new_ExecutionArena_ok [simp]: "ExecutionArena_ok (new_ExecutionArena n cap)"
proof -
  let ?s = "new_ExecutionArena n cap"
  have "arena_ok ?s" "live_set ?s = {}"
    by (rule new_arena_ok [of _ n]; simp add: new_ExecutionArena_def)+
  then show ?thesis by (simp add: ExecutionArena_ok_def within_cap_def new_ExecutionArena_def)
qed

section \<open>The steps\<close>

lemma allocated_slot:
  assumes ok: "arena_ok s" and c: "choose_slot realloc n s = Some (Some (i, s1))"
    and r: "reallocates realloc"
  shows "arena_ok (make_live n i s1)" "i \<in> idle_set s"
    "live_set (make_live n i s1) = insert i (live_set s)"
    "live_map (make_live n i s1) = (live_map s)(i \<mapsto> n)"
    "within_cap s \<Longrightarrow> within_cap (make_live n i s1)"
    "allocated_count (make_live n i s1) = allocated_count s + 1"
    "total_allocated_size (make_live n i s1) = total_allocated_size s + n"
    "peak_allocated_size (make_live n i s1) = max (peak_allocated_size s) (total_allocated_size s + n)"
    "\<forall>j \<in> live_set s. buffers (make_live n i s1) ! j = buffers s ! j"
proof -
  note ch = choose_slot_ok [OF ok c r]
  note ml = make_live_ok [OF ch(2-4)]
  show "arena_ok (make_live n i s1)" "i \<in> idle_set s" by (fact ml(1), fact ch(1))
  have same: "live_set s1 = live_set s" using same_live_live_set [OF ch(5)] by simp
  then show live: "live_set (make_live n i s1) = insert i (live_set s)" using ml(2) by simp
  show others: "\<forall>j \<in> live_set s. buffers (make_live n i s1) ! j = buffers s ! j"
    using ch(5) idle_not_live [OF ch(1)] by (auto simp: make_live_def Let_def same_live_def)
  have "buffers (make_live n i s1) = buffers s1" by (simp add: make_live_def Let_def)
  then show "live_map (make_live n i s1) = (live_map s)(i \<mapsto> n)"
    using others ch(4) live by (auto simp: live_map_def fun_eq_iff)
  show "within_cap s \<Longrightarrow> within_cap (make_live n i s1)"
    using ch(5,6) by (simp add: within_cap_def make_live_def Let_def same_live_def)
qed (use choose_slot_ok(5) [OF assms] in \<open>simp_all add: make_live_def Let_def same_live_def\<close>)

lemma ExecutionArena_Allocate_Inr:
  assumes ok: "ExecutionArena_ok s" and a: "ExecutionArena_Allocate realloc n s = (Inr p, s')"
    and r: "reallocates realloc"
  shows "ExecutionArena_ok s'" "p \<in> idle_set s" "live_map s' = (live_map s)(p \<mapsto> n)"
    "peak_allocated_size s' = max (peak_allocated_size s) (total_allocated_size s')"
    "\<forall>j \<in> live_set s. buffers s' ! j = buffers s ! j"
proof -
  from a obtain s1 where c: "choose_slot realloc n s = Some (Some (p, s1))" and s': "s' = make_live n p s1"
    by (auto simp: ExecutionArena_Allocate_def split: option.splits)
  have arena: "arena_ok s" using ok by (simp add: ExecutionArena_ok_def)
  note al = allocated_slot [OF arena c r]
  show "ExecutionArena_ok s'"
    using ok al(1,3,5,6) idle_not_live [OF al(2)] by (simp add: ExecutionArena_ok_def s')
  show "p \<in> idle_set s" "live_map s' = (live_map s)(p \<mapsto> n)"
    "peak_allocated_size s' = max (peak_allocated_size s) (total_allocated_size s')"
    "\<forall>j \<in> live_set s. buffers s' ! j = buffers s ! j"
    using al s' by simp_all
qed

text \<open>A failed allocation leaves the arena as it was.\<close>

lemma ExecutionArena_Allocate_Inl:
  "ExecutionArena_Allocate realloc n s = (Inl e, s') \<Longrightarrow> e = BadAlloc \<and> s' = s"
  by (auto simp: ExecutionArena_Allocate_def split: option.splits)

text \<open>The return of a live slot, up to the count of its owners.\<close>

lemma retired_slot:
  assumes ok: "arena_ok s" and p: "p \<in> live_set s"
    and s1: "s1 = retire p s" and more: "buffers t = buffers s1" "unused_slots t = unused_slots s1"
      "free_buckets t = free_buckets s1" "live_slots t = live_slots s1" "lru_order t = lru_order s1"
      "total_allocated_size t = total_allocated_size s1" "peak_allocated_size t = peak_allocated_size s1"
      "retained_size t = retained_size s1" "retained_count t = retained_count s1"
  shows "arena_ok (snd (EnforceRetentionCap t))" "within_cap (snd (EnforceRetentionCap t))"
    "keeps_live t (snd (EnforceRetentionCap t))" "live_set t = live_set s - {p}"
    "live_map (snd (EnforceRetentionCap t)) = (live_map s)(p := None)"
    "peak_allocated_size (snd (EnforceRetentionCap t)) = peak_allocated_size s"
    "\<forall>j \<in> live_set s - {p}. buffers (snd (EnforceRetentionCap t)) ! j = buffers s ! j"
proof -
  note re = retire_ok [OF ok p]
  have ok_t: "arena_ok t"
    using re(1) more s1
    by (simp add: arena_ok_def slots_but_def counters_ok_def idle_set_def live_set_def
        live_bytes_def retained_bytes_def)
  obtain e u where u: "EnforceRetentionCap t = (e, u)" by fastforce
  note en = EnforceRetentionCap_ok [OF ok_t u]
  show "arena_ok (snd (EnforceRetentionCap t))" "within_cap (snd (EnforceRetentionCap t))"
    "keeps_live t (snd (EnforceRetentionCap t))" using en u by simp_all
  show live: "live_set t = live_set s - {p}"
    using re(2) more s1 by (simp add: live_set_def)
  show others: "\<forall>j \<in> live_set s - {p}. buffers (snd (EnforceRetentionCap t)) ! j = buffers s ! j"
    using en(2) live re(3) more s1 u by (simp add: keeps_live_def)
  then have "live_map t = (live_map s)(p := None)"
    using live re(3) more s1 by (auto simp: live_map_def fun_eq_iff)
  then show "live_map (snd (EnforceRetentionCap t)) = (live_map s)(p := None)"
    using keeps_live_map [OF en(2)] u by simp
  have "peak_allocated_size t = peak_allocated_size s"
    using more s1 by (simp add: retire_def TrackFreeSlot_def Let_def)
  then show "peak_allocated_size (snd (EnforceRetentionCap t)) = peak_allocated_size s"
    using en(2) u by (simp add: keeps_live_def)
qed

lemma ExecutionArena_Free_Inr:
  assumes ok: "ExecutionArena_ok s" and p: "p \<in> live_set s"
  shows "\<exists>s'. ExecutionArena_Free p s = (Inr (), s') \<and> ExecutionArena_ok s' \<and>
    live_map s' = (live_map s)(p := None) \<and> peak_allocated_size s' = peak_allocated_size s \<and>
    (\<forall>j \<in> live_set s - {p}. buffers s' ! j = buffers s ! j)"
proof -
  let ?s1 = "retire p s"
  let ?t = "?s1\<lparr>allocated_count := allocated_count ?s1 - 1\<rparr>"
  have arena: "arena_ok s" and count: "allocated_count s = card (live_set s)"
    using ok by (simp_all add: ExecutionArena_ok_def)
  have "allocated_count ?t = allocated_count s - 1"
    by (simp add: retire_def TrackFreeSlot_def Let_def)
  with count p have "allocated_count ?t = card (live_set s - {p})"
    by simp
  with retired_slot [OF arena p refl, of ?t] keeps_live_set [of ?t "snd (EnforceRetentionCap ?t)"] p
  show ?thesis
    by (simp add: ExecutionArena_Free_def Let_def is_live_iff ExecutionArena_ok_def keeps_live_def)
qed

lemma ResetPeak_ok:
  "arena_ok s \<Longrightarrow> arena_ok (ResetPeak s)" "within_cap (ResetPeak s) = within_cap s"
  "live_map (ResetPeak s) = live_map s" "live_set (ResetPeak s) = live_set s"
  by (auto simp: arena_ok_def slots_but_def counters_ok_def idle_set_def live_set_def live_map_def
      live_bytes_def retained_bytes_def within_cap_def ResetPeak_def fun_eq_iff)

interpretation exec: buffer_allocator "ExecutionArena_Allocate realloc" ExecutionArena_Free
    total_allocated_size peak_allocated_size ResetPeak
    "\<lambda>s. ExecutionArena_ok s \<and> reallocates realloc" live_map "\<lambda>_. {}" for realloc
proof unfold_locales
  fix s n p s'
  assume a: "ExecutionArena_ok s \<and> reallocates realloc" "ExecutionArena_Allocate realloc n s = (Inr p, s')"
  then show "(ExecutionArena_ok s' \<and> reallocates realloc) \<and> p \<notin> dom (live_map s) \<and>
      live_map s' = (live_map s)(p \<mapsto> n) \<and> {} = {} \<and>
      peak_allocated_size s' = max (peak_allocated_size s) (total_allocated_size s')"
    using ExecutionArena_Allocate_Inr [of s realloc n p s'] idle_not_live [of p s] by simp
next
  fix s n e s'
  assume "ExecutionArena_ok s \<and> reallocates realloc" "ExecutionArena_Allocate realloc n s = (Inl e, s')"
  then show "e = BadAlloc \<and> (ExecutionArena_ok s' \<and> reallocates realloc) \<and> live_map s' = live_map s \<and>
      {} = {} \<and> peak_allocated_size s' = peak_allocated_size s"
    using ExecutionArena_Allocate_Inl by blast
next
  fix s p
  assume "ExecutionArena_ok s \<and> reallocates realloc" "p \<in> dom (live_map s)" "p \<notin> ({} :: nat set)"
  then show "\<exists>s'. ExecutionArena_Free p s = (Inr (), s') \<and> (ExecutionArena_ok s' \<and> reallocates realloc) \<and>
      live_map s' = (live_map s)(p := None) \<and> {} = {} \<and> peak_allocated_size s' = peak_allocated_size s"
    using ExecutionArena_Free_Inr [of s p] by auto
next
  fix s p
  assume "ExecutionArena_ok s \<and> reallocates realloc" "p \<notin> dom (live_map s) \<or> p \<in> ({} :: nat set)"
  then show "ExecutionArena_Free p s = (Inl InvalidArgument, s)"
    by (simp add: ExecutionArena_Free_def is_live_iff)
next
  fix s
  assume "ExecutionArena_ok s \<and> reallocates realloc"
  then show "(ExecutionArena_ok (ResetPeak s) \<and> reallocates realloc) \<and> live_map (ResetPeak s) = live_map s \<and>
      {} = {} \<and> peak_allocated_size (ResetPeak s) = total_allocated_size s"
    using ResetPeak_ok [of s] by (simp add: ExecutionArena_ok_def) (simp add: ResetPeak_def)
qed (auto simp: ExecutionArena_ok_def arena_held_bytes arena_ok_def counters_ok_def)

section \<open>The cap and trimming\<close>

lemma with_cap_ok:
  "arena_ok s \<Longrightarrow> arena_ok (s\<lparr>retention_cap := c\<rparr>)"
  "live_map (s\<lparr>retention_cap := c\<rparr>) = live_map s" "live_set (s\<lparr>retention_cap := c\<rparr>) = live_set s"
  by (auto simp: arena_ok_def slots_but_def counters_ok_def idle_set_def live_set_def live_map_def
      live_bytes_def retained_bytes_def fun_eq_iff)

lemma SetRetentionCap_ok:
  assumes ok: "arena_ok s"
  shows "arena_ok (SetRetentionCap c s)" "within_cap (SetRetentionCap c s)"
    "keeps_live (s\<lparr>retention_cap := c\<rparr>) (SetRetentionCap c s)"
proof -
  obtain e u where u: "EnforceRetentionCap (s\<lparr>retention_cap := c\<rparr>) = (e, u)" by fastforce
  from EnforceRetentionCap_ok [OF with_cap_ok(1) [OF ok] u] u
  show "arena_ok (SetRetentionCap c s)" "within_cap (SetRetentionCap c s)"
    "keeps_live (s\<lparr>retention_cap := c\<rparr>) (SetRetentionCap c s)"
    by (simp_all add: SetRetentionCap_def)
qed

section \<open>The states an arena reaches\<close>

inductive exec_reachable :: "realloc_policy \<Rightarrow> arena \<Rightarrow> bool" for realloc where
  start: "exec_reachable realloc (new_ExecutionArena n cap)"
| allocate: "exec_reachable realloc s \<Longrightarrow> exec_reachable realloc (snd (ExecutionArena_Allocate realloc n s))"
| free: "exec_reachable realloc s \<Longrightarrow> exec_reachable realloc (snd (ExecutionArena_Free p s))"
| set_cap: "exec_reachable realloc s \<Longrightarrow> exec_reachable realloc (ExecutionArena_SetRetentionCap c s)"
| trim: "exec_reachable realloc s \<Longrightarrow> exec_reachable realloc (snd (ExecutionArena_Trim s))"
| reset_peak: "exec_reachable realloc s \<Longrightarrow> exec_reachable realloc (ResetPeak s)"

lemma ExecutionArena_SetRetentionCap_ok:
  "ExecutionArena_ok s \<Longrightarrow> ExecutionArena_ok (ExecutionArena_SetRetentionCap c s)"
  using SetRetentionCap_ok [of s c] with_cap_ok(3) [of c s] keeps_live_set [OF SetRetentionCap_ok(3) [of s c]]
  by (simp add: ExecutionArena_ok_def ExecutionArena_SetRetentionCap_def keeps_live_def)

lemma ExecutionArena_Trim_ok:
  assumes "ExecutionArena_ok s"
  shows "ExecutionArena_ok (snd (ExecutionArena_Trim s))"
proof -
  obtain r s' where t: "Trim s = (r, s')" by fastforce
  have "arena_ok s" using assms by (simp add: ExecutionArena_ok_def)
  from Trim_ok [OF this t] keeps_live_set [of s s'] assms t show ?thesis
    by (simp add: ExecutionArena_ok_def ExecutionArena_Trim_def keeps_live_def within_cap_def)
qed

lemma ExecutionArena_ResetPeak_ok: "ExecutionArena_ok s \<Longrightarrow> ExecutionArena_ok (ResetPeak s)"
  using ResetPeak_ok [of s] by (simp add: ExecutionArena_ok_def) (simp add: ResetPeak_def)

lemma exec_reachable_ok:
  "exec_reachable realloc s \<Longrightarrow> reallocates realloc \<Longrightarrow> ExecutionArena_ok s"
proof (induction rule: exec_reachable.induct)
  case (allocate s n)
  obtain out s' where a: "ExecutionArena_Allocate realloc n s = (out, s')" by fastforce
  show ?case
  proof (cases out)
    case (Inl e)
    with a allocate show ?thesis using ExecutionArena_Allocate_Inl [of realloc n s e s'] by simp
  next
    case (Inr p)
    with a allocate show ?thesis using ExecutionArena_Allocate_Inr(1) [of s realloc n p s'] by simp
  qed
next
  case (free s p)
  then show ?case
    using ExecutionArena_Free_Inr [of s p]
    by (cases "p \<in> live_set s") (auto simp: ExecutionArena_Free_def is_live_iff)
qed (simp_all add: ExecutionArena_SetRetentionCap_ok ExecutionArena_Trim_ok ExecutionArena_ResetPeak_ok)

end
