(* ===== verification/IOArena.thy ===== *)
theory IOArena
  imports ExecutionArena
begin

text \<open>
  \<open>IOArena\<close> of \<open>onnx_core/compute/raw_buffer_allocator.cc\<close>: the arena that also grows, and that exports live
  buffers to external owners.  Its record extends the one of \<open>ExecutionArena\<close>, whose operations it
  repeats.
\<close>

section \<open>Operations\<close>

record io_arena = arena +
  leased_slots :: "bool list"
  leased_count :: nat

definition new_IOArena :: "nat \<Rightarrow> nat \<Rightarrow> io_arena" where
  "new_IOArena capacity cap = arena.extend (new_ExecutionArena capacity cap)
     \<lparr>leased_slots = replicate capacity False, leased_count = 0\<rparr>"

text \<open>
  A new slot at the end of the deque, when every slot is live.  \<open>RawBuffer(n)\<close> resizes an empty
  vector; it is the only step of the branch that can fail here, since the memory of the book-keeping
  containers is not modelled.
\<close>

definition add_slot :: "realloc_policy \<Rightarrow> nat \<Rightarrow> io_arena \<Rightarrow> (nat \<times> io_arena) option" where
  "add_slot realloc n s = map_option (\<lambda>b.
     (length (buffers s), s\<lparr>buffers := buffers s @ [b], live_slots := live_slots s @ [False],
                           leased_slots := leased_slots s @ [False]\<rparr>))
     (resize realloc empty_buffer n)"

definition IOArena_Allocate :: "realloc_policy \<Rightarrow> nat \<Rightarrow> io_arena \<Rightarrow> nat res \<times> io_arena" where
  "IOArena_Allocate realloc n s =
     (case (case choose_slot realloc n s of Some slot \<Rightarrow> slot | None \<Rightarrow> add_slot realloc n s) of
        Some (i, s1) \<Rightarrow> (Inr i, make_live n i s1)
      | None \<Rightarrow> (Inl BadAlloc, s))"

definition IOArena_Free :: "nat \<Rightarrow> io_arena \<Rightarrow> unit res \<times> io_arena" where
  "IOArena_Free buf s =
     (if \<not> is_live s buf \<or> leased_slots s ! buf then (Inl InvalidArgument, s)
      else
        let s1 = retire buf s; s2 = s1\<lparr>allocated_count := allocated_count s1 - 1\<rparr>
        in (Inr (), snd (EnforceRetentionCap s2)))"

text \<open>The state change of \<open>Export\<close>; the lease it returns captures the logical size.\<close>

definition IOArena_Export :: "nat \<Rightarrow> io_arena \<Rightarrow> nat res \<times> io_arena" where
  "IOArena_Export buf s =
     (if \<not> is_live s buf \<or> leased_slots s ! buf then (Inl InvalidArgument, s)
      else (Inr (size_of s buf), s\<lparr>leased_slots := (leased_slots s)[buf := True],
                                   allocated_count := allocated_count s - 1,
                                   leased_count := leased_count s + 1\<rparr>))"

text \<open>A lease of a buffer that is not in the arena breaks the assertion of the code.\<close>

definition IOArena_ReturnLease :: "nat \<Rightarrow> io_arena \<Rightarrow> io_arena res" where
  "IOArena_ReturnLease buf s =
     (if buf \<ge> length (buffers s) then Inl Undefined
      else
        let s1 = retire buf s;
            s2 = s1\<lparr>leased_count := leased_count s1 - 1, leased_slots := (leased_slots s1)[buf := False]\<rparr>
        in Inr (snd (EnforceRetentionCap s2)))"

definition IOArena_SetRetentionCap :: "nat \<Rightarrow> io_arena \<Rightarrow> io_arena" where
  "IOArena_SetRetentionCap = SetRetentionCap"

definition IOArena_EnforceRetentionCap :: "io_arena \<Rightarrow> nat \<times> io_arena" where
  "IOArena_EnforceRetentionCap = EnforceRetentionCap"

definition IOArena_Trim :: "io_arena \<Rightarrow> nat \<times> io_arena" where
  "IOArena_Trim = Trim"

section \<open>Invariant\<close>

definition leased_set :: "io_arena \<Rightarrow> nat set" where
  "leased_set s = {i. i < length (buffers s) \<and> leased_slots s ! i}"

definition IOArena_ok :: "io_arena \<Rightarrow> bool" where
  "IOArena_ok s \<longleftrightarrow> arena_ok s \<and> within_cap s \<and> length (leased_slots s) = length (buffers s) \<and>
     leased_set s \<subseteq> live_set s \<and> leased_count s = card (leased_set s) \<and>
     allocated_count s = card (live_set s - leased_set s)"

lemma leased_set_fields:
  "length (buffers s') = length (buffers s) \<Longrightarrow> leased_slots s' = leased_slots s \<Longrightarrow>
   leased_set s' = leased_set s"
  by (simp add: leased_set_def)

lemma finite_leased [simp]: "finite (leased_set s)"
  by (simp add: leased_set_def)

lemma new_IOArena_ok [simp]: "IOArena_ok (new_IOArena n cap)" and
  new_IOArena_live [simp]: "live_set (new_IOArena n cap) = {}" "leased_set (new_IOArena n cap) = {}"
proof -
  let ?s = "new_IOArena n cap"
  have "arena_ok ?s" and live: "live_set ?s = {}"
    by (rule new_arena_ok [of _ n]; simp add: new_IOArena_def new_ExecutionArena_def arena.extend_def)+
  moreover show leased: "leased_set ?s = {}"
    by (auto simp: leased_set_def new_IOArena_def new_ExecutionArena_def arena.extend_def)
  ultimately show "IOArena_ok ?s" "live_set ?s = {}"
    by (simp_all add: IOArena_ok_def within_cap_def)
       (simp_all add: new_IOArena_def new_ExecutionArena_def arena.extend_def)
qed

text \<open>The shared operations leave the lease book-keeping alone.\<close>

lemma more_leases:
  "arena.more s' = arena.more s \<Longrightarrow> leased_slots s' = leased_slots s \<and> leased_count s' = leased_count s"
  for s :: io_arena
  by (cases s, cases s') simp

lemma keeps_live_leases:
  assumes "keeps_live s s'"
  shows "leased_slots s' = leased_slots s" "leased_count s' = leased_count s" "leased_set s' = leased_set s"
  using assms more_leases [of s' s] by (auto simp: keeps_live_def leased_set_def)

section \<open>The steps\<close>

lemma add_slot_ok:
  assumes ok: "arena_ok s" and a: "add_slot realloc n s = Some (i, s')" and r: "reallocates realloc"
  shows "slots_but {#i#} s'" "counters_ok s'" "size_of s' i = n" "i = length (buffers s)"
    "live_set s' = live_set s" "\<forall>j \<in> live_set s. buffers s' ! j = buffers s ! j"
proof -
  from a obtain b where b: "resize realloc empty_buffer n = Some b" and i: "i = length (buffers s)"
    and s': "s' = s\<lparr>buffers := buffers s @ [b], live_slots := live_slots s @ [False],
      leased_slots := leased_slots s @ [False]\<rparr>"
    by (auto simp: add_slot_def)
  have sb: "slots_but {#} s" and co: "counters_ok s" using ok by (simp_all add: arena_ok_def)
  have n: "buf_size b = n" "n \<le> buf_capacity b" using resize_Some [OF b r] by auto
  show "i = length (buffers s)" "size_of s' i = n" using i s' n by simp_all
  have ll: "length (live_slots s) = length (buffers s)" using sb by (simp add: slots_but_def)
  show live: "live_set s' = live_set s"
    using ll by (auto simp: live_set_def s' nth_append)
  show others: "\<forall>j \<in> live_set s. buffers s' ! j = buffers s ! j"
    by (auto simp: live_set_def s' nth_append)
  have "idle_set s' = insert i (idle_set s)" "i \<notin> idle_set s"
    using ll i by (auto simp: idle_set_def s' nth_append)
  then have idle: "mset_set (idle_set s') = add_mset i (mset_set (idle_set s))" by simp
  have old: "buffers s' ! j = buffers s ! j" if "j \<in> idle_set s" for j
    using that by (auto simp: s' idle_set_def nth_append)
  have idle_lists: "set (unused_slots s) \<union> set (slots_of (free_buckets s)) = idle_set s"
    using slots_but_lists(4) [OF sb] by simp
  have wf: "wf_buckets (free_buckets s)" using sb by (simp add: slots_but_def)
  show "slots_but {#i#} s'"
    unfolding slots_but_def
  proof (intro conjI allI ballI impI)
    show "capacity_of s' j = k" if "j \<in> set (stack (free_buckets s') k)" for j k
    proof -
      have st: "j \<in> set (stack (free_buckets s) k)" using that by (simp add: s')
      then have "j \<in> idle_set s" using set_slots_of_stack [OF wf] idle_lists by auto
      with old st sb show ?thesis by (simp add: slots_but_def)
    qed
    show "buffers s' ! j = empty_buffer" if "j \<in> set (unused_slots s')" for j
      using that old [of j] idle_lists sb by (auto simp: s' slots_but_def)
    show "size_of s' j \<le> capacity_of s' j" if "j < length (buffers s')" for j
      using that n sb by (auto simp: s' slots_but_def nth_append less_Suc_eq)
  qed (use sb idle in \<open>auto simp: s' slots_but_def\<close>)
  have "image_mset (capacity_of s') (mset (slots_of (free_buckets s))) =
      image_mset (capacity_of s) (mset (slots_of (free_buckets s)))"
  proof (rule image_mset_cong)
    fix j assume "j \<in># mset (slots_of (free_buckets s))"
    with idle_lists have "j \<in> idle_set s" by auto
    with old show "capacity_of s' j = capacity_of s j" by simp
  qed
  then have "retained_bytes s' = retained_bytes s" by (simp add: retained_bytes_def s')
  moreover have "live_bytes s' = live_bytes s"
    unfolding live_bytes_def live by (rule sum.cong) (use others in auto)
  ultimately show "counters_ok s'" using co by (simp add: counters_ok_def s')
qed

lemma IOArena_Allocate_Inr:
  assumes ok: "IOArena_ok s" and a: "IOArena_Allocate realloc n s = (Inr p, s')"
    and r: "reallocates realloc"
  shows "IOArena_ok s'" "p \<notin> live_set s" "live_set s' = insert p (live_set s)"
    "leased_set s' = leased_set s" "live_map s' = (live_map s)(p \<mapsto> n)"
    "peak_allocated_size s' = max (peak_allocated_size s) (total_allocated_size s')"
    "\<forall>j \<in> live_set s. buffers s' ! j = buffers s ! j"
proof -
  have arena: "arena_ok s" and leased: "length (leased_slots s) = length (buffers s)"
    "leased_set s \<subseteq> live_set s" using ok by (simp_all add: IOArena_ok_def)
  from a consider (choose) s1 where "choose_slot realloc n s = Some (Some (p, s1))" "s' = make_live n p s1"
    | (add) s1 where "add_slot realloc n s = Some (p, s1)" "s' = make_live n p s1"
    by (auto simp: IOArena_Allocate_def split: option.splits)
  then have main: "arena_ok s' \<and> p \<notin> live_set s \<and> live_set s' = insert p (live_set s) \<and>
      leased_set s' = leased_set s \<and> live_map s' = (live_map s)(p \<mapsto> n) \<and> within_cap s' \<and>
      allocated_count s' = allocated_count s + 1 \<and> leased_count s' = leased_count s \<and>
      length (leased_slots s') = length (buffers s') \<and>
      peak_allocated_size s' = max (peak_allocated_size s) (total_allocated_size s') \<and>
      (\<forall>j \<in> live_set s. buffers s' ! j = buffers s ! j)"
  proof cases
    case choose
    note ch = choose_slot_ok [OF arena choose(1) r]
    note al = allocated_slot [OF arena choose(1) r]
    have "length (buffers s') = length (buffers s)" "arena.more s' = arena.more s"
      using ch(5) choose(2) by (simp_all add: make_live_def Let_def same_live_def)
    then show ?thesis
      using al choose(2) ok idle_not_live [OF ch(1)] more_leases [of s' s]
      by (simp add: IOArena_ok_def leased_set_def)
  next
    case add
    note ad = add_slot_ok [OF arena add(1) r]
    note ml = make_live_ok [OF ad(1-3)]
    have new: "p \<notin> live_set s" using ad(4) by (simp add: live_set_def)
    have bufs: "buffers s' = buffers s1" by (simp add: add(2) make_live_def Let_def)
    have leases: "leased_slots s' = leased_slots s @ [False]" "leased_count s' = leased_count s"
      "length (buffers s1) = length (buffers s) + 1" "allocated_count s' = allocated_count s + 1"
      "total_allocated_size s1 = total_allocated_size s" "peak_allocated_size s1 = peak_allocated_size s"
      "retained_size s' = retained_size s" "retention_cap s' = retention_cap s"
      using add by (auto simp: add_slot_def make_live_def Let_def)
    have "leased_set s' = leased_set s"
      using leases bufs leased(1) by (auto simp: leased_set_def nth_append less_Suc_eq)
    moreover have "live_map s' = (live_map s)(p \<mapsto> n)"
      using ml(2) ad(3,5,6) bufs add(2) by (auto simp: live_map_def fun_eq_iff)
    moreover have "peak_allocated_size s' = max (peak_allocated_size s) (total_allocated_size s')"
      using leases(5,6) by (simp add: add(2) make_live_def Let_def)
    ultimately show ?thesis
      using ml ad(5,6) add(2) new bufs leases ok leased(1) by (simp add: IOArena_ok_def within_cap_def)
  qed
  then have sets: "live_set s' - leased_set s' = insert p (live_set s - leased_set s)"
    using leased(2) by auto
  have "card (live_set s' - leased_set s') = Suc (card (live_set s - leased_set s))"
    by (subst sets) (use main in simp)
  then show "IOArena_ok s'"
    using main ok leased(2) by (auto simp: IOArena_ok_def)
  show "p \<notin> live_set s" "live_set s' = insert p (live_set s)"
    "leased_set s' = leased_set s" "live_map s' = (live_map s)(p \<mapsto> n)"
    "peak_allocated_size s' = max (peak_allocated_size s) (total_allocated_size s')"
    "\<forall>j \<in> live_set s. buffers s' ! j = buffers s ! j" using main by simp_all
qed

lemma IOArena_Allocate_Inl:
  "IOArena_Allocate realloc n s = (Inl e, s') \<Longrightarrow> e = BadAlloc \<and> s' = s"
  by (auto simp: IOArena_Allocate_def split: option.splits)

text \<open>What the return of a slot by its client or by its lease has in common.\<close>

lemma IOArena_return:
  assumes ok: "IOArena_ok s" and p: "p \<in> live_set s"
    and t: "t = (retire p s)\<lparr>allocated_count := a, leased_count := l, leased_slots := ls\<rparr>"
    and s': "s' = snd (EnforceRetentionCap t)"
    and ls: "length ls = length (buffers s)" "{i. i < length (buffers s) \<and> ls ! i} = leased_set s - {p}"
    and counts: "l = card (leased_set s - {p})" "a = card (live_set s - leased_set s - {p})"
  shows "IOArena_ok s' \<and> live_set s' = live_set s - {p} \<and> leased_set s' = leased_set s - {p} \<and>
    live_map s' = (live_map s)(p := None) \<and> peak_allocated_size s' = peak_allocated_size s \<and>
    (\<forall>j \<in> live_set s - {p}. buffers s' ! j = buffers s ! j)"
proof -
  have arena: "arena_ok s" using ok by (simp add: IOArena_ok_def)
  note re = retired_slot [OF arena p refl, of t, simplified t, simplified, folded t s']
  have fields: "length (buffers t) = length (buffers s)" "leased_slots t = ls" "leased_count t = l"
    "allocated_count t = a"
    by (simp_all add: t retire_def TrackFreeSlot_def Let_def)
  note kl = keeps_live_leases [OF re(3)] keeps_live_set [OF re(3)]
  have leased_t: "leased_set t = leased_set s - {p}"
    using ls(2) fields by (simp add: leased_set_def)
  have "live_set t - leased_set t = live_set s - leased_set s - {p}"
    using re(4) leased_t by auto
  moreover have "leased_set t \<subseteq> live_set t"
    using ok re(4) leased_t by (auto simp: IOArena_ok_def)
  ultimately show ?thesis
    using re kl fields leased_t ls(1) counts
    by (simp add: IOArena_ok_def keeps_live_def)
qed

lemma IOArena_Free_ok:
  assumes ok: "IOArena_ok s" and p: "p \<in> live_set s" "p \<notin> leased_set s"
  shows "\<exists>s'. IOArena_Free p s = (Inr (), s') \<and> IOArena_ok s' \<and> live_set s' = live_set s - {p} \<and>
    leased_set s' = leased_set s \<and> live_map s' = (live_map s)(p := None) \<and>
    peak_allocated_size s' = peak_allocated_size s \<and>
    (\<forall>j \<in> live_set s - {p}. buffers s' ! j = buffers s ! j)"
proof -
  let ?s1 = "retire p s"
  let ?t = "?s1\<lparr>allocated_count := allocated_count ?s1 - 1\<rparr>"
  have f: "allocated_count ?s1 = allocated_count s" "leased_count ?s1 = leased_count s"
    "leased_slots ?s1 = leased_slots s"
    by (simp_all add: retire_def TrackFreeSlot_def Let_def)
  have "IOArena_ok (snd (EnforceRetentionCap ?t)) \<and> live_set (snd (EnforceRetentionCap ?t)) = live_set s - {p} \<and>
    leased_set (snd (EnforceRetentionCap ?t)) = leased_set s - {p} \<and>
    live_map (snd (EnforceRetentionCap ?t)) = (live_map s)(p := None) \<and>
    peak_allocated_size (snd (EnforceRetentionCap ?t)) = peak_allocated_size s \<and>
    (\<forall>j \<in> live_set s - {p}. buffers (snd (EnforceRetentionCap ?t)) ! j = buffers s ! j)"
  proof (rule IOArena_return [OF ok p(1) _ refl])
    show "?t = ?s1\<lparr>allocated_count := allocated_count s - 1, leased_count := leased_count s,
        leased_slots := leased_slots s\<rparr>"
      by (simp add: f flip: f(2,3))
  qed (use ok p in \<open>auto simp: IOArena_ok_def leased_set_def\<close>)
  moreover have "\<not> leased_slots s ! p" using p by (auto simp: live_set_def leased_set_def)
  ultimately show ?thesis using p by (simp add: IOArena_Free_def Let_def is_live_iff)
qed

lemma IOArena_Free_refused:
  "IOArena_ok s \<Longrightarrow> p \<notin> live_set s \<or> p \<in> leased_set s \<Longrightarrow> IOArena_Free p s = (Inl InvalidArgument, s)"
  by (auto simp: IOArena_Free_def is_live_iff leased_set_def)

lemma IOArena_ReturnLease_ok:
  assumes ok: "IOArena_ok s" and p: "p \<in> leased_set s"
  shows "\<exists>s'. IOArena_ReturnLease p s = Inr s' \<and> IOArena_ok s' \<and> live_set s' = live_set s - {p} \<and>
    leased_set s' = leased_set s - {p} \<and> live_map s' = (live_map s)(p := None) \<and>
    peak_allocated_size s' = peak_allocated_size s \<and>
    (\<forall>j \<in> live_set s - {p}. buffers s' ! j = buffers s ! j)"
proof -
  let ?s1 = "retire p s"
  let ?t = "?s1\<lparr>leased_count := leased_count ?s1 - 1, leased_slots := (leased_slots ?s1)[p := False]\<rparr>"
  have f: "allocated_count ?s1 = allocated_count s" "leased_count ?s1 = leased_count s"
    "leased_slots ?s1 = leased_slots s"
    by (simp_all add: retire_def TrackFreeSlot_def Let_def)
  have live: "p \<in> live_set s" and len: "p < length (buffers s)"
    using ok p by (auto simp: IOArena_ok_def leased_set_def)
  have eq: "live_set s - leased_set s - {p} = live_set s - leased_set s" using p by auto
  have "IOArena_ok (snd (EnforceRetentionCap ?t)) \<and> live_set (snd (EnforceRetentionCap ?t)) = live_set s - {p} \<and>
    leased_set (snd (EnforceRetentionCap ?t)) = leased_set s - {p} \<and>
    live_map (snd (EnforceRetentionCap ?t)) = (live_map s)(p := None) \<and>
    peak_allocated_size (snd (EnforceRetentionCap ?t)) = peak_allocated_size s \<and>
    (\<forall>j \<in> live_set s - {p}. buffers (snd (EnforceRetentionCap ?t)) ! j = buffers s ! j)"
  proof (rule IOArena_return [OF ok live _ refl])
    show "?t = ?s1\<lparr>allocated_count := allocated_count s, leased_count := leased_count s - 1,
        leased_slots := (leased_slots s)[p := False]\<rparr>"
      by (simp add: f flip: f(1))
    show "{i. i < length (buffers s) \<and> (leased_slots s)[p := False] ! i} = leased_set s - {p}"
      using ok len by (auto simp: IOArena_ok_def leased_set_def nth_list_update split: if_splits)
  qed (use ok p eq in \<open>auto simp: IOArena_ok_def\<close>)
  then show ?thesis using len by (simp add: IOArena_ReturnLease_def Let_def)
qed

lemma IOArena_Export_ok:
  assumes ok: "IOArena_ok s" and p: "p \<in> live_set s" "p \<notin> leased_set s"
  shows "\<exists>s'. IOArena_Export p s = (Inr (size_of s p), s') \<and> IOArena_ok s' \<and> live_set s' = live_set s \<and>
    leased_set s' = insert p (leased_set s) \<and> live_map s' = live_map s \<and> buffers s' = buffers s \<and>
    peak_allocated_size s' = peak_allocated_size s"
proof -
  let ?s = "s\<lparr>leased_slots := (leased_slots s)[p := True], allocated_count := allocated_count s - 1,
    leased_count := leased_count s + 1\<rparr>"
  have len: "p < length (buffers s)" using p by (simp add: live_set_def)
  have leased: "leased_set ?s = insert p (leased_set s)"
    using ok len by (auto simp: IOArena_ok_def leased_set_def nth_list_update split: if_splits)
  have same: "live_set ?s = live_set s" "idle_set ?s = idle_set s" "live_map ?s = live_map s"
    by (auto simp: live_set_def idle_set_def live_map_def fun_eq_iff)
  have "arena_ok ?s"
    using ok same by (simp add: IOArena_ok_def arena_ok_def slots_but_def counters_ok_def
        live_bytes_def retained_bytes_def)
  moreover have "card (live_set s - insert p (leased_set s)) = card (live_set s - leased_set s) - 1"
  proof -
    have "live_set s - insert p (leased_set s) = live_set s - leased_set s - {p}" by auto
    with p show ?thesis by simp
  qed
  ultimately have "IOArena_ok ?s"
    using ok leased same p by (simp add: IOArena_ok_def within_cap_def)
  moreover have "\<not> leased_slots s ! p" using p by (auto simp: live_set_def leased_set_def)
  ultimately show ?thesis using p leased same by (simp add: IOArena_Export_def is_live_iff)
qed

lemma IOArena_Export_refused:
  "IOArena_ok s \<Longrightarrow> p \<notin> live_set s \<or> p \<in> leased_set s \<Longrightarrow> IOArena_Export p s = (Inl InvalidArgument, s)"
  by (auto simp: IOArena_Export_def is_live_iff leased_set_def)

section \<open>The interface\<close>

lemma IOArena_ResetPeak_ok:
  "IOArena_ok s \<Longrightarrow> IOArena_ok (ResetPeak s)" "leased_set (ResetPeak s) = leased_set s"
proof -
  show leased: "leased_set (ResetPeak s) = leased_set s" by (simp add: leased_set_def ResetPeak_def)
  show "IOArena_ok s \<Longrightarrow> IOArena_ok (ResetPeak s)"
    using ResetPeak_ok [of s] by (simp add: IOArena_ok_def leased) (simp add: ResetPeak_def)
qed

interpretation io: leasing_allocator "IOArena_Allocate realloc" IOArena_Free
    total_allocated_size peak_allocated_size ResetPeak
    "\<lambda>s. IOArena_ok s \<and> reallocates realloc" live_map leased_set IOArena_Export IOArena_ReturnLease
    for realloc
proof unfold_locales
  fix s n p s'
  assume "IOArena_ok s \<and> reallocates realloc" "IOArena_Allocate realloc n s = (Inr p, s')"
  then show "(IOArena_ok s' \<and> reallocates realloc) \<and> p \<notin> dom (live_map s) \<and>
      live_map s' = (live_map s)(p \<mapsto> n) \<and> leased_set s' = leased_set s \<and>
      peak_allocated_size s' = max (peak_allocated_size s) (total_allocated_size s')"
    using IOArena_Allocate_Inr [of s realloc n p s'] by simp
next
  fix s n e s'
  assume "IOArena_ok s \<and> reallocates realloc" "IOArena_Allocate realloc n s = (Inl e, s')"
  then show "e = BadAlloc \<and> (IOArena_ok s' \<and> reallocates realloc) \<and> live_map s' = live_map s \<and>
      leased_set s' = leased_set s \<and> peak_allocated_size s' = peak_allocated_size s"
    using IOArena_Allocate_Inl by blast
next
  fix s p
  assume "IOArena_ok s \<and> reallocates realloc" "p \<in> dom (live_map s)" "p \<notin> leased_set s"
  then show "\<exists>s'. IOArena_Free p s = (Inr (), s') \<and> (IOArena_ok s' \<and> reallocates realloc) \<and>
      live_map s' = (live_map s)(p := None) \<and> leased_set s' = leased_set s \<and>
      peak_allocated_size s' = peak_allocated_size s"
    using IOArena_Free_ok [of s p] by auto
next
  fix s p
  assume "IOArena_ok s \<and> reallocates realloc" "p \<notin> dom (live_map s) \<or> p \<in> leased_set s"
  then show "IOArena_Free p s = (Inl InvalidArgument, s)"
    by (intro IOArena_Free_refused) auto
next
  fix s
  assume "IOArena_ok s \<and> reallocates realloc"
  then show "(IOArena_ok (ResetPeak s) \<and> reallocates realloc) \<and> live_map (ResetPeak s) = live_map s \<and>
      leased_set (ResetPeak s) = leased_set s \<and> peak_allocated_size (ResetPeak s) = total_allocated_size s"
    using ResetPeak_ok [of s] IOArena_ResetPeak_ok [of s] by simp (simp add: ResetPeak_def)
next
  fix s p n
  assume "IOArena_ok s \<and> reallocates realloc" "live_map s p = Some n" "p \<notin> leased_set s"
  then show "\<exists>s'. IOArena_Export p s = (Inr n, s') \<and> (IOArena_ok s' \<and> reallocates realloc) \<and>
      live_map s' = live_map s \<and> leased_set s' = insert p (leased_set s)"
    using IOArena_Export_ok [of s p] by (auto simp: live_map_def split: if_splits)
next
  fix s p
  assume "IOArena_ok s \<and> reallocates realloc" "p \<notin> dom (live_map s) \<or> p \<in> leased_set s"
  then show "IOArena_Export p s = (Inl InvalidArgument, s)"
    by (intro IOArena_Export_refused) auto
next
  fix s p
  assume "IOArena_ok s \<and> reallocates realloc" "p \<in> leased_set s"
  then show "\<exists>s'. IOArena_ReturnLease p s = Inr s' \<and> (IOArena_ok s' \<and> reallocates realloc) \<and>
      live_map s' = (live_map s)(p := None) \<and> leased_set s' = leased_set s - {p}"
    using IOArena_ReturnLease_ok [of s p] by auto
qed (auto simp: IOArena_ok_def arena_held_bytes arena_ok_def counters_ok_def)

lemma IOArena_SetRetentionCap_ok:
  assumes "IOArena_ok s"
  shows "IOArena_ok (IOArena_SetRetentionCap c s)" "live_set (IOArena_SetRetentionCap c s) = live_set s"
    "leased_set (IOArena_SetRetentionCap c s) = leased_set s"
    "\<forall>j \<in> live_set s. buffers (IOArena_SetRetentionCap c s) ! j = buffers s ! j"
proof -
  let ?s = "s\<lparr>retention_cap := c\<rparr>"
  have "arena_ok s" using assms by (simp add: IOArena_ok_def)
  note sr = SetRetentionCap_ok [OF this, of c]
  note kl = keeps_live_leases [OF sr(3)] keeps_live_set [OF sr(3)]
  show live: "live_set (IOArena_SetRetentionCap c s) = live_set s"
    and leased: "leased_set (IOArena_SetRetentionCap c s) = leased_set s"
    using kl with_cap_ok(3) [of c s] by (simp_all add: IOArena_SetRetentionCap_def leased_set_def)
  show "\<forall>j \<in> live_set s. buffers (IOArena_SetRetentionCap c s) ! j = buffers s ! j"
    using sr(3) with_cap_ok(3) [of c s] by (simp add: IOArena_SetRetentionCap_def keeps_live_def)
  show "IOArena_ok (IOArena_SetRetentionCap c s)"
    using assms sr kl live leased by (simp add: IOArena_ok_def IOArena_SetRetentionCap_def keeps_live_def)
qed

lemma IOArena_Trim_ok:
  assumes "IOArena_ok s" "IOArena_Trim s = (r, s')"
  shows "IOArena_ok s'" "live_set s' = live_set s" "leased_set s' = leased_set s"
    "\<forall>j \<in> live_set s. buffers s' ! j = buffers s ! j"
proof -
  have "arena_ok s" using assms(1) by (simp add: IOArena_ok_def)
  note tr = Trim_ok [OF this, of r s', folded IOArena_Trim_def, OF assms(2)]
  note kl = keeps_live_leases [OF tr(2)] keeps_live_set [OF tr(2)]
  show "live_set s' = live_set s" "leased_set s' = leased_set s" using kl by simp_all
  show "\<forall>j \<in> live_set s. buffers s' ! j = buffers s ! j" using tr(2) by (simp add: keeps_live_def)
  show "IOArena_ok s'" using assms(1) tr kl by (simp add: IOArena_ok_def within_cap_def keeps_live_def)
qed

end
