(* ===== verification/IOLease.thy ===== *)
theory IOLease
  imports IOArena
begin

text \<open>
  The owners of the buffers of an \<open>IOArena\<close>: \<open>IOLease\<close> of \<open>onnx_core/compute/raw_buffer_allocator.cc\<close> and
  \<open>AllocationHandle\<close> of \<open>onnx_core/runtime/memory/simple_tensor.cc\<close>, for handles whose owner is one arena.
  A world holds the arena, the addresses its client owns itself, and the leases and handles that
  exist; the step relation runs their operations in any order.
\<close>

section \<open>Leases\<close>

text \<open>\<open>lease_arena\<close> tells that the shared pointer \<open>arena_\<close> is not null.\<close>

record IOLease =
  lease_arena :: bool
  lease_buffer :: "nat option"
  lease_size :: nat

definition empty_lease :: IOLease where
  "empty_lease = \<lparr>lease_arena = False, lease_buffer = None, lease_size = 0\<rparr>"

definition new_IOLease :: "nat \<Rightarrow> nat \<Rightarrow> IOLease" where
  "new_IOLease buf n = \<lparr>lease_arena = True, lease_buffer = Some buf, lease_size = n\<rparr>"

definition IOLease_Reset :: "IOLease \<Rightarrow> io_arena \<Rightarrow> (IOLease \<times> io_arena) res" where
  "IOLease_Reset l s = (case lease_buffer l of
     None \<Rightarrow> Inr (l, s)
   | Some buf \<Rightarrow>
       if \<not> lease_arena l then Inl Undefined
       else bindR (IOArena_ReturnLease buf s) (\<lambda>s'. Inr (empty_lease, s')))"

text \<open>Move construction: the new lease, and what is left of the other one.\<close>

definition IOLease_move :: "IOLease \<Rightarrow> IOLease \<times> IOLease" where
  "IOLease_move other = (other, other\<lparr>lease_arena := False, lease_buffer := None, lease_size := 0\<rparr>)"

text \<open>Move assignment between two distinct leases; assigning a lease to itself changes nothing.\<close>

definition IOLease_assign :: "IOLease \<Rightarrow> IOLease \<Rightarrow> io_arena \<Rightarrow> (IOLease \<times> IOLease \<times> io_arena) res" where
  "IOLease_assign this other s =
     bindR (IOLease_Reset this s) (\<lambda>(_, s'). case IOLease_move other of (l, other') \<Rightarrow> Inr (l, other', s'))"

section \<open>Handles\<close>

record AllocationHandle =
  handle_owner :: bool
  handle_buffer :: "nat option"
  handle_size :: nat
  handle_capacity :: nat
  handle_lease :: "IOLease option"

definition empty_handle :: AllocationHandle where
  "empty_handle = \<lparr>handle_owner = False, handle_buffer = None, handle_size = 0, handle_capacity = 0,
     handle_lease = None\<rparr>"

definition AllocationHandle_of_buffer :: "nat option \<Rightarrow> io_arena \<Rightarrow> AllocationHandle res" where
  "AllocationHandle_of_buffer buf s = (case buf of
     None \<Rightarrow> Inl (RuntimeError ''`buffer != nullptr` failed. [onnx-light] AllocationHandle: buffer must not be null.'')
   | Some p \<Rightarrow> Inr \<lparr>handle_owner = True, handle_buffer = Some p, handle_size = size_of s p,
       handle_capacity = capacity_of s p, handle_lease = None\<rparr>)"

definition AllocationHandle_of_lease :: "IOLease \<Rightarrow> io_arena \<Rightarrow> AllocationHandle res" where
  "AllocationHandle_of_lease l s = (case lease_buffer l of
     None \<Rightarrow> Inl (RuntimeError ''`static_cast<bool>(lease)` failed. [onnx-light] AllocationHandle: lease must pin an allocation.'')
   | Some p \<Rightarrow> Inr \<lparr>handle_owner = True, handle_buffer = Some p, handle_size = lease_size l,
       handle_capacity = capacity_of s p, handle_lease = Some l\<rparr>)"

definition holds_lease :: "AllocationHandle \<Rightarrow> bool" where
  "holds_lease h \<longleftrightarrow> handle_lease h \<noteq> None"

definition AllocationHandle_move :: "AllocationHandle \<Rightarrow> AllocationHandle \<times> AllocationHandle" where
  "AllocationHandle_move other = (other, other\<lparr>handle_owner := False, handle_buffer := None,
     handle_size := 0, handle_capacity := 0, handle_lease := None\<rparr>)"

definition AllocationHandle_Release ::
  "AllocationHandle \<Rightarrow> io_arena \<Rightarrow> (nat option \<times> AllocationHandle \<times> io_arena) res" where
  "AllocationHandle_Release h s = (case handle_lease h of
     None \<Rightarrow> Inr (handle_buffer h, empty_handle, s)
   | Some l \<Rightarrow> bindR (IOLease_Reset l s) (\<lambda>(_, s'). Inr (None, empty_handle, s')))"

text \<open>\<open>Reset\<close> is \<open>noexcept\<close>: an exception of \<open>Free\<close> ends the program, which is its error here.\<close>

definition AllocationHandle_Reset ::
  "AllocationHandle \<Rightarrow> io_arena \<Rightarrow> (AllocationHandle \<times> io_arena) res" where
  "AllocationHandle_Reset h s = (case handle_lease h of
     Some l \<Rightarrow> bindR (IOLease_Reset l s) (\<lambda>(_, s'). Inr (empty_handle, s'))
   | None \<Rightarrow>
       (case handle_buffer h of
          None \<Rightarrow> Inr (empty_handle, s)
        | Some p \<Rightarrow>
            if \<not> handle_owner h then Inl Undefined
            else case IOArena_Free p s of (out, s') \<Rightarrow> bindR out (\<lambda>_. Inr (empty_handle, s'))))"

definition AllocationHandle_assign ::
  "AllocationHandle \<Rightarrow> AllocationHandle \<Rightarrow> io_arena \<Rightarrow> (AllocationHandle \<times> AllocationHandle \<times> io_arena) res" where
  "AllocationHandle_assign this other s =
     bindR (AllocationHandle_Reset this s)
       (\<lambda>(_, s'). case AllocationHandle_move other of (h, other') \<Rightarrow> Inr (h, other', s'))"

text \<open>The two overloads of \<open>IOArena::ExportHandle\<close>; the second also returns what is left of its argument.\<close>

definition IOArena_ExportHandle :: "nat \<Rightarrow> io_arena \<Rightarrow> AllocationHandle res \<times> io_arena" where
  "IOArena_ExportHandle buf s = (case IOArena_Export buf s of
     (out, s') \<Rightarrow> (bindR out (\<lambda>n. AllocationHandle_of_lease (new_IOLease buf n) s'), s'))"

definition IOArena_ExportHandle_move ::
  "AllocationHandle \<Rightarrow> io_arena \<Rightarrow> (AllocationHandle \<times> AllocationHandle) res \<times> io_arena" where
  "IOArena_ExportHandle_move h s = (case handle_buffer h of
     None \<Rightarrow> (Inl InvalidArgument, s)
   | Some buf \<Rightarrow>
       if holds_lease h then (Inl InvalidArgument, s)
       else case IOArena_Export buf s of
         (Inl e, s') \<Rightarrow> (Inl e, s')
       | (Inr n, s') \<Rightarrow>
           (bindR (AllocationHandle_Release h s') (\<lambda>(_, h', s''). 
              bindR (AllocationHandle_of_lease (new_IOLease buf n) s'') (\<lambda>r. Inr (r, h'))), s'))"

section \<open>Worlds\<close>

record world =
  arena_of :: io_arena
  raw :: "nat set"
  leases :: "IOLease list"
  handles :: "AllocationHandle list"

definition new_world :: "nat \<Rightarrow> nat \<Rightarrow> world" where
  "new_world n cap = \<lparr>arena_of = new_IOArena n cap, raw = {}, leases = [], handles = []\<rparr>"

text \<open>
  A step runs one operation to its normal end.  The client passes only addresses it owns to \<open>Free\<close>,
  \<open>Export\<close> and the constructor of a handle, as the interface demands.
\<close>

inductive io_step :: "realloc_policy \<Rightarrow> world \<Rightarrow> world \<Rightarrow> bool" for realloc where
  allocate: "IOArena_Allocate realloc n (arena_of w) = (Inr p, s) \<Longrightarrow>
    io_step realloc w (w\<lparr>arena_of := s, raw := insert p (raw w)\<rparr>)"
| free: "p \<in> raw w \<Longrightarrow> IOArena_Free p (arena_of w) = (Inr (), s) \<Longrightarrow>
    io_step realloc w (w\<lparr>arena_of := s, raw := raw w - {p}\<rparr>)"
| adopt: "p \<in> raw w \<Longrightarrow> AllocationHandle_of_buffer (Some p) (arena_of w) = Inr h \<Longrightarrow>
    io_step realloc w (w\<lparr>raw := raw w - {p}, handles := handles w @ [h]\<rparr>)"
| export: "p \<in> raw w \<Longrightarrow> IOArena_Export p (arena_of w) = (Inr n, s) \<Longrightarrow>
    io_step realloc w (w\<lparr>arena_of := s, raw := raw w - {p}, leases := leases w @ [new_IOLease p n]\<rparr>)"
| export_raw: "p \<in> raw w \<Longrightarrow> IOArena_ExportHandle p (arena_of w) = (Inr h, s) \<Longrightarrow>
    io_step realloc w (w\<lparr>arena_of := s, raw := raw w - {p}, handles := handles w @ [h]\<rparr>)"
| export_handle: "k < length (handles w) \<Longrightarrow>
    IOArena_ExportHandle_move (handles w ! k) (arena_of w) = (Inr (h, h'), s) \<Longrightarrow>
    io_step realloc w (w\<lparr>arena_of := s, handles := (handles w)[k := h'] @ [h]\<rparr>)"
| reset_lease: "k < length (leases w) \<Longrightarrow> IOLease_Reset (leases w ! k) (arena_of w) = Inr (l, s) \<Longrightarrow>
    io_step realloc w (w\<lparr>arena_of := s, leases := (leases w)[k := l]\<rparr>)"
| move_lease: "k < length (leases w) \<Longrightarrow> IOLease_move (leases w ! k) = (l, l') \<Longrightarrow>
    io_step realloc w (w\<lparr>leases := (leases w)[k := l'] @ [l]\<rparr>)"
| assign_lease: "j < length (leases w) \<Longrightarrow> k < length (leases w) \<Longrightarrow> j \<noteq> k \<Longrightarrow>
    IOLease_assign (leases w ! j) (leases w ! k) (arena_of w) = Inr (l, l', s) \<Longrightarrow>
    io_step realloc w (w\<lparr>arena_of := s, leases := (leases w)[j := l, k := l']\<rparr>)"
| reset_handle: "k < length (handles w) \<Longrightarrow> AllocationHandle_Reset (handles w ! k) (arena_of w) = Inr (h, s) \<Longrightarrow>
    io_step realloc w (w\<lparr>arena_of := s, handles := (handles w)[k := h]\<rparr>)"
| release_handle: "k < length (handles w) \<Longrightarrow>
    AllocationHandle_Release (handles w ! k) (arena_of w) = Inr (b, h, s) \<Longrightarrow>
    io_step realloc w (w\<lparr>arena_of := s, handles := (handles w)[k := h], raw := raw w \<union> set_option b\<rparr>)"
| move_handle: "k < length (handles w) \<Longrightarrow> AllocationHandle_move (handles w ! k) = (h, h') \<Longrightarrow>
    io_step realloc w (w\<lparr>handles := (handles w)[k := h'] @ [h]\<rparr>)"
| assign_handle: "j < length (handles w) \<Longrightarrow> k < length (handles w) \<Longrightarrow> j \<noteq> k \<Longrightarrow>
    AllocationHandle_assign (handles w ! j) (handles w ! k) (arena_of w) = Inr (h, h', s) \<Longrightarrow>
    io_step realloc w (w\<lparr>arena_of := s, handles := (handles w)[j := h, k := h']\<rparr>)"
| set_cap: "io_step realloc w (w\<lparr>arena_of := IOArena_SetRetentionCap c (arena_of w)\<rparr>)"
| trim: "IOArena_Trim (arena_of w) = (r, s) \<Longrightarrow> io_step realloc w (w\<lparr>arena_of := s\<rparr>)"
| reset_peak: "io_step realloc w (w\<lparr>arena_of := ResetPeak (arena_of w)\<rparr>)"

inductive io_reachable :: "realloc_policy \<Rightarrow> world \<Rightarrow> bool" for realloc where
  start: "io_reachable realloc (new_world n cap)"
| step: "io_reachable realloc w \<Longrightarrow> io_step realloc w w' \<Longrightarrow> io_reachable realloc w'"

section \<open>Ownership\<close>

text \<open>The buffers an owner stands for, as multisets: pinned ones and the others.\<close>

definition the_buffer :: "nat option \<Rightarrow> nat multiset" where
  "the_buffer b = (case b of None \<Rightarrow> {#} | Some p \<Rightarrow> {#p#})"

definition pinned_by :: "AllocationHandle \<Rightarrow> nat multiset" where
  "pinned_by h = (case handle_lease h of None \<Rightarrow> {#} | Some l \<Rightarrow> the_buffer (lease_buffer l))"

definition owned_by :: "AllocationHandle \<Rightarrow> nat multiset" where
  "owned_by h = (case handle_lease h of None \<Rightarrow> the_buffer (handle_buffer h) | Some l \<Rightarrow> {#})"

definition plain_owners :: "world \<Rightarrow> nat multiset" where
  "plain_owners w = mset_set (raw w) + sum_list (map owned_by (handles w))"

definition pinned_owners :: "world \<Rightarrow> nat multiset" where
  "pinned_owners w = sum_list (map (\<lambda>l. the_buffer (lease_buffer l)) (leases w)) +
     sum_list (map pinned_by (handles w))"

text \<open>A lease and a handle describe the buffer they own.\<close>

definition lease_fits :: "io_arena \<Rightarrow> IOLease \<Rightarrow> bool" where
  "lease_fits s l \<longleftrightarrow> (\<forall>p. lease_buffer l = Some p \<longrightarrow> lease_arena l \<and> p \<in> leased_set s \<and> lease_size l = size_of s p)"

definition handle_fits :: "io_arena \<Rightarrow> AllocationHandle \<Rightarrow> bool" where
  "handle_fits s h \<longleftrightarrow>
     (\<forall>p. handle_buffer h = Some p \<longrightarrow>
        handle_owner h \<and> p \<in> live_set s \<and> handle_size h = size_of s p \<and> handle_capacity h = capacity_of s p) \<and>
     (\<forall>l. handle_lease h = Some l \<longrightarrow> lease_fits s l \<and> lease_buffer l = handle_buffer h \<and> handle_buffer h \<noteq> None)"

definition io_inv :: "world \<Rightarrow> bool" where
  "io_inv w \<longleftrightarrow> (let s = arena_of w in
     IOArena_ok s \<and> finite (raw w) \<and>
     plain_owners w = mset_set (live_set s - leased_set s) \<and>
     pinned_owners w = mset_set (leased_set s) \<and>
     (\<forall>l \<in> set (leases w). lease_fits s l) \<and> (\<forall>h \<in> set (handles w). handle_fits s h))"

section \<open>The ownership invariant\<close>

lemma the_buffer_simps [simp]: "the_buffer None = {#}" "the_buffer (Some p) = {#p#}"
  by (simp_all add: the_buffer_def)

lemma owner_simps [simp]:
  "pinned_by empty_handle = {#}" "owned_by empty_handle = {#}" "handle_fits s empty_handle"
  "lease_buffer empty_lease = None" "lease_fits s empty_lease"
  by (simp_all add: pinned_by_def owned_by_def empty_handle_def handle_fits_def empty_lease_def lease_fits_def)

lemma sum_list_update_eq:
  "k < length xs \<Longrightarrow> sum_list (map f (xs[k := y])) + f (xs ! k) = sum_list (map f xs) + f y"
  for f :: "'a \<Rightarrow> nat multiset"
proof (induction xs arbitrary: k)
  case (Cons x xs)
  then show ?case by (cases k) (auto simp: ac_simps)
qed simp

lemma io_invD:
  assumes "io_inv w"
  shows "IOArena_ok (arena_of w)" "finite (raw w)"
    "plain_owners w = mset_set (live_set (arena_of w) - leased_set (arena_of w))"
    "pinned_owners w = mset_set (leased_set (arena_of w))"
    "\<And>l. l \<in> set (leases w) \<Longrightarrow> lease_fits (arena_of w) l"
    "\<And>h. h \<in> set (handles w) \<Longrightarrow> handle_fits (arena_of w) h"
  using assms by (simp_all add: io_inv_def Let_def)

lemma lease_fits_arena:
  "lease_fits s l \<Longrightarrow> (\<And>p. lease_buffer l = Some p \<Longrightarrow> p \<in> leased_set s' \<and> buffers s' ! p = buffers s ! p) \<Longrightarrow>
   lease_fits s' l"
  by (auto simp: lease_fits_def)

lemma handle_fits_arena:
  "handle_fits s h \<Longrightarrow> (\<And>p. handle_buffer h = Some p \<Longrightarrow> p \<in> live_set s' \<and> buffers s' ! p = buffers s ! p) \<Longrightarrow>
   (\<And>p l. handle_buffer h = Some p \<Longrightarrow> handle_lease h = Some l \<Longrightarrow> p \<in> leased_set s') \<Longrightarrow>
   handle_fits s' h"
  by (auto simp: handle_fits_def lease_fits_def)

text \<open>
  A new world keeps the invariant when the equations of the owners hold and only returned buffers
  changed; entries kept from the old world still fit.
\<close>

lemma io_inv_step:
  assumes inv: "io_inv w" and ok: "IOArena_ok s'" and w': "arena_of w' = s'" "finite (raw w')"
    and same: "\<forall>j \<in> live_set (arena_of w) \<inter> live_set s'. buffers s' ! j = buffers (arena_of w) ! j"
    and plain: "plain_owners w' = mset_set (live_set s' - leased_set s')"
    and pinned: "pinned_owners w' = mset_set (leased_set s')"
    and ls: "\<forall>l \<in> set (leases w'). l \<in> set (leases w) \<or> lease_fits s' l"
    and hs: "\<forall>h \<in> set (handles w'). h \<in> set (handles w) \<or> handle_fits s' h"
  shows "io_inv w'"
proof -
  let ?s = "arena_of w"
  have sub: "leased_set ?s \<subseteq> live_set ?s" "leased_set s' \<subseteq> live_set s'"
    using inv ok by (simp_all add: io_inv_def Let_def IOArena_ok_def)
  have "lease_fits s' l" if l: "l \<in> set (leases w')" for l
  proof (cases "lease_fits s' l")
    case False
    with ls l have old: "l \<in> set (leases w)" by auto
    with inv have fits: "lease_fits ?s l" by (simp add: io_inv_def Let_def)
    show ?thesis
    proof (rule lease_fits_arena [OF fits])
      fix p assume p: "lease_buffer l = Some p"
      then have "p \<in># the_buffer (lease_buffer l)" by simp
      with l have "p \<in># pinned_owners w'" by (auto simp: pinned_owners_def)
      then have "p \<in> leased_set s'" by (simp add: pinned)
      moreover have "p \<in> leased_set ?s" using fits p by (simp add: lease_fits_def)
      ultimately show "p \<in> leased_set s' \<and> buffers s' ! p = buffers ?s ! p" using same sub by auto
    qed
  qed
  moreover have "handle_fits s' h" if h: "h \<in> set (handles w')" for h
  proof (cases "handle_fits s' h")
    case False
    with hs h have "h \<in> set (handles w)" by auto
    with inv have fits: "handle_fits ?s h" by (simp add: io_inv_def Let_def)
    have pin: "p \<in> leased_set s'" if "handle_buffer h = Some p" "handle_lease h = Some l" for p l
    proof -
      have "p \<in># pinned_by h" using fits that by (auto simp: handle_fits_def pinned_by_def)
      with h have "p \<in># pinned_owners w'" by (auto simp: pinned_owners_def)
      then show ?thesis by (simp add: pinned)
    qed
    show ?thesis
    proof (rule handle_fits_arena [OF fits])
      fix p assume p: "handle_buffer h = Some p"
      have "p \<in> live_set s'"
      proof (cases "handle_lease h")
        case None
        with p have "p \<in># owned_by h" by (simp add: owned_by_def)
        with h have "p \<in># plain_owners w'" by (auto simp: plain_owners_def)
        then show ?thesis by (simp add: plain)
      qed (use pin p sub in auto)
      moreover have "p \<in> live_set ?s" using fits p by (simp add: handle_fits_def)
      ultimately show "p \<in> live_set s' \<and> buffers s' ! p = buffers ?s ! p" using same by auto
    qed (rule pin)
  qed
  ultimately show ?thesis using ok w' plain pinned by (simp add: io_inv_def Let_def)
qed

lemma new_world_inv [simp]: "io_inv (new_world n cap)"
  by (simp add: io_inv_def new_world_def plain_owners_def pinned_owners_def)

text \<open>An owner that has an address owns a buffer of the arena.\<close>

lemma raw_live:
  assumes "io_inv w" "p \<in> raw w"
  shows "p \<in> live_set (arena_of w)" "p \<notin> leased_set (arena_of w)"
proof -
  have "p \<in># plain_owners w"
    using assms(2) io_invD(2) [OF assms(1)] by (simp add: plain_owners_def)
  then have "p \<in># mset_set (live_set (arena_of w) - leased_set (arena_of w))"
    by (simp only: io_invD(3) [OF assms(1)])
  then show "p \<in> live_set (arena_of w)" "p \<notin> leased_set (arena_of w)" by simp_all
qed

lemma lease_leased:
  assumes "io_inv w" "k < length (leases w)" "lease_buffer (leases w ! k) = Some p"
  shows "p \<in> leased_set (arena_of w)" "lease_arena (leases w ! k)"
  using assms by (auto simp: io_inv_def Let_def lease_fits_def)

lemma handle_live:
  assumes "io_inv w" "k < length (handles w)"
  shows "handle_fits (arena_of w) (handles w ! k)"
    "handle_lease (handles w ! k) = None \<Longrightarrow> handle_buffer (handles w ! k) = Some p \<Longrightarrow>
       p \<in> live_set (arena_of w) \<and> p \<notin> leased_set (arena_of w)"
proof -
  show "handle_fits (arena_of w) (handles w ! k)" using assms by (simp add: io_inv_def Let_def)
  assume "handle_lease (handles w ! k) = None" "handle_buffer (handles w ! k) = Some p"
  then have "p \<in># owned_by (handles w ! k)" by (simp add: owned_by_def)
  moreover have "handles w ! k \<in> set (handles w)" using assms(2) by simp
  ultimately have "p \<in># plain_owners w" unfolding plain_owners_def by auto
  then have "p \<in># mset_set (live_set (arena_of w) - leased_set (arena_of w))"
    by (simp only: io_invD(3) [OF assms(1)])
  then show "p \<in> live_set (arena_of w) \<and> p \<notin> leased_set (arena_of w)" by simp
qed

text \<open>The five ways a step changes the owners.\<close>

lemma io_inv_same:
  assumes inv: "io_inv w" and ok: "IOArena_ok (arena_of w')" and fin: "finite (raw w')"
    and sets: "live_set (arena_of w') = live_set (arena_of w)" "leased_set (arena_of w') = leased_set (arena_of w)"
    and same: "\<forall>j \<in> live_set (arena_of w). buffers (arena_of w') ! j = buffers (arena_of w) ! j"
    and owners: "plain_owners w' = plain_owners w" "pinned_owners w' = pinned_owners w"
    and ls: "\<forall>l \<in> set (leases w'). l \<in> set (leases w) \<or> lease_fits (arena_of w') l"
    and hs: "\<forall>h \<in> set (handles w'). h \<in> set (handles w) \<or> handle_fits (arena_of w') h"
  shows "io_inv w'"
  by (rule io_inv_step [OF inv ok refl fin _ _ _ ls hs])
     (use same owners sets io_invD(3,4) [OF inv] in simp_all)

lemma io_inv_free:
  assumes inv: "io_inv w" and p: "p \<in> live_set (arena_of w)" "p \<notin> leased_set (arena_of w)"
    and free: "IOArena_Free p (arena_of w) = (Inr (), s')" and w': "arena_of w' = s'" "finite (raw w')"
    and owners: "plain_owners w = add_mset p (plain_owners w')" "pinned_owners w' = pinned_owners w"
    and ls: "\<forall>l \<in> set (leases w'). l \<in> set (leases w) \<or> lease_fits s' l"
    and hs: "\<forall>h \<in> set (handles w'). h \<in> set (handles w) \<or> handle_fits s' h"
  shows "io_inv w'"
proof -
  let ?s = "arena_of w"
  have s': "IOArena_ok s'" "live_set s' = live_set ?s - {p}" "leased_set s' = leased_set ?s"
    "\<forall>j \<in> live_set ?s - {p}. buffers s' ! j = buffers ?s ! j"
    using IOArena_Free_ok [OF io_invD(1) [OF inv] p] free by auto
  have "live_set ?s - leased_set ?s = insert p (live_set s' - leased_set s')"
    using p s'(2,3) by auto
  then have "mset_set (live_set ?s - leased_set ?s) = add_mset p (mset_set (live_set s' - leased_set s'))"
    using s'(2) by simp
  with owners io_invD(3) [OF inv] have "plain_owners w' = mset_set (live_set s' - leased_set s')" by simp
  moreover have "pinned_owners w' = mset_set (leased_set s')"
    using owners io_invD(4) [OF inv] s'(3) by simp
  ultimately show ?thesis
    using io_inv_step [OF inv s'(1) w' _ _ _ ls hs] s'(2,4) by auto
qed

lemma io_inv_return:
  assumes inv: "io_inv w" and p: "p \<in> leased_set (arena_of w)"
    and return: "IOArena_ReturnLease p (arena_of w) = Inr s'" and w': "arena_of w' = s'" "finite (raw w')"
    and owners: "plain_owners w' = plain_owners w" "pinned_owners w = add_mset p (pinned_owners w')"
    and ls: "\<forall>l \<in> set (leases w'). l \<in> set (leases w) \<or> lease_fits s' l"
    and hs: "\<forall>h \<in> set (handles w'). h \<in> set (handles w) \<or> handle_fits s' h"
  shows "io_inv w'"
proof -
  let ?s = "arena_of w"
  have s': "IOArena_ok s'" "live_set s' = live_set ?s - {p}" "leased_set s' = leased_set ?s - {p}"
    "\<forall>j \<in> live_set ?s - {p}. buffers s' ! j = buffers ?s ! j"
    using IOArena_ReturnLease_ok [OF io_invD(1) [OF inv] p] return by auto
  have "mset_set (leased_set ?s) = add_mset p (mset_set (leased_set s'))"
    unfolding s'(3) by (rule mset_set.remove [OF finite_leased p])
  with owners io_invD(4) [OF inv] have "pinned_owners w' = mset_set (leased_set s')" by simp
  moreover have "live_set s' - leased_set s' = live_set ?s - leased_set ?s" using p s'(2,3) by auto
  with owners io_invD(3) [OF inv] have "plain_owners w' = mset_set (live_set s' - leased_set s')" by simp
  ultimately show ?thesis
    using io_inv_step [OF inv s'(1) w' _ _ _ ls hs] s'(2,4) by auto
qed

lemma io_inv_export:
  assumes inv: "io_inv w" and p: "p \<in> live_set (arena_of w)" "p \<notin> leased_set (arena_of w)"
    and export: "IOArena_Export p (arena_of w) = (Inr n, s')" and w': "arena_of w' = s'" "finite (raw w')"
    and owners: "plain_owners w = add_mset p (plain_owners w')" "pinned_owners w' = add_mset p (pinned_owners w)"
    and ls: "\<forall>l \<in> set (leases w'). l \<in> set (leases w) \<or> lease_fits s' l"
    and hs: "\<forall>h \<in> set (handles w'). h \<in> set (handles w) \<or> handle_fits s' h"
  shows "io_inv w'"
proof -
  let ?s = "arena_of w"
  have s': "IOArena_ok s'" "live_set s' = live_set ?s" "leased_set s' = insert p (leased_set ?s)"
    "buffers s' = buffers ?s"
    using IOArena_Export_ok [OF io_invD(1) [OF inv] p] export by auto
  have "live_set ?s - leased_set ?s = insert p (live_set s' - leased_set s')"
    using p s'(2,3) by auto
  then have "mset_set (live_set ?s - leased_set ?s) = add_mset p (mset_set (live_set s' - leased_set s'))"
    using s'(3) by simp
  with owners io_invD(3) [OF inv] have "plain_owners w' = mset_set (live_set s' - leased_set s')" by simp
  moreover have "pinned_owners w' = mset_set (leased_set s')"
    using owners io_invD(4) [OF inv] s'(3) p by simp
  ultimately show ?thesis
    using io_inv_step [OF inv s'(1) w' _ _ _ ls hs] s'(4) by auto
qed

lemma io_inv_allocate:
  assumes inv: "io_inv w" and a: "IOArena_Allocate realloc n (arena_of w) = (Inr p, s')"
    and r: "reallocates realloc"
  shows "io_inv (w\<lparr>arena_of := s', raw := insert p (raw w)\<rparr>)"
proof -
  let ?s = "arena_of w"
  note al = IOArena_Allocate_Inr [OF io_invD(1) [OF inv] a r]
  have sub: "leased_set ?s \<subseteq> live_set ?s" using io_invD(1) [OF inv] by (simp add: IOArena_ok_def)
  have new: "p \<notin> raw w" using raw_live(1) [OF inv] al(2) by auto
  have sets: "live_set s' - leased_set s' = insert p (live_set ?s - leased_set ?s)"
    using al(2,3,4) sub by auto
  show ?thesis
  proof (rule io_inv_step [OF inv al(1)])
    show "plain_owners (w\<lparr>arena_of := s', raw := insert p (raw w)\<rparr>) = mset_set (live_set s' - leased_set s')"
      unfolding sets using io_invD(2,3) [OF inv] new al(2) by (simp add: plain_owners_def)
  qed (use io_invD(2,4) [OF inv] al in \<open>auto simp: pinned_owners_def\<close>)
qed

section \<open>Every step keeps the invariant\<close>

text \<open>The owners of a list of entries of which one or two change.\<close>

lemma owners_update:
  fixes f :: "'a \<Rightarrow> nat multiset"
  assumes "k < length xs" "f (xs ! k) = add_mset p (f y)"
  shows "sum_list (map f xs) = add_mset p (sum_list (map f (xs[k := y])))"
  using sum_list_update_eq [OF assms(1), of f y] assms(2) by simp

lemma owners_swap:
  fixes f :: "'a \<Rightarrow> nat multiset"
  assumes "j < length xs" "k < length xs" "j \<noteq> k" "f y' = {#}" "f y = f (xs ! k)"
  shows "sum_list (map f xs) = sum_list (map f (xs[j := y, k := y'])) + f (xs ! j)"
proof -
  have "sum_list (map f (xs[j := y])) + f (xs ! j) = sum_list (map f xs) + f y"
    by (rule sum_list_update_eq [OF assms(1)])
  moreover have "sum_list (map f (xs[j := y, k := y'])) + f y = sum_list (map f (xs[j := y]))"
    using sum_list_update_eq [of k "xs[j := y]" f y'] assms by simp
  ultimately have "sum_list (map f (xs[j := y, k := y'])) + f (xs ! j) + f y = sum_list (map f xs) + f y"
    by (metis add.assoc add.commute)
  then show ?thesis by (simp only: add_right_cancel)
qed

lemma owners_move:
  fixes f :: "'a \<Rightarrow> nat multiset"
  assumes "k < length xs" "f y' = {#}" "f y = f (xs ! k)"
  shows "sum_list (map f (xs[k := y'] @ [y])) = sum_list (map f xs)"
  using sum_list_update_eq [OF assms(1), of f y'] assms by simp

lemma owners_keep:
  fixes f :: "'a \<Rightarrow> nat multiset"
  assumes "k < length xs" "f y = f (xs ! k)"
  shows "sum_list (map f (xs[k := y])) = sum_list (map f xs)"
  using sum_list_update_eq [OF assms(1), of f y] assms(2) by simp

text \<open>What a lease operation does: nothing to the arena, or the return of its buffer.\<close>

lemma IOLease_Reset_cases:
  assumes "IOLease_Reset l s = Inr (l', s')"
  obtains (empty) "lease_buffer l = None" "l' = l" "s' = s"
  | (return) p where "lease_buffer l = Some p" "l' = empty_lease" "IOArena_ReturnLease p s = Inr s'"
  using assms by (auto simp: IOLease_Reset_def split: option.splits if_splits)

lemma IOLease_assign_cases:
  assumes "IOLease_assign this other s = Inr (l, l', s')"
  obtains l0 where "IOLease_Reset this s = Inr (l0, s')" "IOLease_move other = (l, l')"
  using assms unfolding IOLease_assign_def bindR_def
  by (cases "IOLease_Reset this s"; cases "IOLease_move other") (auto split: prod.splits)

lemma IOLease_move_eq:
  "IOLease_move l = (l', l'') \<Longrightarrow> l' = l \<and> lease_buffer l'' = None \<and> lease_fits s l''"
  by (auto simp: IOLease_move_def lease_fits_def)

lemma AllocationHandle_move_eq:
  "AllocationHandle_move h = (h', h'') \<Longrightarrow>
   h' = h \<and> handle_lease h'' = None \<and> handle_buffer h'' = None \<and> handle_fits s h''"
  by (auto simp: AllocationHandle_move_def handle_fits_def)

lemma AllocationHandle_Reset_cases:
  assumes "AllocationHandle_Reset h s = Inr (h', s')" "handle_fits s h"
  obtains (empty) "handle_buffer h = None" "handle_lease h = None" "h' = empty_handle" "s' = s"
  | (plain) p where "handle_buffer h = Some p" "handle_lease h = None" "h' = empty_handle"
      "IOArena_Free p s = (Inr (), s')"
  | (pinned) p l where "handle_buffer h = Some p" "handle_lease h = Some l" "lease_buffer l = Some p"
      "h' = empty_handle" "IOArena_ReturnLease p s = Inr s'"
  using assms
  by (auto simp: AllocationHandle_Reset_def IOLease_Reset_def handle_fits_def
      split: option.splits if_splits prod.splits)

lemma free_effect:
  assumes "IOArena_ok s" "p \<in> live_set s" "p \<notin> leased_set s" "IOArena_Free p s = (Inr (), s')"
  shows "live_set s' = live_set s - {p}"
  using IOArena_Free_ok [OF assms(1-3)] assms(4) by auto

lemma reset_lease_step:
  assumes inv: "io_inv w" and k: "k < length (leases w)"
    and r: "IOLease_Reset (leases w ! k) (arena_of w) = Inr (l, s)"
  shows "io_inv (w\<lparr>arena_of := s, leases := (leases w)[k := l]\<rparr>)"
  using r
proof (cases rule: IOLease_Reset_cases)
  case empty
  with inv show ?thesis by simp
next
  case (return p)
  show ?thesis
  proof (rule io_inv_return [OF inv lease_leased(1) [OF inv k return(1)] return(3)])
    show "pinned_owners w = add_mset p (pinned_owners (w\<lparr>arena_of := s, leases := (leases w)[k := l]\<rparr>))"
      using owners_update [OF k, of "\<lambda>l. the_buffer (lease_buffer l)" p l] return by (simp add: pinned_owners_def)
  qed (use io_invD(2) [OF inv] return in \<open>auto simp: plain_owners_def dest: set_update_subset_insert [THEN subsetD]\<close>)
qed

lemma move_lease_step:
  assumes inv: "io_inv w" and k: "k < length (leases w)" and m: "IOLease_move (leases w ! k) = (l, l')"
  shows "io_inv (w\<lparr>leases := (leases w)[k := l'] @ [l]\<rparr>)"
proof (rule io_inv_same [OF inv])
  note mv = IOLease_move_eq [OF m, of "arena_of w"]
  show "pinned_owners (w\<lparr>leases := (leases w)[k := l'] @ [l]\<rparr>) = pinned_owners w"
    using owners_move [OF k, of "\<lambda>l. the_buffer (lease_buffer l)" l' l] mv by (simp add: pinned_owners_def)
  show "\<forall>x \<in> set (leases (w\<lparr>leases := (leases w)[k := l'] @ [l]\<rparr>)).
      x \<in> set (leases w) \<or> lease_fits (arena_of (w\<lparr>leases := (leases w)[k := l'] @ [l]\<rparr>)) x"
    using mv k by (auto dest: set_update_subset_insert [THEN subsetD])
qed (use io_invD(1,2) [OF inv] in \<open>auto simp: plain_owners_def\<close>)

lemma two_updates:
  "x \<in> set (xs[j := y, k := z]) \<Longrightarrow> x \<in> set xs \<or> x = y \<or> x = z"
  by (metis insertE set_update_subset_insert subsetD)

lemma assign_lease_step:
  assumes inv: "io_inv w" and jk: "j < length (leases w)" "k < length (leases w)" "j \<noteq> k"
    and a: "IOLease_assign (leases w ! j) (leases w ! k) (arena_of w) = Inr (l, l', s)"
  shows "io_inv (w\<lparr>arena_of := s, leases := (leases w)[j := l, k := l']\<rparr>)"
proof -
  let ?f = "\<lambda>l. the_buffer (lease_buffer l)" and ?w = "w\<lparr>arena_of := s, leases := (leases w)[j := l, k := l']\<rparr>"
  from a obtain l0 where r: "IOLease_Reset (leases w ! j) (arena_of w) = Inr (l0, s)"
    and m: "IOLease_move (leases w ! k) = (l, l')"
    by (rule IOLease_assign_cases)
  note mv = IOLease_move_eq [OF m, of s]
  have sum: "sum_list (map ?f (leases w)) = sum_list (map ?f ((leases w)[j := l, k := l'])) + ?f (leases w ! j)"
    by (rule owners_swap [OF jk]) (use mv in simp_all)
  have new: "\<forall>x \<in> set (leases ?w). x \<in> set (leases w) \<or> lease_fits s x"
    using mv jk(2) by (auto dest!: two_updates)
  have plain: "plain_owners ?w = plain_owners w" by (simp add: plain_owners_def)
  from r show ?thesis
  proof (cases rule: IOLease_Reset_cases)
    case empty
    have "pinned_owners ?w = pinned_owners w" using sum empty(1) by (simp add: pinned_owners_def)
    then show ?thesis
      using new plain io_invD(1,2) [OF inv] unfolding empty(3) by (intro io_inv_same [OF inv]) simp_all
  next
    case (return p)
    have "pinned_owners w = add_mset p (pinned_owners ?w)" using sum return(1) by (simp add: pinned_owners_def)
    with plain new show ?thesis
      by (intro io_inv_return [OF inv lease_leased(1) [OF inv jk(1) return(1)] return(3)])
         (use io_invD(2) [OF inv] in simp_all)
  qed
qed

lemma reset_handle_step:
  assumes inv: "io_inv w" and k: "k < length (handles w)"
    and r: "AllocationHandle_Reset (handles w ! k) (arena_of w) = Inr (h, s)"
  shows "io_inv (w\<lparr>arena_of := s, handles := (handles w)[k := h]\<rparr>)"
proof -
  let ?w = "w\<lparr>arena_of := s, handles := (handles w)[k := h]\<rparr>"
  note fits = handle_live(1) [OF inv k]
  have new: "\<forall>x \<in> set (handles ?w). x \<in> set (handles w) \<or> handle_fits s x" if "h = empty_handle"
    using that by (auto dest!: set_update_subset_insert [THEN subsetD])
  from r fits show ?thesis
  proof (cases rule: AllocationHandle_Reset_cases)
    case empty
    show ?thesis
      by (rule io_inv_same [OF inv])
         (use io_invD(1,2) [OF inv] empty new owners_keep [OF k, of owned_by h] owners_keep [OF k, of pinned_by h]
          in \<open>auto simp: plain_owners_def pinned_owners_def owned_by_def pinned_by_def empty_handle_def\<close>)
  next
    case (plain p)
    note p = handle_live(2) [OF inv k plain(2,1)]
    have "owned_by (handles w ! k) = add_mset p (owned_by h)" "pinned_by h = pinned_by (handles w ! k)"
      using plain by (simp_all add: owned_by_def pinned_by_def empty_handle_def)
    then show ?thesis
      by (intro io_inv_free [OF inv conjunct1 [OF p] conjunct2 [OF p] plain(4)])
         (use io_invD(2) [OF inv] plain new owners_update [OF k, of owned_by p h] owners_keep [OF k, of pinned_by h]
          in \<open>auto simp: plain_owners_def pinned_owners_def\<close>)
  next
    case (pinned p l)
    have p: "p \<in> leased_set (arena_of w)" using fits pinned by (auto simp: handle_fits_def lease_fits_def)
    have "pinned_by (handles w ! k) = add_mset p (pinned_by h)" "owned_by h = owned_by (handles w ! k)"
      using pinned by (simp_all add: owned_by_def pinned_by_def empty_handle_def)
    then show ?thesis
      by (intro io_inv_return [OF inv p pinned(5)])
         (use io_invD(2) [OF inv] pinned new owners_update [OF k, of pinned_by p h] owners_keep [OF k, of owned_by h]
          in \<open>auto simp: plain_owners_def pinned_owners_def\<close>)
  qed
qed

lemma AllocationHandle_assign_cases:
  assumes "AllocationHandle_assign this other s = Inr (h, h', s')"
  obtains h0 where "AllocationHandle_Reset this s = Inr (h0, s')" "AllocationHandle_move other = (h, h')"
  using assms unfolding AllocationHandle_assign_def bindR_def
  by (cases "AllocationHandle_Reset this s"; cases "AllocationHandle_move other") (auto split: prod.splits)

lemma handle_owners_move:
  assumes "AllocationHandle_move h = (h', h'')"
  shows "owned_by h'' = {#}" "pinned_by h'' = {#}" "h' = h"
  using AllocationHandle_move_eq [OF assms] by (simp_all add: owned_by_def pinned_by_def)

lemma move_handle_step:
  assumes inv: "io_inv w" and k: "k < length (handles w)" and m: "AllocationHandle_move (handles w ! k) = (h, h')"
  shows "io_inv (w\<lparr>handles := (handles w)[k := h'] @ [h]\<rparr>)"
proof (rule io_inv_same [OF inv])
  note own = handle_owners_move [OF m]
  show "plain_owners (w\<lparr>handles := (handles w)[k := h'] @ [h]\<rparr>) = plain_owners w"
    "pinned_owners (w\<lparr>handles := (handles w)[k := h'] @ [h]\<rparr>) = pinned_owners w"
    using owners_move [OF k, of owned_by h' h] owners_move [OF k, of pinned_by h' h] own
    by (simp_all add: plain_owners_def pinned_owners_def)
  show "\<forall>x \<in> set (handles (w\<lparr>handles := (handles w)[k := h'] @ [h]\<rparr>)).
      x \<in> set (handles w) \<or> handle_fits (arena_of (w\<lparr>handles := (handles w)[k := h'] @ [h]\<rparr>)) x"
    using AllocationHandle_move_eq [OF m] k by (auto dest: set_update_subset_insert [THEN subsetD])
qed (use io_invD(1,2) [OF inv] in simp_all)

lemma assign_handle_step:
  assumes inv: "io_inv w" and jk: "j < length (handles w)" "k < length (handles w)" "j \<noteq> k"
    and a: "AllocationHandle_assign (handles w ! j) (handles w ! k) (arena_of w) = Inr (h, h', s)"
  shows "io_inv (w\<lparr>arena_of := s, handles := (handles w)[j := h, k := h']\<rparr>)"
proof -
  let ?w = "w\<lparr>arena_of := s, handles := (handles w)[j := h, k := h']\<rparr>"
  from a obtain h0 where r: "AllocationHandle_Reset (handles w ! j) (arena_of w) = Inr (h0, s)"
    and m: "AllocationHandle_move (handles w ! k) = (h, h')"
    by (rule AllocationHandle_assign_cases)
  note own = handle_owners_move [OF m] and fits = handle_live(1) [OF inv jk(1)]
  have plain: "plain_owners w = plain_owners ?w + owned_by (handles w ! j)"
    using owners_swap [OF jk, of owned_by h' h] own by (simp add: plain_owners_def)
  have pinned: "pinned_owners w = pinned_owners ?w + pinned_by (handles w ! j)"
    using owners_swap [OF jk, of pinned_by h' h] own by (simp add: pinned_owners_def)
  have new: "\<forall>x \<in> set (handles ?w). x \<in> set (handles w) \<or> handle_fits s x"
    using AllocationHandle_move_eq [OF m, of s] jk(2) by (auto dest!: two_updates)
  from r fits show ?thesis
  proof (cases rule: AllocationHandle_Reset_cases)
    case empty
    then have "owned_by (handles w ! j) = {#}" "pinned_by (handles w ! j) = {#}"
      by (simp_all add: owned_by_def pinned_by_def)
    with plain pinned new io_invD(1,2) [OF inv] empty(4) show ?thesis
      by (intro io_inv_same [OF inv]) simp_all
  next
    case (plain p)
    note p = handle_live(2) [OF inv jk(1) plain(2,1)]
    from plain have "owned_by (handles w ! j) = {#p#}" "pinned_by (handles w ! j) = {#}"
      by (simp_all add: owned_by_def pinned_by_def)
    with \<open>plain_owners w = _\<close> pinned new io_invD(2) [OF inv] show ?thesis
      by (intro io_inv_free [OF inv conjunct1 [OF p] conjunct2 [OF p] plain(4)]) simp_all
  next
    case (pinned p l)
    have p: "p \<in> leased_set (arena_of w)" using fits pinned by (auto simp: handle_fits_def lease_fits_def)
    from pinned have "owned_by (handles w ! j) = {#}" "pinned_by (handles w ! j) = {#p#}"
      by (simp_all add: owned_by_def pinned_by_def)
    with \<open>pinned_owners w = _\<close> plain new io_invD(2) [OF inv] show ?thesis
      by (intro io_inv_return [OF inv p pinned(5)]) simp_all
  qed
qed

lemma release_handle_step:
  assumes inv: "io_inv w" and k: "k < length (handles w)"
    and r: "AllocationHandle_Release (handles w ! k) (arena_of w) = Inr (b, h, s)"
  shows "io_inv (w\<lparr>arena_of := s, handles := (handles w)[k := h], raw := raw w \<union> set_option b\<rparr>)"
    (is "io_inv ?w")
proof (cases "handle_lease (handles w ! k)")
  case (Some l)
  then have "AllocationHandle_Reset (handles w ! k) (arena_of w) = Inr (h, s)" "b = None"
    using r by (auto simp: AllocationHandle_Release_def AllocationHandle_Reset_def)
  then show ?thesis using reset_handle_step [OF inv k] by simp
next
  case None
  then have eq: "h = empty_handle" "b = handle_buffer (handles w ! k)" "s = arena_of w"
    using r by (auto simp: AllocationHandle_Release_def)
  have "owned_by (handles w ! k) = the_buffer b" "pinned_by (handles w ! k) = {#}"
    using None eq by (simp_all add: owned_by_def pinned_by_def)
  moreover have "mset_set (raw w \<union> set_option b) = mset_set (raw w) + the_buffer b"
  proof (cases b)
    case (Some p)
    have "p \<notin> raw w"
    proof
      assume "p \<in> raw w"
      then have "count (mset_set (raw w)) p = 1" using io_invD(2) [OF inv] by simp
      moreover have "sum_list (map owned_by (handles w)) =
          add_mset p (sum_list (map owned_by ((handles w)[k := empty_handle])))"
        using owners_update [OF k, of owned_by p empty_handle] \<open>owned_by (handles w ! k) = _\<close> Some by simp
      moreover have "count (plain_owners w) p \<le> 1"
        unfolding io_invD(3) [OF inv] by (simp add: count_mset_set')
      ultimately show False by (simp add: plain_owners_def)
    qed
    with Some show ?thesis using io_invD(2) [OF inv] by simp
  qed simp
  ultimately have "plain_owners ?w = plain_owners w" "pinned_owners ?w = pinned_owners w"
    using sum_list_update_eq [OF k, of owned_by h] owners_keep [OF k, of pinned_by h] eq(1)
    by (simp_all add: plain_owners_def pinned_owners_def add.commute)
  moreover have "\<forall>x \<in> set (handles ?w). x \<in> set (handles w) \<or> handle_fits s x"
    using eq(1) by (auto dest!: set_update_subset_insert [THEN subsetD])
  ultimately show ?thesis
    using io_invD(1,2) [OF inv] eq(3) by (intro io_inv_same [OF inv]) simp_all
qed

lemma export_gives_lease:
  assumes inv: "io_inv w" and p: "p \<in> live_set (arena_of w)" "p \<notin> leased_set (arena_of w)"
    and x: "IOArena_Export p (arena_of w) = (Inr n, s)"
  shows "lease_fits s (new_IOLease p n)" "n = size_of s p" "p \<in> leased_set s" "p \<in> live_set s"
proof -
  show "n = size_of s p" "p \<in> leased_set s" "p \<in> live_set s"
    using IOArena_Export_ok [OF io_invD(1) [OF inv] p] x p by auto
  then show "lease_fits s (new_IOLease p n)" by (simp add: lease_fits_def new_IOLease_def)
qed

lemma handle_of_lease:
  assumes "lease_fits s (new_IOLease p n)" "p \<in> live_set s"
    "AllocationHandle_of_lease (new_IOLease p n) s = Inr h"
  shows "handle_fits s h" "owned_by h = {#}" "pinned_by h = {#p#}"
  using assms
  by (auto simp: AllocationHandle_of_lease_def new_IOLease_def handle_fits_def lease_fits_def
      owned_by_def pinned_by_def)

lemma raw_remove: "io_inv w \<Longrightarrow> p \<in> raw w \<Longrightarrow> mset_set (raw w) = add_mset p (mset_set (raw w - {p}))"
  by (rule mset_set.remove) (simp_all add: io_invD)

lemma free_step:
  assumes inv: "io_inv w" and p: "p \<in> raw w" and f: "IOArena_Free p (arena_of w) = (Inr (), s)"
  shows "io_inv (w\<lparr>arena_of := s, raw := raw w - {p}\<rparr>)"
  by (rule io_inv_free [OF inv raw_live [OF inv p] f])
     (use io_invD(2) [OF inv] raw_remove [OF inv p] in \<open>simp_all add: plain_owners_def pinned_owners_def\<close>)

lemma adopt_step:
  assumes inv: "io_inv w" and p: "p \<in> raw w" and h: "AllocationHandle_of_buffer (Some p) (arena_of w) = Inr h"
  shows "io_inv (w\<lparr>raw := raw w - {p}, handles := handles w @ [h]\<rparr>)"
proof (rule io_inv_same [OF inv])
  have "owned_by h = {#p#}" "pinned_by h = {#}" "handle_fits (arena_of w) h"
    using h raw_live [OF inv p]
    by (auto simp: AllocationHandle_of_buffer_def owned_by_def pinned_by_def handle_fits_def)
  then show "plain_owners (w\<lparr>raw := raw w - {p}, handles := handles w @ [h]\<rparr>) = plain_owners w"
    "pinned_owners (w\<lparr>raw := raw w - {p}, handles := handles w @ [h]\<rparr>) = pinned_owners w"
    "\<forall>x \<in> set (handles (w\<lparr>raw := raw w - {p}, handles := handles w @ [h]\<rparr>)).
      x \<in> set (handles w) \<or> handle_fits (arena_of (w\<lparr>raw := raw w - {p}, handles := handles w @ [h]\<rparr>)) x"
    using raw_remove [OF inv p] by (simp_all add: plain_owners_def pinned_owners_def)
qed (use io_invD(1,2) [OF inv] in simp_all)

lemma export_step:
  assumes inv: "io_inv w" and p: "p \<in> raw w" and x: "IOArena_Export p (arena_of w) = (Inr n, s)"
  shows "io_inv (w\<lparr>arena_of := s, raw := raw w - {p}, leases := leases w @ [new_IOLease p n]\<rparr>)"
  by (rule io_inv_export [OF inv raw_live [OF inv p] x])
     (use io_invD(2) [OF inv] raw_remove [OF inv p] export_gives_lease(1) [OF inv raw_live [OF inv p] x]
      in \<open>auto simp: plain_owners_def pinned_owners_def new_IOLease_def\<close>)

lemma export_raw_step:
  assumes inv: "io_inv w" and p: "p \<in> raw w" and x: "IOArena_ExportHandle p (arena_of w) = (Inr h, s)"
  shows "io_inv (w\<lparr>arena_of := s, raw := raw w - {p}, handles := handles w @ [h]\<rparr>)"
proof -
  from x obtain n where e: "IOArena_Export p (arena_of w) = (Inr n, s)"
    and h: "AllocationHandle_of_lease (new_IOLease p n) s = Inr h"
    by (auto simp: IOArena_ExportHandle_def split: prod.splits)
  note gl = export_gives_lease [OF inv raw_live [OF inv p] e]
  note hl = handle_of_lease [OF gl(1,4) h]
  show ?thesis
    by (rule io_inv_export [OF inv raw_live [OF inv p] e])
       (use io_invD(2) [OF inv] raw_remove [OF inv p] hl in \<open>simp_all add: plain_owners_def pinned_owners_def\<close>)
qed

lemma export_handle_step:
  assumes inv: "io_inv w" and k: "k < length (handles w)"
    and x: "IOArena_ExportHandle_move (handles w ! k) (arena_of w) = (Inr (h, h'), s)"
  shows "io_inv (w\<lparr>arena_of := s, handles := (handles w)[k := h'] @ [h]\<rparr>)" (is "io_inv ?w")
proof -
  from x obtain p n where b: "handle_buffer (handles w ! k) = Some p" and l: "handle_lease (handles w ! k) = None"
    and e: "IOArena_Export p (arena_of w) = (Inr n, s)" and h': "h' = empty_handle"
    and h: "AllocationHandle_of_lease (new_IOLease p n) s = Inr h"
    by (auto simp: IOArena_ExportHandle_move_def holds_lease_def AllocationHandle_Release_def
        split: option.splits if_splits prod.splits sum.splits)
  note p = conjunct1 [OF handle_live(2) [OF inv k l b]] conjunct2 [OF handle_live(2) [OF inv k l b]]
  note gl = export_gives_lease [OF inv p e]
  note hl = handle_of_lease [OF gl(1,4) h]
  have own: "owned_by (handles w ! k) = {#p#}" "pinned_by (handles w ! k) = {#}"
    using l b by (simp_all add: owned_by_def pinned_by_def)
  have "plain_owners w = add_mset p (plain_owners ?w)"
    using owners_update [OF k, of owned_by p h'] own h' hl by (simp add: plain_owners_def)
  moreover have "pinned_owners ?w = add_mset p (pinned_owners w)"
    using owners_keep [OF k, of pinned_by h'] own h' hl by (simp add: pinned_owners_def)
  moreover have "\<forall>x \<in> set (handles ?w). x \<in> set (handles w) \<or> handle_fits s x"
    using h' hl by (auto dest!: set_update_subset_insert [THEN subsetD])
  ultimately show ?thesis
    using io_invD(2) [OF inv] by (intro io_inv_export [OF inv p e]) simp_all
qed

lemma io_step_inv:
  assumes "io_step realloc w w'" "io_inv w" "reallocates realloc"
  shows "io_inv w'"
  using assms
proof (induction rule: io_step.induct)
  case (allocate n w p s)
  then show ?case using io_inv_allocate by blast
next
  case (free p w s)
  then show ?case using free_step by blast
next
  case (set_cap w c)
  note sr = IOArena_SetRetentionCap_ok [OF io_invD(1) [OF set_cap(1)], of c]
  show ?case
    by (rule io_inv_same [OF set_cap(1)])
       (use sr io_invD(2) [OF set_cap(1)] in \<open>simp_all add: plain_owners_def pinned_owners_def\<close>)
next
  case (trim w r s)
  note tr = IOArena_Trim_ok [OF io_invD(1) [OF trim(2)] trim(1)]
  show ?case
    by (rule io_inv_same [OF trim(2)])
       (use tr io_invD(2) [OF trim(2)] in \<open>simp_all add: plain_owners_def pinned_owners_def\<close>)
next
  case (reset_peak w)
  show ?case
    by (rule io_inv_same [OF reset_peak(1)])
       (use IOArena_ResetPeak_ok [of "arena_of w"] ResetPeak_ok(4) [of "arena_of w"] io_invD(1,2) [OF reset_peak(1)]
        in \<open>simp_all add: plain_owners_def pinned_owners_def ResetPeak_def\<close>)
qed (blast intro: adopt_step export_step export_raw_step export_handle_step reset_lease_step move_lease_step
    assign_lease_step reset_handle_step release_handle_step move_handle_step assign_handle_step)+

lemma io_reachable_inv: "io_reachable realloc w \<Longrightarrow> reallocates realloc \<Longrightarrow> io_inv w"
  by (induction rule: io_reachable.induct) (auto intro: io_step_inv)

end
