(* ===== verification/Allocators.thy ===== *)
theory Allocators
  imports SimpleAllocator IOLease
begin

text \<open>
  The properties of the buffer allocators: what a client of the interface can rely on, the retention
  policy of the arenas, the ownership of exported buffers, and what a failed allocation leaves
  behind.
\<close>

section \<open>The interface\<close>

definition empty_pool :: pool where
  "empty_pool = \<lparr>held = Map.empty, pins = {}, pool_peak = 0\<rparr>"

definition serve_simple :: "realloc_policy \<Rightarrow> request list \<Rightarrow> SimpleRawBufferAllocator \<Rightarrow>
    nat res list \<times> SimpleRawBufferAllocator" where
  "serve_simple realloc = serve_all (Simple_Allocate realloc) Simple_Free Simple_ResetPeak"

definition serve_exec :: "realloc_policy \<Rightarrow> request list \<Rightarrow> arena \<Rightarrow> nat res list \<times> arena" where
  "serve_exec realloc = serve_all (ExecutionArena_Allocate realloc) ExecutionArena_Free ResetPeak"

definition serve_io :: "realloc_policy \<Rightarrow> request list \<Rightarrow> io_arena \<Rightarrow> nat res list \<times> io_arena" where
  "serve_io realloc = serve_all (IOArena_Allocate realloc) IOArena_Free ResetPeak"

lemma empty_views:
  "pool_view Simple_live (\<lambda>_. {}) simple_peak (new_SimpleRawBufferAllocator n) = empty_pool"
  "pool_view live_map (\<lambda>_. {}) peak_allocated_size (new_ExecutionArena n c) = empty_pool"
  "pool_view live_map leased_set peak_allocated_size (new_IOArena n c) = empty_pool"
proof -
  show "pool_view Simple_live (\<lambda>_. {}) simple_peak (new_SimpleRawBufferAllocator n) = empty_pool"
    by (simp add: pool_view_def empty_pool_def new_SimpleRawBufferAllocator_def Simple_live_def fun_eq_iff)
  show "pool_view live_map (\<lambda>_. {}) peak_allocated_size (new_ExecutionArena n c) = empty_pool"
    by (simp add: pool_view_def empty_pool_def new_ExecutionArena_def live_map_def live_set_def fun_eq_iff)
  show "pool_view live_map leased_set peak_allocated_size (new_IOArena n c) = empty_pool"
    using new_IOArena_live [of n c]
    by (simp add: pool_view_def empty_pool_def live_map_def fun_eq_iff)
       (simp add: new_IOArena_def new_ExecutionArena_def arena.extend_def)
qed

text \<open>C28: Every allocator implements the abstract pool.  Whatever requests a client makes of a new
  allocator, the answers and the state it ends in are those of a run of the pool: an allocation
  answers a buffer that is not live, with the requested size, or fails and changes nothing live; the
  release of a live buffer succeeds and of anything else is refused; and the byte counters are the
  sum over the live buffers and its maximum.
\<close>

theorem allocators_implement_the_pool:
  assumes r: "reallocates realloc"
  shows "(case serve_simple realloc rs (new_SimpleRawBufferAllocator n) of (outs, s) \<Rightarrow>
      pool_run empty_pool rs outs (pool_view Simple_live (\<lambda>_. {}) simple_peak s) \<and>
      simple_total s = held_bytes (Simple_live s)) \<and>
    (case serve_exec realloc rs (new_ExecutionArena n c) of (outs, s) \<Rightarrow>
      pool_run empty_pool rs outs (pool_view live_map (\<lambda>_. {}) peak_allocated_size s) \<and>
      total_allocated_size s = held_bytes (live_map s)) \<and>
    (case serve_io realloc rs (new_IOArena n c) of (outs, s) \<Rightarrow>
      pool_run empty_pool rs outs (pool_view live_map leased_set peak_allocated_size s) \<and>
      total_allocated_size s = held_bytes (live_map s))"
proof (intro conjI)
  obtain outs s where s: "serve_simple realloc rs (new_SimpleRawBufferAllocator n) = (outs, s)" by fastforce
  with simple.serve_all_refines [of "new_SimpleRawBufferAllocator n" realloc rs outs s] simple.total [of s realloc] r
  show "case serve_simple realloc rs (new_SimpleRawBufferAllocator n) of (outs, s) \<Rightarrow>
      pool_run empty_pool rs outs (pool_view Simple_live (\<lambda>_. {}) simple_peak s) \<and>
      simple_total s = held_bytes (Simple_live s)"
    by (simp add: serve_simple_def empty_views)
next
  obtain outs s where s: "serve_exec realloc rs (new_ExecutionArena n c) = (outs, s)" by fastforce
  with exec.serve_all_refines [of "new_ExecutionArena n c" realloc rs outs s] exec.total [of s realloc] r
  show "case serve_exec realloc rs (new_ExecutionArena n c) of (outs, s) \<Rightarrow>
      pool_run empty_pool rs outs (pool_view live_map (\<lambda>_. {}) peak_allocated_size s) \<and>
      total_allocated_size s = held_bytes (live_map s)"
    by (simp add: serve_exec_def empty_views)
next
  obtain outs s where s: "serve_io realloc rs (new_IOArena n c) = (outs, s)" by fastforce
  with io.serve_all_refines [of "new_IOArena n c" realloc rs outs s] io.total [of s realloc] r
  show "case serve_io realloc rs (new_IOArena n c) of (outs, s) \<Rightarrow>
      pool_run empty_pool rs outs (pool_view live_map leased_set peak_allocated_size s) \<and>
      total_allocated_size s = held_bytes (live_map s)"
    by (simp add: serve_io_def empty_views)
qed

definition exact_fit :: realloc_policy where
  "exact_fit b n = Some n"

lemma exact_fit_reallocates [simp]: "reallocates exact_fit"
  by (simp add: reallocates_def exact_fit_def)

lemma allocators_implement_the_pool_witness:
  "(case serve_io exact_fit [Request 5, Request 3, Release 0] (new_IOArena 1 0) of (outs, s) \<Rightarrow>
     outs = [Inr 0, Inr 1, Inr 0] \<and>
     pool_run empty_pool [Request 5, Request 3, Release 0] outs
       (pool_view live_map leased_set peak_allocated_size s))"
proof -
  have "fst (serve_io exact_fit [Request 5, Request 3, Release 0] (new_IOArena 1 0)) = [Inr 0, Inr 1, Inr 0]"
    by code_simp
  then show ?thesis
    using allocators_implement_the_pool
      [OF exact_fit_reallocates, of "[Request 5, Request 3, Release 0]" 1 0]
    by (auto split: prod.splits)
qed

section \<open>Retention\<close>

lemma retained_of_idle:
  assumes "arena_ok s"
  shows "retained_size s = (\<Sum>i \<in> idle_set s. capacity_of s i)"
proof -
  have sb: "slots_but {#} s" and co: "counters_ok s" using assms by (simp_all add: arena_ok_def)
  have "(\<Sum>i \<in> idle_set s. capacity_of s i) = (\<Sum>i \<in># mset_set (idle_set s). capacity_of s i)"
    by (simp add: sum_unfold_sum_mset)
  also have "\<dots> = (\<Sum>i \<in># mset (unused_slots s). capacity_of s i) + retained_bytes s"
    using sb by (simp add: slots_but_def retained_bytes_def flip: image_mset_union sum_mset.union)
  also have "(\<Sum>i \<in># mset (unused_slots s). capacity_of s i) = 0"
    using sb by (auto simp: slots_but_def simp flip: set_mset_mset)
  finally show ?thesis using co by (simp add: counters_ok_def)
qed

text \<open>C29: In every state an \<open>ExecutionArena\<close> reaches, the capacity kept by the buffers that are not live is
  within the retention cap and is what \<open>RetainedSize\<close> reports; \<open>TotalAllocatedSize\<close> is the sum of the
  sizes of the live buffers and never above the peak; and the slots are split into the live ones, the
  unused ones, which hold no storage, and the retained ones, which the eviction order lists once.
\<close>

theorem arena_states_are_consistent:
  assumes "exec_reachable realloc s" "reallocates realloc"
  shows "(\<Sum>i \<in> idle_set s. capacity_of s i) = retained_size s \<and> retained_size s \<le> retention_cap s \<and>
    total_allocated_size s = (\<Sum>i \<in> live_set s. size_of s i) \<and>
    total_allocated_size s \<le> peak_allocated_size s \<and>
    allocated_count s = card (live_set s) \<and> retained_count s = length (lru_order s) \<and>
    distinct (unused_slots s @ lru_order s) \<and>
    set (unused_slots s @ lru_order s) = {..<ExecutionArena_capacity s} - live_set s \<and>
    (\<forall>i \<in> set (unused_slots s). buffers s ! i = empty_buffer)"
proof -
  have ok: "ExecutionArena_ok s" using exec_reachable_ok assms by blast
  then have sb: "slots_but {#} s" and co: "counters_ok s" and arena: "arena_ok s"
    by (simp_all add: ExecutionArena_ok_def arena_ok_def)
  have "idle_set s = {..<ExecutionArena_capacity s} - live_set s"
    by (auto simp: idle_set_def live_set_def ExecutionArena_capacity_def)
  moreover have "length (lru_order s) = length (slots_of (free_buckets s))"
    using sb by (auto simp: slots_but_def dest: mset_eq_length)
  ultimately show ?thesis
    using slots_but_lists [OF sb] retained_of_idle [OF arena] ok co sb
    by (auto simp: ExecutionArena_ok_def counters_ok_def within_cap_def live_bytes_def slots_but_def)
qed

lemma arena_states_are_consistent_witness:
  "\<exists>s. exec_reachable exact_fit s \<and> lru_order s \<noteq> [] \<and> live_set s \<noteq> {} \<and> retained_size s \<le> retention_cap s"
proof -
  let ?s = "snd (serve_exec exact_fit [Request 5, Request 3, Request 9, Release 0, Release 1] (new_ExecutionArena 3 4))"
  have r: "exec_reachable exact_fit ?s"
    by (simp add: serve_exec_def serve_def split_beta)
       (intro exec_reachable.start exec_reachable.allocate exec_reachable.free)
  have "lru_order ?s = [1]" "live_slots ?s ! 2" "length (buffers ?s) = 3"
    by code_simp+
  then have "lru_order ?s \<noteq> []" "2 \<in> live_set ?s" by (simp_all add: live_set_def)
  then have "lru_order ?s \<noteq> []" "live_set ?s \<noteq> {}" by blast+
  with r arena_states_are_consistent [OF r exact_fit_reallocates] show ?thesis by blast
qed

text \<open>C31: Eviction is least recently freed first, and only as much as the cap demands.  Setting the cap of an
  arena releases the storage of a prefix of \<open>lru_order_\<close>, the shortest one that brings the retained
  capacity within the cap, and touches neither the other retained buffers nor a live one.
\<close>

theorem eviction_is_minimal:
  assumes "exec_reachable realloc s" "reallocates realloc"
    and "s' = ExecutionArena_SetRetentionCap cap s"
  shows "retained_size s' \<le> cap \<and> live_map s' = live_map s \<and>
    (\<forall>i \<in> live_set s. buffers s' ! i = buffers s ! i) \<and>
    (\<exists>k \<le> length (lru_order s). lru_order s' = drop k (lru_order s) \<and>
      (\<forall>i \<in> set (lru_order s'). buffers s' ! i = buffers s ! i) \<and>
      retained_size s = (\<Sum>i \<leftarrow> take k (lru_order s). capacity_of s i) + retained_size s' \<and>
      (\<forall>j < k. retained_size s > cap + (\<Sum>i \<leftarrow> take j (lru_order s). capacity_of s i)))"
proof -
  let ?s = "s\<lparr>retention_cap := cap\<rparr>"
  have "arena_ok s" using exec_reachable_ok [OF assms(1,2)] by (simp add: ExecutionArena_ok_def)
  then have ok: "arena_ok ?s" by (rule with_cap_ok(1))
  obtain e where e: "EnforceRetentionCap ?s = (e, s')"
    using assms(3) by (cases "EnforceRetentionCap ?s") (simp add: ExecutionArena_SetRetentionCap_def SetRetentionCap_def)
  note en = EnforceRetentionCap_ok [OF ok e]
  from en(5) obtain k where "evicts k ?s s'" by blast
  then show ?thesis
    using en(2,3) keeps_live_map [OF en(2)] with_cap_ok(2,3) [of cap s]
    by (auto simp: evicts_def keeps_live_def within_cap_def)
qed

lemma eviction_is_minimal_witness:
  "\<exists>s. exec_reachable exact_fit s \<and> lru_order s = [0, 1] \<and>
    lru_order (ExecutionArena_SetRetentionCap 4 s) = [1] \<and>
    retained_size (ExecutionArena_SetRetentionCap 4 s) \<le> 4"
proof -
  let ?s = "snd (serve_exec exact_fit [Request 5, Request 3, Release 0, Release 1] (new_ExecutionArena 3 100))"
  have r: "exec_reachable exact_fit ?s"
    by (simp add: serve_exec_def serve_def split_beta)
       (intro exec_reachable.start exec_reachable.allocate exec_reachable.free)
  have "lru_order ?s = [0, 1]" "lru_order (ExecutionArena_SetRetentionCap 4 ?s) = [1]"
    by code_simp+
  with r eviction_is_minimal [OF r exact_fit_reallocates refl, of 4] show ?thesis by blast
qed

text \<open>C32: Allocation is best fit and reuses storage.  When a retained buffer of an arena is large enough, an
  allocation succeeds whatever the system does, without growing the buffer it returns: it returns a
  retained buffer that is large enough and as small as any such one.
\<close>

theorem allocation_is_best_fit:
  assumes "exec_reachable realloc s" "reallocates realloc"
    and "j \<in> set (lru_order s)" "n \<le> capacity_of s j"
  shows "\<exists>i s'. ExecutionArena_Allocate any_realloc n s = (Inr i, s') \<and> i \<in> set (lru_order s) \<and>
    n \<le> capacity_of s i \<and> capacity_of s i \<le> capacity_of s j \<and> capacity_of s' i = capacity_of s i"
proof -
  have "arena_ok s" using exec_reachable_ok [OF assms(1,2)] by (simp add: ExecutionArena_ok_def)
  from choose_slot_reuses [OF this assms(3,4), of any_realloc] show ?thesis
    by (auto simp: ExecutionArena_Allocate_def make_live_def Let_def)
qed

lemma allocation_is_best_fit_witness:
  "\<exists>s i s'. exec_reachable exact_fit s \<and> ExecutionArena_Allocate (\<lambda>_ _. None) 3 s = (Inr i, s') \<and>
    3 \<le> capacity_of s i"
proof -
  let ?s = "snd (serve_exec exact_fit [Request 9, Request 4, Release 0, Release 1] (new_ExecutionArena 3 100))"
  have r: "exec_reachable exact_fit ?s"
    by (simp add: serve_exec_def serve_def split_beta)
       (intro exec_reachable.start exec_reachable.allocate exec_reachable.free)
  have "1 \<in> set (lru_order ?s)" "3 \<le> capacity_of ?s 1" by code_simp+
  from allocation_is_best_fit [OF r exact_fit_reallocates this, of "\<lambda>_ _. None"] r show ?thesis by blast
qed

section \<open>Ownership\<close>

lemma lease_reset_total:
  assumes "IOArena_ok s" "lease_fits s l"
  shows "\<exists>l' s'. IOLease_Reset l s = Inr (l', s') \<and> lease_buffer l' = None \<and>
    live_set s' = live_set s - set_option (lease_buffer l)"
proof (cases "lease_buffer l")
  case (Some p)
  with assms(2) have "lease_arena l" "p \<in> leased_set s" by (auto simp: lease_fits_def)
  with IOArena_ReturnLease_ok [OF assms(1) this(2)] Some show ?thesis
    by (auto simp: IOLease_Reset_def)
qed (simp add: IOLease_Reset_def)

lemma handle_reset_total:
  assumes "io_inv w" "k < length (handles w)"
  shows "\<exists>h' s'. AllocationHandle_Reset (handles w ! k) (arena_of w) = Inr (h', s') \<and> h' = empty_handle \<and>
    live_set s' = live_set (arena_of w) - set_option (handle_buffer (handles w ! k))"
proof -
  let ?h = "handles w ! k" and ?s = "arena_of w"
  note fits = handle_live(1) [OF assms]
  have ok: "IOArena_ok ?s" by (rule io_invD(1) [OF assms(1)])
  show ?thesis
  proof (cases "handle_lease ?h")
    case (Some l)
    with fits have l: "lease_fits ?s l" "lease_buffer l = handle_buffer ?h" by (auto simp: handle_fits_def)
    from lease_reset_total [OF ok l(1)] l(2) Some show ?thesis by (auto simp: AllocationHandle_Reset_def)
  next
    case None
    show ?thesis
    proof (cases "handle_buffer ?h")
      case (Some p)
      note p = handle_live(2) [OF assms None Some]
      have "handle_owner ?h" using fits Some by (simp add: handle_fits_def)
      with IOArena_Free_ok [OF ok conjunct1 [OF p] conjunct2 [OF p]] None Some show ?thesis
        by (auto simp: AllocationHandle_Reset_def)
    qed (use None in \<open>simp add: AllocationHandle_Reset_def\<close>)
  qed
qed

text \<open>C27: Every live buffer of an \<open>IOArena\<close> has exactly one owner.  After any sequence of allocations,
  releases, exports, moves, assignments and resets of leases and handles, in any order, the
  addresses owned by the client, the leases and the handles are the live buffers, each once; the
  leased ones are those of the leases and of the handles that hold a lease; and each lease and handle
  still describes the size of its buffer.  So no buffer is returned twice, lost, or reused while it
  is owned, and every \<open>Reset\<close> (and so every destructor) returns the buffer it owns without an error.
\<close>

theorem live_buffers_have_one_owner:
  assumes "io_reachable realloc w" "reallocates realloc"
  shows "plain_owners w + pinned_owners w = mset_set (live_set (arena_of w)) \<and>
    pinned_owners w = mset_set (leased_set (arena_of w)) \<and>
    (\<forall>l \<in> set (leases w). lease_fits (arena_of w) l \<and>
       (\<exists>l' s. IOLease_Reset l (arena_of w) = Inr (l', s) \<and> lease_buffer l' = None \<and>
          live_set s = live_set (arena_of w) - set_option (lease_buffer l))) \<and>
    (\<forall>h \<in> set (handles w). handle_fits (arena_of w) h \<and>
       (\<exists>s. AllocationHandle_Reset h (arena_of w) = Inr (empty_handle, s) \<and>
          live_set s = live_set (arena_of w) - set_option (handle_buffer h)))"
proof -
  have inv: "io_inv w" by (rule io_reachable_inv [OF assms])
  have sub: "leased_set (arena_of w) \<subseteq> live_set (arena_of w)"
    using io_invD(1) [OF inv] by (simp add: IOArena_ok_def)
  have "mset_set (live_set (arena_of w)) =
      mset_set (live_set (arena_of w) - leased_set (arena_of w)) + mset_set (leased_set (arena_of w))"
    using sub by (subst mset_set_Union [symmetric]) (auto simp: Un_absorb2)
  moreover have "\<exists>s. AllocationHandle_Reset h (arena_of w) = Inr (empty_handle, s) \<and>
      live_set s = live_set (arena_of w) - set_option (handle_buffer h)" if "h \<in> set (handles w)" for h
    using handle_reset_total [OF inv] that by (metis in_set_conv_nth)
  ultimately show ?thesis
    using io_invD [OF inv] lease_reset_total [OF io_invD(1) [OF inv]] by simp
qed

lemma live_buffers_have_one_owner_witness:
  "\<exists>w. io_reachable exact_fit w \<and> length (leases w) = 1 \<and>
    plain_owners w + pinned_owners w = mset_set (live_set (arena_of w))"
proof -
  let ?s0 = "new_IOArena 1 0"
  let ?s1 = "snd (IOArena_Allocate exact_fit 5 ?s0)"
  let ?s2 = "snd (IOArena_Export 0 ?s1)"
  let ?w1 = "(new_world 1 0)\<lparr>arena_of := ?s1, raw := insert 0 (raw (new_world 1 0))\<rparr>"
  let ?w2 = "?w1\<lparr>arena_of := ?s2, raw := raw ?w1 - {0}, leases := leases ?w1 @ [new_IOLease 0 5]\<rparr>"
  have a: "fst (IOArena_Allocate exact_fit 5 ?s0) = Inr 0" "fst (IOArena_Export 0 ?s1) = Inr 5"
    by code_simp+
  have "io_step exact_fit (new_world 1 0) ?w1"
    by (rule io_step.allocate [where n = 5]) (use a in \<open>simp add: new_world_def prod_eq_iff\<close>)
  moreover have "io_step exact_fit ?w1 ?w2"
    by (rule io_step.export) (use a in \<open>simp_all add: prod_eq_iff\<close>)
  ultimately have r: "io_reachable exact_fit ?w2"
    by (meson io_reachable.start io_reachable.step)
  have "length (leases ?w2) = 1" by (simp add: new_world_def)
  with r live_buffers_have_one_owner [OF r exact_fit_reallocates] show ?thesis by blast
qed

text \<open>C30: An exported buffer is pinned.  Once a live buffer of an \<open>IOArena\<close> in a consistent state is
  exported, no sequence of requests to the arena, releases of its own address included, frees or
  reuses it: it stays live with its size, and its lease can be returned afterwards.
\<close>

theorem exported_buffers_stay:
  assumes "IOArena_ok s" "reallocates realloc" "p \<in> live_set s" "p \<notin> leased_set s"
    and "IOArena_Export p s = (out, s1)" "serve_io realloc rs s1 = (outs, s2)"
  shows "out = Inr (size_of s p) \<and> p \<in> live_set s2 \<and> size_of s2 p = size_of s p \<and>
    (\<exists>s3. IOArena_ReturnLease p s2 = Inr s3 \<and> IOArena_ok s3 \<and> p \<notin> live_set s3)"
proof -
  have "live_map s p = Some (size_of s p)" using assms(3) by (simp add: live_map_def)
  from io.exported_stays [OF _ this assms(4,5) assms(6) [unfolded serve_io_def]] assms(1,2)
  obtain s3 where x: "out = Inr (size_of s p)" "live_map s2 p = Some (size_of s p)"
    "IOArena_ReturnLease p s2 = Inr s3" "IOArena_ok s3" "live_map s3 = (live_map s2)(p := None)" by auto
  have "p \<notin> dom (live_map s3)" unfolding x(5) by simp
  then have "p \<notin> live_set s3" by simp
  with x(1-4) show ?thesis by (auto simp: live_map_def split: if_splits)
qed

lemma exported_buffers_stay_witness:
  "\<exists>s s1 out outs s2. IOArena_Export 0 s = (out, s1) \<and>
     serve_io exact_fit [Release 0, Request 4, Release 1] s1 = (outs, s2) \<and>
     out = Inr 5 \<and> size_of s2 0 = 5"
proof -
  let ?s = "snd (serve_io exact_fit [Request 5] (new_IOArena 1 0))"
  obtain out s1 where s1: "IOArena_Export 0 ?s = (out, s1)" by fastforce
  obtain outs s2 where s2: "serve_io exact_fit [Release 0, Request 4, Release 1] s1 = (outs, s2)" by fastforce
  obtain o1 t where t: "serve_io exact_fit [Request 5] (new_IOArena 1 0) = (o1, t)" by fastforce
  have ok: "IOArena_ok ?s"
    using io.serve_all_refines [of "new_IOArena 1 0" exact_fit "[Request 5]" o1 t] t
    by (simp add: serve_io_def)
  have vals: "length (buffers ?s) = 1" "live_slots ?s ! 0" "\<not> leased_slots ?s ! 0" "size_of ?s 0 = 5"
    by code_simp+
  then have "0 \<in> live_set ?s" "0 \<notin> leased_set ?s" by (simp_all add: live_set_def leased_set_def)
  from exported_buffers_stay [OF ok exact_fit_reallocates this s1 s2] vals(4)
  have "out = Inr 5" "size_of s2 0 = 5" by simp_all
  with s1 s2 show ?thesis by blast
qed

section \<open>Failed allocations\<close>

text \<open>The arenas give the strong guarantee, \<open>SimpleRawBufferAllocator\<close> does not.  An allocation that fails
  leaves both arenas as they were; \<open>SimpleRawBufferAllocator::Allocate\<close> has already popped its slot
  when the memory for it cannot be had, and the slot is lost: a pool of one slot refuses every
  allocation after it, although no buffer is live.
\<close>

theorem failed_allocation_loses_a_slot:
  "fst (Simple_Allocate (\<lambda>_ _. None) 8 (new_SimpleRawBufferAllocator 1)) = Inl BadAlloc \<and>
   simple_count (snd (Simple_Allocate (\<lambda>_ _. None) 8 (new_SimpleRawBufferAllocator 1))) = 0 \<and>
   fst (Simple_Allocate exact_fit 8 (snd (Simple_Allocate (\<lambda>_ _. None) 8 (new_SimpleRawBufferAllocator 1)))) =
     Inl BadAlloc \<and>
   (ExecutionArena_Allocate realloc n s = (Inl BadAlloc, s) \<or> (\<exists>i. fst (ExecutionArena_Allocate realloc n s) = Inr i)) \<and>
   (IOArena_Allocate realloc n t = (Inl BadAlloc, t) \<or> (\<exists>i. fst (IOArena_Allocate realloc n t) = Inr i))"
proof (intro conjI)
  show "ExecutionArena_Allocate realloc n s = (Inl BadAlloc, s) \<or> (\<exists>i. fst (ExecutionArena_Allocate realloc n s) = Inr i)"
    using ExecutionArena_Allocate_Inl [of realloc n s]
    by (cases "ExecutionArena_Allocate realloc n s"; cases "fst (ExecutionArena_Allocate realloc n s)") auto
  show "IOArena_Allocate realloc n t = (Inl BadAlloc, t) \<or> (\<exists>i. fst (IOArena_Allocate realloc n t) = Inr i)"
    using IOArena_Allocate_Inl [of realloc n t]
    by (cases "IOArena_Allocate realloc n t"; cases "fst (IOArena_Allocate realloc n t)") auto
qed (code_simp+)

end
