(* ===== verification/GraphNames.thy ===== *)
theory GraphNames
  imports Prelude
begin

text \<open>
  The names a node reads and a graph defines, from \<open>onnx_core/graph/graph_manipulations.cc\<close>.  Of the
  protobuf messages the fields that the compute layer looks at are kept: a graph is the names of its
  inputs, initializers, outputs and value infos with its nodes, an attribute its type with the
  subgraphs it may hold, and a node its operator, its inputs and outputs, its attributes and its
  metadata.  An empty name stands for an absent optional value.
\<close>

section \<open>Graphs\<close>

datatype attribute_type = GRAPH | GRAPHS | OTHER

datatype graph =
    Graph (graph_input: "string list") (graph_initializer: "string list")
      (graph_sparse_initializer: "string list") (graph_extended_initializer: "string list")
      (graph_node: "node list") (graph_output: "string list") (graph_value_info: "string list")
and node =
    Node (op_type: string) (domain: string) (overload: string) (node_input: "string list")
      (node_output: "string list") (node_attribute: "attribute list")
      (metadata_props: "(string \<times> string) list")
and attribute =
    Attribute (attribute_type: attribute_type) (attribute_g: "graph option")
      (attribute_graphs: "graph list")

text \<open>A model-local function.\<close>

record FunctionProto =
  function_domain :: string
  function_name :: string
  function_overload :: string
  function_input :: "string list"
  function_output :: "string list"
  function_node :: "node list"

section \<open>Collecting names\<close>

text \<open>A list of names in first-seen order, with the set \<open>seen\<close> of its elements.\<close>

type_synonym names = "string list \<times> string set"

definition add_name :: "string \<Rightarrow> names \<Rightarrow> names" where
  "add_name name = (\<lambda>(out, seen).
     if name \<in> seen then (out, seen) else (out @ [name], insert name seen))"

definition outputs_of :: "node list \<Rightarrow> string set" where
  "outputs_of nodes = (\<Union>nd \<in> set nodes. set (node_output nd)) - {''''}"

fun local_names :: "graph \<Rightarrow> string set" where
  "local_names (Graph ins inits sparse ext nodes outs infos) =
     set ins \<union> set inits \<union> set sparse \<union> set ext \<union> outputs_of nodes"

text \<open>The names of a list that are neither empty nor hidden.\<close>

fun collect_names :: "string list \<Rightarrow> string set \<Rightarrow> names \<Rightarrow> names" where
  "collect_names [] hidden st = st"
| "collect_names (name # rest) hidden st =
     collect_names rest hidden (if name = '''' \<or> name \<in> hidden then st else add_name name st)"

text \<open>
  \<open>CollectGraphExternalInputs\<close>: the names a graph reads and does not define.  The names hidden inside
  it are those of the enclosing scopes and its own.
\<close>

primrec CollectGraphExternalInputs :: "graph \<Rightarrow> string set \<Rightarrow> names \<Rightarrow> names"
  and collect_node :: "node \<Rightarrow> string set \<Rightarrow> names \<Rightarrow> names"
  and collect_attribute :: "attribute \<Rightarrow> string set \<Rightarrow> names \<Rightarrow> names" where
  "CollectGraphExternalInputs (Graph ins inits sparse ext nodes outs infos) outer st =
     (let inner = outer \<union> local_names (Graph ins inits sparse ext nodes outs infos)
      in collect_names outs inner (fold (\<lambda>collect. collect inner) (map collect_node nodes) st))"
| "collect_node (Node op dm ovl ins outs attrs meta) inner st =
     fold (\<lambda>collect. collect inner) (map collect_attribute attrs) (collect_names ins inner st)"
| "collect_attribute (Attribute ty g gs) inner st =
     (if ty = GRAPH \<and> g \<noteq> None then
        (case map_option CollectGraphExternalInputs g of None \<Rightarrow> st | Some collect \<Rightarrow> collect inner st)
      else if ty = GRAPHS then fold (\<lambda>collect. collect inner) (map CollectGraphExternalInputs gs) st
      else st)"

definition CollectNodeInputs :: "node \<Rightarrow> string list" where
  "CollectNodeInputs nd = fst (collect_node nd {} ([], {}))"

definition CollectExternalInputs :: "node list \<Rightarrow> string list" where
  "CollectExternalInputs nodes =
     fst (fold (\<lambda>nd. collect_node nd (outputs_of nodes)) nodes ([], {}))"

section \<open>What they collect\<close>

text \<open>The names a node and a graph read, as sets.\<close>

primrec graph_reads :: "graph \<Rightarrow> string set"
  and node_reads :: "node \<Rightarrow> string set"
  and attribute_reads :: "attribute \<Rightarrow> string set" where
  "graph_reads (Graph ins inits sparse ext nodes outs infos) =
     (\<Union>(set (map node_reads nodes)) \<union> (set outs - {''''})) -
     local_names (Graph ins inits sparse ext nodes outs infos)"
| "node_reads (Node op dm ovl ins outs attrs meta) =
     (set ins - {''''}) \<union> \<Union>(set (map attribute_reads attrs))"
| "attribute_reads (Attribute ty g gs) =
     (if ty = GRAPH \<and> g \<noteq> None then (case map_option graph_reads g of None \<Rightarrow> {} | Some A \<Rightarrow> A)
      else if ty = GRAPHS then \<Union>(set (map graph_reads gs)) else {})"

text \<open>A collection is consistent, and extended by exactly the given names.\<close>

definition names_ok :: "names \<Rightarrow> bool" where
  "names_ok st \<longleftrightarrow> distinct (fst st) \<and> snd st = set (fst st)"

definition extends_by :: "string set \<Rightarrow> names \<Rightarrow> names \<Rightarrow> bool" where
  "extends_by A st st' \<longleftrightarrow> (names_ok st \<longrightarrow> names_ok st' \<and> set (fst st') = set (fst st) \<union> A)"

lemma extends_by_empty [simp]: "extends_by {} st st"
  by (simp add: extends_by_def)

lemma extends_by_trans: "extends_by A st st1 \<Longrightarrow> extends_by B st1 st2 \<Longrightarrow> extends_by (A \<union> B) st st2"
  by (auto simp: extends_by_def)

lemma extends_by_add [simp]: "extends_by {name} st (add_name name st)"
  by (auto simp: extends_by_def add_name_def names_ok_def split: prod.splits)

lemma collect_names_extends: "extends_by (set xs - {''''} - hidden) st (collect_names xs hidden st)"
proof (induction xs hidden st rule: collect_names.induct)
  case (2 name rest hidden st)
  show ?case
  proof (cases "name = '''' \<or> name \<in> hidden")
    case False
    with 2 extends_by_trans [OF extends_by_add [of name st]]
    have "extends_by ({name} \<union> (set rest - {''''} - hidden)) st (collect_names (name # rest) hidden st)"
      by simp
    moreover have "{name} \<union> (set rest - {''''} - hidden) = set (name # rest) - {''''} - hidden"
      using False by auto
    ultimately show ?thesis by simp
  next
    case True
    then have "set (name # rest) - {''''} - hidden = set rest - {''''} - hidden" by auto
    with 2 True show ?thesis by simp
  qed
qed simp

lemma fold_extends:
  "(\<And>x st. x \<in> set xs \<Longrightarrow> extends_by (f x - inner) st (c x inner st)) \<Longrightarrow>
   extends_by ((\<Union>x \<in> set xs. f x) - inner) st (fold (\<lambda>x. c x inner) xs st)"
proof (induction xs arbitrary: st)
  case (Cons x xs)
  have "extends_by ((f x - inner) \<union> ((\<Union>x \<in> set xs. f x) - inner)) st (fold (\<lambda>x. c x inner) (x # xs) st)"
    using extends_by_trans [of "f x - inner" st "c x inner st"] Cons by simp
  then show ?case by (simp add: Un_Diff)
qed simp

lemma fold_map_collect: "fold (\<lambda>collect. collect inner) (map c xs) = fold (\<lambda>x. c x inner) xs"
  by (simp add: fold_map comp_def)

lemma collect_extends:
  "extends_by (graph_reads g - outer) st (CollectGraphExternalInputs g outer st)"
  "extends_by (node_reads nd - inner) st (collect_node nd inner st)"
  "extends_by (attribute_reads attr - inner) st (collect_attribute attr inner st)"
proof (induction g and nd and attr arbitrary: outer st and inner st and inner st)
  case (Graph ins inits sparse ext nodes outs infos)
  let ?inner = "outer \<union> local_names (Graph ins inits sparse ext nodes outs infos)"
  have "extends_by (((\<Union>nd \<in> set nodes. node_reads nd) - ?inner) \<union> (set outs - {''''} - ?inner)) st
      (collect_names outs ?inner (fold (\<lambda>nd. collect_node nd ?inner) nodes st))"
    by (rule extends_by_trans [OF fold_extends collect_names_extends]) (rule Graph)
  moreover have "((\<Union>nd \<in> set nodes. node_reads nd) - ?inner) \<union> (set outs - {''''} - ?inner) =
      graph_reads (Graph ins inits sparse ext nodes outs infos) - outer"
    by auto
  ultimately show ?case by (simp add: Let_def fold_map_collect)
next
  case (Node op dm ovl ins outs attrs meta)
  have "extends_by ((set ins - {''''} - inner) \<union> ((\<Union>a \<in> set attrs. attribute_reads a) - inner)) st
      (fold (\<lambda>a. collect_attribute a inner) attrs (collect_names ins inner st))"
    by (rule extends_by_trans [OF collect_names_extends fold_extends]) (rule Node)
  then show ?case by (simp add: Un_Diff fold_map_collect)
next
  case (Attribute ty g gs)
  show ?case
  proof (cases "ty = GRAPH \<and> g \<noteq> None")
    case True
    then obtain g' where "g = Some g'" by auto
    with True show ?thesis using Attribute(1) by simp
  next
    case False
    show ?thesis
    proof (cases "ty = GRAPHS")
      case True
      have "extends_by ((\<Union>g \<in> set gs. graph_reads g) - inner) st
          (fold (\<lambda>g. CollectGraphExternalInputs g inner) gs st)"
        by (rule fold_extends) (rule Attribute(2))
      with False True show ?thesis by (simp add: fold_map_collect)
    qed (use False in auto)
  qed
qed

lemma CollectNodeInputs_reads: "set (CollectNodeInputs nd) = node_reads nd" "distinct (CollectNodeInputs nd)"
  using collect_extends(2) [of nd "{}" "([], {})"]
  by (simp_all add: extends_by_def names_ok_def CollectNodeInputs_def)

lemma CollectExternalInputs_reads:
  "set (CollectExternalInputs nodes) = (\<Union>nd \<in> set nodes. node_reads nd) - outputs_of nodes"
  "distinct (CollectExternalInputs nodes)"
  using fold_extends [of nodes node_reads "outputs_of nodes" collect_node "([], {})", OF collect_extends(2)]
  by (simp_all add: extends_by_def names_ok_def CollectExternalInputs_def)

lemma empty_not_read:
  "'''' \<notin> graph_reads g" "'''' \<notin> node_reads nd" "'''' \<notin> attribute_reads a"
  by (induction g and nd and a) (auto split: option.splits)

section \<open>The inputs a suffix of nodes still needs\<close>

text \<open>
  \<open>CollectRemainingInputs\<close>: for every start, the backward pass over the suffix marks the nodes that
  produce a needed name, and the forward pass collects what the marked nodes read and none of them
  produces.  A node is given here by what it reads and what it produces.
\<close>

definition produced_names :: "node \<Rightarrow> string list" where
  "produced_names nd = filter (\<lambda>name. name \<noteq> '''') (node_output nd)"

fun mark_relevant :: "(string list \<times> string list) list \<Rightarrow> string set \<Rightarrow> bool list \<times> string set" where
  "mark_relevant [] needed = ([], needed)"
| "mark_relevant ((deps, produced) # rest) needed =
     (case mark_relevant rest needed of (marks, needed') \<Rightarrow>
        if \<exists>name \<in> set produced. name \<in> needed' then (True # marks, needed' \<union> set deps)
        else (False # marks, needed'))"

definition marked :: "(string list \<times> string list) list \<Rightarrow> string set \<Rightarrow> (string list \<times> string list) list" where
  "marked infos needed = map snd (filter fst (zip (fst (mark_relevant infos needed)) infos))"

definition remaining_inputs :: "(string list \<times> string list) list \<Rightarrow> string list \<Rightarrow> string list" where
  "remaining_inputs infos outputs =
     (let relevant = marked infos (set outputs);
          produced = \<Union>(set (map (\<lambda>x. set (snd x)) relevant))
      in fst (fold (\<lambda>x. fold (\<lambda>name st. if name \<in> produced then st else add_name name st) (fst x))
           relevant ([], {})))"

definition CollectRemainingInputs :: "node list \<Rightarrow> string list \<Rightarrow> string list list" where
  "CollectRemainingInputs nodes outputs =
     (let infos = map (\<lambda>nd. (CollectNodeInputs nd, produced_names nd)) nodes
      in map (\<lambda>start. remaining_inputs (drop start infos) outputs) [0..<length nodes])"

lemma add_names_extends:
  "extends_by (set xs - hidden) st (fold (\<lambda>name st. if name \<in> hidden then st else add_name name st) xs st)"
proof (induction xs arbitrary: st)
  case (Cons x xs)
  show ?case
  proof (cases "x \<in> hidden")
    case True
    then have "set (x # xs) - hidden = set xs - hidden" by auto
    with Cons True show ?thesis by simp
  next
    case False
    then have "{x} \<union> (set xs - hidden) = set (x # xs) - hidden" by auto
    with False extends_by_trans [OF extends_by_add [of x st] Cons] show ?thesis by simp
  qed
qed simp

text \<open>What is collected for a suffix: the names its relevant nodes read and do not produce.\<close>

lemma remaining_inputs_reads:
  "set (remaining_inputs infos outputs) =
     (\<Union>x \<in> set (marked infos (set outputs)). set (fst x)) -
     (\<Union>x \<in> set (marked infos (set outputs)). set (snd x))"
  "distinct (remaining_inputs infos outputs)"
proof -
  let ?hidden = "\<Union>x \<in> set (marked infos (set outputs)). set (snd x)"
  have "extends_by ((\<Union>x \<in> set xs. set (fst x)) - ?hidden) st
      (fold (\<lambda>x. fold (\<lambda>name st. if name \<in> ?hidden then st else add_name name st) (fst x)) xs st)" for xs st
    by (rule fold_extends [where c = "\<lambda>x hidden. fold (\<lambda>name st. if name \<in> hidden then st else add_name name st) (fst x)"])
       (rule add_names_extends)
  from this [of "marked infos (set outputs)" "([], {})"]
  show "set (remaining_inputs infos outputs) =
     (\<Union>x \<in> set (marked infos (set outputs)). set (fst x)) - ?hidden"
    "distinct (remaining_inputs infos outputs)"
    by (simp_all add: extends_by_def names_ok_def remaining_inputs_def Let_def)
qed

section \<open>Single assignment and order\<close>

text \<open>
  In a graph in single-assignment form a name has one producer; in a sorted one every reader comes
  after it.
\<close>

definition single_assignment :: "node list \<Rightarrow> bool" where
  "single_assignment nodes \<longleftrightarrow> distinct (concat (map produced_names nodes))"

definition topologically_sorted :: "node list \<Rightarrow> bool" where
  "topologically_sorted nodes \<longleftrightarrow>
     (\<forall>i < length nodes. \<forall>j < length nodes.
        node_reads (nodes ! i) \<inter> set (produced_names (nodes ! j)) \<noteq> {} \<longrightarrow> j < i)"

lemma single_assignment_Cons:
  "single_assignment (nd # nodes) \<longleftrightarrow> distinct (produced_names nd) \<and> single_assignment nodes \<and>
     (\<forall>other \<in> set nodes. set (produced_names nd) \<inter> set (produced_names other) = {})"
  by (auto simp: single_assignment_def)

lemma single_assignment_distinct:
  "single_assignment nodes \<Longrightarrow> j < length nodes \<Longrightarrow> distinct (produced_names (nodes ! j))"
  by (induction nodes arbitrary: j) (auto simp: single_assignment_Cons nth_Cons split: nat.splits)

lemma single_assignment_producer:
  assumes "single_assignment nodes" "j < length nodes" "k < length nodes"
    "name \<in> set (produced_names (nodes ! j))" "name \<in> set (produced_names (nodes ! k))"
  shows "j = k"
  using assms
proof (induction nodes arbitrary: j k)
  case (Cons nd nodes)
  then show ?case
    by (cases j; cases k) (auto simp: single_assignment_Cons dest: nth_mem)
qed simp

lemma set_produced_names: "set (produced_names nd) = set (node_output nd) - {''''}"
  by (auto simp: produced_names_def)

section \<open>What a suffix needs\<close>

text \<open>
  The specification: the names that nodes can compute from a set of available results, each node run
  when everything it reads is there.
\<close>

inductive computable :: "node list \<Rightarrow> string set \<Rightarrow> string \<Rightarrow> bool"
  for nodes :: "node list" and available :: "string set" where
  given: "name \<in> available \<Longrightarrow> computable nodes available name"
| made: "nd \<in> set nodes \<Longrightarrow> \<forall>read \<in> node_reads nd. computable nodes available read \<Longrightarrow>
    name \<in> set (produced_names nd) \<Longrightarrow> computable nodes available name"

text \<open>The marks by position: a node is relevant when it produces a requested name or one that a relevant node after it reads.\<close>

definition relevant_at :: "node list \<Rightarrow> string list \<Rightarrow> nat \<Rightarrow> bool" where
  "relevant_at nodes outputs i \<longleftrightarrow> i < length nodes \<and>
     fst (mark_relevant (map (\<lambda>nd. (CollectNodeInputs nd, produced_names nd)) nodes) (set outputs)) ! i"

lemma length_marks [simp]: "length (fst (mark_relevant infos needed)) = length infos"
  by (induction infos needed rule: mark_relevant.induct) (auto split: prod.splits)

lemma relevant_Cons:
  "relevant_at (nd # nodes) outputs (Suc i) \<longleftrightarrow> relevant_at nodes outputs i"
  by (auto simp: relevant_at_def split: prod.splits)

lemma relevant_first:
  "relevant_at (nd # nodes) outputs 0 \<longleftrightarrow> (\<exists>name \<in> set (produced_names nd).
     name \<in> snd (mark_relevant (map (\<lambda>nd. (CollectNodeInputs nd, produced_names nd)) nodes) (set outputs)))"
  by (simp add: relevant_at_def split: prod.splits)

lemma ex_Suc_iff: "(\<exists>j. P j) \<longleftrightarrow> P 0 \<or> (\<exists>j. P (Suc j))"
  by (metis not0_implies_Suc)

lemma marks_needed:
  "snd (mark_relevant (map (\<lambda>nd. (CollectNodeInputs nd, produced_names nd)) nodes) (set outputs)) =
     set outputs \<union> {name. \<exists>j. relevant_at nodes outputs j \<and> name \<in> node_reads (nodes ! j)}"
proof (induction nodes)
  case (Cons nd nodes)
  let ?infos = "map (\<lambda>nd. (CollectNodeInputs nd, produced_names nd)) nodes"
  have "snd (mark_relevant ((CollectNodeInputs nd, produced_names nd) # ?infos) (set outputs)) =
      snd (mark_relevant ?infos (set outputs)) \<union> (if relevant_at (nd # nodes) outputs 0 then node_reads nd else {})"
    unfolding relevant_first by (auto simp: CollectNodeInputs_reads split: prod.splits)
  moreover have "{name. \<exists>j. relevant_at (nd # nodes) outputs j \<and> name \<in> node_reads ((nd # nodes) ! j)} =
      (if relevant_at (nd # nodes) outputs 0 then node_reads nd else {}) \<union>
      {name. \<exists>j. relevant_at nodes outputs j \<and> name \<in> node_reads (nodes ! j)}"
    by (subst ex_Suc_iff) (auto simp: relevant_Cons)
  ultimately show ?case using Cons.IH by auto
qed (simp add: relevant_at_def)

lemma relevant_at_iff:
  "i < length nodes \<Longrightarrow> relevant_at nodes outputs i \<longleftrightarrow>
     (\<exists>name \<in> set (produced_names (nodes ! i)). name \<in> set outputs \<or>
        (\<exists>j > i. relevant_at nodes outputs j \<and> name \<in> node_reads (nodes ! j)))"
proof (induction nodes arbitrary: i)
  case (Cons nd nodes)
  show ?case
  proof (cases i)
    case 0
    have "(\<exists>j > 0. relevant_at (nd # nodes) outputs j \<and> name \<in> node_reads ((nd # nodes) ! j)) \<longleftrightarrow>
        (\<exists>j. relevant_at nodes outputs j \<and> name \<in> node_reads (nodes ! j))" for name
      by (subst ex_Suc_iff) (simp add: relevant_Cons)
    then show ?thesis unfolding 0 relevant_first marks_needed by simp
  next
    case (Suc k)
    have "(\<exists>j > Suc k. relevant_at (nd # nodes) outputs j \<and> name \<in> node_reads ((nd # nodes) ! j)) \<longleftrightarrow>
        (\<exists>j > k. relevant_at nodes outputs j \<and> name \<in> node_reads (nodes ! j))" for name
      by (subst ex_Suc_iff) (simp add: relevant_Cons)
    then show ?thesis using Cons.IH [of k] Cons.prems by (simp add: Suc relevant_Cons)
  qed
qed simp

lemma marked_positions:
  "set (marked (map (\<lambda>nd. (CollectNodeInputs nd, produced_names nd)) nodes) (set outputs)) =
     {(CollectNodeInputs (nodes ! i), produced_names (nodes ! i)) | i. relevant_at nodes outputs i}"
  by (force simp: marked_def relevant_at_def set_zip)

lemma sorted_drop: "topologically_sorted nodes \<Longrightarrow> topologically_sorted (drop n nodes)"
  unfolding topologically_sorted_def
proof (intro allI impI)
  fix i j
  assume top: "\<forall>i < length nodes. \<forall>j < length nodes.
        node_reads (nodes ! i) \<inter> set (produced_names (nodes ! j)) \<noteq> {} \<longrightarrow> j < i"
    and "i < length (drop n nodes)" "j < length (drop n nodes)"
    "node_reads (drop n nodes ! i) \<inter> set (produced_names (drop n nodes ! j)) \<noteq> {}"
  then have "n + j < n + i" using top [rule_format, of "n + i" "n + j"] by simp
  then show "j < i" by simp
qed

lemma single_assignment_drop: "single_assignment nodes \<Longrightarrow> single_assignment (drop n nodes)"
proof (induction nodes arbitrary: n)
  case (Cons nd nodes)
  then show ?case by (cases n) (auto simp: single_assignment_Cons)
qed simp

lemma remaining_positions:
  "name \<in> set (remaining_inputs (map (\<lambda>nd. (CollectNodeInputs nd, produced_names nd)) nodes) outputs) \<longleftrightarrow>
     (\<exists>i. relevant_at nodes outputs i \<and> name \<in> node_reads (nodes ! i)) \<and>
     \<not> (\<exists>i. relevant_at nodes outputs i \<and> name \<in> set (produced_names (nodes ! i)))"
  unfolding remaining_inputs_reads(1) marked_positions by (auto simp: CollectNodeInputs_reads)

lemma produced_at:
  "name \<in> outputs_of nodes \<longleftrightarrow> (\<exists>i < length nodes. name \<in> set (produced_names (nodes ! i)))"
proof -
  have "name \<in> outputs_of nodes \<longleftrightarrow> (\<exists>nd \<in> set nodes. name \<in> set (produced_names nd))"
    by (auto simp: outputs_of_def set_produced_names)
  then show ?thesis by (metis in_set_conv_nth)
qed

text \<open>From the collected names every relevant node can be run.\<close>

lemma relevant_run:
  assumes top: "topologically_sorted nodes"
    and avail: "set (remaining_inputs (map (\<lambda>nd. (CollectNodeInputs nd, produced_names nd)) nodes) outputs) \<subseteq> available"
  shows "relevant_at nodes outputs i \<Longrightarrow> \<forall>read \<in> node_reads (nodes ! i). computable nodes available read"
proof (induction i rule: less_induct)
  case (less i)
  show ?case
  proof
    fix read assume read: "read \<in> node_reads (nodes ! i)"
    show "computable nodes available read"
    proof (cases "\<exists>j. relevant_at nodes outputs j \<and> read \<in> set (produced_names (nodes ! j))")
      case True
      then obtain j where j: "relevant_at nodes outputs j" "read \<in> set (produced_names (nodes ! j))" by blast
      with top read less.prems have "j < i" by (auto simp: topologically_sorted_def relevant_at_def)
      from computable.made [OF _ less.IH [OF this j(1)] j(2)] j(1) show ?thesis by (simp add: relevant_at_def)
    next
      case False
      with read less.prems avail have "read \<in> available" by (auto simp: subset_iff remaining_positions)
      then show ?thesis by (rule computable.given)
    qed
  qed
qed

text \<open>When the requested outputs can be computed, every relevant node is run on the way.\<close>

lemma relevant_needed:
  assumes ssa: "single_assignment nodes" and avail: "available \<inter> outputs_of nodes = {}"
    and outs: "\<forall>name \<in> set outputs \<inter> outputs_of nodes. computable nodes available name"
  shows "relevant_at nodes outputs i \<Longrightarrow> \<forall>read \<in> node_reads (nodes ! i). computable nodes available read"
proof (induction "length nodes - i" arbitrary: i rule: less_induct)
  case less
  then have i: "i < length nodes" by (simp add: relevant_at_def)
  with less.prems obtain name where name: "name \<in> set (produced_names (nodes ! i))" and
    why: "name \<in> set outputs \<or> (\<exists>j > i. relevant_at nodes outputs j \<and> name \<in> node_reads (nodes ! j))"
    by (auto simp: relevant_at_iff)
  have out: "name \<in> outputs_of nodes" using name i by (auto simp: produced_at)
  from why have "computable nodes available name"
  proof
    assume "\<exists>j > i. relevant_at nodes outputs j \<and> name \<in> node_reads (nodes ! j)"
    then obtain j where j: "i < j" "relevant_at nodes outputs j" "name \<in> node_reads (nodes ! j)" by blast
    with i have "length nodes - j < length nodes - i" by (intro diff_less_mono2) auto
    from less.hyps [OF this j(2)] j(3) show ?thesis by blast
  qed (use outs out in blast)
  then show ?case
  proof cases
    case given
    with out avail show ?thesis by blast
  next
    case (made nd)
    then obtain k where "k < length nodes" "nd = nodes ! k" by (auto simp: in_set_conv_nth)
    with single_assignment_producer [OF ssa i _ name] made show ?thesis by blast
  qed
qed

text \<open>C25: The names collected for a start are the least set of results from which the suffix of the nodes gives
  what is asked of it.  In a sorted graph in single-assignment form, and for every set of results none of
  which the suffix itself produces: the requested outputs that the suffix produces can all be computed
  from the set, each node run when everything it reads is there, if and only if the set holds the
  collected names.\<close>

theorem remaining_inputs_are_least:
  assumes "topologically_sorted nodes" "single_assignment nodes" "start < length nodes"
    and "available \<inter> outputs_of (drop start nodes) = {}"
  shows "(\<forall>name \<in> set outputs \<inter> outputs_of (drop start nodes). computable (drop start nodes) available name) \<longleftrightarrow>
    set (CollectRemainingInputs nodes outputs ! start) \<subseteq> available"
proof -
  let ?suffix = "drop start nodes"
  note top = sorted_drop [OF assms(1), of start] and ssa = single_assignment_drop [OF assms(2), of start]
  have "CollectRemainingInputs nodes outputs ! start =
      remaining_inputs (map (\<lambda>nd. (CollectNodeInputs nd, produced_names nd)) ?suffix) outputs"
    using assms(3) by (simp add: CollectRemainingInputs_def Let_def drop_map)
  then have coll: "set (CollectRemainingInputs nodes outputs ! start) =
      set (remaining_inputs (map (\<lambda>nd. (CollectNodeInputs nd, produced_names nd)) ?suffix) outputs)" by simp
  show ?thesis unfolding coll
  proof (intro iffI ballI subsetI)
    fix name
    assume outs: "\<forall>name \<in> set outputs \<inter> outputs_of ?suffix. computable ?suffix available name"
      and "name \<in> set (remaining_inputs (map (\<lambda>nd. (CollectNodeInputs nd, produced_names nd)) ?suffix) outputs)"
    then obtain i where i: "relevant_at ?suffix outputs i" "name \<in> node_reads (?suffix ! i)"
      and unmade: "\<not> (\<exists>j. relevant_at ?suffix outputs j \<and> name \<in> set (produced_names (?suffix ! j)))"
      unfolding remaining_positions by blast
    from relevant_needed [OF ssa assms(4) outs i(1)] i(2) have "computable ?suffix available name" by blast
    then show "name \<in> available"
    proof cases
      case (made nd)
      then obtain j where j: "j < length ?suffix" "name \<in> set (produced_names (?suffix ! j))"
        by (metis in_set_conv_nth)
      with top i have "j < i" unfolding topologically_sorted_def relevant_at_def by blast
      with j i have "relevant_at ?suffix outputs j" using relevant_at_iff by blast
      with unmade j show ?thesis by blast
    qed
  next
    fix name
    assume avail: "set (remaining_inputs (map (\<lambda>nd. (CollectNodeInputs nd, produced_names nd)) ?suffix) outputs) \<subseteq> available"
      and name: "name \<in> set outputs \<inter> outputs_of ?suffix"
    then obtain i where i: "i < length ?suffix" "name \<in> set (produced_names (?suffix ! i))" by (auto simp: produced_at)
    with name have "relevant_at ?suffix outputs i" unfolding relevant_at_iff [OF i(1)] by blast
    from computable.made [OF nth_mem [OF i(1)] relevant_run [OF top avail this] i(2)]
    show "computable ?suffix available name" .
  qed
qed

definition suffix_nodes :: "node list" where
  "suffix_nodes = [Node ''Neg'' '''' '''' [''x''] [''t''] [] [], Node ''Abs'' '''' '''' [''t''] [''y''] [] [],
     Node ''Exp'' '''' '''' [''x''] [''z''] [] []]"

lemma suffix_nodes_sorted: "topologically_sorted suffix_nodes"
  by (auto simp: topologically_sorted_def suffix_nodes_def produced_names_def less_Suc_eq numeral_eq_Suc)

lemma suffix_nodes_single: "single_assignment suffix_nodes"
  by (simp add: single_assignment_def suffix_nodes_def produced_names_def)

lemma suffix_collected: "CollectRemainingInputs suffix_nodes [''y''] ! 1 = [''t'']"
  by code_simp

lemma remaining_inputs_are_least_witness:
  "computable (drop 1 suffix_nodes) {''t''} ''y'' \<and> \<not> computable (drop 1 suffix_nodes) {''x''} ''y''"
proof -
  have outs: "outputs_of (drop 1 suffix_nodes) = {''y'', ''z''}" by (auto simp: suffix_nodes_def outputs_of_def)
  have "1 < length suffix_nodes" by (simp add: suffix_nodes_def)
  note least = remaining_inputs_are_least [OF suffix_nodes_sorted suffix_nodes_single this, unfolded outs]
  from least [of "{''t''}" "[''y'']"] least [of "{''x''}" "[''y'']"]
  show ?thesis unfolding suffix_collected by simp
qed

end
