(* ===== verification/LifetimeMetadata.thy ===== *)
theory LifetimeMetadata
  imports Decimal GraphNames
begin

text \<open>
  The lifetime annotations that the analysis leaves on the nodes and that the planner reads back:
  \<open>ComputeContext::WriteToMetadata\<close> of \<open>onnx_core/compute/compute_context.cc\<close> and the readers at the
  head of \<open>onnx_core/compute/execution_plan.cc\<close>.  An annotation is a list of names joined by
  semicolons; when a name holds a percent sign or a semicolon, every list of its node is
  percent-encoded and a marker says so.
\<close>

section \<open>Metadata entries\<close>

type_synonym metadata = "(string \<times> string) list"

definition kInPlaceReuseMetadataKey :: string where
  "kInPlaceReuseMetadataKey = ''onnx_light.inplace_reuse''"
definition kLifetimeNamesEncodingMetadataKey :: string where
  "kLifetimeNamesEncodingMetadataKey = ''onnx_light.lifetime_names_encoding''"
definition kReleaseAfterMetadataKey :: string where
  "kReleaseAfterMetadataKey = ''onnx_light.release_after''"
definition kNotUsedAfterMetadataKey :: string where
  "kNotUsedAfterMetadataKey = ''onnx_light.not_used_after''"
definition kReleaseAfterShapeTagMetadataKey :: string where
  "kReleaseAfterShapeTagMetadataKey = ''onnx_light.release_after_shape_tag''"
definition kNodePeakMemoryMetadataKey :: string where
  "kNodePeakMemoryMetadataKey = ''onnx_light.peak_memory''"

lemmas metadata_keys = kInPlaceReuseMetadataKey_def kLifetimeNamesEncodingMetadataKey_def
  kReleaseAfterMetadataKey_def kNotUsedAfterMetadataKey_def kReleaseAfterShapeTagMetadataKey_def
  kNodePeakMemoryMetadataKey_def

definition ReadNodeMetadata :: "metadata \<Rightarrow> string \<Rightarrow> string" where
  "ReadNodeMetadata meta key = (case map_of meta key of None \<Rightarrow> '''' | Some value \<Rightarrow> value)"

text \<open>\<open>SetOrAddMetadataEntry\<close>: the first entry with the key is updated in place.\<close>

fun add_metadata :: "metadata \<Rightarrow> string \<Rightarrow> string \<Rightarrow> metadata" where
  "add_metadata [] key value = [(key, value)]"
| "add_metadata ((k, v) # meta) key value =
     (if k = key then (k, value) # meta else (k, v) # add_metadata meta key value)"

lemma map_of_add_metadata [simp]: "map_of (add_metadata meta key value) = (map_of meta)(key \<mapsto> value)"
  by (induction meta) (auto simp: fun_eq_iff)

section \<open>Lists of names as text\<close>

text \<open>The pieces of a text between separators; the loops of the source look for the next separator.\<close>

function pieces :: "char \<Rightarrow> string \<Rightarrow> string list" where
  "pieces sep s = takeWhile (\<lambda>c. c \<noteq> sep) s #
     (case dropWhile (\<lambda>c. c \<noteq> sep) s of [] \<Rightarrow> [] | _ # rest \<Rightarrow> pieces sep rest)"
  by pat_completeness auto
termination
proof (relation "measure (\<lambda>(sep, s). length s)", goal_cases)
  case (2 sep s c rest)
  then have "length (c # rest) \<le> length s" using length_dropWhile_le [of "\<lambda>c. c \<noteq> sep" s] by metis
  then show ?case by simp
qed simp

declare pieces.simps [simp del]

definition SplitNames :: "string \<Rightarrow> string list" where
  "SplitNames value = filter (\<lambda>name. name \<noteq> '''') (pieces (CHR '';'') value)"

fun join :: "string list \<Rightarrow> string" where
  "join [] = ''''"
| "join [name] = name"
| "join (name # names) = name @ CHR '';'' # join names"

definition encode_char :: "char \<Rightarrow> string" where
  "encode_char c = (if c = CHR ''%'' then ''%25'' else if c = CHR '';'' then ''%3B'' else [c])"

definition EncodeLifetimeName :: "string \<Rightarrow> bool \<Rightarrow> string" where
  "EncodeLifetimeName name encode = (if \<not> encode then name else concat (map encode_char name))"

fun decode_name :: "string \<Rightarrow> string res" where
  "decode_name [] = Inr []"
| "decode_name (c # s) =
     (if c \<noteq> CHR ''%'' then bindR (decode_name s) (\<lambda>d. Inr (c # d))
      else if take 2 s = ''25'' then bindR (decode_name (drop 2 s)) (\<lambda>d. Inr (CHR ''%'' # d))
      else if take 2 s = ''3B'' then bindR (decode_name (drop 2 s)) (\<lambda>d. Inr (CHR '';'' # d))
      else Inl InvalidArgument)"

definition ReadLifetimeNames :: "metadata \<Rightarrow> string \<Rightarrow> string list res" where
  "ReadLifetimeNames meta key =
     (let names = SplitNames (ReadNodeMetadata meta key);
          encoding = ReadNodeMetadata meta kLifetimeNamesEncodingMetadataKey
      in if encoding = '''' then Inr names
         else if encoding \<noteq> ''percent'' then Inl InvalidArgument
         else mapR decode_name names)"

definition EncodeLifetimeNamesMetadata :: "string \<Rightarrow> metadata \<Rightarrow> metadata" where
  "EncodeLifetimeNamesMetadata key meta =
     (let raw = ReadNodeMetadata meta key
      in if raw = '''' then meta
         else add_metadata meta key (join (map (\<lambda>name. EncodeLifetimeName name True) (pieces (CHR '';'') raw))))"

section \<open>Reuse decisions as text\<close>

datatype InPlaceReuseKind = kEqual | kGreater

record InPlaceReuse =
  output_index :: int
  input_index :: int
  reuse_kind :: InPlaceReuseKind

text \<open>\<open>std::strtoll\<close> in base ten: white space, a sign, digits; out of range the nearest bound.\<close>

definition strtoll :: "string \<Rightarrow> int" where
  "strtoll text =
     (let s = dropWhile isspace text;
          (negative, rest) = (case s of [] \<Rightarrow> (False, [])
             | c # cs \<Rightarrow> if c = CHR ''-'' then (True, cs) else if c = CHR ''+'' then (False, cs) else (False, s));
          magnitude = int (read_nat (takeWhile isdigit rest));
          v = (if negative then - magnitude else magnitude)
      in if v < i64_min then i64_min else if v > i64_max then i64_max else v)"

definition parse_triplet :: "string \<Rightarrow> InPlaceReuse option" where
  "parse_triplet triplet =
     (let colon = (\<lambda>c. c \<noteq> CHR '':'') in
      case dropWhile colon triplet of [] \<Rightarrow> None
      | _ # rest \<Rightarrow> (case dropWhile colon rest of [] \<Rightarrow> None
         | _ # kind_text \<Rightarrow> Some \<lparr>output_index = strtoll (takeWhile colon triplet),
             input_index = strtoll (takeWhile colon rest),
             reuse_kind = (if kind_text = ''greater'' then kGreater else kEqual)\<rparr>))"

definition ParseInPlaceReuse :: "string \<Rightarrow> InPlaceReuse list" where
  "ParseInPlaceReuse value = List.map_filter parse_triplet (SplitNames value)"

definition ParsePeakMemory :: "string \<Rightarrow> nat" where
  "ParsePeakMemory value = (if value = '''' then 0 else let bytes = strtoll value in if bytes > 0 then nat bytes else 0)"

definition reuse_text :: "InPlaceReuse \<Rightarrow> string" where
  "reuse_text r = to_string (output_index r) @ '':'' @ to_string (input_index r) @ '':'' @
     (if reuse_kind r = kEqual then ''equal'' else ''greater'')"

section \<open>Writing the annotations of a node\<close>

definition needs_encoding :: "string list \<Rightarrow> bool" where
  "needs_encoding names \<longleftrightarrow> list_ex (list_ex (\<lambda>c. c = CHR ''%'' \<or> c = CHR '';'')) names"

text \<open>A list that is written replaces what the node had; an empty one leaves it.\<close>

definition write_names :: "string \<Rightarrow> string list \<Rightarrow> bool \<Rightarrow> metadata \<Rightarrow> metadata" where
  "write_names key names encode meta =
     (if names = [] then meta
      else add_metadata meta key (join (map (\<lambda>name. EncodeLifetimeName name encode) names)))"

definition mark_encoding :: "string list \<Rightarrow> string list \<Rightarrow> string list \<Rightarrow> metadata \<Rightarrow> metadata" where
  "mark_encoding released unused shapes meta =
     add_metadata
       (if map_of meta kLifetimeNamesEncodingMetadataKey \<noteq> None then meta
        else (if shapes = [] then EncodeLifetimeNamesMetadata kReleaseAfterShapeTagMetadataKey else id)
          ((if unused = [] then EncodeLifetimeNamesMetadata kNotUsedAfterMetadataKey else id)
            ((if released = [] then EncodeLifetimeNamesMetadata kReleaseAfterMetadataKey else id) meta)))
       kLifetimeNamesEncodingMetadataKey ''percent''"

definition write_node_metadata ::
  "InPlaceReuse list \<Rightarrow> string list \<Rightarrow> string list \<Rightarrow> string list \<Rightarrow> metadata \<Rightarrow> metadata" where
  "write_node_metadata reuse released unused shapes meta =
     (if reuse = [] \<and> released = [] \<and> unused = [] \<and> shapes = [] then meta
      else
       (let encode_names = needs_encoding released \<or> needs_encoding unused \<or> needs_encoding shapes \<or>
              map_of meta kLifetimeNamesEncodingMetadataKey \<noteq> None;
            meta = (if encode_names then mark_encoding released unused shapes meta else meta);
            meta = (if reuse = [] then meta
                    else add_metadata meta kInPlaceReuseMetadataKey (join (map reuse_text reuse)));
            meta = write_names kReleaseAfterMetadataKey released encode_names meta;
            meta = write_names kNotUsedAfterMetadataKey unused encode_names meta
        in write_names kReleaseAfterShapeTagMetadataKey shapes encode_names meta))"

text \<open>
  The results that \<open>ComputeContext\<close> holds per node.  The shape-tagged lists are absent when no value tags
  were given.  The other lists are indexed without a check.
\<close>

record annotations =
  node_reuse :: "InPlaceReuse list list"
  node_release_after :: "string list list"
  node_not_used_after :: "string list list"
  node_shape_releases :: "string list list"

primrec with_metadata :: "(metadata \<Rightarrow> metadata) \<Rightarrow> node \<Rightarrow> node" where
  "with_metadata f (Node op dm ovl ins outs attrs meta) = Node op dm ovl ins outs attrs (f meta)"

definition WriteToMetadata :: "annotations \<Rightarrow> node list \<Rightarrow> node list res" where
  "WriteToMetadata ctx nodes =
     (if length nodes \<noteq> length (node_reuse ctx) then Inl InvalidArgument
      else if length (node_release_after ctx) < length nodes \<or> length (node_not_used_after ctx) < length nodes
      then Inl Undefined
      else
       (let has_shape_tag_info = (length (node_shape_releases ctx) = length (node_reuse ctx))
        in Inr (map (\<lambda>(i, nd). with_metadata
             (write_node_metadata (node_reuse ctx ! i) (node_release_after ctx ! i) (node_not_used_after ctx ! i)
               (if has_shape_tag_info then node_shape_releases ctx ! i else [])) nd)
           (enumerate 0 nodes))))"

section \<open>Lists of names read back\<close>

lemma pieces_no_sep: "\<forall>c \<in> set s. c \<noteq> sep \<Longrightarrow> pieces sep s = [s]"
  by (subst pieces.simps) (simp add: takeWhile_eq_all_conv [THEN iffD2] dropWhile_eq_Nil_conv [THEN iffD2])

lemma pieces_sep: "\<forall>c \<in> set s. c \<noteq> sep \<Longrightarrow> pieces sep (s @ sep # rest) = s # pieces sep rest"
  by (subst pieces.simps) (simp add: takeWhile_append2 dropWhile_append2)

lemma pieces_join:
  "names \<noteq> [] \<Longrightarrow> \<forall>name \<in> set names. CHR '';'' \<notin> set name \<Longrightarrow> pieces (CHR '';'') (join names) = names"
proof (induction names rule: join.induct)
  case (2 name)
  then show ?case using pieces_no_sep [of name "CHR '';''"] by auto
next
  case (3 name second names)
  then show ?case using pieces_sep [of name "CHR '';''" "join (second # names)"] by auto
qed simp

lemma SplitNames_join:
  assumes "\<forall>name \<in> set names. name \<noteq> '''' \<and> CHR '';'' \<notin> set name"
  shows "SplitNames (join names) = names"
proof (cases "names = []")
  case False
  then have "pieces (CHR '';'') (join names) = names" by (rule pieces_join) (use assms in blast)
  with assms show ?thesis by (simp add: SplitNames_def filter_id_conv)
qed (simp add: SplitNames_def pieces_no_sep)

lemma encoded_chars: "CHR '';'' \<notin> set (EncodeLifetimeName name True)"
  by (auto simp: EncodeLifetimeName_def encode_char_def split: if_splits)

lemma encoded_empty [simp]: "EncodeLifetimeName name True = '''' \<longleftrightarrow> name = ''''"
  by (cases name) (auto simp: EncodeLifetimeName_def encode_char_def)

lemma decode_encode [simp]: "decode_name (EncodeLifetimeName name True) = Inr name"
  by (induction name) (auto simp: EncodeLifetimeName_def encode_char_def)

lemma decode_encode_all: "mapR decode_name (map (\<lambda>name. EncodeLifetimeName name True) names) = Inr names"
  by (induction names) simp_all

lemma join_nonempty: "names \<noteq> [] \<Longrightarrow> \<forall>name \<in> set names. name \<noteq> '''' \<Longrightarrow> join names \<noteq> ''''"
  by (induction names rule: join.induct) auto

text \<open>An encoded list, whatever its names, reads back as it was.\<close>

lemma SplitNames_join_encoded:
  "SplitNames (join (map (\<lambda>name. EncodeLifetimeName name True) names)) =
   map (\<lambda>name. EncodeLifetimeName name True) (filter (\<lambda>name. name \<noteq> '''') names)"
proof (cases "names = []")
  case False
  have "pieces (CHR '';'') (join (map (\<lambda>name. EncodeLifetimeName name True) names)) =
      map (\<lambda>name. EncodeLifetimeName name True) names"
    by (rule pieces_join) (use False encoded_chars in auto)
  then show ?thesis by (simp add: SplitNames_def filter_map comp_def)
qed (simp add: SplitNames_def pieces_no_sep)

text \<open>The texts of reuse decisions.\<close>

lemma to_string_chars: "c \<in> set (to_string v) \<Longrightarrow> isdigit c \<or> c = CHR ''-''"
  using show_nat_digits by (auto simp: to_string_def split: if_splits)

lemma to_string_no_colon: "CHR '':'' \<notin> set (to_string v)" "CHR '';'' \<notin> set (to_string v)"
  using to_string_chars [of "CHR '':''" v] to_string_chars [of "CHR '';''" v] by (auto simp: char_class)

lemma isdigit_not_space: "isdigit c \<Longrightarrow> \<not> isspace c \<and> c \<noteq> CHR ''-'' \<and> c \<noteq> CHR ''+''"
  by (auto simp: char_class)

lemma takeWhile_digits: "takeWhile isdigit (show_nat n) = show_nat n"
  using show_nat_digits [of n] by (simp add: takeWhile_eq_all_conv)

lemma strtoll_to_string: "in_i64 v \<Longrightarrow> strtoll (to_string v) = v"
proof (cases "v < 0")
  case True
  assume v: "in_i64 v"
  have "\<not> isspace (CHR ''-'')" by (simp add: char_class)
  with v True show ?thesis by (auto simp: strtoll_def to_string_def takeWhile_digits i64_defs)
next
  case False
  assume v: "in_i64 v"
  obtain c cs where n: "show_nat (nat v) = c # cs" by (cases "show_nat (nat v)") auto
  have c: "\<not> isspace c" "c \<noteq> CHR ''-''" "c \<noteq> CHR ''+''"
    using isdigit_not_space [OF show_nat_Cons [OF n]] by auto
  have "takeWhile isdigit (c # cs) = show_nat (nat v)" using takeWhile_digits [of "nat v"] n by simp
  moreover have "read_nat (c # cs) = nat v" using read_show_nat [of "nat v"] n by simp
  ultimately show ?thesis using v False n c
    by (simp add: strtoll_def to_string_def Let_def i64_defs) linarith
qed

lemma takeWhile_until: "x \<notin> set s \<Longrightarrow> takeWhile (\<lambda>c. c \<noteq> x) (s @ x # t) = s"
  by (induction s) auto

lemma dropWhile_until: "x \<notin> set s \<Longrightarrow> dropWhile (\<lambda>c. c \<noteq> x) (s @ x # t) = x # t"
  by (induction s) auto

lemma parse_reuse_text:
  "in_i64 (output_index r) \<Longrightarrow> in_i64 (input_index r) \<Longrightarrow> parse_triplet (reuse_text r) = Some r"
  using to_string_no_colon [of "output_index r"] to_string_no_colon [of "input_index r"]
  by (cases "reuse_kind r") (simp_all add: parse_triplet_def reuse_text_def strtoll_to_string takeWhile_until dropWhile_until Let_def)

lemma reuse_text_no_sep: "CHR '';'' \<notin> set (reuse_text r)" "reuse_text r \<noteq> ''''"
  using to_string_no_colon [of "output_index r"] to_string_no_colon [of "input_index r"]
  by (auto simp: reuse_text_def)

lemma ParseInPlaceReuse_text:
  assumes "\<forall>r \<in> set reuse. in_i64 (output_index r) \<and> in_i64 (input_index r)"
  shows "ParseInPlaceReuse (join (map reuse_text reuse)) = reuse"
proof -
  have "SplitNames (join (map reuse_text reuse)) = map reuse_text reuse"
    by (rule SplitNames_join) (use reuse_text_no_sep in auto)
  moreover have "List.map_filter parse_triplet (map reuse_text reuse) = reuse"
    using assms by (induction reuse) (simp_all add: List.map_filter_def parse_reuse_text)
  ultimately show ?thesis by (simp add: ParseInPlaceReuse_def)
qed

section \<open>Writing and reading one node\<close>

lemma key_distinct [simp]:
  "kInPlaceReuseMetadataKey \<noteq> kLifetimeNamesEncodingMetadataKey" "kInPlaceReuseMetadataKey \<noteq> kReleaseAfterMetadataKey" "kInPlaceReuseMetadataKey \<noteq> kNotUsedAfterMetadataKey" "kInPlaceReuseMetadataKey \<noteq> kReleaseAfterShapeTagMetadataKey" "kInPlaceReuseMetadataKey \<noteq> kNodePeakMemoryMetadataKey"
  "kLifetimeNamesEncodingMetadataKey \<noteq> kInPlaceReuseMetadataKey" "kLifetimeNamesEncodingMetadataKey \<noteq> kReleaseAfterMetadataKey" "kLifetimeNamesEncodingMetadataKey \<noteq> kNotUsedAfterMetadataKey" "kLifetimeNamesEncodingMetadataKey \<noteq> kReleaseAfterShapeTagMetadataKey" "kLifetimeNamesEncodingMetadataKey \<noteq> kNodePeakMemoryMetadataKey"
  "kReleaseAfterMetadataKey \<noteq> kInPlaceReuseMetadataKey" "kReleaseAfterMetadataKey \<noteq> kLifetimeNamesEncodingMetadataKey" "kReleaseAfterMetadataKey \<noteq> kNotUsedAfterMetadataKey" "kReleaseAfterMetadataKey \<noteq> kReleaseAfterShapeTagMetadataKey" "kReleaseAfterMetadataKey \<noteq> kNodePeakMemoryMetadataKey"
  "kNotUsedAfterMetadataKey \<noteq> kInPlaceReuseMetadataKey" "kNotUsedAfterMetadataKey \<noteq> kLifetimeNamesEncodingMetadataKey" "kNotUsedAfterMetadataKey \<noteq> kReleaseAfterMetadataKey" "kNotUsedAfterMetadataKey \<noteq> kReleaseAfterShapeTagMetadataKey" "kNotUsedAfterMetadataKey \<noteq> kNodePeakMemoryMetadataKey"
  "kReleaseAfterShapeTagMetadataKey \<noteq> kInPlaceReuseMetadataKey" "kReleaseAfterShapeTagMetadataKey \<noteq> kLifetimeNamesEncodingMetadataKey" "kReleaseAfterShapeTagMetadataKey \<noteq> kReleaseAfterMetadataKey" "kReleaseAfterShapeTagMetadataKey \<noteq> kNotUsedAfterMetadataKey" "kReleaseAfterShapeTagMetadataKey \<noteq> kNodePeakMemoryMetadataKey"
  "kNodePeakMemoryMetadataKey \<noteq> kInPlaceReuseMetadataKey" "kNodePeakMemoryMetadataKey \<noteq> kLifetimeNamesEncodingMetadataKey" "kNodePeakMemoryMetadataKey \<noteq> kReleaseAfterMetadataKey" "kNodePeakMemoryMetadataKey \<noteq> kNotUsedAfterMetadataKey" "kNodePeakMemoryMetadataKey \<noteq> kReleaseAfterShapeTagMetadataKey"
  by (simp_all add: metadata_keys)

text \<open>What a reader of names sees depends on the entry of its key and on the marker.\<close>

definition read_entry :: "string option \<Rightarrow> string option \<Rightarrow> string list res" where
  "read_entry marker entry =
     (let names = SplitNames (case entry of None \<Rightarrow> '''' | Some text \<Rightarrow> text)
      in case marker of None \<Rightarrow> Inr names
         | Some encoding \<Rightarrow> if encoding = '''' then Inr names
             else if encoding \<noteq> ''percent'' then Inl InvalidArgument else mapR decode_name names)"

lemma ReadLifetimeNames_entry:
  "ReadLifetimeNames meta key = read_entry (map_of meta kLifetimeNamesEncodingMetadataKey) (map_of meta key)"
  by (auto simp: ReadLifetimeNames_def read_entry_def ReadNodeMetadata_def Let_def split: option.splits)

lemma SplitNames_Nil [simp]: "SplitNames '''' = []"
  by (simp add: SplitNames_def pieces_no_sep)

lemma read_entry_encoded:
  "\<forall>name \<in> set names. name \<noteq> '''' \<Longrightarrow>
   read_entry (Some ''percent'') (Some (join (map (\<lambda>name. EncodeLifetimeName name True) names))) = Inr names"
  by (simp add: read_entry_def SplitNames_join_encoded decode_encode_all filter_id_conv [THEN iffD2] del: map_map)

lemma read_entry_plain:
  assumes "\<forall>name \<in> set names. name \<noteq> ''''" "\<not> needs_encoding names"
  shows "read_entry None (Some (join (map (\<lambda>name. EncodeLifetimeName name False) names))) = Inr names"
proof -
  have "SplitNames (join names) = names"
    by (rule SplitNames_join) (use assms in \<open>auto simp: needs_encoding_def list_ex_iff\<close>)
  then show ?thesis by (simp add: read_entry_def EncodeLifetimeName_def)
qed

text \<open>Entries written before the marker are encoded when the marker is set, and keep their meaning.\<close>

lemma read_entry_reencoded:
  "read_entry (Some ''percent'') (map_of (EncodeLifetimeNamesMetadata key meta) key) =
   read_entry None (map_of meta key)"
proof (cases "map_of meta key")
  case (Some raw)
  then show ?thesis
    by (cases "raw = ''''")
      (simp_all add: EncodeLifetimeNamesMetadata_def ReadNodeMetadata_def Let_def read_entry_def
        SplitNames_join_encoded decode_encode_all SplitNames_def [of raw] del: map_map)
qed (simp add: EncodeLifetimeNamesMetadata_def ReadNodeMetadata_def read_entry_def)

lemma reencoded_other: "key \<noteq> other \<Longrightarrow> map_of (EncodeLifetimeNamesMetadata key meta) other = map_of meta other"
  by (simp add: EncodeLifetimeNamesMetadata_def Let_def)

lemma written_entry:
  "map_of (write_names key names encode meta) other =
     (if key = other \<and> names \<noteq> [] then Some (join (map (\<lambda>name. EncodeLifetimeName name encode) names))
      else map_of meta other)"
  by (simp add: write_names_def)

text \<open>The entry of a list key after the marker has been set.\<close>

lemma marked_entry:
  assumes "map_of meta kLifetimeNamesEncodingMetadataKey = None"
  shows "released = [] \<Longrightarrow> read_entry (Some ''percent'')
      (map_of (mark_encoding released unused shapes meta) kReleaseAfterMetadataKey) =
      read_entry None (map_of meta kReleaseAfterMetadataKey)"
    "unused = [] \<Longrightarrow> read_entry (Some ''percent'')
      (map_of (mark_encoding released unused shapes meta) kNotUsedAfterMetadataKey) =
      read_entry None (map_of meta kNotUsedAfterMetadataKey)"
    "shapes = [] \<Longrightarrow> read_entry (Some ''percent'')
      (map_of (mark_encoding released unused shapes meta) kReleaseAfterShapeTagMetadataKey) =
      read_entry None (map_of meta kReleaseAfterShapeTagMetadataKey)"
    "map_of (mark_encoding released unused shapes meta) kInPlaceReuseMetadataKey = map_of meta kInPlaceReuseMetadataKey"
  using assms
  by (simp_all add: mark_encoding_def reencoded_other read_entry_reencoded)

lemma marked_with_marker:
  "map_of meta kLifetimeNamesEncodingMetadataKey = Some m \<Longrightarrow>
   mark_encoding released unused shapes meta = add_metadata meta kLifetimeNamesEncodingMetadataKey ''percent''"
  by (simp add: mark_encoding_def)

lemma mark_encoding_marker [simp]:
  "map_of (mark_encoding released unused shapes meta) kLifetimeNamesEncodingMetadataKey = Some ''percent''"
  by (simp add: mark_encoding_def)

text \<open>The entries of a node after writing, one key at a time.\<close>

definition encodes :: "string list \<Rightarrow> string list \<Rightarrow> string list \<Rightarrow> metadata \<Rightarrow> bool" where
  "encodes released unused shapes meta \<longleftrightarrow> needs_encoding released \<or> needs_encoding unused \<or> needs_encoding shapes \<or>
     map_of meta kLifetimeNamesEncodingMetadataKey \<noteq> None"

definition premarked :: "string list \<Rightarrow> string list \<Rightarrow> string list \<Rightarrow> metadata \<Rightarrow> metadata" where
  "premarked released unused shapes meta =
     (if encodes released unused shapes meta then mark_encoding released unused shapes meta else meta)"

lemma write_node_entries:
  assumes "\<not> (reuse = [] \<and> released = [] \<and> unused = [] \<and> shapes = [])"
    and "encode = encodes released unused shapes meta"
  shows "map_of (write_node_metadata reuse released unused shapes meta) key =
    (if key = kReleaseAfterShapeTagMetadataKey \<and> shapes \<noteq> [] then
       Some (join (map (\<lambda>name. EncodeLifetimeName name encode) shapes))
     else if key = kNotUsedAfterMetadataKey \<and> unused \<noteq> [] then
       Some (join (map (\<lambda>name. EncodeLifetimeName name encode) unused))
     else if key = kReleaseAfterMetadataKey \<and> released \<noteq> [] then
       Some (join (map (\<lambda>name. EncodeLifetimeName name encode) released))
     else if key = kInPlaceReuseMetadataKey \<and> reuse \<noteq> [] then Some (join (map reuse_text reuse))
     else map_of (premarked released unused shapes meta) key)"
  using assms(1)
  by (auto simp: write_node_metadata_def Let_def written_entry premarked_def assms(2) encodes_def)

lemma write_node_skipped: "write_node_metadata [] [] [] [] meta = meta"
  by (simp add: write_node_metadata_def)

text \<open>A marker, when there is one, is the one the writer uses.\<close>

definition marker_ok :: "metadata \<Rightarrow> bool" where
  "marker_ok meta \<longleftrightarrow> map_of meta kLifetimeNamesEncodingMetadataKey \<in> {None, Some ''percent''}"

lemma read_written:
  assumes ok: "marker_ok meta" and some: "\<not> (reuse = [] \<and> released = [] \<and> unused = [] \<and> shapes = [])"
    and names: "\<forall>name \<in> set names. name \<noteq> ''''" "encodes released unused shapes meta \<or> \<not> needs_encoding names"
  shows "read_entry (map_of (write_node_metadata reuse released unused shapes meta) kLifetimeNamesEncodingMetadataKey)
      (Some (join (map (\<lambda>name. EncodeLifetimeName name (encodes released unused shapes meta)) names))) = Inr names"
proof (cases "encodes released unused shapes meta")
  case True
  then show ?thesis
    using read_entry_encoded [OF names(1)] by (simp add: write_node_entries [OF some refl] premarked_def)
next
  case False
  moreover from False have "map_of meta kLifetimeNamesEncodingMetadataKey = None" by (simp add: encodes_def)
  ultimately show ?thesis
    using read_entry_plain [OF names(1)] names(2) by (simp add: write_node_entries [OF some refl] premarked_def)
qed

lemma read_kept:
  assumes ok: "marker_ok meta" and some: "\<not> (reuse = [] \<and> released = [] \<and> unused = [] \<and> shapes = [])"
    and key: "key = kReleaseAfterMetadataKey \<and> released = [] \<or> key = kNotUsedAfterMetadataKey \<and> unused = [] \<or>
      key = kReleaseAfterShapeTagMetadataKey \<and> shapes = []"
  shows "ReadLifetimeNames (write_node_metadata reuse released unused shapes meta) key = ReadLifetimeNames meta key"
proof -
  have entry: "map_of (write_node_metadata reuse released unused shapes meta) key =
      map_of (premarked released unused shapes meta) key"
    using key by (auto simp: write_node_entries [OF some refl])
  have marker: "map_of (write_node_metadata reuse released unused shapes meta) kLifetimeNamesEncodingMetadataKey =
      map_of (premarked released unused shapes meta) kLifetimeNamesEncodingMetadataKey"
    by (simp add: write_node_entries [OF some refl])
  consider (same) "\<not> encodes released unused shapes meta"
    | (fresh) "encodes released unused shapes meta" "map_of meta kLifetimeNamesEncodingMetadataKey = None"
    | (old) "encodes released unused shapes meta" "map_of meta kLifetimeNamesEncodingMetadataKey = Some ''percent''"
    using ok by (auto simp: marker_ok_def)
  then show ?thesis
  proof cases
    case same
    then show ?thesis by (simp add: ReadLifetimeNames_entry entry marker premarked_def)
  next
    case fresh
    then show ?thesis
      using key marked_entry [OF fresh(2)] by (auto simp: ReadLifetimeNames_entry entry marker premarked_def)
  next
    case old
    then show ?thesis
      using key by (auto simp: ReadLifetimeNames_entry entry marker premarked_def marked_with_marker)
  qed
qed

section \<open>Properties\<close>

lemma read_after_write:
  assumes ok: "marker_ok meta"
    and names: "\<forall>name \<in> set released \<union> set unused \<union> set shapes. name \<noteq> ''''"
  shows "ReadLifetimeNames (write_node_metadata reuse released unused shapes meta) kReleaseAfterMetadataKey =
      (if released = [] then ReadLifetimeNames meta kReleaseAfterMetadataKey else Inr released)"
    "ReadLifetimeNames (write_node_metadata reuse released unused shapes meta) kNotUsedAfterMetadataKey =
      (if unused = [] then ReadLifetimeNames meta kNotUsedAfterMetadataKey else Inr unused)"
    "ReadLifetimeNames (write_node_metadata reuse released unused shapes meta) kReleaseAfterShapeTagMetadataKey =
      (if shapes = [] then ReadLifetimeNames meta kReleaseAfterShapeTagMetadataKey else Inr shapes)"
proof -
  let ?some = "\<not> (reuse = [] \<and> released = [] \<and> unused = [] \<and> shapes = [])"
  have written: "encodes released unused shapes meta \<or> \<not> needs_encoding released"
    "encodes released unused shapes meta \<or> \<not> needs_encoding unused"
    "encodes released unused shapes meta \<or> \<not> needs_encoding shapes" by (auto simp: encodes_def)
  show "ReadLifetimeNames (write_node_metadata reuse released unused shapes meta) kReleaseAfterMetadataKey =
      (if released = [] then ReadLifetimeNames meta kReleaseAfterMetadataKey else Inr released)"
  proof (cases "released = []")
    case True
    then show ?thesis using read_kept [OF ok, of reuse released unused shapes kReleaseAfterMetadataKey]
      by (cases ?some) (auto simp: write_node_skipped)
  next
    case False
    then have some: ?some by simp
    from False read_written [OF ok some _ written(1)] names show ?thesis
      by (simp add: ReadLifetimeNames_entry write_node_entries [OF some refl, of _ kReleaseAfterMetadataKey])
  qed
  show "ReadLifetimeNames (write_node_metadata reuse released unused shapes meta) kNotUsedAfterMetadataKey =
      (if unused = [] then ReadLifetimeNames meta kNotUsedAfterMetadataKey else Inr unused)"
  proof (cases "unused = []")
    case True
    then show ?thesis using read_kept [OF ok, of reuse released unused shapes kNotUsedAfterMetadataKey]
      by (cases ?some) (auto simp: write_node_skipped)
  next
    case False
    then have some: ?some by simp
    from False read_written [OF ok some _ written(2)] names show ?thesis
      by (simp add: ReadLifetimeNames_entry write_node_entries [OF some refl, of _ kNotUsedAfterMetadataKey])
  qed
  show "ReadLifetimeNames (write_node_metadata reuse released unused shapes meta) kReleaseAfterShapeTagMetadataKey =
      (if shapes = [] then ReadLifetimeNames meta kReleaseAfterShapeTagMetadataKey else Inr shapes)"
  proof (cases "shapes = []")
    case True
    then show ?thesis using read_kept [OF ok, of reuse released unused shapes kReleaseAfterShapeTagMetadataKey]
      by (cases ?some) (auto simp: write_node_skipped)
  next
    case False
    then have some: ?some by simp
    from False read_written [OF ok some _ written(3)] names show ?thesis
      by (simp add: ReadLifetimeNames_entry write_node_entries [OF some refl, of _ kReleaseAfterShapeTagMetadataKey])
  qed
qed

lemma read_reuse_after_write:
  assumes "\<forall>r \<in> set reuse. in_i64 (output_index r) \<and> in_i64 (input_index r)"
  shows "ParseInPlaceReuse (ReadNodeMetadata (write_node_metadata reuse released unused shapes meta)
      kInPlaceReuseMetadataKey) =
    (if reuse = [] then ParseInPlaceReuse (ReadNodeMetadata meta kInPlaceReuseMetadataKey) else reuse)"
proof (cases "reuse = [] \<and> released = [] \<and> unused = [] \<and> shapes = []")
  case False
  have "map_of (premarked released unused shapes meta) kInPlaceReuseMetadataKey = map_of meta kInPlaceReuseMetadataKey"
    by (simp add: premarked_def mark_encoding_def reencoded_other)
  with ParseInPlaceReuse_text [OF assms] show ?thesis
    by (auto simp: ReadNodeMetadata_def write_node_entries [OF False refl])
qed (simp add: write_node_skipped)

lemma with_metadata_simps [simp]:
  "metadata_props (with_metadata f nd) = f (metadata_props nd)"
  "node_reads (with_metadata f nd) = node_reads nd" "node_output (with_metadata f nd) = node_output nd"
  "node_input (with_metadata f nd) = node_input nd" "node_attribute (with_metadata f nd) = node_attribute nd"
  by (cases nd; simp)+

lemma WriteToMetadata_nth:
  assumes "WriteToMetadata ctx nodes = Inr nodes'" "i < length nodes"
  shows "nodes' ! i = with_metadata (write_node_metadata (node_reuse ctx ! i) (node_release_after ctx ! i)
      (node_not_used_after ctx ! i)
      (if length (node_shape_releases ctx) = length nodes then node_shape_releases ctx ! i else [])) (nodes ! i)"
    "length nodes' = length nodes"
  using assms by (auto simp: WriteToMetadata_def Let_def nth_enumerate_eq split: if_splits)

text \<open>C24: What the analysis writes on the nodes is what the planner reads.  Names may hold any
  character, the separator and the percent sign included; a list that is empty leaves the earlier
  annotation of the node with the meaning it had, even when the other lists switch the node to
  encoded names.  The names are not empty, the indices of the reuses are \<open>int64_t\<close> values, a list of
  shape-tagged releases is there for every node, and the node carries no encoding marker yet or the one the
  writer uses: an empty marker, which the reader takes for none and the writer for one, is excluded, because
  the writer then sets the marker without encoding the earlier lists (\<open>empty_marker_loses_names\<close>).\<close>

theorem annotations_round_trip:
  assumes "WriteToMetadata ctx nodes = Inr nodes'" "i < length nodes"
    and "marker_ok (metadata_props (nodes ! i))"
    and "released = node_release_after ctx ! i" "unused = node_not_used_after ctx ! i" "reuse = node_reuse ctx ! i"
    and "length (node_shape_releases ctx) = length nodes" "shapes = node_shape_releases ctx ! i"
    and "'''' \<notin> set released \<union> set unused \<union> set shapes"
    and "\<forall>r \<in> set reuse. in_i64 (output_index r) \<and> in_i64 (input_index r)"
    and "before = metadata_props (nodes ! i)" "after = metadata_props (nodes' ! i)"
  shows "ReadLifetimeNames after kReleaseAfterMetadataKey =
      (if released = [] then ReadLifetimeNames before kReleaseAfterMetadataKey else Inr released) \<and>
    ReadLifetimeNames after kNotUsedAfterMetadataKey =
      (if unused = [] then ReadLifetimeNames before kNotUsedAfterMetadataKey else Inr unused) \<and>
    ReadLifetimeNames after kReleaseAfterShapeTagMetadataKey =
      (if shapes = [] then ReadLifetimeNames before kReleaseAfterShapeTagMetadataKey else Inr shapes) \<and>
    ParseInPlaceReuse (ReadNodeMetadata after kInPlaceReuseMetadataKey) =
      (if reuse = [] then ParseInPlaceReuse (ReadNodeMetadata before kInPlaceReuseMetadataKey) else reuse)"
proof -
  have after: "after = write_node_metadata reuse released unused shapes before"
    using WriteToMetadata_nth(1) [OF assms(1,2)] assms by simp
  have names: "\<forall>name \<in> set released \<union> set unused \<union> set shapes. name \<noteq> ''''" using assms(9) by blast
  show ?thesis
    unfolding after
    using read_after_write [OF assms(3) [folded assms(11)] names] read_reuse_after_write [OF assms(10)] by blast
qed

text \<open>
  A marker with an empty value: the reader takes the earlier list as it is, the writer leaves it as it is
  and sets the marker, and the planner then rejects the list.
\<close>

definition empty_marker_node :: node where
  "empty_marker_node = Node ''Add'' '''' '''' [''a%b'', ''c'']  [''y''] []
     [(kLifetimeNamesEncodingMetadataKey, ''''), (kReleaseAfterMetadataKey, ''a%b'')]"

lemma empty_marker_loses_names:
  "ReadLifetimeNames (metadata_props empty_marker_node) kReleaseAfterMetadataKey = Inr [''a%b'']"
  "case WriteToMetadata \<lparr>node_reuse = [[]], node_release_after = [[]], node_not_used_after = [[''c'']],
       node_shape_releases = []\<rparr> [empty_marker_node] of
     Inr [nd] \<Rightarrow> ReadLifetimeNames (metadata_props nd) kReleaseAfterMetadataKey = Inl InvalidArgument
   | _ \<Rightarrow> False"
  by code_simp+

definition sample_node :: node where
  "sample_node = Node ''Add'' '''' '''' [''a;b'', ''c''] [''y''] []
     [(kNotUsedAfterMetadataKey, ''50%;x'')]"

definition sample_annotations :: annotations where
  "sample_annotations = \<lparr>node_reuse = [[\<lparr>output_index = 0, input_index = 1, reuse_kind = kEqual\<rparr>]],
     node_release_after = [[''a;b'', ''c'']], node_not_used_after = [[]], node_shape_releases = [[]]\<rparr>"

lemma sample_annotations_simps [simp]:
  "node_reuse sample_annotations = [[\<lparr>output_index = 0, input_index = 1, reuse_kind = kEqual\<rparr>]]"
  "node_release_after sample_annotations = [[''a;b'', ''c'']]"
  "node_not_used_after sample_annotations = [[]]" "node_shape_releases sample_annotations = [[]]"
  by (simp_all add: sample_annotations_def)

lemma sample_node_meta: "metadata_props sample_node = [(kNotUsedAfterMetadataKey, ''50%;x'')]"
  by (simp add: sample_node_def)

lemma sample_node_before: "ReadLifetimeNames (metadata_props sample_node) kNotUsedAfterMetadataKey = Inr [''50%'', ''x'']"
proof -
  have "SplitNames ''50%;x'' = [''50%'', ''x'']" by code_simp
  then show ?thesis by (simp add: sample_node_meta ReadLifetimeNames_def ReadNodeMetadata_def)
qed

lemma annotations_round_trip_witness:
  "\<exists>nd. WriteToMetadata sample_annotations [sample_node] = Inr [nd] \<and>
     ReadLifetimeNames (metadata_props nd) kReleaseAfterMetadataKey = Inr [''a;b'', ''c''] \<and>
     ReadLifetimeNames (metadata_props nd) kNotUsedAfterMetadataKey = Inr [''50%'', ''x'']"
proof -
  obtain nd where run: "WriteToMetadata sample_annotations [sample_node] = Inr [nd]"
    by (auto simp: WriteToMetadata_def)
  have "marker_ok (metadata_props ([sample_node] ! 0))" by (simp add: sample_node_meta marker_ok_def)
  from annotations_round_trip [OF run _ this refl refl refl _ refl _ _ refl refl] sample_node_before
  show ?thesis by (simp add: run i64_defs)
qed

end
