(* ===== verification/ResultLifetime.thy ===== *)
theory ResultLifetime
  imports GraphNames
begin

text \<open>
  The lifetime analysis of \<open>onnx_core/compute/result_lifetime.cc\<close>: for every node, which values are read
  for the last time there and can be released.
\<close>

section \<open>State\<close>

type_synonym producers = "string \<rightharpoonup> int"
type_synonym last_uses = "string \<rightharpoonup> nat"

record ResultLifetimeInfo =
  release_after :: "string list list"
  not_used_after :: "string list list"
  producer :: producers
  last_use :: last_uses
  keep :: "string set"
  graph_inputs :: "string set"
  graph_initializers :: "string set"
  graph_outputs :: "string set"

section \<open>The two passes\<close>

definition note_uses :: "nat \<Rightarrow> string list \<Rightarrow> last_uses \<Rightarrow> last_uses" where
  "note_uses i names uses = fold (\<lambda>name uses. uses(name \<mapsto> i)) names uses"

text \<open>An output gets its first producer, and a last use there when it has none.\<close>

definition note_output :: "nat \<Rightarrow> string \<Rightarrow> producers \<times> last_uses \<Rightarrow> producers \<times> last_uses" where
  "note_output i name = (\<lambda>(prods, uses).
     if name \<noteq> '''' \<and> prods name = None
     then (prods(name \<mapsto> int i), if uses name = None then uses(name \<mapsto> i) else uses)
     else (prods, uses))"

fun first_pass :: "nat \<Rightarrow> node list \<Rightarrow> producers \<times> last_uses \<Rightarrow> producers \<times> last_uses" where
  "first_pass i [] st = st"
| "first_pass i (nd # nodes) (prods, uses) =
     first_pass (Suc i) nodes
       (fold (note_output i) (node_output nd) (prods, note_uses i (CollectNodeInputs nd) uses))"

definition release_candidates :: "node \<Rightarrow> string list" where
  "release_candidates nd = CollectNodeInputs nd @ filter (\<lambda>name. name \<noteq> '''') (node_output nd)"

definition last_used_names :: "ResultLifetimeInfo \<Rightarrow> nat \<Rightarrow> node \<Rightarrow> string list" where
  "last_used_names info i nd = filter (\<lambda>name. last_use info name = Some i) (release_candidates nd)"

definition not_used_names :: "ResultLifetimeInfo \<Rightarrow> nat \<Rightarrow> node \<Rightarrow> string list" where
  "not_used_names info i nd =
     filter (\<lambda>name. name \<in> graph_inputs info \<or> name \<in> graph_initializers info) (last_used_names info i nd)"

definition releasable :: "ResultLifetimeInfo \<Rightarrow> nat \<Rightarrow> string \<Rightarrow> bool" where
  "releasable info i name \<longleftrightarrow> name \<notin> keep info \<and>
     (case producer info name of None \<Rightarrow> False | Some p \<Rightarrow> \<not> (p < 0 \<or> p > int i))"

definition released_names :: "ResultLifetimeInfo \<Rightarrow> nat \<Rightarrow> node \<Rightarrow> string list" where
  "released_names info i nd = filter (releasable info i) (last_used_names info i nd)"

definition input_producers :: "string set \<Rightarrow> producers" where
  "input_producers ins = (\<lambda>name. if name \<in> ins \<and> name \<noteq> '''' then Some (- 1) else None)"

text \<open>
  \<open>ComputeResultLifetimeInfoImpl\<close>, from the names a graph or a function declares.
\<close>

definition ComputeResultLifetimeInfoImpl ::
  "node list \<Rightarrow> bool \<Rightarrow> string set \<Rightarrow> string set \<Rightarrow> string set \<Rightarrow> ResultLifetimeInfo" where
  "ComputeResultLifetimeInfoImpl nodes allow_input_overwrite ins inits outs =
     (let keep0 = (if allow_input_overwrite then {} else ins) \<union> inits \<union> outs;
          prods0 = (if allow_input_overwrite then input_producers ins else Map.empty);
          (prods, uses) = first_pass 0 nodes (prods0, Map.empty);
          info = \<lparr>release_after = [], not_used_after = [], producer = prods, last_use = uses, keep = keep0,
                  graph_inputs = ins, graph_initializers = inits, graph_outputs = outs\<rparr>
      in info\<lparr>release_after := map (\<lambda>(i, nd). released_names info i nd) (enumerate 0 nodes),
              not_used_after := map (\<lambda>(i, nd). not_used_names info i nd) (enumerate 0 nodes)\<rparr>)"

definition ComputeResultLifetimeInfo :: "graph \<Rightarrow> bool \<Rightarrow> ResultLifetimeInfo" where
  "ComputeResultLifetimeInfo g allow_input_overwrite =
     ComputeResultLifetimeInfoImpl (graph_node g) allow_input_overwrite (set (graph_input g))
       (set (graph_initializer g) \<union> set (graph_extended_initializer g)) (set (graph_output g))"

definition ComputeFunctionLifetimeInfo :: "FunctionProto \<Rightarrow> bool \<Rightarrow> ResultLifetimeInfo" where
  "ComputeFunctionLifetimeInfo func allow_input_overwrite =
     ComputeResultLifetimeInfoImpl (function_node func) allow_input_overwrite (set (function_input func)) {}
       (set (function_output func))"

section \<open>What the first pass computes\<close>

lemma note_uses_eq: "note_uses i names uses name = (if name \<in> set names then Some i else uses name)"
  by (induction names arbitrary: uses) (auto simp: note_uses_def)

text \<open>The outputs of one node.\<close>

lemma note_outputs_producer:
  "fst (fold (note_output i) outs (prods, uses)) name =
     (if prods name = None \<and> name \<in> set outs \<and> name \<noteq> '''' then Some (int i) else prods name)"
  by (induction outs arbitrary: prods uses) (auto simp: note_output_def)

lemma note_outputs_uses:
  "snd (fold (note_output i) outs (prods, uses)) name =
     (if uses name = None \<and> prods name = None \<and> name \<in> set outs \<and> name \<noteq> '''' then Some i else uses name)"
  by (induction outs arbitrary: prods uses) (auto simp: note_output_def)

lemma first_pass_producer_kept:
  "first_pass k nodes (prods, uses) = (prods', uses') \<Longrightarrow> prods name = Some p \<Longrightarrow> prods' name = Some p"
proof (induction nodes arbitrary: k prods uses)
  case (Cons nd nodes)
  obtain prods1 uses1 where s: "fold (note_output k) (node_output nd) (prods, note_uses k (CollectNodeInputs nd) uses) =
    (prods1, uses1)" by fastforce
  have "prods1 name = Some p"
    using note_outputs_producer [of k "node_output nd" prods "note_uses k (CollectNodeInputs nd) uses" name]
      Cons.prems(2) s by simp
  with Cons s show ?case by simp
qed simp

lemma first_pass_producer:
  "first_pass k nodes (prods, uses) = (prods', uses') \<Longrightarrow> prods' name = Some p \<Longrightarrow>
   prods name = Some p \<or> (prods name = None \<and> name \<noteq> '''' \<and> (\<exists>j < length nodes. p = int (k + j) \<and>
     name \<in> set (node_output (nodes ! j)) \<and> (\<forall>l < j. name \<notin> set (node_output (nodes ! l)))))"
proof (induction nodes arbitrary: k prods uses)
  case (Cons nd nodes)
  obtain prods1 uses1 where s: "fold (note_output k) (node_output nd) (prods, note_uses k (CollectNodeInputs nd) uses) =
    (prods1, uses1)" by fastforce
  have p1: "prods1 name = (if prods name = None \<and> name \<in> set (node_output nd) \<and> name \<noteq> ''''
      then Some (int k) else prods name)"
    using note_outputs_producer [of k "node_output nd" prods "note_uses k (CollectNodeInputs nd) uses" name] s
    by simp
  from Cons.prems s have f: "first_pass (Suc k) nodes (prods1, uses1) = (prods', uses')" by simp
  show ?case
  proof (cases "prods name = None \<and> name \<in> set (node_output nd) \<and> name \<noteq> ''''")
    case True
    with p1 have "prods1 name = Some (int k)" by simp
    with first_pass_producer_kept [OF f this] Cons.prems(2) True show ?thesis
      by (intro disjI2 conjI exI [of _ 0]) auto
  next
    case False
    with p1 have "prods1 name = prods name" by simp
    with Cons.IH [OF f Cons.prems(2)] consider "prods name = Some p"
      | j where "prods name = None" "name \<noteq> ''''" "j < length nodes" "p = int (Suc k + j)"
        "name \<in> set (node_output (nodes ! j))" "\<forall>l < j. name \<notin> set (node_output (nodes ! l))" by auto
    then show ?thesis
    proof cases
      case (2 j)
      moreover have "\<forall>l < Suc j. name \<notin> set (node_output ((nd # nodes) ! l))"
        using False 2 by (auto simp: nth_Cons split: nat.splits)
      ultimately show ?thesis by (intro disjI2 conjI exI [of _ "Suc j"]) auto
    qed simp
  qed
qed simp

lemma first_pass_uses_kept:
  "first_pass k nodes (prods, uses) = (prods', uses') \<Longrightarrow> uses name = Some m \<Longrightarrow>
   \<exists>i. uses' name = Some i \<and> (i = m \<or> k \<le> i)"
proof (induction nodes arbitrary: k prods uses m)
  case (Cons nd nodes)
  obtain prods1 uses1 where s: "fold (note_output k) (node_output nd) (prods, note_uses k (CollectNodeInputs nd) uses) =
    (prods1, uses1)" by fastforce
  have "uses1 name = Some k \<or> uses1 name = Some m"
    using note_outputs_uses [of k "node_output nd" prods "note_uses k (CollectNodeInputs nd) uses" name]
      Cons.prems(2) s by (auto simp: note_uses_eq split: if_splits)
  moreover from Cons.prems s have "first_pass (Suc k) nodes (prods1, uses1) = (prods', uses')" by simp
  ultimately show ?case using Cons.IH [of "Suc k" prods1 uses1] by (metis Suc_leD le_refl)
qed simp

lemma first_pass_reader:
  "first_pass k nodes (prods, uses) = (prods', uses') \<Longrightarrow> j < length nodes \<Longrightarrow>
   name \<in> node_reads (nodes ! j) \<Longrightarrow> \<exists>i. uses' name = Some i \<and> k + j \<le> i"
proof (induction nodes arbitrary: k j prods uses)
  case (Cons nd nodes)
  obtain prods1 uses1 where s: "fold (note_output k) (node_output nd) (prods, note_uses k (CollectNodeInputs nd) uses) =
    (prods1, uses1)" by fastforce
  from Cons.prems s have f: "first_pass (Suc k) nodes (prods1, uses1) = (prods', uses')" by simp
  show ?case
  proof (cases j)
    case 0
    with Cons.prems(3) have "uses1 name = Some k"
      using note_outputs_uses [of k "node_output nd" prods "note_uses k (CollectNodeInputs nd) uses" name] s
      by (simp add: note_uses_eq CollectNodeInputs_reads)
    with first_pass_uses_kept [OF f this] 0 show ?thesis by auto
  next
    case (Suc j')
    with Cons.IH [OF f, of j'] Cons.prems show ?thesis by auto
  qed
qed simp

lemma first_pass_uses:
  "first_pass k nodes (prods, uses) = (prods', uses') \<Longrightarrow> uses' name = Some i \<Longrightarrow>
   uses name = Some i \<or> (\<exists>j < length nodes. i = k + j \<and>
     (name \<in> node_reads (nodes ! j) \<or>
      uses name = None \<and> prods name = None \<and> name \<noteq> '''' \<and> name \<in> set (node_output (nodes ! j)) \<and>
      (\<forall>l < j. name \<notin> set (node_output (nodes ! l)))))"
proof (induction nodes arbitrary: k prods uses)
  case (Cons nd nodes)
  obtain prods1 uses1 where s: "fold (note_output k) (node_output nd) (prods, note_uses k (CollectNodeInputs nd) uses) =
    (prods1, uses1)" by fastforce
  have u1: "uses1 name = (let u = (if name \<in> node_reads nd then Some k else uses name) in
      if u = None \<and> prods name = None \<and> name \<in> set (node_output nd) \<and> name \<noteq> '''' then Some k else u)"
    using note_outputs_uses [of k "node_output nd" prods "note_uses k (CollectNodeInputs nd) uses" name] s
    by (simp add: note_uses_eq CollectNodeInputs_reads Let_def)
  have p1: "prods1 name = (if prods name = None \<and> name \<in> set (node_output nd) \<and> name \<noteq> ''''
      then Some (int k) else prods name)"
    using note_outputs_producer [of k "node_output nd" prods "note_uses k (CollectNodeInputs nd) uses" name] s
    by simp
  from Cons.prems s have f: "first_pass (Suc k) nodes (prods1, uses1) = (prods', uses')" by simp
  from Cons.IH [OF f Cons.prems(2)] consider "uses1 name = Some i"
    | (read) j where "j < length nodes" "i = Suc k + j" "name \<in> node_reads (nodes ! j)"
    | (outp) j where "j < length nodes" "i = Suc k + j" "uses1 name = None" "prods1 name = None" "name \<noteq> ''''"
        "name \<in> set (node_output (nodes ! j))" "\<forall>l < j. name \<notin> set (node_output (nodes ! l))"
    by auto
  then show ?case
  proof cases
    case 1
    with u1 show ?thesis by (auto simp: Let_def split: if_splits intro: exI [of _ 0])
  next
    case (read j)
    then show ?thesis by (intro disjI2 exI [of _ "Suc j"]) auto
  next
    case (outp j)
    have "uses name = None" "prods name = None" "name \<notin> set (node_output nd)"
      using outp u1 p1 by (auto simp: Let_def split: if_splits)
    moreover from this have "\<forall>l < Suc j. name \<notin> set (node_output ((nd # nodes) ! l))"
      using outp by (auto simp: nth_Cons split: nat.splits)
    ultimately show ?thesis using outp by (intro disjI2 exI [of _ "Suc j"]) auto
  qed
qed simp

lemma first_pass_total:
  "first_pass k nodes (prods, uses) = (prods', uses') \<Longrightarrow> j < length nodes \<Longrightarrow>
   name \<in> set (node_output (nodes ! j)) \<Longrightarrow> name \<noteq> '''' \<Longrightarrow> prods name = None \<Longrightarrow>
   prods' name \<noteq> None \<and> uses' name \<noteq> None"
proof (induction nodes arbitrary: k j prods uses)
  case (Cons nd nodes)
  obtain prods1 uses1 where s: "fold (note_output k) (node_output nd) (prods, note_uses k (CollectNodeInputs nd) uses) =
    (prods1, uses1)" by fastforce
  have u1: "name \<in> set (node_output nd) \<Longrightarrow> uses1 name \<noteq> None"
    using note_outputs_uses [of k "node_output nd" prods "note_uses k (CollectNodeInputs nd) uses" name] s
      Cons.prems(4,5) by (auto split: if_splits)
  have p1: "prods1 name = (if name \<in> set (node_output nd) then Some (int k) else None)"
    using note_outputs_producer [of k "node_output nd" prods "note_uses k (CollectNodeInputs nd) uses" name] s
      Cons.prems(4,5) by simp
  from Cons.prems s have f: "first_pass (Suc k) nodes (prods1, uses1) = (prods', uses')" by simp
  show ?case
  proof (cases "name \<in> set (node_output nd)")
    case True
    with u1 p1 first_pass_producer_kept [OF f] first_pass_uses_kept [OF f] show ?thesis by fastforce
  next
    case False
    with Cons.prems(2,3) obtain j' where "j = Suc j'" by (cases j) auto
    with Cons.IH [OF f, of j'] Cons.prems False p1 show ?thesis by simp
  qed
qed simp

section \<open>What is released, and where\<close>

lemma input_producers_eq:
  "(if overwrite then input_producers ins else Map.empty) name =
   (if overwrite \<and> name \<in> ins \<and> name \<noteq> '''' then Some (- 1) else None)"
  by (simp add: input_producers_def)

lemma info_fields:
  assumes "info = ComputeResultLifetimeInfoImpl nodes overwrite ins inits outs"
  shows "first_pass 0 nodes (if overwrite then input_producers ins else Map.empty, Map.empty) =
      (producer info, last_use info)"
    "keep info = (if overwrite then {} else ins) \<union> inits \<union> outs"
    "graph_inputs info = ins" "graph_initializers info = inits" "graph_outputs info = outs"
    "length (release_after info) = length nodes" "length (not_used_after info) = length nodes"
    "i < length nodes \<Longrightarrow> release_after info ! i = released_names info i (nodes ! i)"
    "i < length nodes \<Longrightarrow> not_used_after info ! i = not_used_names info i (nodes ! i)"
  using assms
  by (auto simp: ComputeResultLifetimeInfoImpl_def Let_def nth_enumerate_eq released_names_def not_used_names_def
      last_used_names_def releasable_def split: prod.splits)

text \<open>A name is released where its last use is.\<close>

lemma released_name:
  assumes "info = ComputeResultLifetimeInfoImpl nodes overwrite ins inits outs" "i < length nodes"
    and "name \<in> set (release_after info ! i)"
  shows "last_use info name = Some i" "name \<notin> keep info" "\<exists>p. producer info name = Some (int p) \<and> p \<le> i"
proof -
  from info_fields(8) [OF assms(1,2)] assms(3) show "last_use info name = Some i" "name \<notin> keep info"
    by (auto simp: released_names_def last_used_names_def releasable_def)
  from info_fields(8) [OF assms(1,2)] assms(3) obtain p where "producer info name = Some p" "0 \<le> p" "p \<le> int i"
    by (auto simp: released_names_def last_used_names_def releasable_def split: option.splits)
  then show "\<exists>p. producer info name = Some (int p) \<and> p \<le> i" by (intro exI [of _ "nat p"]) auto
qed

lemma released_name_not_read:
  assumes info: "info = ComputeResultLifetimeInfoImpl nodes overwrite ins inits outs"
    and i: "i < length nodes" "name \<in> set (release_after info ! i)" and j: "i < j" "j < length nodes"
  shows "name \<notin> node_reads (nodes ! j)"
  using first_pass_reader [OF info_fields(1) [OF info] j(2)] released_name(1) [OF info i] j(1) by force

lemma released_name_produced:
  assumes info: "info = ComputeResultLifetimeInfoImpl nodes overwrite ins inits outs"
    and i: "i < length nodes" "name \<in> set (release_after info ! i)"
  shows "\<exists>p \<le> i. name \<in> set (produced_names (nodes ! p)) \<and> (\<forall>l < p. name \<notin> set (node_output (nodes ! l)))"
proof -
  from released_name(3) [OF info i] obtain p where p: "producer info name = Some (int p)" "p \<le> i" by auto
  from first_pass_producer [OF info_fields(1) [OF info] p(1)] p(2) show ?thesis
    by (auto simp: input_producers_eq produced_names_def split: if_splits)
qed

lemma released_name_not_input:
  assumes info: "info = ComputeResultLifetimeInfoImpl nodes overwrite ins inits outs"
    and i: "i < length nodes" "name \<in> set (release_after info ! i)"
  shows "name \<notin> ins"
proof
  assume "name \<in> ins"
  moreover have "name \<noteq> ''''" using released_name_produced [OF info i] by (auto simp: produced_names_def)
  ultimately show False
    using first_pass_producer_kept [OF info_fields(1) [OF info], of name "- 1"] released_name(2,3) [OF info i]
    by (auto simp: info_fields(2) [OF info] input_producers_eq split: if_splits)
qed

lemma sorted_candidates_distinct:
  assumes "single_assignment nodes" "topologically_sorted nodes" "i < length nodes"
  shows "distinct (release_candidates (nodes ! i))"
proof -
  have "node_reads (nodes ! i) \<inter> set (produced_names (nodes ! i)) = {}"
    using assms(2,3) unfolding topologically_sorted_def by blast
  with single_assignment_distinct [OF assms(1,3)] show ?thesis
    by (auto simp: release_candidates_def CollectNodeInputs_reads produced_names_def)
qed

lemma sorted_last_use:
  assumes info: "info = ComputeResultLifetimeInfoImpl nodes overwrite ins inits outs"
    and form: "single_assignment nodes" "topologically_sorted nodes"
    and p: "p < length nodes" "name \<in> set (produced_names (nodes ! p))" and ins: "name \<notin> ins"
  obtains i where "i < length nodes" "p \<le> i" "last_use info name = Some i" "producer info name = Some (int p)"
    "name \<in> set (release_candidates (nodes ! i))"
proof -
  let ?prods = "if overwrite then input_producers ins else Map.empty"
  from p(2) have name: "name \<noteq> ''''" "name \<in> set (node_output (nodes ! p))" by (auto simp: produced_names_def)
  have none: "?prods name = None" using ins by (simp add: input_producers_eq)
  from first_pass_total [OF info_fields(1) [OF info] p(1) name(2,1) none]
  obtain q i where q: "producer info name = Some q" and i: "last_use info name = Some i" by auto
  from first_pass_producer [OF info_fields(1) [OF info] q] none obtain k where
    k: "k < length nodes" "q = int k" "name \<in> set (node_output (nodes ! k))" by auto
  then have "k = p" using single_assignment_producer [OF form(1) k(1) p(1) _ p(2)] name(1)
    by (simp add: produced_names_def)
  from first_pass_uses [OF info_fields(1) [OF info] i]
  have bound: "i < length nodes" and
    cases: "name \<in> node_reads (nodes ! i) \<or> name \<in> set (node_output (nodes ! i))" by auto
  have "p \<le> i \<and> name \<in> set (release_candidates (nodes ! i))"
  proof (cases "name \<in> node_reads (nodes ! i)")
    case True
    with form(2) bound p have "p < i" unfolding topologically_sorted_def by blast
    with True show ?thesis by (simp add: release_candidates_def CollectNodeInputs_reads)
  next
    case False
    with cases name(1) have "name \<in> set (produced_names (nodes ! i))" by (simp add: produced_names_def)
    with single_assignment_producer [OF form(1) bound p(1) this p(2)] name show ?thesis
      by (simp add: release_candidates_def)
  qed
  with that bound i q k \<open>k = p\<close> show ?thesis by simp
qed

lemma count_list_concat: "count_list (concat xss) x = sum_list (map (\<lambda>xs. count_list xs x) xss)"
  by (induction xss) simp_all

lemma sum_list_single:
  "i < length xs \<Longrightarrow> (\<And>k. k < length xs \<Longrightarrow> k \<noteq> i \<Longrightarrow> xs ! k = 0) \<Longrightarrow> sum_list xs = (xs ! i :: nat)"
proof -
  assume i: "i < length xs" and zero: "\<And>k. k < length xs \<Longrightarrow> k \<noteq> i \<Longrightarrow> xs ! k = 0"
  have "sum_list xs = (\<Sum>k < length xs. xs ! k)" by (simp add: sum_list_sum_nth atLeast0LessThan)
  also have "\<dots> = (\<Sum>k < length xs. if k = i then xs ! i else 0)" using zero by (intro sum.cong) auto
  also have "\<dots> = xs ! i" using i by simp
  finally show ?thesis .
qed

lemma count_list_distinct: "distinct xs \<Longrightarrow> x \<in> set xs \<Longrightarrow> count_list xs x = 1"
  by (induction xs) (auto simp: count_list_0_iff)

lemma released_once:
  assumes info: "info = ComputeResultLifetimeInfoImpl nodes overwrite ins inits outs"
    and form: "single_assignment nodes" "topologically_sorted nodes"
    and p: "p < length nodes" "name \<in> set (produced_names (nodes ! p))"
    and ins: "name \<notin> ins" "name \<notin> inits" "name \<notin> outs"
  shows "count_list (concat (release_after info)) name = 1"
proof -
  from sorted_last_use [OF info form p ins(1)] obtain i where
    i: "i < length nodes" "p \<le> i" "last_use info name = Some i" "producer info name = Some (int p)"
    "name \<in> set (release_candidates (nodes ! i))" .
  have keep: "name \<notin> keep info" using ins by (auto simp: info_fields(2) [OF info])
  have other: "count_list (release_after info ! k) name = 0" if "k < length nodes" "k \<noteq> i" for k
    using released_name(1) [OF info that(1), of name] i(3) that(2) by (auto simp: count_list_0_iff)
  have "release_after info ! i = filter (releasable info i) (last_used_names info i (nodes ! i))"
    using info_fields(8) [OF info i(1)] by (simp add: released_names_def)
  moreover have "distinct \<dots>"
    using sorted_candidates_distinct [OF form i(1)] by (simp add: last_used_names_def)
  moreover have "name \<in> set (filter (releasable info i) (last_used_names info i (nodes ! i)))"
    using i keep by (simp add: last_used_names_def releasable_def)
  ultimately have "count_list (release_after info ! i) name = 1"
    by (simp add: count_list_distinct)
  with sum_list_single [of i "map (\<lambda>names. count_list names name) (release_after info)"] other i(1)
    info_fields(6) [OF info]
  show ?thesis by (simp add: count_list_concat)
qed

section \<open>Properties\<close>

text \<open>C16: A result is released only after the last node that needs it.  Every name that the metadata
  releases after a node is not an input, an initializer or an output of the graph, has been produced
  by that node or by one before it, and is read by no later node, neither directly nor inside a
  subgraph.\<close>

theorem release_is_safe:
  assumes "info = ComputeResultLifetimeInfo g overwrite"
    and "i < length (graph_node g)" "name \<in> set (release_after info ! i)"
  shows "name \<notin> set (graph_input g) \<union> set (graph_initializer g) \<union> set (graph_extended_initializer g) \<union>
      set (graph_output g) \<and>
    (\<exists>p \<le> i. name \<in> set (node_output (graph_node g ! p))) \<and>
    (\<forall>j. i < j \<and> j < length (graph_node g) \<longrightarrow> name \<notin> node_reads (graph_node g ! j))"
proof -
  note info = assms(1) [unfolded ComputeResultLifetimeInfo_def]
  have "name \<notin> set (graph_input g)"
    using released_name_not_input [OF info assms(2,3)] .
  moreover have "name \<notin> set (graph_initializer g) \<union> set (graph_extended_initializer g) \<union> set (graph_output g)"
    using released_name(2) [OF info assms(2,3)] by (auto simp: info_fields(2) [OF info])
  moreover have "\<exists>p \<le> i. name \<in> set (node_output (graph_node g ! p))"
    using released_name_produced [OF info assms(2,3)] by (auto simp: produced_names_def)
  ultimately show ?thesis using released_name_not_read [OF info assms(2,3)] by blast
qed

text \<open>A node that reads \<open>x\<close>, with a subgraph that reads \<open>t\<close>.\<close>

definition sample_graph :: graph where
  "sample_graph = Graph [''x''] [''w''] [] []
     [Node ''MatMul'' '''' '''' [''x'', ''w''] [''t''] [] [],
      Node ''If'' '''' '''' [''x''] [''u'']
        [Attribute GRAPH (Some (Graph [] [] [] [] [Node ''Neg'' '''' '''' [''t''] [''v''] [] []] [''v''] [])) []] [],
      Node ''Add'' '''' '''' [''u'', ''w''] [''y''] [] []]
     [''y''] []"

lemmas lifetime_defs =
  ComputeResultLifetimeInfo_def ComputeResultLifetimeInfoImpl_def input_producers_def note_uses_def note_output_def
  released_names_def not_used_names_def last_used_names_def release_candidates_def releasable_def
  CollectNodeInputs_def add_name_def outputs_of_def

lemma sample_graph_lifetime:
  "release_after (ComputeResultLifetimeInfo sample_graph overwrite) = [[], [''t''], [''u'']]"
  "not_used_after (ComputeResultLifetimeInfo sample_graph overwrite) = [[], [''x''], [''w'']]"
  by (simp_all add: lifetime_defs sample_graph_def)

lemma release_is_safe_witness:
  "''t'' \<notin> node_reads (graph_node sample_graph ! 2) \<and> ''t'' \<notin> set (graph_output sample_graph)"
proof -
  have "1 < length (graph_node sample_graph)" "2 < length (graph_node sample_graph)"
    by (simp_all add: sample_graph_def)
  with release_is_safe [OF refl, of 1 sample_graph "''t''" False] show ?thesis
    by (simp add: sample_graph_lifetime)
qed

text \<open>C17: Nothing stays in memory for ever.  In a graph whose names are assigned once and whose nodes
  are sorted, every result that is not an input, an initializer or an output is released exactly once.\<close>

theorem results_are_released_once:
  assumes "info = ComputeResultLifetimeInfo g overwrite"
    and "single_assignment (graph_node g)" "topologically_sorted (graph_node g)"
    and "nd \<in> set (graph_node g)" "name \<in> set (node_output nd)" "name \<noteq> ''''"
    and "name \<notin> set (graph_input g) \<union> set (graph_initializer g) \<union> set (graph_extended_initializer g) \<union>
      set (graph_output g)"
  shows "count_list (concat (release_after info)) name = 1"
proof -
  from assms(4) obtain p where p: "p < length (graph_node g)" "nd = graph_node g ! p"
    by (metis in_set_conv_nth)
  with assms(5,6) have "name \<in> set (produced_names (graph_node g ! p))" by (simp add: produced_names_def)
  from released_once [OF assms(1) [unfolded ComputeResultLifetimeInfo_def] assms(2,3) p(1) this] assms(7)
  show ?thesis by simp
qed

lemma results_are_released_once_witness:
  "count_list (concat (release_after (ComputeResultLifetimeInfo sample_graph True))) ''u'' = 1"
proof (rule results_are_released_once [OF refl])
  show "single_assignment (graph_node sample_graph)" by code_simp
  show "topologically_sorted (graph_node sample_graph)"
    by (auto simp: topologically_sorted_def sample_graph_def produced_names_def less_Suc_eq numeral_eq_Suc)
  show "graph_node sample_graph ! 1 \<in> set (graph_node sample_graph)" by (simp add: sample_graph_def)
qed (simp_all add: sample_graph_def)

end
