(* ===== verification/InplaceReuse.thy ===== *)
theory InplaceReuse
  imports ExprDims LifetimeMetadata ResultLifetime
begin

text \<open>
  The choice of in-place reuses of \<open>onnx_core/compute/inplace_reuse.cc\<close>: for each node, which outputs
  take over the buffer of an input that dies there.  The descriptors of the tensors come from shape
  inference and are a parameter; sizes are compared as integers when both shapes are known, else as
  simplified texts.
\<close>

section \<open>Descriptors\<close>

text \<open>The element types; those of sequences, maps, optionals and structures, which no operation here tells
  apart, are numbered.\<close>

datatype TensorType =
    kBool | kString | kUint8 | kUint16 | kUint32 | kUint64 | kInt8 | kInt16 | kInt32 | kInt64
  | kFloat16 | kFloat | kDouble | kBfloat16 | kFloat8e4m3fn | kFloat8e4m3fnuz | kFloat8e5m2
  | kFloat8e5m2fnuz | kFloat8e8m0 | kFloat4e2m1 | kUint4 | kInt4 | kUint2 | kInt2
  | kFloat6e2m3 | kFloat6e3m2 | kComplex64 | kComplex128 | kComposite nat | kUndefined

text \<open>A \<open>SymDim\<close> is an integer or a text, as a \<open>DimType\<close> is; \<open>ToDimType\<close> is then the identity.\<close>

type_synonym SymDim = DimType

record SymTensor =
  Dtype :: TensorType
  Shape :: "SymDim list"

type_synonym shapes = "string \<Rightarrow> SymTensor option"

definition ElementBitWidth :: "TensorType \<Rightarrow> int" where
  "ElementBitWidth t =
     (if t \<in> {kBool, kUint8, kInt8, kFloat8e4m3fn, kFloat8e4m3fnuz, kFloat8e5m2, kFloat8e5m2fnuz, kFloat8e8m0} then 8
      else if t \<in> {kUint16, kInt16, kFloat16, kBfloat16} then 16
      else if t \<in> {kUint32, kInt32, kFloat} then 32
      else if t \<in> {kUint64, kInt64, kDouble, kComplex64} then 64
      else if t = kComplex128 then 128
      else if t \<in> {kFloat4e2m1, kUint4, kInt4} then 4
      else if t \<in> {kUint2, kInt2} then 2
      else 0)"

primrec IsInt :: "SymDim \<Rightarrow> bool" where
  "IsInt (IntResult v) = True"
| "IsInt (TextResult t) = False"

text \<open>\<open>AsInt\<close> throws on a text; every caller asks \<open>IsInt\<close> or \<open>IsFullyKnown\<close> before.\<close>

primrec AsInt :: "SymDim \<Rightarrow> int" where
  "AsInt (IntResult v) = v"
| "AsInt (TextResult t) = 0"

definition IsFullyKnown :: "SymDim list \<Rightarrow> bool" where
  "IsFullyKnown dims \<longleftrightarrow> list_all IsInt dims"

section \<open>Sizes\<close>

definition packed_bytes :: "int \<Rightarrow> int \<Rightarrow> int res" where
  "packed_bytes bits num_elements =
     (if bits mod 8 = 0 then CheckedDimensionMultiply num_elements (bits div 8)
      else bindR (CheckedDimensionMultiply (num_elements div 8) bits) (\<lambda>complete_bytes.
           bindR (CheckedDimensionMultiply (num_elements mod 8) bits) (\<lambda>remaining_bits.
             CheckedDimensionAdd complete_bytes
               (remaining_bits div 8 + (if remaining_bits mod 8 \<noteq> 0 then 1 else 0)))))"

definition ConcreteByteSize :: "SymTensor \<Rightarrow> int option res" where
  "ConcreteByteSize t =
     (let bits = ElementBitWidth (Dtype t); dims = map AsInt (Shape t)
      in if bits = 0 then Inr None
         else if \<not> IsFullyKnown (Shape t) then Inr None
         else if list_ex (\<lambda>d. d < 0) dims then Inl InvalidArgument
         else if list_ex (\<lambda>d. d = 0) dims then Inr (Some 0)
         else bindR (foldR (\<lambda>d n. CheckedDimensionMultiply n d) dims 1) (\<lambda>num_elements.
                bindR (packed_bytes bits num_elements) (\<lambda>bytes. Inr (Some bytes))))"

definition kMaxSymbolicSize :: nat where "kMaxSymbolicSize = 4096"

text \<open>
  The scan of a shape that is not fully known: \<open>Some empty\<close> when all its texts are usable, \<open>None\<close> when
  one is unknown or they are too long together.
\<close>

fun scan_dims :: "SymDim list \<Rightarrow> nat \<Rightarrow> bool \<Rightarrow> bool option res" where
  "scan_dims [] symbolic_size zero = Inr (Some zero)"
| "scan_dims (IntResult v # dims) symbolic_size zero =
     (if v < 0 then Inl InvalidArgument else scan_dims dims symbolic_size (zero \<or> v = 0))"
| "scan_dims (TextResult t # dims) symbolic_size zero =
     (if t = '''' \<or> CHR ''?'' \<in> set t then Inr None
      else if length t > kMaxSymbolicSize - symbolic_size then Inr None
      else scan_dims dims (symbolic_size + length t) zero)"

definition dims_product :: "SymDim list \<Rightarrow> cache \<Rightarrow> (DimType \<times> cache) res" where
  "dims_product dims c = foldR (\<lambda>d (n, c). dim_mul n d c) dims (IntResult 1, c)"

definition ByteSizeExpr :: "SymTensor \<Rightarrow> cache \<Rightarrow> (DimType option \<times> cache) res" where
  "ByteSizeExpr t c =
     (let bits = ElementBitWidth (Dtype t)
      in if bits = 0 then Inr (None, c)
         else if IsFullyKnown (Shape t) then
           bindR (ConcreteByteSize t) (\<lambda>bytes. Inr (map_option IntResult bytes, c))
         else bindR (scan_dims (Shape t) 0 False) (\<lambda>scan. case scan of
             None \<Rightarrow> Inr (None, c)
           | Some True \<Rightarrow> Inr (Some (IntResult 0), c)
           | Some False \<Rightarrow>
               bindR (dims_product (Shape t) c) (\<lambda>(num_elements, c).
                 if bits mod 8 = 0 then
                   bindR (dim_mul num_elements (IntResult (bits div 8)) c) (\<lambda>(d, c). Inr (Some d, c))
                 else
                   bindR (dim_mul num_elements (IntResult bits) c) (\<lambda>(d, c).
                   bindR (dim_add d (IntResult 7) c) (\<lambda>(d, c).
                   bindR (dim_div d (IntResult 8) c) (\<lambda>(d, c).
                   bindR (simplify_dim_type d c) (\<lambda>(d, c). Inr (Some d, c))))))))"

definition SameStorage :: "SymTensor \<Rightarrow> SymTensor \<Rightarrow> bool" where
  "SameStorage a b \<longleftrightarrow> Dtype a = Dtype b \<and> Shape a = Shape b"

text \<open>The two caches that the analysis threads through: byte sizes by name, simplified texts.\<close>

type_synonym size_cache = "string \<Rightarrow> DimType option option"
type_synonym caches = "size_cache \<times> cache"

definition GetCachedByteSizeExpr :: "shapes \<Rightarrow> string \<Rightarrow> caches \<Rightarrow> (DimType option \<times> caches) res" where
  "GetCachedByteSizeExpr ctx name = (\<lambda>(sizes, c).
     case sizes name of
       Some entry \<Rightarrow> Inr (entry, (sizes, c))
     | None \<Rightarrow> (case ctx name of
           None \<Rightarrow> Inl InvalidArgument
         | Some t \<Rightarrow> bindR (ByteSizeExpr t c) (\<lambda>(entry, c). Inr (entry, (sizes(name \<mapsto> entry), c)))))"

definition ClassifyReuse ::
  "shapes \<Rightarrow> string \<Rightarrow> SymTensor \<Rightarrow> string \<Rightarrow> SymTensor \<Rightarrow> caches \<Rightarrow> (InPlaceReuseKind option \<times> caches) res" where
  "ClassifyReuse ctx out_name out_tensor in_name in_tensor cs =
     (if SameStorage out_tensor in_tensor then Inr (Some kEqual, cs)
      else bindR (ConcreteByteSize out_tensor) (\<lambda>out_bytes.
        bindR (ConcreteByteSize in_tensor) (\<lambda>in_bytes. case (out_bytes, in_bytes) of
          (Some m, Some n) \<Rightarrow>
            Inr (if n = m then Some kEqual else if n > m then Some kGreater else None, cs)
        | _ \<Rightarrow>
            bindR (GetCachedByteSizeExpr ctx out_name cs) (\<lambda>(out_expr, cs).
            bindR (GetCachedByteSizeExpr ctx in_name cs) (\<lambda>(in_expr, cs).
              Inr (if out_expr \<noteq> None \<and> in_expr \<noteq> None \<and> out_expr = in_expr then Some kEqual else None, cs))))))"

section \<open>The reuses of one node\<close>

record lifetimes =
  kept :: "string set"
  producer_of :: producers
  last_use_of :: last_uses

record reuse_state =
  node_result :: "InPlaceReuse list"
  used_inputs :: "nat set"
  matched_outputs :: "nat set"

text \<open>The tests on the names and the lifetimes of an output and an input.\<close>

definition may_take_over :: "shapes \<Rightarrow> lifetimes \<Rightarrow> node \<Rightarrow> nat \<Rightarrow> string \<Rightarrow> nat \<Rightarrow> bool" where
  "may_take_over ctx lt nd i out_name k \<longleftrightarrow>
     (let in_name = node_input nd ! k
      in in_name \<noteq> '''' \<and> in_name \<noteq> out_name \<and> count_list (node_input nd) in_name = 1 \<and>
         in_name \<notin> kept lt \<and>
         (case producer_of lt in_name of None \<Rightarrow> False | Some p \<Rightarrow> \<not> p \<ge> int i) \<and>
         last_use_of lt in_name = Some i \<and> ctx in_name \<noteq> None)"

text \<open>\<open>Squeeze\<close> and \<open>Unsqueeze\<close> keep the storage of their first input.\<close>

definition is_view :: "node \<Rightarrow> nat \<Rightarrow> SymTensor \<Rightarrow> SymTensor \<Rightarrow> bool" where
  "is_view nd k out_tensor in_tensor \<longleftrightarrow>
     k = 0 \<and> (op_type nd = ''Squeeze'' \<or> op_type nd = ''Unsqueeze'') \<and> Dtype out_tensor = Dtype in_tensor"

definition match_kind ::
  "shapes \<Rightarrow> node \<Rightarrow> string \<Rightarrow> SymTensor \<Rightarrow> nat \<Rightarrow> caches \<Rightarrow> (InPlaceReuseKind option \<times> caches) res" where
  "match_kind ctx nd out_name out_tensor k cs =
     (let in_name = node_input nd ! k; in_tensor = the (ctx in_name)
      in if is_view nd k out_tensor in_tensor then Inr (Some kEqual, cs)
         else ClassifyReuse ctx out_name out_tensor in_name in_tensor cs)"

text \<open>The first input from \<open>k\<close> on that fits.\<close>

fun find_input ::
  "shapes \<Rightarrow> lifetimes \<Rightarrow> node \<Rightarrow> nat \<Rightarrow> InPlaceReuseKind \<Rightarrow> string \<Rightarrow> SymTensor \<Rightarrow> nat set \<Rightarrow> nat list \<Rightarrow> caches \<Rightarrow>
   (nat option \<times> caches) res" where
  "find_input ctx lt nd i wanted out_name out_tensor used [] cs = Inr (None, cs)"
| "find_input ctx lt nd i wanted out_name out_tensor used (k # ks) cs =
     (if k \<in> used \<or> \<not> may_take_over ctx lt nd i out_name k
      then find_input ctx lt nd i wanted out_name out_tensor used ks cs
      else bindR (match_kind ctx nd out_name out_tensor k cs) (\<lambda>(found, cs).
             if found = Some wanted then Inr (Some k, cs)
             else find_input ctx lt nd i wanted out_name out_tensor used ks cs))"

definition match_output ::
  "shapes \<Rightarrow> lifetimes \<Rightarrow> node \<Rightarrow> nat \<Rightarrow> InPlaceReuseKind \<Rightarrow> nat \<Rightarrow> reuse_state \<times> caches \<Rightarrow>
   (reuse_state \<times> caches) res" where
  "match_output ctx lt nd i wanted out_index = (\<lambda>(st, cs).
     let out_name = node_output nd ! out_index
     in if out_index \<in> matched_outputs st \<or> out_name = '''' then Inr (st, cs)
        else case ctx out_name of None \<Rightarrow> Inr (st, cs)
        | Some out_tensor \<Rightarrow>
            bindR (find_input ctx lt nd i wanted out_name out_tensor (used_inputs st)
                     [0..<length (node_input nd)] cs) (\<lambda>(found, cs).
              case found of None \<Rightarrow> Inr (st, cs)
              | Some k \<Rightarrow> Inr (st\<lparr>node_result := node_result st @
                     [\<lparr>output_index = int out_index, input_index = int k, reuse_kind = wanted\<rparr>],
                   used_inputs := insert k (used_inputs st),
                   matched_outputs := insert out_index (matched_outputs st)\<rparr>, cs)))"

definition match_pass ::
  "shapes \<Rightarrow> lifetimes \<Rightarrow> node \<Rightarrow> nat \<Rightarrow> InPlaceReuseKind \<Rightarrow> reuse_state \<times> caches \<Rightarrow> (reuse_state \<times> caches) res" where
  "match_pass ctx lt nd i wanted = foldR (match_output ctx lt nd i wanted) [0..<length (node_output nd)]"

definition ComputeSingleNodeReuse ::
  "shapes \<Rightarrow> lifetimes \<Rightarrow> node \<Rightarrow> nat \<Rightarrow> caches \<Rightarrow> (InPlaceReuse list \<times> caches) res" where
  "ComputeSingleNodeReuse ctx lt nd i cs =
     bindR (foldR (match_pass ctx lt nd i) [kEqual, kGreater]
              (\<lparr>node_result = [], used_inputs = {}, matched_outputs = {}\<rparr>, cs))
       (\<lambda>(st, cs). Inr (sort_key output_index (node_result st), cs))"

definition ComputeInPlaceReuseMatches ::
  "shapes \<Rightarrow> node list \<Rightarrow> ResultLifetimeInfo \<Rightarrow> cache \<Rightarrow> (InPlaceReuse list list \<times> caches) res" where
  "ComputeInPlaceReuseMatches ctx nodes info c =
     foldR (\<lambda>(i, nd) (result, cs).
         bindR (ComputeSingleNodeReuse ctx \<lparr>kept = keep info, producer_of = producer info, last_use_of = last_use info\<rparr>
                  nd i cs) (\<lambda>(matches, cs). Inr (result @ [matches], cs)))
       (enumerate 0 nodes) ([], (Map.empty, c))"

section \<open>Exact sizes\<close>

text \<open>The bytes a tensor takes: its elements are packed.\<close>

definition storage_bytes :: "SymTensor \<Rightarrow> int" where
  "storage_bytes t = (ElementBitWidth (Dtype t) * prod_list (map AsInt (Shape t)) + 7) div 8"

lemma ElementBitWidth_cases: "ElementBitWidth t \<in> {0, 2, 4, 8, 16, 32, 64, 128}"
  by (simp add: ElementBitWidth_def)

lemma dims_fold:
  "\<forall>d \<in> set dims. 0 < d \<Longrightarrow> 0 < n \<Longrightarrow>
   foldR (\<lambda>d n. CheckedDimensionMultiply n d) dims n = Inr m \<longleftrightarrow>
   m = n * prod_list dims \<and> (dims = [] \<or> in_i64 (n * prod_list dims))"
proof (induction dims arbitrary: n)
  case (Cons d dims)
  have "0 < prod_list dims" if "\<forall>d \<in> set dims. 0 < d" for dims :: "int list"
    using that by (induction dims) auto
  then have pos: "0 < d" "0 < n * d" "0 < prod_list dims" using Cons.prems by auto
  have "in_i64 (n * d)" if "in_i64 (n * d * prod_list dims)"
  proof -
    have "n * d * 1 \<le> n * d * prod_list dims" using pos by (intro mult_left_mono) auto
    with that pos show ?thesis by (auto simp: i64_defs)
  qed
  with Cons.IH [of "n * d"] Cons.prems pos show ?case by (auto simp: algebra_simps)
qed auto

lemma round_up: "((x :: int) + 7) div 8 = x div 8 + (if x mod 8 \<noteq> 0 then 1 else 0)"
proof -
  have "(x + 7) div 8 = x div 8 + (x mod 8 + 7) div 8" by (subst div_add1_eq) simp
  moreover have "(x mod 8 + 7) div 8 = (if x mod 8 \<noteq> 0 then 1 else 0)"
  proof (cases "x mod 8 = 0")
    case False
    then have "8 \<le> x mod 8 + 7" "x mod 8 + 7 < 16"
      using pos_mod_sign [of 8 x] pos_mod_bound [of 8 x] by linarith+
    then have "(x mod 8 + 7) div 8 = 1" by (simp add: int_div_pos_eq [of _ _ _ "x mod 8 - 1"])
    with False show ?thesis by simp
  qed simp
  ultimately show ?thesis by simp
qed

lemma ceil_bytes:
  "n div 8 * bits + (n mod 8 * bits div 8 + (if n mod 8 * bits mod 8 \<noteq> 0 then 1 else 0)) =
   (bits * n + 7) div (8 :: int)"
proof -
  have "bits * n + 7 = bits * (n div 8 * 8 + n mod 8) + 7" by simp
  also have "\<dots> = n mod 8 * bits + 7 + 8 * (n div 8 * bits)" by (simp only: algebra_simps)
  finally have e: "(bits * n + 7) div 8 = (n mod 8 * bits + 7) div 8 + n div 8 * bits"
    by (simp only: div_mult_self4)
  from round_up [of "n mod 8 * bits"] e show ?thesis by simp
qed

lemma packed_bytes_exact:
  assumes "0 \<le> n" "in_i64 n" "bits \<in> {2, 4, 8, 16, 32, 64, 128}"
  shows "packed_bytes bits n = Inr m \<longleftrightarrow> m = (bits * n + 7) div 8 \<and> in_i64 m"
proof (cases "bits mod 8 = 0")
  case True
  then obtain k where k: "bits = 8 * k" by auto
  have "(8 * k * n + 7) div 8 = (7 + 8 * (n * k)) div 8" by (simp only: ac_simps)
  then have "(bits * n + 7) div 8 = n * (bits div 8)" by (simp add: k)
  with True show ?thesis by (auto simp: packed_bytes_def)
next
  case False
  then have two: "0 \<le> bits" "bits \<le> 4" using assms(3) by auto
  define q m where "q = n div 8 * bits" and "m = n mod 8 * bits"
  have "m \<le> 8 * 4" unfolding m_def by (rule mult_mono) (use two in auto)
  moreover have m: "0 \<le> m" using two by (simp add: m_def)
  ultimately have small: "in_i64 m" by (simp add: i64_defs)
  have q: "0 \<le> q" using assms(1) two by (simp add: q_def pos_imp_zdiv_nonneg_iff)
  have eq: "q + (m div 8 + (if m mod 8 \<noteq> 0 then 1 else 0)) = (bits * n + 7) div 8"
    unfolding q_def m_def by (rule ceil_bytes)
  have div_m: "0 \<le> m div 8" using m by (simp add: pos_imp_zdiv_nonneg_iff)
  have "in_i64 q" if "in_i64 ((bits * n + 7) div 8)"
    using that q div_m unfolding eq [symmetric] i64_defs by (simp split: if_splits)
  moreover have "packed_bytes bits n = bindR (CheckedDimensionMultiply (n div 8) bits) (\<lambda>complete_bytes.
      bindR (CheckedDimensionMultiply (n mod 8) bits) (\<lambda>remaining_bits. CheckedDimensionAdd complete_bytes
        (remaining_bits div 8 + (if remaining_bits mod 8 \<noteq> 0 then 1 else 0))))"
    using False by (simp only: packed_bytes_def if_False)
  ultimately show ?thesis
    using small by (simp only: bindR_eq_Inr checked_dim_Inr flip: q_def m_def) (auto simp: eq)
qed

text \<open>C26: The size of a tensor of known shape and known element width is exact.  For a shape of integers and
  an element type that \<open>ElementBitWidth\<close> knows (not a string and not one of the two \<open>FLOAT6\<close> types, for
  which it returns 0 and no size is given, although the verifier packs them in 6 bits), \<open>ConcreteByteSize\<close>
  returns \<open>n\<close> if and only if no dimension is negative and \<open>n\<close> is the number of bytes of the packed elements,
  rounded up, provided that the number of elements and of bytes fit 64 bits; a zero dimension gives zero
  bytes however large the others are.\<close>

theorem concrete_size_is_exact:
  assumes "IsFullyKnown (Shape t)" "ElementBitWidth (Dtype t) \<noteq> 0" "\<forall>d \<in> set (Shape t). in_i64 (AsInt d)"
  shows "ConcreteByteSize t = Inr (Some n) \<longleftrightarrow>
    (\<forall>d \<in> set (Shape t). 0 \<le> AsInt d) \<and> n = storage_bytes t \<and>
    (0 \<in> AsInt ` set (Shape t) \<or> in_i64 (prod_list (map AsInt (Shape t))) \<and> in_i64 n)"
proof -
  let ?dims = "map AsInt (Shape t)" and ?bits = "ElementBitWidth (Dtype t)"
  have bits: "?bits \<in> {2, 4, 8, 16, 32, 64, 128}" using ElementBitWidth_cases [of "Dtype t"] assms(2) by auto
  have ex: "list_ex (\<lambda>d. d < 0) ?dims \<longleftrightarrow> \<not> (\<forall>d \<in> set (Shape t). 0 \<le> AsInt d)"
    by (simp add: list_ex_iff not_le)
  have ex0: "list_ex (\<lambda>d. d = 0) ?dims \<longleftrightarrow> 0 \<in> AsInt ` set (Shape t)"
    by (auto simp: list_ex_iff)
  have run: "ConcreteByteSize t = (if \<not> (\<forall>d \<in> set (Shape t). 0 \<le> AsInt d) then Inl InvalidArgument
      else if 0 \<in> AsInt ` set (Shape t) then Inr (Some 0)
      else bindR (foldR (\<lambda>d n. CheckedDimensionMultiply n d) ?dims 1) (\<lambda>num_elements.
                bindR (packed_bytes ?bits num_elements) (\<lambda>bytes. Inr (Some bytes))))"
    unfolding ConcreteByteSize_def Let_def ex ex0 using assms(1,2) by simp
  have zero: "storage_bytes t = 0" if "0 \<in> AsInt ` set (Shape t)"
  proof -
    have "prod_list ?dims = 0" using that by (simp only: prod_list_zero_iff set_map)
    then show ?thesis by (simp add: storage_bytes_def)
  qed
  consider "\<not> (\<forall>d \<in> set (Shape t). 0 \<le> AsInt d)" | "\<forall>d \<in> set (Shape t). 0 \<le> AsInt d" "0 \<in> AsInt ` set (Shape t)"
    | "\<forall>d \<in> set (Shape t). 0 \<le> AsInt d" "0 \<notin> AsInt ` set (Shape t)" by blast
  then show ?thesis
  proof cases
    case 1
    then show ?thesis unfolding run by simp
  next
    case 2
    then show ?thesis unfolding run using zero by auto
  next
    case 3
    then have "0 < AsInt d" if "d \<in> set (Shape t)" for d using that by (metis image_eqI order_le_less)
    then have pos: "\<forall>d \<in> set ?dims. 0 < d" by simp
    have "ConcreteByteSize t = Inr (Some n) \<longleftrightarrow>
        (\<exists>m. foldR (\<lambda>d n. CheckedDimensionMultiply n d) ?dims 1 = Inr m \<and> packed_bytes ?bits m = Inr n)"
      using 3 by (simp add: run)
    also have "\<dots> \<longleftrightarrow> in_i64 (prod_list ?dims) \<and> packed_bytes ?bits (prod_list ?dims) = Inr n"
      using dims_fold [OF pos, of 1] by (cases "?dims = []") auto
    also have "\<dots> \<longleftrightarrow> in_i64 (prod_list ?dims) \<and> n = storage_bytes t \<and> in_i64 n"
    proof -
      have "0 \<le> prod_list ds" if "\<forall>d \<in> set ds. 0 < d" for ds :: "int list" using that by (induction ds) auto
      with pos have "0 \<le> prod_list ?dims" by blast
      then show ?thesis using packed_bytes_exact [OF _ _ bits] by (auto simp: storage_bytes_def)
    qed
    finally show ?thesis using 3 by blast
  qed
qed

lemma concrete_size_is_exact_witness:
  "ConcreteByteSize \<lparr>Dtype = kInt4, Shape = [IntResult 3, IntResult 3]\<rparr> = Inr (Some 5)"
  by (rule concrete_size_is_exact [THEN iffD2])
    (simp_all add: IsFullyKnown_def ElementBitWidth_def storage_bytes_def i64_defs)

section \<open>What a reuse may take\<close>

text \<open>The reason for which the kind of a reuse was chosen.\<close>

definition kind_justified :: "node \<Rightarrow> SymTensor \<Rightarrow> nat \<Rightarrow> SymTensor \<Rightarrow> InPlaceReuseKind \<Rightarrow> bool" where
  "kind_justified nd out_tensor k in_tensor wanted \<longleftrightarrow>
     (is_view nd k out_tensor in_tensor \<or> SameStorage out_tensor in_tensor) \<and> wanted = kEqual \<or>
     (\<exists>m n. ConcreteByteSize out_tensor = Inr (Some m) \<and> ConcreteByteSize in_tensor = Inr (Some n) \<and>
        (if wanted = kEqual then n = m else n > m)) \<or>
     wanted = kEqual \<and> (ConcreteByteSize out_tensor = Inr None \<or> ConcreteByteSize in_tensor = Inr None)"

lemma ClassifyReuse_justified:
  assumes "ClassifyReuse ctx out_name out_tensor in_name in_tensor cs = Inr (Some wanted, cs')"
  shows "kind_justified nd out_tensor k in_tensor wanted"
proof (cases "SameStorage out_tensor in_tensor")
  case True
  with assms show ?thesis by (simp add: ClassifyReuse_def kind_justified_def)
next
  case False
  with assms obtain m n where sizes: "ConcreteByteSize out_tensor = Inr m" "ConcreteByteSize in_tensor = Inr n"
    by (auto simp: ClassifyReuse_def)
  show ?thesis
  proof (cases "m = None \<or> n = None")
    case True
    with assms False sizes show ?thesis
      by (auto simp: ClassifyReuse_def kind_justified_def split: prod.splits if_splits option.splits)
  next
    case False
    with assms \<open>\<not> SameStorage out_tensor in_tensor\<close> sizes show ?thesis
      by (auto simp: ClassifyReuse_def kind_justified_def split: if_splits)
  qed
qed

lemma find_input_found:
  "find_input ctx lt nd i wanted out_name out_tensor used ks cs = Inr (Some k, cs') \<Longrightarrow>
   k \<in> set ks \<and> k \<notin> used \<and> may_take_over ctx lt nd i out_name k \<and>
   kind_justified nd out_tensor k (the (ctx (node_input nd ! k))) wanted"
proof (induction ctx lt nd i wanted out_name out_tensor used ks cs rule: find_input.induct)
  case (2 ctx lt nd i wanted out_name out_tensor used j ks cs)
  show ?case
  proof (cases "j \<in> used \<or> \<not> may_take_over ctx lt nd i out_name j")
    case True
    with 2 show ?thesis by simp
  next
    case False
    with 2(3) obtain found cs1 where m: "match_kind ctx nd out_name out_tensor j cs = Inr (found, cs1)" by auto
    show ?thesis
    proof (cases "found = Some wanted")
      case True
      have "kind_justified nd out_tensor j (the (ctx (node_input nd ! j))) wanted"
      proof (cases "is_view nd j out_tensor (the (ctx (node_input nd ! j)))")
        case view: True
        with m True show ?thesis by (simp add: match_kind_def Let_def kind_justified_def)
      next
        case False
        with m True show ?thesis
          by (intro ClassifyReuse_justified) (simp add: match_kind_def Let_def)
      qed
      with 2(3) False m True show ?thesis by simp
    next
      case other: False
      with 2(2) [OF False m refl] 2(3) False m show ?thesis by simp
    qed
  qed
qed simp

text \<open>The decisions taken so far: sound, with every input and every output used at most once.\<close>

definition sound_reuse :: "shapes \<Rightarrow> lifetimes \<Rightarrow> node \<Rightarrow> nat \<Rightarrow> InPlaceReuse \<Rightarrow> bool" where
  "sound_reuse ctx lt nd i r \<longleftrightarrow> (\<exists>oi k out_tensor in_tensor. output_index r = int oi \<and> input_index r = int k \<and>
     oi < length (node_output nd) \<and> k < length (node_input nd) \<and>
     ctx (node_output nd ! oi) = Some out_tensor \<and> ctx (node_input nd ! k) = Some in_tensor \<and>
     may_take_over ctx lt nd i (node_output nd ! oi) k \<and> kind_justified nd out_tensor k in_tensor (reuse_kind r))"

definition reuse_inv :: "shapes \<Rightarrow> lifetimes \<Rightarrow> node \<Rightarrow> nat \<Rightarrow> reuse_state \<Rightarrow> bool" where
  "reuse_inv ctx lt nd i st \<longleftrightarrow> (\<forall>r \<in> set (node_result st). sound_reuse ctx lt nd i r) \<and>
     distinct (map output_index (node_result st)) \<and> distinct (map input_index (node_result st)) \<and>
     set (map output_index (node_result st)) = int ` matched_outputs st \<and>
     set (map input_index (node_result st)) = int ` used_inputs st"

lemma match_output_inv:
  assumes "match_output ctx lt nd i wanted oi (st, cs) = Inr (st', cs')" "reuse_inv ctx lt nd i st"
    and "oi < length (node_output nd)"
  shows "reuse_inv ctx lt nd i st'"
proof (cases "oi \<in> matched_outputs st \<or> node_output nd ! oi = '''' \<or> ctx (node_output nd ! oi) = None")
  case True
  then have "match_output ctx lt nd i wanted oi (st, cs) = Inr (st, cs)" by (auto simp: match_output_def Let_def)
  with assms(1,2) show ?thesis by simp
next
  case False
  then obtain out_tensor where out: "ctx (node_output nd ! oi) = Some out_tensor" by auto
  with False assms(1) obtain found sizes c where
    f: "find_input ctx lt nd i wanted (node_output nd ! oi) out_tensor (used_inputs st)
       [0..<length (node_input nd)] cs = Inr (found, sizes, c)"
    and st': "st' = (case found of None \<Rightarrow> st
                  | Some k \<Rightarrow> st\<lparr>node_result := node_result st @
                        [\<lparr>output_index = int oi, input_index = int k, reuse_kind = wanted\<rparr>],
                      used_inputs := insert k (used_inputs st),
                      matched_outputs := insert oi (matched_outputs st)\<rparr>)"
    by (auto simp: match_output_def Let_def split: option.splits)
  show ?thesis
  proof (cases found)
    case None
    with st' assms(2) show ?thesis by simp
  next
    case (Some k)
    note k = find_input_found [OF f [unfolded Some]]
    then obtain in_tensor where inn: "ctx (node_input nd ! k) = Some in_tensor"
      by (auto simp: may_take_over_def Let_def)
    have "sound_reuse ctx lt nd i \<lparr>output_index = int oi, input_index = int k, reuse_kind = wanted\<rparr>"
      unfolding sound_reuse_def using assms(3) k out inn
      by (intro exI [of _ oi] exI [of _ k] exI [of _ out_tensor] exI [of _ in_tensor]) auto
    with st' Some assms(2) k False show ?thesis by (simp add: reuse_inv_def image_iff)
  qed
qed

lemma match_pass_inv:
  assumes "match_pass ctx lt nd i wanted st = Inr st'" "reuse_inv ctx lt nd i (fst st)"
  shows "reuse_inv ctx lt nd i (fst st')"
  using assms(1) [unfolded match_pass_def] assms(2)
proof (rule foldR_invariant)
  fix oi t t' assume "oi \<in> set [0..<length (node_output nd)]" "reuse_inv ctx lt nd i (fst t)"
    "match_output ctx lt nd i wanted oi t = Inr t'"
  then show "reuse_inv ctx lt nd i (fst t')" using match_output_inv by (cases t; cases t') fastforce
qed

lemma ComputeSingleNodeReuse_sound:
  assumes "ComputeSingleNodeReuse ctx lt nd i cs = Inr (rs, cs')"
  shows "\<forall>r \<in> set rs. sound_reuse ctx lt nd i r" "distinct (map output_index rs)" "distinct (map input_index rs)"
    "sorted (map output_index rs)"
proof -
  let ?start = "\<lparr>node_result = [], used_inputs = {}, matched_outputs = {}\<rparr>"
  obtain st cs1 where st: "foldR (match_pass ctx lt nd i) [kEqual, kGreater] (?start, cs) = Inr (st, cs1)"
    and rs: "rs = sort_key output_index (node_result st)"
    using assms by (auto simp: ComputeSingleNodeReuse_def)
  have "reuse_inv ctx lt nd i (fst (?start, cs))" by (simp add: reuse_inv_def)
  with st match_pass_inv have "reuse_inv ctx lt nd i (fst (st, cs1))" by (elim foldR_invariant)
  then have inv: "reuse_inv ctx lt nd i st" by simp
  have perm: "mset rs = mset (node_result st)" by (simp add: rs)
  from inv show "\<forall>r \<in> set rs. sound_reuse ctx lt nd i r" by (simp add: rs reuse_inv_def)
  have "mset (map f rs) = mset (map f (node_result st))" for f :: "InPlaceReuse \<Rightarrow> int" using perm by simp
  with inv show "distinct (map output_index rs)" "distinct (map input_index rs)"
    unfolding reuse_inv_def by (metis mset_eq_imp_distinct_iff)+
  show "sorted (map output_index rs)" by (simp add: rs)
qed

section \<open>All nodes\<close>

lemma ComputeInPlaceReuseMatches_nth:
  assumes "ComputeInPlaceReuseMatches ctx nodes info c = Inr (result, cs)"
  shows "length result = length nodes"
    "i < length nodes \<Longrightarrow> \<exists>cs cs'. ComputeSingleNodeReuse ctx
       \<lparr>kept = keep info, producer_of = producer info, last_use_of = last_use info\<rparr> (nodes ! i) i cs =
       Inr (result ! i, cs')"
proof -
  let ?f = "\<lambda>(i, nd) (result, cs).
         bindR (ComputeSingleNodeReuse ctx \<lparr>kept = keep info, producer_of = producer info, last_use_of = last_use info\<rparr>
                  nd i cs) (\<lambda>(matches, cs). Inr (result @ [matches], cs))"
  have run: "foldR ?f (enumerate k nodes) (done, cs0) = Inr (result, cs) \<Longrightarrow>
    \<exists>new. result = done @ new \<and> length new = length nodes \<and>
      (\<forall>i < length nodes. \<exists>cs cs'. ComputeSingleNodeReuse ctx
        \<lparr>kept = keep info, producer_of = producer info, last_use_of = last_use info\<rparr> (nodes ! i) (k + i) cs =
        Inr (new ! i, cs'))" for k "done" cs0
  proof (induction nodes arbitrary: k "done" cs0)
    case (Cons nd nodes)
    then obtain matches cs1 where m: "ComputeSingleNodeReuse ctx
        \<lparr>kept = keep info, producer_of = producer info, last_use_of = last_use info\<rparr> nd k cs0 = Inr (matches, cs1)"
      and rest: "foldR ?f (enumerate (Suc k) nodes) (done @ [matches], cs1) = Inr (result, cs)"
      by auto
    from Cons.IH [OF rest] obtain new where new: "result = (done @ [matches]) @ new" "length new = length nodes"
      "\<forall>i < length nodes. \<exists>cs cs'. ComputeSingleNodeReuse ctx
        \<lparr>kept = keep info, producer_of = producer info, last_use_of = last_use info\<rparr> (nodes ! i) (Suc k + i) cs =
        Inr (new ! i, cs')" by blast
    show ?case
      by (rule exI [of _ "matches # new"]) (use new m in \<open>auto simp: nth_Cons simp del: split_paired_Ex split: nat.splits\<close>)
  qed simp
  from run [of 0 "[]"] assms obtain new where "result = new" "length new = length nodes"
    "\<forall>i < length nodes. \<exists>cs cs'. ComputeSingleNodeReuse ctx
        \<lparr>kept = keep info, producer_of = producer info, last_use_of = last_use info\<rparr> (nodes ! i) i cs = Inr (new ! i, cs')"
    unfolding ComputeInPlaceReuseMatches_def by auto
  then show "length result = length nodes"
    "i < length nodes \<Longrightarrow> \<exists>cs cs'. ComputeSingleNodeReuse ctx
       \<lparr>kept = keep info, producer_of = producer info, last_use_of = last_use info\<rparr> (nodes ! i) i cs =
       Inr (result ! i, cs')" by auto
qed

text \<open>The sizes that a justified reuse compares.\<close>

lemma SameStorage_bytes: "SameStorage a b \<Longrightarrow> ConcreteByteSize a = ConcreteByteSize b"
  unfolding SameStorage_def by (cases a; cases b) simp

lemma kind_justified_fits:
  assumes "kind_justified nd out_tensor k in_tensor wanted" "\<not> is_view nd k out_tensor in_tensor"
    and "ConcreteByteSize out_tensor = Inr (Some m)" "ConcreteByteSize in_tensor = Inr (Some n)"
  shows "m \<le> n \<and> (wanted = kEqual \<longleftrightarrow> m = n)"
  using assms SameStorage_bytes [of out_tensor in_tensor]
  by (cases wanted) (auto simp: kind_justified_def)

text \<open>The names that may be taken over: produced earlier, read for the last time here.\<close>

lemma may_take_over_safe:
  assumes info: "info = ComputeResultLifetimeInfo g overwrite"
    and take: "may_take_over ctx \<lparr>kept = keep info, producer_of = producer info, last_use_of = last_use info\<rparr> nd i out_name k"
    and name: "name = node_input nd ! k"
  shows "name \<notin> set (graph_initializer g) \<union> set (graph_extended_initializer g) \<union> set (graph_output g) \<and>
    (name \<in> set (graph_input g) \<and> overwrite \<or>
     name \<notin> set (graph_input g) \<and> (\<exists>p < i. name \<in> set (node_output (graph_node g ! p)))) \<and>
    (\<forall>j. i < j \<and> j < length (graph_node g) \<longrightarrow> name \<notin> node_reads (graph_node g ! j))"
proof -
  note info' = info [unfolded ComputeResultLifetimeInfo_def]
  from take obtain p where ne: "name \<noteq> ''''" and keep: "name \<notin> keep info" and p: "producer info name = Some p" "p < int i"
    and use: "last_use info name = Some i"
    by (auto simp: may_take_over_def Let_def name split: option.splits)
  have "name \<in> set (graph_input g) \<and> overwrite \<or>
     name \<notin> set (graph_input g) \<and> (\<exists>p < i. name \<in> set (node_output (graph_node g ! p)))"
  proof (cases "name \<in> set (graph_input g)")
    case True
    with keep show ?thesis by (auto simp: info_fields(2) [OF info'] split: if_splits)
  next
    case False
    from first_pass_producer [OF info_fields(1) [OF info'] p(1)] p(2) False show ?thesis
      by (auto simp: input_producers_eq split: if_splits)
  qed
  moreover have "name \<notin> node_reads (graph_node g ! j)" if "i < j" "j < length (graph_node g)" for j
    using first_pass_reader [OF info_fields(1) [OF info'] that(2), of name] use that(1) by force
  ultimately show ?thesis using keep by (auto simp: info_fields(2) [OF info'])
qed
text \<open>What must hold of a value whose buffer a node overwrites.\<close>

definition free_at :: "graph \<Rightarrow> bool \<Rightarrow> nat \<Rightarrow> string \<Rightarrow> bool" where
  "free_at g overwrite i name \<longleftrightarrow>
     name \<notin> set (graph_initializer g) \<union> set (graph_extended_initializer g) \<union> set (graph_output g) \<and>
     (name \<in> set (graph_input g) \<and> overwrite \<or>
      name \<notin> set (graph_input g) \<and> (\<exists>p < i. name \<in> set (node_output (graph_node g ! p)))) \<and>
     (\<forall>j. i < j \<and> j < length (graph_node g) \<longrightarrow> name \<notin> node_reads (graph_node g ! j))"

text \<open>The output fits the buffer, as far as the sizes are known.\<close>

definition fits :: "shapes \<Rightarrow> node \<Rightarrow> nat \<Rightarrow> nat \<Rightarrow> bool" where
  "fits ctx nd oi k \<longleftrightarrow> (\<forall>a b m n. ctx (node_output nd ! oi) = Some a \<and> ctx (node_input nd ! k) = Some b \<and>
     ConcreteByteSize a = Inr (Some m) \<and> ConcreteByteSize b = Inr (Some n) \<and> \<not> is_view nd k a b \<longrightarrow> m \<le> n)"

text \<open>C18: An in-place reuse takes over a buffer that nobody needs.  The reuses of a node pair distinct
  outputs with distinct inputs; such an input occurs once among the inputs of the node, is produced
  by an earlier node (or is a graph input that may be overwritten), is no initializer and no output of
  the graph, is read by no later node, not even in a subgraph, and its buffer is large enough when both
  sizes are known and the node is not a view.\<close>

theorem reuse_is_safe:
  assumes "ComputeInPlaceReuseMatches ctx (graph_node g) (ComputeResultLifetimeInfo g overwrite) c = Inr (result, cs)"
    and "i < length (graph_node g)"
  shows "distinct (map output_index (result ! i)) \<and> distinct (map input_index (result ! i)) \<and>
    (\<forall>r \<in> set (result ! i). \<exists>oi k. output_index r = int oi \<and> input_index r = int k \<and>
       oi < length (node_output (graph_node g ! i)) \<and> k < length (node_input (graph_node g ! i)) \<and>
       count_list (node_input (graph_node g ! i)) (node_input (graph_node g ! i) ! k) = 1 \<and>
       free_at g overwrite i (node_input (graph_node g ! i) ! k) \<and> fits ctx (graph_node g ! i) oi k)"
proof (intro conjI ballI)
  let ?info = "ComputeResultLifetimeInfo g overwrite" and ?nd = "graph_node g ! i"
  let ?lt = "\<lparr>kept = keep ?info, producer_of = producer ?info, last_use_of = last_use ?info\<rparr>"
  from ComputeInPlaceReuseMatches_nth(2) [OF assms] obtain cs1 cs2 where
    run: "ComputeSingleNodeReuse ctx ?lt ?nd i cs1 = Inr (result ! i, cs2)" by auto
  note sound = ComputeSingleNodeReuse_sound [OF run]
  show "distinct (map output_index (result ! i))" "distinct (map input_index (result ! i))" by (fact sound)+
  fix r assume "r \<in> set (result ! i)"
  with sound(1) obtain oi k a b where r: "output_index r = int oi" "input_index r = int k"
    "oi < length (node_output ?nd)" "k < length (node_input ?nd)"
    "ctx (node_output ?nd ! oi) = Some a" "ctx (node_input ?nd ! k) = Some b"
    and take: "may_take_over ctx ?lt ?nd i (node_output ?nd ! oi) k"
    and just: "kind_justified ?nd a k b (reuse_kind r)" unfolding sound_reuse_def by blast
  have "free_at g overwrite i (node_input ?nd ! k)"
    unfolding free_at_def by (rule may_take_over_safe [OF refl take refl])
  moreover have "fits ctx ?nd oi k" using kind_justified_fits [OF just] r(5,6) by (auto simp: fits_def)
  moreover have "count_list (node_input ?nd) (node_input ?nd ! k) = 1"
    using take by (simp add: may_take_over_def Let_def)
  ultimately show "\<exists>oi k. output_index r = int oi \<and> input_index r = int k \<and>
       oi < length (node_output ?nd) \<and> k < length (node_input ?nd) \<and>
       count_list (node_input ?nd) (node_input ?nd ! k) = 1 \<and>
       free_at g overwrite i (node_input ?nd ! k) \<and> fits ctx ?nd oi k" using r by blast
qed

definition f32 :: "SymDim list \<Rightarrow> SymTensor" where
  "f32 dims = \<lparr>Dtype = kFloat, Shape = dims\<rparr>"

definition sample_shapes :: shapes where
  "sample_shapes = [''u'' \<mapsto> f32 [IntResult 4], ''w'' \<mapsto> f32 [IntResult 2], ''y'' \<mapsto> f32 [IntResult 2]]"

lemma sample_reuse:
  "ComputeInPlaceReuseMatches sample_shapes (graph_node sample_graph) (ComputeResultLifetimeInfo sample_graph False) None =
   Inr ([[], [], [\<lparr>output_index = 0, input_index = 0, reuse_kind = kGreater\<rparr>]], (Map.empty, None))"
  by (simp add: ComputeInPlaceReuseMatches_def ComputeSingleNodeReuse_def match_pass_def match_output_def
      may_take_over_def match_kind_def is_view_def ClassifyReuse_def SameStorage_def ConcreteByteSize_def
      IsFullyKnown_def ElementBitWidth_def packed_bytes_def i64_defs sample_shapes_def f32_def sample_graph_def
      lifetime_defs upt_rec Let_def numeral_2_eq_2)

lemma reuse_is_safe_witness: "free_at sample_graph False 2 ''u'' \<and> fits sample_shapes (graph_node sample_graph ! 2) 0 0"
proof -
  have two: "2 < length (graph_node sample_graph)" by (simp add: sample_graph_def)
  from reuse_is_safe [OF sample_reuse two] show ?thesis by (simp add: sample_graph_def)
qed

text \<open>A loop whose body reads the value that the loop starts from.\<close>

definition loop_body :: graph where
  "loop_body = Graph [''i'', ''c'', ''v''] [] [] [] [Node ''Add'' '''' '''' [''v'', ''t''] [''s''] [] []] [''c'', ''s''] []"

definition capturing_loop :: graph where
  "capturing_loop = Graph [''x'', ''n''] [] [] []
     [Node ''Neg'' '''' '''' [''x''] [''t''] [] [],
      Node ''Loop'' '''' '''' [''n'', '''', ''t''] [''u'']
        [Attribute GRAPH (Some loop_body) []] []]
     [''u''] []"

text \<open>Three gaps of the test, on examples.  Unknown dimensions count as equal, so that two tensors of unrelated
  sizes are reported as interchangeable; a symbolic size loses the parentheses of a floor division, so that
  an output of 16 bytes is offered a buffer of 12; and only direct inputs are counted, so that a loop is
  offered a value that its body reads.\<close>

lemma reuse_may_be_unsafe:
  "ClassifyReuse ctx ''o'' (f32 [TextResult '''']) ''i'' (f32 [TextResult '''']) cs = Inr (Some kEqual, cs) \<and>
   (\<exists>cs. ClassifyReuse [''o'' \<mapsto> f32 [TextResult ''a*b//2''], ''i'' \<mapsto> f32 [TextResult ''a'', TextResult ''b//2'']]
      ''o'' (f32 [TextResult ''a*b//2'']) ''i'' (f32 [TextResult ''a'', TextResult ''b//2'']) (Map.empty, None) =
      Inr (Some kEqual, cs)) \<and>
   evaluate_expression ''a*b//2'' (\<lambda>x. Some 3) = Inr 4 \<and>
   evaluate_expression ''a'' (\<lambda>x. Some 3) = Inr 3 \<and> evaluate_expression ''b//2'' (\<lambda>x. Some 3) = Inr 1 \<and>
   ComputeInPlaceReuseMatches [''t'' \<mapsto> f32 [IntResult 4], ''u'' \<mapsto> f32 [IntResult 4]] (graph_node capturing_loop)
     (ComputeResultLifetimeInfo capturing_loop False) None =
     Inr ([[], [\<lparr>output_index = 0, input_index = 2, reuse_kind = kEqual\<rparr>]], (Map.empty, None)) \<and>
   ''t'' \<in> graph_reads loop_body"
proof (intro conjI)
  let ?is = "\<lambda>r. case r of Inr (d, None) \<Rightarrow> d = Some (TextResult ''4*(a*b//2)'') | _ \<Rightarrow> False"
  have "?is (ByteSizeExpr (f32 [TextResult ''a*b//2'']) None)"
    "?is (ByteSizeExpr (f32 [TextResult ''a'', TextResult ''b//2'']) None)"
    by code_simp+
  then have "ByteSizeExpr (f32 [TextResult ''a*b//2'']) None = Inr (Some (TextResult ''4*(a*b//2)''), None)"
    "ByteSizeExpr (f32 [TextResult ''a'', TextResult ''b//2'']) None = Inr (Some (TextResult ''4*(a*b//2)''), None)"
    by (auto split: sum.splits option.splits)
  then show "\<exists>cs. ClassifyReuse [''o'' \<mapsto> f32 [TextResult ''a*b//2''], ''i'' \<mapsto> f32 [TextResult ''a'', TextResult ''b//2'']]
      ''o'' (f32 [TextResult ''a*b//2'']) ''i'' (f32 [TextResult ''a'', TextResult ''b//2'']) (Map.empty, None) =
      Inr (Some kEqual, cs)"
    by (simp add: ClassifyReuse_def SameStorage_def ConcreteByteSize_def IsFullyKnown_def ElementBitWidth_def
        GetCachedByteSizeExpr_def f32_def)
  show "ClassifyReuse ctx ''o'' (f32 [TextResult '''']) ''i'' (f32 [TextResult '''']) cs = Inr (Some kEqual, cs)"
    by (simp add: ClassifyReuse_def SameStorage_def)
  show "ComputeInPlaceReuseMatches [''t'' \<mapsto> f32 [IntResult 4], ''u'' \<mapsto> f32 [IntResult 4]] (graph_node capturing_loop)
     (ComputeResultLifetimeInfo capturing_loop False) None =
     Inr ([[], [\<lparr>output_index = 0, input_index = 2, reuse_kind = kEqual\<rparr>]], (Map.empty, None))"
    by (simp add: ClassifyReuse_def SameStorage_def ComputeInPlaceReuseMatches_def ComputeSingleNodeReuse_def
        match_pass_def match_output_def may_take_over_def match_kind_def is_view_def capturing_loop_def
        loop_body_def lifetime_defs upt_rec Let_def)
qed (code_simp, code_simp, code_simp, simp add: loop_body_def outputs_of_def)

end
