(* ===== verification/ExecutionPlan.thy ===== *)
theory ExecutionPlan
  imports ResultLifetime LifetimeMetadata
begin

text \<open>
  The execution plan of \<open>onnx_core/compute/execution_plan.cc\<close>: the sequence of actions (locks,
  allocations, node executions, releases) that the runtime performs for a graph, built from the
  nodes and the annotations on them, and the call \<open>ReleaseAfter\<close> that reads the releases back.  The
  messages of the exceptions are not kept.
\<close>

section \<open>Actions\<close>

datatype ExecuteActionKind =
    kLockInitializer | kUnlockInitializer | kLockInput | kUnlockInput | kAllocateBuffer | kDeleteBuffer
  | kTransfer | kExecuteNode | kCreateShape | kDeleteShape | kAllocateTemporaryBuffer
  | kDeleteTemporaryBuffer | kDeleteSequence | kDeleteMap

definition no_inplace :: InPlaceReuse where
  "no_inplace = \<lparr>output_index = - 1, input_index = - 1, reuse_kind = kEqual\<rparr>"

record ExecuteAction =
  action_kind :: ExecuteActionKind
  action_name :: string
  action_target :: string
  node_index :: nat
  action_size :: nat
  inplace :: InPlaceReuse

definition named_action :: "ExecuteActionKind \<Rightarrow> string \<Rightarrow> nat \<Rightarrow> ExecuteAction" where
  "named_action k name i = \<lparr>action_kind = k, action_name = name, action_target = '''', node_index = i,
     action_size = 0, inplace = no_inplace\<rparr>"

definition is_inplace :: "ExecuteAction \<Rightarrow> bool" where
  "is_inplace a \<longleftrightarrow> output_index (inplace a) \<ge> 0"

section \<open>The plan\<close>

record plan_inputs =
  plan_nodes :: "node list"
  plan_keep :: "string set"
  plan_input_names :: "string list"
  plan_initializer_names :: "string list"
  plan_output_names :: "string list"

text \<open>What the building loop keeps besides the actions.\<close>

record plan_state =
  actions :: "ExecuteAction list"
  locked :: "string set"
  created_shapes :: "string set"
  released :: "string set"
  temporary_slot_count :: nat

definition emit :: "ExecuteAction \<Rightarrow> plan_state \<Rightarrow> plan_state" where
  "emit a st = st\<lparr>actions := actions st @ [a]\<rparr>"

text \<open>
  The annotations of the nodes, what each node reads, and what is derived from them before the
  loop.
\<close>

record schedule =
  node_inputs :: "string list list"
  explicit_release :: "string list list"
  explicit_unused :: "string list list"
  plan_last_use :: last_uses
  shape_tagged :: "string set"

definition read_lists :: "string \<Rightarrow> node list \<Rightarrow> string list list res" where
  "read_lists key = mapR (\<lambda>nd. ReadLifetimeNames (metadata_props nd) key)"

definition plan_last_uses :: "string list list \<Rightarrow> last_uses" where
  "plan_last_uses ins = fold (\<lambda>(i, names). note_uses i names) (enumerate 0 ins) Map.empty"

definition all_names :: "string list list \<Rightarrow> string set" where
  "all_names = (\<lambda>xss. set (concat xss))"

definition is_strict :: "schedule \<Rightarrow> bool" where
  "is_strict sched \<longleftrightarrow> list_ex (\<lambda>names. names \<noteq> []) (explicit_unused sched)"

definition valid_explicit_unlocks :: "schedule \<Rightarrow> string set" where
  "valid_explicit_unlocks sched =
     set (concat (map (\<lambda>(i, names). filter (\<lambda>name.
       case plan_last_use sched name of None \<Rightarrow> True | Some k \<Rightarrow> i \<ge> k) names)
       (enumerate 0 (explicit_unused sched))))"

definition topology_releases :: "plan_inputs \<Rightarrow> schedule \<Rightarrow> nat \<Rightarrow> string list" where
  "topology_releases p sched i = filter (\<lambda>name. plan_last_use sched name = Some i \<and>
     name \<notin> plan_keep p \<and> name \<notin> all_names (explicit_release sched)) (node_inputs sched ! i)"

definition topology_unlocks :: "plan_inputs \<Rightarrow> schedule \<Rightarrow> nat \<Rightarrow> string list" where
  "topology_unlocks p sched i = filter (\<lambda>name. plan_last_use sched name = Some i \<and>
     (name \<in> set (plan_input_names p) \<or> name \<in> set (plan_initializer_names p)) \<and>
     name \<notin> set (plan_output_names p) \<and> name \<notin> valid_explicit_unlocks sched) (node_inputs sched ! i)"

definition make_schedule :: "plan_inputs \<Rightarrow> schedule res" where
  "make_schedule p =
     bindR (mapR (\<lambda>nd. bindR (ReadLifetimeNames (metadata_props nd) kReleaseAfterMetadataKey) (\<lambda>rel.
         bindR (ReadLifetimeNames (metadata_props nd) kNotUsedAfterMetadataKey) (\<lambda>unused. Inr (rel, unused))))
       (plan_nodes p)) (\<lambda>lists.
     bindR (read_lists kReleaseAfterShapeTagMetadataKey (plan_nodes p)) (\<lambda>shapes.
       let ins = map CollectNodeInputs (plan_nodes p)
       in Inr \<lparr>node_inputs = ins, explicit_release = map fst lists, explicit_unused = map snd lists,
               plan_last_use = plan_last_uses ins, shape_tagged = all_names shapes\<rparr>))"

section \<open>The steps for one node\<close>

definition lock_if_needed :: "plan_inputs \<Rightarrow> string \<Rightarrow> plan_state \<Rightarrow> plan_state" where
  "lock_if_needed p name st =
     (if name \<in> locked st then st
      else if name \<in> set (plan_initializer_names p) then
        emit (named_action kLockInitializer name 0) (st\<lparr>locked := insert name (locked st)\<rparr>)
      else if name \<in> set (plan_input_names p) then
        emit (named_action kLockInput name 0) (st\<lparr>locked := insert name (locked st)\<rparr>)
      else st)"

definition unlock :: "plan_inputs \<Rightarrow> string \<Rightarrow> plan_state \<Rightarrow> plan_state" where
  "unlock p name st =
     (if name \<in> set (plan_initializer_names p) then
        emit (named_action kUnlockInitializer name 0) (st\<lparr>locked := locked st - {name}\<rparr>)
      else if name \<in> set (plan_input_names p) then
        emit (named_action kUnlockInput name 0) (st\<lparr>locked := locked st - {name}\<rparr>)
      else st)"

definition reuse_target :: "node \<Rightarrow> InPlaceReuse \<Rightarrow> string" where
  "reuse_target nd r =
     (if input_index r \<ge> 0 \<and> input_index r < int (length (node_input nd))
      then node_input nd ! nat (input_index r) else '''')"

definition allocate_output ::
  "schedule \<Rightarrow> node \<Rightarrow> InPlaceReuse list \<Rightarrow> nat \<times> string \<Rightarrow> plan_state \<Rightarrow> plan_state" where
  "allocate_output sched nd reuse = (\<lambda>(o_index, out) st.
     if out = '''' then st
     else if out \<in> shape_tagged sched then
       emit (named_action kCreateShape out 0) (st\<lparr>created_shapes := insert out (created_shapes st)\<rparr>)
     else
       (case find (\<lambda>r. output_index r = int o_index) reuse of
          Some r \<Rightarrow> emit ((named_action kAllocateBuffer out 0)\<lparr>action_target := reuse_target nd r, inplace := r\<rparr>) st
        | None \<Rightarrow> emit (named_action kAllocateBuffer out 0) st))"

definition execute_node :: "node \<Rightarrow> nat \<Rightarrow> plan_state \<Rightarrow> plan_state" where
  "execute_node nd i st =
     (let peak_memory = ParsePeakMemory (ReadNodeMetadata (metadata_props nd) kNodePeakMemoryMetadataKey);
          temporary = (\<lambda>k. (named_action k '''' i)\<lparr>action_size := peak_memory\<rparr>);
          run = named_action kExecuteNode '''' i
      in if peak_memory \<noteq> 0
         then emit (temporary kDeleteTemporaryBuffer) (emit run (emit (temporary kAllocateTemporaryBuffer)
                (st\<lparr>temporary_slot_count := 1\<rparr>)))
         else emit run st)"

definition delete_kind :: "schedule \<Rightarrow> string \<Rightarrow> ExecuteActionKind" where
  "delete_kind sched name = (if name \<in> shape_tagged sched then kDeleteShape else kDeleteBuffer)"

definition release_name :: "schedule \<Rightarrow> nat \<Rightarrow> string \<Rightarrow> plan_state \<Rightarrow> plan_state" where
  "release_name sched i name st =
     emit (named_action (delete_kind sched name) name i) (st\<lparr>released := insert name (released st)\<rparr>)"

definition release_explicit :: "plan_inputs \<Rightarrow> schedule \<Rightarrow> nat \<Rightarrow> string \<Rightarrow> plan_state \<Rightarrow> plan_state res" where
  "release_explicit p sched i name st =
     (if \<not> (case plan_last_use sched name of None \<Rightarrow> True | Some k \<Rightarrow> i \<ge> k) then Inl InvalidArgument
      else if name \<in> plan_keep p then Inr st
      else if name \<in> shape_tagged sched \<and> is_strict sched \<and> name \<notin> created_shapes st
      then Inl (RuntimeError ''ExecutionPlan'')
      else Inr (release_name sched i name st))"

definition unlock_explicit :: "plan_inputs \<Rightarrow> schedule \<Rightarrow> nat \<Rightarrow> string \<Rightarrow> plan_state \<Rightarrow> plan_state" where
  "unlock_explicit p sched i name st =
     (case plan_last_use sched name of
        None \<Rightarrow> unlock p name st
      | Some k \<Rightarrow> if i < k then st else unlock p name st)"

definition plan_node :: "plan_inputs \<Rightarrow> schedule \<Rightarrow> nat \<times> node \<Rightarrow> plan_state \<Rightarrow> plan_state res" where
  "plan_node p sched = (\<lambda>(i, nd) st.
     let reuse = ParseInPlaceReuse (ReadNodeMetadata (metadata_props nd) kInPlaceReuseMetadataKey);
         st = fold (lock_if_needed p) (node_inputs sched ! i) st;
         st = fold (allocate_output sched nd reuse) (enumerate 0 (node_output nd)) st;
         st = execute_node nd i st
     in bindR (foldR (release_explicit p sched i) (explicit_release sched ! i) st) (\<lambda>st.
          let st = fold (release_name sched i) (topology_releases p sched i) st;
              st = fold (unlock_explicit p sched i) (explicit_unused sched ! i) st
          in Inr (fold (unlock p) (topology_unlocks p sched i) st)))"

section \<open>The end of the plan\<close>

text \<open>With lock-lifetime annotations the schedule has to be complete.\<close>

definition complete :: "plan_inputs \<Rightarrow> schedule \<Rightarrow> plan_state \<Rightarrow> bool" where
  "complete p sched st \<longleftrightarrow>
     list_all (\<lambda>nd. list_all (\<lambda>out. out = '''' \<or> out \<in> set (plan_output_names p) \<or>
       out \<notin> all_names (node_inputs sched) \<or> out \<in> released st) (node_output nd)) (plan_nodes p) \<and>
     (\<forall>name \<in> locked st. name \<in> set (plan_output_names p))"

definition unlock_rest :: "ExecuteActionKind \<Rightarrow> string \<Rightarrow> plan_state \<Rightarrow> plan_state" where
  "unlock_rest k name st =
     (if name \<in> locked st then emit (named_action k name 0) (st\<lparr>locked := locked st - {name}\<rparr>) else st)"

definition finish_plan :: "plan_inputs \<Rightarrow> schedule \<Rightarrow> plan_state \<Rightarrow> plan_state res" where
  "finish_plan p sched st =
     (if is_strict sched then (if complete p sched st then Inr st else Inl (RuntimeError ''ExecutionPlan''))
      else Inr (fold (unlock_rest kUnlockInitializer) (plan_initializer_names p)
             (fold (unlock_rest kUnlockInput) (plan_input_names p) st)))"

definition empty_plan :: plan_state where
  "empty_plan = \<lparr>actions = [], locked = {}, created_shapes = {}, released = {}, temporary_slot_count = 0\<rparr>"

definition BuildActions :: "plan_inputs \<Rightarrow> plan_state res" where
  "BuildActions p =
     (if plan_nodes p = [] then Inr empty_plan
      else bindR (make_schedule p) (\<lambda>sched.
             bindR (foldR (plan_node p sched) (enumerate 0 (plan_nodes p)) empty_plan) (finish_plan p sched)))"

section \<open>Plans of node ranges, graphs and functions\<close>

definition nonempty_names :: "string list \<Rightarrow> string list" where
  "nonempty_names = filter (\<lambda>name. name \<noteq> '''')"

definition plan_of_nodes :: "node list \<Rightarrow> string set \<Rightarrow> plan_inputs" where
  "plan_of_nodes nodes keep_names = \<lparr>plan_nodes = nodes, plan_keep = keep_names, plan_input_names = [],
     plan_initializer_names = [], plan_output_names = []\<rparr>"

definition plan_of_graph :: "graph \<Rightarrow> plan_inputs" where
  "plan_of_graph g =
     (let ins = nonempty_names (graph_input g); inits = nonempty_names (graph_initializer g);
          outs = nonempty_names (graph_output g)
      in \<lparr>plan_nodes = graph_node g,
          plan_keep = set ins \<union> set inits \<union> set outs \<union> set (CollectExternalInputs (graph_node g)),
          plan_input_names = ins, plan_initializer_names = inits, plan_output_names = outs\<rparr>)"

definition plan_of_function :: "FunctionProto \<Rightarrow> plan_inputs" where
  "plan_of_function f =
     (let ins = nonempty_names (function_input f); outs = nonempty_names (function_output f)
      in \<lparr>plan_nodes = function_node f,
          plan_keep = set ins \<union> set outs \<union> set (CollectExternalInputs (function_node f)),
          plan_input_names = ins, plan_initializer_names = [], plan_output_names = outs\<rparr>)"

text \<open>The calls that \<open>ReleaseAfter\<close> makes on the runtime context, for the node of an index.\<close>

datatype release_call = Remove string | RemoveShape string | RemoveMap string

definition release_call_of :: "ExecuteAction \<Rightarrow> release_call list" where
  "release_call_of a =
     (case action_kind a of kDeleteBuffer \<Rightarrow> [Remove (action_name a)] | kDeleteShape \<Rightarrow> [RemoveShape (action_name a)]
      | kDeleteSequence \<Rightarrow> [Remove (action_name a)] | kDeleteMap \<Rightarrow> [RemoveMap (action_name a)] | _ \<Rightarrow> [])"

definition ReleaseAfter :: "plan_inputs \<Rightarrow> plan_state \<Rightarrow> nat \<Rightarrow> release_call list" where
  "ReleaseAfter p plan index =
     (if index < length (plan_nodes p)
      then concat (map release_call_of (filter (\<lambda>a. node_index a = index) (actions plan))) else [])"

end
