(* ===== verification/PlanSafety.thy ===== *)
theory PlanSafety
  imports ExecutionPlan
begin

text \<open>
  What a plan does to memory.  A plan is run on a memory that knows which results are live and which
  inputs and initializers are locked; the run is stuck when a node would read a result that is not
  there, write one that has no buffer, or read an input or an initializer that is not locked.  Every
  plan that \<open>BuildActions\<close> returns runs to its end.
\<close>

section \<open>Running the actions\<close>

record memory =
  live :: "string set"
  held :: "string set"

definition external :: "plan_inputs \<Rightarrow> string set" where
  "external p = plan_keep p - outputs_of (plan_nodes p)"

definition guarded :: "plan_inputs \<Rightarrow> string set" where
  "guarded p = set (plan_input_names p) \<union> set (plan_initializer_names p)"

definition ready :: "plan_inputs \<Rightarrow> node \<Rightarrow> memory \<Rightarrow> bool" where
  "ready p nd m \<longleftrightarrow> node_reads nd \<subseteq> live m \<union> external p \<and> set (produced_names nd) \<subseteq> live m \<and>
     node_reads nd \<inter> guarded p \<subseteq> held m"

definition perform :: "plan_inputs \<Rightarrow> ExecuteAction \<Rightarrow> memory \<Rightarrow> memory option" where
  "perform p a m = (case action_kind a of
       kLockInput \<Rightarrow> Some (m\<lparr>held := insert (action_name a) (held m)\<rparr>)
     | kLockInitializer \<Rightarrow> Some (m\<lparr>held := insert (action_name a) (held m)\<rparr>)
     | kUnlockInput \<Rightarrow> Some (m\<lparr>held := held m - {action_name a}\<rparr>)
     | kUnlockInitializer \<Rightarrow> Some (m\<lparr>held := held m - {action_name a}\<rparr>)
     | kAllocateBuffer \<Rightarrow> Some (m\<lparr>live := insert (action_name a) (live m)\<rparr>)
     | kCreateShape \<Rightarrow> Some (m\<lparr>live := insert (action_name a) (live m)\<rparr>)
     | kDeleteBuffer \<Rightarrow> Some (m\<lparr>live := live m - {action_name a}\<rparr>)
     | kDeleteShape \<Rightarrow> Some (m\<lparr>live := live m - {action_name a}\<rparr>)
     | kExecuteNode \<Rightarrow>
         (if node_index a < length (plan_nodes p) \<and> ready p (plan_nodes p ! node_index a) m then Some m else None)
     | _ \<Rightarrow> Some m)"

fun perform_all :: "plan_inputs \<Rightarrow> ExecuteAction list \<Rightarrow> memory \<Rightarrow> memory option" where
  "perform_all p [] m = Some m"
| "perform_all p (a # acts) m = (case perform p a m of None \<Rightarrow> None | Some m' \<Rightarrow> perform_all p acts m')"

definition nothing :: memory where "nothing = \<lparr>live = {}, held = {}\<rparr>"

lemma perform_all_append:
  "perform_all p (as @ bs) m = (case perform_all p as m of None \<Rightarrow> None | Some m' \<Rightarrow> perform_all p bs m')"
  by (induction as arbitrary: m) (auto split: option.splits)

text \<open>The memory reached by the actions emitted so far; the builder's locked set is the held one.\<close>

definition tracks :: "plan_inputs \<Rightarrow> plan_state \<Rightarrow> string set \<Rightarrow> bool" where
  "tracks p st L \<longleftrightarrow> perform_all p (actions st) nothing = Some \<lparr>live = L, held = locked st\<rparr>"

lemma tracks_emit:
  assumes "tracks p st L" "perform p a \<lparr>live = L, held = locked st\<rparr> = Some \<lparr>live = L', held = locked st'\<rparr>"
    "actions st' = actions st"
  shows "tracks p (emit a st') L'"
  using assms by (simp add: tracks_def emit_def perform_all_append)

lemma emit_fields [simp]:
  "locked (emit a st) = locked st" "created_shapes (emit a st) = created_shapes st"
  "released (emit a st) = released st"
  by (simp_all add: emit_def)

lemma named_action_fields [simp]:
  "action_kind (named_action k name i) = k" "action_name (named_action k name i) = name"
  "node_index (named_action k name i) = i"
  by (simp_all add: named_action_def)

section \<open>The effect of single steps\<close>

lemma lock_step [simp]:
  "locked (lock_if_needed p name st) = (if name \<in> guarded p then insert name (locked st) else locked st)"
  "created_shapes (lock_if_needed p name st) = created_shapes st"
  "released (lock_if_needed p name st) = released st"
  by (auto simp: lock_if_needed_def guarded_def)

lemma unlock_step [simp]:
  "locked (unlock p name st) = (if name \<in> guarded p then locked st - {name} else locked st)"
  "created_shapes (unlock p name st) = created_shapes st" "released (unlock p name st) = released st"
  by (auto simp: unlock_def guarded_def)

lemma allocate_step [simp]:
  "locked (allocate_output sched nd reuse out st) = locked st"
  "created_shapes (allocate_output sched nd reuse out st) =
     (if snd out \<noteq> '''' \<and> snd out \<in> shape_tagged sched then insert (snd out) (created_shapes st) else created_shapes st)"
  "released (allocate_output sched nd reuse out st) = released st"
  by (cases out; auto simp: allocate_output_def split: option.splits)+

lemma release_step [simp]:
  "locked (release_name sched i name st) = locked st"
  "created_shapes (release_name sched i name st) = created_shapes st"
  "released (release_name sched i name st) = insert name (released st)"
  by (simp_all add: release_name_def)

lemma execute_step [simp]:
  "locked (execute_node nd i st) = locked st" "created_shapes (execute_node nd i st) = created_shapes st"
  "released (execute_node nd i st) = released st"
  by (simp_all add: execute_node_def Let_def)

lemma unlock_rest_step [simp]: "locked (unlock_rest k name st) = locked st - {name}"
  by (simp add: unlock_rest_def)

lemma tracks_lock: "tracks p st L \<Longrightarrow> tracks p (lock_if_needed p name st) L"
  by (auto simp: lock_if_needed_def perform_def intro: tracks_emit)

lemma tracks_unlock: "tracks p st L \<Longrightarrow> tracks p (unlock p name st) L"
  by (auto simp: unlock_def perform_def intro: tracks_emit)

lemma tracks_unlock_rest:
  "k = kUnlockInput \<or> k = kUnlockInitializer \<Longrightarrow> tracks p st L \<Longrightarrow> tracks p (unlock_rest k name st) L"
  by (auto simp: unlock_rest_def perform_def intro: tracks_emit)

lemma tracks_allocate:
  "tracks p st L \<Longrightarrow> tracks p (allocate_output sched nd reuse out st) (L \<union> ({snd out} - {''''}))"
  by (cases out) (auto simp: allocate_output_def perform_def split: option.splits intro!: tracks_emit)

lemma tracks_release: "tracks p st L \<Longrightarrow> tracks p (release_name sched i name st) (L - {name})"
  unfolding release_name_def delete_kind_def by (erule tracks_emit) (auto simp: perform_def)

lemma tracks_execute:
  assumes "tracks p st L" "i < length (plan_nodes p)" "ready p (plan_nodes p ! i) \<lparr>live = L, held = locked st\<rparr>"
  shows "tracks p (execute_node nd i st) L"
proof -
  have run: "tracks p (emit (named_action kExecuteNode '''' i) st') L"
    if "tracks p st' L" "locked st' = locked st" for st'
    by (rule tracks_emit [OF that(1)]) (use assms(2,3) that(2) in \<open>simp_all add: perform_def\<close>)
  have temp: "tracks p (emit ((named_action k '''' i)\<lparr>action_size := n\<rparr>) st') L"
    if "tracks p st' L" "k = kAllocateTemporaryBuffer \<or> k = kDeleteTemporaryBuffer" for st' k n
    by (rule tracks_emit [OF that(1)]) (use that(2) in \<open>auto simp: perform_def\<close>)
  have slot: "tracks p (st\<lparr>temporary_slot_count := 1\<rparr>) L" using assms(1) by (simp add: tracks_def)
  show ?thesis
    using run [OF assms(1) refl] temp [OF run [OF temp [OF slot]]] by (simp add: execute_node_def Let_def)
qed

section \<open>The effect of the phases\<close>

lemma lock_phase_fields [simp]:
  "locked (fold (lock_if_needed p) names st) = locked st \<union> set names \<inter> guarded p"
  "created_shapes (fold (lock_if_needed p) names st) = created_shapes st"
  "released (fold (lock_if_needed p) names st) = released st"
  by (induction names arbitrary: st) auto

lemma lock_phase: "tracks p st L \<Longrightarrow> tracks p (fold (lock_if_needed p) names st) L"
  by (induction names arbitrary: st) (simp_all add: tracks_lock)

lemma unlock_phase_fields [simp]:
  "locked (fold (unlock p) names st) = locked st - set names \<inter> guarded p"
  "created_shapes (fold (unlock p) names st) = created_shapes st"
  "released (fold (unlock p) names st) = released st"
  by (induction names arbitrary: st) auto

lemma unlock_phase: "tracks p st L \<Longrightarrow> tracks p (fold (unlock p) names st) L"
  by (induction names arbitrary: st) (simp_all add: tracks_unlock)



lemma allocate_phase_fields [simp]:
  "locked (fold (allocate_output sched nd reuse) outs st) = locked st"
  "created_shapes (fold (allocate_output sched nd reuse) outs st) =
     created_shapes st \<union> ((set (map snd outs) - {''''}) \<inter> shape_tagged sched)"
  "released (fold (allocate_output sched nd reuse) outs st) = released st"
  by (induction outs arbitrary: st) auto

lemma allocate_phase:
  "tracks p st L \<Longrightarrow> tracks p (fold (allocate_output sched nd reuse) outs st) (L \<union> (set (map snd outs) - {''''}))"
proof (induction outs arbitrary: st L)
  case (Cons out outs)
  from Cons.IH [OF tracks_allocate [OF Cons.prems]]
  have "tracks p (fold (allocate_output sched nd reuse) (out # outs) st)
      (L \<union> ({snd out} - {''''}) \<union> (set (map snd outs) - {''''}))" by simp
  moreover have "L \<union> ({snd out} - {''''}) \<union> (set (map snd outs) - {''''}) = L \<union> (set (map snd (out # outs)) - {''''})"
    by auto
  ultimately show ?case by metis
qed simp

lemma release_phase_fields [simp]:
  "locked (fold (release_name sched i) names st) = locked st"
  "created_shapes (fold (release_name sched i) names st) = created_shapes st"
  "released (fold (release_name sched i) names st) = released st \<union> set names"
  by (induction names arbitrary: st) auto

lemma release_phase:
  "tracks p st L \<Longrightarrow> tracks p (fold (release_name sched i) names st) (L - set names)"
proof (induction names arbitrary: st L)
  case (Cons name names)
  from Cons.IH [OF tracks_release [OF Cons.prems]] show ?case
    by (simp add: Diff_insert2 [of L name "set names"])
qed simp

definition past_last_use :: "schedule \<Rightarrow> nat \<Rightarrow> string \<Rightarrow> bool" where
  "past_last_use sched i name \<longleftrightarrow> (case plan_last_use sched name of None \<Rightarrow> True | Some k \<Rightarrow> i \<ge> k)"

lemma unlock_explicit_eq:
  "fold (unlock_explicit p sched i) names = fold (unlock p) (filter (past_last_use sched i) names)"
  by (induction names) (auto simp: unlock_explicit_def past_last_use_def fun_eq_iff split: option.splits)

text \<open>Explicit releases are those of the names that are not kept.\<close>

lemma release_explicit_eq:
  "foldR (release_explicit p sched i) names st = Inr st' \<Longrightarrow>
   st' = fold (release_name sched i) (filter (\<lambda>name. name \<notin> plan_keep p) names) st \<and>
   (\<forall>name \<in> set names. past_last_use sched i name)"
  by (induction names arbitrary: st) (auto simp: release_explicit_def past_last_use_def split: if_splits)

section \<open>The schedule\<close>

lemma make_schedule_fields:
  assumes "make_schedule p = Inr sched"
  shows "node_inputs sched = map CollectNodeInputs (plan_nodes p)"
    "plan_last_use sched = plan_last_uses (map CollectNodeInputs (plan_nodes p))"
    "length (explicit_release sched) = length (plan_nodes p)" "length (explicit_unused sched) = length (plan_nodes p)"
    "i < length (plan_nodes p) \<Longrightarrow> ReadLifetimeNames (metadata_props (plan_nodes p ! i)) kReleaseAfterMetadataKey =
       Inr (explicit_release sched ! i)"
    "i < length (plan_nodes p) \<Longrightarrow> ReadLifetimeNames (metadata_props (plan_nodes p ! i)) kNotUsedAfterMetadataKey =
       Inr (explicit_unused sched ! i)"
proof -
  let ?read = "\<lambda>nd. bindR (ReadLifetimeNames (metadata_props nd) kReleaseAfterMetadataKey) (\<lambda>rel.
         bindR (ReadLifetimeNames (metadata_props nd) kNotUsedAfterMetadataKey) (\<lambda>unused. Inr (rel, unused)))"
  obtain lists shapes where lists: "mapR ?read (plan_nodes p) = Inr lists"
    and s: "sched = \<lparr>node_inputs = map CollectNodeInputs (plan_nodes p), explicit_release = map fst lists,
      explicit_unused = map snd lists, plan_last_use = plan_last_uses (map CollectNodeInputs (plan_nodes p)),
      shape_tagged = all_names shapes\<rparr>"
    using assms by (auto simp: make_schedule_def Let_def)
  have len: "length lists = length (plan_nodes p)" using lists by (auto simp: mapR_Inr_iff dest: list_all2_lengthD)
  have nth: "?read (plan_nodes p ! i) = Inr (lists ! i)" if "i < length (plan_nodes p)" for i
    using lists that by (auto simp: mapR_Inr_iff list_all2_conv_all_nth)
  show "node_inputs sched = map CollectNodeInputs (plan_nodes p)"
    "plan_last_use sched = plan_last_uses (map CollectNodeInputs (plan_nodes p))"
    "length (explicit_release sched) = length (plan_nodes p)" "length (explicit_unused sched) = length (plan_nodes p)"
    by (simp_all add: s len)
  show "ReadLifetimeNames (metadata_props (plan_nodes p ! i)) kReleaseAfterMetadataKey = Inr (explicit_release sched ! i)"
    "ReadLifetimeNames (metadata_props (plan_nodes p ! i)) kNotUsedAfterMetadataKey = Inr (explicit_unused sched ! i)"
    if "i < length (plan_nodes p)"
    using nth [OF that] that len by (auto simp: s dest: sym)
qed

lemma plan_last_uses_snoc: "plan_last_uses (ins @ [names]) = note_uses (length ins) names (plan_last_uses ins)"
  by (simp add: plan_last_uses_def enumerate_append_eq)

lemma plan_last_uses_Some:
  "plan_last_uses ins name = Some k \<Longrightarrow> k < length ins \<and> name \<in> set (ins ! k)"
  by (induction ins rule: rev_induct)
    (auto simp: plan_last_uses_snoc note_uses_eq nth_append plan_last_uses_def [of "[]"] split: if_splits)

lemma plan_last_uses_reader:
  "j < length ins \<Longrightarrow> name \<in> set (ins ! j) \<Longrightarrow> \<exists>k. plan_last_uses ins name = Some k \<and> j \<le> k"
proof (induction ins rule: rev_induct)
  case (snoc names ins)
  show ?case
  proof (cases "name \<in> set names")
    case True
    with snoc.prems(1) show ?thesis by (auto simp: plan_last_uses_snoc note_uses_eq)
  next
    case False
    with snoc.prems have "j < length ins" "name \<in> set (ins ! j)" by (auto simp: nth_append less_Suc_eq)
    with snoc.IH False show ?thesis by (simp add: plan_last_uses_snoc note_uses_eq)
  qed
qed simp



lemma last_use_read:
  assumes sched: "make_schedule p = Inr sched"
  shows "plan_last_use sched name = Some k \<Longrightarrow> k < length (plan_nodes p) \<and> name \<in> node_reads (plan_nodes p ! k)"
  using plan_last_uses_Some [of "map CollectNodeInputs (plan_nodes p)" name k]
  by (auto simp: make_schedule_fields(2) [OF sched] CollectNodeInputs_reads)

lemma read_last_use:
  assumes sched: "make_schedule p = Inr sched"
  shows "j < length (plan_nodes p) \<Longrightarrow> name \<in> node_reads (plan_nodes p ! j) \<Longrightarrow>
   \<exists>k. plan_last_use sched name = Some k \<and> j \<le> k"
  using plan_last_uses_reader [of j "map CollectNodeInputs (plan_nodes p)" name]
  by (simp add: make_schedule_fields(2) [OF sched] CollectNodeInputs_reads)

section \<open>The effect of one node\<close>

definition unlocked_at :: "plan_inputs \<Rightarrow> schedule \<Rightarrow> nat \<Rightarrow> string set" where
  "unlocked_at p sched i = {name \<in> set (explicit_unused sched ! i). past_last_use sched i name} \<union>
     set (topology_unlocks p sched i)"

definition released_at :: "plan_inputs \<Rightarrow> schedule \<Rightarrow> nat \<Rightarrow> string set" where
  "released_at p sched i = (set (explicit_release sched ! i) - plan_keep p) \<union> set (topology_releases p sched i)"

lemma enumerate_outputs: "set (map snd (enumerate 0 (node_output nd))) - {''''} = set (produced_names nd)"
  by (simp add: set_produced_names del: set_map)

lemma plan_node_fields:
  assumes "plan_node p sched (i, nd) st = Inr st'" "node_inputs sched ! i = CollectNodeInputs nd"
  shows "locked st' = locked st \<union> node_reads nd \<inter> guarded p - unlocked_at p sched i \<inter> guarded p"
    "created_shapes st' = created_shapes st \<union> set (produced_names nd) \<inter> shape_tagged sched"
    "released st' = released st \<union> released_at p sched i"
    "\<forall>name \<in> set (explicit_release sched ! i). past_last_use sched i name"
  using assms
  by (auto simp: plan_node_def Let_def unlock_explicit_eq CollectNodeInputs_reads unlocked_at_def released_at_def
      set_produced_names dest!: release_explicit_eq)

lemma plan_node_tracks:
  assumes node: "plan_node p sched (i, nd) st = Inr st'" "node_inputs sched ! i = CollectNodeInputs nd"
    and i: "i < length (plan_nodes p)" "plan_nodes p ! i = nd" and st: "tracks p st L"
    and ready: "ready p nd \<lparr>live = L \<union> set (produced_names nd), held = locked st \<union> node_reads nd \<inter> guarded p\<rparr>"
  shows "tracks p st' (L \<union> set (produced_names nd) - released_at p sched i)"
proof -
  define reuse where "reuse = ParseInPlaceReuse (ReadNodeMetadata (metadata_props nd) kInPlaceReuseMetadataKey)"
  define st1 where "st1 = fold (lock_if_needed p) (CollectNodeInputs nd) st"
  define st2 where "st2 = fold (allocate_output sched nd reuse) (enumerate 0 (node_output nd)) st1"
  define st3 where "st3 = execute_node nd i st2"
  obtain st4 where st4: "foldR (release_explicit p sched i) (explicit_release sched ! i) st3 = Inr st4"
    and st': "st' = fold (unlock p) (topology_unlocks p sched i) (fold (unlock_explicit p sched i)
      (explicit_unused sched ! i) (fold (release_name sched i) (topology_releases p sched i) st4))"
    using node by (auto simp: plan_node_def Let_def st1_def st2_def st3_def reuse_def)
  have "tracks p st2 (L \<union> set (produced_names nd))"
    unfolding st2_def st1_def enumerate_outputs [symmetric] by (intro allocate_phase lock_phase st)
  moreover have "locked st2 = locked st \<union> node_reads nd \<inter> guarded p"
    by (simp add: st2_def st1_def CollectNodeInputs_reads)
  ultimately have "tracks p st3 (L \<union> set (produced_names nd))"
    unfolding st3_def by (intro tracks_execute) (use i ready in simp_all)
  from release_phase [OF this, of sched i "filter (\<lambda>name. name \<notin> plan_keep p) (explicit_release sched ! i)"]
  have "tracks p st4 (L \<union> set (produced_names nd) -
      set (filter (\<lambda>name. name \<notin> plan_keep p) (explicit_release sched ! i)))"
    using release_explicit_eq [OF st4] by metis
  from unlock_phase [OF unlock_phase [OF release_phase [OF this]]]
  have "tracks p st' (L \<union> set (produced_names nd) -
      set (filter (\<lambda>name. name \<notin> plan_keep p) (explicit_release sched ! i)) - set (topology_releases p sched i))"
    unfolding st' unlock_explicit_eq .
  moreover have "L \<union> set (produced_names nd) -
      set (filter (\<lambda>name. name \<notin> plan_keep p) (explicit_release sched ! i)) - set (topology_releases p sched i) =
      L \<union> set (produced_names nd) - released_at p sched i"
    by (auto simp: released_at_def)
  ultimately show ?thesis by simp
qed

section \<open>Whole plans\<close>

lemma foldR_enumerate_invariant:
  assumes "foldR f (enumerate k xs) s = Inr s'" "P k s"
    and "\<And>i t t'. i < length xs \<Longrightarrow> P (k + i) t \<Longrightarrow> f (k + i, xs ! i) t = Inr t' \<Longrightarrow> P (Suc (k + i)) t'"
  shows "P (k + length xs) s'"
  using assms
proof (induction xs arbitrary: k s)
  case (Cons x xs)
  from Cons.prems(1) obtain t where t: "f (k, x) s = Inr t" "foldR f (enumerate (Suc k) xs) t = Inr s'" by auto
  have "P (Suc k) t" using Cons.prems(3) [of 0 s t] Cons.prems(2) t(1) by simp
  moreover have "P (Suc (Suc k + i)) t2" if "i < length xs" "P (Suc k + i) t1" "f (Suc k + i, xs ! i) t1 = Inr t2" for i t1 t2
    using Cons.prems(3) [of "Suc i" t1 t2] that by simp
  ultimately show ?case using Cons.IH [OF t(2)] by simp
qed simp

text \<open>Every name a node reads exists before the plan or has been produced by an earlier node.\<close>

definition well_scoped :: "plan_inputs \<Rightarrow> bool" where
  "well_scoped p \<longleftrightarrow> (\<forall>k < length (plan_nodes p).
     node_reads (plan_nodes p ! k) \<subseteq> external p \<union> (\<Union>i < k. set (produced_names (plan_nodes p ! i))))"

definition still_needed :: "plan_inputs \<Rightarrow> schedule \<Rightarrow> nat \<Rightarrow> string set" where
  "still_needed p sched k = {name. (\<exists>i < k. name \<in> set (produced_names (plan_nodes p ! i))) \<and>
     (name \<in> plan_keep p \<or> (\<exists>j \<ge> k. plan_last_use sched name = Some j))}"

lemma still_needed_step:
  assumes "\<forall>name \<in> set (explicit_release sched ! k). past_last_use sched k name" "still_needed p sched k \<subseteq> L"
  shows "still_needed p sched (Suc k) \<subseteq> L \<union> set (produced_names (plan_nodes p ! k)) - released_at p sched k"
proof
  fix name
  assume name: "name \<in> still_needed p sched (Suc k)"
  then obtain i where i: "i < Suc k" "name \<in> set (produced_names (plan_nodes p ! i))"
    and use: "name \<in> plan_keep p \<or> (\<exists>j \<ge> Suc k. plan_last_use sched name = Some j)"
    by (auto simp: still_needed_def)
  have "name \<in> L \<union> set (produced_names (plan_nodes p ! k))"
    using i use assms(2) by (cases "i = k") (auto simp: still_needed_def less_Suc_eq dest: Suc_leD)
  moreover have "name \<notin> released_at p sched k"
    using use assms(1) by (auto simp: released_at_def topology_releases_def past_last_use_def)
  ultimately show "name \<in> L \<union> set (produced_names (plan_nodes p ! k)) - released_at p sched k" by simp
qed

lemma plan_node_ready:
  assumes "make_schedule p = Inr sched" "well_scoped p" "k < length (plan_nodes p)" "still_needed p sched k \<subseteq> L"
  shows "ready p (plan_nodes p ! k) \<lparr>live = L \<union> set (produced_names (plan_nodes p ! k)),
    held = H \<union> node_reads (plan_nodes p ! k) \<inter> guarded p\<rparr>"
proof -
  have "name \<in> L \<union> external p" if name: "name \<in> node_reads (plan_nodes p ! k)" for name
  proof (cases "name \<in> external p")
    case False
    with assms(2,3) name obtain i where "i < k" "name \<in> set (produced_names (plan_nodes p ! i))"
      unfolding well_scoped_def by blast
    with read_last_use [OF assms(1,3) name] assms(4) show ?thesis by (auto simp: still_needed_def)
  qed simp
  then show ?thesis by (auto simp: ready_def)
qed

lemma plan_loop:
  assumes sched: "make_schedule p = Inr sched" and scoped: "well_scoped p"
    and run: "foldR (plan_node p sched) (enumerate 0 (plan_nodes p)) empty_plan = Inr st"
  shows "\<exists>L. tracks p st L \<and> still_needed p sched (length (plan_nodes p)) \<subseteq> L" "locked st \<subseteq> guarded p"
proof -
  define P where "P = (\<lambda>k st. (\<exists>L. tracks p st L \<and> still_needed p sched k \<subseteq> L) \<and> locked st \<subseteq> guarded p)"
  have "P (0 + length (plan_nodes p)) st"
  proof (rule foldR_enumerate_invariant [OF run])
    show "P 0 empty_plan" by (simp add: P_def tracks_def empty_plan_def nothing_def still_needed_def)
    fix k t t'
    assume k: "k < length (plan_nodes p)" and t: "P (0 + k) t" and step: "plan_node p sched (0 + k, plan_nodes p ! k) t = Inr t'"
    from t obtain L where L: "tracks p t L" "still_needed p sched k \<subseteq> L" and locked: "locked t \<subseteq> guarded p"
      by (auto simp: P_def)
    have ins: "node_inputs sched ! k = CollectNodeInputs (plan_nodes p ! k)"
      using k by (simp add: make_schedule_fields(1) [OF sched])
    note step = step [simplified]
    from plan_node_tracks [OF step ins k refl L(1) plan_node_ready [OF sched scoped k L(2)]]
      still_needed_step [OF plan_node_fields(4) [OF step ins] L(2)]
    show "P (Suc (0 + k)) t'" using plan_node_fields(1) [OF step ins] locked by (auto simp: P_def)
  qed
  then show "\<exists>L. tracks p st L \<and> still_needed p sched (length (plan_nodes p)) \<subseteq> L" "locked st \<subseteq> guarded p"
    by (simp_all add: P_def)
qed

lemma outputs_of_nth: "name \<in> outputs_of nodes \<longleftrightarrow> (\<exists>i < length nodes. name \<in> set (produced_names (nodes ! i)))"
proof -
  have "name \<in> outputs_of nodes \<longleftrightarrow> (\<exists>nd \<in> set nodes. name \<in> set (produced_names nd))"
    by (auto simp: outputs_of_def set_produced_names)
  then show ?thesis by (metis in_set_conv_nth)
qed

lemma unlock_rest_fold:
  assumes "k = kUnlockInput \<or> k = kUnlockInitializer"
  shows "tracks p st L \<Longrightarrow> tracks p (fold (unlock_rest k) names st) L"
    "locked (fold (unlock_rest k) names st) = locked st - set names"
  by (induction names arbitrary: st) (use tracks_unlock_rest [OF assms] in auto)

lemma finish_plan_tracks:
  assumes "finish_plan p sched st = Inr plan" "tracks p st L" "locked st \<subseteq> guarded p"
  shows "tracks p plan L \<and> locked plan \<subseteq> set (plan_output_names p)"
  using assms unlock_rest_fold
  by (auto simp: finish_plan_def complete_def guarded_def split: if_splits)

lemma plan_executes:
  assumes "BuildActions p = Inr plan" "well_scoped p"
  shows "\<exists>m. perform_all p (actions plan) nothing = Some m \<and> held m \<subseteq> set (plan_output_names p) \<and>
    outputs_of (plan_nodes p) \<inter> plan_keep p \<subseteq> live m"
proof (cases "plan_nodes p = []")
  case True
  with assms(1) show ?thesis by (auto simp: BuildActions_def empty_plan_def nothing_def outputs_of_def)
next
  case False
  with assms(1) obtain sched st where sched: "make_schedule p = Inr sched"
    and loop: "foldR (plan_node p sched) (enumerate 0 (plan_nodes p)) empty_plan = Inr st"
    and fin: "finish_plan p sched st = Inr plan" by (auto simp: BuildActions_def)
  from plan_loop [OF sched assms(2) loop] obtain L where
    L: "tracks p st L" "still_needed p sched (length (plan_nodes p)) \<subseteq> L" "locked st \<subseteq> guarded p" by auto
  from finish_plan_tracks [OF fin L(1,3)]
  have "perform_all p (actions plan) nothing = Some \<lparr>live = L, held = locked plan\<rparr>"
    "locked plan \<subseteq> set (plan_output_names p)" by (auto simp: tracks_def)
  moreover have "outputs_of (plan_nodes p) \<inter> plan_keep p \<subseteq> L"
    using L(2) by (auto simp: still_needed_def outputs_of_nth)
  ultimately show ?thesis by auto
qed

text \<open>C4: A plan never uses memory that it has given back.  Whatever annotations the nodes carry, a plan
  that is built for nodes in topological order runs from the first action to the last: when a node is
  executed, everything it reads, inside its subgraphs too, has been produced and not been released,
  its outputs have their buffers, and the inputs and initializers it reads are locked.  At the end
  the results that are to be kept are live, and only outputs are still locked.\<close>

theorem plan_runs_safely:
  assumes "BuildActions p = Inr plan" "well_scoped p"
  shows "\<exists>m. perform_all p (actions plan) nothing = Some m \<and> held m \<subseteq> set (plan_output_names p) \<and>
    outputs_of (plan_nodes p) \<inter> plan_keep p \<subseteq> live m"
  using assms by (rule plan_executes)

text \<open>The nodes of a sorted graph or function are well scoped in the plan of it.\<close>

lemma sorted_well_scoped:
  assumes "topologically_sorted (plan_nodes p)" "set (CollectExternalInputs (plan_nodes p)) \<subseteq> plan_keep p"
  shows "well_scoped p"
  unfolding well_scoped_def
proof (intro allI impI subsetI)
  fix k name
  assume k: "k < length (plan_nodes p)" and name: "name \<in> node_reads (plan_nodes p ! k)"
  show "name \<in> external p \<union> (\<Union>i < k. set (produced_names (plan_nodes p ! i)))"
  proof (cases "name \<in> outputs_of (plan_nodes p)")
    case True
    then obtain i where i: "i < length (plan_nodes p)" "name \<in> set (produced_names (plan_nodes p ! i))"
      by (auto simp: outputs_of_nth)
    with k name assms(1) have "i < k" unfolding topologically_sorted_def by blast
    with i show ?thesis by blast
  next
    case False
    with k name have "name \<in> set (CollectExternalInputs (plan_nodes p))"
      by (auto simp: CollectExternalInputs_reads)
    with False assms(2) show ?thesis by (auto simp: external_def)
  qed
qed

lemma graph_well_scoped: "topologically_sorted (graph_node g) \<Longrightarrow> well_scoped (plan_of_graph g)"
  by (rule sorted_well_scoped) (simp_all add: plan_of_graph_def Let_def)

lemma function_well_scoped: "topologically_sorted (function_node f) \<Longrightarrow> well_scoped (plan_of_function f)"
  by (rule sorted_well_scoped) (simp_all add: plan_of_function_def Let_def)

text \<open>
  Nodes without lifetime annotations always have a plan.  Other metadata, such as the name of a scope, a
  node may have.
\<close>

definition unannotated :: "node \<Rightarrow> bool" where
  "unannotated nd \<longleftrightarrow> (\<forall>key \<in> {kLifetimeNamesEncodingMetadataKey, kReleaseAfterMetadataKey,
     kNotUsedAfterMetadataKey, kReleaseAfterShapeTagMetadataKey}. map_of (metadata_props nd) key = None)"

lemma unannotated_read:
  assumes "unannotated nd"
  shows "marker_ok (metadata_props nd)" "ReadLifetimeNames (metadata_props nd) kReleaseAfterMetadataKey = Inr []"
    "ReadLifetimeNames (metadata_props nd) kNotUsedAfterMetadataKey = Inr []"
    "ReadLifetimeNames (metadata_props nd) kReleaseAfterShapeTagMetadataKey = Inr []"
  using assms by (auto simp: unannotated_def marker_ok_def ReadLifetimeNames_def ReadNodeMetadata_def)

lemma mapR_const: "\<forall>x \<in> set xs. f x = Inr (g x) \<Longrightarrow> mapR f xs = Inr (map g xs)"
  by (induction xs) auto

lemma foldR_total: "(\<And>x s. x \<in> set xs \<Longrightarrow> \<exists>s'. f x s = Inr s') \<Longrightarrow> \<exists>s'. foldR f xs s = Inr s'"
  by (induction xs arbitrary: s) (auto, metis bindR_simps(2))

lemma unannotated_plan:
  assumes "\<forall>nd \<in> set (plan_nodes p). unannotated nd"
  shows "\<exists>plan. BuildActions p = Inr plan"
proof (cases "plan_nodes p = []")
  case False
  let ?none = "map (\<lambda>nd. []) (plan_nodes p)"
  obtain sched where s: "make_schedule p = Inr sched" "explicit_release sched = ?none" "explicit_unused sched = ?none"
    using assms
    by (simp add: make_schedule_def Let_def read_lists_def mapR_const [where g = "\<lambda>nd. []"]
        mapR_const [where g = "\<lambda>nd. ([], [])"] comp_def unannotated_read)
  have "\<exists>st'. plan_node p sched x st = Inr st'" if "x \<in> set (enumerate 0 (plan_nodes p))" for x st
  proof -
    obtain i nd where "x = (i, nd)" by fastforce
    with that s(2) show ?thesis by (auto simp: plan_node_def Let_def in_set_enumerate_eq)
  qed
  then obtain st where "foldR (plan_node p sched) (enumerate 0 (plan_nodes p)) empty_plan = Inr st"
    using foldR_total [of "enumerate 0 (plan_nodes p)" "plan_node p sched" empty_plan] by blast
  moreover have "\<not> is_strict sched" by (simp add: is_strict_def s(3) list_ex_iff)
  ultimately show ?thesis using False s(1) by (simp add: BuildActions_def finish_plan_def)
qed (simp add: BuildActions_def)

lemma sample_graph_sorted: "topologically_sorted (graph_node sample_graph)"
  by (auto simp: topologically_sorted_def sample_graph_def produced_names_def less_Suc_eq numeral_eq_Suc)

lemma plan_runs_safely_witness:
  "\<exists>plan m. BuildActions (plan_of_graph sample_graph) = Inr plan \<and>
     perform_all (plan_of_graph sample_graph) (actions plan) nothing = Some m \<and> ''y'' \<in> live m"
proof -
  let ?p = "plan_of_graph sample_graph"
  have "\<forall>nd \<in> set (plan_nodes ?p). unannotated nd"
    by (simp add: plan_of_graph_def sample_graph_def unannotated_def Let_def)
  then obtain plan where plan: "BuildActions ?p = Inr plan" using unannotated_plan by blast
  have "''y'' \<in> outputs_of (plan_nodes ?p) \<inter> plan_keep ?p"
    by (simp add: plan_of_graph_def sample_graph_def outputs_of_def nonempty_names_def Let_def)
  with plan_runs_safely [OF plan graph_well_scoped [OF sample_graph_sorted]] plan show ?thesis by blast
qed


end
