(* ===== verification/AnnotatedPlan.thy ===== *)
theory AnnotatedPlan
  imports InplaceReuse PlanSafety
begin

text \<open>
  The analysis and the planner together: a graph is analysed (\<open>ComputeResultLifetimeInfo\<close>), annotated
  (\<open>WriteToMetadata\<close>) and planned (\<open>ExecutionPlan\<close>).  The plan of an annotated graph always exists, runs,
  and leaves nothing behind but the outputs.
\<close>

section \<open>Annotating a graph\<close>

text \<open>
  \<open>ComputeInPlaceReuseGraph\<close> fills in the annotations: the reuses, the releases and the names not used any
  more, and the releases that are tagged as shapes.  Its events and its memory profiles, which are not
  written to the graph here, are left out.  The shapes, the tags and the cache of simplified texts come
  from the caller.
\<close>

definition shape_releases :: "(string \<times> string) list \<Rightarrow> string list list \<Rightarrow> string list list" where
  "shape_releases tags rel =
     (if tags = [] then [] else map (filter (\<lambda>name. map_of tags name = Some ''shape'')) rel)"

definition lifetime_annotations ::
  "InPlaceReuse list list \<Rightarrow> (string \<times> string) list \<Rightarrow> ResultLifetimeInfo \<Rightarrow> annotations" where
  "lifetime_annotations matches tags info =
     \<lparr>node_reuse = matches, node_release_after = release_after info, node_not_used_after = not_used_after info,
      node_shape_releases = shape_releases tags (release_after info)\<rparr>"

definition ComputeInPlaceReuseGraph ::
  "shapes \<Rightarrow> (string \<times> string) list \<Rightarrow> bool \<Rightarrow> cache \<Rightarrow> graph \<Rightarrow> annotations res" where
  "ComputeInPlaceReuseGraph ctx tags overwrite c g =
     (let info = ComputeResultLifetimeInfo g overwrite
      in bindR (ComputeInPlaceReuseMatches ctx (graph_node g) info c) (\<lambda>(matches, cs).
           Inr (lifetime_annotations matches tags info)))"

primrec with_nodes :: "node list \<Rightarrow> graph \<Rightarrow> graph" where
  "with_nodes nodes' (Graph ins inits sparse ext nodes outs infos) = Graph ins inits sparse ext nodes' outs infos"

text \<open>The computation followed by \<open>WriteToMetadata\<close>; \<open>WriteInPlaceReuseToMetadata\<close> never lets inputs be overwritten.\<close>

definition annotate_graph :: "shapes \<Rightarrow> (string \<times> string) list \<Rightarrow> bool \<Rightarrow> cache \<Rightarrow> graph \<Rightarrow> graph res" where
  "annotate_graph ctx tags overwrite c g =
     bindR (ComputeInPlaceReuseGraph ctx tags overwrite c g) (\<lambda>annotations.
     bindR (WriteToMetadata annotations (graph_node g)) (\<lambda>nodes'. Inr (with_nodes nodes' g)))"

definition WriteInPlaceReuseToMetadata :: "shapes \<Rightarrow> (string \<times> string) list \<Rightarrow> cache \<Rightarrow> graph \<Rightarrow> graph res" where
  "WriteInPlaceReuseToMetadata ctx tags c g = annotate_graph ctx tags False c g"

text \<open>The annotation with any reuses, of which the schedule does not depend.\<close>

definition write_lifetimes :: "InPlaceReuse list list \<Rightarrow> (string \<times> string) list \<Rightarrow> bool \<Rightarrow> graph \<Rightarrow> graph res" where
  "write_lifetimes matches tags overwrite g =
     bindR (WriteToMetadata (lifetime_annotations matches tags (ComputeResultLifetimeInfo g overwrite)) (graph_node g))
       (\<lambda>nodes'. Inr (with_nodes nodes' g))"

lemma annotate_graph_matches:
  "ComputeInPlaceReuseMatches ctx (graph_node g) (ComputeResultLifetimeInfo g overwrite) c = Inr (matches, cs) \<Longrightarrow>
   annotate_graph ctx tags overwrite c g = write_lifetimes matches tags overwrite g"
  by (simp add: annotate_graph_def ComputeInPlaceReuseGraph_def write_lifetimes_def)

lemma write_lifetimes_total:
  assumes "length matches = length (graph_node g)"
  shows "\<exists>g'. write_lifetimes matches tags overwrite g = Inr g'"
proof -
  have "length (release_after (ComputeResultLifetimeInfo g overwrite)) = length (graph_node g)"
    "length (not_used_after (ComputeResultLifetimeInfo g overwrite)) = length (graph_node g)"
    using info_fields(6,7) [OF refl] by (simp_all add: ComputeResultLifetimeInfo_def)
  with assms show ?thesis
    by (auto simp: write_lifetimes_def WriteToMetadata_def lifetime_annotations_def Let_def)
qed

text \<open>The graphs that the theorems are about.\<close>

definition well_formed :: "graph \<Rightarrow> bool" where
  "well_formed g \<longleftrightarrow> single_assignment (graph_node g) \<and> topologically_sorted (graph_node g) \<and>
     outputs_of (graph_node g) \<inter> (set (graph_input g) \<union> set (graph_initializer g) \<union>
       set (graph_extended_initializer g)) = {}"

section \<open>What the planner reads back\<close>

lemma with_nodes_simps [simp]:
  "graph_node (with_nodes nodes' g) = nodes'" "graph_input (with_nodes nodes' g) = graph_input g"
  "graph_initializer (with_nodes nodes' g) = graph_initializer g" "graph_output (with_nodes nodes' g) = graph_output g"
  "graph_extended_initializer (with_nodes nodes' g) = graph_extended_initializer g"
  by (cases g; simp)+

lemma released_nonempty:
  assumes "info = ComputeResultLifetimeInfoImpl nodes overwrite ins inits outs" "i < length nodes"
  shows "'''' \<notin> set (release_after info ! i)" "'''' \<notin> set (not_used_after info ! i)"
  using info_fields(8,9) [OF assms] empty_not_read(2)
  by (auto simp: released_names_def not_used_names_def last_used_names_def release_candidates_def CollectNodeInputs_reads)

lemma annotated_nodes:
  assumes "write_lifetimes matches tags overwrite g = Inr g'" "\<forall>nd \<in> set (graph_node g). unannotated nd"
    and "info = ComputeResultLifetimeInfo g overwrite" "i < length (graph_node g)"
  shows "length (graph_node g') = length (graph_node g)"
    "node_reads (graph_node g' ! i) = node_reads (graph_node g ! i)"
    "node_output (graph_node g' ! i) = node_output (graph_node g ! i)"
    "ReadLifetimeNames (metadata_props (graph_node g' ! i)) kReleaseAfterMetadataKey = Inr (release_after info ! i)"
    "ReadLifetimeNames (metadata_props (graph_node g' ! i)) kNotUsedAfterMetadataKey = Inr (not_used_after info ! i)"
    "\<exists>shapes. ReadLifetimeNames (metadata_props (graph_node g' ! i)) kReleaseAfterShapeTagMetadataKey = Inr shapes \<and>
      set shapes \<subseteq> set (release_after info ! i)"
proof -
  let ?ctx = "lifetime_annotations matches tags info"
  obtain nodes' where w: "WriteToMetadata ?ctx (graph_node g) = Inr nodes'" and g': "g' = with_nodes nodes' g"
    using assms(1,3) by (auto simp: write_lifetimes_def)
  note nth = WriteToMetadata_nth(1) [OF w assms(4)]
  show "length (graph_node g') = length (graph_node g)" by (simp add: g' WriteToMetadata_nth(2) [OF w assms(4)])
  show "node_reads (graph_node g' ! i) = node_reads (graph_node g ! i)"
    "node_output (graph_node g' ! i) = node_output (graph_node g ! i)" by (simp_all add: g' nth)
  define shapes where "shapes = (if length (node_shape_releases ?ctx) = length (graph_node g)
    then node_shape_releases ?ctx ! i else [])"
  have info: "info = ComputeResultLifetimeInfoImpl (graph_node g) overwrite (set (graph_input g))
       (set (graph_initializer g) \<union> set (graph_extended_initializer g)) (set (graph_output g))"
    using assms(3) by (simp add: ComputeResultLifetimeInfo_def)
  have shapes: "set shapes \<subseteq> set (release_after info ! i)"
    using assms(4) info_fields(6) [OF info]
    by (auto simp: shapes_def lifetime_annotations_def shape_releases_def split: if_splits)
  have names: "\<forall>name \<in> set (release_after info ! i) \<union> set (not_used_after info ! i) \<union> set shapes. name \<noteq> ''''"
    using released_nonempty [OF info assms(4)] shapes by blast
  have un: "unannotated (graph_node g ! i)" using assms(2,4) by simp
  note read = read_after_write [OF unannotated_read(1) [OF un] names, of "matches ! i"]
  have meta: "metadata_props (graph_node g' ! i) = write_node_metadata (matches ! i) (release_after info ! i)
      (not_used_after info ! i) shapes (metadata_props (graph_node g ! i))"
    by (simp add: g' nth shapes_def lifetime_annotations_def)
  show "ReadLifetimeNames (metadata_props (graph_node g' ! i)) kReleaseAfterMetadataKey = Inr (release_after info ! i)"
    "ReadLifetimeNames (metadata_props (graph_node g' ! i)) kNotUsedAfterMetadataKey = Inr (not_used_after info ! i)"
    using read(1,2) unannotated_read(2,3) [OF un] by (simp_all add: meta)
  show "\<exists>shapes. ReadLifetimeNames (metadata_props (graph_node g' ! i)) kReleaseAfterShapeTagMetadataKey = Inr shapes \<and>
      set shapes \<subseteq> set (release_after info ! i)"
    using read(3) unannotated_read(4) [OF un] shapes by (auto simp: meta)
qed

section \<open>The schedule of an annotated graph\<close>

lemma mapR_nth_ex:
  "(\<And>i. i < length xs \<Longrightarrow> \<exists>y. f (xs ! i) = Inr y \<and> Q i y) \<Longrightarrow>
   \<exists>ys. mapR f xs = Inr ys \<and> length ys = length xs \<and> (\<forall>i < length xs. Q i (ys ! i))"
proof (induction xs arbitrary: Q)
  case (Cons x xs)
  from Cons.prems [of 0] obtain y where y: "f x = Inr y" "Q 0 y" by auto
  have "\<exists>ys. mapR f xs = Inr ys \<and> length ys = length xs \<and> (\<forall>i < length xs. Q (Suc i) (ys ! i))"
    by (rule Cons.IH) (use Cons.prems in force)
  then obtain ys where "mapR f xs = Inr ys" "length ys = length xs" "\<forall>i < length xs. Q (Suc i) (ys ! i)" by auto
  with y show ?case
    by (intro exI [of _ "y # ys"]) (auto simp: nth_Cons split: nat.splits)
qed simp

text \<open>The schedule carries the results of the analysis of \<open>g\<close>.\<close>

definition follows :: "schedule \<Rightarrow> plan_inputs \<Rightarrow> graph \<Rightarrow> bool \<Rightarrow> ResultLifetimeInfo \<Rightarrow> bool" where
  "follows sched p g overwrite info \<longleftrightarrow> make_schedule p = Inr sched \<and> length (plan_nodes p) = length (graph_node g) \<and>
     (\<forall>i < length (graph_node g). node_reads (plan_nodes p ! i) = node_reads (graph_node g ! i) \<and>
        node_output (plan_nodes p ! i) = node_output (graph_node g ! i) \<and>
        explicit_release sched ! i = release_after info ! i \<and> explicit_unused sched ! i = not_used_after info ! i) \<and>
     shape_tagged sched \<subseteq> set (concat (release_after info)) \<and>
     info = ComputeResultLifetimeInfoImpl (graph_node g) overwrite (set (graph_input g))
       (set (graph_initializer g) \<union> set (graph_extended_initializer g)) (set (graph_output g))"

lemma annotated_schedule:
  assumes ann: "write_lifetimes matches tags overwrite g = Inr g'" "\<forall>nd \<in> set (graph_node g). unannotated nd"
    and info: "info = ComputeResultLifetimeInfo g overwrite"
  shows "\<exists>sched. follows sched (plan_of_graph g') g overwrite info"
proof (cases "graph_node g = []")
  case True
  have "graph_node g' = []" using ann(1) True
    by (auto simp: write_lifetimes_def WriteToMetadata_def Let_def split: if_splits)
  with True info show ?thesis
    by (auto simp: follows_def plan_of_graph_def Let_def make_schedule_def read_lists_def all_names_def
        ComputeResultLifetimeInfo_def)
next
  case False
  let ?nodes = "graph_node g'"
  note facts = annotated_nodes [OF ann info]
  from False have len: "length ?nodes = length (graph_node g)" using facts(1) [of 0] by simp
  let ?read = "\<lambda>nd. bindR (ReadLifetimeNames (metadata_props nd) kReleaseAfterMetadataKey) (\<lambda>rel.
         bindR (ReadLifetimeNames (metadata_props nd) kNotUsedAfterMetadataKey) (\<lambda>unused. Inr (rel, unused)))"
  have "\<exists>y. ?read (?nodes ! i) = Inr y \<and> y = (release_after info ! i, not_used_after info ! i)"
    if "i < length ?nodes" for i
    using facts(4,5) that len by simp
  from mapR_nth_ex [of ?nodes ?read "\<lambda>i y. y = (release_after info ! i, not_used_after info ! i)", OF this]
  obtain lists where lists: "mapR ?read ?nodes = Inr lists" "length lists = length ?nodes"
    "\<forall>i < length ?nodes. lists ! i = (release_after info ! i, not_used_after info ! i)" by blast
  have "\<exists>y. ReadLifetimeNames (metadata_props (?nodes ! i)) kReleaseAfterShapeTagMetadataKey = Inr y \<and>
      set y \<subseteq> set (release_after info ! i)" if "i < length ?nodes" for i
    using facts(6) that len by simp
  from mapR_nth_ex [of ?nodes _ "\<lambda>i y. set y \<subseteq> set (release_after info ! i)", OF this]
  obtain shapes where shapes: "read_lists kReleaseAfterShapeTagMetadataKey ?nodes = Inr shapes"
    "length shapes = length ?nodes" "\<forall>i < length ?nodes. set (shapes ! i) \<subseteq> set (release_after info ! i)"
    unfolding read_lists_def by blast
  have info': "info = ComputeResultLifetimeInfoImpl (graph_node g) overwrite (set (graph_input g))
       (set (graph_initializer g) \<union> set (graph_extended_initializer g)) (set (graph_output g))"
    using info by (simp add: ComputeResultLifetimeInfo_def)
  have sub: "all_names shapes \<subseteq> set (concat (release_after info))"
  proof
    fix name assume "name \<in> all_names shapes"
    then obtain xs where "xs \<in> set shapes" "name \<in> set xs" by (auto simp: all_names_def)
    then obtain i where "i < length shapes" "name \<in> set (shapes ! i)" by (metis in_set_conv_nth)
    with shapes(2,3) len info_fields(6) [OF info'] show "name \<in> set (concat (release_after info))" by force
  qed
  let ?sched = "\<lparr>node_inputs = map CollectNodeInputs ?nodes, explicit_release = map fst lists,
      explicit_unused = map snd lists, plan_last_use = plan_last_uses (map CollectNodeInputs ?nodes),
      shape_tagged = all_names shapes\<rparr>"
  have "make_schedule (plan_of_graph g') = Inr ?sched"
    using lists(1) shapes(1) by (simp add: make_schedule_def plan_of_graph_def Let_def)
  moreover have "plan_nodes (plan_of_graph g') = ?nodes" by (simp add: plan_of_graph_def Let_def)
  ultimately have "follows ?sched (plan_of_graph g') g overwrite info"
    unfolding follows_def using lists(2,3) sub len facts(2,3) info' by simp
  then show ?thesis by blast
qed

lemma annotated_plan_inputs:
  assumes "write_lifetimes matches tags overwrite g = Inr g'" "well_formed g"
  shows "guarded (plan_of_graph g') \<subseteq> set (graph_input g) \<union> set (graph_initializer g)"
    "set (plan_output_names (plan_of_graph g')) \<subseteq> set (graph_output g)"
proof -
  obtain nodes' where "g' = with_nodes nodes' g" using assms(1) by (auto simp: write_lifetimes_def)
  then show "guarded (plan_of_graph g') \<subseteq> set (graph_input g) \<union> set (graph_initializer g)"
    "set (plan_output_names (plan_of_graph g')) \<subseteq> set (graph_output g)"
    by (auto simp: guarded_def plan_of_graph_def nonempty_names_def Let_def)
qed

lemma follows_facts:
  assumes "follows sched p g overwrite info"
  shows "make_schedule p = Inr sched" "length (plan_nodes p) = length (graph_node g)"
    "shape_tagged sched \<subseteq> set (concat (release_after info))"
    "info = ComputeResultLifetimeInfoImpl (graph_node g) overwrite (set (graph_input g))
       (set (graph_initializer g) \<union> set (graph_extended_initializer g)) (set (graph_output g))"
  using assms unfolding follows_def by blast+

lemma follows_node:
  assumes "follows sched p g overwrite info" "i < length (graph_node g)"
  shows "node_reads (plan_nodes p ! i) = node_reads (graph_node g ! i)"
    "node_output (plan_nodes p ! i) = node_output (graph_node g ! i)"
    "produced_names (plan_nodes p ! i) = produced_names (graph_node g ! i)"
    "explicit_release sched ! i = release_after info ! i" "explicit_unused sched ! i = not_used_after info ! i"
  using assms by (simp_all add: follows_def produced_names_def)

lemma follows_outputs: "follows sched p g overwrite info \<Longrightarrow> outputs_of (plan_nodes p) = outputs_of (graph_node g)"
  by (simp add: set_eq_iff outputs_of_nth follows_facts(2) follows_node(3) cong: conj_cong)

lemma annotated_plan_keep:
  assumes "write_lifetimes matches tags overwrite g = Inr g'" "well_formed g" "p = plan_of_graph g'"
    and "follows sched p g overwrite info"
  shows "plan_keep p \<inter> outputs_of (graph_node g) = set (graph_output g) \<inter> outputs_of (graph_node g)"
proof -
  obtain nodes' where g': "g' = with_nodes nodes' g" using assms(1) by (auto simp: write_lifetimes_def)
  have "set (CollectExternalInputs (graph_node g')) \<inter> outputs_of (graph_node g) = {}"
    using follows_outputs [OF assms(4)] assms(3) by (auto simp: CollectExternalInputs_reads plan_of_graph_def Let_def)
  moreover have "'''' \<notin> outputs_of (graph_node g)" by (simp add: outputs_of_def)
  ultimately show ?thesis
    using assms(2,3) by (auto simp: plan_of_graph_def Let_def nonempty_names_def well_formed_def g')
qed

section \<open>The building loop on an annotated graph\<close>

lemma foldR_enumerate_progress:
  assumes "P k s"
    and "\<And>i t. i < length xs \<Longrightarrow> P (k + i) t \<Longrightarrow> \<exists>t'. f (k + i, xs ! i) t = Inr t' \<and> P (Suc (k + i)) t'"
  shows "\<exists>s'. foldR f (enumerate k xs) s = Inr s' \<and> P (k + length xs) s'"
  using assms
proof (induction xs arbitrary: k s)
  case (Cons x xs)
  from Cons.prems(2) [of 0 s] Cons.prems(1) obtain t where t: "f (k, x) s = Inr t" "P (Suc k) t" by auto
  have "\<exists>t'. f (Suc k + i, xs ! i) t1 = Inr t' \<and> P (Suc (Suc k + i)) t'" if "i < length xs" "P (Suc k + i) t1" for i t1
    using Cons.prems(2) [of "Suc i" t1] that by simp
  from Cons.IH [OF t(2) this] t(1) show ?case by simp
qed simp

lemma release_explicit_total:
  "(\<forall>name \<in> set names. past_last_use sched i name \<and> (name \<in> shape_tagged sched \<longrightarrow> name \<in> created_shapes st)) \<Longrightarrow>
   \<exists>st'. foldR (release_explicit p sched i) names st = Inr st'"
  by (induction names arbitrary: st) (auto simp: release_explicit_def past_last_use_def)

lemma plan_node_total:
  assumes "\<forall>name \<in> set (explicit_release sched ! i). past_last_use sched i name \<and>
      (name \<in> shape_tagged sched \<longrightarrow> name \<in> created_shapes st \<union> set (produced_names nd))"
  shows "\<exists>st'. plan_node p sched (i, nd) st = Inr st'"
proof -
  define st3 where "st3 = execute_node nd i (fold (allocate_output sched nd (ParseInPlaceReuse (ReadNodeMetadata
      (metadata_props nd) kInPlaceReuseMetadataKey))) (enumerate 0 (node_output nd))
      (fold (lock_if_needed p) (node_inputs sched ! i) st))"
  have "created_shapes st3 = created_shapes st \<union> set (produced_names nd) \<inter> shape_tagged sched"
    by (simp add: st3_def set_produced_names)
  with assms release_explicit_total [of "explicit_release sched ! i" sched i st3 p]
  obtain st4 where "foldR (release_explicit p sched i) (explicit_release sched ! i) st3 = Inr st4" by auto
  then show ?thesis by (simp add: plan_node_def Let_def flip: st3_def)
qed

definition produced_before :: "plan_inputs \<Rightarrow> nat \<Rightarrow> string set" where
  "produced_before p k = (\<Union>i < k. set (produced_names (plan_nodes p ! i)))"

definition released_before :: "plan_inputs \<Rightarrow> schedule \<Rightarrow> nat \<Rightarrow> string set" where
  "released_before p sched k = (\<Union>i < k. released_at p sched i)"

lemma before_Suc:
  "produced_before p (Suc k) = produced_before p k \<union> set (produced_names (plan_nodes p ! k))"
  "released_before p sched (Suc k) = released_before p sched k \<union> released_at p sched k"
  by (auto simp: produced_before_def released_before_def less_Suc_eq)

text \<open>The names released at a node were produced there or before, and are not read afterwards.\<close>

lemma follows_released:
  assumes f: "follows sched p g overwrite info" and i: "i < length (graph_node g)"
    and name: "name \<in> set (explicit_release sched ! i)"
  shows "past_last_use sched i name" "name \<in> produced_before p (Suc i)"
proof -
  note info = follows_facts(4) [OF f] and sched = follows_facts(1) [OF f]
  have rel: "name \<in> set (release_after info ! i)" using name by (simp add: follows_node [OF f i])
  show "past_last_use sched i name"
  proof (cases "plan_last_use sched name")
    case (Some k)
    from last_use_read [OF sched Some] have "k < length (graph_node g)" "name \<in> node_reads (graph_node g ! k)"
      using follows_facts(2) [OF f] follows_node(1) [OF f] by metis+
    with released_name_not_read [OF info i rel] have "k \<le> i" by (meson not_le_imp_less)
    with Some show ?thesis by (simp add: past_last_use_def)
  qed (simp add: past_last_use_def)
  from released_name_produced [OF info i rel] obtain q where "q \<le> i" "name \<in> set (produced_names (graph_node g ! q))"
    by blast
  with i show "name \<in> produced_before p (Suc i)"
    by (auto simp: produced_before_def follows_node(3) [OF f] intro!: bexI [of _ q])
qed

text \<open>An input or an initializer is unlocked at the last node that reads it.\<close>

lemma follows_unlocked:
  assumes f: "follows sched p g overwrite info" and wf: "well_formed g" and k: "k < length (graph_node g)"
    and name: "name \<in> set (graph_input g) \<union> set (graph_initializer g)" "name \<in> node_reads (graph_node g ! k)"
    and later: "\<forall>j. k < j \<and> j < length (graph_node g) \<longrightarrow> name \<notin> node_reads (graph_node g ! j)"
  shows "name \<in> unlocked_at p sched k"
proof -
  note info = follows_facts(4) [OF f] and sched = follows_facts(1) [OF f]
  from first_pass_reader [OF info_fields(1) [OF info] k name(2)] obtain i where
    i: "last_use info name = Some i" "k \<le> i" by auto
  from first_pass_uses [OF info_fields(1) [OF info] i(1)] have i': "i < length (graph_node g)"
    "name \<in> node_reads (graph_node g ! i) \<or> name \<noteq> '''' \<and> name \<in> set (node_output (graph_node g ! i))" by auto
  have "name \<notin> outputs_of (graph_node g)" using wf name(1) by (auto simp: well_formed_def)
  with i' have "name \<in> node_reads (graph_node g ! i)" by (auto simp: outputs_of_def)
  with later i(2) i'(1) have "i = k" by (metis le_neq_implies_less)
  with i(1) name have "name \<in> set (not_used_after info ! k)"
    by (auto simp: info_fields(9) [OF info k] not_used_names_def last_used_names_def release_candidates_def
        CollectNodeInputs_reads info_fields(3,4) [OF info])
  moreover have "past_last_use sched k name"
  proof (cases "plan_last_use sched name")
    case (Some j)
    from last_use_read [OF sched Some] have "j < length (graph_node g)" "name \<in> node_reads (graph_node g ! j)"
      using follows_facts(2) [OF f] follows_node(1) [OF f] by metis+
    with later have "j \<le> k" by (meson not_le_imp_less)
    with Some show ?thesis by (simp add: past_last_use_def)
  qed (simp add: past_last_use_def)
  ultimately show ?thesis by (simp add: unlocked_at_def follows_node(5) [OF f k])
qed

text \<open>What is released at one node is not produced by a later one.\<close>

lemma follows_fresh:
  assumes f: "follows sched p g overwrite info" and wf: "well_formed g"
    and k: "k < length (graph_node g)" and i: "i < k" and name: "name \<in> released_at p sched i"
  shows "name \<notin> set (produced_names (graph_node g ! k))"
proof
  assume prod: "name \<in> set (produced_names (graph_node g ! k))"
  have ssa: "single_assignment (graph_node g)" and top: "topologically_sorted (graph_node g)"
    using wf by (simp_all add: well_formed_def)
  from i k have i': "i < length (graph_node g)" by simp
  show False
  proof (cases "name \<in> set (explicit_release sched ! i)")
    case True
    with follows_released(2) [OF f i' True] obtain q where "q \<le> i" "name \<in> set (produced_names (graph_node g ! q))"
      using i' by (auto simp: produced_before_def follows_node(3) [OF f] less_Suc_eq_le)
    moreover from this i k have "q < length (graph_node g)" by simp
    ultimately have "q = k" using single_assignment_producer [OF ssa _ k _ prod] by blast
    with \<open>q \<le> i\<close> i show False by simp
  next
    case False
    with name have "name \<in> set (node_inputs sched ! i)" by (auto simp: released_at_def topology_releases_def)
    then have "name \<in> node_reads (graph_node g ! i)"
      using i' follows_node(1) [OF f i'] follows_facts(2) [OF f]
      by (simp add: make_schedule_fields(1) [OF follows_facts(1) [OF f]] CollectNodeInputs_reads)
    with top prod i i' k show False unfolding topologically_sorted_def by (metis disjoint_iff less_asym)
  qed
qed

definition plan_progress :: "plan_inputs \<Rightarrow> schedule \<Rightarrow> nat \<Rightarrow> plan_state \<Rightarrow> bool" where
  "plan_progress p sched k st \<longleftrightarrow>
     tracks p st (produced_before p k - released_before p sched k) \<and> released st = released_before p sched k \<and>
     produced_before p k \<inter> shape_tagged sched \<subseteq> created_shapes st \<and> locked st \<subseteq> guarded p \<and>
     (\<forall>name \<in> locked st. \<exists>j \<ge> k. j < length (plan_nodes p) \<and> name \<in> node_reads (plan_nodes p ! j))"

lemma still_needed_live:
  assumes f: "follows sched p g overwrite info" and k: "k \<le> length (graph_node g)"
  shows "still_needed p sched k \<subseteq> produced_before p k - released_before p sched k"
proof
  fix name assume n: "name \<in> still_needed p sched k"
  have "name \<notin> released_at p sched i" if "i < k" for i
  proof
    assume rel: "name \<in> released_at p sched i"
    from n rel obtain j where j: "j \<ge> k" "plan_last_use sched name = Some j"
      by (auto simp: still_needed_def released_at_def topology_releases_def)
    have "past_last_use sched i name"
      using rel follows_released(1) [OF f, of i name] that k
      by (auto simp: released_at_def topology_releases_def past_last_use_def)
    with j that show False by (simp add: past_last_use_def)
  qed
  with n show "name \<in> produced_before p k - released_before p sched k"
    by (auto simp: still_needed_def produced_before_def released_before_def)
qed

lemma annotated_step:
  assumes f: "follows sched p g overwrite info" and wf: "well_formed g" and scoped: "well_scoped p"
    and guard: "guarded p \<subseteq> set (graph_input g) \<union> set (graph_initializer g)"
    and k: "k < length (plan_nodes p)" and st: "plan_progress p sched k st"
  shows "\<exists>st'. plan_node p sched (k, plan_nodes p ! k) st = Inr st' \<and> plan_progress p sched (Suc k) st'"
proof -
  let ?nd = "plan_nodes p ! k"
  note sched = follows_facts(1) [OF f] and len = follows_facts(2) [OF f]
  from k len have k': "k < length (graph_node g)" by simp
  have ins: "node_inputs sched ! k = CollectNodeInputs ?nd"
    using k by (simp add: make_schedule_fields(1) [OF sched])
  have prod: "name \<in> produced_before p k \<union> set (produced_names ?nd)" if "name \<in> set (explicit_release sched ! k)" for name
    using follows_released(2) [OF f k' that] by (simp add: before_Suc)
  have "\<exists>st'. plan_node p sched (k, ?nd) st = Inr st'"
    by (rule plan_node_total) (use prod follows_released(1) [OF f k'] st in \<open>auto simp: plan_progress_def\<close>)
  then obtain st' where step: "plan_node p sched (k, ?nd) st = Inr st'" by blast
  note fields = plan_node_fields [OF step ins]
  have needed: "still_needed p sched k \<subseteq> produced_before p k - released_before p sched k"
    by (rule still_needed_live [OF f less_imp_le [OF k']])
  have tracks: "tracks p st' (produced_before p k - released_before p sched k \<union> set (produced_names ?nd) - released_at p sched k)"
    using plan_node_tracks [OF step ins k refl _ plan_node_ready [OF sched scoped k needed]] st
    by (simp add: plan_progress_def)
  have "released_before p sched k \<inter> set (produced_names ?nd) = {}"
    using follows_fresh [OF f wf k'] follows_node(3) [OF f k'] by (fastforce simp: released_before_def)
  then have "produced_before p k - released_before p sched k \<union> set (produced_names ?nd) - released_at p sched k =
      produced_before p (Suc k) - released_before p sched (Suc k)" by (auto simp: before_Suc)
  with tracks have "tracks p st' (produced_before p (Suc k) - released_before p sched (Suc k))" by simp
  moreover have "\<exists>j \<ge> Suc k. j < length (plan_nodes p) \<and> name \<in> node_reads (plan_nodes p ! j)"
    if name: "name \<in> locked st'" for name
  proof (rule ccontr)
    assume none: "\<not> (\<exists>j \<ge> Suc k. j < length (plan_nodes p) \<and> name \<in> node_reads (plan_nodes p ! j))"
    have g: "name \<in> guarded p" and "name \<notin> unlocked_at p sched k"
      and "name \<in> locked st \<or> name \<in> node_reads ?nd"
      using name st fields(1) by (auto simp: plan_progress_def)
    moreover from this(3) st none have "name \<in> node_reads ?nd"
      by (auto simp: plan_progress_def) (metis Suc_leI le_neq_implies_less)
    moreover have "\<forall>j. k < j \<and> j < length (graph_node g) \<longrightarrow> name \<notin> node_reads (graph_node g ! j)"
      using none len follows_node(1) [OF f] by (metis Suc_leI)
    ultimately show False
      using follows_unlocked [OF f wf k'] guard follows_node(1) [OF f k'] by blast
  qed
  ultimately show ?thesis
    using step st fields by (auto simp: plan_progress_def before_Suc)
qed

text \<open>At the end everything that is not an output has been released.\<close>

lemma follows_all_released:
  assumes f: "follows sched p g overwrite info" and wf: "well_formed g"
    and keep: "plan_keep p \<inter> outputs_of (graph_node g) = set (graph_output g) \<inter> outputs_of (graph_node g)"
  shows "produced_before p (length (plan_nodes p)) - released_before p sched (length (plan_nodes p)) =
      outputs_of (graph_node g) \<inter> set (graph_output g)"
proof (intro equalityI subsetI)
  note info = follows_facts(4) [OF f] and len = follows_facts(2) [OF f]
  have all: "produced_before p (length (plan_nodes p)) = outputs_of (graph_node g)"
    using outputs_of_nth [of _ "plan_nodes p"] follows_outputs [OF f] by (auto simp: produced_before_def)
  {
    fix name
    assume n: "name \<in> produced_before p (length (plan_nodes p)) - released_before p sched (length (plan_nodes p))"
    then have out: "name \<in> outputs_of (graph_node g)" using all by blast
    then obtain q where q: "q < length (graph_node g)" "name \<in> set (produced_names (graph_node g ! q))"
      by (auto simp: outputs_of_nth)
    show "name \<in> outputs_of (graph_node g) \<inter> set (graph_output g)"
    proof (rule ccontr)
      assume "name \<notin> outputs_of (graph_node g) \<inter> set (graph_output g)"
      with out keep have no: "name \<notin> set (graph_output g)" "name \<notin> plan_keep p" by auto
      have "count_list (concat (release_after info)) name = 1"
        by (rule released_once [OF info _ _ q]) (use wf out no in \<open>auto simp: well_formed_def\<close>)
      then have "name \<in> set (concat (release_after info))" by (metis count_list_0_iff one_neq_zero)
      then obtain rel where "rel \<in> set (release_after info)" "name \<in> set rel" by auto
      then obtain i where "i < length (graph_node g)" "name \<in> set (release_after info ! i)"
        using info_fields(6) [OF info] by (metis in_set_conv_nth)
      with no len have "name \<in> released_before p sched (length (plan_nodes p))"
        by (auto simp: released_before_def released_at_def follows_node(4) [OF f])
      with n show False by blast
    qed
  }
  fix name
  assume n: "name \<in> outputs_of (graph_node g) \<inter> set (graph_output g)"
  with keep have "name \<in> plan_keep p" by auto
  then have "name \<notin> released_before p sched (length (plan_nodes p))"
    by (auto simp: released_before_def released_at_def topology_releases_def)
  with n all show "name \<in> produced_before p (length (plan_nodes p)) - released_before p sched (length (plan_nodes p))"
    by blast
qed

lemma annotated_outputs:
  "write_lifetimes matches tags overwrite g = Inr g' \<Longrightarrow> name \<in> set (graph_output g) \<Longrightarrow> name \<noteq> '''' \<Longrightarrow>
   name \<in> set (plan_output_names (plan_of_graph g'))"
  by (auto simp: write_lifetimes_def plan_of_graph_def Let_def nonempty_names_def)

lemma complete_released:
  assumes f: "follows sched p g overwrite info" and locked: "locked st = {}"
    and rel: "produced_before p (length (plan_nodes p)) - released st \<subseteq> set (graph_output g)"
    and outs: "\<And>name. name \<in> set (graph_output g) \<Longrightarrow> name \<noteq> '''' \<Longrightarrow> name \<in> set (plan_output_names p)"
  shows "complete p sched st"
proof -
  have "out = '''' \<or> out \<in> set (plan_output_names p) \<or> out \<in> released st"
    if "nd \<in> set (plan_nodes p)" "out \<in> set (node_output nd)" for nd out
  proof (cases "out = ''''")
    case False
    from that(1) obtain i where "i < length (plan_nodes p)" "nd = plan_nodes p ! i" by (metis in_set_conv_nth)
    with that(2) False have "out \<in> produced_before p (length (plan_nodes p))"
      by (auto simp: produced_before_def set_produced_names)
    with rel outs False show ?thesis by blast
  qed simp
  with locked show ?thesis by (auto simp: complete_def list_all_iff)
qed

lemma finish_progress:
  assumes "tracks p st L" "locked st = {}" "complete p sched st"
  shows "\<exists>plan. finish_plan p sched st = Inr plan \<and> tracks p plan L \<and> locked plan = {}"
  using assms unlock_rest_fold by (auto simp: finish_plan_def)

lemma annotated_plan_runs:
  assumes "write_lifetimes matches tags overwrite g = Inr g'" "well_formed g"
    and "\<forall>nd \<in> set (graph_node g). unannotated nd"
  shows "\<exists>plan m. BuildActions (plan_of_graph g') = Inr plan \<and>
    perform_all (plan_of_graph g') (actions plan) nothing = Some m \<and>
    live m = outputs_of (graph_node g) \<inter> set (graph_output g) \<and> held m = {}"
proof -
  let ?p = "plan_of_graph g'"
  obtain info sched where f: "follows sched ?p g overwrite info"
    using annotated_schedule [OF assms(1,3) refl] by blast
  note sched = follows_facts(1) [OF f] and len = follows_facts(2) [OF f]
  have "topologically_sorted (plan_nodes ?p)"
    using assms(2) follows_node(1,3) [OF f] len by (simp add: well_formed_def topologically_sorted_def)
  then have scoped: "well_scoped ?p"
    by (rule sorted_well_scoped) (simp add: plan_of_graph_def Let_def)
  have "\<exists>st. foldR (plan_node ?p sched) (enumerate 0 (plan_nodes ?p)) empty_plan = Inr st \<and>
      plan_progress ?p sched (0 + length (plan_nodes ?p)) st"
  proof (rule foldR_enumerate_progress)
    show "plan_progress ?p sched 0 empty_plan"
      by (simp add: plan_progress_def tracks_def empty_plan_def nothing_def produced_before_def released_before_def)
    show "\<exists>t'. plan_node ?p sched (0 + i, plan_nodes ?p ! i) t = Inr t' \<and> plan_progress ?p sched (Suc (0 + i)) t'"
      if "i < length (plan_nodes ?p)" "plan_progress ?p sched (0 + i) t" for i t
      using annotated_step [OF f assms(2) scoped annotated_plan_inputs(1) [OF assms(1,2)] that(1)] that(2) by simp
  qed
  then obtain st where st: "foldR (plan_node ?p sched) (enumerate 0 (plan_nodes ?p)) empty_plan = Inr st"
    and prog: "plan_progress ?p sched (length (plan_nodes ?p)) st" by auto
  have locked: "locked st = {}" using prog by (auto simp: plan_progress_def)
  note keep = annotated_plan_keep [OF assms(1,2) refl f]
  have all: "produced_before ?p (length (plan_nodes ?p)) - released_before ?p sched (length (plan_nodes ?p)) =
      outputs_of (graph_node g) \<inter> set (graph_output g)" by (rule follows_all_released [OF f assms(2) keep])
  have tracks: "tracks ?p st (outputs_of (graph_node g) \<inter> set (graph_output g))"
    using prog all by (simp add: plan_progress_def)
  have "complete ?p sched st"
    by (rule complete_released [OF f locked])
      (use prog all annotated_outputs [OF assms(1)] in \<open>auto simp: plan_progress_def\<close>)
  with finish_progress [OF tracks locked, of sched] obtain plan where plan: "finish_plan ?p sched st = Inr plan"
    "tracks ?p plan (outputs_of (graph_node g) \<inter> set (graph_output g))" "locked plan = {}" by blast
  show ?thesis
  proof (cases "plan_nodes ?p = []")
    case True
    then have "outputs_of (graph_node g) = {}" using follows_outputs [OF f] by (simp add: outputs_of_def)
    with True show ?thesis by (simp add: BuildActions_def empty_plan_def nothing_def)
  next
    case False
    with sched st plan(1) have "BuildActions ?p = Inr plan" by (simp add: BuildActions_def)
    with plan(2,3) show ?thesis by (auto simp: tracks_def)
  qed
qed

lemma annotated_plan_is_complete_core:
  assumes "ComputeInPlaceReuseMatches ctx (graph_node g) (ComputeResultLifetimeInfo g overwrite) c = Inr (matches, cs)"
    and "well_formed g" "\<forall>nd \<in> set (graph_node g). unannotated nd"
  shows "\<exists>g' plan m. annotate_graph ctx tags overwrite c g = Inr g' \<and> BuildActions (plan_of_graph g') = Inr plan \<and>
    perform_all (plan_of_graph g') (actions plan) nothing = Some m \<and>
    live m = outputs_of (graph_node g) \<inter> set (graph_output g) \<and> held m = {}"
proof -
  obtain g' where g': "write_lifetimes matches tags overwrite g = Inr g'"
    using write_lifetimes_total ComputeInPlaceReuseMatches_nth(1) [OF assms(1)] by blast
  from annotated_plan_runs [OF this assms(2,3)] g' annotate_graph_matches [OF assms(1)] show ?thesis by simp
qed

text \<open>C3: The analysis and the planner fit together.  For every graph whose names are assigned once, whose nodes are
  sorted and carry none of the four lifetime annotations yet, whatever shapes and value tags go with it: when
  the search for in-place reuses returns, the graph is annotated, the planner accepts the annotated graph
  (none of its completeness checks fails), and the plan runs to its end with exactly the outputs live and
  nothing locked: no result stays in memory and no input or initializer stays locked.  The graphs of this
  layer carry no persistent bindings, so that the check of the planner's constructor on their uses
  (execution_plan.cc 274) returns at once; it is part of \<open>ExecutionPlan_of_graph\<close> for the messages.  An
  annotation from an earlier run is excluded because a list that is empty now would leave it in place.\<close>

theorem annotated_plan_is_complete:
  assumes "ComputeInPlaceReuseMatches ctx (graph_node g) (ComputeResultLifetimeInfo g overwrite) c = Inr (matches, cs)"
    and "well_formed g" "\<forall>nd \<in> set (graph_node g). unannotated nd"
  shows "\<exists>g' plan m. annotate_graph ctx tags overwrite c g = Inr g' \<and> BuildActions (plan_of_graph g') = Inr plan \<and>
    perform_all (plan_of_graph g') (actions plan) nothing = Some m \<and>
    live m = outputs_of (graph_node g) \<inter> set (graph_output g) \<and> held m = {}"
  using assms by (rule annotated_plan_is_complete_core)

lemma sample_graph_nodes: "length (graph_node sample_graph) = 3" "set (graph_output sample_graph) = {''y''}"
  "outputs_of (graph_node sample_graph) \<inter> {''y''} = {''y''}"
  by (simp_all add: sample_graph_def outputs_of_def)

lemma sample_graph_well_formed: "well_formed sample_graph"
  unfolding well_formed_def
  by (intro conjI sample_graph_sorted)
    (simp_all add: sample_graph_def single_assignment_def produced_names_def outputs_of_def)

lemma annotated_plan_is_complete_witness:
  "\<exists>g' plan m. annotate_graph sample_shapes [(''t'', ''shape'')] False None sample_graph = Inr g' \<and>
     BuildActions (plan_of_graph g') = Inr plan \<and>
     perform_all (plan_of_graph g') (actions plan) nothing = Some m \<and> live m = {''y''} \<and> held m = {}"
proof -
  have "\<forall>nd \<in> set (graph_node sample_graph). unannotated nd" by (simp add: sample_graph_def unannotated_def)
  from annotated_plan_is_complete [OF sample_reuse sample_graph_well_formed this, of "[(''t'', ''shape'')]"]
  show ?thesis by (simp add: sample_graph_nodes)
qed


end
