(* ===== verification/CacheTransparency.thy ===== *)
theory CacheTransparency
  imports InplaceReuse
begin

text \<open>
  The reuse analysis threads two caches, the simplified texts and the sizes by name.  The decisions do
  not depend on what the caches hold, as long as every entry is what would be computed.
\<close>

section \<open>Results that do not depend on a cache\<close>

text \<open>Started from any good cache, the computation has the same result and leaves a good cache.\<close>

definition transparent :: "('c \<Rightarrow> bool) \<Rightarrow> ('c \<Rightarrow> ('a \<times> 'c) res) \<Rightarrow> bool" where
  "transparent ok f \<longleftrightarrow> (\<exists>r. \<forall>c. ok c \<longrightarrow> (case r of Inl e \<Rightarrow> f c = Inl e | Inr x \<Rightarrow> \<exists>c'. f c = Inr (x, c') \<and> ok c'))"

named_theorems transparent_intros

lemma transparent_Inr [transparent_intros]: "transparent ok (\<lambda>c. Inr (x, c))"
  unfolding transparent_def by (rule exI [of _ "Inr x"]) simp

lemma transparent_Inl [transparent_intros]: "transparent ok (\<lambda>c. Inl e)"
  unfolding transparent_def by (rule exI [of _ "Inl e"]) simp

lemma transparent_bind [transparent_intros]:
  assumes "transparent ok f" "\<And>x. transparent ok (g x)"
  shows "transparent ok (\<lambda>c. bindR (f c) (\<lambda>(x, c). g x c))"
proof -
  from assms(1) obtain r where r: "\<And>c. ok c \<Longrightarrow>
      case r of Inl e \<Rightarrow> f c = Inl e | Inr x \<Rightarrow> \<exists>c'. f c = Inr (x, c') \<and> ok c'"
    unfolding transparent_def by blast
  show ?thesis
  proof (cases r)
    case (Inl e)
    then show ?thesis unfolding transparent_def using r by (intro exI [of _ "Inl e"]) auto
  next
    case (Inr x)
    from assms(2) [of x] obtain s where s: "\<And>c. ok c \<Longrightarrow>
        case s of Inl e \<Rightarrow> g x c = Inl e | Inr y \<Rightarrow> \<exists>c'. g x c = Inr (y, c') \<and> ok c'"
      unfolding transparent_def by blast
    show ?thesis unfolding transparent_def
    proof (intro exI [of _ s] allI impI)
      fix c assume "ok c"
      with r Inr obtain c1 where c1: "f c = Inr (x, c1)" "ok c1" by fastforce
      with s [of c1] show "case s of Inl e \<Rightarrow> bindR (f c) (\<lambda>(x, c). g x c) = Inl e
          | Inr y \<Rightarrow> \<exists>c'. bindR (f c) (\<lambda>(x, c). g x c) = Inr (y, c') \<and> ok c'"
        by (simp split: sum.splits)
    qed
  qed
qed

text \<open>A computation that does not touch the cache may come first.\<close>

lemma transparent_pure_bind [transparent_intros]:
  "(\<And>x. transparent ok (g x)) \<Longrightarrow> transparent ok (\<lambda>c. bindR r (\<lambda>x. g x c))"
  by (cases r) (simp_all add: transparent_intros)

lemma transparent_if [transparent_intros]:
  "(b \<Longrightarrow> transparent ok f) \<Longrightarrow> (\<not> b \<Longrightarrow> transparent ok g) \<Longrightarrow> transparent ok (\<lambda>c. if b then f c else g c)"
  by (cases b) simp_all

lemma transparent_bool [transparent_intros]:
  "(b \<Longrightarrow> transparent ok f) \<Longrightarrow> (\<not> b \<Longrightarrow> transparent ok g) \<Longrightarrow>
   transparent ok (\<lambda>c. case b of True \<Rightarrow> f c | False \<Rightarrow> g c)"
  by (cases b) simp_all

lemma transparent_option [transparent_intros]:
  "(v = None \<Longrightarrow> transparent ok f) \<Longrightarrow> (\<And>x. v = Some x \<Longrightarrow> transparent ok (g x)) \<Longrightarrow>
   transparent ok (\<lambda>c. case v of None \<Rightarrow> f c | Some x \<Rightarrow> g x c)"
  by (cases v) simp_all

lemma transparent_fold:
  assumes "\<And>x s. x \<in> set xs \<Longrightarrow> transparent ok (\<lambda>c. f x (s, c))"
  shows "transparent ok (\<lambda>c. foldR f xs (s, c))"
  using assms
proof (induction xs arbitrary: s)
  case Nil
  show ?case by (simp add: transparent_intros)
next
  case (Cons x xs)
  have "transparent ok (\<lambda>c. bindR (f x (s, c)) (\<lambda>(t, c). foldR f xs (t, c)))"
    using Cons.prems by (intro transparent_bind Cons.IH) auto
  then show ?case by (simp add: case_prod_unfold)
qed

text \<open>Two runs from good caches agree.\<close>

lemma transparent_same:
  assumes "transparent ok f" "ok c" "ok d"
  shows "f c = Inr (x, c') \<Longrightarrow> ok c' \<and> (\<exists>d'. f d = Inr (x, d') \<and> ok d')"
    and "f c = Inl e \<Longrightarrow> f d = Inl e"
proof -
  from assms(1) obtain r where r: "\<And>c. ok c \<Longrightarrow>
      case r of Inl e \<Rightarrow> f c = Inl e | Inr x \<Rightarrow> \<exists>c'. f c = Inr (x, c') \<and> ok c'"
    unfolding transparent_def by blast
  from r [OF assms(2)] r [OF assms(3)]
  show "f c = Inr (x, c') \<Longrightarrow> ok c' \<and> (\<exists>d'. f d = Inr (x, d') \<and> ok d')" "f c = Inl e \<Longrightarrow> f d = Inl e"
    by (auto split: sum.splits)
qed

section \<open>Dimensions\<close>

lemma transparent_dim_binary: "transparent cache_ok (dim_binary f sy a b)"
proof (cases "dim_binary f sy a b None")
  case (Inl e)
  with dim_binary_cache(2) show ?thesis
    unfolding transparent_def by (intro exI [of _ "Inl e"]) auto
next
  case (Inr p)
  show ?thesis unfolding transparent_def
  proof (intro exI [of _ "Inr (fst p)"] allI impI)
    fix c assume c: "cache_ok c"
    with Inr dim_binary_cache(2) [OF c, of f sy a b] obtain d c' where "dim_binary f sy a b c = Inr (d, c')"
      by (cases "dim_binary f sy a b c") auto
    with dim_binary_cache(1) [OF c this] Inr
    show "case Inr (fst p) of Inl e \<Rightarrow> dim_binary f sy a b c = Inl e
        | Inr x \<Rightarrow> \<exists>c'. dim_binary f sy a b c = Inr (x, c') \<and> cache_ok c'" by auto
  qed
qed

lemma transparent_dims [transparent_intros]:
  "transparent cache_ok (dim_add a b)" "transparent cache_ok (dim_mul a b)" "transparent cache_ok (dim_div a b)"
  by (simp_all add: dim_add_def dim_mul_def dim_div_def transparent_dim_binary)

lemma transparent_simplify_dim [transparent_intros]: "transparent cache_ok (simplify_dim e)"
proof (cases "simplify_expression e")
  case (Inl x)
  with simplify_dim_cache(2) show ?thesis unfolding transparent_def by (intro exI [of _ "Inl x"]) auto
next
  case (Inr d)
  show ?thesis unfolding transparent_def
  proof (intro exI [of _ "Inr d"] allI impI)
    fix c assume c: "cache_ok c"
    with Inr simplify_dim_cache(2) [OF c, of e] obtain d' c' where "simplify_dim e c = Inr (d', c')"
      by (cases "simplify_dim e c") auto
    with simplify_dim_cache(1) [OF c this] Inr
    show "case Inr d of Inl x \<Rightarrow> simplify_dim e c = Inl x
        | Inr x \<Rightarrow> \<exists>c'. simplify_dim e c = Inr (x, c') \<and> cache_ok c'" by auto
  qed
qed

lemma transparent_simplify_dim_type [transparent_intros]: "transparent cache_ok (simplify_dim_type d)"
proof -
  have "simplify_dim_type d = (case d of IntResult v \<Rightarrow> (\<lambda>c. Inr (d, c)) | TextResult t \<Rightarrow> simplify_dim t)"
    by (cases d) (simp_all add: fun_eq_iff simplify_dim_type_def)
  then show ?thesis by (cases d) (simp_all add: transparent_intros)
qed

lemma transparent_dims_product [transparent_intros]: "transparent cache_ok (dims_product dims)"
proof -
  have "transparent cache_ok (\<lambda>c. foldR (\<lambda>d (n, c). dim_mul n d c) dims (IntResult 1, c))"
    by (rule transparent_fold) (simp add: transparent_intros)
  moreover have "dims_product dims = (\<lambda>c. foldR (\<lambda>d (n, c). dim_mul n d c) dims (IntResult 1, c))"
    by (simp add: fun_eq_iff dims_product_def)
  ultimately show ?thesis by simp
qed

lemma transparent_ByteSizeExpr: "transparent cache_ok (ByteSizeExpr t)"
proof -
  have "transparent cache_ok (\<lambda>c. ByteSizeExpr t c)"
    unfolding ByteSizeExpr_def Let_def by (intro transparent_intros)
  then show ?thesis .
qed

section \<open>Reuses\<close>

text \<open>The cached sizes are those of the descriptors.\<close>

definition caches_ok :: "shapes \<Rightarrow> caches \<Rightarrow> bool" where
  "caches_ok ctx = (\<lambda>(sizes, c). cache_ok c \<and> (\<forall>name entry. sizes name = Some entry \<longrightarrow>
     (\<exists>t c'. ctx name = Some t \<and> ByteSizeExpr t None = Inr (entry, c'))))"

lemma caches_ok_start [simp]: "caches_ok ctx (Map.empty, c) \<longleftrightarrow> cache_ok c"
  by (simp add: caches_ok_def)

lemma cache_ok_None [simp]: "cache_ok None"
  by (simp add: cache_ok_def)

lemma transparent_GetCachedByteSizeExpr [transparent_intros]:
  "transparent (caches_ok ctx) (GetCachedByteSizeExpr ctx name)"
proof (cases "ctx name")
  case None
  have "GetCachedByteSizeExpr ctx name (sizes, c) = Inl InvalidArgument" if "caches_ok ctx (sizes, c)" for sizes c
  proof -
    have "sizes name = None" using that None by (cases "sizes name") (fastforce simp: caches_ok_def)+
    with None show ?thesis by (simp add: GetCachedByteSizeExpr_def)
  qed
  then show ?thesis unfolding transparent_def by (intro exI [of _ "Inl InvalidArgument"]) auto
next
  case (Some t)
  note same = transparent_same [OF transparent_ByteSizeExpr _ cache_ok_None, of _ t]
    transparent_same [OF transparent_ByteSizeExpr cache_ok_None, of _ t]
  show ?thesis
  proof (cases "ByteSizeExpr t None")
    case (Inl e)
    then have "GetCachedByteSizeExpr ctx name (sizes, c) = Inl e" if "caches_ok ctx (sizes, c)" for sizes c
    proof -
      have "sizes name = None" using that Some Inl by (cases "sizes name") (fastforce simp: caches_ok_def)+
      moreover from that have "cache_ok c" by (simp add: caches_ok_def)
      ultimately show ?thesis using Some Inl same(4) [of c e] by (simp add: GetCachedByteSizeExpr_def)
    qed
    then show ?thesis unfolding transparent_def by (intro exI [of _ "Inl e"]) auto
  next
    case (Inr p)
    then have "\<exists>cs'. GetCachedByteSizeExpr ctx name (sizes, c) = Inr (fst p, cs') \<and> caches_ok ctx cs'"
      if "caches_ok ctx (sizes, c)" for sizes c
    proof (cases "sizes name")
      case None
      from that have "cache_ok c" by (simp add: caches_ok_def)
      from same(3) [OF this, of "fst p" "snd p"] Inr obtain c' where "ByteSizeExpr t c = Inr (fst p, c')" "cache_ok c'"
        by auto
      with None Some Inr that show ?thesis
        by (auto simp: GetCachedByteSizeExpr_def caches_ok_def intro!: exI [of _ t] exI [of _ "snd p"])
    next
      case entry: (Some entry)
      with that Some Inr have "entry = fst p" by (fastforce simp: caches_ok_def)
      with entry that show ?thesis by (simp add: GetCachedByteSizeExpr_def)
    qed
    then show ?thesis unfolding transparent_def by (intro exI [of _ "Inr (fst p)"]) auto
  qed
qed

lemma transparent_ClassifyReuse [transparent_intros]:
  "transparent (caches_ok ctx) (ClassifyReuse ctx out_name out_tensor in_name in_tensor)"
proof -
  have "transparent (caches_ok ctx) (\<lambda>cs. case p of (Some m, Some n) \<Rightarrow>
            Inr (if n = m then Some kEqual else if n > m then Some kGreater else None, cs)
        | _ \<Rightarrow>
            bindR (GetCachedByteSizeExpr ctx out_name cs) (\<lambda>(out_expr, cs).
            bindR (GetCachedByteSizeExpr ctx in_name cs) (\<lambda>(in_expr, cs).
              Inr (if out_expr \<noteq> None \<and> in_expr \<noteq> None \<and> out_expr = in_expr then Some kEqual else None, cs))))"
    for p :: "int option \<times> int option"
    by (cases p; cases "fst p"; cases "snd p") (auto intro!: transparent_intros)
  then have "transparent (caches_ok ctx) (\<lambda>cs. ClassifyReuse ctx out_name out_tensor in_name in_tensor cs)"
    unfolding ClassifyReuse_def by (intro transparent_intros)
  then show ?thesis .
qed

lemma transparent_match_kind [transparent_intros]:
  "transparent (caches_ok ctx) (match_kind ctx nd out_name out_tensor k)"
proof -
  have "transparent (caches_ok ctx) (\<lambda>cs. match_kind ctx nd out_name out_tensor k cs)"
    unfolding match_kind_def Let_def by (intro transparent_intros)
  then show ?thesis .
qed

lemma transparent_find_input [transparent_intros]:
  "transparent (caches_ok ctx) (find_input ctx lt nd i wanted out_name out_tensor used ks)"
proof (induction ks)
  case Nil
  have "find_input ctx lt nd i wanted out_name out_tensor used [] = (\<lambda>cs. Inr (None, cs))" by (rule ext) simp
  then show ?case by (simp add: transparent_intros)
next
  case (Cons k ks)
  have "find_input ctx lt nd i wanted out_name out_tensor used (k # ks) = (\<lambda>cs.
     (if k \<in> used \<or> \<not> may_take_over ctx lt nd i out_name k
      then find_input ctx lt nd i wanted out_name out_tensor used ks cs
      else bindR (match_kind ctx nd out_name out_tensor k cs) (\<lambda>(found, cs).
             if found = Some wanted then Inr (Some k, cs)
             else find_input ctx lt nd i wanted out_name out_tensor used ks cs)))"
    by (rule ext) simp
  then show ?case using Cons.IH by (auto intro!: transparent_intros)
qed

lemma transparent_match_output [transparent_intros]:
  "transparent (caches_ok ctx) (\<lambda>cs. match_output ctx lt nd i wanted oi (st, cs))"
  unfolding match_output_def Let_def prod.case by (intro transparent_intros)

lemma transparent_match_pass [transparent_intros]:
  "transparent (caches_ok ctx) (\<lambda>cs. match_pass ctx lt nd i wanted (st, cs))"
  unfolding match_pass_def by (intro transparent_fold transparent_intros)

text \<open>The reuses of a node are the same from all good caches.\<close>

lemma transparent_ComputeSingleNodeReuse [transparent_intros]:
  "transparent (caches_ok ctx) (ComputeSingleNodeReuse ctx lt nd i)"
proof -
  have "transparent (caches_ok ctx) (\<lambda>cs. foldR (match_pass ctx lt nd i) [kEqual, kGreater] (st, cs))" for st
    by (intro transparent_fold transparent_intros)
  then have "transparent (caches_ok ctx) (\<lambda>cs. ComputeSingleNodeReuse ctx lt nd i cs)"
    unfolding ComputeSingleNodeReuse_def by (intro transparent_intros)
  then show ?thesis .
qed

end
