(* ===== verification/IncrementalLifetime.thy ===== *)
theory IncrementalLifetime
  imports CacheTransparency
begin

text \<open>
  The incremental lifetime state of \<open>ComputeContext\<close> (\<open>onnx_core/compute/compute_context.cc\<close>): while a
  graph is built, every appended node updates the releases and the in-place reuses of the nodes it
  affects.  The bookkeeping of the memory profiles is carried along; the profiles are not computed.
\<close>

section \<open>State\<close>

datatype MemoryProfiling = kIncremental | kExplicit

datatype NodeMemoryProfileValue = Scalar DimType | Bucket "string \<rightharpoonup> DimType"

type_synonym NodeMemoryProfile = "string \<rightharpoonup> NodeMemoryProfileValue"

record PeakMemoryEstimate =
  worst_case :: SymDim
  average_case :: "SymDim option"

definition node_memory_scalars :: "string list" where
  "node_memory_scalars = [''total_bytes'', ''already_allocated_bytes'', ''output_allocation_bytes'', ''before_bytes'',
     ''during_bytes'', ''after_bytes'', ''released_bytes'']"

definition node_memory_buckets :: "string list" where
  "node_memory_buckets = [''inputs'', ''initializers'', ''intermediates'', ''outputs'']"

definition MakeEmptyNodeMemoryProfile :: NodeMemoryProfile where
  "MakeEmptyNodeMemoryProfile = map_of (map (\<lambda>key. (key, Scalar (IntResult 0))) node_memory_scalars @
     map (\<lambda>key. (key, Bucket Map.empty)) node_memory_buckets)"

text \<open>
  The fields of the context that these operations touch, and the cache of simplified expressions of
  the shapes they are given.  A position \<open>-1\<close> is \<open>None\<close>; the last uses are positions.
\<close>

record ComputeContext =
  memory_profiling :: MemoryProfiling
  value_tags :: "string \<rightharpoonup> string"
  context_reuse :: "InPlaceReuse list list"
  context_release_after :: "string list list"
  context_not_used_after :: "string list list"
  context_release_after_shape_tagged :: "string list list"
  context_memory :: "NodeMemoryProfile list"
  memory_matches_shapes :: bool
  peak_memory :: "PeakMemoryEstimate list"
  incr_producer :: producers
  incr_last_use :: last_uses
  incr_keep :: "string set"
  incr_graph_inputs :: "string set"
  incr_graph_initializers :: "string set"
  incr_graph_outputs :: "string set"
  incr_node_references :: "string list list"
  incr_byte_size_expr_cache :: size_cache
  incr_allocation_bytes :: "string \<rightharpoonup> DimType"
  incr_memory_alive :: "string set"
  incr_memory_alive_before_refresh :: "string set"
  incr_memory_refresh_from :: "nat option"
  incr_memory_refresh_prepared :: bool
  ExpressionCache :: cache

definition new_context :: "MemoryProfiling \<Rightarrow> (string \<rightharpoonup> string) \<Rightarrow> ComputeContext" where
  "new_context profiling tags =
     \<lparr>memory_profiling = profiling, value_tags = tags, context_reuse = [], context_release_after = [], context_not_used_after = [],
      context_release_after_shape_tagged = [], context_memory = [], memory_matches_shapes = False, peak_memory = [],
      incr_producer = Map.empty, incr_last_use = Map.empty, incr_keep = {}, incr_graph_inputs = {},
      incr_graph_initializers = {}, incr_graph_outputs = {}, incr_node_references = [],
      incr_byte_size_expr_cache = Map.empty, incr_allocation_bytes = Map.empty, incr_memory_alive = {},
      incr_memory_alive_before_refresh = {}, incr_memory_refresh_from = None, incr_memory_refresh_prepared = False,
      ExpressionCache = Some Map.empty\<rparr>"

section \<open>The position from which memory profiles are stale\<close>

definition ClearMemoryProfiles :: "ComputeContext \<Rightarrow> ComputeContext" where
  "ClearMemoryProfiles s = s\<lparr>context_memory := [], memory_matches_shapes := False, peak_memory := [],
     incr_allocation_bytes := Map.empty, incr_memory_alive := {}, incr_memory_alive_before_refresh := {},
     incr_memory_refresh_from := (if memory_profiling s = kIncremental then Some 0 else None),
     incr_memory_refresh_prepared := False\<rparr>"

definition MarkMemoryRefresh :: "nat \<Rightarrow> ComputeContext \<Rightarrow> ComputeContext" where
  "MarkMemoryRefresh node_index s =
     (if memory_profiling s = kExplicit then ClearMemoryProfiles s
      else if (case incr_memory_refresh_from s of None \<Rightarrow> True | Some from \<Rightarrow> node_index < from)
      then s\<lparr>incr_memory_refresh_from := Some node_index, incr_memory_refresh_prepared := False\<rparr>
      else s)"

definition undo_node_memory :: "ComputeContext \<Rightarrow> node list \<Rightarrow> nat \<Rightarrow> string set \<Rightarrow> string set" where
  "undo_node_memory s nodes position alive =
     (let released = (if position < length (context_release_after s) then context_release_after s ! position else [])
      in (alive \<union> {name \<in> set released. incr_allocation_bytes s name \<noteq> None}) -
         set (produced_names (nodes ! position)))"

definition PrepareMemoryRefresh :: "node list \<Rightarrow> nat \<Rightarrow> ComputeContext \<Rightarrow> ComputeContext" where
  "PrepareMemoryRefresh nodes end_exclusive s =
     (case incr_memory_refresh_from s of
        None \<Rightarrow> s
      | Some from \<Rightarrow>
          if incr_memory_refresh_prepared s then s
          else if from = 0
          then s\<lparr>incr_memory_alive_before_refresh := {}, incr_memory_refresh_prepared := True\<rparr>
          else s\<lparr>incr_memory_alive_before_refresh :=
                   fold (undo_node_memory s nodes) (rev [from..<end_exclusive]) (incr_memory_alive s),
                 incr_memory_refresh_prepared := True\<rparr>)"

section \<open>Declaring inputs, initializers and outputs\<close>

definition lifetimes_of :: "ComputeContext \<Rightarrow> lifetimes" where
  "lifetimes_of s = \<lparr>kept = incr_keep s, producer_of = incr_producer s, last_use_of = incr_last_use s\<rparr>"

definition RefreshNodeReuse :: "shapes \<Rightarrow> node list \<Rightarrow> nat \<Rightarrow> ComputeContext \<Rightarrow> ComputeContext res" where
  "RefreshNodeReuse ctx nodes index s =
     bindR (ComputeSingleNodeReuse ctx (lifetimes_of s) (nodes ! index) index
              (incr_byte_size_expr_cache s, ExpressionCache s))
       (\<lambda>(matches, sizes, c).
         Inr (s\<lparr>context_reuse := (context_reuse s)[index := matches], incr_byte_size_expr_cache := sizes, ExpressionCache := c\<rparr>))"

definition SeedReuseInput :: "string \<Rightarrow> bool \<Rightarrow> bool \<Rightarrow> bool \<Rightarrow> ComputeContext \<Rightarrow> ComputeContext res" where
  "SeedReuseInput name is_graph_input is_initializer allow_input_overwrite s =
     (if allow_input_overwrite then Inl InvalidArgument
      else if name = '''' then Inr s
      else let s1 = (if is_graph_input then s\<lparr>incr_graph_inputs := insert name (incr_graph_inputs s),
                                              incr_keep := insert name (incr_keep s)\<rparr> else s);
               s2 = (if is_initializer then s1\<lparr>incr_graph_initializers := insert name (incr_graph_initializers s1),
                                               incr_keep := insert name (incr_keep s1)\<rparr> else s1)
           in Inr (MarkMemoryRefresh 0 s2))"

definition EraseValueFromList :: "string \<Rightarrow> nat \<Rightarrow> string list list \<Rightarrow> string list list" where
  "EraseValueFromList value index name_lists =
     (if index < length name_lists then name_lists[index := removeAll value (name_lists ! index)] else name_lists)"

definition SeedReuseOutput :: "shapes \<Rightarrow> node list \<Rightarrow> string \<Rightarrow> ComputeContext \<Rightarrow> ComputeContext res" where
  "SeedReuseOutput ctx nodes name s =
     (if name = '''' then Inr s
      else let s1 = PrepareMemoryRefresh nodes (length nodes)
                 (MarkMemoryRefresh (case incr_last_use s name of None \<Rightarrow> 0 | Some i \<Rightarrow> i) s);
               s2 = s1\<lparr>incr_keep := insert name (incr_keep s1), incr_graph_outputs := insert name (incr_graph_outputs s1)\<rparr>
           in case incr_last_use s2 name of
                None \<Rightarrow> Inr s2
              | Some index \<Rightarrow>
                  let s3 = s2\<lparr>context_release_after := EraseValueFromList name index (context_release_after s2),
                    context_release_after_shape_tagged := EraseValueFromList name index (context_release_after_shape_tagged s2)\<rparr>
                  in if index < length (context_reuse s3) then RefreshNodeReuse ctx nodes index s3 else Inr s3)"

section \<open>Appending a node\<close>

text \<open>The nodes whose memory a new reference to \<open>name\<close> affects.\<close>

definition mark_reference :: "string \<Rightarrow> ComputeContext \<Rightarrow> ComputeContext" where
  "mark_reference name s =
     (if name \<in> incr_keep s then s
      else case incr_last_use s name of
          Some index \<Rightarrow> MarkMemoryRefresh index s
        | None \<Rightarrow> (case incr_producer s name of
              Some p \<Rightarrow> MarkMemoryRefresh (if p < 0 then 0 else nat p) s
            | None \<Rightarrow> s))"

text \<open>A name that was used last at \<open>prev\<close> no longer is.\<close>

definition move_last_use :: "shapes \<Rightarrow> node list \<Rightarrow> last_uses \<Rightarrow> string \<Rightarrow> ComputeContext \<Rightarrow> ComputeContext res" where
  "move_last_use ctx nodes previous name s =
     (case previous name of
        None \<Rightarrow> Inr s
      | Some prev \<Rightarrow>
          if length (context_release_after s) \<le> prev then Inr s
          else let s1 = s\<lparr>context_release_after := EraseValueFromList name prev (context_release_after s),
                          context_not_used_after := EraseValueFromList name prev (context_not_used_after s),
                          context_release_after_shape_tagged := EraseValueFromList name prev (context_release_after_shape_tagged s)\<rparr>
               in if name \<in> incr_keep s1 then Inr s1 else RefreshNodeReuse ctx nodes prev s1)"

definition register_output :: "nat \<Rightarrow> string \<Rightarrow> ComputeContext \<Rightarrow> ComputeContext" where
  "register_output i name s =
     s\<lparr>incr_producer := (case incr_producer s name of None \<Rightarrow> (incr_producer s)(name \<mapsto> int i) | Some p \<Rightarrow> incr_producer s),
       incr_last_use := (case incr_last_use s name of None \<Rightarrow> (incr_last_use s)(name \<mapsto> i) | Some k \<Rightarrow> incr_last_use s)\<rparr>"

definition node_not_used :: "nat \<Rightarrow> string list \<Rightarrow> ComputeContext \<Rightarrow> string list" where
  "node_not_used i referenced s = filter (\<lambda>name. incr_last_use s name = Some i \<and>
     (name \<in> incr_graph_inputs s \<or> name \<in> incr_graph_initializers s)) referenced"

definition node_releases :: "nat \<Rightarrow> string list \<Rightarrow> string list \<Rightarrow> ComputeContext \<Rightarrow> string list" where
  "node_releases i referenced outputs s =
     filter (\<lambda>name. incr_last_use s name = Some i \<and> name \<notin> incr_keep s \<and>
       (case incr_producer s name of None \<Rightarrow> False | Some p \<Rightarrow> \<not> (p < 0 \<or> p \<ge> int i))) referenced @
     filter (\<lambda>name. name \<notin> incr_keep s \<and> incr_producer s name = Some (int i) \<and> incr_last_use s name = Some i) outputs"

text \<open>
  \<open>AppendNodeReuse\<close>; \<open>order\<close> is the order in which the hash map of the previous last uses is walked.
\<close>

definition AppendNodeReuse ::
  "shapes \<Rightarrow> string list \<Rightarrow> node list \<Rightarrow> nat \<Rightarrow> string list \<Rightarrow> ComputeContext \<Rightarrow> ComputeContext res" where
  "AppendNodeReuse ctx order nodes node_index referenced s =
     (let nd = nodes ! node_index;
          names = filter (\<lambda>name. name \<noteq> '''') referenced;
          previous = incr_last_use s;
          s1 = PrepareMemoryRefresh nodes node_index (MarkMemoryRefresh node_index (fold mark_reference names s));
          s2 = s1\<lparr>incr_last_use := note_uses node_index names (incr_last_use s1)\<rparr>
      in bindR (foldR (move_last_use ctx nodes previous) order s2) (\<lambda>s3.
         bindR (ComputeSingleNodeReuse ctx (lifetimes_of s3) nd node_index
                  (incr_byte_size_expr_cache s3, ExpressionCache s3)) (\<lambda>(matches, sizes, c).
           let s4 = fold (register_output node_index) (produced_names nd)
                      (s3\<lparr>incr_byte_size_expr_cache := sizes, ExpressionCache := c\<rparr>);
               releases = node_releases node_index names (produced_names nd) s4
           in Inr (s4\<lparr>context_reuse := context_reuse s4 @ [matches],
                context_release_after := context_release_after s4 @ [releases],
                context_not_used_after := context_not_used_after s4 @ [node_not_used node_index names s4],
                context_release_after_shape_tagged := context_release_after_shape_tagged s4 @
                  [filter (\<lambda>name. value_tags s4 name = Some ''shape'') releases],
                context_memory := (if memory_profiling s4 = kIncremental then context_memory s4 @ [MakeEmptyNodeMemoryProfile]
                            else context_memory s4),
                incr_node_references := incr_node_references s4 @ [referenced]\<rparr>))))"

end
