(* ===== verification/IncrementalSound.thy ===== *)
theory IncrementalSound
  imports IncrementalLifetime
begin

text \<open>
  The incremental lifetime state is exact: after every operation the lists of the context are those that
  the whole-graph analysis computes from the nodes so far.
\<close>

section \<open>What the operations leave alone\<close>

text \<open>The context without the bookkeeping of the memory profiles.\<close>

definition forget_memory :: "ComputeContext \<Rightarrow> ComputeContext" where
  "forget_memory s = s\<lparr>context_memory := [], memory_matches_shapes := False, peak_memory := [],
     incr_allocation_bytes := Map.empty, incr_memory_alive := {}, incr_memory_alive_before_refresh := {},
     incr_memory_refresh_from := None, incr_memory_refresh_prepared := False\<rparr>"

lemma forget_memory_simps:
  "forget_memory (ClearMemoryProfiles s) = forget_memory s"
  "forget_memory (MarkMemoryRefresh i s) = forget_memory s"
  "forget_memory (PrepareMemoryRefresh nodes e s) = forget_memory s"
  "forget_memory (mark_reference name s) = forget_memory s"
proof -
  show c: "forget_memory (ClearMemoryProfiles s) = forget_memory s" for s
    by (simp add: forget_memory_def ClearMemoryProfiles_def)
  show m: "forget_memory (MarkMemoryRefresh i s) = forget_memory s" for i s
    by (simp add: MarkMemoryRefresh_def c) (simp add: forget_memory_def)
  show "forget_memory (PrepareMemoryRefresh nodes e s) = forget_memory s"
    by (simp add: PrepareMemoryRefresh_def forget_memory_def split: option.splits)
  show "forget_memory (mark_reference name s) = forget_memory s"
    by (simp add: mark_reference_def m split: option.splits)
qed

lemma forget_mark_references: "forget_memory (fold mark_reference names s) = forget_memory s"
  by (induction names arbitrary: s) (simp_all add: forget_memory_simps)

text \<open>Two contexts that differ in their memory bookkeeping only.\<close>

lemma forget_memory_eqD:
  assumes "forget_memory t = forget_memory s"
  shows "context_reuse t = context_reuse s" "context_release_after t = context_release_after s"
    "context_not_used_after t = context_not_used_after s"
    "context_release_after_shape_tagged t = context_release_after_shape_tagged s"
    "incr_producer t = incr_producer s" "incr_last_use t = incr_last_use s" "incr_keep t = incr_keep s"
    "incr_graph_inputs t = incr_graph_inputs s" "incr_graph_initializers t = incr_graph_initializers s"
    "incr_graph_outputs t = incr_graph_outputs s" "incr_node_references t = incr_node_references s"
    "incr_byte_size_expr_cache t = incr_byte_size_expr_cache s" "ExpressionCache t = ExpressionCache s"
    "value_tags t = value_tags s" "memory_profiling t = memory_profiling s"
  using assms by (cases s; cases t; simp add: forget_memory_def)+

section \<open>Which lifetimes the reuses of a node depend on\<close>

definition same_candidates :: "shapes \<Rightarrow> lifetimes \<Rightarrow> lifetimes \<Rightarrow> node \<Rightarrow> nat \<Rightarrow> bool" where
  "same_candidates ctx lt lt' nd i \<longleftrightarrow> (\<forall>out_name. \<forall>k < length (node_input nd).
     may_take_over ctx lt nd i out_name k = may_take_over ctx lt' nd i out_name k)"

lemma find_input_cong:
  "same_candidates ctx lt lt' nd i \<Longrightarrow> \<forall>k \<in> set ks. k < length (node_input nd) \<Longrightarrow>
   find_input ctx lt nd i wanted out_name out_tensor used ks cs =
   find_input ctx lt' nd i wanted out_name out_tensor used ks cs"
proof (induction ks arbitrary: cs)
  case (Cons k ks)
  then have "may_take_over ctx lt nd i out_name k = may_take_over ctx lt' nd i out_name k"
    by (simp add: same_candidates_def)
  with Cons show ?case by (auto intro!: bindR_cong)
qed simp

lemma ComputeSingleNodeReuse_cong:
  assumes "same_candidates ctx lt lt' nd i"
  shows "ComputeSingleNodeReuse ctx lt nd i = ComputeSingleNodeReuse ctx lt' nd i"
proof -
  have "match_output ctx lt nd i wanted oi (st, cs) = match_output ctx lt' nd i wanted oi (st, cs)" for wanted oi st cs
    using find_input_cong [OF assms, of "[0..<length (node_input nd)]"]
    by (cases "ctx (node_output nd ! oi)") (simp_all add: match_output_def Let_def)
  then have "match_output ctx lt nd i = match_output ctx lt' nd i" by (intro ext) (simp only: split_paired_all)
  then have "match_pass ctx lt nd i = match_pass ctx lt' nd i" by (intro ext) (simp add: match_pass_def)
  then show ?thesis by (intro ext) (simp add: ComputeSingleNodeReuse_def)
qed

lemma node_input_read: "name \<in> set (node_input nd) \<Longrightarrow> name \<noteq> '''' \<Longrightarrow> name \<in> node_reads nd"
  by (cases nd) simp

text \<open>It is enough that the two lifetimes agree on what dies at the node.\<close>

lemma same_candidatesI:
  assumes "\<And>name. name \<in> node_reads nd \<Longrightarrow>
    (last_use_of lt name = Some i \<and> name \<notin> kept lt \<longleftrightarrow> last_use_of lt' name = Some i \<and> name \<notin> kept lt')"
    and "\<And>name. name \<in> node_reads nd \<Longrightarrow> last_use_of lt' name = Some i \<Longrightarrow> producer_of lt name = producer_of lt' name"
  shows "same_candidates ctx lt lt' nd i"
  unfolding same_candidates_def
proof (intro allI impI)
  fix out_name k assume "k < length (node_input nd)"
  then have "node_input nd ! k = '''' \<or> node_input nd ! k \<in> node_reads nd" using node_input_read [OF nth_mem] by blast
  then show "may_take_over ctx lt nd i out_name k = may_take_over ctx lt' nd i out_name k"
  proof
    assume "node_input nd ! k \<in> node_reads nd"
    from assms [OF this] show ?thesis by (auto simp: may_take_over_def Let_def)
  qed (simp add: may_take_over_def)
qed

section \<open>The last pass over one more node\<close>

lemma first_pass_snoc:
  "first_pass i (nodes @ [nd]) st =
     (let (prods, uses) = first_pass i nodes st
      in fold (note_output (i + length nodes)) (node_output nd)
           (prods, note_uses (i + length nodes) (CollectNodeInputs nd) uses))"
proof (induction nodes arbitrary: i st)
  case Nil
  then show ?case by (cases st) simp
next
  case (Cons a nodes)
  then show ?case by (cases st) (simp add: Cons.IH)
qed

lemma register_outputs_fields:
  "incr_producer (fold (register_output i) outs s) name =
     (if incr_producer s name = None \<and> name \<in> set outs then Some (int i) else incr_producer s name)"
  "incr_last_use (fold (register_output i) outs s) name =
     (if incr_last_use s name = None \<and> name \<in> set outs then Some i else incr_last_use s name)"
  by (induction outs arbitrary: s) (auto simp: register_output_def split: option.splits)

lemma register_outputs_other:
  "fold (register_output i) outs s =
     s\<lparr>incr_producer := incr_producer (fold (register_output i) outs s),
       incr_last_use := incr_last_use (fold (register_output i) outs s)\<rparr>"
proof (induction outs arbitrary: s)
  case (Cons x outs)
  have "(register_output i x s)\<lparr>incr_producer := P, incr_last_use := L\<rparr> =
      s\<lparr>incr_producer := P, incr_last_use := L\<rparr>" for P L
    by (simp add: register_output_def)
  with Cons.IH [of "register_output i x s"] show ?case unfolding fold_Cons o_apply by (rule trans)
qed simp

section \<open>A context in step with its nodes\<close>

definition produced_by :: "producers \<Rightarrow> nat \<Rightarrow> string \<Rightarrow> bool" where
  "produced_by prods p name \<longleftrightarrow> (case prods name of None \<Rightarrow> False | Some q \<Rightarrow> \<not> (q < 0 \<or> q > int p))"

definition releases_at :: "producers \<Rightarrow> last_uses \<Rightarrow> string set \<Rightarrow> nat \<Rightarrow> node \<Rightarrow> string list" where
  "releases_at prods uses held p nd =
     filter (\<lambda>name. uses name = Some p \<and> name \<notin> held \<and> produced_by prods p name) (release_candidates nd)"

definition not_used_at :: "last_uses \<Rightarrow> string set \<Rightarrow> nat \<Rightarrow> node \<Rightarrow> string list" where
  "not_used_at uses external p nd = filter (\<lambda>name. uses name = Some p \<and> name \<in> external) (release_candidates nd)"

definition reuse_at :: "shapes \<Rightarrow> lifetimes \<Rightarrow> nat \<Rightarrow> node \<Rightarrow> InPlaceReuse list \<Rightarrow> bool" where
  "reuse_at ctx lt p nd rs \<longleftrightarrow> (\<exists>cs. ComputeSingleNodeReuse ctx lt nd p (Map.empty, None) = Inr (rs, cs))"

text \<open>Every list holds what the whole-graph analysis would put there.\<close>

definition in_step :: "shapes \<Rightarrow> node list \<Rightarrow> ComputeContext \<Rightarrow> bool" where
  "in_step ctx nodes s \<longleftrightarrow>
     first_pass 0 nodes (Map.empty, Map.empty) = (incr_producer s, incr_last_use s) \<and>
     incr_keep s = incr_graph_inputs s \<union> incr_graph_initializers s \<union> incr_graph_outputs s \<and>
     incr_node_references s = map CollectNodeInputs nodes \<and>
     caches_ok ctx (incr_byte_size_expr_cache s, ExpressionCache s) \<and>
     length (context_release_after s) = length nodes \<and> length (context_not_used_after s) = length nodes \<and>
     length (context_release_after_shape_tagged s) = length nodes \<and> length (context_reuse s) = length nodes \<and>
     (\<forall>p < length nodes.
        context_release_after s ! p = releases_at (incr_producer s) (incr_last_use s) (incr_keep s) p (nodes ! p) \<and>
        context_not_used_after s ! p =
          not_used_at (incr_last_use s) (incr_graph_inputs s \<union> incr_graph_initializers s) p (nodes ! p) \<and>
        context_release_after_shape_tagged s ! p =
          filter (\<lambda>name. value_tags s name = Some ''shape'') (context_release_after s ! p) \<and>
        reuse_at ctx (lifetimes_of s) p (nodes ! p) (context_reuse s ! p))"

lemma in_step_forget: "forget_memory t = forget_memory s \<Longrightarrow> in_step ctx nodes t \<longleftrightarrow> in_step ctx nodes s"
  by (simp add: in_step_def lifetimes_of_def forget_memory_eqD [of t s])

lemma new_context_in_step: "in_step ctx [] (new_context profiling tags)"
  by (simp add: in_step_def new_context_def cache_ok_def)

lemma reuse_at_cong:
  "same_candidates ctx lt lt' nd p \<Longrightarrow> reuse_at ctx lt p nd rs \<longleftrightarrow> reuse_at ctx lt' p nd rs"
  by (simp add: reuse_at_def ComputeSingleNodeReuse_cong)

lemma run_reuse_at:
  assumes "ComputeSingleNodeReuse ctx lt nd p cs = Inr (rs, cs')" "caches_ok ctx cs"
  shows "reuse_at ctx lt p nd rs" "caches_ok ctx cs'"
  using transparent_same(1) [OF transparent_ComputeSingleNodeReuse assms(2) _ assms(1), of "(Map.empty, None)"]
  by (auto simp: reuse_at_def)

lemma RefreshNodeReuse_result:
  assumes "RefreshNodeReuse ctx nodes p s = Inr s'" "caches_ok ctx (incr_byte_size_expr_cache s, ExpressionCache s)"
  obtains rs sizes c where "s' = s\<lparr>context_reuse := (context_reuse s)[p := rs], incr_byte_size_expr_cache := sizes,
      ExpressionCache := c\<rparr>" "caches_ok ctx (sizes, c)" "reuse_at ctx (lifetimes_of s) p (nodes ! p) rs"
proof -
  from assms(1) obtain rs sizes c where run: "ComputeSingleNodeReuse ctx (lifetimes_of s) (nodes ! p) p
      (incr_byte_size_expr_cache s, ExpressionCache s) = Inr (rs, sizes, c)"
    and s': "s' = s\<lparr>context_reuse := (context_reuse s)[p := rs], incr_byte_size_expr_cache := sizes, ExpressionCache := c\<rparr>"
    by (auto simp: RefreshNodeReuse_def)
  from run_reuse_at [OF run assms(2)] that [OF s'] show ?thesis by blast
qed

text \<open>The facts about the maps that the operations use.\<close>

lemma in_step_maps:
  assumes "in_step ctx nodes s"
  shows "incr_last_use s name = Some p \<Longrightarrow> p < length nodes"
    "incr_producer s name = Some q \<Longrightarrow> 0 \<le> q \<and> q < int (length nodes)"
    "p < length nodes \<Longrightarrow> name \<in> node_reads (nodes ! p) \<Longrightarrow> incr_last_use s name \<noteq> None"
proof -
  from assms have run: "first_pass 0 nodes (Map.empty, Map.empty) = (incr_producer s, incr_last_use s)"
    by (simp add: in_step_def)
  show "incr_last_use s name = Some p \<Longrightarrow> p < length nodes" using first_pass_uses [OF run] by auto
  show "incr_producer s name = Some q \<Longrightarrow> 0 \<le> q \<and> q < int (length nodes)"
    using first_pass_producer [OF run, of name q] by auto
  show "p < length nodes \<Longrightarrow> name \<in> node_reads (nodes ! p) \<Longrightarrow> incr_last_use s name \<noteq> None"
    using first_pass_reader [OF run] by fastforce
qed

lemma releases_at_cong:
  "(\<And>name. uses name = Some p \<Longrightarrow> uses' name = Some p \<Longrightarrow> (name \<in> held \<longleftrightarrow> name \<in> held') \<and> prods name = prods' name) \<Longrightarrow>
   (\<And>name. uses name = Some p \<longleftrightarrow> uses' name = Some p) \<Longrightarrow>
   releases_at prods uses held p nd = releases_at prods' uses' held' p nd"
  unfolding releases_at_def produced_by_def by (intro filter_cong) (auto split: option.splits)

section \<open>Declarations keep it in step\<close>

lemma SeedReuseInput_in_step:
  assumes sync: "in_step ctx nodes s" and new: "incr_last_use s name = None"
    and run: "SeedReuseInput name is_input is_init overwrite s = Inr s'"
  shows "in_step ctx nodes s'"
proof (cases "name = ''''")
  case True
  with run sync show ?thesis by (simp add: SeedReuseInput_def split: if_splits)
next
  case False
  define s1 where "s1 = (if is_input then s\<lparr>incr_graph_inputs := insert name (incr_graph_inputs s),
    incr_keep := insert name (incr_keep s)\<rparr> else s)"
  define t where "t = (if is_init then s1\<lparr>incr_graph_initializers := insert name (incr_graph_initializers s1),
    incr_keep := insert name (incr_keep s1)\<rparr> else s1)"
  have kept: "incr_keep t = (if is_input \<or> is_init then insert name (incr_keep s) else incr_keep s)"
    "incr_graph_inputs t = (if is_input then insert name (incr_graph_inputs s) else incr_graph_inputs s)"
    "incr_graph_initializers t = (if is_init then insert name (incr_graph_initializers s) else incr_graph_initializers s)"
    and same: "incr_producer t = incr_producer s" "incr_last_use t = incr_last_use s"
      "incr_node_references t = incr_node_references s" "incr_byte_size_expr_cache t = incr_byte_size_expr_cache s"
      "ExpressionCache t = ExpressionCache s" "context_release_after t = context_release_after s"
      "context_not_used_after t = context_not_used_after s" "context_reuse t = context_reuse s" "value_tags t = value_tags s"
      "context_release_after_shape_tagged t = context_release_after_shape_tagged s" "incr_graph_outputs t = incr_graph_outputs s"
    by (simp_all add: t_def s1_def)
  from run False have "s' = MarkMemoryRefresh 0 t"
    by (simp add: SeedReuseInput_def Let_def s1_def [symmetric] t_def [symmetric] split: if_splits)
  then have "forget_memory s' = forget_memory t" by (simp add: forget_memory_simps)
  then have "in_step ctx nodes s' \<longleftrightarrow> in_step ctx nodes t" by (rule in_step_forget)
  moreover have "in_step ctx nodes t"
  proof -
    have "same_candidates ctx (lifetimes_of s) (lifetimes_of t) nd p" for nd p
      using new by (intro same_candidatesI) (auto simp: lifetimes_of_def kept same)
    then have "reuse_at ctx (lifetimes_of t) p nd rs \<longleftrightarrow> reuse_at ctx (lifetimes_of s) p nd rs" for p nd rs
      using reuse_at_cong by blast
    moreover have "releases_at (incr_producer s) (incr_last_use s) (incr_keep t) p nd =
        releases_at (incr_producer s) (incr_last_use s) (incr_keep s) p nd" for p nd
      using new by (intro releases_at_cong) (auto simp: kept)
    moreover have "not_used_at (incr_last_use s) (incr_graph_inputs t \<union> incr_graph_initializers t) p nd =
        not_used_at (incr_last_use s) (incr_graph_inputs s \<union> incr_graph_initializers s) p nd" for p nd
      using new by (auto simp: not_used_at_def kept intro!: filter_cong)
    moreover have "incr_keep t = incr_graph_inputs t \<union> incr_graph_initializers t \<union> incr_graph_outputs t"
      using sync by (auto simp: in_step_def kept same)
    ultimately show ?thesis using sync unfolding in_step_def same by simp
  qed
  ultimately show ?thesis by simp
qed

lemma removeAll_releases:
  "removeAll name (releases_at prods uses held p nd) = releases_at prods uses (insert name held) p nd"
  unfolding releases_at_def removeAll_filter_not_eq filter_filter by (intro filter_cong) auto

lemma SeedReuseOutput_in_step:
  assumes sync: "in_step ctx nodes s" and run: "SeedReuseOutput ctx nodes name s = Inr s'"
  shows "in_step ctx nodes s'"
proof (cases "name = ''''")
  case True
  with run sync show ?thesis by (simp add: SeedReuseOutput_def)
next
  case False
  define s1 where "s1 = PrepareMemoryRefresh nodes (length nodes)
    (MarkMemoryRefresh (case incr_last_use s name of None \<Rightarrow> 0 | Some i \<Rightarrow> i) s)"
  define s2 where "s2 = s1\<lparr>incr_keep := insert name (incr_keep s1), incr_graph_outputs := insert name (incr_graph_outputs s1)\<rparr>"
  have "forget_memory s1 = forget_memory s" by (simp add: s1_def forget_memory_simps)
  note s1 = forget_memory_eqD [OF this]
  have same: "same_candidates ctx (lifetimes_of s) lt nd p"
    if "lt = \<lparr>kept = insert name (incr_keep s), producer_of = incr_producer s, last_use_of = incr_last_use s\<rparr>"
      "incr_last_use s name \<noteq> Some p" for lt nd p
    using that by (intro same_candidatesI) (auto simp: lifetimes_of_def)
  have other: "releases_at (incr_producer s) (incr_last_use s) (insert name (incr_keep s)) p nd =
      releases_at (incr_producer s) (incr_last_use s) (incr_keep s) p nd" if "incr_last_use s name \<noteq> Some p" for p nd
    using that by (intro releases_at_cong) auto
  have chosen: "(case incr_last_use s2 name of None \<Rightarrow> Inr s2 | Some index \<Rightarrow>
      (let s3 = s2\<lparr>context_release_after := EraseValueFromList name index (context_release_after s2),
            context_release_after_shape_tagged := EraseValueFromList name index (context_release_after_shape_tagged s2)\<rparr>
       in if index < length (context_reuse s3) then RefreshNodeReuse ctx nodes index s3 else Inr s3)) = Inr s'"
  proof -
    have "SeedReuseOutput ctx nodes name s = (case incr_last_use s2 name of None \<Rightarrow> Inr s2 | Some index \<Rightarrow>
      (let s3 = s2\<lparr>context_release_after := EraseValueFromList name index (context_release_after s2),
            context_release_after_shape_tagged := EraseValueFromList name index (context_release_after_shape_tagged s2)\<rparr>
       in if index < length (context_reuse s3) then RefreshNodeReuse ctx nodes index s3 else Inr s3))"
      unfolding SeedReuseOutput_def Let_def s2_def s1_def using False by (simp only: if_False)
    with run show ?thesis by (simp only:)
  qed
  show ?thesis
  proof (cases "incr_last_use s name")
    case None
    with chosen have "s' = s2" by (simp add: s2_def s1)
    moreover have "reuse_at ctx (lifetimes_of s2) p nd rs \<longleftrightarrow> reuse_at ctx (lifetimes_of s) p nd rs" for p nd rs
      using reuse_at_cong [OF same [of "lifetimes_of s2" p nd]] None by (simp add: lifetimes_of_def s2_def s1)
    ultimately show ?thesis using sync other None unfolding in_step_def by (simp add: s2_def s1)
  next
    case (Some index)
    define s3 where "s3 = s2\<lparr>context_release_after := EraseValueFromList name index (context_release_after s2),
      context_release_after_shape_tagged := EraseValueFromList name index (context_release_after_shape_tagged s2)\<rparr>"
    have index: "index < length nodes" using in_step_maps(1) [OF sync Some] .
    have lens: "length (context_reuse s3) = length nodes" "length (context_release_after s) = length nodes"
      "length (context_release_after_shape_tagged s) = length nodes"
      using sync by (simp_all add: in_step_def s3_def s2_def s1)
    have "incr_last_use s2 name = Some index" using Some by (simp add: s2_def s1)
    with chosen index lens(1) have "RefreshNodeReuse ctx nodes index s3 = Inr s'"
      by (simp add: s3_def [symmetric] Let_def)
    moreover have "caches_ok ctx (incr_byte_size_expr_cache s3, ExpressionCache s3)"
      using sync by (simp add: in_step_def s3_def s2_def s1)
    ultimately obtain rs sizes c where s': "s' = s3\<lparr>context_reuse := (context_reuse s3)[index := rs],
        incr_byte_size_expr_cache := sizes, ExpressionCache := c\<rparr>" "caches_ok ctx (sizes, c)"
      and rs: "reuse_at ctx (lifetimes_of s3) index (nodes ! index) rs" by (rule RefreshNodeReuse_result)
    have lt: "lifetimes_of s3 = \<lparr>kept = insert name (incr_keep s), producer_of = incr_producer s,
        last_use_of = incr_last_use s\<rparr>" "lifetimes_of s' = lifetimes_of s3"
      by (simp_all add: lifetimes_of_def s3_def s2_def s1 s')
    have lists: "context_release_after s' = EraseValueFromList name index (context_release_after s)"
      "context_release_after_shape_tagged s' = EraseValueFromList name index (context_release_after_shape_tagged s)"
      "context_reuse s' = (context_reuse s)[index := rs]"
      by (simp_all add: s' s3_def s2_def s1)
    have "context_release_after s' ! p = releases_at (incr_producer s) (incr_last_use s) (insert name (incr_keep s)) p (nodes ! p) \<and>
        context_release_after_shape_tagged s' ! p =
          filter (\<lambda>name. value_tags s name = Some ''shape'') (context_release_after s' ! p) \<and>
        reuse_at ctx (lifetimes_of s') p (nodes ! p) (context_reuse s' ! p)" if "p < length nodes" for p
    proof (cases "p = index")
      case True
      have "context_release_after s' ! p = removeAll name (context_release_after s ! p)"
        "context_release_after_shape_tagged s' ! p = removeAll name (context_release_after_shape_tagged s ! p)"
        using True index lens lists by (simp_all add: EraseValueFromList_def)
      moreover have "removeAll name (filter P names) = filter P (removeAll name names)" for P and names :: "string list"
        by (simp add: removeAll_filter_not_eq conj_commute)
      moreover have "context_reuse s' ! p = rs" using True index lens(1) lists(3) by (simp add: s3_def s2_def s1)
      ultimately show ?thesis using sync that rs True by (simp add: in_step_def removeAll_releases lt(2))
    next
      case p: False
      with Some have "incr_last_use s name \<noteq> Some p" by simp
      with reuse_at_cong [OF same [OF lt(1), of p "nodes ! p"], symmetric] other p sync index lens that lists show ?thesis
        by (simp add: in_step_def EraseValueFromList_def lt(2))
    qed
    moreover have "length (context_release_after s') = length nodes" "length (context_release_after_shape_tagged s') = length nodes"
      "length (context_reuse s') = length nodes"
      using lens by (simp_all add: s' s3_def s2_def s1 EraseValueFromList_def)
    moreover have "context_not_used_after s' = context_not_used_after s" "incr_producer s' = incr_producer s"
      "incr_last_use s' = incr_last_use s" "incr_keep s' = insert name (incr_keep s)"
      "incr_graph_inputs s' = incr_graph_inputs s" "incr_graph_initializers s' = incr_graph_initializers s"
      "incr_graph_outputs s' = insert name (incr_graph_outputs s)" "value_tags s' = value_tags s"
      "incr_node_references s' = incr_node_references s" "incr_byte_size_expr_cache s' = sizes" "ExpressionCache s' = c"
      by (simp_all add: s' s3_def s2_def s1)
    ultimately show ?thesis using sync s'(2) unfolding in_step_def by simp
  qed
qed

section \<open>Appending a node keeps it in step\<close>

text \<open>
  Midway, when the names of \<open>moved\<close> have lost their previous last use: their releases are gone, and the
  reuses of the nodes that held one of them are computed anew.
\<close>

definition midway :: "shapes \<Rightarrow> node list \<Rightarrow> ComputeContext \<Rightarrow> lifetimes \<Rightarrow> string set \<Rightarrow> ComputeContext \<Rightarrow> bool" where
  "midway ctx nodes s lt moved t \<longleftrightarrow>
     lifetimes_of t = lt \<and> incr_graph_inputs t = incr_graph_inputs s \<and>
     incr_graph_initializers t = incr_graph_initializers s \<and> incr_graph_outputs t = incr_graph_outputs s \<and>
     incr_node_references t = incr_node_references s \<and> value_tags t = value_tags s \<and>
     caches_ok ctx (incr_byte_size_expr_cache t, ExpressionCache t) \<and>
     length (context_release_after t) = length nodes \<and> length (context_not_used_after t) = length nodes \<and>
     length (context_release_after_shape_tagged t) = length nodes \<and> length (context_reuse t) = length nodes \<and>
     (\<forall>p < length nodes.
        (let stays = (\<lambda>name. \<not> (name \<in> moved \<and> incr_last_use s name = Some p))
         in context_release_after t ! p = filter stays (context_release_after s ! p) \<and>
            context_not_used_after t ! p = filter stays (context_not_used_after s ! p) \<and>
            context_release_after_shape_tagged t ! p = filter stays (context_release_after_shape_tagged s ! p)) \<and>
        (if \<exists>name \<in> moved. incr_last_use s name = Some p \<and> name \<notin> kept lt
         then reuse_at ctx lt p (nodes ! p) (context_reuse t ! p)
         else context_reuse t ! p = context_reuse s ! p))"

lemma EraseValueFromList_nth:
  "p < length names \<Longrightarrow> EraseValueFromList name q names ! p = (if p = q then removeAll name (names ! p) else names ! p)"
  "length (EraseValueFromList name q names) = length names"
  by (simp_all add: EraseValueFromList_def nth_list_update)

lemma removeAll_filter_moved:
  assumes "uses name = Some q" "xs = filter (\<lambda>n. \<not> (n \<in> moved \<and> uses n = Some p)) ys"
  shows "(if p = q then removeAll name xs else xs) = filter (\<lambda>n. \<not> (n \<in> insert name moved \<and> uses n = Some p)) ys"
  using assms by (auto simp: removeAll_filter_not_eq intro!: filter_cong)

lemma move_last_use_midway:
  assumes mid: "midway ctx nodes s lt moved t" and lens: "length (context_release_after s) = length nodes"
    and run: "move_last_use ctx (nodes @ rest) (incr_last_use s) name t = Inr t'"
  shows "midway ctx nodes s lt (insert name moved) t'"
proof (cases "incr_last_use s name")
  case None
  with run have "t' = t" by (simp add: move_last_use_def)
  with mid None show ?thesis unfolding midway_def by (auto simp: Let_def intro!: filter_cong)
next
  case (Some q)
  have same_len: "length (context_release_after t) = length nodes" using mid by (simp add: midway_def)
  show ?thesis
  proof (cases "length nodes \<le> q")
    case True
    with Some same_len run have "t' = t" by (simp add: move_last_use_def)
    moreover have "p < length nodes \<Longrightarrow> (\<exists>n \<in> insert name moved. incr_last_use s n = Some p \<and> n \<notin> kept lt) \<longleftrightarrow>
        (\<exists>n \<in> moved. incr_last_use s n = Some p \<and> n \<notin> kept lt)" for p
      using True Some by auto
    moreover have "p < length nodes \<Longrightarrow> filter (\<lambda>n. \<not> (n \<in> insert name moved \<and> incr_last_use s n = Some p)) ys =
        filter (\<lambda>n. \<not> (n \<in> moved \<and> incr_last_use s n = Some p)) ys" for p ys
      using True Some by (auto intro!: filter_cong)
    ultimately show ?thesis using mid unfolding midway_def Let_def by simp
  next
    case q: False
    define u where "u = t\<lparr>context_release_after := EraseValueFromList name q (context_release_after t),
      context_not_used_after := EraseValueFromList name q (context_not_used_after t),
      context_release_after_shape_tagged := EraseValueFromList name q (context_release_after_shape_tagged t)\<rparr>"
    have lts: "lifetimes_of u = lifetimes_of t" "lifetimes_of t = lt" "incr_keep u = kept lt"
      using mid by (auto simp: midway_def lifetimes_of_def u_def)
    have run': "(if name \<in> incr_keep u then Inr u else RefreshNodeReuse ctx (nodes @ rest) q u) = Inr t'"
      using run Some q same_len by (simp add: move_last_use_def u_def Let_def not_le split: if_splits)
    have caches: "caches_ok ctx (incr_byte_size_expr_cache u, ExpressionCache u)" using mid by (simp add: midway_def u_def)
    obtain matches sizes c where t': "t' = u\<lparr>context_reuse := matches, incr_byte_size_expr_cache := sizes, ExpressionCache := c\<rparr>"
      and ok: "caches_ok ctx (sizes, c)" and len: "length matches = length nodes"
      and matches: "\<And>p. p < length nodes \<Longrightarrow>
        (if p = q \<and> name \<notin> kept lt then reuse_at ctx lt p (nodes ! p) (matches ! p)
         else matches ! p = context_reuse t ! p)"
    proof (cases "name \<in> kept lt")
      case True
      with run' lts(3) have "t' = u" by simp
      moreover have "length (context_reuse t) = length nodes" using mid by (simp add: midway_def)
      ultimately show ?thesis
        using that [where matches = "context_reuse t" and sizes = "incr_byte_size_expr_cache u" and c = "ExpressionCache u"]
          caches True by (simp add: u_def)
    next
      case False
      with run' lts(3) have "RefreshNodeReuse ctx (nodes @ rest) q u = Inr t'" by simp
      from RefreshNodeReuse_result [OF this caches] obtain rs sizes c where
        r: "t' = u\<lparr>context_reuse := (context_reuse u)[q := rs], incr_byte_size_expr_cache := sizes, ExpressionCache := c\<rparr>"
        "caches_ok ctx (sizes, c)" "reuse_at ctx (lifetimes_of u) q ((nodes @ rest) ! q) rs" .
      have "context_reuse u = context_reuse t" "length (context_reuse t) = length nodes"
        using mid by (simp_all add: u_def midway_def)
      with that [OF r(1,2)] r(3) q False lts show ?thesis by (simp add: nth_append nth_list_update not_le)
    qed
    have lists: "(let stays = (\<lambda>n. \<not> (n \<in> insert name moved \<and> incr_last_use s n = Some p))
         in context_release_after t' ! p = filter stays (context_release_after s ! p) \<and>
            context_not_used_after t' ! p = filter stays (context_not_used_after s ! p) \<and>
            context_release_after_shape_tagged t' ! p = filter stays (context_release_after_shape_tagged s ! p)) \<and>
        (if \<exists>n \<in> insert name moved. incr_last_use s n = Some p \<and> n \<notin> kept lt
         then reuse_at ctx lt p (nodes ! p) (context_reuse t' ! p)
         else context_reuse t' ! p = context_reuse s ! p)" (is "?lists \<and> ?reuse") if p: "p < length nodes" for p
    proof
      let ?erased = "\<lambda>names. if p = q then removeAll name (names ! p) else names ! p"
      have "context_release_after t' ! p = ?erased (context_release_after t)"
        "context_not_used_after t' ! p = ?erased (context_not_used_after t)"
        "context_release_after_shape_tagged t' ! p = ?erased (context_release_after_shape_tagged t)"
        using mid p by (simp_all add: t' u_def midway_def EraseValueFromList_nth)
      then show ?lists using mid p unfolding midway_def Let_def
        by (simp add: removeAll_filter_moved [of "incr_last_use s", OF Some])
      show ?reuse using matches [OF p] mid p Some unfolding midway_def by (auto simp: t' split: if_splits)
    qed
    have fields: "lifetimes_of t' = lt" "incr_graph_inputs t' = incr_graph_inputs s"
      "incr_graph_initializers t' = incr_graph_initializers s" "incr_graph_outputs t' = incr_graph_outputs s"
      "incr_node_references t' = incr_node_references s" "value_tags t' = value_tags s"
      "caches_ok ctx (incr_byte_size_expr_cache t', ExpressionCache t')"
      "length (context_release_after t') = length nodes" "length (context_not_used_after t') = length nodes"
      "length (context_release_after_shape_tagged t') = length nodes" "length (context_reuse t') = length nodes"
      using mid ok len unfolding midway_def by (simp_all add: t' u_def lifetimes_of_def EraseValueFromList_nth(2))
    show ?thesis unfolding midway_def by (intro conjI fields) (use lists in blast)
  qed
qed

lemma move_last_uses_midway:
  assumes "foldR (move_last_use ctx (nodes @ rest) (incr_last_use s)) order t = Inr t'"
    and "midway ctx nodes s lt moved t" "length (context_release_after s) = length nodes"
  shows "midway ctx nodes s lt (moved \<union> set order) t'"
  using assms(1,2)
proof (induction order arbitrary: moved t)
  case (Cons name order)
  then obtain t1 where "move_last_use ctx (nodes @ rest) (incr_last_use s) name t = Inr t1"
    and rest: "foldR (move_last_use ctx (nodes @ rest) (incr_last_use s)) order t1 = Inr t'" by auto
  from Cons.IH [OF rest move_last_use_midway [OF Cons.prems(2) assms(3) this(1)]] show ?case by simp
qed simp

text \<open>The outputs of a new node must be new names.\<close>

definition fresh_outputs :: "node \<Rightarrow> ComputeContext \<Rightarrow> bool" where
  "fresh_outputs nd s \<longleftrightarrow> (\<forall>name \<in> set (produced_names nd). name \<notin> node_reads nd \<and>
     incr_producer s name = None \<and> incr_last_use s name = None \<and>
     name \<notin> incr_graph_inputs s \<and> name \<notin> incr_graph_initializers s)"

lemma reads_are_names: "filter (\<lambda>name. name \<noteq> '''') (CollectNodeInputs nd) = CollectNodeInputs nd"
  using empty_not_read(2) [of nd] by (auto simp: filter_id_conv CollectNodeInputs_reads(1) [symmetric])

lemma candidates_split: "release_candidates nd = CollectNodeInputs nd @ produced_names nd"
  by (simp add: release_candidates_def produced_names_def)

text \<open>The maps after the node: names it reads are used last there, and so are its outputs.\<close>

definition next_uses :: "node \<Rightarrow> nat \<Rightarrow> last_uses \<Rightarrow> last_uses" where
  "next_uses nd k uses = (\<lambda>name. if name \<in> node_reads nd \<or> name \<in> set (produced_names nd) then Some k else uses name)"

definition next_producers :: "node \<Rightarrow> nat \<Rightarrow> producers \<Rightarrow> producers" where
  "next_producers nd k prods = (\<lambda>name. if name \<in> set (produced_names nd) then Some (int k) else prods name)"

definition read_uses :: "node \<Rightarrow> nat \<Rightarrow> ComputeContext \<Rightarrow> lifetimes" where
  "read_uses nd k s = \<lparr>kept = incr_keep s, producer_of = incr_producer s,
     last_use_of = note_uses k (CollectNodeInputs nd) (incr_last_use s)\<rparr>"

text \<open>The context with the maps of the new node.\<close>

definition with_next_maps :: "node \<Rightarrow> nat \<Rightarrow> ComputeContext \<Rightarrow> size_cache \<Rightarrow> cache \<Rightarrow> ComputeContext \<Rightarrow> ComputeContext" where
  "with_next_maps nd k s sizes c t = t\<lparr>incr_byte_size_expr_cache := sizes, ExpressionCache := c,
     incr_producer := next_producers nd k (incr_producer s), incr_last_use := next_uses nd k (incr_last_use s)\<rparr>"

lemma fresh_outputsD:
  assumes "fresh_outputs nd s" "name \<in> set (produced_names nd)"
  shows "name \<notin> node_reads nd" "incr_producer s name = None" "incr_last_use s name = None"
    "name \<notin> incr_graph_inputs s" "name \<notin> incr_graph_initializers s"
  using assms by (auto simp: fresh_outputs_def)

lemma registered_maps:
  assumes fresh: "fresh_outputs nd s" and t: "lifetimes_of t = read_uses nd k s"
  shows "fold (register_output k) (produced_names nd) (t\<lparr>incr_byte_size_expr_cache := sizes, ExpressionCache := c\<rparr>) =
    with_next_maps nd k s sizes c t"
proof -
  let ?t = "t\<lparr>incr_byte_size_expr_cache := sizes, ExpressionCache := c\<rparr>"
  define r where "r = fold (register_output k) (produced_names nd) ?t"
  have maps: "incr_producer t = incr_producer s" "incr_last_use t = note_uses k (CollectNodeInputs nd) (incr_last_use s)"
    using t by (simp_all add: read_uses_def lifetimes_of_def)
  have "incr_producer r = next_producers nd k (incr_producer s)" "incr_last_use r = next_uses nd k (incr_last_use s)"
    using fresh_outputsD [OF fresh] by (auto simp: r_def register_outputs_fields maps next_producers_def next_uses_def
        note_uses_eq CollectNodeInputs_reads(1) fun_eq_iff)
  with register_outputs_other [of k "produced_names nd" ?t] show ?thesis
    by (simp add: r_def [symmetric] with_next_maps_def)
qed

lemma next_first_pass:
  assumes "in_step ctx nodes s" "fresh_outputs nd s"
  shows "first_pass 0 (nodes @ [nd]) (Map.empty, Map.empty) =
    (next_producers nd (length nodes) (incr_producer s), next_uses nd (length nodes) (incr_last_use s))"
proof -
  let ?k = "length nodes"
  have "first_pass 0 nodes (Map.empty, Map.empty) = (incr_producer s, incr_last_use s)"
    using assms(1) by (simp add: in_step_def)
  then have "first_pass 0 (nodes @ [nd]) (Map.empty, Map.empty) = fold (note_output ?k) (node_output nd)
      (incr_producer s, note_uses ?k (CollectNodeInputs nd) (incr_last_use s))" by (simp add: first_pass_snoc)
  moreover have "fst \<dots> = next_producers nd ?k (incr_producer s)" "snd \<dots> = next_uses nd ?k (incr_last_use s)"
    using fresh_outputsD [OF assms(2)] by (auto simp: note_outputs_producer note_outputs_uses next_producers_def
        next_uses_def note_uses_eq CollectNodeInputs_reads(1) fun_eq_iff produced_names_def)
  ultimately show ?thesis by (metis prod.collapse)
qed

text \<open>What \<open>AppendNodeReuse\<close> returns.\<close>

lemma AppendNodeReuse_result:
  assumes sync: "in_step ctx nodes s" and fresh: "fresh_outputs nd s" and order: "set order = node_reads nd"
    and run: "AppendNodeReuse ctx order (nodes @ [nd]) (length nodes) (CollectNodeInputs nd) s = Inr s'"
  obtains t r matches where "midway ctx nodes s (read_uses nd (length nodes) s) (node_reads nd) t"
    "reuse_at ctx (read_uses nd (length nodes) s) (length nodes) nd matches"
    "caches_ok ctx (incr_byte_size_expr_cache s', ExpressionCache s')"
    "r = with_next_maps nd (length nodes) s (incr_byte_size_expr_cache s') (ExpressionCache s') t"
    "forget_memory s' = forget_memory (r\<lparr>context_reuse := context_reuse t @ [matches],
       context_release_after := context_release_after t @
         [node_releases (length nodes) (CollectNodeInputs nd) (produced_names nd) r],
       context_not_used_after := context_not_used_after t @ [node_not_used (length nodes) (CollectNodeInputs nd) r],
       context_release_after_shape_tagged := context_release_after_shape_tagged t @
         [filter (\<lambda>name. value_tags s name = Some ''shape'')
            (node_releases (length nodes) (CollectNodeInputs nd) (produced_names nd) r)],
       incr_node_references := incr_node_references s @ [CollectNodeInputs nd]\<rparr>)"
proof -
  let ?k = "length nodes" and ?names = "CollectNodeInputs nd" and ?outs = "produced_names nd"
  define s1 where "s1 = PrepareMemoryRefresh (nodes @ [nd]) ?k (MarkMemoryRefresh ?k (fold mark_reference ?names s))"
  define s2 where "s2 = s1\<lparr>incr_last_use := note_uses ?k ?names (incr_last_use s1)\<rparr>"
  have "forget_memory s1 = forget_memory s" by (simp add: s1_def forget_memory_simps forget_mark_references)
  note s1 = forget_memory_eqD [OF this]
  have "midway ctx nodes s (read_uses nd ?k s) {} s2"
    using sync unfolding midway_def in_step_def by (simp add: s2_def s1 lifetimes_of_def read_uses_def)
  note start = move_last_uses_midway [OF _ this, unfolded Un_empty_left]
  from run obtain t matches sizes c where
    t: "foldR (move_last_use ctx (nodes @ [nd]) (incr_last_use s)) order s2 = Inr t"
    and m: "ComputeSingleNodeReuse ctx (lifetimes_of t) nd ?k (incr_byte_size_expr_cache t, ExpressionCache t) =
      Inr (matches, sizes, c)"
    and s': "s' = (let s4 = fold (register_output ?k) ?outs (t\<lparr>incr_byte_size_expr_cache := sizes, ExpressionCache := c\<rparr>);
               releases = node_releases ?k ?names ?outs s4
           in s4\<lparr>context_reuse := context_reuse s4 @ [matches],
                context_release_after := context_release_after s4 @ [releases],
                context_not_used_after := context_not_used_after s4 @ [node_not_used ?k ?names s4],
                context_release_after_shape_tagged := context_release_after_shape_tagged s4 @
                  [filter (\<lambda>name. value_tags s4 name = Some ''shape'') releases],
                context_memory := (if memory_profiling s4 = kIncremental then context_memory s4 @ [MakeEmptyNodeMemoryProfile]
                            else context_memory s4),
                incr_node_references := incr_node_references s4 @ [?names]\<rparr>)"
    unfolding AppendNodeReuse_def Let_def reads_are_names s1_def [symmetric] s2_def [symmetric]
    by (auto simp: reads_are_names nth_append)
  have mid: "midway ctx nodes s (read_uses nd ?k s) (node_reads nd) t"
    using start [OF t] sync order by (simp add: in_step_def)
  then have lt: "lifetimes_of t = read_uses nd ?k s" "caches_ok ctx (incr_byte_size_expr_cache t, ExpressionCache t)"
    "value_tags t = value_tags s" "incr_node_references t = incr_node_references s" by (simp_all add: midway_def)
  note run_k = run_reuse_at [OF m lt(2), unfolded lt(1)]
  show ?thesis
    by (rule that [OF mid run_k(1) _ refl])
      (use run_k(2) in \<open>simp_all add: s' Let_def registered_maps [OF fresh lt(1)] with_next_maps_def forget_memory_def lt\<close>)
qed

text \<open>The nodes before the new one.\<close>

lemma AppendNodeReuse_old:
  assumes sync: "in_step ctx nodes s" and fresh: "fresh_outputs nd s" and p: "p < length nodes"
    and mid: "midway ctx nodes s (read_uses nd (length nodes) s) (node_reads nd) t"
    and P: "P = next_producers nd (length nodes) (incr_producer s)" and L: "L = next_uses nd (length nodes) (incr_last_use s)"
  shows "context_release_after t ! p = releases_at P L (incr_keep s) p (nodes ! p)" (is ?r)
    "context_not_used_after t ! p = not_used_at L (incr_graph_inputs s \<union> incr_graph_initializers s) p (nodes ! p)" (is ?n)
    "context_release_after_shape_tagged t ! p =
        filter (\<lambda>name. value_tags s name = Some ''shape'') (context_release_after t ! p)" (is ?t)
    "reuse_at ctx \<lparr>kept = incr_keep s, producer_of = P, last_use_of = L\<rparr> p (nodes ! p) (context_reuse t ! p)" (is ?u)
proof -
  let ?stays = "\<lambda>name. \<not> (name \<in> node_reads nd \<and> incr_last_use s name = Some p)"
  note new = fresh_outputsD [OF fresh]
  have lists: "context_release_after t ! p = filter ?stays (context_release_after s ! p)"
    "context_not_used_after t ! p = filter ?stays (context_not_used_after s ! p)"
    "context_release_after_shape_tagged t ! p = filter ?stays (context_release_after_shape_tagged s ! p)"
    using mid p by (simp_all add: midway_def Let_def)
  have at: "context_release_after s ! p = releases_at (incr_producer s) (incr_last_use s) (incr_keep s) p (nodes ! p)"
    "context_not_used_after s ! p =
      not_used_at (incr_last_use s) (incr_graph_inputs s \<union> incr_graph_initializers s) p (nodes ! p)"
    "context_release_after_shape_tagged s ! p =
      filter (\<lambda>name. value_tags s name = Some ''shape'') (context_release_after s ! p)"
    "reuse_at ctx (lifetimes_of s) p (nodes ! p) (context_reuse s ! p)" using sync p by (simp_all add: in_step_def)
  have later: "L name = Some p \<longleftrightarrow> incr_last_use s name = Some p \<and> name \<notin> node_reads nd" for name
    using p new by (auto simp: next_uses_def L)
  have same_prod: "P name = incr_producer s name" if "name \<notin> set (produced_names nd)" for name
    using that by (simp add: next_producers_def P)
  have "incr_last_use s name = Some p \<Longrightarrow> name \<notin> set (produced_names nd)" for name using new(3) by auto
  then show ?r unfolding lists at releases_at_def filter_filter produced_by_def
    using later same_prod by (intro filter_cong) auto
  show ?n unfolding lists at not_used_at_def filter_filter using later by (intro filter_cong) auto
  show ?t unfolding lists at(3) filter_filter by (intro filter_cong) auto
  have not_out: "name \<in> node_reads (nodes ! p) \<Longrightarrow> name \<notin> set (produced_names nd)" for name
    using in_step_maps(3) [OF sync p] new(3) by blast
  let ?lt = "\<lparr>kept = incr_keep s, producer_of = P, last_use_of = L\<rparr>" and ?mid = "read_uses nd (length nodes) s"
  have "same_candidates ctx ?mid ?lt (nodes ! p) p"
    unfolding read_uses_def using not_out same_prod
    by (intro same_candidatesI) (auto simp: L next_uses_def note_uses_eq CollectNodeInputs_reads(1))
  then have to: "reuse_at ctx ?mid p (nodes ! p) rs \<longleftrightarrow> reuse_at ctx ?lt p (nodes ! p) rs" for rs by (rule reuse_at_cong)
  show ?u
  proof (cases "\<exists>name \<in> node_reads nd. incr_last_use s name = Some p \<and> name \<notin> incr_keep s")
    case True
    with mid p show ?thesis unfolding to [symmetric] by (simp add: midway_def read_uses_def)
  next
    case False
    then have "same_candidates ctx (lifetimes_of s) ?mid (nodes ! p) p" using p unfolding read_uses_def
      by (intro same_candidatesI) (auto simp: lifetimes_of_def note_uses_eq CollectNodeInputs_reads(1))
    with at(4) have "reuse_at ctx ?mid p (nodes ! p) (context_reuse s ! p)" by (simp add: reuse_at_cong)
    moreover have "context_reuse t ! p = context_reuse s ! p" using mid p False by (simp add: midway_def read_uses_def)
    ultimately show ?thesis unfolding to [symmetric] by simp
  qed
qed

text \<open>The new node itself.\<close>

lemma AppendNodeReuse_new:
  assumes sync: "in_step ctx nodes s" and fresh: "fresh_outputs nd s"
    and P: "P = next_producers nd (length nodes) (incr_producer s)" and L: "L = next_uses nd (length nodes) (incr_last_use s)"
    and r: "incr_producer r = P" "incr_last_use r = L" "incr_keep r = incr_keep s"
      "incr_graph_inputs r = incr_graph_inputs s" "incr_graph_initializers r = incr_graph_initializers s"
  shows "node_releases (length nodes) (CollectNodeInputs nd) (produced_names nd) r =
      releases_at P L (incr_keep s) (length nodes) nd"
    "node_not_used (length nodes) (CollectNodeInputs nd) r =
      not_used_at L (incr_graph_inputs s \<union> incr_graph_initializers s) (length nodes) nd"
    "same_candidates ctx (read_uses nd (length nodes) s) \<lparr>kept = incr_keep s, producer_of = P, last_use_of = L\<rparr>
      nd (length nodes)"
proof -
  let ?k = "length nodes"
  note new = fresh_outputsD [OF fresh]
  have reads: "L name = Some ?k" "name \<notin> set (produced_names nd)" if "name \<in> node_reads nd" for name
    using that new(1) by (auto simp: next_uses_def L)
  have outs: "L name = Some ?k" "P name = Some (int ?k)" if "name \<in> set (produced_names nd)" for name
    using that by (simp_all add: next_uses_def next_producers_def L P)
  have same_prod: "P name = incr_producer s name" if "name \<notin> set (produced_names nd)" for name
    using that by (simp add: next_producers_def P)
  show "node_releases ?k (CollectNodeInputs nd) (produced_names nd) r = releases_at P L (incr_keep s) ?k nd"
    unfolding node_releases_def releases_at_def candidates_split filter_append r produced_by_def
    using outs reads(2) same_prod in_step_maps(2) [OF sync]
    by (intro arg_cong2 [of _ _ _ _ append] filter_cong)
      (fastforce simp: CollectNodeInputs_reads(1) split: option.splits)+
  show "node_not_used ?k (CollectNodeInputs nd) r = not_used_at L (incr_graph_inputs s \<union> incr_graph_initializers s) ?k nd"
    unfolding node_not_used_def not_used_at_def candidates_split filter_append r
    using new(4,5) by (auto simp: filter_empty_conv intro!: filter_cong)
  show "same_candidates ctx (read_uses nd ?k s) \<lparr>kept = incr_keep s, producer_of = P, last_use_of = L\<rparr> nd ?k"
    unfolding read_uses_def using reads same_prod
    by (intro same_candidatesI) (auto simp: note_uses_eq CollectNodeInputs_reads(1))
qed

lemma AppendNodeReuse_in_step:
  assumes sync: "in_step ctx nodes s" and fresh: "fresh_outputs nd s" and order: "set order = node_reads nd"
    and run: "AppendNodeReuse ctx order (nodes @ [nd]) (length nodes) (CollectNodeInputs nd) s = Inr s'"
  shows "in_step ctx (nodes @ [nd]) s'"
proof -
  let ?k = "length nodes"
  let ?P = "next_producers nd ?k (incr_producer s)" and ?L = "next_uses nd ?k (incr_last_use s)"
  obtain t r matches where mid: "midway ctx nodes s (read_uses nd ?k s) (node_reads nd) t"
    and matches: "reuse_at ctx (read_uses nd ?k s) ?k nd matches"
    and caches: "caches_ok ctx (incr_byte_size_expr_cache s', ExpressionCache s')"
    and r: "r = with_next_maps nd ?k s (incr_byte_size_expr_cache s') (ExpressionCache s') t"
    and s': "forget_memory s' = forget_memory (r\<lparr>context_reuse := context_reuse t @ [matches],
       context_release_after := context_release_after t @ [node_releases ?k (CollectNodeInputs nd) (produced_names nd) r],
       context_not_used_after := context_not_used_after t @ [node_not_used ?k (CollectNodeInputs nd) r],
       context_release_after_shape_tagged := context_release_after_shape_tagged t @
         [filter (\<lambda>name. value_tags s name = Some ''shape'') (node_releases ?k (CollectNodeInputs nd) (produced_names nd) r)],
       incr_node_references := incr_node_references s @ [CollectNodeInputs nd]\<rparr>)"
    by (rule AppendNodeReuse_result [OF assms])
  have kept: "incr_keep t = incr_keep s" "incr_graph_inputs t = incr_graph_inputs s" "value_tags t = value_tags s"
    "incr_graph_initializers t = incr_graph_initializers s" "incr_graph_outputs t = incr_graph_outputs s"
    using mid by (simp_all add: midway_def read_uses_def lifetimes_of_def)
  have r_maps: "incr_producer r = ?P" "incr_last_use r = ?L" "incr_keep r = incr_keep s"
    "incr_graph_inputs r = incr_graph_inputs s" "incr_graph_initializers r = incr_graph_initializers s"
    by (simp_all add: r with_next_maps_def kept)
  note old = AppendNodeReuse_old [OF sync fresh _ mid refl refl]
  note new = AppendNodeReuse_new [OF sync fresh refl refl r_maps]
  have lens: "length (context_release_after t) = ?k" "length (context_not_used_after t) = ?k"
    "length (context_release_after_shape_tagged t) = ?k" "length (context_reuse t) = ?k"
    using mid by (simp_all add: midway_def)
  have "reuse_at ctx \<lparr>kept = incr_keep s, producer_of = ?P, last_use_of = ?L\<rparr> ?k nd matches"
    using matches reuse_at_cong [OF new(3)] by simp
  with old have "p < Suc ?k \<Longrightarrow> reuse_at ctx \<lparr>kept = incr_keep s, producer_of = ?P, last_use_of = ?L\<rparr> p ((nodes @ [nd]) ! p)
      ((context_reuse t @ [matches]) ! p)" for p
    using lens by (cases "p = ?k") (simp_all add: nth_append)
  then show ?thesis
    unfolding in_step_forget [OF s'] using sync next_first_pass [OF sync fresh] caches old new(1,2) lens
    by (auto simp: in_step_def r with_next_maps_def kept lifetimes_of_def nth_append less_Suc_eq)
qed

section \<open>Building a graph\<close>

text \<open>The reuses of a node depend on the shapes of its own inputs and outputs.\<close>

definition same_shapes :: "shapes \<Rightarrow> shapes \<Rightarrow> node \<Rightarrow> bool" where
  "same_shapes ctx ctx' nd \<longleftrightarrow> (\<forall>name \<in> set (node_input nd) \<union> set (node_output nd). ctx' name = ctx name)"

lemma same_shapesD:
  "same_shapes ctx ctx' nd \<Longrightarrow> k < length (node_input nd) \<Longrightarrow> ctx' (node_input nd ! k) = ctx (node_input nd ! k)"
  "same_shapes ctx ctx' nd \<Longrightarrow> oi < length (node_output nd) \<Longrightarrow> ctx' (node_output nd ! oi) = ctx (node_output nd ! oi)"
  by (simp_all add: same_shapes_def)

lemma GetCachedByteSizeExpr_shape:
  "ctx' name = ctx name \<Longrightarrow> GetCachedByteSizeExpr ctx' name = GetCachedByteSizeExpr ctx name"
  unfolding GetCachedByteSizeExpr_def by (simp only:)

lemma ClassifyReuse_shapes:
  assumes "ctx' out_name = ctx out_name" "ctx' in_name = ctx in_name"
  shows "ClassifyReuse ctx' out_name t in_name u cs = ClassifyReuse ctx out_name t in_name u cs"
  unfolding ClassifyReuse_def GetCachedByteSizeExpr_shape [of ctx' _ ctx, OF assms(1)]
    GetCachedByteSizeExpr_shape [of ctx' _ ctx, OF assms(2)] by (rule refl)

lemma find_input_shapes:
  assumes "same_shapes ctx ctx' nd" "ctx' out_name = ctx out_name"
  shows "\<forall>k \<in> set ks. k < length (node_input nd) \<Longrightarrow>
    find_input ctx' lt nd i wanted out_name t used ks cs = find_input ctx lt nd i wanted out_name t used ks cs"
proof (induction ks arbitrary: cs)
  case (Cons k ks)
  then have k: "ctx' (node_input nd ! k) = ctx (node_input nd ! k)" using same_shapesD(1) [OF assms(1)] by simp
  have found: "match_kind ctx' nd out_name t k cs = match_kind ctx nd out_name t k cs"
    using ClassifyReuse_shapes [of ctx' out_name ctx "node_input nd ! k", OF assms(2) k]
    by (simp add: match_kind_def Let_def k)
  have test: "may_take_over ctx' lt nd i out_name k = may_take_over ctx lt nd i out_name k"
    by (simp add: may_take_over_def Let_def k)
  have rest: "find_input ctx' lt nd i wanted out_name t used ks cs = find_input ctx lt nd i wanted out_name t used ks cs" for cs
    using Cons by simp
  show ?case unfolding find_input.simps found test rest by (rule refl)
qed simp

lemma reuse_at_shapes:
  assumes "same_shapes ctx ctx' nd"
  shows "reuse_at ctx' lt p nd rs \<longleftrightarrow> reuse_at ctx lt p nd rs"
proof -
  have "match_output ctx' lt nd p wanted oi x = match_output ctx lt nd p wanted oi x"
    if "oi < length (node_output nd)" for wanted oi x
    using same_shapesD(2) [OF assms that] find_input_shapes [OF assms same_shapesD(2) [OF assms that], of "[0..<length (node_input nd)]"]
    by (cases x; cases "ctx (node_output nd ! oi)") (simp_all add: match_output_def Let_def)
  then have "match_pass ctx' lt nd p wanted x = match_pass ctx lt nd p wanted x" for wanted x
    unfolding match_pass_def by (intro foldR_cong) auto
  then show ?thesis by (simp add: reuse_at_def ComputeSingleNodeReuse_def)
qed

lemma shapes_in_step:
  assumes "in_step ctx nodes s" "ctx \<subseteq>\<^sub>m ctx'" "\<forall>nd \<in> set nodes. same_shapes ctx ctx' nd"
  shows "in_step ctx' nodes s"
proof -
  have "caches_ok ctx' cs" if "caches_ok ctx cs" for cs
    using that assms(2) by (fastforce simp: caches_ok_def map_le_def dom_def split: prod.splits)
  moreover have "reuse_at ctx' lt p (nodes ! p) rs \<longleftrightarrow> reuse_at ctx lt p (nodes ! p) rs" if "p < length nodes" for lt p rs
    using reuse_at_shapes assms(3) that by simp
  ultimately show ?thesis using assms(1) unfolding in_step_def by blast
qed

text \<open>
  The states a builder reaches.  The code leaves the order of the calls to the builder; the rules say
  which orders are meant.  Inputs and initializers are declared before a node reads them, outputs at any
  time; the outputs of an appended node are new names, and the references passed with it are what it
  reads, in any order for the loop over them.  Shapes are inferred on the way: between two operations
  names may get a shape, those of the nodes already there excepted.  The value tags are those given at
  the start.
\<close>

inductive building :: "shapes \<Rightarrow> node list \<Rightarrow> ComputeContext \<Rightarrow> bool" where
  empty_graph: "building ctx [] (new_context profiling tags)"
| infer_shapes: "building ctx nodes s \<Longrightarrow> ctx \<subseteq>\<^sub>m ctx' \<Longrightarrow> \<forall>nd \<in> set nodes. same_shapes ctx ctx' nd \<Longrightarrow>
    building ctx' nodes s"
| declare_input: "building ctx nodes s \<Longrightarrow> incr_last_use s name = None \<Longrightarrow>
    SeedReuseInput name is_graph_input is_initializer allow_input_overwrite s = Inr s' \<Longrightarrow> building ctx nodes s'"
| declare_output: "building ctx nodes s \<Longrightarrow> SeedReuseOutput ctx nodes name s = Inr s' \<Longrightarrow> building ctx nodes s'"
| append_node: "building ctx nodes s \<Longrightarrow> fresh_outputs nd s \<Longrightarrow> set order = node_reads nd \<Longrightarrow>
    AppendNodeReuse ctx order (nodes @ [nd]) (length nodes) (CollectNodeInputs nd) s = Inr s' \<Longrightarrow>
    building ctx (nodes @ [nd]) s'"

lemma building_in_step: "building ctx nodes s \<Longrightarrow> in_step ctx nodes s"
proof (induction rule: building.induct)
  case (empty_graph ctx profiling tags)
  show ?case by (rule new_context_in_step)
next
  case (infer_shapes ctx nodes s ctx')
  show ?case by (rule shapes_in_step [OF infer_shapes.IH infer_shapes.hyps(2,3)])
next
  case (declare_input ctx nodes s name is_graph_input is_initializer allow_input_overwrite s')
  show ?case by (rule SeedReuseInput_in_step [OF declare_input.IH declare_input.hyps(2,3)])
next
  case (declare_output ctx nodes s name s')
  show ?case by (rule SeedReuseOutput_in_step [OF declare_output.IH declare_output.hyps(2)])
next
  case (append_node ctx nodes s nd order s')
  show ?case by (rule AppendNodeReuse_in_step [OF append_node.IH append_node.hyps(2-4)])
qed

lemma reuse_fold_total:
  assumes "\<forall>p < length nodes. reuse_at ctx lt (k + p) (nodes ! p) (result ! p)" "length result = length nodes"
    and "caches_ok ctx cs"
  shows "\<exists>cs'. foldR (\<lambda>(i, nd) (found, cs). bindR (ComputeSingleNodeReuse ctx lt nd i cs)
      (\<lambda>(matches, cs). Inr (found @ [matches], cs))) (enumerate k nodes) (found, cs) = Inr (found @ result, cs')"
  using assms
proof (induction nodes arbitrary: k found cs result)
  case (Cons nd nodes)
  then obtain rs rest where result: "result = rs # rest" by (cases result) auto
  from Cons.prems(1) [rule_format, of 0] obtain cs0 where
    "ComputeSingleNodeReuse ctx lt nd k (Map.empty, None) = Inr (rs, cs0)" by (auto simp: reuse_at_def result)
  from transparent_same(1) [OF transparent_ComputeSingleNodeReuse _ Cons.prems(3) this]
  obtain cs1 where cs1: "ComputeSingleNodeReuse ctx lt nd k cs = Inr (rs, cs1)" "caches_ok ctx cs1" by auto
  have "\<forall>p < length nodes. reuse_at ctx lt (Suc k + p) (nodes ! p) (rest ! p)"
  proof (intro allI impI)
    fix p assume "p < length nodes"
    with Cons.prems(1) [rule_format, of "Suc p"] show "reuse_at ctx lt (Suc k + p) (nodes ! p) (rest ! p)"
      by (simp add: result)
  qed
  from Cons.IH [OF this _ cs1(2), of "found @ [rs]"] Cons.prems(2) cs1(1) show ?case by (simp add: result)
qed simp

text \<open>C5: The incremental analysis agrees with the analysis of the whole graph.  For a graph that is built in an
  order the incremental analysis is meant for (\<open>building\<close>: inputs and initializers are declared before a
  node reads them, outputs at any time, the outputs of an appended node are new names and the references
  passed with it are its reads, the shapes of a node's names stay once it is there, and the value tags are
  fixed; the code itself checks none of this), the releases, the unused inputs, the shape-tagged releases
  and the in-place reuses that the builder holds are the lists that the analysis computes from the
  complete graph with the shapes reached, and so are the producers, the last uses and the kept names.
  Both keep a graph input that is also an output in the not-used list of its last reader, although the
  comment on \<open>SeedReuseOutput\<close> (compute_context.h) says that declaring an output removes it there.\<close>

theorem incremental_analysis_is_exact:
  assumes "building ctx nodes s"
    and "info = ComputeResultLifetimeInfoImpl nodes False (incr_graph_inputs s) (incr_graph_initializers s) (incr_graph_outputs s)"
  shows "context_release_after s = release_after info \<and> context_not_used_after s = not_used_after info \<and>
    context_release_after_shape_tagged s =
      map (filter (\<lambda>name. value_tags s name = Some ''shape'')) (release_after info) \<and>
    incr_producer s = producer info \<and> incr_last_use s = last_use info \<and> incr_keep s = keep info \<and>
    (\<exists>cs. ComputeInPlaceReuseMatches ctx nodes info None = Inr (context_reuse s, cs))"
proof -
  note sync = building_in_step [OF assms(1)]
  note info = info_fields [OF assms(2)]
  have maps: "incr_producer s = producer info" "incr_last_use s = last_use info" "incr_keep s = keep info"
    using sync info(1,2) by (auto simp: in_step_def)
  have at: "context_release_after s ! p = release_after info ! p" "context_not_used_after s ! p = not_used_after info ! p"
    "context_release_after_shape_tagged s ! p =
      filter (\<lambda>name. value_tags s name = Some ''shape'') (release_after info ! p)"
    "reuse_at ctx (lifetimes_of s) p (nodes ! p) (context_reuse s ! p)" if "p < length nodes" for p
    using that sync info(3,4,8,9)
    by (auto simp: in_step_def releases_at_def not_used_at_def released_names_def not_used_names_def last_used_names_def
        releasable_def produced_by_def maps conj_commute)
  have lens: "length (context_release_after s) = length nodes" "length (context_not_used_after s) = length nodes"
    "length (context_release_after_shape_tagged s) = length nodes" "length (context_reuse s) = length nodes"
    using sync by (simp_all add: in_step_def)
  have "context_release_after s = release_after info" "context_not_used_after s = not_used_after info"
    "context_release_after_shape_tagged s =
      map (filter (\<lambda>name. value_tags s name = Some ''shape'')) (release_after info)"
    using at lens info(6,7) by (auto intro!: nth_equalityI)
  moreover have "\<exists>cs. ComputeInPlaceReuseMatches ctx nodes info None = Inr (context_reuse s, cs)"
    using reuse_fold_total [of nodes ctx "lifetimes_of s" 0 "context_reuse s" "(Map.empty, None)" "[]"] at(4) lens(4)
    by (simp add: ComputeInPlaceReuseMatches_def lifetimes_of_def maps)
  ultimately show ?thesis using maps by blast
qed

text \<open>A chain of two nodes, the second of which writes over the result of the first.\<close>

definition chain_nodes :: "node list" where
  "chain_nodes = [Node ''Neg'' '''' '''' [''x''] [''t''] [] [], Node ''Neg'' '''' '''' [''t''] [''u''] [] [],
     Node ''Neg'' '''' '''' [''u''] [''y''] [] []]"

definition chain_shapes :: shapes where
  "chain_shapes = [''t'' \<mapsto> f32 [IntResult 4], ''u'' \<mapsto> f32 [IntResult 4], ''y'' \<mapsto> f32 [IntResult 4]]"

definition append_chain :: "nat \<Rightarrow> ComputeContext \<Rightarrow> ComputeContext res" where
  "append_chain k s =
     (if fresh_outputs (chain_nodes ! k) s
      then AppendNodeReuse chain_shapes (CollectNodeInputs (chain_nodes ! k)) (take (Suc k) chain_nodes) k
             (CollectNodeInputs (chain_nodes ! k)) s
      else Inl InvalidArgument)"

definition chain_run :: "ComputeContext res" where
  "chain_run = bindR (SeedReuseInput ''x'' True False False (new_context kIncremental Map.empty)) (\<lambda>s0.
     bindR (append_chain 0 s0) (\<lambda>s1. bindR (append_chain 1 s1) (\<lambda>s2. bindR (append_chain 2 s2) (\<lambda>s3.
       SeedReuseOutput chain_shapes chain_nodes ''y'' s3))))"

lemma chain_fresh:
  "fresh_outputs (Node ''Neg'' '''' '''' [a] [b] [] []) s \<longleftrightarrow>
   b = '''' \<or> a \<noteq> b \<and> incr_producer s b = None \<and> incr_last_use s b = None \<and>
     b \<notin> incr_graph_inputs s \<and> b \<notin> incr_graph_initializers s"
  by (auto simp: fresh_outputs_def produced_names_def)

lemma bindR_weak_cong: "m = m' \<Longrightarrow> bindR m f = bindR m' f" by simp

lemma chain_run_lists:
  "case chain_run of Inl e \<Rightarrow> False
   | Inr s \<Rightarrow> incr_graph_inputs s = {''x''} \<and> incr_graph_initializers s = {} \<and> incr_graph_outputs s = {''y''} \<and>
       context_release_after s = [[], [''t''], [''u'']] \<and> context_not_used_after s = [[''x''], [], []] \<and>
       context_reuse s = [[], [\<lparr>output_index = 0, input_index = 0, reuse_kind = kEqual\<rparr>],
         [\<lparr>output_index = 0, input_index = 0, reuse_kind = kEqual\<rparr>]]"
  by (simp add: chain_run_def append_chain_def chain_nodes_def SeedReuseInput_def new_context_def MarkMemoryRefresh_def
      AppendNodeReuse_def mark_reference_def PrepareMemoryRefresh_def move_last_use_def note_uses_def EraseValueFromList_def
      RefreshNodeReuse_def lifetimes_of_def register_output_def produced_names_def node_releases_def node_not_used_def
      SeedReuseOutput_def undo_node_memory_def ComputeSingleNodeReuse_def match_pass_def match_output_def may_take_over_def match_kind_def
      is_view_def ClassifyReuse_def SameStorage_def f32_def chain_shapes_def CollectNodeInputs_def add_name_def
      numeral_2_eq_2 upt_rec Let_def chain_fresh cong: bindR_weak_cong)

lemma append_chain_building:
  assumes "append_chain k t = Inr t'" "building chain_shapes (take k chain_nodes) t" "k < length chain_nodes"
  shows "building chain_shapes (take (Suc k) chain_nodes) t'"
proof -
  have k: "take (Suc k) chain_nodes = take k chain_nodes @ [chain_nodes ! k]" "length (take k chain_nodes) = k"
    using assms(3) by (simp_all add: take_Suc_conv_app_nth)
  show ?thesis unfolding k(1)
    by (rule append_node [OF assms(2), of _ "CollectNodeInputs (chain_nodes ! k)"])
      (use assms(1) k in \<open>simp_all add: append_chain_def CollectNodeInputs_reads(1) split: if_splits\<close>)
qed

lemma chain_built: "chain_run = Inr s \<Longrightarrow> building chain_shapes chain_nodes s"
proof -
  assume "chain_run = Inr s"
  then obtain s0 s1 s2 s3 where
    s0: "SeedReuseInput ''x'' True False False (new_context kIncremental Map.empty) = Inr s0"
    and steps: "append_chain 0 s0 = Inr s1" "append_chain 1 s1 = Inr s2" "append_chain 2 s2 = Inr s3"
    and s: "SeedReuseOutput chain_shapes chain_nodes ''y'' s3 = Inr s"
    by (auto simp: chain_run_def)
  have "building chain_shapes (take 0 chain_nodes) s0"
    using declare_input [OF empty_graph _ s0, of chain_shapes] by (simp add: new_context_def)
  from append_chain_building [OF steps(1) this]
  have "building chain_shapes (take 1 chain_nodes) s1" by (simp add: chain_nodes_def)
  from append_chain_building [OF steps(2) this]
  have "building chain_shapes (take 2 chain_nodes) s2" by (simp add: chain_nodes_def numeral_2_eq_2)
  from append_chain_building [OF steps(3) this]
  have "building chain_shapes chain_nodes s3" by (simp add: chain_nodes_def)
  from declare_output [OF this s] show ?thesis .
qed

lemma incremental_analysis_is_exact_witness:
  "\<exists>cs. ComputeInPlaceReuseMatches chain_shapes chain_nodes
      (ComputeResultLifetimeInfoImpl chain_nodes False {''x''} {} {''y''}) None =
    Inr ([[], [\<lparr>output_index = 0, input_index = 0, reuse_kind = kEqual\<rparr>],
      [\<lparr>output_index = 0, input_index = 0, reuse_kind = kEqual\<rparr>]], cs)"
proof -
  obtain s where s: "chain_run = Inr s"
  proof (cases chain_run)
    case (Inl e)
    with chain_run_lists show ?thesis unfolding Inl by simp
  qed (rule that)
  have "incr_graph_inputs s = {''x''}" "incr_graph_initializers s = {}" "incr_graph_outputs s = {''y''}"
    "context_reuse s = [[], [\<lparr>output_index = 0, input_index = 0, reuse_kind = kEqual\<rparr>],
      [\<lparr>output_index = 0, input_index = 0, reuse_kind = kEqual\<rparr>]]"
    using chain_run_lists unfolding s by simp_all
  with incremental_analysis_is_exact [OF chain_built [OF s] refl] show ?thesis by simp
qed

end
