(* ===== verification/Messages.thy ===== *)
theory Messages
  imports Prelude "HOL-Library.Word"
begin

unbundle bit_operations_syntax

text \<open>
  The messages that the verifier of \<open>onnx_proto\<close> inspects, with the fields it reads.  A protobuf
  \<open>oneof\<close> is a datatype with a constructor for the case where nothing is selected; an optional field
  is an option; an optional string that is only tested for emptiness is a string, empty when unset.
  Floating-point payloads are bit patterns.
\<close>

section \<open>Checks\<close>

text \<open>\<open>EXT_ENFORCE_INVALID\<close> and \<open>Require\<close>: go on when the condition holds, else throw.\<close>

definition enforce :: "bool \<Rightarrow> 'a res \<Rightarrow> 'a res" where
  "enforce condition rest = (if condition then rest else Inl InvalidArgument)"

lemma enforce_Inr [simp]: "enforce b m = Inr x \<longleftrightarrow> b \<and> m = Inr x"
  by (simp add: enforce_def)

lemma enforce_simps [simp]: "enforce True m = m" "enforce False m = Inl InvalidArgument"
  by (simp_all add: enforce_def)

lemma enforce_Inl: "enforce b m = Inl e \<longleftrightarrow> (if b then m = Inl e else e = InvalidArgument)"
  by (auto simp: enforce_def)

lemma enforce_cong [fundef_cong]: "b = b' \<Longrightarrow> (b' \<Longrightarrow> m = m') \<Longrightarrow> enforce b m = enforce b' m'"
  by (simp add: enforce_def)

text \<open>A check of every element of a list, left to right.\<close>

fun eachR :: "('a \<Rightarrow> unit res) \<Rightarrow> 'a list \<Rightarrow> unit res" where
  "eachR f [] = Inr ()"
| "eachR f (x # xs) = bindR (f x) (\<lambda>_. eachR f xs)"

lemma eachR_cong [fundef_cong]:
  "xs = ys \<Longrightarrow> (\<And>x. x \<in> set ys \<Longrightarrow> f x = g x) \<Longrightarrow> eachR f xs = eachR g ys"
  by (induction xs arbitrary: ys) (auto cong: bindR_cong)

lemma eachR_Inr [simp]: "eachR f xs = Inr u \<longleftrightarrow> (\<forall>x \<in> set xs. f x = Inr ())"
  by (induction xs) auto

section \<open>Element types\<close>

text \<open>An enumeration value that a file carries may be none of the declared ones.\<close>

datatype DataType =
    UNDEFINED | FLOAT | UINT8 | INT8 | UINT16 | INT16 | INT32 | INT64 | STRING | BOOL | FLOAT16
  | DOUBLE | UINT32 | UINT64 | COMPLEX64 | COMPLEX128 | BFLOAT16 | FLOAT8E4M3FN | FLOAT8E4M3FNUZ
  | FLOAT8E5M2 | FLOAT8E5M2FNUZ | UINT4 | INT4 | FLOAT4E2M1 | FLOAT8E8M0 | UINT2 | INT2
  | FLOAT6E2M3 | FLOAT6E3M2 | Unrecognized int

definition DataType_IsValid :: "DataType \<Rightarrow> bool" where
  "DataType_IsValid t \<longleftrightarrow> (case t of Unrecognized n \<Rightarrow> False | _ \<Rightarrow> True)"

definition FixedBitWidth :: "DataType \<Rightarrow> nat" where
  "FixedBitWidth t =
     (if t \<in> {UINT2, INT2} then 2
      else if t \<in> {UINT4, INT4, FLOAT4E2M1} then 4
      else if t \<in> {FLOAT6E2M3, FLOAT6E3M2} then 6
      else if t \<in> {UINT8, INT8, BOOL, FLOAT8E4M3FN, FLOAT8E4M3FNUZ, FLOAT8E5M2, FLOAT8E5M2FNUZ, FLOAT8E8M0} then 8
      else if t \<in> {UINT16, INT16, FLOAT16, BFLOAT16} then 16
      else if t \<in> {UINT32, INT32, FLOAT} then 32
      else if t \<in> {UINT64, INT64, DOUBLE, COMPLEX64} then 64
      else if t = COMPLEX128 then 128 else 0)"

definition IsFloatingType :: "DataType \<Rightarrow> bool" where
  "IsFloatingType t \<longleftrightarrow> t \<in> {FLOAT, FLOAT16, DOUBLE, BFLOAT16}"

definition IsAffineStorageType :: "DataType \<Rightarrow> bool" where
  "IsAffineStorageType t \<longleftrightarrow> t \<in> {INT8, UINT8, INT4, UINT4, INT2, UINT2}"

text \<open>The key type of a map is a plain integer field.\<close>

definition IsAllowedMapKeyType :: "int \<Rightarrow> bool" where
  "IsAllowedMapKeyType key_type \<longleftrightarrow> key_type \<in> {2, 3, 4, 5, 6, 7, 8, 12, 13}"

section \<open>Tensors\<close>

text \<open>A byte field is a pointer and a size; a null pointer means that the field is absent.\<close>

datatype byte_span = Null_span nat | Byte_span "8 word list"

primrec span_size :: "byte_span \<Rightarrow> nat" where
  "span_size (Null_span n) = n"
| "span_size (Byte_span bytes) = length bytes"

primrec has_span :: "byte_span \<Rightarrow> bool" where
  "has_span (Null_span n) = False"
| "has_span (Byte_span bytes) = True"

primrec span_byte :: "byte_span \<Rightarrow> nat \<Rightarrow> 8 word" where
  "span_byte (Null_span n) i = 0"
| "span_byte (Byte_span bytes) i = bytes ! i"

datatype DataLocation = DEFAULT | EXTERNAL | OtherLocation int

type_synonym string_entry = "string option \<times> string option"

record tensor_proto =
  tensor_name :: string
  tensor_dims :: "int list"
  data_type :: DataType
  float_data :: "32 word list"
  int32_data :: "int list"
  string_data :: "string list"
  int64_data :: "int list"
  raw_data :: byte_span
  double_data :: "64 word list"
  uint64_data :: "nat list"
  external_data :: "string_entry list"
  data_location :: "DataLocation option"

record sparse_tensor_proto =
  sparse_values :: tensor_proto
  sparse_indices :: tensor_proto

section \<open>Types\<close>

record dimension =
  dim_value :: "int option"
  dim_param :: "string option"

record tensor_type =
  tensor_elem_type :: "DataType option"
  tensor_shape :: "dimension list option"

text \<open>An unset element type reads as \<open>UNDEFINED\<close>, an unset shape has no dimensions.\<close>

definition elem_type :: "tensor_type \<Rightarrow> DataType" where
  "elem_type t = (case tensor_elem_type t of None \<Rightarrow> UNDEFINED | Some e \<Rightarrow> e)"

definition shape_dims :: "tensor_type \<Rightarrow> dimension list" where
  "shape_dims t = (case tensor_shape t of None \<Rightarrow> [] | Some dims \<Rightarrow> dims)"

text \<open>
  Of the codecs of a structured type only the presence matters here, and likewise of its name, its
  documentation and its metadata.
\<close>

record struct_header =
  type_id :: "nat option"
  has_decoder :: bool
  has_encoder :: bool
  has_name :: bool
  has_doc_string :: bool
  has_metadata :: bool

datatype type_proto =
    TensorType tensor_type
  | SparseTensorType tensor_type
  | SequenceType "type_proto option"
  | MapType int "type_proto option"
  | OptionalType "type_proto option"
  | OpaqueType
  | StructType struct_type_proto
  | NoType
and struct_type_proto = StructTypeProto (header: struct_header) (kind: struct_kind)
and struct_kind =
    ArrayKind "type_proto option" nat
  | StructureKind "field list"
  | BitPackingKind "(string \<times> 32 word) list" nat
  | TypeRefKind nat
  | NoKind
and field = Field (field_name: string) (content: field_content)
and field_content = TypeContent type_proto | ConstantContent tensor_proto | NoContent

section \<open>Encoded values\<close>

record affine_layout =
  storage_type :: "DataType option"
  affine_scale :: "tensor_proto option"
  zero_point :: "tensor_proto option"
  axis :: "int option"
  block_size :: "nat option"
  signed_storage :: "int option"

datatype value_layout = AffineLayout affine_layout | StructLayout struct_type_proto | NoLayout

record encoded_value =
  encoded_name :: string
  layout :: value_layout
  logical_type :: "type_proto option"
  encoded_raw :: byte_span
  encoded_external :: "string_entry list"
  encoded_location :: "DataLocation option"
  parameter_ref :: "string option"

datatype page_payload = DensePayload tensor_proto | EncodedPayload encoded_value | NoPayload

record paged_block =
  block_start :: "int option"
  block_length :: "int option"
  block_key :: page_payload
  block_value :: page_payload

record paged_cache =
  cache_name :: string
  blocks :: "paged_block list"

datatype extended_initializer =
    EncodedInitializer encoded_value | PagedInitializer paged_cache | EmptyInitializer

primrec extended_name :: "extended_initializer \<Rightarrow> string res" where
  "extended_name (EncodedInitializer v) = Inr (encoded_name v)"
| "extended_name (PagedInitializer c) = Inr (cache_name c)"
| "extended_name EmptyInitializer = Inl InvalidArgument"

section \<open>Graphs\<close>

record value_info =
  info_name :: string
  info_type :: "type_proto option"

datatype AttributeType =
    A_UNDEFINED | A_FLOAT | A_INT | A_STRING | A_TENSOR | A_GRAPH | A_SPARSE_TENSOR | A_TYPE_PROTO
  | A_FLOATS | A_INTS | A_STRINGS | A_TENSORS | A_GRAPHS | A_SPARSE_TENSORS | A_TYPE_PROTOS
  | A_Unrecognized int

text \<open>The value fields of an attribute other than its graphs.\<close>

record attribute_value =
  attr_f :: "32 word option"
  attr_i :: "int option"
  attr_s :: "string option"
  attr_t :: "tensor_proto option"
  attr_sparse_tensor :: "sparse_tensor_proto option"
  attr_tp :: "type_proto option"
  attr_floats :: "32 word list"
  attr_ints :: "int list"
  attr_strings :: "string list"
  attr_tensors :: "tensor_proto list"
  attr_sparse_tensors :: "sparse_tensor_proto list"
  attr_type_protos :: "type_proto list"

datatype graph_proto =
    GraphProto (g_input: "value_info list") (g_initializer: "tensor_proto list")
      (g_sparse_initializer: "sparse_tensor_proto list")
      (g_extended_initializer: "extended_initializer list") (g_node: "node_proto list")
      (g_output: "value_info list") (g_value_info: "value_info list")
      (g_persistent_bindings: "(string \<times> string) list")
and node_proto =
    NodeProto (n_op_type: string) (n_domain: string) (n_overload: string) (n_input: "string list")
      (n_output: "string list") (n_attribute: "attribute_proto list")
      (n_metadata_props: "(string \<times> string) list")
and attribute_proto =
    AttributeProto (a_name: string) (a_ref_attr_name: string) (a_type: AttributeType)
      (a_value: attribute_value) (a_g: "graph_proto option") (a_graphs: "graph_proto list")

record opset_id =
  opset_domain :: string
  opset_version :: int

record function_proto =
  f_name :: string
  f_domain :: string
  f_overload :: string
  f_input :: "string list"
  f_output :: "string list"
  f_attribute :: "string list"
  f_attribute_proto :: "attribute_proto list"
  f_node :: "node_proto list"
  f_opset_import :: "opset_id list"
  f_value_info :: "value_info list"

record model_proto =
  m_graph :: "graph_proto option"
  m_opset_import :: "opset_id list"
  m_struct_types :: "struct_type_proto list"
  m_functions :: "function_proto list"

text \<open>The settings of a pipeline; its two floats are bit patterns of binary32 numbers.\<close>

record pipeline_proto =
  prefill :: "model_proto option"
  embedding :: "model_proto option"
  decode :: "model_proto option"
  max_new_tokens :: "int option"
  temperature :: "32 word option"
  seed :: "int option"
  eos_token_ids :: "int list"
  pad_token_id :: "int option"
  top_k :: "int option"
  top_p :: "32 word option"
  pipeline_metadata :: "(string \<times> string) list"

end
