(* ===== verification/TensorCheck.thy ===== *)
theory TensorCheck
  imports Messages
begin

text \<open>
  Checked unsigned arithmetic and the checks of tensors of \<open>onnx_proto/src/onnx_verify.cc\<close>:
  \<open>VerifyTensor\<close>, \<open>VerifySparseTensor\<close> and the stricter check of the constants of structured types.
  An unsigned 64-bit value is a natural number; the element count of \<open>VerifyTensor\<close> is a signed
  product, whose overflow is undefined.
\<close>

section \<open>Unsigned arithmetic\<close>

definition u64_max :: nat where "u64_max = 18446744073709551615"

definition CheckedMultiply :: "nat \<Rightarrow> nat \<Rightarrow> nat option" where
  "CheckedMultiply left right =
     (if left \<noteq> 0 \<and> right > u64_max div left then None else Some (left * right))"

definition CheckedAdd :: "nat \<Rightarrow> nat \<Rightarrow> nat option" where
  "CheckedAdd left right = (if left > u64_max - right then None else Some (left + right))"

definition CeilBytes :: "nat \<Rightarrow> nat" where
  "CeilBytes bits = bits div 8 + (if bits mod 8 = 0 then 0 else 1)"

text \<open>The checked operations are exact: they fail exactly when the result does not fit.\<close>

lemma CheckedMultiply_exact:
  "CheckedMultiply a b = (if a * b \<le> u64_max then Some (a * b) else None)"
proof (cases "a = 0")
  case False
  then have "b > u64_max div a \<longleftrightarrow> a * b > u64_max"
    by (metis less_mult_imp_div_less linorder_not_less mult.commute nat_mult_le_cancel_disj
        times_div_less_eq_dividend order_trans div_less_iff_less_mult gr0I)
  with False show ?thesis by (simp add: CheckedMultiply_def)
qed (simp add: CheckedMultiply_def)

lemma CheckedAdd_exact:
  "b \<le> u64_max \<Longrightarrow> CheckedAdd a b = (if a + b \<le> u64_max then Some (a + b) else None)"
  by (auto simp: CheckedAdd_def)

lemma CeilBytes_ceil: "bits \<le> 8 * CeilBytes bits" "8 * CeilBytes bits < bits + 8"
  unfolding CeilBytes_def by presburger+

section \<open>VerifyTensor\<close>

definition num_value_fields :: "tensor_proto \<Rightarrow> nat" where
  "num_value_fields t = length (filter id
     [float_data t \<noteq> [], int32_data t \<noteq> [], string_data t \<noteq> [], int64_data t \<noteq> [],
      span_size (raw_data t) \<noteq> 0, double_data t \<noteq> [], uint64_data t \<noteq> []])"

definition stored_externally :: "tensor_proto \<Rightarrow> bool" where
  "stored_externally t \<longleftrightarrow> data_location t = Some EXTERNAL"

definition has_location :: "string_entry list \<Rightarrow> bool" where
  "has_location entries \<longleftrightarrow> list_ex (\<lambda>(key, value). key = Some ''location'' \<and>
     (case value of None \<Rightarrow> False | Some text \<Rightarrow> text \<noteq> '''')) entries"

definition element_count :: "int list \<Rightarrow> int res" where
  "element_count dims = foldR (\<lambda>d n. raw_mul n d) dims 1"

definition packed_too_large :: "DataType \<Rightarrow> bool \<Rightarrow> int \<Rightarrow> bool" where
  "packed_too_large t has_raw nelem \<longleftrightarrow>
     t \<in> {UINT4, INT4, FLOAT4E2M1} \<and> nelem > i64_max - (if has_raw then 1 else 7) \<or>
     t \<in> {UINT2, INT2} \<and> nelem > i64_max - (if has_raw then 3 else 15)"

text \<open>The size \<open>raw_data\<close> needs, where it is checked at all.\<close>

definition expected_raw_bytes :: "DataType \<Rightarrow> int \<Rightarrow> int" where
  "expected_raw_bytes t nelem =
     (if t \<in> {UINT4, INT4, FLOAT4E2M1} then (nelem + 1) sdiv 2
      else if t \<in> {UINT2, INT2} then (nelem + 3) sdiv 4
      else if t \<in> {FLOAT6E2M3, FLOAT6E3M2} then (nelem sdiv 4) * 3 + ((nelem smod 4) * 6 + 7) sdiv 8
      else 0)"

definition unused_bits_clear :: "8 word \<Rightarrow> nat \<Rightarrow> bool" where
  "unused_bits_clear last_byte used_bits \<longleftrightarrow> last_byte AND push_bit used_bits 0xFF = 0"

definition float6_padding_clear :: "tensor_proto \<Rightarrow> int \<Rightarrow> bool" where
  "float6_padding_clear t nelem \<longleftrightarrow>
     (let expected = expected_raw_bytes (data_type t) nelem;
          used_bits = nat ((nelem smod 4 * 6) smod 8)
      in data_type t \<in> {FLOAT6E2M3, FLOAT6E3M2} \<and> expected > 0 \<and>
         int (span_size (raw_data t)) \<ge> expected \<and> used_bits \<noteq> 0 \<longrightarrow>
         unused_bits_clear (span_byte (raw_data t) (nat (expected - 1))) used_bits)"

definition verify_raw :: "tensor_proto \<Rightarrow> int \<Rightarrow> unit res" where
  "verify_raw t nelem =
     enforce (data_type t \<noteq> STRING) (
     enforce (float6_padding_clear t nelem) (
       let expected = expected_raw_bytes (data_type t) nelem
       in enforce (expected = 0 \<or> int (span_size (raw_data t)) \<ge> expected) (Inr ())))"

definition verify_typed :: "tensor_proto \<Rightarrow> int \<Rightarrow> unit res" where
  "verify_typed t nelem =
     (let ty = data_type t; entries = int (length (int32_data t)); has_int32 = int32_data t \<noteq> [] in
      if ty \<in> {FLOAT, COMPLEX64} then enforce (float_data t \<noteq> []) (Inr ())
      else if ty \<in> {DOUBLE, COMPLEX128} then enforce (double_data t \<noteq> []) (Inr ())
      else if ty = INT64 then enforce (int64_data t \<noteq> []) (Inr ())
      else if ty \<in> {UINT32, UINT64} then enforce (uint64_data t \<noteq> []) (Inr ())
      else if ty = STRING then enforce (string_data t \<noteq> []) (Inr ())
      else if ty = INT32 then enforce has_int32 (Inr ())
      else if ty \<in> {UINT8, INT8, UINT16, INT16, BOOL, FLOAT16, BFLOAT16, FLOAT8E4M3FN, FLOAT8E4M3FNUZ,
                    FLOAT8E5M2, FLOAT8E5M2FNUZ, FLOAT8E8M0, FLOAT6E2M3, FLOAT6E3M2} then
        enforce has_int32 (
        enforce (entries \<ge> nelem) (
        enforce (ty \<in> {FLOAT6E2M3, FLOAT6E3M2} \<longrightarrow>
                 list_all (\<lambda>value. 0 \<le> value \<and> value \<le> 0x3F) (int32_data t)) (Inr ())))
      else if ty \<in> {UINT4, INT4, FLOAT4E2M1} then
        enforce has_int32 (enforce (entries \<ge> (nelem + 7) sdiv 8) (Inr ()))
      else if ty \<in> {UINT2, INT2} then
        enforce has_int32 (enforce (entries \<ge> (nelem + 15) sdiv 16) (Inr ()))
      else Inl InvalidArgument)"

definition VerifyTensor :: "tensor_proto \<Rightarrow> unit res" where
  "VerifyTensor t =
     (let fields = num_value_fields t; has_raw = span_size (raw_data t) \<noteq> 0 in
      enforce (DataType_IsValid (data_type t)) (
      enforce (data_type t \<noteq> UNDEFINED) (
      enforce (\<not> has_raw \<or> has_span (raw_data t)) (
        if stored_externally t
        then enforce (fields = 0) (enforce (has_location (external_data t)) (Inr ()))
        else bindR (element_count (tensor_dims t)) (\<lambda>nelem.
          if nelem = 0 then enforce (fields = 0) (Inr ())
          else enforce (fields = 1) (
               enforce (\<not> packed_too_large (data_type t) has_raw nelem) (
                 if has_raw then verify_raw t nelem else verify_typed t nelem)))))))"

definition VerifySparseTensor :: "sparse_tensor_proto \<Rightarrow> unit res" where
  "VerifySparseTensor s =
     enforce (tensor_name (sparse_values s) \<noteq> '''') (
     bindR (VerifyTensor (sparse_values s)) (\<lambda>_.
     bindR (VerifyTensor (sparse_indices s)) (\<lambda>_.
     enforce (data_type (sparse_indices s) = INT64) (Inr ()))))"

section \<open>Constants of structured types\<close>

definition unsigned_count :: "int list \<Rightarrow> nat res" where
  "unsigned_count dims = foldR (\<lambda>d n. enforce (d \<ge> 0) (
     case CheckedMultiply n (nat d) of None \<Rightarrow> Inl InvalidArgument | Some m \<Rightarrow> Inr m)) dims 1"

definition checked_times :: "nat \<Rightarrow> nat \<Rightarrow> nat res" where
  "checked_times a b = (case CheckedMultiply a b of None \<Rightarrow> Inl InvalidArgument | Some m \<Rightarrow> Inr m)"

definition ceil_div :: "nat \<Rightarrow> nat \<Rightarrow> nat" where
  "ceil_div a b = a div b + (if a mod b = 0 then 0 else 1)"

text \<open>What the payload stores and what it should store, in entries of the field in use.\<close>

definition constant_extent :: "tensor_proto \<Rightarrow> nat \<Rightarrow> (nat \<times> nat) res" where
  "constant_extent t elements =
     (let ty = data_type t in
      if has_span (raw_data t) then
        enforce (FixedBitWidth ty \<noteq> 0) (
        bindR (checked_times elements (FixedBitWidth ty)) (\<lambda>bits.
          Inr (span_size (raw_data t), CeilBytes bits)))
      else if ty = FLOAT then Inr (length (float_data t), elements)
      else if ty = COMPLEX64 then
        bindR (checked_times elements 2) (\<lambda>expected. Inr (length (float_data t), expected))
      else if ty = DOUBLE then Inr (length (double_data t), elements)
      else if ty = COMPLEX128 then
        bindR (checked_times elements 2) (\<lambda>expected. Inr (length (double_data t), expected))
      else if ty = INT64 then Inr (length (int64_data t), elements)
      else if ty \<in> {UINT32, UINT64} then Inr (length (uint64_data t), elements)
      else if ty = STRING then Inr (length (string_data t), elements)
      else if ty \<in> {UINT4, INT4, FLOAT4E2M1} then Inr (length (int32_data t), ceil_div elements 8)
      else if ty \<in> {UINT2, INT2} then Inr (length (int32_data t), ceil_div elements 16)
      else if ty = UNDEFINED then Inl InvalidArgument
      else Inr (length (int32_data t), elements))"

definition ValidateConstant :: "tensor_proto \<Rightarrow> unit res" where
  "ValidateConstant t =
     bindR (VerifyTensor t) (\<lambda>_.
     enforce (\<not> stored_externally t) (
     bindR (unsigned_count (tensor_dims t)) (\<lambda>elements.
     bindR (constant_extent t elements) (\<lambda>(stored, expected).
     enforce (stored = expected) (Inr ())))))"

text \<open>A sample: a scalar without its value.\<close>

definition blank_tensor :: tensor_proto where
  "blank_tensor = \<lparr>tensor_name = ''t'', tensor_dims = [], data_type = FLOAT, float_data = [], int32_data = [],
     string_data = [], int64_data = [], raw_data = Null_span 0, double_data = [], uint64_data = [],
     external_data = [], data_location = None\<rparr>"

end
