(* ===== verification/TensorSound.thy ===== *)
theory TensorSound
  imports TensorCheck
begin

text \<open>
  What an accepted tensor guarantees: its payload holds every element that its shape declares, for
  the element types whose payload size \<open>VerifyTensor\<close> looks at.
\<close>

lemma element_count_step:
  "foldR (\<lambda>d n. raw_mul n d) dims a = Inr n \<Longrightarrow> n = a * prod_list dims"
  by (induction dims arbitrary: a) (auto simp flip: mult.assoc)

lemma element_count_prod: "element_count dims = Inr n \<Longrightarrow> n = prod_list dims"
  unfolding element_count_def using element_count_step by fastforce

lemma element_count_errors: "element_count dims = Inl e \<Longrightarrow> e = Undefined"
proof -
  have "foldR (\<lambda>d n. raw_mul n d) dims a = Inl e \<Longrightarrow> e = Undefined" for a
    by (induction dims arbitrary: a) (auto simp: bindR_eq_Inl)
  then show "element_count dims = Inl e \<Longrightarrow> e = Undefined" by (simp add: element_count_def)
qed

text \<open>How many elements the payload can hold, where the check depends on it.\<close>

definition payload_capacity :: "tensor_proto \<Rightarrow> nat option" where
  "payload_capacity t =
     (let ty = data_type t in
      if span_size (raw_data t) \<noteq> 0
      then (if FixedBitWidth ty \<in> {2, 4, 6} then Some (8 * span_size (raw_data t) div FixedBitWidth ty) else None)
      else if FixedBitWidth ty \<in> {6, 8, 16} then Some (length (int32_data t))
      else if FixedBitWidth ty = 4 then Some (8 * length (int32_data t))
      else if FixedBitWidth ty = 2 then Some (16 * length (int32_data t))
      else None)"

lemma ceil_nibbles: "0 < (n::int) \<Longrightarrow> int s \<ge> (n + 1) sdiv 2 \<Longrightarrow> nat n \<le> 2 * s"
  by (simp add: sdiv_nonneg_pos)

lemma ceil_crumbs: "0 < (n::int) \<Longrightarrow> int s \<ge> (n + 3) sdiv 4 \<Longrightarrow> nat n \<le> 4 * s"
  by (simp add: sdiv_nonneg_pos)

lemma smod_nonneg_pos: "0 \<le> a \<Longrightarrow> 0 < b \<Longrightarrow> (a::int) smod b = a mod b"
  by (cases "a = 0") (simp_all add: signed_modulo_int_def)

lemma ceil_sextets:
  assumes "0 < (n::int)" "int s \<ge> (n sdiv 4) * 3 + ((n smod 4) * 6 + 7) sdiv 8"
  shows "nat n \<le> 4 * s div 3"
proof -
  have r: "0 \<le> n mod 4" "n mod 4 < 4" by simp_all
  have s: "int s \<ge> (n div 4) * 3 + ((n mod 4) * 6 + 7) div 8"
    using assms r by (simp add: sdiv_nonneg_pos smod_nonneg_pos)
  have "((n mod 4) * 6 + 7) div 8 * 8 \<ge> (n mod 4) * 6" by linarith
  moreover have "n = n div 4 * 4 + n mod 4" by simp
  ultimately have "8 * int s \<ge> 6 * n" using s by linarith
  then have "8 * s \<ge> 6 * nat n" using assms(1) by linarith
  then show ?thesis by linarith
qed

lemma ceil_entries:
  "0 < (n::int) \<Longrightarrow> int s \<ge> (n + 7) sdiv 8 \<Longrightarrow> nat n \<le> 8 * s"
  "0 < (n::int) \<Longrightarrow> int s \<ge> (n + 15) sdiv 16 \<Longrightarrow> nat n \<le> 16 * s"
  by (simp_all add: sdiv_nonneg_pos)

lemma expected_raw_pos:
  assumes "0 < n" "FixedBitWidth ty \<in> {2, 4, 6}"
  shows "expected_raw_bytes ty n \<noteq> 0"
proof -
  have "0 < (n + 1) div 2" "0 < (n + 3) div 4" using assms(1) by linarith+
  moreover have "0 < (n div 4) * 3 + ((n mod 4) * 6 + 7) div 8" using assms(1)
    by (smt (verit) div_pos_pos_trivial pos_imp_zdiv_pos_iff mod_pos_pos_trivial pos_mod_sign
        zdiv_mono1 div_self pos_imp_zdiv_nonneg_iff)
  ultimately show ?thesis
    using assms by (cases ty) (auto simp: expected_raw_bytes_def FixedBitWidth_def sdiv_nonneg_pos smod_nonneg_pos)
qed

lemma raw_capacity:
  assumes "verify_raw t n = Inr ()" "0 < n" "span_size (raw_data t) \<noteq> 0"
    "payload_capacity t = Some c"
  shows "nat n \<le> c"
proof -
  have w: "FixedBitWidth (data_type t) \<in> {2, 4, 6}"
    and c: "c = 8 * span_size (raw_data t) div FixedBitWidth (data_type t)"
    using assms(3, 4) by (auto simp: payload_capacity_def Let_def split: if_splits)
  with expected_raw_pos assms(1, 2)
  have "int (span_size (raw_data t)) \<ge> expected_raw_bytes (data_type t) n"
    by (auto simp: verify_raw_def Let_def)
  with w assms(2) c show ?thesis
    by (cases "data_type t")
       (auto simp: expected_raw_bytes_def FixedBitWidth_def ceil_nibbles ceil_crumbs ceil_sextets)
qed

lemma typed_capacity:
  assumes "verify_typed t n = Inr ()" "0 < n" "span_size (raw_data t) = 0"
    "payload_capacity t = Some c"
  shows "nat n \<le> c"
  using assms
  by (cases "data_type t")
     (auto simp: verify_typed_def payload_capacity_def FixedBitWidth_def Let_def ceil_entries)

lemma accepted_tensor:
  assumes "VerifyTensor t = Inr ()" "\<not> stored_externally t"
  shows "element_count (tensor_dims t) = Inr (prod_list (tensor_dims t))"
    and "prod_list (tensor_dims t) = 0 \<longleftrightarrow> num_value_fields t = 0"
    and "prod_list (tensor_dims t) > 0 \<Longrightarrow> payload_capacity t = Some c \<Longrightarrow>
         prod_list (tensor_dims t) \<le> int c"
proof -
  obtain n where n: "element_count (tensor_dims t) = Inr n"
    using assms by (auto simp: VerifyTensor_def Let_def)
  then have p: "n = prod_list (tensor_dims t)" by (rule element_count_prod)
  with n show "element_count (tensor_dims t) = Inr (prod_list (tensor_dims t))" by simp
  show "prod_list (tensor_dims t) = 0 \<longleftrightarrow> num_value_fields t = 0"
    using assms n p by (auto simp: VerifyTensor_def Let_def split: if_splits)
  assume pos: "prod_list (tensor_dims t) > 0" and c: "payload_capacity t = Some c"
  then have "if span_size (raw_data t) \<noteq> 0 then verify_raw t n = Inr () else verify_typed t n = Inr ()"
    using assms n p by (auto simp: VerifyTensor_def Let_def split: if_splits)
  with pos p c have "nat n \<le> c" using raw_capacity typed_capacity by (auto split: if_splits)
  with p pos show "prod_list (tensor_dims t) \<le> int c" by linarith
qed

text \<open>The only point without a meaning is the product of the dimensions.\<close>

lemma element_count_undefined:
  "element_count dims = Inl e \<longleftrightarrow>
     e = Undefined \<and> (\<exists>k \<le> length dims. k \<noteq> 0 \<and> \<not> in_i64 (prod_list (take k dims)))"
proof -
  have "foldR (\<lambda>d n. raw_mul n d) dims a = Inl e \<longleftrightarrow>
      e = Undefined \<and> (\<exists>k < length dims. \<not> in_i64 (a * prod_list (take (Suc k) dims)))" for a
  proof (induction dims arbitrary: a)
    case (Cons d dims)
    have split: "(\<exists>k < length (d # dims). P k) \<longleftrightarrow> P 0 \<or> (\<exists>k < length dims. P (Suc k))" for P
      by (auto simp: less_Suc_eq_0_disj)
    have "(\<exists>k < length (d # dims). \<not> in_i64 (a * prod_list (take (Suc k) (d # dims)))) \<longleftrightarrow>
        \<not> in_i64 (a * d) \<or> (\<exists>k < length dims. \<not> in_i64 (a * d * prod_list (take (Suc k) dims)))"
      unfolding split by (simp add: mult.assoc)
    then show ?case by (auto simp: bindR_eq_Inl Cons.IH)
  qed simp
  moreover have "(\<exists>k \<le> n. k \<noteq> 0 \<and> P k) \<longleftrightarrow> (\<exists>k < n. P (Suc k))" for n P
    by (metis Suc_le_eq nat.simps(3) not0_implies_Suc)
  ultimately show ?thesis unfolding element_count_def by simp
qed



lemma payload_checks_defined: "verify_raw t n \<noteq> Inl Undefined" "verify_typed t n \<noteq> Inl Undefined"
  by (simp_all add: verify_raw_def verify_typed_def Let_def enforce_def)

text \<open>C22: An accepted tensor holds the elements it declares, where the verifier compares the two.  For a tensor
  that is not stored externally and whose dimensions have a positive product, the element count is that
  product, computed without overflow; and the payload has room for that many elements when it is raw
  data of a 2-, 4- or 6-bit type, or sits in \<open>int32_data\<close> with a type of 2, 4, 6, 8 or 16 bits
  (\<open>payload_capacity\<close> is defined for these).  For the other types, \<open>INT32\<close> in its own field, the 32- and
  64-bit and string fields and raw data of whole bytes, the verifier compares nothing
  (onnx_verify.cc 1356-1385), and nothing is claimed.\<close>

theorem accepted_tensor_holds_its_elements:
  assumes "VerifyTensor t = Inr ()" "\<not> stored_externally t"
    and "prod_list (tensor_dims t) > 0" "payload_capacity t = Some c"
  shows "element_count (tensor_dims t) = Inr (prod_list (tensor_dims t)) \<and> prod_list (tensor_dims t) \<le> int c"
  using accepted_tensor(1,3) assms by blast

lemma accepted_tensor_holds_its_elements_witness:
  "prod_list (tensor_dims (blank_tensor\<lparr>tensor_dims := [3], data_type := UINT4, raw_data := Byte_span [0x21, 0x03]\<rparr>)) \<le> 4"
  (is "prod_list (tensor_dims ?t) \<le> 4")
proof -
  have "VerifyTensor ?t = Inr ()" "\<not> stored_externally ?t" "prod_list (tensor_dims ?t) > 0"
    "payload_capacity ?t = Some 4"
    by code_simp+
  from accepted_tensor_holds_its_elements [OF this] show ?thesis by simp
qed

text \<open>C39: The element count of a tensor is multiplied up in a signed integer that is not checked: the
  verification of a tensor has no defined meaning exactly when some prefix of the dimensions of an
  inline tensor multiplies out of the 64-bit range, so that it is not the rejection that an
  oversized shape should get.\<close>

theorem oversized_shape_is_undefined:
  "VerifyTensor t = Inl Undefined \<longleftrightarrow>
     DataType_IsValid (data_type t) \<and> data_type t \<noteq> UNDEFINED \<and>
     (span_size (raw_data t) = 0 \<or> has_span (raw_data t)) \<and> \<not> stored_externally t \<and>
     (\<exists>k \<le> length (tensor_dims t). k \<noteq> 0 \<and> \<not> in_i64 (prod_list (take k (tensor_dims t))))"
proof -

  have "VerifyTensor t = Inl Undefined \<longleftrightarrow>
      DataType_IsValid (data_type t) \<and> data_type t \<noteq> UNDEFINED \<and>
      (span_size (raw_data t) = 0 \<or> has_span (raw_data t)) \<and> \<not> stored_externally t \<and>
      element_count (tensor_dims t) = Inl Undefined"
  proof (cases "element_count (tensor_dims t)")
    case (Inl e)
    then have "e = Undefined" by (rule element_count_errors)
    with Inl show ?thesis by (auto simp: VerifyTensor_def Let_def enforce_Inl)
  next
    case (Inr n)
    then show ?thesis using payload_checks_defined by (simp add: VerifyTensor_def Let_def enforce_Inl)
  qed
  then show ?thesis by (simp add: element_count_undefined)
qed

lemma oversized_sample: "VerifyTensor (blank_tensor\<lparr>tensor_dims := [4294967296, 4294967296]\<rparr>) = Inl Undefined"
  by code_simp

end
