(* ===== verification/StructTypes.thy ===== *)
theory StructTypes
  imports TensorCheck
begin

text \<open>
  Structured types and the catalogue of their declarations, from \<open>onnx_proto/src/onnx_verify.cc\<close> and
  \<open>onnx_verify.h\<close>.  Two walks go through a type: one measures the fixed size of its values, one
  checks that it is well formed.  Both expand references to the catalogue, keep the identities
  they are expanding (to reject cycles) and remember results by identity.  The nesting depth is
  bounded, which is why the walks end for every catalogue, also one with cycles.
\<close>

section \<open>The state of a walk\<close>

definition kMaxStructTypeDepth :: nat where "kMaxStructTypeDepth = 64"

datatype StructRole = kDeclaration | kNested | kEncodedLayout

datatype size_state = NotMeasured | FixedSize nat | NoFixedLayout

record type_memo =
  memo_size :: size_state
  memo_validated :: bool

text \<open>
  An identity without an entry has the initial one, which is what \<open>entry\<close> creates.  The catalogue
  and the two switches do not change during a walk; the depth is a parameter of the walkers, since
  its guard restores it on every way out.
\<close>

record walk =
  active :: "nat list"
  memo :: "nat \<rightharpoonup> type_memo"

record walk_settings =
  catalogue :: "struct_type_proto list"
  persistent :: bool
  require_resolution :: bool

definition entry :: "walk \<Rightarrow> nat \<Rightarrow> type_memo" where
  "entry w identity = (case memo w identity of
     None \<Rightarrow> \<lparr>memo_size = NotMeasured, memo_validated = False\<rparr> | Some m \<Rightarrow> m)"

definition expanding :: "walk \<Rightarrow> nat \<Rightarrow> bool" where
  "expanding w identity \<longleftrightarrow> identity \<in> set (active w)"

definition push_active :: "nat \<Rightarrow> walk \<Rightarrow> walk" where
  "push_active identity w = w\<lparr>active := active w @ [identity]\<rparr>"

definition pop_active :: "walk \<Rightarrow> walk" where
  "pop_active w = w\<lparr>active := butlast (active w)\<rparr>"

definition store_size :: "nat \<Rightarrow> nat option \<Rightarrow> walk \<Rightarrow> walk" where
  "store_size identity bits w = w\<lparr>memo := (memo w)(identity \<mapsto> (entry w identity)\<lparr>memo_size :=
     (case bits of None \<Rightarrow> NoFixedLayout | Some b \<Rightarrow> FixedSize b)\<rparr>)\<rparr>"

definition store_validated :: "nat \<Rightarrow> walk \<Rightarrow> walk" where
  "store_validated identity w =
     w\<lparr>memo := (memo w)(identity \<mapsto> (entry w identity)\<lparr>memo_validated := True\<rparr>)\<rparr>"

definition empty_walk :: walk where "empty_walk = \<lparr>active = [], memo = Map.empty\<rparr>"

text \<open>The lookup in the catalogue; identity 0 is never declared.\<close>

definition Find :: "struct_type_proto list \<Rightarrow> nat \<Rightarrow> struct_type_proto option" where
  "Find declarations identity =
     (if identity = 0 then None
      else find (\<lambda>declaration. type_id (header declaration) = Some identity) declarations)"

definition Resolve :: "struct_type_proto list \<Rightarrow> struct_type_proto \<Rightarrow> struct_type_proto res" where
  "Resolve declarations s =
     (case kind s of
        TypeRefKind identity \<Rightarrow> (case Find declarations identity of
            None \<Rightarrow> Inl InvalidArgument | Some declaration \<Rightarrow> Inr declaration)
      | _ \<Rightarrow> Inr s)"

section \<open>The fixed size of a type\<close>

definition ConcreteElementCount :: "tensor_type \<Rightarrow> nat option" where
  "ConcreteElementCount t =
     (case tensor_shape t of
        None \<Rightarrow> None
      | Some dims \<Rightarrow> fold (\<lambda>d count. case count of None \<Rightarrow> None | Some n \<Rightarrow>
          (case dim_value d of None \<Rightarrow> None | Some v \<Rightarrow> if v < 0 then None else CheckedMultiply n (nat v)))
          dims (Some 1))"

definition tensor_bits :: "tensor_type \<Rightarrow> nat option" where
  "tensor_bits t =
     (case tensor_elem_type t of
        None \<Rightarrow> None
      | Some e \<Rightarrow> if FixedBitWidth e = 0 then None
          else (case ConcreteElementCount t of None \<Rightarrow> None | Some n \<Rightarrow> CheckedMultiply n (FixedBitWidth e)))"

definition GroupBits :: "(string \<times> 32 word) list \<Rightarrow> nat option" where
  "GroupBits components = fold (\<lambda>(name, bit_width) bits.
     case bits of None \<Rightarrow> None | Some b \<Rightarrow> CheckedAdd b (unat bit_width)) components (Some 0)"

definition packing_bits :: "(string \<times> 32 word) list \<Rightarrow> nat \<Rightarrow> nat option" where
  "packing_bits components dimension =
     (case GroupBits components of None \<Rightarrow> None | Some bits \<Rightarrow> CheckedMultiply bits dimension)"

text \<open>
  The result is the size, or nothing when there is no fixed layout, with the walk afterwards.  The
  reasons of a failure are not kept.
\<close>

function (sequential) BitSizeOfType ::
    "struct_type_proto list \<Rightarrow> nat \<Rightarrow> type_proto \<Rightarrow> walk \<Rightarrow> nat option \<times> walk"
  and BitSizeOfStruct ::
    "struct_type_proto list \<Rightarrow> nat \<Rightarrow> struct_type_proto \<Rightarrow> walk \<Rightarrow> nat option \<times> walk"
  and bit_size_of_fields ::
    "struct_type_proto list \<Rightarrow> nat \<Rightarrow> field list \<Rightarrow> nat \<Rightarrow> walk \<Rightarrow> nat option \<times> walk" where
  "BitSizeOfType cat depth (TensorType t) w =
     (if depth + 1 > kMaxStructTypeDepth then (None, w) else (tensor_bits t, w))"
| "BitSizeOfType cat depth (StructType s) w =
     (if depth + 1 > kMaxStructTypeDepth then (None, w) else BitSizeOfStruct cat (depth + 1) s w)"
| "BitSizeOfType cat depth T w = (None, w)"
| "BitSizeOfStruct cat depth (StructTypeProto h (TypeRefKind identity)) w =
     (case Find cat identity of
        None \<Rightarrow> (None, w)
      | Some declaration \<Rightarrow>
          if expanding w identity then (None, w)
          else (case memo_size (entry w identity) of
                  FixedSize bits \<Rightarrow> (Some bits, w)
                | NoFixedLayout \<Rightarrow> (None, w)
                | NotMeasured \<Rightarrow>
                    if depth + 1 > kMaxStructTypeDepth then (None, w)
                    else (case BitSizeOfStruct cat (depth + 1) declaration (push_active identity w) of
                            (bits, w') \<Rightarrow> (bits, store_size identity bits (pop_active w')))))"
| "BitSizeOfStruct cat depth (StructTypeProto h (ArrayKind (Some T) dimension)) w =
     (case BitSizeOfType cat depth T w of
        (None, w') \<Rightarrow> (None, w')
      | (Some element_bits, w') \<Rightarrow> (CheckedMultiply element_bits dimension, w'))"
| "BitSizeOfStruct cat depth (StructTypeProto h (ArrayKind None dimension)) w = (None, w)"
| "BitSizeOfStruct cat depth (StructTypeProto h (BitPackingKind components dimension)) w =
     (packing_bits components dimension, w)"
| "BitSizeOfStruct cat depth (StructTypeProto h (StructureKind fs)) w =
     bit_size_of_fields cat depth fs 0 w"
| "BitSizeOfStruct cat depth (StructTypeProto h NoKind) w = (None, w)"
| "bit_size_of_fields cat depth [] bits w = (Some bits, w)"
| "bit_size_of_fields cat depth (Field name (ConstantContent c) # fs) bits w =
     bit_size_of_fields cat depth fs bits w"
| "bit_size_of_fields cat depth (Field name NoContent # fs) bits w = (None, w)"
| "bit_size_of_fields cat depth (Field name (TypeContent T) # fs) bits w =
     (case BitSizeOfType cat depth T w of
        (None, w') \<Rightarrow> (None, w')
      | (Some field_bits, w') \<Rightarrow>
          (case CheckedAdd bits field_bits of
             None \<Rightarrow> (None, w')
           | Some bits' \<Rightarrow> bit_size_of_fields cat depth fs bits' w'))"
  by pat_completeness auto

termination
  by (relation "measures [\<lambda>x. case x of Inl (cat, depth, _) \<Rightarrow> kMaxStructTypeDepth + 1 - depth
                              | Inr (Inl (cat, depth, _)) \<Rightarrow> kMaxStructTypeDepth + 1 - depth
                              | Inr (Inr (cat, depth, _)) \<Rightarrow> kMaxStructTypeDepth + 1 - depth,
                          \<lambda>x. case x of Inl (cat, depth, T, w) \<Rightarrow> size T
                              | Inr (Inl (cat, depth, s, w)) \<Rightarrow> size s
                              | Inr (Inr (cat, depth, fs, bits, w)) \<Rightarrow> size_list size fs]")
     auto

definition FixedBitSize :: "struct_type_proto list \<Rightarrow> struct_type_proto \<Rightarrow> nat option" where
  "FixedBitSize cat s = fst (BitSizeOfStruct cat 0 s empty_walk)"

definition IsByteEncodable :: "struct_type_proto list \<Rightarrow> struct_type_proto \<Rightarrow> nat option" where
  "IsByteEncodable cat s =
     (case FixedBitSize cat s of
        None \<Rightarrow> None
      | Some bits \<Rightarrow> if bits = 0 \<or> bits mod 8 \<noteq> 0 then None else Some (bits div 8))"

section \<open>Well-formed types\<close>

definition defined_elem_type :: "tensor_type \<Rightarrow> bool" where
  "defined_elem_type t \<longleftrightarrow> tensor_elem_type t \<noteq> None \<and> elem_type t \<noteq> UNDEFINED"

definition bare_header :: "struct_header \<Rightarrow> bool" where
  "bare_header h \<longleftrightarrow> type_id h = None \<and> \<not> has_decoder h \<and> \<not> has_encoder h \<and> \<not> has_name h \<and>
     \<not> has_doc_string h \<and> \<not> has_metadata h"

definition identity_allowed :: "StructRole \<Rightarrow> struct_header \<Rightarrow> bool" where
  "identity_allowed role h \<longleftrightarrow>
     (if role = kDeclaration then (case type_id h of None \<Rightarrow> False | Some identity \<Rightarrow> identity \<noteq> 0)
      else type_id h = None)"

fun validate_components :: "(string \<times> 32 word) list \<Rightarrow> string list \<Rightarrow> unit res" where
  "validate_components [] earlier = Inr ()"
| "validate_components ((name, bit_width) # components) earlier =
     enforce (name \<noteq> '''') (
     enforce (name \<notin> set earlier) (
     enforce (\<not> (bit_width = 0 \<or> bit_width > 64)) (
     validate_components components (earlier @ [name]))))"

definition ValidateBitPacking :: "(string \<times> 32 word) list \<Rightarrow> nat \<Rightarrow> unit res" where
  "ValidateBitPacking components dimension =
     enforce (components \<noteq> []) (enforce (dimension \<noteq> 0) (validate_components components []))"

function (sequential) ValidateTypeProto ::
    "walk_settings \<Rightarrow> nat \<Rightarrow> type_proto \<Rightarrow> walk \<Rightarrow> walk res"
  and ValidateStructType ::
    "walk_settings \<Rightarrow> nat \<Rightarrow> struct_type_proto \<Rightarrow> StructRole \<Rightarrow> walk \<Rightarrow> walk res"
  and validate_fields ::
    "walk_settings \<Rightarrow> nat \<Rightarrow> field list \<Rightarrow> string list \<Rightarrow> walk \<Rightarrow> walk res" where
  "ValidateTypeProto c depth (TensorType t) w =
     enforce (depth + 1 \<le> kMaxStructTypeDepth) (
     enforce (\<not> (persistent c \<and> elem_type t = STRING)) (
     enforce (defined_elem_type t) (Inr w)))"
| "ValidateTypeProto c depth (SparseTensorType t) w =
     enforce (depth + 1 \<le> kMaxStructTypeDepth) (
     enforce (\<not> persistent c) (
     enforce (defined_elem_type t) (Inr w)))"
| "ValidateTypeProto c depth OpaqueType w =
     enforce (depth + 1 \<le> kMaxStructTypeDepth) (
     enforce (\<not> persistent c) (Inr w))"
| "ValidateTypeProto c depth (SequenceType (Some T)) w =
     enforce (depth + 1 \<le> kMaxStructTypeDepth) (ValidateTypeProto c (depth + 1) T w)"
| "ValidateTypeProto c depth (OptionalType (Some T)) w =
     enforce (depth + 1 \<le> kMaxStructTypeDepth) (
     enforce (\<not> persistent c) (ValidateTypeProto c (depth + 1) T w))"
| "ValidateTypeProto c depth (MapType key_type (Some T)) w =
     enforce (depth + 1 \<le> kMaxStructTypeDepth) (
     enforce (\<not> persistent c) (
     enforce (IsAllowedMapKeyType key_type) (ValidateTypeProto c (depth + 1) T w)))"
| "ValidateTypeProto c depth (StructType s) w =
     enforce (depth + 1 \<le> kMaxStructTypeDepth) (ValidateStructType c (depth + 1) s kNested w)"
| "ValidateTypeProto c depth T w = Inl InvalidArgument"
| "ValidateStructType c depth (StructTypeProto h (TypeRefKind identity)) role w =
     enforce (role \<noteq> kDeclaration) (
     enforce (identity \<noteq> 0) (
     enforce (bare_header h) (
       case Find (catalogue c) identity of
         None \<Rightarrow> enforce (\<not> require_resolution c) (Inr w)
       | Some declaration \<Rightarrow>
           enforce (\<not> expanding w identity) (
             if memo_validated (entry w identity) then Inr w
             else enforce (depth + 1 \<le> kMaxStructTypeDepth) (
                  bindR (ValidateStructType c (depth + 1) declaration kDeclaration (push_active identity w))
                    (\<lambda>w'. Inr (store_validated identity (pop_active w'))))))))"
| "ValidateStructType c depth (StructTypeProto h (ArrayKind element_type dimension)) role w =
     enforce (identity_allowed role h) (
     enforce (element_type \<noteq> None) (
     enforce (dimension \<noteq> 0) (
       case element_type of None \<Rightarrow> Inl InvalidArgument | Some T \<Rightarrow> ValidateTypeProto c depth T w)))"
| "ValidateStructType c depth (StructTypeProto h (StructureKind fs)) role w =
     enforce (identity_allowed role h) (enforce (fs \<noteq> []) (validate_fields c depth fs [] w))"
| "ValidateStructType c depth (StructTypeProto h (BitPackingKind components dimension)) role w =
     enforce (identity_allowed role h) (
     bindR (ValidateBitPacking components dimension) (\<lambda>_. Inr w))"
| "ValidateStructType c depth (StructTypeProto h NoKind) role w =
     enforce (identity_allowed role h) (
     enforce (role = kNested) (enforce (\<not> has_decoder h \<and> \<not> has_encoder h) (Inr w)))"
| "validate_fields c depth [] earlier w = Inr w"
| "validate_fields c depth (Field name (TypeContent T) # fs) earlier w =
     enforce (name \<noteq> '''') (
     enforce (name \<notin> set earlier) (
     enforce (case T of TensorType t \<Rightarrow> defined_elem_type t | _ \<Rightarrow> True) (
     bindR (ValidateTypeProto c depth T w) (\<lambda>w'.
     validate_fields c depth fs (earlier @ [name]) w'))))"
| "validate_fields c depth (Field name (ConstantContent t) # fs) earlier w =
     enforce (name \<noteq> '''') (
     enforce (name \<notin> set earlier) (
     enforce (\<not> (persistent c \<and> data_type t = STRING)) (
     bindR (ValidateConstant t) (\<lambda>_.
     validate_fields c depth fs (earlier @ [name]) w))))"
| "validate_fields c depth (Field name NoContent # fs) earlier w = Inl InvalidArgument"
  by pat_completeness auto

termination
  by (relation "measures [\<lambda>x. case x of Inl (c, depth, _) \<Rightarrow> kMaxStructTypeDepth + 1 - depth
                              | Inr (Inl (c, depth, _)) \<Rightarrow> kMaxStructTypeDepth + 1 - depth
                              | Inr (Inr (c, depth, _)) \<Rightarrow> kMaxStructTypeDepth + 1 - depth,
                          \<lambda>x. case x of Inl (c, depth, T, w) \<Rightarrow> size T
                              | Inr (Inl (c, depth, s, role, w)) \<Rightarrow> size s
                              | Inr (Inr (c, depth, fs, earlier, w)) \<Rightarrow> size_list size fs]")
     auto

section \<open>The catalogue\<close>

definition walk_of :: "struct_type_proto list \<Rightarrow> walk_settings" where
  "walk_of cat = \<lparr>catalogue = cat, persistent = False, require_resolution = True\<rparr>"

definition ValidateType :: "struct_type_proto list \<Rightarrow> type_proto \<Rightarrow> unit res" where
  "ValidateType cat T = bindR (ValidateTypeProto (walk_of cat) 0 T empty_walk) (\<lambda>_. Inr ())"

fun check_identities :: "struct_type_proto list \<Rightarrow> nat option list \<Rightarrow> unit res" where
  "check_identities [] earlier = Inr ()"
| "check_identities (d # declarations) earlier =
     enforce (case type_id (header d) of None \<Rightarrow> False | Some identity \<Rightarrow> identity \<noteq> 0) (
     enforce (type_id (header d) \<notin> set earlier) (
     check_identities declarations (earlier @ [type_id (header d)])))"

definition declared_id :: "struct_type_proto \<Rightarrow> nat" where
  "declared_id d = (case type_id (header d) of None \<Rightarrow> 0 | Some identity \<Rightarrow> identity)"

definition validate_declaration :: "walk_settings \<Rightarrow> struct_type_proto \<Rightarrow> walk \<Rightarrow> walk res" where
  "validate_declaration c d w =
     bindR (ValidateStructType c 0 d kDeclaration (w\<lparr>active := [declared_id d]\<rparr>))
       (\<lambda>w'. Inr (store_validated (declared_id d) w'))"

text \<open>\<open>Build\<close> gives the declarations that the catalogue is bound to afterwards.\<close>

definition Build :: "struct_type_proto list \<Rightarrow> struct_type_proto list res" where
  "Build declarations =
     bindR (check_identities declarations []) (\<lambda>_.
     bindR (foldR (validate_declaration (walk_of declarations)) declarations empty_walk) (\<lambda>_.
     Inr declarations))"

end
