(* ===== verification/StructSizes.thy ===== *)
theory StructSizes
  imports StructTypes
begin

text \<open>
  What the measured size of a type means.  The size is first given without memory of results and
  without a walk, by rules: a tensor takes the product of its dimensions times the width of an
  element, arrays and bit packings repeat without gaps, the fields of a structure follow each
  other and constants take no space.  The number in a judgement bounds the nesting of types and
  references.  The walk computes exactly these sizes.
\<close>

section \<open>Leaves\<close>

lemma checked_product:
  "fold (\<lambda>d count. case count of None \<Rightarrow> None | Some n \<Rightarrow>
      (case dim_value d of None \<Rightarrow> None | Some v \<Rightarrow> if v < 0 then None else CheckedMultiply n (nat v)))
     dims (Some a) = Some b \<longleftrightarrow>
   (\<exists>vs. map dim_value dims = map (\<lambda>v. Some (int v)) vs \<and> b = a * prod_list vs \<and>
         (\<forall>k \<in> {1..length vs}. a * prod_list (take k vs) \<le> u64_max))"
  (is "?fold dims (Some a) = _ \<longleftrightarrow> ?spec dims a")
proof (induction dims arbitrary: a)
  case (Cons d dims)
  have none: "?fold dims None = None" for dims by (induction dims) auto
  show ?case
  proof (cases "\<exists>v. dim_value d = Some (int v)")
    case False
    then have "\<not> ?spec (d # dims) a" by (auto simp: Cons_eq_map_conv)
    moreover have "(case dim_value d of None \<Rightarrow> None | Some v \<Rightarrow> if v < 0 then None else CheckedMultiply a (nat v)) = None"
      using False by (cases "dim_value d") (auto, metis int_nat_eq linorder_not_less)
    ultimately show ?thesis by (simp add: none)
  next
    case True
    then obtain v where v: "dim_value d = Some (int v)" by blast
    have split: "?spec (d # dims) a \<longleftrightarrow> a * v \<le> u64_max \<and> ?spec dims (a * v)"
    proof
      assume "?spec (d # dims) a"
      then obtain vs where vs: "map dim_value (d # dims) = map (\<lambda>v. Some (int v)) vs" "b = a * prod_list vs"
        "\<forall>k \<in> {1..length vs}. a * prod_list (take k vs) \<le> u64_max" by blast
      from vs(1) v obtain us where us: "vs = v # us" "map dim_value dims = map (\<lambda>v. Some (int v)) us"
        by (cases vs) auto
      have "a * v \<le> u64_max" using vs(3) us(1) by (force dest: bspec [of _ _ 1])
      moreover have "\<forall>k \<in> {1..length us}. a * v * prod_list (take k us) \<le> u64_max"
      proof
        fix k assume "k \<in> {1..length us}"
        then show "a * v * prod_list (take k us) \<le> u64_max"
          using vs(3) us(1) by (auto dest!: bspec [of _ _ "Suc k"] simp: mult.assoc)
      qed
      ultimately show "a * v \<le> u64_max \<and> ?spec dims (a * v)"
        using us vs(2) by (intro conjI exI [of _ us]) (simp_all add: mult.assoc)
    next
      assume r: "a * v \<le> u64_max \<and> ?spec dims (a * v)"
      then obtain us where us: "map dim_value dims = map (\<lambda>v. Some (int v)) us" "b = a * v * prod_list us"
        "\<forall>k \<in> {1..length us}. a * v * prod_list (take k us) \<le> u64_max" by blast
      have "a * prod_list (take k (v # us)) \<le> u64_max" if "k \<in> {1..length (v # us)}" for k
        using that r us(3) by (cases "k = 1") (auto simp: mult.assoc take_Cons split: nat.splits)
      with us v show "?spec (d # dims) a" by (intro exI [of _ "v # us"]) (simp add: mult.assoc)
    qed
    show ?thesis
    proof (cases "a * v \<le> u64_max")
      case True
      with v Cons [of "a * v"] split show ?thesis by (simp add: CheckedMultiply_exact)
    next
      case False
      with v split show ?thesis by (simp add: CheckedMultiply_exact none)
    qed
  qed
qed auto

lemma GroupBits_sum:
  "GroupBits components =
     (let total = sum_list (map (\<lambda>c. unat (snd c)) components)
      in if total \<le> u64_max then Some total else None)"
proof -
  have none: "fold (\<lambda>(name, bit_width) bits. case bits of None \<Rightarrow> None | Some b \<Rightarrow> CheckedAdd b (unat bit_width))
      cs None = None" for cs :: "(string \<times> 32 word) list"
    by (induction cs) auto
  have w: "unat (x :: 32 word) \<le> u64_max" for x
    using unsigned_less [of x, where 'a = nat] by (simp add: u64_max_def)
  have "a \<le> u64_max \<Longrightarrow>
      fold (\<lambda>(name, bit_width) bits. case bits of None \<Rightarrow> None | Some b \<Rightarrow> CheckedAdd b (unat bit_width)) cs (Some a) =
      (if a + sum_list (map (\<lambda>c. unat (snd c)) cs) \<le> u64_max
       then Some (a + sum_list (map (\<lambda>c. unat (snd c)) cs)) else None)" for cs :: "(string \<times> 32 word) list" and a
  proof (induction cs arbitrary: a)
    case (Cons c cs)
    obtain name x where c: "c = (name, x)" by (cases c)
    show ?case
    proof (cases "a + unat x \<le> u64_max")
      case True
      with Cons.IH [of "a + unat x"] c show ?thesis by (simp add: CheckedAdd_exact w add.assoc)
    next
      case False
      then have "CheckedAdd a (unat x) = None" by (simp add: CheckedAdd_exact w)
      with False c show ?thesis by (simp add: none)
    qed
  qed simp
  from this [of 0 components] show ?thesis by (simp add: GroupBits_def Let_def)
qed

section \<open>Sizes by rules\<close>

inductive type_bits :: "struct_type_proto list \<Rightarrow> nat \<Rightarrow> type_proto \<Rightarrow> nat \<Rightarrow> bool"
  and struct_bits :: "struct_type_proto list \<Rightarrow> nat \<Rightarrow> struct_type_proto \<Rightarrow> nat \<Rightarrow> bool"
  and fields_bits :: "struct_type_proto list \<Rightarrow> nat \<Rightarrow> field list \<Rightarrow> nat \<Rightarrow> bool"
  for cat :: "struct_type_proto list" where
  tensor: "tensor_elem_type t = Some e \<Longrightarrow> FixedBitWidth e \<noteq> 0 \<Longrightarrow> tensor_shape t = Some dims \<Longrightarrow>
    map dim_value dims = map (\<lambda>v. Some (int v)) vs \<Longrightarrow>
    (\<forall>k \<in> {1..length vs}. prod_list (take k vs) \<le> u64_max) \<Longrightarrow>
    prod_list vs * FixedBitWidth e \<le> u64_max \<Longrightarrow>
    type_bits cat (Suc n) (TensorType t) (prod_list vs * FixedBitWidth e)"
| struct: "struct_bits cat n s b \<Longrightarrow> type_bits cat (Suc n) (StructType s) b"
| reference: "Find cat identity = Some declaration \<Longrightarrow> struct_bits cat n declaration b \<Longrightarrow>
    struct_bits cat (Suc n) (StructTypeProto h (TypeRefKind identity)) b"
| array: "type_bits cat n T b \<Longrightarrow> b * dimension \<le> u64_max \<Longrightarrow>
    struct_bits cat n (StructTypeProto h (ArrayKind (Some T) dimension)) (b * dimension)"
| packing: "g = sum_list (map (\<lambda>c. unat (snd c)) components) \<Longrightarrow> g \<le> u64_max \<Longrightarrow>
    g * dimension \<le> u64_max \<Longrightarrow>
    struct_bits cat n (StructTypeProto h (BitPackingKind components dimension)) (g * dimension)"
| structure_fields: "fields_bits cat n fs b \<Longrightarrow> struct_bits cat n (StructTypeProto h (StructureKind fs)) b"
| no_fields: "fields_bits cat n [] 0"
| constant_field: "fields_bits cat n fs b \<Longrightarrow> fields_bits cat n (Field name (ConstantContent t) # fs) b"
| typed_field: "type_bits cat n T a \<Longrightarrow> fields_bits cat n fs b \<Longrightarrow> a + b \<le> u64_max \<Longrightarrow>
    fields_bits cat n (Field name (TypeContent T) # fs) (a + b)"

inductive_simps type_bits_simps:
  "type_bits cat n (TensorType t) b" "type_bits cat n (StructType s) b" "type_bits cat n (SequenceType T) b"
  "type_bits cat n (MapType k T) b" "type_bits cat n (OptionalType T) b" "type_bits cat n (SparseTensorType t) b"
  "type_bits cat n OpaqueType b" "type_bits cat n NoType b"

inductive_simps struct_bits_simps:
  "struct_bits cat n (StructTypeProto h (TypeRefKind identity)) b"
  "struct_bits cat n (StructTypeProto h (ArrayKind T dimension)) b"
  "struct_bits cat n (StructTypeProto h (BitPackingKind components dimension)) b"
  "struct_bits cat n (StructTypeProto h (StructureKind fs)) b"
  "struct_bits cat n (StructTypeProto h NoKind) b"

inductive_simps fields_bits_simps:
  "fields_bits cat n [] b" "fields_bits cat n (Field name (ConstantContent t) # fs) b"
  "fields_bits cat n (Field name (TypeContent T) # fs) b" "fields_bits cat n (Field name NoContent # fs) b"

lemmas bits_simps = type_bits_simps struct_bits_simps fields_bits_simps

lemma bits_bounded:
  "type_bits cat n T b \<Longrightarrow> b \<le> u64_max" "struct_bits cat n s b \<Longrightarrow> b \<le> u64_max"
  "fields_bits cat n fs b \<Longrightarrow> b \<le> u64_max"
  by (induction rule: type_bits_struct_bits_fields_bits.inducts) simp_all

lemma bits_mono:
  "type_bits cat n T b \<Longrightarrow> n \<le> m \<Longrightarrow> type_bits cat m T b"
  "struct_bits cat n s b \<Longrightarrow> n \<le> m \<Longrightarrow> struct_bits cat m s b"
  "fields_bits cat n fs b \<Longrightarrow> n \<le> m \<Longrightarrow> fields_bits cat m fs b"
proof (induction arbitrary: m and m and m rule: type_bits_struct_bits_fields_bits.inducts)
  case (tensor t e dims vs n)
  then show ?case by (cases m) (auto intro: type_bits_struct_bits_fields_bits.tensor)
next
  case (struct n s b)
  then show ?case by (cases m) (auto intro: type_bits_struct_bits_fields_bits.struct)
next
  case (reference identity d n b h)
  then show ?case by (cases m) (auto intro: type_bits_struct_bits_fields_bits.reference)
qed (auto intro: type_bits_struct_bits_fields_bits.intros)

lemma bits_unique:
  "type_bits cat n T b \<Longrightarrow> type_bits cat m T b' \<Longrightarrow> b = b'"
  "struct_bits cat n s b \<Longrightarrow> struct_bits cat m s b' \<Longrightarrow> b = b'"
  "fields_bits cat n fs b \<Longrightarrow> fields_bits cat m fs b' \<Longrightarrow> b = b'"
proof (induction arbitrary: m b' and m b' and m b' rule: type_bits_struct_bits_fields_bits.inducts)
  case (tensor t e dims vs n)
  then obtain us where us: "map (\<lambda>v. Some (int v)) us = map (\<lambda>v. Some (int v)) vs"
    "b' = prod_list us * FixedBitWidth e"
    by (auto simp: type_bits_simps)
  have "inj (\<lambda>v. Some (int v))" by (simp add: inj_def)
  with us(1) have "us = vs" using inj_map_eq_map by blast
  with us(2) show ?case by simp
next
  case (struct n s b)
  from struct.prems show ?case by (auto simp: type_bits_simps dest: struct.IH(2))
next
  case (reference identity d n b h)
  from reference.prems reference.IH(1) show ?case by (auto simp: struct_bits_simps dest: reference.IH(3))
next
  case (array n T b dimension h)
  from array.prems show ?case by (auto simp: struct_bits_simps dest: array.IH(2))
next
  case (typed_field n T a fs b name)
  from typed_field.prems show ?case
    by (auto simp: fields_bits_simps dest: typed_field.IH(2) typed_field.IH(4))
qed (auto simp: bits_simps)

lemma concrete_count:
  "ConcreteElementCount t = Some c \<longleftrightarrow>
     (\<exists>dims vs. tensor_shape t = Some dims \<and> map dim_value dims = map (\<lambda>v. Some (int v)) vs \<and>
        c = prod_list vs \<and> (\<forall>k \<in> {1..length vs}. prod_list (take k vs) \<le> u64_max))"
  by (cases "tensor_shape t") (simp_all add: ConcreteElementCount_def checked_product [where a = 1, simplified])

lemma tensor_bits_Some:
  "tensor_bits t = Some b \<longleftrightarrow> (\<exists>e c. tensor_elem_type t = Some e \<and> FixedBitWidth e \<noteq> 0 \<and>
     ConcreteElementCount t = Some c \<and> c * FixedBitWidth e \<le> u64_max \<and> b = c * FixedBitWidth e)"
proof (cases "tensor_elem_type t")
  case (Some e)
  then show ?thesis
  proof (cases "ConcreteElementCount t")
    case count: (Some c)
    have "tensor_bits t = (if FixedBitWidth e = 0 then None else CheckedMultiply c (FixedBitWidth e))"
      by (simp only: tensor_bits_def Some count option.case)
    then show ?thesis unfolding Some count CheckedMultiply_exact by (auto split: if_splits)
  qed (simp add: tensor_bits_def)
qed (simp add: tensor_bits_def)

lemma tensor_bits_rule: "type_bits cat (Suc n) (TensorType t) b \<longleftrightarrow> tensor_bits t = Some b"
proof
  assume "type_bits cat (Suc n) (TensorType t) b"
  then show "tensor_bits t = Some b" unfolding type_bits_simps tensor_bits_Some concrete_count One_nat_def by (metis gr_implies_not0)
next
  assume "tensor_bits t = Some b"
  then obtain e c where ec: "tensor_elem_type t = Some e" "FixedBitWidth e \<noteq> 0" "ConcreteElementCount t = Some c"
    "c * FixedBitWidth e \<le> u64_max" "b = c * FixedBitWidth e"
    unfolding tensor_bits_Some by blast
  from ec(3) obtain dims vs where vs: "tensor_shape t = Some dims" "map dim_value dims = map (\<lambda>v. Some (int v)) vs"
    "c = prod_list vs" "\<forall>k \<in> {1..length vs}. prod_list (take k vs) \<le> u64_max"
    unfolding concrete_count by blast
  with ec show "type_bits cat (Suc n) (TensorType t) b"
    using type_bits_struct_bits_fields_bits.tensor [OF ec(1, 2) vs(1, 2, 4)] by simp
qed

lemma packing_bits_rule:
  "struct_bits cat n (StructTypeProto h (BitPackingKind components dimension)) b \<longleftrightarrow>
     packing_bits components dimension = Some b"
proof -
  define g where "g = sum_list (map (\<lambda>c. unat (snd c)) components)"
  have "packing_bits components dimension = Some b \<longleftrightarrow>
      g \<le> u64_max \<and> g * dimension \<le> u64_max \<and> b = g * dimension"
    by (auto simp: packing_bits_def GroupBits_sum Let_def CheckedMultiply_exact g_def)
  then show ?thesis unfolding struct_bits_simps g_def by blast
qed

section \<open>The walk measures these sizes\<close>

lemma entry_store_size [simp]:
  "memo_size (entry (store_size identity bits w) j) =
     (if j = identity then (case bits of None \<Rightarrow> NoFixedLayout | Some b \<Rightarrow> FixedSize b)
      else memo_size (entry w j))"
  by (simp add: entry_def store_size_def)

lemma entry_stack [simp]: "entry (push_active i w) j = entry w j" "entry (pop_active w) j = entry w j"
  by (simp_all add: entry_def push_active_def pop_active_def)

lemma active_simps [simp]:
  "active (push_active i w) = active w @ [i]" "active (pop_active w) = butlast (active w)"
  "active (store_size i bits w) = active w"
  by (simp_all add: push_active_def pop_active_def store_size_def)

definition sizes_ok :: "struct_type_proto list \<Rightarrow> walk \<Rightarrow> bool" where
  "sizes_ok cat w \<longleftrightarrow> (\<forall>identity b d. memo_size (entry w identity) = FixedSize b \<longrightarrow>
     Find cat identity = Some d \<longrightarrow> (\<exists>n. struct_bits cat n d b))"

lemma sizes_ok_stack [simp]:
  "sizes_ok cat (push_active i w) = sizes_ok cat w" "sizes_ok cat (pop_active w) = sizes_ok cat w"
  by (simp_all add: sizes_ok_def)

lemma sizes_ok_store:
  "sizes_ok cat w \<Longrightarrow> (\<And>b d. bits = Some b \<Longrightarrow> Find cat identity = Some d \<Longrightarrow> \<exists>n. struct_bits cat n d b) \<Longrightarrow>
   sizes_ok cat (store_size identity bits w)"
  by (auto simp: sizes_ok_def split: option.splits if_splits)

lemma walk_sizes_sound:
  "sizes_ok cat w \<Longrightarrow> BitSizeOfType cat depth T w = (r, w') \<Longrightarrow>
     sizes_ok cat w' \<and> active w' = active w \<and> (\<forall>b. r = Some b \<longrightarrow> (\<exists>n. type_bits cat n T b))"
  "sizes_ok cat w \<Longrightarrow> BitSizeOfStruct cat depth s w = (r, w') \<Longrightarrow>
     sizes_ok cat w' \<and> active w' = active w \<and> (\<forall>b. r = Some b \<longrightarrow> (\<exists>n. struct_bits cat n s b))"
  "sizes_ok cat w \<Longrightarrow> bit_size_of_fields cat depth fs acc w = (r, w') \<Longrightarrow> acc \<le> u64_max \<Longrightarrow>
     sizes_ok cat w' \<and> active w' = active w \<and>
     (\<forall>b. r = Some b \<longrightarrow> b \<le> u64_max \<and> (\<exists>n c. fields_bits cat n fs c \<and> b = acc + c))"
proof (induction cat depth T w and cat depth s w and cat depth fs acc w
    arbitrary: r w' and r w' and r w' rule: BitSizeOfType_BitSizeOfStruct_bit_size_of_fields.induct)
  case (1 cat depth t w)
  then show ?case by (auto intro: tensor_bits_rule [THEN iffD2] split: if_splits)
next
  case (2 cat depth s w)
  then show ?case by (auto split: if_splits intro: type_bits_struct_bits_fields_bits.struct)
next
  case (4 cat depth h identity w)
  show ?case
  proof (cases "Find cat identity")
    case (Some d)
    show ?thesis
    proof (cases "expanding w identity \<or> memo_size (entry w identity) \<noteq> NotMeasured \<or> depth + 1 > kMaxStructTypeDepth")
      case True
      have "\<exists>n. struct_bits cat n (StructTypeProto h (TypeRefKind identity)) b"
        if "memo_size (entry w identity) = FixedSize b" for b
        using 4(2) Some that unfolding sizes_ok_def
        by (blast intro: type_bits_struct_bits_fields_bits.reference)
      with True Some 4(2, 3) show ?thesis by (auto split: if_splits size_state.splits)
    next
      case False
      obtain bits w1 where r: "BitSizeOfStruct cat (depth + 1) d (push_active identity w) = (bits, w1)"
        by fastforce
      have ih: "sizes_ok cat w1 \<and> active w1 = active w @ [identity] \<and>
          (\<forall>b. bits = Some b \<longrightarrow> (\<exists>n. struct_bits cat n d b))"
        using 4(1) [OF Some _ _ _ _ r] False 4(2) by simp
      have "r = bits" "w' = store_size identity bits (pop_active w1)"
        using 4(3) Some False r by auto
      with ih Some show ?thesis
        by (auto intro!: sizes_ok_store intro: type_bits_struct_bits_fields_bits.reference)
    qed
  qed (use 4 in auto)
next
  case (5 cat depth h T dimension w)
  obtain e w1 where r: "BitSizeOfType cat depth T w = (e, w1)" by fastforce
  from 5(1) [OF 5(2) r] 5(3) r show ?case
    by (auto simp: CheckedMultiply_exact split: option.splits if_splits
        intro: type_bits_struct_bits_fields_bits.array)
next
  case (7 cat depth h components dimension w)
  then show ?case by (auto simp: packing_bits_rule)
next
  case (8 cat depth h fs w)
  then show ?case by (fastforce intro: type_bits_struct_bits_fields_bits.structure_fields)
next
  case (10 cat depth bits w)
  then show ?case using type_bits_struct_bits_fields_bits.no_fields [of cat 0] by auto
next
  case (11 cat depth name t fs bits w)
  from 11(3) have "bit_size_of_fields cat depth fs bits w = (r, w')" by simp
  from 11(1) [OF 11(2) this 11(4)] show ?case
    by (blast intro: type_bits_struct_bits_fields_bits.constant_field)
next
  case (13 cat depth name T fs bits w)
  obtain a w1 where r: "BitSizeOfType cat depth T w = (a, w1)" by fastforce
  note ih1 = 13(1) [OF 13(3) r]
  show ?case
  proof (cases a)
    case (Some a')
    then obtain n where n: "type_bits cat n T a'" using ih1 by auto
    then have le: "a' \<le> u64_max" by (rule bits_bounded)
    show ?thesis
    proof (cases "bits + a' \<le> u64_max")
      case True
      with le have add: "CheckedAdd bits a' = Some (bits + a')" by (simp add: CheckedAdd_exact)
      have rest: "bit_size_of_fields cat depth fs (bits + a') w1 = (r, w')"
        using 13(4) r Some add by simp
      have ih2: "sizes_ok cat w' \<and> active w' = active w1 \<and>
          (\<forall>b. r = Some b \<longrightarrow> b \<le> u64_max \<and> (\<exists>n c. fields_bits cat n fs c \<and> b = bits + a' + c))"
        using 13(2) [OF r [symmetric] Some add _ rest True] ih1 by simp
      have "\<exists>n c. fields_bits cat n (Field name (TypeContent T) # fs) c \<and> b = bits + c" if "r = Some b" for b
      proof -
        from that ih2 obtain m c where m: "fields_bits cat m fs c" "b = bits + a' + c" "b \<le> u64_max" by blast
        then have "fields_bits cat (max n m) (Field name (TypeContent T) # fs) (a' + c)"
          using bits_mono(1) [OF n, of "max n m"] bits_mono(3) [OF m(1), of "max n m"]
          by (intro type_bits_struct_bits_fields_bits.typed_field) auto
        with m(2) show ?thesis by (metis add.assoc)
      qed
      with ih1 ih2 show ?thesis by auto
    next
      case False
      with le have "CheckedAdd bits a' = None" by (simp add: CheckedAdd_exact)
      with 13(4) r Some ih1 show ?thesis by simp
    qed
  qed (use 13(4) r ih1 in auto)
qed auto

text \<open>
  Within the depth bound the walk finds every size.  The identities being expanded have no size at
  a smaller bound than the type at hand, so none of them is met again.
\<close>

definition no_failure :: "walk \<Rightarrow> bool" where
  "no_failure w \<longleftrightarrow> (\<forall>identity. memo_size (entry w identity) \<noteq> NoFixedLayout)"

definition above :: "struct_type_proto list \<Rightarrow> nat \<Rightarrow> walk \<Rightarrow> bool" where
  "above cat n w \<longleftrightarrow> (\<forall>a \<in> set (active w). \<forall>d m b. Find cat a = Some d \<longrightarrow> struct_bits cat m d b \<longrightarrow> n \<le> m)"

lemma no_failure_stack [simp]:
  "no_failure (push_active i w) = no_failure w" "no_failure (pop_active w) = no_failure w"
  "no_failure w \<Longrightarrow> no_failure (store_size i (Some b) w)"
  by (simp_all add: no_failure_def)

lemma above_active: "active w' = active w \<Longrightarrow> above cat n w \<Longrightarrow> above cat n w'"
  by (simp add: above_def)

lemma above_mono: "above cat m w \<Longrightarrow> n \<le> m \<Longrightarrow> above cat n w"
  unfolding above_def by (meson le_trans)

lemma walk_sizes_complete:
  "sizes_ok cat w \<Longrightarrow> no_failure w \<Longrightarrow> above cat n w \<Longrightarrow> depth + n \<le> kMaxStructTypeDepth \<Longrightarrow>
     type_bits cat n T b \<Longrightarrow> \<exists>w'. BitSizeOfType cat depth T w = (Some b, w') \<and> no_failure w'"
  "sizes_ok cat w \<Longrightarrow> no_failure w \<Longrightarrow> above cat n w \<Longrightarrow> depth + n \<le> kMaxStructTypeDepth \<Longrightarrow>
     struct_bits cat n s b \<Longrightarrow> \<exists>w'. BitSizeOfStruct cat depth s w = (Some b, w') \<and> no_failure w'"
  "sizes_ok cat w \<Longrightarrow> no_failure w \<Longrightarrow> above cat n w \<Longrightarrow> depth + n \<le> kMaxStructTypeDepth \<Longrightarrow>
     fields_bits cat n fs b \<Longrightarrow> acc + b \<le> u64_max \<Longrightarrow>
     \<exists>w'. bit_size_of_fields cat depth fs acc w = (Some (acc + b), w') \<and> no_failure w'"
proof (induction cat depth T w and cat depth s w and cat depth fs acc w
    arbitrary: n b and n b and n b rule: BitSizeOfType_BitSizeOfStruct_bit_size_of_fields.induct)
  case (1 cat depth t w)
  then obtain m where "n = Suc m" by (cases n) (auto simp: type_bits_simps)
  with 1 show ?case by (auto simp: tensor_bits_rule)
next
  case (2 cat depth s w)
  then obtain m where m: "n = Suc m" "struct_bits cat m s b" by (auto simp: type_bits_simps)
  then show ?case using 2 above_mono [of cat n w m] by simp
next
  case (4 cat depth h identity w)
  from 4(6) obtain m d where m: "n = Suc m" "Find cat identity = Some d" "struct_bits cat m d b"
    by (auto simp: struct_bits_simps)
  define k where "k = (LEAST k. \<exists>b. struct_bits cat k d b)"
  have k: "\<exists>b. struct_bits cat k d b" and least: "struct_bits cat j d c \<Longrightarrow> k \<le> j" for j c
    unfolding k_def
    by (rule LeastI [of "\<lambda>k. \<exists>b. struct_bits cat k d b"]) (use m(3) in blast, blast intro: Least_le)
  have kb: "struct_bits cat k d b" using k bits_unique(2) [OF _ m(3)] by blast
  have "k \<le> m" using least m(3) by blast
  have fresh: "\<not> expanding w identity"
    using 4(4) m unfolding above_def expanding_def by fastforce
  show ?case
  proof (cases "memo_size (entry w identity)")
    case NotMeasured
    have "above cat k (push_active identity w)"
      using above_mono [OF 4(4), of k] \<open>k \<le> m\<close> m(1, 2) least by (auto simp: above_def)
    then obtain w1 where r: "BitSizeOfStruct cat (depth + 1) d (push_active identity w) = (Some b, w1)" "no_failure w1"
      using 4(1) [OF m(2) fresh NotMeasured, of k b] 4(2, 3, 5) kb \<open>k \<le> m\<close> m(1) by auto
    with 4(5) m NotMeasured fresh show ?thesis by simp
  next
    case (FixedSize b')
    then have "b' = b" using 4(2) m bits_unique(2) [OF _ m(3)] unfolding sizes_ok_def by blast
    with FixedSize fresh m 4(3) show ?thesis by simp
  qed (use 4(3) in \<open>simp add: no_failure_def\<close>)
next
  case (5 cat depth h T dimension w)
  then obtain e where e: "type_bits cat n T e" "e * dimension \<le> u64_max" "b = e * dimension"
    by (auto simp: struct_bits_simps)
  with 5 show ?case by (fastforce simp: CheckedMultiply_exact)
next
  case (7 cat depth h components dimension w)
  then show ?case by (simp add: packing_bits_rule)
next
  case (8 cat depth h fs w)
  then have "fields_bits cat n fs b" by (simp add: struct_bits_simps)
  with 8(1) [OF 8(2-5) this] bits_bounded(3) [OF this] show ?case by simp
next
  case (13 cat depth name T fs bits w)
  then obtain a c where ac: "type_bits cat n T a" "fields_bits cat n fs c" "b = a + c"
    by (auto simp: fields_bits_simps)
  obtain w1 where r: "BitSizeOfType cat depth T w = (Some a, w1)" "no_failure w1"
    using 13(1) [OF 13(3-6) ac(1)] by blast
  have le: "a \<le> u64_max" using ac(1) by (rule bits_bounded)
  with 13(8) ac(3) have add: "CheckedAdd bits a = Some (bits + a)" by (simp add: CheckedAdd_exact)
  have w1: "sizes_ok cat w1" "active w1 = active w" using walk_sizes_sound(1) [OF 13(3) r(1)] by auto
  obtain w' where "bit_size_of_fields cat depth fs (bits + a) w1 = (Some (bits + a + c), w')" "no_failure w'"
    using 13(2) [OF r(1) [symmetric] refl add w1(1) r(2) above_active [OF w1(2) 13(5)] 13(6) ac(2)] 13(8) ac(3)
    by (auto simp: add.assoc)
  with r add ac(3) show ?case by (simp add: add.assoc)
qed (auto simp: bits_simps)

text \<open>C7: The walk that measures a type, with its memory of results, its guard against cycles and its depth
  limit, computes the sizes that the rules give: every size it returns is the size by the rules, and
  every type whose size the rules give with at most as many levels as the limit has exactly that size.\<close>

theorem fixed_size_exact:
  "(\<forall>b. FixedBitSize cat s = Some b \<longrightarrow> (\<exists>n. struct_bits cat n s b)) \<and>
   (\<forall>n b. struct_bits cat n s b \<longrightarrow> n \<le> kMaxStructTypeDepth \<longrightarrow> FixedBitSize cat s = Some b)"
proof (intro conjI allI impI)
  have ok: "sizes_ok cat empty_walk" "no_failure empty_walk" "above cat n empty_walk" for n
    by (simp_all add: sizes_ok_def no_failure_def above_def empty_walk_def entry_def)
  fix b
  show "\<exists>n. struct_bits cat n s b" if "FixedBitSize cat s = Some b"
    using that walk_sizes_sound(2) [OF ok(1), of 0 s] by (cases "BitSizeOfStruct cat 0 s empty_walk") (auto simp: FixedBitSize_def)
  fix n
  show "FixedBitSize cat s = Some b" if "struct_bits cat n s b" "n \<le> kMaxStructTypeDepth"
    using walk_sizes_complete(2) [OF ok(1, 2) ok(3) [of n], of 0 s b] that by (auto simp: FixedBitSize_def)
qed

lemma fixed_size_exact_witness:
  "\<exists>n. struct_bits [] n (StructTypeProto \<lparr>type_id = None, has_decoder = False, has_encoder = False, has_name = False,
     has_doc_string = False, has_metadata = False\<rparr> (BitPackingKind [(''low'', 4), (''high'', 4)] 3)) 24"
  (is "\<exists>n. struct_bits [] n ?s 24")
proof -
  have "FixedBitSize [] ?s = Some 24"
    by (simp add: FixedBitSize_def packing_bits_def GroupBits_def CheckedMultiply_def CheckedAdd_def u64_max_def
        kMaxStructTypeDepth_def)
  with fixed_size_exact [of "[]" ?s] show ?thesis by blast
qed

end
