(* ===== verification/StructValid.thy ===== *)
theory StructValid
  imports StructTypes
begin

text \<open>
  What the validation of types and of the catalogue accepts.  Well-formedness is given by rules
  without a walk; the number in a judgement bounds the nesting of types and references, so that a
  type that contains itself is not well formed.  The validating walk accepts only well-formed
  types, and all of those within the depth limit.
\<close>

section \<open>Well-formedness by rules\<close>

definition valid_packing :: "(string \<times> 32 word) list \<Rightarrow> nat \<Rightarrow> bool" where
  "valid_packing components dimension \<longleftrightarrow> components \<noteq> [] \<and> dimension \<noteq> 0 \<and>
     distinct (map fst components) \<and> '''' \<notin> set (map fst components) \<and>
     (\<forall>(name, bit_width) \<in> set components. 1 \<le> unat bit_width \<and> unat bit_width \<le> 64)"

inductive valid_type :: "walk_settings \<Rightarrow> nat \<Rightarrow> type_proto \<Rightarrow> bool"
  and valid_struct :: "walk_settings \<Rightarrow> nat \<Rightarrow> StructRole \<Rightarrow> struct_type_proto \<Rightarrow> bool"
  and valid_fields :: "walk_settings \<Rightarrow> nat \<Rightarrow> field list \<Rightarrow> bool"
  for c :: walk_settings where
  tensor: "defined_elem_type t \<Longrightarrow> \<not> (persistent c \<and> elem_type t = STRING) \<Longrightarrow>
    valid_type c (Suc n) (TensorType t)"
| sparse: "defined_elem_type t \<Longrightarrow> \<not> persistent c \<Longrightarrow> valid_type c (Suc n) (SparseTensorType t)"
| opaque: "\<not> persistent c \<Longrightarrow> valid_type c (Suc n) OpaqueType"
| sequence: "valid_type c n T \<Longrightarrow> valid_type c (Suc n) (SequenceType (Some T))"
| optional: "\<not> persistent c \<Longrightarrow> valid_type c n T \<Longrightarrow> valid_type c (Suc n) (OptionalType (Some T))"
| mapping: "\<not> persistent c \<Longrightarrow> IsAllowedMapKeyType k \<Longrightarrow> valid_type c n T \<Longrightarrow>
    valid_type c (Suc n) (MapType k (Some T))"
| struct: "valid_struct c n kNested s \<Longrightarrow> valid_type c (Suc n) (StructType s)"
| reference: "role \<noteq> kDeclaration \<Longrightarrow> identity \<noteq> 0 \<Longrightarrow> bare_header h \<Longrightarrow>
    Find (catalogue c) identity = Some d \<Longrightarrow> valid_struct c n kDeclaration d \<Longrightarrow>
    valid_struct c (Suc n) role (StructTypeProto h (TypeRefKind identity))"
| unresolved: "role \<noteq> kDeclaration \<Longrightarrow> identity \<noteq> 0 \<Longrightarrow> bare_header h \<Longrightarrow>
    Find (catalogue c) identity = None \<Longrightarrow> \<not> require_resolution c \<Longrightarrow>
    valid_struct c n role (StructTypeProto h (TypeRefKind identity))"
| array: "identity_allowed role h \<Longrightarrow> dimension \<noteq> 0 \<Longrightarrow> valid_type c n T \<Longrightarrow>
    valid_struct c n role (StructTypeProto h (ArrayKind (Some T) dimension))"
| structured: "identity_allowed role h \<Longrightarrow> fs \<noteq> [] \<Longrightarrow> distinct (map field_name fs) \<Longrightarrow>
    '''' \<notin> set (map field_name fs) \<Longrightarrow> valid_fields c n fs \<Longrightarrow>
    valid_struct c n role (StructTypeProto h (StructureKind fs))"
| packing: "identity_allowed role h \<Longrightarrow> valid_packing components dimension \<Longrightarrow>
    valid_struct c n role (StructTypeProto h (BitPackingKind components dimension))"
| category: "identity_allowed kNested h \<Longrightarrow> \<not> has_decoder h \<Longrightarrow> \<not> has_encoder h \<Longrightarrow>
    valid_struct c n kNested (StructTypeProto h NoKind)"
| no_fields: "valid_fields c n []"
| typed_field: "valid_type c n T \<Longrightarrow> valid_fields c n fs \<Longrightarrow> valid_fields c n (Field name (TypeContent T) # fs)"
| constant_field: "ValidateConstant t = Inr () \<Longrightarrow> \<not> (persistent c \<and> data_type t = STRING) \<Longrightarrow>
    valid_fields c n fs \<Longrightarrow> valid_fields c n (Field name (ConstantContent t) # fs)"

lemmas valid_intros = valid_type_valid_struct_valid_fields.intros
lemmas valid_inducts = valid_type_valid_struct_valid_fields.inducts

inductive_simps valid_type_simps:
  "valid_type c n (TensorType t)" "valid_type c n (StructType s)" "valid_type c n (SequenceType T)"
  "valid_type c n (MapType k T)" "valid_type c n (OptionalType T)" "valid_type c n (SparseTensorType t)"
  "valid_type c n OpaqueType" "valid_type c n NoType"

inductive_simps valid_struct_simps:
  "valid_struct c n role (StructTypeProto h (TypeRefKind identity))"
  "valid_struct c n role (StructTypeProto h (ArrayKind T dimension))"
  "valid_struct c n role (StructTypeProto h (BitPackingKind components dimension))"
  "valid_struct c n role (StructTypeProto h (StructureKind fs))"
  "valid_struct c n role (StructTypeProto h NoKind)"

inductive_simps valid_fields_simps:
  "valid_fields c n []" "valid_fields c n (Field name (ConstantContent t) # fs)"
  "valid_fields c n (Field name (TypeContent T) # fs)" "valid_fields c n (Field name NoContent # fs)"

lemmas valid_simps = valid_type_simps valid_struct_simps valid_fields_simps

lemma valid_mono:
  "valid_type c n T \<Longrightarrow> n \<le> m \<Longrightarrow> valid_type c m T"
  "valid_struct c n role s \<Longrightarrow> n \<le> m \<Longrightarrow> valid_struct c m role s"
  "valid_fields c n fs \<Longrightarrow> n \<le> m \<Longrightarrow> valid_fields c m fs"
proof (induction arbitrary: m and m and m rule: valid_inducts)
  case (reference role identity h d n)
  then show ?case by (cases m) (auto intro: valid_type_valid_struct_valid_fields.reference)
qed (auto intro: valid_intros elim!: Suc_le_D [elim_format] simp: valid_simps Suc_le_eq dest: less_imp_Suc_add)

section \<open>The checks of the leaves\<close>

lemma validate_components_iff:
  "validate_components components earlier = Inr () \<longleftrightarrow>
     distinct (map fst components) \<and> set (map fst components) \<inter> set earlier = {} \<and>
     '''' \<notin> set (map fst components) \<and>
     (\<forall>(name, bit_width) \<in> set components. 1 \<le> unat bit_width \<and> unat bit_width \<le> 64)"
proof (induction components earlier rule: validate_components.induct)
  case (2 name bit_width components earlier)
  have "bit_width = 0 \<or> bit_width > 64 \<longleftrightarrow> \<not> (1 \<le> unat bit_width \<and> unat bit_width \<le> 64)"
    by (simp add: word_less_nat_alt unat_eq_zero Suc_le_eq not_le unat_gt_0)
  with 2 show ?case by auto
qed simp

lemma ValidateBitPacking_iff:
  "ValidateBitPacking components dimension = Inr () \<longleftrightarrow> valid_packing components dimension"
  by (auto simp: ValidateBitPacking_def validate_components_iff valid_packing_def)

section \<open>The walk accepts only well-formed types\<close>

lemma validated_stack [simp]:
  "memo_validated (entry (push_active i w) j) = memo_validated (entry w j)"
  "memo_validated (entry (pop_active w) j) = memo_validated (entry w j)"
  "memo_validated (entry (store_validated i w) j) \<longleftrightarrow> j = i \<or> memo_validated (entry w j)"
  by (simp_all add: entry_def push_active_def pop_active_def store_validated_def)

lemma active_stack [simp]:
  "active (push_active i w) = active w @ [i]" "active (pop_active w) = butlast (active w)"
  "active (store_validated i w) = active w"
  by (simp_all add: push_active_def pop_active_def store_validated_def)

definition memo_ok :: "walk_settings \<Rightarrow> walk \<Rightarrow> bool" where
  "memo_ok c w \<longleftrightarrow> (\<forall>identity d. memo_validated (entry w identity) \<longrightarrow>
     Find (catalogue c) identity = Some d \<longrightarrow> (\<exists>n. valid_struct c n kDeclaration d))"

lemma memo_ok_stack [simp]:
  "memo_ok c (push_active i w) = memo_ok c w" "memo_ok c (pop_active w) = memo_ok c w"
  by (simp_all add: memo_ok_def)

lemma memo_ok_store:
  "memo_ok c w \<Longrightarrow> (\<And>d. Find (catalogue c) i = Some d \<Longrightarrow> \<exists>n. valid_struct c n kDeclaration d) \<Longrightarrow>
   memo_ok c (store_validated i w)"
  by (simp add: memo_ok_def)

lemma walk_valid_sound:
  "memo_ok c w \<Longrightarrow> ValidateTypeProto c depth T w = Inr w' \<Longrightarrow>
     memo_ok c w' \<and> active w' = active w \<and> (\<exists>n. valid_type c n T)"
  "memo_ok c w \<Longrightarrow> ValidateStructType c depth s role w = Inr w' \<Longrightarrow>
     memo_ok c w' \<and> active w' = active w \<and> (\<exists>n. valid_struct c n role s)"
  "memo_ok c w \<Longrightarrow> validate_fields c depth fs earlier w = Inr w' \<Longrightarrow>
     memo_ok c w' \<and> active w' = active w \<and> (\<exists>n. valid_fields c n fs) \<and>
     distinct (map field_name fs) \<and> set (map field_name fs) \<inter> set earlier = {} \<and>
     '''' \<notin> set (map field_name fs)"
proof (induction c depth T w and c depth s role w and c depth fs earlier w
    arbitrary: w' and w' and w' rule: ValidateTypeProto_ValidateStructType_validate_fields.induct)
  case (1 c depth t w)
  then show ?case by (auto intro: valid_type_valid_struct_valid_fields.tensor)
next
  case (2 c depth t w)
  then show ?case by (auto intro: valid_type_valid_struct_valid_fields.sparse)
next
  case (3 c depth w)
  then show ?case by (auto intro: valid_type_valid_struct_valid_fields.opaque)
next
  case (4 c depth T w)
  then show ?case by (fastforce intro: valid_type_valid_struct_valid_fields.sequence)
next
  case (5 c depth T w)
  then show ?case by (fastforce intro: valid_type_valid_struct_valid_fields.optional)
next
  case (6 c depth k T w)
  then show ?case by (fastforce intro: valid_type_valid_struct_valid_fields.mapping)
next
  case (7 c depth s w)
  then show ?case by (fastforce intro: valid_type_valid_struct_valid_fields.struct)
next
  case (9 c depth h identity role w)
  show ?case
  proof (cases "Find (catalogue c) identity")
    case None
    with 9(3) have "w' = w" "role \<noteq> kDeclaration" "identity \<noteq> 0" "bare_header h" "\<not> require_resolution c"
      by auto
    with None 9(2) show ?thesis
      using valid_type_valid_struct_valid_fields.unresolved [of role identity h c 0] by blast
  next
    case (Some d)
    with 9(3) have h: "role \<noteq> kDeclaration" "identity \<noteq> 0" "bare_header h" "\<not> expanding w identity" by auto
    show ?thesis
    proof (cases "memo_validated (entry w identity)")
      case True
      with Some 9(3) h have "w' = w" by simp
      moreover from True Some 9(2) obtain n where "valid_struct c n kDeclaration d"
        unfolding memo_ok_def by blast
      ultimately show ?thesis
        using h Some 9(2) by (blast intro: valid_type_valid_struct_valid_fields.reference)
    next
      case False
      with Some 9(3) h obtain w1 where
        w1: "ValidateStructType c (depth + 1) d kDeclaration (push_active identity w) = Inr w1"
          "w' = store_validated identity (pop_active w1)" and dp: "depth + 1 \<le> kMaxStructTypeDepth" by auto
      from 9(1) [OF h(1-3) Some h(4) False dp _ w1(1)] 9(2)
      have ih: "memo_ok c w1" "active w1 = active w @ [identity]" "\<exists>n. valid_struct c n kDeclaration d" by auto
      moreover have "memo_ok c w'" unfolding w1(2) by (rule memo_ok_store) (use ih Some in auto)
      ultimately show ?thesis using h Some w1(2)
        by (auto intro: valid_type_valid_struct_valid_fields.reference)
    qed
  qed
next
  case (10 c depth h element_type dimension role w)
  then obtain T where "element_type = Some T" by auto
  with 10 show ?case by (fastforce intro: valid_type_valid_struct_valid_fields.array)
next
  case (11 c depth h fs role w)
  then have h: "identity_allowed role h" "fs \<noteq> []" "validate_fields c depth fs [] w = Inr w'" by auto
  note ih = 11(1) [OF h(1, 2) 11(2) h(3)]
  with h show ?case by (blast intro: valid_type_valid_struct_valid_fields.structured)
next
  case (12 c depth h components dimension role w)
  then show ?case
    by (auto simp: ValidateBitPacking_iff intro: valid_type_valid_struct_valid_fields.packing)
next
  case (13 c depth h role w)
  then show ?case by (auto intro: valid_type_valid_struct_valid_fields.category)
next
  case (14 c depth earlier w)
  then show ?case using valid_type_valid_struct_valid_fields.no_fields [of c 0] by auto
next
  case (15 c depth name T fs earlier w)
  from 15(4) obtain w1 where n: "name \<noteq> ''''" "name \<notin> set earlier"
      "case T of TensorType t \<Rightarrow> defined_elem_type t | _ \<Rightarrow> True"
    and w1: "ValidateTypeProto c depth T w = Inr w1"
      "validate_fields c depth fs (earlier @ [name]) w1 = Inr w'" by auto
  note ih1 = 15(1) [OF n 15(3) w1(1)]
  note ih2 = 15(2) [OF n w1(1) conjunct1 [OF ih1] w1(2)]
  from ih1 ih2 obtain i j where "valid_type c i T" "valid_fields c j fs" by blast
  then have "valid_fields c (max i j) (Field name (TypeContent T) # fs)"
    by (intro valid_type_valid_struct_valid_fields.typed_field) (auto intro: valid_mono)
  moreover have "memo_ok c w'" "active w' = active w" using ih1 ih2 by simp_all
  moreover have "distinct (map field_name (Field name (TypeContent T) # fs))"
    "set (map field_name (Field name (TypeContent T) # fs)) \<inter> set earlier = {}"
    "'''' \<notin> set (map field_name (Field name (TypeContent T) # fs))"
    using ih2 n(1, 2) by auto
  ultimately show ?case by blast
next
  case (16 c depth name t fs earlier w)
  from 16(3) have n: "name \<noteq> ''''" "name \<notin> set earlier" "\<not> (persistent c \<and> data_type t = STRING)"
      "ValidateConstant t = Inr ()" and w1: "validate_fields c depth fs (earlier @ [name]) w = Inr w'" by auto
  note ih = 16(1) [OF n 16(2) w1]
  then obtain j where "valid_fields c j fs" by blast
  with n(3, 4) have "valid_fields c j (Field name (ConstantContent t) # fs)"
    by (intro valid_type_valid_struct_valid_fields.constant_field)
  moreover have "distinct (map field_name (Field name (ConstantContent t) # fs))"
    "set (map field_name (Field name (ConstantContent t) # fs)) \<inter> set earlier = {}"
    "'''' \<notin> set (map field_name (Field name (ConstantContent t) # fs))"
    using ih n(1, 2) by auto
  ultimately show ?case using ih by blast
qed auto

section \<open>Within the depth limit the walk accepts them all\<close>

definition above_valid :: "walk_settings \<Rightarrow> nat \<Rightarrow> walk \<Rightarrow> bool" where
  "above_valid c n w \<longleftrightarrow> (\<forall>a \<in> set (active w). \<forall>d m. Find (catalogue c) a = Some d \<longrightarrow>
     valid_struct c m kDeclaration d \<longrightarrow> n \<le> m)"

lemma above_valid_active: "active w' = active w \<Longrightarrow> above_valid c n w \<Longrightarrow> above_valid c n w'"
  by (simp add: above_valid_def)

lemma above_valid_mono: "above_valid c m w \<Longrightarrow> n \<le> m \<Longrightarrow> above_valid c n w"
  unfolding above_valid_def by (meson le_trans)

lemma walk_valid_complete:
  "above_valid c n w \<Longrightarrow> depth + n \<le> kMaxStructTypeDepth \<Longrightarrow> valid_type c n T \<Longrightarrow>
     \<exists>w'. ValidateTypeProto c depth T w = Inr w' \<and> active w' = active w"
  "above_valid c n w \<Longrightarrow> depth + n \<le> kMaxStructTypeDepth \<Longrightarrow> valid_struct c n role s \<Longrightarrow>
     \<exists>w'. ValidateStructType c depth s role w = Inr w' \<and> active w' = active w"
  "above_valid c n w \<Longrightarrow> depth + n \<le> kMaxStructTypeDepth \<Longrightarrow> valid_fields c n fs \<Longrightarrow>
     distinct (map field_name fs) \<Longrightarrow> set (map field_name fs) \<inter> set earlier = {} \<Longrightarrow>
     '''' \<notin> set (map field_name fs) \<Longrightarrow>
     \<exists>w'. validate_fields c depth fs earlier w = Inr w' \<and> active w' = active w"
proof (induction c depth T w and c depth s role w and c depth fs earlier w
    arbitrary: n and n and n rule: ValidateTypeProto_ValidateStructType_validate_fields.induct)
  case (4 c depth T w)
  then obtain m where "n = Suc m" "valid_type c m T" by (auto simp: valid_type_simps)
  with 4 above_valid_mono [of c n w m] show ?case by (auto simp: valid_type_simps)
next
  case (5 c depth T w)
  then obtain m where "n = Suc m" "valid_type c m T" "\<not> persistent c" by (auto simp: valid_type_simps)
  with 5 above_valid_mono [of c n w m] show ?case by (auto simp: valid_type_simps)
next
  case (6 c depth k T w)
  then obtain m where "n = Suc m" "valid_type c m T" "\<not> persistent c" "IsAllowedMapKeyType k"
    by (auto simp: valid_type_simps)
  with 6 above_valid_mono [of c n w m] show ?case by (auto simp: valid_type_simps)
next
  case (7 c depth s w)
  then obtain m where "n = Suc m" "valid_struct c m kNested s" by (auto simp: valid_type_simps)
  with 7 above_valid_mono [of c n w m] show ?case by (auto simp: valid_type_simps)
next
  case (9 c depth h identity role w)
  show ?case
  proof (cases "Find (catalogue c) identity")
    case None
    with 9(4) show ?thesis by (auto simp: valid_struct_simps)
  next
    case (Some d)
    with 9(4) obtain m where m: "n = Suc m" "valid_struct c m kDeclaration d" "role \<noteq> kDeclaration"
      "identity \<noteq> 0" "bare_header h" by (auto simp: valid_struct_simps)
    define k where "k = (LEAST k. valid_struct c k kDeclaration d)"
    have k: "valid_struct c k kDeclaration d" unfolding k_def using m(2) by (rule LeastI)
    have least: "valid_struct c j kDeclaration d \<Longrightarrow> k \<le> j" for j unfolding k_def by (rule Least_le)
    have "k \<le> m" using least m(2) by blast
    have fresh: "\<not> expanding w identity"
      using 9(2) m Some unfolding above_valid_def expanding_def by fastforce
    have "above_valid c k (push_active identity w)"
      using above_valid_mono [OF 9(2), of k] \<open>k \<le> m\<close> m(1) least Some by (auto simp: above_valid_def)
    moreover have "depth + 1 + k \<le> kMaxStructTypeDepth" "depth + 1 \<le> kMaxStructTypeDepth"
      using 9(3) m(1) \<open>k \<le> m\<close> by simp_all
    ultimately show ?thesis
      using 9(1) [OF m(3-5) Some fresh, of k] k m(3-5) Some fresh
      by (cases "memo_validated (entry w identity)") auto
  qed
next
  case (15 c depth name T fs earlier w)
  then have v: "valid_type c n T" "valid_fields c n fs" by (auto simp: valid_fields_simps)
  have n: "name \<noteq> ''''" "name \<notin> set earlier" using 15(7, 8) by auto
  have t: "case T of TensorType t \<Rightarrow> defined_elem_type t | _ \<Rightarrow> True"
    using v(1) by (auto simp: valid_type_simps split: type_proto.splits)
  obtain w1 where w1: "ValidateTypeProto c depth T w = Inr w1" "active w1 = active w"
    using 15(1) [OF n t 15(3, 4) v(1)] by blast
  obtain w2 where "validate_fields c depth fs (earlier @ [name]) w1 = Inr w2" "active w2 = active w1"
    using 15(2) [OF n t w1(1) above_valid_active [OF w1(2) 15(3)] 15(4) v(2)] 15(6-8) by auto
  with w1 n t show ?case by simp
next
  case (16 c depth name t fs earlier w)
  then show ?case by (auto simp: valid_fields_simps)
qed (auto simp: valid_simps ValidateBitPacking_iff)

section \<open>Catalogues\<close>

text \<open>The identities a declaration refers to.\<close>

primrec type_refs :: "type_proto \<Rightarrow> nat set"
  and struct_refs :: "struct_type_proto \<Rightarrow> nat set"
  and kind_refs :: "struct_kind \<Rightarrow> nat set"
  and field_refs :: "field \<Rightarrow> nat set"
  and content_refs :: "field_content \<Rightarrow> nat set" where
  "type_refs (TensorType t) = {}"
| "type_refs (SparseTensorType t) = {}"
| "type_refs (SequenceType T) = (case map_option type_refs T of None \<Rightarrow> {} | Some A \<Rightarrow> A)"
| "type_refs (MapType k T) = (case map_option type_refs T of None \<Rightarrow> {} | Some A \<Rightarrow> A)"
| "type_refs (OptionalType T) = (case map_option type_refs T of None \<Rightarrow> {} | Some A \<Rightarrow> A)"
| "type_refs OpaqueType = {}"
| "type_refs (StructType s) = struct_refs s"
| "type_refs NoType = {}"
| "struct_refs (StructTypeProto h k) = kind_refs k"
| "kind_refs (ArrayKind T dimension) = (case map_option type_refs T of None \<Rightarrow> {} | Some A \<Rightarrow> A)"
| "kind_refs (StructureKind fs) = \<Union>(set (map field_refs fs))"
| "kind_refs (BitPackingKind components dimension) = {}"
| "kind_refs (TypeRefKind identity) = {identity}"
| "kind_refs NoKind = {}"
| "field_refs (Field name fc) = content_refs fc"
| "content_refs (TypeContent T) = type_refs T"
| "content_refs (ConstantContent t) = {}"
| "content_refs NoContent = {}"

lemma valid_refs:
  "valid_type c n T \<Longrightarrow> require_resolution c \<Longrightarrow> i \<in> type_refs T \<Longrightarrow>
     \<exists>d m. Find (catalogue c) i = Some d \<and> m < n \<and> valid_struct c m kDeclaration d"
  "valid_struct c n role s \<Longrightarrow> require_resolution c \<Longrightarrow> i \<in> struct_refs s \<Longrightarrow>
     \<exists>d m. Find (catalogue c) i = Some d \<and> m < n \<and> valid_struct c m kDeclaration d"
  "valid_fields c n fs \<Longrightarrow> require_resolution c \<Longrightarrow> i \<in> \<Union>(set (map field_refs fs)) \<Longrightarrow>
     \<exists>d m. Find (catalogue c) i = Some d \<and> m < n \<and> valid_struct c m kDeclaration d"
  by (induction rule: valid_inducts) (auto intro: less_SucI)

lemma check_identities_iff:
  "check_identities ds earlier = Inr () \<longleftrightarrow>
     (\<forall>d \<in> set ds. \<exists>i. type_id (header d) = Some i \<and> i \<noteq> 0) \<and>
     distinct (map (\<lambda>d. type_id (header d)) ds) \<and> (\<lambda>d. type_id (header d)) ` set ds \<inter> set earlier = {}"
proof (induction ds earlier rule: check_identities.induct)
  case (2 d ds earlier)
  show ?case
  proof (cases "type_id (header d)")
    case (Some i)
    then have "check_identities (d # ds) earlier = Inr () \<longleftrightarrow>
        i \<noteq> 0 \<and> Some i \<notin> set earlier \<and> check_identities ds (earlier @ [Some i]) = Inr ()" by simp
    also have "\<dots> \<longleftrightarrow> i \<noteq> 0 \<and> Some i \<notin> set earlier \<and>
        (\<forall>d \<in> set ds. \<exists>i. type_id (header d) = Some i \<and> i \<noteq> 0) \<and>
        distinct (map (\<lambda>d. type_id (header d)) ds) \<and>
        (\<lambda>d. type_id (header d)) ` set ds \<inter> set (earlier @ [Some i]) = {}"
      using 2 Some by auto
    finally show ?thesis using Some by auto
  qed simp
qed simp

lemma distinct_Some: "distinct (map Some xs) = distinct xs"
  by (simp add: distinct_map)

lemma Find_declared:
  assumes "check_identities ds [] = Inr ()" "d \<in> set ds"
  shows "Find ds (declared_id d) = Some d" "declared_id d \<noteq> 0"
proof -
  from assms obtain i where i: "type_id (header d) = Some i" "i \<noteq> 0" by (auto simp: check_identities_iff)
  have "distinct (map (\<lambda>d. type_id (header d)) ds)" using assms(1) by (simp add: check_identities_iff)
  with assms(2) i(1) have "find (\<lambda>e. type_id (header e) = Some i) ds = Some d"
  proof (induction ds)
    case (Cons e ds)
    then show ?case by (cases "d = e") (auto simp: image_iff eq_commute)
  qed simp
  with i show "Find ds (declared_id d) = Some d" "declared_id d \<noteq> 0" by (simp_all add: Find_def declared_id_def)
qed

lemma Find_in: "Find ds i = Some d \<Longrightarrow> d \<in> set ds \<and> declared_id d = i"
  by (auto simp: Find_def declared_id_def find_Some_iff split: if_splits)

lemma walk_of_simps [simp]: "catalogue (walk_of ds) = ds" "require_resolution (walk_of ds)" "\<not> persistent (walk_of ds)"
  by (simp_all add: walk_of_def)

text \<open>An accepted catalogue is well formed, and no declaration contains itself.\<close>

definition refers :: "struct_type_proto list \<Rightarrow> (nat \<times> nat) set" where
  "refers ds = {(i, j). \<exists>d. Find ds j = Some d \<and> i \<in> struct_refs d}"

lemma validate_declarations:
  assumes "check_identities ds [] = Inr ()" "set xs \<subseteq> set ds" "memo_ok (walk_of ds) w"
    "foldR (validate_declaration (walk_of ds)) xs w = Inr w'"
  shows "\<forall>d \<in> set xs. \<exists>n. valid_struct (walk_of ds) n kDeclaration d"
  using assms(2-4)
proof (induction xs arbitrary: w)
  case (Cons d xs)
  from Cons.prems(3) obtain w2 where w2: "validate_declaration (walk_of ds) d w = Inr w2"
    "foldR (validate_declaration (walk_of ds)) xs w2 = Inr w'" by auto
  then obtain w1 where w1: "ValidateStructType (walk_of ds) 0 d kDeclaration (w\<lparr>active := [declared_id d]\<rparr>) = Inr w1"
    "foldR (validate_declaration (walk_of ds)) xs (store_validated (declared_id d) w1) = Inr w'"
    unfolding validate_declaration_def by auto
  have "memo_ok (walk_of ds) (w\<lparr>active := [declared_id d]\<rparr>)"
    using Cons.prems(2) by (simp add: memo_ok_def entry_def)
  from walk_valid_sound(2) [OF this w1(1)]
  have v: "memo_ok (walk_of ds) w1" "\<exists>n. valid_struct (walk_of ds) n kDeclaration d" by auto
  have "memo_ok (walk_of ds) (store_validated (declared_id d) w1)"
    by (rule memo_ok_store) (use v Find_declared [OF assms(1), of d] Cons.prems(1) in auto)
  with Cons.IH [OF _ this w1(2)] Cons.prems(1) v(2) show ?case by simp
qed simp

text \<open>C6: An accepted catalogue is well typed: its identities are nonzero and distinct, every declaration is
  valid by the rules, all references resolve inside the catalogue, and no declaration contains itself,
  directly or through others, since the relation of references is well founded.\<close>

theorem accepted_catalogue:
  assumes "Build ds = Inr ds'"
  shows "ds' = ds \<and> distinct (map declared_id ds) \<and> 0 \<notin> set (map declared_id ds) \<and>
    (\<forall>d \<in> set ds. (\<exists>n. valid_struct (walk_of ds) n kDeclaration d) \<and>
       struct_refs d \<subseteq> set (map declared_id ds)) \<and> wf (refers ds)"
proof -
  from assms [unfolded Build_def bindR_eq_Inr] obtain w
    where ids: "check_identities ds [] = Inr ()" and ds': "ds' = ds"
    and w: "foldR (validate_declaration (walk_of ds)) ds empty_walk = Inr w"
    by (metis (full_types) old.unit.exhaust sum.inject(2))
  have v: "\<forall>d \<in> set ds. \<exists>n. valid_struct (walk_of ds) n kDeclaration d"
    by (rule validate_declarations [OF ids subset_refl _ w]) (simp add: memo_ok_def empty_walk_def entry_def)
  define level where "level i = (LEAST n. \<exists>d. Find ds i = Some d \<and> valid_struct (walk_of ds) n kDeclaration d)" for i
  have smaller: "\<exists>e. Find ds i = Some e \<and> level i < level (declared_id d)"
    if "d \<in> set ds" "i \<in> struct_refs d" for i d
  proof -
    from that(1) v Find_declared(1) [OF ids]
    have "\<exists>n. \<exists>e. Find ds (declared_id d) = Some e \<and> valid_struct (walk_of ds) n kDeclaration e" by blast
    from LeastI_ex [OF this] have "valid_struct (walk_of ds) (level (declared_id d)) kDeclaration d"
      using Find_declared(1) [OF ids that(1)] by (simp add: level_def)
    from valid_refs(2) [OF this _ that(2)] obtain e m where e: "Find ds i = Some e" "m < level (declared_id d)"
      "valid_struct (walk_of ds) m kDeclaration e" by auto
    then have "level i \<le> m" unfolding level_def by (blast intro: Least_le)
    with e show ?thesis by auto
  qed
  have "refers ds \<subseteq> measure level"
  proof (clarify, unfold in_measure)
    fix i j assume "(i, j) \<in> refers ds"
    then obtain d where d: "Find ds j = Some d" "i \<in> struct_refs d" by (auto simp: refers_def)
    with smaller [of d i] Find_in [OF d(1)] show "level i < level j" by auto
  qed
  then have "wf (refers ds)" by (rule wf_subset [OF wf_measure])
  moreover have "distinct (map declared_id ds)"
  proof -
    have "distinct (map (\<lambda>d. type_id (header d)) ds)" using ids by (simp add: check_identities_iff)
    moreover have "map (\<lambda>d. type_id (header d)) ds = map Some (map declared_id ds)"
      using ids by (auto simp: check_identities_iff declared_id_def)
    ultimately show ?thesis by (metis distinct_Some)
  qed
  moreover have "struct_refs d \<subseteq> set (map declared_id ds)" if "d \<in> set ds" for d
    using smaller [OF that] Find_in by fastforce
  moreover have "0 \<notin> set (map declared_id ds)" using Find_declared(2) [OF ids] by fastforce
  ultimately show ?thesis using v ds' by auto
qed

lemma foldR_validate:
  assumes "check_identities ds [] = Inr ()" "set xs \<subseteq> set ds"
    "\<forall>d \<in> set ds. \<exists>n \<le> kMaxStructTypeDepth. valid_struct (walk_of ds) n kDeclaration d"
  shows "\<exists>w'. foldR (validate_declaration (walk_of ds)) xs w = Inr w'"
  using assms(2)
proof (induction xs arbitrary: w)
  case (Cons d xs)
  then have d: "d \<in> set ds" by simp
  define k where "k = (LEAST k. valid_struct (walk_of ds) k kDeclaration d)"
  from d assms(3) obtain n where n: "n \<le> kMaxStructTypeDepth" "valid_struct (walk_of ds) n kDeclaration d" by blast
  then have k: "valid_struct (walk_of ds) k kDeclaration d" "k \<le> kMaxStructTypeDepth"
    unfolding k_def by (auto intro: LeastI Least_le order_trans)
  have "above_valid (walk_of ds) k (w\<lparr>active := [declared_id d]\<rparr>)"
    using Find_declared [OF assms(1) d] by (auto simp: above_valid_def k_def intro: Least_le)
  with walk_valid_complete(2) [of "walk_of ds" k _ 0 kDeclaration d] k obtain w1 where
    "ValidateStructType (walk_of ds) 0 d kDeclaration (w\<lparr>active := [declared_id d]\<rparr>) = Inr w1" by auto
  with Cons show ?case by (simp add: validate_declaration_def)
qed simp

theorem catalogue_accepted:
  assumes "distinct (map declared_id ds)" "0 \<notin> set (map declared_id ds)"
    "\<forall>d \<in> set ds. \<exists>n \<le> kMaxStructTypeDepth. valid_struct (walk_of ds) n kDeclaration d"
  shows "Build ds = Inr ds"
proof -
  have some: "type_id (header d) = Some (declared_id d)" if "d \<in> set ds" for d
    using assms(2) that by (auto simp: declared_id_def split: option.splits) force
  then have "map (\<lambda>d. type_id (header d)) ds = map Some (map declared_id ds)" by simp
  then have "distinct (map (\<lambda>d. type_id (header d)) ds)" using assms(1) by (metis distinct_Some)
  with some assms(2) have "check_identities ds [] = Inr ()" by (fastforce simp: check_identities_iff)
  with foldR_validate [OF this subset_refl assms(3), of empty_walk] show ?thesis by (auto simp: Build_def)
qed

section \<open>The order of the declarations\<close>

text \<open>
  A chain of declarations, each an array of one element of the one before.  Declared before its
  use, each is accepted at once, since the one it refers to is already validated; declared after
  its use, the walk expands the whole chain and meets the depth limit.
\<close>

definition no_header :: struct_header where
  "no_header = \<lparr>type_id = None, has_decoder = False, has_encoder = False, has_name = False,
     has_doc_string = False, has_metadata = False\<rparr>"

definition chain_link :: "nat \<Rightarrow> struct_type_proto" where
  "chain_link i = StructTypeProto (no_header\<lparr>type_id := Some (Suc i)\<rparr>)
     (if i = 0 then BitPackingKind [(''code'', 8)] 1
      else ArrayKind (Some (StructType (StructTypeProto no_header (TypeRefKind i)))) 1)"

abbreviation declaration_chain :: "nat \<Rightarrow> struct_type_proto list" where "declaration_chain n \<equiv> map chain_link [0..<n]"

lemma chain_identity [simp]: "type_id (header (chain_link i)) = Some (Suc i)" "declared_id (chain_link i) = Suc i"
  by (simp_all add: chain_link_def declared_id_def)

lemma chain_identities: "check_identities (declaration_chain n) [] = Inr ()"
  by (auto simp: check_identities_iff distinct_map inj_on_def comp_def)

lemma chain_step:
  assumes "i < n" "i \<noteq> 0 \<longrightarrow> memo_validated (entry w i)"
  shows "validate_declaration (walk_of (declaration_chain n)) (chain_link i) w =
    Inr (store_validated (Suc i) (w\<lparr>active := [Suc i]\<rparr>))"
proof -
  have "Find (declaration_chain n) i = Some (chain_link (i - 1))" if "i \<noteq> 0"
    using Find_declared(1) [OF chain_identities, of "chain_link (i - 1)" n] assms(1) that by simp
  moreover have "entry (w\<lparr>active := [Suc i]\<rparr>) j = entry w j" for j by (simp add: entry_def)
  ultimately show ?thesis
    using assms(2)
    by (simp add: validate_declaration_def chain_link_def identity_allowed_def ValidateBitPacking_iff
        valid_packing_def no_header_def bare_header_def expanding_def kMaxStructTypeDepth_def
        declared_id_def)
qed

lemma chain_walk:
  assumes "m \<le> n"
  shows "\<exists>w. foldR (validate_declaration (walk_of (declaration_chain n))) (declaration_chain m) empty_walk = Inr w \<and>
    (\<forall>i \<in> {1..m}. memo_validated (entry w i))"
  using assms
proof (induction m)
  case (Suc m)
  then obtain w where w: "foldR (validate_declaration (walk_of (declaration_chain n))) (declaration_chain m) empty_walk = Inr w"
    "\<forall>i \<in> {1..m}. memo_validated (entry w i)" by auto
  moreover have "validate_declaration (walk_of (declaration_chain n)) (chain_link m) w =
      Inr (store_validated (Suc m) (w\<lparr>active := [Suc m]\<rparr>))"
    by (rule chain_step) (use Suc.prems w(2) in auto)
  moreover have "memo_validated (entry (store_validated (Suc m) (w\<lparr>active := [Suc m]\<rparr>)) i)" if "i \<in> {1..Suc m}" for i
    using that w(2) by (cases "i = Suc m") (auto simp: entry_def store_validated_def)
  ultimately show ?case by (simp add: foldR_append)
qed simp

text \<open>A catalogue that holds the links of a chain, in any order.\<close>

definition chain_catalogue :: "nat \<Rightarrow> struct_type_proto list \<Rightarrow> bool" where
  "chain_catalogue n cat \<longleftrightarrow> check_identities cat [] = Inr () \<and> set cat = set (declaration_chain n)"

lemma Find_link: "chain_catalogue n cat \<Longrightarrow> i < n \<Longrightarrow> Find cat (Suc i) = Some (chain_link i)"
  using Find_declared(1) [of cat "chain_link i"] by (simp add: chain_catalogue_def)

lemma reversed_chain: "chain_catalogue n (rev (declaration_chain n))"
  by (auto simp: chain_catalogue_def check_identities_iff rev_map distinct_map inj_on_def comp_def)

text \<open>Every link is one reference and one level of types deeper than the one before.\<close>

lemma valid_link: "chain_catalogue n cat \<Longrightarrow> i < n \<Longrightarrow> valid_struct (walk_of cat) (2 * i) kDeclaration (chain_link i)"
proof (induction i)
  case 0
  show ?case
    by (simp add: chain_link_def valid_simps identity_allowed_def valid_packing_def no_header_def)
next
  case (Suc i)
  then show ?case
    using Find_link [of n cat i]
    by (simp add: chain_link_def [of "Suc i"] valid_simps identity_allowed_def no_header_def bare_header_def)
qed

text \<open>Where nothing below a link is validated, the walk descends to the depth limit.\<close>

lemma deep_chain:
  assumes "chain_catalogue n cat"
  shows "i < n \<Longrightarrow> d \<le> kMaxStructTypeDepth \<Longrightarrow> kMaxStructTypeDepth < d + 2 * i \<Longrightarrow>
    \<forall>j \<le> i. \<not> expanding w j \<and> \<not> memo_validated (entry w j) \<Longrightarrow>
    ValidateStructType (walk_of cat) d (chain_link i) kDeclaration w = Inl InvalidArgument"
proof (induction i arbitrary: d w)
  case (Suc i)
  have "\<forall>j \<le> i. \<not> expanding (push_active (Suc i) w) j \<and> \<not> memo_validated (entry (push_active (Suc i) w) j)"
    using Suc.prems(4) by (auto simp: expanding_def)
  with Suc.IH [of "d + 2" "push_active (Suc i) w"] Suc.prems
  have rest: "d + 2 \<le> kMaxStructTypeDepth \<Longrightarrow>
      ValidateStructType (walk_of cat) (d + 2) (chain_link i) kDeclaration (push_active (Suc i) w) = Inl InvalidArgument"
    by simp
  show ?case
    using Suc.prems Find_link [OF assms, of i] rest
    by (simp add: chain_link_def [of "Suc i"] identity_allowed_def no_header_def bare_header_def enforce_def)
qed simp

text \<open>C40: The verdict on a catalogue depends on the order of its declarations.  A chain in which each declaration
  is an array of one element of the one before is accepted at any length when each declaration precedes its
  use.  The same declarations in the opposite order are accepted up to 33 of them and rejected for every
  larger number, because the walk then counts two levels for each link against its depth limit of 64.\<close>

theorem build_depends_on_order:
  "Build (declaration_chain n) = Inr (declaration_chain n) \<and>
   Build (rev (declaration_chain n)) = (if n \<le> 33 then Inr (rev (declaration_chain n)) else Inl InvalidArgument)"
proof
  let ?cat = "rev (declaration_chain n)"
  show "Build (declaration_chain n) = Inr (declaration_chain n)"
    using chain_walk [of n n] by (auto simp: Build_def chain_identities)
  show "Build ?cat = (if n \<le> 33 then Inr ?cat else Inl InvalidArgument)"
  proof (cases "n \<le> 33")
    case True
    have "\<exists>k \<le> kMaxStructTypeDepth. valid_struct (walk_of ?cat) k kDeclaration d" if "d \<in> set ?cat" for d
    proof -
      from that obtain i where i: "i < n" "d = chain_link i" by auto
      with True have "2 * i \<le> kMaxStructTypeDepth" by (simp add: kMaxStructTypeDepth_def)
      with valid_link [OF reversed_chain i(1)] i(2) show ?thesis by blast
    qed
    moreover have "distinct (map declared_id ?cat)" "0 \<notin> set (map declared_id ?cat)"
      by (auto simp: rev_map distinct_map inj_on_def)
    ultimately show ?thesis using catalogue_accepted [of ?cat] True by simp
  next
    case False
    then obtain k where n: "n = Suc k" by (cases n) auto
    have "ValidateStructType (walk_of ?cat) 0 (chain_link k) kDeclaration (empty_walk\<lparr>active := [Suc k]\<rparr>) =
        Inl InvalidArgument"
      by (rule deep_chain [OF reversed_chain])
        (use False in \<open>auto simp: n kMaxStructTypeDepth_def expanding_def entry_def empty_walk_def\<close>)
    with False show ?thesis
      using reversed_chain [of n]
      by (simp add: Build_def chain_catalogue_def n validate_declaration_def)
  qed
qed

lemma accepted_catalogue_witness:
  "distinct (map declared_id (declaration_chain 3)) \<and> wf (refers (declaration_chain 3))"
proof -
  have "Build (declaration_chain 3) = Inr (declaration_chain 3)" by code_simp
  from accepted_catalogue [OF this] show ?thesis by blast
qed

end
