(* ===== verification/EncodedValues.thy ===== *)
theory EncodedValues
  imports StructTypes Decimal
begin

unbundle bit_operations_syntax

text \<open>
  Encoded values and paged caches, from \<open>onnx_proto/src/onnx_verify.cc\<close>: the location of a payload,
  the affine layout with its parameters, the structured layout, and the pages of a cache.
\<close>

section \<open>Payload locations\<close>

text \<open>The path of an external file, with the rules of \<open>std::filesystem\<close> for POSIX paths.\<close>

fun split_path :: "string \<Rightarrow> string list" where
  "split_path [] = [[]]"
| "split_path (ch # rest) =
     (if ch = CHR ''/'' then [] # split_path rest
      else (case split_path rest of [] \<Rightarrow> [[ch]] | part # parts \<Rightarrow> (ch # part) # parts))"

definition IsSafeExternalDataLocation :: "string \<Rightarrow> bool" where
  "IsSafeExternalDataLocation location \<longleftrightarrow>
     (let parts = split_path location;
          named = filter (\<lambda>part. part \<noteq> '''' \<and> part \<noteq> ''.'') parts
      in location \<noteq> '''' \<and> ''..'' \<notin> set parts \<and> hd location \<noteq> CHR ''/'' \<and>
         named \<noteq> [] \<and> length named \<le> 2 \<and> last parts \<noteq> '''' \<and> last parts \<noteq> ''.'')"

definition FindExternalEntry :: "string_entry list \<Rightarrow> string \<Rightarrow> string option option" where
  "FindExternalEntry entries key = map_option snd (find (\<lambda>e. fst e = Some key) entries)"

fun validate_keys :: "string_entry list \<Rightarrow> string option list \<Rightarrow> unit res" where
  "validate_keys [] earlier = Inr ()"
| "validate_keys ((key, value) # entries) earlier =
     enforce (case key of None \<Rightarrow> False | Some k \<Rightarrow> k \<noteq> '''') (
     enforce (key \<notin> set earlier) (validate_keys entries (earlier @ [key])))"

definition ValidateExternalKeys :: "string_entry list \<Rightarrow> unit res" where
  "ValidateExternalKeys entries = validate_keys entries []"

definition text_of :: "string option \<Rightarrow> string" where
  "text_of t = (case t of None \<Rightarrow> '''' | Some text \<Rightarrow> text)"

text \<open>\<open>std::from_chars\<close> for an unsigned number, with all characters consumed.\<close>

definition ParseExternalInteger :: "string option option \<Rightarrow> nat option" where
  "ParseExternalInteger found =
     (case found of
        None \<Rightarrow> None
      | Some t \<Rightarrow> if text_of t \<noteq> '''' \<and> list_all isdigit (text_of t) \<and> read_nat (text_of t) \<le> u64_max
          then Some (read_nat (text_of t)) else None)"

text \<open>The payload size and whether the payload is external.\<close>

definition ValidatePayloadLocation :: "encoded_value \<Rightarrow> (nat \<times> bool) res" where
  "ValidatePayloadLocation v =
     (let entries = encoded_external v; raw = encoded_raw v in
      enforce (\<not> (has_span raw \<and> entries \<noteq> [])) (
        if encoded_location v \<noteq> Some EXTERNAL then
          enforce (entries = []) (enforce (span_size raw = 0 \<or> has_span raw) (Inr (span_size raw, False)))
        else
          enforce (\<not> has_span raw) (
          bindR (ValidateExternalKeys entries) (\<lambda>_.
          enforce (case FindExternalEntry entries ''location'' of None \<Rightarrow> False
                   | Some t \<Rightarrow> text_of t \<noteq> '''' \<and> IsSafeExternalDataLocation (text_of t)) (
          case ParseExternalInteger (FindExternalEntry entries ''length'') of
            None \<Rightarrow> Inl InvalidArgument
          | Some bytes \<Rightarrow>
              (case FindExternalEntry entries ''offset'' of
                 None \<Rightarrow> Inr (bytes, True)
               | Some t \<Rightarrow>
                   (case ParseExternalInteger (Some t) of
                      None \<Rightarrow> Inl InvalidArgument
                    | Some parsed_offset \<Rightarrow>
                        (case CheckedAdd parsed_offset bytes of
                           None \<Rightarrow> Inl InvalidArgument
                         | Some stop \<Rightarrow> enforce (int stop \<le> i64_max) (Inr (bytes, True))))))))))"

section \<open>The affine layout\<close>

definition ConcreteDims :: "tensor_type \<Rightarrow> nat list res" where
  "ConcreteDims t = enforce (tensor_shape t \<noteq> None) (
     mapR (\<lambda>d. case dim_value d of None \<Rightarrow> Inl InvalidArgument
       | Some v \<Rightarrow> enforce (v \<ge> 0) (Inr (nat v))) (shape_dims t))"

definition ParameterDims :: "tensor_proto \<Rightarrow> nat list res" where
  "ParameterDims t = mapR (\<lambda>d. enforce (d \<ge> 0) (Inr (nat d))) (tensor_dims t)"

definition blocked_dims :: "nat list \<Rightarrow> nat \<Rightarrow> nat \<Rightarrow> nat list" where
  "blocked_dims logical_dims ax size_of_block =
     logical_dims[ax := ceil_div (logical_dims ! ax) size_of_block]"

definition affine_axis :: "affine_layout \<Rightarrow> nat list \<Rightarrow> nat" where
  "affine_axis affine logical_dims = (case axis affine of None \<Rightarrow> 0
     | Some declared \<Rightarrow> nat (if declared < 0 then declared + int (length logical_dims) else declared))"

definition ValidateAffineParameterShape :: "affine_layout \<Rightarrow> nat list \<Rightarrow> nat list \<Rightarrow> unit res" where
  "ValidateAffineParameterShape affine logical_dims scale_dims =
     (case axis affine of
        None \<Rightarrow> enforce (scale_dims = []) (Inr ())
      | Some declared \<Rightarrow>
          let rank = int (length logical_dims); ax = affine_axis affine logical_dims in
          enforce (rank > 0 \<and> declared \<ge> - rank \<and> declared < rank) (
            case block_size affine of
              None \<Rightarrow> enforce (length scale_dims = 1) (
                     enforce (scale_dims ! 0 = logical_dims ! ax) (Inr ()))
            | Some bs \<Rightarrow> enforce (length scale_dims = length logical_dims) (
                     enforce (scale_dims = blocked_dims logical_dims ax bs) (Inr ()))))"

definition parameter_extent :: "tensor_proto \<Rightarrow> nat \<Rightarrow> (nat \<times> nat) res" where
  "parameter_extent t elements =
     (let ty = data_type t in
      if has_span (raw_data t) then
        bindR (checked_times elements (FixedBitWidth ty)) (\<lambda>bits.
          Inr (span_size (raw_data t), CeilBytes bits))
      else if ty = FLOAT then Inr (length (float_data t), elements)
      else if ty = DOUBLE then Inr (length (double_data t), elements)
      else if ty \<in> {UINT4, INT4} then Inr (length (int32_data t), ceil_div elements 8)
      else if ty \<in> {UINT2, INT2} then Inr (length (int32_data t), ceil_div elements 16)
      else Inr (length (int32_data t), elements))"

definition ValidateAffineParameterPayload :: "tensor_proto \<Rightarrow> unit res" where
  "ValidateAffineParameterPayload t =
     bindR (unsigned_count (tensor_dims t)) (\<lambda>elements.
     bindR (parameter_extent t elements) (\<lambda>(stored, expected).
     enforce (stored = expected) (Inr ())))"

definition logical_elements :: "nat list \<Rightarrow> nat res" where
  "logical_elements = (\<lambda>dims. foldR (\<lambda>d n. checked_times n d) dims 1)"

text \<open>The storage type, given or inferred from the size of the payload.\<close>

definition affine_storage :: "affine_layout \<Rightarrow> nat \<Rightarrow> nat \<Rightarrow> DataType res" where
  "affine_storage affine elements payload =
     (case storage_type affine of
        Some storage \<Rightarrow> enforce (IsAffineStorageType storage) (Inr storage)
      | None \<Rightarrow>
          let signedness = (case signed_storage affine of None \<Rightarrow> 0 | Some s \<Rightarrow> s);
              two = payload = elements div 4 + (if elements mod 4 \<noteq> 0 then 1 else 0);
              four = payload = elements div 2 + elements mod 2;
              eight = payload = elements
          in enforce (signedness = 0 \<or> signedness = 1) (
             enforce (length (filter id [two, four, eight]) = 1) (
               Inr (if two then (if signedness \<noteq> 0 then INT2 else UINT2)
                    else if four then (if signedness \<noteq> 0 then INT4 else UINT4)
                    else (if signedness \<noteq> 0 then INT8 else UINT8)))))"

definition zero_point_valid :: "affine_layout \<Rightarrow> DataType \<Rightarrow> nat list \<Rightarrow> unit res" where
  "zero_point_valid affine storage scale_dims =
     (case zero_point affine of
        None \<Rightarrow> Inr ()
      | Some z \<Rightarrow>
          bindR (VerifyTensor z) (\<lambda>_.
          enforce (data_type z = storage) (
          bindR (ValidateAffineParameterPayload z) (\<lambda>_.
          bindR (ParameterDims z) (\<lambda>zero_point_dims.
          enforce (zero_point_dims = scale_dims) (Inr ()))))))"

definition padding_clear :: "byte_span \<Rightarrow> bool \<Rightarrow> nat \<Rightarrow> nat \<Rightarrow> nat \<Rightarrow> bool" where
  "padding_clear raw is_external width elements expected \<longleftrightarrow>
     (let codes_per_byte = 8 div width in
      \<not> is_external \<and> width < 8 \<and> elements mod codes_per_byte \<noteq> 0 \<and> expected > 0 \<longrightarrow>
      unused_bits_clear (span_byte raw (expected - 1)) (elements mod codes_per_byte * width))"

record encoded_layout =
  layout_root :: "struct_type_proto option"
  layout_storage :: DataType
  element_bits :: nat
  payload_bytes :: nat
  record_count :: nat
  layout_external :: bool
  unresolved_reference :: bool
  content_verified :: bool

definition initial_layout :: "nat \<times> bool \<Rightarrow> encoded_layout" where
  "initial_layout = (\<lambda>(bytes, is_external). \<lparr>layout_root = None, layout_storage = UNDEFINED,
     element_bits = 0, payload_bytes = bytes, record_count = 0, layout_external = is_external,
     unresolved_reference = False, content_verified = \<not> is_external\<rparr>)"

definition logical_tensor :: "encoded_value \<Rightarrow> tensor_type res" where
  "logical_tensor v = (case logical_type v of Some (TensorType t) \<Rightarrow> Inr t | _ \<Rightarrow> Inl InvalidArgument)"

definition ValidateAffineLayout ::
    "encoded_value \<Rightarrow> affine_layout \<Rightarrow> encoded_layout \<Rightarrow> encoded_layout res" where
  "ValidateAffineLayout v affine lay =
     enforce ((storage_type affine \<noteq> None) \<noteq> (signed_storage affine \<noteq> None)) (
       case affine_scale affine of
         None \<Rightarrow> Inl InvalidArgument
       | Some scale \<Rightarrow>
           bindR (VerifyTensor scale) (\<lambda>_.
           enforce (IsFloatingType (data_type scale)) (
           bindR (ValidateAffineParameterPayload scale) (\<lambda>_.
           enforce (case block_size affine of None \<Rightarrow> True | Some bs \<Rightarrow> axis affine \<noteq> None \<and> bs > 0) (
           bindR (logical_tensor v) (\<lambda>logical.
           enforce (defined_elem_type logical) (
           bindR (ConcreteDims logical) (\<lambda>logical_dims.
           bindR (logical_elements logical_dims) (\<lambda>elements.
           bindR (affine_storage affine elements (payload_bytes lay)) (\<lambda>storage.
           bindR (ParameterDims scale) (\<lambda>scale_dims.
           bindR (ValidateAffineParameterShape affine logical_dims scale_dims) (\<lambda>_.
           bindR (zero_point_valid affine storage scale_dims) (\<lambda>_.
           bindR (checked_times elements (FixedBitWidth storage)) (\<lambda>bits.
             let width = FixedBitWidth storage; expected = CeilBytes bits in
             enforce (payload_bytes lay = expected) (
             enforce (padding_clear (encoded_raw v) (layout_external lay) width elements expected) (
               Inr (lay\<lparr>layout_storage := storage, element_bits := width, record_count := elements\<rparr>)))))))))))))))))"

section \<open>Encoded values\<close>

definition layout_settings :: "struct_type_proto list \<Rightarrow> bool \<Rightarrow> walk_settings" where
  "layout_settings cat required = \<lparr>catalogue = cat, persistent = False, require_resolution = required\<rparr>"

definition unresolved :: "struct_type_proto list \<Rightarrow> struct_type_proto \<Rightarrow> bool" where
  "unresolved cat s \<longleftrightarrow> (case kind s of TypeRefKind identity \<Rightarrow> Find cat identity = None | _ \<Rightarrow> False)"

definition ValidateStructLayout ::
    "struct_type_proto list \<Rightarrow> encoded_value \<Rightarrow> struct_type_proto \<Rightarrow> bool \<Rightarrow> encoded_layout \<Rightarrow> encoded_layout res" where
  "ValidateStructLayout cat v declared required lay =
     bindR (ValidateStructType (layout_settings cat required) 0 declared kEncodedLayout empty_walk) (\<lambda>_.
       if \<not> required \<and> unresolved cat declared then Inr (lay\<lparr>unresolved_reference := True\<rparr>)
       else bindR (Resolve cat declared) (\<lambda>root.
            bindR (case logical_type v of None \<Rightarrow> Inr () | Some T \<Rightarrow> ValidateType cat T) (\<lambda>_.
              case IsByteEncodable cat root of
                None \<Rightarrow> Inl InvalidArgument
              | Some element_bytes \<Rightarrow>
                  enforce (payload_bytes lay mod element_bytes = 0) (
                    Inr (lay\<lparr>layout_root := Some root, element_bits := element_bytes * 8,
                             record_count := payload_bytes lay div element_bytes\<rparr>)))))"

definition ValidateEncodedValue ::
    "struct_type_proto list \<Rightarrow> encoded_value \<Rightarrow> bool \<Rightarrow> encoded_layout res" where
  "ValidateEncodedValue cat v required =
     enforce (layout v \<noteq> NoLayout) (
     enforce (case parameter_ref v of None \<Rightarrow> True
              | Some p \<Rightarrow> p \<noteq> '''' \<and> (case layout v of StructLayout s \<Rightarrow> True | _ \<Rightarrow> False) \<and>
                  logical_type v \<noteq> None) (
     bindR (ValidatePayloadLocation v) (\<lambda>location.
       case layout v of
         AffineLayout affine \<Rightarrow> ValidateAffineLayout v affine (initial_layout location)
       | StructLayout s \<Rightarrow> ValidateStructLayout cat v s required (initial_layout location)
       | NoLayout \<Rightarrow> Inl InvalidArgument)))"

end
