(* ===== verification/EncodedSound.thy ===== *)
theory EncodedSound
  imports EncodedValues
begin

text \<open>
  What an accepted encoded value guarantees.  For the affine layout: every code of the logical
  tensor lies in the payload, within one byte; the bits of the payload after the last code are
  zero; and every code has a scale.
\<close>

lemma checked_times_iff: "checked_times a b = Inr m \<longleftrightarrow> a * b \<le> u64_max \<and> m = a * b"
  by (auto simp: checked_times_def CheckedMultiply_exact)

lemma logical_elements_prod: "logical_elements dims = Inr n \<Longrightarrow> n = prod_list dims"
proof -
  have "foldR (\<lambda>d n. checked_times n d) dims a = Inr n \<Longrightarrow> n = a * prod_list dims" for a
    by (induction dims arbitrary: a) (auto simp: checked_times_iff simp flip: mult.assoc)
  from this [of 1] show "logical_elements dims = Inr n \<Longrightarrow> n = prod_list dims"
    by (simp add: logical_elements_def)
qed

lemma affine_storage_type: "affine_storage a n p = Inr s \<Longrightarrow> IsAffineStorageType s"
  by (auto simp: affine_storage_def IsAffineStorageType_def Let_def split: option.splits if_splits)

lemma affine_width: "IsAffineStorageType s \<Longrightarrow> FixedBitWidth s \<in> {2, 4, 8}"
  by (auto simp: IsAffineStorageType_def FixedBitWidth_def)

text \<open>A code is inside one byte, and that byte is inside the payload.\<close>

lemma code_in_payload:
  assumes "w \<in> {2, 4, 8}" "i < n" "p = CeilBytes (n * w)"
  shows "i * w div 8 < p" "i * w mod 8 + w \<le> 8"
proof -
  have "i * w + w \<le> n * w" using assms(2) by (metis add.commute mult_Suc mult_le_mono1 Suc_leI)
  moreover have "n * w \<le> 8 * p" unfolding assms(3) by (rule CeilBytes_ceil)
  moreover have "0 < w" using assms(1) by auto
  ultimately have "i * w < p * 8" by linarith
  then show "i * w div 8 < p" by (simp add: less_mult_imp_div_less)
  show "i * w mod 8 + w \<le> 8" using assms(1) by (auto, presburger+)
qed

lemma unused_bits_zero:
  assumes "unused_bits_clear b k" "k \<le> j" "j < 8"
  shows "\<not> bit b j"
proof
  assume "bit b j"
  moreover have "(0xFF :: 8 word) = - 1" by simp
  then have "bit (push_bit k (0xFF :: 8 word)) j"
    using assms(2, 3) by (simp only: bit_push_bit_iff bit_minus_1_iff possible_bit_word) simp
  ultimately have "bit (b AND push_bit k 0xFF) j" by (simp add: bit_and_iff)
  with assms(1) show False by (simp add: unused_bits_clear_def)
qed

text \<open>Per tensor there is one scale, per axis one for each index of the axis, in blocks one for each block.\<close>

definition scale_index :: "affine_layout \<Rightarrow> nat list \<Rightarrow> nat list \<Rightarrow> nat list" where
  "scale_index affine logical_dims idx =
     (case axis affine of
        None \<Rightarrow> []
      | Some _ \<Rightarrow>
          let ax = affine_axis affine logical_dims
          in (case block_size affine of None \<Rightarrow> [idx ! ax] | Some bs \<Rightarrow> idx[ax := idx ! ax div bs]))"

lemma div_less_ceil:
  assumes "0 < b" "i < n"
  shows "i div b < ceil_div n b"
proof -
  have n: "n = n div b * b + n mod b" by simp
  have "n mod b \<le> (if n mod b = 0 then 0 else b)" using assms(1) by (simp add: less_imp_le)
  with n have "n \<le> n div b * b + (if n mod b = 0 then 0 else b)" by linarith
  then have "n \<le> ceil_div n b * b" by (simp add: ceil_div_def add.commute split: if_splits)
  with assms(2) have "i < ceil_div n b * b" by (rule less_le_trans)
  then show ?thesis by (rule less_mult_imp_div_less)
qed

lemma scale_in_bounds:
  assumes "ValidateAffineParameterShape affine logical_dims scale_dims = Inr ()"
    "block_size affine \<noteq> Some 0" "list_all2 (<) idx logical_dims"
  shows "list_all2 (<) (scale_index affine logical_dims idx) scale_dims"
proof (cases "axis affine")
  case None
  with assms(1) show ?thesis by (simp add: ValidateAffineParameterShape_def scale_index_def)
next
  case (Some declared)
  define ax where "ax = affine_axis affine logical_dims"
  have ax: "ax < length logical_dims"
    using assms(1) Some by (auto simp: ValidateAffineParameterShape_def ax_def affine_axis_def Let_def)
  have len: "length idx = length logical_dims" using assms(3) by (rule list_all2_lengthD)
  have lt: "idx ! i < logical_dims ! i" if "i < length logical_dims" for i
    using assms(3) len that by (auto simp: list_all2_conv_all_nth)
  show ?thesis
  proof (cases "block_size affine")
    case None
    then have "length scale_dims = 1" "scale_dims ! 0 = logical_dims ! ax"
      using assms(1) Some by (simp_all add: ValidateAffineParameterShape_def ax_def Let_def)
    then have "scale_dims = [logical_dims ! ax]" by (cases scale_dims) auto
    with None Some lt [OF ax] show ?thesis by (simp add: scale_index_def ax_def)
  next
    case bs: (Some bs)
    with assms(1) Some have "scale_dims = logical_dims[ax := ceil_div (logical_dims ! ax) bs]"
      by (simp add: ValidateAffineParameterShape_def ax_def blocked_dims_def Let_def)
    moreover have "idx ! ax div bs < ceil_div (logical_dims ! ax) bs"
      by (rule div_less_ceil) (use assms(2) bs lt ax in auto)
    moreover have "scale_index affine logical_dims idx = idx[ax := idx ! ax div bs]"
      using Some bs by (simp add: scale_index_def ax_def Let_def)
    ultimately show ?thesis
      using len lt ax by (auto simp: list_all2_conv_all_nth nth_list_update)
  qed
qed

text \<open>The parts of an accepted affine value.\<close>

lemma accepted_affine:
  assumes "ValidateEncodedValue cat v r = Inr lay" "layout v = AffineLayout affine"
  obtains t dims scale_dims where
    "logical_tensor v = Inr t" "ConcreteDims t = Inr dims" "record_count lay = prod_list dims"
    "IsAffineStorageType (layout_storage lay)" "element_bits lay = FixedBitWidth (layout_storage lay)"
    "payload_bytes lay = CeilBytes (record_count lay * element_bits lay)"
    "padding_clear (encoded_raw v) (layout_external lay) (element_bits lay) (record_count lay) (payload_bytes lay)"
    "layout_external lay \<or> payload_bytes lay = span_size (encoded_raw v)"
    "block_size affine \<noteq> Some 0"
    "ValidateAffineParameterShape affine dims scale_dims = Inr ()"
    "bindR (case affine_scale affine of None \<Rightarrow> Inl InvalidArgument | Some s \<Rightarrow> Inr s) ParameterDims = Inr scale_dims"
proof -
  from assms obtain loc where loc: "ValidatePayloadLocation v = Inr loc"
    and a: "ValidateAffineLayout v affine (initial_layout loc) = Inr lay"
    by (auto simp: ValidateEncodedValue_def)
  then obtain scale t dims elements scale_dims storage where
    h: "affine_scale affine = Some scale" "case block_size affine of None \<Rightarrow> True | Some bs \<Rightarrow> axis affine \<noteq> None \<and> bs > 0"
      "logical_tensor v = Inr t" "ConcreteDims t = Inr dims" "logical_elements dims = Inr elements"
      "affine_storage affine elements (payload_bytes (initial_layout loc)) = Inr storage"
      "ParameterDims scale = Inr scale_dims"
      "ValidateAffineParameterShape affine dims scale_dims = Inr ()"
    and b: "checked_times elements (FixedBitWidth storage) = Inr (elements * FixedBitWidth storage)"
      "payload_bytes (initial_layout loc) = CeilBytes (elements * FixedBitWidth storage)"
      "padding_clear (encoded_raw v) (layout_external (initial_layout loc)) (FixedBitWidth storage) elements
         (CeilBytes (elements * FixedBitWidth storage))"
      "lay = initial_layout loc\<lparr>layout_storage := storage, element_bits := FixedBitWidth storage, record_count := elements\<rparr>"
    by (auto simp: ValidateAffineLayout_def Let_def checked_times_iff split: option.splits)
  have "layout_external (initial_layout loc) \<or> payload_bytes (initial_layout loc) = span_size (encoded_raw v)"
    using loc by (auto simp: ValidatePayloadLocation_def initial_layout_def Let_def split: if_splits option.splits)
  with h b logical_elements_prod [OF h(5)] affine_storage_type [OF h(6)] that [of t dims scale_dims]
  show ?thesis by (auto split: option.splits)
qed

text \<open>The bits of the payload after the last code are zero.\<close>

lemma padding_zero:
  assumes "padding_clear raw False w n p" "w \<in> {2, 4, 8}" "p = CeilBytes (n * w)"
    "n * w \<le> j" "j < 8 * p"
  shows "\<not> bit (span_byte raw (j div 8)) (j mod 8)"
proof -
  have w: "w dvd 8" "0 < w" using assms(2) by auto
  define r where "r = n * w mod 8"
  have r: "r = n mod (8 div w) * w"
  proof -
    have "n * w mod (8 div w * w) = n mod (8 div w) * w" by (rule mod_mult_mult2)
    with w show ?thesis by (simp add: r_def)
  qed
  have jp: "n * w < 8 * p" using assms(4, 5) by simp
  have "r \<noteq> 0"
  proof
    assume "r = 0"
    then have "8 * p = n * w" using assms(3) by (auto simp: CeilBytes_def r_def mult.commute mod_eq_0_iff_dvd)
    with jp show False by simp
  qed
  moreover have "w \<noteq> 8" using \<open>r \<noteq> 0\<close> by (auto simp: r_def)
  moreover have p: "p = n * w div 8 + 1" using \<open>r \<noteq> 0\<close> assms(3) by (simp add: CeilBytes_def r_def)
  ultimately have clear: "unused_bits_clear (span_byte raw (p - 1)) r"
    using assms(1, 2) r by (auto simp: padding_clear_def Let_def)
  have "n * w = n * w div 8 * 8 + r" by (simp add: r_def)
  with assms(4, 5) p have jd: "j div 8 = p - 1" by linarith
  have "j = j div 8 * 8 + j mod 8" by simp
  with jd p assms(4) \<open>n * w = n * w div 8 * 8 + r\<close> have "r \<le> j mod 8" by linarith
  with jd unused_bits_zero [OF clear] show ?thesis by simp
qed

text \<open>C19: An accepted quantized value can be decoded without leaving its data.  Its code count is the product
  of the logical dimensions, every code lies inside one byte of the payload, the bits after the last
  code of an inline payload are zero, and every logical index has its scale within the shape of the
  scale tensor, per tensor, per axis or per block.\<close>

theorem affine_value_in_bounds:
  assumes "ValidateEncodedValue cat v required = Inr lay" "layout v = AffineLayout affine"
    "affine_scale affine = Some scale"
  shows "\<exists>t dims scale_dims. logical_tensor v = Inr t \<and> ConcreteDims t = Inr dims \<and>
    ParameterDims scale = Inr scale_dims \<and> record_count lay = prod_list dims \<and>
    (\<forall>i < record_count lay. i * element_bits lay div 8 < payload_bytes lay \<and>
       i * element_bits lay mod 8 + element_bits lay \<le> 8) \<and>
    (\<not> layout_external lay \<longrightarrow> payload_bytes lay = span_size (encoded_raw v) \<and>
       (\<forall>j. record_count lay * element_bits lay \<le> j \<longrightarrow> j < 8 * payload_bytes lay \<longrightarrow>
            \<not> bit (span_byte (encoded_raw v) (j div 8)) (j mod 8))) \<and>
    (\<forall>idx. list_all2 (<) idx dims \<longrightarrow> list_all2 (<) (scale_index affine dims idx) scale_dims)"
proof -
  from assms(1, 2) obtain t dims scale_dims where
    h: "logical_tensor v = Inr t" "ConcreteDims t = Inr dims" "record_count lay = prod_list dims"
    "IsAffineStorageType (layout_storage lay)" "element_bits lay = FixedBitWidth (layout_storage lay)"
    "payload_bytes lay = CeilBytes (record_count lay * element_bits lay)"
    "padding_clear (encoded_raw v) (layout_external lay) (element_bits lay) (record_count lay) (payload_bytes lay)"
    "layout_external lay \<or> payload_bytes lay = span_size (encoded_raw v)" "block_size affine \<noteq> Some 0"
    "ValidateAffineParameterShape affine dims scale_dims = Inr ()"
    "bindR (case affine_scale affine of None \<Rightarrow> Inl InvalidArgument | Some s \<Rightarrow> Inr s) ParameterDims = Inr scale_dims"
    by (rule accepted_affine)
  have w: "element_bits lay \<in> {2, 4, 8}" using h(4, 5) affine_width by simp
  have codes: "i * element_bits lay div 8 < payload_bytes lay \<and> i * element_bits lay mod 8 + element_bits lay \<le> 8"
    if "i < record_count lay" for i
    using code_in_payload [OF w that h(6)] by blast
  have padding: "payload_bytes lay = span_size (encoded_raw v) \<and>
      (\<forall>j. record_count lay * element_bits lay \<le> j \<longrightarrow> j < 8 * payload_bytes lay \<longrightarrow>
           \<not> bit (span_byte (encoded_raw v) (j div 8)) (j mod 8))" if "\<not> layout_external lay"
    using padding_zero [OF _ w h(6)] h(7, 8) that by auto
  have "ParameterDims scale = Inr scale_dims" using h(11) assms(3) by simp
  with h(1-3) codes padding scale_in_bounds [OF h(10, 9)] show ?thesis by blast
qed

definition int4_layout :: affine_layout where
  "int4_layout = \<lparr>storage_type = Some INT4, affine_scale = Some (blank_tensor\<lparr>tensor_dims := [2], float_data := [1, 1]\<rparr>),
     zero_point = None, axis = Some 0, block_size = Some 2, signed_storage = None\<rparr>"

definition int4_value :: encoded_value where
  "int4_value = \<lparr>encoded_name = ''w'', layout = AffineLayout int4_layout,
     logical_type = Some (TensorType \<lparr>tensor_elem_type = Some FLOAT,
       tensor_shape = Some [\<lparr>dim_value = Some 3, dim_param = None\<rparr>]\<rparr>),
     encoded_raw = Byte_span [0x21, 0x03], encoded_external = [], encoded_location = None, parameter_ref = None\<rparr>"

lemma int4_accepted:
  "ValidateEncodedValue [] int4_value True = Inr \<lparr>layout_root = None, layout_storage = INT4, element_bits = 4,
     payload_bytes = 2, record_count = 3, layout_external = False, unresolved_reference = False, content_verified = True\<rparr>"
proof -
  have scale: "VerifyTensor (blank_tensor\<lparr>tensor_dims := [2], float_data := [1, 1]\<rparr>) = Inr ()"
    by code_simp
  show ?thesis
    by (simp add: ValidateEncodedValue_def int4_value_def int4_layout_def ValidatePayloadLocation_def Let_def
      ValidateAffineLayout_def scale initial_layout_def)
     (simp add: blank_tensor_def IsFloatingType_def ValidateAffineParameterPayload_def unsigned_count_def
      parameter_extent_def checked_times_def CheckedMultiply_def u64_max_def logical_tensor_def
      defined_elem_type_def elem_type_def ConcreteDims_def shape_dims_def logical_elements_def affine_storage_def
      IsAffineStorageType_def ParameterDims_def ValidateAffineParameterShape_def affine_axis_def blocked_dims_def
      ceil_div_def zero_point_valid_def FixedBitWidth_def CeilBytes_def padding_clear_def unused_bits_clear_def)
qed

lemma affine_value_in_bounds_witness:
  "\<not> bit (span_byte (encoded_raw int4_value) 1) 7"
proof -
  have "layout int4_value = AffineLayout int4_layout" by (simp add: int4_value_def)
  moreover have "affine_scale int4_layout = Some (blank_tensor\<lparr>tensor_dims := [2], float_data := [1, 1]\<rparr>)"
    by (simp add: int4_layout_def)
  ultimately show ?thesis
    using affine_value_in_bounds [OF int4_accepted] by (force dest!: spec [of _ 15])
qed

end
