(* ===== verification/Persistence.thy ===== *)
theory Persistence
  imports EncodedValues
begin

text \<open>
  Persistent values of a graph, from \<open>onnx_proto/src/onnx_verify.cc\<close>: the types a persistent value may
  have, the compatibility of the two ends of a binding, and the count of the uses of bound inputs.
  The two types that are compared belong to different messages, so their declarations are one
  object only when both are references to one catalogue entry.
\<close>

section \<open>Types of persistent values\<close>

definition ValidatePersistentType :: "struct_type_proto list \<Rightarrow> type_proto \<Rightarrow> unit res" where
  "ValidatePersistentType cat T =
     bindR (ValidateTypeProto \<lparr>catalogue = cat, persistent = True, require_resolution = True\<rparr> 0 T empty_walk)
       (\<lambda>_. Inr ())"

definition span_equal :: "byte_span \<Rightarrow> byte_span \<Rightarrow> bool" where
  "span_equal a b \<longleftrightarrow> span_size a = span_size b \<and>
     map (span_byte a) [0..<span_size a] = map (span_byte b) [0..<span_size b]"

definition SamePersistentConstant :: "tensor_proto \<Rightarrow> tensor_proto \<Rightarrow> bool" where
  "SamePersistentConstant a b \<longleftrightarrow> string_data a = string_data b \<and> data_type a = data_type b \<and>
     tensor_dims a = tensor_dims b \<and> span_equal (raw_data a) (raw_data b) \<and>
     float_data a = float_data b \<and> double_data a = double_data b \<and> int32_data a = int32_data b \<and>
     int64_data a = int64_data b \<and> uint64_data a = uint64_data b"

definition negative_dim :: "tensor_type \<Rightarrow> bool" where
  "negative_dim t \<longleftrightarrow> list_ex (\<lambda>d. case dim_value d of None \<Rightarrow> False | Some v \<Rightarrow> v < 0) (shape_dims t)"

definition compatible_dims :: "dimension list \<Rightarrow> dimension list \<Rightarrow> bool" where
  "compatible_dims ds es \<longleftrightarrow> length ds = length es \<and>
     list_all (\<lambda>(d, e). case (dim_value d, dim_value e) of (Some v, Some u) \<Rightarrow> v = u | _ \<Rightarrow> True) (zip ds es)"

definition compatible_tensors :: "tensor_type \<Rightarrow> tensor_type \<Rightarrow> bool" where
  "compatible_tensors a b \<longleftrightarrow> elem_type a = elem_type b \<and> \<not> negative_dim a \<and> \<not> negative_dim b \<and>
     (tensor_shape a = None \<or> tensor_shape b = None \<or> compatible_dims (shape_dims a) (shape_dims b))"

definition optional_type :: "type_proto option \<Rightarrow> type_proto" where
  "optional_type T = (case T of None \<Rightarrow> NoType | Some T' \<Rightarrow> T')"

definition has_codec :: "struct_type_proto \<Rightarrow> bool" where
  "has_codec s \<longleftrightarrow> has_decoder (header s) \<or> has_encoder (header s)"

definition same_reference :: "struct_type_proto \<Rightarrow> struct_type_proto \<Rightarrow> bool" where
  "same_reference s t \<longleftrightarrow> (case (kind s, kind t) of (TypeRefKind i, TypeRefKind j) \<Rightarrow> i = j | _ \<Rightarrow> False)"

text \<open>
  The comparison of two declarations, with the comparison of nested types as a parameter; the
  depth bounds the recursion.
\<close>

fun compatible_fields :: "(type_proto \<Rightarrow> type_proto \<Rightarrow> bool res) \<Rightarrow> field list \<Rightarrow> field list \<Rightarrow> bool res" where
  "compatible_fields compatible (Field n (TypeContent T) # fs) (Field m (TypeContent U) # gs) =
     (if n \<noteq> m then Inr False
      else bindR (compatible T U) (\<lambda>ok. if ok then compatible_fields compatible fs gs else Inr False))"
| "compatible_fields compatible (Field n (ConstantContent t) # fs) (Field m (ConstantContent u) # gs) =
     (if n \<noteq> m \<or> \<not> SamePersistentConstant t u then Inr False else compatible_fields compatible fs gs)"
| "compatible_fields compatible (Field n NoContent # fs) (Field m NoContent # gs) =
     (if n \<noteq> m then Inr False else compatible_fields compatible fs gs)"
| "compatible_fields compatible [] [] = Inr True"
| "compatible_fields compatible fs gs = Inr False"

definition compatible_kinds ::
    "(type_proto \<Rightarrow> type_proto \<Rightarrow> bool res) \<Rightarrow> struct_kind \<Rightarrow> struct_kind \<Rightarrow> bool res" where
  "compatible_kinds compatible k l =
     (case (k, l) of
        (NoKind, NoKind) \<Rightarrow> Inr True
      | (ArrayKind T n, ArrayKind U m) \<Rightarrow>
          if n \<noteq> m then Inr False else compatible (optional_type T) (optional_type U)
      | (BitPackingKind cs n, BitPackingKind ds m) \<Rightarrow> Inr (n = m \<and> cs = ds)
      | (StructureKind fs, StructureKind gs) \<Rightarrow>
          if length fs \<noteq> length gs then Inr False else compatible_fields compatible fs gs
      | _ \<Rightarrow> Inr False)"

definition compatible_declarations ::
    "(type_proto \<Rightarrow> type_proto \<Rightarrow> bool res) \<Rightarrow> bool \<Rightarrow> struct_type_proto \<Rightarrow> struct_type_proto \<Rightarrow> bool res" where
  "compatible_declarations compatible same_object a b =
     (if type_id (header a) \<noteq> type_id (header b) then Inr False
      else if type_id (header a) \<noteq> None \<and> same_object then Inr True
      else if has_codec a \<or> has_codec b then Inr False
      else compatible_kinds compatible (kind a) (kind b))"

fun CompatiblePersistentType :: "struct_type_proto list \<Rightarrow> nat \<Rightarrow> type_proto \<Rightarrow> type_proto \<Rightarrow> bool res" where
  "CompatiblePersistentType cat 0 left right = Inr False"
| "CompatiblePersistentType cat (Suc levels) left right =
     (case (left, right) of
        (TensorType a, TensorType b) \<Rightarrow> Inr (compatible_tensors a b)
      | (SequenceType T, SequenceType U) \<Rightarrow>
          CompatiblePersistentType cat levels (optional_type T) (optional_type U)
      | (StructType s, StructType t) \<Rightarrow>
          (case levels of
             0 \<Rightarrow> Inr False
           | Suc deeper \<Rightarrow>
               bindR (Resolve cat s) (\<lambda>a. bindR (Resolve cat t) (\<lambda>b.
                 compatible_declarations (CompatiblePersistentType cat deeper) (same_reference s t) a b)))
      | _ \<Rightarrow> Inr False)"

text \<open>The depths 0 to the maximum are \<open>kMaxStructTypeDepth + 1\<close> levels.\<close>

definition CompatiblePersistentTypes :: "struct_type_proto list \<Rightarrow> type_proto \<Rightarrow> type_proto \<Rightarrow> bool res" where
  "CompatiblePersistentTypes cat left right =
     bindR (ValidateType cat left) (\<lambda>_. bindR (ValidateType cat right) (\<lambda>_.
     CompatiblePersistentType cat (kMaxStructTypeDepth + 1) left right))"

text \<open>The same for declarations on their own; both are validated in one walk.\<close>

definition stand_alone_role :: "struct_type_proto \<Rightarrow> StructRole" where
  "stand_alone_role s = (if type_id (header s) \<noteq> None then kDeclaration else kNested)"

definition ValidatePersistentStructType :: "struct_type_proto list \<Rightarrow> struct_type_proto \<Rightarrow> unit res" where
  "ValidatePersistentStructType cat s =
     bindR (ValidateStructType \<lparr>catalogue = cat, persistent = True, require_resolution = True\<rparr> 0 s
              (stand_alone_role s) empty_walk) (\<lambda>_. Inr ())"

definition CompatiblePersistentStructTypes ::
    "struct_type_proto list \<Rightarrow> struct_type_proto \<Rightarrow> struct_type_proto \<Rightarrow> bool res" where
  "CompatiblePersistentStructTypes cat left right =
     bindR (ValidateStructType (walk_of cat) 0 left (stand_alone_role left) empty_walk) (\<lambda>w.
     bindR (ValidateStructType (walk_of cat) 0 right (stand_alone_role right) w) (\<lambda>_.
     bindR (Resolve cat left) (\<lambda>a. bindR (Resolve cat right) (\<lambda>b.
       compatible_declarations (CompatiblePersistentType cat kMaxStructTypeDepth) (same_reference left right) a b))))"

section \<open>The uses of bound inputs\<close>

type_synonym uses = "string \<rightharpoonup> nat"

definition count_use :: "string set \<Rightarrow> string \<Rightarrow> uses \<Rightarrow> uses" where
  "count_use shadowed name uses =
     (case uses name of
        None \<Rightarrow> uses
      | Some n \<Rightarrow> if name \<in> shadowed then uses else uses(name \<mapsto> Suc n))"

text \<open>The bound names that a nested graph defines itself.\<close>

definition defined_names :: "value_info list \<Rightarrow> tensor_proto list \<Rightarrow> sparse_tensor_proto list \<Rightarrow>
    extended_initializer list \<Rightarrow> node_proto list \<Rightarrow> string set res" where
  "defined_names ins inits sparse ext nodes =
     bindR (mapR extended_name ext) (\<lambda>ext_names.
       Inr (set (map info_name ins) \<union> set (map tensor_name inits) \<union>
            set (map (\<lambda>s. tensor_name (sparse_values s)) sparse) \<union> set ext_names \<union>
            set (concat (map n_output nodes))))"

primrec CountPersistentInputUses :: "graph_proto \<Rightarrow> bool \<Rightarrow> string set \<Rightarrow> uses \<Rightarrow> uses res"
  and count_node_uses :: "node_proto \<Rightarrow> string set \<Rightarrow> uses \<Rightarrow> uses res"
  and count_attribute_uses :: "attribute_proto \<Rightarrow> string set \<Rightarrow> uses \<Rightarrow> uses res" where
  "CountPersistentInputUses (GraphProto ins inits sparse ext nodes outs infos bindings) is_root shadowed uses =
     bindR (if is_root then Inr {} else defined_names ins inits sparse ext nodes) (\<lambda>here.
       let hidden = shadowed \<union> {name \<in> here. uses name \<noteq> None} in
       bindR (foldR (\<lambda>count. count hidden) (map count_node_uses nodes) uses) (\<lambda>uses'.
         Inr (fold (count_use hidden) (map info_name outs) uses')))"
| "count_node_uses (NodeProto op dm ovl ins outs attrs meta) shadowed uses =
     foldR (\<lambda>count. count shadowed) (map count_attribute_uses attrs) (fold (count_use shadowed) ins uses)"
| "count_attribute_uses (AttributeProto nm ref ty val g gs) shadowed uses =
     bindR (case map_option CountPersistentInputUses g of
              None \<Rightarrow> Inr uses | Some count \<Rightarrow> count False shadowed uses)
       (foldR (\<lambda>count. count False shadowed) (map CountPersistentInputUses gs))"

definition VerifyPersistentInputUses :: "graph_proto \<Rightarrow> unit res" where
  "VerifyPersistentInputUses g =
     (let bindings = g_persistent_bindings g in
      if bindings = [] then Inr ()
      else bindR (CountPersistentInputUses g True {} (\<lambda>name. if name \<in> set (map fst bindings) then Some 0 else None))
        (\<lambda>uses. eachR (\<lambda>binding. enforce (uses (fst binding) \<noteq> Some 0) (Inr ())) bindings))"

section \<open>Bindings\<close>

definition PersistentIOType :: "value_info list \<Rightarrow> string \<Rightarrow> type_proto res" where
  "PersistentIOType values name =
     (if name = '''' then Inl InvalidArgument
      else (case find (\<lambda>vi. info_name vi = name \<and> info_type vi \<noteq> None) values of
              Some vi \<Rightarrow> Inr (optional_type (info_type vi)) | None \<Rightarrow> Inl InvalidArgument))"

definition verify_binding ::
    "struct_type_proto list \<Rightarrow> graph_proto \<Rightarrow> string \<times> string \<Rightarrow> (string \<times> string) list \<Rightarrow> (string \<times> string) list res" where
  "verify_binding cat g = (\<lambda>(input_name, output_name) earlier.
     bindR (PersistentIOType (g_input g) input_name) (\<lambda>T.
     bindR (PersistentIOType (g_output g) output_name) (\<lambda>U.
     bindR (ValidatePersistentType cat T) (\<lambda>_.
     bindR (ValidatePersistentType cat U) (\<lambda>_.
     bindR (CompatiblePersistentTypes cat T U) (\<lambda>ok.
     enforce ok (
     enforce (input_name \<notin> set (map fst earlier) \<and> output_name \<notin> set (map snd earlier)) (
       Inr (earlier @ [(input_name, output_name)])))))))))"

definition VerifyPersistentBindings :: "struct_type_proto list option \<Rightarrow> graph_proto \<Rightarrow> bool \<Rightarrow> unit res" where
  "VerifyPersistentBindings struct_types g is_main_graph =
     (let bindings = g_persistent_bindings g;
          cat = (case struct_types of None \<Rightarrow> [] | Some c \<Rightarrow> c) in
      if bindings = [] then Inr ()
      else enforce is_main_graph (
           bindR (foldR (verify_binding cat g) bindings []) (\<lambda>_. VerifyPersistentInputUses g)))"

end
