(* ===== verification/PagedCaches.thy ===== *)
theory PagedCaches
  imports Persistence
begin

text \<open>
  \<open>ValidatePagedCache\<close> of \<open>onnx_proto/src/onnx_verify.cc\<close>: the pages of a cache cover a range of tokens
  without a gap, and their shapes agree with each other and with the declared type.
\<close>

section \<open>The declared type\<close>

definition structure_of :: "struct_type_proto list \<Rightarrow> type_proto \<Rightarrow> nat \<Rightarrow> field list res" where
  "structure_of cat T count =
     (case T of
        StructType s \<Rightarrow> bindR (Resolve cat s) (\<lambda>resolved.
          case kind resolved of
            StructureKind fs \<Rightarrow> enforce (length fs = count) (Inr fs) | _ \<Rightarrow> Inl InvalidArgument)
      | _ \<Rightarrow> Inl InvalidArgument)"

text \<open>A field of a page: its name, its element type and its rank.\<close>

definition page_field :: "field \<Rightarrow> string \<Rightarrow> bool \<Rightarrow> tensor_type res" where
  "page_field f name scalar =
     (case content f of
        TypeContent (TensorType t) \<Rightarrow>
          enforce (field_name f = name) (
          enforce (elem_type t = (if scalar then INT64 else FLOAT) \<and> tensor_shape t \<noteq> None \<and>
                   length (shape_dims t) = (if scalar then 0 else 4)) (
          enforce (scalar \<or> list_all (\<lambda>d. case dim_value d of None \<Rightarrow> True | Some v \<Rightarrow> v > 0)
                     (take 2 (shape_dims t))) (Inr t)))
      | _ \<Rightarrow> Inl InvalidArgument)"

definition page_tensors :: "field list \<Rightarrow> (tensor_type \<times> tensor_type) res" where
  "page_tensors fs =
     bindR (page_field (fs ! 0) ''start'' True) (\<lambda>_.
     bindR (page_field (fs ! 1) ''length'' True) (\<lambda>_.
     bindR (page_field (fs ! 2) ''key'' False) (\<lambda>k.
     bindR (page_field (fs ! 3) ''value'' False) (\<lambda>v. Inr (k, v)))))"

definition blocks_type :: "field list \<Rightarrow> type_proto res" where
  "blocks_type fs =
     enforce (length fs = 1) (
       case fs ! 0 of
         Field name (TypeContent (SequenceType (Some T))) \<Rightarrow> enforce (name = ''blocks'') (Inr T)
       | _ \<Rightarrow> Inl InvalidArgument)"

definition declared_pages ::
    "struct_type_proto list \<Rightarrow> type_proto option \<Rightarrow> (tensor_type \<times> tensor_type) option res" where
  "declared_pages cat declared_type =
     (case declared_type of
        None \<Rightarrow> Inr None
      | Some T \<Rightarrow>
          bindR (ValidatePersistentType cat T) (\<lambda>_.
          case T of
            StructType s \<Rightarrow>
              bindR (Resolve cat s) (\<lambda>root.
              case kind root of
                NoKind \<Rightarrow> Inr None
              | StructureKind fs \<Rightarrow>
                  bindR (blocks_type fs) (\<lambda>page_type.
                  bindR (structure_of cat page_type 4) (\<lambda>page.
                  bindR (page_tensors page) (\<lambda>pages. Inr (Some pages))))
              | _ \<Rightarrow> Inl InvalidArgument)
          | _ \<Rightarrow> Inl InvalidArgument))"

section \<open>The shape of a payload\<close>

definition dense_dims :: "tensor_proto \<Rightarrow> int list res" where
  "dense_dims t =
     enforce (data_type t \<in> {FLOAT, FLOAT16, BFLOAT16} \<and> length (tensor_dims t) = 4 \<and>
              external_data t = [] \<and> data_location t \<in> {None, Some DEFAULT}) (Inr (tensor_dims t))"

definition encoded_dims :: "struct_type_proto list \<Rightarrow> encoded_value \<Rightarrow> bool \<Rightarrow> int list res" where
  "encoded_dims cat v required =
     bindR (ValidateEncodedValue cat v required) (\<lambda>lay.
     enforce (\<not> layout_external lay) (
     bindR (logical_tensor v) (\<lambda>logical.
     enforce (elem_type logical = FLOAT \<and> length (shape_dims logical) = 4) (
       mapR (\<lambda>d. case dim_value d of
         None \<Rightarrow> Inl InvalidArgument | Some n \<Rightarrow> enforce (dim_param d = None) (Inr n)) (shape_dims logical)))))"

definition positive_count :: "int list \<Rightarrow> nat res" where
  "positive_count dims = foldR (\<lambda>d count.
     enforce (d > 0 \<and> nat d \<le> u64_max div count) (Inr (count * nat d))) dims 1"

text \<open>The values of the symbolic dimensions met so far.\<close>

type_synonym symbols = "string \<rightharpoonup> int"

definition bind_symbol :: "dimension \<times> int \<Rightarrow> symbols \<Rightarrow> symbols res" where
  "bind_symbol = (\<lambda>(d, n) symbols.
     enforce (case dim_value d of None \<Rightarrow> True | Some v \<Rightarrow> v = n) (
       case dim_param d of
         None \<Rightarrow> Inr symbols
       | Some p \<Rightarrow> if p = '''' then Inr symbols
           else (case symbols p of
                   None \<Rightarrow> Inr (symbols(p \<mapsto> n)) | Some m \<Rightarrow> enforce (m = n) (Inr symbols))))"

definition match_declared :: "tensor_type option \<Rightarrow> int list \<Rightarrow> symbols \<Rightarrow> symbols res" where
  "match_declared declared dims symbols =
     (case declared of
        None \<Rightarrow> Inr symbols
      | Some t \<Rightarrow> if tensor_shape t = None then Inr symbols
          else foldR bind_symbol (zip (shape_dims t) dims) symbols)"

definition dense_extent :: "tensor_proto \<Rightarrow> nat \<Rightarrow> unit res" where
  "dense_extent t count =
     bindR (VerifyTensor t) (\<lambda>_.
       let item_size = (if data_type t = FLOAT then 4 else 2) in
       enforce (count \<le> u64_max div item_size) (
       enforce (if has_span (raw_data t) then span_size (raw_data t) = count * item_size
                else if data_type t = FLOAT then length (float_data t) = count
                else length (int32_data t) = count) (Inr ())))"

definition page_shape ::
    "struct_type_proto list \<Rightarrow> bool \<Rightarrow> page_payload \<Rightarrow> tensor_type option \<Rightarrow> symbols \<Rightarrow> (int list \<times> symbols) res" where
  "page_shape cat required payload declared symbols =
     bindR (case payload of DensePayload t \<Rightarrow> dense_dims t | EncodedPayload v \<Rightarrow> encoded_dims cat v required
            | NoPayload \<Rightarrow> Inl InvalidArgument) (\<lambda>dims.
     bindR (positive_count dims) (\<lambda>count.
     bindR (match_declared declared dims symbols) (\<lambda>symbols'.
     bindR (case payload of DensePayload t \<Rightarrow> dense_extent t count | _ \<Rightarrow> Inr ()) (\<lambda>_.
     Inr (dims, symbols')))))"

section \<open>The pages\<close>

record cache_state =
  next_token :: int
  page_batch :: int
  page_heads :: int
  key_width :: int
  value_width :: int
  bound_symbols :: symbols

definition check_page ::
    "struct_type_proto list \<Rightarrow> bool \<Rightarrow> (tensor_type \<times> tensor_type) option \<Rightarrow> paged_block \<Rightarrow> cache_state \<Rightarrow> cache_state res" where
  "check_page cat required declared b st =
     (case (block_start b, block_length b) of
        (Some start, Some len) \<Rightarrow>
          enforce (start = next_token st \<and> len > 0 \<and> len \<le> i64_max - next_token st) (
          enforce (block_key b \<noteq> NoPayload \<and> block_value b \<noteq> NoPayload) (
          bindR (page_shape cat required (block_key b) (map_option fst declared) (bound_symbols st)) (\<lambda>(key, symbols).
          bindR (page_shape cat required (block_value b) (map_option snd declared) symbols) (\<lambda>(val, symbols').
          enforce (key ! 0 = val ! 0 \<and> key ! 1 = val ! 1 \<and> key ! 2 = val ! 2 \<and> len \<le> key ! 2 \<and>
                   (next_token st = 0 \<or> (key ! 0 = page_batch st \<and> key ! 1 = page_heads st \<and>
                      key ! 3 = key_width st \<and> val ! 3 = value_width st))) (
            Inr \<lparr>next_token = next_token st + len, page_batch = key ! 0, page_heads = key ! 1,
                 key_width = key ! 3, value_width = val ! 3, bound_symbols = symbols'\<rparr>)))))
      | _ \<Rightarrow> Inl InvalidArgument)"

definition no_pages :: cache_state where
  "no_pages = \<lparr>next_token = 0, page_batch = 0, page_heads = 0, key_width = 0, value_width = 0,
     bound_symbols = Map.empty\<rparr>"

definition ValidatePagedCache ::
    "struct_type_proto list \<Rightarrow> paged_cache \<Rightarrow> bool \<Rightarrow> type_proto option \<Rightarrow> unit res" where
  "ValidatePagedCache cat cache required declared_type =
     bindR (declared_pages cat declared_type) (\<lambda>declared.
     bindR (foldR (check_page cat required declared) (blocks cache) no_pages) (\<lambda>_. Inr ()))"

section \<open>The pages of an accepted cache\<close>

text \<open>Where a page starts and how many tokens it holds.\<close>

definition start_of :: "paged_block \<Rightarrow> int" where
  "start_of b = (case block_start b of None \<Rightarrow> 0 | Some s \<Rightarrow> s)"

definition length_of :: "paged_block \<Rightarrow> int" where
  "length_of b = (case block_length b of None \<Rightarrow> 0 | Some n \<Rightarrow> n)"

definition token_count :: "paged_cache \<Rightarrow> int" where
  "token_count cache = sum_list (map length_of (blocks cache))"

lemma check_page_step:
  assumes "check_page cat required declared b st = Inr st'"
  shows "start_of b = next_token st" "length_of b > 0" "next_token st' = next_token st + length_of b"
    "next_token st' \<le> i64_max"
proof -
  obtain start len where b: "block_start b = Some start" "block_length b = Some len"
    using assms by (cases "block_start b"; cases "block_length b") (simp_all add: check_page_def)
  from assms have start: "start = next_token st \<and> len > 0 \<and> len \<le> i64_max - next_token st"
    by (simp add: check_page_def b)
  from assms obtain key symbols val symbols' where p:
    "page_shape cat required (block_key b) (map_option fst declared) (bound_symbols st) = Inr (key, symbols)"
    "page_shape cat required (block_value b) (map_option snd declared) symbols = Inr (val, symbols')"
    by (simp add: check_page_def b) blast
  have "\<lparr>next_token = next_token st + len, page_batch = key ! 0, page_heads = key ! 1,
      key_width = key ! 3, value_width = val ! 3, bound_symbols = symbols'\<rparr> = st'"
    using assms unfolding check_page_def b p option.case prod.case bindR_simps enforce_Inr sum.inject by (elim conjE)
  then have "next_token st' = next_token st + len" by (rule subst) simp
  with start b show "start_of b = next_token st" "length_of b > 0" "next_token st' = next_token st + length_of b"
    "next_token st' \<le> i64_max" by (simp_all add: start_of_def length_of_def)
qed

lemma pages_tile:
  assumes "foldR (check_page cat required declared) bs st = Inr st'" "0 \<le> next_token st" "next_token st \<le> i64_max"
  shows "next_token st' = next_token st + sum_list (map length_of bs) \<and> next_token st' \<le> i64_max \<and>
    (\<forall>token. next_token st \<le> token \<and> token < next_token st' \<longrightarrow>
       (\<exists>!i. i < length bs \<and> start_of (bs ! i) \<le> token \<and> token < start_of (bs ! i) + length_of (bs ! i))) \<and>
    (\<forall>i < length bs. next_token st \<le> start_of (bs ! i))"
  using assms
proof (induction bs arbitrary: st)
  case (Cons b bs)
  then obtain st1 where st1: "check_page cat required declared b st = Inr st1"
    "foldR (check_page cat required declared) bs st1 = Inr st'" by auto
  note step = check_page_step [OF st1(1)]
  have ih: "next_token st' = next_token st1 + sum_list (map length_of bs)" "next_token st' \<le> i64_max"
    "\<And>token. next_token st1 \<le> token \<Longrightarrow> token < next_token st' \<Longrightarrow>
       \<exists>!i. i < length bs \<and> start_of (bs ! i) \<le> token \<and> token < start_of (bs ! i) + length_of (bs ! i)"
    "\<And>i. i < length bs \<Longrightarrow> next_token st1 \<le> start_of (bs ! i)"
    using Cons.IH [OF st1(2)] step Cons.prems(2) by auto
  show ?case
  proof (intro conjI allI impI)
    show "next_token st' = next_token st + sum_list (map length_of (b # bs))" using ih(1) step by simp
    show "next_token st' \<le> i64_max" by (fact ih(2))
    show "next_token st \<le> start_of ((b # bs) ! i)" if "i < length (b # bs)" for i
      using that ih(4) step by (cases i) force+
    fix token assume token: "next_token st \<le> token \<and> token < next_token st'"
    show "\<exists>!i. i < length (b # bs) \<and> start_of ((b # bs) ! i) \<le> token \<and>
        token < start_of ((b # bs) ! i) + length_of ((b # bs) ! i)"
    proof (cases "token < next_token st1")
      case True
      show ?thesis
      proof (rule ex1I [of _ 0])
        show "0 < length (b # bs) \<and> start_of ((b # bs) ! 0) \<le> token \<and>
            token < start_of ((b # bs) ! 0) + length_of ((b # bs) ! 0)"
          using True token step by simp
        fix i assume "i < length (b # bs) \<and> start_of ((b # bs) ! i) \<le> token \<and>
            token < start_of ((b # bs) ! i) + length_of ((b # bs) ! i)"
        then show "i = 0" using ih(4) [of "i - 1"] True by (cases i) auto
      qed
    next
      case False
      then have "\<exists>!i. i < length bs \<and> start_of (bs ! i) \<le> token \<and> token < start_of (bs ! i) + length_of (bs ! i)"
        using ih(3) token by (simp add: not_less)
      then obtain k where k: "k < length bs" "start_of (bs ! k) \<le> token" "token < start_of (bs ! k) + length_of (bs ! k)"
        and unique: "\<And>i. i < length bs \<Longrightarrow> start_of (bs ! i) \<le> token \<Longrightarrow>
          token < start_of (bs ! i) + length_of (bs ! i) \<Longrightarrow> i = k"
        by (elim ex1E) blast
      show ?thesis
      proof (rule ex1I [of _ "Suc k"])
        show "Suc k < length (b # bs) \<and> start_of ((b # bs) ! Suc k) \<le> token \<and>
            token < start_of ((b # bs) ! Suc k) + length_of ((b # bs) ! Suc k)" using k by simp
        fix i assume i: "i < length (b # bs) \<and> start_of ((b # bs) ! i) \<le> token \<and>
            token < start_of ((b # bs) ! i) + length_of ((b # bs) ! i)"
        with False step have "i \<noteq> 0" by (cases i) auto
        then obtain j where "i = Suc j" by (cases i) auto
        with i unique show "i = Suc k" by simp
      qed
    qed
  qed
next
  case Nil
  then have "st' = st" by simp
  then show ?case using Nil by auto
qed

text \<open>C20: The pages of an accepted cache tile its tokens: the number of tokens fits in 64 bits, and every
  token below it lies in exactly one page.\<close>

theorem every_token_has_one_page:
  assumes "ValidatePagedCache cat cache required declared_type = Inr ()"
  shows "token_count cache \<le> i64_max \<and>
    (\<forall>token. 0 \<le> token \<and> token < token_count cache \<longrightarrow>
       (\<exists>!i. i < length (blocks cache) \<and> start_of (blocks cache ! i) \<le> token \<and>
             token < start_of (blocks cache ! i) + length_of (blocks cache ! i)))"
proof -
  from assms obtain declared st where "foldR (check_page cat required declared) (blocks cache) no_pages = Inr st"
    by (auto simp: ValidatePagedCache_def)
  from pages_tile [OF this] show ?thesis by (simp add: no_pages_def token_count_def i64_defs)
qed

definition dense_page :: "int \<Rightarrow> int \<Rightarrow> paged_block" where
  "dense_page start len = \<lparr>block_start = Some start, block_length = Some len,
     block_key = DensePayload (blank_tensor\<lparr>tensor_dims := [1, 1, 2, 1], float_data := [1, 2]\<rparr>),
     block_value = DensePayload (blank_tensor\<lparr>tensor_dims := [1, 1, 2, 1], float_data := [3, 4]\<rparr>)\<rparr>"

definition two_pages :: paged_cache where
  "two_pages = \<lparr>cache_name = ''cache'', blocks = [dense_page 0 2, dense_page 2 1]\<rparr>"

lemma page_tensor_accepted: "VerifyTensor (blank_tensor\<lparr>tensor_dims := [1, 1, 2, 1], float_data := [a, b]\<rparr>) = Inr ()"
  by code_simp

lemma every_token_has_one_page_witness:
  "\<exists>!i. i < length (blocks two_pages) \<and> start_of (blocks two_pages ! i) \<le> 2 \<and>
     2 < start_of (blocks two_pages ! i) + length_of (blocks two_pages ! i)"
proof -
  have "ValidatePagedCache [] two_pages True None = Inr ()"
    by (simp add: ValidatePagedCache_def declared_pages_def two_pages_def check_page_def dense_page_def no_pages_def
      page_shape_def dense_dims_def positive_count_def match_declared_def dense_extent_def page_tensor_accepted)
     (simp add: blank_tensor_def i64_defs u64_max_def)
  moreover have "token_count two_pages = 3" by (simp add: token_count_def two_pages_def dense_page_def length_of_def)
  ultimately show ?thesis using every_token_has_one_page [of "[]" two_pages True None] by simp
qed

end
