(* ===== verification/PersistenceSound.thy ===== *)
theory PersistenceSound
  imports Persistence
begin

text \<open>
  What accepted persistent bindings are: a one-to-one pairing of graph inputs with graph outputs in
  which every bound input is read.  The count of uses that the verifier keeps with scopes and shadowed
  names is compared with the names a graph uses, given by recursion on the graph.
\<close>

section \<open>The names a graph uses\<close>

primrec graph_uses :: "graph_proto \<Rightarrow> string set"
  and node_uses :: "node_proto \<Rightarrow> string set"
  and attribute_uses :: "attribute_proto \<Rightarrow> string set" where
  "graph_uses (GraphProto ins inits sparse ext nodes outs infos bindings) =
     (\<Union>(set (map node_uses nodes)) \<union> set (map info_name outs)) -
     (case defined_names ins inits sparse ext nodes of Inl err \<Rightarrow> {} | Inr here \<Rightarrow> here)"
| "node_uses (NodeProto op dm ovl ins outs attrs meta) = set ins \<union> \<Union>(set (map attribute_uses attrs))"
| "attribute_uses (AttributeProto nm ref ty v g gs) =
     (case map_option graph_uses g of None \<Rightarrow> {} | Some used \<Rightarrow> used) \<union> \<Union>(set (map graph_uses gs))"

definition root_uses :: "graph_proto \<Rightarrow> string set" where
  "root_uses g = (\<Union>nd \<in> set (g_node g). node_uses nd) \<union> set (map info_name (g_output g))"

text \<open>Every extended initializer of a nested graph has a payload, and with it a name.\<close>

primrec named_graph :: "graph_proto \<Rightarrow> bool"
  and named_node :: "node_proto \<Rightarrow> bool"
  and named_attribute :: "attribute_proto \<Rightarrow> bool" where
  "named_graph (GraphProto ins inits sparse ext nodes outs infos bindings) =
     (EmptyInitializer \<notin> set ext \<and> list_all id (map named_node nodes))"
| "named_node (NodeProto op dm ovl ins outs attrs meta) = list_all id (map named_attribute attrs)"
| "named_attribute (AttributeProto nm ref ty v g gs) =
     ((case map_option named_graph g of None \<Rightarrow> True | Some ok \<Rightarrow> ok) \<and> list_all id (map named_graph gs))"

section \<open>Counting\<close>

text \<open>The counts grow, and exactly those of the given names by at least one.\<close>

definition counts :: "string set \<Rightarrow> uses \<Rightarrow> uses \<Rightarrow> bool" where
  "counts A s t \<longleftrightarrow> (\<forall>n. case s n of
     None \<Rightarrow> t n = None
   | Some k \<Rightarrow> (\<exists>k'. t n = Some k' \<and> k \<le> k' \<and> (k < k' \<longleftrightarrow> n \<in> A)))"

lemma counts_None: "counts A s t \<Longrightarrow> s n = None \<Longrightarrow> t n = None"
  unfolding counts_def by (drule spec [of _ n]) simp

lemma counts_Some:
  "counts A s t \<Longrightarrow> s n = Some k \<Longrightarrow> \<exists>k'. t n = Some k' \<and> k \<le> k' \<and> (k < k' \<longleftrightarrow> n \<in> A)"
  unfolding counts_def by (drule spec [of _ n]) simp

lemma countsI:
  assumes "\<And>n. s n = None \<Longrightarrow> t n = None"
    and "\<And>n k. s n = Some k \<Longrightarrow> \<exists>k'. t n = Some k' \<and> k \<le> k' \<and> (k < k' \<longleftrightarrow> n \<in> A)"
  shows "counts A s t"
  using assms by (simp add: counts_def split: option.splits)

lemma counts_refl [simp]: "counts {} s s"
  by (simp add: counts_def split: option.splits)



lemma counts_trans:
  assumes "counts A s t" "counts B t u"
  shows "counts (A \<union> B) s u"
proof (rule countsI)
  show "u n = None" if "s n = None" for n using counts_None [OF assms(2) counts_None [OF assms(1) that]] .
  fix n k assume "s n = Some k"
  from counts_Some [OF assms(1) this] obtain k1 where k1: "t n = Some k1" "k \<le> k1" "k < k1 \<longleftrightarrow> n \<in> A" by blast
  from counts_Some [OF assms(2) k1(1)] obtain k2 where k2: "u n = Some k2" "k1 \<le> k2" "k1 < k2 \<longleftrightarrow> n \<in> B" by blast
  have "k < k2 \<longleftrightarrow> n \<in> A \<union> B" using k1(2,3) k2(2,3) by force
  with k1(2) k2(1,2) show "\<exists>k'. u n = Some k' \<and> k \<le> k' \<and> (k < k' \<longleftrightarrow> n \<in> A \<union> B)" by auto
qed

lemma counts_cong: "counts A s t \<Longrightarrow> (\<And>n. s n \<noteq> None \<Longrightarrow> n \<in> A \<longleftrightarrow> n \<in> B) \<Longrightarrow> counts B s t"
proof (rule countsI)
  assume st: "counts A s t" and same: "\<And>n. s n \<noteq> None \<Longrightarrow> n \<in> A \<longleftrightarrow> n \<in> B"
  show "t n = None" if "s n = None" for n using counts_None [OF st that] .
  fix n k assume k: "s n = Some k"
  from counts_Some [OF st k] same [of n] k
  show "\<exists>k'. t n = Some k' \<and> k \<le> k' \<and> (k < k' \<longleftrightarrow> n \<in> B)" by (elim exE) simp
qed

lemma count_use_counts: "counts ({name} - hidden) s (count_use hidden name s)"
  by (auto simp: counts_def count_use_def split: option.splits)

lemma count_uses_counts: "counts (set names - hidden) s (fold (count_use hidden) names s)"
proof (induction names arbitrary: s)
  case (Cons name names)
  from counts_trans [OF count_use_counts [of name hidden s] Cons.IH] show ?case
    by (simp add: Un_Diff [symmetric])
qed simp

lemma foldR_counts:
  assumes "foldR (\<lambda>count. count hidden) (map c xs) s = Inr t"
    and "\<And>x s t. x \<in> set xs \<Longrightarrow> c x hidden s = Inr t \<Longrightarrow> counts (used x - hidden) s t"
  shows "counts ((\<Union>x \<in> set xs. used x) - hidden) s t"
  using assms
proof (induction xs arbitrary: s)
  case (Cons x xs)
  then obtain s1 where s1: "c x hidden s = Inr s1" "foldR (\<lambda>count. count hidden) (map c xs) s1 = Inr t" by auto
  have "counts (used x - hidden) s s1" by (rule Cons.prems(2) [OF _ s1(1)]) simp
  moreover have "counts ((\<Union>x \<in> set xs. used x) - hidden) s1 t" by (rule Cons.IH [OF s1(2)]) (simp add: Cons.prems(2))
  ultimately show ?case using counts_trans by (fastforce simp: Un_Diff)
qed simp

lemma foldR_progress:
  assumes "\<And>x s. x \<in> set xs \<Longrightarrow> \<exists>t. c x s = Inr t"
  shows "\<exists>t. foldR c xs s = Inr t"
  using assms
proof (induction xs arbitrary: s)
  case (Cons x xs)
  then obtain s1 where "c x s = Inr s1" by (metis list.set_intros(1))
  moreover from Cons have "\<exists>t. foldR c xs s1 = Inr t" by (simp add: Cons.IH)
  ultimately show ?case by simp
qed simp

text \<open>A count of a graph, a node or an attribute adds to the names it uses and that are not shadowed.\<close>

lemma uses_counted:
  "CountPersistentInputUses g False hidden s = Inr t \<Longrightarrow> counts (graph_uses g - hidden) s t"
  "count_node_uses nd hidden s = Inr t \<Longrightarrow> counts (node_uses nd - hidden) s t"
  "count_attribute_uses a hidden s = Inr t \<Longrightarrow> counts (attribute_uses a - hidden) s t"
proof (induction g and nd and a arbitrary: hidden s t and hidden s t and hidden s t)
  case (GraphProto ins inits sparse ext nodes outs infos bindings)
  from GraphProto.prems obtain here s1 where here: "defined_names ins inits sparse ext nodes = Inr here"
    and s1: "foldR (\<lambda>count. count (hidden \<union> {name \<in> here. s name \<noteq> None})) (map count_node_uses nodes) s = Inr s1"
    and t: "t = fold (count_use (hidden \<union> {name \<in> here. s name \<noteq> None})) (map info_name outs) s1"
    by (auto simp: Let_def)
  let ?hidden = "hidden \<union> {name \<in> here. s name \<noteq> None}"
  have "counts ((\<Union>nd \<in> set nodes. node_uses nd) - ?hidden) s s1"
    by (rule foldR_counts [OF s1]) (rule GraphProto.IH)
  from counts_trans [OF this count_uses_counts [of "map info_name outs" ?hidden s1]] show ?case
    unfolding t [symmetric] by (rule counts_cong) (auto simp: here)
next
  case (NodeProto op dm ovl ins outs attrs meta)
  have "counts ((\<Union>a \<in> set attrs. attribute_uses a) - hidden) (fold (count_use hidden) ins s) t"
    by (rule foldR_counts [where c = count_attribute_uses]) (use NodeProto in simp_all)
  from counts_trans [OF count_uses_counts [of ins hidden s] this] show ?case by (simp add: Un_Diff)
next
  case (AttributeProto nm ref ty v g gs)
  from AttributeProto.prems obtain s1 where
    s1: "(case map_option CountPersistentInputUses g of None \<Rightarrow> Inr s | Some count \<Rightarrow> count False hidden s) = Inr s1"
    and t: "foldR (\<lambda>count. count False hidden) (map CountPersistentInputUses gs) s1 = Inr t" by auto
  have "counts ((case map_option graph_uses g of None \<Rightarrow> {} | Some used \<Rightarrow> used) - hidden) s s1"
    using s1 AttributeProto.IH(1) by (cases g) auto
  moreover have "counts ((\<Union>h \<in> set gs. graph_uses h) - hidden) s1 t"
  proof (rule foldR_counts [where c = "\<lambda>h. CountPersistentInputUses h False"])
    show "foldR (\<lambda>count. count hidden) (map (\<lambda>h. CountPersistentInputUses h False) gs) s1 = Inr t"
      using t by (induction gs arbitrary: s1) auto
  qed (rule AttributeProto.IH(2))
  ultimately show ?case using counts_trans by (fastforce simp: Un_Diff)
qed

lemma mapR_extended_name: "EmptyInitializer \<notin> set ext \<longleftrightarrow> (\<exists>names. mapR extended_name ext = Inr names)"
proof (induction ext)
  case (Cons e ext)
  then show ?case by (cases e) auto
qed simp

lemma named_counts:
  "named_graph g \<Longrightarrow> \<exists>t. CountPersistentInputUses g root hidden s = Inr t"
  "named_node nd \<Longrightarrow> \<exists>t. count_node_uses nd hidden s = Inr t"
  "named_attribute a \<Longrightarrow> \<exists>t. count_attribute_uses a hidden s = Inr t"
proof (induction g and nd and a arbitrary: root hidden s and hidden s and hidden s)
  case (GraphProto ins inits sparse ext nodes outs infos bindings)
  then obtain here where here: "(if root then Inr {} else defined_names ins inits sparse ext nodes) = Inr here"
    by (cases root) (auto simp: defined_names_def mapR_extended_name)
  have "\<exists>t. foldR (\<lambda>count. count h) (map count_node_uses nodes) s = Inr t" for h
    by (rule foldR_progress) (use GraphProto in \<open>auto simp: list_all_iff\<close>)
  with here show ?case by (simp add: Let_def)
next
  case (NodeProto op dm ovl ins outs attrs meta)
  show ?case unfolding count_node_uses.simps
    by (rule foldR_progress) (use NodeProto in \<open>auto simp: list_all_iff\<close>)
next
  case (AttributeProto nm ref ty v g gs)
  have "\<exists>t. foldR (\<lambda>count. count False hidden) (map CountPersistentInputUses gs) s1 = Inr t" for s1
    by (rule foldR_progress) (use AttributeProto in \<open>auto simp: list_all_iff\<close>)
  moreover have "\<exists>s1. (case map_option CountPersistentInputUses g of None \<Rightarrow> Inr s
      | Some count \<Rightarrow> count False hidden s) = Inr s1"
    using AttributeProto by (cases g) auto
  ultimately show ?case by fastforce
qed

lemma root_counted:
  assumes "CountPersistentInputUses g True {} s = Inr t"
  shows "counts (root_uses g) s t"
proof (cases g)
  case (GraphProto ins inits sparse ext nodes outs infos bindings)
  with assms obtain s1 where s1: "foldR (\<lambda>count. count {}) (map count_node_uses nodes) s = Inr s1"
    and t: "t = fold (count_use {}) (map info_name outs) s1" by (auto simp: Let_def)
  have "counts ((\<Union>nd \<in> set nodes. node_uses nd) - {}) s s1"
    by (rule foldR_counts [OF s1]) (rule uses_counted(2))
  from counts_trans [OF this count_uses_counts [of "map info_name outs" "{}" s1]] show ?thesis
    by (simp add: root_uses_def GraphProto t)
qed

text \<open>The check of the uses, for a graph with bindings.\<close>

lemma input_uses_checked:
  assumes "VerifyPersistentInputUses g = Inr ()"
  shows "fst ` set (g_persistent_bindings g) \<subseteq> root_uses g"
proof (cases "g_persistent_bindings g = []")
  case False
  let ?start = "\<lambda>name. if name \<in> set (map fst (g_persistent_bindings g)) then Some 0 else None"
  from assms False obtain t where t: "CountPersistentInputUses g True {} ?start = Inr t"
    and ok: "\<forall>b \<in> set (g_persistent_bindings g). t (fst b) \<noteq> Some 0"
    by (auto simp: VerifyPersistentInputUses_def Let_def)
  show ?thesis
  proof
    fix name
    assume "name \<in> fst ` set (g_persistent_bindings g)"
    with ok have "t name \<noteq> Some 0" "?start name = Some 0" by auto
    with counts_Some [OF root_counted [OF t] this(2)] show "name \<in> root_uses g" by auto
  qed
qed simp

lemma input_uses_accepted:
  assumes "named_graph g" "fst ` set (g_persistent_bindings g) \<subseteq> root_uses g"
  shows "VerifyPersistentInputUses g = Inr ()"
proof (cases "g_persistent_bindings g = []")
  case False
  let ?start = "\<lambda>name. if name \<in> set (map fst (g_persistent_bindings g)) then Some 0 else None"
  obtain t where t: "CountPersistentInputUses g True {} ?start = Inr t"
    using named_counts(1) [OF assms(1)] by blast
  have "t (fst b) \<noteq> Some 0" if b: "b \<in> set (g_persistent_bindings g)" for b
  proof -
    have "?start (fst b) = Some 0" "fst b \<in> root_uses g" using b assms(2) by auto
    with counts_Some [OF root_counted [OF t] this(1)] show ?thesis by auto
  qed
  with False t show ?thesis by (auto simp: VerifyPersistentInputUses_def Let_def)
qed (simp add: VerifyPersistentInputUses_def)

section \<open>Bindings\<close>

lemma PersistentIOType_named:
  "PersistentIOType values name = Inr T \<Longrightarrow>
   name \<noteq> '''' \<and> (\<exists>vi \<in> set values. info_name vi = name \<and> info_type vi = Some T)"
  by (auto simp: PersistentIOType_def optional_type_def find_Some_iff set_conv_nth split: if_splits option.splits)

definition paired :: "graph_proto \<Rightarrow> (string \<times> string) list \<Rightarrow> bool" where
  "paired g bs \<longleftrightarrow> distinct (map fst bs) \<and> distinct (map snd bs) \<and>
     (\<forall>b \<in> set bs. \<exists>vi \<in> set (g_input g). \<exists>vo \<in> set (g_output g). info_name vi = fst b \<and> info_name vo = snd b \<and>
        fst b \<noteq> '''' \<and> snd b \<noteq> '''' \<and> info_type vi \<noteq> None \<and> info_type vo \<noteq> None)"

lemma verify_binding_step:
  assumes "verify_binding cat g b earlier = Inr later" "paired g earlier"
  shows "later = earlier @ [b] \<and> paired g later"
proof -
  obtain i out where b: "b = (i, out)" by fastforce
  from assms(1) obtain T U where T: "PersistentIOType (g_input g) i = Inr T"
    and U: "PersistentIOType (g_output g) out = Inr U" and new: "i \<notin> set (map fst earlier)" "out \<notin> set (map snd earlier)"
    and later: "later = earlier @ [b]" by (auto simp: verify_binding_def b)
  from PersistentIOType_named [OF T] PersistentIOType_named [OF U] new assms(2) show ?thesis
    unfolding later paired_def b by auto
qed

lemma verify_bindings_paired:
  assumes "foldR (verify_binding cat g) bs earlier = Inr later" "paired g earlier"
  shows "later = earlier @ bs \<and> paired g later"
  using assms
proof (induction bs arbitrary: earlier)
  case (Cons b bs)
  then obtain mid where mid: "verify_binding cat g b earlier = Inr mid" "foldR (verify_binding cat g) bs mid = Inr later"
    by auto
  with verify_binding_step [OF mid(1) Cons.prems(2)] Cons.IH [OF mid(2)] show ?case by auto
qed simp

text \<open>C21: Accepted persistent bindings make a state machine of the graph: they are on the root graph
  only, pair inputs with outputs one to one, every bound input name is that of a graph input declared
  with a type, every bound output name that of a graph output declared with a type, none of the names
  is empty, and every bound input is read, as a graph output, by a node, or inside nested graphs where
  no inner definition hides it.\<close>

theorem persistent_bindings_pair_up:
  assumes "VerifyPersistentBindings struct_types g is_main_graph = Inr ()"
  shows "distinct (map fst (g_persistent_bindings g)) \<and> distinct (map snd (g_persistent_bindings g)) \<and>
    (\<forall>b \<in> set (g_persistent_bindings g). fst b \<noteq> '''' \<and> snd b \<noteq> '''' \<and>
       (\<exists>vi \<in> set (g_input g). info_name vi = fst b \<and> info_type vi \<noteq> None) \<and>
       (\<exists>vo \<in> set (g_output g). info_name vo = snd b \<and> info_type vo \<noteq> None)) \<and>
    fst ` set (g_persistent_bindings g) \<subseteq> root_uses g \<and>
    (is_main_graph \<or> g_persistent_bindings g = [])"
proof (cases "g_persistent_bindings g = []")
  case False
  with assms obtain later where main: "is_main_graph"
    and later: "foldR (verify_binding (case struct_types of None \<Rightarrow> [] | Some c \<Rightarrow> c) g) (g_persistent_bindings g) [] = Inr later"
    and used: "VerifyPersistentInputUses g = Inr ()"
    by (auto simp: VerifyPersistentBindings_def Let_def)
  have "paired g []" by (simp add: paired_def)
  from verify_bindings_paired [OF later this] have "paired g (g_persistent_bindings g)" by auto
  with main input_uses_checked [OF used] show ?thesis unfolding paired_def by blast
qed simp

definition state_info :: "string \<Rightarrow> value_info" where
  "state_info name = \<lparr>info_name = name,
     info_type = Some (TensorType \<lparr>tensor_elem_type = Some FLOAT, tensor_shape = Some []\<rparr>)\<rparr>"

definition counter_graph :: graph_proto where
  "counter_graph = GraphProto [state_info ''before''] [] [] []
     [NodeProto ''Add'' '''' '''' [''before'', ''before''] [''after''] [] []]
     [state_info ''after''] [] [(''before'', ''after'')]"

lemma persistent_bindings_pair_up_witness:
  "''before'' \<in> root_uses counter_graph \<and>
   (\<exists>vi \<in> set (g_input counter_graph). info_name vi = ''before'' \<and> info_type vi \<noteq> None)"
proof -
  have "VerifyPersistentBindings (Some []) counter_graph True = Inr ()" by code_simp
  from persistent_bindings_pair_up [OF this] show ?thesis by (simp add: counter_graph_def)
qed

end
