(* ===== verification/VerifyGraph.thy ===== *)
theory VerifyGraph
  imports PagedCaches
begin

text \<open>
  The verification of graphs, functions, models and pipelines, from \<open>onnx_proto/src/onnx_verify.cc\<close>.
  The catalogue of structured types is an option, as the pointer to it may be null; so is the scope
  that encloses a graph.
\<close>

section \<open>Values\<close>

definition described_tensor :: "tensor_type \<Rightarrow> bool" where
  "described_tensor t \<longleftrightarrow> tensor_elem_type t \<noteq> None \<and> elem_type t \<noteq> UNDEFINED \<and> tensor_shape t \<noteq> None"

text \<open>The presence of a map's key type is not tested here: the field is always present.\<close>

definition described_type :: "type_proto \<Rightarrow> bool" where
  "described_type T \<longleftrightarrow>
     (case T of
        TensorType t \<Rightarrow> described_tensor t
      | SparseTensorType t \<Rightarrow> described_tensor t
      | SequenceType e \<Rightarrow> e \<noteq> None
      | OptionalType e \<Rightarrow> e \<noteq> None
      | MapType key v \<Rightarrow> v \<noteq> None
      | OpaqueType \<Rightarrow> True
      | StructType s \<Rightarrow> type_id (header s) = None \<and> kind s \<noteq> TypeRefKind 0
      | NoType \<Rightarrow> False)"

definition VerifyValueInfo :: "value_info \<Rightarrow> bool \<Rightarrow> unit res" where
  "VerifyValueInfo vi is_main_graph =
     enforce (info_name vi \<noteq> '''') (
       if \<not> is_main_graph then Inr ()
       else case info_type vi of
              None \<Rightarrow> Inl InvalidArgument
            | Some T \<Rightarrow> enforce (described_type T) (Inr ()))"

type_synonym catalogue_ptr = "struct_type_proto list option"

definition verify_type :: "catalogue_ptr \<Rightarrow> type_proto \<Rightarrow> unit res" where
  "verify_type struct_types T = (case struct_types of None \<Rightarrow> Inr () | Some cat \<Rightarrow> ValidateType cat T)"

definition verify_value_type :: "catalogue_ptr \<Rightarrow> value_info \<Rightarrow> unit res" where
  "verify_value_type struct_types vi =
     (case info_type vi of None \<Rightarrow> Inr () | Some T \<Rightarrow> verify_type struct_types T)"

section \<open>Attributes\<close>

definition num_set :: "attribute_value \<Rightarrow> 'g option \<Rightarrow> 'g list \<Rightarrow> nat" where
  "num_set v g gs = length (filter id
     [attr_f v \<noteq> None, attr_i v \<noteq> None, attr_s v \<noteq> None, attr_t v \<noteq> None, \<not> Option.is_none g,
      attr_sparse_tensor v \<noteq> None, attr_tp v \<noteq> None, attr_floats v \<noteq> [], attr_ints v \<noteq> [],
      attr_strings v \<noteq> [], attr_tensors v \<noteq> [], attr_sparse_tensors v \<noteq> [], \<not> List.null gs,
      attr_type_protos v \<noteq> []])"

text \<open>The value of an attribute that holds no graph.\<close>

definition verify_attribute_value :: "catalogue_ptr \<Rightarrow> AttributeType \<Rightarrow> attribute_value \<Rightarrow> unit res" where
  "verify_attribute_value struct_types ty v =
     (case ty of
        A_FLOAT \<Rightarrow> enforce (attr_f v \<noteq> None) (Inr ())
      | A_INT \<Rightarrow> enforce (attr_i v \<noteq> None) (Inr ())
      | A_STRING \<Rightarrow> enforce (attr_s v \<noteq> None) (Inr ())
      | A_TENSOR \<Rightarrow> (case attr_t v of None \<Rightarrow> Inl InvalidArgument | Some t \<Rightarrow> VerifyTensor t)
      | A_SPARSE_TENSOR \<Rightarrow>
          (case attr_sparse_tensor v of None \<Rightarrow> Inl InvalidArgument | Some s \<Rightarrow> VerifySparseTensor s)
      | A_TYPE_PROTO \<Rightarrow> (case attr_tp v of None \<Rightarrow> Inl InvalidArgument | Some T \<Rightarrow> verify_type struct_types T)
      | A_FLOATS \<Rightarrow> Inr ()
      | A_INTS \<Rightarrow> Inr ()
      | A_STRINGS \<Rightarrow> Inr ()
      | A_TYPE_PROTOS \<Rightarrow> eachR (verify_type struct_types) (attr_type_protos v)
      | A_TENSORS \<Rightarrow> eachR VerifyTensor (attr_tensors v)
      | A_SPARSE_TENSORS \<Rightarrow> eachR VerifySparseTensor (attr_sparse_tensors v)
      | _ \<Rightarrow> Inl InvalidArgument)"

section \<open>Scopes\<close>

text \<open>
  The names a graph defines so far with those of the enclosing scope, the names it defines itself,
  and the names of its initializers.
\<close>

record graph_scope =
  defined :: "string set"
  locally_defined :: "string set"
  initializer_names :: "string set"

definition start_scope :: "string set option \<Rightarrow> graph_scope" where
  "start_scope outer = \<lparr>defined = (case outer of None \<Rightarrow> {} | Some names \<Rightarrow> names),
     locally_defined = {}, initializer_names = {}\<rparr>"

definition register_input :: "catalogue_ptr \<Rightarrow> bool \<Rightarrow> value_info \<Rightarrow> graph_scope \<Rightarrow> graph_scope res" where
  "register_input struct_types is_main_graph vi st =
     bindR (VerifyValueInfo vi is_main_graph) (\<lambda>_.
     bindR (verify_value_type struct_types vi) (\<lambda>_.
     enforce (info_name vi \<notin> defined st) (
       Inr (st\<lparr>defined := insert (info_name vi) (defined st),
               locally_defined := insert (info_name vi) (locally_defined st)\<rparr>))))"

definition register_initializer :: "string set option \<Rightarrow> string \<Rightarrow> graph_scope \<Rightarrow> graph_scope res" where
  "register_initializer outer name st =
     enforce (name \<noteq> '''') (
     enforce (name \<notin> initializer_names st) (
     enforce (case outer of None \<Rightarrow> True | Some names \<Rightarrow> name \<notin> names) (
       Inr (st\<lparr>initializer_names := insert name (initializer_names st), defined := insert name (defined st),
               locally_defined := insert name (locally_defined st)\<rparr>))))"

definition register_dense :: "string set option \<Rightarrow> tensor_proto \<Rightarrow> graph_scope \<Rightarrow> graph_scope res" where
  "register_dense outer t st =
     bindR (register_initializer outer (tensor_name t) st) (\<lambda>st'. bindR (VerifyTensor t) (\<lambda>_. Inr st'))"

definition register_sparse :: "string set option \<Rightarrow> sparse_tensor_proto \<Rightarrow> graph_scope \<Rightarrow> graph_scope res" where
  "register_sparse outer s st =
     bindR (register_initializer outer (tensor_name (sparse_values s)) st) (\<lambda>st'.
     bindR (VerifySparseTensor s) (\<lambda>_. Inr st'))"

text \<open>The declared type of a paged cache is that of the graph input of its name, with a catalogue only.\<close>

definition declared_cache_type :: "catalogue_ptr \<Rightarrow> value_info list \<Rightarrow> string \<Rightarrow> type_proto option" where
  "declared_cache_type struct_types ins name =
     (case struct_types of
        None \<Rightarrow> None
      | Some cat \<Rightarrow> (case find (\<lambda>vi. info_name vi = name) ins of None \<Rightarrow> None | Some vi \<Rightarrow> info_type vi))"

definition verify_extended :: "catalogue_ptr \<Rightarrow> value_info list \<Rightarrow> extended_initializer \<Rightarrow> unit res" where
  "verify_extended struct_types ins e =
     (let cat = (case struct_types of None \<Rightarrow> [] | Some c \<Rightarrow> c); required = (struct_types \<noteq> None) in
      case e of
        EncodedInitializer v \<Rightarrow> bindR (ValidateEncodedValue cat v required) (\<lambda>_. Inr ())
      | PagedInitializer c \<Rightarrow>
          ValidatePagedCache cat c required (declared_cache_type struct_types ins (cache_name c))
      | EmptyInitializer \<Rightarrow> Inl InvalidArgument)"

definition register_extended ::
    "catalogue_ptr \<Rightarrow> value_info list \<Rightarrow> string set option \<Rightarrow> extended_initializer \<Rightarrow> graph_scope \<Rightarrow> graph_scope res" where
  "register_extended struct_types ins outer e st =
     bindR (extended_name e) (\<lambda>name.
     bindR (register_initializer outer name st) (\<lambda>st'.
     bindR (verify_extended struct_types ins e) (\<lambda>_. Inr st')))"

text \<open>The outputs of a node; an empty name is an output left unset.\<close>

fun add_outputs :: "string list \<Rightarrow> string set \<Rightarrow> string set res" where
  "add_outputs [] names = Inr names"
| "add_outputs (out # outs) names =
     (if out = '''' then add_outputs outs names
      else enforce (out \<notin> names) (add_outputs outs (insert out names)))"

text \<open>One node of a body: what it reads is defined, it is valid, and what it produces is new.\<close>

definition visit_node :: "(string set \<Rightarrow> node_proto \<Rightarrow> unit res) \<Rightarrow> node_proto \<Rightarrow> string set \<Rightarrow> string set res" where
  "visit_node check nd names =
     enforce (list_all (\<lambda>name. name = '''' \<or> name \<in> names) (n_input nd)) (
     bindR (check names nd) (\<lambda>_. add_outputs (n_output nd) names))"

lemma visit_node_cong [fundef_cong]:
  "nd = nd' \<Longrightarrow> names = names' \<Longrightarrow> check names' nd' = check' names' nd' \<Longrightarrow>
   visit_node check nd names = visit_node check' nd' names'"
  by (simp add: visit_node_def)

definition graph_node_step ::
    "(string set \<Rightarrow> node_proto \<Rightarrow> unit res) \<Rightarrow> node_proto \<Rightarrow> graph_scope \<Rightarrow> graph_scope res" where
  "graph_node_step check nd st =
     bindR (visit_node check nd (defined st)) (\<lambda>names.
       Inr (st\<lparr>defined := names, locally_defined := locally_defined st \<union> (set (n_output nd) - {''''})\<rparr>))"

lemma graph_node_step_cong [fundef_cong]:
  "nd = nd' \<Longrightarrow> st = st' \<Longrightarrow> check (defined st') nd' = check' (defined st') nd' \<Longrightarrow>
   graph_node_step check nd st = graph_node_step check' nd' st'"
  by (simp add: graph_node_step_def visit_node_def)

definition verify_output :: "catalogue_ptr \<Rightarrow> bool \<Rightarrow> graph_scope \<Rightarrow> value_info \<Rightarrow> unit res" where
  "verify_output struct_types is_main_graph st vi =
     bindR (VerifyValueInfo vi is_main_graph) (\<lambda>_.
     bindR (verify_value_type struct_types vi) (\<lambda>_.
     enforce (info_name vi \<in> locally_defined st) (Inr ())))"

section \<open>Graphs, nodes and attributes\<close>

text \<open>What a graph declares before its nodes.\<close>

definition declare_values ::
    "catalogue_ptr \<Rightarrow> bool \<Rightarrow> string set option \<Rightarrow> value_info list \<Rightarrow> tensor_proto list \<Rightarrow> sparse_tensor_proto list \<Rightarrow>
     extended_initializer list \<Rightarrow> graph_scope res" where
  "declare_values struct_types is_main_graph outer ins inits sparse ext =
     bindR (foldR (register_input struct_types is_main_graph) ins (start_scope outer)) (\<lambda>s1.
     bindR (foldR (register_dense outer) inits s1) (\<lambda>s2.
     bindR (foldR (register_sparse outer) sparse s2) (\<lambda>s3.
     foldR (register_extended struct_types ins outer) ext s3)))"

fun VerifyGraph :: "catalogue_ptr \<Rightarrow> bool \<Rightarrow> bool \<Rightarrow> string set option \<Rightarrow> graph_proto \<Rightarrow> unit res"
  and VerifyNode :: "catalogue_ptr \<Rightarrow> bool \<Rightarrow> string set \<Rightarrow> node_proto \<Rightarrow> unit res"
  and VerifyAttribute :: "catalogue_ptr \<Rightarrow> bool \<Rightarrow> string set \<Rightarrow> attribute_proto \<Rightarrow> unit res" where
  "VerifyGraph struct_types is_main_graph in_function_body outer
       (GraphProto ins inits sparse ext nodes outs infos bindings) =
     bindR (VerifyPersistentBindings struct_types
              (GraphProto ins inits sparse ext nodes outs infos bindings)
              (is_main_graph \<and> \<not> in_function_body)) (\<lambda>_.
     bindR (declare_values struct_types is_main_graph outer ins inits sparse ext) (\<lambda>st.
     bindR (foldR (graph_node_step (\<lambda>scope nd. VerifyNode struct_types in_function_body scope nd)) nodes st) (\<lambda>st'.
     bindR (eachR (verify_value_type struct_types) infos) (\<lambda>_.
     eachR (verify_output struct_types is_main_graph st') outs))))"
| "VerifyNode struct_types in_function_body scope (NodeProto op dm ovl ins outs attrs meta) =
     enforce (op \<noteq> '''') (
     enforce (ins \<noteq> [] \<or> outs \<noteq> []) (
     bindR (foldR (\<lambda>a seen. enforce (a_name a \<noteq> '''') (enforce (a_name a \<notin> seen) (
              bindR (VerifyAttribute struct_types in_function_body scope a) (\<lambda>_.
                Inr (insert (a_name a) seen))))) attrs {}) (\<lambda>_. Inr ())))"
| "VerifyAttribute struct_types in_function_body scope (AttributeProto nm ref ty v g gs) =
     enforce (nm \<noteq> '''') (
       if ref \<noteq> '''' then enforce in_function_body (Inr ())
       else enforce (num_set v g gs \<le> 1) (
         if ty = A_GRAPH then
           (case g of
              None \<Rightarrow> Inl InvalidArgument
            | Some h \<Rightarrow> VerifyGraph struct_types False in_function_body (Some scope) h)
         else if ty = A_GRAPHS then
           eachR (\<lambda>h. VerifyGraph struct_types False in_function_body (Some scope) h) gs
         else verify_attribute_value struct_types ty v))"

section \<open>Functions\<close>

definition NormaliseDomain :: "string \<Rightarrow> string" where
  "NormaliseDomain dm = (if dm = '''' \<or> dm = ''onnx.ai'' then ''ai.onnx'' else dm)"

type_synonym reference_types = "string \<rightharpoonup> AttributeType"

text \<open>A reference is to a declared attribute and always of one type.\<close>

definition verify_reference :: "string set \<Rightarrow> string \<Rightarrow> AttributeType \<Rightarrow> reference_types \<Rightarrow> reference_types res" where
  "verify_reference declared ref ty types =
     (if ref = '''' then Inr types
      else enforce (ref \<in> declared) (
        case types ref of
          None \<Rightarrow> Inr (types(ref \<mapsto> ty))
        | Some earlier \<Rightarrow> enforce (earlier = ty) (Inr types)))"

fun verify_imports_and_references ::
    "string set \<Rightarrow> string set \<Rightarrow> node_proto \<Rightarrow> reference_types \<Rightarrow> reference_types res"
  and verify_attribute_imports ::
    "string set \<Rightarrow> string set \<Rightarrow> attribute_proto \<Rightarrow> reference_types \<Rightarrow> reference_types res"
  and verify_graph_imports ::
    "string set \<Rightarrow> string set \<Rightarrow> graph_proto \<Rightarrow> reference_types \<Rightarrow> reference_types res" where
  "verify_imports_and_references opsets declared (NodeProto op dm ovl ins outs attrs meta) types =
     enforce (NormaliseDomain dm \<in> opsets) (
       foldR (\<lambda>a types. verify_attribute_imports opsets declared a types) attrs types)"
| "verify_attribute_imports opsets declared (AttributeProto nm ref ty v g gs) types =
     bindR (verify_reference declared ref ty types) (\<lambda>types1.
     bindR (case g of None \<Rightarrow> Inr types1 | Some h \<Rightarrow> verify_graph_imports opsets declared h types1) (\<lambda>types2.
     foldR (\<lambda>h types. verify_graph_imports opsets declared h types) gs types2))"
| "verify_graph_imports opsets declared (GraphProto ins inits sparse ext nodes outs infos bindings) types =
     foldR (\<lambda>nd types. verify_imports_and_references opsets declared nd types) nodes types"

definition import_opset :: "opset_id \<Rightarrow> string set \<Rightarrow> string set res" where
  "import_opset opset opsets =
     enforce (opset_version opset > 0) (
     enforce (NormaliseDomain (opset_domain opset) \<notin> opsets) (
       Inr (insert (NormaliseDomain (opset_domain opset)) opsets)))"

definition declared_attributes :: "function_proto \<Rightarrow> string set" where
  "declared_attributes f = set (f_attribute f) \<union> set (map a_name (f_attribute_proto f))"

definition declare_parameter :: "string \<Rightarrow> string set \<Rightarrow> string set res" where
  "declare_parameter name names = enforce (name \<noteq> '''') (enforce (name \<notin> names) (Inr (insert name names)))"

text \<open>One node of a function body: verified as a node, then for its imports, then its outputs are new.\<close>

definition function_node_step ::
    "catalogue_ptr \<Rightarrow> string set \<Rightarrow> string set \<Rightarrow> node_proto \<Rightarrow> string set \<times> reference_types \<Rightarrow>
     (string set \<times> reference_types) res" where
  "function_node_step struct_types opsets declared nd = (\<lambda>(names, types).
     enforce (list_all (\<lambda>name. name = '''' \<or> name \<in> names) (n_input nd)) (
     bindR (VerifyNode struct_types True names nd) (\<lambda>_.
     bindR (verify_imports_and_references opsets declared nd types) (\<lambda>types'.
     bindR (add_outputs (n_output nd) names) (\<lambda>names'. Inr (names', types'))))))"

definition VerifyFunction :: "catalogue_ptr \<Rightarrow> function_proto \<Rightarrow> unit res" where
  "VerifyFunction struct_types f =
     enforce (f_name f \<noteq> '''') (
     bindR (foldR import_opset (f_opset_import f) {}) (\<lambda>opsets.
     bindR (foldR declare_parameter (f_input f) {}) (\<lambda>names.
     bindR (foldR (function_node_step struct_types opsets (declared_attributes f)) (f_node f) (names, Map.empty))
       (\<lambda>(names', types).
     bindR (eachR (\<lambda>out. enforce (out \<in> names') (Inr ())) (f_output f)) (\<lambda>_.
     eachR (verify_value_type struct_types) (f_value_info f))))))"

section \<open>Models and pipelines\<close>

definition import_domain :: "opset_id \<Rightarrow> string set \<Rightarrow> string set res" where
  "import_domain opset domains = enforce (opset_domain opset \<notin> domains) (Inr (insert (opset_domain opset) domains))"

definition function_id :: "function_proto \<Rightarrow> string" where
  "function_id f = f_domain f @ ''::'' @ f_name f @ ''::'' @ f_overload f"

definition verify_model_function ::
    "struct_type_proto list \<Rightarrow> function_proto \<Rightarrow> string set \<Rightarrow> string set res" where
  "verify_model_function cat f ids =
     bindR (VerifyFunction (Some cat) f) (\<lambda>_.
     enforce (function_id f \<notin> ids) (Inr (insert (function_id f) ids)))"

definition VerifyModel :: "model_proto \<Rightarrow> unit res" where
  "VerifyModel m =
     (case m_graph m of
        None \<Rightarrow> Inl InvalidArgument
      | Some g \<Rightarrow>
          enforce (m_opset_import m \<noteq> []) (
          bindR (foldR import_domain (m_opset_import m) {}) (\<lambda>_.
          bindR (Build (m_struct_types m)) (\<lambda>cat.
          bindR (VerifyGraph (Some cat) True False None g) (\<lambda>_.
          bindR (foldR (verify_model_function cat) (m_functions m) {}) (\<lambda>_. Inr ()))))))"

text \<open>
  A binary32 pattern is finite when its exponent is not all ones; a pattern without its sign bit is
  at most that of one, \<open>0x3F800000\<close>, when its value is at most one.
\<close>

definition finite_float :: "32 word \<Rightarrow> bool" where
  "finite_float x \<longleftrightarrow> x AND 0x7F800000 \<noteq> 0x7F800000"

definition nonnegative_float :: "32 word \<Rightarrow> bool" where
  "nonnegative_float x \<longleftrightarrow> x AND 0x80000000 = 0 \<or> x AND 0x7FFFFFFF = 0"

definition probability_float :: "32 word \<Rightarrow> bool" where
  "probability_float x \<longleftrightarrow> 0 < x \<and> x \<le> 0x3F800000"

definition absent_or :: "('a \<Rightarrow> bool) \<Rightarrow> 'a option \<Rightarrow> bool" where
  "absent_or P x \<longleftrightarrow> (case x of None \<Rightarrow> True | Some v \<Rightarrow> P v)"

definition VerifyPipeline :: "pipeline_proto \<Rightarrow> unit res" where
  "VerifyPipeline p =
     (case prefill p of
        None \<Rightarrow> Inl InvalidArgument
      | Some m \<Rightarrow>
          bindR (VerifyModel m) (\<lambda>_.
          bindR (case embedding p of None \<Rightarrow> Inr () | Some e \<Rightarrow> VerifyModel e) (\<lambda>_.
          bindR (case decode p of None \<Rightarrow> Inr () | Some d \<Rightarrow> VerifyModel d) (\<lambda>_.
          enforce (absent_or (\<lambda>n. n \<ge> 0) (max_new_tokens p)) (
          enforce (absent_or (\<lambda>x. finite_float x \<and> nonnegative_float x) (temperature p)) (
          enforce (absent_or (\<lambda>n. n \<ge> 0) (seed p)) (
          bindR (eachR (\<lambda>id. enforce (id \<ge> 0) (Inr ())) (eos_token_ids p)) (\<lambda>_.
          enforce (absent_or (\<lambda>n. n \<ge> 0) (pad_token_id p)) (
          enforce (absent_or (\<lambda>n. n \<ge> 0) (top_k p)) (
          enforce (absent_or (\<lambda>x. finite_float x \<and> probability_float x) (top_p p)) (
          bindR (foldR (\<lambda>(key, val). declare_parameter key) (pipeline_metadata p) {}) (\<lambda>_. Inr ()))))))))))))"

end
