(* ===== verification/VerifySound.thy ===== *)
theory VerifySound
  imports VerifyGraph AnnotatedPlan
begin

text \<open>
  What an accepted graph is: the verifier's walk over the nodes of a body accepts exactly the bodies
  whose names are assigned once and read after they are defined, and the graphs it accepts are the
  graphs that the analysis and the planner of the compute layer are about.
\<close>

section \<open>The walk over a body\<close>

definition outputs_in :: "node_proto list \<Rightarrow> string set" where
  "outputs_in nodes = set (concat (map n_output nodes)) - {''''}"

definition named_outputs :: "node_proto list \<Rightarrow> string list" where
  "named_outputs nodes = filter (\<lambda>name. name \<noteq> '''') (concat (map n_output nodes))"

lemma outputs_in_simps [simp]:
  "outputs_in [] = {}" "outputs_in (nd # nodes) = (set (n_output nd) - {''''}) \<union> outputs_in nodes"
  by (auto simp: outputs_in_def)

lemma set_named_outputs: "set (named_outputs nodes) = outputs_in nodes"
  by (auto simp: named_outputs_def outputs_in_def)

lemma add_outputs_Inr:
  "add_outputs outs names = Inr names' \<longleftrightarrow>
     distinct (filter (\<lambda>name. name \<noteq> '''') outs) \<and> set outs \<inter> names \<subseteq> {''''} \<and>
     names' = names \<union> (set outs - {''''})"
proof (induction outs names rule: add_outputs.induct)
  case (2 out outs names)
  show ?case
  proof (cases "out = '''' \<or> out \<in> names")
    case True
    with 2 show ?thesis by auto
  next
    case False
    have "names \<union> (set (out # outs) - {''''}) = insert out names \<union> (set outs - {''''})" using False by auto
    moreover have "distinct (filter (\<lambda>name. name \<noteq> '''') (out # outs)) \<and> set (out # outs) \<inter> names \<subseteq> {''''} \<longleftrightarrow>
        distinct (filter (\<lambda>name. name \<noteq> '''') outs) \<and> set outs \<inter> insert out names \<subseteq> {''''}"
      using False by auto
    ultimately show ?thesis using False 2(2) by (simp del: distinct.simps) blast
  qed
qed auto

text \<open>
  A body is in order over some names when each node reads what these names and the earlier nodes
  provide, passes the check in that scope, and no name is produced twice or over one of the names.
\<close>

definition body_in_order ::
    "(string set \<Rightarrow> node_proto \<Rightarrow> unit res) \<Rightarrow> string set \<Rightarrow> node_proto list \<Rightarrow> bool" where
  "body_in_order check names nodes \<longleftrightarrow>
     distinct (named_outputs nodes) \<and> outputs_in nodes \<inter> names \<subseteq> {''''} \<and>
     (\<forall>i < length nodes. set (n_input (nodes ! i)) - {''''} \<subseteq> names \<union> outputs_in (take i nodes) \<and>
        check (names \<union> outputs_in (take i nodes)) (nodes ! i) = Inr ())"

lemma body_in_order_Nil [simp]: "body_in_order check names []"
  by (simp add: body_in_order_def named_outputs_def)

lemma body_in_order_Cons:
  "body_in_order check names (nd # nodes) \<longleftrightarrow>
     set (n_input nd) - {''''} \<subseteq> names \<and> check names nd = Inr () \<and>
     distinct (filter (\<lambda>name. name \<noteq> '''') (n_output nd)) \<and> set (n_output nd) \<inter> names \<subseteq> {''''} \<and>
     body_in_order check (names \<union> (set (n_output nd) - {''''})) nodes"
proof -
  have named: "named_outputs (nd # nodes) = filter (\<lambda>name. name \<noteq> '''') (n_output nd) @ named_outputs nodes"
    by (simp add: named_outputs_def)
  have steps: "(\<forall>i < length (nd # nodes). P i) \<longleftrightarrow> P 0 \<and> (\<forall>i < length nodes. P (Suc i))" for P
    by (auto simp: less_Suc_eq_0_disj)
  show ?thesis
    unfolding body_in_order_def named steps
    by (auto simp: set_named_outputs Un_assoc)
qed

lemma visit_node_Inr:
  "visit_node check nd names = Inr names' \<longleftrightarrow>
     set (n_input nd) - {''''} \<subseteq> names \<and> check names nd = Inr () \<and>
     distinct (filter (\<lambda>name. name \<noteq> '''') (n_output nd)) \<and> set (n_output nd) \<inter> names \<subseteq> {''''} \<and>
     names' = names \<union> (set (n_output nd) - {''''})"
  by (auto simp: visit_node_def add_outputs_Inr list_all_iff)

lemma visit_nodes_Inr:
  "foldR (visit_node check) nodes names = Inr names' \<longleftrightarrow>
     body_in_order check names nodes \<and> names' = names \<union> outputs_in nodes"
  by (induction nodes arbitrary: names) (auto simp: visit_node_Inr body_in_order_Cons Un_assoc)

lemma graph_node_step_Inr:
  "graph_node_step check nd st = Inr st' \<longleftrightarrow>
     set (n_input nd) - {''''} \<subseteq> defined st \<and> check (defined st) nd = Inr () \<and>
     distinct (filter (\<lambda>name. name \<noteq> '''') (n_output nd)) \<and> set (n_output nd) \<inter> defined st \<subseteq> {''''} \<and>
     st' = st\<lparr>defined := defined st \<union> (set (n_output nd) - {''''}),
              locally_defined := locally_defined st \<union> (set (n_output nd) - {''''})\<rparr>"
  by (auto simp: graph_node_step_def visit_node_Inr)

lemma graph_node_steps_Inr:
  "foldR (graph_node_step check) nodes st = Inr st' \<longleftrightarrow>
     body_in_order check (defined st) nodes \<and>
     st' = st\<lparr>defined := defined st \<union> outputs_in nodes, locally_defined := locally_defined st \<union> outputs_in nodes\<rparr>"
  by (induction nodes arbitrary: st) (auto simp: graph_node_step_Inr body_in_order_Cons Un_assoc)

section \<open>What a graph declares\<close>

lemma register_input_Inr:
  "register_input cat main vi st = Inr st' \<longleftrightarrow>
     VerifyValueInfo vi main = Inr () \<and> verify_value_type cat vi = Inr () \<and> info_name vi \<notin> defined st \<and>
     st' = st\<lparr>defined := insert (info_name vi) (defined st),
              locally_defined := insert (info_name vi) (locally_defined st)\<rparr>"
  by (auto simp: register_input_def)

text \<open>Every declaration adds its name to what is defined, here and overall.\<close>

definition declares :: "string \<Rightarrow> graph_scope \<Rightarrow> graph_scope \<Rightarrow> bool" where
  "declares name st st' \<longleftrightarrow> name \<noteq> '''' \<and> defined st' = insert name (defined st) \<and>
     locally_defined st' = insert name (locally_defined st)"

lemma declares_all:
  assumes "foldR f xs st = Inr st'"
    and "\<And>x t t'. x \<in> set xs \<Longrightarrow> f x t = Inr t' \<Longrightarrow> declares (name x) t t'"
  shows "defined st' = defined st \<union> name ` set xs \<and> locally_defined st' = locally_defined st \<union> name ` set xs \<and>
    '''' \<notin> name ` set xs"
  using assms
proof (induction xs arbitrary: st)
  case (Cons x xs)
  then obtain st1 where st1: "f x st = Inr st1" "foldR f xs st1 = Inr st'" by auto
  have "declares (name x) st st1" by (rule Cons.prems(2) [OF _ st1(1)]) simp
  moreover have "defined st' = defined st1 \<union> name ` set xs \<and>
      locally_defined st' = locally_defined st1 \<union> name ` set xs \<and> '''' \<notin> name ` set xs"
    by (rule Cons.IH [OF st1(2)]) (simp add: Cons.prems(2))
  ultimately show ?case by (auto simp: declares_def)
qed simp

lemma register_initializer_declares:
  "register_initializer outer name st = Inr st' \<Longrightarrow> declares name st st'"
  by (auto simp: register_initializer_def declares_def)

lemma register_input_declares: "register_input cat main vi st = Inr st' \<Longrightarrow> declares (info_name vi) st st'"
  by (auto simp: register_input_Inr declares_def VerifyValueInfo_def)

lemma register_dense_declares: "register_dense outer t st = Inr st' \<Longrightarrow> declares (tensor_name t) st st'"
  by (auto simp: register_dense_def dest: register_initializer_declares)

lemma register_sparse_declares:
  "register_sparse outer s st = Inr st' \<Longrightarrow> declares (tensor_name (sparse_values s)) st st'"
  by (auto simp: register_sparse_def dest: register_initializer_declares)

text \<open>The name of an extended initializer; one without a payload has none.\<close>

definition name_of_extended :: "extended_initializer \<Rightarrow> string" where
  "name_of_extended e = (case extended_name e of Inl err \<Rightarrow> '''' | Inr name \<Rightarrow> name)"

lemma register_extended_declares:
  "register_extended cat ins outer e st = Inr st' \<Longrightarrow> declares (name_of_extended e) st st'"
  by (auto simp: register_extended_def name_of_extended_def dest: register_initializer_declares)

definition declared_names ::
    "value_info list \<Rightarrow> tensor_proto list \<Rightarrow> sparse_tensor_proto list \<Rightarrow> extended_initializer list \<Rightarrow> string set" where
  "declared_names ins inits sparse ext = set (map info_name ins) \<union> set (map tensor_name inits) \<union>
     set (map (\<lambda>s. tensor_name (sparse_values s)) sparse) \<union> set (map name_of_extended ext)"

lemma declare_values_defines:
  assumes "declare_values cat main outer ins inits sparse ext = Inr st"
  shows "defined st = (case outer of None \<Rightarrow> {} | Some names \<Rightarrow> names) \<union> declared_names ins inits sparse ext"
    "locally_defined st = declared_names ins inits sparse ext" "'''' \<notin> declared_names ins inits sparse ext"
proof -
  from assms obtain s1 s2 s3 where
    s1: "foldR (register_input cat main) ins (start_scope outer) = Inr s1" and
    s2: "foldR (register_dense outer) inits s1 = Inr s2" and
    s3: "foldR (register_sparse outer) sparse s2 = Inr s3" and
    st: "foldR (register_extended cat ins outer) ext s3 = Inr st"
    by (auto simp: declare_values_def)
  note facts = declares_all [OF s1 register_input_declares] declares_all [OF s2 register_dense_declares]
    declares_all [OF s3 register_sparse_declares] declares_all [OF st register_extended_declares]
  show "defined st = (case outer of None \<Rightarrow> {} | Some names \<Rightarrow> names) \<union> declared_names ins inits sparse ext"
    "locally_defined st = declared_names ins inits sparse ext" "'''' \<notin> declared_names ins inits sparse ext"
    using facts by (auto simp: start_scope_def declared_names_def)
qed

section \<open>The graphs of the compute layer\<close>

text \<open>What the compute layer keeps of the messages.\<close>

primrec abs_graph :: "graph_proto \<Rightarrow> graph"
  and abs_node :: "node_proto \<Rightarrow> node"
  and abs_attribute :: "attribute_proto \<Rightarrow> attribute" where
  "abs_graph (GraphProto ins inits sparse ext nodes outs infos bindings) =
     Graph (map info_name ins) (map tensor_name inits) (map (\<lambda>s. tensor_name (sparse_values s)) sparse)
       (map name_of_extended ext) (map abs_node nodes) (map info_name outs) (map info_name infos)"
| "abs_node (NodeProto op dm ovl ins outs attrs meta) = Node op dm ovl ins outs (map abs_attribute attrs) meta"
| "abs_attribute (AttributeProto nm ref ty v g gs) =
     Attribute (if ty = A_GRAPH then GRAPH else if ty = A_GRAPHS then GRAPHS else OTHER)
       (map_option abs_graph g) (map abs_graph gs)"

lemma abs_node_simps [simp]:
  "node_output (abs_node nd) = n_output nd" "node_input (abs_node nd) = n_input nd"
  "node_attribute (abs_node nd) = map abs_attribute (n_attribute nd)"
  "metadata_props (abs_node nd) = n_metadata_props nd"
  by (cases nd; simp)+

lemma outputs_of_abs: "outputs_of (map abs_node nodes) = outputs_in nodes"
  by (auto simp: outputs_of_def outputs_in_def)

lemma node_reads_abs:
  "node_reads (abs_node nd) = (set (n_input nd) - {''''}) \<union> (\<Union>a \<in> set (n_attribute nd). attribute_reads (abs_attribute a))"
  by (cases nd) auto

lemma verify_attributes:
  assumes "foldR (\<lambda>a seen. enforce (a_name a \<noteq> '''') (enforce (a_name a \<notin> seen) (
      bindR (f a) (\<lambda>_. Inr (insert (a_name a) seen))))) attrs seen = Inr seen'"
  shows "\<forall>a \<in> set attrs. f a = Inr ()"
  using assms by (induction attrs arbitrary: seen) auto

lemma VerifyNode_attributes:
  assumes "VerifyNode cat in_function scope nd = Inr ()"
  shows "\<forall>a \<in> set (n_attribute nd). VerifyAttribute cat in_function scope a = Inr ()"
proof (cases nd)
  case (NodeProto op dm ovl ins outs attrs meta)
  with assms obtain seen where "foldR (\<lambda>a seen. enforce (a_name a \<noteq> '''') (enforce (a_name a \<notin> seen) (
      bindR (VerifyAttribute cat in_function scope a) (\<lambda>_. Inr (insert (a_name a) seen))))) attrs {} = Inr seen"
    by auto
  from verify_attributes [OF this] show ?thesis by (simp add: NodeProto)
qed

text \<open>The parts of an accepted graph.\<close>

lemma VerifyGraph_parts:
  assumes "VerifyGraph cat main in_function outer (GraphProto ins inits sparse ext nodes outs infos bindings) = Inr ()"
  obtains st where "declare_values cat main outer ins inits sparse ext = Inr st"
    "body_in_order (VerifyNode cat in_function) (defined st) nodes"
    "set (map info_name outs) \<subseteq> locally_defined st \<union> outputs_in nodes"
    "'''' \<notin> set (map info_name outs)"
    "\<forall>vi \<in> set outs. VerifyValueInfo vi main = Inr ()"
proof -
  from assms obtain st st' where st: "declare_values cat main outer ins inits sparse ext = Inr st"
    and st': "foldR (graph_node_step (VerifyNode cat in_function)) nodes st = Inr st'"
    and outs: "\<forall>vi \<in> set outs. verify_output cat main st' vi = Inr ()"
    unfolding VerifyGraph.simps by (auto simp del: VerifyPersistentBindings_def)
  have body: "body_in_order (VerifyNode cat in_function) (defined st) nodes"
    and loc: "locally_defined st' = locally_defined st \<union> outputs_in nodes"
    using st' by (auto simp: graph_node_steps_Inr)
  have out: "VerifyValueInfo vi main = Inr () \<and> info_name vi \<noteq> '''' \<and> info_name vi \<in> locally_defined st'"
    if "vi \<in> set outs" for vi
    using outs that by (auto simp: verify_output_def VerifyValueInfo_def)
  show thesis
  proof (rule that [OF st body])
    show "set (map info_name outs) \<subseteq> locally_defined st \<union> outputs_in nodes" using out loc by auto
    show "'''' \<notin> set (map info_name outs)" using out by force
    show "\<forall>vi \<in> set outs. VerifyValueInfo vi main = Inr ()" using out by blast
  qed
qed

lemma local_names_abs:
  "local_names (abs_graph (GraphProto ins inits sparse ext nodes outs infos bindings)) =
     declared_names ins inits sparse ext \<union> outputs_in nodes"
  by (simp add: declared_names_def outputs_of_abs)

lemma outputs_in_take: "outputs_in (take i nodes) \<subseteq> outputs_in nodes"
  by (auto simp: outputs_in_def dest: in_set_takeD)

text \<open>
  In a function body an attribute may refer to an attribute of the function, and then its own value is
  not looked at.  A plain body is one where such an attribute holds no graph.
\<close>

primrec plain_graph :: "graph_proto \<Rightarrow> bool"
  and plain_node :: "node_proto \<Rightarrow> bool"
  and plain_attribute :: "attribute_proto \<Rightarrow> bool" where
  "plain_graph (GraphProto ins inits sparse ext nodes outs infos bindings) = list_all id (map plain_node nodes)"
| "plain_node (NodeProto op dm ovl ins outs attrs meta) = list_all id (map plain_attribute attrs)"
| "plain_attribute (AttributeProto nm ref ty v g gs) =
     ((ref \<noteq> '''' \<longrightarrow> g = None \<and> gs = []) \<and> (case map_option plain_graph g of None \<Rightarrow> True | Some b \<Rightarrow> b) \<and>
      list_all id (map plain_graph gs))"

text \<open>What an accepted graph reads of its surroundings is defined there.\<close>

lemma accepted_reads:
  "VerifyGraph cat main fn outer g = Inr () \<Longrightarrow> fn \<longrightarrow> plain_graph g \<Longrightarrow>
     graph_reads (abs_graph g) \<subseteq> (case outer of None \<Rightarrow> {} | Some names \<Rightarrow> names)"
  "VerifyNode cat fn scope nd = Inr () \<Longrightarrow> fn \<longrightarrow> plain_node nd \<Longrightarrow>
     (\<Union>a \<in> set (n_attribute nd). attribute_reads (abs_attribute a)) \<subseteq> scope"
  "VerifyAttribute cat fn scope a = Inr () \<Longrightarrow> fn \<longrightarrow> plain_attribute a \<Longrightarrow>
     attribute_reads (abs_attribute a) \<subseteq> scope"
proof (induction g and nd and a arbitrary: main outer and scope and scope)
  case (GraphProto ins inits sparse ext nodes outs infos bindings)
  from VerifyGraph_parts [OF GraphProto.prems(1)] obtain st
    where st: "declare_values cat main outer ins inits sparse ext = Inr st"
      and body: "body_in_order (VerifyNode cat fn) (defined st) nodes"
      and outs: "set (map info_name outs) \<subseteq> locally_defined st \<union> outputs_in nodes" by metis
  let ?outer = "case outer of None \<Rightarrow> {} | Some names \<Rightarrow> names"
  let ?local = "declared_names ins inits sparse ext \<union> outputs_in nodes"
  note defs = declare_values_defines(1,2) [OF st]
  have "node_reads (abs_node nd) \<subseteq> ?outer \<union> ?local" if nd: "nd \<in> set nodes" for nd
  proof -
    from nd obtain i where i: "i < length nodes" "nd = nodes ! i" by (metis in_set_conv_nth)
    with body have reads: "set (n_input nd) - {''''} \<subseteq> defined st \<union> outputs_in (take i nodes)"
      and ok: "VerifyNode cat fn (defined st \<union> outputs_in (take i nodes)) nd = Inr ()"
      by (auto simp: body_in_order_def)
    have "fn \<longrightarrow> plain_node nd" using GraphProto.prems(2) nd by (auto simp: list_all_iff)
    from GraphProto.IH(1) [OF nd ok this] reads outputs_in_take [of i nodes] defs(1) show ?thesis
      unfolding node_reads_abs by blast
  qed
  then have "\<Union>(set (map node_reads (map abs_node nodes))) \<subseteq> ?outer \<union> ?local" by (force simp del: local_names.simps)
  with outs defs(2) have "(\<Union>(set (map node_reads (map abs_node nodes))) \<union> (set (map info_name outs) - {''''})) \<subseteq> ?outer \<union> ?local"
    by blast
  then show ?case using local_names_abs [of ins inits sparse ext nodes outs infos bindings]
    unfolding abs_graph.simps graph_reads.simps by blast
next
  case (NodeProto op dm ovl ins outs attrs meta)
  have "attribute_reads (abs_attribute a) \<subseteq> scope" if a: "a \<in> set attrs" for a
  proof (rule NodeProto.IH [OF a])
    show "VerifyAttribute cat fn scope a = Inr ()" using VerifyNode_attributes [OF NodeProto.prems(1)] a by simp
    show "fn \<longrightarrow> plain_attribute a" using NodeProto.prems(2) a by (auto simp: list_all_iff)
  qed
  then show ?case by auto
next
  case (AttributeProto nm ref ty v g gs)
  note prems = AttributeProto.prems
  show ?case
  proof (cases "ref = ''''")
    case False
    with prems have "g = None \<and> gs = []" by (auto simp: enforce_def split: if_splits)
    then show ?thesis by simp
  next
    case ref: True
    show ?thesis
    proof (cases "ty = A_GRAPH")
      case True
      with prems(1) ref obtain h where h: "g = Some h" "VerifyGraph cat False fn (Some scope) h = Inr ()"
        by (auto split: option.splits)
      from AttributeProto.IH(1) [of h, OF _ h(2)] h(1) True prems(2) show ?thesis by simp
    next
      case False
      show ?thesis
      proof (cases "ty = A_GRAPHS")
        case True
        with prems(1) ref have ok: "\<forall>h \<in> set gs. VerifyGraph cat False fn (Some scope) h = Inr ()" by auto
        have "graph_reads (abs_graph h) \<subseteq> scope" if h: "h \<in> set gs" for h
        proof -
          have "fn \<longrightarrow> plain_graph h" using prems(2) h by (auto simp: list_all_iff)
          from AttributeProto.IH(2) [OF h bspec [OF ok h] this] show ?thesis by simp
        qed
        with True show ?thesis by auto
      qed (use False in simp)
    qed
  qed
qed

section \<open>Accepted bodies are well formed\<close>

lemma produced_abs: "concat (map produced_names (map abs_node nodes)) = named_outputs nodes"
  by (induction nodes) (simp_all add: produced_names_def named_outputs_def)

lemma produced_in: "set (produced_names (abs_node nd)) = set (n_output nd) - {''''}"
  by (auto simp: produced_names_def)

text \<open>A name that a later or the same node produces is not among what a node may read.\<close>

lemma produced_later:
  assumes "distinct (named_outputs nodes)" "j < length nodes" "i \<le> j"
  shows "set (n_output (nodes ! j)) \<inter> outputs_in (take i nodes) \<subseteq> {''''}"
  using assms
proof (induction nodes arbitrary: i j)
  case (Cons nd nodes)
  show ?case
  proof (cases i)
    case (Suc i')
    with Cons.prems obtain j' where j': "j = Suc j'" "j' < length nodes" "i' \<le> j'" by (cases j) auto
    have split: "named_outputs (nd # nodes) = filter (\<lambda>name. name \<noteq> '''') (n_output nd) @ named_outputs nodes"
      by (simp add: named_outputs_def)
    have "set (n_output (nodes ! j')) \<inter> outputs_in (take i' nodes) \<subseteq> {''''}"
      using Cons.IH [OF _ j'(2,3)] Cons.prems(1) unfolding split by simp
    moreover have "set (n_output (nodes ! j')) - {''''} \<subseteq> outputs_in nodes"
      using nth_mem [OF j'(2)] by (auto simp: outputs_in_def)
    moreover have "set (n_output nd) \<inter> outputs_in nodes \<subseteq> {''''}"
      using Cons.prems(1) unfolding split by (auto simp: set_named_outputs)
    ultimately show ?thesis using Suc j'(1) by auto
  qed simp
qed simp

lemma body_well_formed:
  assumes body: "body_in_order (VerifyNode cat fn) names nodes" and plain: "fn \<longrightarrow> list_all plain_node nodes"
  shows "single_assignment (map abs_node nodes)" "topologically_sorted (map abs_node nodes)"
    "nd \<in> set nodes \<Longrightarrow> node_reads (abs_node nd) \<subseteq> names \<union> outputs_in nodes"
proof -
  have distinct: "distinct (named_outputs nodes)" and fresh: "outputs_in nodes \<inter> names \<subseteq> {''''}"
    using body by (auto simp: body_in_order_def)
  have reads: "node_reads (abs_node (nodes ! i)) \<subseteq> names \<union> outputs_in (take i nodes)" if i: "i < length nodes" for i
  proof -
    have ok: "VerifyNode cat fn (names \<union> outputs_in (take i nodes)) (nodes ! i) = Inr ()"
      using body i by (auto simp: body_in_order_def)
    have "fn \<longrightarrow> plain_node (nodes ! i)" using plain i by (auto simp: list_all_length)
    from accepted_reads(2) [OF ok this] body i show ?thesis
      unfolding node_reads_abs body_in_order_def by (meson Un_least)
  qed
  show "single_assignment (map abs_node nodes)"
    unfolding single_assignment_def produced_abs by (rule distinct)
  show "node_reads (abs_node nd) \<subseteq> names \<union> outputs_in nodes" if "nd \<in> set nodes"
  proof -
    from that obtain i where "i < length nodes" "nd = nodes ! i" by (metis in_set_conv_nth)
    with reads outputs_in_take [of i nodes] show ?thesis by blast
  qed
  show "topologically_sorted (map abs_node nodes)"
    unfolding topologically_sorted_def length_map
  proof (intro allI impI)
    fix i j
    assume i: "i < length nodes" and j: "j < length nodes"
      and common: "node_reads (map abs_node nodes ! i) \<inter> set (produced_names (map abs_node nodes ! j)) \<noteq> {}"
    with reads [OF i] obtain name where name: "name \<in> names \<union> outputs_in (take i nodes)"
      "name \<in> set (n_output (nodes ! j))" "name \<noteq> ''''"
      unfolding nth_map [OF i] nth_map [OF j] produced_in by blast
    show "j < i"
    proof (rule ccontr)
      assume "\<not> j < i"
      then have "name \<notin> outputs_in (take i nodes)" using produced_later [OF distinct j, of i] name by auto
      moreover have "name \<in> outputs_in nodes" using name nth_mem [OF j] by (auto simp: outputs_in_def)
      ultimately show False using name fresh by auto
    qed
  qed
qed

lemma accepted_well_formed:
  assumes "VerifyGraph cat main False None g = Inr ()"
  shows "well_formed (abs_graph g)" "graph_reads (abs_graph g) = {}"
    "set (graph_output (abs_graph g)) \<subseteq> local_names (abs_graph g)"
proof -
  obtain ins inits sparse ext nodes outs infos bindings
    where g: "g = GraphProto ins inits sparse ext nodes outs infos bindings" by (cases g)
  from VerifyGraph_parts [OF assms [unfolded g]] obtain st
    where st: "declare_values cat main None ins inits sparse ext = Inr st"
      and body: "body_in_order (VerifyNode cat False) (defined st) nodes"
      and outs: "set (map info_name outs) \<subseteq> locally_defined st \<union> outputs_in nodes" by metis
  note defs = declare_values_defines [OF st]
  have "outputs_in nodes \<inter> declared_names ins inits sparse ext = {}"
    using body defs by (auto simp: body_in_order_def)
  then show "well_formed (abs_graph g)"
    using body_well_formed [OF body]
    by (auto simp: well_formed_def g outputs_of_abs declared_names_def)
  show "graph_reads (abs_graph g) = {}" using accepted_reads(1) [OF assms] by simp
  show "set (graph_output (abs_graph g)) \<subseteq> local_names (abs_graph g)"
    using outs defs(2) unfolding g local_names_abs by simp
qed

section \<open>Functions\<close>

lemma declare_parameter_Inr:
  "declare_parameter name names = Inr names' \<longleftrightarrow> name \<noteq> '''' \<and> name \<notin> names \<and> names' = insert name names"
  by (auto simp: declare_parameter_def)

lemma declare_parameters:
  "foldR declare_parameter xs names = Inr names' \<longleftrightarrow>
     distinct xs \<and> '''' \<notin> set xs \<and> set xs \<inter> names = {} \<and> names' = names \<union> set xs"
  by (induction xs arbitrary: names) (auto simp: declare_parameter_Inr)

lemma function_node_steps:
  assumes "foldR (function_node_step cat opsets declared) nodes (names, types) = Inr (names', types')"
  shows "foldR (visit_node (VerifyNode cat True)) nodes names = Inr names'"
  using assms
proof (induction nodes arbitrary: names types)
  case (Cons nd nodes)
  then show ?case by (force simp: function_node_step_def visit_node_def)
qed simp

definition abs_function :: "function_proto \<Rightarrow> FunctionProto" where
  "abs_function f = \<lparr>function_domain = f_domain f, function_name = f_name f, function_overload = f_overload f,
     function_input = f_input f, function_output = f_output f, function_node = map abs_node (f_node f)\<rparr>"

lemma accepted_function:
  assumes "VerifyFunction cat f = Inr ()" "list_all plain_node (f_node f)"
  shows "single_assignment (function_node (abs_function f))" "topologically_sorted (function_node (abs_function f))"
    "distinct (f_input f)" "outputs_in (f_node f) \<inter> set (f_input f) = {}"
    "set (f_output f) \<subseteq> set (f_input f) \<union> outputs_in (f_node f)"
    "set (CollectExternalInputs (function_node (abs_function f))) \<subseteq> set (f_input f)"
proof -
  from assms(1) obtain opsets names names' types where
    names: "foldR declare_parameter (f_input f) {} = Inr names" and
    body: "foldR (function_node_step cat opsets (declared_attributes f)) (f_node f) (names, Map.empty) = Inr (names', types)"
    and outs: "\<forall>out \<in> set (f_output f). out \<in> names'"
    by (auto simp: VerifyFunction_def)
  have ins: "distinct (f_input f)" "'''' \<notin> set (f_input f)" "names = set (f_input f)"
    using names by (auto simp: declare_parameters)
  have order: "body_in_order (VerifyNode cat True) names (f_node f)" and names': "names' = names \<union> outputs_in (f_node f)"
    using function_node_steps [OF body] by (auto simp: visit_nodes_Inr)
  have plain: "True \<longrightarrow> list_all plain_node (f_node f)" using assms(2) by simp
  note wf = body_well_formed [OF order plain]
  show "single_assignment (function_node (abs_function f))" "topologically_sorted (function_node (abs_function f))"
    using wf(1,2) by (simp_all add: abs_function_def)
  show "distinct (f_input f)" by (fact ins)
  show "outputs_in (f_node f) \<inter> set (f_input f) = {}"
    using order ins by (auto simp: body_in_order_def)
  show "set (f_output f) \<subseteq> set (f_input f) \<union> outputs_in (f_node f)" using outs names' ins(3) by auto
  show "set (CollectExternalInputs (function_node (abs_function f))) \<subseteq> set (f_input f)"
    using wf(3) ins(3) by (auto simp: abs_function_def CollectExternalInputs_reads outputs_of_abs)
qed

end
