(* ===== verification/VerifiedPlans.thy ===== *)
theory VerifiedPlans
  imports VerifySound
begin

text \<open>
  The verifier, the analysis and the planner together: the graph of an accepted model is analysed,
  annotated, planned and run without any failure, and so is the body of each of its functions.
\<close>

section \<open>The graph of an accepted model\<close>

lemma VerifyModel_parts:
  assumes "VerifyModel m = Inr ()"
  obtains g cat where "m_graph m = Some g" "Build (m_struct_types m) = Inr cat"
    "VerifyGraph (Some cat) True False None g = Inr ()"
    "\<forall>f \<in> set (m_functions m). VerifyFunction (Some cat) f = Inr ()"
proof -
  from assms obtain g where g: "m_graph m = Some g" by (cases "m_graph m") (simp_all add: VerifyModel_def)
  with assms obtain cat ids where parts: "Build (m_struct_types m) = Inr cat" "VerifyGraph (Some cat) True False None g = Inr ()"
    "foldR (verify_model_function cat) (m_functions m) {} = Inr ids"
    unfolding VerifyModel_def by auto
  have "\<forall>f \<in> set fs. VerifyFunction (Some cat) f = Inr ()" if "foldR (verify_model_function cat) fs ids = Inr ids'" for fs ids ids'
    using that by (induction fs arbitrary: ids) (auto simp: verify_model_function_def)
  with that [OF g parts(1,2)] parts(3) show thesis by blast
qed

text \<open>The annotations of the graph of a message, written back to the nodes of the message.\<close>

definition set_metadata :: "node_proto \<Rightarrow> (string \<times> string) list \<Rightarrow> node_proto" where
  "set_metadata nd meta = NodeProto (n_op_type nd) (n_domain nd) (n_overload nd) (n_input nd) (n_output nd) (n_attribute nd) meta"

primrec with_node_protos :: "node_proto list \<Rightarrow> graph_proto \<Rightarrow> graph_proto" where
  "with_node_protos nodes' (GraphProto ins inits sparse ext nodes outs infos bindings) =
     GraphProto ins inits sparse ext nodes' outs infos bindings"

definition annotate_message :: "shapes \<Rightarrow> (string \<times> string) list \<Rightarrow> bool \<Rightarrow> cache \<Rightarrow> graph_proto \<Rightarrow> graph_proto res" where
  "annotate_message ctx tags overwrite c g =
     bindR (annotate_graph ctx tags overwrite c (abs_graph g)) (\<lambda>annotated.
       Inr (with_node_protos (map2 (\<lambda>nd nd'. set_metadata nd (metadata_props nd')) (g_node g) (graph_node annotated)) g))"

text \<open>The constructor of a plan: the check of the persistent inputs, then the schedule.\<close>

definition ExecutionPlan_of_graph :: "graph_proto \<Rightarrow> plan_state res" where
  "ExecutionPlan_of_graph g = bindR (VerifyPersistentInputUses g) (\<lambda>_. BuildActions (plan_of_graph (abs_graph g)))"

lemma abs_set_metadata: "abs_node (set_metadata nd (f (n_metadata_props nd))) = with_metadata f (abs_node nd)"
  by (cases nd) (simp add: set_metadata_def)

lemma count_set_metadata [simp]: "count_node_uses (set_metadata nd meta) = count_node_uses nd"
  by (intro ext) (cases nd, simp add: set_metadata_def)

lemma input_uses_of_nodes:
  "map count_node_uses nodes' = map count_node_uses (g_node g) \<Longrightarrow>
   VerifyPersistentInputUses (with_node_protos nodes' g) = VerifyPersistentInputUses g"
  by (cases g) (simp add: VerifyPersistentInputUses_def)

text \<open>The message that is annotated stands for the annotated graph, and its persistent inputs have the same uses.\<close>

lemma annotate_message_abs:
  assumes "annotate_graph ctx tags overwrite c (abs_graph g) = Inr annotated"
  shows "\<exists>h. annotate_message ctx tags overwrite c g = Inr h \<and> abs_graph h = annotated \<and>
    VerifyPersistentInputUses h = VerifyPersistentInputUses g"
proof -
  have nodes: "graph_node (abs_graph g) = map abs_node (g_node g)" by (cases g) simp
  obtain ann nodes' where w: "WriteToMetadata ann (map abs_node (g_node g)) = Inr nodes'"
    and annotated: "annotated = with_nodes nodes' (abs_graph g)"
    using assms by (auto simp: annotate_graph_def nodes)
  let ?new = "map2 (\<lambda>nd nd'. set_metadata nd (metadata_props nd')) (g_node g) nodes'"
  have len: "length nodes' = length (g_node g)"
    using w by (auto simp: WriteToMetadata_def Let_def split: if_splits)
  have "map abs_node ?new = nodes'"
  proof (rule nth_equalityI)
    fix i assume i: "i < length (map abs_node ?new)"
    with len have i': "i < length (map abs_node (g_node g))" by simp
    from WriteToMetadata_nth(1) [OF w this] obtain f where f: "nodes' ! i = with_metadata f (abs_node (g_node g ! i))"
      using i' by auto
    have "metadata_props (nodes' ! i) = f (n_metadata_props (g_node g ! i))"
      unfolding f by (cases "g_node g ! i") simp
    then show "map abs_node ?new ! i = nodes' ! i" using i' len by (simp add: abs_set_metadata f)
  qed (simp add: len)
  moreover have "abs_graph (with_node_protos ?new g) = with_nodes (map abs_node ?new) (abs_graph g)" by (cases g) simp
  moreover have "map count_node_uses ?new = map count_node_uses (g_node g)"
    by (rule nth_equalityI) (simp_all add: len)
  ultimately show ?thesis
    using assms input_uses_of_nodes [of ?new g] by (simp add: annotate_message_def annotated)
qed

lemma accepted_input_uses:
  assumes "VerifyGraph cat True False None g = Inr ()"
  shows "VerifyPersistentInputUses g = Inr ()"
proof -
  from assms have "VerifyPersistentBindings cat g True = Inr ()" by (cases g) (simp split: sum.splits)
  then show ?thesis
    by (auto simp: VerifyPersistentBindings_def VerifyPersistentInputUses_def Let_def split: if_splits)
qed

text \<open>C2: A model that the verifier accepts can be executed.  Its nodes carry none of the four lifetime annotations
  yet (a stale list would be left in place by an empty one, and the planner would reject it).  Whatever
  shapes and value tags the analysis is given, when the search for in-place reuses returns, the main graph
  is annotated, the planner accepts the annotated graph with its check of the persistent inputs, the plan
  runs from the first action to the last with everything a node reads present, and at the end exactly the
  outputs that nodes produced are live and nothing is locked.\<close>

theorem verified_model_runs:
  assumes "VerifyModel m = Inr ()" "m_graph m = Some g" "\<forall>nd \<in> set (g_node g). unannotated (abs_node nd)"
    and "ComputeInPlaceReuseMatches ctx (map abs_node (g_node g)) (ComputeResultLifetimeInfo (abs_graph g) overwrite) c =
      Inr (matches, cs)"
  shows "\<exists>h plan memory. annotate_message ctx tags overwrite c g = Inr h \<and> ExecutionPlan_of_graph h = Inr plan \<and>
    perform_all (plan_of_graph (abs_graph h)) (actions plan) nothing = Some memory \<and>
    live memory = outputs_in (g_node g) \<inter> set (map info_name (g_output g)) \<and> held memory = {}"
proof -
  have abs: "graph_node (abs_graph g) = map abs_node (g_node g)"
    "graph_output (abs_graph g) = map info_name (g_output g)" by (cases g; simp)+
  from assms(1,2) obtain cat where ok: "VerifyGraph (Some cat) True False None g = Inr ()"
    by (auto elim: VerifyModel_parts)
  have un: "\<forall>nd \<in> set (graph_node (abs_graph g)). unannotated nd" using assms(3) abs by simp
  from annotated_plan_is_complete_core [OF assms(4) [folded abs(1)] accepted_well_formed(1) [OF ok] un]
  obtain annotated plan memory where run: "annotate_graph ctx tags overwrite c (abs_graph g) = Inr annotated"
    "BuildActions (plan_of_graph annotated) = Inr plan"
    "perform_all (plan_of_graph annotated) (actions plan) nothing = Some memory"
    "live memory = outputs_of (graph_node (abs_graph g)) \<inter> set (graph_output (abs_graph g))" "held memory = {}" by blast
  from annotate_message_abs [OF run(1)] run(2-) accepted_input_uses [OF ok] show ?thesis
    by (auto simp: ExecutionPlan_of_graph_def abs outputs_of_abs)
qed

text \<open>C23: The body of a model-local function that the verifier accepts can be executed too: its plan
  exists and runs from the first action to the last, every name its nodes read from outside is one of
  its parameters, and every result it returns is a parameter or was produced and is still live.  This is
  for bodies in which no attribute that refers to an attribute of the function carries a graph of its own
  (the verifier does not look into such a graph, see \<open>dangling_accepted\<close>), and whose nodes carry none of
  the four lifetime annotations that the planner reads.\<close>

theorem verified_function_runs:
  assumes "VerifyModel m = Inr ()" "f \<in> set (m_functions m)"
    and "list_all plain_node (f_node f)" "\<forall>nd \<in> set (f_node f). unannotated (abs_node nd)"
  shows "\<exists>plan memory. BuildActions (plan_of_function (abs_function f)) = Inr plan \<and>
    perform_all (plan_of_function (abs_function f)) (actions plan) nothing = Some memory \<and>
    set (CollectExternalInputs (map abs_node (f_node f))) \<subseteq> set (f_input f) \<and>
    set (f_output f) - {''''} \<subseteq> set (f_input f) \<union> live memory"
proof -
  from assms(1,2) obtain cat where ok: "VerifyFunction (Some cat) f = Inr ()"
    by (auto elim!: VerifyModel_parts)
  note acc = accepted_function [OF ok assms(3)]
  have nodes: "function_node (abs_function f) = map abs_node (f_node f)" by (simp add: abs_function_def)
  have plan_nodes: "plan_nodes (plan_of_function (abs_function f)) = map abs_node (f_node f)"
    by (simp add: plan_of_function_def Let_def nodes)
  obtain plan where plan: "BuildActions (plan_of_function (abs_function f)) = Inr plan"
    using unannotated_plan [of "plan_of_function (abs_function f)"] assms(4) by (auto simp: plan_nodes)
  from plan_executes [OF plan function_well_scoped [OF acc(2)]] obtain memory where
    memory: "perform_all (plan_of_function (abs_function f)) (actions plan) nothing = Some memory"
      "outputs_of (map abs_node (f_node f)) \<inter> plan_keep (plan_of_function (abs_function f)) \<subseteq> live memory"
    by (auto simp: plan_nodes)
  have "set (f_output f) - {''''} \<subseteq> plan_keep (plan_of_function (abs_function f))"
    by (auto simp: plan_of_function_def Let_def nonempty_names_def abs_function_def)
  with acc(5) memory(2) have "set (f_output f) - {''''} \<subseteq> set (f_input f) \<union> live memory"
    by (auto simp: outputs_of_abs)
  with plan memory(1) acc(6) show ?thesis by (auto simp: nodes)
qed

section \<open>Samples\<close>

definition plain_value :: attribute_value where
  "plain_value = \<lparr>attr_f = None, attr_i = None, attr_s = None, attr_t = None, attr_sparse_tensor = None,
     attr_tp = None, attr_floats = [], attr_ints = [], attr_strings = [], attr_tensors = [],
     attr_sparse_tensors = [], attr_type_protos = []\<rparr>"

definition float_info :: "string \<Rightarrow> value_info" where
  "float_info name = \<lparr>info_name = name,
     info_type = Some (TensorType \<lparr>tensor_elem_type = Some FLOAT, tensor_shape = Some []\<rparr>)\<rparr>"

text \<open>\<open>y\<close> is computed from \<open>x\<close> in two steps; the second is a conditional whose branch reads \<open>t\<close>.\<close>

definition sample_branch :: graph_proto where
  "sample_branch = GraphProto [] [] [] [] [NodeProto ''Abs'' '''' '''' [''t''] [''b''] [] []]
     [\<lparr>info_name = ''b'', info_type = None\<rparr>] [] []"

definition sample_main :: graph_proto where
  "sample_main = GraphProto [float_info ''x''] [] [] []
     [NodeProto ''Neg'' '''' '''' [''x''] [''t''] [] [],
      NodeProto ''If'' '''' '''' [''x''] [''y'']
        [AttributeProto ''then_branch'' '''' A_GRAPH plain_value (Some sample_branch) []] []]
     [float_info ''y''] [] []"

definition sample_function :: function_proto where
  "sample_function = \<lparr>f_name = ''Twice'', f_domain = ''local'', f_overload = '''', f_input = [''a''],
     f_output = [''b''], f_attribute = [], f_attribute_proto = [],
     f_node = [NodeProto ''Add'' '''' '''' [''a'', ''a''] [''b''] [] []],
     f_opset_import = [\<lparr>opset_domain = '''', opset_version = 20\<rparr>], f_value_info = []\<rparr>"

definition sample_model :: model_proto where
  "sample_model = \<lparr>m_graph = Some sample_main, m_opset_import = [\<lparr>opset_domain = '''', opset_version = 20\<rparr>],
     m_struct_types = [], m_functions = [sample_function]\<rparr>"

lemma sample_model_accepted: "VerifyModel sample_model = Inr ()"
  by code_simp

definition main_shapes :: shapes where
  "main_shapes = [''x'' \<mapsto> f32 [], ''t'' \<mapsto> f32 [], ''y'' \<mapsto> f32 []]"

lemma main_reuse:
  "case ComputeInPlaceReuseMatches main_shapes (map abs_node (g_node sample_main))
     (ComputeResultLifetimeInfo (abs_graph sample_main) False) None of
   Inl e \<Rightarrow> False | Inr (matches, cs) \<Rightarrow> True"
  by code_simp

lemma verified_model_runs_witness:
  "\<exists>h plan memory. annotate_message main_shapes [] False None sample_main = Inr h \<and> ExecutionPlan_of_graph h = Inr plan \<and>
    perform_all (plan_of_graph (abs_graph h)) (actions plan) nothing = Some memory \<and> live memory = {''y''} \<and> held memory = {}"
proof -
  have g: "m_graph sample_model = Some sample_main" by (simp add: sample_model_def)
  have un: "\<forall>nd \<in> set (g_node sample_main). unannotated (abs_node nd)"
    by (simp add: sample_main_def unannotated_def)
  obtain matches cs where m: "ComputeInPlaceReuseMatches main_shapes (map abs_node (g_node sample_main))
     (ComputeResultLifetimeInfo (abs_graph sample_main) False) None = Inr (matches, cs)"
    using main_reuse by (auto split: sum.splits)
  have outs: "outputs_in (g_node sample_main) \<inter> set (map info_name (g_output sample_main)) = {''y''}"
    by (auto simp: sample_main_def float_info_def)
  from verified_model_runs [OF sample_model_accepted g un m, of "[]"] show ?thesis unfolding outs .
qed

lemma verified_function_runs_witness:
  "\<exists>plan memory. BuildActions (plan_of_function (abs_function sample_function)) = Inr plan \<and>
    perform_all (plan_of_function (abs_function sample_function)) (actions plan) nothing = Some memory \<and>
    ''b'' \<in> live memory"
proof -
  have "sample_function \<in> set (m_functions sample_model)" by (simp add: sample_model_def)
  moreover have "list_all plain_node (f_node sample_function)" by (simp add: sample_function_def)
  moreover have "\<forall>nd \<in> set (f_node sample_function). unannotated (abs_node nd)"
    by (simp add: sample_function_def unannotated_def)
  ultimately obtain plan memory where "BuildActions (plan_of_function (abs_function sample_function)) = Inr plan"
    "perform_all (plan_of_function (abs_function sample_function)) (actions plan) nothing = Some memory"
    "set (f_output sample_function) - {''''} \<subseteq> set (f_input sample_function) \<union> live memory"
    using verified_function_runs [OF sample_model_accepted] by metis
  then show ?thesis by (auto simp: sample_function_def)
qed

section \<open>References in function bodies\<close>

text \<open>
  An attribute of a function body that refers to an attribute of the function is accepted with any
  value beside the reference; here a graph that reads a name that nothing defines.
\<close>

definition dangling_branch :: graph_proto where
  "dangling_branch = GraphProto [] [] [] [] [NodeProto ''Abs'' '''' '''' [''nowhere''] [''b''] [] []]
     [\<lparr>info_name = ''b'', info_type = None\<rparr>] [] []"

definition dangling_node :: "string \<Rightarrow> node_proto" where
  "dangling_node ref = NodeProto ''If'' '''' '''' [''a''] [''b'']
     [AttributeProto ''then_branch'' ref A_GRAPH plain_value (Some dangling_branch) []] []"

definition dangling_function :: "string \<Rightarrow> function_proto" where
  "dangling_function ref = sample_function\<lparr>f_attribute := [''branch''], f_node := [dangling_node ref]\<rparr>"

lemma dangling_accepted: "VerifyFunction None (dangling_function ''branch'') = Inr ()"
  by code_simp

lemma dangling_rejected: "VerifyFunction None (dangling_function '''') = Inl InvalidArgument"
  by code_simp

end
