(* ===== verification/WireStream.thy ===== *)
theory WireStream
  imports Prelude "HOL-Library.Word"
begin

unbundle bit_operations_syntax

text \<open>
  The byte streams of \<open>onnx_proto\<close>: the in-memory reader \<open>StringStream\<close> and the encoders of
  \<open>BinaryWriteStream\<close> (\<open>src/onnx_proto/src/stream.cc\<close>).  A reader is the buffer, the position, the active
  limit and the stack of saved limits; a reading function returns its outcome and the reader it
  leaves behind, also when it throws, since the limits that an exception leaves on the stack matter
  to the destructor.  A writer appends to a byte list.  The lemmas say what the decoders do on the
  encoders' output (\<open>visible\<close> are the bytes before the active limit) and that the sizes computed
  without writing are the sizes written.
\<close>

section \<open>Readers\<close>

type_synonym byte = "8 word"

text \<open>
  A malformed stream is a \<open>std::runtime_error\<close> or a \<open>std::invalid_argument\<close>; a configured resource
  limit is a \<open>ParseLimitExceeded\<close>, which callers do not turn into a rejected parse.
  \<open>Unfinished\<close> is no outcome of the code: the recursion of the model was given too small a bound.
\<close>

datatype wire_error = Malformed | LimitExceeded | Unfinished

record reader =
  rdata :: "byte list"
  rpos :: nat
  rsize :: nat
  rlimits :: "nat list"

type_synonym 'a rd = "reader \<Rightarrow> (wire_error + 'a) \<times> reader"

definition rd_bind :: "'a rd \<Rightarrow> ('a \<Rightarrow> 'b rd) \<Rightarrow> 'b rd" where
  "rd_bind m f r = (case m r of (Inl e, r') \<Rightarrow> (Inl e, r') | (Inr x, r') \<Rightarrow> f x r')"

definition rd_return :: "'a \<Rightarrow> 'a rd" where
  "rd_return x r = (Inr x, r)"

definition rd_throw :: "wire_error \<Rightarrow> 'a rd" where
  "rd_throw e r = (Inl e, r)"

definition rd_enforce :: "bool \<Rightarrow> wire_error \<Rightarrow> unit rd" where
  "rd_enforce b e = (if b then rd_return () else rd_throw e)"

text \<open>The stream that \<open>StringStream(data, size)\<close> builds.\<close>

definition StringStream :: "byte list \<Rightarrow> reader" where
  "StringStream bytes = \<lparr>rdata = bytes, rpos = 0, rsize = length bytes, rlimits = []\<rparr>"

definition NotEnd :: "reader \<Rightarrow> bool" where
  "NotEnd r \<longleftrightarrow> rpos r < rsize r"

definition CanRead :: "64 word \<Rightarrow> unit rd" where
  "CanRead len r = rd_enforce (rpos r \<le> rsize r \<and> uint len \<le> int (rsize r - rpos r)) Malformed r"

definition read_bytes :: "nat \<Rightarrow> byte list rd" where
  "read_bytes n r =
     (if rpos r + n \<le> rsize r
      then (Inr (take n (drop (rpos r) (rdata r))), r\<lparr>rpos := rpos r + n\<rparr>)
      else (Inl Malformed, r))"

definition skip_bytes :: "nat \<Rightarrow> unit rd" where
  "skip_bytes n r =
     (if rpos r + n \<le> rsize r then (Inr (), r\<lparr>rpos := rpos r + n\<rparr>) else (Inl Malformed, r))"

text \<open>
  \<open>next_uint64\<close>: a fast path for one byte, then a loop of at most ten bytes.  The shift reaches 63 for
  the tenth byte, whose upper bits are lost.
\<close>

fun next_uint64_loop :: "nat \<Rightarrow> nat \<Rightarrow> 64 word \<Rightarrow> 64 word rd" where
  "next_uint64_loop 0 shift result r = (Inl Malformed, r)"
| "next_uint64_loop (Suc k) shift result r =
     (if rpos r < rsize r
      then let b = rdata r ! rpos r;
               r' = r\<lparr>rpos := rpos r + 1\<rparr>;
               result' = result OR push_bit shift (ucast (b AND 0x7F) :: 64 word)
           in if b AND 0x80 = 0 then (Inr result', r')
              else next_uint64_loop k (shift + 7) result' r'
      else (Inl Malformed, r))"

definition next_uint64 :: "64 word rd" where
  "next_uint64 r =
     (if rpos r < rsize r \<and> (rdata r ! rpos r) AND 0x80 = 0
      then (Inr (ucast (rdata r ! rpos r)), r\<lparr>rpos := rpos r + 1\<rparr>)
      else next_uint64_loop 10 0 0 r)"

definition next_string :: "byte list rd" where
  "next_string = rd_bind next_uint64 (\<lambda>len. rd_bind (CanRead len) (\<lambda>_. read_bytes (unat len)))"

text \<open>A tag is the field number and the wire type.\<close>

definition next_field :: "(64 word \<times> 64 word) rd" where
  "next_field = rd_bind next_uint64 (\<lambda>v. rd_return (drop_bit 3 v, v AND 0x07))"

text \<open>\<open>LimitTo\<close> needs a saved limit; \<open>LimitToNext\<close> pushes one, \<open>Restore\<close> pops it.\<close>

definition LimitTo :: "nat \<Rightarrow> unit rd" where
  "LimitTo len r = (if rlimits r \<noteq> [] then (Inr (), r\<lparr>rsize := len\<rparr>) else (Inl Malformed, r))"

definition LimitToNext :: "64 word \<Rightarrow> unit rd" where
  "LimitToNext len = rd_bind (CanRead len)
     (\<lambda>_ r. LimitTo (rpos r + unat len) (r\<lparr>rlimits := rsize r # rlimits r\<rparr>))"

definition Restore :: "unit rd" where
  "Restore r = (case rlimits r of [] \<Rightarrow> (Inl Malformed, r)
     | saved # rest \<Rightarrow> rd_bind (LimitTo saved) (\<lambda>_ r. (Inr (), r\<lparr>rlimits := tl (rlimits r)\<rparr>)) r)"

text \<open>
  \<open>StreamLimitGuard\<close>: \<open>Restore\<close> runs when the scope is left, by a return or by an exception.
\<close>

definition StreamLimitGuard :: "'a rd \<Rightarrow> 'a rd" where
  "StreamLimitGuard body r = (case body r of (out, r') \<Rightarrow>
     (case Restore r' of (Inl e, r'') \<Rightarrow> (Inl e, r'') | (Inr _, r'') \<Rightarrow> (out, r'')))"

text \<open>
  \<open>~BinaryStream\<close> checks that no limit is left.  A destructor is \<open>noexcept\<close>, so a failed check ends the
  process.
\<close>

definition destructor_aborts :: "reader \<Rightarrow> bool" where
  "destructor_aborts r \<longleftrightarrow> rlimits r \<noteq> []"

section \<open>Encoders\<close>

function write_variant_uint64 :: "64 word \<Rightarrow> byte list" where
  "write_variant_uint64 value =
     (if value > 127
      then ucast ((value AND 0x7F) OR 0x80) # write_variant_uint64 (drop_bit 7 value)
      else [ucast value])"
  by auto

text \<open>\<open>VarintSize\<close> is a \<open>do\<close> loop: count, shift, go on while something is left.\<close>

function VarintSize :: "64 word \<Rightarrow> nat" where
  "VarintSize value = (if drop_bit 7 value \<noteq> 0 then Suc (VarintSize (drop_bit 7 value)) else 1)"
  by auto

text \<open>The tag is built in 32 bits, so a field number of more than 29 bits would lose its upper part.\<close>

definition field_tag :: "32 word \<Rightarrow> 32 word \<Rightarrow> 64 word" where
  "field_tag field_number wire_type = ucast (push_bit 3 field_number OR wire_type)"

definition write_field_header :: "32 word \<Rightarrow> 32 word \<Rightarrow> byte list" where
  "write_field_header field_number wire_type = write_variant_uint64 (field_tag field_number wire_type)"

definition size_field_header :: "32 word \<Rightarrow> 32 word \<Rightarrow> nat" where
  "size_field_header field_number wire_type = VarintSize (field_tag field_number wire_type)"

definition write_string :: "byte list \<Rightarrow> byte list" where
  "write_string value = write_variant_uint64 (of_nat (length value)) @ value"

definition size_string :: "byte list \<Rightarrow> nat" where
  "size_string value = VarintSize (of_nat (length value)) + length value"

text \<open>The bytes of a little-endian \<open>float\<close> or \<open>double\<close> are its bit pattern.\<close>

definition le_bytes :: "nat \<Rightarrow> 'a :: len word \<Rightarrow> byte list" where
  "le_bytes n x = map (\<lambda>i. ucast (drop_bit (8 * i) x)) [0 ..< n]"

fun le_value :: "byte list \<Rightarrow> 'a :: len word" where
  "le_value [] = 0"
| "le_value (b # bs) = ucast b OR push_bit 8 (le_value bs)"

definition write_float :: "32 word \<Rightarrow> byte list" where
  "write_float x = le_bytes 4 x"

definition write_double :: "64 word \<Rightarrow> byte list" where
  "write_double x = le_bytes 8 x"

definition next_float :: "32 word rd" where
  "next_float = rd_bind (read_bytes 4) (\<lambda>bs. rd_return (le_value bs))"

definition next_double :: "64 word rd" where
  "next_double = rd_bind (read_bytes 8) (\<lambda>bs. rd_return (le_value bs))"

subsection \<open>Termination and sizes\<close>

lemma unat_shifted: "unat (drop_bit 7 (value :: 64 word)) = unat value div 128"
  by (simp add: drop_bit_eq_div unat_div)

lemma shifted_smaller: "(value :: 64 word) > 127 \<Longrightarrow> unat (drop_bit 7 value) < unat value"
  by (simp add: unat_shifted word_less_nat_alt)

termination write_variant_uint64
  by (relation "measure unat") (auto simp: shifted_smaller)

lemma shifted_nonzero: "drop_bit 7 value \<noteq> 0 \<longleftrightarrow> (value :: 64 word) > 127"
  by (simp add: unat_shifted word_less_nat_alt word_unat_eq_iff div_greater_zero_iff Suc_le_eq
      less_Suc_eq_le flip: neq0_conv) arith

termination VarintSize
  by (relation "measure unat") (auto simp: shifted_smaller shifted_nonzero)

declare write_variant_uint64.simps [simp del] VarintSize.simps [simp del]

lemma length_write_variant_uint64 [simp]: "length (write_variant_uint64 v) = VarintSize v"
proof (induction v rule: write_variant_uint64.induct)
  case (1 v)
  then show ?case
    by (subst write_variant_uint64.simps, subst VarintSize.simps) (auto simp: shifted_nonzero)
qed


text \<open>A varint takes from one to ten bytes.\<close>

lemma VarintSize_bounds: "1 \<le> VarintSize v" "unat v < 2 ^ (7 * Suc k) \<Longrightarrow> VarintSize v \<le> Suc k"
proof -
  show "1 \<le> VarintSize v"
    by (subst VarintSize.simps) simp
  show "unat v < 2 ^ (7 * Suc k) \<Longrightarrow> VarintSize v \<le> Suc k"
  proof (induction k arbitrary: v)
    case 0
    then have "\<not> drop_bit 7 v \<noteq> 0"
      unfolding shifted_nonzero by (simp add: word_less_nat_alt)
    then show ?case
      by (subst VarintSize.simps) simp
  next
    case (Suc k)
    have "unat (drop_bit 7 v) < 2 ^ (7 * Suc k)"
      unfolding unat_shifted using Suc.prems by (intro div_less_iff_less_mult [THEN iffD2]) (auto simp: power_add)
    from Suc.IH [OF this] show ?case
      by (subst VarintSize.simps) simp
  qed
qed

lemma VarintSize_le_10: "VarintSize v \<le> 10"
proof -
  have "unat v < 2 ^ 64"
    using unsigned_less [of v] by simp
  then have "unat v < 2 ^ (7 * Suc 9)"
    by simp
  from VarintSize_bounds(2) [OF this] show ?thesis
    by simp
qed

subsection \<open>Bytes of a varint\<close>

lemma bit_7F: "bit (127 :: int) n \<longleftrightarrow> n < 7"
proof -
  have "(127 :: int) = mask 7"
    by (simp add: mask_eq_exp_minus_1)
  then show ?thesis
    by (simp only: bit_mask_iff) simp
qed

lemma bit_80: "bit (128 :: int) n \<longleftrightarrow> n = 7"
proof -
  have "(128 :: int) = 2 ^ 7"
    by simp
  then show ?thesis
    by (simp only: bit_exp_iff) auto
qed

lemma and_80_eq_0: "(b :: byte) AND 0x80 = 0 \<longleftrightarrow> \<not> bit b 7"
  unfolding bit_eq_iff by (auto simp: bit_simps bit_80 dest: spec [where x = 7])

lemma small_bits:
  assumes "\<not> v > (127 :: 64 word)" and "bit v n"
  shows "n < 7"
proof (rule ccontr)
  assume "\<not> n < 7"
  then have "bit (drop_bit 7 v) (n - 7)"
    using assms(2) by (simp add: bit_drop_bit_eq)
  moreover have "drop_bit 7 v = 0"
    using assms(1) shifted_nonzero [of v] by blast
  ultimately show False
    by simp
qed

lemma continued_byte:
  fixes v :: "64 word"
  shows "(ucast ((v AND 0x7F) OR 0x80) :: byte) AND 0x80 \<noteq> 0"
    and "ucast ((ucast ((v AND 0x7F) OR 0x80) :: byte) AND 0x7F) = v AND 0x7F"
proof -
  show "(ucast ((v AND 0x7F) OR 0x80) :: byte) AND 0x80 \<noteq> 0"
    unfolding and_80_eq_0 by (simp add: bit_simps bit_80)
  show "ucast ((ucast ((v AND 0x7F) OR 0x80) :: byte) AND 0x7F) = v AND 0x7F"
    by (rule bit_eqI) (auto simp: bit_simps bit_80 bit_7F)
qed

lemma final_byte:
  fixes v :: "64 word"
  assumes "\<not> v > 127"
  shows "(ucast v :: byte) AND 0x80 = 0" and "ucast ((ucast v :: byte) AND 0x7F) = v"
    and "ucast (ucast v :: byte) = v"
proof -
  note bits = small_bits [OF assms]
  show "(ucast v :: byte) AND 0x80 = 0"
    unfolding and_80_eq_0 using bits [of 7] by (auto simp: bit_simps)
  show "ucast ((ucast v :: byte) AND 0x7F) = v"
    by (rule bit_eqI) (auto simp: bit_simps bit_7F dest: bits)
  show "ucast (ucast v :: byte) = v"
    by (rule bit_eqI) (auto simp: bit_simps intro: less_trans [OF bits])
qed

lemma varint_halves:
  "push_bit s (v AND 0x7F) OR push_bit (s + 7) (drop_bit 7 v) = push_bit s (v :: 64 word)"
proof (rule bit_eqI)
  fix n
  show "bit (push_bit s (v AND 0x7F) OR push_bit (s + 7) (drop_bit 7 v)) n = bit (push_bit s v) n"
    by (cases "s + 7 \<le> n") (auto simp: bit_simps bit_7F)
qed

section \<open>Readers on what writers wrote\<close>

text \<open>The bytes between the position and the active limit, and the reader after a number of them.\<close>

definition visible :: "reader \<Rightarrow> byte list" where
  "visible r = take (rsize r - rpos r) (drop (rpos r) (rdata r))"

definition adv :: "nat \<Rightarrow> reader \<Rightarrow> reader" where
  "adv n r = r\<lparr>rpos := rpos r + n\<rparr>"

text \<open>A reader inside its buffer, with its saved limits in order.\<close>

definition reader_ok :: "reader \<Rightarrow> bool" where
  "reader_ok r \<longleftrightarrow> rpos r \<le> rsize r \<and> length (rdata r) < 2 ^ 63
     \<and> sorted (rsize r # rlimits r @ [length (rdata r)])"

lemma adv_simps [simp]:
  "rdata (adv n r) = rdata r" "rpos (adv n r) = rpos r + n" "rsize (adv n r) = rsize r"
  "rlimits (adv n r) = rlimits r" "adv 0 r = r" "adv m (adv n r) = adv (n + m) r"
  by (simp_all add: adv_def)

lemma reader_ok_size: "reader_ok r \<Longrightarrow> rsize r \<le> length (rdata r)"
  by (auto simp: reader_ok_def)

lemma length_visible: "reader_ok r \<Longrightarrow> length (visible r) = rsize r - rpos r"
  by (auto simp: visible_def dest: reader_ok_size)

lemma visible_adv: "visible (adv n r) = drop n (visible r)"
  by (simp add: visible_def drop_take add.commute)

lemma reader_ok_adv: "reader_ok r \<Longrightarrow> n \<le> length (visible r) \<Longrightarrow> reader_ok (adv n r)"
  by (auto simp: length_visible) (auto simp: reader_ok_def)

lemma visible_Cons:
  assumes "visible r = b # bs"
  shows "rpos r < rsize r" "rdata r ! rpos r = b" "visible (adv 1 r) = bs"
proof -
  show "rpos r < rsize r"
    using assms by (cases "rsize r - rpos r") (auto simp: visible_def)
  obtain c cs where c: "drop (rpos r) (rdata r) = c # cs"
    using assms by (cases "drop (rpos r) (rdata r)") (auto simp: visible_def)
  have "c = b"
    using assms \<open>rpos r < rsize r\<close> by (cases "rsize r - rpos r") (auto simp: visible_def c)
  then show "rdata r ! rpos r = b"
    using c by (metis nth_via_drop)
  show "visible (adv 1 r) = bs"
    using assms by (simp add: visible_adv)
qed

lemma NotEnd_visible: "NotEnd r \<longleftrightarrow> visible r \<noteq> []" if "reader_ok r"
  using length_visible [OF that] by (cases "visible r") (auto simp: NotEnd_def)

lemma adv_1: "r\<lparr>rpos := Suc (rpos r)\<rparr> = adv 1 r"
  by (simp add: adv_def)

lemma next_uint64_loop_varint:
  assumes "visible r = write_variant_uint64 v @ ys" and "VarintSize v \<le> k"
  shows "next_uint64_loop k s acc r = (Inr (acc OR push_bit s v), adv (VarintSize v) r)"
  using assms
proof (induction v arbitrary: r k s acc rule: write_variant_uint64.induct)
  case (1 v)
  then obtain k' where k: "k = Suc k'"
    using VarintSize_bounds(1) [of v] by (cases k) auto
  show ?case
  proof (cases "v > 127")
    case True
    have sz: "VarintSize v = Suc (VarintSize (drop_bit 7 v))"
      using True by (subst VarintSize.simps) (simp add: shifted_nonzero)
    have enc: "visible r = ucast ((v AND 0x7F) OR 0x80) # (write_variant_uint64 (drop_bit 7 v) @ ys)"
      using 1(2) True by (subst (asm) write_variant_uint64.simps) simp
    note step = visible_Cons [OF enc]
    show ?thesis
      using step 1(1) [OF True step(3), of k' "s + 7" "acc OR push_bit s (v AND 0x7F)"] 1(3) k sz
        continued_byte [of v] varint_halves [of s v]
      by (simp add: Let_def adv_1 or.assoc)
  next
    case False
    have sz: "VarintSize v = 1"
      using False by (subst VarintSize.simps) (simp add: shifted_nonzero)
    have enc: "visible r = ucast v # ys"
      using 1(2) False by (subst (asm) write_variant_uint64.simps) simp
    show ?thesis
      using visible_Cons [OF enc] k sz final_byte [OF False] by (simp add: Let_def adv_1)
  qed
qed

lemma next_uint64_varint:
  assumes "visible r = write_variant_uint64 v @ ys"
  shows "next_uint64 r = (Inr v, adv (VarintSize v) r)"
proof (cases "v > 127")
  case True
  have enc: "visible r = ucast ((v AND 0x7F) OR 0x80) # (write_variant_uint64 (drop_bit 7 v) @ ys)"
    using assms True by (subst (asm) write_variant_uint64.simps) simp
  show ?thesis
    using visible_Cons [OF enc] continued_byte(1) [of v]
      next_uint64_loop_varint [OF assms VarintSize_le_10, of 0 0]
    by (simp add: next_uint64_def)
next
  case False
  have sz: "VarintSize v = 1"
    using False by (subst VarintSize.simps) (simp add: shifted_nonzero)
  have enc: "visible r = ucast v # ys"
    using assms False by (subst (asm) write_variant_uint64.simps) simp
  show ?thesis
    using visible_Cons [OF enc] sz final_byte [OF False] by (simp add: next_uint64_def adv_1)
qed

lemma unat_of_length: "length bs < 2 ^ 64 \<Longrightarrow> unat (of_nat (length bs) :: 64 word) = length bs"
  by (simp add: unsigned_of_nat take_bit_nat_eq_self)

lemma uint_le_iff_unat_le: "uint len \<le> int n \<longleftrightarrow> unat len \<le> n"
  by (simp flip: of_nat_le_iff [where 'a = int])

lemma CanRead_visible:
  "reader_ok r \<Longrightarrow> unat len \<le> length (visible r) \<Longrightarrow> CanRead len r = (Inr (), r)"
  by (auto simp: CanRead_def rd_enforce_def rd_return_def length_visible uint_le_iff_unat_le)
    (auto simp: reader_ok_def)

lemma read_bytes_visible:
  assumes "reader_ok r" and "n \<le> length (visible r)"
  shows "read_bytes n r = (Inr (take n (visible r)), adv n r)"
proof -
  have "rpos r + n \<le> rsize r"
    using assms by (auto simp: length_visible reader_ok_def)
  then show ?thesis
    by (simp add: read_bytes_def adv_def visible_def min_absorb1)
qed

lemma skip_bytes_visible:
  assumes "reader_ok r" and "n \<le> length (visible r)"
  shows "skip_bytes n r = (Inr (), adv n r)"
  using assms by (auto simp: skip_bytes_def adv_def length_visible) (auto simp: reader_ok_def)

text \<open>A length-prefixed block that fits in what is visible.\<close>

lemma visible_short: "reader_ok r \<Longrightarrow> length (visible r) < 2 ^ 64"
  by (auto simp: length_visible) (auto simp: reader_ok_def)

lemma visible_after: "visible r = xs @ ys \<Longrightarrow> visible (adv (length xs) r) = ys"
  by (simp add: visible_adv)

lemma reader_ok_after: "reader_ok r \<Longrightarrow> visible r = xs @ ys \<Longrightarrow> reader_ok (adv (length xs) r)"
  by (simp add: reader_ok_adv)

lemma next_length:
  assumes "reader_ok r" and "visible r = write_string bs @ ys"
  shows "next_uint64 r = (Inr (of_nat (length bs)), adv (VarintSize (of_nat (length bs))) r)"
    and "visible (adv (VarintSize (of_nat (length bs))) r) = bs @ ys"
    and "reader_ok (adv (VarintSize (of_nat (length bs))) r)"
    and "unat (of_nat (length bs) :: 64 word) = length bs"
proof -
  let ?n = "of_nat (length bs) :: 64 word"
  have enc: "visible r = write_variant_uint64 ?n @ (bs @ ys)"
    using assms(2) by (simp add: write_string_def)
  show "next_uint64 r = (Inr ?n, adv (VarintSize ?n) r)"
    by (rule next_uint64_varint [OF enc])
  show "visible (adv (VarintSize ?n) r) = bs @ ys"
    using visible_after [OF enc] by simp
  show "reader_ok (adv (VarintSize ?n) r)"
    using reader_ok_after [OF assms(1) enc] by simp
  show "unat ?n = length bs"
    using visible_short [OF assms(1)] enc by (intro unat_of_length) simp
qed

lemma next_string_write_string:
  assumes "reader_ok r" and "visible r = write_string bs @ ys"
  shows "next_string r = (Inr bs, adv (size_string bs) r)"
  using next_length [OF assms]
  by (simp add: next_string_def rd_bind_def CanRead_visible read_bytes_visible size_string_def add.commute)

lemma length_write_string [simp]: "length (write_string bs) = size_string bs"
  by (simp add: write_string_def size_string_def)

lemma length_write_field_header [simp]:
  "length (write_field_header fn wt) = size_field_header fn wt"
  by (simp add: write_field_header_def size_field_header_def)

text \<open>Tags with a field number of at most 29 bits.\<close>

definition field_order_ok :: "32 word \<Rightarrow> bool" where
  "field_order_ok fn \<longleftrightarrow> unat fn < 2 ^ 29"

lemma bit_bound: "bit w n \<Longrightarrow> unat w < 2 ^ k \<Longrightarrow> n < k"
proof (rule ccontr)
  assume "bit w n" and "unat w < 2 ^ k" and "\<not> n < k"
  then have "unat w < 2 ^ n"
    by (meson less_le_trans not_less power_increasing one_le_numeral)
  then have "unat w div 2 ^ n = 0"
    by simp
  moreover have "odd (unat w div 2 ^ n)"
    using \<open>bit w n\<close> by (simp add: bit_unsigned_iff flip: bit_iff_odd)
  ultimately show False
    by simp
qed

lemma bit_7: "bit (7 :: int) n \<longleftrightarrow> n < 3"
proof -
  have "(7 :: int) = mask 3"
    by (simp add: mask_eq_exp_minus_1)
  then show ?thesis
    by (simp only: bit_mask_iff) simp
qed

lemma field_tag_parts:
  assumes "field_order_ok fn" and "unat wt < 8"
  shows "drop_bit 3 (field_tag fn wt) = ucast fn" and "field_tag fn wt AND 0x07 = ucast wt"
proof -
  have fn: "n < 29" if "bit fn n" for n
    using bit_bound [OF that] assms(1) by (simp add: field_order_ok_def)
  have wt: "n < 3" if "bit wt n" for n
    using bit_bound [OF that, of 3] assms(2) by simp
  show "drop_bit 3 (field_tag fn wt) = ucast fn"
    by (rule bit_eqI) (auto simp: field_tag_def bit_simps dest: fn wt)
  show "field_tag fn wt AND 0x07 = ucast wt"
    by (rule bit_eqI) (auto simp: field_tag_def bit_simps bit_7 dest: wt)
qed

lemma next_field_header:
  assumes "visible r = write_field_header fn wt @ ys" and "field_order_ok fn" and "unat wt < 8"
  shows "next_field r = (Inr (ucast fn, ucast wt), adv (size_field_header fn wt) r)"
proof -
  have "next_uint64 r = (Inr (field_tag fn wt), adv (size_field_header fn wt) r)"
    using next_uint64_varint assms(1) unfolding write_field_header_def size_field_header_def by blast
  then show ?thesis
    using field_tag_parts [OF assms(2,3)] by (simp add: next_field_def rd_bind_def rd_return_def)
qed

subsection \<open>Fixed-width values\<close>

lemma length_le_bytes [simp]: "length (le_bytes n x) = n"
  by (simp add: le_bytes_def)

lemma length_write_float [simp]: "length (write_float x) = 4" "length (write_double y) = 8"
  by (simp_all add: write_float_def write_double_def)

lemma le_value_le_bytes: "le_value (le_bytes n x) = take_bit (8 * n) x"
proof (induction n arbitrary: x)
  case 0
  then show ?case
    by (simp add: le_bytes_def)
next
  case (Suc n)
  have "le_bytes (Suc n) x = ucast x # le_bytes n (drop_bit 8 x)"
    by (simp add: le_bytes_def upt_conv_Cons map_Suc_upt [symmetric] del: upt_Suc) (simp add: add.commute)
  then have "le_value (le_bytes (Suc n) x)
      = ucast (ucast x :: byte) OR push_bit 8 (take_bit (8 * n) (drop_bit 8 x))"
    using Suc by simp
  also have "\<dots> = take_bit (8 * Suc n) x"
    by (rule bit_eqI) (auto simp: bit_simps)
  finally show ?case .
qed

lemma le_value_float [simp]: "le_value (write_float x) = x"
  by (simp add: write_float_def le_value_le_bytes take_bit_word_eq_self)

lemma le_value_double [simp]: "le_value (write_double x) = x"
  by (simp add: write_double_def le_value_le_bytes take_bit_word_eq_self)

lemma next_float_bytes:
  assumes "reader_ok r" and "visible r = write_float x @ ys"
  shows "next_float r = (Inr x, adv 4 r)"
  using assms by (simp add: next_float_def rd_bind_def rd_return_def read_bytes_visible)

lemma next_double_bytes:
  assumes "reader_ok r" and "visible r = write_double x @ ys"
  shows "next_double r = (Inr x, adv 8 r)"
  using assms by (simp add: next_double_def rd_bind_def rd_return_def read_bytes_visible)

subsection \<open>Limits\<close>

definition limited :: "nat \<Rightarrow> reader \<Rightarrow> reader" where
  "limited n r = r\<lparr>rsize := rpos r + n, rlimits := rsize r # rlimits r\<rparr>"

lemma LimitToNext_visible:
  assumes "reader_ok r" and "unat len \<le> length (visible r)"
  shows "LimitToNext len r = (Inr (), limited (unat len) r)"
  using CanRead_visible [OF assms] by (simp add: LimitToNext_def rd_bind_def LimitTo_def limited_def)

lemma visible_limited:
  assumes "reader_ok r" and "n \<le> length (visible r)"
  shows "visible (limited n r) = take n (visible r)"
  using assms by (simp add: length_visible) (simp add: visible_def limited_def min_absorb1)

lemma reader_ok_limited:
  assumes "reader_ok r" and "n \<le> length (visible r)"
  shows "reader_ok (limited n r)"
  using assms by (simp add: length_visible) (auto simp: reader_ok_def limited_def)

lemma Restore_limited: "Restore (adv k (limited n r)) = (Inr (), adv k r)"
  by (simp add: Restore_def LimitTo_def rd_bind_def limited_def adv_def)

lemma StreamLimitGuard_limited:
  assumes "body (limited n r) = (Inr x, adv k (limited n r))"
  shows "StreamLimitGuard body (limited n r) = (Inr x, adv k r)"
  using assms by (simp add: StreamLimitGuard_def Restore_limited)

end
