(* ===== verification/WireSchema.thy ===== *)
theory WireSchema
  imports WireStream
begin

text \<open>
  The fields of every message class of \<open>onnx_proto\<close>.  The three functions of a class in \<open>onnx.cc\<close>,
  \<open>SerializeSize\<close>, \<open>SerializeToStream\<close> and \<open>ParseFromStream\<close>, are sequences of macros over the same
  fields; a class is here the list of them in the order in which they are written (which is also the
  order in which the size adds them up, except that \<open>TensorProto\<close> reads its text fields earlier, where
  the order of the tests does not matter), with the field number and the C++ type that
  \<open>onnx.h\<close> declares, which together select the template instance.  The macros and the templates are
  modelled in \<open>WireMessages\<close> and \<open>WireParse\<close>.
\<close>

section \<open>Kinds of fields\<close>

datatype ntype = I64 | U64 | I32 | U32

datatype cls =
    C_StringStringEntryProto | C_IntIntListEntryProto | C_TensorAnnotation
  | C_DeviceConfigurationProto | C_SimpleShardedDimProto | C_ShardedDimProto
  | C_ShardingSpecProto | C_NodeDeviceConfigurationProto | C_OperatorSetIdProto
  | C_TensorShapeProto | C_TensorShapeProto_Dimension | C_TensorProto | C_TensorProto_Segment
  | C_SparseTensorProto | C_TypeProto | C_TypeProto_Tensor | C_TypeProto_SparseTensor
  | C_TypeProto_Sequence | C_TypeProto_Optional | C_TypeProto_Map | C_TypeProto_Opaque
  | C_AffineLayoutProto | C_StructTypeProto | C_StructTypeProto_Structure
  | C_StructTypeProto_Structure_Field | C_StructTypeProto_BitPacking
  | C_StructTypeProto_BitPacking_Component | C_StructTypeProto_Array | C_EncodedValueProto
  | C_PagedCacheBlockProto | C_PagedCacheProto | C_ExtendedInitializerProto | C_ValueInfoProto
  | C_AttributeProto | C_NodeProto | C_PersistentBindingProto | C_GraphProto | C_FunctionProto
  | C_LocalRewritingProto | C_MoveNodeProto | C_RewritingProto | C_ModelProto | C_PipelineProto
  | C_SequenceProto | C_MapProto | C_OptionalProto

text \<open>
  A field is declared by \<open>FIELD_STR\<close> (\<open>F_str\<close>; \<open>F_str_always\<close> when the macros \<open>SIZE_FIELD_EMPTY\<close> and
  \<open>WRITE_FIELD_EMPTY\<close> write it even if unset), \<open>FIELD\<close> and \<open>FIELD_DEFAULT\<close> (a number with its default,
  an enumeration, a message), \<open>FIELD_OPTIONAL\<close> and \<open>FIELD_OPTIONAL_ENUM\<close>, \<open>FIELD_BYTES\<close> (\<open>F_raw\<close> when it
  goes through \<open>write_field_limit\<close>), \<open>FIELD_OPTIONAL_ONEOF\<close> with the number of its group in the class,
  \<open>FIELD_REPEATED\<close>, \<open>FIELD_REPEATED_STR\<close> and \<open>FIELD_REPEATED_PACKED\<close> (the flag), \<open>FIELD_REPEATED_PROTO\<close>
  or \<open>FIELD_MAP_PROTO\<close>.
\<close>

datatype fkind =
    F_str | F_str_always | F_num ntype "64 word" | F_opt_num ntype | F_opt_float | F_enum | F_opt_enum
  | F_bytes | F_raw | F_strs | F_nums ntype bool | F_floats bool | F_doubles bool
  | F_msg cls | F_opt_msg cls | F_one_msg cls nat | F_one_num ntype nat | F_msgs cls | F_map cls

type_synonym schema = "(32 word \<times> fkind) list"

section \<open>The classes\<close>

definition StringStringEntryProto_fields :: schema where
  "StringStringEntryProto_fields = [
    (1, F_str), (2, F_str)]"

definition IntIntListEntryProto_fields :: schema where
  "IntIntListEntryProto_fields = [
    (1, F_num I64 0), (2, F_nums I64 False)]"

definition TensorAnnotation_fields :: schema where
  "TensorAnnotation_fields = [
    (1, F_str), (2, F_msgs C_StringStringEntryProto)]"

definition DeviceConfigurationProto_fields :: schema where
  "DeviceConfigurationProto_fields = [
    (1, F_str), (2, F_num I32 0), (3, F_strs)]"

definition SimpleShardedDimProto_fields :: schema where
  "SimpleShardedDimProto_fields = [
    (1, F_opt_num I64), (2, F_str), (3, F_num I64 0)]"

definition ShardedDimProto_fields :: schema where
  "ShardedDimProto_fields = [
    (1, F_num I64 0), (2, F_msgs C_SimpleShardedDimProto)]"

definition ShardingSpecProto_fields :: schema where
  "ShardingSpecProto_fields = [
    (1, F_str), (2, F_nums I64 False), (3, F_msgs C_IntIntListEntryProto),
    (4, F_msgs C_ShardedDimProto)]"

definition NodeDeviceConfigurationProto_fields :: schema where
  "NodeDeviceConfigurationProto_fields = [
    (1, F_str), (2, F_msgs C_ShardingSpecProto), (3, F_opt_num I32)]"

definition OperatorSetIdProto_fields :: schema where
  "OperatorSetIdProto_fields = [
    (1, F_str_always), (2, F_num I64 0)]"

definition TensorShapeProto_fields :: schema where
  "TensorShapeProto_fields = [
    (1, F_msgs C_TensorShapeProto_Dimension)]"

definition TensorShapeProto_Dimension_fields :: schema where
  "TensorShapeProto_Dimension_fields = [
    (1, F_opt_num I64), (2, F_str), (3, F_str)]"

definition TensorProto_fields :: schema where
  "TensorProto_fields = [
    (1, F_nums I64 False), (2, F_enum), (3, F_opt_msg C_TensorProto_Segment), (14, F_opt_enum),
    (8, F_str), (9, F_raw), (12, F_str), (13, F_msgs C_StringStringEntryProto),
    (16, F_msgs C_StringStringEntryProto), (10, F_doubles True), (4, F_floats True),
    (5, F_nums I32 True), (7, F_nums I64 True), (11, F_nums U64 True), (6, F_strs)]"

definition TensorProto_Segment_fields :: schema where
  "TensorProto_Segment_fields = [
    (1, F_opt_num I64), (2, F_opt_num I64)]"

definition SparseTensorProto_fields :: schema where
  "SparseTensorProto_fields = [
    (1, F_msg C_TensorProto), (2, F_msg C_TensorProto), (3, F_nums I64 False)]"

definition TypeProto_fields :: schema where
  "TypeProto_fields = [
    (1, F_one_msg C_TypeProto_Tensor 0), (4, F_one_msg C_TypeProto_Sequence 0),
    (5, F_one_msg C_TypeProto_Map 0), (7, F_one_msg C_TypeProto_Opaque 0), (6, F_str),
    (8, F_one_msg C_TypeProto_SparseTensor 0), (9, F_one_msg C_TypeProto_Optional 0),
    (1000, F_one_msg C_StructTypeProto 0)]"

definition TypeProto_Tensor_fields :: schema where
  "TypeProto_Tensor_fields = [
    (1, F_opt_enum), (2, F_opt_msg C_TensorShapeProto)]"

definition TypeProto_SparseTensor_fields :: schema where
  "TypeProto_SparseTensor_fields = [
    (1, F_opt_enum), (2, F_opt_msg C_TensorShapeProto)]"

definition TypeProto_Sequence_fields :: schema where
  "TypeProto_Sequence_fields = [
    (1, F_opt_msg C_TypeProto)]"

definition TypeProto_Optional_fields :: schema where
  "TypeProto_Optional_fields = [
    (1, F_opt_msg C_TypeProto)]"

definition TypeProto_Map_fields :: schema where
  "TypeProto_Map_fields = [
    (1, F_num I32 (- 1)), (2, F_opt_msg C_TypeProto)]"

definition TypeProto_Opaque_fields :: schema where
  "TypeProto_Opaque_fields = [
    (1, F_str), (2, F_str)]"

definition AffineLayoutProto_fields :: schema where
  "AffineLayoutProto_fields = [
    (1, F_opt_enum), (2, F_opt_msg C_TensorProto), (3, F_opt_msg C_TensorProto),
    (4, F_opt_num I64), (5, F_opt_num U64), (6, F_opt_num I32)]"

definition StructTypeProto_fields :: schema where
  "StructTypeProto_fields = [
    (1, F_one_msg C_StructTypeProto_Array 0), (2, F_one_msg C_StructTypeProto_Structure 0),
    (3, F_one_msg C_StructTypeProto_BitPacking 0), (4, F_one_num U64 0),
    (5, F_opt_msg C_FunctionProto), (6, F_opt_msg C_FunctionProto), (7, F_str), (8, F_str),
    (9, F_msgs C_StringStringEntryProto), (10, F_opt_num U64)]"

definition StructTypeProto_Structure_fields :: schema where
  "StructTypeProto_Structure_fields = [
    (1, F_msgs C_StructTypeProto_Structure_Field)]"

definition StructTypeProto_Structure_Field_fields :: schema where
  "StructTypeProto_Structure_Field_fields = [
    (1, F_str), (2, F_one_msg C_TypeProto 0), (3, F_str), (4, F_one_msg C_TensorProto 0)]"

definition StructTypeProto_BitPacking_fields :: schema where
  "StructTypeProto_BitPacking_fields = [
    (1, F_msgs C_StructTypeProto_BitPacking_Component), (2, F_num U64 0)]"

definition StructTypeProto_BitPacking_Component_fields :: schema where
  "StructTypeProto_BitPacking_Component_fields = [
    (1, F_str), (2, F_num U32 0)]"

definition StructTypeProto_Array_fields :: schema where
  "StructTypeProto_Array_fields = [
    (1, F_opt_msg C_TypeProto), (2, F_num U64 0)]"

definition EncodedValueProto_fields :: schema where
  "EncodedValueProto_fields = [
    (1, F_one_msg C_AffineLayoutProto 0), (2, F_one_msg C_StructTypeProto 0),
    (3, F_opt_msg C_TypeProto), (4, F_bytes), (5, F_msgs C_StringStringEntryProto),
    (6, F_opt_enum), (7, F_str), (8, F_str), (10, F_str)]"

definition PagedCacheBlockProto_fields :: schema where
  "PagedCacheBlockProto_fields = [
    (1, F_opt_num I64), (2, F_opt_num I64), (3, F_one_msg C_TensorProto 0),
    (5, F_one_msg C_EncodedValueProto 0), (4, F_one_msg C_TensorProto 1),
    (6, F_one_msg C_EncodedValueProto 1)]"

definition PagedCacheProto_fields :: schema where
  "PagedCacheProto_fields = [
    (1, F_msgs C_PagedCacheBlockProto), (2, F_str), (3, F_str)]"

definition ExtendedInitializerProto_fields :: schema where
  "ExtendedInitializerProto_fields = [
    (1, F_one_msg C_EncodedValueProto 0), (2, F_one_msg C_PagedCacheProto 0)]"

definition ValueInfoProto_fields :: schema where
  "ValueInfoProto_fields = [
    (1, F_str), (2, F_opt_msg C_TypeProto), (3, F_str), (4, F_msgs C_StringStringEntryProto)]"

definition AttributeProto_fields :: schema where
  "AttributeProto_fields = [
    (1, F_str), (21, F_str), (20, F_enum), (13, F_str), (2, F_opt_float), (3, F_opt_num I64),
    (4, F_str), (5, F_opt_msg C_TensorProto), (22, F_opt_msg C_SparseTensorProto),
    (6, F_opt_msg C_GraphProto), (14, F_opt_msg C_TypeProto), (7, F_floats False),
    (8, F_nums I64 False), (9, F_strs), (10, F_msgs C_TensorProto),
    (23, F_msgs C_SparseTensorProto), (11, F_msgs C_GraphProto), (15, F_msgs C_TypeProto)]"

definition NodeProto_fields :: schema where
  "NodeProto_fields = [
    (1, F_strs), (2, F_strs), (3, F_str), (4, F_str), (5, F_msgs C_AttributeProto), (7, F_str),
    (8, F_str), (6, F_str), (9, F_msgs C_StringStringEntryProto),
    (10, F_msgs C_NodeDeviceConfigurationProto)]"

definition PersistentBindingProto_fields :: schema where
  "PersistentBindingProto_fields = [
    (1, F_str), (2, F_str)]"

definition GraphProto_fields :: schema where
  "GraphProto_fields = [
    (1, F_msgs C_NodeProto), (2, F_str), (5, F_msgs C_TensorProto),
    (15, F_msgs C_SparseTensorProto), (10, F_str), (11, F_msgs C_ValueInfoProto),
    (12, F_msgs C_ValueInfoProto), (13, F_msgs C_ValueInfoProto),
    (14, F_msgs C_TensorAnnotation), (16, F_msgs C_StringStringEntryProto),
    (1000, F_msgs C_ExtendedInitializerProto), (1001, F_msgs C_PersistentBindingProto)]"

definition FunctionProto_fields :: schema where
  "FunctionProto_fields = [
    (1, F_str), (4, F_strs), (5, F_strs), (6, F_strs), (11, F_msgs C_AttributeProto),
    (7, F_msgs C_NodeProto), (8, F_str), (9, F_msgs C_OperatorSetIdProto), (10, F_str),
    (13, F_str), (12, F_msgs C_ValueInfoProto), (14, F_msgs C_StringStringEntryProto)]"

definition LocalRewritingProto_fields :: schema where
  "LocalRewritingProto_fields = [
    (1, F_str), (2, F_strs), (3, F_nums U64 False), (4, F_nums U64 False),
    (5, F_msgs C_NodeProto), (6, F_nums U64 False), (7, F_msgs C_TensorProto),
    (8, F_nums U64 False), (10, F_msgs C_StringStringEntryProto), (11, F_msgs C_NodeProto),
    (12, F_nums U64 False), (13, F_nums U64 False)]"

definition MoveNodeProto_fields :: schema where
  "MoveNodeProto_fields = [
    (1, F_opt_num U64), (2, F_opt_num U64), (3, F_strs), (4, F_str)]"

definition RewritingProto_fields :: schema where
  "RewritingProto_fields = [
    (1, F_msgs C_LocalRewritingProto), (2, F_msgs C_OperatorSetIdProto),
    (3, F_msgs C_StringStringEntryProto), (4, F_msgs C_FunctionProto), (5, F_strs),
    (6, F_opt_num U64), (7, F_opt_num U64), (8, F_msgs C_MoveNodeProto)]"

definition ModelProto_fields :: schema where
  "ModelProto_fields = [
    (1, F_opt_num I64), (8, F_msgs C_OperatorSetIdProto), (2, F_str), (3, F_str), (4, F_str),
    (5, F_opt_num I64), (6, F_str), (7, F_opt_msg C_GraphProto),
    (14, F_msgs C_StringStringEntryProto), (25, F_msgs C_FunctionProto),
    (26, F_msgs C_DeviceConfigurationProto), (1000, F_msgs C_StructTypeProto),
    (1001, F_map C_RewritingProto)]"

definition PipelineProto_fields :: schema where
  "PipelineProto_fields = [
    (1, F_str), (2, F_str), (3, F_str), (4, F_str), (5, F_opt_num I64), (6, F_str),
    (7, F_opt_msg C_ModelProto), (8, F_opt_msg C_ModelProto), (9, F_opt_msg C_ModelProto),
    (10, F_opt_num I64), (11, F_opt_float), (12, F_opt_num I64), (14, F_opt_num I64),
    (15, F_opt_num I64), (16, F_opt_float), (17, F_str), (18, F_str), (19, F_str), (20, F_str),
    (21, F_msgs C_StringStringEntryProto), (22, F_nums I64 False)]"

definition SequenceProto_fields :: schema where
  "SequenceProto_fields = [
    (1, F_str), (2, F_enum), (3, F_msgs C_TensorProto), (4, F_msgs C_SparseTensorProto),
    (5, F_msgs C_SequenceProto), (6, F_msgs C_MapProto), (7, F_msgs C_OptionalProto)]"

definition MapProto_fields :: schema where
  "MapProto_fields = [
    (1, F_str), (2, F_enum), (3, F_nums I64 False), (4, F_strs), (5, F_msg C_SequenceProto)]"

definition OptionalProto_fields :: schema where
  "OptionalProto_fields = [
    (1, F_str), (2, F_enum), (3, F_one_msg C_TensorProto 0),
    (4, F_one_msg C_SparseTensorProto 0), (5, F_one_msg C_SequenceProto 0),
    (6, F_one_msg C_MapProto 0), (7, F_one_msg C_OptionalProto 0)]"

primrec cls_fields :: "cls \<Rightarrow> schema" where
  "cls_fields C_StringStringEntryProto = StringStringEntryProto_fields"
| "cls_fields C_IntIntListEntryProto = IntIntListEntryProto_fields"
| "cls_fields C_TensorAnnotation = TensorAnnotation_fields"
| "cls_fields C_DeviceConfigurationProto = DeviceConfigurationProto_fields"
| "cls_fields C_SimpleShardedDimProto = SimpleShardedDimProto_fields"
| "cls_fields C_ShardedDimProto = ShardedDimProto_fields"
| "cls_fields C_ShardingSpecProto = ShardingSpecProto_fields"
| "cls_fields C_NodeDeviceConfigurationProto = NodeDeviceConfigurationProto_fields"
| "cls_fields C_OperatorSetIdProto = OperatorSetIdProto_fields"
| "cls_fields C_TensorShapeProto = TensorShapeProto_fields"
| "cls_fields C_TensorShapeProto_Dimension = TensorShapeProto_Dimension_fields"
| "cls_fields C_TensorProto = TensorProto_fields"
| "cls_fields C_TensorProto_Segment = TensorProto_Segment_fields"
| "cls_fields C_SparseTensorProto = SparseTensorProto_fields"
| "cls_fields C_TypeProto = TypeProto_fields"
| "cls_fields C_TypeProto_Tensor = TypeProto_Tensor_fields"
| "cls_fields C_TypeProto_SparseTensor = TypeProto_SparseTensor_fields"
| "cls_fields C_TypeProto_Sequence = TypeProto_Sequence_fields"
| "cls_fields C_TypeProto_Optional = TypeProto_Optional_fields"
| "cls_fields C_TypeProto_Map = TypeProto_Map_fields"
| "cls_fields C_TypeProto_Opaque = TypeProto_Opaque_fields"
| "cls_fields C_AffineLayoutProto = AffineLayoutProto_fields"
| "cls_fields C_StructTypeProto = StructTypeProto_fields"
| "cls_fields C_StructTypeProto_Structure = StructTypeProto_Structure_fields"
| "cls_fields C_StructTypeProto_Structure_Field = StructTypeProto_Structure_Field_fields"
| "cls_fields C_StructTypeProto_BitPacking = StructTypeProto_BitPacking_fields"
| "cls_fields C_StructTypeProto_BitPacking_Component = StructTypeProto_BitPacking_Component_fields"
| "cls_fields C_StructTypeProto_Array = StructTypeProto_Array_fields"
| "cls_fields C_EncodedValueProto = EncodedValueProto_fields"
| "cls_fields C_PagedCacheBlockProto = PagedCacheBlockProto_fields"
| "cls_fields C_PagedCacheProto = PagedCacheProto_fields"
| "cls_fields C_ExtendedInitializerProto = ExtendedInitializerProto_fields"
| "cls_fields C_ValueInfoProto = ValueInfoProto_fields"
| "cls_fields C_AttributeProto = AttributeProto_fields"
| "cls_fields C_NodeProto = NodeProto_fields"
| "cls_fields C_PersistentBindingProto = PersistentBindingProto_fields"
| "cls_fields C_GraphProto = GraphProto_fields"
| "cls_fields C_FunctionProto = FunctionProto_fields"
| "cls_fields C_LocalRewritingProto = LocalRewritingProto_fields"
| "cls_fields C_MoveNodeProto = MoveNodeProto_fields"
| "cls_fields C_RewritingProto = RewritingProto_fields"
| "cls_fields C_ModelProto = ModelProto_fields"
| "cls_fields C_PipelineProto = PipelineProto_fields"
| "cls_fields C_SequenceProto = SequenceProto_fields"
| "cls_fields C_MapProto = MapProto_fields"
| "cls_fields C_OptionalProto = OptionalProto_fields"

lemmas fields_defs =
  StringStringEntryProto_fields_def IntIntListEntryProto_fields_def TensorAnnotation_fields_def
  DeviceConfigurationProto_fields_def SimpleShardedDimProto_fields_def ShardedDimProto_fields_def
  ShardingSpecProto_fields_def NodeDeviceConfigurationProto_fields_def
  OperatorSetIdProto_fields_def TensorShapeProto_fields_def TensorShapeProto_Dimension_fields_def
  TensorProto_fields_def TensorProto_Segment_fields_def SparseTensorProto_fields_def
  TypeProto_fields_def TypeProto_Tensor_fields_def TypeProto_SparseTensor_fields_def
  TypeProto_Sequence_fields_def TypeProto_Optional_fields_def TypeProto_Map_fields_def
  TypeProto_Opaque_fields_def AffineLayoutProto_fields_def StructTypeProto_fields_def
  StructTypeProto_Structure_fields_def StructTypeProto_Structure_Field_fields_def
  StructTypeProto_BitPacking_fields_def StructTypeProto_BitPacking_Component_fields_def
  StructTypeProto_Array_fields_def EncodedValueProto_fields_def PagedCacheBlockProto_fields_def
  PagedCacheProto_fields_def ExtendedInitializerProto_fields_def ValueInfoProto_fields_def
  AttributeProto_fields_def NodeProto_fields_def PersistentBindingProto_fields_def
  GraphProto_fields_def FunctionProto_fields_def LocalRewritingProto_fields_def
  MoveNodeProto_fields_def RewritingProto_fields_def ModelProto_fields_def
  PipelineProto_fields_def SequenceProto_fields_def MapProto_fields_def OptionalProto_fields_def

text \<open>
  The field numbers that a class refuses: the reader throws instead of skipping the field.
\<close>

definition retired_fields :: "cls \<Rightarrow> 64 word list" where
  "retired_fields c =
     (if c = C_PersistentBindingProto then [3, 4] else if c = C_LocalRewritingProto then [9] else [])"

section \<open>The numbers of a class\<close>

text \<open>Every number is positive and fits the tag, and no two fields of a class share one.\<close>

lemma fields_distinct: "distinct (map fst (cls_fields c))"
  by (cases c) (simp_all add: fields_defs)

lemma fields_order_ok: "(fn, k) \<in> set (cls_fields c) \<Longrightarrow> field_order_ok fn \<and> fn \<noteq> 0"
proof -
  have "list_all (\<lambda>(fn, k). field_order_ok fn \<and> fn \<noteq> 0) (cls_fields c)"
    by (cases c) (simp_all add: fields_defs field_order_ok_def)
  then show "(fn, k) \<in> set (cls_fields c) \<Longrightarrow> field_order_ok fn \<and> fn \<noteq> 0"
    by (auto simp: list_all_iff)
qed

end
