(* ===== verification/WireMessages.thy ===== *)
theory WireMessages
  imports WireSchema
begin

text \<open>
  Messages as values, their sizes and their encoding: the templates \<open>size_field\<close>, \<open>size_repeated_field\<close>
  and relatives of \<open>stream_class_size.hpp\<close>, \<open>write_field\<close>, \<open>write_repeated_field\<close> and relatives of
  \<open>stream_class_write.hpp\<close>, and \<open>SerializeToString\<close> of \<open>stream_class_adapters.hpp\<close>.  A message is the list
  of its fields' values in the order of \<open>WireSchema.cls_fields\<close>.  A number is the \<open>uint64_t\<close> that
  \<open>static_cast\<close> makes of it.  The size pass and the write pass are defined apart, as in the code; the
  theorem is that they agree, so the consistency check of \<open>write_with_cache_size\<close> never throws.

  The size cache of a stream holds, for an object, the result of \<open>SerializeSize\<close> on it; the messages do
  not change between the passes, so a cached size is the size computed again, which is what the
  write pass of the model does.  The streams have no external weights, and no payload is deferred.  A
  sum of sizes is a \<open>nat\<close>: the code adds in \<open>int64_t\<close> the sizes of objects that are in memory together.
\<close>

section \<open>Messages\<close>

datatype msg = Msg "fval list"
and fval =
    V_str "byte list option" | V_num "64 word option" | V_float "32 word option"
  | V_strs "byte list list" | V_nums "64 word list" | V_floats "32 word list" | V_doubles "64 word list"
  | V_msg "msg option" | V_msgs "msg list" | V_map "(byte list \<times> msg) list"

primrec field_values :: "msg \<Rightarrow> fval list" where
  "field_values (Msg vs) = vs"

text \<open>The class of the sub-messages of a field.\<close>

fun class_of :: "fkind \<Rightarrow> cls option" where
  "class_of (F_msg c) = Some c"
| "class_of (F_opt_msg c) = Some c"
| "class_of (F_one_msg c g) = Some c"
| "class_of (F_msgs c) = Some c"
| "class_of (F_map c) = Some c"
| "class_of k = None"

definition packed_kind :: "fkind \<Rightarrow> bool" where
  "packed_kind k \<longleftrightarrow> (case k of F_nums t p \<Rightarrow> p | F_floats p \<Rightarrow> p | F_doubles p \<Rightarrow> p | _ \<Rightarrow> False)"

text \<open>The options that matter: \<open>skip_raw_data\<close> and \<open>raw_data_threshold\<close>, and the limit on the output.\<close>

record serialize_options =
  w_skip_raw_data :: bool
  w_raw_data_threshold :: int
  max_serialized_size_bytes :: int

abbreviation (input) FIELD_VARINT :: "32 word" where "FIELD_VARINT \<equiv> 0"
abbreviation (input) FIELD_FIXED64 :: "32 word" where "FIELD_FIXED64 \<equiv> 1"
abbreviation (input) FIELD_FIXED_SIZE :: "32 word" where "FIELD_FIXED_SIZE \<equiv> 2"
abbreviation (input) FIELD_FIXED32 :: "32 word" where "FIELD_FIXED32 \<equiv> 5"

section \<open>Sizes\<close>

definition make_proto_size :: "nat \<Rightarrow> nat res" where
  "make_proto_size n =
     (if int n < 2 ^ 63 then Inr n else Inl (RuntimeError ''Serialized size exceeds int64_t.''))"

definition sum_sizes :: "nat res list \<Rightarrow> nat res" where
  "sum_sizes rs = foldR (\<lambda>r n. bindR r (\<lambda>s. Inr (n + s))) rs 0"

definition size_field_string :: "32 word \<Rightarrow> byte list \<Rightarrow> nat res" where
  "size_field_string fn s = make_proto_size (size_field_header fn FIELD_FIXED_SIZE + size_string s)"

definition size_field_number :: "32 word \<Rightarrow> 64 word \<Rightarrow> nat res" where
  "size_field_number fn w = make_proto_size (size_field_header fn FIELD_VARINT + VarintSize w)"

definition size_field_float :: "32 word \<Rightarrow> 32 word \<Rightarrow> nat res" where
  "size_field_float fn x = make_proto_size (size_field_header fn FIELD_FIXED32 + 4)"

definition size_field_bytes :: "32 word \<Rightarrow> byte list \<Rightarrow> nat res" where
  "size_field_bytes fn bs = make_proto_size
     (size_field_header fn FIELD_FIXED_SIZE + VarintSize (of_nat (length bs)) + length bs)"

definition keeps_raw_data :: "serialize_options \<Rightarrow> nat \<Rightarrow> bool" where
  "keeps_raw_data os n \<longleftrightarrow>
     \<not> w_skip_raw_data os \<or> (of_nat n :: 64 word) < of_int (w_raw_data_threshold os)"

definition size_field_limit :: "serialize_options \<Rightarrow> 32 word \<Rightarrow> byte list \<Rightarrow> nat res" where
  "size_field_limit os fn bs = (if keeps_raw_data os (length bs) then size_field_bytes fn bs else Inr 0)"

definition size_repeated_strings :: "32 word \<Rightarrow> byte list list \<Rightarrow> nat res" where
  "size_repeated_strings fn ss = sum_sizes (map (\<lambda>s. make_proto_size
     (size_field_header fn FIELD_FIXED_SIZE + VarintSize (of_nat (length s)) + length s)) ss)"

definition size_repeated_numbers :: "32 word \<Rightarrow> bool \<Rightarrow> 64 word list \<Rightarrow> nat res" where
  "size_repeated_numbers fn packed ws =
     (if packed
      then let size = sum_list (map VarintSize ws)
           in make_proto_size (size_field_header fn FIELD_FIXED_SIZE + VarintSize (of_nat size) + size)
      else sum_sizes (map (\<lambda>w. make_proto_size (size_field_header fn FIELD_VARINT + VarintSize w)) ws))"

definition size_repeated_fixed :: "32 word \<Rightarrow> bool \<Rightarrow> nat \<Rightarrow> 'a list \<Rightarrow> nat res" where
  "size_repeated_fixed fn packed width xs =
     (if packed
      then let size = length xs * width
           in make_proto_size (size_field_header fn FIELD_FIXED_SIZE + VarintSize (of_nat size) + size)
      else sum_sizes (map (\<lambda>x. make_proto_size
             (size_field_header fn (if width = 4 then FIELD_FIXED32 else FIELD_FIXED64) + width)) xs))"

text \<open>A sub-message: its tag, the length of its size, and its size.\<close>

definition size_sub_message :: "32 word \<Rightarrow> nat \<Rightarrow> nat res" where
  "size_sub_message fn s =
     make_proto_size (size_field_header fn FIELD_FIXED_SIZE + VarintSize (of_nat s) + s)"

definition size_map_entry :: "32 word \<Rightarrow> byte list \<Rightarrow> nat \<Rightarrow> nat res" where
  "size_map_entry fn key s =
     (if key = [] then Inl (RuntimeError ''Map keys must not be empty.'')
      else bindR (size_sub_message 2 s)
        (\<lambda>a. bindR (make_proto_size (size_field_header 1 FIELD_FIXED_SIZE + size_string key))
        (\<lambda>b. bindR (make_proto_size
                      (size_field_header fn FIELD_FIXED_SIZE + VarintSize (of_nat (a + b))))
        (\<lambda>c. Inr (a + b + c)))))"

text \<open>
  The macros.  An unset optional adds nothing; an empty repeated field is skipped by its
  \<open>has_\<close> test; \<open>SIZE_FIELD_EMPTY\<close> has no test, and an unset string counts as the empty one.
\<close>

function (sequential) SerializeSize :: "serialize_options \<Rightarrow> cls \<Rightarrow> msg \<Rightarrow> nat res"
  and size_fields :: "serialize_options \<Rightarrow> schema \<Rightarrow> fval list \<Rightarrow> nat res"
  and size_value :: "serialize_options \<Rightarrow> 32 word \<Rightarrow> fkind \<Rightarrow> fval \<Rightarrow> nat res"
  and size_message :: "serialize_options \<Rightarrow> 32 word \<Rightarrow> cls option \<Rightarrow> msg \<Rightarrow> nat res"
  and size_messages :: "serialize_options \<Rightarrow> 32 word \<Rightarrow> cls option \<Rightarrow> msg list \<Rightarrow> nat res"
  and size_map :: "serialize_options \<Rightarrow> 32 word \<Rightarrow> cls option \<Rightarrow> (byte list \<times> msg) list \<Rightarrow> nat res"
  where
  "SerializeSize os c (Msg vs) = size_fields os (cls_fields c) vs"
| "size_fields os ((fn, k) # fs) (v # vs) =
     bindR (size_value os fn k v) (\<lambda>a. bindR (size_fields os fs vs) (\<lambda>b. Inr (a + b)))"
| "size_fields os fs vs = Inr 0"
| "size_value os fn k (V_str None) = (if k = F_str_always then size_field_string fn [] else Inr 0)"
| "size_value os fn k (V_str (Some s)) =
     (case k of F_raw \<Rightarrow> size_field_limit os fn s | F_bytes \<Rightarrow> size_field_bytes fn s
      | _ \<Rightarrow> size_field_string fn s)"
| "size_value os fn k (V_num None) = Inr 0"
| "size_value os fn k (V_num (Some w)) = size_field_number fn w"
| "size_value os fn k (V_float None) = Inr 0"
| "size_value os fn k (V_float (Some x)) = size_field_float fn x"
| "size_value os fn k (V_strs ss) = (if ss = [] then Inr 0 else size_repeated_strings fn ss)"
| "size_value os fn k (V_nums ws) =
     (if ws = [] then Inr 0 else size_repeated_numbers fn (packed_kind k) ws)"
| "size_value os fn k (V_floats xs) =
     (if xs = [] then Inr 0 else size_repeated_fixed fn (packed_kind k) 4 xs)"
| "size_value os fn k (V_doubles xs) =
     (if xs = [] then Inr 0 else size_repeated_fixed fn (packed_kind k) 8 xs)"
| "size_value os fn k (V_msg None) = Inr 0"
| "size_value os fn k (V_msg (Some m)) = size_message os fn (class_of k) m"
| "size_value os fn k (V_msgs ms) = size_messages os fn (class_of k) ms"
| "size_value os fn k (V_map es) = size_map os fn (class_of k) es"
| "size_message os fn None m = Inr 0"
| "size_message os fn (Some c) m = bindR (SerializeSize os c m) (size_sub_message fn)"
| "size_messages os fn c [] = Inr 0"
| "size_messages os fn c (m # ms) =
     bindR (size_message os fn c m) (\<lambda>a. bindR (size_messages os fn c ms) (\<lambda>b. Inr (a + b)))"
| "size_map os fn c [] = Inr 0"
| "size_map os fn None es = Inr 0"
| "size_map os fn (Some c) ((key, m) # es) =
     bindR (SerializeSize os c m) (\<lambda>s. bindR (size_map_entry fn key s)
       (\<lambda>a. bindR (size_map os fn (Some c) es) (\<lambda>b. Inr (a + b))))"
  by pat_completeness auto

text \<open>A sub-message is smaller than the value that holds it.\<close>

termination
  by (relation "measure (case_sum
        (case_sum (\<lambda>(os, c, m). 2 * size m)
          (case_sum (\<lambda>(os, fs, vs). 2 * size_list size vs) (\<lambda>(os, fn, k, v). 2 * size v)))
        (case_sum (\<lambda>(os, fn, c, m). 2 * size m + 1)
          (case_sum (\<lambda>(os, fn, c, ms). 2 * size_list size ms + 1)
            (\<lambda>(os, fn, c, es). 2 * size_list (size_prod (\<lambda>_. 0) size) es + 1))))")
    simp_all

section \<open>Encoding\<close>

definition write_field_string :: "32 word \<Rightarrow> byte list \<Rightarrow> byte list" where
  "write_field_string fn s = write_field_header fn FIELD_FIXED_SIZE @ write_string s"

definition write_field_number :: "32 word \<Rightarrow> 64 word \<Rightarrow> byte list" where
  "write_field_number fn w = write_field_header fn FIELD_VARINT @ write_variant_uint64 w"

definition write_field_float :: "32 word \<Rightarrow> 32 word \<Rightarrow> byte list" where
  "write_field_float fn x = write_field_header fn FIELD_FIXED32 @ write_float x"

definition write_field_limit :: "serialize_options \<Rightarrow> 32 word \<Rightarrow> byte list \<Rightarrow> byte list" where
  "write_field_limit os fn bs =
     (if keeps_raw_data os (length bs)
      then write_field_header fn FIELD_FIXED_SIZE @ write_variant_uint64 (of_nat (length bs)) @ bs
      else [])"

definition write_repeated_strings :: "32 word \<Rightarrow> byte list list \<Rightarrow> byte list" where
  "write_repeated_strings fn ss =
     concat (map (\<lambda>s. write_field_header fn FIELD_FIXED_SIZE @ write_string s) ss)"

definition write_repeated_numbers :: "32 word \<Rightarrow> bool \<Rightarrow> 64 word list \<Rightarrow> byte list" where
  "write_repeated_numbers fn packed ws =
     (if packed
      then write_field_header fn FIELD_FIXED_SIZE
             @ write_string (concat (map write_variant_uint64 ws))
      else concat (map (\<lambda>w. write_field_header fn FIELD_VARINT @ write_variant_uint64 w) ws))"

definition write_repeated_fixed ::
    "32 word \<Rightarrow> bool \<Rightarrow> nat \<Rightarrow> ('a \<Rightarrow> byte list) \<Rightarrow> 'a list \<Rightarrow> byte list" where
  "write_repeated_fixed fn packed width enc xs =
     (if packed
      then write_field_header fn FIELD_FIXED_SIZE @ write_variant_uint64 (of_nat (length xs * width))
             @ concat (map enc xs)
      else concat (map (\<lambda>x. write_field_header fn (if width = 4 then FIELD_FIXED32 else FIELD_FIXED64)
             @ enc x) xs))"

text \<open>
  \<open>write_with_cache_size\<close> writes the size that the size pass found, then the message, and throws when
  the message did not take that many bytes.
\<close>

definition write_with_cache_size :: "nat \<Rightarrow> byte list \<Rightarrow> byte list res" where
  "write_with_cache_size proto_size body =
     (if length body = proto_size then Inr (write_variant_uint64 (of_nat proto_size) @ body)
      else Inl (RuntimeError ''size does not match the expected size''))"

function (sequential) SerializeToStream :: "serialize_options \<Rightarrow> cls \<Rightarrow> msg \<Rightarrow> byte list res"
  and write_fields :: "serialize_options \<Rightarrow> schema \<Rightarrow> fval list \<Rightarrow> byte list res"
  and write_value :: "serialize_options \<Rightarrow> 32 word \<Rightarrow> fkind \<Rightarrow> fval \<Rightarrow> byte list res"
  and write_message :: "serialize_options \<Rightarrow> 32 word \<Rightarrow> cls option \<Rightarrow> msg \<Rightarrow> byte list res"
  and write_messages :: "serialize_options \<Rightarrow> 32 word \<Rightarrow> cls option \<Rightarrow> msg list \<Rightarrow> byte list res"
  and write_map :: "serialize_options \<Rightarrow> 32 word \<Rightarrow> cls option \<Rightarrow> (byte list \<times> msg) list \<Rightarrow> byte list res"
  where
  "SerializeToStream os c (Msg vs) = write_fields os (cls_fields c) vs"
| "write_fields os ((fn, k) # fs) (v # vs) =
     bindR (write_value os fn k v) (\<lambda>a. bindR (write_fields os fs vs) (\<lambda>b. Inr (a @ b)))"
| "write_fields os fs vs = Inr []"
| "write_value os fn k (V_str None) = Inr (if k = F_str_always then write_field_string fn [] else [])"
| "write_value os fn k (V_str (Some s)) =
     Inr (case k of F_raw \<Rightarrow> write_field_limit os fn s | _ \<Rightarrow> write_field_string fn s)"
| "write_value os fn k (V_num None) = Inr []"
| "write_value os fn k (V_num (Some w)) = Inr (write_field_number fn w)"
| "write_value os fn k (V_float None) = Inr []"
| "write_value os fn k (V_float (Some x)) = Inr (write_field_float fn x)"
| "write_value os fn k (V_strs ss) = Inr (write_repeated_strings fn ss)"
| "write_value os fn k (V_nums ws) =
     Inr (if ws = [] then [] else write_repeated_numbers fn (packed_kind k) ws)"
| "write_value os fn k (V_floats xs) =
     Inr (if xs = [] then [] else write_repeated_fixed fn (packed_kind k) 4 write_float xs)"
| "write_value os fn k (V_doubles xs) =
     Inr (if xs = [] then [] else write_repeated_fixed fn (packed_kind k) 8 write_double xs)"
| "write_value os fn k (V_msg None) = Inr []"
| "write_value os fn k (V_msg (Some m)) = write_message os fn (class_of k) m"
| "write_value os fn k (V_msgs ms) = write_messages os fn (class_of k) ms"
| "write_value os fn k (V_map es) = write_map os fn (class_of k) es"
| "write_message os fn None m = Inr []"
| "write_message os fn (Some c) m =
     bindR (SerializeSize os c m) (\<lambda>size. bindR (SerializeToStream os c m)
       (\<lambda>body. bindR (write_with_cache_size size body)
       (\<lambda>bs. Inr (write_field_header fn FIELD_FIXED_SIZE @ bs))))"
| "write_messages os fn c [] = Inr []"
| "write_messages os fn c (m # ms) =
     bindR (write_message os fn c m) (\<lambda>a. bindR (write_messages os fn c ms) (\<lambda>b. Inr (a @ b)))"
| "write_map os fn c [] = Inr []"
| "write_map os fn None es = Inr []"
| "write_map os fn (Some c) ((key, m) # es) =
     (if key = [] then Inl (RuntimeError ''Map keys must not be empty.'')
      else bindR (size_message os 2 (Some c) m)
        (\<lambda>size. bindR (write_message os 2 (Some c) m)
        (\<lambda>body. bindR (write_map os fn (Some c) es)
        (\<lambda>rest. let key_size = size_field_header 1 FIELD_FIXED_SIZE + size_string key
                in Inr (write_field_header fn FIELD_FIXED_SIZE
                     @ write_variant_uint64 (of_nat (key_size + size))
                     @ write_field_string 1 key @ body @ rest)))))"
  by pat_completeness auto

termination
  by (relation "measure (case_sum
        (case_sum (\<lambda>(os, c, m). 2 * size m)
          (case_sum (\<lambda>(os, fs, vs). 2 * size_list size vs) (\<lambda>(os, fn, k, v). 2 * size v)))
        (case_sum (\<lambda>(os, fn, c, m). 2 * size m + 1)
          (case_sum (\<lambda>(os, fn, c, ms). 2 * size_list size ms + 1)
            (\<lambda>(os, fn, c, es). 2 * size_list (size_prod (\<lambda>_. 0) size) es + 1))))")
    simp_all

text \<open>
  \<open>SerializeToString\<close>: the size pass, the limit on the output, then the write pass into a buffer of
  that size, whose bounds \<open>BorrowedStringWriteStream\<close> checks.  \<open>None\<close> is the result \<open>false\<close>.
\<close>

definition EnforceMaxSerializedSize :: "serialize_options \<Rightarrow> nat \<Rightarrow> bool res" where
  "EnforceMaxSerializedSize os n =
     (if max_serialized_size_bytes os < 0 then Inl (RuntimeError ''max_serialized_size_bytes must be >= 0'')
      else Inr (max_serialized_size_bytes os = 0 \<or> int n \<le> max_serialized_size_bytes os))"

definition SerializeToString :: "serialize_options \<Rightarrow> cls \<Rightarrow> msg \<Rightarrow> byte list option res" where
  "SerializeToString os c m =
     bindR (SerializeSize os c m) (\<lambda>total. bindR (EnforceMaxSerializedSize os total)
       (\<lambda>fits. if \<not> fits then Inr None
               else bindR (SerializeToStream os c m)
                 (\<lambda>bs. if length bs \<le> total then Inr (Some (bs @ replicate (total - length bs) 0))
                       else Inl (RuntimeError ''Buffer too small''))))"

section \<open>The two passes agree\<close>

lemma make_proto_size_Inr [simp]: "make_proto_size n = Inr s \<longleftrightarrow> s = n \<and> int n < 2 ^ 63"
  by (auto simp: make_proto_size_def)

lemma sum_sizes_concat:
  assumes "sum_sizes (map f xs) = Inr n" and "\<And>x s. f x = Inr s \<Longrightarrow> length (g x) = s"
  shows "length (concat (map g xs)) = n"
proof -
  have "foldR (\<lambda>r n. bindR r (\<lambda>s. Inr (n + s))) (map f xs) a = Inr n
      \<Longrightarrow> a + length (concat (map g xs)) = n" for a
    using assms(2) by (induction xs arbitrary: a) (fastforce simp: add.assoc)+
  from this [of 0] assms(1) show ?thesis
    by (simp add: sum_sizes_def)
qed

lemma length_repeated_strings:
  "size_repeated_strings fn ss = Inr n \<Longrightarrow> length (write_repeated_strings fn ss) = n"
  unfolding size_repeated_strings_def write_repeated_strings_def
  by (erule sum_sizes_concat) (simp add: size_string_def)

lemma length_concat_varints: "length (concat (map write_variant_uint64 ws)) = sum_list (map VarintSize ws)"
  by (induction ws) simp_all

lemma length_repeated_numbers:
  "size_repeated_numbers fn packed ws = Inr n \<Longrightarrow> length (write_repeated_numbers fn packed ws) = n"
  by (cases packed)
    (auto simp: size_repeated_numbers_def write_repeated_numbers_def Let_def size_string_def
      length_concat_varints elim!: sum_sizes_concat)

lemma length_concat_fixed:
  "(\<And>x. length (enc x) = width) \<Longrightarrow> length (concat (map enc xs)) = length xs * width"
  by (induction xs) simp_all

lemma length_repeated_fixed:
  assumes "size_repeated_fixed fn packed width xs = Inr n" and "\<And>x. length (enc x) = width"
  shows "length (write_repeated_fixed fn packed width enc xs) = n"
proof (cases packed)
  case True
  then show ?thesis
    using assms by (simp add: size_repeated_fixed_def write_repeated_fixed_def Let_def length_concat_fixed)
next
  case False
  let ?g = "\<lambda>x. write_field_header fn (if width = 4 then FIELD_FIXED32 else FIELD_FIXED64) @ enc x"
  have "length (concat (map ?g xs)) = n"
  proof (rule sum_sizes_concat)
    show "sum_sizes (map (\<lambda>x. make_proto_size
        (size_field_header fn (if width = 4 then FIELD_FIXED32 else FIELD_FIXED64) + width)) xs) = Inr n"
      using assms(1) False by (simp add: size_repeated_fixed_def)
  qed (use assms(2) in simp)
  then show ?thesis
    using False by (simp only: write_repeated_fixed_def if_False)
qed

named_theorems leaf_sizes
lemmas [leaf_sizes] = size_field_string_def size_field_number_def size_field_float_def
  size_field_bytes_def size_field_limit_def write_field_string_def write_field_number_def
  write_field_float_def write_field_limit_def size_string_def

lemma written_sizes:
  "SerializeSize os c m = Inr n \<Longrightarrow> \<exists>bs. SerializeToStream os c m = Inr bs \<and> length bs = n"
  "size_fields os fs vs = Inr n \<Longrightarrow> \<exists>bs. write_fields os fs vs = Inr bs \<and> length bs = n"
  "size_value os fn k v = Inr n \<Longrightarrow> \<exists>bs. write_value os fn k v = Inr bs \<and> length bs = n"
  "size_message os fn co m = Inr n \<Longrightarrow> \<exists>bs. write_message os fn co m = Inr bs \<and> length bs = n"
  "size_messages os fn co ms = Inr n \<Longrightarrow> \<exists>bs. write_messages os fn co ms = Inr bs \<and> length bs = n"
  "size_map os fn co es = Inr n \<Longrightarrow> \<exists>bs. write_map os fn co es = Inr bs \<and> length bs = n"
proof (induction os c m and os fs vs and os fn k v and os fn co m and os fn co ms and os fn co es
    arbitrary: n and n and n and n and n and n
    rule: SerializeSize_size_fields_size_value_size_message_size_messages_size_map.induct)
  case (2 os fn k fs v vs)
  then show ?case by fastforce
next
  case (5 os fn k s)
  then show ?case
    by (cases k) (auto simp: leaf_sizes split: if_splits)
next
  case (10 os fn k ss)
  then show ?case
    by (cases "ss = []") (simp add: write_repeated_strings_def, simp add: length_repeated_strings)
next
  case (11 os fn k ws)
  then show ?case
    by (auto simp: length_repeated_numbers split: if_splits)
next
  case (12 os fn k xs)
  then show ?case
    by (auto simp: length_repeated_fixed split: if_splits)
next
  case (13 os fn k xs)
  then show ?case
    by (auto simp: length_repeated_fixed split: if_splits)
next
  case (19 os fn c m)
  then show ?case
    by (fastforce simp: write_with_cache_size_def size_sub_message_def)
next
  case (21 os fn c m ms)
  then show ?case by fastforce
next
  case (24 os fn c key m es)
  let ?key = "size_field_header 1 FIELD_FIXED_SIZE + size_string key"
  obtain s a rest where s: "SerializeSize os c m = Inr s" and a: "size_map_entry fn key s = Inr a"
    and rest: "size_map os fn (Some c) es = Inr rest" and n: "n = a + rest"
    using 24(3) by auto
  obtain body where body: "SerializeToStream os c m = Inr body" "length body = s"
    using 24(1) [OF s] by blast
  obtain bs where bs: "write_map os fn (Some c) es = Inr bs" "length bs = rest"
    using 24(2) [OF s a rest] by blast
  have key: "key \<noteq> []"
    using a by (auto simp: size_map_entry_def)
  obtain inner where inner: "size_sub_message 2 s = Inr inner"
    and total: "a = inner + ?key + (size_field_header fn FIELD_FIXED_SIZE + VarintSize (of_nat (inner + ?key)))"
    using a key by (auto simp: size_map_entry_def)
  show ?case
    using inner total key s body bs n
    by (auto simp: size_sub_message_def write_with_cache_size_def write_field_string_def Let_def
        ac_simps)
qed (auto simp: leaf_sizes split: if_splits)

text \<open>C37: The size pass is exact.  When \<open>SerializeSize\<close> of a message is n and n is within
  \<open>max_serialized_size_bytes\<close> (0 stands for no limit), \<open>SerializeToString\<close> succeeds with exactly the n
  bytes of the write pass: the check of \<open>write_with_cache_size\<close> on each sub-message and the bounds of the
  output buffer never throw, and nothing is left of the buffer.  When n exceeds the limit the result
  is \<open>false\<close> and nothing is written.
\<close>

theorem serialized_size_is_exact:
  assumes "SerializeSize os c m = Inr n" and "max_serialized_size_bytes os \<ge> 0"
  shows "if max_serialized_size_bytes os = 0 \<or> int n \<le> max_serialized_size_bytes os
    then \<exists>bytes. SerializeToString os c m = Inr (Some bytes) \<and> SerializeToStream os c m = Inr bytes
           \<and> length bytes = n
    else SerializeToString os c m = Inr None"
  using written_sizes(1) [OF assms(1)] assms
  by (auto simp: SerializeToString_def EnforceMaxSerializedSize_def)

text \<open>A shape of two dimensions takes ten bytes.\<close>

lemma serialized_size_is_exact_witness:
  "\<exists>bytes. SerializeToString \<lparr>w_skip_raw_data = False, w_raw_data_threshold = 0, max_serialized_size_bytes = 10\<rparr>
       C_TensorShapeProto (Msg [V_msgs [Msg [V_num (Some 300), V_str None, V_str None],
         Msg [V_num None, V_str (Some [0x4E]), V_str None]]]) = Inr (Some bytes) \<and> length bytes = 10"
proof -
  let ?os = "\<lparr>w_skip_raw_data = False, w_raw_data_threshold = 0, max_serialized_size_bytes = 10\<rparr>"
  let ?m = "Msg [V_msgs [Msg [V_num (Some 300), V_str None, V_str None],
         Msg [V_num None, V_str (Some [0x4E]), V_str None]]]"
  have "SerializeSize ?os C_TensorShapeProto ?m = Inr 10"
    by code_simp
  from serialized_size_is_exact [OF this] show ?thesis
    by auto
qed

end
