(* ===== verification/WireParse.thy ===== *)
theory WireParse
  imports WireMessages
begin

text \<open>
  Reading messages: the templates \<open>read_field\<close>, \<open>read_repeated_field\<close> and relatives of
  \<open>stream_class_read.hpp\<close>, the \<open>READ_\<close> macros of \<open>stream_class.hpp\<close> that dispatch on the field number,
  and \<open>ParseFromString\<close> of \<open>stream_class_adapters.hpp\<close>.  A reading function gets the value that the
  field has, since a field that occurs again adds to it or replaces it.  \<open>ParseFromStream\<close> carries a
  bound on the number of fields that are read one inside or after the other; the length of the input
  plus one is enough, because a field takes at least one byte (\<open>WireSafety\<close>).  The options are
  those that decide the outcome: the limits, and the skipping of raw data.  The copy is never
  deferred, parallel, aligned or borrowed, which places the same bytes elsewhere, and there are no
  callbacks.
\<close>

record parse_options =
  max_recursion_depth :: int
  max_tensor_size_bytes :: int
  r_skip_raw_data :: bool
  r_raw_data_threshold :: int

text \<open>The default options of \<open>ParseOptions\<close>; the threshold only matters when raw data is skipped.\<close>

definition default_parse_options :: parse_options where
  "default_parse_options = \<lparr>max_recursion_depth = 100, max_tensor_size_bytes = 0,
     r_skip_raw_data = False, r_raw_data_threshold = 64\<rparr>"

section \<open>Skipping\<close>

definition SkipFieldByWireType :: "64 word \<Rightarrow> unit rd" where
  "SkipFieldByWireType wire_type =
     (if wire_type = 0 then rd_bind next_uint64 (\<lambda>_. rd_return ())
      else if wire_type = 1 then skip_bytes 8
      else if wire_type = 2 then rd_bind next_uint64
        (\<lambda>len. rd_bind (CanRead len) (\<lambda>_. skip_bytes (unat len)))
      else if wire_type = 5 then skip_bytes 4
      else rd_throw Malformed)"

text \<open>\<open>SKIP_IF_WRONG_WIRE_TYPE\<close>: skip the field and return, which leaves the value as it was.\<close>

definition if_wire_type :: "bool \<Rightarrow> 64 word \<Rightarrow> 'a \<Rightarrow> 'a rd \<Rightarrow> 'a rd" where
  "if_wire_type expected wire_type old body =
     (if expected then body else rd_bind (SkipFieldByWireType wire_type) (\<lambda>_. rd_return old))"

definition CheckAllocationLimit :: "parse_options \<Rightarrow> 64 word \<Rightarrow> unit rd" where
  "CheckAllocationLimit po len =
     rd_enforce (\<not> (max_tensor_size_bytes po > 0 \<and> uint len > max_tensor_size_bytes po)) LimitExceeded"

text \<open>\<open>RecursionGuard\<close> at the given depth.\<close>

definition validate_depth :: "parse_options \<Rightarrow> nat \<Rightarrow> unit rd" where
  "validate_depth po depth = rd_enforce (int depth \<le> max_recursion_depth po) LimitExceeded"

section \<open>Single values\<close>

text \<open>The casts from \<open>uint64_t\<close> to the type of the field; an enumeration is cast like an \<open>int32_t\<close>.\<close>

definition cast_number :: "ntype \<Rightarrow> 64 word \<Rightarrow> 64 word" where
  "cast_number t w = (case t of I64 \<Rightarrow> w | U64 \<Rightarrow> w | I32 \<Rightarrow> scast (ucast w :: 32 word)
     | U32 \<Rightarrow> ucast (ucast w :: 32 word))"

definition read_field_string :: "64 word \<Rightarrow> byte list option \<Rightarrow> byte list option rd" where
  "read_field_string wt old =
     if_wire_type (wt = 2) wt old (rd_bind next_string (\<lambda>s. rd_return (Some s)))"

definition read_field_number :: "ntype \<Rightarrow> 64 word \<Rightarrow> 64 word option \<Rightarrow> 64 word option rd" where
  "read_field_number t wt old =
     if_wire_type (wt = 0) wt old (rd_bind next_uint64 (\<lambda>w. rd_return (Some (cast_number t w))))"

definition read_enum_field :: "64 word \<Rightarrow> 64 word option \<Rightarrow> 64 word option rd" where
  "read_enum_field wt old =
     if_wire_type (wt = 0) wt old (rd_bind next_uint64 (\<lambda>w. rd_return (Some (cast_number I32 w))))"

definition read_field_float :: "64 word \<Rightarrow> 32 word option \<Rightarrow> 32 word option rd" where
  "read_field_float wt old =
     if_wire_type (wt = 2 \<or> wt = 5) wt old (rd_bind next_float (\<lambda>x. rd_return (Some x)))"

definition read_field_limit_parallel_nc ::
    "parse_options \<Rightarrow> 64 word \<Rightarrow> byte list option \<Rightarrow> byte list option rd" where
  "read_field_limit_parallel_nc po wt old =
     if_wire_type (wt = 2) wt old
       (rd_bind next_uint64 (\<lambda>len. rd_bind (CanRead len) (\<lambda>_.
          if \<not> r_skip_raw_data po \<or> uint len < r_raw_data_threshold po
          then rd_bind (CheckAllocationLimit po len) (\<lambda>_. rd_bind (read_bytes (unat len))
                 (\<lambda>bs. rd_return (Some bs)))
          else rd_bind (skip_bytes (unat len)) (\<lambda>_. rd_return old))))"

section \<open>Repeated values\<close>

definition read_repeated_strings :: "64 word \<Rightarrow> byte list list \<Rightarrow> byte list list rd" where
  "read_repeated_strings wt old =
     if_wire_type (wt = 2) wt old (rd_bind next_string (\<lambda>s. rd_return (old @ [s])))"

text \<open>The loop over a packed block of varints; its bound is the number of bytes of the block plus one.\<close>

fun read_packed_loop :: "nat \<Rightarrow> ntype \<Rightarrow> 64 word list \<Rightarrow> 64 word list rd" where
  "read_packed_loop 0 t acc r = (Inl Unfinished, r)"
| "read_packed_loop (Suc k) t acc r =
     (if NotEnd r
      then rd_bind next_uint64 (\<lambda>w. read_packed_loop k t (acc @ [cast_number t w])) r
      else (Inr acc, r))"

text \<open>
  The limit of the block is set by \<open>LimitToNext\<close> and removed by \<open>Restore\<close> after the loop, without a
  guard: an exception in the loop leaves it on the stack.
\<close>

definition read_repeated_field_packed_numerical_int ::
    "parse_options \<Rightarrow> ntype \<Rightarrow> 64 word \<Rightarrow> 64 word list \<Rightarrow> 64 word list rd" where
  "read_repeated_field_packed_numerical_int po t wt old =
     rd_bind (rd_enforce (wt = 2) Malformed) (\<lambda>_.
     rd_bind next_uint64 (\<lambda>len.
     rd_bind (CanRead len) (\<lambda>_.
     rd_bind (CheckAllocationLimit po len) (\<lambda>_.
     rd_bind (LimitToNext len) (\<lambda>_.
     rd_bind (read_packed_loop (Suc (unat len)) t old) (\<lambda>acc.
     rd_bind Restore (\<lambda>_. rd_return acc)))))))"

definition read_unpacked_number_int :: "ntype \<Rightarrow> 64 word \<Rightarrow> 64 word rd" where
  "read_unpacked_number_int t wt =
     rd_bind (rd_enforce (wt = 0) Malformed) (\<lambda>_. rd_bind next_uint64 (\<lambda>w. rd_return (cast_number t w)))"

definition read_repeated_numbers ::
    "parse_options \<Rightarrow> ntype \<Rightarrow> bool \<Rightarrow> 64 word \<Rightarrow> 64 word list \<Rightarrow> 64 word list rd" where
  "read_repeated_numbers po t is_packed wt old =
     (if is_packed \<or> wt = 2 then read_repeated_field_packed_numerical_int po t wt old
      else rd_bind (read_unpacked_number_int t wt) (\<lambda>w. rd_return (old @ [w])))"

text \<open>The values of a block of fixed-width elements.\<close>

fun le_values :: "nat \<Rightarrow> nat \<Rightarrow> byte list \<Rightarrow> 'a :: len word list" where
  "le_values width 0 bs = []"
| "le_values width (Suc k) bs = le_value (take width bs) # le_values width k (drop width bs)"

text \<open>
  A packed block of \<open>float\<close> or \<open>double\<close>: the vector is resized to the number of elements of the block
  and filled from its start, so the elements it had are gone.
\<close>

definition read_repeated_field_packed_numerical_float ::
    "parse_options \<Rightarrow> nat \<Rightarrow> 64 word \<Rightarrow> 'a :: len word list \<Rightarrow> 'a word list rd" where
  "read_repeated_field_packed_numerical_float po width wt old =
     rd_bind (rd_enforce (wt = 2) Malformed) (\<lambda>_.
     rd_bind next_uint64 (\<lambda>sz.
     rd_bind (rd_enforce (unat sz mod width = 0) Malformed) (\<lambda>_.
     rd_bind (CanRead sz) (\<lambda>_.
     rd_bind (CheckAllocationLimit po sz) (\<lambda>_.
     rd_bind (read_bytes (unat sz)) (\<lambda>bs. rd_return (le_values width (unat sz div width) bs)))))))"

text \<open>
  An element outside a block; wire type 2 is accepted here for four or eight bytes without a length,
  as old writers emitted them.
\<close>

definition read_unpacked_number_float :: "nat \<Rightarrow> 64 word \<Rightarrow> 'a :: len word rd" where
  "read_unpacked_number_float width wt =
     rd_bind (rd_enforce (wt = (if width = 4 then 5 else 1) \<or> wt = 2) Malformed) (\<lambda>_.
     rd_bind (read_bytes width) (\<lambda>bs. rd_return (le_value bs)))"

definition read_repeated_fixed ::
    "parse_options \<Rightarrow> nat \<Rightarrow> bool \<Rightarrow> 64 word \<Rightarrow> 'a :: len word list \<Rightarrow> 'a word list rd" where
  "read_repeated_fixed po width is_packed wt old =
     (if is_packed then read_repeated_field_packed_numerical_float po width wt old
      else rd_bind (read_unpacked_number_float width wt) (\<lambda>x. rd_return (old @ [x])))"

section \<open>Messages inside messages\<close>

text \<open>
  \<open>read_next_field_in_shortended_stream\<close> inside a message at the given depth; \<open>sub\<close> parses a message
  of a class into one that exists, at a depth.
\<close>

type_synonym sub_parser = "nat \<Rightarrow> cls \<Rightarrow> msg \<Rightarrow> msg rd"

definition read_next_field_in_shortended_stream ::
    "parse_options \<Rightarrow> nat \<Rightarrow> sub_parser \<Rightarrow> cls \<Rightarrow> msg \<Rightarrow> msg rd" where
  "read_next_field_in_shortended_stream po depth sub c m =
     rd_bind (validate_depth po (depth + 1)) (\<lambda>_.
     rd_bind next_uint64 (\<lambda>len.
     rd_bind (LimitToNext len) (\<lambda>_.
     StreamLimitGuard (sub (depth + 1) c m))))"

text \<open>The value of a field of a new object.\<close>

fun default_leaf :: "fkind \<Rightarrow> fval" where
  "default_leaf F_str = V_str None"
| "default_leaf F_str_always = V_str None"
| "default_leaf (F_num t d) = V_num (Some d)"
| "default_leaf (F_opt_num t) = V_num None"
| "default_leaf F_opt_float = V_float None"
| "default_leaf F_enum = V_num (Some 0)"
| "default_leaf F_opt_enum = V_num None"
| "default_leaf F_bytes = V_str None"
| "default_leaf F_raw = V_str None"
| "default_leaf F_strs = V_strs []"
| "default_leaf (F_nums t p) = V_nums []"
| "default_leaf (F_floats p) = V_floats []"
| "default_leaf (F_doubles p) = V_doubles []"
| "default_leaf (F_msg c) = V_msg None"
| "default_leaf (F_opt_msg c) = V_msg None"
| "default_leaf (F_one_msg c g) = V_msg None"
| "default_leaf (F_one_num t g) = V_num None"
| "default_leaf (F_msgs c) = V_msgs []"
| "default_leaf (F_map c) = V_map []"

text \<open>A message that is a member, not a pointer, is default-constructed with the object; its class has none.\<close>

definition default_value :: "fkind \<Rightarrow> fval" where
  "default_value k = (case k of
       F_msg c \<Rightarrow> V_msg (Some (Msg (map (default_leaf \<circ> snd) (cls_fields c))))
     | _ \<Rightarrow> default_leaf k)"

definition default_message :: "cls \<Rightarrow> msg" where
  "default_message c = Msg (map (default_value \<circ> snd) (cls_fields c))"

text \<open>The entry of a map: the fields 1 (key) and 2 (value), each once.\<close>

fun read_map_loop ::
    "parse_options \<Rightarrow> nat \<Rightarrow> sub_parser \<Rightarrow> cls \<Rightarrow> nat \<Rightarrow> byte list option \<Rightarrow> msg option
      \<Rightarrow> (byte list option \<times> msg option) rd" where
  "read_map_loop po depth sub c 0 key val r = (Inl Unfinished, r)"
| "read_map_loop po depth sub c (Suc n) key val r =
     (if NotEnd r
      then rd_bind next_field (\<lambda>(fn, wt).
        if fn = 1 \<and> wt = 2
        then rd_bind (rd_enforce (key = None) Malformed) (\<lambda>_. rd_bind next_string
               (\<lambda>s. read_map_loop po depth sub c n (Some s) val))
        else if fn = 2 \<and> wt = 2
        then rd_bind (rd_enforce (val = None) Malformed) (\<lambda>_.
             rd_bind (read_next_field_in_shortended_stream po depth sub c (default_message c))
               (\<lambda>m. read_map_loop po depth sub c n key (Some m)))
        else rd_bind (rd_enforce (fn \<noteq> 0) Malformed) (\<lambda>_. rd_bind (SkipFieldByWireType wt)
               (\<lambda>_. read_map_loop po depth sub c n key val))) r
      else (Inr (key, val), r))"

definition read_map_field ::
    "parse_options \<Rightarrow> nat \<Rightarrow> sub_parser \<Rightarrow> nat \<Rightarrow> cls \<Rightarrow> 64 word \<Rightarrow> (byte list \<times> msg) list
      \<Rightarrow> (byte list \<times> msg) list rd" where
  "read_map_field po depth sub n c wt old =
     if_wire_type (wt = 2) wt old
       (rd_bind (validate_depth po (depth + 1)) (\<lambda>_.
        rd_bind next_uint64 (\<lambda>len.
        rd_bind (LimitToNext len) (\<lambda>_.
        StreamLimitGuard
          (rd_bind (read_map_loop po (depth + 1) sub c n None None)
            (\<lambda>(key, val). case (key, val) of
                 (Some k, Some m) \<Rightarrow>
                   rd_bind (rd_enforce (k \<noteq> [] \<and> k \<notin> fst ` set old) Malformed)
                     (\<lambda>_. rd_return (insort_key fst (k, m) old))
               | _ \<Rightarrow> rd_throw Malformed))))))"

section \<open>Dispatch\<close>

definition rd_map :: "('a \<Rightarrow> 'b) \<Rightarrow> 'a rd \<Rightarrow> 'b rd" where
  "rd_map f m = rd_bind m (\<lambda>x. rd_return (f x))"

text \<open>
  A field number is compared after a cast to \<open>int\<close>; the number of a map field and the retired
  numbers are compared as they are.
\<close>

definition field_matches :: "64 word \<Rightarrow> 32 word \<times> fkind \<Rightarrow> bool" where
  "field_matches n f = (case f of
     (fn, k) \<Rightarrow> (case k of F_map c \<Rightarrow> n = ucast fn | _ \<Rightarrow> (ucast n :: 32 word) = fn))"

fun find_field :: "64 word \<Rightarrow> schema \<Rightarrow> nat option" where
  "find_field n [] = None"
| "find_field n (f # fs) = (if field_matches n f then Some 0 else map_option Suc (find_field n fs))"

text \<open>\<open>enter_oneof\<close>: resets the alternatives of a group before another one is selected.\<close>

definition oneof_group :: "fkind \<Rightarrow> nat option" where
  "oneof_group k = (case k of F_one_msg c g \<Rightarrow> Some g | F_one_num t g \<Rightarrow> Some g | _ \<Rightarrow> None)"

definition clear_oneof :: "nat \<Rightarrow> schema \<Rightarrow> fval list \<Rightarrow> fval list" where
  "clear_oneof g fs vs =
     map (\<lambda>((fn, k), v). if oneof_group k = Some g then default_leaf k else v) (zip fs vs)"

text \<open>The value of the field after reading it, for the fields outside a group.\<close>

definition read_value ::
    "parse_options \<Rightarrow> nat \<Rightarrow> sub_parser \<Rightarrow> nat \<Rightarrow> fkind \<Rightarrow> 64 word \<Rightarrow> fval \<Rightarrow> fval rd" where
  "read_value po depth sub n k wt v =
     (let message = (\<lambda>f c m. if_wire_type (wt = 2) wt v
             (rd_map f (read_next_field_in_shortended_stream po depth sub c m)))
      in case (k, v) of
        (F_str, V_str s) \<Rightarrow> rd_map V_str (read_field_string wt s)
      | (F_str_always, V_str s) \<Rightarrow> rd_map V_str (read_field_string wt s)
      | (F_num t d, V_num w) \<Rightarrow> rd_map V_num (read_field_number t wt w)
      | (F_opt_num t, V_num w) \<Rightarrow> rd_map V_num (read_field_number t wt w)
      | (F_one_num t g, V_num w) \<Rightarrow> rd_map V_num (read_field_number t wt w)
      | (F_opt_float, V_float x) \<Rightarrow> rd_map V_float (read_field_float wt x)
      | (F_enum, V_num w) \<Rightarrow> rd_map V_num (read_enum_field wt w)
      | (F_opt_enum, V_num w) \<Rightarrow> rd_map V_num (read_enum_field wt w)
      | (F_bytes, V_str s) \<Rightarrow> rd_map V_str (read_field_limit_parallel_nc po wt s)
      | (F_raw, V_str s) \<Rightarrow> rd_map V_str (read_field_limit_parallel_nc po wt s)
      | (F_strs, V_strs ss) \<Rightarrow> rd_map V_strs (read_repeated_strings wt ss)
      | (F_nums t p, V_nums ws) \<Rightarrow> rd_map V_nums (read_repeated_numbers po t p wt ws)
      | (F_floats p, V_floats xs) \<Rightarrow> rd_map V_floats (read_repeated_fixed po 4 p wt xs)
      | (F_doubles p, V_doubles xs) \<Rightarrow> rd_map V_doubles (read_repeated_fixed po 8 p wt xs)
      | (F_msg c, V_msg (Some m)) \<Rightarrow> message (V_msg \<circ> Some) c m
      | (F_opt_msg c, V_msg old) \<Rightarrow> message (V_msg \<circ> Some) c (default_message c)
      | (F_one_msg c g, V_msg old) \<Rightarrow>
          message (V_msg \<circ> Some) c (case old of Some m \<Rightarrow> m | None \<Rightarrow> default_message c)
      | (F_msgs c, V_msgs ms) \<Rightarrow> message (\<lambda>m. V_msgs (ms @ [m])) c (default_message c)
      | (F_map c, V_map es) \<Rightarrow> rd_map V_map (read_map_field po depth sub n c wt es)
      | _ \<Rightarrow> rd_throw Unfinished)"

text \<open>
  The effect of a tag on the fields of the object.  A tag of an unset alternative clears its group
  when the wire type is the expected one; the discriminator of a group names the alternative that is
  set.
\<close>

definition enters_oneof :: "fkind \<Rightarrow> 64 word \<Rightarrow> fval \<Rightarrow> nat option" where
  "enters_oneof k wt v = (case (k, v) of
       (F_one_msg c g, V_msg None) \<Rightarrow> (if wt = 2 then Some g else None)
     | (F_one_num t g, V_num None) \<Rightarrow> (if wt = 0 then Some g else None)
     | _ \<Rightarrow> None)"

definition read_tag ::
    "parse_options \<Rightarrow> nat \<Rightarrow> sub_parser \<Rightarrow> nat \<Rightarrow> cls \<Rightarrow> 64 word \<times> 64 word \<Rightarrow> fval list \<Rightarrow> fval list rd" where
  "read_tag po depth sub n c tag vs = (case tag of (fn, wt) \<Rightarrow>
     (case find_field fn (cls_fields c) of
        None \<Rightarrow> if fn \<in> set (retired_fields c) then rd_throw Malformed
                else rd_bind (SkipFieldByWireType wt) (\<lambda>_. rd_return vs)
      | Some i \<Rightarrow>
          let k = snd (cls_fields c ! i);
              vs' = (case enters_oneof k wt (vs ! i) of
                       None \<Rightarrow> vs | Some g \<Rightarrow> clear_oneof g (cls_fields c) vs)
          in rd_bind (read_value po depth sub n k wt (vs ! i)) (\<lambda>v. rd_return (vs'[i := v]))))"

text \<open>\<open>READ_BEGIN\<close>, the chain of tests and \<open>READ_END\<close>: one round of the loop for each tag.\<close>

fun ParseFromStream :: "parse_options \<Rightarrow> nat \<Rightarrow> nat \<Rightarrow> cls \<Rightarrow> msg \<Rightarrow> msg rd" where
  "ParseFromStream po 0 depth c m r = (Inl Unfinished, r)"
| "ParseFromStream po (Suc n) depth c m r =
     (if NotEnd r
      then rd_bind next_field (\<lambda>tag.
           rd_bind (rd_enforce (fst tag \<noteq> 0) Malformed) (\<lambda>_.
           rd_bind (read_tag po depth (\<lambda>depth' c' m'. ParseFromStream po n depth' c' m') n c tag (field_values m))
             (\<lambda>vs. ParseFromStream po n depth c (Msg vs)))) r
      else (Inr m, r))"

section \<open>Parsing a string\<close>

text \<open>
  \<open>ParseFromString\<close>: a limit goes on to the caller, any other exception is a rejection, and the
  destructor of the stream ends the process when a limit is left on its stack.
\<close>

datatype parse_outcome = Parsed msg | Rejected | Limit | Aborted | Out_of_bound

definition ParseFromString :: "parse_options \<Rightarrow> cls \<Rightarrow> byte list \<Rightarrow> parse_outcome" where
  "ParseFromString po c bytes =
     (case ParseFromStream po (Suc (length bytes)) 0 c (default_message c) (StringStream bytes) of
        (out, r) \<Rightarrow>
          if destructor_aborts r then Aborted
          else (case out of Inr m \<Rightarrow> Parsed m | Inl Malformed \<Rightarrow> Rejected
                  | Inl LimitExceeded \<Rightarrow> Limit | Inl Unfinished \<Rightarrow> Out_of_bound))"

end
