(* ===== verification/WireTyped.thy ===== *)
theory WireTyped
  imports WireParse
begin

text \<open>
  Messages of the right shape: every field holds a value of its kind, a number fits its type, at
  most one alternative of a group is set, the entries of a map are sorted by keys that are not
  empty, and the nesting of messages stays below a bound, a map entry counting as a level of its
  own.  A message made by the accessors of \<open>onnx.h\<close> has this shape.
\<close>

section \<open>Shape of a field\<close>

definition number_ok :: "ntype \<Rightarrow> 64 word \<Rightarrow> bool" where
  "number_ok t w \<longleftrightarrow> cast_number t w = w"

definition value_ok :: "fkind \<Rightarrow> fval \<Rightarrow> bool" where
  "value_ok k v \<longleftrightarrow> (case (k, v) of
       (F_str, V_str s) \<Rightarrow> True
     | (F_str_always, V_str s) \<Rightarrow> True
     | (F_num t d, V_num w) \<Rightarrow> (case w of None \<Rightarrow> False | Some x \<Rightarrow> number_ok t x)
     | (F_opt_num t, V_num w) \<Rightarrow> (case w of None \<Rightarrow> True | Some x \<Rightarrow> number_ok t x)
     | (F_one_num t g, V_num w) \<Rightarrow> (case w of None \<Rightarrow> True | Some x \<Rightarrow> number_ok t x)
     | (F_opt_float, V_float x) \<Rightarrow> True
     | (F_enum, V_num w) \<Rightarrow> (case w of None \<Rightarrow> False | Some x \<Rightarrow> number_ok I32 x)
     | (F_opt_enum, V_num w) \<Rightarrow> (case w of None \<Rightarrow> True | Some x \<Rightarrow> number_ok I32 x)
     | (F_bytes, V_str s) \<Rightarrow> True
     | (F_raw, V_str s) \<Rightarrow> True
     | (F_strs, V_strs ss) \<Rightarrow> True
     | (F_nums t p, V_nums ws) \<Rightarrow> list_all (number_ok t) ws
     | (F_floats p, V_floats xs) \<Rightarrow> True
     | (F_doubles p, V_doubles xs) \<Rightarrow> True
     | (F_msg c, V_msg m) \<Rightarrow> m \<noteq> None
     | (F_opt_msg c, V_msg m) \<Rightarrow> True
     | (F_one_msg c g, V_msg m) \<Rightarrow> True
     | (F_msgs c, V_msgs ms) \<Rightarrow> True
     | (F_map c, V_map es) \<Rightarrow> sorted_wrt (<) (map fst es) \<and> [] \<notin> fst ` set es
     | _ \<Rightarrow> False)"

text \<open>The values of a kind, one by one.\<close>

lemma value_ok_iff:
  "value_ok F_str v \<longleftrightarrow> v = V_str None \<or> (\<exists>s. v = V_str (Some s))"
  "value_ok F_str_always v \<longleftrightarrow> v = V_str None \<or> (\<exists>s. v = V_str (Some s))"
  "value_ok F_bytes v \<longleftrightarrow> v = V_str None \<or> (\<exists>s. v = V_str (Some s))"
  "value_ok F_raw v \<longleftrightarrow> v = V_str None \<or> (\<exists>s. v = V_str (Some s))"
  "value_ok (F_num t d) v \<longleftrightarrow> (\<exists>w. v = V_num (Some w) \<and> number_ok t w)"
  "value_ok (F_opt_num t) v \<longleftrightarrow> v = V_num None \<or> (\<exists>w. v = V_num (Some w) \<and> number_ok t w)"
  "value_ok (F_one_num t g) v \<longleftrightarrow> v = V_num None \<or> (\<exists>w. v = V_num (Some w) \<and> number_ok t w)"
  "value_ok F_enum v \<longleftrightarrow> (\<exists>w. v = V_num (Some w) \<and> number_ok I32 w)"
  "value_ok F_opt_enum v \<longleftrightarrow> v = V_num None \<or> (\<exists>w. v = V_num (Some w) \<and> number_ok I32 w)"
  "value_ok F_opt_float v \<longleftrightarrow> v = V_float None \<or> (\<exists>x. v = V_float (Some x))"
  "value_ok F_strs v \<longleftrightarrow> (\<exists>ss. v = V_strs ss)"
  "value_ok (F_nums t p) v \<longleftrightarrow> (\<exists>ws. v = V_nums ws \<and> list_all (number_ok t) ws)"
  "value_ok (F_floats p) v \<longleftrightarrow> (\<exists>xs. v = V_floats xs)"
  "value_ok (F_doubles p) v \<longleftrightarrow> (\<exists>xs. v = V_doubles xs)"
  "value_ok (F_msg c) v \<longleftrightarrow> (\<exists>m. v = V_msg (Some m))"
  "value_ok (F_opt_msg c) v \<longleftrightarrow> v = V_msg None \<or> (\<exists>m. v = V_msg (Some m))"
  "value_ok (F_one_msg c g) v \<longleftrightarrow> v = V_msg None \<or> (\<exists>m. v = V_msg (Some m))"
  "value_ok (F_msgs c) v \<longleftrightarrow> (\<exists>ms. v = V_msgs ms)"
  "value_ok (F_map c) v \<longleftrightarrow> (\<exists>es. v = V_map es \<and> sorted_wrt (<) (map fst es) \<and> [] \<notin> fst ` set es)"
  by (cases v; auto simp: value_ok_def split: option.splits)+

section \<open>Messages\<close>

text \<open>The messages in a value, with the levels of nesting that they add.\<close>

definition sub_messages :: "fkind \<Rightarrow> fval \<Rightarrow> (nat \<times> cls \<times> msg) list" where
  "sub_messages k v = (case class_of k of None \<Rightarrow> []
     | Some c \<Rightarrow> (case v of V_msg (Some m) \<Rightarrow> [(1, c, m)] | V_msgs ms \<Rightarrow> map (\<lambda>m. (1, c, m)) ms
         | V_map es \<Rightarrow> map (\<lambda>e. (2, c, snd e)) es | _ \<Rightarrow> []))"

definition field_messages :: "schema \<Rightarrow> fval list \<Rightarrow> (nat \<times> cls \<times> msg) list" where
  "field_messages fs vs = concat (map (\<lambda>((fn, k), v). sub_messages k v) (zip fs vs))"

definition is_set :: "fval \<Rightarrow> bool" where
  "is_set v \<longleftrightarrow> v \<noteq> V_num None \<and> v \<noteq> V_msg None"

text \<open>Two fields of one group that are both set.\<close>

definition conflict :: "(32 word \<times> fkind) \<times> fval \<Rightarrow> (32 word \<times> fkind) \<times> fval \<Rightarrow> bool" where
  "conflict x y \<longleftrightarrow> (case (x, y) of (((fn, k), v), ((fn', k'), v')) \<Rightarrow>
     oneof_group k \<noteq> None \<and> oneof_group k = oneof_group k' \<and> is_set v \<and> is_set v')"

definition fields_ok :: "(fkind \<Rightarrow> fval \<Rightarrow> bool) \<Rightarrow> schema \<Rightarrow> fval list \<Rightarrow> bool" where
  "fields_ok ok fs vs \<longleftrightarrow> length vs = length fs \<and> list_all (\<lambda>((fn, k), v). ok k v) (zip fs vs)
     \<and> sorted_wrt (\<lambda>x y. \<not> conflict x y) (zip fs vs)"

lemma unordered_pairs:
  fixes n :: nat
  assumes "\<And>i j. P i j \<Longrightarrow> P j i"
  shows "(\<forall>i j. i < j \<longrightarrow> j < n \<longrightarrow> \<not> P i j) \<longleftrightarrow> (\<forall>i j. i \<noteq> j \<longrightarrow> i < n \<longrightarrow> j < n \<longrightarrow> \<not> P i j)"
proof (intro iffI allI impI notI)
  fix i j
  assume h: "\<forall>i j. i < j \<longrightarrow> j < n \<longrightarrow> \<not> P i j" and ij: "i \<noteq> j" "i < n" "j < n" and "P i j"
  then have "P j i"
    using assms by blast
  consider "i < j" | "j < i"
    using ij(1) by linarith
  then show False
    using h ij \<open>P i j\<close> \<open>P j i\<close> by cases blast+
next
  fix i j
  assume "\<forall>i j. i \<noteq> j \<longrightarrow> i < n \<longrightarrow> j < n \<longrightarrow> \<not> P i j" and "i < j" "j < n" and "P i j"
  moreover from this have "i \<noteq> j" "i < n"
    by simp_all
  ultimately show False
    by blast
qed

lemma no_conflict_iff:
  assumes "length vs = length fs"
  shows "sorted_wrt (\<lambda>x y. \<not> conflict x y) (zip fs vs) \<longleftrightarrow>
    (\<forall>i j g. i < length fs \<and> j < length fs \<and> i \<noteq> j \<and> oneof_group (snd (fs ! i)) = Some g
       \<and> oneof_group (snd (fs ! j)) = Some g \<and> is_set (vs ! i) \<longrightarrow> \<not> is_set (vs ! j))"
proof -
  let ?P = "\<lambda>i j. \<exists>g. oneof_group (snd (fs ! i)) = Some g \<and> oneof_group (snd (fs ! j)) = Some g
      \<and> is_set (vs ! i) \<and> is_set (vs ! j)"
  have conflict: "conflict (fs ! i, vs ! i) (fs ! j, vs ! j) \<longleftrightarrow> ?P i j" for i j
    by (auto simp: conflict_def split: prod.splits)
  have "sorted_wrt (\<lambda>x y. \<not> conflict x y) (zip fs vs)
      \<longleftrightarrow> (\<forall>i j. i < j \<longrightarrow> j < length fs \<longrightarrow> \<not> conflict (fs ! i, vs ! i) (fs ! j, vs ! j))"
    using assms by (simp add: sorted_wrt_iff_nth_less)
  also have "\<dots> \<longleftrightarrow> (\<forall>i j. i < j \<longrightarrow> j < length fs \<longrightarrow> \<not> ?P i j)"
    unfolding conflict ..
  also have "\<dots> \<longleftrightarrow> (\<forall>i j. i \<noteq> j \<longrightarrow> i < length fs \<longrightarrow> j < length fs \<longrightarrow> \<not> ?P i j)"
    by (rule unordered_pairs) blast
  also have "\<dots> \<longleftrightarrow> (\<forall>i j g. i < length fs \<and> j < length fs \<and> i \<noteq> j \<and> oneof_group (snd (fs ! i)) = Some g
       \<and> oneof_group (snd (fs ! j)) = Some g \<and> is_set (vs ! i) \<longrightarrow> \<not> is_set (vs ! j))"
    by blast
  finally show ?thesis .
qed

lemma fields_ok_iff:
  "fields_ok ok fs vs \<longleftrightarrow> length vs = length fs \<and> (\<forall>i < length fs. ok (snd (fs ! i)) (vs ! i))
     \<and> (\<forall>i j g. i < length fs \<and> j < length fs \<and> i \<noteq> j \<and> oneof_group (snd (fs ! i)) = Some g
          \<and> oneof_group (snd (fs ! j)) = Some g \<and> is_set (vs ! i) \<longrightarrow> \<not> is_set (vs ! j))"
  by (auto simp: fields_ok_def no_conflict_iff list_all_length split_beta)

lemma sub_messages_size: "(l, c, m) \<in> set (sub_messages k v) \<Longrightarrow> size m < size v"
proof (cases v)
  case (V_msgs ms)
  moreover assume "(l, c, m) \<in> set (sub_messages k v)"
  ultimately have "m \<in> set ms"
    by (auto simp: sub_messages_def split: option.splits)
  then have "size m \<le> size_list size ms"
    by (rule size_list_estimation') simp
  with V_msgs show ?thesis by simp
next
  case (V_map es)
  moreover assume "(l, c, m) \<in> set (sub_messages k v)"
  ultimately obtain key where "(key, m) \<in> set es"
    by (auto simp: sub_messages_def split: option.splits)
  then have "size m \<le> size_list (size_prod (\<lambda>_. 0) size) es"
    by (rule size_list_estimation') simp
  with V_map show ?thesis by simp
qed (auto simp: sub_messages_def split: option.splits)

lemma in_field_messages:
  "x \<in> set (field_messages fs vs) \<longleftrightarrow> (\<exists>fn k v. ((fn, k), v) \<in> set (zip fs vs) \<and> x \<in> set (sub_messages k v))"
  by (auto simp: field_messages_def)

lemma field_messages_size:
  assumes "(l, c, m) \<in> set (field_messages fs vs)"
  shows "size m < size (Msg vs)"
proof -
  obtain fn k v where "((fn, k), v) \<in> set (zip fs vs)" and "(l, c, m) \<in> set (sub_messages k v)"
    using assms unfolding in_field_messages by blast
  then have "v \<in> set vs" and "size m < size v"
    by (auto dest: set_zip_rightD sub_messages_size)
  moreover from this(1) have "size v \<le> size_list size vs"
    by (rule size_list_estimation') simp
  ultimately show ?thesis by simp
qed

function well_shaped :: "(fkind \<Rightarrow> fval \<Rightarrow> bool) \<Rightarrow> nat \<Rightarrow> cls \<Rightarrow> msg \<Rightarrow> bool" where
  "well_shaped ok d c (Msg vs) \<longleftrightarrow> fields_ok ok (cls_fields c) vs
     \<and> list_all (\<lambda>(l, c', m). l \<le> d \<and> well_shaped ok (d - l) c' m) (field_messages (cls_fields c) vs)"
  by pat_completeness auto
termination
  by (relation "measure (\<lambda>(ok, d, c, m). size m)") (auto dest: field_messages_size simp del: msg.size)

definition well_typed :: "nat \<Rightarrow> cls \<Rightarrow> msg \<Rightarrow> bool" where
  "well_typed = well_shaped value_ok"

text \<open>
  A message that the writer does not change: the string that is written even when unset is set.
\<close>

definition written_ok :: "fkind \<Rightarrow> fval \<Rightarrow> bool" where
  "written_ok k v \<longleftrightarrow> value_ok k v \<and> (k = F_str_always \<longrightarrow> v \<noteq> V_str None)"

definition writable_message :: "nat \<Rightarrow> cls \<Rightarrow> msg \<Rightarrow> bool" where
  "writable_message = well_shaped written_ok"

section \<open>Groups\<close>

lemma unset_default: "value_ok k v \<Longrightarrow> oneof_group k = Some g \<Longrightarrow> \<not> is_set v \<Longrightarrow> v = default_leaf k"
  by (cases k) (auto simp: oneof_group_def value_ok_iff is_set_def)

lemma group_default: "oneof_group k = Some g \<Longrightarrow> default_value k = default_leaf k"
  by (cases k) (auto simp: oneof_group_def default_value_def)

end
