(* ===== verification/WireSafety.thy ===== *)
theory WireSafety
  imports WireTyped
begin

text \<open>
  What the parser does on any bytes.  The triple \<open>sound k j m P\<close> says of a reading function, started with
  at most \<open>k\<close> bytes before the limit: on success it has moved by at least \<open>j\<close> bytes without passing the
  limit, has left the limits as they were, and its result satisfies \<open>P\<close>; on failure the bound of the
  recursion was not the cause, and at most one limit is left on the stack.  It composes along
  \<open>rd_bind\<close>, so every template has one lemma.  The conclusions: the recursion is given enough, so the
  parser terminates on every input; no read leaves the buffer; an accepted message is well typed.
\<close>

section \<open>Sound readers\<close>

definition outcome_ok :: "nat \<Rightarrow> ('a \<Rightarrow> bool) \<Rightarrow> reader \<Rightarrow> (wire_error + 'a) \<times> reader \<Rightarrow> bool" where
  "outcome_ok j P r res \<longleftrightarrow> (case res of
       (Inr x, r') \<Rightarrow> P x \<and> (\<exists>i. j \<le> i \<and> i \<le> rsize r - rpos r \<and> r' = adv i r)
     | (Inl e, r') \<Rightarrow> e \<noteq> Unfinished \<and> (rlimits r' = rlimits r \<or> (\<exists>l. rlimits r' = l # rlimits r)))"

lemma outcome_ok_simps [simp]:
  "outcome_ok j P r (Inr x, r') \<longleftrightarrow> P x \<and> (\<exists>i. j \<le> i \<and> i \<le> rsize r - rpos r \<and> r' = adv i r)"
  "outcome_ok j P r (Inl e, r') \<longleftrightarrow> e \<noteq> Unfinished \<and> (rlimits r' = rlimits r \<or> (\<exists>l. rlimits r' = l # rlimits r))"
  by (simp_all add: outcome_ok_def)

lemma outcome_ok_mono:
  assumes "outcome_ok j P r res" and "j' \<le> j" and "\<And>x. P x \<Longrightarrow> Q x"
  shows "outcome_ok j' Q r res"
proof (cases res)
  case (Pair out r')
  then show ?thesis
    using assms by (cases out) (auto dest: order_trans)
qed

lemma outcome_ok_adv:
  assumes "outcome_ok j P (adv i r) res" and "i \<le> rsize r - rpos r"
  shows "outcome_ok (i + j) P r res"
proof (cases res)
  case (Pair out r')
  show ?thesis
  proof (cases out)
    case (Inr x)
    then obtain i' where "j \<le> i'" "i' \<le> rsize r - rpos r - i" "r' = adv i' (adv i r)" "P x"
      using assms(1) Pair by auto
    then show ?thesis
      using Inr Pair assms(2) by (auto intro!: exI [of _ "i + i'"])
  qed (use assms(1) Pair in simp)
qed

definition sound :: "nat \<Rightarrow> nat \<Rightarrow> 'a rd \<Rightarrow> ('a \<Rightarrow> bool) \<Rightarrow> bool" where
  "sound k j m P \<longleftrightarrow> (\<forall>r. reader_ok r \<longrightarrow> rsize r - rpos r \<le> k \<longrightarrow> outcome_ok j P r (m r))"

lemma soundI: "(\<And>r. reader_ok r \<Longrightarrow> rsize r - rpos r \<le> k \<Longrightarrow> outcome_ok j P r (m r)) \<Longrightarrow> sound k j m P"
  by (simp add: sound_def)

lemma soundD: "sound k j m P \<Longrightarrow> reader_ok r \<Longrightarrow> rsize r - rpos r \<le> k \<Longrightarrow> outcome_ok j P r (m r)"
  by (simp add: sound_def)

lemma sound_weaken:
  assumes "sound k j m P" and "k' \<le> k" and "j' \<le> j" and "\<And>x. P x \<Longrightarrow> Q x"
  shows "sound k' j' m Q"
proof (rule soundI)
  fix r :: reader
  assume "reader_ok r" and "rsize r - rpos r \<le> k'"
  then have "outcome_ok j P r (m r)"
    using assms(2) by (intro soundD [OF assms(1)]) simp_all
  then show "outcome_ok j' Q r (m r)"
    by (rule outcome_ok_mono [OF _ assms(3,4)])
qed

lemma reader_ok_adv_le: "reader_ok r \<Longrightarrow> i \<le> rsize r - rpos r \<Longrightarrow> reader_ok (adv i r)"
  by (simp add: reader_ok_adv length_visible)

lemma sound_bind:
  assumes m: "sound k j m P" and f: "\<And>x. P x \<Longrightarrow> sound (k - j) j' (f x) Q"
  shows "sound k (j + j') (rd_bind m f) Q"
proof (rule soundI)
  fix r :: reader
  assume r: "reader_ok r" "rsize r - rpos r \<le> k"
  obtain out r1 where run: "m r = (out, r1)" by force
  note first = soundD [OF m r, unfolded run]
  show "outcome_ok (j + j') Q r (rd_bind m f r)"
  proof (cases out)
    case (Inr x)
    then obtain i where i: "j \<le> i" "i \<le> rsize r - rpos r" and r1: "r1 = adv i r" and "P x"
      using first by auto
    have "reader_ok r1" "rsize r1 - rpos r1 \<le> k - j"
      using reader_ok_adv_le [OF r(1) i(2)] r(2) i by (simp_all add: r1)
    then have "outcome_ok j' Q r1 (f x r1)"
      by (rule soundD [OF f [OF \<open>P x\<close>]])
    then have "outcome_ok (i + j') Q r (f x r1)"
      unfolding r1 by (rule outcome_ok_adv) (rule i(2))
    then have "outcome_ok (j + j') Q r (f x r1)"
      by (rule outcome_ok_mono) (simp_all add: i(1))
    then show ?thesis
      using run Inr by (simp add: rd_bind_def)
  qed (use first run in \<open>simp add: rd_bind_def\<close>)
qed

lemma sound_return [simp]: "P x \<Longrightarrow> sound k 0 (rd_return x) P"
  by (rule soundI) (auto simp: rd_return_def intro!: exI [of _ 0])

lemma sound_throw [simp]: "e \<noteq> Unfinished \<Longrightarrow> sound k j (rd_throw e) P"
  by (rule soundI) (simp add: rd_throw_def)

lemma sound_enforce: "e \<noteq> Unfinished \<Longrightarrow> sound k 0 (rd_enforce b e) (\<lambda>_. b)"
  by (simp add: rd_enforce_def)

text \<open>Sequencing where the second part does not need the bytes that the first one took.\<close>

lemma sound_then:
  assumes "sound k j m P" and "\<And>x. P x \<Longrightarrow> sound k 0 (f x) Q"
  shows "sound k j (rd_bind m f) Q"
proof -
  have "sound (k - j) 0 (f x) Q" if "P x" for x
    using sound_weaken [OF assms(2) [OF that], of "k - j" 0 Q] by simp
  then show ?thesis
    using sound_bind [OF assms(1), of 0 f Q] by simp
qed

lemma sound_after:
  assumes "sound k 0 m P" and "\<And>x. P x \<Longrightarrow> sound k j (f x) Q"
  shows "sound k j (rd_bind m f) Q"
  using sound_bind [OF assms(1), of j f Q] assms(2) by simp

lemma sound_enforce_then:
  assumes "e \<noteq> Unfinished" and "b \<Longrightarrow> sound k j m Q"
  shows "sound k j (rd_bind (rd_enforce b e) (\<lambda>_. m)) Q"
  by (rule sound_after [OF sound_enforce [OF assms(1)]]) (rule assms(2))

lemma sound_map: "sound k j m P \<Longrightarrow> (\<And>x. P x \<Longrightarrow> Q (f x)) \<Longrightarrow> sound k j (rd_map f m) Q"
  unfolding rd_map_def by (erule sound_then) simp

lemma sound_if: "(b \<Longrightarrow> sound k j m P) \<Longrightarrow> (\<not> b \<Longrightarrow> sound k j m' P) \<Longrightarrow> sound k j (if b then m else m') P"
  by simp

lemma sound_any: "sound k j m P \<Longrightarrow> sound k 0 m P"
  by (erule sound_weaken) simp_all

text \<open>A loop goes on while a byte is left.\<close>

lemma sound_loop:
  assumes "0 < k \<Longrightarrow> sound k 0 m Q" and "Q x"
  shows "sound k 0 (\<lambda>r. if NotEnd r then m r else (Inr x, r)) Q"
proof (rule soundI)
  fix r :: reader
  assume r: "reader_ok r" "rsize r - rpos r \<le> k"
  show "outcome_ok 0 Q r (if NotEnd r then m r else (Inr x, r))"
  proof (cases "NotEnd r")
    case True
    then have "0 < k"
      using r(2) by (simp add: NotEnd_def)
    then show ?thesis
      using soundD [OF assms(1) r] True by simp
  qed (auto simp: assms(2) intro!: exI [of _ 0])
qed

section \<open>The stream\<close>

lemma sound_skip_bytes: "sound k n (skip_bytes n) (\<lambda>_. True)"
  by (rule soundI) (auto simp: skip_bytes_def adv_def)

lemma sound_read_bytes: "sound k n (read_bytes n) (\<lambda>_. True)"
  by (rule soundI) (auto simp: read_bytes_def adv_def)

lemma sound_CanRead: "sound k 0 (CanRead len) (\<lambda>_. unat len \<le> k)"
  by (rule soundI) (auto simp: CanRead_def rd_enforce_def rd_return_def rd_throw_def
      uint_le_iff_unat_le intro!: exI [of _ 0])

lemma next_uint64_loop_advances: "outcome_ok 1 (\<lambda>_. True) r (next_uint64_loop n s acc r)"
proof (induction n arbitrary: s acc r)
  case (Suc n)
  show ?case
  proof (cases "rpos r < rsize r")
    case True
    let ?b = "rdata r ! rpos r" and ?r = "adv 1 r"
    show ?thesis
    proof (cases "?b AND 0x80 = 0")
      case False
      let ?acc = "acc OR push_bit s (ucast (?b AND 0x7F) :: 64 word)"
      have "next_uint64_loop (Suc n) s acc r = next_uint64_loop n (s + 7) ?acc ?r"
        using True False by (simp add: Let_def adv_1)
      moreover have "outcome_ok 1 (\<lambda>_. True) ?r (next_uint64_loop n (s + 7) ?acc ?r)"
        by (rule Suc.IH)
      ultimately show ?thesis
        using True by (auto dest!: outcome_ok_adv elim: outcome_ok_mono simp del: next_uint64_loop.simps)
    qed (use True in \<open>auto simp: Let_def adv_1 intro!: exI [of _ 1]\<close>)
  qed simp
qed simp

lemma sound_next_uint64: "sound k 1 next_uint64 (\<lambda>_. True)"
proof (rule soundI)
  fix r :: reader
  show "outcome_ok 1 (\<lambda>_. True) r (next_uint64 r)"
    using next_uint64_loop_advances [of r 10 0 0]
    by (auto simp: next_uint64_def adv_1 simp del: next_uint64_loop.simps intro!: exI [of _ 1])
qed

lemma sound_next_string: "sound k 1 next_string (\<lambda>_. True)"
  unfolding next_string_def
  by (rule sound_then [OF sound_next_uint64], rule sound_after [OF sound_CanRead])
    (rule sound_weaken [OF sound_read_bytes order_refl], simp_all)

lemma sound_next_field: "sound k 1 next_field (\<lambda>_. True)"
  unfolding next_field_def by (rule sound_then [OF sound_next_uint64]) simp

lemma sound_next_float: "sound k 0 next_float (\<lambda>_. True)"
  unfolding next_float_def
  by (rule sound_then [OF sound_weaken [OF sound_read_bytes order_refl]]) simp_all

text \<open>A limit that is set and removed by its guard: the block is skipped to its end or not, but the
  limit is gone, and what the body left on the stack is popped once.\<close>

lemma limited_outcome:
  assumes "unat len \<le> rsize r - rpos r" and "reader_ok r" and "outcome_ok 0 P (limited (unat len) r) res"
  shows "outcome_ok 0 P r (case res of (out, r') \<Rightarrow>
     (case Restore r' of (Inl e, r'') \<Rightarrow> (Inl e, r'') | (Inr _, r'') \<Rightarrow> (out, r'')))"
proof (cases res)
  case (Pair out r')
  show ?thesis
  proof (cases out)
    case (Inl e)
    then show ?thesis
      using assms(3) Pair by (auto simp: Restore_def LimitTo_def rd_bind_def limited_def)
  next
    case (Inr x)
    then obtain i where "i \<le> unat len" and r': "r' = adv i (limited (unat len) r)" and "P x"
      using assms(3) Pair by (auto simp: limited_def)
    then show ?thesis
      using Inr Pair assms(1) by (auto simp: Restore_limited intro!: exI [of _ i])
  qed
qed

lemma sound_limited_body:
  assumes "sound k 0 body P"
  shows "sound k 0 (rd_bind (LimitToNext len) (\<lambda>_. StreamLimitGuard body)) P"
proof (rule soundI)
  fix r :: reader
  assume r: "reader_ok r" "rsize r - rpos r \<le> k"
  show "outcome_ok 0 P r (rd_bind (LimitToNext len) (\<lambda>_. StreamLimitGuard body) r)"
  proof (cases "unat len \<le> rsize r - rpos r")
    case True
    then have fits: "unat len \<le> length (visible r)"
      by (simp add: length_visible r(1))
    let ?l = "limited (unat len) r"
    have "reader_ok ?l" "rsize ?l - rpos ?l \<le> k"
      using reader_ok_limited [OF r(1) fits] True r(2) by (simp_all add: limited_def)
    then have "outcome_ok 0 P ?l (body ?l)"
      by (rule soundD [OF assms])
    from limited_outcome [OF True r(1) this] show ?thesis
      using LimitToNext_visible [OF r(1) fits] by (simp add: rd_bind_def StreamLimitGuard_def)
  next
    case False
    then show ?thesis
      using r(1) by (simp add: LimitToNext_def rd_bind_def CanRead_def rd_enforce_def rd_throw_def
          uint_le_iff_unat_le)
  qed
qed

lemma sound_limited:
  assumes "sound (k - 1) 0 body P"
  shows "sound k 1 (rd_bind next_uint64 (\<lambda>len. rd_bind (LimitToNext len) (\<lambda>_. StreamLimitGuard body))) P"
  using sound_bind [OF sound_next_uint64 sound_limited_body [OF assms]] by simp

section \<open>Single and repeated values\<close>

lemma sound_varint_then: "(\<And>x. sound k 0 (f x) Q) \<Longrightarrow> sound k 0 (rd_bind next_uint64 f) Q"
  by (rule sound_any, rule sound_then [OF sound_next_uint64])

lemma sound_skip_then: "sound k 0 m Q \<Longrightarrow> sound k 0 (rd_bind (skip_bytes n) (\<lambda>_. m)) Q"
  by (rule sound_any, rule sound_then [OF sound_skip_bytes])

lemma sound_read_then: "(\<And>bs. sound k 0 (f bs) Q) \<Longrightarrow> sound k 0 (rd_bind (read_bytes n) f) Q"
  by (rule sound_any, rule sound_then [OF sound_read_bytes])

lemma sound_string_then: "(\<And>s. sound k 0 (f s) Q) \<Longrightarrow> sound k 0 (rd_bind next_string f) Q"
  by (rule sound_any, rule sound_then [OF sound_next_string])

lemma sound_CanRead_then: "sound k 0 m Q \<Longrightarrow> sound k 0 (rd_bind (CanRead len) (\<lambda>_. m)) Q"
  by (rule sound_then [OF sound_CanRead])

lemma sound_allocation_then: "sound k 0 m Q \<Longrightarrow> sound k 0 (rd_bind (CheckAllocationLimit po len) (\<lambda>_. m)) Q"
  unfolding CheckAllocationLimit_def by (rule sound_enforce_then) simp_all

lemmas sound_steps = sound_varint_then sound_skip_then sound_read_then sound_string_then
  sound_CanRead_then sound_allocation_then sound_enforce_then

lemma sound_SkipField: "sound k 0 (SkipFieldByWireType wt) (\<lambda>_. True)"
  unfolding SkipFieldByWireType_def
  by (intro sound_if sound_steps sound_any [OF sound_skip_bytes] sound_return sound_throw) simp_all

lemma sound_if_wire_type:
  assumes "b \<Longrightarrow> sound k 0 body P" and "\<not> b \<Longrightarrow> P old"
  shows "sound k 0 (if_wire_type b wt old body) P"
  unfolding if_wire_type_def
  by (intro sound_if assms(1) sound_then [OF sound_SkipField] sound_return assms(2))

lemma number_ok_cast [simp]: "number_ok t (cast_number t w)"
proof -
  have "(ucast (scast (x :: 32 word) :: 64 word) :: 32 word) = x" for x
    by (rule bit_eqI) (auto simp: bit_simps)
  moreover have "(ucast (ucast (x :: 32 word) :: 64 word) :: 32 word) = x" for x
    by (rule bit_eqI) (auto simp: bit_simps)
  ultimately show ?thesis
    by (simp add: number_ok_def cast_number_def split: ntype.split)
qed

lemma sound_field_string: "sound k 0 (read_field_string wt old) (\<lambda>_. True)"
  unfolding read_field_string_def by (intro sound_if_wire_type sound_steps sound_return TrueI)

lemma sound_field_number:
  "sound k 0 (read_field_number t wt old) (\<lambda>x. wt = 0 \<and> (\<exists>w. x = Some w \<and> number_ok t w) \<or> wt \<noteq> 0 \<and> x = old)"
  unfolding read_field_number_def by (intro sound_if_wire_type sound_steps sound_return) simp_all

lemma sound_enum_field:
  "sound k 0 (read_enum_field wt old) (\<lambda>x. (\<exists>w. x = Some w \<and> number_ok I32 w) \<or> x = old)"
  unfolding read_enum_field_def by (intro sound_if_wire_type sound_steps sound_return) simp_all

lemma sound_field_float: "sound k 0 (read_field_float wt old) (\<lambda>_. True)"
  unfolding read_field_float_def
  by (intro sound_if_wire_type sound_then [OF sound_next_float] sound_return TrueI)

lemma sound_field_limit: "sound k 0 (read_field_limit_parallel_nc po wt old) (\<lambda>_. True)"
  unfolding read_field_limit_parallel_nc_def
  by (intro sound_if_wire_type sound_if sound_steps sound_return TrueI)

lemma sound_repeated_strings: "sound k 0 (read_repeated_strings wt old) (\<lambda>_. True)"
  unfolding read_repeated_strings_def by (intro sound_if_wire_type sound_steps sound_return TrueI)

lemma sound_unpacked_float: "sound k 0 (read_unpacked_number_float width wt) (\<lambda>_. True)"
  unfolding read_unpacked_number_float_def by (intro sound_steps sound_return TrueI) simp_all

lemma sound_repeated_fixed: "sound k 0 (read_repeated_fixed po width p wt old) (\<lambda>_. True)"
  unfolding read_repeated_fixed_def read_repeated_field_packed_numerical_float_def
  by (intro sound_if sound_steps sound_then [OF sound_unpacked_float] sound_return TrueI) simp_all

text \<open>
  The packed block of varints sets its limit without a guard: the loop leaves the limits as they are,
  so that the one limit is what a failure leaves.
\<close>

lemma next_uint64_limits: "rlimits (snd (next_uint64 r)) = rlimits r"
proof -
  have "rlimits (snd (next_uint64_loop n s acc r)) = rlimits r" for n s acc r
    by (induction n arbitrary: s acc r) (auto simp: Let_def)
  then show ?thesis
    by (simp add: next_uint64_def del: next_uint64_loop.simps)
qed

lemma read_packed_loop_limits: "rlimits (snd (read_packed_loop n t acc r)) = rlimits r"
proof (induction n arbitrary: acc r)
  case (Suc n)
  then show ?case
    using next_uint64_limits [of r] by (auto simp: rd_bind_def split: prod.splits sum.splits)
qed simp

lemma sound_packed_loop:
  "k < n \<Longrightarrow> list_all (number_ok t) acc \<Longrightarrow> sound k 0 (read_packed_loop n t acc) (list_all (number_ok t))"
proof (induction n arbitrary: k acc)
  case (Suc n)
  have loop: "read_packed_loop (Suc n) t acc = (\<lambda>r. if NotEnd r
      then rd_bind next_uint64 (\<lambda>w. read_packed_loop n t (acc @ [cast_number t w])) r else (Inr acc, r))"
    by (rule ext) simp
  show ?case
    unfolding loop
  proof (rule sound_loop)
    assume "0 < k"
    have "sound (k - 1) 0 (read_packed_loop n t (acc @ [cast_number t w])) (list_all (number_ok t))" for w
      using Suc.prems \<open>0 < k\<close> by (intro Suc.IH) auto
    from sound_any [OF sound_bind [OF sound_next_uint64 this]]
    show "sound k 0 (rd_bind next_uint64 (\<lambda>w. read_packed_loop n t (acc @ [cast_number t w]))) (list_all (number_ok t))" .
  qed (rule Suc.prems(2))
qed simp

lemma sound_packed_block:
  assumes "list_all (number_ok t) old"
  shows "sound k 0 (rd_bind (LimitToNext len) (\<lambda>_. rd_bind (read_packed_loop (Suc (unat len)) t old)
    (\<lambda>acc. rd_bind Restore (\<lambda>_. rd_return acc)))) (list_all (number_ok t))"
proof (rule soundI)
  fix r :: reader
  assume r: "reader_ok r" "rsize r - rpos r \<le> k"
  let ?loop = "read_packed_loop (Suc (unat len)) t old"
  show "outcome_ok 0 (list_all (number_ok t)) r (rd_bind (LimitToNext len) (\<lambda>_. rd_bind ?loop
    (\<lambda>acc. rd_bind Restore (\<lambda>_. rd_return acc))) r)"
  proof (cases "unat len \<le> rsize r - rpos r")
    case True
    then have fits: "unat len \<le> length (visible r)"
      by (simp add: length_visible r(1))
    let ?l = "limited (unat len) r"
    obtain out r' where run: "?loop ?l = (out, r')" by force
    have limits: "rlimits r' = rsize r # rlimits r"
      using read_packed_loop_limits [of "Suc (unat len)" t old ?l] run by (simp add: limited_def)
    have "outcome_ok 0 (list_all (number_ok t)) ?l (?loop ?l)"
      using reader_ok_limited [OF r(1) fits] by (intro soundD [OF sound_packed_loop [OF lessI assms]])
        (simp_all add: limited_def)
    then have result: "outcome_ok 0 (list_all (number_ok t)) ?l (out, r')"
      unfolding run .
    have "outcome_ok 0 (list_all (number_ok t)) r (rd_bind ?loop (\<lambda>acc. rd_bind Restore (\<lambda>_. rd_return acc)) ?l)"
    proof (cases out)
      case (Inr ws)
      then obtain i where "i \<le> unat len" and "r' = adv i ?l" and "list_all (number_ok t) ws"
        using result by (auto simp: limited_def)
      then show ?thesis
        using run Inr True by (auto simp: rd_bind_def rd_return_def Restore_limited
            simp del: read_packed_loop.simps intro!: exI [of _ i])
    qed (use run result limits in \<open>simp add: rd_bind_def del: read_packed_loop.simps\<close>)
    then show ?thesis
      using LimitToNext_visible [OF r(1) fits]
      by (simp add: rd_bind_def [of "LimitToNext len"] del: read_packed_loop.simps)
  next
    case False
    then show ?thesis
      using r(1) by (simp add: LimitToNext_def rd_bind_def CanRead_def rd_enforce_def rd_throw_def
          uint_le_iff_unat_le)
  qed
qed

lemma sound_unpacked_number: "sound k 0 (read_unpacked_number_int t wt) (number_ok t)"
  unfolding read_unpacked_number_int_def by (intro sound_steps sound_return) simp_all

lemma sound_repeated_numbers:
  "list_all (number_ok t) old \<Longrightarrow> sound k 0 (read_repeated_numbers po t p wt old) (list_all (number_ok t))"
  unfolding read_repeated_numbers_def read_repeated_field_packed_numerical_int_def
  by (intro sound_if sound_steps sound_packed_block sound_then [OF sound_unpacked_number] sound_return) simp_all

section \<open>Messages inside messages\<close>

text \<open>A value whose messages are well typed at what is left of the depth.\<close>

definition value_fits :: "nat \<Rightarrow> fkind \<Rightarrow> fval \<Rightarrow> bool" where
  "value_fits d k v \<longleftrightarrow> value_ok k v
     \<and> list_all (\<lambda>(l, c, m). l \<le> d \<and> well_typed (d - l) c m) (sub_messages k v)"

definition exclusive :: "schema \<Rightarrow> fval list \<Rightarrow> bool" where
  "exclusive fs vs \<longleftrightarrow> (\<forall>i j g. i < length fs \<and> j < length fs \<and> i \<noteq> j \<and> oneof_group (snd (fs ! i)) = Some g
     \<and> oneof_group (snd (fs ! j)) = Some g \<and> is_set (vs ! i) \<longrightarrow> \<not> is_set (vs ! j))"

lemma list_all_concat: "list_all P (concat xss) \<longleftrightarrow> list_all (list_all P) xss"
  by (induction xss) simp_all

lemma well_typed_iff:
  "well_typed d c (Msg vs) \<longleftrightarrow> length vs = length (cls_fields c)
     \<and> (\<forall>i < length (cls_fields c). value_fits d (snd (cls_fields c ! i)) (vs ! i)) \<and> exclusive (cls_fields c) vs"
proof -
  let ?fs = "cls_fields c" and ?fit = "\<lambda>(l, c, m). l \<le> d \<and> well_typed (d - l) c m"
  have "list_all ?fit (field_messages ?fs vs) \<longleftrightarrow>
      (\<forall>i < length ?fs. list_all ?fit (sub_messages (snd (?fs ! i)) (vs ! i)))" if len: "length vs = length ?fs"
    unfolding field_messages_def list_all_concat using len by (simp add: list_all_length split_beta)
  then show ?thesis
    by (auto simp: well_typed_def fields_ok_iff value_fits_def exclusive_def)
qed

definition sub_sound :: "parse_options \<Rightarrow> nat \<Rightarrow> sub_parser \<Rightarrow> bool" where
  "sub_sound po k sub \<longleftrightarrow> (\<forall>depth d c m. max_recursion_depth po \<le> int (depth + d) \<longrightarrow> well_typed (Suc d) c m
     \<longrightarrow> sound k 0 (sub depth c m) (well_typed (Suc d) c))"

lemma sound_next_message:
  assumes "sub_sound po k sub" and "max_recursion_depth po \<le> int (depth + d)" and "1 \<le> d \<Longrightarrow> well_typed d c m"
  shows "sound k 0 (read_next_field_in_shortended_stream po depth sub c m) (\<lambda>m'. well_typed d c m' \<and> 1 \<le> d)"
  unfolding read_next_field_in_shortended_stream_def validate_depth_def
proof (rule sound_enforce_then)
  assume "int (depth + 1) \<le> max_recursion_depth po"
  then have d: "1 \<le> d" and bound: "max_recursion_depth po \<le> int (Suc depth + (d - 1))"
    using assms(2) by linarith+
  then have "sound k 0 (sub (Suc depth) c m) (well_typed d c)"
    using assms(1,3) unfolding sub_sound_def by (metis Suc_pred' less_eq_Suc_le One_nat_def)
  then have "sound (k - 1) 0 (sub (Suc depth) c m) (\<lambda>m'. well_typed d c m' \<and> 1 \<le> d)"
    by (rule sound_weaken) (use d in simp_all)
  from sound_any [OF sound_limited [OF this]] show "sound k 0 (rd_bind next_uint64
      (\<lambda>len. rd_bind (LimitToNext len) (\<lambda>_. StreamLimitGuard (sub (depth + 1) c m)))) (\<lambda>m'. well_typed d c m' \<and> 1 \<le> d)"
    by simp
qed simp

text \<open>New objects: the members that are messages are one level below.\<close>

definition default_ok :: "fkind \<Rightarrow> bool" where
  "default_ok k \<longleftrightarrow> (case k of F_num t w \<Rightarrow> number_ok t w | _ \<Rightarrow> True)"

lemma number_ok_0 [simp]: "number_ok t 0"
  by (simp add: number_ok_def cast_number_def split: ntype.split)

lemma number_ok_minus_1 [simp]: "number_ok I32 (- 1)"
  unfolding number_ok_def cast_number_def ntype.case by (rule bit_eqI) (auto simp: bit_simps)

lemma schema_defaults_ok: "list_all (\<lambda>(fn, k). default_ok k) (cls_fields c)"
  by (cases c) (simp_all add: fields_defs default_ok_def)

lemma schema_members: "(fn, F_msg c') \<in> set (cls_fields c) \<Longrightarrow> (fn', F_msg c'') \<notin> set (cls_fields c')"
  by (cases c) (auto simp: fields_defs)

lemma default_leaf_fits:
  assumes "default_ok k" and "\<And>c. k \<noteq> F_msg c"
  shows "value_fits d k (default_leaf k)"
  using assms by (cases k) (auto simp: value_fits_def value_ok_iff sub_messages_def default_ok_def)

lemma exclusive_defaults:
  assumes "length vs = length fs"
    and "\<And>i g. i < length fs \<Longrightarrow> oneof_group (snd (fs ! i)) = Some g \<Longrightarrow> vs ! i = default_leaf (snd (fs ! i))"
  shows "exclusive fs vs"
proof -
  have "oneof_group k = Some g \<Longrightarrow> \<not> is_set (default_leaf k)" for k g
    by (cases k) (auto simp: oneof_group_def is_set_def)
  then show ?thesis
    using assms unfolding exclusive_def by metis
qed

lemma plain_default_typed:
  assumes "\<And>fn c'. (fn, F_msg c') \<notin> set (cls_fields c)"
  shows "well_typed d c (Msg (map (default_leaf \<circ> snd) (cls_fields c)))"
proof -
  have "value_fits d (snd (cls_fields c ! i)) (default_leaf (snd (cls_fields c ! i)))"
    if "i < length (cls_fields c)" for i
  proof (rule default_leaf_fits)
    show "default_ok (snd (cls_fields c ! i))"
      using schema_defaults_ok [of c] that by (auto simp: list_all_length split_beta)
    show "snd (cls_fields c ! i) \<noteq> F_msg c'" for c'
      using assms nth_mem [OF that] by (metis prod.collapse)
  qed
  then show ?thesis
    by (auto simp: well_typed_iff intro!: exclusive_defaults)
qed

lemma default_message_typed:
  assumes "1 \<le> d"
  shows "well_typed d c (default_message c)"
proof -
  have "value_fits d (snd (cls_fields c ! i)) (default_value (snd (cls_fields c ! i)))"
    if i: "i < length (cls_fields c)" for i
  proof (cases "\<exists>c'. snd (cls_fields c ! i) = F_msg c'")
    case True
    then obtain c' where k: "snd (cls_fields c ! i) = F_msg c'" by blast
    then have "(fst (cls_fields c ! i), F_msg c') \<in> set (cls_fields c)"
      using nth_mem [OF i] by (metis prod.collapse)
    then have "well_typed (d - 1) c' (Msg (map (default_leaf \<circ> snd) (cls_fields c')))"
      by (intro plain_default_typed) (rule schema_members)
    then show ?thesis
      using assms by (simp add: k default_value_def value_fits_def value_ok_iff sub_messages_def)
  next
    case False
    then have "default_value (snd (cls_fields c ! i)) = default_leaf (snd (cls_fields c ! i))"
      by (auto simp: default_value_def split: fkind.split)
    moreover have "default_ok (snd (cls_fields c ! i))"
      using schema_defaults_ok [of c] i by (auto simp: list_all_length split_beta)
    ultimately show ?thesis
      using False default_leaf_fits by metis
  qed
  then show ?thesis
    by (auto simp: default_message_def well_typed_iff group_default intro!: exclusive_defaults)
qed

lemma sorted_insort_new:
  fixes key :: "byte list"
  assumes "sorted_wrt (<) (map fst es)" and "key \<notin> fst ` set es"
  shows "sorted_wrt (<) (map fst (insort_key fst (key, m) es))"
  using assms by (induction es) (auto simp: set_insort_key dest: less_imp_le)

definition optional_message :: "nat \<Rightarrow> cls \<Rightarrow> msg option \<Rightarrow> bool" where
  "optional_message d c val \<longleftrightarrow> (\<forall>m. val = Some m \<longrightarrow> well_typed d c m \<and> 1 \<le> d)"

lemma sub_sound_mono: "sub_sound po K sub \<Longrightarrow> k \<le> K \<Longrightarrow> sub_sound po k sub"
  unfolding sub_sound_def by (meson order_refl sound_weaken)

lemma sound_map_loop:
  assumes sub: "sub_sound po K sub" and bound: "max_recursion_depth po \<le> int (depth + d)"
  shows "k < n \<Longrightarrow> k \<le> K \<Longrightarrow> optional_message d c val
    \<Longrightarrow> sound k 0 (read_map_loop po depth sub c n key val) (\<lambda>x. optional_message d c (snd x))"
proof (induction n arbitrary: k key val)
  case (Suc n)
  let ?loop = "read_map_loop po depth sub c n" and ?P = "\<lambda>x :: byte list option \<times> msg option. optional_message d c (snd x)"
  let ?step = "\<lambda>(fn, wt).
        if fn = 1 \<and> wt = 2
        then rd_bind (rd_enforce (key = None) Malformed) (\<lambda>_. rd_bind next_string
               (\<lambda>s. ?loop (Some s) val))
        else if fn = 2 \<and> wt = 2
        then rd_bind (rd_enforce (val = None) Malformed) (\<lambda>_.
             rd_bind (read_next_field_in_shortended_stream po depth sub c (default_message c))
               (\<lambda>m. ?loop key (Some m)))
        else rd_bind (rd_enforce (fn \<noteq> 0) Malformed) (\<lambda>_. rd_bind (SkipFieldByWireType wt)
               (\<lambda>_. ?loop key val))"
  have loop: "read_map_loop po depth sub c (Suc n) key val = (\<lambda>r. if NotEnd r
      then rd_bind next_field ?step r else (Inr (key, val), r))"
    by (rule ext) simp
  show ?case
    unfolding loop
  proof (rule sound_loop)
    assume "0 < k"
    then have again: "sound (k - 1) 0 (?loop key' val') ?P" if "optional_message d c val'" for key' val'
      using Suc.prems(1,2) that by (intro Suc.IH) auto
    have message: "sound (k - 1) 0 (read_next_field_in_shortended_stream po depth sub c (default_message c))
        (\<lambda>m'. well_typed d c m' \<and> 1 \<le> d)"
      using Suc.prems(2) by (intro sound_next_message [OF sub_sound_mono [OF sub] bound] default_message_typed) simp
    have "sound (k - 1) 0 (?step tag) ?P" for tag :: "64 word \<times> 64 word"
      unfolding case_prod_unfold
      using Suc.prems(3) by (intro sound_if sound_steps sound_then [OF message] sound_then [OF sound_SkipField] again)
        (simp_all add: optional_message_def)
    from sound_any [OF sound_bind [OF sound_next_field this]] show "sound k 0 (rd_bind next_field ?step) ?P" .
  qed (use Suc.prems(3) in simp)
qed simp

lemma sound_map_field:
  assumes sub: "sub_sound po K sub" and bound: "max_recursion_depth po \<le> int (depth + d)" and "k < n" "k \<le> K"
    and old: "value_fits (Suc d) (F_map c) (V_map old)"
  shows "sound k 0 (read_map_field po depth sub n c wt old) (\<lambda>es. value_fits (Suc d) (F_map c) (V_map es))"
  unfolding read_map_field_def validate_depth_def
proof (intro sound_if_wire_type sound_enforce_then old)
  assume "int (depth + 1) \<le> max_recursion_depth po"
  then have d: "1 \<le> d" and bound': "max_recursion_depth po \<le> int (depth + 1 + (d - 1))"
    using bound by linarith+
  have "sound (k - 1) 0 (read_map_loop po (depth + 1) sub c n None None)
      (\<lambda>x. optional_message (d - 1) c (snd x))"
    using assms(3,4) by (intro sound_map_loop [OF sub bound']) (simp_all add: optional_message_def)
  then have "sound (k - 1) 0 (rd_bind (read_map_loop po (depth + 1) sub c n None None)
            (\<lambda>(key, val). case (key, val) of
                 (Some k, Some m) \<Rightarrow>
                   rd_bind (rd_enforce (k \<noteq> [] \<and> k \<notin> fst ` set old) Malformed)
                     (\<lambda>_. rd_return (insort_key fst (k, m) old))
               | _ \<Rightarrow> rd_throw Malformed)) (\<lambda>es. value_fits (Suc d) (F_map c) (V_map es))"
  proof (rule sound_then)
    fix x :: "byte list option \<times> msg option"
    assume x: "optional_message (d - 1) c (snd x)"
    obtain key val where x': "x = (key, val)" by force
    have "value_fits (Suc d) (F_map c) (V_map (insort_key fst (k', m) old))"
      if "k' \<noteq> []" "k' \<notin> fst ` set old" "val = Some m" for k' m
      using old x that unfolding x'
      by (auto simp: value_fits_def value_ok_iff sub_messages_def optional_message_def list_all_iff
          set_insort_key sorted_insort_new)
    then show "sound (k - 1) 0 (case x of (key, val) \<Rightarrow> case (key, val) of
                 (Some k, Some m) \<Rightarrow>
                   rd_bind (rd_enforce (k \<noteq> [] \<and> k \<notin> fst ` set old) Malformed)
                     (\<lambda>_. rd_return (insort_key fst (k, m) old))
               | _ \<Rightarrow> rd_throw Malformed) (\<lambda>es. value_fits (Suc d) (F_map c) (V_map es))"
      by (auto simp: x' intro!: sound_enforce_then split: option.split)
  qed
  from sound_any [OF sound_limited [OF this]] show "sound k 0 (rd_bind next_uint64 (\<lambda>len. rd_bind (LimitToNext len) (\<lambda>_.
        StreamLimitGuard
          (rd_bind (read_map_loop po (depth + 1) sub c n None None)
            (\<lambda>(key, val). case (key, val) of
                 (Some k, Some m) \<Rightarrow>
                   rd_bind (rd_enforce (k \<noteq> [] \<and> k \<notin> fst ` set old) Malformed)
                     (\<lambda>_. rd_return (insort_key fst (k, m) old))
               | _ \<Rightarrow> rd_throw Malformed))))) (\<lambda>es. value_fits (Suc d) (F_map c) (V_map es))" .
qed simp

section \<open>One tag\<close>

text \<open>
  The value of a field after a tag: it still fits, and a member of a group that is unset and is not
  entered stays as it was.
\<close>

definition tagged_ok :: "nat \<Rightarrow> fkind \<Rightarrow> 64 word \<Rightarrow> fval \<Rightarrow> fval \<Rightarrow> bool" where
  "tagged_ok d k wt v v' \<longleftrightarrow> value_fits d k v'
     \<and> (oneof_group k \<noteq> None \<longrightarrow> enters_oneof k wt v = None \<longrightarrow> \<not> is_set v \<longrightarrow> v' = v)"

lemma sound_message_value:
  assumes sub: "sub_sound po K sub" and bound: "max_recursion_depth po \<le> int (depth + d)" and "k \<le> K"
    and old: "value_fits (Suc d) f v" and "1 \<le> d \<Longrightarrow> well_typed d c m"
    and "\<And>m'. well_typed d c m' \<Longrightarrow> value_fits (Suc d) f (W m')"
    and "oneof_group f \<noteq> None \<Longrightarrow> wt = 2 \<Longrightarrow> enters_oneof f wt v \<noteq> None \<or> is_set v"
  shows "sound k 0 (if_wire_type (wt = 2) wt v (rd_map W (read_next_field_in_shortended_stream po depth sub c m)))
      (tagged_ok (Suc d) f wt v)"
  using assms(4-) sub_sound_mono [OF sub \<open>k \<le> K\<close>]
  by (intro sound_if_wire_type sound_map [OF sound_next_message [OF _ bound]]) (auto simp: tagged_ok_def)

lemma sound_value:
  assumes sub: "sub_sound po K sub" and bound: "max_recursion_depth po \<le> int (depth + d)" and "k < n" "k \<le> K"
    and old: "value_fits (Suc d) f v"
  shows "sound k 0 (read_value po depth sub n f wt v) (tagged_ok (Suc d) f wt v)"
proof -
  have ok: "value_ok f v" and fits: "list_all (\<lambda>(l, c, m). l \<le> Suc d \<and> well_typed (Suc d - l) c m) (sub_messages f v)"
    using old by (simp_all add: value_fits_def)
  note leaves = sound_field_string sound_field_number sound_enum_field sound_field_float sound_field_limit
    sound_repeated_strings sound_repeated_numbers sound_repeated_fixed
  note message = sound_message_value [OF sub bound \<open>k \<le> K\<close>]
  show ?thesis
  proof (cases f)
    case (F_map c)
    then show ?thesis
      using ok old sound_map [OF sound_map_field [OF sub bound \<open>k < n\<close> \<open>k \<le> K\<close>], of c _ _ V_map]
      by (auto simp: value_ok_iff read_value_def tagged_ok_def oneof_group_def)
  next
    case (F_msg c)
    then show ?thesis
      using ok fits by (auto simp: value_ok_iff read_value_def sub_messages_def oneof_group_def value_fits_def intro!: message)
  next
    case (F_opt_msg c)
    then show ?thesis
      using ok fits
      by (auto simp: value_ok_iff read_value_def sub_messages_def oneof_group_def value_fits_def
          intro!: message default_message_typed)
  next
    case (F_one_msg c g)
    then show ?thesis
      using ok fits
      by (auto simp: value_ok_iff read_value_def sub_messages_def enters_oneof_def is_set_def value_fits_def
          intro!: message default_message_typed)
  next
    case (F_msgs c)
    then show ?thesis
      using ok fits
      by (auto simp: value_ok_iff read_value_def sub_messages_def oneof_group_def value_fits_def list_all_iff
          intro!: message default_message_typed)
  qed (use ok in \<open>auto simp: value_ok_iff read_value_def tagged_ok_def value_fits_def sub_messages_def oneof_group_def
        enters_oneof_def is_set_def intro!: sound_map [OF leaves(1)] sound_map [OF leaves(2)] sound_map [OF leaves(3)]
        sound_map [OF leaves(4)] sound_map [OF leaves(5)] sound_map [OF leaves(6)] sound_map [OF leaves(7)]
        sound_map [OF leaves(8)]\<close>)
qed

lemma find_field_bounds: "find_field n fs = Some i \<Longrightarrow> i < length fs"
  by (induction fs arbitrary: i) (auto split: if_splits)

lemma clear_oneof_nth:
  "length vs = length fs \<Longrightarrow> i < length fs \<Longrightarrow> clear_oneof g fs vs ! i
     = (if oneof_group (snd (fs ! i)) = Some g then default_leaf (snd (fs ! i)) else vs ! i)"
  by (simp add: clear_oneof_def split_beta)

lemma length_clear_oneof [simp]: "length vs = length fs \<Longrightarrow> length (clear_oneof g fs vs) = length fs"
  by (simp add: clear_oneof_def)

lemma group_default_unset: "oneof_group k = Some g \<Longrightarrow> \<not> is_set (default_leaf k) \<and> value_fits d k (default_leaf k)"
  by (cases k) (auto simp: oneof_group_def is_set_def value_fits_def value_ok_iff sub_messages_def)

text \<open>Writing one field, after its group has been cleared or when the field was set or stays as it was.\<close>

lemma entered_group_typed:
  assumes "well_typed d c (Msg vs)" and "i < length (cls_fields c)" and "value_fits d (snd (cls_fields c ! i)) v"
    and "oneof_group (snd (cls_fields c ! i)) = Some g"
  shows "well_typed d c (Msg ((clear_oneof g (cls_fields c) vs)[i := v]))"
  using assms group_default_unset
  unfolding well_typed_iff exclusive_def
  by (auto simp: nth_list_update clear_oneof_nth)

lemma updated_field_typed:
  assumes "well_typed d c (Msg vs)" and "i < length (cls_fields c)" and "value_fits d (snd (cls_fields c ! i)) v"
    and "oneof_group (snd (cls_fields c ! i)) \<noteq> None \<Longrightarrow> is_set (vs ! i) \<or> v = vs ! i"
  shows "well_typed d c (Msg (vs[i := v]))"
  using assms unfolding well_typed_iff exclusive_def
  by (auto simp: nth_list_update)

lemma sound_tag:
  assumes sub: "sub_sound po K sub" and bound: "max_recursion_depth po \<le> int (depth + d)" and "k < n" "k \<le> K"
    and old: "well_typed (Suc d) c (Msg vs)"
  shows "sound k 0 (read_tag po depth sub n c tag vs) (\<lambda>vs'. well_typed (Suc d) c (Msg vs'))"
proof (cases tag)
  case (Pair fn wt)
  show ?thesis
  proof (cases "find_field fn (cls_fields c)")
    case None
    then show ?thesis
      using old by (auto simp: read_tag_def Pair intro!: sound_then [OF sound_SkipField])
  next
    case (Some i)
    let ?k = "snd (cls_fields c ! i)"
    have i: "i < length (cls_fields c)"
      by (rule find_field_bounds [OF Some])
    have value_ok: "value_fits (Suc d) ?k (vs ! i)"
      using old i by (simp add: well_typed_iff)
    define vs' where "vs' = (case enters_oneof ?k wt (vs ! i) of None \<Rightarrow> vs | Some g \<Rightarrow> clear_oneof g (cls_fields c) vs)"
    have "well_typed (Suc d) c (Msg (vs'[i := v]))" if v: "tagged_ok (Suc d) ?k wt (vs ! i) v" for v
    proof (cases "enters_oneof ?k wt (vs ! i)")
      case None
      then show ?thesis
        using old i v by (auto simp: vs'_def tagged_ok_def intro!: updated_field_typed)
    next
      case (Some g)
      then have "oneof_group ?k = Some g"
        by (auto simp: enters_oneof_def oneof_group_def split: fkind.splits fval.splits option.splits if_splits)
      then show ?thesis
        using Some old i v by (auto simp: vs'_def tagged_ok_def intro!: entered_group_typed)
    qed
    then have "sound k 0 (rd_bind (read_value po depth sub n ?k wt (vs ! i)) (\<lambda>v. rd_return (vs'[i := v])))
        (\<lambda>vs'. well_typed (Suc d) c (Msg vs'))"
      by (intro sound_then [OF sound_value [OF sub bound \<open>k < n\<close> \<open>k \<le> K\<close> value_ok]] sound_return)
    then show ?thesis
      by (simp add: read_tag_def Pair Some vs'_def Let_def)
  qed
qed

text \<open>A bound larger than the number of bytes is enough for a message.\<close>

lemma sound_ParseFromStream:
  assumes "k < n" and "max_recursion_depth po \<le> int (depth + d)" and "well_typed (Suc d) c m"
  shows "sound k 0 (ParseFromStream po n depth c m) (well_typed (Suc d) c)"
  using assms
proof (induction n arbitrary: k depth d c m)
  case (Suc n)
  obtain vs where m: "m = Msg vs" by (cases m)
  let ?sub = "\<lambda>depth' c' m'. ParseFromStream po n depth' c' m'"
  let ?step = "\<lambda>tag. rd_bind (rd_enforce (fst tag \<noteq> 0) Malformed) (\<lambda>_.
       rd_bind (read_tag po depth ?sub n c tag vs) (\<lambda>vs. ParseFromStream po n depth c (Msg vs)))"
  have loop: "ParseFromStream po (Suc n) depth c m = (\<lambda>r. if NotEnd r
      then rd_bind next_field ?step r else (Inr m, r))"
    by (rule ext) (simp add: m)
  show ?case
    unfolding loop
  proof (rule sound_loop)
    assume "0 < k"
    then have k: "k - 1 < n"
      using Suc.prems(1) by simp
    have sub: "sub_sound po (k - 1) ?sub"
      unfolding sub_sound_def using Suc.IH [OF k] by blast
    have "sound (k - 1) 0 (?step tag) (well_typed (Suc d) c)" for tag
      using Suc.prems(2,3) m k
      by (intro sound_enforce_then sound_then [OF sound_tag [OF sub _ k order_refl]] Suc.IH) simp_all
    from sound_any [OF sound_bind [OF sound_next_field this]]
    show "sound k 0 (rd_bind next_field ?step) (well_typed (Suc d) c)" .
  qed (use Suc.prems(3) in simp)
qed simp

section \<open>Parsing a string\<close>

lemma reader_ok_StringStream: "length bytes < 2 ^ 63 \<Longrightarrow> reader_ok (StringStream bytes)"
  by (simp add: reader_ok_def StringStream_def)

lemma parsed_string_outcome:
  assumes "length bytes < 2 ^ 63"
  shows "outcome_ok 0 (well_typed (Suc (nat (max_recursion_depth po))) c) (StringStream bytes)
    (ParseFromStream po (Suc (length bytes)) 0 c (default_message c) (StringStream bytes))"
proof (rule soundD)
  show "sound (length bytes) 0 (ParseFromStream po (Suc (length bytes)) 0 c (default_message c))
      (well_typed (Suc (nat (max_recursion_depth po))) c)"
    by (rule sound_ParseFromStream) (simp_all add: default_message_typed)
qed (use assms in \<open>simp_all add: reader_ok_StringStream\<close>, simp add: StringStream_def)



text \<open>A packed block that ends inside a number leaves its limit behind.\<close>

lemma truncated_packed_block_aborts:
  "ParseFromString default_parse_options C_TensorProto [0x0A, 0x01, 0x80] = Aborted"
  by code_simp

end
