(* ===== verification/WireRoundTrip.thy ===== *)
theory WireRoundTrip
  imports WireSafety
begin

text \<open>
  Parsing what was written gives the message back.  The relation \<open>absorbs\<close> says that a reader that
  has some bytes in front of it goes from one state of the fields to another while it consumes them;
  it composes, so the bytes of a message are followed field by field, and within a repeated field
  element by element.
\<close>

section \<open>Running the reader\<close>

lemma rd_bind_Inr: "m r = (Inr x, r') \<Longrightarrow> rd_bind m f r = f x r'"
  by (simp add: rd_bind_def)

lemma rd_bind_Inl: "m r = (Inl e, r') \<Longrightarrow> rd_bind m f r = (Inl e, r')"
  by (simp add: rd_bind_def)

lemma rd_bind_return [simp]: "rd_bind (rd_return x) f = f x"
  by (simp add: rd_bind_def rd_return_def fun_eq_iff)

lemma rd_enforce_True [simp]: "rd_enforce True e = rd_return ()"
  by (simp add: rd_enforce_def)

lemma rd_return_apply [simp]: "rd_return x r = (Inr x, r)"
  by (simp add: rd_return_def)

lemma if_wire_type_True [simp]: "if_wire_type True wt old body = body"
  by (simp add: if_wire_type_def)

definition reads :: "'a rd \<Rightarrow> byte list \<Rightarrow> 'a \<Rightarrow> bool" where
  "reads m bs x \<longleftrightarrow> (\<forall>r ys. reader_ok r \<longrightarrow> visible r = bs @ ys \<longrightarrow> m r = (Inr x, adv (length bs) r))"

lemma readsI:
  "(\<And>r ys. reader_ok r \<Longrightarrow> visible r = bs @ ys \<Longrightarrow> m r = (Inr x, adv (length bs) r)) \<Longrightarrow> reads m bs x"
  by (simp add: reads_def)

lemma readsD: "reads m bs x \<Longrightarrow> reader_ok r \<Longrightarrow> visible r = bs @ ys \<Longrightarrow> m r = (Inr x, adv (length bs) r)"
  by (simp add: reads_def)

lemma reads_return [simp]: "reads (rd_return x) [] x"
  by (simp add: reads_def)

lemma reads_bind:
  assumes "reads m as x" and "reads (f x) bs y"
  shows "reads (rd_bind m f) (as @ bs) y"
proof (rule readsI)
  fix r ys
  assume r: "reader_ok r" and v: "visible r = (as @ bs) @ ys"
  have "m r = (Inr x, adv (length as) r)"
    using readsD [OF assms(1) r] v by simp
  moreover have "f x (adv (length as) r) = (Inr y, adv (length bs) (adv (length as) r))"
    using reader_ok_after [OF r] visible_after v by (intro readsD [OF assms(2)]) auto
  ultimately show "rd_bind m f r = (Inr y, adv (length (as @ bs)) r)"
    by (simp add: rd_bind_Inr)
qed

lemma reads_bind_return: "reads m bs x \<Longrightarrow> reads (rd_bind m (\<lambda>x. rd_return (f x))) bs (f x)"
  using reads_bind [of m bs x "\<lambda>x. rd_return (f x)" "[]" "f x"] by simp

lemma reads_map: "reads m bs x \<Longrightarrow> reads (rd_map f m) bs (f x)"
  unfolding rd_map_def by (rule reads_bind_return)

lemma reads_varint: "reads next_uint64 (write_variant_uint64 w) w"
  by (rule readsI) (simp add: next_uint64_varint)

lemma reads_string: "reads next_string (write_string s) s"
  by (rule readsI) (simp add: next_string_write_string)

lemma reads_bytes: "reads (read_bytes (length bs)) bs bs"
  by (rule readsI) (simp add: read_bytes_visible)

lemma reads_float: "reads next_float (write_float x) x"
  by (rule readsI) (simp add: next_float_bytes)

section \<open>Single values\<close>

lemma reads_field_string: "reads (read_field_string 2 old) (write_string s) (Some s)"
  unfolding read_field_string_def by (simp add: reads_bind_return reads_string)

lemma reads_field_number:
  "number_ok t w \<Longrightarrow> reads (read_field_number t 0 old) (write_variant_uint64 w) (Some w)"
  unfolding read_field_number_def number_ok_def
  using reads_bind_return [OF reads_varint [of w], of "\<lambda>w. Some (cast_number t w)"] by simp

lemma reads_enum_field:
  "number_ok I32 w \<Longrightarrow> reads (read_enum_field 0 old) (write_variant_uint64 w) (Some w)"
  unfolding read_enum_field_def number_ok_def
  using reads_bind_return [OF reads_varint [of w], of "\<lambda>w. Some (cast_number I32 w)"] by simp

lemma reads_field_float: "reads (read_field_float 5 old) (write_float x) (Some x)"
  unfolding read_field_float_def by (simp add: reads_bind_return reads_float)

text \<open>A length-prefixed block: the length, the check that it fits, and the rest.\<close>

lemma reads_block:
  assumes "\<And>r ys. reader_ok r \<Longrightarrow> visible r = bs @ ys \<Longrightarrow> unat (of_nat (length bs) :: 64 word) = length bs
      \<Longrightarrow> body (of_nat (length bs)) r = (Inr x, adv (length bs) r)"
  shows "reads (rd_bind next_uint64 body) (write_string bs) x"
proof (rule readsI)
  fix r ys
  assume r: "reader_ok r" and v: "visible r = write_string bs @ ys"
  note len = next_length [OF r v]
  show "rd_bind next_uint64 body r = (Inr x, adv (length (write_string bs)) r)"
    using len(1) assms [OF len(3,2,4)] by (simp add: rd_bind_def size_string_def)
qed

text \<open>Options under which nothing is refused for its size and nothing is skipped.\<close>

definition unlimited :: "parse_options \<Rightarrow> bool" where
  "unlimited po \<longleftrightarrow> max_tensor_size_bytes po \<le> 0 \<and> \<not> r_skip_raw_data po"

lemma CheckAllocationLimit_unlimited [simp]: "unlimited po \<Longrightarrow> CheckAllocationLimit po len = rd_return ()"
  by (simp add: CheckAllocationLimit_def unlimited_def)

lemma reads_field_limit:
  assumes "unlimited po"
  shows "reads (read_field_limit_parallel_nc po 2 old) (write_string bs) (Some bs)"
proof -
  have skip: "\<not> r_skip_raw_data po"
    using assms by (simp add: unlimited_def)
  show ?thesis
    unfolding read_field_limit_parallel_nc_def if_wire_type_True simp_thms
    by (rule reads_block)
      (simp add: assms skip rd_bind_def CanRead_visible read_bytes_visible)
qed

section \<open>Repeated values\<close>

lemma reads_repeated_strings: "reads (read_repeated_strings 2 old) (write_string s) (old @ [s])"
  unfolding read_repeated_strings_def
  using reads_bind_return [OF reads_string [of s], of "\<lambda>s. old @ [s]"] by simp

lemma reads_unpacked_number:
  "number_ok t w \<Longrightarrow> \<not> p \<Longrightarrow> reads (read_repeated_numbers po t p 0 old) (write_variant_uint64 w) (old @ [w])"
  unfolding read_repeated_numbers_def read_unpacked_number_int_def number_ok_def
  using reads_bind_return [OF reads_bind_return [OF reads_varint [of w], of "cast_number t"], of "\<lambda>w. old @ [w]"]
  by simp

lemma read_packed_loop_varints:
  assumes "reader_ok r" and "visible r = concat (map write_variant_uint64 ws)" and "list_all (number_ok t) ws"
    and "length (visible r) < k"
  shows "read_packed_loop k t acc r = (Inr (acc @ ws), adv (length (visible r)) r)"
  using assms
proof (induction ws arbitrary: r k acc)
  case Nil
  then show ?case
    by (cases k) (auto simp: NotEnd_visible)
next
  case (Cons w ws)
  then obtain k' where k: "k = Suc k'"
    by (cases k) auto
  let ?n = "length (write_variant_uint64 w)"
  have v: "visible r = write_variant_uint64 w @ concat (map write_variant_uint64 ws)"
    using Cons.prems(2) by simp
  have "1 \<le> ?n"
    using VarintSize_bounds(1) [of w] by simp
  then have "NotEnd r"
    using v by (cases "write_variant_uint64 w") (auto simp: NotEnd_visible [OF Cons.prems(1)])
  have "read_packed_loop k' t (acc @ [w]) (adv ?n r)
      = (Inr ((acc @ [w]) @ ws), adv (length (visible (adv ?n r))) (adv ?n r))"
  proof (rule Cons.IH)
    show "reader_ok (adv ?n r)"
      by (rule reader_ok_after [OF Cons.prems(1) v])
    show "visible (adv ?n r) = concat (map write_variant_uint64 ws)"
      by (rule visible_after [OF v])
    show "list_all (number_ok t) ws"
      using Cons.prems(3) by simp
    show "length (visible (adv ?n r)) < k'"
      using Cons.prems(4) k \<open>1 \<le> ?n\<close> v visible_after [OF v] by simp
  qed
  then show ?case
    using \<open>NotEnd r\<close> k next_uint64_varint [OF v] Cons.prems(3) visible_after [OF v] v
    by (simp add: rd_bind_def number_ok_def add.commute)
qed

lemma reads_packed_numbers:
  assumes "unlimited po" and "list_all (number_ok t) ws"
  shows "reads (read_repeated_numbers po t p 2 old) (write_string (concat (map write_variant_uint64 ws))) (old @ ws)"
proof -
  let ?bs = "concat (map write_variant_uint64 ws)"
  have "reads (rd_bind next_uint64 (\<lambda>len. rd_bind (CanRead len) (\<lambda>_. rd_bind (CheckAllocationLimit po len)
      (\<lambda>_. rd_bind (LimitToNext len) (\<lambda>_. rd_bind (read_packed_loop (Suc (unat len)) t old)
      (\<lambda>acc. rd_bind Restore (\<lambda>_. rd_return acc))))))) (write_string ?bs) (old @ ws)"
  proof (rule reads_block)
    fix r ys
    assume r: "reader_ok r" and v: "visible r = ?bs @ ys"
      and len: "unat (of_nat (length ?bs) :: 64 word) = length ?bs"
    let ?l = "limited (length ?bs) r"
    have lim: "visible ?l = ?bs" "reader_ok ?l"
      using visible_limited [OF r] reader_ok_limited [OF r] v by simp_all
    have "read_packed_loop (Suc (length ?bs)) t old ?l = (Inr (old @ ws), adv (length ?bs) ?l)"
      using read_packed_loop_varints [OF lim(2) lim(1) assms(2), of "Suc (length ?bs)" old] lim(1)
      by (simp del: read_packed_loop.simps)
    then show "rd_bind (CanRead (of_nat (length ?bs))) (\<lambda>_. rd_bind (CheckAllocationLimit po (of_nat (length ?bs)))
      (\<lambda>_. rd_bind (LimitToNext (of_nat (length ?bs))) (\<lambda>_. rd_bind (read_packed_loop (Suc (unat (of_nat (length ?bs) :: 64 word))) t old)
      (\<lambda>acc. rd_bind Restore (\<lambda>_. rd_return acc))))) r = (Inr (old @ ws), adv (length ?bs) r)"
      using r v len assms(1)
      by (simp add: rd_bind_def CanRead_visible LimitToNext_visible Restore_limited
          del: read_packed_loop.simps)
  qed
  then show ?thesis
    by (simp add: read_repeated_numbers_def read_repeated_field_packed_numerical_int_def)
qed

text \<open>Elements of a fixed width; \<open>enc\<close> is \<open>write_float\<close> or \<open>write_double\<close>.\<close>

lemma le_values_concat:
  assumes "\<And>x. length (enc x) = width" and "\<And>x. le_value (enc x) = x"
  shows "le_values width (length xs) (concat (map enc xs)) = xs"
  using assms by (induction xs) simp_all

lemma reads_packed_fixed:
  assumes "unlimited po" and "\<And>x. length (enc x) = width" and "\<And>x. le_value (enc x) = x" and "0 < width"
  shows "reads (read_repeated_fixed po width True 2 old)
    (write_variant_uint64 (of_nat (length xs * width)) @ concat (map enc xs)) xs"
proof -
  let ?bs = "concat (map enc xs)"
  have len: "length ?bs = length xs * width"
    by (rule length_concat_fixed) (rule assms(2))
  have "reads (rd_bind next_uint64 (\<lambda>sz. rd_bind (rd_enforce (unat sz mod width = 0) Malformed)
      (\<lambda>_. rd_bind (CanRead sz) (\<lambda>_. rd_bind (CheckAllocationLimit po sz)
      (\<lambda>_. rd_bind (read_bytes (unat sz)) (\<lambda>bs. rd_return (le_values width (unat sz div width) bs)))))))
      (write_string ?bs) xs"
    by (rule reads_block)
      (use assms(4) len in \<open>simp add: assms(1) rd_bind_def CanRead_visible read_bytes_visible
        le_values_concat [OF assms(2,3)]\<close>)
  then show ?thesis
    by (simp add: read_repeated_fixed_def read_repeated_field_packed_numerical_float_def write_string_def len)
qed

lemma reads_unpacked_fixed:
  fixes x :: "'a :: len word"
  assumes "length (enc x) = width" and "le_value (enc x) = x"
  shows "reads (read_repeated_fixed po width False (if width = 4 then 5 else 1) old) (enc x) (old @ [x])"
proof -
  have "reads (rd_bind (read_bytes width) (\<lambda>bs. rd_return (le_value bs))) (enc x) x"
    using reads_bind_return [OF reads_bytes [of "enc x"], of "le_value :: byte list \<Rightarrow> 'a word"]
      assms by simp
  then have "reads (rd_bind (rd_bind (read_bytes width) (\<lambda>bs. rd_return (le_value bs)))
      (\<lambda>x. rd_return (old @ [x]))) (enc x) (old @ [x])"
    by (rule reads_bind_return)
  then show ?thesis
    by (simp add: read_repeated_fixed_def read_unpacked_number_float_def)
qed

section \<open>Messages inside messages\<close>

text \<open>A parser that turns exactly these bytes, when nothing else is visible, into this message.\<close>

definition parses :: "msg rd \<Rightarrow> byte list \<Rightarrow> msg \<Rightarrow> bool" where
  "parses p bs m \<longleftrightarrow> (\<forall>r. reader_ok r \<longrightarrow> visible r = bs \<longrightarrow> p r = (Inr m, adv (length bs) r))"

lemma reads_limited:
  assumes "\<And>r. reader_ok r \<Longrightarrow> visible r = bs \<Longrightarrow> body r = (Inr x, adv (length bs) r)"
  shows "reads (rd_bind next_uint64 (\<lambda>len. rd_bind (LimitToNext len) (\<lambda>_. StreamLimitGuard body)))
    (write_string bs) x"
proof (rule reads_block)
  fix r ys
  assume r: "reader_ok r" and v: "visible r = bs @ ys"
    and len: "unat (of_nat (length bs) :: 64 word) = length bs"
  let ?l = "limited (length bs) r"
  have "body ?l = (Inr x, adv (length bs) ?l)"
    using visible_limited [OF r] reader_ok_limited [OF r] v by (intro assms) simp_all
  then show "rd_bind (LimitToNext (of_nat (length bs))) (\<lambda>_. StreamLimitGuard body) r
      = (Inr x, adv (length bs) r)"
    using r v len by (simp add: rd_bind_def LimitToNext_visible StreamLimitGuard_limited)
qed

lemma reads_sub_message:
  assumes "parses (sub (Suc depth) c old) bs m" and "int (Suc depth) \<le> max_recursion_depth po"
  shows "reads (read_next_field_in_shortended_stream po depth sub c old) (write_string bs) m"
proof -
  have "reads (rd_bind next_uint64 (\<lambda>len. rd_bind (LimitToNext len)
      (\<lambda>_. StreamLimitGuard (sub (Suc depth) c old)))) (write_string bs) m"
    using assms(1) by (intro reads_limited) (simp add: parses_def)
  then show ?thesis
    using assms(2) by (simp add: read_next_field_in_shortended_stream_def validate_depth_def)
qed

text \<open>Tags.\<close>

lemma next_field_run:
  assumes "visible r = write_field_header fn wt @ ys" and "field_order_ok fn" and "unat wt < 8"
  shows "next_field r = (Inr (ucast fn, ucast wt), adv (length (write_field_header fn wt)) r)"
  using next_field_header [OF assms] by simp

lemma header_nonempty: "write_field_header fn wt \<noteq> []"
proof -
  have "1 \<le> length (write_field_header fn wt)"
    unfolding length_write_field_header size_field_header_def by (rule VarintSize_bounds(1))
  then show ?thesis
    by (metis list.size(3) not_one_le_zero)
qed

text \<open>The entry of a map.\<close>

lemma read_map_loop_entry:
  assumes "reader_ok r" and "visible r = write_field_string 1 key @ write_field_header 2 FIELD_FIXED_SIZE @ write_string bs"
    and "parses (sub (Suc depth) c (default_message c)) bs m" and "int (Suc depth) \<le> max_recursion_depth po"
    and "3 \<le> n"
  shows "read_map_loop po depth sub c n None None r = (Inr (Some key, Some m), adv (length (visible r)) r)"
proof -
  obtain k where n: "n = Suc (Suc (Suc k))"
    using assms(5) that [of "n - 3"] by (simp add: numeral_3_eq_3)
  have ok: "field_order_ok 1" "field_order_ok 2" "unat FIELD_FIXED_SIZE < 8"
    by (simp_all add: field_order_ok_def)
  let ?h1 = "write_field_header 1 FIELD_FIXED_SIZE" and ?h2 = "write_field_header 2 FIELD_FIXED_SIZE"
  have v0: "visible r = ?h1 @ (write_string key @ ?h2 @ write_string bs)"
    using assms(2) by (simp add: write_field_string_def)
  define r1 where "r1 = adv (length ?h1) r"
  have r1: "reader_ok r1" "visible r1 = write_string key @ (?h2 @ write_string bs)"
    using reader_ok_after [OF assms(1) v0] visible_after [OF v0] by (simp_all add: r1_def)
  define r2 where "r2 = adv (length (write_string key)) r1"
  have r2: "reader_ok r2" "visible r2 = ?h2 @ write_string bs"
    using reader_ok_after [OF r1] visible_after [OF r1(2)] by (simp_all add: r2_def)
  define r3 where "r3 = adv (length ?h2) r2"
  have r3: "reader_ok r3" "visible r3 = write_string bs @ []"
    using reader_ok_after [OF r2] visible_after [OF r2(2)] by (simp_all add: r3_def)
  define r4 where "r4 = adv (length (write_string bs)) r3"
  have r4: "reader_ok r4" "visible r4 = []"
    using reader_ok_after [OF r3] visible_after [OF r3(2)] by (simp_all add: r4_def)
  have steps: "next_field r = (Inr (1, 2), r1)" "next_string r1 = (Inr key, r2)"
    "next_field r2 = (Inr (2, 2), r3)"
    "read_next_field_in_shortended_stream po depth sub c (default_message c) r3 = (Inr m, r4)"
    using next_field_run [OF v0 ok(1,3)] next_string_write_string [OF r1] next_field_run [OF r2(2) ok(2,3)]
      readsD [OF reads_sub_message [where sub = sub, OF assms(3,4)] r3]
    by (simp_all add: r1_def r2_def r3_def r4_def)
  have ends: "NotEnd r" "NotEnd r2" "\<not> NotEnd r4"
    using v0 r2(2) r4(2) header_nonempty [of 1 FIELD_FIXED_SIZE] header_nonempty [of 2 FIELD_FIXED_SIZE]
    by (simp_all add: NotEnd_visible assms(1) r2(1) r4(1))
  have "read_map_loop po depth sub c n None None r = (Inr (Some key, Some m), r4)"
    using steps ends by (simp add: n rd_bind_def)
  then show ?thesis
    using v0 by (simp add: r4_def r3_def r2_def r1_def add.assoc)
qed

lemma insort_key_last:
  "\<forall>e \<in> set es. fst e < key \<Longrightarrow> insort_key fst (key, m) es = es @ [(key, m)]"
  by (induction es) auto

lemma reads_map_field:
  assumes "parses (sub (Suc (Suc depth)) c (default_message c)) bs m"
    and "int (Suc (Suc depth)) \<le> max_recursion_depth po" and "3 \<le> n"
    and "key \<noteq> []" and "\<forall>e \<in> set old. fst e < key"
  shows "reads (read_map_field po depth sub n c 2 old)
    (write_string (write_field_string 1 key @ write_field_header 2 FIELD_FIXED_SIZE @ write_string bs))
    (old @ [(key, m)])"
proof -
  let ?entry = "write_field_string 1 key @ write_field_header 2 FIELD_FIXED_SIZE @ write_string bs"
  let ?body = "rd_bind (read_map_loop po (Suc depth) sub c n None None)
      (\<lambda>(key, val). case (key, val) of
           (Some k, Some m) \<Rightarrow> rd_bind (rd_enforce (k \<noteq> [] \<and> k \<notin> fst ` set old) Malformed)
               (\<lambda>_. rd_return (insort_key fst (k, m) old))
         | _ \<Rightarrow> rd_throw Malformed)"
  have new: "key \<notin> fst ` set old"
    using assms(5) by auto
  have "reads (rd_bind next_uint64 (\<lambda>len. rd_bind (LimitToNext len) (\<lambda>_. StreamLimitGuard ?body)))
      (write_string ?entry) (old @ [(key, m)])"
  proof (rule reads_limited)
    fix r
    assume r: "reader_ok r" "visible r = ?entry"
    show "?body r = (Inr (old @ [(key, m)]), adv (length ?entry) r)"
      using read_map_loop_entry [where sub = sub, OF r assms(1,2,3)] r(2) assms(4) new
        insort_key_last [OF assms(5)]
      by (simp add: rd_bind_def [of "read_map_loop po (Suc depth) sub c n None None"]
          del: read_map_loop.simps)
  qed
  then show ?thesis
    using assms(2) by (simp add: read_map_field_def validate_depth_def)
qed

section \<open>Absorbing the bytes of a message\<close>

abbreviation message_parser :: "parse_options \<Rightarrow> nat \<Rightarrow> sub_parser" where
  "message_parser po n \<equiv> (\<lambda>depth c m. ParseFromStream po n depth c m)"

definition absorbs :: "parse_options \<Rightarrow> nat \<Rightarrow> cls \<Rightarrow> byte list \<Rightarrow> fval list \<Rightarrow> fval list \<Rightarrow> bool" where
  "absorbs po depth c bs vs vs' \<longleftrightarrow>
     (\<forall>r ys n. reader_ok r \<longrightarrow> visible r = bs @ ys \<longrightarrow> length (bs @ ys) < n \<longrightarrow>
        (\<exists>n'. length ys < n' \<and> ParseFromStream po n depth c (Msg vs) r
            = ParseFromStream po n' depth c (Msg vs') (adv (length bs) r)))"

lemma absorbs_Nil [simp]: "absorbs po depth c [] vs vs"
  by (auto simp: absorbs_def)

lemma absorbs_trans:
  assumes "absorbs po depth c as vs vs'" and "absorbs po depth c bs vs' vs''"
  shows "absorbs po depth c (as @ bs) vs vs''"
  unfolding absorbs_def
proof (intro allI impI)
  fix r ys n
  assume r: "reader_ok r" and v: "visible r = (as @ bs) @ ys" and n: "length ((as @ bs) @ ys) < n"
  obtain n' where n': "length (bs @ ys) < n'"
    and eq: "ParseFromStream po n depth c (Msg vs) r = ParseFromStream po n' depth c (Msg vs') (adv (length as) r)"
    using assms(1) r v n unfolding absorbs_def by (metis append.assoc)
  have "reader_ok (adv (length as) r)" "visible (adv (length as) r) = bs @ ys"
    using reader_ok_after [OF r] visible_after v by simp_all
  then obtain n'' where "length ys < n''"
    and "ParseFromStream po n' depth c (Msg vs') (adv (length as) r)
      = ParseFromStream po n'' depth c (Msg vs'') (adv (length bs) (adv (length as) r))"
    using assms(2) n' unfolding absorbs_def by blast
  then show "\<exists>n'. length ys < n' \<and> ParseFromStream po n depth c (Msg vs) r
      = ParseFromStream po n' depth c (Msg vs'') (adv (length (as @ bs)) r)"
    using eq by auto
qed

lemma absorbs_parses:
  assumes "absorbs po depth c bs vs vs'" and "length bs < n"
  shows "parses (message_parser po n depth c (Msg vs)) bs (Msg vs')"
  unfolding parses_def
proof (intro allI impI)
  fix r
  assume r: "reader_ok r" and v: "visible r = bs"
  obtain n' where "0 < n'"
    and eq: "ParseFromStream po n depth c (Msg vs) r = ParseFromStream po n' depth c (Msg vs') (adv (length bs) r)"
    using assms r v unfolding absorbs_def by (metis append_Nil2 list.size(3))
  have "\<not> NotEnd (adv (length bs) r)"
    using reader_ok_after [OF r, of bs "[]"] visible_after [of r bs "[]"] v by (simp add: NotEnd_visible)
  then show "ParseFromStream po n depth c (Msg vs) r = (Inr (Msg vs'), adv (length bs) r)"
    using \<open>0 < n'\<close> eq by (cases n') simp_all
qed

section \<open>One tag\<close>

lemma field_matches_order: "field_matches (ucast fn) (fn', k) \<longleftrightarrow> fn = fn'"
proof -
  have "(ucast (ucast fn :: 64 word) :: 32 word) = fn" for fn :: "32 word"
    by (rule bit_eqI) (auto simp: bit_simps)
  moreover have "(ucast fn :: 64 word) = ucast fn' \<longleftrightarrow> fn = fn'"
    using calculation by metis
  ultimately show ?thesis
    by (auto simp: field_matches_def split: fkind.split)
qed

lemma find_field_nth:
  "distinct (map fst fs) \<Longrightarrow> i < length fs \<Longrightarrow> find_field (ucast (fst (fs ! i))) fs = Some i"
  by (induction fs arbitrary: i) (auto simp: field_matches_order nth_Cons split: nat.splits)

lemma absorbs_tag:
  assumes "i < length (cls_fields c)" and "cls_fields c ! i = (fn, k)" and "unat wt < 8"
    and "case enters_oneof k (ucast wt) (vs ! i) of None \<Rightarrow> True | Some g \<Rightarrow> clear_oneof g (cls_fields c) vs = vs"
    and "\<And>n. length payload < n \<Longrightarrow> reads (read_value po depth (message_parser po n) n k (ucast wt) (vs ! i)) payload v"
  shows "absorbs po depth c (write_field_header fn wt @ payload) vs (vs[i := v])"
  unfolding absorbs_def
proof (intro allI impI)
  fix r ys n
  let ?h = "write_field_header fn wt"
  assume r: "reader_ok r" and v: "visible r = (?h @ payload) @ ys" and n: "length ((?h @ payload) @ ys) < n"
  obtain n' where n': "n = Suc n'" and p: "length payload < n'" and ys: "length ys < n'"
    using n header_nonempty [of fn wt] by (cases n; cases ?h) auto
  have fn: "field_order_ok fn" "fn \<noteq> 0"
    using fields_order_ok [of fn k c] assms(1,2) nth_mem by metis+
  have v1: "visible r = ?h @ (payload @ ys)"
    using v by simp
  have tag: "next_field r = (Inr (ucast fn, ucast wt), adv (length ?h) r)"
    by (rule next_field_run [OF v1 fn(1) assms(3)])
  have found: "find_field (ucast fn) (cls_fields c) = Some i"
    using find_field_nth [OF fields_distinct assms(1)] assms(2) by simp
  have "read_value po depth (message_parser po n') n' k (ucast wt) (vs ! i) (adv (length ?h) r)
      = (Inr v, adv (length payload) (adv (length ?h) r))"
    by (rule readsD [OF assms(5) [OF p] reader_ok_after [OF r v1] visible_after [OF v1]])
  then have tagged: "read_tag po depth (message_parser po n') n' c (ucast fn, ucast wt) vs (adv (length ?h) r)
      = (Inr (vs[i := v]), adv (length (?h @ payload)) r)"
    using found assms(2,4)
    by (auto simp: read_tag_def rd_bind_def Let_def split: option.splits)
  have "NotEnd r"
    using v header_nonempty [of fn wt] by (simp add: NotEnd_visible [OF r])
  moreover have "(ucast fn :: 64 word) \<noteq> 0"
    using fn(2) field_matches_order [of fn 0 F_str] field_matches_order [of 0 0 F_str]
    by (auto simp: field_matches_def)
  ultimately have "ParseFromStream po n depth c (Msg vs) r
      = ParseFromStream po n' depth c (Msg (vs[i := v])) (adv (length (?h @ payload)) r)"
    using tag tagged unfolding n' by (simp add: rd_bind_def)
  then show "\<exists>n'. length ys < n' \<and> ParseFromStream po n depth c (Msg vs) r
      = ParseFromStream po n' depth c (Msg (vs[i := v])) (adv (length (?h @ payload)) r)"
    using ys by blast
qed

section \<open>One field\<close>

lemma absorbs_repeated:
  assumes "\<And>pre x suf. xs = pre @ x # suf
      \<Longrightarrow> absorbs po depth c (enc x) (vs[i := W pre]) (vs[i := W (pre @ [x])])"
  shows "absorbs po depth c (concat (map enc xs)) (vs[i := W []]) (vs[i := W xs])"
proof -
  have "xs = pre @ suf \<Longrightarrow> absorbs po depth c (concat (map enc pre)) (vs[i := W []]) (vs[i := W pre])" for pre suf
  proof (induction pre arbitrary: suf rule: rev_induct)
    case (snoc x pre)
    have "absorbs po depth c (concat (map enc pre)) (vs[i := W []]) (vs[i := W pre])"
      using snoc.IH [of "x # suf"] snoc.prems by simp
    moreover have "absorbs po depth c (enc x) (vs[i := W pre]) (vs[i := W (pre @ [x])])"
      using assms snoc.prems by simp
    ultimately show ?case
      by (auto intro: absorbs_trans)
  qed simp
  from this [of xs "[]"] show ?thesis by simp
qed

text \<open>A tag that replaces the value of a field, without a group or with a group that is unset.\<close>

lemma absorbs_set:
  assumes "i < length (cls_fields c)" and "cls_fields c ! i = (fn, k)" and "i < length vs" and "unat wt < 8"
    and "\<And>g. oneof_group k = Some g \<Longrightarrow> clear_oneof g (cls_fields c) (vs[i := u]) = vs[i := u]"
    and "\<And>n. length payload < n \<Longrightarrow> reads (read_value po depth (message_parser po n) n k (ucast wt) u) payload v"
  shows "absorbs po depth c (write_field_header fn wt @ payload) (vs[i := u]) (vs[i := v])"
proof -
  have "enters_oneof k w x = Some g \<Longrightarrow> oneof_group k = Some g" for w x g
    by (auto simp: enters_oneof_def oneof_group_def split: fkind.splits fval.splits option.splits if_splits)
  then show ?thesis
    using absorbs_tag [OF assms(1,2,4), of "vs[i := u]" payload po depth v] assms(3,5,6)
    by (auto split: option.splits)
qed

lemma write_messages_concat:
  "write_messages os fn co ms = Inr bs \<Longrightarrow> bs = concat (map (\<lambda>m. projr (write_message os fn co m)) ms)
     \<and> (\<forall>m \<in> set ms. \<exists>b. write_message os fn co m = Inr b)"
  by (induction ms arbitrary: bs) auto

lemma write_map_concat:
  "write_map os fn (Some c) es = Inr bs \<Longrightarrow> bs = concat (map (\<lambda>e. projr (write_map os fn (Some c) [e])) es)
     \<and> (\<forall>e \<in> set es. \<exists>b. write_map os fn (Some c) [e] = Inr b)"
proof (induction es arbitrary: bs)
  case (Cons e es)
  then show ?case
    by (cases e) (auto simp: Let_def split: if_splits)
qed simp

lemma write_message_string:
  "write_message os fn (Some c) m = Inr bs \<Longrightarrow>
     \<exists>body. SerializeToStream os c m = Inr body \<and> bs = write_field_header fn FIELD_FIXED_SIZE @ write_string body"
  by (auto simp: write_with_cache_size_def write_string_def split: if_splits)

lemma write_map_entry_string:
  assumes "write_map os fn (Some c) [(key, m)] = Inr bs"
  shows "key \<noteq> [] \<and> (\<exists>body. SerializeToStream os c m = Inr body \<and> bs = write_field_header fn FIELD_FIXED_SIZE
    @ write_string (write_field_string 1 key @ write_field_header 2 FIELD_FIXED_SIZE @ write_string body))"
proof -
  have key: "key \<noteq> []"
    using assms by (auto split: if_splits)
  then obtain sz inner where sz: "size_message os 2 (Some c) m = Inr sz"
    and inner: "write_message os 2 (Some c) m = Inr inner"
    and bs: "bs = write_field_header fn FIELD_FIXED_SIZE
      @ write_variant_uint64 (of_nat (size_field_header 1 FIELD_FIXED_SIZE + size_string key + sz))
      @ write_field_string 1 key @ inner"
    using assms by (auto simp: Let_def)
  obtain body where body: "SerializeToStream os c m = Inr body"
    and eq: "inner = write_field_header 2 FIELD_FIXED_SIZE @ write_string body"
    using write_message_string [OF inner] by blast
  have "length inner = sz"
    using written_sizes(4) [OF sz] inner by auto
  then show ?thesis
    using key body bs eq by (auto simp: write_string_def write_field_string_def size_string_def ac_simps)
qed

text \<open>What is known of the messages in a value: they fit in the depth that is left, and are parsed back.\<close>

definition parses_back :: "serialize_options \<Rightarrow> parse_options \<Rightarrow> nat \<Rightarrow> nat \<times> cls \<times> msg \<Rightarrow> bool" where
  "parses_back os po depth x \<longleftrightarrow> (case x of (l, c, m) \<Rightarrow>
     int (depth + l) \<le> max_recursion_depth po \<and>
     (\<forall>body n. SerializeToStream os c m = Inr body \<longrightarrow> length body < n \<longrightarrow>
        parses (message_parser po n (depth + l) c (default_message c)) body m))"

lemma default_plain_message:
  "(fn, F_msg c') \<in> set (cls_fields c) \<Longrightarrow> default_value (F_msg c') = V_msg (Some (default_message c'))"
  by (cases c) (auto simp: fields_defs default_value_def default_message_def)

lemma absorbs_strings:
  assumes i: "i < length (cls_fields c)" "cls_fields c ! i = (fn, F_strs)" "i < length vs"
  shows "absorbs po depth c (write_repeated_strings fn ss) (vs[i := V_strs []]) (vs[i := V_strs ss])"
  unfolding write_repeated_strings_def
  by (intro absorbs_repeated absorbs_set [OF i])
    (auto simp: read_value_def oneof_group_def intro!: reads_map reads_repeated_strings)

lemma absorbs_numbers:
  assumes i: "i < length (cls_fields c)" "cls_fields c ! i = (fn, F_nums t p)" "i < length vs"
    and "list_all (number_ok t) ws" and "unlimited po"
  shows "absorbs po depth c (write_repeated_numbers fn p ws) (vs[i := V_nums []]) (vs[i := V_nums ws])"
proof (cases p)
  case True
  then show ?thesis
    using assms(4,5) unfolding write_repeated_numbers_def
    by (simp, intro absorbs_set [OF i])
      (auto simp: read_value_def oneof_group_def intro!: reads_map reads_packed_numbers [where old = "[]", simplified])
next
  case False
  then show ?thesis
    using assms(4,5) unfolding write_repeated_numbers_def
    by (simp, intro absorbs_repeated absorbs_set [OF i])
      (auto simp: read_value_def oneof_group_def intro!: reads_map reads_unpacked_number)
qed

text \<open>Elements of a fixed width, where \<open>W\<close> is \<open>V_floats\<close> or \<open>V_doubles\<close>.\<close>

lemma absorbs_fixed:
  fixes enc :: "'a :: len word \<Rightarrow> byte list"
  assumes i: "i < length (cls_fields c)" "cls_fields c ! i = (fn, k)" "i < length vs"
    and read: "\<And>n wt old. read_value po depth (message_parser po n) n k wt (W old) = rd_map W (read_repeated_fixed po width p wt old)"
    and group: "oneof_group k = None" and width: "width = 4 \<or> width = 8"
    and enc: "\<And>x. length (enc x) = width" "\<And>x. le_value (enc x) = x" and po: "unlimited po"
  shows "absorbs po depth c (write_repeated_fixed fn p width enc xs) (vs[i := W []]) (vs[i := W xs])"
proof (cases p)
  case True
  have "reads (read_repeated_fixed po width p 2 [])
      (write_variant_uint64 (of_nat (length xs * width)) @ concat (map enc xs)) xs"
    using reads_packed_fixed [OF po enc] width True by auto
  then have "absorbs po depth c (write_field_header fn FIELD_FIXED_SIZE
      @ write_variant_uint64 (of_nat (length xs * width)) @ concat (map enc xs)) (vs[i := W []]) (vs[i := W xs])"
    using group by (intro absorbs_set [OF i]) (auto simp: read intro!: reads_map)
  then show ?thesis
    using True by (simp add: write_repeated_fixed_def)
next
  case False
  let ?wt = "if width = 4 then FIELD_FIXED32 else FIELD_FIXED64"
  have wt: "unat ?wt < 8" "ucast ?wt = (if width = 4 then 5 else 1 :: 64 word)"
    by simp_all
  have "absorbs po depth c (write_field_header fn ?wt @ enc x) (vs[i := W pre]) (vs[i := W (pre @ [x])])" for pre x
    using group False reads_unpacked_fixed [where enc = enc and x = x, OF enc(1) enc(2)]
    by (intro absorbs_set [OF i wt(1)]) (auto simp: read wt(2) intro!: reads_map)
  then show ?thesis
    using False unfolding write_repeated_fixed_def by (simp only: if_False) (rule absorbs_repeated)
qed

lemma absorbs_leaf:
  assumes i: "i < length (cls_fields c)" "cls_fields c ! i = (fn, k)" "i < length vs"
    and unset: "\<And>g. oneof_group k = Some g \<Longrightarrow> clear_oneof g (cls_fields c) (vs[i := default_leaf k]) = vs[i := default_leaf k]"
    and ok: "written_ok k v" and leaf: "class_of k = None"
    and po: "unlimited po" and os: "\<not> w_skip_raw_data os"
    and bs: "write_value os fn k v = Inr bs"
  shows "absorbs po depth c bs (vs[i := default_leaf k]) (vs[i := v])"
proof -
  note set = absorbs_set [OF i, where u = "default_leaf k" and v = v and depth = depth and po = po, OF _ unset]
  have string: "absorbs po depth c (write_field_string fn s) (vs[i := default_leaf k]) (vs[i := v])"
    if "k = F_str \<or> k = F_str_always \<or> k = F_bytes \<or> k = F_raw" "v = V_str (Some s)" for s
    unfolding write_field_string_def
    using that po by (intro set) (auto simp: read_value_def intro!: reads_map reads_field_string reads_field_limit)
  have number: "absorbs po depth c (write_field_number fn w) (vs[i := default_leaf k]) (vs[i := v])"
    if "k = F_num t d \<or> k = F_opt_num t \<or> k = F_one_num t g" "v = V_num (Some w)" "number_ok t w" for t d g w
    unfolding write_field_number_def
    using that by (intro set) (auto simp: read_value_def intro!: reads_map reads_field_number)
  have enum: "absorbs po depth c (write_field_number fn w) (vs[i := default_leaf k]) (vs[i := v])"
    if "k = F_enum \<or> k = F_opt_enum" "v = V_num (Some w)" "number_ok I32 w" for w
    unfolding write_field_number_def
    using that by (intro set) (auto simp: read_value_def intro!: reads_map reads_enum_field)
  have float: "absorbs po depth c (write_field_float fn x) (vs[i := default_leaf k]) (vs[i := v])"
    if "k = F_opt_float" "v = V_float (Some x)" for x
    unfolding write_field_float_def
    using that by (intro set) (auto simp: read_value_def intro!: reads_map reads_field_float)
  have floats: "absorbs po depth c (write_repeated_fixed fn p 4 write_float xs) (vs[i := V_floats []]) (vs[i := V_floats xs])"
    if "k = F_floats p" for p xs
    by (rule absorbs_fixed [OF i]) (use that po in \<open>simp_all add: read_value_def oneof_group_def\<close>)
  have doubles: "absorbs po depth c (write_repeated_fixed fn p 8 write_double xs) (vs[i := V_doubles []]) (vs[i := V_doubles xs])"
    if "k = F_doubles p" for p xs
    by (rule absorbs_fixed [OF i]) (use that po in \<open>simp_all add: read_value_def oneof_group_def\<close>)
  show ?thesis
  proof (cases k)
    case (F_floats p)
    then show ?thesis
      using ok bs floats by (auto simp: written_ok_def value_ok_iff packed_kind_def split: if_splits)
  next
    case (F_doubles p)
    then show ?thesis
      using ok bs doubles by (auto simp: written_ok_def value_ok_iff packed_kind_def split: if_splits)
  next
    case (F_nums t p)
    then show ?thesis
      using ok bs i po by (auto simp: written_ok_def value_ok_iff packed_kind_def absorbs_numbers split: if_splits)
  next
    case F_strs
    then show ?thesis
      using ok bs i by (auto simp: written_ok_def value_ok_iff absorbs_strings)
  qed (use ok bs leaf os string number enum float in
      \<open>auto simp: written_ok_def value_ok_iff write_field_limit_def write_field_string_def
          write_string_def keeps_raw_data_def\<close>)
qed

text \<open>A message in a field: one that replaces the value, the next of a list, the next entry of a map.\<close>

lemma absorbs_message:
  assumes i: "i < length (cls_fields c)" "cls_fields c ! i = (fn, k)" "i < length vs"
    and again: "parses_back os po depth (1, c', m)" and b: "write_message os fn (Some c') m = Inr b"
    and group: "\<And>g. oneof_group k = Some g \<Longrightarrow> clear_oneof g (cls_fields c) (vs[i := u]) = vs[i := u]"
    and read: "\<And>n. read_value po depth (message_parser po n) n k 2 u
      = rd_map W (read_next_field_in_shortended_stream po depth (message_parser po n) c' (default_message c'))"
  shows "absorbs po depth c b (vs[i := u]) (vs[i := W m])"
proof -
  obtain body where body: "SerializeToStream os c' m = Inr body"
    and b': "b = write_field_header fn FIELD_FIXED_SIZE @ write_string body"
    using write_message_string [OF b] by blast
  have "reads (read_next_field_in_shortended_stream po depth (message_parser po n) c' (default_message c'))
      (write_string body) m" if "length (write_string body) < n" for n
    using again body that by (intro reads_sub_message) (auto simp: parses_back_def size_string_def)
  then show ?thesis
    unfolding b' by (intro absorbs_set [OF i] group) (simp_all add: read reads_map)
qed

lemma absorbs_messages:
  assumes i: "i < length (cls_fields c)" "cls_fields c ! i = (fn, F_msgs c')" "i < length vs"
    and again: "\<forall>m \<in> set ms. parses_back os po depth (1, c', m)"
    and written: "write_messages os fn (Some c') ms = Inr bs"
  shows "absorbs po depth c bs (vs[i := V_msgs []]) (vs[i := V_msgs ms])"
proof -
  note bs = write_messages_concat [OF written, THEN conjunct1]
    and each = write_messages_concat [OF written, THEN conjunct2]
  show ?thesis
    unfolding bs
  proof (rule absorbs_repeated)
    fix pre m suf
    assume ms: "ms = pre @ m # suf"
    then obtain b where b: "write_message os fn (Some c') m = Inr b"
      using each by auto
    have "absorbs po depth c b (vs[i := V_msgs pre]) (vs[i := V_msgs (pre @ [m])])"
      using ms again by (intro absorbs_message [OF i _ b, where W = "\<lambda>m. V_msgs (pre @ [m])"])
        (simp_all add: oneof_group_def read_value_def)
    then show "absorbs po depth c (projr (write_message os fn (Some c') m)) (vs[i := V_msgs pre]) (vs[i := V_msgs (pre @ [m])])"
      by (simp only: b sum.sel)
  qed
qed

lemma absorbs_map_entry:
  assumes i: "i < length (cls_fields c)" "cls_fields c ! i = (fn, F_map c')" "i < length vs"
    and again: "parses_back os po depth (2, c', m)" and b: "write_map os fn (Some c') [(key, m)] = Inr b"
    and less: "\<forall>e \<in> set pre. fst e < key"
  shows "absorbs po depth c b (vs[i := V_map pre]) (vs[i := V_map (pre @ [(key, m)])])"
proof -
  obtain body where key: "key \<noteq> []" and body: "SerializeToStream os c' m = Inr body"
    and b': "b = write_field_header fn FIELD_FIXED_SIZE
      @ write_string (write_field_string 1 key @ write_field_header 2 FIELD_FIXED_SIZE @ write_string body)"
    using write_map_entry_string [OF b] by blast
  let ?entry = "write_field_string 1 key @ write_field_header 2 FIELD_FIXED_SIZE @ write_string body"
  show ?thesis
    unfolding b'
  proof (rule absorbs_set [OF i])
    fix n
    assume n: "length (write_string ?entry) < n"
    have "length body < n" and "3 \<le> n"
      using n VarintSize_bounds(1) [of "field_tag 1 FIELD_FIXED_SIZE"]
        VarintSize_bounds(1) [of "of_nat (length ?entry)"] VarintSize_bounds(1) [of "of_nat (length body)"]
      by (simp_all add: size_string_def write_field_string_def size_field_header_def)
    then show "reads (read_value po depth (message_parser po n) n (F_map c') (ucast FIELD_FIXED_SIZE) (V_map pre))
        (write_string ?entry) (V_map (pre @ [(key, m)]))"
      using again body key less by (auto simp: read_value_def parses_back_def intro!: reads_map reads_map_field)
  qed (simp_all add: oneof_group_def)
qed

lemma absorbs_map:
  assumes i: "i < length (cls_fields c)" "cls_fields c ! i = (fn, F_map c')" "i < length vs"
    and sorted: "sorted_wrt (<) (map fst es)"
    and again: "\<forall>e \<in> set es. parses_back os po depth (2, c', snd e)"
    and written: "write_map os fn (Some c') es = Inr bs"
  shows "absorbs po depth c bs (vs[i := V_map []]) (vs[i := V_map es])"
proof -
  note bs = write_map_concat [OF written, THEN conjunct1]
    and each = write_map_concat [OF written, THEN conjunct2]
  show ?thesis
    unfolding bs
  proof (rule absorbs_repeated)
    fix pre e suf
    assume es: "es = pre @ e # suf"
    then obtain b where b: "write_map os fn (Some c') [e] = Inr b"
      using each by auto
    have "\<forall>e' \<in> set pre. fst e' < fst e"
      using sorted unfolding es by (auto simp: sorted_wrt_append)
    then have "absorbs po depth c b (vs[i := V_map pre]) (vs[i := V_map (pre @ [(fst e, snd e)])])"
      using b es again by (intro absorbs_map_entry [OF i]) (simp_all del: write_map.simps)
    then show "absorbs po depth c (projr (write_map os fn (Some c') [e])) (vs[i := V_map pre]) (vs[i := V_map (pre @ [e])])"
      by (simp only: b sum.sel prod.collapse)
  qed
qed

lemma absorbs_sub_messages:
  assumes i: "i < length (cls_fields c)" "cls_fields c ! i = (fn, k)" "i < length vs"
    and unset: "\<And>g. oneof_group k = Some g
        \<Longrightarrow> clear_oneof g (cls_fields c) (vs[i := default_value k]) = vs[i := default_value k]"
    and ok: "value_ok k v" and co: "class_of k = Some c'"
    and subs: "\<forall>x \<in> set (sub_messages k v). parses_back os po depth x"
    and bs: "write_value os fn k v = Inr bs"
  shows "absorbs po depth c bs (vs[i := default_value k]) (vs[i := v])"
proof -
  note one = absorbs_message [OF i, where W = "V_msg \<circ> Some", simplified]
  show ?thesis
  proof (cases k)
    case (F_msg x)
    have "default_value k = V_msg (Some (default_message c'))"
      using default_plain_message [of fn c' c] i(1,2) co F_msg by (metis class_of.simps(1) nth_mem option.inject)
    then show ?thesis
      using F_msg ok co subs bs
      by (auto simp: value_ok_iff sub_messages_def oneof_group_def read_value_def intro!: one)
  next
    case (F_opt_msg x)
    then show ?thesis
      using ok co subs bs
      by (auto simp: value_ok_iff sub_messages_def oneof_group_def default_value_def read_value_def intro!: one)
  next
    case (F_one_msg x g)
    then show ?thesis
      using ok co subs bs unset
      by (auto simp: value_ok_iff sub_messages_def default_value_def read_value_def intro!: one)
  next
    case (F_msgs x)
    then show ?thesis
      using ok co subs bs i
      by (auto simp: value_ok_iff sub_messages_def default_value_def intro!: absorbs_messages)
  next
    case (F_map x)
    then obtain es where "v = V_map es" and "sorted_wrt (<) (map fst es)"
      using ok by (auto simp: value_ok_iff)
    moreover from this have "\<forall>e \<in> set es. parses_back os po depth (2, c', snd e)"
      using subs co by (simp add: sub_messages_def)
    ultimately show ?thesis
      using F_map co bs i absorbs_map [of i c fn c' vs es] by (simp add: default_value_def)
  qed (use co in simp_all)
qed

lemma leaf_default: "class_of k = None \<Longrightarrow> default_value k = default_leaf k"
  by (cases k) (auto simp: default_value_def)

lemma absorbs_value:
  assumes i: "i < length (cls_fields c)" "cls_fields c ! i = (fn, k)" "i < length vs"
    and unset: "\<And>g. oneof_group k = Some g
        \<Longrightarrow> clear_oneof g (cls_fields c) (vs[i := default_value k]) = vs[i := default_value k]"
    and ok: "written_ok k v" and subs: "\<forall>x \<in> set (sub_messages k v). parses_back os po depth x"
    and po: "unlimited po" and os: "\<not> w_skip_raw_data os" and bs: "write_value os fn k v = Inr bs"
  shows "absorbs po depth c bs (vs[i := default_value k]) (vs[i := v])"
proof (cases "class_of k")
  case None
  then show ?thesis
    using absorbs_leaf [OF i _ ok None po os bs] unset by (simp add: leaf_default)
next
  case (Some c')
  then show ?thesis
    using absorbs_sub_messages [OF i unset _ Some subs bs] ok by (simp add: written_ok_def)
qed

section \<open>A whole message\<close>

lemma write_fields_concat:
  "length vs = length fs \<Longrightarrow> write_fields os fs vs = Inr bs \<Longrightarrow>
     bs = concat (map (\<lambda>((fn, k), v). projr (write_value os fn k v)) (zip fs vs))
     \<and> (\<forall>fn k v. ((fn, k), v) \<in> set (zip fs vs) \<longrightarrow> (\<exists>b. write_value os fn k v = Inr b))"
  by (induction vs fs arbitrary: bs rule: list_induct2) auto

text \<open>The fields when the first \<open>j\<close> of them have been read.\<close>

definition read_so_far :: "schema \<Rightarrow> fval list \<Rightarrow> nat \<Rightarrow> fval list" where
  "read_so_far fs vs j = take j vs @ map (default_value \<circ> snd) (drop j fs)"

lemma read_so_far_nth:
  "length vs = length fs \<Longrightarrow> i < length fs
    \<Longrightarrow> read_so_far fs vs j ! i = (if i < j then vs ! i else default_value (snd (fs ! i)))"
  by (auto simp: read_so_far_def nth_append)

lemma length_read_so_far [simp]: "length vs = length fs \<Longrightarrow> length (read_so_far fs vs j) = length fs"
  by (auto simp: read_so_far_def)

lemma read_so_far_step:
  assumes "length vs = length fs" and "j < length fs"
  shows "read_so_far fs vs (Suc j) = (read_so_far fs vs j)[j := vs ! j]"
    and "read_so_far fs vs j = (read_so_far fs vs j)[j := default_value (snd (fs ! j))]"
  using assms by (auto intro!: nth_equalityI simp: read_so_far_nth nth_list_update)

lemma clear_oneof_same:
  assumes "length vs = length fs"
    and "\<And>i. i < length fs \<Longrightarrow> oneof_group (snd (fs ! i)) = Some g \<Longrightarrow> vs ! i = default_leaf (snd (fs ! i))"
  shows "clear_oneof g fs vs = vs"
  using assms by (intro nth_equalityI) (auto simp: clear_oneof_def split_beta)

text \<open>One field: an unset alternative writes nothing, any other field is read after its group.\<close>

lemma absorbs_next_field:
  assumes len: "length vs = length (cls_fields c)" and j: "j < length (cls_fields c)" "cls_fields c ! j = (fn, k)"
    and fields: "fields_ok written_ok (cls_fields c) vs"
    and subs: "\<forall>x \<in> set (field_messages (cls_fields c) vs). parses_back os po depth x"
    and po: "unlimited po" and os: "\<not> w_skip_raw_data os" and b: "write_value os fn k (vs ! j) = Inr b"
  shows "absorbs po depth c b (read_so_far (cls_fields c) vs j) (read_so_far (cls_fields c) vs (Suc j))"
proof -
  let ?fs = "cls_fields c"
  note step = read_so_far_step [OF len j(1)]
  have ok: "written_ok (snd (?fs ! i)) (vs ! i)" if "i < length ?fs" for i
    using fields that unfolding fields_ok_iff by blast
  have okj: "written_ok k (vs ! j)"
    using ok [OF j(1)] j(2) by simp
  show ?thesis
  proof (cases "\<exists>g. oneof_group k = Some g \<and> \<not> is_set (vs ! j)")
    case True
    then have "vs ! j = default_value k"
      using okj by (auto simp: written_ok_def group_default dest: unset_default)
    moreover have "b = []"
      using True b okj by (cases k) (auto simp: oneof_group_def written_ok_def value_ok_iff is_set_def)
    ultimately show ?thesis
      using step j(2) by simp
  next
    case False
    have "clear_oneof g ?fs (read_so_far ?fs vs j) = read_so_far ?fs vs j" if g: "oneof_group k = Some g" for g
    proof (rule clear_oneof_same)
      fix i
      assume i: "i < length ?fs" and gi: "oneof_group (snd (?fs ! i)) = Some g"
      have "\<not> is_set (vs ! i)" if "i < j"
        using fields that i gi j g False unfolding fields_ok_iff by (metis less_irrefl snd_conv)
      then show "read_so_far ?fs vs j ! i = default_leaf (snd (?fs ! i))"
        using ok [OF i] gi i len by (auto simp: read_so_far_nth group_default written_ok_def dest: unset_default)
    qed (use len in simp)
    moreover have "\<forall>x \<in> set (sub_messages k (vs ! j)). parses_back os po depth x"
      using subs j len in_field_messages by (metis length_zip min.idem nth_mem nth_zip)
    ultimately show ?thesis
      using absorbs_value [OF j, of "read_so_far ?fs vs j" "vs ! j" os po depth b] step len j b po os okj
      by simp
  qed
qed

lemma absorbs_fields:
  assumes len: "length vs = length (cls_fields c)" and fields: "fields_ok written_ok (cls_fields c) vs"
    and subs: "\<forall>x \<in> set (field_messages (cls_fields c) vs). parses_back os po depth x"
    and po: "unlimited po" and os: "\<not> w_skip_raw_data os" and bs: "write_fields os (cls_fields c) vs = Inr bs"
  shows "absorbs po depth c bs (read_so_far (cls_fields c) vs 0) vs"
proof -
  let ?fs = "cls_fields c"
  note written = write_fields_concat [OF len bs]
  define enc where "enc = (\<lambda>((fn, k), v). projr (write_value os fn k v))"
  have "absorbs po depth c (concat (map enc (take j (zip ?fs vs)))) (read_so_far ?fs vs 0) (read_so_far ?fs vs j)"
    if "j \<le> length ?fs" for j
    using that
  proof (induction j)
    case (Suc j)
    then have j: "j < length ?fs" by simp
    obtain fn k where f: "?fs ! j = (fn, k)" by force
    have "((fn, k), vs ! j) \<in> set (zip ?fs vs)"
      using j f len by (metis length_zip min.idem nth_mem nth_zip)
    then obtain b where b: "write_value os fn k (vs ! j) = Inr b"
      using written by blast
    have "enc (zip ?fs vs ! j) = b"
      using b f j len by (simp add: enc_def)
    then show ?case
      using Suc j len absorbs_next_field [OF len j f fields subs po os b]
      by (auto simp: take_Suc_conv_app_nth intro: absorbs_trans)
  qed simp
  from this [of "length ?fs"] show ?thesis
    using written len by (simp add: enc_def read_so_far_def)
qed

lemma parse_written_message:
  assumes "well_shaped written_ok d c m" and "int (depth + d) \<le> max_recursion_depth po" and "unlimited po"
    and "\<not> w_skip_raw_data os" and "SerializeToStream os c m = Inr bs" and "length bs < n"
  shows "parses (message_parser po n depth c (default_message c)) bs m"
  using assms
proof (induction m arbitrary: d c depth bs n rule: measure_induct_rule [of size])
  case (less m)
  obtain vs where m: "m = Msg vs" by (cases m)
  let ?fs = "cls_fields c"
  note wf = less.prems(1) [unfolded m]
  have fields: "fields_ok written_ok ?fs vs"
    using wf by simp
  then have len: "length vs = length ?fs"
    by (simp add: fields_ok_def)
  have "parses_back os po depth x" if "x \<in> set (field_messages ?fs vs)" for x
  proof -
    obtain l c' m' where x: "x = (l, c', m')" by (cases x)
    have "l \<le> d" and "well_shaped written_ok (d - l) c' m'" and "size m' < size m"
      using wf that x field_messages_size m by (auto simp: list_all_iff)
    then show ?thesis
      using less.IH [of m' "d - l" c' "depth + l"] less.prems(2-4) unfolding x parses_back_def by auto
  qed
  moreover have "write_fields os ?fs vs = Inr bs"
    using less.prems(5) m by simp
  ultimately have "absorbs po depth c bs (read_so_far ?fs vs 0) vs"
    using absorbs_fields [OF len fields] less.prems(3,4) by blast
  from absorbs_parses [OF this less.prems(6)] show ?case
    by (simp add: read_so_far_def default_message_def m)
qed

section \<open>Properties\<close>

text \<open>C15: \<open>ParseFromString\<close> gives back the message that \<open>SerializeToString\<close> wrote, for every message class
  of \<open>onnx_proto\<close>.  The message has the shape that the accessors give it (\<open>writable_message\<close>: every field has
  a value of its kind, numbers fit their type, at most one alternative of a group is set, the keys of
  a map are sorted and not empty, and the \<open>domain\<close> of an \<open>OperatorSetIdProto\<close> is set, since the writer
  writes it in any case), it is nested no deeper than the parser's \<open>max_recursion_depth\<close>, the parser
  has no allocation limit and neither side skips raw data, and the result has less than 2 ^ 63 bytes.
  The \<open>domain\<close> condition is needed: an unset one is written as the empty string.
\<close>

theorem messages_round_trip:
  assumes "writable_message d c m" and "int d \<le> max_recursion_depth po" and "unlimited po"
    and "\<not> w_skip_raw_data os"
    and written: "SerializeToString os c m = Inr (Some bytes)" and size: "length bytes < 2 ^ 63"
  shows "ParseFromString po c bytes = Parsed m"
proof -
  obtain n where n: "SerializeSize os c m = Inr n"
    using written by (auto simp: SerializeToString_def)
  then have body: "SerializeToStream os c m = Inr bytes"
    using written_sizes(1) [OF n] written by (auto simp: SerializeToString_def split: if_splits)
  have "parses (message_parser po (Suc (length bytes)) 0 c (default_message c)) bytes m"
    using assms(1-4) body by (intro parse_written_message [of d]) (simp_all add: writable_message_def)
  moreover have "visible (StringStream bytes) = bytes"
    by (simp add: visible_def StringStream_def)
  ultimately have "ParseFromStream po (Suc (length bytes)) 0 c (default_message c) (StringStream bytes)
      = (Inr m, adv (length bytes) (StringStream bytes))"
    using reader_ok_StringStream [OF size] by (simp add: parses_def)
  then show ?thesis
    by (simp add: ParseFromString_def destructor_aborts_def) (simp add: StringStream_def)
qed

text \<open>A tensor with dimensions, packed numbers, raw bytes and a list of entries.\<close>

definition sample_tensor :: msg where
  "sample_tensor = Msg [V_nums [2, 300], V_num (Some 7), V_msg (Some (Msg [V_num (Some 0), V_num None])),
     V_num None, V_str (Some [0x77]), V_str (Some [1, 2, 255]), V_str None,
     V_msgs [Msg [V_str (Some [0x6B]), V_str None]], V_msgs [], V_doubles [], V_floats [0x3F800000],
     V_nums [- 1, 5], V_nums [], V_nums [], V_strs [[], [0x61]]]"

definition sample_options :: serialize_options where
  "sample_options = \<lparr>w_skip_raw_data = False, w_raw_data_threshold = 0, max_serialized_size_bytes = 0\<rparr>"

lemma messages_round_trip_witness:
  "ParseFromString default_parse_options C_TensorProto
     [0x08, 2, 0x08, 0xAC, 2, 0x10, 7, 0x1A, 2, 0x08, 0, 0x42, 1, 0x77, 0x4A, 3, 1, 2, 255,
      0x6A, 3, 0x0A, 1, 0x6B, 0x22, 4, 0, 0, 0x80, 0x3F,
      0x2A, 11, 255, 255, 255, 255, 255, 255, 255, 255, 255, 1, 5, 0x32, 0, 0x32, 1, 0x61]
   = Parsed sample_tensor"
proof (rule messages_round_trip [of 1 _ _ _ sample_options])
  show "writable_message 1 C_TensorProto sample_tensor"
    by code_simp
  show "SerializeToString sample_options C_TensorProto sample_tensor = Inr (Some
     [0x08, 2, 0x08, 0xAC, 2, 0x10, 7, 0x1A, 2, 0x08, 0, 0x42, 1, 0x77, 0x4A, 3, 1, 2, 255,
      0x6A, 3, 0x0A, 1, 0x6B, 0x22, 4, 0, 0, 0x80, 0x3F,
      0x2A, 11, 255, 255, 255, 255, 255, 255, 255, 255, 255, 1, 5, 0x32, 0, 0x32, 1, 0x61])"
    by code_simp
qed (simp_all add: unlimited_def default_parse_options_def sample_options_def)

end
