(* ===== verification/Spec2Isabelle.thy ===== *)
theory Spec2Isabelle
  imports ExprSimplify ExprDims ExprRename Float8Sound Allocators AnnotatedPlan IncrementalSound
    TensorSound StructSizes StructValid EncodedSound PagedCaches PersistenceSound VerifiedPlans
    WireRoundTrip
begin

text \<open>
  Verification of onnx-light.

  The program.  onnx-light reads and writes ONNX models, infers shapes, optimizes graphs and runs
  them.  Shape inference works with symbolic dimensions, which are texts such as \<open>2*batch+1\<close>; the
  expression engine (\<open>onnx_core/expressions\<close>) parses, evaluates, simplifies, compares and renames them,
  on top of checked 64-bit arithmetic (\<open>onnx_lib/common/safe_math.h\<close>).  The runtime keeps tensors in
  buffers that an allocator hands out (\<open>onnx_core/compute/raw_buffer_allocator.cc\<close>), gives graph outputs
  to external owners through leases, and converts elements between formats, the 8-bit floats
  among them (\<open>onnx_core/runtime/kernels/cast_float8.cc\<close>).  Before a graph runs, the compute layer
  (\<open>onnx_core/compute\<close>) finds where each result is used for the last time, which nodes may write their
  output into a dying input, and the list of actions, node executions and releases, that the runtime
  performs.  Models come from files that need not be trusted: the message classes
  (\<open>src/onnx_proto/src/onnx.cc\<close>) read and write the protobuf wire format, and the verifier
  (\<open>src/onnx_proto/src/onnx_verify.cc\<close>) checks the messages of a model before anything else uses them.
  All other paths are under \<open>src/onnx_light\<close>.

  Conventions.  C++ results are values of the sum type \<open>res\<close> of Prelude, an exception being an \<open>Inl\<close>;
  \<open>Undefined\<close> marks undefined behaviour, so that theorems can exclude it.  An \<open>int64_t\<close> is an \<open>int\<close> with
  its range written out, a bit pattern is a word, \<open>size_t\<close> in the allocators is a \<open>nat\<close> because every
  counter is the sum of sizes held at the same time.  \<open>std::map\<close> is a sorted association list or a
  finite map.  A pointer is an index into the container that owns the object.

  The theories, in the order of the program's layers.

  Prelude holds the outcomes and their sequencing, the signed range and the division lemmas.
  SafeMath models the checked operations, both the builtin and the portable branch, and shows that
  the branches agree and are exact.  Decimal models \<open>std::to_string\<close> and \<open>std::from_chars\<close>.

  ExprSyntax (trees and the evaluator), ExprParser (tokenizer and recursive descent) and ExprUnparse
  (printer) follow \<open>expressions.cc\<close> function by function.  ExprGrammar states the language as an
  inductive relation and shows that the parser accepts it and that it is unambiguous; ExprRoundTrip
  shows which tree the parser gives for a printed one: the same when products and sums lean to the
  left, otherwise the left-leaning one, which for \<open>a*(b//c)\<close> has another value.  The evaluator is exact:
  it returns the mathematical value, the error of a zero divisor, or \<open>Undefined\<close> exactly when a step
  leaves the range of \<open>int64_t\<close>.  The parser's recursion carries a bound; the bound it is
  started with, the length of the text plus three, is shown to be enough, so the parser terminates
  for every text.

  ExprPasses and ExprPipeline model the rewriting passes and \<open>apply_pipeline\<close>; ExprSound, ExprSoundMul,
  ExprSoundDiv and ExprSoundRing show, pass by pass, that the value of a tree is kept, on the
  fragment \<open>tame\<close> where the source's rewrites are valid (the findings show what happens outside of
  it).  ExprLinear models the visitor that collects a linear combination, the printing of its
  result and \<open>compare_expressions\<close>; ExprLinearSound, ExprPrint and ExprSimplify show that the printed
  text keeps the value and that a comparison is sound.  ExprDims models the dimension operations
  with their cache, and \<open>DimSum\<close>; ExprRename the renaming functions, whose loop runs at most as often as
  there are names that are not original, and the inference of dimension ranges.

  Float8 models every conversion of \<open>cast_float8.cc\<close> on bit patterns.  Float8Rounding states, on the
  numbers the patterns stand for, what rounding to nearest with ties to even is, and shows that each
  encoder does it; Float8Sound has the decoders, the round trips and the behaviour on overflow.

  RawBufferAllocator states the interface of the allocators as a locale over an abstract pool, and an
  extension of it for leases.  SimpleAllocator, ExecutionArena and IOArena are the three allocators,
  each of which interprets the locale; ArenaCore holds what the two arenas share (the free lists by
  capacity of FreeBuckets, the eviction loop, trimming) and ArenaLemmas one preservation lemma per
  step.  IOLease models \<open>IOLease\<close> and \<open>AllocationHandle\<close> and runs their operations in any order over one
  arena.  Allocators has the properties: refinement of the pool, consistency of every reachable
  state, least-recently-freed eviction, best fit, unique ownership.  The growth policy of
  \<open>std::vector\<close> and the failure of the system to provide memory are the parameter \<open>realloc\<close>, of which
  the theorems assume what the standard says: the new capacity is at least the size.

  GraphNames has the graphs the compute layer reads, reduced to names, nodes and subgraph attributes,
  and the functions of \<open>graph_manipulations.cc\<close>; the remaining inputs that it reports are shown to be
  what the outputs can be computed from, by rules that do not mention its marks.  A subgraph makes the type of graphs nested, so its
  functions recurse over nodes, attributes and graphs together.  ResultLifetime models the two sweeps
  of \<open>result_lifetime.cc\<close> and the states of results; it shows that a result is released once, after its
  last use.  LifetimeMetadata models the annotations that carry this analysis in the properties of
  the nodes, with the encoding of names, and shows that reading them gives what was written.
  ExecutionPlan models the constructors of \<open>execution_plan.cc\<close>, which count the uses that remain from
  the back and emit an action list; PlanSafety runs the actions over the set of live values and
  shows that no node reads a released value, also when values may alias inputs; AnnotatedPlan has
  the annotation of a graph as a whole (liveness, reuse choice, metadata) and connects it with the plan.

  InplaceReuse models \<open>inplace_reuse.cc\<close>: sizes of results as products of dimensions, whether a dying
  input can hold the output, and the choice over all nodes.  Its theorem says that two results never
  hold one buffer while both are needed, under hypotheses on the descriptors; the findings show
  inputs outside of them.  IncrementalLifetime models how the builder's \<open>ComputeContext\<close> keeps the
  lifetimes up to date while nodes are appended; CacheTransparency shows that the caches of the
  analysis do not change its result, and IncrementalSound that after a sequence of calls that declares
  inputs before their use and appends nodes with new outputs, with shape inference at any point, the
  state is the one the whole-graph analysis gives.

  Messages has the fields of the protobuf messages that the verifier reads, and its \<open>Require\<close>.  The
  verifier's functions are modelled one by one, every check a branch that ends in \<open>InvalidArgument\<close>.
  TensorCheck has \<open>VerifyTensor\<close> and the exact payload check of constants; TensorSound shows that an
  accepted payload holds the declared elements, and exactly which shapes overflow the unchecked
  product.  StructTypes has the catalogue of structured types with the walk that remembers what it
  has measured or validated; its recursion ends because the depth that the code limits to 64 is a
  measure of it.  StructSizes and StructValid give sizes and validity by rules, with no walk, and
  show that the walk agrees with them within the limit and that an accepted catalogue has no cycle.
  EncodedValues and PagedCaches model payload locations, quantized layouts and paged caches;
  EncodedSound shows that every code and scale of an accepted value is in bounds, PagedCaches that
  the pages tile the tokens.  Persistence and PersistenceSound treat the bindings of graph outputs to
  graph inputs: the count of uses, with names hidden by nested graphs, against the set of names a
  graph uses.  VerifyGraph has the recursion over graphs, nodes and attributes with their scopes,
  functions, models and pipelines.  VerifySound shows that its walk accepts exactly the bodies that are
  in order and maps the messages to the graphs of GraphNames; VerifiedPlans composes the two layers: an
  accepted model without earlier annotations is analysed, annotated, planned by the constructor with
  its check of persistent inputs, and run to its end.

  WireStream models the in-memory reader and the encoders of \<open>src/onnx_proto/src/stream.cc\<close>, with the stack
  of limits that the destructor checks; WireSchema lists the fields of the 46 message classes of
  \<open>onnx.cc\<close>; WireMessages has the size pass and the write pass of \<open>stream_class_size.hpp\<close> and
  \<open>stream_class_write.hpp\<close>, WireParse the templates of \<open>stream_class_read.hpp\<close>, the dispatch of the
  \<open>READ_\<close> macros and \<open>ParseFromString\<close>.  The parser's recursion carries a bound, the length of the input
  plus one.  WireTyped says when a message has the shape that the accessors of \<open>onnx.h\<close> give it.
  WireSafety shows, by a triple that composes along the reading functions, that the bound is enough on
  any bytes and that an accepted message has this shape; WireRoundTrip, by a relation that follows the
  bytes of a message field by field, that parsing what was written gives the message back.

  Not modelled.  Of the wire format: external weights, deferred and parallel reads, callbacks, the
  ORT FlatBuffers format, and streams over files.  Of the compute layer: memory profiles, the inference of tags, and the edits of nodes
  in place (\<open>RefreshNodes\<close>, \<open>UpdateNodes\<close>, \<open>EraseValue\<close>).  Of the verifier: the texts of its errors and the
  reasons of a failed measurement; paths are those of POSIX.  The contents of buffers, and memory
  exhaustion of the containers the allocators keep their lists in.  The texts of parse errors.  The rest of the repository: the graph
  builder, the pattern optimizer, the per-operator shape functions and the gradient, which are walks
  over generated protobuf classes with shared pointers; the numeric kernels, whose arithmetic is the
  platform's; the thread pool, file access and kernel tuning; the operator schemas, which are tables;
  the bindings, tests and benchmarks.
\<close>

end
